(* ===== verification/Prelude.thy ===== *)
theory Prelude
  imports Main "HOL-Library.AList"
begin

text \<open>
  The shared layer of the development: Python exceptions as values, the result type and
  its sequencing, and the few facts about insertion-ordered dictionaries that every
  component uses.

  A Python \<open>dict\<close> keeps its keys in insertion order, and assigning to an existing key
  keeps that key's place. The model is an association list with \<^const>\<open>AList.update\<close>
  (overwrite in place or append) and \<^const>\<open>AList.delete\<close> (\<open>pop\<close> with a default);
  \<^const>\<open>map_of\<close> is lookup.
\<close>

named_theorems codec \<open>round trips of the binary and textual encodings\<close>
named_theorems inbox_simps \<open>how each inbox operation changes the classification\<close>

subsection \<open>Exceptions as values\<close>

datatype py_error =
    ValueError | TypeError | KeyError | IndexError | StructError | OverflowError
  | UnicodeEncodeError | UnicodeDecodeError | JSONDecodeError | OSError | RuntimeError | CsvError | ZeroDivisionError

type_synonym 'a res = "py_error + 'a"

fun rbind :: "'a res \<Rightarrow> ('a \<Rightarrow> 'b res) \<Rightarrow> 'b res" where
  "rbind (Inl e) f = Inl e"
| "rbind (Inr x) f = f x"

definition require :: "bool \<Rightarrow> py_error \<Rightarrow> unit res" where
  "require b e = (if b then Inr () else Inl e)"

primrec rmap :: "('a \<Rightarrow> 'b res) \<Rightarrow> 'a list \<Rightarrow> 'b list res" where
  "rmap f [] = Inr []"
| "rmap f (x # xs) = rbind (f x) (\<lambda>y. rbind (rmap f xs) (\<lambda>ys. Inr (y # ys)))"

lemma rbind_eq_Inr [simp]: "rbind m f = Inr y \<longleftrightarrow> (\<exists>x. m = Inr x \<and> f x = Inr y)"
  by (cases m) auto

lemma rbind_eq_Inl: "rbind m f = Inl e \<longleftrightarrow> m = Inl e \<or> (\<exists>x. m = Inr x \<and> f x = Inl e)"
  by (cases m) auto

lemma require_eq_Inr [simp]: "require b e = Inr u \<longleftrightarrow> b"
  by (simp add: require_def)

lemma require_True [simp]: "require True e = Inr ()"
  by (simp add: require_def)

lemma require_False [simp]: "require False e = Inl e"
  by (simp add: require_def)

lemma rmap_Inr_length: "rmap f xs = Inr ys \<Longrightarrow> length ys = length xs"
  by (induction xs arbitrary: ys) auto

lemma rmap_nth: "rmap f xs = Inr ys \<Longrightarrow> i < length xs \<Longrightarrow> f (xs ! i) = Inr (ys ! i)"
  by (induction xs arbitrary: ys i) (auto simp: nth_Cons split: nat.splits)

lemma rmap_cong_Inr: "(\<And>x. x \<in> set xs \<Longrightarrow> f x = Inr (g x)) \<Longrightarrow> rmap f xs = Inr (map g xs)"
  by (induction xs) auto

lemma rmap_map: "(\<And>x. x \<in> set xs \<Longrightarrow> f (g x) = Inr x) \<Longrightarrow> rmap f (map g xs) = Inr xs"
  by (induction xs) auto

lemma rmap_roundtrip:
  assumes "\<And>x y. x \<in> set xs \<Longrightarrow> f x = Inr y \<Longrightarrow> g y = Inr x"
  shows "rmap f xs = Inr ys \<Longrightarrow> rmap g ys = Inr xs"
  using assms by (induction xs arbitrary: ys) auto

lemma rmap_append:
  "rmap f (xs @ ys) = Inr zs \<longleftrightarrow> (\<exists>as bs. rmap f xs = Inr as \<and> rmap f ys = Inr bs \<and> zs = as @ bs)"
proof (induction xs arbitrary: zs)
  case (Cons x xs)
  then show ?case by (simp add: Cons_eq_append_conv) fastforce
qed simp

subsection \<open>Methods that may raise after mutating their object\<close>

text \<open>
  A method is a function from the object's state to its outcome and the state it leaves,
  so that an exception raised half way keeps the mutations made before it.
\<close>

type_synonym ('s, 'a) act = "'s \<Rightarrow> 'a res \<times> 's"

definition abind :: "('s, 'a) act \<Rightarrow> ('a \<Rightarrow> ('s, 'b) act) \<Rightarrow> ('s, 'b) act" where
  "abind m f s = (case m s of (Inl e, s') \<Rightarrow> (Inl e, s') | (Inr x, s') \<Rightarrow> f x s')"

definition areturn :: "'a \<Rightarrow> ('s, 'a) act" where
  "areturn x s = (Inr x, s)"

definition araise :: "py_error \<Rightarrow> ('s, 'a) act" where
  "araise e s = (Inl e, s)"

definition aget :: "('s \<Rightarrow> 'a) \<Rightarrow> ('s, 'a) act" where
  "aget f s = (Inr (f s), s)"

definition amodify :: "('s \<Rightarrow> 's) \<Rightarrow> ('s, unit) act" where
  "amodify f s = (Inr (), f s)"

definition alift :: "'a res \<Rightarrow> ('s, 'a) act" where
  "alift r s = (r, s)"

primrec afor :: "('a \<Rightarrow> ('s, unit) act) \<Rightarrow> 'a list \<Rightarrow> ('s, unit) act" where
  "afor f [] = areturn ()"
| "afor f (x # xs) = abind (f x) (\<lambda>_. afor f xs)"

lemma afor_cong [fundef_cong]:
  "xs = ys \<Longrightarrow> (\<And>x. x \<in> set ys \<Longrightarrow> f x = g x) \<Longrightarrow> afor f xs = afor g ys"
  by (induction xs arbitrary: ys) auto

text \<open>A method of a component, called on the object that holds the component.\<close>

definition azoom :: "('s \<Rightarrow> 't) \<Rightarrow> ('t \<Rightarrow> 's \<Rightarrow> 's) \<Rightarrow> ('t, 'a) act \<Rightarrow> ('s, 'a) act" where
  "azoom get put m s = (case m (get s) of (r, t) \<Rightarrow> (r, put t s))"

lemmas act_defs = abind_def areturn_def araise_def aget_def amodify_def alift_def azoom_def

lemma abind_eq_Inr:
  "abind m f s = (Inr y, s'') \<longleftrightarrow> (\<exists>x s'. m s = (Inr x, s') \<and> f x s' = (Inr y, s''))"
  by (auto simp: abind_def split: prod.splits sum.splits)

text \<open>Methods that leave an observation of their object as it was, on every outcome.\<close>

named_theorems keeps_intros \<open>methods that keep an observation\<close>

definition keeps :: "('s \<Rightarrow> 'b) \<Rightarrow> ('s, 'a) act \<Rightarrow> bool" where
  "keeps g m \<longleftrightarrow> (\<forall>s. g (snd (m s)) = g s)"

lemma keepsD: "keeps g m \<Longrightarrow> m s = (r, s') \<Longrightarrow> g s' = g s"
  by (metis keeps_def snd_conv)

lemma keeps_simple [keeps_intros]:
  "keeps g (areturn x)" "keeps g (araise e)" "keeps g (aget f)" "keeps g (alift r)"
  by (simp_all add: keeps_def act_defs)

lemma keeps_amodify [keeps_intros]: "(\<And>s. g (f s) = g s) \<Longrightarrow> keeps g (amodify f)"
  by (simp add: keeps_def act_defs)

lemma keeps_abind [keeps_intros]: "keeps g m \<Longrightarrow> (\<And>x. keeps g (f x)) \<Longrightarrow> keeps g (abind m f)"
  by (auto simp: keeps_def abind_def split: prod.splits sum.splits) (metis snd_conv)+

lemma keeps_afor [keeps_intros]: "(\<And>x. x \<in> set xs \<Longrightarrow> keeps g (f x)) \<Longrightarrow> keeps g (afor f xs)"
  by (induction xs) (auto intro: keeps_intros)

subsection \<open>Dictionaries\<close>

abbreviation dset :: "'k \<Rightarrow> 'v \<Rightarrow> ('k \<times> 'v) list \<Rightarrow> ('k \<times> 'v) list" where
  "dset \<equiv> AList.update"

abbreviation dpop :: "'k \<Rightarrow> ('k \<times> 'v) list \<Rightarrow> ('k \<times> 'v) list" where
  "dpop \<equiv> AList.delete"

definition dget :: "('k \<times> 'v) list \<Rightarrow> 'k \<Rightarrow> 'v \<Rightarrow> 'v" where
  "dget d k v = (case map_of d k of None \<Rightarrow> v | Some w \<Rightarrow> w)"

definition dict_wf :: "('k \<times> 'v) list \<Rightarrow> bool" where
  "dict_wf d \<longleftrightarrow> distinct (map fst d)"

lemma map_of_dset [simp]: "map_of (dset k v d) = (map_of d)(k \<mapsto> v)"
  by (rule update_conv')

lemma map_of_dpop [simp]: "map_of (dpop k d) = (map_of d)(k := None)"
  by (rule delete_conv')

lemma dget_dset [simp]: "dget (dset k v d) k' w = (if k' = k then v else dget d k' w)"
  by (simp add: dget_def)

lemma dget_dpop [simp]: "dget (dpop k d) k' w = (if k' = k then w else dget d k' w)"
  by (simp add: dget_def)

lemma dget_Nil [simp]: "dget [] k v = v"
  by (simp add: dget_def)

lemma dget_Cons: "dget ((k, v) # d) k' w = (if k' = k then v else dget d k' w)"
  by (simp add: dget_def)

lemma dict_wf_Nil [simp]: "dict_wf []"
  by (simp add: dict_wf_def)

lemma dict_wf_Cons [simp]: "dict_wf ((k, v) # d) \<longleftrightarrow> map_of d k = None \<and> dict_wf d"
  by (simp add: dict_wf_def map_of_eq_None_iff)

lemma dict_wf_dset [simp]: "dict_wf d \<Longrightarrow> dict_wf (dset k v d)"
  by (simp add: dict_wf_def distinct_update)

lemma dict_wf_dpop [simp]: "dict_wf d \<Longrightarrow> dict_wf (dpop k d)"
  by (simp add: dict_wf_def distinct_delete)

lemma dpop_absent: "map_of d k = None \<Longrightarrow> dpop k d = d"
  by (simp add: delete_id map_of_eq_None_iff)

lemma dset_absent: "map_of d k = None \<Longrightarrow> dset k v d = d @ [(k, v)]"
  by (induction d) auto

lemma dset_same: "map_of d k = Some v \<Longrightarrow> dset k v d = d"
  by (induction d) auto

lemma dpop_dset: "map_of d k = None \<Longrightarrow> dpop k (dset k v d) = d"
  by (simp add: dset_absent) (simp add: AList.delete_eq filter_id_conv map_of_eq_None_iff, force)

text \<open>Every value of a dictionary satisfies a predicate.\<close>

definition dict_all :: "('v \<Rightarrow> bool) \<Rightarrow> ('k \<times> 'v) list \<Rightarrow> bool" where
  "dict_all P d \<longleftrightarrow> (\<forall>v \<in> snd ` set d. P v)"

lemma dict_all_Nil [simp]: "dict_all P []"
  by (simp add: dict_all_def)

lemma dict_all_lookup: "dict_all P d \<Longrightarrow> map_of d k = Some v \<Longrightarrow> P v"
  by (force simp: dict_all_def dest: map_of_SomeD)

lemma dict_all_dget: "dict_all P d \<Longrightarrow> P v \<Longrightarrow> P (dget d k v)"
  using dict_all_lookup [of P d k] by (simp add: dget_def split: option.splits)

lemma dict_all_dset [simp]: "dict_all P d \<Longrightarrow> P v \<Longrightarrow> dict_all P (dset k v d)"
  unfolding dict_all_def by (induction d) auto

lemma dict_all_dpop [simp]: "dict_all P d \<Longrightarrow> dict_all P (dpop k d)"
  by (auto simp: dict_all_def AList.delete_eq)

text \<open>Building a dictionary from pairs, later pairs overwriting earlier ones.\<close>

definition py_dict :: "('k \<times> 'v) list \<Rightarrow> ('k \<times> 'v) list" where
  "py_dict kvs = foldl (\<lambda>d (k, v). dset k v d) [] kvs"

lemma py_dict_id: "dict_wf kvs \<Longrightarrow> py_dict kvs = kvs"
proof (induction kvs rule: rev_induct)
  case (snoc kv kvs)
  then have "py_dict kvs = kvs" "map_of kvs (fst kv) = None"
    by (auto simp: dict_wf_def map_of_eq_None_iff)
  then show ?case by (cases kv) (simp add: py_dict_def dset_absent)
qed (simp add: py_dict_def)

end
