(* ===== verification/Bytes.thy ===== *)
theory Bytes
  imports Prelude "HOL-Library.Word"
begin

text \<open>
  Byte strings and the bounds-checked binary readers of
  \<open>common/fault_tolerance/_encoding.py\<close>: big-endian unsigned integers as
  \<open>struct.pack\<close> and \<open>int.to_bytes\<close> produce them, and the length-prefixed reads.
\<close>

type_synonym byte = "8 word"
type_synonym bytes = "8 word list"

definition byte_of :: "nat \<Rightarrow> byte" where
  "byte_of n = of_nat n"

lemma unat_byte_of [simp]: "n < 256 \<Longrightarrow> unat (byte_of n) = n"
  by (simp add: byte_of_def unat_of_nat)

lemma byte_of_unat [simp]: "byte_of (unat b) = b"
  by (simp add: byte_of_def)

lemma unat_byte_less [simp]: "unat (b :: byte) < 256"
  using unsigned_less [of b] by simp

subsection \<open>Big-endian integers\<close>

fun be_bytes :: "nat \<Rightarrow> nat \<Rightarrow> bytes" where
  "be_bytes 0 n = []"
| "be_bytes (Suc k) n = be_bytes k (n div 256) @ [byte_of (n mod 256)]"

definition be_nat :: "bytes \<Rightarrow> nat" where
  "be_nat bs = foldl (\<lambda>a b. a * 256 + unat b) 0 bs"

lemma length_be_bytes [simp]: "length (be_bytes k n) = k"
  by (induction k n rule: be_bytes.induct) auto

lemma be_nat_Nil [simp]: "be_nat [] = 0"
  by (simp add: be_nat_def)

lemma be_nat_snoc [simp]: "be_nat (bs @ [b]) = be_nat bs * 256 + unat b"
  by (simp add: be_nat_def)

lemma be_nat_be_bytes [codec]: "n < 256 ^ k \<Longrightarrow> be_nat (be_bytes k n) = n"
proof (induction k n rule: be_bytes.induct)
  case (2 k n)
  then have "n div 256 < 256 ^ k"
    by (simp add: less_mult_imp_div_less mult.commute)
  with 2 have "be_nat (be_bytes k (n div 256)) = n div 256" by simp
  then show ?case by simp
qed simp

lemma be_nat_less: "be_nat bs < 256 ^ length bs"
proof (induction bs rule: rev_induct)
  case (snoc b bs)
  have "unat b < 256" by simp
  with snoc show ?case by (simp del: unat_byte_less)
qed simp

lemma be_bytes_be_nat [codec]: "length bs = k \<Longrightarrow> be_bytes k (be_nat bs) = bs"
proof (induction bs arbitrary: k rule: rev_induct)
  case (snoc b bs)
  have b: "unat b < 256" by simp
  then have "(be_nat bs * 256 + unat b) div 256 = be_nat bs"
    and "(be_nat bs * 256 + unat b) mod 256 = unat b" by auto
  with snoc show ?case by (cases k) auto
qed simp

subsection \<open>struct.pack and the readers\<close>

definition pack_uint :: "nat \<Rightarrow> int \<Rightarrow> bytes res" where
  "pack_uint k n = (if 0 \<le> n \<and> n < 256 ^ k then Inr (be_bytes k (nat n)) else Inl StructError)"

definition MAX_UINT16 :: nat where "MAX_UINT16 = 2 ^ 16 - 1"
definition MAX_UINT32 :: nat where "MAX_UINT32 = 2 ^ 32 - 1"

definition read_exact :: "bytes \<Rightarrow> nat \<Rightarrow> nat \<Rightarrow> (bytes \<times> nat) res" where
  "read_exact data offset n =
     (let end = offset + n in
      if end > length data then Inl ValueError
      else Inr (take n (drop offset data), end))"

definition read_uint :: "nat \<Rightarrow> bytes \<Rightarrow> nat \<Rightarrow> (int \<times> nat) res" where
  "read_uint k data offset =
     rbind (read_exact data offset k) (\<lambda>(raw, new_offset). Inr (int (be_nat raw), new_offset))"

definition read_uint8 :: "bytes \<Rightarrow> nat \<Rightarrow> (int \<times> nat) res" where
  "read_uint8 = read_uint 1"

definition read_uint16 :: "bytes \<Rightarrow> nat \<Rightarrow> (int \<times> nat) res" where
  "read_uint16 = read_uint 2"

definition read_uint32 :: "bytes \<Rightarrow> nat \<Rightarrow> (int \<times> nat) res" where
  "read_uint32 = read_uint 4"

definition read_length_prefixed_u16 :: "bytes \<Rightarrow> nat \<Rightarrow> (bytes \<times> nat) res" where
  "read_length_prefixed_u16 data offset =
     rbind (read_uint16 data offset) (\<lambda>(len, offset). read_exact data offset (nat len))"

definition read_length_prefixed_u32 :: "bytes \<Rightarrow> nat \<Rightarrow> (bytes \<times> nat) res" where
  "read_length_prefixed_u32 data offset =
     rbind (read_uint32 data offset) (\<lambda>(len, offset). read_exact data offset (nat len))"

lemmas read_uint_defs = read_uint8_def read_uint16_def read_uint32_def

lemma pack_uint_Inr:
  "pack_uint k n = Inr bs \<longleftrightarrow> 0 \<le> n \<and> n < 256 ^ k \<and> bs = be_bytes k (nat n)"
  by (auto simp: pack_uint_def)

lemma pack_uint_of_nat [simp]: "n < 256 ^ k \<Longrightarrow> pack_uint k (int n) = Inr (be_bytes k n)"
  unfolding pack_uint_def
  by (metis nat_int of_nat_0_le_iff of_nat_less_iff of_nat_numeral of_nat_power)

lemma pack_uint_length: "pack_uint k n = Inr bs \<Longrightarrow> length bs = k"
  by (auto simp: pack_uint_Inr)

subsection \<open>What it means for a reader to read an encoding\<close>

text \<open>
  A reader takes the whole buffer and an offset and returns the value and the offset after
  it. \<open>reads p enc x\<close> says that \<open>p\<close> reads \<open>x\<close> from \<open>enc\<close> wherever \<open>enc\<close> starts at the
  offset, whatever comes before and after it. The rules below compose readers the way the
  code sequences them.
\<close>

type_synonym 'a reader = "bytes \<Rightarrow> nat \<Rightarrow> ('a \<times> nat) res"

definition remaining :: "bytes \<Rightarrow> nat \<Rightarrow> bytes \<Rightarrow> bool" where
  "remaining data offset rest \<longleftrightarrow> offset \<le> length data \<and> drop offset data = rest"

definition reads :: "'a reader \<Rightarrow> bytes \<Rightarrow> 'a \<Rightarrow> bool" where
  "reads p enc x \<longleftrightarrow>
     (\<forall>data offset rest. remaining data offset (enc @ rest) \<longrightarrow>
        p data offset = Inr (x, offset + length enc))"

lemma remaining_0 [simp]: "remaining data 0 data"
  by (simp add: remaining_def)

lemma remaining_step:
  "remaining data offset (xs @ rest) \<Longrightarrow> remaining data (offset + length xs) rest"
  unfolding remaining_def
  by (metis add.commute append_eq_conv_conj drop_drop le_add1 length_append length_drop
      nat_add_left_cancel_le le_add_diff_inverse)

lemma readsD: "reads p enc x \<Longrightarrow> p (enc @ rest) 0 = Inr (x, length enc)"
  unfolding reads_def by (metis add_0 remaining_0)

lemma readsD0: "reads p enc x \<Longrightarrow> p enc 0 = Inr (x, length enc)"
  using readsD [of p enc x "[]"] by simp

lemma reads_return: "reads (\<lambda>data offset. Inr (x, offset)) [] x"
  by (simp add: reads_def)

lemma reads_return': "x = y \<Longrightarrow> reads (\<lambda>data offset. Inr (x, offset)) [] y"
  by (simp add: reads_return)

lemma reads_seq:
  assumes "reads p e1 x" and "reads (f x) e2 y"
  shows "reads (\<lambda>data offset. rbind (p data offset) (\<lambda>(v, offset). f v data offset)) (e1 @ e2) y"
  unfolding reads_def
proof (intro allI impI)
  fix data offset rest
  assume r: "remaining data offset ((e1 @ e2) @ rest)"
  then have "p data offset = Inr (x, offset + length e1)"
    using assms(1) unfolding reads_def by (metis append_assoc)
  moreover have "f x data (offset + length e1) = Inr (y, offset + length e1 + length e2)"
    using assms(2) remaining_step [of data offset e1 "e2 @ rest"] r
    unfolding reads_def by (metis append_assoc)
  ultimately show "rbind (p data offset) (\<lambda>(v, offset). f v data offset)
      = Inr (y, offset + length (e1 @ e2))"
    by simp
qed

lemma reads_lift:
  "r = Inr x \<Longrightarrow> reads (f x) e y \<Longrightarrow>
   reads (\<lambda>data offset. rbind r (\<lambda>v. f v data offset)) e y"
  by simp

lemma reads_exact: "n = length xs \<Longrightarrow> reads (\<lambda>data offset. read_exact data offset n) xs xs"
  unfolding reads_def read_exact_def remaining_def Let_def
  by (metis append_eq_conv_conj le_add1 length_append length_drop linorder_not_less
      nat_add_left_cancel_le ordered_cancel_comm_monoid_diff_class.add_diff_inverse)

lemma reads_uint: "n < 256 ^ k \<Longrightarrow> reads (read_uint k) (be_bytes k n) (int n)"
proof -
  assume n: "n < 256 ^ k"
  have "reads (\<lambda>data offset. rbind (read_exact data offset k)
      (\<lambda>(raw, offset). Inr (int (be_nat raw), offset))) (be_bytes k n @ []) (int n)"
    by (rule reads_seq [OF reads_exact]) (simp_all add: be_nat_be_bytes n reads_return)
  then show ?thesis by (simp add: read_uint_def [abs_def])
qed

lemma reads_length_prefixed_u16:
  "length xs \<le> MAX_UINT16 \<Longrightarrow>
   reads read_length_prefixed_u16 (be_bytes 2 (length xs) @ xs) xs"
  unfolding read_length_prefixed_u16_def read_uint_defs
  by (rule reads_seq [OF reads_uint reads_exact]) (simp_all add: MAX_UINT16_def)

lemma reads_length_prefixed_u32:
  "length xs \<le> MAX_UINT32 \<Longrightarrow>
   reads read_length_prefixed_u32 (be_bytes 4 (length xs) @ xs) xs"
  unfolding read_length_prefixed_u32_def read_uint_defs
  by (rule reads_seq [OF reads_uint reads_exact]) (simp_all add: MAX_UINT32_def)

end
