(* ===== verification/Text.thy ===== *)
theory Text
  imports Bytes
begin

text \<open>
  Python text. A \<open>str\<close> is the list of its code points; \<open>encode()\<close> and \<open>decode()\<close> are
  strict UTF-8 (surrogates, overlong forms and values past U+10FFFF are rejected); \<open>str(n)\<close>
  prints an integer in decimal and \<open>int(s)\<close> reads one.
\<close>

type_synonym pystr = "nat list"

definition lit :: "string \<Rightarrow> pystr" where
  "lit s = map of_char s"

subsection \<open>UTF-8\<close>

definition utf8_encode_char :: "nat \<Rightarrow> bytes res" where
  "utf8_encode_char c =
     (if c < 0x80 then Inr [byte_of c]
      else if c < 0x800 then Inr [byte_of (0xC0 + c div 64), byte_of (0x80 + c mod 64)]
      else if 0xD800 \<le> c \<and> c \<le> 0xDFFF then Inl UnicodeEncodeError
      else if c < 0x10000 then
        Inr [byte_of (0xE0 + c div 4096), byte_of (0x80 + c div 64 mod 64), byte_of (0x80 + c mod 64)]
      else if c < 0x110000 then
        Inr [byte_of (0xF0 + c div 262144), byte_of (0x80 + c div 4096 mod 64),
             byte_of (0x80 + c div 64 mod 64), byte_of (0x80 + c mod 64)]
      else Inl UnicodeEncodeError)"

definition utf8_encode :: "pystr \<Rightarrow> bytes res" where
  "utf8_encode s = rbind (rmap utf8_encode_char s) (\<lambda>bss. Inr (concat bss))"

definition continuation :: "byte \<Rightarrow> bool" where
  "continuation b \<longleftrightarrow> 0x80 \<le> unat b \<and> unat b < 0xC0"

definition ok_cons :: "nat \<Rightarrow> pystr res \<Rightarrow> pystr res" where
  "ok_cons c r = rbind r (\<lambda>s. Inr (c # s))"

fun utf8_decode :: "bytes \<Rightarrow> pystr res" where
  "utf8_decode [] = Inr []"
| "utf8_decode (b0 # bs) =
     (let n = unat b0 in
      if n < 0x80 then ok_cons n (utf8_decode bs)
      else if 0xC2 \<le> n \<and> n < 0xE0 then
        (case bs of
           b1 # bs1 \<Rightarrow>
             if continuation b1
             then ok_cons ((n - 0xC0) * 64 + (unat b1 - 0x80)) (utf8_decode bs1)
             else Inl UnicodeDecodeError
         | [] \<Rightarrow> Inl UnicodeDecodeError)
      else if 0xE0 \<le> n \<and> n < 0xF0 then
        (case bs of
           b1 # b2 # bs2 \<Rightarrow>
             (let c = (n - 0xE0) * 4096 + (unat b1 - 0x80) * 64 + (unat b2 - 0x80) in
              if continuation b1 \<and> continuation b2 \<and> 0x800 \<le> c \<and> \<not> (0xD800 \<le> c \<and> c \<le> 0xDFFF)
              then ok_cons c (utf8_decode bs2) else Inl UnicodeDecodeError)
         | _ \<Rightarrow> Inl UnicodeDecodeError)
      else if 0xF0 \<le> n \<and> n < 0xF5 then
        (case bs of
           b1 # b2 # b3 # bs3 \<Rightarrow>
             (let c = (n - 0xF0) * 262144 + (unat b1 - 0x80) * 4096 + (unat b2 - 0x80) * 64
                      + (unat b3 - 0x80) in
              if continuation b1 \<and> continuation b2 \<and> continuation b3
                 \<and> 0x10000 \<le> c \<and> c < 0x110000
              then ok_cons c (utf8_decode bs3) else Inl UnicodeDecodeError)
         | _ \<Rightarrow> Inl UnicodeDecodeError)
      else Inl UnicodeDecodeError)"

lemma ok_cons_Inr [simp]: "ok_cons c (Inr s) = Inr (c # s)"
  by (simp add: ok_cons_def)

lemma digits64:
  fixes c :: nat
  shows "c div 64 * 64 + c mod 64 = c"
    and "c div 4096 * 4096 + c div 64 mod 64 * 64 + c mod 64 = c"
    and "c div 262144 * 262144 + c div 4096 mod 64 * 4096 + c div 64 mod 64 * 64 + c mod 64 = c"
proof -
  have a: "c div 64 * 64 + c mod 64 = c" by simp
  have b: "c div 4096 * 64 + c div 64 mod 64 = c div 64"
    using div_mult_mod_eq [of "c div 64" 64] by (simp add: div_mult2_eq [symmetric])
  have d: "c div 262144 * 64 + c div 4096 mod 64 = c div 4096"
    using div_mult_mod_eq [of "c div 4096" 64] by (simp add: div_mult2_eq [symmetric])
  show "c div 64 * 64 + c mod 64 = c" by (rule a)
  show "c div 4096 * 4096 + c div 64 mod 64 * 64 + c mod 64 = c" using a b by linarith
  show "c div 262144 * 262144 + c div 4096 mod 64 * 4096 + c div 64 mod 64 * 64 + c mod 64 = c"
    using a b d by linarith
qed

lemma utf8_decode_char:
  assumes "utf8_encode_char c = Inr e"
  shows "utf8_decode (e @ rest) = ok_cons c (utf8_decode rest)"
proof -
  have "c < 0x110000" using assms by (simp add: utf8_encode_char_def split: if_splits)
  then consider "c < 0x80" | "0x80 \<le> c" "c < 0x800" | "0x800 \<le> c" "c < 0x10000"
    | "0x10000 \<le> c" "c < 0x110000"
    by linarith
  then show ?thesis
  proof cases
    case 1
    with assms show ?thesis by (auto simp: utf8_encode_char_def Let_def)
  next
    case 2
    then have "2 \<le> c div 64" "c div 64 < 32" by auto
    with 2 assms show ?thesis
      by (auto simp: utf8_encode_char_def Let_def continuation_def digits64)
  next
    case 3
    then have "c div 4096 < 16" by auto
    with 3 assms show ?thesis
      by (auto simp: utf8_encode_char_def Let_def continuation_def digits64 split: if_splits)
  next
    case 4
    then have "c div 262144 < 5" by auto
    with 4 assms show ?thesis
      by (auto simp: utf8_encode_char_def Let_def continuation_def digits64 split: if_splits)
  qed
qed

lemma utf8_roundtrip [codec]: "utf8_encode s = Inr bs \<Longrightarrow> utf8_decode bs = Inr s"
proof (induction s arbitrary: bs)
  case Nil
  then show ?case by (simp add: utf8_encode_def)
next
  case (Cons c s)
  then obtain e bs' where "utf8_encode_char c = Inr e" "utf8_encode s = Inr bs'" "bs = e @ bs'"
    by (auto simp: utf8_encode_def)
  with Cons.IH show ?case by (simp add: utf8_decode_char)
qed

subsection \<open>ASCII text\<close>

definition ascii :: "pystr \<Rightarrow> bool" where
  "ascii s \<longleftrightarrow> (\<forall>c \<in> set s. c < 0x80)"

lemma ascii_simps [simp]:
  "ascii []" "ascii (c # s) \<longleftrightarrow> c < 0x80 \<and> ascii s" "ascii (s @ t) \<longleftrightarrow> ascii s \<and> ascii t"
  by (auto simp: ascii_def)

lemma utf8_encode_ascii: "ascii s \<Longrightarrow> utf8_encode s = Inr (map byte_of s)"
proof (induction s)
  case Nil
  then show ?case by (simp add: utf8_encode_def)
next
  case (Cons c s)
  then have c: "utf8_encode_char c = Inr [byte_of c]" and "utf8_encode s = Inr (map byte_of s)"
    by (auto simp: utf8_encode_char_def)
  then show ?case by (auto simp: utf8_encode_def)
qed

subsection \<open>Decimal integers\<close>

fun nat_str :: "nat \<Rightarrow> pystr" where
  "nat_str n = (if n < 10 then [48 + n] else nat_str (n div 10) @ [48 + n mod 10])"

declare nat_str.simps [simp del]

definition int_str :: "int \<Rightarrow> pystr" where
  "int_str i = (if i < 0 then 45 # nat_str (nat (- i)) else nat_str (nat i))"

definition is_digit :: "nat \<Rightarrow> bool" where
  "is_digit c \<longleftrightarrow> 48 \<le> c \<and> c \<le> 57"

text \<open>
  \<open>str.strip\<close>, \<open>str.isdigit\<close> and \<open>int(s)\<close>. White space, the decimal digits of the other scripts (blocks
  of ten from the listed zeros) and the further characters \<open>isdigit\<close> accepts are those of the
  Unicode database 14.0 (Python 3.11). \<open>int\<close> and \<open>float\<close> first replace every decimal digit and space by its
  ASCII form and any other character beyond ASCII by a question mark; then \<open>int\<close> takes surrounding
  white space, an optional sign and decimal digits with single underscores allowed between them.
\<close>

definition is_space :: "nat \<Rightarrow> bool" where
  "is_space c \<longleftrightarrow> 9 \<le> c \<and> c \<le> 13 \<or> 28 \<le> c \<and> c \<le> 32 \<or> c = 133 \<or> c = 160 \<or> c = 5760 \<or>
     8192 \<le> c \<and> c \<le> 8202 \<or> c = 8232 \<or> c = 8233 \<or> c = 8239 \<or> c = 8287 \<or> c = 12288"

definition decimal_zeros :: "nat list" where
  "decimal_zeros =
    [1632, 1776, 1984, 2406, 2534, 2662, 2790, 2918, 3046, 3174, 3302, 3430, 3558, 3664, 3792, 3872,
     4160, 4240, 6112, 6160, 6470, 6608, 6784, 6800, 6992, 7088, 7232, 7248, 42528, 43216, 43264, 43472,
     43504, 43600, 44016, 65296, 66720, 68912, 69734, 69872, 69942, 70096, 70384, 70736, 70864, 71248, 71360, 71472,
     71904, 72016, 72784, 73040, 73120, 92768, 92864, 93008, 120782, 120792, 120802, 120812, 120822, 123200, 123632, 125264,
     130032]"

definition other_digits :: "(nat \<times> nat) list" where
  "other_digits =
    [(178, 179), (185, 185), (4969, 4977), (6618, 6618), (8304, 8304), (8308, 8313), (8320, 8329), (9312, 9320),
     (9332, 9340), (9352, 9360), (9450, 9450), (9461, 9469), (9471, 9471), (10102, 10110), (10112, 10120), (10122, 10130),
     (68160, 68163), (69216, 69224), (69714, 69722), (127232, 127242)]"

definition to_ascii_decimal :: "nat \<Rightarrow> nat" where
  "to_ascii_decimal c =
     (if c < 128 then c
      else if is_space c then 32
      else (case find (\<lambda>z. z \<le> c \<and> c < z + 10) decimal_zeros of Some z \<Rightarrow> 48 + (c - z) | None \<Rightarrow> 63))"

definition py_isdigit :: "pystr \<Rightarrow> bool" where
  "py_isdigit s \<longleftrightarrow> s \<noteq> [] \<and>
     list_all (\<lambda>c. is_digit (to_ascii_decimal c) \<or> list_ex (\<lambda>(a, b). a \<le> c \<and> c \<le> b) other_digits) s"

definition py_strip :: "pystr \<Rightarrow> pystr" where
  "py_strip s = rev (dropWhile is_space (rev (dropWhile is_space s)))"

fun parse_digits :: "nat \<Rightarrow> bool \<Rightarrow> pystr \<Rightarrow> nat option" where
  "parse_digits acc after_digit [] = (if after_digit then Some acc else None)"
| "parse_digits acc after_digit (c # cs) =
     (if is_digit c then parse_digits (acc * 10 + (c - 48)) True cs
      else if c = 95 \<and> after_digit then parse_digits acc False cs
      else None)"

definition parse_nat :: "pystr \<Rightarrow> nat option" where
  "parse_nat s = parse_digits 0 False s"

definition py_int :: "pystr \<Rightarrow> int res" where
  "py_int s =
     (case py_strip (map to_ascii_decimal s) of
        [] \<Rightarrow> Inl ValueError
      | c # cs \<Rightarrow>
          (case (if c = 45 \<or> c = 43 then parse_nat cs else parse_nat (c # cs)) of
             None \<Rightarrow> Inl ValueError
           | Some n \<Rightarrow> Inr (if c = 45 then - int n else int n)))"

lemma nat_str_digits: "c \<in> set (nat_str n) \<Longrightarrow> is_digit c"
proof (induction n rule: nat_str.induct)
  case (1 n)
  then show ?case by (cases "n < 10") (auto simp: nat_str.simps [of n] is_digit_def)
qed

lemma nat_str_not_Nil [simp]: "nat_str n \<noteq> []"
  by (subst nat_str.simps) simp

lemma parse_digits_append:
  "\<forall>c \<in> set s. is_digit c \<Longrightarrow> s \<noteq> [] \<Longrightarrow>
   parse_digits acc b (s @ t) = parse_digits (foldl (\<lambda>a c. a * 10 + (c - 48)) acc s) True t"
proof (induction s arbitrary: acc b)
  case (Cons c s)
  then show ?case by (cases "s = []") auto
qed simp

lemma foldl_nat_str: "foldl (\<lambda>a c. a * 10 + (c - 48)) 0 (nat_str n) = n"
proof (induction n rule: nat_str.induct)
  case (1 n)
  then show ?case by (cases "n < 10") (auto simp: nat_str.simps [of n])
qed

lemma parse_nat_str [codec, simp]: "parse_nat (nat_str n) = Some n"
  using parse_digits_append [of "nat_str n" 0 False "[]"]
  by (simp add: parse_nat_def nat_str_digits foldl_nat_str)

lemma py_strip_id:
  assumes "s \<noteq> []" "\<not> is_space (hd s)" "\<not> is_space (last s)"
  shows "py_strip s = s"
proof -
  from assms(1,2) have "dropWhile is_space s = s" by (cases s) auto
  moreover from assms(1,3) have "dropWhile is_space (rev s) = rev s"
    by (cases "rev s") (auto simp: last_rev hd_rev [symmetric])
  ultimately show ?thesis by (simp add: py_strip_def)
qed

lemma digit_not_space: "is_digit c \<Longrightarrow> \<not> is_space c"
  by (auto simp: is_digit_def is_space_def)

lemma nat_str_ends:
  "\<not> is_space (hd (nat_str n))" "\<not> is_space (last (nat_str n))"
  using nat_str_digits [of "hd (nat_str n)" n] nat_str_digits [of "last (nat_str n)" n]
  by (simp_all add: digit_not_space)

lemma to_ascii_decimal_id [simp]: "ascii s \<Longrightarrow> map to_ascii_decimal s = s"
  by (induction s) (auto simp: ascii_def to_ascii_decimal_def)

lemma nat_str_ascii [simp]: "ascii (nat_str n)"
  by (auto simp: ascii_def is_digit_def dest!: nat_str_digits)

lemma py_int_nat_str [simp]: "py_int (nat_str n) = Inr (int n)"
proof -
  have strip: "py_strip (map to_ascii_decimal (nat_str n)) = nat_str n"
    by (simp add: py_strip_id nat_str_ends)
  obtain c cs where s: "nat_str n = c # cs" by (cases "nat_str n") auto
  then have "is_digit c" using nat_str_digits [of c n] by simp
  then have "c \<noteq> 45 \<and> c \<noteq> 43" by (auto simp: is_digit_def)
  with strip [unfolded s] parse_nat_str [of n] show ?thesis by (simp add: py_int_def s del: list.map)
qed

lemma py_int_str [codec, simp]: "py_int (int_str i) = Inr i"
proof (cases "i < 0")
  case True
  have "py_strip (45 # nat_str (nat (- i))) = 45 # nat_str (nat (- i))"
    by (rule py_strip_id) (simp_all add: nat_str_ends, simp add: is_space_def)
  moreover have "ascii (45 # nat_str (nat (- i)))" using nat_str_ascii [of "nat (- i)"] by (simp add: ascii_def)
  then have "map to_ascii_decimal (45 # nat_str (nat (- i))) = 45 # nat_str (nat (- i))"
    by (rule to_ascii_decimal_id)
  ultimately show ?thesis using True by (simp add: py_int_def int_str_def)
next
  case False
  then show ?thesis by (simp add: int_str_def)
qed

lemma int_str_chars: "c \<in> set (int_str i) \<Longrightarrow> c = 45 \<or> is_digit c"
  by (auto simp: int_str_def nat_str_digits split: if_splits)

lemma int_str_inject [simp]: "int_str i = int_str j \<longleftrightarrow> i = j"
  by (metis py_int_str sum.inject(2))

lemma ascii_int_str [simp]: "ascii (int_str i)"
  by (auto simp: ascii_def is_digit_def dest!: int_str_chars)

lemma int_str_no_colon [simp]: "58 \<notin> set (int_str i)"
  by (auto simp: is_digit_def dest!: int_str_chars)

end
