(* ===== verification/Json.thy ===== *)
theory Json
  imports Text
begin

text \<open>
  The part of Python's \<open>json\<close> module the write-ahead log relies on: \<open>json.dumps\<close> with
  its default separators and ASCII escaping, and \<open>json.loads\<close>. State changes hold no
  floating point numbers, so the value type has none and the reader refuses a fraction or
  an exponent.
\<close>

datatype json =
    JNull
  | JBool bool
  | JInt int
  | JStr pystr
  | JList "json list"
  | JObj "(pystr \<times> json) list"

subsection \<open>Printing\<close>

definition hex_digit :: "nat \<Rightarrow> nat" where
  "hex_digit d = (if d < 10 then 48 + d else 87 + d)"

definition hex4 :: "nat \<Rightarrow> pystr" where
  "hex4 n = [hex_digit (n div 4096 mod 16), hex_digit (n div 256 mod 16),
             hex_digit (n div 16 mod 16), hex_digit (n mod 16)]"

definition escape_char :: "nat \<Rightarrow> pystr" where
  "escape_char c =
     (if c = 34 then [92, 34] else if c = 92 then [92, 92]
      else if c = 10 then [92, 110] else if c = 13 then [92, 114]
      else if c = 9 then [92, 116] else if c = 12 then [92, 102]
      else if c = 8 then [92, 98]
      else if 32 \<le> c \<and> c \<le> 126 then [c]
      else if c < 0x10000 then [92, 117] @ hex4 c
      else [92, 117] @ hex4 (0xD800 + (c - 0x10000) div 1024)
           @ [92, 117] @ hex4 (0xDC00 + (c - 0x10000) mod 1024))"

definition dumps_str :: "pystr \<Rightarrow> pystr" where
  "dumps_str s = [34] @ concat (map escape_char s) @ [34]"

fun py_join :: "pystr \<Rightarrow> pystr list \<Rightarrow> pystr" where
  "py_join sep [] = []"
| "py_join sep [s] = s"
| "py_join sep (s # ss) = s @ sep @ py_join sep ss"

fun dumps :: "json \<Rightarrow> pystr" where
  "dumps JNull = lit ''null''"
| "dumps (JBool b) = (if b then lit ''true'' else lit ''false'')"
| "dumps (JInt i) = int_str i"
| "dumps (JStr s) = dumps_str s"
| "dumps (JList vs) = [91] @ py_join [44, 32] (map dumps vs) @ [93]"
| "dumps (JObj kvs) =
     [123] @ py_join [44, 32] (map (\<lambda>(k, v). dumps_str k @ 58 # 32 # dumps v) kvs) @ [125]"

subsection \<open>Reading\<close>

definition hex_value :: "nat \<Rightarrow> nat option" where
  "hex_value c =
     (if 48 \<le> c \<and> c \<le> 57 then Some (c - 48)
      else if 97 \<le> c \<and> c \<le> 102 then Some (c - 87)
      else if 65 \<le> c \<and> c \<le> 70 then Some (c - 55)
      else None)"

fun read_hex4 :: "pystr \<Rightarrow> (nat \<times> pystr) option" where
  "read_hex4 (a # b # c # d # rest) =
     (case (hex_value a, hex_value b, hex_value c, hex_value d) of
        (Some w, Some x, Some y, Some z) \<Rightarrow> Some (w * 4096 + x * 256 + y * 16 + z, rest)
      | _ \<Rightarrow> None)"
| "read_hex4 _ = None"

text \<open>
  \<open>read_unicode\<close> reads what follows \<open>\u\<close>: a high surrogate joins with an escaped low
  surrogate when one follows, and stands alone otherwise.
\<close>

definition read_unicode :: "pystr \<Rightarrow> (nat \<times> pystr) option" where
  "read_unicode s =
     (case read_hex4 s of
        None \<Rightarrow> None
      | Some (u, rest) \<Rightarrow>
          if 0xD800 \<le> u \<and> u \<le> 0xDBFF \<and> take 2 rest = [92, 117] then
            (case read_hex4 (drop 2 rest) of
               None \<Rightarrow> None
             | Some (v, rest') \<Rightarrow>
                 if 0xDC00 \<le> v \<and> v \<le> 0xDFFF
                 then Some (0x10000 + (u - 0xD800) * 1024 + (v - 0xDC00), rest')
                 else Some (u, rest))
          else Some (u, rest))"

definition read_escape :: "pystr \<Rightarrow> (nat \<times> pystr) option" where
  "read_escape s =
     (case s of
        [] \<Rightarrow> None
      | e # rest \<Rightarrow>
          if e = 117 then read_unicode rest
          else if e = 34 \<or> e = 92 \<or> e = 47 then Some (e, rest)
          else if e = 98 then Some (8, rest)
          else if e = 102 then Some (12, rest)
          else if e = 110 then Some (10, rest)
          else if e = 114 then Some (13, rest)
          else if e = 116 then Some (9, rest)
          else None)"

lemma read_hex4_length: "read_hex4 s = Some (u, rest) \<Longrightarrow> length rest < length s"
  by (cases s rule: read_hex4.cases) (auto split: option.splits)

lemma read_unicode_length: "read_unicode s = Some (u, rest) \<Longrightarrow> length rest < length s"
  unfolding read_unicode_def
  by (auto split: option.splits if_splits dest!: read_hex4_length)

lemma read_escape_length: "read_escape s = Some (u, rest) \<Longrightarrow> length rest < length s"
  unfolding read_escape_def
  by (auto split: list.splits if_splits dest: read_unicode_length)

function scanstring :: "pystr \<Rightarrow> (pystr \<times> pystr) option" where
  "scanstring [] = None"
| "scanstring (c # cs) =
     (if c = 34 then Some ([], cs)
      else if c < 32 then None
      else if c = 92 then
        (case read_escape cs of
           None \<Rightarrow> None
         | Some (u, rest) \<Rightarrow> map_option (\<lambda>(s, r). (u # s, r)) (scanstring rest))
      else map_option (\<lambda>(s, r). (c # s, r)) (scanstring cs))"
  by pat_completeness auto
termination
  by (relation "measure length") (auto dest: read_escape_length)

definition skip_ws :: "pystr \<Rightarrow> pystr" where
  "skip_ws s = dropWhile (\<lambda>c. c = 32 \<or> c = 9 \<or> c = 10 \<or> c = 13) s"

definition starts_number_suffix :: "pystr \<Rightarrow> bool" where
  "starts_number_suffix s =
     (case s of [] \<Rightarrow> False | c # _ \<Rightarrow> c = 46 \<or> c = 101 \<or> c = 69)"

definition number_digits :: "pystr \<Rightarrow> pystr" where
  "number_digits body =
     (if body \<noteq> [] \<and> hd body = 48 then [48] else takeWhile is_digit body)"

definition read_number :: "pystr \<Rightarrow> (json \<times> pystr) option" where
  "read_number s =
     (let neg = (s \<noteq> [] \<and> hd s = 45);
          body = (if neg then tl s else s);
          digits = number_digits body;
          rest = drop (length digits) body in
      if digits = [] \<or> starts_number_suffix rest then None
      else map_option (\<lambda>n. (JInt (if neg then - int n else int n), rest)) (parse_nat digits))"

definition read_literal :: "pystr \<Rightarrow> (json \<times> pystr) option" where
  "read_literal s =
     (if take 4 s = lit ''null'' then Some (JNull, drop 4 s)
      else if take 4 s = lit ''true'' then Some (JBool True, drop 4 s)
      else if take 5 s = lit ''false'' then Some (JBool False, drop 5 s)
      else None)"

fun read_value :: "nat \<Rightarrow> pystr \<Rightarrow> (json \<times> pystr) option"
  and read_elements :: "nat \<Rightarrow> pystr \<Rightarrow> (json list \<times> pystr) option"
  and read_members :: "nat \<Rightarrow> pystr \<Rightarrow> ((pystr \<times> json) list \<times> pystr) option" where
  "read_value 0 s = None"
| "read_value (Suc n) s =
     (case s of
        [] \<Rightarrow> None
      | c # cs \<Rightarrow>
          if c = 34 then map_option (\<lambda>(t, r). (JStr t, r)) (scanstring cs)
          else if c = 123 then
            (case skip_ws cs of
               [] \<Rightarrow> None
             | d # ds \<Rightarrow>
                 if d = 125 then Some (JObj [], ds)
                 else map_option (\<lambda>(kvs, r). (JObj (py_dict kvs), r)) (read_members n (d # ds)))
          else if c = 91 then
            (case skip_ws cs of
               [] \<Rightarrow> None
             | d # ds \<Rightarrow>
                 if d = 93 then Some (JList [], ds)
                 else map_option (\<lambda>(vs, r). (JList vs, r)) (read_elements n (d # ds)))
          else (case read_literal s of Some r \<Rightarrow> Some r | None \<Rightarrow> read_number s))"
| "read_elements 0 s = None"
| "read_elements (Suc n) s =
     (case read_value n s of
        None \<Rightarrow> None
      | Some (v, r) \<Rightarrow>
          (case skip_ws r of
             [] \<Rightarrow> None
           | d # ds \<Rightarrow>
               if d = 93 then Some ([v], ds)
               else if d = 44 then
                 map_option (\<lambda>(vs, r). (v # vs, r)) (read_elements n (skip_ws ds))
               else None))"
| "read_members 0 s = None"
| "read_members (Suc n) s =
     (case s of
        [] \<Rightarrow> None
      | c # cs \<Rightarrow>
          if c \<noteq> 34 then None
          else (case scanstring cs of
             None \<Rightarrow> None
           | Some (k, r) \<Rightarrow>
               (case skip_ws r of
                  [] \<Rightarrow> None
                | e # es \<Rightarrow>
                    if e \<noteq> 58 then None
                    else (case read_value n (skip_ws es) of
                       None \<Rightarrow> None
                     | Some (v, r) \<Rightarrow>
                         (case skip_ws r of
                            [] \<Rightarrow> None
                          | d # ds \<Rightarrow>
                              if d = 125 then Some ([(k, v)], ds)
                              else if d = 44 then
                                map_option (\<lambda>(kvs, r). ((k, v) # kvs, r))
                                  (read_members n (skip_ws ds))
                              else None)))))"

definition loads :: "pystr \<Rightarrow> json res" where
  "loads s =
     (case read_value (2 * length s + 2) (skip_ws s) of
        None \<Rightarrow> Inl JSONDecodeError
      | Some (v, r) \<Rightarrow> if skip_ws r = [] then Inr v else Inl JSONDecodeError)"

subsection \<open>Reading back what was printed\<close>

definition scalar :: "nat \<Rightarrow> bool" where
  "scalar c \<longleftrightarrow> c < 0x110000 \<and> \<not> (0xD800 \<le> c \<and> c \<le> 0xDFFF)"

definition text_ok :: "pystr \<Rightarrow> bool" where
  "text_ok s \<longleftrightarrow> (\<forall>c \<in> set s. scalar c)"

fun json_ok :: "json \<Rightarrow> bool" where
  "json_ok (JStr s) = text_ok s"
| "json_ok (JList vs) = (\<forall>v \<in> set vs. json_ok v)"
| "json_ok (JObj kvs) = (dict_wf kvs \<and> (\<forall>(k, v) \<in> set kvs. text_ok k \<and> json_ok v))"
| "json_ok _ = True"

lemma hex_value_digit [simp]: "d < 16 \<Longrightarrow> hex_value (hex_digit d) = Some d"
  by (auto simp: hex_value_def hex_digit_def)

lemma hex4_sum:
  fixes n :: nat
  assumes "n < 65536"
  shows "n div 4096 mod 16 * 4096 + n div 256 mod 16 * 256 + n div 16 mod 16 * 16 + n mod 16 = n"
proof -
  have a: "n div 16 * 16 + n mod 16 = n" by simp
  have b: "n div 256 * 16 + n div 16 mod 16 = n div 16"
    using div_mult_mod_eq [of "n div 16" 16] by (simp add: div_mult2_eq [symmetric])
  have c: "n div 4096 * 16 + n div 256 mod 16 = n div 256"
    using div_mult_mod_eq [of "n div 256" 16] by (simp add: div_mult2_eq [symmetric])
  from assms have "n div 4096 mod 16 = n div 4096" by auto
  with a b c show ?thesis by linarith
qed

lemma read_hex4_hex4 [simp]: "n < 65536 \<Longrightarrow> read_hex4 (hex4 n @ rest) = Some (n, rest)"
  using hex4_sum [of n] by (simp add: hex4_def)

lemma read_unicode_bmp:
  "c < 0x10000 \<Longrightarrow> scalar c \<Longrightarrow> read_unicode (hex4 c @ rest) = Some (c, rest)"
  by (auto simp: read_unicode_def scalar_def)

lemma read_unicode_pair:
  assumes "0x10000 \<le> c" "scalar c"
  shows "read_unicode (hex4 (0xD800 + (c - 0x10000) div 1024)
      @ 92 # 117 # hex4 (0xDC00 + (c - 0x10000) mod 1024) @ rest) = Some (c, rest)"
proof -
  define x where "x = c - 0x10000"
  from assms have c: "c = 0x10000 + x" and x: "x < 0x100000"
    by (auto simp: x_def scalar_def)
  from x have "x div 1024 < 1024" by auto
  moreover have "x mod 1024 < 1024" by simp
  moreover have "x div 1024 * 1024 + x mod 1024 = x" by simp
  ultimately show ?thesis unfolding c
    by (simp add: read_unicode_def)
qed

lemma scanstring_escape:
  assumes "scalar c"
  shows "scanstring (escape_char c @ rest) = map_option (\<lambda>(s, r). (c # s, r)) (scanstring rest)"
proof (cases "c < 0x10000")
  case True
  with assms show ?thesis
    by (auto simp: escape_char_def read_escape_def read_unicode_bmp)
next
  case False
  with assms show ?thesis
    by (simp add: escape_char_def read_escape_def read_unicode_pair)
qed

lemma scanstring_dumps_str [codec]:
  "text_ok s \<Longrightarrow> scanstring (concat (map escape_char s) @ 34 # rest) = Some (s, rest)"
  by (induction s) (auto simp: text_ok_def scanstring_escape)

text \<open>What may follow a printed value: anything that cannot extend a number.\<close>

definition delimited :: "pystr \<Rightarrow> bool" where
  "delimited r \<longleftrightarrow> r = [] \<or> \<not> is_digit (hd r) \<and> \<not> starts_number_suffix r"

lemma delimited_simps [simp]:
  "delimited []" "delimited (44 # r)" "delimited (93 # r)" "delimited (125 # r)"
  by (auto simp: delimited_def starts_number_suffix_def is_digit_def)

lemma nat_str_hd_zero: "hd (nat_str n) = 48 \<Longrightarrow> n = 0"
proof (induction n rule: nat_str.induct)
  case (1 n)
  show ?case
  proof (cases "n < 10")
    case True
    with "1.prems" show ?thesis by (simp add: nat_str.simps [of n])
  next
    case False
    with "1.prems" have "hd (nat_str (n div 10)) = 48" by (simp add: nat_str.simps [of n])
    with False "1.IH" show ?thesis by auto
  qed
qed

lemma number_digits_nat_str:
  assumes "delimited r"
  shows "number_digits (nat_str n @ r) = nat_str n"
proof (cases "hd (nat_str n) = 48")
  case True
  then have "n = 0" by (rule nat_str_hd_zero)
  then show ?thesis by (simp add: number_digits_def nat_str.simps)
next
  case False
  have "takeWhile is_digit (nat_str n @ r) = nat_str n @ takeWhile is_digit r"
    by (simp add: nat_str_digits)
  moreover have "takeWhile is_digit r = []"
    using assms by (cases r) (auto simp: delimited_def)
  ultimately show ?thesis using False by (simp add: number_digits_def)
qed

lemma read_number_int [codec]:
  assumes "delimited r"
  shows "read_number (int_str i @ r) = Some (JInt i, r)"
proof -
  have suffix: "\<not> starts_number_suffix r"
    using assms by (auto simp: delimited_def starts_number_suffix_def)
  have hd45: "hd (nat_str n) \<noteq> 45" for n
    using nat_str_digits [of "hd (nat_str n)" n] by (auto simp: is_digit_def)
  show ?thesis
    by (simp add: read_number_def int_str_def Let_def number_digits_nat_str assms suffix hd45)
qed

lemma read_literal_none: "c \<noteq> 110 \<Longrightarrow> c \<noteq> 116 \<Longrightarrow> c \<noteq> 102 \<Longrightarrow> read_literal (c # cs) = None"
  by (simp add: read_literal_def lit_def)

lemma read_value_int:
  assumes "delimited r"
  shows "read_value (Suc n) (int_str i @ r) = Some (JInt i, r)"
proof -
  obtain c cs where s: "int_str i = c # cs"
    by (cases "int_str i") (auto simp: int_str_def split: if_splits)
  then have "c = 45 \<or> is_digit c" using int_str_chars [of c i] by simp
  then have "c \<noteq> 34" "c \<noteq> 123" "c \<noteq> 91" "c \<noteq> 110" "c \<noteq> 116" "c \<noteq> 102"
    by (auto simp: is_digit_def)
  then show ?thesis
    using read_number_int [OF assms, of i] by (simp add: s read_literal_none)
qed

fun json_fuel :: "json \<Rightarrow> nat" where
  "json_fuel (JList vs) = Suc (Suc (sum_list (map (\<lambda>v. Suc (json_fuel v)) vs)))"
| "json_fuel (JObj kvs) = Suc (Suc (sum_list (map (\<lambda>(k, v). Suc (json_fuel v)) kvs)))"
| "json_fuel _ = 1"

definition value_reads :: "json \<Rightarrow> bool" where
  "value_reads v \<longleftrightarrow>
     (\<forall>n r. json_fuel v \<le> n \<longrightarrow> delimited r \<longrightarrow> read_value n (dumps v @ r) = Some (v, r))"

definition solid :: "pystr \<Rightarrow> bool" where
  "solid s \<longleftrightarrow> s \<noteq> [] \<and> hd s \<notin> {32, 9, 10, 13, 93, 125}"

lemma solid_append: "solid s \<Longrightarrow> solid (s @ r)"
  by (auto simp: solid_def)

lemma solid_skip_ws [simp]: "solid s \<Longrightarrow> skip_ws s = s"
  by (cases s) (auto simp: skip_ws_def solid_def)

lemma skip_ws_space [simp]: "skip_ws (32 # s) = skip_ws s"
  by (simp add: skip_ws_def)

lemma skip_ws_punct [simp]:
  "skip_ws (93 # s) = 93 # s" "skip_ws (125 # s) = 125 # s"
  "skip_ws (44 # s) = 44 # s" "skip_ws (58 # s) = 58 # s" "skip_ws (34 # s) = 34 # s"
  by (simp_all add: skip_ws_def)

lemma solid_int_str [simp]: "solid (int_str i)"
  using int_str_chars [of "hd (int_str i)" i]
  by (cases "int_str i") (auto simp: solid_def is_digit_def int_str_def split: if_splits)

lemma solid_dumps [simp]: "solid (dumps v)"
  by (cases v) (simp_all, auto simp: solid_def lit_def dumps_str_def)

lemma solid_join:
  "vs \<noteq> [] \<Longrightarrow> (\<And>v. v \<in> set vs \<Longrightarrow> solid (f v)) \<Longrightarrow> solid (py_join sep (map f vs) @ r)"
  by (induction vs rule: induct_list012) (auto intro: solid_append)

lemma solid_elements:
  "vs \<noteq> [] \<Longrightarrow> solid (py_join [44, 32] (map dumps vs) @ r)"
  "kvs \<noteq> [] \<Longrightarrow>
   solid (py_join [44, 32] (map (\<lambda>(k, v). dumps_str k @ 58 # 32 # dumps v) kvs) @ r)"
proof -
  show "vs \<noteq> [] \<Longrightarrow> solid (py_join [44, 32] (map dumps vs) @ r)"
    by (rule solid_join) simp_all
  show "kvs \<noteq> [] \<Longrightarrow>
   solid (py_join [44, 32] (map (\<lambda>(k, v). dumps_str k @ 58 # 32 # dumps v) kvs) @ r)"
    by (rule solid_join) (auto simp: solid_def dumps_str_def)
qed

lemma read_elements_dumps:
  assumes "vs \<noteq> []" and "\<And>v. v \<in> set vs \<Longrightarrow> value_reads v"
    and "Suc (sum_list (map (\<lambda>v. Suc (json_fuel v)) vs)) \<le> n"
  shows "read_elements n (py_join [44, 32] (map dumps vs) @ 93 # r) = Some (vs, r)"
  using assms
proof (induction vs arbitrary: n)
  case (Cons v vs)
  then obtain m where n: "n = Suc m" by (cases n) auto
  have v: "value_reads v" using Cons.prems by simp
  have fuel: "json_fuel v \<le> m" using Cons.prems n by simp
  show ?case
  proof (cases "vs = []")
    case True
    with v fuel n show ?thesis by (simp add: value_reads_def)
  next
    case False
    have "read_elements m (py_join [44, 32] (map dumps vs) @ 93 # r) = Some (vs, r)"
      by (rule Cons.IH) (use Cons.prems n False in auto)
    moreover have "skip_ws (32 # py_join [44, 32] (map dumps vs) @ 93 # r)
        = py_join [44, 32] (map dumps vs) @ 93 # r"
      using False by (simp add: solid_elements)
    ultimately show ?thesis
      using v fuel n False by (cases vs) (simp_all add: value_reads_def)
  qed
qed simp

lemma read_members_dumps:
  assumes "kvs \<noteq> []" and "\<And>k v. (k, v) \<in> set kvs \<Longrightarrow> text_ok k \<and> value_reads v"
    and "Suc (sum_list (map (\<lambda>(k, v). Suc (json_fuel v)) kvs)) \<le> n"
  shows "read_members n
      (py_join [44, 32] (map (\<lambda>(k, v). dumps_str k @ 58 # 32 # dumps v) kvs) @ 125 # r)
    = Some (kvs, r)"
  using assms
proof (induction kvs arbitrary: n)
  case (Cons kv kvs)
  then obtain m where n: "n = Suc m" by (cases n) auto
  obtain k v where kv: "kv = (k, v)" by (cases kv)
  have k: "text_ok k" and v: "value_reads v" and fuel: "json_fuel v \<le> m"
    using Cons.prems n kv by auto
  let ?f = "\<lambda>(k, v). dumps_str k @ 58 # 32 # dumps v"
  let ?tail = "py_join [44, 32] (map ?f kvs) @ 125 # r"
  show ?case
  proof (cases "kvs = []")
    case True
    with v k fuel n kv show ?thesis
      by (simp add: value_reads_def dumps_str_def scanstring_dumps_str solid_append)
  next
    case False
    have tail: "read_members m ?tail = Some (kvs, r)"
      by (rule Cons.IH) (use Cons.prems n kv False in auto)
    moreover have "skip_ws (32 # ?tail) = ?tail"
      using solid_elements(2) [OF False] by simp
    moreover have "py_join [44, 32] (map ?f (kv # kvs)) = ?f kv @ [44, 32] @ py_join [44, 32] (map ?f kvs)"
      using False by (cases kvs) simp_all
    ultimately show ?thesis
      using v k fuel n kv
      by (simp add: value_reads_def dumps_str_def [of k] scanstring_dumps_str solid_append)
  qed
qed simp

lemma value_reads_all: "json_ok v \<Longrightarrow> value_reads v"
proof (induction v)
  case (JInt i)
  show ?case
    unfolding value_reads_def
    by (metis dumps.simps(3) json_fuel.simps(5) not_less_eq_eq not0_implies_Suc le_zero_eq
        read_value_int One_nat_def)
next
  case (JList vs)
  show ?case
    unfolding value_reads_def
  proof (intro allI impI)
    fix n r assume "json_fuel (JList vs) \<le> n"
    then obtain m where n: "n = Suc m"
      and m: "Suc (sum_list (map (\<lambda>v. Suc (json_fuel v)) vs)) \<le> m" by (cases n) auto
    show "read_value n (dumps (JList vs) @ r) = Some (JList vs, r)"
    proof (cases vs)
      case Nil
      then show ?thesis by (simp add: n skip_ws_def)
    next
      case (Cons w ws)
      let ?s = "py_join [44, 32] (map dumps vs) @ 93 # r"
      have solid: "solid ?s" by (rule solid_elements) (simp add: Cons)
      have "read_elements m ?s = Some (vs, r)"
        using JList Cons m by (intro read_elements_dumps) auto
      with solid show ?thesis by (cases ?s) (simp_all add: n solid_def)
    qed
  qed
next
  case (JObj kvs)
  show ?case
    unfolding value_reads_def
  proof (intro allI impI)
    fix n r assume "json_fuel (JObj kvs) \<le> n"
    then obtain m where n: "n = Suc m"
      and m: "Suc (sum_list (map (\<lambda>(k, v). Suc (json_fuel v)) kvs)) \<le> m" by (cases n) auto
    let ?s = "py_join [44, 32] (map (\<lambda>(k, v). dumps_str k @ 58 # 32 # dumps v) kvs) @ 125 # r"
    show "read_value n (dumps (JObj kvs) @ r) = Some (JObj kvs, r)"
    proof (cases kvs)
      case Nil
      then show ?thesis by (simp add: n skip_ws_def)
    next
      case (Cons w ws)
      have solid: "solid ?s" by (rule solid_elements) (simp add: Cons)
      have "read_members m ?s = Some (kvs, r)"
        using JObj Cons m by (intro read_members_dumps) fastforce+
      with solid JObj.prems show ?thesis by (cases ?s) (simp_all add: n py_dict_id solid_def)
    qed
  qed
qed (auto simp: value_reads_def dumps_str_def scanstring_dumps_str lit_def read_literal_def
      split: nat.splits dest!: Suc_le_D)

text \<open>The fuel of \<open>loads\<close> is enough for every printed value.\<close>

lemma fuel_join:
  "(\<And>v. v \<in> set vs \<Longrightarrow> g v \<le> 2 * length (f v)) \<Longrightarrow>
   sum_list (map (\<lambda>v. Suc (g v)) vs) \<le> 2 * length (py_join [44, 32] (map f vs)) + 1"
proof (induction vs rule: induct_list012)
  case (3 v w vs)
  then have "g v \<le> 2 * length (f v)"
    and "sum_list (map (\<lambda>v. Suc (g v)) (w # vs)) \<le> 2 * length (py_join [44, 32] (map f (w # vs))) + 1"
    by auto
  then show ?case by simp
qed auto

lemma json_fuel_dumps: "json_fuel v \<le> 2 * length (dumps v)"
proof (induction v)
  case (JInt i)
  have "int_str i \<noteq> []" by (simp add: int_str_def)
  then show ?case by (cases "int_str i") simp_all
next
  case (JList vs)
  then have "sum_list (map (\<lambda>v. Suc (json_fuel v)) vs) \<le> 2 * length (py_join [44, 32] (map dumps vs)) + 1"
    by (rule fuel_join)
  then show ?case by simp
next
  case (JObj kvs)
  let ?f = "\<lambda>(k, v). dumps_str k @ 58 # 32 # dumps v"
  have "sum_list (map (\<lambda>kv. Suc (json_fuel (snd kv))) kvs) \<le> 2 * length (py_join [44, 32] (map ?f kvs)) + 1"
    by (rule fuel_join) (use JObj in \<open>fastforce split: prod.splits\<close>)
  then show ?case by (simp add: case_prod_beta')
qed (auto simp: lit_def dumps_str_def)

theorem json_roundtrip [codec]: "json_ok v \<Longrightarrow> loads (dumps v) = Inr v"
proof -
  assume "json_ok v"
  then have "value_reads v" by (rule value_reads_all)
  then have "read_value (2 * length (dumps v) + 2) (dumps v @ []) = Some (v, [])"
    unfolding value_reads_def using json_fuel_dumps [of v] by (metis delimited_simps(1) trans_le_add1)
  then show ?thesis by (simp add: loads_def skip_ws_def [of "[]"])
qed

subsection \<open>The printed text is ASCII\<close>

lemma hex_digit_ascii [simp]: "d < 16 \<Longrightarrow> hex_digit d < 128"
  by (simp add: hex_digit_def)

lemma ascii_hex4 [simp]: "ascii (hex4 n)"
  by (simp add: hex4_def)

lemma ascii_escape [simp]: "ascii (escape_char c)"
  by (simp add: escape_char_def)

lemma ascii_dumps_str [simp]: "ascii (dumps_str s)"
  by (induction s) (simp_all add: dumps_str_def)

lemma ascii_join:
  "ascii sep \<Longrightarrow> (\<And>s. s \<in> set ss \<Longrightarrow> ascii s) \<Longrightarrow> ascii (py_join sep ss)"
  by (induction ss rule: induct_list012) auto

lemma ascii_dumps [simp]: "ascii (dumps v)"
proof (induction v)
  case (JList vs)
  then show ?case by (auto intro!: ascii_join)
next
  case (JObj kvs)
  then show ?case by (fastforce intro!: ascii_join)
qed (auto simp: lit_def)

end
