(* ===== verification/Outbox.thy ===== *)
theory Outbox
  imports Text
begin

text \<open>
  The outbox of \<open>common/fault_tolerance/outbox/\<close>: one \<open>OutboxEntry\<close> per outgoing message
  with its binary form, and the store of pending outputs keyed by client and input.
\<close>

subsection \<open>OutboxEntry\<close>

record outbox_entry =
  output_id :: pystr
  input_id :: pystr
  destination :: pystr
  body :: bytes
  shard :: "int option"

definition encode_shard :: "int option \<Rightarrow> int" where
  "encode_shard s = (case s of None \<Rightarrow> 0 | Some n \<Rightarrow> n + 1)"

definition decode_shard :: "int \<Rightarrow> int option" where
  "decode_shard encoded = (if encoded = 0 then None else Some (encoded - 1))"

definition serialize_entry :: "outbox_entry \<Rightarrow> bytes res" where
  "serialize_entry e =
     rbind (utf8_encode (output_id e)) (\<lambda>output_id_bytes.
     rbind (utf8_encode (input_id e)) (\<lambda>input_id_bytes.
     rbind (utf8_encode (destination e)) (\<lambda>destination_bytes.
     rbind (require (length output_id_bytes \<le> MAX_UINT16) ValueError) (\<lambda>_.
     rbind (require (length input_id_bytes \<le> MAX_UINT16) ValueError) (\<lambda>_.
     rbind (require (length destination_bytes \<le> MAX_UINT16) ValueError) (\<lambda>_.
     rbind (require (length (body e) \<le> MAX_UINT32) ValueError) (\<lambda>_.
     rbind (pack_uint 4 (encode_shard (shard e))) (\<lambda>shard_bytes.
     Inr ((be_bytes 2 (length output_id_bytes) @ output_id_bytes)
        @ (be_bytes 2 (length input_id_bytes) @ input_id_bytes)
        @ (be_bytes 2 (length destination_bytes) @ destination_bytes)
        @ (be_bytes 4 (length (body e)) @ body e)
        @ shard_bytes)))))))))"

definition deserialize_entry :: "bytes \<Rightarrow> nat \<Rightarrow> (outbox_entry \<times> nat) res" where
  "deserialize_entry data offset =
     rbind (read_length_prefixed_u16 data offset) (\<lambda>(output_id_bytes, offset).
     rbind (read_length_prefixed_u16 data offset) (\<lambda>(input_id_bytes, offset).
     rbind (read_length_prefixed_u16 data offset) (\<lambda>(destination_bytes, offset).
     rbind (read_length_prefixed_u32 data offset) (\<lambda>(body_bytes, offset).
     rbind (read_uint32 data offset) (\<lambda>(shard_encoded, offset).
     rbind (utf8_decode output_id_bytes) (\<lambda>oid.
     rbind (utf8_decode input_id_bytes) (\<lambda>iid.
     rbind (utf8_decode destination_bytes) (\<lambda>dst.
     Inr (\<lparr>output_id = oid, input_id = iid, destination = dst, body = body_bytes,
           shard = decode_shard shard_encoded\<rparr>, offset)))))))))"

lemma decode_encode_shard: "0 \<le> encode_shard s \<Longrightarrow> s \<noteq> Some (- 1) \<Longrightarrow> decode_shard (encode_shard s) = s"
  by (auto simp: encode_shard_def decode_shard_def split: option.splits)

text \<open>
  A shard of -1 would be written as 0 and read back as \<open>None\<close>; shards are indices, so the
  round trip asks for a shard that is absent or at least 0.
\<close>

lemma reads_entry [codec]:
  assumes ser: "serialize_entry e = Inr bs" and sh: "\<And>n. shard e = Some n \<Longrightarrow> 0 \<le> n"
  shows "reads deserialize_entry bs e"
proof -
  from ser obtain ob ib db where
    enc: "utf8_encode (output_id e) = Inr ob" "utf8_encode (input_id e) = Inr ib"
      "utf8_encode (destination e) = Inr db" and
    len: "length ob \<le> MAX_UINT16" "length ib \<le> MAX_UINT16" "length db \<le> MAX_UINT16"
      "length (body e) \<le> MAX_UINT32" and
    shr: "0 \<le> encode_shard (shard e)" "encode_shard (shard e) < 256 ^ 4" and
    bs: "bs = (be_bytes 2 (length ob) @ ob) @ (be_bytes 2 (length ib) @ ib)
        @ (be_bytes 2 (length db) @ db) @ (be_bytes 4 (length (body e)) @ body e)
        @ be_bytes 4 (nat (encode_shard (shard e))) @ []"
    by (auto simp: serialize_entry_def pack_uint_Inr)
  note dec = enc [THEN utf8_roundtrip]
  have shard: "decode_shard (encode_shard (shard e)) = shard e"
    using shr(1) sh [of "- 1"] by (intro decode_encode_shard) auto
  have "reads (\<lambda>data offset. deserialize_entry data offset) bs e"
    unfolding deserialize_entry_def read_uint32_def bs
    using shr shard
    by - (rule reads_length_prefixed_u16 reads_length_prefixed_u32 reads_uint reads_seq
        reads_lift reads_return' dec len | simp)+
  then show ?thesis by simp
qed

subsection \<open>The pending store\<close>

type_synonym outbox = "(int \<times> (pystr \<times> outbox_entry list) list) list"

definition outbox_add :: "int \<Rightarrow> pystr \<Rightarrow> outbox_entry list \<Rightarrow> outbox \<Rightarrow> outbox" where
  "outbox_add client_id iid entries ob =
     dset client_id (dset iid entries (dget ob client_id [])) ob"

definition entries_for_input :: "int \<Rightarrow> pystr \<Rightarrow> outbox \<Rightarrow> outbox_entry list" where
  "entries_for_input client_id iid ob = dget (dget ob client_id []) iid []"

definition remove_input :: "int \<Rightarrow> pystr \<Rightarrow> outbox \<Rightarrow> outbox" where
  "remove_input client_id iid ob =
     (case map_of ob client_id of
        None \<Rightarrow> ob
      | Some inputs \<Rightarrow>
          (let inputs' = dpop iid inputs in
           if inputs' = [] then dpop client_id ob else dset client_id inputs' ob))"

definition all_pending :: "outbox \<Rightarrow> outbox_entry list" where
  "all_pending ob = [entry. (_, inputs) \<leftarrow> ob, (_, entries) \<leftarrow> inputs, entry \<leftarrow> entries]"

definition outbox_drop_client :: "int \<Rightarrow> outbox \<Rightarrow> outbox" where
  "outbox_drop_client client_id ob = dpop client_id ob"

subsection \<open>to_dict and from_dict\<close>

datatype entry_value = EStr pystr | EBytes bytes | EShard "int option"

definition entry_to_dict :: "outbox_entry \<Rightarrow> (string \<times> entry_value) list" where
  "entry_to_dict e =
     [(''output_id'', EStr (output_id e)), (''input_id'', EStr (input_id e)),
      (''destination'', EStr (destination e)), (''body'', EBytes (body e)),
      (''shard'', EShard (shard e))]"

text \<open>
  \<open>data["output_id"]\<close> raises \<open>KeyError\<close> when the key is missing; \<open>data.get("shard")\<close>
  gives \<open>None\<close>. A dataclass does not check the type of its fields; a field of the wrong
  type is a \<open>TypeError\<close> here.
\<close>

definition get_str :: "(string \<times> entry_value) list \<Rightarrow> string \<Rightarrow> pystr res" where
  "get_str d k = (case map_of d k of None \<Rightarrow> Inl KeyError | Some (EStr s) \<Rightarrow> Inr s | _ \<Rightarrow> Inl TypeError)"

definition entry_from_dict :: "(string \<times> entry_value) list \<Rightarrow> outbox_entry res" where
  "entry_from_dict d =
     rbind (get_str d ''output_id'') (\<lambda>oid.
     rbind (get_str d ''input_id'') (\<lambda>iid.
     rbind (get_str d ''destination'') (\<lambda>dst.
     rbind (case map_of d ''body'' of None \<Rightarrow> Inl KeyError | Some (EBytes b) \<Rightarrow> Inr b
            | _ \<Rightarrow> Inl TypeError) (\<lambda>b.
     rbind (case map_of d ''shard'' of None \<Rightarrow> Inr None | Some (EShard s) \<Rightarrow> Inr s
            | _ \<Rightarrow> Inl TypeError) (\<lambda>sh.
     Inr \<lparr>output_id = oid, input_id = iid, destination = dst, body = b, shard = sh\<rparr>)))))"

type_synonym outbox_dict = "(int \<times> (pystr \<times> (string \<times> entry_value) list list) list) list"

definition outbox_to_dict :: "outbox \<Rightarrow> outbox_dict" where
  "outbox_to_dict ob = map (map_prod id (map (map_prod id (map entry_to_dict)))) ob"

definition outbox_from_dict :: "outbox_dict \<Rightarrow> outbox res" where
  "outbox_from_dict d =
     rmap (\<lambda>(client_id, inputs).
        rbind (rmap (\<lambda>(iid, entries).
           rbind (rmap entry_from_dict entries) (\<lambda>es. Inr (iid, es))) inputs)
        (\<lambda>ins. Inr (client_id, ins))) d"

lemma entry_from_to_dict [simp]: "entry_from_dict (entry_to_dict e) = Inr e"
  by (simp add: entry_from_dict_def entry_to_dict_def get_str_def)

lemma outbox_from_to_dict [codec]: "outbox_from_dict (outbox_to_dict ob) = Inr ob"
  unfolding outbox_from_dict_def outbox_to_dict_def
  by (intro rmap_map) (auto simp: map_prod_def rmap_map split: prod.splits)

subsection \<open>Well-formedness and the lookup laws\<close>

text \<open>Keys are unique and no client is kept with an empty table of inputs.\<close>

definition outbox_wf :: "outbox \<Rightarrow> bool" where
  "outbox_wf ob \<longleftrightarrow> dict_wf ob \<and> (\<forall>(c, inputs) \<in> set ob. dict_wf inputs \<and> inputs \<noteq> [])"

lemma outbox_wf_iff:
  "outbox_wf ob \<longleftrightarrow>
     dict_wf ob \<and> (\<forall>c inputs. map_of ob c = Some inputs \<longrightarrow> dict_wf inputs \<and> inputs \<noteq> [])"
  unfolding outbox_wf_def dict_wf_def by (fastforce simp: map_of_eq_Some_iff)

lemma dset_not_Nil [simp]: "dset k v d \<noteq> []"
  by (cases d) auto

lemma outbox_wf_Nil [simp]: "outbox_wf []"
  by (simp add: outbox_wf_def)

lemma outbox_wf_add [simp]: "outbox_wf ob \<Longrightarrow> outbox_wf (outbox_add c i es ob)"
  by (auto simp: outbox_wf_iff outbox_add_def dget_def split: option.splits)

lemma outbox_wf_remove [simp]: "outbox_wf ob \<Longrightarrow> outbox_wf (remove_input c i ob)"
  by (auto simp: outbox_wf_iff remove_input_def Let_def split: option.splits if_splits)

lemma entries_add [simp]:
  "entries_for_input c' i' (outbox_add c i es ob)
   = (if c' = c \<and> i' = i then es else entries_for_input c' i' ob)"
  by (auto simp: entries_for_input_def outbox_add_def)

lemma entries_remove [simp]:
  "entries_for_input c' i' (remove_input c i ob)
   = (if c' = c \<and> i' = i then [] else entries_for_input c' i' ob)"
proof -
  have "dpop i inputs = [] \<Longrightarrow> i' \<noteq> i \<Longrightarrow> map_of inputs i' = None" for inputs :: "(pystr \<times> outbox_entry list) list"
    by (metis fun_upd_apply map_of.simps(1) map_of_dpop)
  then show ?thesis
    by (auto simp: entries_for_input_def remove_input_def Let_def dget_def split: option.splits)
qed

end
