(* ===== verification/Inbox.thy ===== *)
theory Inbox
  imports Text "HOL-Library.Product_Lexorder"
begin

text \<open>
  Input deduplication, \<open>common/fault_tolerance/inbox/\<close>: the bounded tracker of finished
  sequence numbers, the per-client inbox with its three statuses, its dictionary form, and
  the contract the durable-state handler relies on as a locale.
\<close>

subsection \<open>MsgKind and InboxStatus\<close>

datatype msg_kind =
    DATA | CTRL_FLUSH_ORDER | CTRL_FLUSH_ACK | CTRL_UPSTREAM_EOF | CTRL_EOF_RECEIVED
  | CTRL_PROCESSED_ANSWER | Q3_AVERAGES | Q3_CANDIDATES | ABORT

fun kind_value :: "msg_kind \<Rightarrow> int" where
  "kind_value DATA = 0"
| "kind_value CTRL_FLUSH_ORDER = 1"
| "kind_value CTRL_FLUSH_ACK = 2"
| "kind_value CTRL_UPSTREAM_EOF = 3"
| "kind_value CTRL_EOF_RECEIVED = 4"
| "kind_value CTRL_PROCESSED_ANSWER = 5"
| "kind_value Q3_AVERAGES = 6"
| "kind_value Q3_CANDIDATES = 7"
| "kind_value ABORT = 8"

definition all_kinds :: "msg_kind list" where
  "all_kinds = [DATA, CTRL_FLUSH_ORDER, CTRL_FLUSH_ACK, CTRL_UPSTREAM_EOF, CTRL_EOF_RECEIVED,
     CTRL_PROCESSED_ANSWER, Q3_AVERAGES, Q3_CANDIDATES, ABORT]"

text \<open>\<open>MsgKind(raw)\<close>: the member with that value, or \<open>ValueError\<close>.\<close>

definition kind_of_value :: "int \<Rightarrow> msg_kind res" where
  "kind_of_value v = (case filter (\<lambda>k. kind_value k = v) all_kinds of
     [] \<Rightarrow> Inl ValueError | k # _ \<Rightarrow> Inr k)"

lemma kind_of_value_value [codec, simp]: "kind_of_value (kind_value k) = Inr k"
  by (cases k) (simp_all add: kind_of_value_def all_kinds_def)

lemma kind_value_inject [simp]: "kind_value k = kind_value k' \<longleftrightarrow> k = k'"
  by (metis kind_of_value_value sum.inject(2))

lemma kind_value_range: "0 \<le> kind_value k" "kind_value k < 256"
  by (cases k; simp)+

instantiation msg_kind :: linorder
begin

definition less_eq_msg_kind :: "msg_kind \<Rightarrow> msg_kind \<Rightarrow> bool" where
  "less_eq_msg_kind a b \<longleftrightarrow> kind_value a \<le> kind_value b"

definition less_msg_kind :: "msg_kind \<Rightarrow> msg_kind \<Rightarrow> bool" where
  "less_msg_kind a b \<longleftrightarrow> kind_value a < kind_value b"

instance
  by standard (auto simp: less_eq_msg_kind_def less_msg_kind_def)

end

datatype inbox_status = NEW | APPLIED | DONE

subsection \<open>DeduplicationTracker\<close>

record dedup_tracker =
  biggest :: int
  pending :: "int set"

definition MAX_SEQUENTIAL_GAP :: int where "MAX_SEQUENTIAL_GAP = 65536"

definition new_tracker :: dedup_tracker where
  "new_tracker = \<lparr>biggest = 0, pending = {}\<rparr>"

definition is_duplicate :: "dedup_tracker \<Rightarrow> int \<Rightarrow> bool" where
  "is_duplicate t seq \<longleftrightarrow> seq \<le> biggest t \<and> seq \<notin> pending t"

definition observe :: "dedup_tracker \<Rightarrow> int \<Rightarrow> dedup_tracker" where
  "observe t seq =
     (if seq > biggest t then
        (let gap = seq - biggest t - 1;
             pending' = (if gap \<le> MAX_SEQUENTIAL_GAP
                         then pending t \<union> set [biggest t + 1..seq - 1] else pending t)
         in \<lparr>biggest = seq, pending = pending'\<rparr>)
      else t\<lparr>pending := pending t - {seq}\<rparr>)"

record tracker_dict =
  td_biggest :: int
  td_pending :: "int list"

definition tracker_to_dict :: "dedup_tracker \<Rightarrow> tracker_dict" where
  "tracker_to_dict t = \<lparr>td_biggest = biggest t, td_pending = sorted_list_of_set (pending t)\<rparr>"

definition tracker_from_dict :: "tracker_dict \<Rightarrow> dedup_tracker" where
  "tracker_from_dict d = \<lparr>biggest = td_biggest d, pending = set (td_pending d)\<rparr>"

definition tracker_wf :: "dedup_tracker \<Rightarrow> bool" where
  "tracker_wf t \<longleftrightarrow> finite (pending t) \<and> (\<forall>p \<in> pending t. 0 < p \<and> p < biggest t) \<and> 0 \<le> biggest t"

lemma tracker_wf_new [simp]: "tracker_wf new_tracker"
  by (simp add: tracker_wf_def new_tracker_def)

lemma tracker_wf_observe: "tracker_wf t \<Longrightarrow> tracker_wf (observe t seq)"
  by (fastforce simp: tracker_wf_def observe_def Let_def)

lemma tracker_roundtrip [codec]: "tracker_wf t \<Longrightarrow> tracker_from_dict (tracker_to_dict t) = t"
  by (simp add: tracker_from_dict_def tracker_to_dict_def tracker_wf_def)

lemma observe_duplicate: "tracker_wf t \<Longrightarrow> is_duplicate (observe t seq) seq"
  by (auto simp: is_duplicate_def observe_def tracker_wf_def Let_def)

lemma observe_duplicate_mono: "is_duplicate t s \<Longrightarrow> is_duplicate (observe t seq) s"
  by (auto simp: is_duplicate_def observe_def Let_def)

lemma observe_idem: "is_duplicate t seq \<Longrightarrow> observe t seq = t"
  by (simp add: is_duplicate_def observe_def)

text \<open>
  One observation makes exactly its own number a duplicate when the gap it opens is within
  the cap; past the cap every number it jumped over becomes a duplicate too.
\<close>

lemma observe_exact:
  "seq - biggest t - 1 \<le> MAX_SEQUENTIAL_GAP \<Longrightarrow> tracker_wf t \<Longrightarrow>
   is_duplicate (observe t seq) s \<longleftrightarrow> is_duplicate t s \<or> s = seq"
  by (auto simp: is_duplicate_def observe_def tracker_wf_def Let_def)

lemma observe_past_cap:
  "tracker_wf t \<Longrightarrow> MAX_SEQUENTIAL_GAP < seq - biggest t - 1 \<Longrightarrow>
   is_duplicate (observe t seq) s \<longleftrightarrow> is_duplicate t s \<or> biggest t < s \<and> s \<le> seq"
  by (auto simp: is_duplicate_def observe_def tracker_wf_def Let_def MAX_SEQUENTIAL_GAP_def)

fun gaps_within_cap :: "dedup_tracker \<Rightarrow> int list \<Rightarrow> bool" where
  "gaps_within_cap t [] = True"
| "gaps_within_cap t (s # ss) =
     (s - biggest t - 1 \<le> MAX_SEQUENTIAL_GAP \<and> gaps_within_cap (observe t s) ss)"

lemma foldl_observe_exact:
  "tracker_wf t \<Longrightarrow> gaps_within_cap t ss \<Longrightarrow>
   is_duplicate (foldl observe t ss) s \<longleftrightarrow> is_duplicate t s \<or> s \<in> set ss"
  by (induction ss arbitrary: t) (auto simp: observe_exact tracker_wf_observe)

subsection \<open>Inbox\<close>

record inbox =
  applied_of :: "(int \<times> (int \<times> int \<times> int) set) list"
  done_of :: "(int \<times> ((int \<times> int) \<times> dedup_tracker) list) list"

definition new_inbox :: inbox where
  "new_inbox = \<lparr>applied_of = [], done_of = []\<rparr>"

definition classify :: "inbox \<Rightarrow> int \<Rightarrow> int \<Rightarrow> int \<Rightarrow> msg_kind \<Rightarrow> inbox_status" where
  "classify ib client_id sender_id seq kind =
     (if (kind_value kind, sender_id, seq) \<in> dget (applied_of ib) client_id {} then APPLIED
      else (case map_of (dget (done_of ib) client_id []) (kind_value kind, sender_id) of
              None \<Rightarrow> NEW
            | Some tracker \<Rightarrow> if is_duplicate tracker seq then DONE else NEW))"

definition mark_applied :: "int \<Rightarrow> int \<Rightarrow> int \<Rightarrow> msg_kind \<Rightarrow> inbox \<Rightarrow> inbox" where
  "mark_applied client_id sender_id seq kind ib =
     ib\<lparr>applied_of := dset client_id
         (insert (kind_value kind, sender_id, seq) (dget (applied_of ib) client_id {}))
         (applied_of ib)\<rparr>"

definition discard_applied ::
  "int \<Rightarrow> int \<times> int \<times> int \<Rightarrow> (int \<times> (int \<times> int \<times> int) set) list
   \<Rightarrow> (int \<times> (int \<times> int \<times> int) set) list" where
  "discard_applied client_id triple applied =
     (case map_of applied client_id of
        None \<Rightarrow> applied
      | Some s \<Rightarrow> if s - {triple} = {} then dpop client_id applied
                  else dset client_id (s - {triple}) applied)"

definition mark_done :: "int \<Rightarrow> int \<Rightarrow> int \<Rightarrow> msg_kind \<Rightarrow> inbox \<Rightarrow> inbox" where
  "mark_done client_id sender_id seq kind ib =
     (let senders = dget (done_of ib) client_id [];
          tracker = dget senders (kind_value kind, sender_id) new_tracker in
      \<lparr>applied_of = discard_applied client_id (kind_value kind, sender_id, seq) (applied_of ib),
       done_of = dset client_id
         (dset (kind_value kind, sender_id) (observe tracker seq) senders) (done_of ib)\<rparr>)"

definition inbox_drop_client :: "int \<Rightarrow> inbox \<Rightarrow> inbox" where
  "inbox_drop_client client_id ib =
     \<lparr>applied_of = dpop client_id (applied_of ib), done_of = dpop client_id (done_of ib)\<rparr>"

subsection \<open>to_dict and from_dict\<close>

datatype done_key = KeyStr pystr | KeyInt int

record inbox_dict =
  id_applied :: "(int \<times> (int \<times> int \<times> int) list) list"
  id_done :: "(int \<times> (done_key \<times> tracker_dict) list) list"

definition done_key_of :: "int \<times> int \<Rightarrow> done_key" where
  "done_key_of k = KeyStr (int_str (fst k) @ [58] @ int_str (snd k))"

definition parse_done_key :: "done_key \<Rightarrow> (int \<times> int) res" where
  "parse_done_key key =
     (case key of
        KeyStr s \<Rightarrow>
          (case dropWhile (\<lambda>c. c \<noteq> 58) s of
             [] \<Rightarrow> Inl ValueError
           | _ # sender \<Rightarrow>
               rbind (py_int (takeWhile (\<lambda>c. c \<noteq> 58) s)) (\<lambda>kind_val.
               rbind (py_int sender) (\<lambda>sender_id. Inr (kind_val, sender_id))))
      | KeyInt n \<Rightarrow> Inr (kind_value DATA, n))"

definition inbox_to_dict :: "inbox \<Rightarrow> inbox_dict" where
  "inbox_to_dict ib =
     \<lparr>id_applied = map (map_prod id sorted_list_of_set) (applied_of ib),
      id_done = map (map_prod id (map (map_prod done_key_of tracker_to_dict))) (done_of ib)\<rparr>"

definition senders_from_dict ::
  "(done_key \<times> tracker_dict) list \<Rightarrow> ((int \<times> int) \<times> dedup_tracker) list res" where
  "senders_from_dict senders =
     rbind (rmap (\<lambda>(key, wm).
        rbind (parse_done_key key) (\<lambda>k. Inr (k, tracker_from_dict wm))) senders)
     (\<lambda>kvs. Inr (py_dict kvs))"

definition inbox_from_dict :: "inbox_dict \<Rightarrow> inbox res" where
  "inbox_from_dict d =
     rbind (rmap (\<lambda>(client_id, senders).
        rbind (senders_from_dict senders) (\<lambda>ts. Inr (client_id, ts))) (id_done d))
     (\<lambda>done_map. Inr \<lparr>applied_of = map (map_prod id set) (id_applied d), done_of = done_map\<rparr>)"

subsection \<open>Well-formedness\<close>

definition senders_wf :: "((int \<times> int) \<times> dedup_tracker) list \<Rightarrow> bool" where
  "senders_wf ts \<longleftrightarrow> dict_wf ts \<and> dict_all tracker_wf ts"

lemma senders_wf_Nil [simp]: "senders_wf []"
  by (simp add: senders_wf_def)

definition inbox_wf :: "inbox \<Rightarrow> bool" where
  "inbox_wf ib \<longleftrightarrow>
     dict_wf (applied_of ib) \<and> dict_all (\<lambda>s. finite s \<and> s \<noteq> {}) (applied_of ib) \<and>
     dict_wf (done_of ib) \<and> dict_all senders_wf (done_of ib)"

lemma inbox_wf_new [simp]: "inbox_wf new_inbox"
  by (simp add: inbox_wf_def new_inbox_def)

lemma inbox_wf_mark_applied [simp]:
  assumes "inbox_wf ib" shows "inbox_wf (mark_applied c s q k ib)"
proof -
  have "finite (dget (applied_of ib) c {})"
    using assms unfolding inbox_wf_def
    by (metis (mono_tags, lifting) dget_def dict_all_lookup finite.emptyI option.case_eq_if
        option.collapse)
  with assms show ?thesis by (simp add: inbox_wf_def mark_applied_def)
qed

lemma inbox_wf_senders: "inbox_wf ib \<Longrightarrow> senders_wf (dget (done_of ib) c [])"
  by (rule dict_all_dget) (simp_all add: inbox_wf_def)

lemma inbox_wf_tracker:
  "inbox_wf ib \<Longrightarrow> tracker_wf (dget (dget (done_of ib) c []) ks new_tracker)"
  by (rule dict_all_dget) (use inbox_wf_senders [of ib c] in \<open>auto simp: senders_wf_def\<close>)

lemma discard_applied_wf:
  assumes "dict_wf d" and "dict_all (\<lambda>s. finite s \<and> s \<noteq> {}) d"
  shows "dict_wf (discard_applied c t d) \<and> dict_all (\<lambda>s. finite s \<and> s \<noteq> {}) (discard_applied c t d)"
  using assms dict_all_lookup [OF assms(2)]
  by (auto simp: discard_applied_def split: option.splits intro!: dict_all_dset)

lemma inbox_wf_mark_done [simp]:
  assumes "inbox_wf ib" shows "inbox_wf (mark_done c s q k ib)"
proof -
  have "senders_wf (dset ks (observe (dget (dget (done_of ib) c []) ks new_tracker) q)
      (dget (done_of ib) c []))" for ks
    using inbox_wf_senders [OF assms, of c] inbox_wf_tracker [OF assms]
    by (simp add: senders_wf_def tracker_wf_observe)
  with assms show ?thesis
    by (simp add: inbox_wf_def mark_done_def Let_def discard_applied_wf)
qed

lemma inbox_wf_drop_client [simp]: "inbox_wf ib \<Longrightarrow> inbox_wf (inbox_drop_client c ib)"
  by (simp add: inbox_wf_def inbox_drop_client_def)

lemma takeWhile_colon: "58 \<notin> set s \<Longrightarrow> takeWhile (\<lambda>c. c \<noteq> 58) (s @ 58 # t) = s"
  by (induction s) auto

lemma dropWhile_colon: "58 \<notin> set s \<Longrightarrow> dropWhile (\<lambda>c. c \<noteq> 58) (s @ 58 # t) = 58 # t"
  by (induction s) auto

lemma parse_done_key_of [codec, simp]: "parse_done_key (done_key_of k) = Inr k"
  by (simp add: parse_done_key_def done_key_of_def takeWhile_colon dropWhile_colon)

lemma inbox_roundtrip [codec]:
  assumes "inbox_wf ib"
  shows "inbox_from_dict (inbox_to_dict ib) = Inr ib"
proof -
  have senders: "senders_from_dict (map (map_prod done_key_of tracker_to_dict) ts) = Inr ts"
    if "(c, ts) \<in> set (done_of ib)" for c ts
  proof -
    have "dict_wf ts" "\<And>k t. (k, t) \<in> set ts \<Longrightarrow> tracker_wf t"
      using assms that by (force simp: inbox_wf_def dict_all_def senders_wf_def)+
    then have "rmap (\<lambda>(key, wm). rbind (parse_done_key key) (\<lambda>k. Inr (k, tracker_from_dict wm)))
        (map (map_prod done_key_of tracker_to_dict) ts) = Inr ts"
      by (intro rmap_map) (auto simp: tracker_roundtrip)
    with \<open>dict_wf ts\<close> show ?thesis by (simp add: senders_from_dict_def py_dict_id)
  qed
  have "rmap (\<lambda>(client_id, senders).
      rbind (senders_from_dict senders) (\<lambda>ts. Inr (client_id, ts))) (id_done (inbox_to_dict ib))
    = Inr (done_of ib)"
    by (simp add: inbox_to_dict_def, rule rmap_map) (auto simp: senders)
  moreover have "map (map_prod id set) (id_applied (inbox_to_dict ib)) = applied_of ib"
    using assms unfolding inbox_to_dict_def
    by (auto simp: inbox_wf_def dict_all_def intro!: map_idI)
  ultimately show ?thesis by (simp add: inbox_from_dict_def)
qed

subsection \<open>How the operations change the classification\<close>

definition is_applied :: "inbox \<Rightarrow> int \<Rightarrow> int \<Rightarrow> int \<Rightarrow> msg_kind \<Rightarrow> bool" where
  "is_applied ib c s q k \<longleftrightarrow> (kind_value k, s, q) \<in> dget (applied_of ib) c {}"

definition tracker_for :: "inbox \<Rightarrow> int \<Rightarrow> int \<Rightarrow> msg_kind \<Rightarrow> dedup_tracker option" where
  "tracker_for ib c s k = map_of (dget (done_of ib) c []) (kind_value k, s)"

lemma classify_eq:
  "classify ib c s q k =
     (if is_applied ib c s q k then APPLIED
      else (case tracker_for ib c s k of
              None \<Rightarrow> NEW | Some t \<Rightarrow> if is_duplicate t q then DONE else NEW))"
  by (simp add: classify_def is_applied_def tracker_for_def)

lemma is_applied_mark_applied:
  "is_applied (mark_applied c s q k ib) c' s' q' k' \<longleftrightarrow>
     c' = c \<and> s' = s \<and> q' = q \<and> k' = k \<or> is_applied ib c' s' q' k'"
  by (auto simp: is_applied_def mark_applied_def)

lemma tracker_for_mark_applied [simp]: "tracker_for (mark_applied c s q k ib) c' s' k' = tracker_for ib c' s' k'"
  by (simp add: tracker_for_def mark_applied_def)

lemma is_applied_mark_done:
  "is_applied (mark_done c s q k ib) c' s' q' k' \<longleftrightarrow>
     is_applied ib c' s' q' k' \<and> \<not> (c' = c \<and> s' = s \<and> q' = q \<and> k' = k)"
  by (auto simp: is_applied_def mark_done_def Let_def discard_applied_def dget_def
      split: option.splits if_splits)

lemma tracker_for_mark_done:
  "tracker_for (mark_done c s q k ib) c' s' k' =
     (if c' = c \<and> s' = s \<and> k' = k
      then Some (observe (case tracker_for ib c s k of None \<Rightarrow> new_tracker | Some t \<Rightarrow> t) q)
      else tracker_for ib c' s' k')"
  by (simp add: tracker_for_def mark_done_def Let_def dget_def [of "dget (done_of ib) c []"])

lemma classify_mark_applied [inbox_simps]:
  "classify (mark_applied c s q k ib) c' s' q' k' =
     (if c' = c \<and> s' = s \<and> q' = q \<and> k' = k then APPLIED else classify ib c' s' q' k')"
  by (simp add: classify_eq is_applied_mark_applied)

lemma tracker_for_wf: "inbox_wf ib \<Longrightarrow> tracker_for ib c s k = Some t \<Longrightarrow> tracker_wf t"
  using inbox_wf_tracker [of ib c "(kind_value k, s)"] by (simp add: tracker_for_def dget_def)

lemma classify_mark_done_self [inbox_simps]:
  "inbox_wf ib \<Longrightarrow> classify (mark_done c s q k ib) c s q k = DONE"
  by (auto simp: classify_eq is_applied_mark_done tracker_for_mark_done tracker_for_wf
      intro!: observe_duplicate split: option.splits)

lemma classify_done_mono [inbox_simps]:
  "classify ib c' s' q' k' = DONE \<Longrightarrow> classify (mark_done c s q k ib) c' s' q' k' = DONE"
  by (auto simp: classify_eq is_applied_mark_done tracker_for_mark_done observe_duplicate_mono
      split: option.splits if_splits)

lemma classify_applied_stays [inbox_simps]:
  "classify ib c' s' q' k' = APPLIED \<Longrightarrow> \<not> (c' = c \<and> s' = s \<and> q' = q \<and> k' = k) \<Longrightarrow>
   classify (mark_done c s q k ib) c' s' q' k' = APPLIED"
  by (simp add: classify_eq is_applied_mark_done split: option.splits if_splits)

text \<open>
  The exact effect of finishing one input on every other input, when the gap it opens is
  within the cap: an input already applied stays applied, a sequence number of 0 or less in
  the same bucket turns into a duplicate, everything else is unchanged.
\<close>

lemma classify_mark_done_other:
  assumes wf: "inbox_wf ib"
    and gap: "q - (case tracker_for ib c s k of None \<Rightarrow> 0 | Some t \<Rightarrow> biggest t) - 1 \<le> MAX_SEQUENTIAL_GAP"
    and other: "\<not> (c' = c \<and> s' = s \<and> q' = q \<and> k' = k)"
  shows "classify (mark_done c s q k ib) c' s' q' k' =
     (if c' = c \<and> s' = s \<and> k' = k \<and> q' \<le> 0 \<and> classify ib c' s' q' k' = NEW then DONE
      else classify ib c' s' q' k')"
proof (cases "c' = c \<and> s' = s \<and> k' = k \<and> \<not> is_applied ib c' s' q' k'")
  case True
  define t where "t = (case tracker_for ib c s k of None \<Rightarrow> new_tracker | Some t \<Rightarrow> t)"
  have t: "tracker_wf t" using tracker_for_wf [OF wf] by (auto simp: t_def split: option.splits)
  have "q - biggest t - 1 \<le> MAX_SEQUENTIAL_GAP"
    using gap by (auto simp: t_def new_tracker_def split: option.splits)
  then have "is_duplicate (observe t q) q' \<longleftrightarrow> is_duplicate t q'"
    using observe_exact [OF _ t] other True by auto
  moreover have "is_duplicate new_tracker q' \<longleftrightarrow> q' \<le> 0"
    by (simp add: is_duplicate_def new_tracker_def)
  moreover have "q' \<le> 0 \<Longrightarrow> is_duplicate t q'"
    using t by (force simp: is_duplicate_def tracker_wf_def)
  ultimately show ?thesis
    using True by (auto simp: classify_eq is_applied_mark_done tracker_for_mark_done t_def
        split: option.splits)
next
  case False
  with other show ?thesis
    by (auto simp: classify_eq is_applied_mark_done tracker_for_mark_done)
qed

lemma mark_done_idem:
  assumes "inbox_wf ib" and "classify ib c s q k = DONE"
  shows "mark_done c s q k ib = ib"
proof -
  let ?ts = "dget (done_of ib) c []"
  obtain t where t: "map_of ?ts (kind_value k, s) = Some t" and dup: "is_duplicate t q"
    and no: "(kind_value k, s, q) \<notin> dget (applied_of ib) c {}"
    using assms(2) by (auto simp: classify_def split: if_splits option.splits)
  from t have c: "map_of (done_of ib) c = Some ?ts"
    by (auto simp: dget_def split: option.splits)
  from t have "dget ?ts (kind_value k, s) new_tracker = t" by (simp add: dget_def)
  moreover have "dset (kind_value k, s) t ?ts = ?ts" using t by (rule dset_same)
  moreover have "discard_applied c (kind_value k, s, q) (applied_of ib) = applied_of ib"
  proof (cases "map_of (applied_of ib) c")
    case (Some x)
    with no have "x - {(kind_value k, s, q)} = x" by (simp add: dget_def)
    moreover have "x \<noteq> {}" using assms(1) Some by (auto simp: inbox_wf_def dest: dict_all_lookup)
    ultimately show ?thesis using Some by (simp add: discard_applied_def dset_same)
  qed (simp add: discard_applied_def)
  ultimately show ?thesis
    using dset_same [OF c] by (simp add: mark_done_def Let_def observe_idem [OF dup])
qed

subsection \<open>The contract of a deduplication store\<close>

text \<open>
  What the durable-state handler relies on, for any store of input statuses: applying an
  input changes that input only, finishing an input is permanent and does not disturb an
  applied one, and finishing twice is finishing once. A log is a list of applied and done
  events; an event is reflected in a store when replaying it has nothing left to do.
\<close>

datatype 'x input_event = AppliedEvent 'x | DoneEvent 'x

definition reflected :: "('i \<Rightarrow> 'x \<Rightarrow> inbox_status) \<Rightarrow> 'i \<Rightarrow> 'x input_event \<Rightarrow> bool" where
  "reflected st i e = (case e of AppliedEvent x \<Rightarrow> st i x \<noteq> NEW | DoneEvent x \<Rightarrow> st i x = DONE)"

fun accepted ::
  "('i \<Rightarrow> 'x \<Rightarrow> inbox_status) \<Rightarrow> ('x \<Rightarrow> 'i \<Rightarrow> 'i) \<Rightarrow> ('x \<Rightarrow> 'i \<Rightarrow> 'i) \<Rightarrow> 'x input_event list \<Rightarrow> 'i \<Rightarrow> 'x list"
where
  "accepted st app dn [] i = []"
| "accepted st app dn (AppliedEvent x # es) i =
     (if st i x = NEW then x # accepted st app dn es (app x i) else accepted st app dn es i)"
| "accepted st app dn (DoneEvent x # es) i = accepted st app dn es (dn x i)"

locale dedup_store =
  fixes st :: "'i \<Rightarrow> 'x \<Rightarrow> inbox_status"
    and app :: "'x \<Rightarrow> 'i \<Rightarrow> 'i"
    and dn :: "'x \<Rightarrow> 'i \<Rightarrow> 'i"
    and wf :: "'i \<Rightarrow> bool"
  assumes wf_app: "wf i \<Longrightarrow> wf (app x i)"
    and wf_dn: "wf i \<Longrightarrow> wf (dn x i)"
    and st_app: "wf i \<Longrightarrow> st (app x i) y = (if y = x then APPLIED else st i y)"
    and st_dn_self: "wf i \<Longrightarrow> st (dn x i) x = DONE"
    and st_dn_done: "wf i \<Longrightarrow> st i y = DONE \<Longrightarrow> st (dn x i) y = DONE"
    and st_dn_applied: "wf i \<Longrightarrow> st i y = APPLIED \<Longrightarrow> y \<noteq> x \<Longrightarrow> st (dn x i) y = APPLIED"
    and dn_idem: "wf i \<Longrightarrow> st i x = DONE \<Longrightarrow> dn x i = i"
begin

lemma reflected_app: "wf i \<Longrightarrow> st i x = NEW \<Longrightarrow> reflected st i e \<Longrightarrow> reflected st (app x i) e"
  by (auto simp: reflected_def st_app split: input_event.splits)

lemma reflected_dn: "wf i \<Longrightarrow> reflected st i e \<Longrightarrow> reflected st (dn x i) e"
  using st_dn_applied [of i _ x] st_dn_done [of i _ x] st_dn_self [of i x]
  by (auto simp: reflected_def split: input_event.splits) (metis inbox_status.exhaust inbox_status.distinct)+

lemma reflected_new: "wf i \<Longrightarrow> reflected st (app x i) (AppliedEvent x)"
  by (simp add: reflected_def st_app)

lemma reflected_done: "wf i \<Longrightarrow> reflected st (dn x i) (DoneEvent x)"
  by (simp add: reflected_def st_dn_self)

lemma reflected_status: "wf i \<Longrightarrow> st i x \<noteq> NEW \<Longrightarrow> st (dn y i) x \<noteq> NEW"
  using reflected_dn [of i "AppliedEvent x" y] by (simp add: reflected_def)

lemma accepted_was_new: "wf i \<Longrightarrow> st i x \<noteq> NEW \<Longrightarrow> x \<notin> set (accepted st app dn es i)"
proof (induction es arbitrary: i)
  case (Cons e es)
  then show ?case by (cases e) (auto simp: st_app wf_app wf_dn reflected_status)
qed simp

text \<open>No input is accepted twice, whatever is delivered and replayed in whatever order.\<close>

lemma accepted_distinct: "wf i \<Longrightarrow> distinct (accepted st app dn es i)"
proof (induction es arbitrary: i)
  case (Cons e es)
  have "x \<notin> set (accepted st app dn es (app x i))" for x
    using Cons.prems by (intro accepted_was_new) (simp_all add: wf_app st_app)
  with Cons show ?case by (cases e) (auto simp: wf_app wf_dn)
qed simp

lemma accepted_reflected:
  "wf i \<Longrightarrow> \<forall>e \<in> set es. reflected st i e \<Longrightarrow> accepted st app dn es i = []"
proof (induction es arbitrary: i)
  case (Cons e es)
  then show ?case by (cases e) (auto simp: reflected_def dn_idem)
qed simp

end

subsection \<open>The inbox keeps the contract\<close>

type_synonym input_key = "int \<times> int \<times> int \<times> msg_kind"

fun key_status :: "inbox \<Rightarrow> input_key \<Rightarrow> inbox_status" where
  "key_status ib (c, s, q, k) = classify ib c s q k"

fun key_applied :: "input_key \<Rightarrow> inbox \<Rightarrow> inbox" where
  "key_applied (c, s, q, k) ib = mark_applied c s q k ib"

fun key_done :: "input_key \<Rightarrow> inbox \<Rightarrow> inbox" where
  "key_done (c, s, q, k) ib = mark_done c s q k ib"

interpretation ibx: dedup_store key_status key_applied key_done inbox_wf
proof
  fix i :: inbox and x y :: input_key
  obtain c s q k where x: "x = (c, s, q, k)" by (cases x)
  obtain c' s' q' k' where y: "y = (c', s', q', k')" by (cases y)
  assume wf: "inbox_wf i"
  show "inbox_wf (key_applied x i)" "inbox_wf (key_done x i)" using wf by (simp_all add: x)
  show "key_status (key_applied x i) y = (if y = x then APPLIED else key_status i y)"
    by (simp add: x y classify_mark_applied)
  show "key_status (key_done x i) x = DONE" using wf by (simp add: x classify_mark_done_self)
  show "key_status (key_done x i) y = DONE" if "key_status i y = DONE"
    using that by (simp add: x y classify_done_mono)
  show "key_status (key_done x i) y = APPLIED" if "key_status i y = APPLIED" "y \<noteq> x"
    using that by (auto simp: x y intro: classify_applied_stays)
  show "key_done x i = i" if "key_status i x = DONE"
    using that wf by (simp add: x mark_done_idem)
qed

subsection \<open>Histories of an inbox\<close>

fun inbox_event :: "inbox \<Rightarrow> input_key input_event \<Rightarrow> inbox" where
  "inbox_event ib (AppliedEvent x) = key_applied x ib"
| "inbox_event ib (DoneEvent x) = key_done x ib"

text \<open>The finished numbers of one sender, client and kind, in order.\<close>

definition done_seqs :: "int \<Rightarrow> int \<Rightarrow> msg_kind \<Rightarrow> input_key input_event list \<Rightarrow> int list" where
  "done_seqs c s k events = concat (map (\<lambda>e. case e of
     AppliedEvent _ \<Rightarrow> [] | DoneEvent (c', s', q, k') \<Rightarrow> if c' = c \<and> s' = s \<and> k' = k then [q] else []) events)"

lemma done_seqs_simps:
  "done_seqs c s k [] = []"
  "done_seqs c s k (events @ [AppliedEvent x]) = done_seqs c s k events"
  "done_seqs c s k (events @ [DoneEvent (c', s', q, k')]) =
     done_seqs c s k events @ (if c' = c \<and> s' = s \<and> k' = k then [q] else [])"
  by (simp_all add: done_seqs_def)

lemma done_seqs_iff: "q \<in> set (done_seqs c s k events) \<longleftrightarrow> DoneEvent (c, s, q, k) \<in> set events"
  by (force simp: done_seqs_def split: input_event.splits if_splits)

lemma tracker_for_events:
  "tracker_for (foldl inbox_event new_inbox events) c s k =
     (if done_seqs c s k events = [] then None else Some (foldl observe new_tracker (done_seqs c s k events)))"
proof (induction events rule: rev_induct)
  case Nil
  show ?case by (simp add: done_seqs_simps tracker_for_def new_inbox_def dget_def)
next
  case (snoc e events)
  show ?case
  proof (cases e)
    case (AppliedEvent x)
    then show ?thesis using snoc by (cases x) (simp add: done_seqs_simps)
  next
    case (DoneEvent x)
    then show ?thesis using snoc by (cases x) (auto simp: done_seqs_simps tracker_for_mark_done)
  qed
qed

lemma is_applied_events:
  "is_applied (foldl inbox_event new_inbox events) c s q k \<Longrightarrow> AppliedEvent (c, s, q, k) \<in> set events"
proof (induction events rule: rev_induct)
  case Nil
  then show ?case by (simp add: is_applied_def new_inbox_def dget_def)
next
  case (snoc e events)
  then show ?case by (cases e rule: input_event.exhaust) (auto simp: is_applied_mark_applied is_applied_mark_done)
qed

subsection \<open>Properties\<close>

text \<open>
  C19: deduplication is exact. As long as no observed number jumps more than the cap ahead, a
  tracker calls a number a duplicate exactly when it is not positive or was observed, whatever
  the order of the observations and however often each was made.
\<close>

theorem tracker_exact:
  assumes "gaps_within_cap new_tracker seqs"
  shows "is_duplicate (foldl observe new_tracker seqs) seq \<longleftrightarrow> seq \<le> 0 \<or> seq \<in> set seqs"
  using foldl_observe_exact [OF tracker_wf_new assms]
  by (simp add: is_duplicate_def new_tracker_def)

theorem tracker_exact_witness:
  "is_duplicate (foldl observe new_tracker [3, 1, 3]) 2 \<longleftrightarrow> (2::int) \<le> 0 \<or> (2::int) \<in> set [3, 1, 3]"
  by (rule tracker_exact) (simp add: new_tracker_def observe_def MAX_SEQUENTIAL_GAP_def)

text \<open>
  No input is applied twice. Over any sequence of deliveries, commits and replayed log
  records, in any order and with any repetitions, the inbox lets each input through at most
  once.
\<close>

theorem inbox_accepts_once: "distinct (accepted key_status key_applied key_done events new_inbox)"
  by (rule ibx.accepted_distinct) simp

text \<open>
  C20: sequence number 0 can be lost. Take any history of inputs marked as applied and as done, of any
  senders, in which some input of a sender, client and kind was done, number 0 of the same sender, client
  and kind was neither applied nor done, and no finished number of that sender jumps past the cap on gaps.
  Then the inbox classifies number 0 as done, so the input is acknowledged without ever being applied,
  while every positive number of that sender that was neither applied nor done is still new. Senders
  number their outputs from 0 (\<open>SenderSequencer\<close>), and a tracker starts with 0 as the biggest number seen.
\<close>

theorem first_sequence_number_lost:
  assumes "DoneEvent (c, s, q, k) \<in> set events"
    and "AppliedEvent (c, s, 0, k) \<notin> set events" and "DoneEvent (c, s, 0, k) \<notin> set events"
    and "gaps_within_cap new_tracker (done_seqs c s k events)"
  shows "classify (foldl inbox_event new_inbox events) c s 0 k = DONE \<and>
    (\<forall>n > 0. AppliedEvent (c, s, n, k) \<notin> set events \<longrightarrow> DoneEvent (c, s, n, k) \<notin> set events \<longrightarrow>
       classify (foldl inbox_event new_inbox events) c s n k = NEW)"
proof -
  let ?ib = "foldl inbox_event new_inbox events" and ?t = "foldl observe new_tracker (done_seqs c s k events)"
  have "done_seqs c s k events \<noteq> []" using assms(1) done_seqs_iff [of q c s k events] by auto
  then have "tracker_for ?ib c s k = Some ?t" by (simp add: tracker_for_events)
  moreover have "is_duplicate ?t n \<longleftrightarrow> n \<le> 0 \<or> n \<in> set (done_seqs c s k events)" for n
    using foldl_observe_exact [OF tracker_wf_new assms(4)] by (simp add: is_duplicate_def new_tracker_def)
  ultimately show ?thesis
    using assms(2,3) is_applied_events by (fastforce simp: classify_eq done_seqs_iff)
qed

text \<open>Numbers 3 and 1 of sender 5 arrive first; number 0 is then lost and number 2 is not.\<close>

theorem first_sequence_number_lost_witness:
  "classify (foldl inbox_event new_inbox
       [AppliedEvent (7, 5, 3, DATA), DoneEvent (7, 5, 3, DATA), AppliedEvent (7, 5, 1, DATA), DoneEvent (7, 5, 1, DATA)]) 7 5 0 DATA = DONE \<and>
   classify (foldl inbox_event new_inbox
       [AppliedEvent (7, 5, 3, DATA), DoneEvent (7, 5, 3, DATA), AppliedEvent (7, 5, 1, DATA), DoneEvent (7, 5, 1, DATA)]) 7 5 2 DATA = NEW"
proof -
  let ?events = "[AppliedEvent (7, 5, 3, DATA), DoneEvent (7, 5, 3, DATA), AppliedEvent (7, 5, 1, DATA), DoneEvent (7, 5, 1, DATA)]
    :: input_key input_event list"
  have "gaps_within_cap new_tracker (done_seqs 7 5 DATA ?events)"
    by (simp add: done_seqs_def new_tracker_def observe_def MAX_SEQUENTIAL_GAP_def)
  from first_sequence_number_lost [OF _ _ _ this, of 3] show ?thesis by simp
qed

end
