(* ===== verification/Wal.thy ===== *)
theory Wal
  imports Json Outbox Inbox "HOL-Library.Sublist"
begin

text \<open>
  The write-ahead log of \<open>common/fault_tolerance/wal/\<close>: the two record types, the writer
  (framing, bounds checks, the partial-write loop), the reader (which stops at a cut-off
  last record), the decoders, and the \<open>Wal\<close> facade over the current segment.
\<close>

subsection \<open>Records\<close>

record input_applied =
  ia_msg_id :: pystr
  ia_client_id :: int
  ia_sender_id :: int
  ia_seq :: int
  ia_state_change :: json
  ia_outputs :: "outbox_entry list"
  ia_kind :: msg_kind

record input_done =
  id_msg_id :: pystr
  id_client_id :: int
  id_sender_id :: int
  id_seq :: int
  id_kind :: msg_kind

datatype wal_record = InputApplied input_applied | InputDone input_done

datatype record_type = INPUT_APPLIED | INPUT_DONE

fun record_type_value :: "record_type \<Rightarrow> nat" where
  "record_type_value INPUT_APPLIED = 0x01"
| "record_type_value INPUT_DONE = 0x02"

definition record_type_of :: "nat \<Rightarrow> record_type res" where
  "record_type_of v =
     (if v = 0x01 then Inr INPUT_APPLIED else if v = 0x02 then Inr INPUT_DONE else Inl ValueError)"

definition HEADER_SIZE :: nat where "HEADER_SIZE = 5"

subsection \<open>WALWriter\<close>

definition ensure_u16_len :: "bytes \<Rightarrow> unit res" where
  "ensure_u16_len data = require (length data \<le> MAX_UINT16) ValueError"

definition ensure_u32_len :: "bytes \<Rightarrow> unit res" where
  "ensure_u32_len data = require (length data \<le> MAX_UINT32) ValueError"

definition frame_record :: "record_type \<Rightarrow> bytes \<Rightarrow> bytes res" where
  "frame_record record_type payload =
     rbind (ensure_u32_len payload) (\<lambda>_.
     Inr (([byte_of (record_type_value record_type)] @ be_bytes 4 (length payload)) @ payload))"

definition input_applied_payload :: "input_applied \<Rightarrow> bytes res" where
  "input_applied_payload r =
     rbind (utf8_encode (dumps (ia_state_change r))) (\<lambda>state_change_bytes.
     rbind (utf8_encode (ia_msg_id r)) (\<lambda>msg_id_bytes.
     rbind (ensure_u16_len msg_id_bytes) (\<lambda>_.
     rbind (ensure_u32_len state_change_bytes) (\<lambda>_.
     rbind (require (length (ia_outputs r) \<le> MAX_UINT16) ValueError) (\<lambda>_.
     rbind (rmap serialize_entry (ia_outputs r)) (\<lambda>outbox_blobs.
     rbind (pack_uint 4 (ia_client_id r)) (\<lambda>client_bytes.
     rbind (pack_uint 4 (ia_sender_id r)) (\<lambda>sender_bytes.
     rbind (pack_uint 1 (kind_value (ia_kind r))) (\<lambda>kind_bytes.
     rbind (pack_uint 4 (ia_seq r)) (\<lambda>seq_bytes.
     Inr ((be_bytes 2 (length msg_id_bytes) @ msg_id_bytes)
        @ client_bytes @ sender_bytes @ kind_bytes @ seq_bytes
        @ (be_bytes 4 (length state_change_bytes) @ state_change_bytes)
        @ be_bytes 2 (length (ia_outputs r)) @ concat outbox_blobs)))))))))))"

definition input_done_payload :: "input_done \<Rightarrow> bytes res" where
  "input_done_payload r =
     rbind (utf8_encode (id_msg_id r)) (\<lambda>msg_id_bytes.
     rbind (ensure_u16_len msg_id_bytes) (\<lambda>_.
     rbind (pack_uint 4 (id_client_id r)) (\<lambda>client_bytes.
     rbind (pack_uint 4 (id_sender_id r)) (\<lambda>sender_bytes.
     rbind (pack_uint 1 (kind_value (id_kind r))) (\<lambda>kind_bytes.
     rbind (pack_uint 4 (id_seq r)) (\<lambda>seq_bytes.
     Inr ((be_bytes 2 (length msg_id_bytes) @ msg_id_bytes)
        @ client_bytes @ sender_bytes @ kind_bytes @ seq_bytes)))))))"

definition encode_record :: "wal_record \<Rightarrow> bytes res" where
  "encode_record r =
     (case r of
        InputApplied a \<Rightarrow> rbind (input_applied_payload a) (frame_record INPUT_APPLIED)
      | InputDone d \<Rightarrow> rbind (input_done_payload d) (frame_record INPUT_DONE))"

text \<open>
  \<open>_write_all\<close> against an operating system that accepts the byte counts \<open>ns\<close>, one per
  \<open>os.write\<close> call. When the list ends before the data does, the process died between two
  calls: the outcome is \<open>None\<close> and the file keeps what was written.
\<close>

fun write_all :: "nat list \<Rightarrow> bytes \<Rightarrow> bytes \<Rightarrow> unit res option \<times> bytes" where
  "write_all ns data file =
     (if data = [] then (Some (Inr ()), file)
      else (case ns of
              [] \<Rightarrow> (None, file)
            | n # ns' \<Rightarrow>
                if n = 0 then (Some (Inl OSError), file)
                else write_all ns' (drop n data) (file @ take n data)))"

declare write_all.simps [simp del]

subsection \<open>WALReader\<close>

record wal_raw_record =
  lsn :: nat
  raw_type :: record_type
  raw_payload :: bytes

text \<open>
  \<open>records()\<close> is a generator: it yields records until the end of the file or a cut-off
  record, or raises after the records it has already yielded. The model returns what was
  yielded and the exception, if any.
\<close>

function wal_records :: "nat \<Rightarrow> bytes \<Rightarrow> wal_raw_record list \<times> py_error option" where
  "wal_records pos data =
     (let header = take HEADER_SIZE data in
      if length header < HEADER_SIZE then ([], None)
      else
        (let len = be_nat (drop 1 header);
             payload = take len (drop HEADER_SIZE data) in
         if length payload < len then ([], None)
         else (case record_type_of (unat (hd header)) of
                 Inl e \<Rightarrow> ([], Some e)
               | Inr t \<Rightarrow>
                   (let (rs, e) = wal_records (pos + HEADER_SIZE + len)
                                    (drop (HEADER_SIZE + len) data) in
                    (\<lparr>lsn = pos, raw_type = t, raw_payload = payload\<rparr> # rs, e)))))"
  by pat_completeness auto
termination
  by (relation "measure (\<lambda>(pos, data). length data)") (auto simp: HEADER_SIZE_def)

declare wal_records.simps [simp del]

definition records_after :: "int \<Rightarrow> bytes \<Rightarrow> wal_raw_record list \<times> py_error option" where
  "records_after checkpoint_lsn data =
     (let (rs, e) = wal_records 0 data in (filter (\<lambda>r. int (lsn r) > checkpoint_lsn) rs, e))"

subsection \<open>Decoding\<close>

definition ensure_consumed :: "bytes \<Rightarrow> nat \<Rightarrow> unit res" where
  "ensure_consumed payload offset = require (offset = length payload) ValueError"

text \<open>\<open>_decode_text\<close> turns a \<open>UnicodeDecodeError\<close> into a \<open>ValueError\<close>.\<close>

definition decode_text :: "bytes \<Rightarrow> pystr res" where
  "decode_text data = (case utf8_decode data of Inl _ \<Rightarrow> Inl ValueError | Inr s \<Rightarrow> Inr s)"

definition decode_json_state_change :: "bytes \<Rightarrow> json res" where
  "decode_json_state_change data =
     (case rbind (utf8_decode data) loads of
        Inl _ \<Rightarrow> Inl ValueError
      | Inr (JObj d) \<Rightarrow> Inr (JObj d)
      | Inr _ \<Rightarrow> Inl ValueError)"

primrec read_entries :: "nat \<Rightarrow> bytes \<Rightarrow> nat \<Rightarrow> (outbox_entry list \<times> nat) res" where
  "read_entries 0 data offset = Inr ([], offset)"
| "read_entries (Suc n) data offset =
     rbind (deserialize_entry data offset) (\<lambda>(entry, offset).
     rbind (read_entries n data offset) (\<lambda>(entries, offset). Inr (entry # entries, offset)))"

definition decode_input_applied :: "bytes \<Rightarrow> input_applied res" where
  "decode_input_applied payload =
     rbind (read_length_prefixed_u16 payload 0) (\<lambda>(msg_id_bytes, offset).
     rbind (read_uint32 payload offset) (\<lambda>(client_id, offset).
     rbind (read_uint32 payload offset) (\<lambda>(sender_id, offset).
     rbind (read_uint8 payload offset) (\<lambda>(kind_raw, offset).
     rbind (read_uint32 payload offset) (\<lambda>(seq, offset).
     rbind (read_length_prefixed_u32 payload offset) (\<lambda>(state_change_bytes, offset).
     rbind (read_uint16 payload offset) (\<lambda>(outbox_count, offset).
     rbind (read_entries (nat outbox_count) payload offset) (\<lambda>(outputs, offset).
     rbind (ensure_consumed payload offset) (\<lambda>_.
     rbind (decode_text msg_id_bytes) (\<lambda>msg_id.
     rbind (decode_json_state_change state_change_bytes) (\<lambda>state_change.
     rbind (kind_of_value kind_raw) (\<lambda>kind.
     Inr \<lparr>ia_msg_id = msg_id, ia_client_id = client_id, ia_sender_id = sender_id,
          ia_seq = seq, ia_state_change = state_change, ia_outputs = outputs,
          ia_kind = kind\<rparr>))))))))))))"

definition decode_input_done :: "bytes \<Rightarrow> input_done res" where
  "decode_input_done payload =
     rbind (read_length_prefixed_u16 payload 0) (\<lambda>(msg_id_bytes, offset).
     rbind (read_uint32 payload offset) (\<lambda>(client_id, offset).
     rbind (read_uint32 payload offset) (\<lambda>(sender_id, offset).
     rbind (read_uint8 payload offset) (\<lambda>(kind_raw, offset).
     rbind (read_uint32 payload offset) (\<lambda>(seq, offset).
     rbind (ensure_consumed payload offset) (\<lambda>_.
     rbind (decode_text msg_id_bytes) (\<lambda>msg_id.
     rbind (kind_of_value kind_raw) (\<lambda>kind.
     Inr \<lparr>id_msg_id = msg_id, id_client_id = client_id, id_sender_id = sender_id,
          id_seq = seq, id_kind = kind\<rparr>))))))))"

definition decode_record :: "wal_raw_record \<Rightarrow> wal_record res" where
  "decode_record r =
     (case raw_type r of
        INPUT_APPLIED \<Rightarrow> rbind (decode_input_applied (raw_payload r)) (\<lambda>a. Inr (InputApplied a))
      | INPUT_DONE \<Rightarrow> rbind (decode_input_done (raw_payload r)) (\<lambda>d. Inr (InputDone d)))"

subsection \<open>Wal\<close>

record wal =
  wal_current :: "bytes option"
  wal_previous :: "bytes option"

text \<open>The constructor opens the current segment with \<open>O_CREAT | O_APPEND\<close>.\<close>

definition open_wal :: "wal \<Rightarrow> wal" where
  "open_wal w = w\<lparr>wal_current := Some (case wal_current w of None \<Rightarrow> [] | Some f \<Rightarrow> f)\<rparr>"

definition wal_file :: "wal \<Rightarrow> bytes" where
  "wal_file w = (case wal_current w of None \<Rightarrow> [] | Some f \<Rightarrow> f)"

definition wal_append :: "wal_record \<Rightarrow> wal \<Rightarrow> nat res \<times> wal" where
  "wal_append r w =
     (case encode_record r of
        Inl e \<Rightarrow> (Inl e, w)
      | Inr data \<Rightarrow> (Inr (length (wal_file w)), w\<lparr>wal_current := Some (wal_file w @ data)\<rparr>))"

fun decode_all :: "wal_raw_record list \<Rightarrow> py_error option \<Rightarrow> wal_record list \<times> py_error option" where
  "decode_all [] e = ([], e)"
| "decode_all (r # rs) e =
     (case decode_record r of
        Inl e' \<Rightarrow> ([], Some e')
      | Inr x \<Rightarrow> (let (xs, e') = decode_all rs e in (x # xs, e')))"

definition wal_replay :: "int \<Rightarrow> wal \<Rightarrow> wal_record list \<times> py_error option" where
  "wal_replay from_record w =
     (let (rs, e) = records_after from_record (wal_file w) in decode_all rs e)"

definition current_record_number :: "wal \<Rightarrow> nat" where
  "current_record_number w = length (wal_file w)"

definition wal_rotate :: "wal \<Rightarrow> wal" where
  "wal_rotate w =
     (case wal_current w of
        None \<Rightarrow> open_wal w
      | Some f \<Rightarrow> open_wal \<lparr>wal_current = None, wal_previous = Some f\<rparr>)"

subsection \<open>The partial-write loop\<close>

lemma write_all_prefix:
  "write_all ns data file = (out, file') \<Longrightarrow>
   \<exists>w. prefix w data \<and> file' = file @ w \<and> (out = Some (Inr ()) \<longrightarrow> w = data)"
proof (induction ns data "file" arbitrary: out "file'" rule: write_all.induct)
  case (1 ns data f)
  show ?case
  proof (cases "data = [] \<or> ns = [] \<or> hd ns = 0")
    case True
    with "1.prems" show ?thesis
      by (auto simp: write_all.simps [of ns] split: list.splits if_splits)
  next
    case False
    then obtain n ns' where ns: "ns = n # ns'" and n: "n \<noteq> 0" and d: "data \<noteq> []"
      by (cases ns) auto
    with "1.prems" have "write_all ns' (drop n data) (f @ take n data) = (out, file')"
      by (simp add: write_all.simps [of "n # ns'"])
    from "1.IH" [OF d ns n this] obtain rest where
      "prefix rest (drop n data)" "file' = f @ take n data @ rest"
      "out = Some (Inr ()) \<longrightarrow> rest = drop n data"
      by auto
    then have "prefix (take n data @ rest) data" and "file' = f @ (take n data @ rest)"
      and "out = Some (Inr ()) \<longrightarrow> take n data @ rest = data"
      using same_prefix_prefix [of "take n data" rest "drop n data"] by auto
    then show ?thesis by blast
  qed
qed

subsection \<open>Framing\<close>

lemma frame_record_length:
  "frame_record t p = Inr f \<Longrightarrow> length f = HEADER_SIZE + length p"
  by (auto simp: frame_record_def HEADER_SIZE_def)

lemma record_type_of_value [simp]: "record_type_of (record_type_value t) = Inr t"
  by (cases t) (simp_all add: record_type_of_def)

lemma record_type_byte [simp]: "unat (byte_of (record_type_value t)) = record_type_value t"
  by (cases t) simp_all

lemma frame_record_split:
  assumes "frame_record t p = Inr f"
  obtains h where "f = h @ p" "length h = 5" "hd h = byte_of (record_type_value t)"
    "be_nat (drop 1 h) = length p"
proof
  let ?h = "byte_of (record_type_value t) # be_bytes 4 (length p)"
  from assms show "f = ?h @ p"
    by (auto simp: frame_record_def)
  have "length p < 256 ^ 4"
    using assms by (auto simp: frame_record_def ensure_u32_len_def MAX_UINT32_def)
  then show "be_nat (drop 1 ?h) = length p" by (simp add: be_nat_be_bytes)
qed simp_all

lemma wal_records_frame:
  assumes "frame_record t p = Inr f"
  shows "wal_records pos (f @ rest) =
    (let (rs, e) = wal_records (pos + length f) rest in
     (\<lparr>lsn = pos, raw_type = t, raw_payload = p\<rparr> # rs, e))"
proof -
  obtain h where h: "f = h @ p" "length h = 5" "hd h = byte_of (record_type_value t)"
    "be_nat (drop 1 h) = length p"
    using assms by (rule frame_record_split)
  show ?thesis
    using h by (subst wal_records.simps) (simp add: HEADER_SIZE_def Let_def add.assoc)
qed

text \<open>A cut-off record is dropped, and nothing before it is lost.\<close>

lemma wal_records_torn:
  assumes "frame_record t p = Inr f" and "strict_prefix torn f"
  shows "wal_records pos torn = ([], None)"
proof -
  obtain h where h: "f = h @ p" "length h = 5" "be_nat (drop 1 h) = length p"
    using assms(1) by (rule frame_record_split)
  show ?thesis
  proof (cases "length torn < 5")
    case True
    then show ?thesis by (subst wal_records.simps) (simp add: HEADER_SIZE_def)
  next
    case False
    from assms(2) obtain z where z: "h @ p = torn @ z" "z \<noteq> []"
      using h(1) by (auto simp: strict_prefix_def prefix_def)
    from arg_cong [OF z(1), of "take 5"] have "take 5 torn = h" using False h(2) by simp
    then obtain q where q: "torn = h @ q" by (metis append_take_drop_id)
    with z have "length q < length p" by auto
    with q h show ?thesis
      by (subst wal_records.simps) (simp add: HEADER_SIZE_def Let_def)
  qed
qed

subsection \<open>Records decode to what was written\<close>

definition state_change_ok :: "json \<Rightarrow> bool" where
  "state_change_ok v \<longleftrightarrow> (case v of JObj _ \<Rightarrow> True | _ \<Rightarrow> False) \<and> json_ok v"

definition entry_ok :: "outbox_entry \<Rightarrow> bool" where
  "entry_ok e \<longleftrightarrow> (case shard e of None \<Rightarrow> True | Some n \<Rightarrow> 0 \<le> n)"

definition record_ok :: "wal_record \<Rightarrow> bool" where
  "record_ok r \<longleftrightarrow>
     (case r of InputApplied a \<Rightarrow> state_change_ok (ia_state_change a) \<and> list_all entry_ok (ia_outputs a)
      | InputDone _ \<Rightarrow> True)"

lemma decode_state_change [codec]:
  "state_change_ok v \<Longrightarrow> utf8_encode (dumps v) = Inr bs \<Longrightarrow> decode_json_state_change bs = Inr v"
  by (auto simp: decode_json_state_change_def state_change_ok_def utf8_roundtrip json_roundtrip
      simp del: dumps.simps split: json.splits)

lemma decode_text_encode [codec]: "utf8_encode s = Inr bs \<Longrightarrow> decode_text bs = Inr s"
  by (simp add: decode_text_def utf8_roundtrip)

lemma read_entries_Suc:
  "read_entries (Suc n) = (\<lambda>data offset.
     rbind (deserialize_entry data offset) (\<lambda>(entry, offset).
     rbind (read_entries n data offset) (\<lambda>(entries, offset). Inr (entry # entries, offset))))"
  by (intro ext) simp

lemma reads_entries [codec]:
  "rmap serialize_entry es = Inr bss \<Longrightarrow> list_all entry_ok es \<Longrightarrow>
   reads (read_entries (length es)) (concat bss) es"
proof (induction es arbitrary: bss)
  case Nil
  then show ?case by (simp add: reads_def)
next
  case (Cons e es)
  then obtain b bs where b: "serialize_entry e = Inr b" and bs: "rmap serialize_entry es = Inr bs"
    and bss: "bss = b # bs" by auto
  have "reads deserialize_entry b e"
    using b Cons.prems(2) by (intro reads_entry) (auto simp: entry_ok_def)
  moreover have "reads (read_entries (length es)) (concat bs) es"
    using Cons.IH [OF bs] Cons.prems(2) by simp
  ultimately have "reads (\<lambda>data offset. rbind (deserialize_entry data offset) (\<lambda>(entry, offset).
      rbind (read_entries (length es) data offset) (\<lambda>(entries, offset).
        Inr (entry # entries, offset)))) (b @ concat bs @ []) (e # es)"
    by - (rule reads_seq reads_return' | assumption | simp)+
  then show ?case by (simp add: bss read_entries_Suc del: read_entries.simps)
qed

lemma remaining_end: "remaining data offset [] \<Longrightarrow> offset = length data"
  by (simp add: remaining_def)

lemma ensure_consumed_end: "remaining data offset [] \<Longrightarrow> ensure_consumed data offset = Inr ()"
  by (simp add: remaining_end ensure_consumed_def)

lemma reads_step:
  "reads p e x \<Longrightarrow> remaining data offset (e @ rest) \<Longrightarrow>
   rbind (p data offset) (\<lambda>(v, offset). f v offset) = f x (offset + length e)"
proof -
  assume "reads p e x" "remaining data offset (e @ rest)"
  then have "p data offset = Inr (x, offset + length e)" unfolding reads_def by blast
  then show ?thesis by simp
qed

lemma reads_packed:
  "pack_uint k n = Inr bs \<Longrightarrow> reads (read_uint k) bs n"
  using reads_uint [of "nat n" k] by (auto simp: pack_uint_Inr nat_less_iff)

lemma decode_input_done_roundtrip [codec]:
  assumes "input_done_payload r = Inr p"
  shows "decode_input_done p = Inr r"
proof -
  from assms obtain m c s k q where
    m: "utf8_encode (id_msg_id r) = Inr m" "length m \<le> MAX_UINT16" and
    c: "pack_uint 4 (id_client_id r) = Inr c" and s: "pack_uint 4 (id_sender_id r) = Inr s" and
    k: "pack_uint 1 (kind_value (id_kind r)) = Inr k" and q: "pack_uint 4 (id_seq r) = Inr q" and
    p: "p = (be_bytes 2 (length m) @ m) @ c @ s @ k @ q @ []"
    by (auto simp: input_done_payload_def ensure_u16_len_def)
  have r0: "remaining p 0 ((be_bytes 2 (length m) @ m) @ c @ s @ k @ q @ [])"
    unfolding p by (rule remaining_0)
  note r1 = remaining_step [OF r0] note r2 = remaining_step [OF r1]
  note r3 = remaining_step [OF r2] note r4 = remaining_step [OF r3]
  note r5 = ensure_consumed_end [OF remaining_step [OF r4]]
  show ?thesis
    unfolding decode_input_done_def read_uint_defs
    by (simp only: reads_step [OF reads_length_prefixed_u16 [OF m(2)] r0]
        reads_step [OF reads_packed [OF c] r1] reads_step [OF reads_packed [OF s] r2]
        reads_step [OF reads_packed [OF k] r3] reads_step [OF reads_packed [OF q] r4] r5)
      (simp add: decode_text_encode [OF m(1)])
qed

lemma decode_input_applied_roundtrip [codec]:
  assumes "input_applied_payload r = Inr p"
    and ok: "state_change_ok (ia_state_change r)" "list_all entry_ok (ia_outputs r)"
  shows "decode_input_applied p = Inr r"
proof -
  from assms(1) obtain j m bss c s k q where
    j: "utf8_encode (dumps (ia_state_change r)) = Inr j" "length j \<le> MAX_UINT32" and
    m: "utf8_encode (ia_msg_id r) = Inr m" "length m \<le> MAX_UINT16" and
    o: "rmap serialize_entry (ia_outputs r) = Inr bss" "length (ia_outputs r) \<le> MAX_UINT16" and
    c: "pack_uint 4 (ia_client_id r) = Inr c" and s: "pack_uint 4 (ia_sender_id r) = Inr s" and
    k: "pack_uint 1 (kind_value (ia_kind r)) = Inr k" and q: "pack_uint 4 (ia_seq r) = Inr q" and
    p: "p = (be_bytes 2 (length m) @ m) @ c @ s @ k @ q @ (be_bytes 4 (length j) @ j)
        @ be_bytes 2 (length (ia_outputs r)) @ concat bss @ []"
    by (auto simp: input_applied_payload_def ensure_u16_len_def ensure_u32_len_def
        simp del: dumps.simps)
  have n: "length (ia_outputs r) < 256 ^ 2" using o(2) by (simp add: MAX_UINT16_def)
  have r0: "remaining p 0 ((be_bytes 2 (length m) @ m) @ c @ s @ k @ q
      @ (be_bytes 4 (length j) @ j) @ be_bytes 2 (length (ia_outputs r)) @ concat bss @ [])"
    unfolding p by (rule remaining_0)
  note r1 = remaining_step [OF r0] note r2 = remaining_step [OF r1]
  note r3 = remaining_step [OF r2] note r4 = remaining_step [OF r3]
  note r5 = remaining_step [OF r4] note r6 = remaining_step [OF r5]
  note r7 = remaining_step [OF r6] note r8 = ensure_consumed_end [OF remaining_step [OF r7]]
  show ?thesis
    unfolding decode_input_applied_def read_uint_defs
    by (simp only: reads_step [OF reads_length_prefixed_u16 [OF m(2)] r0]
        reads_step [OF reads_packed [OF c] r1] reads_step [OF reads_packed [OF s] r2]
        reads_step [OF reads_packed [OF k] r3] reads_step [OF reads_packed [OF q] r4]
        reads_step [OF reads_length_prefixed_u32 [OF j(2)] r5] reads_step [OF reads_uint [OF n] r6]
        nat_int reads_step [OF reads_entries [OF o(1) ok(2)] r7] r8)
      (simp add: decode_text_encode [OF m(1)] decode_state_change [OF ok(1) j(1)])
qed

subsection \<open>Replaying a log\<close>

lemma encode_record_frame:
  assumes "encode_record r = Inr data" and "record_ok r"
  obtains t p where "frame_record t p = Inr data"
    "\<And>pos. decode_record \<lparr>lsn = pos, raw_type = t, raw_payload = p\<rparr> = Inr r"
  using assms
  by (cases r)
    (auto simp: encode_record_def decode_record_def record_ok_def decode_input_done_roundtrip
      decode_input_applied_roundtrip)

definition log_bytes :: "wal_record list \<Rightarrow> bytes res" where
  "log_bytes rs = rbind (rmap encode_record rs) (\<lambda>bss. Inr (concat bss))"

definition torn_record :: "bytes \<Rightarrow> bool" where
  "torn_record torn \<longleftrightarrow> torn = [] \<or> (\<exists>t p f. frame_record t p = Inr f \<and> strict_prefix torn f)"

lemma wal_records_after_log:
  assumes "rmap encode_record rs = Inr bss" and "list_all record_ok rs"
    and "\<And>pos. wal_records pos tail = ([], None)"
  shows "\<exists>raws. wal_records pos (concat bss @ tail) = (raws, None) \<and> decode_all raws None = (rs, None)"
  using assms(1,2)
proof (induction rs arbitrary: bss pos)
  case Nil
  then show ?case using assms(3) by auto
next
  case (Cons r rs)
  then obtain b bs where b: "encode_record r = Inr b" "rmap encode_record rs = Inr bs" "bss = b # bs"
    and ok: "record_ok r" "list_all record_ok rs" by auto
  obtain t p where tp: "frame_record t p = Inr b"
    "\<And>pos. decode_record \<lparr>lsn = pos, raw_type = t, raw_payload = p\<rparr> = Inr r"
    using b(1) ok(1) by (rule encode_record_frame) blast
  obtain raws where "wal_records (pos + length b) (concat bs @ tail) = (raws, None)"
    "decode_all raws None = (rs, None)"
    using Cons.IH [OF b(2) ok(2)] by blast
  then show ?case using b(3) tp(2)
    by (force simp: wal_records_frame [OF tp(1)])
qed

lemma wal_records_torn_tail: "torn_record torn \<Longrightarrow> wal_records pos torn = ([], None)"
  using wal_records_torn
  by (auto simp: torn_record_def wal_records.simps [of pos "[]"] HEADER_SIZE_def)

lemma wal_replay_tail:
  assumes "wal_file w = data @ tail" and "log_bytes rs = Inr data" and "list_all record_ok rs"
    and "\<And>pos. wal_records pos tail = ([], None)"
  shows "wal_replay (- 1) w = (rs, None)"
proof -
  from assms(2) obtain bss where bss: "rmap encode_record rs = Inr bss" "data = concat bss"
    by (auto simp: log_bytes_def)
  from wal_records_after_log [OF bss(1) assms(3,4), of 0] obtain raws where
    raws: "wal_records 0 (data @ tail) = (raws, None)" "decode_all raws None = (rs, None)"
    by (auto simp: bss(2))
  then show ?thesis by (simp add: wal_replay_def records_after_def assms(1) filter_True)
qed

lemma wal_replay_log:
  assumes "wal_file w = data @ torn" and "log_bytes rs = Inr data"
    and "list_all record_ok rs" and "torn_record torn"
  shows "wal_replay (- 1) w = (rs, None)"
  using assms(1-3) wal_records_torn_tail [OF assms(4)] by (rule wal_replay_tail)

lemma wal_append_log:
  assumes "wal_append r w = (Inr pos, w')" and "log_bytes rs = Inr (wal_file w)"
  shows "log_bytes (rs @ [r]) = Inr (wal_file w')" and "pos = length (wal_file w)"
proof -
  from assms(1) obtain d where d: "encode_record r = Inr d" and w': "wal_file w' = wal_file w @ d"
    and pos: "pos = length (wal_file w)"
    by (auto simp: wal_append_def wal_file_def split: sum.splits)
  with assms(2) show "log_bytes (rs @ [r]) = Inr (wal_file w')"
    by (auto simp: log_bytes_def d rmap_append)
  show "pos = length (wal_file w)" by (rule pos)
qed

lemma wal_append_error: "wal_append r w = (Inl e, w') \<Longrightarrow> w' = w"
  by (auto simp: wal_append_def split: sum.splits)

lemma wal_rotate_file [simp]: "wal_file (wal_rotate w) = []"
  by (auto simp: wal_rotate_def open_wal_def wal_file_def split: option.splits)

lemma open_wal_file [simp]: "wal_file (open_wal w) = wal_file w"
  by (simp add: open_wal_def wal_file_def split: option.splits)

subsection \<open>Appending after a torn record\<close>

text \<open>
  Nothing truncates the segment after a crash: the writer reopens it with \<open>O_APPEND\<close>, so a
  record written after a torn one lands inside the payload that the torn header announces.
  As long as the segment stays shorter than that announcement the new record is invisible.
\<close>

lemma wal_records_overlapped:
  assumes "frame_record t p = Inr f" and "strict_prefix torn f" and "HEADER_SIZE \<le> length torn"
    and "length torn + length d < length f"
  shows "wal_records pos (torn @ d) = ([], None)"
proof -
  obtain h where h: "f = h @ p" "length h = 5" "be_nat (drop 1 h) = length p"
    using assms(1) by (rule frame_record_split)
  from assms(2) obtain z where z: "h @ p = torn @ z"
    using h(1) by (auto simp: strict_prefix_def prefix_def)
  from arg_cong [OF z, of "take 5"] have "take 5 torn = h"
    using assms(3) h(2) by (simp add: HEADER_SIZE_def)
  then obtain q where "torn = h @ q" by (metis append_take_drop_id)
  with h assms(4) show ?thesis
    by (subst wal_records.simps) (simp add: HEADER_SIZE_def Let_def)
qed

lemma wal_append_after_torn_lost:
  assumes w: "wal_file w = data @ torn" "log_bytes rs = Inr data" "list_all record_ok rs"
    and torn: "encode_record lost = Inr f" "record_ok lost" "strict_prefix torn f" "HEADER_SIZE \<le> length torn"
    and app: "wal_append r w = (Inr pos, w')" and short: "length (wal_file w') < length data + length f"
  shows "wal_replay (- 1) w' = (rs, None)"
proof -
  from app obtain d where d: "wal_file w' = wal_file w @ d"
    by (auto simp: wal_append_def wal_file_def split: sum.splits)
  obtain t p where tp: "frame_record t p = Inr f"
    using torn(1,2) by (rule encode_record_frame) blast
  have "wal_records pos (torn @ d) = ([], None)" for pos
    using wal_records_overlapped [OF tp torn(3,4)] short d w(1) by simp
  then show ?thesis
    using wal_replay_tail [of w' data "torn @ d"] d w by simp
qed

subsection \<open>Properties\<close>

lemma log_bytes_snoc:
  "log_bytes rs = Inr data \<Longrightarrow> encode_record r = Inr d \<Longrightarrow> log_bytes (rs @ [r]) = Inr (data @ d)"
  by (auto simp: log_bytes_def rmap_append)

lemma encode_record_prefix: "encode_record r = Inr d \<Longrightarrow> prefix w d \<Longrightarrow> w = d \<or> torn_record w"
  by (auto simp: encode_record_def torn_record_def strict_prefix_def split: wal_record.splits)

definition sample_done :: "pystr \<Rightarrow> wal_record" where
  "sample_done m = InputDone \<lparr>id_msg_id = m, id_client_id = 1, id_sender_id = 2, id_seq = 3, id_kind = DATA\<rparr>"

lemma sample_done_encodes:
  assumes "ascii m" and "length m < 1000"
  shows "\<exists>d. encode_record (sample_done m) = Inr d \<and> length d = 20 + length m"
proof -
  have p: "\<exists>p. input_done_payload \<lparr>id_msg_id = m, id_client_id = 1, id_sender_id = 2, id_seq = 3, id_kind = DATA\<rparr> = Inr p
      \<and> length p = 15 + length m"
    using assms by (simp add: input_done_payload_def utf8_encode_ascii ensure_u16_len_def MAX_UINT16_def pack_uint_def)
  then show ?thesis using assms(2)
    by (auto simp: encode_record_def sample_done_def frame_record_def ensure_u32_len_def MAX_UINT32_def)
qed

text \<open>
  C17: writing a record to a segment that holds whole records only, and reading the log back. Whatever
  byte counts the operating system accepts and wherever the process dies, replaying the segment gives
  the records that were there before, followed by the new record if all of it was written; a write that
  returned is replayed, and nothing that was there before is lost. The segment must not end in a torn
  record: behind one, a record can be lost although its write returned, as the
  next property shows.
\<close>

theorem wal_write_then_replay:
  assumes "log_bytes rs = Inr (wal_file w)" and "list_all record_ok (r # rs)" and "encode_record r = Inr d"
    and "write_all ns d (wal_file w) = (out, file')"
  shows "wal_replay (- 1) (w\<lparr>wal_current := Some file'\<rparr>) = (rs @ [r], None) \<or>
    wal_replay (- 1) (w\<lparr>wal_current := Some file'\<rparr>) = (rs, None) \<and> out \<noteq> Some (Inr ())"
proof -
  obtain pre where pre: "prefix pre d" "file' = wal_file w @ pre" "out = Some (Inr ()) \<longrightarrow> pre = d"
    using write_all_prefix [OF assms(4)] by blast
  have f: "wal_file (w\<lparr>wal_current := Some file'\<rparr>) = wal_file w @ pre" by (simp add: wal_file_def pre(2))
  show ?thesis
  proof (cases "pre = d")
    case True
    with wal_replay_log [of "w\<lparr>wal_current := Some file'\<rparr>" "wal_file w @ d" "[]" "rs @ [r]"]
      log_bytes_snoc [OF assms(1,3)] assms(2) f show ?thesis by (simp add: torn_record_def)
  next
    case False
    with encode_record_prefix [OF assms(3) pre(1)] wal_replay_log [OF f assms(1)] assms(2) pre(3)
    show ?thesis by simp
  qed
qed

theorem wal_write_then_replay_witness:
  "\<exists>d. write_all [3] d [] = (None, take 3 d) \<and> length d = 21 \<and>
     wal_replay (- 1) \<lparr>wal_current = Some (take 3 d), wal_previous = None\<rparr> \<in> {([sample_done [97]], None), ([], None)}"
proof -
  obtain d where d: "encode_record (sample_done [97]) = Inr d" "length d = 21"
    using sample_done_encodes [of "[97]"] by (auto simp: ascii_def)
  have w: "write_all [3] d [] = (None, take 3 d)"
    using d(2) by (auto simp: write_all.simps [of "[3]"] write_all.simps [of "[]"])
  then have "write_all [3] d (wal_file \<lparr>wal_current = Some [], wal_previous = None\<rparr>) = (None, take 3 d)"
    by (simp add: wal_file_def)
  from wal_write_then_replay [OF _ _ d(1) this, of "[]"] w d show ?thesis
    by (auto simp: log_bytes_def wal_file_def record_ok_def sample_done_def)
qed

text \<open>
  C18: a torn record hides the records appended after it. Recovery does not truncate the
  segment, so when a crash leaves the header of a record and part of its payload, a record
  appended by the restarted process, although written completely, is invisible to the next
  replay as long as the segment has not outgrown the length the torn header announces.
\<close>

theorem torn_tail_hides_append:
  assumes "wal_file w = data @ torn" and "log_bytes rs = Inr data" and "list_all record_ok rs"
    and "encode_record lost = Inr f" and "record_ok lost" and "strict_prefix torn f"
    and "HEADER_SIZE \<le> length torn" and "wal_append r (open_wal w) = (Inr pos, w')"
    and "length (wal_file w') < length data + length f"
  shows "wal_replay (- 1) w' = (rs, None)"
  by (rule wal_append_after_torn_lost [of "open_wal w"]) (use assms in simp_all)

theorem torn_tail_hides_append_witness:
  "\<exists>w w' pos. wal_append (sample_done [98]) w = (Inr pos, w') \<and> wal_replay (- 1) w' = ([], None)"
proof -
  obtain f where f: "encode_record (sample_done (replicate 40 97)) = Inr f" "length f = 60"
    using sample_done_encodes [of "replicate 40 97"] by (auto simp: ascii_def)
  obtain d where d: "encode_record (sample_done [98]) = Inr d" "length d = 21"
    using sample_done_encodes [of "[98]"] by (auto simp: ascii_def)
  let ?w = "\<lparr>wal_current = Some (take 10 f), wal_previous = None\<rparr>"
  let ?w' = "\<lparr>wal_current = Some (take 10 f @ d), wal_previous = None\<rparr>"
  have a: "wal_append (sample_done [98]) (open_wal ?w) = (Inr 10, ?w')"
    using d f by (simp add: wal_append_def open_wal_def wal_file_def)
  have "strict_prefix (take 10 f) f" using f(2) by (auto simp: strict_prefix_def take_is_prefix)
  with torn_tail_hides_append [of ?w "[]" "take 10 f" "[]", OF _ _ _ f(1) _ _ _ a] f d a show ?thesis
    by (auto simp: wal_file_def log_bytes_def record_ok_def sample_done_def HEADER_SIZE_def open_wal_def)
qed

end
