(* ===== verification/Routing.thy ===== *)
theory Routing
  imports Text
begin

unbundle bit_operations_syntax

text \<open>
  Deterministic sharding, \<open>common/routing.py\<close>, with the SHA-256 digest of \<open>hashlib\<close> written
  out (FIPS 180-4) so that every shard is computed by the model.
\<close>

subsection \<open>SHA-256\<close>

type_synonym word32 = "32 word"

definition sha_k :: "word32 list" where
  "sha_k =
    [1116352408, 1899447441, 3049323471, 3921009573, 961987163, 1508970993, 2453635748, 2870763221,
     3624381080, 310598401, 607225278, 1426881987, 1925078388, 2162078206, 2614888103, 3248222580,
     3835390401, 4022224774, 264347078, 604807628, 770255983, 1249150122, 1555081692, 1996064986,
     2554220882, 2821834349, 2952996808, 3210313671, 3336571891, 3584528711, 113926993, 338241895,
     666307205, 773529912, 1294757372, 1396182291, 1695183700, 1986661051, 2177026350, 2456956037,
     2730485921, 2820302411, 3259730800, 3345764771, 3516065817, 3600352804, 4094571909, 275423344,
     430227734, 506948616, 659060556, 883997877, 958139571, 1322822218, 1537002063, 1747873779,
     1955562222, 2024104815, 2227730452, 2361852424, 2428436474, 2756734187, 3204031479, 3329325298]"

definition sha_init :: "word32 list" where
  "sha_init = [1779033703, 3144134277, 1013904242, 2773480762, 1359893119, 2600822924, 528734635, 1541459225]"

definition rotr :: "nat \<Rightarrow> word32 \<Rightarrow> word32" where
  "rotr n w = drop_bit n w OR push_bit (32 - n) w"

definition sha_s0 :: "word32 \<Rightarrow> word32" where
  "sha_s0 w = rotr 7 w XOR rotr 18 w XOR drop_bit 3 w"

definition sha_s1 :: "word32 \<Rightarrow> word32" where
  "sha_s1 w = rotr 17 w XOR rotr 19 w XOR drop_bit 10 w"

text \<open>The schedule is kept with its newest word first.\<close>

fun sha_schedule :: "nat \<Rightarrow> word32 list \<Rightarrow> word32 list" where
  "sha_schedule 0 ws = ws"
| "sha_schedule (Suc n) ws =
     sha_schedule n ((sha_s1 (ws ! 1) + ws ! 6 + sha_s0 (ws ! 14) + ws ! 15) # ws)"

fun sha_round :: "word32 list \<Rightarrow> word32 \<times> word32 \<Rightarrow> word32 list" where
  "sha_round [a, b, c, d, e, f, g, h] (k, w) =
     (let t1 = h + (rotr 6 e XOR rotr 11 e XOR rotr 25 e) + ((e AND f) XOR (NOT e AND g)) + k + w;
          t2 = (rotr 2 a XOR rotr 13 a XOR rotr 22 a) + ((a AND b) XOR (a AND c) XOR (b AND c))
      in [t1 + t2, a, b, c, d + t1, e, f, g])"
| "sha_round hs kw = hs"

definition sha_block :: "word32 list \<Rightarrow> bytes \<Rightarrow> word32 list" where
  "sha_block hs block =
     (let ws = map (\<lambda>i. of_nat (be_nat (take 4 (drop (4 * i) block)))) [0..<16];
          schedule = rev (sha_schedule 48 (rev ws))
      in map2 (+) hs (foldl sha_round hs (zip sha_k schedule)))"

definition sha_pad :: "bytes \<Rightarrow> bytes" where
  "sha_pad data =
     (let n = length data in
      data @ [0x80] @ replicate ((119 - n mod 64) mod 64) 0 @ be_bytes 8 (8 * n mod 2 ^ 64))"

fun sha_blocks :: "nat \<Rightarrow> word32 list \<Rightarrow> bytes \<Rightarrow> word32 list" where
  "sha_blocks 0 hs data = hs"
| "sha_blocks (Suc n) hs data = sha_blocks n (sha_block hs (take 64 data)) (drop 64 data)"

definition sha256 :: "bytes \<Rightarrow> bytes" where
  "sha256 data =
     (let padded = sha_pad data in
      concat (map (\<lambda>w. be_bytes 4 (unat w)) (sha_blocks (length padded div 64) sha_init padded)))"

subsection \<open>Shards and routing keys\<close>

datatype routing_key = KInt int | KStr pystr | KBytes bytes

definition validate_shard_count :: "int \<Rightarrow> unit res" where
  "validate_shard_count shard_count = require (shard_count > 0) ValueError"

text \<open>\<open>str(key).encode("utf-8")\<close> for anything that is not \<open>bytes\<close>.\<close>

fun key_bytes :: "routing_key \<Rightarrow> bytes res" where
  "key_bytes (KBytes b) = Inr b"
| "key_bytes (KStr s) = utf8_encode s"
| "key_bytes (KInt n) = utf8_encode (int_str n)"

definition stable_digest_shard :: "routing_key \<Rightarrow> int \<Rightarrow> int res" where
  "stable_digest_shard key shard_count =
     rbind (validate_shard_count shard_count) (\<lambda>_.
     rbind (key_bytes key) (\<lambda>data.
     Inr (int (be_nat (sha256 data)) mod shard_count)))"

definition shard_for_key :: "routing_key \<Rightarrow> int \<Rightarrow> int res" where
  "shard_for_key key shard_count =
     rbind (validate_shard_count shard_count) (\<lambda>_.
     (case key of
        KInt n \<Rightarrow> Inr (n mod shard_count)
      | _ \<Rightarrow> stable_digest_shard key shard_count))"

definition shard_for_client_id :: "int \<Rightarrow> int \<Rightarrow> int res" where
  "shard_for_client_id client_id shard_count = shard_for_key (KInt client_id) shard_count"

definition compound_key :: "pystr list \<Rightarrow> pystr" where
  "compound_key parts = concat (map (\<lambda>part. nat_str (length part) @ [58] @ part) parts)"

definition shard_for_key_parts :: "pystr list \<Rightarrow> int \<Rightarrow> int res" where
  "shard_for_key_parts parts shard_count = stable_digest_shard (KStr (compound_key parts)) shard_count"

definition routing_key_for_shard :: "pystr \<Rightarrow> int \<Rightarrow> pystr \<Rightarrow> pystr res" where
  "routing_key_for_shard pre sh separator =
     rbind (require (0 \<le> sh) ValueError) (\<lambda>_. Inr (pre @ separator @ int_str sh))"

definition routing_key_for_key :: "pystr \<Rightarrow> routing_key \<Rightarrow> int \<Rightarrow> pystr \<Rightarrow> pystr res" where
  "routing_key_for_key pre key shard_count separator =
     rbind (shard_for_key key shard_count) (\<lambda>sh. routing_key_for_shard pre sh separator)"

definition queue_name_for_worker :: "pystr \<Rightarrow> int \<Rightarrow> pystr \<Rightarrow> pystr res" where
  "queue_name_for_worker pre index separator =
     rbind (require (0 \<le> index) ValueError) (\<lambda>_. Inr (pre @ separator @ int_str index))"

definition partition_for_key :: "pystr \<Rightarrow> int \<Rightarrow> int res" where
  "partition_for_key key partitions =
     rbind (require (partitions > 0) ValueError) (\<lambda>_. stable_digest_shard (KStr key) partitions)"

definition partition_for_parts :: "pystr list \<Rightarrow> int \<Rightarrow> int res" where
  "partition_for_parts parts partitions =
     rbind (require (partitions > 0) ValueError) (\<lambda>_. shard_for_key_parts parts partitions)"

definition partition_for_pair :: "pystr \<Rightarrow> pystr \<Rightarrow> int \<Rightarrow> int res" where
  "partition_for_pair left right partitions = partition_for_parts [left, right] partitions"

subsection \<open>Every shard is a valid index\<close>

lemma stable_digest_shard_range:
  "stable_digest_shard key n = Inr sh \<Longrightarrow> 0 \<le> sh \<and> sh < n"
  by (auto simp: stable_digest_shard_def validate_shard_count_def)

lemma shard_for_key_range: "shard_for_key key n = Inr sh \<Longrightarrow> 0 \<le> sh \<and> sh < n"
  by (auto simp: shard_for_key_def validate_shard_count_def split: routing_key.splits
      dest: stable_digest_shard_range)

lemma partition_for_parts_range: "partition_for_parts parts n = Inr sh \<Longrightarrow> 0 \<le> sh \<and> sh < n"
  by (auto simp: partition_for_parts_def shard_for_key_parts_def dest: stable_digest_shard_range)

text \<open>With one shard everything is on it.\<close>

lemma partition_one:
  assumes "list_all ascii parts"
  shows "partition_for_parts parts 1 = Inr 0"
proof -
  have "ascii (compound_key parts)"
    using assms by (induction parts) (auto simp: compound_key_def)
  then show ?thesis
    by (simp add: partition_for_parts_def shard_for_key_parts_def stable_digest_shard_def validate_shard_count_def require_def utf8_encode_ascii)
qed

lemma shard_for_key_total:
  "0 < n \<Longrightarrow> key_bytes key = Inr data \<Longrightarrow> \<exists>sh. shard_for_key key n = Inr sh"
  by (cases key) (auto simp: shard_for_key_def stable_digest_shard_def validate_shard_count_def)

subsection \<open>Compound keys do not collide by concatenation\<close>

lemma nat_str_no_colon [simp]: "58 \<notin> set (nat_str n)"
  using nat_str_digits [of 58 n] by (auto simp: is_digit_def)

lemma nat_str_inject [simp]: "nat_str m = nat_str n \<longleftrightarrow> m = n"
  by (metis option.inject parse_nat_str)

lemma split_at_colon:
  "58 \<notin> set a \<Longrightarrow> 58 \<notin> set b \<Longrightarrow> a @ 58 # x = b @ 58 # y \<longleftrightarrow> a = b \<and> x = (y :: nat list)"
proof (induction a arbitrary: b)
  case Nil
  then show ?case by (cases b) auto
next
  case (Cons c a)
  then show ?case by (cases b) auto
qed

lemma compound_key_inject: "compound_key ps = compound_key qs \<Longrightarrow> ps = qs"
proof (induction ps arbitrary: qs)
  case Nil
  then show ?case by (cases qs) (auto simp: compound_key_def)
next
  case (Cons p ps)
  from Cons.prems obtain q qs' where qs: "qs = q # qs'"
    by (cases qs) (auto simp: compound_key_def)
  with Cons.prems have "p @ compound_key ps = q @ compound_key qs'" and "length p = length q"
    by (auto simp: compound_key_def split_at_colon)
  with Cons.IH [of qs'] qs show ?case by simp
qed

lemma routing_key_inject:
  "routing_key_for_shard pre a sep = Inr k \<Longrightarrow> routing_key_for_shard pre b sep = Inr k \<Longrightarrow> a = b"
  by (auto simp: routing_key_for_shard_def)

subsection \<open>Properties\<close>

text \<open>
  Compound keys are unambiguous. Two different lists of key parts never give the same
  string to hash, wherever the parts are cut.
\<close>

lemma compound_keys_unambiguous: "compound_key ps = compound_key qs \<longleftrightarrow> ps = qs"
  using compound_key_inject by blast

text \<open>
  Every routing decision is a valid shard index. With a positive shard count and an encodable
  key some shard in range is chosen, and the routing key names that same shard.
\<close>

lemma shard_in_range:
  assumes "0 < n" and "key_bytes key = Inr data"
  shows "\<exists>sh. shard_for_key key n = Inr sh \<and> 0 \<le> sh \<and> sh < n \<and>
    routing_key_for_key pre key n sep = Inr (pre @ sep @ int_str sh)"
proof -
  obtain sh where sh: "shard_for_key key n = Inr sh" using shard_for_key_total [OF assms] by blast
  with shard_for_key_range [OF sh] show ?thesis
    by (auto simp: routing_key_for_key_def routing_key_for_shard_def)
qed

end
