(* ===== verification/Protocol.thy ===== *)
theory Protocol
  imports Routing
begin

text \<open>
  The internal wire format, \<open>common/message_protocol/internal/\<close>: message types, the plain and
  the addressed packet header, the control message and the aggregation count.
\<close>

subsection \<open>MessageType\<close>

datatype message_type =
    MT_DATA | MT_EOF | MT_PROCESSED_REQUEST | MT_PROCESSED_ANSWER | MT_FLUSH_ORDER
  | MT_FLUSH_ACK | MT_AGGREGATED_COUNT | MT_EOF_RECEIVED | MT_ABORT

fun message_type_value :: "message_type \<Rightarrow> int" where
  "message_type_value MT_DATA = 0"
| "message_type_value MT_EOF = 1"
| "message_type_value MT_PROCESSED_REQUEST = 2"
| "message_type_value MT_PROCESSED_ANSWER = 3"
| "message_type_value MT_FLUSH_ORDER = 4"
| "message_type_value MT_FLUSH_ACK = 5"
| "message_type_value MT_AGGREGATED_COUNT = 6"
| "message_type_value MT_EOF_RECEIVED = 7"
| "message_type_value MT_ABORT = 8"

text \<open>\<open>MessageType(value)\<close>.\<close>

definition message_type_of :: "int \<Rightarrow> message_type res" where
  "message_type_of v =
     (case filter (\<lambda>t. message_type_value t = v) [MT_DATA, MT_EOF, MT_PROCESSED_REQUEST, MT_PROCESSED_ANSWER,
        MT_FLUSH_ORDER, MT_FLUSH_ACK, MT_AGGREGATED_COUNT, MT_EOF_RECEIVED, MT_ABORT] of
        [] \<Rightarrow> Inl ValueError | t # _ \<Rightarrow> Inr t)"

lemma message_type_of_value [simp]: "message_type_of (message_type_value t) = Inr t"
  by (cases t) (simp_all add: message_type_of_def)

subsection \<open>Packets\<close>

text \<open>\<open>struct\<close>'s \<open>16s\<close> truncates a longer byte string and pads a shorter one with zeros.\<close>

definition pack_16s :: "bytes \<Rightarrow> bytes" where
  "pack_16s b = take 16 b @ replicate (16 - length b) 0"

definition PACKET_HEADER_SIZE :: nat where "PACKET_HEADER_SIZE = 17"
definition ADDRESSED_HEADER_SIZE :: nat where "ADDRESSED_HEADER_SIZE = 25"

definition create_packet :: "int \<Rightarrow> bytes \<Rightarrow> bytes \<Rightarrow> bytes res" where
  "create_packet msg_type client_id_bytes payload =
     rbind (pack_uint 1 msg_type) (\<lambda>t. Inr ((t @ pack_16s client_id_bytes) @ payload))"

definition create_addressed_packet :: "int \<Rightarrow> bytes \<Rightarrow> int \<Rightarrow> int \<Rightarrow> bytes \<Rightarrow> bytes res" where
  "create_addressed_packet msg_type client_id_bytes sender_id seq payload =
     rbind (pack_uint 1 msg_type) (\<lambda>t.
     rbind (pack_uint 4 sender_id) (\<lambda>s.
     rbind (pack_uint 4 seq) (\<lambda>q.
     Inr ((t @ pack_16s client_id_bytes @ s @ q) @ payload))))"

definition unpack_packet :: "bytes \<Rightarrow> (int \<times> int \<times> bytes) res" where
  "unpack_packet packet =
     (let header_data = take PACKET_HEADER_SIZE packet;
          payload = drop PACKET_HEADER_SIZE packet in
      rbind (require (length header_data = PACKET_HEADER_SIZE) StructError) (\<lambda>_.
      Inr (int (be_nat (take 1 header_data)), int (be_nat (drop 1 header_data)), payload)))"

definition unpack_addressed_packet :: "bytes \<Rightarrow> (int \<times> int \<times> int \<times> int \<times> bytes) res" where
  "unpack_addressed_packet packet =
     (let header_data = take ADDRESSED_HEADER_SIZE packet;
          payload = drop ADDRESSED_HEADER_SIZE packet in
      rbind (require (length header_data = ADDRESSED_HEADER_SIZE) StructError) (\<lambda>_.
      Inr (int (be_nat (take 1 header_data)), int (be_nat (take 16 (drop 1 header_data))),
           int (be_nat (take 4 (drop 17 header_data))), int (be_nat (drop 21 header_data)),
           payload)))"

text \<open>\<open>client_id.to_bytes(16, byteorder="big")\<close>.\<close>

definition client_id_to_bytes :: "int \<Rightarrow> bytes res" where
  "client_id_to_bytes client_id =
     (if 0 \<le> client_id \<and> client_id < 256 ^ 16 then Inr (be_bytes 16 (nat client_id))
      else Inl OverflowError)"

subsection \<open>ControlMessage and the aggregation count\<close>

record control_message =
  cm_sender_id :: int
  expected_total :: int
  processed_count :: int

definition serialize_control :: "control_message \<Rightarrow> bytes res" where
  "serialize_control cm =
     rbind (pack_uint 4 (cm_sender_id cm)) (\<lambda>a.
     rbind (pack_uint 4 (expected_total cm)) (\<lambda>b.
     rbind (pack_uint 4 (processed_count cm)) (\<lambda>c. Inr (a @ b @ c))))"

definition deserialize_control :: "bytes \<Rightarrow> control_message res" where
  "deserialize_control data =
     rbind (require (length data = 12) StructError) (\<lambda>_.
     Inr \<lparr>cm_sender_id = int (be_nat (take 4 data)),
          expected_total = int (be_nat (take 4 (drop 4 data))),
          processed_count = int (be_nat (drop 8 data))\<rparr>)"

definition serialize_count :: "int \<Rightarrow> bytes res" where
  "serialize_count count = pack_uint 8 count"

definition deserialize_count :: "bytes \<Rightarrow> int res" where
  "deserialize_count data =
     rbind (require (length data = 8) StructError) (\<lambda>_. Inr (int (be_nat data)))"

subsection \<open>Round trips\<close>

lemma length_pack_16s [simp]: "length (pack_16s b) = 16"
  by (simp add: pack_16s_def)

lemma pack_16s_id: "length b = 16 \<Longrightarrow> pack_16s b = b"
  by (simp add: pack_16s_def)

lemma unpack_uint: "pack_uint k n = Inr bs \<Longrightarrow> length bs = k \<and> int (be_nat bs) = n"
  by (auto simp: pack_uint_Inr be_nat_be_bytes nat_less_iff)

lemma client_id_bytes: "client_id_to_bytes c = Inr b \<Longrightarrow> length b = 16 \<and> int (be_nat b) = c"
  by (auto simp: client_id_to_bytes_def be_nat_be_bytes nat_less_iff split: if_splits)

lemma packet_roundtrip [codec]:
  assumes "create_packet t b payload = Inr pkt" and "client_id_to_bytes c = Inr b"
  shows "unpack_packet pkt = Inr (t, c, payload)"
  using assms client_id_bytes [OF assms(2)]
  by (auto simp: create_packet_def unpack_packet_def PACKET_HEADER_SIZE_def pack_16s_id
      dest!: unpack_uint)

lemma addressed_packet_roundtrip [codec]:
  assumes "create_addressed_packet t b s q payload = Inr pkt" and "client_id_to_bytes c = Inr b"
  shows "unpack_addressed_packet pkt = Inr (t, c, s, q, payload)"
  using assms client_id_bytes [OF assms(2)]
  by (auto simp: create_addressed_packet_def unpack_addressed_packet_def ADDRESSED_HEADER_SIZE_def
      pack_16s_id dest!: unpack_uint)

lemma control_roundtrip [codec]:
  "serialize_control cm = Inr bs \<Longrightarrow> deserialize_control bs = Inr cm"
  by (auto simp: serialize_control_def deserialize_control_def dest!: unpack_uint)

lemma count_roundtrip [codec]: "serialize_count n = Inr bs \<Longrightarrow> deserialize_count bs = Inr n"
  by (auto simp: serialize_count_def deserialize_count_def dest: unpack_uint)

subsection \<open>Properties\<close>

end
