(* ===== verification/Sequencer.thy ===== *)
theory Sequencer
  imports Protocol Outbox
begin

text \<open>
  \<open>SenderSequencer\<close> of \<open>common/fault_tolerance/handler/sender_sequencer.py\<close>: durable ids for
  outgoing messages, the counters behind them, and their recovery from persisted ids.
\<close>

subsection \<open>The sequencer\<close>

datatype logical_output = Out2 pystr bytes | Out3 pystr bytes "int option"

fun normalize_output :: "logical_output \<Rightarrow> pystr \<times> bytes \<times> int option" where
  "normalize_output (Out3 dest bdy sh) = (dest, bdy, sh)"
| "normalize_output (Out2 dest bdy) = (dest, bdy, None)"

record edge_spec =
  edge_sender_id :: int
  shard_count :: int

record sender_sequencer =
  node_id :: pystr
  edges :: "(pystr \<times> edge_spec) list"
  next_seq :: "(int \<times> int) list"
  next_addr_seq :: "((int \<times> pystr \<times> int) \<times> int) list"

definition new_sequencer :: "pystr \<Rightarrow> (pystr \<times> edge_spec) list \<Rightarrow> sender_sequencer res" where
  "new_sequencer node es =
     rbind (require (58 \<notin> set node) ValueError) (\<lambda>_.
     Inr \<lparr>node_id = node, edges = es, next_seq = [], next_addr_seq = []\<rparr>)"

definition plain_output_id :: "pystr \<Rightarrow> int \<Rightarrow> int \<Rightarrow> nat \<Rightarrow> pystr" where
  "plain_output_id node client_id seq index =
     node @ [58] @ int_str client_id @ [58] @ int_str seq @ [35] @ nat_str index"

definition addressed_output_id :: "pystr \<Rightarrow> int \<Rightarrow> pystr \<Rightarrow> int \<Rightarrow> int \<Rightarrow> nat \<Rightarrow> pystr" where
  "addressed_output_id node client_id dest sh seq index =
     node @ [58] @ int_str client_id @ [58] @ dest @ [58] @ int_str sh @ [58] @ int_str seq
     @ [35] @ nat_str index"

text \<open>
  The loop of \<open>stamp\<close> from output number \<open>index\<close> on, with its two local counters. It reads
  the sequencer and does not change it.
\<close>

fun stamp_from ::
  "sender_sequencer \<Rightarrow> int \<Rightarrow> pystr \<Rightarrow> nat \<Rightarrow> (int \<times> int) list \<Rightarrow>
   ((int \<times> pystr \<times> int) \<times> int) list \<Rightarrow> logical_output list \<Rightarrow> outbox_entry list res" where
  "stamp_from sq client_id iid index local_plain local_addr [] = Inr []"
| "stamp_from sq client_id iid index local_plain local_addr (output # outputs) =
     (case normalize_output output of (dest, bdy, out_shard) \<Rightarrow>
      (case map_of (edges sq) dest of
         None \<Rightarrow>
           (let base = dget (next_seq sq) client_id 0;
                offset = dget local_plain client_id 0;
                seq = base + offset;
                entry = \<lparr>output_id = plain_output_id (node_id sq) client_id seq index,
                         input_id = iid, destination = dest, body = bdy, shard = out_shard\<rparr>
            in rbind (stamp_from sq client_id iid (index + 1)
                        (dset client_id (offset + 1) local_plain) local_addr outputs)
                 (\<lambda>entries. Inr (entry # entries)))
       | Some spec \<Rightarrow>
           rbind (unpack_packet bdy) (\<lambda>(msg_type, _, payload).
           rbind (case out_shard of Some sh \<Rightarrow> Inr sh
                  | None \<Rightarrow> shard_for_key (KBytes payload) (shard_count spec)) (\<lambda>sh.
           (let bucket = (client_id, dest, sh);
                base = dget (next_addr_seq sq) bucket 0;
                offset = dget local_addr bucket 0;
                seq = base + offset
            in rbind (client_id_to_bytes client_id) (\<lambda>client_bytes.
               rbind (create_addressed_packet msg_type client_bytes (edge_sender_id spec) seq payload)
                 (\<lambda>addressed.
               (let entry = \<lparr>output_id = addressed_output_id (node_id sq) client_id dest sh seq index,
                             input_id = iid, destination = dest, body = addressed, shard = Some sh\<rparr>
                in rbind (stamp_from sq client_id iid (index + 1) local_plain
                            (dset bucket (offset + 1) local_addr) outputs)
                     (\<lambda>entries. Inr (entry # entries))))))))))"

definition stamp :: "int \<Rightarrow> pystr \<Rightarrow> logical_output list \<Rightarrow> sender_sequencer \<Rightarrow> outbox_entry list res" where
  "stamp client_id iid outputs sq = stamp_from sq client_id iid 0 [] [] outputs"

definition advance :: "int \<Rightarrow> int \<Rightarrow> sender_sequencer \<Rightarrow> sender_sequencer" where
  "advance client_id count sq =
     sq\<lparr>next_seq := dset client_id (dget (next_seq sq) client_id 0 + count) (next_seq sq)\<rparr>"

datatype parsed_id = Plain int int | Addressed int pystr int int

definition rsplit_once :: "nat \<Rightarrow> pystr \<Rightarrow> (pystr \<times> pystr) option" where
  "rsplit_once c s =
     (if c \<in> set s then Some (rev (tl (dropWhile (\<lambda>x. x \<noteq> c) (rev s))), rev (takeWhile (\<lambda>x. x \<noteq> c) (rev s)))
      else None)"

fun split_on :: "nat \<Rightarrow> pystr \<Rightarrow> pystr list" where
  "split_on c [] = [[]]"
| "split_on c (x # xs) =
     (if x = c then [] # split_on c xs
      else (case split_on c xs of [] \<Rightarrow> [[x]] | y # ys \<Rightarrow> (x # y) # ys))"

definition parse_output_id :: "pystr \<Rightarrow> parsed_id option res" where
  "parse_output_id oid =
     (case rsplit_once 35 oid of
        None \<Rightarrow> Inl ValueError
      | Some (head, _) \<Rightarrow>
          (case split_on 58 head of
             [_, client_id, seq] \<Rightarrow>
               rbind (py_int client_id) (\<lambda>c. rbind (py_int seq) (\<lambda>s. Inr (Some (Plain c s))))
           | [_, client_id, edge, sh, seq] \<Rightarrow>
               rbind (py_int client_id) (\<lambda>c. rbind (py_int sh) (\<lambda>n. rbind (py_int seq) (\<lambda>s.
                 Inr (Some (Addressed c edge n s)))))
           | _ \<Rightarrow> Inr None))"

definition bump :: "'k \<Rightarrow> int \<Rightarrow> ('k \<times> int) list \<Rightarrow> ('k \<times> int) list" where
  "bump k seq d = (if seq + 1 > dget d k 0 then dset k (seq + 1) d else d)"

definition observe_entry :: "outbox_entry \<Rightarrow> (sender_sequencer, unit) act" where
  "observe_entry entry sq =
     (case parse_output_id (output_id entry) of
        Inl e \<Rightarrow> (Inl e, sq)
      | Inr None \<Rightarrow> (Inr (), sq)
      | Inr (Some (Plain c seq)) \<Rightarrow> (Inr (), sq\<lparr>next_seq := bump c seq (next_seq sq)\<rparr>)
      | Inr (Some (Addressed c edge sh seq)) \<Rightarrow>
          (Inr (), sq\<lparr>next_addr_seq := bump (c, edge, sh) seq (next_addr_seq sq)\<rparr>))"

definition observe_outputs :: "outbox_entry list \<Rightarrow> (sender_sequencer, unit) act" where
  "observe_outputs = afor observe_entry"

subsection \<open>to_dict and from_dict\<close>

record sequencer_dict =
  sd_next_seq :: "(int \<times> int) list"
  sd_next_addr_seq :: "(int \<times> pystr \<times> int \<times> int) list"

definition sequencer_to_dict :: "sender_sequencer \<Rightarrow> sequencer_dict" where
  "sequencer_to_dict sq =
     \<lparr>sd_next_seq = next_seq sq,
      sd_next_addr_seq = map (\<lambda>((client_id, edge, sh), seq). (client_id, edge, sh, seq)) (next_addr_seq sq)\<rparr>"

definition sequencer_from_dict ::
  "pystr \<Rightarrow> sequencer_dict \<Rightarrow> (pystr \<times> edge_spec) list \<Rightarrow> sender_sequencer res" where
  "sequencer_from_dict node d es =
     rbind (new_sequencer node es) (\<lambda>sq.
     Inr (sq\<lparr>next_seq := py_dict (sd_next_seq d),
             next_addr_seq := py_dict (map (\<lambda>(client_id, edge, sh, seq). ((client_id, edge, sh), seq))
                                        (sd_next_addr_seq d))\<rparr>))"

subsection \<open>Ids parse back to what they were built from\<close>

lemma rsplit_once_last:
  "c \<notin> set b \<Longrightarrow> rsplit_once c (a @ c # b) = Some (a, b)"
proof -
  assume c: "c \<notin> set b"
  have "dropWhile (\<lambda>x. x \<noteq> c) (rev b @ c # rev a) = c # rev a"
    using c by (subst dropWhile_append2) auto
  moreover have "takeWhile (\<lambda>x. x \<noteq> c) (rev b @ c # rev a) = rev b"
    using c by (subst takeWhile_append2) auto
  ultimately show ?thesis by (simp add: rsplit_once_def)
qed

lemma split_on_nil: "c \<notin> set a \<Longrightarrow> split_on c a = [a]"
  by (induction a) auto

lemma split_on_cons: "c \<notin> set a \<Longrightarrow> split_on c (a @ c # b) = a # split_on c b"
  by (induction a) auto

lemma nat_str_no_hash [simp]: "35 \<notin> set (nat_str n)"
  using nat_str_digits [of 35 n] by (auto simp: is_digit_def)

lemma parse_plain_id [codec]:
  assumes "58 \<notin> set node"
  shows "parse_output_id (plain_output_id node c seq index) = Inr (Some (Plain c seq))"
proof -
  have "rsplit_once 35 (plain_output_id node c seq index)
      = Some (node @ 58 # int_str c @ 58 # int_str seq, nat_str index)"
    using rsplit_once_last [of 35 "nat_str index" "node @ 58 # int_str c @ 58 # int_str seq"]
    by (simp add: plain_output_id_def)
  then show ?thesis
    by (simp add: parse_output_id_def split_on_cons split_on_nil assms)
qed

lemma parse_addressed_id [codec]:
  assumes "58 \<notin> set node" and "58 \<notin> set dest"
  shows "parse_output_id (addressed_output_id node c dest sh seq index)
    = Inr (Some (Addressed c dest sh seq))"
proof -
  have "rsplit_once 35 (addressed_output_id node c dest sh seq index)
      = Some (node @ 58 # int_str c @ 58 # dest @ 58 # int_str sh @ 58 # int_str seq, nat_str index)"
    using rsplit_once_last [of 35 "nat_str index"
        "node @ 58 # int_str c @ 58 # dest @ 58 # int_str sh @ 58 # int_str seq"]
    by (simp add: addressed_output_id_def)
  then show ?thesis
    by (simp add: parse_output_id_def split_on_cons split_on_nil assms)
qed

subsection \<open>Counters as an abstract numbering\<close>

text \<open>
  The two tables are one counter per stream: a client's plain outputs, or one destination
  shard of one client. Stamping numbers the outputs of a batch stream by stream, from the
  current counters; observing the stamped ids moves the counters behind them.
\<close>

datatype stream_key = PlainStream int | AddrStream int pystr int

fun stream_of :: "parsed_id \<Rightarrow> stream_key \<times> int" where
  "stream_of (Plain c seq) = (PlainStream c, seq)"
| "stream_of (Addressed c edge sh seq) = (AddrStream c edge sh, seq)"

fun counter :: "sender_sequencer \<Rightarrow> stream_key \<Rightarrow> int" where
  "counter sq (PlainStream c) = dget (next_seq sq) c 0"
| "counter sq (AddrStream c edge sh) = dget (next_addr_seq sq) (c, edge, sh) 0"

primrec number_from :: "('k \<Rightarrow> int) \<Rightarrow> 'k list \<Rightarrow> ('k \<times> int) list" where
  "number_from f [] = []"
| "number_from f (k # ks) = (k, f k) # number_from (f(k := f k + 1)) ks"

definition count_up :: "('k \<Rightarrow> int) \<Rightarrow> 'k list \<Rightarrow> 'k \<Rightarrow> int" where
  "count_up f ks k = f k + int (count_list ks k)"

lemma count_up_Nil [simp]: "count_up f [] = f"
  by (simp add: count_up_def fun_eq_iff)

lemma count_up_Cons [simp]: "count_up f (k # ks) = count_up (f(k := f k + 1)) ks"
  by (auto simp: count_up_def fun_eq_iff)

lemma number_from_append:
  "number_from f (xs @ ys) = number_from f xs @ number_from (count_up f xs) ys"
  by (induction xs arbitrary: f) auto

lemma count_up_append: "count_up f (xs @ ys) = count_up (count_up f xs) ys"
  by (auto simp: count_up_def fun_eq_iff)

lemma number_from_stream:
  "map snd (filter (\<lambda>p. fst p = k) (number_from f ks)) = [f k..f k + int (count_list ks k) - 1]"
proof (induction ks arbitrary: f)
  case (Cons x ks)
  show ?case
  proof (cases "x = k")
    case True
    have "[f k..f k + (1 + int (count_list ks k)) - 1] = f k # [f k + 1..f k + int (count_list ks k)]"
      by (subst upto.simps) simp
    then show ?thesis using True Cons.IH [of "f(k := f k + 1)"]
      by (simp add: algebra_simps del: fun_upd_apply) (simp add: fun_upd_same add.commute)
  qed (simp add: Cons.IH)
qed simp

lemma number_from_ge: "(k, n) \<in> set (number_from f ks) \<Longrightarrow> f k \<le> n"
proof (induction ks arbitrary: f)
  case (Cons a ks)
  have "f k \<le> (f(a := f a + 1)) k" by simp
  with Cons.IH [of "f(a := f a + 1)"] Cons.prems show ?case
    by (auto simp del: fun_upd_apply intro: order_trans)
qed simp

lemma distinct_number_from: "distinct (number_from f ks)"
  by (induction ks arbitrary: f) (auto dest: number_from_ge)

subsection \<open>stamp numbers each stream without gaps\<close>

definition sequencer_ok :: "sender_sequencer \<Rightarrow> bool" where
  "sequencer_ok sq \<longleftrightarrow> 58 \<notin> set (node_id sq) \<and> (\<forall>dest \<in> fst ` set (edges sq). 58 \<notin> set dest)"

definition output_stream :: "sender_sequencer \<Rightarrow> int \<Rightarrow> logical_output \<Rightarrow> stream_key res" where
  "output_stream sq client_id output =
     (case normalize_output output of (dest, bdy, out_shard) \<Rightarrow>
      (case map_of (edges sq) dest of
         None \<Rightarrow> Inr (PlainStream client_id)
       | Some spec \<Rightarrow>
           rbind (unpack_packet bdy) (\<lambda>(_, _, payload).
           rbind (case out_shard of Some sh \<Rightarrow> Inr sh
                  | None \<Rightarrow> shard_for_key (KBytes payload) (shard_count spec)) (\<lambda>sh.
           Inr (AddrStream client_id dest sh)))))"

definition id_stream :: "outbox_entry \<Rightarrow> (stream_key \<times> int) option" where
  "id_stream e = (case parse_output_id (output_id e) of
     Inr (Some p) \<Rightarrow> Some (stream_of p) | _ \<Rightarrow> None)"

fun local_counter :: "sender_sequencer \<Rightarrow> (int \<times> int) list \<Rightarrow> ((int \<times> pystr \<times> int) \<times> int) list \<Rightarrow> stream_key \<Rightarrow> int" where
  "local_counter sq lp la (PlainStream c) = dget (next_seq sq) c 0 + dget lp c 0"
| "local_counter sq lp la (AddrStream c edge sh) = dget (next_addr_seq sq) (c, edge, sh) 0 + dget la (c, edge, sh) 0"

lemma local_counter_start: "local_counter sq [] [] = counter sq"
proof
  show "local_counter sq [] [] k = counter sq k" for k by (cases k) auto
qed

lemma local_counter_plain:
  "local_counter sq (dset c (dget lp c 0 + 1) lp) la
   = (local_counter sq lp la)(PlainStream c := local_counter sq lp la (PlainStream c) + 1)"
proof
  show "local_counter sq (dset c (dget lp c 0 + 1) lp) la k
   = ((local_counter sq lp la)(PlainStream c := local_counter sq lp la (PlainStream c) + 1)) k" for k
    by (cases k) auto
qed

lemma local_counter_addr:
  "local_counter sq lp (dset (c, e, s) (dget la (c, e, s) 0 + 1) la)
   = (local_counter sq lp la)(AddrStream c e s := local_counter sq lp la (AddrStream c e s) + 1)"
proof
  show "local_counter sq lp (dset (c, e, s) (dget la (c, e, s) 0 + 1) la) k
   = ((local_counter sq lp la)(AddrStream c e s := local_counter sq lp la (AddrStream c e s) + 1)) k" for k
    by (cases k) auto
qed

lemma stamp_from_numbers:
  assumes "sequencer_ok sq"
  shows "stamp_from sq c iid index lp la outs = Inr es \<Longrightarrow>
    \<exists>ks. rmap (output_stream sq c) outs = Inr ks \<and>
         map id_stream es = map Some (number_from (local_counter sq lp la) ks)"
proof (induction outs arbitrary: index lp la es)
  case (Cons out outs)
  obtain dest bdy sh where out: "normalize_output out = (dest, bdy, sh)"
    by (cases "normalize_output out") auto
  show ?case
  proof (cases "map_of (edges sq) dest")
    case None
    let ?seq = "local_counter sq lp la (PlainStream c)"
    from Cons.prems obtain es' where
      es': "stamp_from sq c iid (index + 1) (dset c (dget lp c 0 + 1) lp) la outs = Inr es'"
      and es: "es = \<lparr>output_id = plain_output_id (node_id sq) c ?seq index, input_id = iid,
          destination = dest, body = bdy, shard = sh\<rparr> # es'"
      by (auto simp: out None Let_def)
    have "parse_output_id (plain_output_id (node_id sq) c ?seq index) = Inr (Some (Plain c ?seq))"
      by (rule parse_plain_id) (use assms in \<open>simp add: sequencer_ok_def\<close>)
    then have "id_stream (hd es) = Some (PlainStream c, ?seq)"
      by (simp add: es id_stream_def)
    moreover have "output_stream sq c out = Inr (PlainStream c)"
      by (simp add: output_stream_def out None)
    ultimately show ?thesis using Cons.IH [OF es'] es
      by (auto simp: local_counter_plain simp del: local_counter.simps fun_upd_apply)
  next
    case (Some spec)
    from Cons.prems obtain t pl s b where
      up: "unpack_packet bdy = Inr (t, b, pl)" and
      s: "(case sh of Some s \<Rightarrow> Inr s | None \<Rightarrow> shard_for_key (KBytes pl) (shard_count spec)) = Inr s"
      by (auto simp: out Some Let_def)
    let ?seq = "local_counter sq lp la (AddrStream c dest s)"
    from Cons.prems up s obtain bd es' where
      es': "stamp_from sq c iid (index + 1) lp
              (dset (c, dest, s) (dget la (c, dest, s) 0 + 1) la) outs = Inr es'"
      and es: "es = \<lparr>output_id = addressed_output_id (node_id sq) c dest s ?seq index,
          input_id = iid, destination = dest, body = bd, shard = Some s\<rparr> # es'"
      by (auto simp: out Some Let_def)
    have "dest \<in> fst ` set (edges sq)" using map_of_SomeD [OF Some] by force
    then have "parse_output_id (addressed_output_id (node_id sq) c dest s ?seq index)
        = Inr (Some (Addressed c dest s ?seq))"
      by (intro parse_addressed_id) (use assms in \<open>auto simp: sequencer_ok_def\<close>)
    then have "id_stream (hd es) = Some (AddrStream c dest s, ?seq)"
      by (simp add: es id_stream_def)
    moreover have "output_stream sq c out = Inr (AddrStream c dest s)"
      using s by (simp add: output_stream_def out Some up)
    ultimately show ?thesis using Cons.IH [OF es'] es
      by (auto simp: local_counter_addr simp del: local_counter.simps fun_upd_apply)
  qed
qed simp

lemma stamp_numbers:
  assumes "sequencer_ok sq" and "stamp c iid outs sq = Inr es"
  obtains ks where "rmap (output_stream sq c) outs = Inr ks"
    and "map id_stream es = map Some (number_from (counter sq) ks)"
  using stamp_from_numbers [OF assms(1) assms(2) [unfolded stamp_def]]
  by (auto simp: local_counter_start)

subsection \<open>observe moves the counters behind persisted ids\<close>

lemma observe_entry_counter:
  assumes "id_stream e = Some (k, n)"
  shows "\<exists>sq'. observe_entry e sq = (Inr (), sq') \<and> node_id sq' = node_id sq \<and> edges sq' = edges sq
      \<and> counter sq' = (counter sq)(k := max (counter sq k) (n + 1))"
proof -
  obtain p where p: "parse_output_id (output_id e) = Inr (Some p)" and kn: "stream_of p = (k, n)"
    using assms by (auto simp: id_stream_def split: sum.splits option.splits)
  have ext: "f = g" if "\<And>c. f (PlainStream c) = g (PlainStream c)"
    "\<And>c e s. f (AddrStream c e s) = g (AddrStream c e s)" for f g :: "stream_key \<Rightarrow> int"
    using that by (metis ext stream_key.exhaust)
  show ?thesis
  proof (cases p)
    case (Plain c seq)
    with kn have "k = PlainStream c" "n = seq" by auto
    then show ?thesis
      by (auto simp: observe_entry_def p Plain bump_def intro!: ext)
  next
    case (Addressed c edge sh seq)
    with kn have "k = AddrStream c edge sh" "n = seq" by auto
    then show ?thesis
      by (auto simp: observe_entry_def p Addressed bump_def intro!: ext)
  qed
qed

lemma observe_outputs_numbered:
  assumes "map id_stream es = map Some (number_from (counter sq) ks)"
  shows "\<exists>sq'. observe_outputs es sq = (Inr (), sq') \<and> node_id sq' = node_id sq
      \<and> edges sq' = edges sq \<and> counter sq' = count_up (counter sq) ks"
  using assms
proof (induction ks arbitrary: es sq)
  case Nil
  then show ?case by (simp add: observe_outputs_def areturn_def)
next
  case (Cons k ks)
  then obtain e es' where es: "es = e # es'" and e: "id_stream e = Some (k, counter sq k)"
    and es': "map id_stream es' = map Some (number_from ((counter sq)(k := counter sq k + 1)) ks)"
    by (cases es) auto
  obtain sq1 where sq1: "observe_entry e sq = (Inr (), sq1)" "node_id sq1 = node_id sq"
    "edges sq1 = edges sq" "counter sq1 = (counter sq)(k := counter sq k + 1)"
    using observe_entry_counter [OF e, of sq] by auto
  from Cons.IH [of es' sq1] es' sq1(4) obtain sq2 where
    "observe_outputs es' sq1 = (Inr (), sq2)" "node_id sq2 = node_id sq1" "edges sq2 = edges sq1"
    "counter sq2 = count_up (counter sq1) ks" by (auto simp del: fun_upd_apply)
  then show ?case using sq1 es by (simp add: observe_outputs_def abind_def)
qed

lemma stamp_observe:
  assumes "sequencer_ok sq" and "stamp c iid outs sq = Inr es"
  obtains ks sq' where "map id_stream es = map Some (number_from (counter sq) ks)"
    "rmap (output_stream sq c) outs = Inr ks"
    "observe_outputs es sq = (Inr (), sq')" "counter sq' = count_up (counter sq) ks"
    "sequencer_ok sq'" "edges sq' = edges sq" "node_id sq' = node_id sq"
proof -
  obtain ks where ks: "rmap (output_stream sq c) outs = Inr ks"
    "map id_stream es = map Some (number_from (counter sq) ks)"
    using assms by (rule stamp_numbers)
  from observe_outputs_numbered [OF ks(2)] show ?thesis
    using that [OF ks(2,1)] assms(1) by (auto simp: sequencer_ok_def)
qed

subsection \<open>A whole run of stamped batches\<close>

fun stamp_run :: "(int \<times> pystr \<times> logical_output list) list \<Rightarrow> sender_sequencer \<Rightarrow>
    (outbox_entry list \<times> sender_sequencer) res" where
  "stamp_run [] sq = Inr ([], sq)"
| "stamp_run ((client_id, iid, outputs) # batches) sq =
     rbind (stamp client_id iid outputs sq) (\<lambda>entries.
     (case observe_outputs entries sq of
        (Inl e, _) \<Rightarrow> Inl e
      | (Inr _, sq') \<Rightarrow>
          rbind (stamp_run batches sq') (\<lambda>(rest, sq''). Inr (entries @ rest, sq''))))"

lemma stamp_run_numbers:
  assumes "sequencer_ok sq" and "stamp_run bs sq = Inr (es, sq')"
  shows "\<exists>ks. map id_stream es = map Some (number_from (counter sq) ks) \<and> counter sq' = count_up (counter sq) ks"
  using assms
proof (induction bs arbitrary: sq es)
  case Nil
  then show ?case by (intro exI [of _ "[]"]) simp
next
  case (Cons b bs)
  obtain c iid outs where b: "b = (c, iid, outs)" by (cases b)
  from Cons.prems b obtain e1 where e1: "stamp c iid outs sq = Inr e1" by auto
  obtain ks sq1 where 1: "map id_stream e1 = map Some (number_from (counter sq) ks)"
    "observe_outputs e1 sq = (Inr (), sq1)" "counter sq1 = count_up (counter sq) ks" "sequencer_ok sq1"
    by (rule stamp_observe [OF Cons.prems(1) e1])
  from Cons.prems(2) b e1 1(2) obtain e2 where e2: "stamp_run bs sq1 = Inr (e2, sq')" "es = e1 @ e2"
    by auto
  from Cons.IH [OF 1(4) e2(1)] obtain ks2 where
    "map id_stream e2 = map Some (number_from (counter sq1) ks2)" "counter sq' = count_up (counter sq1) ks2"
    by blast
  with 1 e2(2) show ?case
    by (intro exI [of _ "ks @ ks2"]) (simp add: number_from_append count_up_append)
qed

lemma stamp_run_distinct:
  assumes "sequencer_ok sq" and "stamp_run bs sq = Inr (es, sq')"
  shows "distinct (map output_id es)"
proof -
  obtain ks where ks: "map id_stream es = map Some (number_from (counter sq) ks)"
    using stamp_run_numbers [OF assms] by blast
  then have "distinct (map id_stream es)"
    by (simp add: distinct_map distinct_number_from)
  moreover have "map id_stream es
      = map (\<lambda>oid. case parse_output_id oid of Inr (Some p) \<Rightarrow> Some (stream_of p) | _ \<Rightarrow> None) (map output_id es)"
    by (simp add: id_stream_def)
  ultimately show ?thesis using distinct_map by metis
qed

subsection \<open>Persistence of the counters\<close>

definition sequencer_wf :: "sender_sequencer \<Rightarrow> bool" where
  "sequencer_wf sq \<longleftrightarrow> 58 \<notin> set (node_id sq) \<and> dict_wf (next_seq sq) \<and> dict_wf (next_addr_seq sq)"

lemma bump_wf [simp]: "dict_wf d \<Longrightarrow> dict_wf (bump k n d)"
  by (simp add: bump_def)

lemma sequencer_wf_observe_entry:
  "sequencer_wf sq \<Longrightarrow> sequencer_wf (snd (observe_entry e sq))"
  by (auto simp: sequencer_wf_def observe_entry_def split: sum.splits option.splits parsed_id.splits)

lemma sequencer_wf_observe: "sequencer_wf sq \<Longrightarrow> sequencer_wf (snd (observe_outputs es sq))"
proof (induction es arbitrary: sq)
  case (Cons e es)
  from Cons.IH [of "snd (observe_entry e sq)"] sequencer_wf_observe_entry [OF Cons.prems, of e]
  show ?case
    by (cases "observe_entry e sq"; cases "fst (observe_entry e sq)") (auto simp: observe_outputs_def abind_def)
qed (simp add: observe_outputs_def areturn_def)

lemma sequencer_roundtrip [codec]:
  assumes "sequencer_wf sq"
  shows "sequencer_from_dict (node_id sq) (sequencer_to_dict sq) (edges sq) = Inr sq"
proof -
  have "map ((\<lambda>(client_id, edge, sh, seq). ((client_id, edge, sh), seq))
      \<circ> (\<lambda>((client_id, edge, sh), seq). (client_id, edge, sh, seq))) (next_addr_seq sq) = next_addr_seq sq"
    by (intro map_idI) auto
  with assms show ?thesis
    by (simp add: sequencer_from_dict_def sequencer_to_dict_def new_sequencer_def sequencer_wf_def py_dict_id)
qed

subsection \<open>Properties\<close>

text \<open>
  C22: durable output ids never collide. Over any number of stamped and observed batches, of any
  mix of plain and addressed outputs, no two outputs get the same id.
\<close>

theorem output_ids_distinct:
  assumes "sequencer_ok sq" and "stamp_run batches sq = Inr (entries, sq')"
  shows "distinct (map output_id entries)"
  using assms by (rule stamp_run_distinct)

definition sample_sequencer :: sender_sequencer where
  "sample_sequencer = \<lparr>node_id = lit ''f_0'', edges = [(lit ''sum'', \<lparr>edge_sender_id = 7, shard_count = 2\<rparr>)],
     next_seq = [], next_addr_seq = []\<rparr>"

abbreviation sample_packet :: bytes where
  "sample_packet \<equiv> replicate 18 0"

definition sample_batches :: "(int \<times> pystr \<times> logical_output list) list" where
  "sample_batches = [(4, lit ''1:0'', [Out3 (lit ''sum'') sample_packet (Some 1), Out2 (lit ''log'') [], Out3 (lit ''sum'') sample_packet (Some 1)]),
     (4, lit ''1:1'', [Out3 (lit ''sum'') sample_packet (Some 1), Out2 (lit ''log'') []])]"

lemma sample_sequencer_ok: "sequencer_ok sample_sequencer"
  by (simp add: sequencer_ok_def sample_sequencer_def lit_def)

lemma sample_addressed: "0 \<le> seq \<Longrightarrow> seq < 100 \<Longrightarrow>
   \<exists>pkt. create_addressed_packet 0 (be_bytes 16 4) 7 seq [0] = Inr pkt"
  by (simp add: create_addressed_packet_def pack_uint_def)

lemma be_nat_zeros: "be_nat (replicate n 0) = 0"
  unfolding be_nat_def by (induction n) auto

lemma sample_stamp_run: "\<exists>entries sq'. stamp_run sample_batches sample_sequencer = Inr (entries, sq')"
proof -
  have up: "unpack_packet sample_packet = Inr (0, 0, [0])"
    by (simp add: unpack_packet_def PACKET_HEADER_SIZE_def be_nat_zeros be_nat_zeros [of 1, simplified])
  obtain a b c where "create_addressed_packet 0 (be_bytes 16 4) 7 0 [0] = Inr a"
    "create_addressed_packet 0 (be_bytes 16 4) 7 1 [0] = Inr b" "create_addressed_packet 0 (be_bytes 16 4) 7 2 [0] = Inr c"
    using sample_addressed [of 0] sample_addressed [of 1] sample_addressed [of 2] by auto
  then show ?thesis
    by (simp add: up sample_batches_def sample_sequencer_def stamp_def client_id_to_bytes_def observe_outputs_def
        observe_entry_def parse_plain_id parse_addressed_id act_defs bump_def dget_def lit_def)
qed

theorem output_ids_distinct_witness:
  "\<exists>entries sq'. stamp_run sample_batches sample_sequencer = Inr (entries, sq') \<and> distinct (map output_id entries)"
proof -
  obtain entries sq' where run: "stamp_run sample_batches sample_sequencer = Inr (entries, sq')"
    using sample_stamp_run by blast
  from output_ids_distinct [OF sample_sequencer_ok run] run show ?thesis by blast
qed

text \<open>The sequence numbers a run stamps into one stream, in the order of the outputs.\<close>

definition stream_seqs :: "stream_key \<Rightarrow> outbox_entry list \<Rightarrow> int list" where
  "stream_seqs k entries =
     map (\<lambda>e. snd (the (id_stream e))) (filter (\<lambda>e. id_stream e \<noteq> None \<and> fst (the (id_stream e)) = k) entries)"

lemma stream_seqs_numbered:
  assumes "map id_stream es = map Some ns"
  shows "stream_seqs k es = map snd (filter (\<lambda>p. fst p = k) ns)"
  using assms
proof (induction es arbitrary: ns)
  case (Cons e es)
  then obtain n ns' where "ns = n # ns'" "id_stream e = Some n" "map id_stream es = map Some ns'"
    by (cases ns) auto
  with Cons.IH show ?case by (simp add: stream_seqs_def)
qed (simp add: stream_seqs_def)

text \<open>
  C23: every stream is numbered without gaps. The numbers stamped for one destination shard of
  one client (or for a client's plain outputs) are consecutive, starting at the counter, across
  batches and whatever the other streams do in between; the counter ends right behind the last.
\<close>

theorem streams_without_gaps:
  assumes "sequencer_ok sq" and "stamp_run batches sq = Inr (entries, sq')"
  shows "stream_seqs k entries = [counter sq k..counter sq' k - 1]"
proof -
  obtain ks where ks: "map id_stream entries = map Some (number_from (counter sq) ks)"
    "counter sq' = count_up (counter sq) ks"
    using stamp_run_numbers [OF assms] by blast
  then show ?thesis
    by (simp add: stream_seqs_numbered [OF ks(1)] number_from_stream count_up_def)
qed

theorem streams_without_gaps_witness:
  "\<exists>entries sq'. stamp_run sample_batches sample_sequencer = Inr (entries, sq') \<and>
     stream_seqs (AddrStream 4 (lit ''sum'') 1) entries = [0..counter sq' (AddrStream 4 (lit ''sum'') 1) - 1]"
proof -
  obtain entries sq' where run: "stamp_run sample_batches sample_sequencer = Inr (entries, sq')"
    using sample_stamp_run by blast
  from streams_without_gaps [OF sample_sequencer_ok run, of "AddrStream 4 (lit ''sum'') 1"] run show ?thesis
    by (simp add: sample_sequencer_def)
qed

end
