(* ===== verification/Snapshot.thy ===== *)
theory Snapshot
  imports Inbox Outbox Sequencer
begin

text \<open>
  The snapshot and its double buffer, \<open>common/fault_tolerance/snapshot/\<close>. A file either does
  not exist, holds a complete pickle, or holds something \<open>pickle.load\<close> refuses. The steps of
  \<open>commit\<close> are kept apart because the process can die between any two of them.
\<close>

record 'w snapshot =
  wal_checkpoint_record :: int
  snap_inbox :: inbox_dict
  snap_outbox :: outbox_dict
  snap_sequencer :: sequencer_dict
  snap_worker_state :: 'w

datatype 'a pickle_file = Absent | Unreadable | Pickled 'a

record 'w last_state =
  ls_current :: "'w snapshot pickle_file"
  ls_previous :: "'w snapshot pickle_file"
  ls_tmp :: "'w snapshot pickle_file"

definition new_last_state :: "'w last_state" where
  "new_last_state = \<lparr>ls_current = Absent, ls_previous = Absent, ls_tmp = Absent\<rparr>"

fun load_first :: "'w snapshot pickle_file list \<Rightarrow> 'w snapshot option" where
  "load_first [] = None"
| "load_first (Absent # files) = load_first files"
| "load_first (Unreadable # files) = load_first files"
| "load_first (Pickled s # files) = Some s"

definition load :: "'w last_state \<Rightarrow> 'w snapshot option" where
  "load ls = load_first [ls_current ls, ls_previous ls]"

definition truncate_tmp :: "'w last_state \<Rightarrow> 'w last_state" where
  "truncate_tmp ls = ls\<lparr>ls_tmp := Unreadable\<rparr>"

definition write_tmp :: "'w snapshot \<Rightarrow> 'w last_state \<Rightarrow> 'w last_state" where
  "write_tmp s ls = ls\<lparr>ls_tmp := Pickled s\<rparr>"

definition current_to_previous :: "'w last_state \<Rightarrow> 'w last_state" where
  "current_to_previous ls =
     (if ls_current ls \<noteq> Absent then ls\<lparr>ls_previous := ls_current ls, ls_current := Absent\<rparr> else ls)"

definition tmp_to_current :: "'w last_state \<Rightarrow> 'w last_state" where
  "tmp_to_current ls = ls\<lparr>ls_current := ls_tmp ls, ls_tmp := Absent\<rparr>"

definition commit :: "'w snapshot \<Rightarrow> 'w last_state \<Rightarrow> 'w last_state" where
  "commit s ls = tmp_to_current (current_to_previous (write_tmp s (truncate_tmp ls)))"

text \<open>What the directory can look like while \<open>commit\<close> runs, in order.\<close>

definition commit_points :: "'w snapshot \<Rightarrow> 'w last_state \<Rightarrow> 'w last_state list" where
  "commit_points s ls =
     [ls, truncate_tmp ls, write_tmp s (truncate_tmp ls),
      current_to_previous (write_tmp s (truncate_tmp ls)), commit s ls]"

lemmas commit_defs = commit_def truncate_tmp_def write_tmp_def current_to_previous_def tmp_to_current_def

lemma load_commit [simp]: "load (commit s ls) = Some s"
  by (simp add: load_def commit_defs)

lemma current_commit [simp]: "ls_current (commit s ls) = Pickled s"
  by (simp add: commit_defs)

text \<open>
  A readable or missing current file is all it needs: whichever step the process dies at,
  loading gives the old snapshot or the new one.
\<close>

lemma load_commit_points:
  assumes "ls_current ls \<noteq> Unreadable" and "ls' \<in> set (commit_points s ls)"
  shows "load ls' = load ls \<or> load ls' = Some s"
  using assms by (cases "ls_current ls") (auto simp: commit_points_def load_def commit_defs)

lemma current_commit_points:
  assumes "ls_current ls \<noteq> Unreadable" and "ls' \<in> set (commit_points s ls)"
  shows "ls_current ls' \<noteq> Unreadable"
  using assms by (auto simp: commit_points_def commit_defs split: if_splits)

text \<open>
  With an unreadable current file the rename would push the unreadable file over the only
  good snapshot.
\<close>

lemma load_unreadable_current:
  "ls_current ls = Unreadable \<Longrightarrow>
   load (current_to_previous (write_tmp s (truncate_tmp ls))) = None"
  by (simp add: load_def commit_defs)

subsection \<open>Properties\<close>

text \<open>
  C21: the snapshot is replaced atomically. When the current file is absent or readable, whichever
  step of \<open>commit\<close> the process dies at, the next \<open>load\<close> gives the old snapshot or the new one,
  and the current file is again absent or readable.
\<close>

theorem snapshot_commit_atomic:
  assumes "ls_current ls \<noteq> Unreadable" and "ls' \<in> set (commit_points s ls)"
  shows "(load ls' = load ls \<or> load ls' = Some s) \<and> ls_current ls' \<noteq> Unreadable"
  using load_commit_points [OF assms] current_commit_points [OF assms] by blast

definition sample_snapshot :: "int \<Rightarrow> int snapshot" where
  "sample_snapshot n = \<lparr>wal_checkpoint_record = - 1, snap_inbox = \<lparr>id_applied = [], id_done = []\<rparr>, snap_outbox = [],
     snap_sequencer = \<lparr>sd_next_seq = [], sd_next_addr_seq = []\<rparr>, snap_worker_state = n\<rparr>"

theorem snapshot_commit_atomic_witness:
  "(let ls = \<lparr>ls_current = Pickled (sample_snapshot 1), ls_previous = Absent, ls_tmp = Absent\<rparr>;
        ls' = current_to_previous (write_tmp (sample_snapshot 2) (truncate_tmp ls)) in
    ls_current ls' = Absent \<and> (load ls' = load ls \<or> load ls' = Some (sample_snapshot 2)))"
proof -
  let ?ls = "\<lparr>ls_current = Pickled (sample_snapshot 1), ls_previous = Absent, ls_tmp = Absent\<rparr>"
  have "current_to_previous (write_tmp (sample_snapshot 2) (truncate_tmp ?ls)) \<in> set (commit_points (sample_snapshot 2) ?ls)"
    by (simp add: commit_points_def)
  from snapshot_commit_atomic [OF _ this] show ?thesis by (simp add: Let_def commit_defs)
qed

end
