(* ===== verification/Handler.thy ===== *)
theory Handler
  imports Wal Snapshot
begin

text \<open>
  \<open>PersistentStateHandler\<close> of \<open>common/fault_tolerance/handler/\<close>: the durable-state protocol
  over the write-ahead log, the inbox, the outbox, the sequencer and the snapshot. The worker
  state is the adapter of \<open>worker_state.py\<close>, given by its three methods; the business
  function is a method of the worker, since it may read and write the worker's state.
\<close>

subsection \<open>Operations\<close>

record ('s, 'w) worker_ops =
  apply_change :: "json \<Rightarrow> ('s, unit) act"
  worker_snapshot :: "'s \<Rightarrow> 'w"
  worker_restore :: "'w \<Rightarrow> ('s, unit) act"

record ('s, 'w) handler =
  h_node_id :: pystr
  snapshot_every :: int
  output_edges :: "(pystr \<times> edge_spec) list"
  h_worker :: 's
  h_last_state :: "'w last_state"
  h_wal :: wal
  h_inbox :: inbox
  h_outbox :: outbox
  h_sequencer :: sender_sequencer
  applied_since_snapshot :: int

type_synonym ctx = "pystr \<times> int \<times> int \<times> int \<times> msg_kind"

datatype instruction = Ack | PublishThenCommit "outbox_entry list" ctx

definition REPLAY_ALL :: int where "REPLAY_ALL = - 1"

definition new_handler ::
  "pystr \<Rightarrow> 's \<Rightarrow> int \<Rightarrow> (pystr \<times> edge_spec) list \<Rightarrow> 'w last_state \<Rightarrow> wal \<Rightarrow> ('s, 'w) handler res" where
  "new_handler node ws every es ls w =
     rbind (new_sequencer node es) (\<lambda>sq.
     Inr \<lparr>h_node_id = node, snapshot_every = every, output_edges = es, h_worker = ws,
          h_last_state = ls, h_wal = open_wal w, h_inbox = new_inbox, h_outbox = [],
          h_sequencer = sq, applied_since_snapshot = 0\<rparr>)"

definition on_worker :: "('s, 'a) act \<Rightarrow> (('s, 'w) handler, 'a) act" where
  "on_worker = azoom h_worker (\<lambda>s. h_worker_update (\<lambda>_. s))"

definition on_wal :: "(wal, 'a) act \<Rightarrow> (('s, 'w) handler, 'a) act" where
  "on_wal = azoom h_wal (\<lambda>w. h_wal_update (\<lambda>_. w))"

definition on_sequencer :: "(sender_sequencer, 'a) act \<Rightarrow> (('s, 'w) handler, 'a) act" where
  "on_sequencer = azoom h_sequencer (\<lambda>q. h_sequencer_update (\<lambda>_. q))"

definition apply_new ::
  "('s, 'w) worker_ops \<Rightarrow> pystr \<Rightarrow> int \<Rightarrow> int \<Rightarrow> int \<Rightarrow> bytes \<Rightarrow>
   (bytes \<Rightarrow> ('s, json \<times> logical_output list) act) \<Rightarrow> msg_kind \<Rightarrow> (('s, 'w) handler, unit) act" where
  "apply_new W msg_id client_id sender_id seq payload business_fn kind =
     abind (on_worker (business_fn payload)) (\<lambda>(state_change, logical_outputs).
     abind (aget h_sequencer) (\<lambda>sq.
     abind (alift (stamp client_id msg_id logical_outputs sq)) (\<lambda>outputs.
     abind (on_wal (wal_append (InputApplied \<lparr>ia_msg_id = msg_id, ia_client_id = client_id,
              ia_sender_id = sender_id, ia_seq = seq, ia_state_change = state_change,
              ia_outputs = outputs, ia_kind = kind\<rparr>))) (\<lambda>_.
     abind (on_sequencer (observe_outputs outputs)) (\<lambda>_.
     abind (on_worker (apply_change W state_change)) (\<lambda>_.
     abind (amodify (h_inbox_update (mark_applied client_id sender_id seq kind))) (\<lambda>_.
     abind (amodify (h_outbox_update (outbox_add client_id msg_id outputs))) (\<lambda>_.
     amodify (applied_since_snapshot_update (\<lambda>n. n + 1))))))))))"

definition handle ::
  "('s, 'w) worker_ops \<Rightarrow> pystr \<Rightarrow> int \<Rightarrow> int \<Rightarrow> int \<Rightarrow> bytes \<Rightarrow>
   (bytes \<Rightarrow> ('s, json \<times> logical_output list) act) \<Rightarrow> msg_kind \<Rightarrow> (('s, 'w) handler, instruction) act" where
  "handle W msg_id client_id sender_id seq payload business_fn kind =
     abind (aget (\<lambda>h. classify (h_inbox h) client_id sender_id seq kind)) (\<lambda>status.
     if status = DONE then areturn Ack
     else
       abind (if status = NEW
              then apply_new W msg_id client_id sender_id seq payload business_fn kind
              else areturn ()) (\<lambda>_.
       aget (\<lambda>h. PublishThenCommit (entries_for_input client_id msg_id (h_outbox h))
                   (msg_id, client_id, sender_id, seq, kind))))"

definition make_snapshot :: "('s, 'w) worker_ops \<Rightarrow> ('s, 'w) handler \<Rightarrow> 'w snapshot" where
  "make_snapshot W h =
     \<lparr>wal_checkpoint_record = REPLAY_ALL, snap_inbox = inbox_to_dict (h_inbox h),
      snap_outbox = outbox_to_dict (h_outbox h), snap_sequencer = sequencer_to_dict (h_sequencer h),
      snap_worker_state = worker_snapshot W (h_worker h)\<rparr>"

definition snapshot_now :: "('s, 'w) worker_ops \<Rightarrow> (('s, 'w) handler, unit) act" where
  "snapshot_now W =
     abind (aget (make_snapshot W)) (\<lambda>s.
     abind (amodify (h_last_state_update (commit s))) (\<lambda>_.
     abind (amodify (h_wal_update wal_rotate)) (\<lambda>_.
     amodify (applied_since_snapshot_update (\<lambda>_. 0)))))"

definition maybe_snapshot :: "('s, 'w) worker_ops \<Rightarrow> (('s, 'w) handler, unit) act" where
  "maybe_snapshot W =
     abind (aget (\<lambda>h. applied_since_snapshot h < snapshot_every h)) (\<lambda>early.
     if early then areturn () else snapshot_now W)"

definition commit_done ::
  "('s, 'w) worker_ops \<Rightarrow> pystr \<Rightarrow> int \<Rightarrow> int \<Rightarrow> int \<Rightarrow> msg_kind \<Rightarrow> (('s, 'w) handler, instruction) act" where
  "commit_done W msg_id client_id sender_id seq kind =
     abind (on_wal (wal_append (InputDone \<lparr>id_msg_id = msg_id, id_client_id = client_id,
              id_sender_id = sender_id, id_seq = seq, id_kind = kind\<rparr>))) (\<lambda>_.
     abind (amodify (h_inbox_update (mark_done client_id sender_id seq kind))) (\<lambda>_.
     abind (amodify (h_outbox_update (remove_input client_id msg_id))) (\<lambda>_.
     abind (maybe_snapshot W) (\<lambda>_.
     areturn Ack))))"

definition apply_record :: "('s, 'w) worker_ops \<Rightarrow> wal_record \<Rightarrow> (('s, 'w) handler, bool) act" where
  "apply_record W r =
     (case r of
        InputApplied a \<Rightarrow>
          abind (aget (\<lambda>h. classify (h_inbox h) (ia_client_id a) (ia_sender_id a) (ia_seq a) (ia_kind a)))
            (\<lambda>status.
          if status = NEW then
            abind (on_worker (apply_change W (ia_state_change a))) (\<lambda>_.
            abind (amodify (h_inbox_update
                     (mark_applied (ia_client_id a) (ia_sender_id a) (ia_seq a) (ia_kind a)))) (\<lambda>_.
            abind (amodify (h_outbox_update (outbox_add (ia_client_id a) (ia_msg_id a) (ia_outputs a)))) (\<lambda>_.
            abind (on_sequencer (observe_outputs (ia_outputs a))) (\<lambda>_.
            areturn True))))
          else areturn False)
      | InputDone d \<Rightarrow>
          abind (aget (\<lambda>h. classify (h_inbox h) (id_client_id d) (id_sender_id d) (id_seq d) (id_kind d)))
            (\<lambda>status.
          if status \<noteq> DONE then
            abind (amodify (h_inbox_update
                     (mark_done (id_client_id d) (id_sender_id d) (id_seq d) (id_kind d)))) (\<lambda>_.
            abind (amodify (h_outbox_update (remove_input (id_client_id d) (id_msg_id d)))) (\<lambda>_.
            areturn False))
          else areturn False))"

text \<open>The replay loop: the records the generator yields, then the exception it ends with.\<close>

fun replay_loop :: "('s, 'w) worker_ops \<Rightarrow> int \<Rightarrow> wal_record list \<Rightarrow> py_error option \<Rightarrow> (('s, 'w) handler, int) act" where
  "replay_loop W applied [] e = (case e of None \<Rightarrow> areturn applied | Some err \<Rightarrow> araise err)"
| "replay_loop W applied (r # rs) e =
     abind (apply_record W r) (\<lambda>b. replay_loop W (if b then applied + 1 else applied) rs e)"

definition restore_snapshot :: "('s, 'w) worker_ops \<Rightarrow> 'w snapshot \<Rightarrow> (('s, 'w) handler, int) act" where
  "restore_snapshot W s =
     abind (on_worker (worker_restore W (snap_worker_state s))) (\<lambda>_.
     abind (alift (inbox_from_dict (snap_inbox s))) (\<lambda>ib.
     abind (amodify (h_inbox_update (\<lambda>_. ib))) (\<lambda>_.
     abind (alift (outbox_from_dict (snap_outbox s))) (\<lambda>ob.
     abind (amodify (h_outbox_update (\<lambda>_. ob))) (\<lambda>_.
     abind (aget (\<lambda>h. (h_node_id h, output_edges h))) (\<lambda>(node, es).
     abind (alift (sequencer_from_dict node (snap_sequencer s) es)) (\<lambda>sq.
     abind (amodify (h_sequencer_update (\<lambda>_. sq))) (\<lambda>_.
     areturn (wal_checkpoint_record s)))))))))"

definition recover :: "('s, 'w) worker_ops \<Rightarrow> (('s, 'w) handler, unit) act" where
  "recover W =
     abind (aget (\<lambda>h. load (h_last_state h))) (\<lambda>snap.
     abind (case snap of None \<Rightarrow> areturn REPLAY_ALL | Some s \<Rightarrow> restore_snapshot W s) (\<lambda>from_record.
     abind (aget (\<lambda>h. wal_replay from_record (h_wal h))) (\<lambda>(records, e).
     abind (replay_loop W 0 records e) (\<lambda>applied.
     amodify (applied_since_snapshot_update (\<lambda>_. applied))))))"

definition outbox_to_republish :: "('s, 'w) handler \<Rightarrow> outbox_entry list" where
  "outbox_to_republish h = all_pending (h_outbox h)"

text \<open>A process start: the constructor on the files it finds, then \<open>recover\<close>.\<close>

definition restart ::
  "('s, 'w) worker_ops \<Rightarrow> pystr \<Rightarrow> 's \<Rightarrow> int \<Rightarrow> (pystr \<times> edge_spec) list \<Rightarrow> 'w last_state \<Rightarrow> wal \<Rightarrow>
   ('s, 'w) handler res" where
  "restart W node ws every es ls w =
     rbind (new_handler node ws every es ls w) (\<lambda>h.
     (case recover W h of (Inl e, _) \<Rightarrow> Inl e | (Inr _, h') \<Rightarrow> Inr h'))"

end
