(* ===== verification/Durability.thy ===== *)
theory Durability
  imports Handler
begin

text \<open>
  Crash safety of the durable-state handler: replay and restart as functions of the log, the
  contracts of the worker adapter and of message ids as locales, the invariant that a restart
  gives back the handler in memory, and its preservation by every operation.
\<close>

subsection \<open>Replay touches memory only\<close>

lemmas handler_act_defs = act_defs on_worker_def on_wal_def on_sequencer_def

definition rebase :: "'w last_state \<Rightarrow> wal \<Rightarrow> int \<Rightarrow> ('s, 'w) handler \<Rightarrow> ('s, 'w) handler" where
  "rebase ls w n h = h\<lparr>h_last_state := ls, h_wal := w, applied_since_snapshot := n\<rparr>"

lemma rebase_rebase [simp]: "rebase ls w n (rebase ls' w' n' h) = rebase ls w n h"
  by (simp add: rebase_def)

lemma rebase_simps [simp]:
  "h_last_state (rebase ls w n h) = ls" "h_wal (rebase ls w n h) = w"
  "applied_since_snapshot (rebase ls w n h) = n" "h_inbox (rebase ls w n h) = h_inbox h"
  "h_outbox (rebase ls w n h) = h_outbox h" "h_worker (rebase ls w n h) = h_worker h"
  "h_sequencer (rebase ls w n h) = h_sequencer h" "h_node_id (rebase ls w n h) = h_node_id h"
  "output_edges (rebase ls w n h) = output_edges h" "snapshot_every (rebase ls w n h) = snapshot_every h"
  by (simp_all add: rebase_def)

lemma apply_record_disk:
  "apply_record W r (rebase ls w m h) = map_prod id (rebase ls w m) (apply_record W r h)"
  by (cases r) (auto simp: apply_record_def handler_act_defs rebase_def split: prod.splits sum.splits)

lemma replay_loop_disk:
  "replay_loop W n rs e (rebase ls w m h) = map_prod id (rebase ls w m) (replay_loop W n rs e h)"
proof (induction rs arbitrary: n h)
  case (Cons r rs)
  show ?case
    by (auto simp: abind_def apply_record_disk Cons.IH split: prod.splits sum.splits)
qed (simp add: act_defs split: option.splits)

lemma replay_loop_snoc:
  "replay_loop W n (rs @ [r]) None h =
     abind (replay_loop W n rs None) (\<lambda>m. abind (apply_record W r) (\<lambda>b. areturn (if b then m + 1 else m))) h"
proof (induction rs arbitrary: n h)
  case Nil
  show ?case by (auto simp: act_defs split: prod.splits sum.splits)
next
  case (Cons x rs)
  show ?case by (auto simp: abind_def Cons.IH split: prod.splits sum.splits)
qed

definition event_of :: "wal_record \<Rightarrow> input_key input_event" where
  "event_of r = (case r of
     InputApplied a \<Rightarrow> AppliedEvent (ia_client_id a, ia_sender_id a, ia_seq a, ia_kind a)
   | InputDone d \<Rightarrow> DoneEvent (id_client_id d, id_sender_id d, id_seq d, id_kind d))"

definition in_memory :: "('s, 'w) handler \<Rightarrow> wal_record \<Rightarrow> bool" where
  "in_memory h r \<longleftrightarrow> reflected key_status (h_inbox h) (event_of r)"

text \<open>A record the snapshot already reflects is skipped.\<close>

lemma apply_record_skip: "in_memory h r \<Longrightarrow> apply_record W r h = (Inr False, h)"
  by (cases r) (auto simp: in_memory_def reflected_def event_of_def apply_record_def act_defs)

lemma replay_loop_skip: "list_all (in_memory h) rs \<Longrightarrow> replay_loop W n rs None h = (Inr n, h)"
  by (induction rs arbitrary: n) (auto simp: apply_record_skip abind_def areturn_def)

subsection \<open>What the disk holds\<close>

lemma restore_snapshot_disk:
  "restore_snapshot W s (rebase ls w m h) = map_prod id (rebase ls w m) (restore_snapshot W s h)"
  by (auto simp: restore_snapshot_def handler_act_defs rebase_def split: prod.splits sum.splits)

definition disk_log :: "wal \<Rightarrow> wal_record list \<Rightarrow> bytes \<Rightarrow> bool" where
  "disk_log w L torn \<longleftrightarrow> (\<exists>data. log_bytes L = Inr data \<and> wal_file w = data @ torn) \<and> list_all record_ok L \<and> torn_record torn"

lemma disk_log_replay: "disk_log w L torn \<Longrightarrow> wal_replay (- 1) w = (L, None)"
  by (auto simp: disk_log_def intro: wal_replay_log)

lemma disk_log_open [simp]: "disk_log (open_wal w) L torn = disk_log w L torn"
  by (simp add: disk_log_def)


definition snap_ok :: "'w last_state \<Rightarrow> bool" where
  "snap_ok ls \<longleftrightarrow> (case load ls of None \<Rightarrow> True | Some s \<Rightarrow> wal_checkpoint_record s = REPLAY_ALL)"

text \<open>What a start loads from the snapshot alone, before any record is replayed.\<close>

definition boot ::
  "('s, 'w) worker_ops \<Rightarrow> pystr \<Rightarrow> 's \<Rightarrow> int \<Rightarrow> (pystr \<times> edge_spec) list \<Rightarrow> 'w last_state \<Rightarrow> ('s, 'w) handler res" where
  "boot W node ws every es ls = restart W node ws every es ls \<lparr>wal_current = None, wal_previous = None\<rparr>"

definition replay_all :: "('s, 'w) worker_ops \<Rightarrow> wal_record list \<Rightarrow> ('s, 'w) handler \<Rightarrow> ('s, 'w) handler res" where
  "replay_all W L h = (case replay_loop W (applied_since_snapshot h) L None h of
     (Inl e, _) \<Rightarrow> Inl e | (Inr n, h') \<Rightarrow> Inr (h'\<lparr>applied_since_snapshot := n\<rparr>))"

lemma restore_snapshot_checkpoint:
  "restore_snapshot W s h = (Inr n, h') \<Longrightarrow>
   n = wal_checkpoint_record s \<and> h_wal h' = h_wal h \<and> applied_since_snapshot h' = applied_since_snapshot h"
  by (auto simp: restore_snapshot_def handler_act_defs split: prod.splits sum.splits)

lemma disk_log_empty: "wal_file w = [] \<Longrightarrow> disk_log w [] []"
  by (simp add: disk_log_def log_bytes_def torn_record_def)

lemma restart_boot:
  assumes "disk_log w L torn" and "snap_ok ls"
  shows "restart W node ws every es ls w =
    rbind (boot W node ws every es ls) (\<lambda>h. replay_all W L (rebase ls (open_wal w) 0 h))"
proof (cases "58 \<in> set node")
  case True
  then show ?thesis by (simp add: restart_def new_handler_def new_sequencer_def boot_def)
next
  case False
  let ?e = "\<lparr>wal_current = None, wal_previous = None\<rparr>"
  let ?h = "\<lambda>w. \<lparr>h_node_id = node, snapshot_every = every, output_edges = es, h_worker = ws,
          h_last_state = ls, h_wal = open_wal w, h_inbox = new_inbox, h_outbox = [],
          h_sequencer = \<lparr>node_id = node, edges = es, next_seq = [], next_addr_seq = []\<rparr>,
          applied_since_snapshot = 0\<rparr>"
  let ?m = "case load ls of None \<Rightarrow> areturn REPLAY_ALL | Some s \<Rightarrow> restore_snapshot W s"
  have nil: "disk_log ?e [] []" by (simp add: disk_log_empty wal_file_def)
  have h: "?h w = rebase ls (open_wal w) 0 (?h ?e)" by (simp add: rebase_def)
  have m: "?m (?h w) = map_prod id (rebase ls (open_wal w) 0) (?m (?h ?e))"
    unfolding h by (cases "load ls") (simp_all add: restore_snapshot_disk areturn_def)
  show ?thesis
  proof (cases "?m (?h ?e)")
    case (Pair r h0)
    have r: "r = Inr n \<Longrightarrow> n = - 1 \<and> h_wal h0 = open_wal ?e \<and> applied_since_snapshot h0 = 0" for n
      using Pair assms(2)
      by (auto simp: snap_ok_def REPLAY_ALL_def areturn_def split: option.splits
          dest: restore_snapshot_checkpoint)
    show ?thesis
      using False Pair m r disk_log_replay [OF assms(1)] disk_log_replay [OF nil]
        disk_log_replay [of "open_wal w" L torn] disk_log_replay [of "open_wal ?e" "[]" "[]"] assms(1) nil
      by (cases r)
        (auto simp: boot_def restart_def new_handler_def new_sequencer_def recover_def act_defs replay_all_def
          rebase_def split: prod.splits sum.splits)
  qed
qed


lemma apply_record_applied_count:
  "apply_record W r h = (b, h') \<Longrightarrow> applied_since_snapshot h' = applied_since_snapshot h"
  by (cases r) (auto simp: apply_record_def handler_act_defs split: prod.splits sum.splits if_splits)

lemma rebase_self: "h\<lparr>applied_since_snapshot := n\<rparr> = rebase (h_last_state h) (h_wal h) n h"
  by (simp add: rebase_def)

lemma apply_record_frame:
  "apply_record W r h = (b, h') \<Longrightarrow> h_last_state h' = h_last_state h \<and> h_wal h' = h_wal h"
  by (cases r) (auto simp: apply_record_def handler_act_defs split: prod.splits sum.splits if_splits)

lemma replay_loop_frame:
  "replay_loop W n rs e h = (b, h') \<Longrightarrow> h_last_state h' = h_last_state h \<and> h_wal h' = h_wal h"
proof (induction rs arbitrary: n h)
  case (Cons r rs)
  then show ?case
    by (auto simp: abind_def split: prod.splits sum.splits dest!: apply_record_frame)
qed (auto simp: act_defs split: option.splits)

lemma replay_all_snoc:
  "replay_all W (L @ [r]) h = rbind (replay_all W L h) (replay_all W [r])"
proof (cases "replay_loop W (applied_since_snapshot h) L None h")
  case (Pair r1 h1)
  show ?thesis
  proof (cases r1)
    case (Inr n)
    show ?thesis
      using Pair Inr apply_record_disk [of W r "h_last_state h1" "h_wal h1" n h1]
      by (auto simp: replay_all_def replay_loop_snoc abind_def areturn_def rebase_self
          split: prod.splits sum.splits dest!: apply_record_frame)
  qed (simp add: Pair replay_all_def replay_loop_snoc abind_def)
qed

lemma replay_all_rebase:
  "replay_all W L (rebase ls w (applied_since_snapshot h) h) =
     rbind (replay_all W L h) (\<lambda>h'. Inr (rebase ls w (applied_since_snapshot h') h'))"
  by (auto simp: replay_all_def replay_loop_disk split: prod.splits sum.splits)

lemma replay_all_Nil [simp]: "replay_all W [] h = Inr h"
  by (simp add: replay_all_def areturn_def)

lemma replay_all_skip: "list_all (in_memory h) L \<Longrightarrow> replay_all W L h = Inr h"
  by (simp add: replay_all_def replay_loop_skip)

lemma restart_same_log:
  assumes "restart W node ws every es ls w = Inr h" and "disk_log w L t" and "disk_log w' L t'" and "snap_ok ls"
  shows "restart W node ws every es ls w' = Inr (rebase ls (open_wal w') (applied_since_snapshot h) h)"
  using assms(1) replay_all_rebase [of W L ls "open_wal w'" "rebase ls (open_wal w) 0 _"]
  by (auto simp: restart_boot [OF assms(2,4)] restart_boot [OF assms(3,4)])

lemma restart_append:
  assumes "restart W node ws every es ls w = Inr h" and "disk_log w L t" and "disk_log w' (L @ [r]) t'" and "snap_ok ls"
  shows "restart W node ws every es ls w' = replay_all W [r] (rebase ls (open_wal w') (applied_since_snapshot h) h)"
proof -
  from assms(1) obtain h0 where h0: "boot W node ws every es ls = Inr h0"
    and h: "replay_all W L (rebase ls (open_wal w) 0 h0) = Inr h"
    by (auto simp: restart_boot [OF assms(2,4)])
  from replay_all_rebase [of W L ls "open_wal w'" "rebase ls (open_wal w) 0 h0"] h
  have "replay_all W L (rebase ls (open_wal w') 0 h0) = Inr (rebase ls (open_wal w') (applied_since_snapshot h) h)"
    by simp
  then show ?thesis by (simp add: restart_boot [OF assms(3,4)] h0 replay_all_snoc)
qed


subsection \<open>What one message does\<close>

definition out_ok :: "logical_output \<Rightarrow> bool" where
  "out_ok out \<longleftrightarrow> (case normalize_output out of (_, _, Some n) \<Rightarrow> 0 \<le> n | _ \<Rightarrow> True)"

lemma entry_ok_fields [simp]:
  "entry_ok \<lparr>output_id = a, input_id = b, destination = d, body = e, shard = sh\<rparr> \<longleftrightarrow>
   (case sh of None \<Rightarrow> True | Some n \<Rightarrow> 0 \<le> n)"
  by (simp add: entry_ok_def)

lemma stamp_from_entry_ok:
  "stamp_from sq c iid index lp la outs = Inr es \<Longrightarrow> list_all out_ok outs \<Longrightarrow> list_all entry_ok es"
proof (induction outs arbitrary: index lp la es)
  case (Cons out outs)
  obtain dest bdy sh where out: "normalize_output out = (dest, bdy, sh)"
    by (cases "normalize_output out") auto
  with Cons.prems(2) have sh: "case sh of None \<Rightarrow> True | Some n \<Rightarrow> 0 \<le> n"
    by (cases sh) (auto simp: out_ok_def)
  show ?case
  proof (cases "map_of (edges sq) dest")
    case None
    with Cons.prems out sh show ?thesis by (auto simp: Let_def intro: Cons.IH)
  next
    case (Some spec)
    from Cons.prems(1) obtain t b pl n where
      "(case sh of Some s \<Rightarrow> Inr s | None \<Rightarrow> shard_for_key (KBytes pl) (shard_count spec)) = Inr n"
      and es: "list_all entry_ok (tl es)" "\<exists>e. es = e # tl es \<and> shard e = Some n"
      using Cons.IH Cons.prems(2) by (auto simp: out Some Let_def)
    then have "0 \<le> n" using sh by (auto split: option.splits dest: shard_for_key_range)
    moreover obtain e where "es = e # tl es" "shard e = Some n" using es(2) by blast
    ultimately show ?thesis using es(1) by (metis entry_ok_def list.pred_inject(2) option.simps(5))
  qed
qed simp

lemma stamp_entry_ok: "stamp c iid outs sq = Inr es \<Longrightarrow> list_all out_ok outs \<Longrightarrow> list_all entry_ok es"
  by (auto simp: stamp_def intro: stamp_from_entry_ok)

definition applied_record :: "pystr \<Rightarrow> int \<Rightarrow> int \<Rightarrow> int \<Rightarrow> msg_kind \<Rightarrow> json \<Rightarrow> outbox_entry list \<Rightarrow> wal_record" where
  "applied_record m c s q k ch es = InputApplied \<lparr>ia_msg_id = m, ia_client_id = c, ia_sender_id = s,
     ia_seq = q, ia_state_change = ch, ia_outputs = es, ia_kind = k\<rparr>"

definition done_record :: "pystr \<Rightarrow> int \<Rightarrow> int \<Rightarrow> int \<Rightarrow> msg_kind \<Rightarrow> wal_record" where
  "done_record m c s q k = InputDone \<lparr>id_msg_id = m, id_client_id = c, id_sender_id = s, id_seq = q, id_kind = k\<rparr>"

lemma apply_newE:
  assumes "apply_new W m c s q p f k h = (Inr u, h')"
  obtains ch outs s1 es pos w' sq' s' where
    "f p (h_worker h) = (Inr (ch, outs), s1)" "stamp c m outs (h_sequencer h) = Inr es"
    "wal_append (applied_record m c s q k ch es) (h_wal h) = (Inr pos, w')"
    "observe_outputs es (h_sequencer h) = (Inr (), sq')" "apply_change W ch s1 = (Inr (), s')"
    "h' = h\<lparr>h_wal := w', h_sequencer := sq', h_worker := s', h_inbox := mark_applied c s q k (h_inbox h),
           h_outbox := outbox_add c m es (h_outbox h), applied_since_snapshot := applied_since_snapshot h + 1\<rparr>"
  using assms
  by (auto simp: apply_new_def handler_act_defs applied_record_def split: prod.splits sum.splits)

lemma apply_record_new:
  assumes "classify (h_inbox h) c s q k = NEW" and "apply_change W ch (h_worker h) = (Inr (), s')"
    and "observe_outputs es (h_sequencer h) = (Inr (), sq')"
  shows "apply_record W (applied_record m c s q k ch es) h =
    (Inr True, h\<lparr>h_sequencer := sq', h_worker := s', h_inbox := mark_applied c s q k (h_inbox h),
           h_outbox := outbox_add c m es (h_outbox h)\<rparr>)"
  using assms by (simp add: apply_record_def applied_record_def handler_act_defs)

text \<open>
  The business function may touch the worker's state before the record is on disk; replay
  only sees the record. The protocol is sound when applying the change afterwards has the
  same effect as applying it to the state the function started from.
\<close>

definition business_ok :: "('s, 'w) worker_ops \<Rightarrow> (bytes \<Rightarrow> ('s, json \<times> logical_output list) act) \<Rightarrow> bytes \<Rightarrow> 's \<Rightarrow> bool" where
  "business_ok W f p s \<longleftrightarrow>
     (case f p s of
        (Inl _, _) \<Rightarrow> True
      | (Inr (ch, outs), s1) \<Rightarrow>
          state_change_ok ch \<and> list_all out_ok outs \<and> apply_change W ch s1 = apply_change W ch s)"

text \<open>
  Some workers also change their state without logging it. \<open>kept\<close> is the part of the state that only
  logged changes touch; a logged change must then act on that part alone, whatever the rest was.
\<close>

definition change_upto :: "('s, 'w) worker_ops \<Rightarrow> ('s \<Rightarrow> 'v) \<Rightarrow> json \<Rightarrow> bool" where
  "change_upto W kept ch \<longleftrightarrow>
     (\<forall>s t s'. kept t = kept s \<longrightarrow> apply_change W ch s = (Inr (), s') \<longrightarrow>
        (\<exists>t'. apply_change W ch t = (Inr (), t') \<and> kept t' = kept s'))"

definition business_upto ::
  "('s, 'w) worker_ops \<Rightarrow> ('s \<Rightarrow> 'v) \<Rightarrow> (bytes \<Rightarrow> ('s, json \<times> logical_output list) act) \<Rightarrow> bytes \<Rightarrow> 's \<Rightarrow> bool" where
  "business_upto W kept f p s \<longleftrightarrow> business_ok W f p s \<and>
     (\<forall>ch outs s1. f p s = (Inr (ch, outs), s1) \<longrightarrow> change_upto W kept ch)"

lemma business_upto_id: "business_ok W f p s \<Longrightarrow> business_upto W id f p s"
  by (simp add: business_upto_def change_upto_def)

subsection \<open>The invariant\<close>

definition pending_applied :: "(pystr \<Rightarrow> input_key \<Rightarrow> bool) \<Rightarrow> outbox \<Rightarrow> inbox \<Rightarrow> bool" where
  "pending_applied is_msg ob ib \<longleftrightarrow>
     (\<forall>c m. map_of (dget ob c []) m \<noteq> None \<longrightarrow>
        (\<exists>s q k. is_msg m (c, s, q, k) \<and> classify ib c s q k = APPLIED))"

definition restarts :: "('s, 'w) worker_ops \<Rightarrow> 's \<Rightarrow> ('s, 'w) handler \<Rightarrow> 'w last_state \<Rightarrow> wal \<Rightarrow> ('s, 'w) handler res" where
  "restarts W ws h ls w = restart W (h_node_id h) ws (snapshot_every h) (output_edges h) ls w"

definition memory_ok :: "(pystr \<Rightarrow> input_key \<Rightarrow> bool) \<Rightarrow> ('s \<Rightarrow> bool) \<Rightarrow> ('s, 'w) handler \<Rightarrow> bool" where
  "memory_ok is_msg good h \<longleftrightarrow>
     inbox_wf (h_inbox h) \<and> outbox_wf (h_outbox h) \<and> pending_applied is_msg (h_outbox h) (h_inbox h) \<and>
     sequencer_wf (h_sequencer h) \<and> sequencer_ok (h_sequencer h) \<and>
     node_id (h_sequencer h) = h_node_id h \<and> edges (h_sequencer h) = output_edges h \<and> good (h_worker h)"

definition disk_ok :: "('s, 'w) handler \<Rightarrow> bool" where
  "disk_ok h \<longleftrightarrow> snap_ok (h_last_state h) \<and> ls_current (h_last_state h) \<noteq> Unreadable \<and>
     wal_current (h_wal h) \<noteq> None \<and>
     (\<exists>L. disk_log (h_wal h) L [] \<and> list_all (in_memory h) L)"

text \<open>
  The heart of the invariant: a restart on the files as they are gives back this handler, the part
  of the worker's state outside \<open>kept\<close> apart.
\<close>

definition durable ::
  "('s, 'w) worker_ops \<Rightarrow> 's \<Rightarrow> ('s \<Rightarrow> 'v) \<Rightarrow> (pystr \<Rightarrow> input_key \<Rightarrow> bool) \<Rightarrow> ('s \<Rightarrow> bool) \<Rightarrow> ('s, 'w) handler \<Rightarrow> bool" where
  "durable W ws kept is_msg good h \<longleftrightarrow>
     (\<exists>t. restarts W ws h (h_last_state h) (h_wal h) = Inr (h\<lparr>h_worker := t\<rparr>) \<and> kept t = kept (h_worker h)) \<and>
     memory_ok is_msg good h \<and> disk_ok h"

lemma in_memory_upto: "in_memory (h\<lparr>h_worker := t\<rparr>) = in_memory h"
  by (simp add: in_memory_def fun_eq_iff)

lemma rebase_worker: "(rebase ls w n h)\<lparr>h_worker := t\<rparr> = rebase ls w n (h\<lparr>h_worker := t\<rparr>)"
  by (simp add: rebase_def)

lemma open_wal_id: "wal_current w \<noteq> None \<Longrightarrow> open_wal w = w"
  by (auto simp: open_wal_def)

lemma wal_append_current: "wal_append r w = (Inr pos, w') \<Longrightarrow> wal_current w' \<noteq> None"
  by (auto simp: wal_append_def split: sum.splits)

lemma disk_log_append:
  assumes "wal_append r w = (Inr pos, w')" and "disk_log w L []" and "record_ok r"
  shows "disk_log w' (L @ [r]) []"
  using assms wal_append_log(1) [OF assms(1)] by (auto simp: disk_log_def torn_record_def)

lemma pending_add:
  assumes "pending_applied is_msg ob ib" and "is_msg m (c, s, q, k)"
  shows "pending_applied is_msg (outbox_add c m es ob) (mark_applied c s q k ib)"
  unfolding pending_applied_def
proof (intro allI impI)
  fix c' m'
  assume "map_of (dget (outbox_add c m es ob) c' []) m' \<noteq> None"
  then consider "c' = c" "m' = m" | "map_of (dget ob c' []) m' \<noteq> None"
    by (auto simp: outbox_add_def split: if_splits)
  then show "\<exists>s' q' k'. is_msg m' (c', s', q', k') \<and> classify (mark_applied c s q k ib) c' s' q' k' = APPLIED"
  proof cases
    case 1
    with assms(2) show ?thesis by (auto simp: classify_mark_applied)
  next
    case 2
    with assms(1) obtain s' q' k' where "is_msg m' (c', s', q', k')" "classify ib c' s' q' k' = APPLIED"
      unfolding pending_applied_def by blast
    then show ?thesis using classify_mark_applied by (metis (no_types))
  qed
qed

lemma entry_remove:
  "map_of (dget (remove_input c m ob) c' []) m' =
     (if c' = c \<and> m' = m then None else map_of (dget ob c' []) m')"
proof -
  have "dpop m inputs = [] \<Longrightarrow> m' \<noteq> m \<Longrightarrow> map_of inputs m' = None" for inputs :: "(pystr \<times> outbox_entry list) list"
    by (metis fun_upd_apply map_of.simps(1) map_of_dpop)
  then show ?thesis
    by (auto simp: remove_input_def Let_def dget_def split: option.splits)
qed

lemma remove_absent: "outbox_wf ob \<Longrightarrow> map_of (dget ob c []) m = None \<Longrightarrow> remove_input c m ob = ob"
  by (auto simp: remove_input_def Let_def dget_def dpop_absent dset_same outbox_wf_iff split: option.splits)

locale message_ids =
  fixes is_msg :: "pystr \<Rightarrow> input_key \<Rightarrow> bool"
  assumes msg_key: "is_msg m (c, x) \<Longrightarrow> is_msg m (c, y) \<Longrightarrow> x = y"
    and msg_id: "is_msg m z \<Longrightarrow> is_msg m' z \<Longrightarrow> m = m'"
begin

lemma pending_remove:
  assumes "pending_applied is_msg ob ib" and "is_msg m (c, s, q, k)"
  shows "pending_applied is_msg (remove_input c m ob) (mark_done c s q k ib)"
  unfolding pending_applied_def
proof (intro allI impI)
  fix c' m'
  assume "map_of (dget (remove_input c m ob) c' []) m' \<noteq> None"
  then have ne: "\<not> (c' = c \<and> m' = m)" and "map_of (dget ob c' []) m' \<noteq> None"
    by (auto simp: entry_remove split: if_splits)
  with assms(1) obtain s' q' k' where x: "is_msg m' (c', s', q', k')" "classify ib c' s' q' k' = APPLIED"
    unfolding pending_applied_def by blast
  moreover have "\<not> (c' = c \<and> s' = s \<and> q' = q \<and> k' = k)"
    using ne x(1) assms(2) msg_id by blast
  ultimately show "\<exists>s' q' k'. is_msg m' (c', s', q', k') \<and> classify (mark_done c s q k ib) c' s' q' k' = APPLIED"
    using classify_applied_stays by blast
qed

lemma done_not_pending:
  assumes "pending_applied is_msg ob ib" and "is_msg m (c, s, q, k)" and "classify ib c s q k = DONE"
  shows "map_of (dget ob c []) m = None"
proof (rule ccontr)
  assume "map_of (dget ob c []) m \<noteq> None"
  with assms(1) obtain s' q' k' where "is_msg m (c, s', q', k')" "classify ib c s' q' k' = APPLIED"
    unfolding pending_applied_def by blast
  with msg_key [of m c "(s', q', k')" "(s, q, k)"] assms(2,3) show False by simp
qed

end


locale worker_state =
  fixes W :: "('s, 'w) worker_ops"
    and ws :: 's
    and good :: "'s \<Rightarrow> bool"
  assumes good_init: "good ws"
    and good_apply: "good s \<Longrightarrow> apply_change W ch s = (Inr (), s') \<Longrightarrow> good s'"
    and restore_taken: "good s \<Longrightarrow> worker_restore W (worker_snapshot W s) ws = (Inr (), s)"
begin

lemma boot_made:
  assumes "memory_ok is_msg good h" and "load ls = Some (make_snapshot W h)"
  shows "boot W (h_node_id h) ws (snapshot_every h) (output_edges h) ls
    = Inr (rebase ls (open_wal \<lparr>wal_current = None, wal_previous = None\<rparr>) 0 h)"
proof -
  let ?e = "\<lparr>wal_current = None, wal_previous = None\<rparr>"
  have nil: "wal_replay (- 1) (open_wal ?e) = ([], None)"
    by (rule disk_log_replay [of _ _ "[]"]) (simp add: disk_log_empty wal_file_def)
  have "inbox_from_dict (inbox_to_dict (h_inbox h)) = Inr (h_inbox h)"
    and "sequencer_from_dict (h_node_id h) (sequencer_to_dict (h_sequencer h)) (output_edges h) = Inr (h_sequencer h)"
    and "worker_restore W (worker_snapshot W (h_worker h)) ws = (Inr (), h_worker h)"
    and "58 \<notin> set (h_node_id h)"
    using assms(1) sequencer_roundtrip [of "h_sequencer h"]
    by (auto simp: memory_ok_def inbox_roundtrip restore_taken sequencer_ok_def)
  with assms(2) nil show ?thesis
    by (simp add: boot_def restart_def new_handler_def new_sequencer_def recover_def restore_snapshot_def
        handler_act_defs make_snapshot_def outbox_from_to_dict REPLAY_ALL_def rebase_def)
qed

lemma restart_made:
  assumes "memory_ok is_msg good h" and "load ls = Some (make_snapshot W h)"
    and "disk_log w L t" and "list_all (in_memory h) L"
  shows "restarts W ws h ls w = Inr (rebase ls (open_wal w) 0 h)"
proof -
  have "snap_ok ls" using assms(2) by (simp add: snap_ok_def make_snapshot_def)
  moreover have "list_all (in_memory (rebase ls (open_wal w) 0 h)) L"
    using assms(4) by (simp add: in_memory_def list_all_iff)
  ultimately show ?thesis
    using boot_made [OF assms(1,2)]
    by (simp add: restarts_def restart_boot [OF assms(3)] replay_all_skip)
qed

end

locale durable_worker = message_ids is_msg + worker_state W ws good
  for is_msg :: "pystr \<Rightarrow> input_key \<Rightarrow> bool" and W :: "('s, 'w) worker_ops" and ws :: 's
    and good :: "'s \<Rightarrow> bool"
begin

lemma durableD:
  assumes "durable W ws kept is_msg good h"
  obtains L t where "restarts W ws h (h_last_state h) (h_wal h) = Inr (h\<lparr>h_worker := t\<rparr>)" "kept t = kept (h_worker h)"
    "memory_ok is_msg good h"
    "snap_ok (h_last_state h)" "ls_current (h_last_state h) \<noteq> Unreadable" "open_wal (h_wal h) = h_wal h"
    "disk_log (h_wal h) L []" "list_all (in_memory h) L"
  using assms by (auto simp: durable_def disk_ok_def open_wal_id)

lemma memory_apply_new:
  assumes mem: "memory_ok is_msg good h" and m: "is_msg m (c, s, q, k)" and b: "business_ok W f p (h_worker h)"
    and a: "apply_new W m c s q p f k h = (Inr u, h')"
  shows "memory_ok is_msg good h'"
proof -
  obtain ch outs s1 es pos w' sq' s' where
    f: "f p (h_worker h) = (Inr (ch, outs), s1)" and st: "stamp c m outs (h_sequencer h) = Inr es" and
    ob: "observe_outputs es (h_sequencer h) = (Inr (), sq')" and ap: "apply_change W ch s1 = (Inr (), s')" and
    h': "h' = h\<lparr>h_wal := w', h_sequencer := sq', h_worker := s', h_inbox := mark_applied c s q k (h_inbox h),
           h_outbox := outbox_add c m es (h_outbox h), applied_since_snapshot := applied_since_snapshot h + 1\<rparr>"
    using a by (rule apply_newE)
  have "apply_change W ch (h_worker h) = (Inr (), s')" using b f ap by (simp add: business_ok_def)
  then have "good s'" using good_apply mem unfolding memory_ok_def by blast
  moreover have "sequencer_wf sq'" "sequencer_ok sq'" "node_id sq' = node_id (h_sequencer h)" "edges sq' = edges (h_sequencer h)"
    using stamp_observe [OF _ st] sequencer_wf_observe [of "h_sequencer h" es] mem ob
    by (auto simp: memory_ok_def)
  ultimately show ?thesis using mem m by (simp add: memory_ok_def h' pending_add)
qed

lemma durable_apply_new:
  assumes d: "durable W ws kept is_msg good h" and new: "classify (h_inbox h) c s q k = NEW"
    and m: "is_msg m (c, s, q, k)" and b: "business_upto W kept f p (h_worker h)"
    and a: "apply_new W m c s q p f k h = (Inr u, h')"
  shows "durable W ws kept is_msg good h'"
proof -
  obtain L t where r: "restarts W ws h (h_last_state h) (h_wal h) = Inr (h\<lparr>h_worker := t\<rparr>)"
    and t: "kept t = kept (h_worker h)" and mem: "memory_ok is_msg good h"
    and so: "snap_ok (h_last_state h)" "ls_current (h_last_state h) \<noteq> Unreadable"
    and L: "disk_log (h_wal h) L []" "list_all (in_memory h) L"
    using d by (rule durableD)
  obtain ch outs s1 es pos w' sq' s' where
    f: "f p (h_worker h) = (Inr (ch, outs), s1)" and st: "stamp c m outs (h_sequencer h) = Inr es" and
    w: "wal_append (applied_record m c s q k ch es) (h_wal h) = (Inr pos, w')" and
    ob: "observe_outputs es (h_sequencer h) = (Inr (), sq')" and ap: "apply_change W ch s1 = (Inr (), s')" and
    h': "h' = h\<lparr>h_wal := w', h_sequencer := sq', h_worker := s', h_inbox := mark_applied c s q k (h_inbox h),
           h_outbox := outbox_add c m es (h_outbox h), applied_since_snapshot := applied_since_snapshot h + 1\<rparr>"
    using a by (rule apply_newE)
  have ok: "state_change_ok ch" "list_all out_ok outs" "apply_change W ch (h_worker h) = (Inr (), s')"
    using b f ap by (auto simp: business_upto_def business_ok_def)
  obtain t' where t': "apply_change W ch t = (Inr (), t')" "kept t' = kept s'"
    using b f t ok(3) unfolding business_upto_def change_upto_def by blast
  have rec: "record_ok (applied_record m c s q k ch es)"
    using ok stamp_entry_ok [OF st] by (simp add: record_ok_def applied_record_def)
  have L': "disk_log w' (L @ [applied_record m c s q k ch es]) []"
    using w L(1) rec by (rule disk_log_append)
  have w': "open_wal w' = w'" using wal_append_current [OF w] by (rule open_wal_id)
  have "restarts W ws h (h_last_state h) w' = Inr (h'\<lparr>h_worker := t'\<rparr>)"
    using restart_append [OF r [unfolded restarts_def] L(1) L' so(1)] w' new ob t'(1)
      apply_record_new [of "rebase (h_last_state h) w' (applied_since_snapshot h) (h\<lparr>h_worker := t\<rparr>)" c s q k W ch t' es sq' m]
    by (simp add: restarts_def replay_all_def abind_def areturn_def h' rebase_def)
  moreover have "memory_ok is_msg good h'"
    using memory_apply_new [OF mem m _ a] b by (simp add: business_upto_def)
  moreover have "list_all (in_memory h') (L @ [applied_record m c s q k ch es])"
    using L(2) mem new ibx.reflected_app [of "h_inbox h" "(c, s, q, k)"] ibx.reflected_new [of "h_inbox h" "(c, s, q, k)"]
    by (auto simp: in_memory_def h' list_all_iff memory_ok_def event_of_def applied_record_def)
  ultimately show ?thesis
    using so L' t'(2) wal_append_current [OF w] by (auto simp: durable_def disk_ok_def h' restarts_def)
qed

end

subsection \<open>Committing and snapshotting\<close>

text \<open>\<open>commit_done\<close> before it considers a snapshot.\<close>

definition finish_input :: "pystr \<Rightarrow> int \<Rightarrow> int \<Rightarrow> int \<Rightarrow> msg_kind \<Rightarrow> wal \<Rightarrow> ('s, 'w) handler \<Rightarrow> ('s, 'w) handler" where
  "finish_input m c s q k w' h =
     h_outbox_update (remove_input c m) (h_inbox_update (mark_done c s q k) (h\<lparr>h_wal := w'\<rparr>))"

definition snapshotted :: "('s, 'w) worker_ops \<Rightarrow> ('s, 'w) handler \<Rightarrow> ('s, 'w) handler" where
  "snapshotted W h = rebase (commit (make_snapshot W h) (h_last_state h)) (wal_rotate (h_wal h)) 0 h"

lemma snapshot_now_eq: "snapshot_now W h = (Inr (), snapshotted W h)"
  by (simp add: snapshot_now_def act_defs snapshotted_def rebase_def)

lemma commit_done_eq:
  "commit_done W m c s q k h =
     (case wal_append (done_record m c s q k) (h_wal h) of
        (Inl e, _) \<Rightarrow> (Inl e, h)
      | (Inr _, w') \<Rightarrow>
          (let h1 = finish_input m c s q k w' h in
           (Inr Ack, if applied_since_snapshot h < snapshot_every h then h1 else snapshotted W h1)))"
  by (auto simp: commit_done_def maybe_snapshot_def handler_act_defs snapshot_now_eq finish_input_def done_record_def
      Let_def wal_append_error split: prod.splits sum.splits dest: wal_append_error)

lemma apply_record_done:
  assumes "inbox_wf (h_inbox h)" and "outbox_wf (h_outbox h)"
    and "classify (h_inbox h) c s q k = DONE \<Longrightarrow> map_of (dget (h_outbox h) c []) m = None"
  shows "apply_record W (done_record m c s q k) h = (Inr False, finish_input m c s q k (h_wal h) h)"
proof (cases "classify (h_inbox h) c s q k = DONE")
  case True
  with assms have "mark_done c s q k (h_inbox h) = h_inbox h" "remove_input c m (h_outbox h) = h_outbox h"
    by (simp_all add: mark_done_idem remove_absent)
  with True show ?thesis
    by (simp add: apply_record_def done_record_def act_defs finish_input_def)
next
  case False
  then show ?thesis
    by (simp add: apply_record_def done_record_def act_defs finish_input_def)
qed

context durable_worker
begin

lemma memory_finish:
  "memory_ok is_msg good h \<Longrightarrow> is_msg m (c, s, q, k) \<Longrightarrow> memory_ok is_msg good (finish_input m c s q k w' h)"
  by (simp add: memory_ok_def finish_input_def pending_remove)

lemma durable_finish:
  assumes d: "durable W ws kept is_msg good h" and m: "is_msg m (c, s, q, k)"
    and w: "wal_append (done_record m c s q k) (h_wal h) = (Inr pos, w')"
  shows "durable W ws kept is_msg good (finish_input m c s q k w' h)"
proof -
  let ?h = "finish_input m c s q k w' h"
  obtain L t where r: "restarts W ws h (h_last_state h) (h_wal h) = Inr (h\<lparr>h_worker := t\<rparr>)"
    and t: "kept t = kept (h_worker h)" and mem: "memory_ok is_msg good h"
    and so: "snap_ok (h_last_state h)" "ls_current (h_last_state h) \<noteq> Unreadable"
    and L: "disk_log (h_wal h) L []" "list_all (in_memory h) L"
    using d by (rule durableD)
  let ?ht = "rebase (h_last_state h) w' (applied_since_snapshot h) (h\<lparr>h_worker := t\<rparr>)"
  have rec: "record_ok (done_record m c s q k)" by (simp add: record_ok_def done_record_def)
  have L': "disk_log w' (L @ [done_record m c s q k]) []"
    using w L(1) rec by (rule disk_log_append)
  have w': "open_wal w' = w'" using wal_append_current [OF w] by (rule open_wal_id)
  have "apply_record W (done_record m c s q k) ?ht = (Inr False, finish_input m c s q k w' ?ht)"
    using mem done_not_pending [of "h_outbox h" "h_inbox h" m c s q k] m
    by (subst apply_record_done) (simp_all add: memory_ok_def)
  then have "restarts W ws h (h_last_state h) w' = Inr (?h\<lparr>h_worker := t\<rparr>)"
    using restart_append [OF r [unfolded restarts_def] L(1) L' so(1)] w'
    by (simp add: restarts_def replay_all_def abind_def areturn_def rebase_def finish_input_def)
  moreover have "list_all (in_memory ?h) (L @ [done_record m c s q k])"
    using L(2) mem ibx.reflected_dn [of "h_inbox h" _ "(c, s, q, k)"] ibx.reflected_done [of "h_inbox h" "(c, s, q, k)"]
    by (auto simp: in_memory_def finish_input_def list_all_iff memory_ok_def event_of_def done_record_def)
  ultimately show ?thesis
    using so L' t wal_append_current [OF w] memory_finish [OF mem m, of w']
    by (auto simp: durable_def disk_ok_def finish_input_def restarts_def)
qed

text \<open>A snapshot makes the handler durable whatever its files held before.\<close>

lemma durable_snapshotted:
  assumes mem: "memory_ok is_msg good h"
  shows "durable W ws kept is_msg good (snapshotted W h)"
proof -
  let ?ls = "commit (make_snapshot W h) (h_last_state h)" and ?w = "wal_rotate (h_wal h)"
  have w: "wal_current ?w \<noteq> None"
    by (auto simp: wal_rotate_def open_wal_def split: option.splits)
  have l: "disk_log ?w [] []" by (simp add: disk_log_empty)
  have "restarts W ws h ?ls ?w = Inr (rebase ?ls (open_wal ?w) 0 h)"
    by (rule restart_made [OF mem _ l]) simp_all
  then show ?thesis
    using mem w l
    by (auto simp: durable_def disk_ok_def snapshotted_def restarts_def open_wal_id memory_ok_def snap_ok_def
        make_snapshot_def rebase_worker intro!: exI [of _ "h_worker h"])
qed

lemma durable_memory: "durable W ws kept is_msg good h \<Longrightarrow> memory_ok is_msg good h"
  by (simp add: durable_def)

lemma handle_cases:
  assumes "handle W m c s q p f k h = (Inr i, h')"
  obtains u where "classify (h_inbox h) c s q k = NEW" "apply_new W m c s q p f k h = (Inr u, h')" | "h' = h"
  using assms by (auto simp: handle_def act_defs split: prod.splits sum.splits if_splits)

lemma durable_handle:
  assumes "durable W ws kept is_msg good h" and "is_msg m (c, s, q, k)" and "business_upto W kept f p (h_worker h)"
    and "handle W m c s q p f k h = (Inr i, h')"
  shows "durable W ws kept is_msg good h'"
  using assms(4) by (rule handle_cases) (use assms durable_apply_new in blast)+

lemma memory_handle:
  assumes "memory_ok is_msg good h" and "is_msg m (c, s, q, k)" and "business_ok W f p (h_worker h)"
    and "handle W m c s q p f k h = (Inr i, h')"
  shows "memory_ok is_msg good h'"
  using assms(4) by (rule handle_cases) (use assms memory_apply_new in blast)+

lemma commit_cases:
  assumes "commit_done W m c s q k h = (Inr i, h')"
  obtains pos w' where "wal_append (done_record m c s q k) (h_wal h) = (Inr pos, w')"
    "h' = (if applied_since_snapshot h < snapshot_every h then finish_input m c s q k w' h
       else snapshotted W (finish_input m c s q k w' h))"
  using assms by (auto simp: commit_done_eq Let_def split: prod.splits sum.splits)

lemma durable_commit_done:
  assumes "durable W ws kept is_msg good h" and "is_msg m (c, s, q, k)"
    and "commit_done W m c s q k h = (Inr i, h')"
  shows "durable W ws kept is_msg good h'"
  using assms(3)
  by (rule commit_cases) (use durable_finish [OF assms(1,2)] durable_snapshotted durable_memory in auto)

text \<open>A commit that takes a snapshot makes the handler durable again.\<close>

lemma memory_commit_done:
  assumes "memory_ok is_msg good h" and "is_msg m (c, s, q, k)"
    and "commit_done W m c s q k h = (Inr i, h')"
  shows "memory_ok is_msg good h' \<and> (snapshot_every h \<le> applied_since_snapshot h \<longrightarrow> durable W ws kept is_msg good h')"
  using assms(3)
  by (rule commit_cases)
    (use memory_finish [OF assms(1,2)] durable_snapshotted durable_memory [of id, OF durable_snapshotted] in auto)

end

subsection \<open>Crashes\<close>

text \<open>
  The files a crash can leave behind: a prefix of the record being appended, and the steps of
  the snapshot and of the rotation.
\<close>

type_synonym 'w disk = "'w last_state \<times> wal"

definition append_disks :: "wal_record \<Rightarrow> ('s, 'w) handler \<Rightarrow> 'w disk list" where
  "append_disks r h =
     (case encode_record r of
        Inl _ \<Rightarrow> [(h_last_state h, h_wal h)]
      | Inr data \<Rightarrow> map (\<lambda>pre. (h_last_state h, (h_wal h)\<lparr>wal_current := Some (wal_file (h_wal h) @ pre)\<rparr>))
                       (prefixes data))"

definition snapshot_disks :: "('s, 'w) worker_ops \<Rightarrow> ('s, 'w) handler \<Rightarrow> 'w disk list" where
  "snapshot_disks W h =
     (let s = make_snapshot W h; ls = h_last_state h; w = h_wal h in
      map (\<lambda>ls. (ls, w)) (commit_points s ls)
      @ [(commit s ls, \<lparr>wal_current = None, wal_previous = Some (wal_file w)\<rparr>), (commit s ls, wal_rotate w)])"

definition handle_disks ::
  "pystr \<Rightarrow> int \<Rightarrow> int \<Rightarrow> int \<Rightarrow> bytes \<Rightarrow> (bytes \<Rightarrow> ('s, json \<times> logical_output list) act) \<Rightarrow> msg_kind \<Rightarrow>
   ('s, 'w) handler \<Rightarrow> 'w disk list" where
  "handle_disks m c s q p f k h =
     (if classify (h_inbox h) c s q k \<noteq> NEW then [(h_last_state h, h_wal h)]
      else (case fst (f p (h_worker h)) of
              Inl _ \<Rightarrow> [(h_last_state h, h_wal h)]
            | Inr (ch, outs) \<Rightarrow>
                (case stamp c m outs (h_sequencer h) of
                   Inl _ \<Rightarrow> [(h_last_state h, h_wal h)]
                 | Inr es \<Rightarrow> append_disks (applied_record m c s q k ch es) h)))"

definition commit_done_disks ::
  "('s, 'w) worker_ops \<Rightarrow> pystr \<Rightarrow> int \<Rightarrow> int \<Rightarrow> int \<Rightarrow> msg_kind \<Rightarrow> ('s, 'w) handler \<Rightarrow> 'w disk list" where
  "commit_done_disks W m c s q k h =
     append_disks (done_record m c s q k) h
     @ (case wal_append (done_record m c s q k) (h_wal h) of
          (Inl _, _) \<Rightarrow> []
        | (Inr _, w') \<Rightarrow>
            if applied_since_snapshot h < snapshot_every h then []
            else snapshot_disks W (finish_input m c s q k w' h))"

definition same_memory :: "('s \<Rightarrow> 'v) \<Rightarrow> ('s, 'w) handler \<Rightarrow> ('s, 'w) handler \<Rightarrow> bool" where
  "same_memory kept h h' \<longleftrightarrow> kept (h_worker h) = kept (h_worker h') \<and> h_inbox h = h_inbox h' \<and> h_outbox h = h_outbox h' \<and>
     h_sequencer h = h_sequencer h'"

lemma same_memory_rebase [simp]:
  "same_memory kept (rebase ls w n h) h' = same_memory kept h h'"
  "kept t = kept (h_worker h) \<Longrightarrow> same_memory kept (h\<lparr>h_worker := t\<rparr>) h" "same_memory kept h h"
  by (simp_all add: same_memory_def)

lemma restore_snapshot_frame: "h_wal (snd (restore_snapshot W s h)) = h_wal h"
  by (auto simp: restore_snapshot_def handler_act_defs split: prod.splits sum.splits)

lemma recover_load:
  assumes "load ls' = load (h_last_state h)" and "recover W h = (Inr u, h')"
  shows "recover W (rebase ls' (h_wal h) (applied_since_snapshot h) h)
    = (Inr u, rebase ls' (h_wal h') (applied_since_snapshot h') h')"
proof -
  let ?m = "case load (h_last_state h) of None \<Rightarrow> areturn REPLAY_ALL | Some s \<Rightarrow> restore_snapshot W s"
  obtain n h0 where h0: "?m h = (Inr n, h0)"
    using assms(2) by (auto simp: recover_def act_defs split: prod.splits sum.splits)
  have w: "h_wal h0 = h_wal h"
    using h0 restore_snapshot_frame [of W _ h] by (auto simp: areturn_def split: option.splits) (metis snd_conv)
  have m: "?m (rebase ls' x y h) = (Inr n, rebase ls' x y h0)" for x y
    using h0 by (cases "load (h_last_state h)") (auto simp: restore_snapshot_disk areturn_def)
  obtain rs e where rs: "wal_replay n (h_wal h) = (rs, e)" by (cases "wal_replay n (h_wal h)")
  obtain k h2 where k: "replay_loop W 0 rs e h0 = (Inr k, h2)" and h': "h' = h2\<lparr>applied_since_snapshot := k\<rparr>"
    using assms(2) h0 w rs by (auto simp: recover_def act_defs split: prod.splits sum.splits)
  have "h_wal h2 = h_wal h" using replay_loop_frame [OF k] w by simp
  then show ?thesis
    using assms h0 m w rs k h'
    by (simp add: recover_def act_defs replay_loop_disk)
qed

lemma restart_load:
  assumes "load ls' = load ls" and "restart W node ws every es ls w = Inr h"
  shows "restart W node ws every es ls' w = Inr (rebase ls' (h_wal h) (applied_since_snapshot h) h)"
proof -
  from assms(2) obtain h0 where h0: "new_handler node ws every es ls w = Inr h0"
    by (auto simp: restart_def)
  with assms(2) obtain u where u: "recover W h0 = (Inr u, h)"
    by (cases "recover W h0"; cases "fst (recover W h0)") (auto simp: restart_def)
  from h0 have "new_handler node ws every es ls' w = Inr (rebase ls' (h_wal h0) (applied_since_snapshot h0) h0)"
    and "h_last_state h0 = ls"
    by (auto simp: new_handler_def rebase_def)
  with recover_load [OF _ u, of ls'] assms(1) show ?thesis by (simp add: restart_def)
qed

lemma open_wal_current [simp]: "wal_current (open_wal w) \<noteq> None"
  by (simp add: open_wal_def)

context durable_worker
begin

text \<open>
  A crash while a record is being appended leaves the old log, or the log with the record. A torn
  record is not seen by the restart that follows the crash.
\<close>

lemma crash_torn:
  assumes d: "durable W ws kept is_msg good h" and enc: "encode_record r = Inr data" and pre: "strict_prefix pre data"
  shows "\<exists>t. restarts W ws h (h_last_state h) ((h_wal h)\<lparr>wal_current := Some (wal_file (h_wal h) @ pre)\<rparr>)
      = Inr (rebase (h_last_state h) ((h_wal h)\<lparr>wal_current := Some (wal_file (h_wal h) @ pre)\<rparr>) (applied_since_snapshot h)
          (h\<lparr>h_worker := t\<rparr>)) \<and> kept t = kept (h_worker h)"
proof -
  let ?w = "(h_wal h)\<lparr>wal_current := Some (wal_file (h_wal h) @ pre)\<rparr>"
  obtain L t where r: "restarts W ws h (h_last_state h) (h_wal h) = Inr (h\<lparr>h_worker := t\<rparr>)"
    and t: "kept t = kept (h_worker h)" and so: "snap_ok (h_last_state h)" and L: "disk_log (h_wal h) L []"
    using d by (rule durableD)
  have "disk_log ?w L pre"
    using encode_record_prefix [OF enc] pre L by (auto simp: disk_log_def wal_file_def [of ?w] strict_prefix_def)
  moreover have "open_wal ?w = ?w" by (simp add: open_wal_def)
  ultimately show ?thesis
    using restart_same_log [OF r [unfolded restarts_def] L _ so, of ?w pre] t by (auto simp: restarts_def)
qed

lemma crash_append:
  assumes d: "durable W ws kept is_msg good h" and dk: "(ls, w) \<in> set (append_disks r h)"
  shows "(\<exists>t. restarts W ws h ls w = Inr (rebase ls w (applied_since_snapshot h) (h\<lparr>h_worker := t\<rparr>)) \<and>
      kept t = kept (h_worker h)) \<or> (\<exists>pos. wal_append r (h_wal h) = (Inr pos, w) \<and> ls = h_last_state h)"
proof (cases "encode_record r")
  case (Inl e)
  with dk have "ls = h_last_state h" "w = h_wal h" by (auto simp: append_disks_def)
  with d show ?thesis by (auto simp: durable_def rebase_def)
next
  case (Inr data)
  with dk obtain pre where pre: "prefix pre data" and ls: "ls = h_last_state h"
    and w: "w = (h_wal h)\<lparr>wal_current := Some (wal_file (h_wal h) @ pre)\<rparr>"
    by (auto simp: append_disks_def)
  show ?thesis
  proof (cases "pre = data")
    case True
    with Inr w ls show ?thesis by (simp add: wal_append_def)
  next
    case False
    with crash_torn [OF d Inr, of pre] pre w ls show ?thesis by (auto simp: strict_prefix_def)
  qed
qed

lemma crash_snapshot:
  assumes d: "durable W ws kept is_msg good h" and dk: "(ls, w) \<in> set (snapshot_disks W h)"
  shows "\<exists>n t. restarts W ws h ls w = Inr (rebase ls (open_wal w) n (h\<lparr>h_worker := t\<rparr>)) \<and> kept t = kept (h_worker h)"
proof -
  obtain L t where r: "restarts W ws h (h_last_state h) (h_wal h) = Inr (h\<lparr>h_worker := t\<rparr>)"
    and t: "kept t = kept (h_worker h)" and mem: "memory_ok is_msg good h"
    and so: "snap_ok (h_last_state h)" "ls_current (h_last_state h) \<noteq> Unreadable"
    and o: "open_wal (h_wal h) = h_wal h" and L: "disk_log (h_wal h) L []" "list_all (in_memory h) L"
    using d by (rule durableD)
  have same: "h\<lparr>h_worker := h_worker h\<rparr> = h" by simp
  from dk consider (before) "w = h_wal h" "ls \<in> set (commit_points (make_snapshot W h) (h_last_state h))"
    | (rotating) "ls = commit (make_snapshot W h) (h_last_state h)" "wal_file w = []"
    by (auto simp: snapshot_disks_def Let_def wal_file_def [of "\<lparr>wal_current = None, wal_previous = _\<rparr>"])
  then show ?thesis
  proof cases
    case rotating
    then show ?thesis
      using restart_made [OF mem, of ls w "[]" "[]"]
      by (auto simp: disk_log_empty intro!: exI [of _ "0 :: int"] exI [of _ "h_worker h"])
  next
    case before
    show ?thesis
    proof (cases "load ls = Some (make_snapshot W h)")
      case True
      with restart_made [OF mem True L(1) L(2)] before same show ?thesis by metis
    next
      case False
      with load_commit_points [OF so(2) before(2)] have ld: "load ls = load (h_last_state h)" by simp
      from restart_load [OF ld r [unfolded restarts_def]] o before(1) t show ?thesis
        by (auto simp: restarts_def)
    qed
  qed
qed

lemma durable_restarts:
  "durable W ws kept is_msg good h \<Longrightarrow>
   \<exists>t. restarts W ws h (h_last_state h) (h_wal h) = Inr (h\<lparr>h_worker := t\<rparr>) \<and> kept t = kept (h_worker h)"
  by (simp add: durable_def)

lemma crash_handle:
  assumes d: "durable W ws kept is_msg good h" and m: "is_msg m (c, s, q, k)" and b: "business_upto W kept f p (h_worker h)"
    and hd: "handle W m c s q p f k h = (Inr i, h')" and dk: "(ls, w) \<in> set (handle_disks m c s q p f k h)"
  shows "\<exists>hr. restarts W ws h ls w = Inr hr \<and> (same_memory kept hr h \<or> same_memory kept hr h')"
proof (cases "classify (h_inbox h) c s q k = NEW")
  case False
  with dk durable_restarts [OF d] show ?thesis by (auto simp: handle_disks_def)
next
  case True
  with hd obtain u where a: "apply_new W m c s q p f k h = (Inr u, h')"
    by (auto simp: handle_def act_defs split: prod.splits sum.splits)
  then obtain ch outs s1 es pos w' sq' s' where
    f: "f p (h_worker h) = (Inr (ch, outs), s1)" "stamp c m outs (h_sequencer h) = Inr es"
    "wal_append (applied_record m c s q k ch es) (h_wal h) = (Inr pos, w')" and
    h': "h' = h\<lparr>h_wal := w', h_sequencer := sq', h_worker := s', h_inbox := mark_applied c s q k (h_inbox h),
           h_outbox := outbox_add c m es (h_outbox h), applied_since_snapshot := applied_since_snapshot h + 1\<rparr>"
    by (rule apply_newE)
  from dk True f have "(ls, w) \<in> set (append_disks (applied_record m c s q k ch es) h)"
    by (simp add: handle_disks_def)
  from crash_append [OF d this] show ?thesis
  proof
    assume "\<exists>pos. wal_append (applied_record m c s q k ch es) (h_wal h) = (Inr pos, w) \<and> ls = h_last_state h"
    then have "w = h_wal h'" "ls = h_last_state h'" "restarts W ws h' = restarts W ws h"
      using f(3) h' by (auto simp: restarts_def fun_eq_iff)
    with durable_restarts [OF durable_apply_new [OF d True m b a]] show ?thesis by auto
  qed auto
qed

lemma crash_commit_done:
  assumes d: "durable W ws kept is_msg good h" and m: "is_msg m (c, s, q, k)"
    and cd: "commit_done W m c s q k h = (Inr i, h')" and dk: "(ls, w) \<in> set (commit_done_disks W m c s q k h)"
  shows "\<exists>hr. restarts W ws h ls w = Inr hr \<and> (same_memory kept hr h \<or> same_memory kept hr h')"
proof -
  obtain pos w' where w': "wal_append (done_record m c s q k) (h_wal h) = (Inr pos, w')"
    and h': "h' = (if applied_since_snapshot h < snapshot_every h then finish_input m c s q k w' h
       else snapshotted W (finish_input m c s q k w' h))"
    using cd by (rule commit_cases)
  let ?h1 = "finish_input m c s q k w' h"
  have d1: "durable W ws kept is_msg good ?h1" using d m w' by (rule durable_finish)
  have h1: "same_memory kept hr ?h1 \<Longrightarrow> same_memory kept hr h'" for hr
    by (auto simp: h' snapshotted_def same_memory_def)
  have cfg: "restarts W ws ?h1 = restarts W ws h" by (simp add: restarts_def finish_input_def fun_eq_iff)
  from dk w' consider "(ls, w) \<in> set (append_disks (done_record m c s q k) h)"
    | "(ls, w) \<in> set (snapshot_disks W ?h1)"
    by (auto simp: commit_done_disks_def split: if_splits)
  then show ?thesis
  proof cases
    case 1
    from crash_append [OF d 1] show ?thesis
    proof
      assume "\<exists>pos. wal_append (done_record m c s q k) (h_wal h) = (Inr pos, w) \<and> ls = h_last_state h"
      then have "w = h_wal ?h1" "ls = h_last_state ?h1" using w' by (auto simp: finish_input_def)
      with durable_restarts [OF d1] h1 cfg show ?thesis by (metis same_memory_rebase(2))
    qed auto
  next
    case 2
    from crash_snapshot [OF d1 2] h1 cfg show ?thesis by (metis same_memory_rebase(1,2))
  qed
qed

lemma durable_crash_snapshot:
  assumes d: "durable W ws kept is_msg good h" and dk: "(ls, w) \<in> set (snapshot_disks W h)"
    and r: "restarts W ws h ls w = Inr hr" and upto: "\<And>s t. kept t = kept s \<Longrightarrow> good s \<Longrightarrow> good t"
  shows "durable W ws kept is_msg good hr"
proof -
  obtain L where mem: "memory_ok is_msg good h"
    and so: "snap_ok (h_last_state h)" "ls_current (h_last_state h) \<noteq> Unreadable"
    and L: "disk_log (h_wal h) L []" "list_all (in_memory h) L"
    using d by (rule durableD)
  obtain n t where hr: "hr = rebase ls (open_wal w) n (h\<lparr>h_worker := t\<rparr>)" and t: "kept t = kept (h_worker h)"
    using crash_snapshot [OF d dk] r by auto
  have "load ls = load (h_last_state h) \<or> load ls = Some (make_snapshot W h)"
    using dk load_commit_points [OF so(2)] by (auto simp: snapshot_disks_def Let_def)
  then have sm: "snap_ok ls" using so(1) by (auto simp: snap_ok_def make_snapshot_def)
  have cur: "ls_current ls \<noteq> Unreadable"
    using dk current_commit_points [OF so(2)] by (auto simp: snapshot_disks_def Let_def)
  have "w = h_wal h \<or> wal_file w = []"
    using dk by (auto simp: snapshot_disks_def Let_def wal_file_def [of "\<lparr>wal_current = None, wal_previous = _\<rparr>"])
  then have "\<exists>L. disk_log w L [] \<and> list_all (in_memory hr) L"
    using L hr by (auto simp: in_memory_def list_all_iff intro: disk_log_empty)
  moreover have "restarts W ws hr ls (open_wal w) = Inr hr"
    using r hr by (simp add: restarts_def restart_def new_handler_def open_wal_def)
  moreover have "good t" using upto [OF t] mem by (simp add: memory_ok_def)
  ultimately show ?thesis
    using mem sm cur hr by (auto simp: durable_def disk_ok_def memory_ok_def intro!: exI [of _ t])
qed

end

subsection \<open>Lives of a handler\<close>

text \<open>
  The life of a handler: a first start on an empty directory, messages handled and committed by calls
  that return, changes of the worker's state that are not logged, forced snapshots, restarts, restarts
  after a crash inside a snapshot or a rotation, and restarts after a crash inside an append. The
  business functions are those that satisfy \<open>fns\<close>, the changes that are not logged those of the
  relation \<open>unlogged\<close>. The flag says that no record of the current log segment is torn. A crash inside an
  append clears it and the rotation of the next snapshot sets it again; a life does not go on past a
  second restart on a segment with a torn record, where the records behind the torn one are lost.
\<close>

inductive lifetime ::
  "('s, 'w) worker_ops \<Rightarrow> 's \<Rightarrow> ((bytes \<Rightarrow> ('s, json \<times> logical_output list) act) \<Rightarrow> bool) \<Rightarrow> ('s \<Rightarrow> 's \<Rightarrow> bool) \<Rightarrow>
   (pystr \<Rightarrow> input_key \<Rightarrow> bool) \<Rightarrow> pystr \<Rightarrow> int \<Rightarrow> (pystr \<times> edge_spec) list \<Rightarrow> bool \<Rightarrow> ('s, 'w) handler \<Rightarrow> bool"
  for W ws fns unlogged is_msg node every es where
  first_start: "restart W node ws every es new_last_state \<lparr>wal_current = None, wal_previous = None\<rparr> = Inr h
    \<Longrightarrow> lifetime W ws fns unlogged is_msg node every es True h"
| handled: "lifetime W ws fns unlogged is_msg node every es whole h \<Longrightarrow> is_msg m (c, s, q, k) \<Longrightarrow> fns f
    \<Longrightarrow> handle W m c s q p f k h = (Inr i, h') \<Longrightarrow> lifetime W ws fns unlogged is_msg node every es whole h'"
| committed: "lifetime W ws fns unlogged is_msg node every es whole h \<Longrightarrow> is_msg m (c, s, q, k)
    \<Longrightarrow> commit_done W m c s q k h = (Inr i, h')
    \<Longrightarrow> lifetime W ws fns unlogged is_msg node every es (whole \<or> snapshot_every h \<le> applied_since_snapshot h) h'"
| not_logged: "lifetime W ws fns unlogged is_msg node every es whole h \<Longrightarrow> unlogged (h_worker h) s'
    \<Longrightarrow> lifetime W ws fns unlogged is_msg node every es whole (h\<lparr>h_worker := s'\<rparr>)"
| forced_snapshot: "lifetime W ws fns unlogged is_msg node every es whole h \<Longrightarrow> snapshot_now W h = (Inr u, h')
    \<Longrightarrow> lifetime W ws fns unlogged is_msg node every es True h'"
| restarted: "lifetime W ws fns unlogged is_msg node every es True h
    \<Longrightarrow> restarts W ws h (h_last_state h) (h_wal h) = Inr hr
    \<Longrightarrow> lifetime W ws fns unlogged is_msg node every es True hr"
| crashed_in_snapshot: "lifetime W ws fns unlogged is_msg node every es True h \<Longrightarrow> (ls, w) \<in> set (snapshot_disks W h)
    \<Longrightarrow> restarts W ws h ls w = Inr hr \<Longrightarrow> lifetime W ws fns unlogged is_msg node every es True hr"
| crashed_in_commit: "lifetime W ws fns unlogged is_msg node every es True h \<Longrightarrow> is_msg m (c, s, q, k)
    \<Longrightarrow> wal_append (done_record m c s q k) (h_wal h) = (Inr pos, w')
    \<Longrightarrow> (ls, w) \<in> set (snapshot_disks W (finish_input m c s q k w' h))
    \<Longrightarrow> restarts W ws h ls w = Inr hr \<Longrightarrow> lifetime W ws fns unlogged is_msg node every es True hr"
| crashed_in_append: "lifetime W ws fns unlogged is_msg node every es True h
    \<Longrightarrow> encode_record r = Inr data \<Longrightarrow> strict_prefix torn data
    \<Longrightarrow> restarts W ws h (h_last_state h) ((h_wal h)\<lparr>wal_current := Some (wal_file (h_wal h) @ torn)\<rparr>) = Inr hr
    \<Longrightarrow> lifetime W ws fns unlogged is_msg node every es False hr"

lemma load_new [simp]: "load new_last_state = None" "ls_current new_last_state = Absent"
  by (simp_all add: load_def new_last_state_def)

definition edges_ok :: "(pystr \<times> edge_spec) list \<Rightarrow> bool" where
  "edges_ok es \<longleftrightarrow> list_all (\<lambda>(dest, _). 58 \<notin> set dest) es"

text \<open>What a worker promises so that its handler recovers: the contract of a life.\<close>

locale durable_life = durable_worker is_msg W ws good
  for is_msg :: "pystr \<Rightarrow> input_key \<Rightarrow> bool" and W :: "('s, 'w) worker_ops" and ws :: 's
    and good :: "'s \<Rightarrow> bool" +
  fixes kept :: "'s \<Rightarrow> 'v"
    and fns :: "(bytes \<Rightarrow> ('s, json \<times> logical_output list) act) \<Rightarrow> bool"
    and unlogged :: "'s \<Rightarrow> 's \<Rightarrow> bool"
  assumes good_upto: "kept t = kept s \<Longrightarrow> good s \<Longrightarrow> good t"
    and fns_upto: "fns f \<Longrightarrow> business_upto W kept f p s"
    and unlogged_upto: "unlogged s s' \<Longrightarrow> kept s' = kept s"
begin

lemma fns_ok: "fns f \<Longrightarrow> business_ok W f p s"
  using fns_upto by (simp add: business_upto_def)

lemma memory_upto: "kept t = kept (h_worker h) \<Longrightarrow> memory_ok is_msg good h \<Longrightarrow> memory_ok is_msg good (h\<lparr>h_worker := t\<rparr>)"
  using good_upto by (simp add: memory_ok_def)

lemma durable_upto:
  assumes "durable W ws kept is_msg good h" and "kept t = kept (h_worker h)"
  shows "durable W ws kept is_msg good (h\<lparr>h_worker := t\<rparr>)"
  using assms memory_upto [of t h]
  by (auto simp: durable_def restarts_def disk_ok_def in_memory_upto)

lemma durable_first:
  assumes "edges_ok es" and "restart W node ws every es new_last_state \<lparr>wal_current = None, wal_previous = None\<rparr> = Inr h"
  shows "durable W ws kept is_msg good h"
proof -
  let ?e = "\<lparr>wal_current = None, wal_previous = None\<rparr>"
  have nil: "disk_log ?e [] []" by (simp add: disk_log_empty wal_file_def)
  have node: "58 \<notin> set node" using assms(2) by (auto simp: restart_def new_handler_def new_sequencer_def)
  have h: "h = \<lparr>h_node_id = node, snapshot_every = every, output_edges = es, h_worker = ws,
          h_last_state = new_last_state, h_wal = open_wal ?e, h_inbox = new_inbox, h_outbox = [],
          h_sequencer = \<lparr>node_id = node, edges = es, next_seq = [], next_addr_seq = []\<rparr>,
          applied_since_snapshot = 0\<rparr>"
    using assms(2) disk_log_replay [of "open_wal ?e" "[]" "[]"] nil
    by (auto simp: restart_def new_handler_def new_sequencer_def recover_def act_defs REPLAY_ALL_def)
  have "restarts W ws h new_last_state (open_wal ?e) = Inr h"
    using assms(2) h by (simp add: restarts_def restart_def new_handler_def open_wal_def)
  moreover have "memory_ok is_msg good h"
    using node assms(1) good_init
    by (auto simp: h memory_ok_def pending_applied_def sequencer_wf_def sequencer_ok_def edges_ok_def list_all_iff)
  moreover have "disk_ok h"
    using nil by (auto simp: h disk_ok_def snap_ok_def list_all_iff
        intro!: exI [of _ "[]"])
  ultimately show ?thesis by (simp add: durable_def h)
qed

lemma durable_crashed:
  assumes "durable W ws kept is_msg good h" and "(ls, w) \<in> set (snapshot_disks W h)" and "restarts W ws h ls w = Inr hr"
  shows "durable W ws kept is_msg good hr"
  using assms by (rule durable_crash_snapshot) (rule good_upto)

text \<open>Where no record is torn the files carry the memory; in any case the memory keeps its invariant.\<close>

lemma lifetime_invariant:
  assumes "lifetime W ws fns unlogged is_msg node every es whole h" and "edges_ok es"
  shows "memory_ok is_msg good h \<and> (whole \<longrightarrow> durable W ws kept is_msg good h)"
  using assms(1)
proof (induction rule: lifetime.induct)
  case (first_start h)
  with assms(2) show ?case by (blast intro: durable_first durable_memory)
next
  case (handled whole h m c s q k f p i h')
  then show ?case by (blast intro: durable_handle memory_handle fns_upto fns_ok)
next
  case (committed whole h m c s q k i h')
  with memory_commit_done [of h m c s q k i h' kept] durable_commit_done [of kept h m c s q k i h'] show ?case by simp
next
  case (not_logged whole h s')
  then show ?case by (blast intro: durable_upto memory_upto unlogged_upto)
next
  case (forced_snapshot whole h u h')
  with durable_snapshotted [of h kept] show ?case by (auto simp: snapshot_now_eq intro: durable_memory)
next
  case (restarted h hr)
  with durable_restarts [of kept h] durable_upto [of h] show ?case by (auto intro: durable_memory)
next
  case (crashed_in_snapshot h ls w hr)
  then have "durable W ws kept is_msg good hr" using durable_crashed [of h ls w hr] by simp
  then show ?case using durable_memory by simp
next
  case (crashed_in_commit h m c s q k pos w' ls w hr)
  then have "durable W ws kept is_msg good (finish_input m c s q k w' h)" by (blast intro: durable_finish)
  moreover have "restarts W ws (finish_input m c s q k w' h) ls w = Inr hr"
    using crashed_in_commit.hyps by (simp add: restarts_def finish_input_def)
  ultimately have "durable W ws kept is_msg good hr"
    using durable_crashed [OF _ crashed_in_commit.hyps(4)] by simp
  then show ?case using durable_memory by simp
next
  case (crashed_in_append h r data torn hr)
  then obtain t where "hr = rebase (h_last_state h) ((h_wal h)\<lparr>wal_current := Some (wal_file (h_wal h) @ torn)\<rparr>)
      (applied_since_snapshot h) (h\<lparr>h_worker := t\<rparr>)" "kept t = kept (h_worker h)"
    using crash_torn [of kept h r data torn] by auto
  with memory_upto [of t h] crashed_in_append.IH show ?case by (simp add: memory_ok_def)
qed

lemma lifetime_durable:
  "lifetime W ws fns unlogged is_msg node every es True h \<Longrightarrow> edges_ok es \<Longrightarrow> durable W ws kept is_msg good h"
  using lifetime_invariant by blast

end

subsection \<open>Records that fit their fields are written\<close>

lemma wal_append_ok: "encode_record r = Inr d \<Longrightarrow>
   wal_append r w = (Inr (length (wal_file w)), w\<lparr>wal_current := Some (wal_file w @ d)\<rparr>)"
  by (simp add: wal_append_def)

definition field_u32 :: "int \<Rightarrow> bool" where "field_u32 n \<longleftrightarrow> 0 \<le> n \<and> n < 2 ^ 32"

lemma encode_done_ok:
  assumes "ascii m" "length m < 2 ^ 16" "field_u32 c" "field_u32 s" "field_u32 q"
  shows "\<exists>d. encode_record (done_record m c s q k) = Inr d"
proof -
  have "\<exists>p. input_done_payload \<lparr>id_msg_id = m, id_client_id = c, id_sender_id = s, id_seq = q, id_kind = k\<rparr> = Inr p
      \<and> length p \<le> 2 ^ 16 + 15"
    using assms kind_value_range [of k]
    by (simp add: input_done_payload_def utf8_encode_ascii ensure_u16_len_def MAX_UINT16_def field_u32_def pack_uint_def)
  then show ?thesis
    by (auto simp: encode_record_def done_record_def frame_record_def ensure_u32_len_def MAX_UINT32_def)
qed

lemma encode_applied_ok:
  assumes "ascii m" "length m < 2 ^ 16" "field_u32 c" "field_u32 s" "field_u32 q" "length (dumps ch) < 2 ^ 31"
  shows "\<exists>d. encode_record (applied_record m c s q k ch []) = Inr d"
proof -
  have "\<exists>p. input_applied_payload \<lparr>ia_msg_id = m, ia_client_id = c, ia_sender_id = s, ia_seq = q, ia_state_change = ch,
      ia_outputs = [], ia_kind = k\<rparr> = Inr p \<and> length p \<le> 2 ^ 31 + 2 ^ 16 + 25"
    using assms kind_value_range [of k]
    by (simp add: input_applied_payload_def utf8_encode_ascii ensure_u16_len_def ensure_u32_len_def MAX_UINT16_def
        MAX_UINT32_def field_u32_def pack_uint_def del: dumps.simps)
  then show ?thesis
    by (auto simp: encode_record_def applied_record_def frame_record_def ensure_u32_len_def MAX_UINT32_def)
qed


end
