(* ===== verification/Runner.thy ===== *)
theory Runner
  imports Durability
begin

text \<open>
  \<open>WorkerRunner\<close> of \<open>common/fault_tolerance/handler/worker_runner.py\<close>: the consume loop around
  the durable-state handler. The broker is a parameter: \<open>send\<close> gives the exception of a
  publish that is not confirmed. What was confirmed is kept in order, and each delivery ends
  acknowledged or rejected.
\<close>

subsection \<open>Operations\<close>

record ('s, 'w) runner =
  r_handler :: "('s, 'w) handler"
  published :: "outbox_entry list"

datatype delivery =
    Acked
  | Nacked bool \<comment> \<open>with \<open>requeue\<close>\<close>
  | Raised py_error \<comment> \<open>the exception leaves the callback\<close>

definition on_handler :: "(('s, 'w) handler, 'a) act \<Rightarrow> (('s, 'w) runner, 'a) act" where
  "on_handler = azoom r_handler (\<lambda>h. r_handler_update (\<lambda>_. h))"

definition publish_entry ::
  "pystr list \<Rightarrow> (outbox_entry \<Rightarrow> py_error option) \<Rightarrow> outbox_entry \<Rightarrow> (('s, 'w) runner, unit) act" where
  "publish_entry publishers send entry =
     (if destination entry \<notin> set publishers then araise KeyError
      else (case send entry of
              Some e \<Rightarrow> araise e
            | None \<Rightarrow> amodify (\<lambda>r. r\<lparr>published := published r @ [entry]\<rparr>)))"

definition publish ::
  "pystr list \<Rightarrow> (outbox_entry \<Rightarrow> py_error option) \<Rightarrow> outbox_entry list \<Rightarrow> (('s, 'w) runner, unit) act" where
  "publish publishers send = afor (publish_entry publishers send)"

definition recover_and_republish ::
  "('s, 'w) worker_ops \<Rightarrow> pystr list \<Rightarrow> (outbox_entry \<Rightarrow> py_error option) \<Rightarrow> (('s, 'w) runner, unit) act" where
  "recover_and_republish W publishers send =
     abind (on_handler (recover W)) (\<lambda>_.
     abind (aget (\<lambda>r. outbox_to_republish (r_handler r))) (publish publishers send))"

definition run_message ::
  "('s, 'w) worker_ops \<Rightarrow> pystr list \<Rightarrow> (outbox_entry \<Rightarrow> py_error option) \<Rightarrow> pystr \<Rightarrow> int \<Rightarrow> int \<Rightarrow> int \<Rightarrow> bytes \<Rightarrow>
   (bytes \<Rightarrow> ('s, json \<times> logical_output list) act) \<Rightarrow> msg_kind \<Rightarrow> (('s, 'w) runner, unit) act" where
  "run_message W publishers send msg_id client_id sender_id seq payload business_fn kind =
     abind (on_handler (handle W msg_id client_id sender_id seq payload business_fn kind)) (\<lambda>instr.
     (case instr of
        Ack \<Rightarrow> areturn ()
      | PublishThenCommit outputs (m, c, s, q, k) \<Rightarrow>
          abind (publish publishers send outputs) (\<lambda>_.
          abind (on_handler (commit_done W m c s q k)) (\<lambda>_. areturn ()))))"

text \<open>The \<open>try\<close> around it: \<open>ack()\<close> at the end, or \<open>nack(requeue=True)\<close> on any exception.\<close>

definition attempt :: "(('s, 'w) runner, unit) act \<Rightarrow> ('s, 'w) runner \<Rightarrow> delivery \<times> ('s, 'w) runner" where
  "attempt m r = (case m r of (Inl _, r') \<Rightarrow> (Nacked True, r') | (Inr _, r') \<Rightarrow> (Acked, r'))"

definition data_msg_id :: "int \<Rightarrow> int \<Rightarrow> pystr" where
  "data_msg_id sender_id seq = int_str sender_id @ [58] @ int_str seq"

definition abort_msg_id :: "int \<Rightarrow> int \<Rightarrow> int \<Rightarrow> pystr" where
  "abort_msg_id sender_id client_id seq =
     lit ''abort:'' @ int_str sender_id @ [58] @ int_str client_id @ [58] @ int_str seq"

definition handle_abort ::
  "('s, 'w) worker_ops \<Rightarrow> pystr list \<Rightarrow> (outbox_entry \<Rightarrow> py_error option) \<Rightarrow>
   (int \<Rightarrow> ('s, json \<times> logical_output list) act) option \<Rightarrow> int \<Rightarrow> int \<Rightarrow> int \<Rightarrow>
   ('s, 'w) runner \<Rightarrow> delivery \<times> ('s, 'w) runner" where
  "handle_abort W publishers send abort_fn client_id sender_id seq r =
     (case abort_fn of
        None \<Rightarrow> (Nacked False, r)
      | Some f \<Rightarrow>
          attempt (run_message W publishers send (abort_msg_id sender_id client_id seq) client_id
            sender_id seq [] (\<lambda>_. f client_id) ABORT) r)"

definition process ::
  "('s, 'w) worker_ops \<Rightarrow> pystr list \<Rightarrow> (outbox_entry \<Rightarrow> py_error option) \<Rightarrow>
   (int \<Rightarrow> bytes \<Rightarrow> ('s, json \<times> logical_output list) act) \<Rightarrow>
   (int \<Rightarrow> ('s, json \<times> logical_output list) act) option \<Rightarrow> bytes \<Rightarrow>
   ('s, 'w) runner \<Rightarrow> delivery \<times> ('s, 'w) runner" where
  "process W publishers send process_payload abort_fn packet r =
     (case unpack_addressed_packet packet of
        Inl _ \<Rightarrow> (Nacked True, r)
      | Inr (msg_type, client_id, sender_id, seq, payload) \<Rightarrow>
          if msg_type = message_type_value MT_ABORT
          then handle_abort W publishers send abort_fn client_id sender_id seq r
          else attempt (run_message W publishers send (data_msg_id sender_id seq) client_id sender_id
                 seq payload (process_payload client_id) DATA) r)"

subsection \<open>Message ids\<close>

fun runner_msg :: "pystr \<Rightarrow> input_key \<Rightarrow> bool" where
  "runner_msg m (c, s, q, k) \<longleftrightarrow>
     k = DATA \<and> m = data_msg_id s q \<or> k = ABORT \<and> m = abort_msg_id s c q"

lemma int_str_hd: "int_str i = c # s \<Longrightarrow> c = 45 \<or> is_digit c"
  using int_str_chars [of c i] by simp

interpretation runner_ids: message_ids runner_msg
proof
  show "x = y" if "runner_msg m (c, x)" "runner_msg m (c, y)" for m c x y
  proof -
    obtain s q k where x: "x = (s, q, k)" by (cases x)
    obtain s' q' k' where y: "y = (s', q', k')" by (cases y)
    have "data_msg_id s q \<noteq> abort_msg_id s' c' q'" for s q s' c' q'
    proof (cases "int_str s")
      case (Cons a list)
      then show ?thesis using int_str_hd [OF Cons]
        by (auto simp: data_msg_id_def abort_msg_id_def lit_def is_digit_def of_char_def)
    qed (auto simp: data_msg_id_def abort_msg_id_def lit_def)
    then have neq: "abort_msg_id s c q \<noteq> data_msg_id s' q'" "data_msg_id s q \<noteq> abort_msg_id s' c q'" by metis+
    show ?thesis
    proof (cases "k = DATA \<longleftrightarrow> k' = DATA")
      case True
      with that show ?thesis
        by (auto simp: x y data_msg_id_def abort_msg_id_def split_at_colon)
    next
      case False
      with that neq show ?thesis by (auto simp: x y)
    qed
  qed
  show "m = m'" if "runner_msg m z" "runner_msg m' z" for m m' z
    using that by (cases z) auto
qed

subsection \<open>Publishing\<close>

lemma publish_Cons:
  "publish ps send (e # es) r =
     (if destination e \<notin> set ps then (Inl KeyError, r)
      else (case send e of Some x \<Rightarrow> (Inl x, r)
            | None \<Rightarrow> publish ps send es (r\<lparr>published := published r @ [e]\<rparr>)))"
  by (simp add: publish_def publish_entry_def act_defs split: option.split)

lemma publish_Nil [simp]: "publish ps send [] r = (Inr (), r)"
  by (simp add: publish_def act_defs)

lemma publish_frame: "publish ps send es r = (x, r') \<Longrightarrow> r_handler r' = r_handler r"
proof (induction es arbitrary: r)
  case (Cons e es)
  then show ?case
    by (fastforce simp: publish_Cons split: if_splits option.splits)
qed simp

lemma publish_all:
  "publish ps send es r = (Inr u, r') \<Longrightarrow> r' = r\<lparr>published := published r @ es\<rparr>"
proof (induction es arbitrary: r)
  case (Cons e es)
  then show ?case
    by (fastforce simp: publish_Cons split: if_splits option.splits)
qed simp

lemma publish_prefix:
  "publish ps send es r = (x, r') \<Longrightarrow> \<exists>pre. prefix pre es \<and> published r' = published r @ pre"
proof (induction es arbitrary: r)
  case (Cons e es)
  show ?case
  proof (cases "destination e \<in> set ps \<and> send e = None")
    case True
    with Cons.prems have "publish ps send es (r\<lparr>published := published r @ [e]\<rparr>) = (x, r')"
      by (simp add: publish_Cons)
    from Cons.IH [OF this] obtain pre where "prefix pre es" "published r' = published r @ e # pre" by auto
    then show ?thesis by (intro exI [of _ "e # pre"]) simp
  next
    case False
    with Cons.prems show ?thesis
      by (auto simp: publish_Cons split: if_splits option.splits)
  qed
qed simp

subsection \<open>What a delivery does\<close>

lemma handle_classified:
  "handle W m c s q p f k h =
     (case classify (h_inbox h) c s q k of
        DONE \<Rightarrow> (Inr Ack, h)
      | APPLIED \<Rightarrow> (Inr (PublishThenCommit (entries_for_input c m (h_outbox h)) (m, c, s, q, k)), h)
      | NEW \<Rightarrow> (case apply_new W m c s q p f k h of
                 (Inl e, h') \<Rightarrow> (Inl e, h')
               | (Inr _, h') \<Rightarrow> (Inr (PublishThenCommit (entries_for_input c m (h_outbox h')) (m, c, s, q, k)), h')))"
  by (auto simp: handle_def act_defs split: inbox_status.splits prod.splits sum.splits)

lemma run_message_done:
  "classify (h_inbox (r_handler r)) c s q k = DONE \<Longrightarrow>
   run_message W ps send m c s q p f k r = (Inr (), r)"
  by (simp add: run_message_def on_handler_def act_defs handle_classified)

lemma commit_done_memory:
  assumes "commit_done W m c s q k h = (x, h')"
  shows "h_worker h' = h_worker h" and "x = Inr i \<Longrightarrow> h_inbox h' = mark_done c s q k (h_inbox h)"
  using assms
  by (auto simp: commit_done_eq Let_def snapshotted_def finish_input_def split: prod.splits sum.splits if_splits)

lemma run_message_applied:
  assumes "classify (h_inbox (r_handler r)) c s q k = APPLIED"
    and "run_message W ps send m c s q p f k r = (x, r')"
  shows "h_worker (r_handler r') = h_worker (r_handler r)"
    and "\<exists>pre. prefix pre (entries_for_input c m (h_outbox (r_handler r))) \<and> published r' = published r @ pre"
    and "x = Inr () \<Longrightarrow> published r' = published r @ entries_for_input c m (h_outbox (r_handler r))"
proof -
  let ?es = "entries_for_input c m (h_outbox (r_handler r))"
  obtain y r1 where pub: "publish ps send ?es r = (y, r1)" by (cases "publish ps send ?es r")
  have h1: "r_handler r1 = r_handler r" using pub by (rule publish_frame)
  have split: "(x, r') = (case y of Inl e \<Rightarrow> (Inl e, r1)
      | Inr _ \<Rightarrow> (case commit_done W m c s q k (r_handler r) of
           (Inl e, h') \<Rightarrow> (Inl e, r1\<lparr>r_handler := h'\<rparr>) | (Inr _, h') \<Rightarrow> (Inr (), r1\<lparr>r_handler := h'\<rparr>)))"
    using assms pub h1
    by (auto simp: run_message_def on_handler_def act_defs handle_classified split: prod.splits sum.splits)
  show "h_worker (r_handler r') = h_worker (r_handler r)"
    using split h1 commit_done_memory(1) by (auto split: sum.splits prod.splits)
  have "published r' = published r1" using split by (auto split: sum.splits prod.splits)
  then show "\<exists>pre. prefix pre ?es \<and> published r' = published r @ pre"
    using publish_prefix [OF pub] by simp
  show "published r' = published r @ ?es" if "x = Inr ()"
    using split that publish_all [of ps send ?es r _ r1] pub by (auto split: sum.splits prod.splits)
qed

lemma apply_new_inbox:
  "apply_new W m c s q p f k h = (Inr u, h') \<Longrightarrow> h_inbox h' = mark_applied c s q k (h_inbox h)"
  by (erule apply_newE) simp

lemma run_message_publish:
  assumes "handle W m c s q p f k (r_handler r) = (Inr (PublishThenCommit es (m, c, s, q, k)), h1)"
    and "publish ps send es (r\<lparr>r_handler := h1\<rparr>) = (x, r1)"
  shows "run_message W ps send m c s q p f k r =
    (case x of Inl e \<Rightarrow> (Inl e, r1)
     | Inr _ \<Rightarrow> (case commit_done W m c s q k (r_handler r1) of
         (Inl e, h') \<Rightarrow> (Inl e, r1\<lparr>r_handler := h'\<rparr>) | (Inr _, h') \<Rightarrow> (Inr (), r1\<lparr>r_handler := h'\<rparr>)))"
  using assms by (simp add: run_message_def on_handler_def act_defs split: prod.splits sum.splits)

lemma run_message_acked:
  assumes wf: "inbox_wf (h_inbox (r_handler r))" and run: "run_message W ps send m c s q p f k r = (Inr u, r')"
  shows "classify (h_inbox (r_handler r')) c s q k = DONE"
proof (cases "classify (h_inbox (r_handler r)) c s q k = DONE")
  case True
  with run show ?thesis by (simp add: run_message_done)
next
  case False
  obtain es h1 where h1: "inbox_wf (h_inbox h1)"
    "handle W m c s q p f k (r_handler r) = (Inr (PublishThenCommit es (m, c, s, q, k)), h1)"
  proof (cases "classify (h_inbox (r_handler r)) c s q k")
    case NEW
    show ?thesis
    proof (cases "apply_new W m c s q p f k (r_handler r)")
      case (Pair x h1)
      with run NEW obtain v where "x = Inr v"
        by (cases x) (auto simp: run_message_def on_handler_def act_defs handle_classified)
      with Pair NEW wf that [of h1] show ?thesis by (auto simp: handle_classified dest!: apply_new_inbox)
    qed
  qed (use wf False that in \<open>auto simp: handle_classified\<close>)
  obtain x r1 where pub: "publish ps send es (r\<lparr>r_handler := h1\<rparr>) = (x, r1)" by fastforce
  with run_message_publish [OF h1(2) pub] run obtain v where x: "x = Inr v" by (cases x) auto
  have "r_handler r1 = h1" using publish_frame [OF pub] by simp
  then obtain i where "commit_done W m c s q k h1 = (Inr i, r_handler r')"
    using run_message_publish [OF h1(2) pub] run x by (auto split: prod.splits sum.splits)
  from commit_done_memory(2) [OF this] h1(1) show ?thesis by (simp add: classify_mark_done_self)
qed

subsection \<open>Properties\<close>

text \<open>
  C24: acknowledged means done. When \<open>process\<close> acknowledges a data packet, its input is marked
  done in the inbox, so that every later redelivery is acknowledged without touching the
  handler or publishing anything.
\<close>

theorem acked_is_done:
  assumes "inbox_wf (h_inbox (r_handler r))"
    and "unpack_addressed_packet packet = Inr (msg_type, c, s, q, payload)" and "msg_type \<noteq> message_type_value MT_ABORT"
    and "process W publishers send process_payload abort_fn packet r = (Acked, r')"
  shows "classify (h_inbox (r_handler r')) c s q DATA = DONE \<and>
    process W publishers send' process_payload abort_fn packet r' = (Acked, r')"
proof -
  have run: "attempt (run_message W publishers send (data_msg_id s q) c s q payload (process_payload c) DATA) r = (Acked, r')"
    using assms(2-4) by (simp add: process_def)
  then obtain u where "run_message W publishers send (data_msg_id s q) c s q payload (process_payload c) DATA r = (Inr u, r')"
    by (auto simp: attempt_def split: prod.splits sum.splits)
  from run_message_acked [OF assms(1) this] show ?thesis
    using assms(2,3) by (simp add: process_def attempt_def run_message_done)
qed

text \<open>A worker that counts its inputs, and its runner in three states of one input.\<close>

definition sample_ops :: "(int, int) worker_ops" where
  "sample_ops = \<lparr>apply_change = (\<lambda>_ n. (Inr (), n + 1)), worker_snapshot = (\<lambda>n. n),
     worker_restore = (\<lambda>w _. (Inr (), w))\<rparr>"

definition sample_fn :: "int \<Rightarrow> bytes \<Rightarrow> (int, json \<times> logical_output list) act" where
  "sample_fn c p = areturn (JObj [], [])"

definition sample_entry :: outbox_entry where
  "sample_entry = \<lparr>output_id = lit ''n:4:0#0'', input_id = data_msg_id 1 2, destination = lit ''out'', body = [1], shard = None\<rparr>"

definition sample_runner :: "inbox \<Rightarrow> outbox \<Rightarrow> (int, int) runner" where
  "sample_runner ib ob = \<lparr>r_handler = \<lparr>h_node_id = lit ''n'', snapshot_every = 10, output_edges = [], h_worker = 0,
      h_last_state = new_last_state, h_wal = \<lparr>wal_current = Some [], wal_previous = None\<rparr>, h_inbox = ib, h_outbox = ob,
      h_sequencer = \<lparr>node_id = lit ''n'', edges = [], next_seq = [], next_addr_seq = []\<rparr>,
      applied_since_snapshot = 0\<rparr>, published = []\<rparr>"

definition sample_data_packet :: bytes where
  "sample_data_packet = be_bytes 1 0 @ be_bytes 16 4 @ be_bytes 4 1 @ be_bytes 4 2 @ [9]"

lemma sample_unpack: "unpack_addressed_packet sample_data_packet = Inr (0, 4, 1, 2, [9])"
  by (simp add: unpack_addressed_packet_def sample_data_packet_def ADDRESSED_HEADER_SIZE_def be_nat_be_bytes be_nat_snoc [of "[]", simplified])

lemma data_msg_id_ascii: "ascii (data_msg_id s q)"
  by (simp add: data_msg_id_def)

lemma sample_applied_encodes: "\<exists>d. encode_record (applied_record (data_msg_id 1 2) 4 1 2 DATA (JObj []) []) = Inr d"
  using encode_applied_ok [of "data_msg_id 1 2" 4 1 2 "JObj []" DATA]
  by (simp add: data_msg_id_ascii data_msg_id_def field_u32_def int_str_def nat_str.simps)

lemma sample_done_record_encodes: "\<exists>d. encode_record (done_record (data_msg_id 1 2) 4 1 2 DATA) = Inr d"
  using encode_done_ok [of "data_msg_id 1 2" 4 1 2 DATA]
  by (simp add: data_msg_id_ascii data_msg_id_def field_u32_def int_str_def nat_str.simps)

lemma sample_process_new:
  "\<exists>r'. process sample_ops [] (\<lambda>_. None) sample_fn None sample_data_packet (sample_runner new_inbox []) = (Acked, r')"
proof -
  obtain d where d: "encode_record (applied_record (data_msg_id 1 2) 4 1 2 DATA (JObj []) []) = Inr d"
    using sample_applied_encodes by blast
  obtain e where e: "encode_record (done_record (data_msg_id 1 2) 4 1 2 DATA) = Inr e"
    using sample_done_record_encodes by blast
  have cl: "classify new_inbox 4 1 2 DATA = NEW" by (simp add: classify_def new_inbox_def)
  show ?thesis
    by (simp add: process_def sample_unpack attempt_def run_message_def on_handler_def handle_classified sample_runner_def
        cl apply_new_def handler_act_defs sample_fn_def stamp_def observe_outputs_def sample_ops_def
        wal_append_ok [OF d [unfolded applied_record_def]] commit_done_eq wal_append_ok [OF e] Let_def
        entries_for_input_def outbox_add_def publish_def dget_def)
qed

theorem acked_is_done_witness:
  "\<exists>r'. process sample_ops [] (\<lambda>_. None) sample_fn None sample_data_packet (sample_runner new_inbox []) = (Acked, r') \<and>
     classify (h_inbox (r_handler r')) 4 1 2 DATA = DONE"
proof -
  obtain r' where r': "process sample_ops [] (\<lambda>_. None) sample_fn None sample_data_packet (sample_runner new_inbox []) = (Acked, r')"
    using sample_process_new by blast
  from acked_is_done [OF _ sample_unpack _ r'] r' show ?thesis by (auto simp: sample_runner_def)
qed

text \<open>
  C25: a redelivery of an input that was applied but not committed (the publish failed, or the
  process died before the commit) does not run the business logic again: the worker's state
  stays as it is and only outputs stored in the outbox for that input are published, in their
  order, all of them when it is acknowledged.
\<close>

theorem redelivery_republishes:
  assumes "classify (h_inbox (r_handler r)) c s q DATA = APPLIED"
    and "unpack_addressed_packet packet = Inr (msg_type, c, s, q, payload)" and "msg_type \<noteq> message_type_value MT_ABORT"
    and "process W publishers send process_payload abort_fn packet r = (outcome, r')"
  shows "h_worker (r_handler r') = h_worker (r_handler r) \<and>
    (\<exists>pre. prefix pre (entries_for_input c (data_msg_id s q) (h_outbox (r_handler r))) \<and>
       published r' = published r @ pre) \<and>
    (outcome = Acked \<longrightarrow>
       published r' = published r @ entries_for_input c (data_msg_id s q) (h_outbox (r_handler r)))"
proof -
  obtain x where x: "run_message W publishers send (data_msg_id s q) c s q payload (process_payload c) DATA r = (x, r')"
    and o: "outcome = Acked \<longleftrightarrow> x = Inr ()"
    using assms(2-4) by (auto simp: process_def attempt_def split: prod.splits sum.splits)
  from run_message_applied [OF assms(1) x] o show ?thesis by blast
qed


theorem redelivery_republishes_witness:
  "\<exists>outcome r'. process sample_ops [lit ''out''] (\<lambda>_. None) sample_fn None sample_data_packet
       (sample_runner (mark_applied 4 1 2 DATA new_inbox) (outbox_add 4 (data_msg_id 1 2) [sample_entry] [])) = (outcome, r') \<and>
     h_worker (r_handler r') = 0 \<and> (outcome = Acked \<longrightarrow> published r' = [sample_entry])"
proof -
  let ?r = "sample_runner (mark_applied 4 1 2 DATA new_inbox) (outbox_add 4 (data_msg_id 1 2) [sample_entry] [])"
  obtain outcome r' where r': "process sample_ops [lit ''out''] (\<lambda>_. None) sample_fn None sample_data_packet ?r = (outcome, r')"
    by fastforce
  have "classify (h_inbox (r_handler ?r)) 4 1 2 DATA = APPLIED"
    by (simp add: sample_runner_def classify_mark_applied)
  from redelivery_republishes [OF this sample_unpack _ r'] r' show ?thesis by (auto simp: sample_runner_def)
qed

end
