(* ===== verification/Base64.thy ===== *)
theory Base64
  imports Text
begin

text \<open>
  \<open>base64.b64encode\<close> and \<open>base64.b64decode\<close>, which carry raw payloads through the JSON state
  changes. The decoder is the non-strict one of CPython: characters outside the alphabet are
  skipped and a complete padding ends the input.
\<close>

definition b64_char :: "nat \<Rightarrow> nat" where
  "b64_char i = (if i < 26 then 65 + i else if i < 52 then 71 + i else if i < 62 then i - 4
     else if i = 62 then 43 else 47)"

definition b64_index :: "nat \<Rightarrow> nat option" where
  "b64_index c = (if 65 \<le> c \<and> c \<le> 90 then Some (c - 65) else if 97 \<le> c \<and> c \<le> 122 then Some (c - 71)
     else if 48 \<le> c \<and> c \<le> 57 then Some (c + 4) else if c = 43 then Some 62
     else if c = 47 then Some 63 else None)"

fun b64encode_nats :: "nat list \<Rightarrow> pystr" where
  "b64encode_nats [] = []"
| "b64encode_nats [a] = [b64_char (a div 4), b64_char (a mod 4 * 16), 61, 61]"
| "b64encode_nats [a, b] =
     [b64_char (a div 4), b64_char (a mod 4 * 16 + b div 16), b64_char (b mod 16 * 4), 61]"
| "b64encode_nats (a # b # c # rest) =
     [b64_char (a div 4), b64_char (a mod 4 * 16 + b div 16), b64_char (b mod 16 * 4 + c div 64),
      b64_char (c mod 64)] @ b64encode_nats rest"

definition b64encode :: "bytes \<Rightarrow> pystr" where
  "b64encode data = b64encode_nats (map unat data)"

text \<open>The state is the position in the quad, the bits left over and the padding seen.\<close>

fun a2b_base64 :: "nat \<Rightarrow> nat \<Rightarrow> nat \<Rightarrow> pystr \<Rightarrow> nat list res" where
  "a2b_base64 quad left pads [] = (if quad = 0 then Inr [] else Inl ValueError)"
| "a2b_base64 quad left pads (ch # rest) =
     (if ch = 61 then
        (if quad \<ge> 2 then
           (if quad + (pads + 1) \<ge> 4 then Inr [] else a2b_base64 quad left (pads + 1) rest)
         else a2b_base64 quad left pads rest)
      else (case b64_index ch of
              None \<Rightarrow> a2b_base64 quad left pads rest
            | Some v \<Rightarrow>
                if quad = 0 then a2b_base64 1 v 0 rest
                else if quad = 1 then
                  rbind (a2b_base64 2 (v mod 16) 0 rest) (\<lambda>bs. Inr ((left * 4 + v div 16) # bs))
                else if quad = 2 then
                  rbind (a2b_base64 3 (v mod 4) 0 rest) (\<lambda>bs. Inr ((left * 16 + v div 4) # bs))
                else rbind (a2b_base64 0 0 0 rest) (\<lambda>bs. Inr ((left * 64 + v) # bs))))"

definition b64decode :: "pystr \<Rightarrow> bytes res" where
  "b64decode s =
     rbind (require (list_all (\<lambda>c. c < 128) s) ValueError) (\<lambda>_.
     rbind (a2b_base64 0 0 0 s) (\<lambda>ns. Inr (map byte_of ns)))"

lemma b64_index_char [simp]: "i < 64 \<Longrightarrow> b64_index (b64_char i) = Some i"
  by (auto simp: b64_index_def b64_char_def)

lemma b64_char_not_pad [simp]: "i < 64 \<Longrightarrow> b64_char i \<noteq> 61"
  by (auto simp: b64_char_def)

lemma b64_char_ascii: "i < 64 \<Longrightarrow> b64_char i < 128"
  by (auto simp: b64_char_def)

lemma quad_bounds:
  fixes a b :: nat assumes "a < 256" "b < 256"
  shows "a div 4 < 64" "a mod 4 * 16 < 64" "a mod 4 * 16 + b div 16 < 64" "b mod 16 * 4 < 64"
    "a mod 16 * 4 + b div 64 < 64" "a mod 64 < 64"
  using assms by simp_all

lemma quad_values:
  fixes a b c :: nat assumes "b < 256" "c < 256"
  shows "a div 4 * 4 + (a mod 4 * 16 + b div 16) div 16 = a"
    "(a mod 4 * 16 + b div 16) mod 16 * 16 + (b mod 16 * 4 + c div 64) div 4 = b"
    "(b mod 16 * 4 + c div 64) mod 4 * 64 + c mod 64 = c"
proof -
  show "a div 4 * 4 + (a mod 4 * 16 + b div 16) div 16 = a" using assms by simp
  have "(a mod 4 * 16 + b div 16) mod 16 = b div 16" "(b mod 16 * 4 + c div 64) div 4 = b mod 16"
    "(b mod 16 * 4 + c div 64) mod 4 = c div 64"
    using assms by simp_all
  then show "(a mod 4 * 16 + b div 16) mod 16 * 16 + (b mod 16 * 4 + c div 64) div 4 = b"
    "(b mod 16 * 4 + c div 64) mod 4 * 64 + c mod 64 = c" by simp_all
qed

lemma a2b_encode: "list_all (\<lambda>n. n < 256) ns \<Longrightarrow> a2b_base64 0 l p (b64encode_nats ns) = Inr ns"
proof (induction ns arbitrary: l p rule: b64encode_nats.induct)
  case (2 a)
  then show ?case by (simp add: quad_bounds [of a 0])
next
  case (3 a b)
  then show ?case using quad_values(1,2) [where a = a and b = b and c = 0] by (simp add: quad_bounds [of a b] quad_bounds [of b 0])
next
  case (4 a b c rest)
  then show ?case
    using quad_values(1,2) [where a = a and b = b and c = c] quad_values(3) [where b = b and c = c] by (simp add: quad_bounds [of a b] quad_bounds [of b c] quad_bounds [of c 0])
qed simp

lemma b64encode_ascii: "list_all (\<lambda>n. n < 256) ns \<Longrightarrow> list_all (\<lambda>c. c < 128) (b64encode_nats ns)"
  by (induction ns rule: b64encode_nats.induct) (auto intro!: b64_char_ascii)

lemma b64_roundtrip [codec]: "b64decode (b64encode data) = Inr data"
proof -
  have "list_all (\<lambda>n. n < 256) (map unat data)" by (simp add: list_all_iff)
  then show ?thesis
    by (simp add: b64decode_def b64encode_def a2b_encode b64encode_ascii comp_def)
qed

end
