(* ===== verification/StateChange.thy ===== *)
theory StateChange
  imports Json Base64
begin

text \<open>
  State changes are JSON objects; the worker states read their fields with \<open>change["key"]\<close>.
  A missing key is a \<open>KeyError\<close>; a value of a type the constructors never write is a
  \<open>TypeError\<close>.
\<close>

definition jget :: "json \<Rightarrow> string \<Rightarrow> json res" where
  "jget v k = (case v of
     JObj d \<Rightarrow> (case map_of d (lit k) of None \<Rightarrow> Inl KeyError | Some x \<Rightarrow> Inr x)
   | _ \<Rightarrow> Inl TypeError)"

definition as_int :: "json \<Rightarrow> int res" where
  "as_int v = (case v of JInt i \<Rightarrow> Inr i | _ \<Rightarrow> Inl TypeError)"

definition as_str :: "json \<Rightarrow> pystr res" where
  "as_str v = (case v of JStr s \<Rightarrow> Inr s | _ \<Rightarrow> Inl TypeError)"

definition as_list :: "json \<Rightarrow> json list res" where
  "as_list v = (case v of JList vs \<Rightarrow> Inr vs | _ \<Rightarrow> Inl TypeError)"

definition jget_int :: "json \<Rightarrow> string \<Rightarrow> int res" where
  "jget_int v k = rbind (jget v k) as_int"

definition jget_str :: "json \<Rightarrow> string \<Rightarrow> pystr res" where
  "jget_str v k = rbind (jget v k) as_str"

definition jget_list :: "json \<Rightarrow> string \<Rightarrow> json list res" where
  "jget_list v k = rbind (jget v k) as_list"

lemma size_map_of: "map_of d k = Some v \<Longrightarrow> size v < size (JObj d)"
proof (induction d)
  case (Cons x d)
  then show ?case by (cases x) (auto split: if_splits)
qed simp

lemma jget_Inr: "jget v k = Inr x \<longleftrightarrow> (\<exists>d. v = JObj d \<and> map_of d (lit k) = Some x)"
  by (cases v) (auto simp: jget_def split: option.splits)

lemma as_list_Inr: "as_list v = Inr vs \<longleftrightarrow> v = JList vs"
  by (cases v) (auto simp: as_list_def)

lemma jget_list_size:
  assumes "jget_list v k = Inr vs" and "x \<in> set vs"
  shows "size x < size v"
proof -
  from assms(1) obtain d where d: "v = JObj d" "map_of d (lit k) = Some (JList vs)"
    by (auto simp: jget_list_def jget_Inr as_list_Inr)
  have "size x < size (JList vs)"
    using assms(2) by (induction vs) auto
  also have "\<dots> < size v" using size_map_of [OF d(2)] d(1) by simp
  finally show ?thesis .
qed

lemma jget_obj:
  "jget (JObj d) k = (case map_of d (lit k) of None \<Rightarrow> Inl KeyError | Some x \<Rightarrow> Inr x)"
  by (simp add: jget_def)

lemma as_simps [simp]: "as_int (JInt i) = Inr i" "as_str (JStr s) = Inr s" "as_list (JList vs) = Inr vs"
  by (simp_all add: as_int_def as_str_def as_list_def)

lemmas jget_simps = jget_int_def jget_str_def jget_list_def jget_obj

text \<open>Distinct literals are distinct strings.\<close>

lemma lit_inject [simp]: "lit s = lit t \<longleftrightarrow> s = t"
proof
  assume "lit s = lit t"
  moreover have "inj (of_char :: char \<Rightarrow> nat)"
    by (auto intro: injI simp: of_char_eq_iff)
  ultimately show "s = t" by (simp add: lit_def)
qed simp

lemma b64_text_ascii: "list_all (\<lambda>c. c < 128) (b64encode data)"
  unfolding b64encode_def by (rule b64encode_ascii) (simp add: list_all_iff)

text \<open>The strings and objects the constructors write survive JSON.\<close>

lemma scalar_ascii: "c < 128 \<Longrightarrow> scalar c"
  by (simp add: scalar_def)

lemma text_ok_lit [simp]: "text_ok (lit s)"
proof -
  have "scalar (of_char ch)" for ch
    using nat_of_char_less_256 [of ch] by (simp add: scalar_def del: nat_of_char_less_256)
  then show ?thesis by (auto simp: text_ok_def lit_def)
qed

lemma text_ok_b64 [simp]: "text_ok (b64encode data)"
  using b64_text_ascii [of data] by (auto simp: text_ok_def list_all_iff intro: scalar_ascii)

end
