(* ===== verification/EofCoordinator.thy ===== *)
theory EofCoordinator
  imports Protocol
begin

text \<open>
  \<open>common/eof_coordinator.py\<close>: the end-of-stream agreement between the replicas of a worker,
  in its two modes. Every operation returns the action the worker must carry out; a packet
  that cannot be built raises after the mutations made before it.
\<close>

subsection \<open>Actions and state\<close>

datatype coordinator_action =
    SendAnswerAction pystr bytes
  | BroadcastAction "pystr list" bytes nat \<comment> \<open>queues, message, \<open>sleep_before\<close> in milliseconds\<close>
  | FlushAction bool int pystr \<comment> \<open>\<open>is_leader\<close>, \<open>total_forwarded\<close>, \<open>ack_queue\<close>\<close>

datatype ec_mode = Broadcast | FlushOrder

record eof_coordinator =
  ec_id :: int
  ec_total :: int
  ec_control_prefix :: pystr
  ec_response_prefix :: pystr
  ec_mode :: ec_mode
  ec_leader_id :: int
  ec_is_leader :: bool
  pending_eof :: "(int \<times> (int \<times> int)) list"
  seen_eof :: "int set"
  leader_expected :: "(int \<times> int) list"
  leader_processed :: "(int \<times> int) list"
  leader_responders :: "(int \<times> int set) list"
  flush_acks :: "(int \<times> int set) list"
  forwarded_from_acks :: "(int \<times> int) list"

definition parse_mode :: "pystr \<Rightarrow> ec_mode res" where
  "parse_mode m = (if m = lit ''broadcast'' then Inr Broadcast
     else if m = lit ''flush_order'' then Inr FlushOrder else Inl ValueError)"

definition new_coordinator ::
  "int \<Rightarrow> int \<Rightarrow> pystr \<Rightarrow> pystr \<Rightarrow> pystr \<Rightarrow> int \<Rightarrow> eof_coordinator res" where
  "new_coordinator instance_id total_instances control_prefix response_prefix mode leader =
     rbind (parse_mode mode) (\<lambda>m.
     Inr \<lparr>ec_id = instance_id, ec_total = total_instances, ec_control_prefix = control_prefix,
          ec_response_prefix = response_prefix, ec_mode = m, ec_leader_id = leader,
          ec_is_leader = (instance_id = leader), pending_eof = [], seen_eof = {},
          leader_expected = [], leader_processed = [], leader_responders = [],
          flush_acks = [], forwarded_from_acks = []\<rparr>)"

subsection \<open>Queue names and messages\<close>

definition control_queue_for :: "eof_coordinator \<Rightarrow> int \<Rightarrow> pystr" where
  "control_queue_for ec i = ec_control_prefix ec @ [95] @ int_str i"

definition response_queue_for :: "eof_coordinator \<Rightarrow> int \<Rightarrow> pystr" where
  "response_queue_for ec i = ec_response_prefix ec @ [95] @ int_str i"

definition my_control_queue :: "eof_coordinator \<Rightarrow> pystr" where
  "my_control_queue ec = control_queue_for ec (ec_id ec)"

definition my_response_queue :: "eof_coordinator \<Rightarrow> pystr" where
  "my_response_queue ec = response_queue_for ec (ec_id ec)"

definition needs_response_consumer :: "eof_coordinator \<Rightarrow> bool" where
  "needs_response_consumer ec \<longleftrightarrow> ec_mode ec = Broadcast \<or> ec_is_leader ec"

definition make_packet :: "message_type \<Rightarrow> int \<Rightarrow> int \<Rightarrow> int \<Rightarrow> int \<Rightarrow> bytes res" where
  "make_packet msg_type client_id sender_id expected processed =
     rbind (serialize_control \<lparr>cm_sender_id = sender_id, expected_total = expected,
              processed_count = processed\<rparr>) (\<lambda>payload.
     rbind (client_id_to_bytes client_id) (\<lambda>client_bytes.
     create_packet (message_type_value msg_type) client_bytes payload))"

definition build_answer :: "eof_coordinator \<Rightarrow> int \<Rightarrow> int \<Rightarrow> int \<Rightarrow> bytes res" where
  "build_answer ec client_id processed forwarded =
     make_packet MT_PROCESSED_ANSWER client_id (ec_id ec) forwarded processed"

definition build_flush_ack :: "eof_coordinator \<Rightarrow> int \<Rightarrow> int \<Rightarrow> bytes res" where
  "build_flush_ack ec client_id forwarded =
     make_packet MT_FLUSH_ACK client_id (ec_id ec) 0 forwarded"

definition parse_message :: "bytes \<Rightarrow> (int \<times> int \<times> control_message) res" where
  "parse_message raw =
     rbind (unpack_packet raw) (\<lambda>(msg_type, client_id, payload).
     rbind (deserialize_control payload) (\<lambda>ctrl. Inr (msg_type, client_id, ctrl)))"

definition control_queues :: "eof_coordinator \<Rightarrow> pystr list" where
  "control_queues ec = map (control_queue_for ec) [0..ec_total ec - 1]"

subsection \<open>Cleanup\<close>

definition clear_pending_eof :: "int \<Rightarrow> eof_coordinator \<Rightarrow> eof_coordinator" where
  "clear_pending_eof client_id ec = ec\<lparr>pending_eof := dpop client_id (pending_eof ec)\<rparr>"

definition cleanup_client :: "int \<Rightarrow> eof_coordinator \<Rightarrow> eof_coordinator" where
  "cleanup_client client_id ec =
     ec\<lparr>pending_eof := dpop client_id (pending_eof ec), seen_eof := seen_eof ec - {client_id}\<rparr>"

definition cleanup_leader_state :: "int \<Rightarrow> eof_coordinator \<Rightarrow> eof_coordinator" where
  "cleanup_leader_state client_id ec =
     (let ec' = ec\<lparr>flush_acks := dpop client_id (flush_acks ec),
                   forwarded_from_acks := dpop client_id (forwarded_from_acks ec),
                   leader_expected := dpop client_id (leader_expected ec)\<rparr> in
      if ec_mode ec = Broadcast then ec'\<lparr>pending_eof := dpop client_id (pending_eof ec')\<rparr>
      else ec'\<lparr>seen_eof := seen_eof ec' - {client_id}\<rparr>)"

subsection \<open>Upstream EOF\<close>

type_synonym coordinator_step = "(eof_coordinator, coordinator_action option) act"

definition on_upstream_eof :: "int \<Rightarrow> int \<Rightarrow> int \<Rightarrow> int \<Rightarrow> coordinator_step" where
  "on_upstream_eof client_id expected current_count current_forwarded ec =
     (if ec_total ec \<le> 1 then (Inr (Some (FlushAction True current_forwarded [])), ec)
      else if ec_mode ec = Broadcast then
        (let ec' = ec\<lparr>leader_expected := dset client_id expected (leader_expected ec)\<rparr> in
         (rbind (make_packet MT_EOF_RECEIVED client_id (ec_id ec) expected 0)
            (\<lambda>msg. Inr (Some (BroadcastAction (control_queues ec) msg 0))), ec'))
      else if client_id \<in> seen_eof ec then (Inr None, ec)
      else
        (let ec' = ec\<lparr>seen_eof := insert client_id (seen_eof ec)\<rparr>;
             ec'' = (if ec_is_leader ec
                     then ec'\<lparr>leader_expected := dset client_id expected (leader_expected ec')\<rparr> else ec') in
         (rbind (build_answer ec client_id current_count current_forwarded)
            (\<lambda>msg. Inr (Some (SendAnswerAction (response_queue_for ec (ec_leader_id ec)) msg))), ec'')))"

subsection \<open>Control messages\<close>

definition on_eof_received :: "int \<Rightarrow> control_message \<Rightarrow> int \<Rightarrow> int \<Rightarrow> coordinator_step" where
  "on_eof_received client_id ctrl current_count current_forwarded ec =
     (let leader = cm_sender_id ctrl in
      if map_of (pending_eof ec) client_id \<noteq> None then (Inr None, ec)
      else
        (rbind (build_answer ec client_id current_count current_forwarded)
           (\<lambda>msg. Inr (Some (SendAnswerAction (response_queue_for ec leader) msg))),
         ec\<lparr>pending_eof := dset client_id (expected_total ctrl, leader) (pending_eof ec)\<rparr>))"

definition on_processed_request :: "int \<Rightarrow> control_message \<Rightarrow> int \<Rightarrow> int \<Rightarrow> coordinator_step" where
  "on_processed_request client_id ctrl current_count current_forwarded ec =
     (let answer = (\<lambda>leader.
            rbind (build_answer ec client_id current_count current_forwarded)
              (\<lambda>msg. Inr (Some (SendAnswerAction (response_queue_for ec leader) msg)))) in
      if ec_mode ec = Broadcast then
        (case map_of (pending_eof ec) client_id of
           None \<Rightarrow> (Inr None, ec)
         | Some entry \<Rightarrow> (answer (snd entry), ec))
      else (answer (ec_leader_id ec), ec))"

definition on_processed_answer :: "int \<Rightarrow> control_message \<Rightarrow> coordinator_step" where
  "on_processed_answer client_id ctrl ec =
     (let sender = cm_sender_id ctrl;
          ec1 = (if map_of (leader_responders ec) client_id = None
                 then ec\<lparr>leader_responders := dset client_id {} (leader_responders ec)\<rparr> else ec);
          responders = dget (leader_responders ec1) client_id {} in
      if sender \<in> responders then (Inr None, ec1)
      else
        (let responders' = insert sender responders;
             running = dget (leader_processed ec1) client_id 0 + processed_count ctrl;
             ec2 = ec1\<lparr>leader_responders := dset client_id responders' (leader_responders ec1),
                       leader_processed := dset client_id running (leader_processed ec1)\<rparr> in
         (case map_of (leader_expected ec2) client_id of
            None \<Rightarrow> (Inr None, ec2)
          | Some expected \<Rightarrow>
              if int (card responders') < ec_total ec2 then (Inr None, ec2)
              else if running \<ge> expected then
                (rbind (make_packet MT_FLUSH_ORDER client_id (ec_id ec) 0 0)
                   (\<lambda>msg. Inr (Some (BroadcastAction (control_queues ec) msg 0))),
                 ec2\<lparr>leader_responders := dpop client_id (leader_responders ec2),
                     leader_processed := dpop client_id (leader_processed ec2)\<rparr>)
              else
                (rbind (make_packet MT_PROCESSED_REQUEST client_id (ec_id ec) expected 0)
                   (\<lambda>msg. Inr (Some (BroadcastAction (control_queues ec) msg 500))),
                 ec2\<lparr>leader_responders := dset client_id {} (leader_responders ec2),
                     leader_processed := dset client_id 0 (leader_processed ec2)\<rparr>))))"

definition is_leader_here :: "eof_coordinator \<Rightarrow> int \<Rightarrow> bool" where
  "is_leader_here ec client_id \<longleftrightarrow>
     (if ec_mode ec = Broadcast then map_of (leader_expected ec) client_id \<noteq> None else ec_is_leader ec)"

definition on_flush_order :: "int \<Rightarrow> control_message \<Rightarrow> coordinator_step" where
  "on_flush_order client_id ctrl ec =
     (if is_leader_here ec client_id then (Inr None, ec)
      else (Inr (Some (FlushAction False 0 (response_queue_for ec (cm_sender_id ctrl)))), ec))"

definition on_flush_ack :: "int \<Rightarrow> control_message \<Rightarrow> coordinator_step" where
  "on_flush_ack client_id ctrl ec =
     (if \<not> is_leader_here ec client_id then (Inr None, ec)
      else
        (let acks = insert (cm_sender_id ctrl) (dget (flush_acks ec) client_id {});
             forwarded = dget (forwarded_from_acks ec) client_id 0 + processed_count ctrl;
             ec1 = ec\<lparr>flush_acks := dset client_id acks (flush_acks ec),
                      forwarded_from_acks := dset client_id forwarded (forwarded_from_acks ec)\<rparr> in
         if int (card acks) < ec_total ec - 1 then (Inr None, ec1)
         else
           (let ec2 = ec1\<lparr>forwarded_from_acks := dpop client_id (forwarded_from_acks ec1),
                          flush_acks := dpop client_id (flush_acks ec1),
                          leader_expected := dpop client_id (leader_expected ec1)\<rparr>;
                ec3 = (if ec_mode ec = Broadcast
                       then ec2\<lparr>pending_eof := dpop client_id (pending_eof ec2)\<rparr>
                       else ec2\<lparr>seen_eof := seen_eof ec2 - {client_id}\<rparr>) in
            (Inr (Some (FlushAction True forwarded [])), ec3))))"

definition process_control_message ::
  "message_type \<Rightarrow> int \<Rightarrow> control_message \<Rightarrow> int \<Rightarrow> int \<Rightarrow> coordinator_step" where
  "process_control_message msg_type client_id ctrl current_count current_forwarded =
     (case msg_type of
        MT_EOF_RECEIVED \<Rightarrow> on_eof_received client_id ctrl current_count current_forwarded
      | MT_PROCESSED_REQUEST \<Rightarrow> on_processed_request client_id ctrl current_count current_forwarded
      | MT_PROCESSED_ANSWER \<Rightarrow> on_processed_answer client_id ctrl
      | MT_FLUSH_ORDER \<Rightarrow> on_flush_order client_id ctrl
      | MT_FLUSH_ACK \<Rightarrow> on_flush_ack client_id ctrl
      | _ \<Rightarrow> areturn None)"

subsection \<open>Read-only accessors\<close>

definition responder_count :: "eof_coordinator \<Rightarrow> int \<Rightarrow> int" where
  "responder_count ec client_id = int (card (dget (leader_responders ec) client_id {}))"

definition has_responder :: "eof_coordinator \<Rightarrow> int \<Rightarrow> int \<Rightarrow> bool" where
  "has_responder ec client_id sender_id \<longleftrightarrow> sender_id \<in> dget (leader_responders ec) client_id {}"

definition accumulated_processed :: "eof_coordinator \<Rightarrow> int \<Rightarrow> int" where
  "accumulated_processed ec client_id = dget (leader_processed ec) client_id 0"

definition expected_for :: "eof_coordinator \<Rightarrow> int \<Rightarrow> int option" where
  "expected_for ec client_id = map_of (leader_expected ec) client_id"

definition flush_ack_count :: "eof_coordinator \<Rightarrow> int \<Rightarrow> int" where
  "flush_ack_count ec client_id = int (card (dget (flush_acks ec) client_id {}))"

definition has_flush_ack :: "eof_coordinator \<Rightarrow> int \<Rightarrow> int \<Rightarrow> bool" where
  "has_flush_ack ec client_id sender_id \<longleftrightarrow> sender_id \<in> dget (flush_acks ec) client_id {}"

definition accumulated_forwarded :: "eof_coordinator \<Rightarrow> int \<Rightarrow> int" where
  "accumulated_forwarded ec client_id = dget (forwarded_from_acks ec) client_id 0"

subsection \<open>snapshot and restore\<close>

record coordinator_dict =
  cd_pending_eof :: "(int \<times> (int \<times> int)) list"
  cd_seen_eof :: "int set"
  cd_leader_expected :: "(int \<times> int) list"
  cd_leader_processed :: "(int \<times> int) list"
  cd_leader_responders :: "(int \<times> int set) list"
  cd_flush_acks :: "(int \<times> int set) list"
  cd_forwarded_from_acks :: "(int \<times> int) list"

definition coordinator_snapshot :: "eof_coordinator \<Rightarrow> coordinator_dict" where
  "coordinator_snapshot ec =
     \<lparr>cd_pending_eof = pending_eof ec, cd_seen_eof = seen_eof ec,
      cd_leader_expected = leader_expected ec, cd_leader_processed = leader_processed ec,
      cd_leader_responders = leader_responders ec, cd_flush_acks = flush_acks ec,
      cd_forwarded_from_acks = forwarded_from_acks ec\<rparr>"

definition coordinator_restore :: "coordinator_dict \<Rightarrow> eof_coordinator \<Rightarrow> eof_coordinator" where
  "coordinator_restore d ec =
     ec\<lparr>pending_eof := cd_pending_eof d, seen_eof := cd_seen_eof d,
        leader_expected := cd_leader_expected d, leader_processed := cd_leader_processed d,
        leader_responders := cd_leader_responders d, flush_acks := cd_flush_acks d,
        forwarded_from_acks := cd_forwarded_from_acks d\<rparr>"

subsection \<open>Messages parse back\<close>

lemma message_type_value_range: "0 \<le> message_type_value t" "message_type_value t < 256"
  by (cases t; simp)+

lemma make_packet_roundtrip [codec]:
  "make_packet t c s e p = Inr raw \<Longrightarrow>
   parse_message raw = Inr (message_type_value t, c, \<lparr>cm_sender_id = s, expected_total = e, processed_count = p\<rparr>)"
  by (auto simp: make_packet_def parse_message_def packet_roundtrip control_roundtrip)

lemma make_packet_ok:
  assumes "0 \<le> c" "c < 256 ^ 16" "0 \<le> s" "s < 256 ^ 4" "0 \<le> e" "e < 256 ^ 4" "0 \<le> p" "p < 256 ^ 4"
  shows "\<exists>raw. make_packet t c s e p = Inr raw"
  using assms message_type_value_range [of t]
  by (simp add: make_packet_def serialize_control_def client_id_to_bytes_def create_packet_def pack_uint_def)

subsection \<open>Configuration and isolation between clients\<close>

definition coordinator_config :: "eof_coordinator \<Rightarrow> int \<times> int \<times> pystr \<times> pystr \<times> ec_mode \<times> int \<times> bool" where
  "coordinator_config ec = (ec_id ec, ec_total ec, ec_control_prefix ec, ec_response_prefix ec, ec_mode ec,
     ec_leader_id ec, ec_is_leader ec)"

text \<open>Everything a coordinator knows about one client.\<close>

definition client_view :: "eof_coordinator \<Rightarrow> int \<Rightarrow>
    (int \<times> int) option \<times> bool \<times> int option \<times> int option \<times> int set option \<times> int set option \<times> int option" where
  "client_view ec c = (map_of (pending_eof ec) c, c \<in> seen_eof ec, map_of (leader_expected ec) c,
     map_of (leader_processed ec) c, map_of (leader_responders ec) c, map_of (flush_acks ec) c,
     map_of (forwarded_from_acks ec) c)"

lemmas coordinator_steps =
  on_upstream_eof_def on_eof_received_def on_processed_request_def on_processed_answer_def
  on_flush_order_def on_flush_ack_def

lemma upstream_frame:
  "on_upstream_eof c e n f ec = (r, ec') \<Longrightarrow>
   coordinator_config ec' = coordinator_config ec \<and> (c' \<noteq> c \<longrightarrow> client_view ec' c' = client_view ec c')"
  by (auto simp: coordinator_config_def client_view_def on_upstream_eof_def Let_def split: if_splits)

lemma answer_frame:
  "on_processed_answer c ctrl ec = (r, ec') \<Longrightarrow>
   coordinator_config ec' = coordinator_config ec \<and> (c' \<noteq> c \<longrightarrow> client_view ec' c' = client_view ec c')"
  by (auto simp: coordinator_config_def client_view_def on_processed_answer_def Let_def split: if_splits option.splits)

lemma flush_ack_frame:
  "on_flush_ack c ctrl ec = (r, ec') \<Longrightarrow>
   coordinator_config ec' = coordinator_config ec \<and> (c' \<noteq> c \<longrightarrow> client_view ec' c' = client_view ec c')"
  by (auto simp: coordinator_config_def client_view_def on_flush_ack_def Let_def split: if_splits)

lemma control_frame:
  "process_control_message t c ctrl n f ec = (r, ec') \<Longrightarrow>
   coordinator_config ec' = coordinator_config ec \<and> (c' \<noteq> c \<longrightarrow> client_view ec' c' = client_view ec c')"
  using answer_frame [of c ctrl ec r ec' c'] flush_ack_frame [of c ctrl ec r ec' c']
  by (cases t)
    (auto simp: process_control_message_def areturn_def on_eof_received_def on_processed_request_def
      on_flush_order_def coordinator_config_def client_view_def Let_def split: if_splits option.splits)

lemma cleanup_frame:
  "coordinator_config (cleanup_client c ec) = coordinator_config ec"
  "c' \<noteq> c \<Longrightarrow> client_view (cleanup_client c ec) c' = client_view ec c'"
  by (auto simp: cleanup_client_def coordinator_config_def client_view_def)

lemma coordinator_restore_snapshot [codec]:
  "coordinator_config ec0 = coordinator_config ec \<Longrightarrow> coordinator_restore (coordinator_snapshot ec) ec0 = ec"
  by (cases ec; cases ec0) (simp add: coordinator_restore_def coordinator_snapshot_def coordinator_config_def)

subsection \<open>A repeated EOF changes nothing\<close>

lemma on_upstream_eof_twice:
  assumes "on_upstream_eof c e n f ec = (r, ec')"
  shows "snd (on_upstream_eof c e n' f' ec') = ec'"
proof -
  have "ec' = snd (on_upstream_eof c e n f ec)" using assms by simp
  then show ?thesis by (simp add: on_upstream_eof_def Let_def update_last)
qed

subsection \<open>Counting answers\<close>

definition answer :: "int \<times> int \<Rightarrow> control_message" where
  "answer a = \<lparr>cm_sender_id = fst a, expected_total = 0, processed_count = snd a\<rparr>"

text \<open>
  The answers of the current round, one per sender: the first answer of a sender counts and
  later ones are ignored until the round ends.
\<close>

definition first_answer :: "(int \<times> int) list \<Rightarrow> int \<times> int \<Rightarrow> (int \<times> int) list" where
  "first_answer d a = (if map_of d (fst a) = None then d @ [a] else d)"

definition first_answers :: "(int \<times> int) list \<Rightarrow> (int \<times> int) list" where
  "first_answers as = foldl first_answer [] as"

definition round_holds :: "eof_coordinator \<Rightarrow> int \<Rightarrow> (int \<times> int) list \<Rightarrow> bool" where
  "round_holds ec c d \<longleftrightarrow> dict_wf d \<and> dget (leader_responders ec) c {} = set (map fst d) \<and>
     dget (leader_processed ec) c 0 = sum_list (map snd d)"

fun deliver_answers :: "int \<Rightarrow> (int \<times> int) list \<Rightarrow> eof_coordinator \<Rightarrow>
    coordinator_action option res list \<times> eof_coordinator" where
  "deliver_answers c [] ec = ([], ec)"
| "deliver_answers c (a # as) ec =
     (let (r, ec') = on_processed_answer c (answer a) ec; (rs, ec'') = deliver_answers c as ec' in
      (r # rs, ec''))"

lemma round_card: "dict_wf d \<Longrightarrow> card (set (map fst d)) = length d"
  unfolding dict_wf_def by (metis distinct_card length_map)

lemma answer_eq:
  assumes "cm_sender_id ctrl \<notin> dget (leader_responders ec) c {}"
  shows "on_processed_answer c ctrl ec =
    (let responders' = insert (cm_sender_id ctrl) (dget (leader_responders ec) c {});
         running = dget (leader_processed ec) c 0 + processed_count ctrl;
         ec2 = ec\<lparr>leader_responders := dset c responders' (leader_responders ec),
                   leader_processed := dset c running (leader_processed ec)\<rparr> in
     (case map_of (leader_expected ec) c of
        None \<Rightarrow> (Inr None, ec2)
      | Some expected \<Rightarrow>
          if int (card responders') < ec_total ec then (Inr None, ec2)
          else if running \<ge> expected then
            (rbind (make_packet MT_FLUSH_ORDER c (ec_id ec) 0 0)
               (\<lambda>msg. Inr (Some (BroadcastAction (control_queues ec) msg 0))),
             ec2\<lparr>leader_responders := dpop c (leader_responders ec2),
                 leader_processed := dpop c (leader_processed ec2)\<rparr>)
          else
            (rbind (make_packet MT_PROCESSED_REQUEST c (ec_id ec) expected 0)
               (\<lambda>msg. Inr (Some (BroadcastAction (control_queues ec) msg 500))),
             ec2\<lparr>leader_responders := dset c {} (leader_responders ec2),
                 leader_processed := dset c 0 (leader_processed ec2)\<rparr>)))"
proof (cases "map_of (leader_responders ec) c")
  case None
  then have "dget (leader_responders ec) c {} = {}" by (simp add: dget_def)
  with None show ?thesis by (simp add: on_processed_answer_def Let_def update_last split: option.split)
next
  case (Some R)
  with assms show ?thesis by (simp add: on_processed_answer_def Let_def split: option.split)
qed

lemma answer_duplicate:
  assumes "round_holds ec c d" and "map_of d (fst a) \<noteq> None"
  shows "\<exists>ec'. on_processed_answer c (answer a) ec = (Inr None, ec') \<and> round_holds ec' c d \<and>
    leader_expected ec' = leader_expected ec \<and> coordinator_config ec' = coordinator_config ec"
proof -
  have "fst a \<in> set (map fst d)" using assms(2) by (simp add: map_of_eq_None_iff)
  then have "fst a \<in> dget (leader_responders ec) c {}" "map_of (leader_responders ec) c \<noteq> None"
    using assms(1) by (auto simp: round_holds_def dget_def split: option.splits)
  then show ?thesis using assms(1)
    by (auto simp: on_processed_answer_def answer_def coordinator_config_def)
qed

lemma answer_new:
  assumes r: "round_holds ec c d" and new: "map_of d (fst a) = None"
    and few: "int (length d) + 1 < ec_total ec"
  shows "\<exists>ec'. on_processed_answer c (answer a) ec = (Inr None, ec') \<and> round_holds ec' c (d @ [a]) \<and>
    leader_expected ec' = leader_expected ec \<and> coordinator_config ec' = coordinator_config ec"
proof -
  have n: "fst a \<notin> set (map fst d)" using new by (simp add: map_of_eq_None_iff)
  have "dict_wf d" using r by (simp add: round_holds_def)
  then have "card (insert (fst a) (set (map fst d))) = length d + 1" using n round_card by simp
  moreover have "fst a \<notin> dget (leader_responders ec) c {}" using r n by (simp add: round_holds_def)
  then have "on_processed_answer c (answer a) ec =
      (Inr None, ec\<lparr>leader_responders := dset c (insert (fst a) (set (map fst d))) (leader_responders ec),
         leader_processed := dset c (sum_list (map snd d) + snd a) (leader_processed ec)\<rparr>)"
    using r few calculation
    by (subst answer_eq) (auto simp: answer_def Let_def round_holds_def split: option.splits)
  ultimately show ?thesis using r n
    by (auto simp: coordinator_config_def round_holds_def dict_wf_def)
qed

lemma answer_quorum:
  assumes r: "round_holds ec c d" and new: "map_of d (fst a) = None"
    and full: "int (length d) + 1 = ec_total ec" and e: "map_of (leader_expected ec) c = Some expected"
  shows "fst (on_processed_answer c (answer a) ec) =
    (if sum_list (map snd d) + snd a \<ge> expected
     then rbind (make_packet MT_FLUSH_ORDER c (ec_id ec) 0 0)
       (\<lambda>msg. Inr (Some (BroadcastAction (control_queues ec) msg 0)))
     else rbind (make_packet MT_PROCESSED_REQUEST c (ec_id ec) expected 0)
       (\<lambda>msg. Inr (Some (BroadcastAction (control_queues ec) msg 500))))"
    and "round_holds (snd (on_processed_answer c (answer a) ec)) c []"
proof -
  have n: "fst a \<notin> set (map fst d)" using new by (simp add: map_of_eq_None_iff)
  have "dict_wf d" using r by (simp add: round_holds_def)
  then have "card (insert (fst a) (set (map fst d))) = length d + 1" using n round_card by simp
  then show "fst (on_processed_answer c (answer a) ec) =
    (if sum_list (map snd d) + snd a \<ge> expected
     then rbind (make_packet MT_FLUSH_ORDER c (ec_id ec) 0 0)
       (\<lambda>msg. Inr (Some (BroadcastAction (control_queues ec) msg 0)))
     else rbind (make_packet MT_PROCESSED_REQUEST c (ec_id ec) expected 0)
       (\<lambda>msg. Inr (Some (BroadcastAction (control_queues ec) msg 500))))"
    and "round_holds (snd (on_processed_answer c (answer a) ec)) c []"
    using r n full e answer_eq [of "answer a" ec c]
    by (auto simp: answer_def Let_def round_holds_def)
qed

lemma first_answer_wf: "dict_wf d \<Longrightarrow> dict_wf (first_answer d a)"
  by (auto simp: first_answer_def dict_wf_def map_of_eq_None_iff)

lemma first_answers_grow: "length d \<le> length (foldl first_answer d as)"
proof (induction as arbitrary: d)
  case (Cons a as)
  have "length d \<le> length (first_answer d a)" by (simp add: first_answer_def)
  also have "\<dots> \<le> length (foldl first_answer (first_answer d a) as)" by (rule Cons.IH)
  finally show ?case by simp
qed simp

lemma deliver_few:
  assumes "round_holds ec c d" and "int (length (foldl first_answer d as)) < ec_total ec"
  shows "\<exists>ec'. deliver_answers c as ec = (replicate (length as) (Inr None), ec') \<and>
    round_holds ec' c (foldl first_answer d as) \<and> leader_expected ec' = leader_expected ec \<and>
    coordinator_config ec' = coordinator_config ec"
  using assms
proof (induction as arbitrary: ec d)
  case (Cons a as)
  obtain ec1 where 1: "on_processed_answer c (answer a) ec = (Inr None, ec1)" "round_holds ec1 c (first_answer d a)"
    "leader_expected ec1 = leader_expected ec" "coordinator_config ec1 = coordinator_config ec"
  proof (cases "map_of d (fst a) = None")
    case True
    have "length (d @ [a]) \<le> length (foldl first_answer d (a # as))"
      using first_answers_grow [of "d @ [a]" as] True by (simp add: first_answer_def)
    with Cons.prems have "int (length d) + 1 < ec_total ec" by simp
    from answer_new [OF Cons.prems(1) True this] that show ?thesis by (auto simp: first_answer_def True)
  next
    case False
    from answer_duplicate [OF Cons.prems(1) False] that show ?thesis by (auto simp: first_answer_def False)
  qed
  then have "ec_total ec1 = ec_total ec" by (simp add: coordinator_config_def)
  with Cons.IH [OF 1(2)] Cons.prems(2) 1 show ?case by (auto simp: Let_def)
qed simp

subsection \<open>Counting flush acknowledgements\<close>

lemma flush_ack_prediction:
  assumes "is_leader_here ec c" and "finite (dget (flush_acks ec) c {})"
  shows "flush_ack_count ec c + (if has_flush_ack ec c (cm_sender_id ctrl) then 0 else 1) \<ge> ec_total ec - 1
    \<longleftrightarrow> (\<exists>t. fst (on_flush_ack c ctrl ec) = Inr (Some (FlushAction True t [])))"
  using assms
  by (auto simp: flush_ack_count_def has_flush_ack_def on_flush_ack_def Let_def insert_absorb card_insert_if)

definition flush_ack :: "int \<times> int \<Rightarrow> control_message" where
  "flush_ack a = \<lparr>cm_sender_id = fst a, expected_total = 0, processed_count = snd a\<rparr>"

definition acks_hold :: "eof_coordinator \<Rightarrow> int \<Rightarrow> (int \<times> int) list \<Rightarrow> bool" where
  "acks_hold ec c d \<longleftrightarrow> dict_wf d \<and> dget (flush_acks ec) c {} = set (map fst d) \<and>
     dget (forwarded_from_acks ec) c 0 = sum_list (map snd d)"

lemma flush_ack_step:
  assumes h: "acks_hold ec c d" and lead: "is_leader_here ec c" and new: "fst a \<notin> set (map fst d)"
  shows "int (length d) + 1 < ec_total ec - 1 \<Longrightarrow>
      fst (on_flush_ack c (flush_ack a) ec) = Inr None \<and> acks_hold (snd (on_flush_ack c (flush_ack a) ec)) c (d @ [a])"
    and "int (length d) + 1 \<ge> ec_total ec - 1 \<Longrightarrow>
      fst (on_flush_ack c (flush_ack a) ec) = Inr (Some (FlushAction True (sum_list (map snd d) + snd a) [])) \<and>
      acks_hold (snd (on_flush_ack c (flush_ack a) ec)) c []"
proof -
  have "dict_wf d" using h by (simp add: acks_hold_def)
  then have "card (insert (fst a) (set (map fst d))) = length d + 1" using new round_card by simp
  then show "int (length d) + 1 < ec_total ec - 1 \<Longrightarrow>
      fst (on_flush_ack c (flush_ack a) ec) = Inr None \<and> acks_hold (snd (on_flush_ack c (flush_ack a) ec)) c (d @ [a])"
    "int (length d) + 1 \<ge> ec_total ec - 1 \<Longrightarrow>
      fst (on_flush_ack c (flush_ack a) ec) = Inr (Some (FlushAction True (sum_list (map snd d) + snd a) [])) \<and>
      acks_hold (snd (on_flush_ack c (flush_ack a) ec)) c []"
    using h lead new by (auto simp: on_flush_ack_def flush_ack_def Let_def acks_hold_def dict_wf_def)
qed

text \<open>
  A second acknowledgement of the same sender is not a second acknowledgement for the count,
  but its forwarded total is added again.
\<close>

lemma flush_ack_duplicate:
  assumes "is_leader_here ec c" and "has_flush_ack ec c (fst a)" and "flush_ack_count ec c < ec_total ec - 1"
  shows "flush_ack_count (snd (on_flush_ack c (flush_ack a) ec)) c = flush_ack_count ec c"
    and "accumulated_forwarded (snd (on_flush_ack c (flush_ack a) ec)) c = accumulated_forwarded ec c + snd a"
  using assms
  by (auto simp: on_flush_ack_def flush_ack_def Let_def flush_ack_count_def has_flush_ack_def
      accumulated_forwarded_def insert_absorb)

subsection \<open>Properties\<close>

text \<open>
  C26: the flush decision. Starting a round with no answers, any sequence of answers of fewer
  than all replicas, duplicates included, is only accumulated; the answer of the last missing
  replica makes the leader order the flush exactly when the counts, the first of each replica,
  reach the expected total, and otherwise ask everybody again; either way the next round
  starts empty.
\<close>

theorem flush_ordered_iff_counts_match:
  assumes "round_holds ec c []" and "map_of (leader_expected ec) c = Some expected"
    and "int (length (first_answers as)) + 1 = ec_total ec" and "map_of (first_answers as) (fst a) = None"
    and "deliver_answers c (as @ [a]) ec = (rs, ec')"
  shows "butlast rs = replicate (length as) (Inr None) \<and>
    last rs =
      (if sum_list (map snd (first_answers as)) + snd a \<ge> expected
       then rbind (make_packet MT_FLUSH_ORDER c (ec_id ec) 0 0)
         (\<lambda>msg. Inr (Some (BroadcastAction (control_queues ec) msg 0)))
       else rbind (make_packet MT_PROCESSED_REQUEST c (ec_id ec) expected 0)
         (\<lambda>msg. Inr (Some (BroadcastAction (control_queues ec) msg 500)))) \<and>
    round_holds ec' c []"
proof -
  have few: "int (length (foldl first_answer [] as)) < ec_total ec" using assms(3) by (simp add: first_answers_def)
  obtain ec1 where ec1: "deliver_answers c as ec = (replicate (length as) (Inr None), ec1)"
    "round_holds ec1 c (first_answers as)" "leader_expected ec1 = leader_expected ec"
    "coordinator_config ec1 = coordinator_config ec"
    using deliver_few [OF assms(1) few] by (auto simp: first_answers_def)
  have cfg: "ec_total ec1 = ec_total ec" "ec_id ec1 = ec_id ec" "control_queues ec1 = control_queues ec"
    using ec1(4) by (auto simp: coordinator_config_def control_queues_def control_queue_for_def)
  have app: "deliver_answers c (as @ [a]) ec =
      (let (rs, ec1) = deliver_answers c as ec; (r, ec2) = on_processed_answer c (answer a) ec1 in (rs @ [r], ec2))"
    by (induction as arbitrary: ec) (auto simp: Let_def split: prod.splits)
  obtain r where r: "on_processed_answer c (answer a) ec1 = (r, ec')" "rs = replicate (length as) (Inr None) @ [r]"
    using assms(5) app ec1(1) by (auto simp: Let_def split: prod.splits)
  from answer_quorum [OF ec1(2) assms(4), of expected] assms(2,3) ec1(3) cfg r show ?thesis by simp
qed

definition sample_coordinator :: eof_coordinator where
  "sample_coordinator = \<lparr>ec_id = 0, ec_total = 3, ec_control_prefix = [99], ec_response_prefix = [114], ec_mode = FlushOrder,
     ec_leader_id = 0, ec_is_leader = True, pending_eof = [], seen_eof = {}, leader_expected = [(5, 10)], leader_processed = [],
     leader_responders = [], flush_acks = [], forwarded_from_acks = []\<rparr>"

theorem flush_ordered_iff_counts_match_witness:
  "last (fst (deliver_answers 5 [(0, 4), (0, 9), (2, 1), (1, 5)] sample_coordinator)) =
     rbind (make_packet MT_FLUSH_ORDER 5 0 0 0)
       (\<lambda>msg. Inr (Some (BroadcastAction (control_queues sample_coordinator) msg 0)))"
proof -
  obtain rs ec' where d: "deliver_answers 5 ([(0, 4), (0, 9), (2, 1)] @ [(1, 5)]) sample_coordinator = (rs, ec')"
    by fastforce
  have "first_answers [(0, 4), (0, 9), (2, 1)] = [(0, 4), (2, 1)]"
    by (simp add: first_answers_def first_answer_def)
  with flush_ordered_iff_counts_match [OF _ _ _ _ d, of 10] d show ?thesis
    by (simp add: sample_coordinator_def round_holds_def)
qed

text \<open>
  The leader's acknowledgement count. With acknowledgements of distinct replicas, the
  leader flushes exactly when the last of the other replicas has acknowledged, with the sum of
  what they forwarded, and forgets the client's acknowledgements.
\<close>

theorem flush_after_all_acks:
  assumes "acks_hold ec c acks" and "is_leader_here ec c" and "fst a \<notin> set (map fst acks)"
  shows "fst (on_flush_ack c (flush_ack a) ec) =
      (if int (length acks) + 1 < ec_total ec - 1 then Inr None
       else Inr (Some (FlushAction True (sum_list (map snd acks) + snd a) []))) \<and>
    acks_hold (snd (on_flush_ack c (flush_ack a) ec)) c
      (if int (length acks) + 1 < ec_total ec - 1 then acks @ [a] else [])"
  using flush_ack_step [OF assms] by (auto simp: not_less)

theorem flush_after_all_acks_witness:
  "fst (on_flush_ack 5 (flush_ack (2, 30)) (sample_coordinator\<lparr>flush_acks := [(5, {1})], forwarded_from_acks := [(5, 12)]\<rparr>))
    = Inr (Some (FlushAction True 42 []))"
  using flush_after_all_acks [of "sample_coordinator\<lparr>flush_acks := [(5, {1})], forwarded_from_acks := [(5, 12)]\<rparr>" 5 "[(1, 12)]" "(2, 30)"]
  by (simp add: acks_hold_def is_leader_here_def sample_coordinator_def dget_def)

text \<open>
  Clients do not interfere. A message about one client, an upstream EOF or any control
  message, changes nothing the coordinator knows about another client.
\<close>

theorem coordinator_clients_isolated:
  assumes "c' \<noteq> c"
  shows "client_view (snd (process_control_message t c ctrl n f ec)) c' = client_view ec c' \<and>
    client_view (snd (on_upstream_eof c e n f ec)) c' = client_view ec c' \<and>
    client_view (cleanup_client c ec) c' = client_view ec c'"
  using assms control_frame upstream_frame cleanup_frame by (metis prod.collapse)

theorem coordinator_clients_isolated_witness:
  "client_view (snd (process_control_message MT_PROCESSED_ANSWER 5 (answer (1, 2)) 0 0 sample_coordinator)) 6
    = client_view sample_coordinator 6"
  using coordinator_clients_isolated [of 6 5 MT_PROCESSED_ANSWER "answer (1, 2)" 0 0 sample_coordinator] by simp

text \<open>
  C27: a duplicated acknowledgement is counted twice in the forwarded total. The set of
  acknowledging replicas is protected against duplicates, the sum is not.
\<close>

theorem duplicate_ack_counted_twice:
  assumes "is_leader_here ec c" and "has_flush_ack ec c (fst a)" and "flush_ack_count ec c < ec_total ec - 1"
  shows "flush_ack_count (snd (on_flush_ack c (flush_ack a) ec)) c = flush_ack_count ec c \<and>
    accumulated_forwarded (snd (on_flush_ack c (flush_ack a) ec)) c = accumulated_forwarded ec c + snd a"
  using flush_ack_duplicate [OF assms] by blast

theorem duplicate_ack_counted_twice_witness:
  "accumulated_forwarded (snd (on_flush_ack 5 (flush_ack (1, 12))
     (sample_coordinator\<lparr>flush_acks := [(5, {1})], forwarded_from_acks := [(5, 12)]\<rparr>))) 5 = 24"
  using duplicate_ack_counted_twice [of "sample_coordinator\<lparr>flush_acks := [(5, {1})], forwarded_from_acks := [(5, 12)]\<rparr>" 5 "(1, 12)"]
  by (simp add: is_leader_here_def sample_coordinator_def dget_def has_flush_ack_def flush_ack_count_def accumulated_forwarded_def)

end
