(* ===== verification/Aggregator.thy ===== *)
theory Aggregator
  imports Runner StateChange EofCoordinator
begin

text \<open>
  The aggregator: its durable state (\<open>workers/aggregator/aggregator_state.py\<close>) and its three
  message paths (\<open>workers/aggregator/aggregators.py\<close>). The reduction processor is the object
  the factory makes; the state only calls its constructor, \<open>accept\<close> and \<open>results\<close>.
\<close>

subsection \<open>AggregatorState\<close>

record 'p processor_ops =
  new_processor :: "'p res"
  accept :: "bytes \<Rightarrow> ('p, unit) act"
  results :: "'p \<Rightarrow> bytes list res"

record 'p aggregator =
  ag_coordinator :: eof_coordinator
  data_count_by_client :: "(int \<times> int) list"
  processors_by_client :: "(int \<times> 'p) list"
  closed_by_client :: "int set"

definition new_aggregator :: "eof_coordinator \<Rightarrow> 'p aggregator" where
  "new_aggregator ec = \<lparr>ag_coordinator = ec, data_count_by_client = [], processors_by_client = [],
     closed_by_client = {}\<rparr>"

definition data_change :: "int \<Rightarrow> bytes \<Rightarrow> json" where
  "data_change client_id payload =
     JObj [(lit ''type'', JStr (lit ''data'')), (lit ''client_id'', JInt client_id),
           (lit ''payload'', JStr (b64encode payload))]"

definition close_change :: "int \<Rightarrow> json" where
  "close_change client_id = JObj [(lit ''type'', JStr (lit ''close'')), (lit ''client_id'', JInt client_id)]"

definition coordinator_upstream_eof_change :: "int \<Rightarrow> int \<Rightarrow> int \<Rightarrow> int \<Rightarrow> json" where
  "coordinator_upstream_eof_change client_id expected count forwarded =
     JObj [(lit ''type'', JStr (lit ''coordinator_upstream_eof'')), (lit ''client_id'', JInt client_id),
           (lit ''expected_total'', JInt expected), (lit ''count'', JInt count),
           (lit ''forwarded'', JInt forwarded)]"

definition coordinator_msg_change ::
  "message_type \<Rightarrow> int \<Rightarrow> int \<Rightarrow> int \<Rightarrow> int \<Rightarrow> int \<Rightarrow> int \<Rightarrow> json" where
  "coordinator_msg_change msg_type client_id sender_id expected processed count forwarded =
     JObj [(lit ''type'', JStr (lit ''coordinator_msg'')),
           (lit ''msg_type'', JInt (message_type_value msg_type)), (lit ''client_id'', JInt client_id),
           (lit ''sender_id'', JInt sender_id), (lit ''expected_total'', JInt expected),
           (lit ''processed_count'', JInt processed), (lit ''count'', JInt count),
           (lit ''forwarded'', JInt forwarded)]"

definition coordinator_cleanup_change :: "int \<Rightarrow> json" where
  "coordinator_cleanup_change client_id =
     JObj [(lit ''type'', JStr (lit ''coordinator_cleanup'')), (lit ''client_id'', JInt client_id)]"

definition compound_change :: "json list \<Rightarrow> json" where
  "compound_change changes = JObj [(lit ''type'', JStr (lit ''compound'')), (lit ''changes'', JList changes)]"

definition abort_change :: "int \<Rightarrow> json" where
  "abort_change client_id = compound_change [coordinator_cleanup_change client_id, close_change client_id]"

definition ag_is_closed :: "int \<Rightarrow> 'p aggregator \<Rightarrow> bool" where
  "ag_is_closed client_id s \<longleftrightarrow> client_id \<in> closed_by_client s"

definition results_for :: "'p processor_ops \<Rightarrow> int \<Rightarrow> 'p aggregator \<Rightarrow> bytes list res" where
  "results_for P client_id s =
     (case map_of (processors_by_client s) client_id of None \<Rightarrow> Inr [] | Some p \<Rightarrow> results P p)"

definition data_count :: "int \<Rightarrow> 'p aggregator \<Rightarrow> int" where
  "data_count client_id s = dget (data_count_by_client s) client_id 0"

text \<open>\<open>setdefault(client_id, factory(configuration))\<close>: the factory runs in any case.\<close>

definition ag_apply_data :: "'p processor_ops \<Rightarrow> int \<Rightarrow> json \<Rightarrow> ('p aggregator, unit) act" where
  "ag_apply_data P client_id change s =
     (if client_id \<in> closed_by_client s then (Inr (), s)
      else (case rbind (jget_str change ''payload'') b64decode of
              Inl e \<Rightarrow> (Inl e, s)
            | Inr payload \<Rightarrow>
                (case new_processor P of
                   Inl e \<Rightarrow> (Inl e, s)
                 | Inr fresh \<Rightarrow>
                     (let p = dget (processors_by_client s) client_id fresh;
                          (r, p') = accept P payload p;
                          s' = s\<lparr>processors_by_client := dset client_id p' (processors_by_client s)\<rparr> in
                      (case r of
                         Inl e \<Rightarrow> (Inl e, s')
                       | Inr _ \<Rightarrow>
                           (Inr (), s'\<lparr>data_count_by_client :=
                              dset client_id (data_count client_id s' + 1) (data_count_by_client s')\<rparr>))))))"

definition ag_apply_close :: "int \<Rightarrow> 'p aggregator \<Rightarrow> 'p aggregator" where
  "ag_apply_close client_id s =
     s\<lparr>closed_by_client := insert client_id (closed_by_client s),
       processors_by_client := dpop client_id (processors_by_client s),
       data_count_by_client := dpop client_id (data_count_by_client s)\<rparr>"

definition on_coordinator :: "(eof_coordinator, 'a) act \<Rightarrow> ('p aggregator, 'a) act" where
  "on_coordinator = azoom ag_coordinator (\<lambda>c. ag_coordinator_update (\<lambda>_. c))"

definition ag_replay_upstream_eof :: "int \<Rightarrow> json \<Rightarrow> ('p aggregator, unit) act" where
  "ag_replay_upstream_eof client_id change =
     abind (alift (jget_int change ''expected_total'')) (\<lambda>expected.
     abind (alift (jget_int change ''count'')) (\<lambda>count.
     abind (alift (jget_int change ''forwarded'')) (\<lambda>forwarded.
     abind (on_coordinator (on_upstream_eof client_id expected count forwarded)) (\<lambda>_. areturn ()))))"

definition ag_replay_msg :: "int \<Rightarrow> json \<Rightarrow> ('p aggregator, unit) act" where
  "ag_replay_msg client_id change =
     abind (alift (jget_int change ''sender_id'')) (\<lambda>sender.
     abind (alift (jget_int change ''expected_total'')) (\<lambda>expected.
     abind (alift (jget_int change ''processed_count'')) (\<lambda>processed.
     abind (alift (rbind (jget_int change ''msg_type'') message_type_of)) (\<lambda>msg_type.
     abind (alift (jget_int change ''count'')) (\<lambda>count.
     abind (alift (jget_int change ''forwarded'')) (\<lambda>forwarded.
     abind (on_coordinator (process_control_message msg_type client_id
              \<lparr>cm_sender_id = sender, expected_total = expected, processed_count = processed\<rparr>
              count forwarded)) (\<lambda>_. areturn ())))))))"

function ag_apply_change :: "'p processor_ops \<Rightarrow> json \<Rightarrow> ('p aggregator, unit) act" where
  "ag_apply_change P change =
     (case jget_str change ''type'' of
        Inl e \<Rightarrow> araise e
      | Inr kind \<Rightarrow>
          if kind = lit ''compound'' then
            (case jget_list change ''changes'' of
               Inl e \<Rightarrow> araise e
             | Inr subs \<Rightarrow> afor (\<lambda>sub. ag_apply_change P sub) subs)
          else
            (case jget_int change ''client_id'' of
               Inl e \<Rightarrow> araise e
             | Inr client_id \<Rightarrow>
                 if kind = lit ''data'' then ag_apply_data P client_id change
                 else if kind = lit ''close'' then amodify (ag_apply_close client_id)
                 else if kind = lit ''coordinator_upstream_eof'' then ag_replay_upstream_eof client_id change
                 else if kind = lit ''coordinator_msg'' then ag_replay_msg client_id change
                 else if kind = lit ''coordinator_cleanup''
                 then amodify (ag_coordinator_update (cleanup_client client_id))
                 else araise ValueError))"
  by pat_completeness auto
termination
  by (relation "measure (\<lambda>(P, change). size change)") (auto dest: jget_list_size)

declare ag_apply_change.simps [simp del]

record 'p aggregator_dict =
  agd_data_count :: "(int \<times> int) list"
  agd_processors :: "(int \<times> 'p) list"
  agd_closed :: "int set"
  agd_eof_coordinator :: coordinator_dict

text \<open>The snapshot dictionary; \<open>None\<close> is the empty dictionary of a worker never snapshotted.\<close>

definition ag_snapshot :: "'p aggregator \<Rightarrow> 'p aggregator_dict option" where
  "ag_snapshot s =
     Some \<lparr>agd_data_count = data_count_by_client s, agd_processors = processors_by_client s,
           agd_closed = closed_by_client s, agd_eof_coordinator = coordinator_snapshot (ag_coordinator s)\<rparr>"

definition ag_restore :: "'p aggregator_dict option \<Rightarrow> ('p aggregator, unit) act" where
  "ag_restore data s =
     (case data of
        None \<Rightarrow> (Inr (), s\<lparr>data_count_by_client := [], processors_by_client := [], closed_by_client := {}\<rparr>)
      | Some d \<Rightarrow>
          (Inr (), s\<lparr>data_count_by_client := agd_data_count d, processors_by_client := agd_processors d,
             closed_by_client := agd_closed d,
             ag_coordinator := coordinator_restore (agd_eof_coordinator d) (ag_coordinator s)\<rparr>))"

definition aggregator_ops :: "'p processor_ops \<Rightarrow> ('p aggregator, 'p aggregator_dict option) worker_ops" where
  "aggregator_ops P = \<lparr>apply_change = ag_apply_change P, worker_snapshot = ag_snapshot, worker_restore = ag_restore\<rparr>"

subsection \<open>AggregatorWorker\<close>

record aggregator_config =
  agc_id :: int
  agc_amount :: int
  agc_output_queue :: pystr

definition AG_LEADER_ID :: int where "AG_LEADER_ID = 0"

definition ag_packet :: "aggregator_config \<Rightarrow> message_type \<Rightarrow> int \<Rightarrow> int \<Rightarrow> bytes \<Rightarrow> bytes res" where
  "ag_packet cfg msg_type client_id seq payload =
     rbind (client_id_to_bytes client_id) (\<lambda>client_bytes.
     create_addressed_packet (message_type_value msg_type) client_bytes (agc_id cfg) seq payload)"

definition ag_eof_payload :: "aggregator_config \<Rightarrow> int \<Rightarrow> bytes res" where
  "ag_eof_payload cfg expected =
     serialize_control \<lparr>cm_sender_id = agc_id cfg, expected_total = expected, processed_count = 0\<rparr>"

definition build_result_outputs :: "aggregator_config \<Rightarrow> int \<Rightarrow> bytes list \<Rightarrow> logical_output list res" where
  "build_result_outputs cfg client_id rs =
     rbind (rmap (\<lambda>(seq, payload).
        rbind (ag_packet cfg MT_DATA client_id (int seq) payload) (\<lambda>pkt.
        Inr (Out2 (agc_output_queue cfg) pkt))) (enumerate 0 rs)) (\<lambda>outputs.
     rbind (ag_eof_payload cfg (int (length rs))) (\<lambda>eof.
     rbind (ag_packet cfg MT_EOF client_id (int (length rs)) eof) (\<lambda>pkt.
     Inr (outputs @ [Out2 (agc_output_queue cfg) pkt]))))"

type_synonym 'p agg_fn = "bytes \<Rightarrow> ('p aggregator, json \<times> logical_output list) act"

definition bfn_data :: "int \<Rightarrow> 'p agg_fn" where
  "bfn_data client_id payload = areturn (data_change client_id payload, [])"

definition bfn_upstream_eof ::
  "'p processor_ops \<Rightarrow> aggregator_config \<Rightarrow> int \<Rightarrow> control_message \<Rightarrow> int \<Rightarrow> 'p agg_fn" where
  "bfn_upstream_eof P cfg client_id ctrl count payload =
     abind (on_coordinator (on_upstream_eof client_id (expected_total ctrl) count 0)) (\<lambda>action.
     let eof_change = coordinator_upstream_eof_change client_id (expected_total ctrl) count 0 in
     (case action of
        Some (SendAnswerAction queue_name message) \<Rightarrow> areturn (eof_change, [Out2 queue_name message])
      | Some (FlushAction _ _ _) \<Rightarrow>
          abind (aget (results_for P client_id)) (\<lambda>rs.
          abind (alift (rbind rs (build_result_outputs cfg client_id))) (\<lambda>outputs.
          areturn (compound_change [eof_change, close_change client_id], outputs)))
      | _ \<Rightarrow> areturn (eof_change, [])))"

definition bfn_abort :: "aggregator_config \<Rightarrow> int \<Rightarrow> 'p agg_fn" where
  "bfn_abort cfg client_id payload =
     abind (alift (ag_packet cfg MT_ABORT client_id 0 [])) (\<lambda>pkt.
     areturn (abort_change client_id, [Out2 (agc_output_queue cfg) pkt]))"

definition bfn_flush_order :: "'p processor_ops \<Rightarrow> aggregator_config \<Rightarrow> int \<Rightarrow> 'p agg_fn" where
  "bfn_flush_order P cfg client_id payload =
     abind (aget (results_for P client_id)) (\<lambda>rs.
     abind (alift (rbind rs (build_result_outputs cfg client_id))) (\<lambda>outputs.
     abind (aget (\<lambda>s. build_flush_ack (ag_coordinator s) client_id 0)) (\<lambda>msg.
     abind (alift msg) (\<lambda>flush_ack_msg.
     abind (aget (\<lambda>s. response_queue_for (ag_coordinator s) AG_LEADER_ID)) (\<lambda>dest.
     areturn (compound_change [coordinator_cleanup_change client_id, close_change client_id],
              outputs @ [Out2 dest flush_ack_msg]))))))"

definition bfn_flush_ack ::
  "'p processor_ops \<Rightarrow> aggregator_config \<Rightarrow> int \<Rightarrow> control_message \<Rightarrow> int \<Rightarrow> 'p agg_fn" where
  "bfn_flush_ack P cfg client_id ctrl new_ack_count payload =
     (let ack_change = coordinator_msg_change MT_FLUSH_ACK client_id (cm_sender_id ctrl)
            (expected_total ctrl) (processed_count ctrl) 0 0 in
      if new_ack_count \<ge> agc_amount cfg - 1 then
        abind (aget (results_for P client_id)) (\<lambda>rs.
        abind (alift (rbind rs (build_result_outputs cfg client_id))) (\<lambda>outputs.
        areturn (compound_change [ack_change, close_change client_id], outputs)))
      else areturn (ack_change, []))"

text \<open>The thread-local senders publish to the destination queue, whatever it is called.\<close>

definition publish_direct ::
  "(outbox_entry \<Rightarrow> py_error option) \<Rightarrow> outbox_entry list \<Rightarrow> (('s, 'w) runner, unit) act" where
  "publish_direct send = afor (\<lambda>entry.
     (case send entry of
        Some e \<Rightarrow> araise e
      | None \<Rightarrow> amodify (\<lambda>r. r\<lparr>published := published r @ [entry]\<rparr>)))"

definition publish_commit_ack ::
  "('s, 'w) worker_ops \<Rightarrow> (outbox_entry \<Rightarrow> py_error option) \<Rightarrow> instruction \<Rightarrow> (('s, 'w) runner, unit) act" where
  "publish_commit_ack W send instr =
     (case instr of
        Ack \<Rightarrow> areturn ()
      | PublishThenCommit outputs (m, c, s, q, k) \<Rightarrow>
          abind (publish_direct send outputs) (\<lambda>_.
          abind (on_handler (commit_done W m c s q k)) (\<lambda>_. areturn ())))"

definition run_direct ::
  "('s, 'w) worker_ops \<Rightarrow> (outbox_entry \<Rightarrow> py_error option) \<Rightarrow> pystr \<Rightarrow> int \<Rightarrow> int \<Rightarrow> int \<Rightarrow> bytes \<Rightarrow>
   (bytes \<Rightarrow> ('s, json \<times> logical_output list) act) \<Rightarrow> msg_kind \<Rightarrow> (('s, 'w) runner, unit) act" where
  "run_direct W send m c s q p f k =
     abind (on_handler (handle W m c s q p f k)) (publish_commit_ack W send)"

definition ag_data_msg_id :: "int \<Rightarrow> int \<Rightarrow> int \<Rightarrow> pystr" where
  "ag_data_msg_id sender_id client_id seq =
     lit ''d:'' @ int_str sender_id @ [58] @ int_str client_id @ [58] @ int_str seq"

definition ag_flush_order_msg_id :: "int \<Rightarrow> int \<Rightarrow> pystr" where
  "ag_flush_order_msg_id client_id sender_id = lit ''fo:'' @ int_str client_id @ [58] @ int_str sender_id"

definition ag_flush_ack_msg_id :: "int \<Rightarrow> int \<Rightarrow> pystr" where
  "ag_flush_ack_msg_id client_id sender_id = lit ''fa:'' @ int_str client_id @ [58] @ int_str sender_id"

type_synonym 'p agg_runner = "('p aggregator, 'p aggregator_dict option) runner"

abbreviation agg_state :: "'p agg_runner \<Rightarrow> 'p aggregator" where
  "agg_state r \<equiv> h_worker (r_handler r)"

definition ag_handle_abort ::
  "'p processor_ops \<Rightarrow> aggregator_config \<Rightarrow> (outbox_entry \<Rightarrow> py_error option) \<Rightarrow> int \<Rightarrow> int \<Rightarrow> int \<Rightarrow>
   'p agg_runner \<Rightarrow> delivery \<times> 'p agg_runner" where
  "ag_handle_abort P cfg send client_id sender_id seq r =
     (if ag_is_closed client_id (agg_state r) then (Acked, r)
      else attempt (run_direct (aggregator_ops P) send (abort_msg_id sender_id client_id seq) client_id
             sender_id seq [] (bfn_abort cfg client_id) ABORT) r)"

definition process_data_message ::
  "'p processor_ops \<Rightarrow> aggregator_config \<Rightarrow> (outbox_entry \<Rightarrow> py_error option) \<Rightarrow> bytes \<Rightarrow>
   'p agg_runner \<Rightarrow> delivery \<times> 'p agg_runner" where
  "process_data_message P cfg send message r =
     (case unpack_addressed_packet message of
        Inl _ \<Rightarrow> (Nacked True, r)
      | Inr (msg_type, client_id, sender_id, seq, payload) \<Rightarrow>
          (let msg_id = ag_data_msg_id sender_id client_id seq in
           if msg_type = message_type_value MT_DATA then
             attempt (run_direct (aggregator_ops P) send msg_id client_id sender_id seq payload
               (bfn_data client_id) DATA) r
           else if msg_type = message_type_value MT_EOF then
             (case deserialize_control payload of
                Inl _ \<Rightarrow> (Nacked True, r)
              | Inr ctrl \<Rightarrow>
                  if ag_is_closed client_id (agg_state r) then (Acked, r)
                  else
                    (let count = data_count client_id (agg_state r) in
                     attempt (run_direct (aggregator_ops P) send msg_id client_id sender_id seq payload
                       (bfn_upstream_eof P cfg client_id ctrl count) DATA) r))
           else if msg_type = message_type_value MT_ABORT then
             ag_handle_abort P cfg send client_id sender_id seq r
           else (Nacked True, r)))"

definition handle_control ::
  "'p processor_ops \<Rightarrow> aggregator_config \<Rightarrow> (outbox_entry \<Rightarrow> py_error option) \<Rightarrow> bytes \<Rightarrow>
   'p agg_runner \<Rightarrow> delivery \<times> 'p agg_runner" where
  "handle_control P cfg send message r =
     (case parse_message message of
        Inl _ \<Rightarrow> (Nacked False, r)
      | Inr (msg_type, client_id, ctrl) \<Rightarrow>
          if msg_type \<noteq> message_type_value MT_FLUSH_ORDER then (Acked, r)
          else if agc_id cfg = AG_LEADER_ID then (Acked, r)
          else if ag_is_closed client_id (agg_state r) then (Acked, r)
          else attempt (run_direct (aggregator_ops P) send
                 (ag_flush_order_msg_id client_id (cm_sender_id ctrl)) client_id (cm_sender_id ctrl)
                 client_id message (bfn_flush_order P cfg client_id) CTRL_FLUSH_ORDER) r)"

text \<open>
  The leader's answers bypass the handler: the coordinator is changed in memory only. An
  exception there leaves the callback.
\<close>

definition on_agg_state :: "('p aggregator, 'a) act \<Rightarrow> ('p agg_runner, 'a) act" where
  "on_agg_state m = on_handler (on_worker m)"

definition broadcast_entries :: "pystr list \<Rightarrow> bytes \<Rightarrow> outbox_entry list" where
  "broadcast_entries queues message =
     map (\<lambda>q. \<lparr>output_id = [], input_id = [], destination = q, body = message, shard = None\<rparr>) queues"

definition handle_answer ::
  "(outbox_entry \<Rightarrow> py_error option) \<Rightarrow> int \<Rightarrow> control_message \<Rightarrow> ('p agg_runner, unit) act" where
  "handle_answer send client_id ctrl =
     abind (on_agg_state (on_coordinator
              (process_control_message MT_PROCESSED_ANSWER client_id ctrl 0 0))) (\<lambda>action.
     (case action of
        Some (BroadcastAction queues message _) \<Rightarrow> publish_direct send (broadcast_entries queues message)
      | _ \<Rightarrow> areturn ()))"

definition handle_response ::
  "'p processor_ops \<Rightarrow> aggregator_config \<Rightarrow> (outbox_entry \<Rightarrow> py_error option) \<Rightarrow> bytes \<Rightarrow>
   'p agg_runner \<Rightarrow> delivery \<times> 'p agg_runner" where
  "handle_response P cfg send message r =
     (case parse_message message of
        Inl _ \<Rightarrow> (Nacked False, r)
      | Inr (msg_type, client_id, ctrl) \<Rightarrow>
          if msg_type = message_type_value MT_PROCESSED_ANSWER then
            (case handle_answer send client_id ctrl r of
               (Inl e, r') \<Rightarrow> (Raised e, r') | (Inr _, r') \<Rightarrow> (Acked, r'))
          else if msg_type = message_type_value MT_FLUSH_ACK then
            (if ag_is_closed client_id (agg_state r) then (Acked, r)
             else
               (let ec = ag_coordinator (agg_state r);
                    already = has_flush_ack ec client_id (cm_sender_id ctrl);
                    new_ack_count = flush_ack_count ec client_id + (if already then 0 else 1) in
                attempt (run_direct (aggregator_ops P) send
                  (ag_flush_ack_msg_id client_id (cm_sender_id ctrl)) client_id (cm_sender_id ctrl)
                  client_id message (bfn_flush_ack P cfg client_id ctrl new_ack_count) CTRL_FLUSH_ACK) r))
          else (Acked, r))"

subsection \<open>The adapter keeps the contract of a worker state\<close>

definition ag_config :: "'p aggregator \<Rightarrow> int \<times> int \<times> pystr \<times> pystr \<times> ec_mode \<times> int \<times> bool" where
  "ag_config s = coordinator_config (ag_coordinator s)"

lemma keeps_data [keeps_intros]: "keeps ag_config (ag_apply_data P c ch)"
  by (auto simp: keeps_def ag_apply_data_def ag_config_def Let_def split: sum.splits prod.splits)

lemma keeps_on_coordinator [keeps_intros]:
  "keeps coordinator_config m \<Longrightarrow> keeps ag_config (on_coordinator m)"
  by (auto simp: keeps_def on_coordinator_def azoom_def ag_config_def split: prod.splits) (metis snd_conv)

lemma keeps_coordinator [keeps_intros]:
  "keeps coordinator_config (on_upstream_eof c e n f)"
  "keeps coordinator_config (process_control_message t c ctrl n f)"
  unfolding keeps_def using upstream_frame control_frame by (metis prod.collapse)+

lemma keeps_ag_apply_change [keeps_intros]: "keeps ag_config (ag_apply_change P ch)"
proof (induction P ch rule: ag_apply_change.induct)
  case (1 P ch)
  have "ag_config (ag_apply_close c s) = ag_config s"
    "ag_config (ag_coordinator_update (cleanup_client c) s) = ag_config s" for c s
    by (simp_all add: ag_config_def ag_apply_close_def cleanup_frame)
  with 1 show ?case
    by (subst ag_apply_change.simps)
      (auto simp: ag_replay_upstream_eof_def ag_replay_msg_def intro!: keeps_intros split: sum.splits)
qed

interpretation agg: worker_state "aggregator_ops P" "new_aggregator ec" "\<lambda>s. ag_config s = coordinator_config ec"
  for P :: "'p processor_ops" and ec
proof
  show "ag_config (new_aggregator ec) = coordinator_config ec"
    by (simp add: ag_config_def new_aggregator_def)
  show "ag_config s' = coordinator_config ec"
    if "ag_config s = coordinator_config ec" "apply_change (aggregator_ops P) ch s = (Inr (), s')" for s ch s'
    using that keepsD [OF keeps_ag_apply_change, of P ch s] by (simp add: aggregator_ops_def)
  show "worker_restore (aggregator_ops P) (worker_snapshot (aggregator_ops P) s) (new_aggregator ec) = (Inr (), s)"
    if "ag_config s = coordinator_config ec" for s
    using that
    by (simp add: aggregator_ops_def ag_snapshot_def ag_restore_def new_aggregator_def ag_config_def
        coordinator_restore_snapshot)
qed

subsection \<open>Message ids\<close>

fun agg_msg :: "pystr \<Rightarrow> input_key \<Rightarrow> bool" where
  "agg_msg m (c, s, q, k) \<longleftrightarrow>
     k = DATA \<and> m = ag_data_msg_id s c q \<or> k = ABORT \<and> m = abort_msg_id s c q \<or>
     k = CTRL_FLUSH_ORDER \<and> q = c \<and> m = ag_flush_order_msg_id c s \<or>
     k = CTRL_FLUSH_ACK \<and> q = c \<and> m = ag_flush_ack_msg_id c s"

lemmas agg_id_defs = ag_data_msg_id_def abort_msg_id_def ag_flush_order_msg_id_def ag_flush_ack_msg_id_def

lemma lit_prefix: "take (length p) (lit p @ x) = lit p"
  by (simp add: lit_def)

lemma agg_ids_disjoint:
  "ag_data_msg_id a b c \<noteq> abort_msg_id d e f" "ag_data_msg_id a b c \<noteq> ag_flush_order_msg_id d e"
  "ag_data_msg_id a b c \<noteq> ag_flush_ack_msg_id d e" "abort_msg_id a b c \<noteq> ag_flush_order_msg_id d e"
  "abort_msg_id a b c \<noteq> ag_flush_ack_msg_id d e" "ag_flush_order_msg_id a b \<noteq> ag_flush_ack_msg_id d e"
  by (auto simp: agg_id_defs lit_def)

interpretation agg_ids: message_ids agg_msg
proof
  show "x = y" if "agg_msg m (c, x)" "agg_msg m (c, y)" for m c x y
  proof -
    obtain s q k where x: "x = (s, q, k)" by (cases x)
    obtain s' q' k' where y: "y = (s', q', k')" by (cases y)
    have "k = k'" using that by (auto simp: x y agg_ids_disjoint agg_ids_disjoint [symmetric])
    with that show ?thesis
      by (auto simp: x y agg_id_defs split_at_colon)
  qed
  show "m = m'" if "agg_msg m z" "agg_msg m' z" for m m' z
    using that by (cases z) auto
qed

subsection \<open>Every business function is replay consistent\<close>

lemmas change_defs = data_change_def close_change_def coordinator_upstream_eof_change_def
  coordinator_msg_change_def coordinator_cleanup_change_def compound_change_def abort_change_def

lemma change_ok [simp]:
  "state_change_ok (data_change c p)" "state_change_ok (close_change c)"
  "state_change_ok (coordinator_upstream_eof_change c e n f)"
  "state_change_ok (coordinator_msg_change t c s e k n f)"
  "state_change_ok (coordinator_cleanup_change c)" "state_change_ok (abort_change c)"
  by (simp_all add: state_change_ok_def change_defs)

lemma compound_ok: "list_all state_change_ok chs \<Longrightarrow> state_change_ok (compound_change chs)"
  by (induction chs) (auto simp: state_change_ok_def compound_change_def)

lemma apply_simps:
  "ag_apply_change P (data_change c p) = ag_apply_data P c (data_change c p)"
  "ag_apply_change P (close_change c) = amodify (ag_apply_close c)"
  "ag_apply_change P (coordinator_upstream_eof_change c e n f) =
     abind (on_coordinator (on_upstream_eof c e n f)) (\<lambda>_. areturn ())"
  "ag_apply_change P (coordinator_cleanup_change c) = amodify (ag_coordinator_update (cleanup_client c))"
  "ag_apply_change P (compound_change chs) = afor (ag_apply_change P) chs"
  by (subst ag_apply_change.simps,
      simp add: change_defs jget_simps ag_replay_upstream_eof_def fun_eq_iff act_defs)+

lemma apply_msg:
  "ag_apply_change P (coordinator_msg_change t c s e p n f) =
     abind (on_coordinator (process_control_message t c
       \<lparr>cm_sender_id = s, expected_total = e, processed_count = p\<rparr> n f)) (\<lambda>_. areturn ())"
  by (subst ag_apply_change.simps)
    (simp add: coordinator_msg_change_def jget_simps ag_replay_msg_def fun_eq_iff act_defs)

lemma build_result_outputs_ok: "build_result_outputs cfg c rs = Inr outs \<Longrightarrow> list_all out_ok outs"
proof -
  assume "build_result_outputs cfg c rs = Inr outs"
  then obtain os pkt where os: "rmap (\<lambda>(seq, payload). rbind (ag_packet cfg MT_DATA c (int seq) payload) (\<lambda>pkt.
      Inr (Out2 (agc_output_queue cfg) pkt))) (enumerate 0 rs) = Inr os" and outs: "outs = os @ [Out2 (agc_output_queue cfg) pkt]"
    by (auto simp: build_result_outputs_def)
  have "rmap (\<lambda>(seq, payload). rbind (ag_packet cfg MT_DATA c (int seq) payload) (\<lambda>pkt.
      Inr (Out2 (agc_output_queue cfg) pkt))) xs = Inr os \<Longrightarrow> list_all out_ok os" for xs os
    by (induction xs arbitrary: os) (auto simp: out_ok_def)
  from this [OF os] show ?thesis by (simp add: outs out_ok_def)
qed

lemma business_pure:
  assumes "\<And>s. snd (f p s) = s"
    and "\<And>ch outs. fst (f p s) = Inr (ch, outs) \<Longrightarrow> state_change_ok ch \<and> list_all out_ok outs"
  shows "business_ok W f p s"
  using assms by (auto simp: business_ok_def split: prod.splits sum.splits) (metis fst_conv snd_conv)+

lemma business_data: "business_ok W (bfn_data c) p s"
  by (rule business_pure) (auto simp: bfn_data_def areturn_def)

lemma business_abort: "business_ok W (bfn_abort cfg c) p s"
  by (rule business_pure) (auto simp: bfn_abort_def act_defs out_ok_def split: sum.splits)

lemma business_flush_order: "business_ok W (bfn_flush_order P cfg c) p s"
  by (rule business_pure)
    (auto simp: bfn_flush_order_def act_defs out_ok_def compound_ok split: sum.splits
      dest: build_result_outputs_ok)

lemma business_flush_ack: "business_ok W (bfn_flush_ack P cfg c ctrl n) p s"
  by (rule business_pure)
    (auto simp: bfn_flush_ack_def act_defs Let_def compound_ok split: sum.splits if_splits
      dest: build_result_outputs_ok)

text \<open>
  The upstream EOF is the one business function that changes the coordinator before the
  record is written; the change it returns replays the same call, which the second time finds
  the client already seen.
\<close>

lemma on_upstream_eof_again:
  assumes "on_upstream_eof c e n f ec = (Inr a, ec')"
  shows "\<exists>b. on_upstream_eof c e n f ec' = (Inr b, ec')"
proof -
  have s: "snd (on_upstream_eof c e n f ec') = ec'" using assms by (rule on_upstream_eof_twice)
  have "\<exists>b. fst (on_upstream_eof c e n f ec') = Inr b"
    using assms by (auto simp: on_upstream_eof_def Let_def split: if_splits)
  with s show ?thesis by (metis prod.collapse)
qed

lemma apply_eof_again:
  assumes "on_upstream_eof c e n f (ag_coordinator s) = (Inr a, ec')"
  shows "ag_apply_change P (coordinator_upstream_eof_change c e n f) (s\<lparr>ag_coordinator := ec'\<rparr>) = (Inr (), s\<lparr>ag_coordinator := ec'\<rparr>)"
    and "ag_apply_change P (coordinator_upstream_eof_change c e n f) s = (Inr (), s\<lparr>ag_coordinator := ec'\<rparr>)"
  using assms on_upstream_eof_again [OF assms]
  by (auto simp: apply_simps act_defs on_coordinator_def)

lemma business_upstream_eof:
  "business_ok (aggregator_ops P) (bfn_upstream_eof P cfg c ctrl n) p s"
proof -
  obtain r ec' where on: "on_upstream_eof c (expected_total ctrl) n 0 (ag_coordinator s) = (r, ec')"
    by (cases "on_upstream_eof c (expected_total ctrl) n 0 (ag_coordinator s)")
  let ?ch = "coordinator_upstream_eof_change c (expected_total ctrl) n 0"
  show ?thesis
  proof (cases r)
    case (Inl e)
    with on show ?thesis by (simp add: business_ok_def bfn_upstream_eof_def act_defs on_coordinator_def)
  next
    case (Inr a)
    have same: "ag_apply_change P ?ch (s\<lparr>ag_coordinator := ec'\<rparr>) = ag_apply_change P ?ch s"
      using apply_eof_again [where P = P] on Inr by simp
    then have "ag_apply_change P (compound_change [?ch, close_change c]) (s\<lparr>ag_coordinator := ec'\<rparr>)
        = ag_apply_change P (compound_change [?ch, close_change c]) s"
      by (simp only: apply_simps(5) afor.simps abind_def)
    with same Inr on show ?thesis
      by (auto simp: business_ok_def bfn_upstream_eof_def act_defs on_coordinator_def Let_def out_ok_def compound_ok
          aggregator_ops_def split: sum.splits option.splits coordinator_action.splits dest: build_result_outputs_ok)
  qed
qed

subsection \<open>What the log does not carry\<close>

text \<open>
  The answers of the replicas to the leader change the coordinator directly (\<open>_handle_response\<close>); the
  round they belong to is lost in a crash unless a snapshot took it. Everything else of the state is
  changed by logged changes only, and these neither read nor write the round.
\<close>

definition forget_round :: "eof_coordinator \<Rightarrow> eof_coordinator" where
  "forget_round ec = ec\<lparr>leader_processed := [], leader_responders := []\<rparr>"

definition forget_answers :: "'p aggregator \<Rightarrow> 'p aggregator" where
  "forget_answers s = s\<lparr>ag_coordinator := forget_round (ag_coordinator s)\<rparr>"

definition durable_part :: "bool \<Rightarrow> 'p aggregator \<Rightarrow> 'p aggregator" where
  "durable_part answers = (if answers then forget_answers else id)"

definition agg_unlogged :: "bool \<Rightarrow> 'p aggregator \<Rightarrow> 'p aggregator \<Rightarrow> bool" where
  "agg_unlogged answers s s' \<longleftrightarrow> answers \<and>
     (\<exists>c ctrl r. on_coordinator (process_control_message MT_PROCESSED_ANSWER c ctrl 0 0) s = (r, s'))"

lemma answer_round: "forget_round (snd (on_processed_answer c ctrl ec)) = forget_round ec"
  by (simp add: on_processed_answer_def forget_round_def Let_def split: option.split)

lemma agg_unlogged_round:
  assumes "agg_unlogged answers s s'"
  shows "durable_part answers s' = durable_part answers s"
proof -
  obtain c ctrl r where "answers" "on_coordinator (on_processed_answer c ctrl) s = (r, s')"
    using assms by (auto simp: agg_unlogged_def process_control_message_def)
  then have "s' = s\<lparr>ag_coordinator := snd (on_processed_answer c ctrl (ag_coordinator s))\<rparr>"
    by (auto simp: on_coordinator_def azoom_def split: prod.splits)
  with \<open>answers\<close> show ?thesis by (simp add: durable_part_def forget_answers_def answer_round)
qed

text \<open>It is what the handling of an answer does to the handler, whether it returns or raises.\<close>

lemma publish_direct_handler: "publish_direct send es r = (x, r') \<Longrightarrow> r_handler r' = r_handler r"
  unfolding publish_direct_def
  by (erule keepsD [rotated]) (auto intro!: keeps_intros split: option.splits)

lemma handle_answer_unlogged:
  assumes "handle_answer send c ctrl r = (x, r')"
  shows "\<exists>s'. agg_unlogged True (agg_state r) s' \<and> r_handler r' = (r_handler r)\<lparr>h_worker := s'\<rparr>"
proof -
  obtain a s' where a: "on_coordinator (process_control_message MT_PROCESSED_ANSWER c ctrl 0 0) (agg_state r) = (a, s')"
    by fastforce
  then have "agg_unlogged True (agg_state r) s'" by (auto simp: agg_unlogged_def)
  moreover have "r_handler r' = (r_handler r)\<lparr>h_worker := s'\<rparr>"
    using assms a
    by (auto simp: handle_answer_def on_agg_state_def on_handler_def on_worker_def act_defs
        split: sum.splits option.splits coordinator_action.splits dest!: publish_direct_handler)
  ultimately show ?thesis by blast
qed

definition commutes :: "('s \<Rightarrow> 's) \<Rightarrow> ('s, 'a) act \<Rightarrow> bool" where
  "commutes e m \<longleftrightarrow> (\<forall>s. m (e s) = apsnd e (m s))"

lemma commutes_simple: "commutes e (areturn x)" "(\<And>s. f (e s) = e (f s)) \<Longrightarrow> commutes e (amodify f)"
  by (simp_all add: commutes_def act_defs)

lemma commutes_abind: "commutes e m \<Longrightarrow> (\<And>x. commutes e (f x)) \<Longrightarrow> commutes e (abind m f)"
  by (auto simp: commutes_def abind_def split: prod.splits sum.splits)

lemma commutes_afor: "(\<And>x. x \<in> set xs \<Longrightarrow> commutes e (f x)) \<Longrightarrow> commutes e (afor f xs)"
  by (induction xs) (auto intro: commutes_simple commutes_abind)

lemma change_upto_commutes: "commutes e (apply_change W ch) \<Longrightarrow> change_upto W e ch"
  unfolding commutes_def change_upto_def by (metis apsnd_conv prod.collapse prod.inject)

lemma control_queue_round:
  "control_queue_for (ec\<lparr>leader_processed := a, leader_responders := b\<rparr>) = control_queue_for ec"
  by (simp add: control_queue_for_def fun_eq_iff)

lemma commutes_coordinator:
  "commutes forget_round (on_upstream_eof c x n f)" "commutes forget_round (on_flush_ack c ctrl)"
  by (auto simp: commutes_def forget_round_def on_upstream_eof_def on_flush_ack_def is_leader_here_def Let_def
      build_answer_def control_queues_def control_queue_round response_queue_for_def)

lemma commutes_on_coordinator: "commutes forget_round m \<Longrightarrow> commutes forget_answers (on_coordinator m)"
  by (auto simp: commutes_def forget_answers_def on_coordinator_def azoom_def split: prod.splits)

lemma commutes_data: "commutes forget_answers (ag_apply_data P c ch)"
  by (auto simp: commutes_def forget_answers_def ag_apply_data_def data_count_def Let_def split: sum.splits prod.splits)

lemma commutes_changes:
  "commutes forget_answers (ag_apply_change P (data_change c p))"
  "commutes forget_answers (ag_apply_change P (close_change c))"
  "commutes forget_answers (ag_apply_change P (coordinator_upstream_eof_change c e n f))"
  "commutes forget_answers (ag_apply_change P (coordinator_cleanup_change c))"
  "commutes forget_answers (ag_apply_change P (coordinator_msg_change MT_FLUSH_ACK c s e k n f))"
  by (auto simp: apply_simps apply_msg process_control_message_def commutes_data forget_answers_def forget_round_def
      ag_apply_close_def cleanup_client_def
      intro!: commutes_simple commutes_abind commutes_on_coordinator commutes_coordinator)

lemma commutes_compound:
  "(\<And>ch. ch \<in> set chs \<Longrightarrow> commutes forget_answers (ag_apply_change P ch)) \<Longrightarrow>
   commutes forget_answers (ag_apply_change P (compound_change chs))"
  by (simp add: apply_simps commutes_afor)

text \<open>The business functions the worker passes to the handler.\<close>

inductive agg_function :: "'p processor_ops \<Rightarrow> aggregator_config \<Rightarrow> 'p agg_fn \<Rightarrow> bool" for P cfg where
  "agg_function P cfg (bfn_data c)"
| "agg_function P cfg (bfn_upstream_eof P cfg c ctrl n)"
| "agg_function P cfg (bfn_abort cfg c)"
| "agg_function P cfg (bfn_flush_order P cfg c)"
| "agg_function P cfg (bfn_flush_ack P cfg c ctrl n)"

lemma agg_function_change:
  assumes "agg_function P cfg f" and "f p s = (Inr (ch, outs), s1)"
  shows "commutes forget_answers (ag_apply_change P ch)"
  using assms
  by cases
    (auto simp: bfn_data_def bfn_upstream_eof_def bfn_abort_def bfn_flush_order_def bfn_flush_ack_def abort_change_def act_defs Let_def
      split: sum.splits prod.splits option.splits coordinator_action.splits if_splits
      intro!: commutes_changes commutes_compound)

lemma agg_function_upto:
  assumes "agg_function P cfg f"
  shows "business_upto (aggregator_ops P) (durable_part answers) f p s"
proof -
  have "business_ok (aggregator_ops P) f p s"
    using assms by cases (simp_all add: business_data business_upstream_eof business_abort business_flush_order business_flush_ack)
  moreover have "change_upto (aggregator_ops P) (durable_part answers) ch" if "f p s = (Inr (ch, outs), s1)" for ch outs s1
  proof (cases answers)
    case True
    with agg_function_change [OF assms that] show ?thesis
      by (intro change_upto_commutes) (simp add: durable_part_def aggregator_ops_def)
  qed (simp add: durable_part_def change_upto_def)
  ultimately show ?thesis by (auto simp: business_upto_def)
qed

lemma ag_config_part: "ag_config (durable_part answers s) = ag_config s"
  by (simp add: durable_part_def forget_answers_def forget_round_def ag_config_def coordinator_config_def)

interpretation agg_life: durable_life agg_msg "aggregator_ops P" "new_aggregator ec" "\<lambda>s. ag_config s = coordinator_config ec"
    "durable_part answers" "agg_function P cfg" "agg_unlogged answers"
  for P :: "'p processor_ops" and ec cfg answers
proof
  show "ag_config t = coordinator_config ec" if "durable_part answers t = durable_part answers s" "ag_config s = coordinator_config ec" for s t
    using that ag_config_part by metis
  show "business_upto (aggregator_ops P) (durable_part answers) f p s" if "agg_function P cfg f" for f p s
    using that by (rule agg_function_upto)
  show "durable_part answers s' = durable_part answers s" if "agg_unlogged answers s s'" for s s'
    using that by (rule agg_unlogged_round)
qed

subsection \<open>Data is accumulated once, in order, until the client closes\<close>

fun accept_all :: "'p processor_ops \<Rightarrow> bytes list \<Rightarrow> 'p \<Rightarrow> 'p res" where
  "accept_all P [] p = Inr p"
| "accept_all P (b # bs) p = (case accept P b p of (Inl e, _) \<Rightarrow> Inl e | (Inr _, p') \<Rightarrow> accept_all P bs p')"

lemma data_payload: "rbind (jget_str (data_change c b) ''payload'') b64decode = Inr b"
  by (simp add: data_change_def jget_simps b64_roundtrip)

lemma apply_data_eq:
  assumes "c \<notin> closed_by_client s" and "new_processor P = Inr fresh"
    and "accept P b (dget (processors_by_client s) c fresh) = (Inr (), p')"
  shows "ag_apply_change P (data_change c b) s =
    (Inr (), s\<lparr>processors_by_client := dset c p' (processors_by_client s),
             data_count_by_client := dset c (data_count c s + 1) (data_count_by_client s)\<rparr>)"
  using assms
  by (simp add: apply_simps ag_apply_data_def data_payload Let_def data_count_def)

lemma apply_data_all:
  assumes "c \<notin> closed_by_client s" and "new_processor P = Inr fresh"
    and "accept_all P bs (dget (processors_by_client s) c fresh) = Inr p'" and "bs \<noteq> []"
  shows "\<exists>s'. afor (ag_apply_change P) (map (data_change c) bs) s = (Inr (), s') \<and>
    map_of (processors_by_client s') c = Some p' \<and> data_count c s' = data_count c s + int (length bs) \<and>
    closed_by_client s' = closed_by_client s \<and> ag_coordinator s' = ag_coordinator s"
  using assms
proof (induction bs arbitrary: s)
  case (Cons b bs)
  then obtain p1 where p1: "accept P b (dget (processors_by_client s) c fresh) = (Inr (), p1)"
    "accept_all P bs p1 = Inr p'"
    by (auto split: prod.splits sum.splits)
  let ?s1 = "s\<lparr>processors_by_client := dset c p1 (processors_by_client s),
             data_count_by_client := dset c (data_count c s + 1) (data_count_by_client s)\<rparr>"
  note step = apply_data_eq [OF Cons.prems(1,2) p1(1)]
  show ?case
  proof (cases "bs = []")
    case True
    with p1 step show ?thesis by (auto simp: abind_def areturn_def data_count_def)
  next
    case False
    with Cons.IH [of ?s1] Cons.prems p1 step show ?thesis by (auto simp: abind_def data_count_def)
  qed
qed simp

lemma apply_data_closed: "c \<in> closed_by_client s \<Longrightarrow> ag_apply_change P (data_change c b) s = (Inr (), s)"
  by (simp add: apply_simps ag_apply_data_def)

lemma close_idem: "ag_apply_close c (ag_apply_close c s) = ag_apply_close c s"
  by (simp add: ag_apply_close_def dpop_absent)

subsection \<open>Q5AggregatorProcessor\<close>

definition q5_processor :: "int processor_ops" where
  "q5_processor =
     \<lparr>new_processor = Inr 0, accept = (\<lambda>_ n. (Inr (), n + 1)),
      results = (\<lambda>n. rbind (serialize_count n) (\<lambda>b. Inr [b]))\<rparr>"

lemma q5_accept_all: "accept_all q5_processor bs n = Inr (n + int (length bs))"
  by (induction bs arbitrary: n) (auto simp: q5_processor_def)

lemma apply_new_data:
  assumes st: "h_inbox h = ib" "c \<notin> closed_by_client (h_worker h)" "new_processor P = Inr fresh"
    "accept P p (dget (processors_by_client (h_worker h)) c fresh) = (Inr (), p')"
    and enc: "encode_record (applied_record m c s q k (data_change c p) []) = Inr d"
  shows "apply_new (aggregator_ops P) m c s q p (bfn_data c) k h =
    (Inr (), h\<lparr>h_wal := (h_wal h)\<lparr>wal_current := Some (wal_file (h_wal h) @ d)\<rparr>,
       h_worker := (h_worker h)\<lparr>processors_by_client := dset c p' (processors_by_client (h_worker h)),
             data_count_by_client := dset c (data_count c (h_worker h) + 1) (data_count_by_client (h_worker h))\<rparr>,
       h_inbox := mark_applied c s q k (h_inbox h), h_outbox := outbox_add c m [] (h_outbox h),
       applied_since_snapshot := applied_since_snapshot h + 1\<rparr>)"
  using st apply_data_eq [OF st(2,3,4)] wal_append_ok [OF enc [unfolded applied_record_def], of "h_wal h"]
  by (simp add: apply_new_def handler_act_defs bfn_data_def stamp_def observe_outputs_def aggregator_ops_def)

subsection \<open>A concrete aggregator\<close>

definition demo_coordinator :: eof_coordinator where
  "demo_coordinator = \<lparr>ec_id = 0, ec_total = 2, ec_control_prefix = [99], ec_response_prefix = [114], ec_mode = FlushOrder,
     ec_leader_id = 0, ec_is_leader = True, pending_eof = [], seen_eof = {}, leader_expected = [], leader_processed = [],
     leader_responders = [], flush_acks = [], forwarded_from_acks = []\<rparr>"

definition demo_handler :: "(int aggregator, int aggregator_dict option) handler" where
  "demo_handler = \<lparr>h_node_id = [97], snapshot_every = 1, output_edges = [], h_worker = new_aggregator demo_coordinator,
          h_last_state = new_last_state, h_wal = \<lparr>wal_current = Some [], wal_previous = None\<rparr>, h_inbox = new_inbox, h_outbox = [],
          h_sequencer = \<lparr>node_id = [97], edges = [], next_seq = [], next_addr_seq = []\<rparr>,
          applied_since_snapshot = 0\<rparr>"

lemma demo_start: "restart (aggregator_ops q5_processor) [97] (new_aggregator demo_coordinator) 1 [] new_last_state
   \<lparr>wal_current = None, wal_previous = None\<rparr> = Inr demo_handler"
  by code_simp

abbreviation demo_ops :: "(int aggregator, int aggregator_dict option) worker_ops" where
  "demo_ops \<equiv> aggregator_ops q5_processor"

abbreviation demo_worker :: "int aggregator" where
  "demo_worker \<equiv> new_aggregator demo_coordinator"

abbreviation demo_id :: pystr where
  "demo_id \<equiv> ag_data_msg_id 1 2 1"

lemma demo_encodes: "\<exists>d. encode_record (applied_record demo_id 2 1 1 DATA (data_change 2 [5]) []) = Inr d"
proof -
  have "length (dumps (data_change 2 [5])) < 2 ^ 31"
    by (simp add: data_change_def dumps_str_def escape_char_def lit_def b64encode_def b64_char_def int_str_def nat_str.simps)
  then show ?thesis
    using encode_applied_ok [of demo_id 2 1 1 "data_change 2 [5]" DATA]
    by (auto simp: ag_data_msg_id_def field_u32_def lit_def ascii_def int_str_def nat_str.simps)
qed

lemma demo_done_encodes: "\<exists>d. encode_record (done_record demo_id 2 1 1 DATA) = Inr d"
  using encode_done_ok [of demo_id 2 1 1 DATA]
  by (auto simp: ag_data_msg_id_def field_u32_def lit_def ascii_def int_str_def nat_str.simps)

lemma demo_handle:
  "\<exists>h. handle demo_ops demo_id 2 1 1 [5] (bfn_data 2) DATA demo_handler
    = (Inr (PublishThenCommit [] (demo_id, 2, 1, 1, DATA)), h) \<and> data_count 2 (h_worker h) = 1 \<and>
    applied_since_snapshot h = 1 \<and> snapshot_every h = 1 \<and> classify (h_inbox h) 2 1 1 DATA = APPLIED"
proof -
  obtain d where d: "encode_record (applied_record demo_id 2 1 1 DATA (data_change 2 [5]) []) = Inr d"
    using demo_encodes by blast
  show ?thesis
    using apply_new_data [OF refl _ _ _ d, of demo_handler q5_processor 0 1]
    by (simp add: handle_def act_defs demo_handler_def new_aggregator_def q5_processor_def new_inbox_def classify_def
        data_count_def dget_def mark_applied_def entries_for_input_def outbox_add_def)
qed

abbreviation demo_config :: aggregator_config where
  "demo_config \<equiv> \<lparr>agc_id = 0, agc_amount = 2, agc_output_queue = lit ''out''\<rparr>"

abbreviation demo_life :: "bool \<Rightarrow> (int aggregator, int aggregator_dict option) handler \<Rightarrow> bool" where
  "demo_life answers \<equiv> lifetime demo_ops demo_worker (agg_function q5_processor demo_config) (agg_unlogged answers) agg_msg [97] 1 [] True"

lemma demo_lifetime: "demo_life answers demo_handler"
  by (rule first_start [OF demo_start])

lemma demo_lifetime_handled:
  "\<exists>h. demo_life answers h \<and> data_count 2 (h_worker h) = 1 \<and>
    applied_since_snapshot h = 1 \<and> snapshot_every h = 1 \<and> classify (h_inbox h) 2 1 1 DATA = APPLIED"
proof -
  obtain h where h: "handle demo_ops demo_id 2 1 1 [5] (bfn_data 2) DATA demo_handler
    = (Inr (PublishThenCommit [] (demo_id, 2, 1, 1, DATA)), h)" "data_count 2 (h_worker h) = 1"
    "applied_since_snapshot h = 1" "snapshot_every h = 1" "classify (h_inbox h) 2 1 1 DATA = APPLIED"
    using demo_handle by blast
  have "demo_life answers h"
    by (rule handled [OF demo_lifetime _ agg_function.intros(1) h(1)]) simp
  with h show ?thesis by blast
qed

text \<open>Replica 1 answers the leader that it processed 4 messages of client 2.\<close>

lemma demo_lifetime_answered:
  "\<exists>h. demo_life True h \<and> has_responder (ag_coordinator (h_worker h)) 2 1"
proof -
  let ?m = "on_coordinator (process_control_message MT_PROCESSED_ANSWER 2 \<lparr>cm_sender_id = 1, expected_total = 0, processed_count = 4\<rparr> 0 0)"
  have "agg_unlogged True (h_worker demo_handler) (snd (?m demo_worker))"
    unfolding agg_unlogged_def by (simp add: demo_handler_def) (metis prod.collapse)
  from not_logged [OF demo_lifetime this] have "demo_life True (demo_handler\<lparr>h_worker := snd (?m demo_worker)\<rparr>)" .
  moreover have "has_responder (ag_coordinator (snd (?m demo_worker))) 2 1" by code_simp
  ultimately show ?thesis by fastforce
qed

subsection \<open>Properties\<close>

text \<open>
  C2: durability of the aggregator. Take any life of its handler: messages handled by the worker's own
  business functions and committed by calls that return, answers of replicas to the leader, snapshots,
  restarts, crashes inside a snapshot, a log rotation or an append. In every state in which the current log
  segment holds no torn record (the flag of \<open>lifetime\<close>), a restart on the files as they are succeeds and
  gives back the handler in memory, except for the leader's current answer round (who answered and how
  much they processed), which is not logged and is lost unless a snapshot took it. Without answers the
  restart gives back exactly the handler in memory. A torn record stays in the segment until the next
  snapshot rotates the log: states between the two, and lives with another restart between the two, are
  not covered. No output edge has a colon in its name.
\<close>

theorem aggregator_recovers_memory:
  assumes "lifetime (aggregator_ops P) (new_aggregator ec) (agg_function P cfg) (agg_unlogged answers) agg_msg node every es True h"
    and "edges_ok es"
  shows "\<exists>t. restarts (aggregator_ops P) (new_aggregator ec) h (h_last_state h) (h_wal h) = Inr (h\<lparr>h_worker := t\<rparr>) \<and>
    forget_answers t = forget_answers (h_worker h) \<and> (\<not> answers \<longrightarrow> t = h_worker h)"
  using agg_life.durable_restarts [OF agg_life.lifetime_durable [OF assms]]
  by (auto simp: durable_part_def split: if_splits)

text \<open>Once with a payload handled and no answers, once with an answer of replica 1.\<close>

theorem aggregator_recovers_memory_witness:
  "(\<exists>h. demo_life False h \<and> data_count 2 (h_worker h) = 1 \<and> restarts demo_ops demo_worker h (h_last_state h) (h_wal h) = Inr h) \<and>
   (\<exists>h t. demo_life True h \<and> has_responder (ag_coordinator (h_worker h)) 2 1 \<and>
      restarts demo_ops demo_worker h (h_last_state h) (h_wal h) = Inr (h\<lparr>h_worker := t\<rparr>) \<and>
      forget_answers t = forget_answers (h_worker h))"
proof
  obtain h where h: "demo_life False h" "data_count 2 (h_worker h) = 1" using demo_lifetime_handled by blast
  from aggregator_recovers_memory [OF h(1)] h
  show "\<exists>h. demo_life False h \<and> data_count 2 (h_worker h) = 1 \<and> restarts demo_ops demo_worker h (h_last_state h) (h_wal h) = Inr h"
    by (auto simp: edges_ok_def)
  obtain g where g: "demo_life True g" "has_responder (ag_coordinator (h_worker g)) 2 1" using demo_lifetime_answered by blast
  from aggregator_recovers_memory [OF g(1)] g
  show "\<exists>h t. demo_life True h \<and> has_responder (ag_coordinator (h_worker h)) 2 1 \<and>
      restarts demo_ops demo_worker h (h_last_state h) (h_wal h) = Inr (h\<lparr>h_worker := t\<rparr>) \<and>
      forget_answers t = forget_answers (h_worker h)"
    by (auto simp: edges_ok_def)
qed

text \<open>
  C3: take any life of the aggregator's handler (its own business functions, calls that return, answers to
  the leader, snapshots, restarts, crashes; \<open>lifetime\<close>) and a state of it whose log segment holds no torn
  record. A crash at any byte of the log record
  that \<open>handle\<close> writes for one of the worker's business functions leaves files from which the restart
  succeeds and recovers the memory of before the message or of after it, never anything between: the same
  inbox, outbox and sequencer, and the same worker state up to the leader's answer round (exactly the same
  without answers). The crash itself may leave a torn record: what is appended behind it before the next
  snapshot is not covered.
\<close>

theorem aggregator_crash_in_handle:
  assumes "lifetime (aggregator_ops P) (new_aggregator ec) (agg_function P cfg) (agg_unlogged answers) agg_msg node every es True h"
    and "edges_ok es" and "agg_msg m (c, s, q, k)" and "agg_function P cfg f"
    and "handle (aggregator_ops P) m c s q p f k h = (Inr i, h')"
    and "(ls, w) \<in> set (handle_disks m c s q p f k h)"
  shows "\<exists>hr. restarts (aggregator_ops P) (new_aggregator ec) h ls w = Inr hr \<and>
    (same_memory (durable_part answers) hr h \<or> same_memory (durable_part answers) hr h')"
  by (rule agg_life.crash_handle [OF agg_life.lifetime_durable [OF assms(1,2)] assms(3) agg_function_upto [OF assms(4)] assms(5,6)])

theorem aggregator_crash_in_handle_witness:
  "\<exists>h' ls w hr. handle demo_ops demo_id 2 1 1 [5] (bfn_data 2) DATA demo_handler
       = (Inr (PublishThenCommit [] (demo_id, 2, 1, 1, DATA)), h') \<and>
     length (wal_file w) = 3 \<and> restarts demo_ops demo_worker demo_handler ls w = Inr hr \<and>
     (same_memory (durable_part False) hr demo_handler \<or> same_memory (durable_part False) hr h')"
proof -
  obtain d where d: "encode_record (applied_record demo_id 2 1 1 DATA (data_change 2 [5]) []) = Inr d"
    using demo_encodes by blast
  obtain h' where h': "handle demo_ops demo_id 2 1 1 [5] (bfn_data 2) DATA demo_handler
    = (Inr (PublishThenCommit [] (demo_id, 2, 1, 1, DATA)), h')" using demo_handle by blast
  let ?w = "\<lparr>wal_current = Some (take 3 d), wal_previous = None\<rparr>"
  have len: "3 \<le> length d" using d by (auto simp: encode_record_def applied_record_def frame_record_def)
  have "(new_last_state, ?w) \<in> set (handle_disks demo_id 2 1 1 [5] (bfn_data 2) DATA demo_handler)"
    using d by (auto simp: handle_disks_def append_disks_def bfn_data_def areturn_def stamp_def demo_handler_def
        new_inbox_def classify_def dget_def wal_file_def take_is_prefix image_iff)
  from aggregator_crash_in_handle [OF demo_lifetime _ _ agg_function.intros(1) h' this] obtain hr where
    "restarts demo_ops demo_worker demo_handler new_last_state ?w = Inr hr"
    "same_memory (durable_part False) hr demo_handler \<or> same_memory (durable_part False) hr h'" by (auto simp: edges_ok_def)
  with len h' show ?thesis
    by (intro exI [of _ h'] exI [of _ new_last_state] exI [of _ ?w] exI [of _ hr]) (simp add: wal_file_def)
qed

text \<open>
  C4: take any life of the aggregator's handler as for \<open>handle\<close> and a state of it whose log segment holds no
  torn record. A crash inside \<open>commit_done\<close>, at any byte of its log record, at any step of the snapshot's
  double buffer or at any step of the log rotation, leaves files from which the restart succeeds and
  recovers the memory of before the commit or of after it: the same inbox, outbox and sequencer, and the
  same worker state up to the leader's answer round, which is not logged (exactly the same without answers).
\<close>

theorem aggregator_crash_in_commit:
  assumes "lifetime (aggregator_ops P) (new_aggregator ec) (agg_function P cfg) (agg_unlogged answers) agg_msg node every es True h"
    and "edges_ok es" and "agg_msg m (c, s, q, k)" and "commit_done (aggregator_ops P) m c s q k h = (Inr i, h')"
    and "(ls, w) \<in> set (commit_done_disks (aggregator_ops P) m c s q k h)"
  shows "\<exists>hr. restarts (aggregator_ops P) (new_aggregator ec) h ls w = Inr hr \<and>
    (same_memory (durable_part answers) hr h \<or> same_memory (durable_part answers) hr h')"
  by (rule agg_life.crash_commit_done [OF agg_life.lifetime_durable [OF assms(1,2)] assms(3-5)])

theorem aggregator_crash_in_commit_witness:
  "\<exists>h h' w' ls hr. demo_life False h \<and> data_count 2 (h_worker h) = 1 \<and>
     commit_done demo_ops demo_id 2 1 1 DATA h = (Inr Ack, h') \<and> load ls \<noteq> None \<and> wal_file w' \<noteq> [] \<and>
     restarts demo_ops demo_worker h ls w' = Inr hr \<and>
     (same_memory (durable_part False) hr h \<or> same_memory (durable_part False) hr h')"
proof -
  obtain h where h: "demo_life False h" "data_count 2 (h_worker h) = 1"
    "applied_since_snapshot h = 1" "snapshot_every h = 1"
    using demo_lifetime_handled by blast
  obtain d where d: "encode_record (done_record demo_id 2 1 1 DATA) = Inr d" using demo_done_encodes by blast
  note ap = wal_append_ok [OF d, of "h_wal h"]
  let ?w = "(h_wal h)\<lparr>wal_current := Some (wal_file (h_wal h) @ d)\<rparr>"
  let ?h1 = "finish_input demo_id 2 1 1 DATA ?w h"
  let ?ls = "commit (make_snapshot demo_ops ?h1) (h_last_state h)"
  have cd: "commit_done demo_ops demo_id 2 1 1 DATA h = (Inr Ack, snapshotted demo_ops ?h1)"
    using h by (simp add: commit_done_eq ap)
  have "(?ls, ?w) \<in> set (commit_done_disks demo_ops demo_id 2 1 1 DATA h)"
    using h by (simp add: commit_done_disks_def ap snapshot_disks_def Let_def commit_points_def finish_input_def)
  from aggregator_crash_in_commit [OF h(1) _ _ cd this] obtain hr where
    "restarts demo_ops demo_worker h ?ls ?w = Inr hr"
    "same_memory (durable_part False) hr h \<or> same_memory (durable_part False) hr (snapshotted demo_ops ?h1)"
    by (auto simp: edges_ok_def)
  moreover have "d \<noteq> []" using d by (auto simp: encode_record_def done_record_def frame_record_def)
  then have "wal_file ?w \<noteq> []" by (simp add: wal_file_def [of ?w])
  moreover have "load ?ls \<noteq> None" by simp
  ultimately show ?thesis using h cd by blast
qed

end
