(* ===== verification/BatchBuffer.thy ===== *)
theory BatchBuffer
  imports Bytes
begin

text \<open>
  \<open>src/src/common/batch_buffer.py\<close>: small payloads are collected per key and leave as one joined
  batch when a limit is reached. The class has two interfaces: \<open>append\<close> and \<open>flush\<close> mutate and
  return, \<open>plan_append\<close>, \<open>plan_drain\<close> and \<open>apply_append\<close> split the decision from the mutation for
  the write-ahead log. The two are shown to agree, and batching is shown to lose, repeat and
  reorder nothing.
\<close>

subsection \<open>State and operations\<close>

record 'k batch_buffer =
  max_bytes :: int
  max_items :: int
  buffers :: "('k \<times> bytes list) list"
  bytes_by_key :: "('k \<times> int) list"

definition new_batch_buffer :: "int \<Rightarrow> int \<Rightarrow> 'k batch_buffer" where
  "new_batch_buffer mb mi = \<lparr>max_bytes = mb, max_items = mi, buffers = [], bytes_by_key = []\<rparr>"

definition len_int :: "'a list \<Rightarrow> int" where
  "len_int xs = int (length xs)"

definition flush_key_locked :: "'k \<Rightarrow> 'k batch_buffer \<Rightarrow> bytes option \<times> 'k batch_buffer" where
  "flush_key_locked key b =
     (let buf = map_of (buffers b) key;
          b' = b\<lparr>buffers := dpop key (buffers b), bytes_by_key := dpop key (bytes_by_key b)\<rparr>
      in (case buf of
            None \<Rightarrow> (None, b')
          | Some ps \<Rightarrow> (if ps = [] then None else Some (concat ps), b')))"

definition bb_append :: "'k \<Rightarrow> bytes \<Rightarrow> 'k batch_buffer \<Rightarrow> bytes option \<times> 'k batch_buffer" where
  "bb_append key payload b =
     (let buf = dget (buffers b) key [] @ [payload];
          new_bytes = dget (bytes_by_key b) key 0 + len_int payload;
          b' = b\<lparr>buffers := dset key buf (buffers b), bytes_by_key := dset key new_bytes (bytes_by_key b)\<rparr>
      in if len_int buf \<ge> max_items b \<or> new_bytes \<ge> max_bytes b
         then flush_key_locked key b' else (None, b'))"

fun flush_keys :: "'k list \<Rightarrow> 'k batch_buffer \<Rightarrow> ('k \<times> bytes) list \<times> 'k batch_buffer" where
  "flush_keys [] b = ([], b)"
| "flush_keys (key # keys) b =
     (case flush_key_locked key b of (payload, b') \<Rightarrow>
      (case flush_keys keys b' of (out, b'') \<Rightarrow>
       ((case payload of None \<Rightarrow> out | Some p \<Rightarrow> (key, p) # out), b'')))"

definition bb_flush :: "('k \<Rightarrow> bool) \<Rightarrow> 'k batch_buffer \<Rightarrow> ('k \<times> bytes) list \<times> 'k batch_buffer" where
  "bb_flush predicate b = flush_keys (filter predicate (map fst (buffers b))) b"

definition bb_discard :: "('k \<Rightarrow> bool) \<Rightarrow> 'k batch_buffer \<Rightarrow> 'k batch_buffer" where
  "bb_discard predicate b =
     foldl (\<lambda>b key. b\<lparr>buffers := dpop key (buffers b), bytes_by_key := dpop key (bytes_by_key b)\<rparr>)
       b (filter predicate (map fst (buffers b)))"

fun simulate_append ::
  "bytes list \<Rightarrow> int \<Rightarrow> bytes list \<Rightarrow> int \<Rightarrow> int \<Rightarrow> bytes list \<times> bytes list \<times> int" where
  "simulate_append cur cur_bytes [] mi mb = ([], cur, cur_bytes)"
| "simulate_append cur cur_bytes (payload # payloads) mi mb =
     (let cur' = cur @ [payload];
          cur_bytes' = cur_bytes + len_int payload
      in if len_int cur' \<ge> mi \<or> cur_bytes' \<ge> mb
         then (case simulate_append [] 0 payloads mi mb of
                 (flushed, rem, rem_bytes) \<Rightarrow> (concat cur' # flushed, rem, rem_bytes))
         else simulate_append cur' cur_bytes' payloads mi mb)"

definition simulate_key :: "'k \<Rightarrow> bytes list \<Rightarrow> 'k batch_buffer \<Rightarrow> bytes list \<times> bytes list \<times> int" where
  "simulate_key key payloads b =
     simulate_append (dget (buffers b) key []) (dget (bytes_by_key b) key 0) payloads (max_items b) (max_bytes b)"

definition plan_append :: "'k \<Rightarrow> bytes list \<Rightarrow> 'k batch_buffer \<Rightarrow> bytes list" where
  "plan_append key payloads b = (case simulate_key key payloads b of (flushed, _, _) \<Rightarrow> flushed)"

definition apply_append :: "'k \<Rightarrow> bytes list \<Rightarrow> 'k batch_buffer \<Rightarrow> 'k batch_buffer" where
  "apply_append key payloads b =
     (case simulate_key key payloads b of (_, rem, rem_bytes) \<Rightarrow>
      if rem \<noteq> []
      then b\<lparr>buffers := dset key rem (buffers b), bytes_by_key := dset key rem_bytes (bytes_by_key b)\<rparr>
      else b\<lparr>buffers := dpop key (buffers b), bytes_by_key := dpop key (bytes_by_key b)\<rparr>)"

definition plan_drain :: "('k \<Rightarrow> bool) \<Rightarrow> 'k batch_buffer \<Rightarrow> ('k \<times> bytes) list" where
  "plan_drain predicate b =
     map (\<lambda>(key, buf). (key, concat buf)) (filter (\<lambda>(key, buf). predicate key \<and> buf \<noteq> []) (buffers b))"

record 'k buffer_snapshot =
  bs_buffers :: "('k \<times> bytes list) list"
  bs_bytes_by_key :: "('k \<times> int) list"

definition bb_snapshot :: "'k batch_buffer \<Rightarrow> 'k buffer_snapshot" where
  "bb_snapshot b = \<lparr>bs_buffers = buffers b, bs_bytes_by_key = bytes_by_key b\<rparr>"

definition bb_restore :: "'k buffer_snapshot \<Rightarrow> 'k batch_buffer \<Rightarrow> 'k batch_buffer" where
  "bb_restore snap b = b\<lparr>buffers := bs_buffers snap, bytes_by_key := bs_bytes_by_key snap\<rparr>"

subsection \<open>What is buffered, and the invariant\<close>

text \<open>
  A buffer is well-formed when its dictionaries have the same keys, every kept buffer is non-empty
  and below both limits, and the byte counter is the size of what is kept.
\<close>

definition below_limits :: "int \<Rightarrow> int \<Rightarrow> bytes list \<Rightarrow> bool" where
  "below_limits mi mb buf \<longleftrightarrow> len_int buf < mi \<and> len_int (concat buf) < mb"

definition buffer_ok :: "'k batch_buffer \<Rightarrow> bool" where
  "buffer_ok b \<longleftrightarrow> dict_wf (buffers b) \<and> dict_wf (bytes_by_key b) \<and>
     (\<forall>key. map_of (bytes_by_key b) key = map_option (\<lambda>buf. len_int (concat buf)) (map_of (buffers b) key)) \<and>
     (\<forall>key buf. map_of (buffers b) key = Some buf \<longrightarrow> buf \<noteq> [] \<and> below_limits (max_items b) (max_bytes b) buf)"

abbreviation kept :: "'k batch_buffer \<Rightarrow> 'k \<Rightarrow> bytes list" where
  "kept b key \<equiv> dget (buffers b) key []"

lemma len_int_simps [simp]:
  "len_int [] = 0" "len_int (x # xs) = len_int xs + 1" "len_int (xs @ ys) = len_int xs + len_int ys"
  by (simp_all add: len_int_def)

lemma buffer_ok_counter: "buffer_ok b \<Longrightarrow> dget (bytes_by_key b) key 0 = len_int (concat (kept b key))"
  by (simp add: buffer_ok_def dget_def split: option.split)

lemma buffer_ok_new [simp]: "buffer_ok (new_batch_buffer mb mi)"
  by (simp add: buffer_ok_def new_batch_buffer_def)

lemma kept_limits: "buffer_ok b \<Longrightarrow> kept b key = [] \<or> below_limits (max_items b) (max_bytes b) (kept b key)"
  by (auto simp: buffer_ok_def dget_def split: option.split)

lemma simulate_append_flow:
  "simulate_append cur n payloads mi mb = (flushed, rem, rem_bytes) \<Longrightarrow>
   concat flushed @ concat rem = concat cur @ concat payloads"
  by (induction cur n payloads mi mb arbitrary: flushed rem rem_bytes rule: simulate_append.induct)
    (auto simp: Let_def split: if_splits prod.splits)

lemma simulate_append_rest:
  "cur = [] \<or> below_limits mi mb cur \<Longrightarrow>
   simulate_append cur (len_int (concat cur)) payloads mi mb = (flushed, rem, n) \<Longrightarrow>
   n = len_int (concat rem) \<and> (rem = [] \<or> below_limits mi mb rem)"
proof (induction payloads arbitrary: cur flushed)
  case (Cons payload payloads)
  let ?cur = "cur @ [payload]"
  show ?case
  proof (cases "len_int ?cur \<ge> mi \<or> len_int (concat ?cur) \<ge> mb")
    case True
    with Cons.prems(2) obtain flushed' where "simulate_append [] (len_int (concat ([] :: bytes list))) payloads mi mb = (flushed', rem, n)"
      by (auto simp: Let_def split: prod.splits)
    from Cons.IH [OF _ this] show ?thesis by simp
  next
    case False
    with Cons.prems(2) have "simulate_append ?cur (len_int (concat ?cur)) payloads mi mb = (flushed, rem, n)"
      by (auto simp: Let_def)
    from Cons.IH [OF _ this] False show ?thesis by (simp add: below_limits_def)
  qed
qed auto

lemma apply_append_keeps_settings [simp]:
  "max_items (apply_append key payloads b) = max_items b" "max_bytes (apply_append key payloads b) = max_bytes b"
  by (simp_all add: apply_append_def split: prod.split)

lemma kept_apply_append:
  "kept (apply_append key payloads b) k =
   (if k = key then fst (snd (simulate_key key payloads b)) else kept b k)"
  by (auto simp: apply_append_def split: prod.split)

lemma apply_append_ok:
  assumes ok: "buffer_ok b"
  shows "buffer_ok (apply_append key payloads b)"
proof -
  obtain flushed rem n where sim: "simulate_key key payloads b = (flushed, rem, n)"
    by (cases "simulate_key key payloads b")
  then have run: "simulate_append (kept b key) (len_int (concat (kept b key))) payloads (max_items b) (max_bytes b)
      = (flushed, rem, n)"
    by (simp add: simulate_key_def buffer_ok_counter [OF ok])
  have "n = len_int (concat rem)" and "rem = [] \<or> below_limits (max_items b) (max_bytes b) rem"
    using simulate_append_rest [OF kept_limits [OF ok] run] by auto
  with ok sim show ?thesis by (auto simp: buffer_ok_def apply_append_def)
qed

text \<open>What a key's stream has produced so far plus what is still kept is what went in.\<close>

lemma plan_apply_flow:
  "concat (plan_append key payloads b) @ concat (kept (apply_append key payloads b) key) =
   concat (kept b key) @ concat payloads"
  by (simp add: plan_append_def kept_apply_append simulate_key_def split: prod.split)
    (metis fst_conv simulate_append_flow snd_conv)

subsection \<open>Runs of the log interface\<close>

text \<open>
  A worker feeds the buffer a sequence of inputs, each a key with its payloads, publishing what
  \<open>plan_append\<close> says before \<open>apply_append\<close> commits it; at the end it drains.
\<close>

fun batch_run :: "('k \<times> bytes list) list \<Rightarrow> 'k batch_buffer \<Rightarrow> ('k \<times> bytes) list \<times> 'k batch_buffer" where
  "batch_run [] b = ([], b)"
| "batch_run ((key, payloads) # inputs) b =
     (case batch_run inputs (apply_append key payloads b) of (out, b') \<Rightarrow>
      (map (Pair key) (plan_append key payloads b) @ out, b'))"

fun of_key :: "'k \<Rightarrow> ('k \<times> 'a) list \<Rightarrow> 'a list" where
  "of_key key [] = []"
| "of_key key ((k, x) # xs) = (if k = key then x # of_key key xs else of_key key xs)"

lemma of_key_append: "of_key key (xs @ ys) = of_key key xs @ of_key key ys"
  by (induction key xs rule: of_key.induct) auto

lemma of_key_Pair: "of_key key (map (Pair k) xs) = (if k = key then xs else [])"
  by (induction xs) auto

lemma of_key_none: "map_of d key = None \<Longrightarrow> of_key key d = []"
  by (induction key d rule: of_key.induct) (auto split: if_splits)

lemma of_key_dict: "dict_wf d \<Longrightarrow> of_key key d = (case map_of d key of None \<Rightarrow> [] | Some v \<Rightarrow> [v])"
  by (induction key d rule: of_key.induct) (auto simp: of_key_none)

lemma batch_run_ok: "buffer_ok b \<Longrightarrow> buffer_ok (snd (batch_run inputs b))"
  by (induction inputs b rule: batch_run.induct) (auto simp: apply_append_ok split: prod.split)

lemma batch_run_flow:
  "concat (of_key key (fst (batch_run inputs b))) @ concat (kept (snd (batch_run inputs b)) key) =
   concat (kept b key) @ concat (concat (of_key key inputs))"
proof (induction inputs b rule: batch_run.induct)
  case (2 k payloads inputs b)
  then show ?case
    using plan_apply_flow [of k payloads b]
    by (cases "batch_run inputs (apply_append k payloads b)") (auto simp: of_key_append of_key_Pair kept_apply_append)
qed simp

lemma of_key_drained:
  "of_key key (map (\<lambda>(k, buf). (k, concat buf)) (filter (\<lambda>(k, buf). predicate k \<and> buf \<noteq> []) bufs)) =
   map concat (filter (\<lambda>buf. predicate key \<and> buf \<noteq> []) (of_key key bufs))"
  by (induction key bufs rule: of_key.induct) auto

lemma of_key_drain:
  assumes "buffer_ok b"
  shows "concat (of_key key (plan_drain predicate b)) = (if predicate key then concat (kept b key) else [])"
  using assms by (auto simp: plan_drain_def of_key_drained of_key_dict buffer_ok_def dget_def split: option.split)

subsection \<open>The two interfaces agree\<close>

fun append_all :: "'k \<Rightarrow> bytes list \<Rightarrow> 'k batch_buffer \<Rightarrow> bytes list \<times> 'k batch_buffer" where
  "append_all key [] b = ([], b)"
| "append_all key (payload # payloads) b =
     (case bb_append key payload b of (r, b') \<Rightarrow>
      (case append_all key payloads b' of (out, b'') \<Rightarrow>
       ((case r of None \<Rightarrow> out | Some batch \<Rightarrow> batch # out), b'')))"

text \<open>Two buffers with the same contents; only the insertion order of their keys may differ.\<close>

definition same_contents :: "'k batch_buffer \<Rightarrow> 'k batch_buffer \<Rightarrow> bool" where
  "same_contents b b' \<longleftrightarrow> max_items b = max_items b' \<and> max_bytes b = max_bytes b' \<and>
     map_of (buffers b) = map_of (buffers b') \<and> map_of (bytes_by_key b) = map_of (bytes_by_key b')"

lemma append_all_simulates:
  assumes "append_all key payloads b = (out, b')"
    and "map_of (buffers b) key = None \<longleftrightarrow> map_of (bytes_by_key b) key = None"
    and "map_of (buffers b) key \<noteq> Some []"
  shows "out = plan_append key payloads b \<and> same_contents b' (apply_append key payloads b)"
  using assms
proof (induction key payloads b arbitrary: out b' rule: append_all.induct)
  case (1 key b)
  then show ?case
    by (cases "map_of (buffers b) key"; cases "map_of (bytes_by_key b) key")
      (auto simp: plan_append_def apply_append_def simulate_key_def same_contents_def dget_def)
next
  case (2 key payload payloads b)
  obtain r b1 where step: "bb_append key payload b = (r, b1)" by (cases "bb_append key payload b")
  obtain out1 b2 where rest: "append_all key payloads b1 = (out1, b2)" by (cases "append_all key payloads b1")
  have keys: "map_of (buffers b1) key = None \<longleftrightarrow> map_of (bytes_by_key b1) key = None" "map_of (buffers b1) key \<noteq> Some []"
    using step by (auto simp: bb_append_def flush_key_locked_def Let_def split: if_splits)
  note IH = 2(1) [OF step [symmetric] rest keys]
  show ?case
  proof (cases "len_int (kept b key @ [payload]) \<ge> max_items b \<or> dget (bytes_by_key b) key 0 + len_int payload \<ge> max_bytes b")
    case True
    with step have r: "r = Some (concat (kept b key @ [payload]))"
      and b1: "b1 = b\<lparr>buffers := dpop key (dset key (kept b key @ [payload]) (buffers b)),
        bytes_by_key := dpop key (dset key (dget (bytes_by_key b) key 0 + len_int payload) (bytes_by_key b))\<rparr>"
      by (auto simp: bb_append_def flush_key_locked_def Let_def)
    from True have "simulate_key key (payload # payloads) b =
        (case simulate_key key payloads b1 of (flushed, rem) \<Rightarrow> (concat (kept b key @ [payload]) # flushed, rem))"
      by (simp add: simulate_key_def b1 split: prod.split)
    with IH r b1 step rest 2(2) show ?thesis
      by (simp add: plan_append_def apply_append_def same_contents_def split: prod.splits)
  next
    case False
    with step have r: "r = None"
      and b1: "b1 = b\<lparr>buffers := dset key (kept b key @ [payload]) (buffers b),
        bytes_by_key := dset key (dget (bytes_by_key b) key 0 + len_int payload) (bytes_by_key b)\<rparr>"
      by (auto simp: bb_append_def Let_def)
    from False have "simulate_key key (payload # payloads) b = simulate_key key payloads b1"
      by (simp add: simulate_key_def b1)
    with IH r b1 step rest 2(2) show ?thesis
      by (simp add: plan_append_def apply_append_def same_contents_def split: prod.splits)
  qed
qed


abbreviation drop_key :: "'k batch_buffer \<Rightarrow> 'k \<Rightarrow> 'k batch_buffer" where
  "drop_key b key \<equiv> b\<lparr>buffers := dpop key (buffers b), bytes_by_key := dpop key (bytes_by_key b)\<rparr>"

lemma flush_keys_state: "snd (flush_keys keys b) = foldl drop_key b keys"
  by (induction keys b rule: flush_keys.induct) (auto simp: flush_key_locked_def Let_def split: prod.splits option.splits)

lemma flush_keys_out:
  assumes "distinct (map fst kbs)" and "\<And>k buf. (k, buf) \<in> set kbs \<Longrightarrow> map_of (buffers b) k = Some buf"
  shows "fst (flush_keys (map fst kbs) b) = map (\<lambda>(k, buf). (k, concat buf)) (filter (\<lambda>(k, buf). buf \<noteq> []) kbs)"
  using assms
proof (induction kbs arbitrary: b)
  case (Cons kb kbs)
  obtain k buf where kb: "kb = (k, buf)" by (cases kb)
  let ?b = "drop_key b k"
  have "map_of (buffers ?b) k' = Some buf'" if "(k', buf') \<in> set kbs" for k' buf'
    using that Cons.prems kb by force
  with Cons have "fst (flush_keys (map fst kbs) ?b) = map (\<lambda>(k, buf). (k, concat buf)) (filter (\<lambda>(k, buf). buf \<noteq> []) kbs)"
    by auto
  moreover have "flush_key_locked k b = (if buf = [] then None else Some (concat buf), ?b)"
    using Cons.prems(2) [of k buf] kb by (simp add: flush_key_locked_def Let_def)
  ultimately show ?case using kb by (auto split: prod.split)
qed simp

lemma bb_flush_eq:
  assumes "dict_wf (buffers b)"
  shows "bb_flush predicate b = (plan_drain predicate b, bb_discard predicate b)"
proof (rule prod_eqI)
  let ?kbs = "filter (\<lambda>x. predicate (fst x)) (buffers b)"
  have keys: "filter predicate (map fst (buffers b)) = map fst ?kbs" by (simp add: filter_map comp_def)
  have "fst (flush_keys (map fst ?kbs) b) = map (\<lambda>(k, buf). (k, concat buf)) (filter (\<lambda>(k, buf). buf \<noteq> []) ?kbs)"
    using assms by (intro flush_keys_out) (auto simp: dict_wf_def distinct_map_filter)
  also have "\<dots> = plan_drain predicate b"
    by (auto simp: plan_drain_def intro!: arg_cong [where f = "map _"] filter_cong)
  finally show "fst (bb_flush predicate b) = fst (plan_drain predicate b, bb_discard predicate b)"
    by (simp add: bb_flush_def keys)
qed (simp add: bb_flush_def bb_discard_def flush_keys_state)

subsection \<open>Properties\<close>

text \<open>
  Batching is lossless. Starting empty, whatever inputs arrive in whatever order and whatever
  the limits, the batches published for a key followed by its final drain are, joined, exactly
  the payloads of that key in their order.
\<close>

theorem batching_lossless:
  assumes "batch_run inputs (new_batch_buffer mb mi) = (out, b)" and "predicate key"
  shows "concat (of_key key (out @ plan_drain predicate b)) = concat (concat (of_key key inputs))"
proof -
  have "buffer_ok b" using batch_run_ok [OF buffer_ok_new, of inputs mb mi] assms by simp
  with assms batch_run_flow [of key inputs "new_batch_buffer mb mi"] show ?thesis
    by (simp add: of_key_append of_key_drain new_batch_buffer_def)
qed

theorem batching_lossless_witness:
  "let inputs = [(1 :: int, [[65], [66]]), (2, [[67, 68]]), (1, [[69]])];
       r = batch_run inputs (new_batch_buffer 100 2) in
   fst r = [(1, [65, 66])] \<and>
   concat (of_key 1 (fst r @ plan_drain (\<lambda>k. True) (snd r))) = concat (concat (of_key 1 inputs))"
proof -
  let ?inputs = "[(1 :: int, [[65], [66]]), (2, [[67, 68]]), (1, [[69]])]" and ?b = "new_batch_buffer 100 2 :: int batch_buffer"
  have "fst (batch_run ?inputs ?b) = [(1, [65, 66])]"
    by (simp add: plan_append_def apply_append_def simulate_key_def new_batch_buffer_def dget_Cons)
  moreover have "concat (of_key 1 (fst (batch_run ?inputs ?b) @ plan_drain (\<lambda>k. True) (snd (batch_run ?inputs ?b))))
      = concat (concat (of_key 1 ?inputs))"
    by (rule batching_lossless [where predicate = "\<lambda>k. True" and mb = 100 and mi = 2]) simp_all
  ultimately show ?thesis by (simp add: Let_def)
qed

text \<open>
  The log interface computes what the mutating interface does. On a well-formed buffer,
  \<open>plan_append\<close> foretells exactly the batches that appending the payloads one by one returns and
  \<open>apply_append\<close> leaves the same contents; \<open>flush\<close> returns what \<open>plan_drain\<close> foretells and leaves
  what \<open>discard\<close> leaves.
\<close>

theorem planning_matches_appending:
  assumes "buffer_ok b"
  shows "fst (append_all key payloads b) = plan_append key payloads b \<and>
    same_contents (snd (append_all key payloads b)) (apply_append key payloads b) \<and>
    bb_flush predicate b = (plan_drain predicate b, bb_discard predicate b)"
proof -
  have "map_of (buffers b) key = None \<longleftrightarrow> map_of (bytes_by_key b) key = None" and "map_of (buffers b) key \<noteq> Some []"
    and "dict_wf (buffers b)"
    using assms by (auto simp: buffer_ok_def)
  with append_all_simulates [OF surjective_pairing [of "append_all key payloads b"]] bb_flush_eq [of b predicate]
  show ?thesis by blast
qed

theorem planning_matches_appending_witness:
  "let b = apply_append (1 :: int) [[65]] (new_batch_buffer 100 2) in
   fst (append_all 1 [[66], [67]] b) = [[65, 66]] \<and> bb_flush (\<lambda>k. True) b = ([(1, [65])], bb_discard (\<lambda>k. True) b)"
proof -
  let ?b = "apply_append (1 :: int) [[65]] (new_batch_buffer 100 2)"
  have "buffer_ok ?b" by (simp add: apply_append_ok)
  note claim = planning_matches_appending [OF this, of 1 "[[66], [67]]" "\<lambda>k. True"]
  have "plan_append 1 [[66], [67]] ?b = [[65, 66]]" and "plan_drain (\<lambda>k. True) ?b = [(1, [65])]"
    by (simp_all add: plan_append_def apply_append_def simulate_key_def new_batch_buffer_def plan_drain_def dget_Cons)
  with claim show ?thesis by (simp add: Let_def)
qed

text \<open>
  C32: memory stays bounded. After any run, what is kept for a key is non-empty, has fewer items
  and fewer bytes than the limits, and the byte counter is its size.
\<close>

theorem buffers_stay_below_limits:
  assumes "batch_run inputs (new_batch_buffer mb mi) = (out, b)" and "map_of (buffers b) key = Some buf"
  shows "buf \<noteq> [] \<and> len_int buf < mi \<and> len_int (concat buf) < mb \<and>
    map_of (bytes_by_key b) key = Some (len_int (concat buf))"
proof -
  have settings: "max_items (snd (batch_run inputs c)) = max_items c \<and> max_bytes (snd (batch_run inputs c)) = max_bytes c"
    for c :: "'a batch_buffer"
    by (induction inputs c rule: batch_run.induct) (auto split: prod.split)
  have "buffer_ok b" using batch_run_ok [OF buffer_ok_new, of inputs mb mi] assms by simp
  with assms settings [of "new_batch_buffer mb mi"] show ?thesis
    by (auto simp: buffer_ok_def below_limits_def new_batch_buffer_def)
qed

theorem buffers_stay_below_limits_witness:
  "let r = batch_run [(1 :: int, [[65], [66], [67]])] (new_batch_buffer 100 2) in
   map_of (buffers (snd r)) 1 = Some [[67]] \<and> map_of (bytes_by_key (snd r)) 1 = Some 1"
proof -
  let ?r = "batch_run [(1 :: int, [[65], [66], [67]])] (new_batch_buffer 100 2)"
  have "map_of (buffers (snd ?r)) 1 = Some [[67]]"
    by (simp add: plan_append_def apply_append_def simulate_key_def new_batch_buffer_def dget_Cons)
  with buffers_stay_below_limits [OF surjective_pairing this] show ?thesis by (simp add: Let_def)
qed

end
