(* ===== verification/UpstreamEof.thy ===== *)
theory UpstreamEof
  imports Prelude
begin

text \<open>
  \<open>src/src/common/upstream_eof_counter.py\<close>: the end-of-file messages of the upstream replicas are
  counted per client, a replica once; the last one closes the client's input.
\<close>

record upstream_eof_counter =
  uc_expected :: int
  eofs_by_client :: "(int \<times> int set) list"
  uc_closed :: "int set"

definition new_eof_counter :: "int \<Rightarrow> upstream_eof_counter" where
  "new_eof_counter n = \<lparr>uc_expected = n, eofs_by_client = [], uc_closed = {}\<rparr>"

definition on_eof :: "int \<Rightarrow> int \<Rightarrow> upstream_eof_counter \<Rightarrow> bool \<times> upstream_eof_counter" where
  "on_eof client_id sender_id u =
     (if client_id \<in> uc_closed u then (False, u)
      else
        (let seen = dget (eofs_by_client u) client_id {} in
         if sender_id \<in> seen then (False, u\<lparr>eofs_by_client := dset client_id seen (eofs_by_client u)\<rparr>)
         else
           (int (card (insert sender_id seen)) \<ge> uc_expected u,
            u\<lparr>eofs_by_client := dset client_id (insert sender_id seen) (eofs_by_client u)\<rparr>)))"

definition would_flush :: "int \<Rightarrow> int \<Rightarrow> upstream_eof_counter \<Rightarrow> bool" where
  "would_flush client_id sender_id u \<longleftrightarrow>
     client_id \<notin> uc_closed u \<and>
     (let seen = dget (eofs_by_client u) client_id {} in
      sender_id \<notin> seen \<and> int (card seen) + 1 \<ge> uc_expected u)"

definition uc_close :: "int \<Rightarrow> upstream_eof_counter \<Rightarrow> upstream_eof_counter" where
  "uc_close client_id u =
     u\<lparr>eofs_by_client := dpop client_id (eofs_by_client u), uc_closed := insert client_id (uc_closed u)\<rparr>"

definition uc_count :: "int \<Rightarrow> upstream_eof_counter \<Rightarrow> int" where
  "uc_count client_id u = int (card (dget (eofs_by_client u) client_id {}))"

type_synonym eof_counter_snapshot = "(int \<times> int set) list \<times> int set"

definition uc_snapshot :: "upstream_eof_counter \<Rightarrow> eof_counter_snapshot" where
  "uc_snapshot u = (eofs_by_client u, uc_closed u)"

definition uc_restore :: "eof_counter_snapshot \<Rightarrow> upstream_eof_counter \<Rightarrow> upstream_eof_counter" where
  "uc_restore snap u = u\<lparr>eofs_by_client := fst snap, uc_closed := snd snap\<rparr>"

subsection \<open>Runs\<close>

text \<open>The caller closes a client as soon as the counter says so.\<close>

definition deliver_eof :: "int \<times> int \<Rightarrow> upstream_eof_counter \<Rightarrow> bool \<times> upstream_eof_counter" where
  "deliver_eof e u = (case on_eof (fst e) (snd e) u of (r, u') \<Rightarrow> (r, if r then uc_close (fst e) u' else u'))"

fun flushes :: "(int \<times> int) list \<Rightarrow> upstream_eof_counter \<Rightarrow> int list \<times> upstream_eof_counter" where
  "flushes [] u = ([], u)"
| "flushes (e # es) u =
     (case deliver_eof e u of (r, u') \<Rightarrow>
      (case flushes es u' of (cs, u'') \<Rightarrow> (if r then fst e # cs else cs, u'')))"

definition counter_ok :: "upstream_eof_counter \<Rightarrow> bool" where
  "counter_ok u \<longleftrightarrow> dict_wf (eofs_by_client u) \<and> (\<forall>c. finite (dget (eofs_by_client u) c {}))"

lemma counter_ok_new [simp]: "counter_ok (new_eof_counter n)"
  by (simp add: counter_ok_def new_eof_counter_def)

lemma counter_ok_deliver: "counter_ok u \<Longrightarrow> counter_ok (snd (deliver_eof e u))"
  by (auto simp: counter_ok_def deliver_eof_def on_eof_def uc_close_def Let_def split: if_splits)

lemma would_flush_eq: "counter_ok u \<Longrightarrow> would_flush c s u = fst (on_eof c s u)"
  by (auto simp: would_flush_def on_eof_def counter_ok_def Let_def)

lemma counter_ok_flushes: "counter_ok u \<Longrightarrow> counter_ok (snd (flushes es u))"
proof (induction es arbitrary: u)
  case (Cons e es)
  from Cons.IH [OF counter_ok_deliver [OF Cons.prems, of e]] show ?case by (auto split: prod.splits)
qed simp

lemma flushes_append:
  "flushes (es @ fs) u = (case flushes es u of (cs, u') \<Rightarrow> (case flushes fs u' of (ds, u'') \<Rightarrow> (cs @ ds, u'')))"
  by (induction es arbitrary: u) (auto split: prod.split)

text \<open>The state after a run, as a function of the senders each client's EOFs came from.\<close>

definition senders_of :: "int \<Rightarrow> (int \<times> int) list \<Rightarrow> int set" where
  "senders_of c es = snd ` {e \<in> set es. fst e = c}"

lemma senders_of_simps [simp]:
  "senders_of c [] = {}"
  "senders_of c (es @ [e]) = (if fst e = c then insert (snd e) (senders_of c es) else senders_of c es)"
  by (auto simp: senders_of_def)

lemma finite_senders_of [simp]: "finite (senders_of c es)"
  by (simp add: senders_of_def)

lemma flushes_state:
  assumes n: "0 < n" and run: "flushes es (new_eof_counter n) = (cs, u)"
  shows "uc_expected u = n \<and> distinct cs \<and> uc_closed u = set cs \<and>
    (\<forall>c. c \<in> set cs \<longleftrightarrow> n \<le> int (card (senders_of c es))) \<and>
    (\<forall>c. c \<notin> set cs \<longrightarrow> dget (eofs_by_client u) c {} = senders_of c es)"
  using run
proof (induction es arbitrary: cs u rule: rev_induct)
  case Nil
  then show ?case using n by (auto simp: new_eof_counter_def)
next
  case (snoc e es)
  obtain cs0 u0 where pre: "flushes es (new_eof_counter n) = (cs0, u0)" by (cases "flushes es (new_eof_counter n)")
  note IH = snoc.IH [OF pre]
  obtain c s where e: "e = (c, s)" by (cases e)
  from snoc.prems pre have last: "(cs, u) = (if fst (deliver_eof e u0) then cs0 @ [c] else cs0, snd (deliver_eof e u0))"
    by (simp add: flushes_append e split: prod.splits if_splits)
  have more: "int (card (senders_of c es)) \<le> int (card (insert s (senders_of c es)))"
    by (simp add: card_insert_le)
  show ?case
  proof (cases "c \<in> set cs0 \<or> s \<in> senders_of c es")
    case True
    then show ?thesis using last IH more
      by (auto simp: e deliver_eof_def on_eof_def Let_def insert_absorb split: if_splits)
  next
    case False
    with IH have "dget (eofs_by_client u0) c {} = senders_of c es" "c \<notin> uc_closed u0" "uc_expected u0 = n" by auto
    with False last have "(cs, u) = (if n \<le> int (card (insert s (senders_of c es))) then
          (cs0 @ [c], uc_close c (u0\<lparr>eofs_by_client := dset c (insert s (senders_of c es)) (eofs_by_client u0)\<rparr>))
        else (cs0, u0\<lparr>eofs_by_client := dset c (insert s (senders_of c es)) (eofs_by_client u0)\<rparr>))"
      by (auto simp: e deliver_eof_def on_eof_def Let_def)
    with IH False show ?thesis by (auto simp: e uc_close_def split: if_splits)
  qed
qed

subsection \<open>Properties\<close>

text \<open>
  Every client is flushed once and only when its upstream is complete. Over any interleaving
  of the end-of-file messages of all clients, duplicates included, the clients that are flushed
  are exactly those whose messages came from at least the expected number of distinct senders,
  each of them once; and what the read-only prediction says of the next message is what the
  counter then answers.
\<close>

theorem upstream_eof_flushes_once:
  assumes "0 < n" and "flushes es (new_eof_counter n) = (cs, u)"
  shows "distinct cs \<and> (\<forall>c. c \<in> set cs \<longleftrightarrow> n \<le> int (card (senders_of c es))) \<and>
    would_flush c' s u = fst (on_eof c' s u)"
proof -
  have "counter_ok u" using counter_ok_flushes [OF counter_ok_new, of es n] assms(2) by simp
  with flushes_state [OF assms] show ?thesis by (simp add: would_flush_eq)
qed

theorem upstream_eof_flushes_once_witness:
  "let r = flushes [(7, 0), (8, 0), (7, 0), (7, 1), (7, 1)] (new_eof_counter 2) in
   fst r = [7] \<and> (7 \<in> set (fst r) \<longleftrightarrow> 2 \<le> int (card (senders_of 7 [(7, 0), (8, 0), (7, 0), (7, 1), (7, 1)]))) \<and>
   would_flush 8 1 (snd r) = fst (on_eof 8 1 (snd r))"
proof -
  let ?es = "[(7, 0), (8, 0), (7, 0), (7, 1), (7, 1)]"
  have "fst (flushes ?es (new_eof_counter 2)) = [7]"
    by (simp add: deliver_eof_def on_eof_def uc_close_def new_eof_counter_def dget_Cons Let_def)
  moreover have "(\<forall>c. c \<in> set (fst (flushes ?es (new_eof_counter 2))) \<longleftrightarrow> 2 \<le> int (card (senders_of c ?es))) \<and>
      would_flush 8 1 (snd (flushes ?es (new_eof_counter 2))) = fst (on_eof 8 1 (snd (flushes ?es (new_eof_counter 2))))"
    using upstream_eof_flushes_once [of 2 ?es, OF _ surjective_pairing] by simp
  ultimately show ?thesis unfolding Let_def by blast
qed

end
