(* ===== verification/LineSplitter.thy ===== *)
theory LineSplitter
  imports Json
begin

text \<open>
  \<open>src/src/workers/common/line_splitter.py\<close>: the chunks of an uploaded file arrive in order and are
  cut into lines; an incomplete last line waits for the next chunk. \<open>parse_csv_line\<close> reads one line
  with the reader of Python's \<open>csv\<close> module in its default dialect, modelled as its state machine.
\<close>

subsection \<open>Splitting chunks into lines\<close>

text \<open>\<open>bytes.split\<close> at the newline: never empty, the last element is what follows the last newline.\<close>

fun split_lines :: "bytes \<Rightarrow> bytes list" where
  "split_lines [] = [[]]"
| "split_lines (b # bs) =
     (if b = 10 then [] # split_lines bs
      else (case split_lines bs of [] \<Rightarrow> [[b]] | l # ls \<Rightarrow> (b # l) # ls))"

record line_splitter =
  max_line_bytes :: int
  expected_offset :: int
  pending_bytes :: bytes

definition new_splitter :: "int \<Rightarrow> line_splitter res" where
  "new_splitter n =
     (if n \<le> 0 then Inl ValueError
      else Inr \<lparr>max_line_bytes = n, expected_offset = 0, pending_bytes = []\<rparr>)"

definition validate_line_size :: "bytes \<Rightarrow> int \<Rightarrow> unit res" where
  "validate_line_size line n = (if int (length line) > n then Inl ValueError else Inr ())"

definition push :: "int \<Rightarrow> bytes \<Rightarrow> (line_splitter, bytes list) act" where
  "push offset payload sp =
     (if offset \<noteq> expected_offset sp then (Inl ValueError, sp)
      else
        (let lines = split_lines (pending_bytes sp @ payload);
             complete_lines = butlast lines;
             pending = last lines in
         case rbind (rmap (\<lambda>line. validate_line_size line (max_line_bytes sp)) complete_lines)
                (\<lambda>_. validate_line_size pending (max_line_bytes sp)) of
           Inl e \<Rightarrow> (Inl e, sp)
         | Inr _ \<Rightarrow> (Inr complete_lines,
             sp\<lparr>pending_bytes := pending, expected_offset := expected_offset sp + int (length payload)\<rparr>)))"

definition finish :: "(line_splitter, bytes list) act" where
  "finish sp =
     (if pending_bytes sp = [] then (Inr [], sp)
      else
        (case validate_line_size (pending_bytes sp) (max_line_bytes sp) of
           Inl e \<Rightarrow> (Inl e, sp)
         | Inr _ \<Rightarrow> (Inr [pending_bytes sp], sp\<lparr>pending_bytes := []\<rparr>)))"

definition pending_size :: "line_splitter \<Rightarrow> int" where
  "pending_size sp = int (length (pending_bytes sp))"

subsection \<open>The reader of the csv module\<close>

datatype csv_state =
    START_RECORD | START_FIELD | IN_FIELD | IN_QUOTED_FIELD | QUOTE_IN_QUOTED_FIELD | EAT_CRNL

definition csv_field_limit :: nat where
  "csv_field_limit = 131072"

text \<open>The reader's state: the automaton, the field under construction, the fields read.\<close>

type_synonym csv_reader = "csv_state \<times> pystr \<times> pystr list"

definition csv_add :: "csv_state \<Rightarrow> nat \<Rightarrow> pystr \<Rightarrow> pystr list \<Rightarrow> csv_reader res" where
  "csv_add st c field row =
     (if length field \<ge> csv_field_limit then Inl CsvError else Inr (st, field @ [c], row))"

text \<open>One character; \<open>None\<close> is the end of the line.\<close>

definition csv_start_field :: "nat option \<Rightarrow> pystr \<Rightarrow> pystr list \<Rightarrow> csv_reader res" where
  "csv_start_field ch field row =
     (case ch of
        None \<Rightarrow> Inr (START_RECORD, [], row @ [field])
      | Some c \<Rightarrow>
          if c = 10 \<or> c = 13 then Inr (EAT_CRNL, [], row @ [field])
          else if c = 34 then Inr (IN_QUOTED_FIELD, field, row)
          else if c = 44 then Inr (START_FIELD, [], row @ [field])
          else csv_add IN_FIELD c field row)"

fun csv_step :: "csv_reader \<Rightarrow> nat option \<Rightarrow> csv_reader res" where
  "csv_step (START_RECORD, field, row) ch =
     (case ch of
        None \<Rightarrow> Inr (START_RECORD, field, row)
      | Some c \<Rightarrow>
          if c = 10 \<or> c = 13 then Inr (EAT_CRNL, field, row) else csv_start_field ch field row)"
| "csv_step (START_FIELD, field, row) ch = csv_start_field ch field row"
| "csv_step (IN_FIELD, field, row) ch =
     (case ch of
        None \<Rightarrow> Inr (START_RECORD, [], row @ [field])
      | Some c \<Rightarrow>
          if c = 10 \<or> c = 13 then Inr (EAT_CRNL, [], row @ [field])
          else if c = 44 then Inr (START_FIELD, [], row @ [field])
          else csv_add IN_FIELD c field row)"
| "csv_step (IN_QUOTED_FIELD, field, row) ch =
     (case ch of
        None \<Rightarrow> Inr (IN_QUOTED_FIELD, field, row)
      | Some c \<Rightarrow>
          if c = 34 then Inr (QUOTE_IN_QUOTED_FIELD, field, row)
          else csv_add IN_QUOTED_FIELD c field row)"
| "csv_step (QUOTE_IN_QUOTED_FIELD, field, row) ch =
     (case ch of
        None \<Rightarrow> Inr (START_RECORD, [], row @ [field])
      | Some c \<Rightarrow>
          if c = 34 then csv_add IN_QUOTED_FIELD c field row
          else if c = 44 then Inr (START_FIELD, [], row @ [field])
          else if c = 10 \<or> c = 13 then Inr (EAT_CRNL, [], row @ [field])
          else csv_add IN_FIELD c field row)"
| "csv_step (EAT_CRNL, field, row) ch =
     (case ch of
        None \<Rightarrow> Inr (START_RECORD, field, row)
      | Some c \<Rightarrow> if c = 10 \<or> c = 13 then Inr (EAT_CRNL, field, row) else Inl CsvError)"

fun csv_chars :: "csv_reader \<Rightarrow> pystr \<Rightarrow> csv_reader res" where
  "csv_chars r [] = csv_step r None"
| "csv_chars r (c # cs) = rbind (csv_step r (Some c)) (\<lambda>r'. csv_chars r' cs)"

text \<open>
  The rows of a one-line input: always one. A quoted field still open when the input ends is
  saved as it is, since the dialect is not strict.
\<close>

definition csv_rows :: "pystr \<Rightarrow> pystr list list res" where
  "csv_rows line =
     rbind (csv_chars (START_RECORD, [], []) line) (\<lambda>(st, field, row).
     Inr (if st = IN_QUOTED_FIELD then [row @ [field]] else [row]))"

definition parse_csv_line :: "bytes \<Rightarrow> pystr list res" where
  "parse_csv_line line =
     rbind (utf8_decode line) (\<lambda>text.
     rbind (csv_rows text) (\<lambda>rows.
     if length rows \<noteq> 1 then Inl ValueError else Inr (rows ! 0)))"

subsection \<open>Lines do not depend on the chunks\<close>

lemma split_lines_not_Nil [simp]: "split_lines bs \<noteq> []"
  by (cases bs) (auto split: list.split)

lemma split_lines_append: "split_lines (xs @ ys) = butlast (split_lines xs) @ split_lines (last (split_lines xs) @ ys)"
proof (induction xs)
  case (Cons x xs)
  obtain l ls where "split_lines xs = l # ls" by (cases "split_lines xs") auto
  with Cons show ?case by (cases ls) (auto split: list.split)
qed simp

lemma last_line_no_newline: "10 \<notin> set (last (split_lines bs))"
  by (induction bs) (auto split: list.split)

lemma split_lines_single: "10 \<notin> set l \<Longrightarrow> split_lines l = [l]"
  by (induction l) auto

lemma split_lines_last: "split_lines (last (split_lines bs)) = [last (split_lines bs)]"
  by (rule split_lines_single [OF last_line_no_newline])

text \<open>The inverse of splitting.\<close>

fun join_lines :: "bytes list \<Rightarrow> bytes" where
  "join_lines [] = []"
| "join_lines [l] = l"
| "join_lines (l # ls) = l @ 10 # join_lines ls"

lemma join_split_lines: "join_lines (split_lines bs) = bs"
proof (induction bs)
  case (Cons b bs)
  obtain l ls where "split_lines bs = l # ls" by (cases "split_lines bs") auto
  with Cons show ?case by (cases ls) auto
qed simp

definition short_lines :: "int \<Rightarrow> bytes list \<Rightarrow> bool" where
  "short_lines n ls \<longleftrightarrow> (\<forall>l \<in> set ls. int (length l) \<le> n)"

lemma short_lines_simps [simp]:
  "short_lines n []" "short_lines n (l # ls) \<longleftrightarrow> int (length l) \<le> n \<and> short_lines n ls"
  "short_lines n (ls @ ls') \<longleftrightarrow> short_lines n ls \<and> short_lines n ls'"
  by (auto simp: short_lines_def)

lemma validate_lines:
  "rmap (\<lambda>line. validate_line_size line n) ls =
   (if short_lines n ls then Inr (replicate (length ls) ()) else Inl ValueError)"
  by (induction ls) (auto simp: validate_line_size_def)

lemma short_lines_split:
  "short_lines n (split_lines bs) \<longleftrightarrow> short_lines n (butlast (split_lines bs)) \<and> int (length (last (split_lines bs))) \<le> n"
  by (subst append_butlast_last_id [symmetric]) (simp_all del: append_butlast_last_id)

lemma push_eq:
  "push (expected_offset sp) payload sp =
   (let lines = split_lines (pending_bytes sp @ payload) in
    if short_lines (max_line_bytes sp) lines
    then (Inr (butlast lines),
      sp\<lparr>pending_bytes := last lines, expected_offset := expected_offset sp + int (length payload)\<rparr>)
    else (Inl ValueError, sp))"
  unfolding push_def Let_def validate_lines
  by (auto simp: validate_line_size_def short_lines_split)

text \<open>The ingestor's loop: every chunk is pushed at the offset where it starts.\<close>

fun push_chunks :: "int \<Rightarrow> bytes list \<Rightarrow> (line_splitter, bytes list) act" where
  "push_chunks offset [] = areturn []"
| "push_chunks offset (chunk # chunks) =
     abind (push offset chunk) (\<lambda>ls.
     abind (push_chunks (offset + int (length chunk)) chunks) (\<lambda>ls'.
     areturn (ls @ ls')))"

text \<open>A partial line is never longer than the line it becomes.\<close>

lemma short_lines_prefix:
  assumes "short_lines n (split_lines (xs @ ys))"
  shows "short_lines n (split_lines xs)"
proof -
  obtain l ls where first: "split_lines (last (split_lines xs) @ ys) = l # ls"
    by (cases "split_lines (last (split_lines xs) @ ys)") auto
  have "length p \<le> length (hd (split_lines (p @ ys)))" if "10 \<notin> set p" for p
    using that
  proof (induction p)
    case (Cons b p)
    then show ?case by (cases "split_lines (p @ ys)") auto
  qed simp
  moreover have "10 \<notin> set (last (split_lines xs))"
    by (rule last_line_no_newline)
  ultimately have "length (last (split_lines xs)) \<le> length l" using first by fastforce
  with assms first show ?thesis
    by (subst short_lines_split) (auto simp: split_lines_append [of xs ys])
qed

lemma push_chunks_eq:
  assumes "split_lines (pending_bytes sp) = [pending_bytes sp]" and "int (length (pending_bytes sp)) \<le> max_line_bytes sp"
  shows "fst (push_chunks (expected_offset sp) chunks sp) =
      (if short_lines (max_line_bytes sp) (split_lines (pending_bytes sp @ concat chunks))
       then Inr (butlast (split_lines (pending_bytes sp @ concat chunks))) else Inl ValueError) \<and>
    (short_lines (max_line_bytes sp) (split_lines (pending_bytes sp @ concat chunks)) \<longrightarrow>
       pending_bytes (snd (push_chunks (expected_offset sp) chunks sp)) = last (split_lines (pending_bytes sp @ concat chunks)) \<and>
       max_line_bytes (snd (push_chunks (expected_offset sp) chunks sp)) = max_line_bytes sp)"
  using assms
proof (induction chunks arbitrary: sp)
  case Nil
  then show ?case by (simp add: act_defs)
next
  case (Cons chunk chunks)
  let ?head = "split_lines (pending_bytes sp @ chunk)"
  have split: "split_lines (pending_bytes sp @ chunk @ concat chunks) = butlast ?head @ split_lines (last ?head @ concat chunks)"
    using split_lines_append [of "pending_bytes sp @ chunk"] by simp
  show ?case
  proof (cases "short_lines (max_line_bytes sp) ?head")
    case False
    then have "\<not> short_lines (max_line_bytes sp) (split_lines (pending_bytes sp @ chunk @ concat chunks))"
      using short_lines_prefix [of _ "pending_bytes sp @ chunk"] by auto
    with False show ?thesis by (simp add: push_eq Let_def abind_def)
  next
    case True
    let ?sp = "sp\<lparr>pending_bytes := last ?head, expected_offset := expected_offset sp + int (length chunk)\<rparr>"
    have "split_lines (pending_bytes ?sp) = [pending_bytes ?sp]" by (simp add: split_lines_last)
    moreover have "int (length (pending_bytes ?sp)) \<le> max_line_bytes ?sp"
      using True short_lines_split by (auto)
    ultimately have IH: "fst (push_chunks (expected_offset ?sp) chunks ?sp) =
        (if short_lines (max_line_bytes sp) (split_lines (last ?head @ concat chunks))
         then Inr (butlast (split_lines (last ?head @ concat chunks))) else Inl ValueError) \<and>
      (short_lines (max_line_bytes sp) (split_lines (last ?head @ concat chunks)) \<longrightarrow>
         pending_bytes (snd (push_chunks (expected_offset ?sp) chunks ?sp)) = last (split_lines (last ?head @ concat chunks)) \<and>
         max_line_bytes (snd (push_chunks (expected_offset ?sp) chunks ?sp)) = max_line_bytes sp)"
      using Cons.IH [of ?sp] by simp
    have "short_lines (max_line_bytes sp) (butlast ?head)" using True short_lines_split by blast
    with True IH show ?thesis
      by (auto simp: push_eq Let_def abind_def areturn_def split butlast_append split: prod.splits sum.splits if_splits)
  qed
qed

subsection \<open>Rows do not depend on the quoting\<close>

text \<open>A field written as it is, or between quotes with its quotes doubled.\<close>

definition csv_plain :: "pystr \<Rightarrow> bool" where
  "csv_plain f \<longleftrightarrow> (\<forall>c \<in> set f. c \<noteq> 10 \<and> c \<noteq> 13 \<and> c \<noteq> 34 \<and> c \<noteq> 44)"

definition csv_quoted :: "pystr \<Rightarrow> pystr" where
  "csv_quoted f = [34] @ concat (map (\<lambda>c. if c = 34 then [34, 34] else [c]) f) @ [34]"

definition csv_cell :: "pystr \<Rightarrow> pystr \<Rightarrow> bool" where
  "csv_cell f s \<longleftrightarrow> length f \<le> csv_field_limit \<and> (csv_plain f \<and> s = f \<or> s = csv_quoted f)"

text \<open>Reading up to the end of a field, whatever follows it: a comma or the end of the line.\<close>

definition csv_field_end :: "pystr \<Rightarrow> pystr list \<Rightarrow> pystr \<Rightarrow> csv_reader res" where
  "csv_field_end f row rest =
     (case rest of [] \<Rightarrow> Inr (START_RECORD, [], row @ [f])
      | c # cs \<Rightarrow> csv_chars (START_FIELD, [], row @ [f]) cs)"

definition field_ends :: "pystr \<Rightarrow> bool" where
  "field_ends rest \<longleftrightarrow> rest = [] \<or> (\<exists>cs. rest = 44 # cs)"

lemma field_ends_cases:
  assumes "field_ends rest"
  obtains "rest = []" | cs where "rest = 44 # cs"
  using assms by (auto simp: field_ends_def)

lemma csv_in_field:
  "csv_plain f \<Longrightarrow> field_ends rest \<Longrightarrow> length (pre @ f) \<le> csv_field_limit \<Longrightarrow>
   csv_chars (IN_FIELD, pre, row) (f @ rest) = csv_field_end (pre @ f) row rest"
  by (induction f arbitrary: pre) (auto simp: csv_plain_def field_ends_def csv_field_end_def csv_add_def)

lemma csv_in_quoted:
  "field_ends rest \<Longrightarrow> length (pre @ f) \<le> csv_field_limit \<Longrightarrow>
   csv_chars (IN_QUOTED_FIELD, pre, row) (concat (map (\<lambda>c. if c = 34 then [34, 34] else [c]) f) @ 34 # rest) =
   csv_field_end (pre @ f) row rest"
  by (induction f arbitrary: pre) (auto simp: field_ends_def csv_field_end_def csv_add_def)

lemma csv_start_cell:
  assumes "csv_cell f s" and "field_ends rest" and "st = START_FIELD \<or> st = START_RECORD \<and> s @ rest \<noteq> []"
  shows "csv_chars (st, [], row) (s @ rest) = csv_field_end f row rest"
proof (cases "csv_plain f \<and> s = f")
  case True
  show ?thesis
  proof (cases f)
    case Nil
    with True assms show ?thesis
      by (auto simp: field_ends_def csv_field_end_def csv_start_field_def)
  next
    case (Cons c cs)
    with True assms(1) have c: "c \<noteq> 10" "c \<noteq> 13" "c \<noteq> 34" "c \<noteq> 44" and "csv_plain cs"
      and limit: "length ([c] @ cs) \<le> csv_field_limit"
      by (auto simp: csv_cell_def csv_plain_def csv_quoted_def)
    with assms(2) have tail: "csv_chars (IN_FIELD, [c], row) (cs @ rest) = csv_field_end f row rest"
      using csv_in_field [of cs rest "[c]" row] Cons by simp
    have "csv_step (st, [], row) (Some c) = Inr (IN_FIELD, [c], row)"
      using assms(3) c limit by (elim disjE) (simp_all add: csv_start_field_def csv_add_def)
    with True Cons tail show ?thesis by simp
  qed
next
  case False
  with assms(1) have s: "s = csv_quoted f" and "length ([] @ f) \<le> csv_field_limit" by (auto simp: csv_cell_def)
  moreover have "csv_step (st, [], row) (Some 34) = Inr (IN_QUOTED_FIELD, [], row)"
    using assms(3) by (elim disjE) (simp_all add: csv_start_field_def)
  ultimately show ?thesis using csv_in_quoted [OF assms(2), of "[]" f row] by (simp add: csv_quoted_def)
qed

lemma csv_cells:
  assumes "list_all2 csv_cell fs ss" and "ss \<noteq> []" and "st = START_FIELD \<or> st = START_RECORD \<and> py_join [44] ss \<noteq> []"
  shows "csv_chars (st, [], row) (py_join [44] ss) = Inr (START_RECORD, [], row @ fs)"
  using assms
proof (induction fs ss arbitrary: row st rule: list_all2_induct)
  case (Cons f fs s ss)
  show ?case
  proof (cases ss)
    case Nil
    with Cons csv_start_cell [of f s "[]" st row] show ?thesis
      by (simp add: field_ends_def csv_field_end_def)
  next
    case (Cons s' ss')
    with \<open>csv_cell f s\<close> csv_start_cell [of f s "44 # py_join [44] ss" st row] Cons.IH [of START_FIELD] Cons.prems
    show ?thesis by (simp add: field_ends_def csv_field_end_def)
  qed
qed simp

subsection \<open>Properties\<close>

text \<open>All the lines of a file: the pieces between newlines, without an empty piece at the end.\<close>

lemma parse_csv_cells:
  assumes "list_all2 csv_cell fs cells" and "py_join [44] cells \<noteq> []" and "utf8_encode (py_join [44] cells) = Inr line"
  shows "parse_csv_line line = Inr fs"
proof -
  have "cells \<noteq> []" using assms(2) by auto
  with assms csv_cells [of fs cells START_RECORD "[]"] show ?thesis
    by (simp add: parse_csv_line_def utf8_roundtrip csv_rows_def)
qed

definition file_lines :: "bytes \<Rightarrow> bytes list" where
  "file_lines file = (let ls = split_lines file in if last ls = [] then butlast ls else ls)"

definition split_file :: "bytes list \<Rightarrow> (line_splitter, bytes list) act" where
  "split_file chunks = abind (push_chunks 0 chunks) (\<lambda>ls. abind finish (\<lambda>ls'. areturn (ls @ ls')))"

text \<open>
  The lines of a file do not depend on how it was cut into chunks. Pushing the chunks in order
  and finishing gives exactly the lines of the whole file when each of them is within the limit,
  and raises the error otherwise; the lines, joined by newlines, are the file.
\<close>

theorem lines_independent_of_chunks:
  assumes "new_splitter n = Inr sp"
  shows "fst (split_file chunks sp) =
      (if short_lines n (split_lines (concat chunks)) then Inr (file_lines (concat chunks)) else Inl ValueError) \<and>
    join_lines (split_lines (concat chunks)) = concat chunks"
proof -
  from assms have sp: "sp = \<lparr>max_line_bytes = n, expected_offset = 0, pending_bytes = []\<rparr>" and n: "0 < n"
    by (auto simp: new_splitter_def split: if_splits)
  let ?ls = "split_lines (concat chunks)"
  have run: "fst (push_chunks 0 chunks sp) = (if short_lines n ?ls then Inr (butlast ?ls) else Inl ValueError) \<and>
      (short_lines n ?ls \<longrightarrow> pending_bytes (snd (push_chunks 0 chunks sp)) = last ?ls \<and>
         max_line_bytes (snd (push_chunks 0 chunks sp)) = n)"
    using push_chunks_eq [of sp chunks] n by (simp add: sp)
  have "fst (split_file chunks sp) = (if short_lines n ?ls then Inr (file_lines (concat chunks)) else Inl ValueError)"
  proof (cases "short_lines n ?ls")
    case True
    then have "int (length (last ?ls)) \<le> n" using short_lines_split by blast
    moreover have "butlast ?ls @ [last ?ls] = ?ls" by simp
    ultimately show ?thesis using True run
      by (auto simp: split_file_def abind_def areturn_def finish_def validate_line_size_def file_lines_def Let_def
          split: prod.splits)
  next
    case False
    with run show ?thesis by (auto simp: split_file_def abind_def split: prod.splits)
  qed
  then show ?thesis by (simp add: join_split_lines)
qed

theorem lines_independent_of_chunks_witness:
  "\<exists>sp. new_splitter 4 = Inr sp \<and>
     fst (split_file [[65, 66], [10, 67], [68, 10, 69]] sp) = Inr [[65, 66], [67, 68], [69]] \<and>
     fst (split_file [[65, 66], [67, 68], [69, 10]] sp) = Inl ValueError"
proof -
  let ?sp = "\<lparr>max_line_bytes = 4, expected_offset = 0, pending_bytes = []\<rparr>"
  have new: "new_splitter 4 = Inr ?sp" by (simp add: new_splitter_def)
  from lines_independent_of_chunks [OF new, of "[[65, 66], [10, 67], [68, 10, 69]]"]
    lines_independent_of_chunks [OF new, of "[[65, 66], [67, 68], [69, 10]]"] new
  show ?thesis by (simp add: file_lines_def Let_def)
qed

end
