(* ===== verification/Election.thy ===== *)
theory Election
  imports Json
begin

text \<open>
  \<open>src/src/monitor/election\<close>: the monitors choose a leader among themselves by the bully rule, with
  epochs that survive restarts.

  \<open>messages.py\<close> is the four-byte message, \<open>epoch_store.py\<close> the file that keeps the epoch,
  \<open>election_handler.py\<close> the handler. The handler's methods run on several threads; what they do
  between taking and releasing the handler's lock is one definition here, and the methods compose
  these. Sending a message is a parameter that acts on the whole world, the handler included, so
  that anything may happen to the handler while it waits for an answer.
\<close>

subsection \<open>Messages\<close>

datatype election_message_type = ELECTION | OK | COORDINATOR

fun election_type_value :: "election_message_type \<Rightarrow> nat" where
  "election_type_value ELECTION = 0"
| "election_type_value OK = 1"
| "election_type_value COORDINATOR = 2"

definition election_type_of :: "int \<Rightarrow> election_message_type res" where
  "election_type_of v =
     (if v = 0 then Inr ELECTION else if v = 1 then Inr OK else if v = 2 then Inr COORDINATOR else Inl ValueError)"

record election_message =
  em_type :: election_message_type
  em_epoch :: int
  em_sender :: int

definition MAX_EPOCH :: int where "MAX_EPOCH = 2 ^ 16 - 1"
definition MAX_SENDER_ID :: int where "MAX_SENDER_ID = 2 ^ 8 - 1"
definition MSG_SIZE :: nat where "MSG_SIZE = 4"

text \<open>The constructor with its checks.\<close>

definition mk_election_message :: "election_message_type \<Rightarrow> int \<Rightarrow> int \<Rightarrow> election_message res" where
  "mk_election_message t e s =
     (if \<not> (0 \<le> e \<and> e \<le> MAX_EPOCH) then Inl ValueError
      else if \<not> (0 \<le> s \<and> s \<le> MAX_SENDER_ID) then Inl ValueError
      else Inr \<lparr>em_type = t, em_epoch = e, em_sender = s\<rparr>)"

definition serialize_election :: "election_message \<Rightarrow> bytes res" where
  "serialize_election m =
     rbind (pack_uint 1 (int (election_type_value (em_type m)))) (\<lambda>t.
     rbind (pack_uint 2 (em_epoch m)) (\<lambda>e.
     rbind (pack_uint 1 (em_sender m)) (\<lambda>s. Inr (t @ e @ s))))"

definition deserialize_election :: "bytes \<Rightarrow> election_message res" where
  "deserialize_election data =
     (if length data \<noteq> MSG_SIZE then Inl ValueError
      else
        rbind (election_type_of (int (be_nat (take 1 data)))) (\<lambda>t.
        mk_election_message t (int (be_nat (take 2 (drop 1 data)))) (int (be_nat (drop 3 data)))))"

definition election_message_ok :: "election_message \<Rightarrow> bool" where
  "election_message_ok m \<longleftrightarrow>
     0 \<le> em_epoch m \<and> em_epoch m \<le> MAX_EPOCH \<and> 0 \<le> em_sender m \<and> em_sender m \<le> MAX_SENDER_ID"

lemma mk_election_message_Inr:
  "mk_election_message t e s = Inr m \<longleftrightarrow>
   m = \<lparr>em_type = t, em_epoch = e, em_sender = s\<rparr> \<and> election_message_ok m"
  by (auto simp: mk_election_message_def election_message_ok_def)

lemma election_type_roundtrip [simp]: "election_type_of (int (election_type_value t)) = Inr t"
  by (cases t) (simp_all add: election_type_of_def)

lemma election_message_roundtrip [codec]:
  assumes "election_message_ok m"
  shows "\<exists>data. serialize_election m = Inr data \<and> deserialize_election data = Inr m"
proof -
  let ?t = "be_bytes 1 (election_type_value (em_type m))" and ?e = "be_bytes 2 (nat (em_epoch m))"
    and ?s = "be_bytes 1 (nat (em_sender m))"
  have small: "election_type_value (em_type m) < 256 ^ 1" by (cases "em_type m") simp_all
  have bounds: "0 \<le> em_epoch m" "em_epoch m < 65536" "0 \<le> em_sender m" "em_sender m < 256"
    using assms by (auto simp: election_message_ok_def MAX_EPOCH_def MAX_SENDER_ID_def)
  have "serialize_election m = Inr (?t @ ?e @ ?s)"
    using small bounds by (simp add: serialize_election_def pack_uint_def del: be_bytes.simps)
  moreover have "be_nat ?t = election_type_value (em_type m)" "int (be_nat ?e) = em_epoch m" "int (be_nat ?s) = em_sender m"
    using small bounds by (simp_all add: be_nat_be_bytes del: be_bytes.simps)
  then have "deserialize_election (?t @ ?e @ ?s) = Inr m"
    using assms by (simp add: deserialize_election_def MSG_SIZE_def mk_election_message_Inr del: be_bytes.simps)
  ultimately show ?thesis by blast
qed

subsection \<open>The epoch file\<close>

text \<open>
  The file's text, or \<open>None\<close> when there is none. \<open>save\<close> writes a temporary file and renames it over
  the epoch file; the temporary file is never read, so the points a crash can leave differ only in
  whether the rename has happened.
\<close>

type_synonym epoch_file = "pystr option"

definition epoch_text :: "int \<Rightarrow> pystr" where
  "epoch_text e = [123] @ dumps_str (lit ''epoch'') @ [58] @ int_str e @ [125, 10]"

definition epoch_load :: "epoch_file \<Rightarrow> int res" where
  "epoch_load file =
     (case file of
        None \<Rightarrow> Inr 0
      | Some text \<Rightarrow>
          (case loads text of
             Inl _ \<Rightarrow> Inl ValueError
           | Inr state \<Rightarrow>
               (case (case state of JObj kvs \<Rightarrow> map_of kvs (lit ''epoch'') | _ \<Rightarrow> None) of
                  Some (JInt e) \<Rightarrow> if 0 \<le> e \<and> e \<le> MAX_EPOCH then Inr e else Inl ValueError
                | _ \<Rightarrow> Inl ValueError)))"

definition epoch_save :: "int \<Rightarrow> (epoch_file, unit) act" where
  "epoch_save e file =
     (if \<not> (0 \<le> e \<and> e \<le> MAX_EPOCH) then (Inl ValueError, file) else (Inr (), Some (epoch_text e)))"

definition epoch_save_points :: "int \<Rightarrow> epoch_file \<Rightarrow> epoch_file list" where
  "epoch_save_points e file = (if 0 \<le> e \<and> e \<le> MAX_EPOCH then [file, Some (epoch_text e)] else [file])"

lemma loads_epoch_text: "loads (epoch_text e) = Inr (JObj [(lit ''epoch'', JInt e)])"
proof -
  let ?s = "int_str e @ [125, 10]"
  have key: "scanstring (concat (map escape_char (lit ''epoch'')) @ 34 # 58 # ?s) = Some (lit ''epoch'', 58 # ?s)"
    by (rule scanstring_dumps_str) (simp add: text_ok_def lit_def scalar_def)
  have val: "read_value (Suc n) ?s = Some (JInt e, [125, 10])" for n
    by (rule read_value_int) simp
  have "solid ?s" by (simp add: solid_append)
  then have members: "read_members (Suc (Suc n)) (34 # concat (map escape_char (lit ''epoch'')) @ 34 # 58 # ?s)
      = Some ([(lit ''epoch'', JInt e)], [10])" for n
    using key val by (simp del: read_value.simps)
  have "read_value (Suc (Suc (Suc n))) (epoch_text e) = Some (JObj [(lit ''epoch'', JInt e)], [10])" for n
    using members by (simp add: epoch_text_def dumps_str_def py_dict_id del: read_members.simps)
  moreover obtain n where "2 * length (epoch_text e) + 2 = Suc (Suc (Suc n))"
    by (cases "epoch_text e") (auto simp: epoch_text_def)
  moreover have "skip_ws (epoch_text e) = epoch_text e" "skip_ws [10] = []"
    by (simp_all add: skip_ws_def epoch_text_def)
  ultimately show ?thesis by (simp add: loads_def del: read_value.simps)
qed

lemma epoch_roundtrip: "0 \<le> e \<Longrightarrow> e \<le> MAX_EPOCH \<Longrightarrow> epoch_load (Some (epoch_text e)) = Inr e"
  by (simp add: epoch_load_def loads_epoch_text)

end
