(* ===== verification/ElectionHandler.thy ===== *)
theory ElectionHandler
  imports Election
begin

text \<open>
  \<open>src/src/monitor/election/election_handler.py\<close>. A locked section is one atomic definition on the
  handler's record; \<open>start_election\<close>, \<open>send_coordinator\<close> and \<open>wait_for_new_leader\<close> compose them over
  a world that contains the handler (\<open>get\<close>, \<open>put\<close>), because the message sender and the waiting act
  on the world and may change the handler behind the caller's back. Saving the epoch is assumed to
  reach the disk; its range check is modelled.
\<close>

subsection \<open>State\<close>

datatype election_state = FOLLOWER | CANDIDATE | LEADER

record election =
  monitor_id :: int
  monitor_count :: int
  epoch_store :: "epoch_file option"
  leader :: int
  epoch :: int
  role :: election_state
  election_generation :: int
  leader_running :: bool
  leader_semaphore :: int
  stop_event :: bool
  election_lock :: bool

definition new_election_handler :: "int \<Rightarrow> int \<Rightarrow> int \<Rightarrow> epoch_file option \<Rightarrow> election res" where
  "new_election_handler mid count timeout_ms store =
     (if count < 1 \<or> count > 255 then Inl ValueError
      else if \<not> (1 \<le> mid \<and> mid \<le> count) then Inl ValueError
      else if timeout_ms \<le> 0 then Inl ValueError
      else
        rbind (case store of None \<Rightarrow> Inr 0 | Some file \<Rightarrow> epoch_load file) (\<lambda>e.
        Inr \<lparr>monitor_id = mid, monitor_count = count, epoch_store = store, leader = count, epoch = e,
             role = FOLLOWER, election_generation = 0, leader_running = False, leader_semaphore = 0,
             stop_event = False, election_lock = False\<rparr>))"

subsection \<open>Locked sections\<close>

definition set_epoch_locked :: "int \<Rightarrow> (election, unit) act" where
  "set_epoch_locked e h =
     (if e = epoch h then (Inr (), h)
      else
        (case epoch_store h of
           None \<Rightarrow> (Inr (), h\<lparr>epoch := e\<rparr>)
         | Some file \<Rightarrow>
             (case epoch_save e file of
                (Inl er, file') \<Rightarrow> (Inl er, h\<lparr>epoch_store := Some file'\<rparr>)
              | (Inr _, file') \<Rightarrow> (Inr (), h\<lparr>epoch_store := Some file', epoch := e\<rparr>))))"

definition transition_state_locked :: "election_state \<Rightarrow> election \<Rightarrow> election" where
  "transition_state_locked st h = (if st = role h then h else h\<lparr>role := st\<rparr>)"

definition begin_election :: "(election, int \<times> int) act" where
  "begin_election h =
     (let h1 = h\<lparr>election_generation := election_generation h + 1, leader_running := False\<rparr>;
          h2 = transition_state_locked CANDIDATE h1
      in (Inr (election_generation h2, epoch h2), h2))"

definition hear_answer :: "int \<Rightarrow> election_message option \<Rightarrow> (election, bool) act" where
  "hear_answer peer_id response h =
     (case response of
        Some m \<Rightarrow>
          if em_type m = OK \<and> em_sender m = peer_id
          then abind (set_epoch_locked (max (epoch h) (em_epoch m))) (\<lambda>_. areturn (peer_id > monitor_id h)) h
          else (Inr False, h)
      | None \<Rightarrow> (Inr False, h))"

definition claim_leadership :: "int \<Rightarrow> (election, bool) act" where
  "claim_leadership generation h =
     (if stop_event h \<or> generation \<noteq> election_generation h \<or> leader_running h then (Inr False, h)
      else if epoch h = MAX_EPOCH then (Inl RuntimeError, h)
      else
        abind (set_epoch_locked (epoch h + 1)) (\<lambda>_.
        abind (amodify (\<lambda>h. transition_state_locked LEADER (h\<lparr>leader := monitor_id h, leader_running := True\<rparr>))) (\<lambda>_.
        areturn True)) h)"

definition ignores_coordinator :: "election_message \<Rightarrow> election \<Rightarrow> bool" where
  "ignores_coordinator m h \<longleftrightarrow>
     em_epoch m < epoch h \<or> (em_epoch m = epoch h \<and> leader_running h \<and> em_sender m < leader h)"

definition accept_coordinator :: "election_message \<Rightarrow> (election, unit) act" where
  "accept_coordinator m =
     abind (amodify (election_generation_update (\<lambda>g. g + 1))) (\<lambda>_.
     abind (aget epoch) (\<lambda>e.
     abind (set_epoch_locked (max e (em_epoch m))) (\<lambda>_.
     amodify (\<lambda>h. transition_state_locked FOLLOWER (h\<lparr>leader := em_sender m, leader_running := True\<rparr>)
                    \<lparr>leader_semaphore := leader_semaphore h + 1\<rparr>))))"

definition handle_message :: "election_message \<Rightarrow> (election, election_message option \<times> bool) act" where
  "handle_message m h =
     (case em_type m of
        COORDINATOR \<Rightarrow>
          if ignores_coordinator m h then (Inr (None, False), h)
          else abind (accept_coordinator m) (\<lambda>_. areturn (None, False)) h
      | ELECTION \<Rightarrow>
          abind (set_epoch_locked (max (epoch h) (em_epoch m))) (\<lambda>_.
          abind (aget (\<lambda>h. mk_election_message OK (epoch h) (monitor_id h))) (\<lambda>r.
          abind (alift r) (\<lambda>response.
          areturn (Some response, em_sender m < monitor_id h)))) h
      | OK \<Rightarrow> (Inr (None, False), h))"

definition i_am_leader :: "election \<Rightarrow> bool" where
  "i_am_leader h \<longleftrightarrow> leader_running h \<and> leader h = monitor_id h"

definition election_stop :: "election \<Rightarrow> election" where
  "election_stop h =
     h\<lparr>stop_event := True, leader_semaphore := leader_semaphore h + 1,
       election_generation := election_generation h + 1\<rparr>"

subsection \<open>Connections\<close>

text \<open>
  A connection is what the peer sends before closing it, in the segments the network delivers;
  \<open>recv\<close> gives at most the bytes asked for, and nothing once the peer has closed.
\<close>

fun recv :: "nat \<Rightarrow> bytes list \<Rightarrow> bytes \<times> bytes list" where
  "recv k [] = ([], [])"
| "recv k (seg # segs) = (take k seg, if length seg \<le> k then segs else drop k seg # segs)"

function recv_exact_from :: "bytes \<Rightarrow> nat \<Rightarrow> bytes list \<Rightarrow> bytes res" where
  "recv_exact_from data wanted connection =
     (if length data < wanted then
        (case recv (wanted - length data) connection of (chunk, connection') \<Rightarrow>
         if chunk = [] then Inl OSError else recv_exact_from (data @ chunk) wanted connection')
      else Inr data)"
  by pat_completeness auto
termination
  by (relation "measure (\<lambda>(data, wanted, connection). wanted - length data)") (auto intro!: diff_less_mono2)

declare recv_exact_from.simps [simp del]

definition recv_exact :: "bytes list \<Rightarrow> nat \<Rightarrow> bytes res" where
  "recv_exact connection wanted = recv_exact_from [] wanted connection"

definition handle_connection :: "bytes list \<Rightarrow> (election, bytes option \<times> bool) act" where
  "handle_connection connection =
     abind (alift (recv_exact connection 4)) (\<lambda>data.
     abind (alift (deserialize_election data)) (\<lambda>m.
     abind (handle_message m) (\<lambda>(response, should_start).
     abind (alift (case response of None \<Rightarrow> Inr None
                   | Some r \<Rightarrow> rbind (serialize_election r) (\<lambda>b. Inr (Some b)))) (\<lambda>out.
     areturn (out, should_start)))))"

subsection \<open>Methods that talk to the peers\<close>

type_synonym 'w sender = "int \<Rightarrow> election_message \<Rightarrow> bool \<Rightarrow> ('w, election_message option) act"

fun ask_peers ::
  "('w \<Rightarrow> election) \<Rightarrow> (election \<Rightarrow> 'w \<Rightarrow> 'w) \<Rightarrow> 'w sender \<Rightarrow> int \<Rightarrow> election_message \<Rightarrow> int list \<Rightarrow> bool \<Rightarrow> ('w, bool) act" where
  "ask_peers get put send mid m [] higher = areturn higher"
| "ask_peers get put send mid m (peer_id # peers) higher =
     (\<lambda>w. if peer_id = mid then ask_peers get put send mid m peers higher w
       else
         (case send peer_id m True w of
            (Inl e, w') \<Rightarrow> if e = OSError then ask_peers get put send mid m peers higher w' else (Inl e, w')
          | (Inr response, w') \<Rightarrow>
              abind (azoom get put (hear_answer peer_id response)) (\<lambda>above.
              ask_peers get put send mid m peers (higher \<or> above)) w'))"

definition announce :: "'w sender \<Rightarrow> election_message \<Rightarrow> int \<Rightarrow> ('w, unit) act" where
  "announce send m peer_id w =
     (case send peer_id m False w of
        (Inl e, w') \<Rightarrow> if e = OSError then (Inr (), w') else (Inl e, w')
      | (Inr _, w') \<Rightarrow> (Inr (), w'))"

definition send_coordinator :: "('w \<Rightarrow> election) \<Rightarrow> 'w sender \<Rightarrow> ('w, unit) act" where
  "send_coordinator get send w =
     (let mid = monitor_id (get w) in
      abind (alift (mk_election_message COORDINATOR (epoch (get w)) mid)) (\<lambda>m.
      afor (announce send m) [1..mid - 1]) w)"

definition become_leader ::
  "('w \<Rightarrow> election) \<Rightarrow> (election \<Rightarrow> 'w \<Rightarrow> 'w) \<Rightarrow> 'w sender \<Rightarrow> int \<Rightarrow> ('w, bool) act" where
  "become_leader get put send generation =
     abind (azoom get put (claim_leadership generation)) (\<lambda>won.
     if won then abind (send_coordinator get send) (\<lambda>_. areturn True) else areturn False)"

definition run_election :: "('w \<Rightarrow> election) \<Rightarrow> (election \<Rightarrow> 'w \<Rightarrow> 'w) \<Rightarrow> 'w sender \<Rightarrow> ('w, unit) act" where
  "run_election get put send w =
     (let mid = monitor_id (get w) in
      abind (azoom get put begin_election) (\<lambda>(generation, e).
      abind (alift (mk_election_message ELECTION e mid)) (\<lambda>m.
      abind (ask_peers get put send mid m [1..monitor_count (get w)] False) (\<lambda>higher.
      if higher then areturn ()
      else abind (become_leader get put send generation) (\<lambda>_. areturn ())))) w)"

definition set_lock :: "bool \<Rightarrow> ('w \<Rightarrow> election) \<Rightarrow> (election \<Rightarrow> 'w \<Rightarrow> 'w) \<Rightarrow> 'w \<Rightarrow> 'w" where
  "set_lock b get put w = put ((get w)\<lparr>election_lock := b\<rparr>) w"

definition start_election :: "('w \<Rightarrow> election) \<Rightarrow> (election \<Rightarrow> 'w \<Rightarrow> 'w) \<Rightarrow> 'w sender \<Rightarrow> ('w, unit) act" where
  "start_election get put send w =
     (if stop_event (get w) then (Inr (), w)
      else if election_lock (get w) then (Inr (), w)
      else
        (case run_election get put send (set_lock True get put w) of
           (r, w') \<Rightarrow> (r, set_lock False get put w')))"

text \<open>What happens while the caller waits is a step of the world.\<close>

definition wait_for_new_leader ::
  "('w \<Rightarrow> election) \<Rightarrow> (election \<Rightarrow> 'w \<Rightarrow> 'w) \<Rightarrow> 'w sender \<Rightarrow> ('w \<Rightarrow> 'w) \<Rightarrow> ('w, bool) act" where
  "wait_for_new_leader get put send waiting w =
     (let w' = waiting w; h = get w' in
      if leader_semaphore h > 0
      then (Inr True, put (h\<lparr>leader_semaphore := leader_semaphore h - 1\<rparr>) w')
      else abind (start_election get put send) (\<lambda>_. areturn False) w')"

subsection \<open>The invariant of a handler\<close>

text \<open>
  The ids are in range, the epoch is in range and, when there is an epoch file, it holds exactly
  the epoch in memory; a leader knows itself as the running leader, a candidate knows none.
\<close>

definition stored :: "epoch_file option \<Rightarrow> int \<Rightarrow> bool" where
  "stored store e \<longleftrightarrow> (case store of None \<Rightarrow> True | Some file \<Rightarrow> epoch_load file = Inr e)"

definition election_ok :: "election \<Rightarrow> bool" where
  "election_ok h \<longleftrightarrow> 1 \<le> monitor_id h \<and> monitor_id h \<le> monitor_count h \<and> monitor_count h \<le> 255 \<and>
     0 \<le> epoch h \<and> epoch h \<le> MAX_EPOCH \<and> stored (epoch_store h) (epoch h) \<and>
     (role h = LEADER \<longrightarrow> i_am_leader h) \<and> (role h = CANDIDATE \<longrightarrow> \<not> leader_running h)"

text \<open>The handler after setting an epoch in range.\<close>

definition with_epoch :: "int \<Rightarrow> election \<Rightarrow> election" where
  "with_epoch e h =
     h\<lparr>epoch := e,
       epoch_store := (if e = epoch h then epoch_store h else map_option (\<lambda>_. Some (epoch_text e)) (epoch_store h))\<rparr>"

lemma with_epoch_simps [simp]:
  "monitor_id (with_epoch e h) = monitor_id h" "monitor_count (with_epoch e h) = monitor_count h"
  "leader (with_epoch e h) = leader h" "epoch (with_epoch e h) = e" "role (with_epoch e h) = role h"
  "election_generation (with_epoch e h) = election_generation h" "leader_running (with_epoch e h) = leader_running h"
  "leader_semaphore (with_epoch e h) = leader_semaphore h" "stop_event (with_epoch e h) = stop_event h"
  "election_lock (with_epoch e h) = election_lock h" "i_am_leader (with_epoch e h) = i_am_leader h"
  by (simp_all add: with_epoch_def i_am_leader_def)

lemma set_epoch_locked_eq: "0 \<le> e \<Longrightarrow> e \<le> MAX_EPOCH \<Longrightarrow> set_epoch_locked e h = (Inr (), with_epoch e h)"
  by (cases h) (auto simp: set_epoch_locked_def with_epoch_def epoch_save_def split: option.split)

lemma with_epoch_ok: "election_ok h \<Longrightarrow> 0 \<le> e \<Longrightarrow> e \<le> MAX_EPOCH \<Longrightarrow> election_ok (with_epoch e h)"
  by (auto simp: election_ok_def stored_def with_epoch_def epoch_roundtrip i_am_leader_def split: option.splits if_splits)

lemma election_ok_bounds:
  assumes "election_ok h"
  shows "0 \<le> epoch h" "epoch h \<le> MAX_EPOCH" "0 \<le> monitor_id h" "monitor_id h \<le> MAX_SENDER_ID"
  using assms by (auto simp: election_ok_def MAX_SENDER_ID_def)

lemma mk_election_message_own:
  "election_ok h \<Longrightarrow> mk_election_message t (epoch h) (monitor_id h) =
     Inr \<lparr>em_type = t, em_epoch = epoch h, em_sender = monitor_id h\<rparr>"
  by (simp add: mk_election_message_Inr election_message_ok_def election_ok_bounds)

lemma max_epoch_bounds:
  "election_ok h \<Longrightarrow> election_message_ok m \<Longrightarrow> 0 \<le> max (epoch h) (em_epoch m) \<and> max (epoch h) (em_epoch m) \<le> MAX_EPOCH"
  by (auto simp: election_message_ok_def election_ok_bounds)

subsection \<open>What the locked sections do\<close>

lemma begin_election_eq:
  "begin_election h =
   (let h' = h\<lparr>election_generation := election_generation h + 1, leader_running := False, role := CANDIDATE\<rparr>
    in (Inr (election_generation h + 1, epoch h), h'))"
  by (cases h) (auto simp: begin_election_def transition_state_locked_def Let_def)

lemma hear_answer_eq:
  assumes "election_ok h" and "\<And>m. response = Some m \<Longrightarrow> election_message_ok m"
  shows "hear_answer peer response h =
    (case response of
       Some m \<Rightarrow> if em_type m = OK \<and> em_sender m = peer
                 then (Inr (peer > monitor_id h), with_epoch (max (epoch h) (em_epoch m)) h) else (Inr False, h)
     | None \<Rightarrow> (Inr False, h))"
proof (cases response)
  case (Some m)
  then show ?thesis using max_epoch_bounds [OF assms(1) assms(2) [OF Some]]
    by (simp add: hear_answer_def abind_def areturn_def set_epoch_locked_eq)
qed (simp add: hear_answer_def)

lemma claim_leadership_eq:
  assumes "election_ok h"
  shows "claim_leadership g h =
    (if stop_event h \<or> g \<noteq> election_generation h \<or> leader_running h then (Inr False, h)
     else if epoch h = MAX_EPOCH then (Inl RuntimeError, h)
     else (Inr True, (with_epoch (epoch h + 1) h)\<lparr>leader := monitor_id h, leader_running := True, role := LEADER\<rparr>))"
  using election_ok_bounds [OF assms]
  by (cases "with_epoch (epoch h + 1) h")
    (auto simp: claim_leadership_def act_defs set_epoch_locked_eq transition_state_locked_def dest: arg_cong [where f = monitor_id])

lemma handle_message_eq:
  assumes "election_ok h" and "election_message_ok m"
  shows "handle_message m h =
    (case em_type m of
       COORDINATOR \<Rightarrow>
         if ignores_coordinator m h then (Inr (None, False), h)
         else (Inr (None, False), (with_epoch (em_epoch m) h)\<lparr>election_generation := election_generation h + 1,
                 leader := em_sender m, leader_running := True, role := FOLLOWER,
                 leader_semaphore := leader_semaphore h + 1\<rparr>)
     | ELECTION \<Rightarrow>
         (let h' = with_epoch (max (epoch h) (em_epoch m)) h in
          (Inr (Some \<lparr>em_type = OK, em_epoch = epoch h', em_sender = monitor_id h'\<rparr>, em_sender m < monitor_id h), h'))
     | OK \<Rightarrow> (Inr (None, False), h))"
proof (cases "em_type m")
  case ELECTION
  note bounds = max_epoch_bounds [OF assms]
  with ELECTION mk_election_message_own [OF with_epoch_ok [OF assms(1)], of _ OK] show ?thesis
    by (simp add: handle_message_def act_defs set_epoch_locked_eq Let_def)
next
  case COORDINATOR
  have "0 \<le> em_epoch m" "em_epoch m \<le> MAX_EPOCH" using assms(2) by (simp_all add: election_message_ok_def)
  moreover have "\<not> ignores_coordinator m h \<Longrightarrow> max (epoch h) (em_epoch m) = em_epoch m"
    by (auto simp: ignores_coordinator_def)
  ultimately show ?thesis using COORDINATOR
    by (auto simp: handle_message_def accept_coordinator_def act_defs set_epoch_locked_eq transition_state_locked_def with_epoch_def)
qed (simp add: handle_message_def)

end
