(* ===== verification/ElectionRuns.thy ===== *)
theory ElectionRuns
  imports ElectionHandler
begin

text \<open>
  Runs of one election handler: its locked sections interleaved in any order the threads allow.
  At most one thread is inside \<open>start_election\<close> (it holds the election lock); between its steps the
  listener may handle any message, the process may be stopped, or may die and restart from the epoch
  file.
\<close>

subsection \<open>Interleaved steps\<close>

text \<open>Where the thread that holds the election lock is: nowhere, or between two answers.\<close>

datatype phase = Idle | Asking int bool

datatype election_event =
    Begin
  | Answer int "election_message option"
  | Decide
  | Receive election_message
  | Stop
  | Restart

text \<open>The handler, the phase, and the epochs in which this monitor has become the leader.\<close>

record election_run =
  run_handler :: election
  run_phase :: phase
  run_won :: "int list"

fun election_step :: "election_event \<Rightarrow> election_run \<Rightarrow> election_run" where
  "election_step Begin s =
     (if stop_event (run_handler s) \<or> run_phase s \<noteq> Idle then s
      else
        (case begin_election (run_handler s) of
           (Inr (g, _), h) \<Rightarrow> s\<lparr>run_handler := h, run_phase := Asking g False\<rparr>
         | (Inl _, h) \<Rightarrow> s\<lparr>run_handler := h\<rparr>))"
| "election_step (Answer peer response) s =
     (case run_phase s of
        Idle \<Rightarrow> s
      | Asking g higher \<Rightarrow>
          (case hear_answer peer response (run_handler s) of
             (Inr answered, h) \<Rightarrow> s\<lparr>run_handler := h, run_phase := Asking g (higher \<or> answered)\<rparr>
           | (Inl _, h) \<Rightarrow> s\<lparr>run_handler := h, run_phase := Idle\<rparr>))"
| "election_step Decide s =
     (case run_phase s of
        Idle \<Rightarrow> s
      | Asking g True \<Rightarrow> s\<lparr>run_phase := Idle\<rparr>
      | Asking g False \<Rightarrow>
          (case claim_leadership g (run_handler s) of
             (Inr True, h) \<Rightarrow> s\<lparr>run_handler := h, run_phase := Idle, run_won := run_won s @ [epoch h]\<rparr>
           | (_, h) \<Rightarrow> s\<lparr>run_handler := h, run_phase := Idle\<rparr>))"
| "election_step (Receive m) s = s\<lparr>run_handler := snd (handle_message m (run_handler s))\<rparr>"
| "election_step Stop s = s\<lparr>run_handler := election_stop (run_handler s)\<rparr>"
| "election_step Restart s =
     (case new_election_handler (monitor_id (run_handler s)) (monitor_count (run_handler s)) 1 (epoch_store (run_handler s)) of
        Inr h \<Rightarrow> s\<lparr>run_handler := h, run_phase := Idle\<rparr>
      | Inl _ \<Rightarrow> s)"

definition election_events :: "election_event list \<Rightarrow> election_run \<Rightarrow> election_run" where
  "election_events evs s = foldl (\<lambda>s ev. election_step ev s) s evs"

fun event_ok :: "election_event \<Rightarrow> bool" where
  "event_ok (Answer peer (Some m)) = election_message_ok m"
| "event_ok (Receive m) = election_message_ok m"
| "event_ok _ = True"

lemma election_events_simps [simp]:
  "election_events [] s = s"
  "election_events (ev # evs) s = election_events evs (election_step ev s)"
  "election_events (evs @ evs') s = election_events evs' (election_events evs s)"
  by (simp_all add: election_events_def)

subsection \<open>The invariant of a run\<close>

text \<open>
  The epochs won are increasing and none is above the current epoch; a running election's
  generation is not above the handler's, and while the two are equal no leader is running.
\<close>

definition run_ok :: "election_run \<Rightarrow> bool" where
  "run_ok s \<longleftrightarrow> election_ok (run_handler s) \<and> epoch_store (run_handler s) \<noteq> None \<and>
     sorted_wrt (<) (run_won s) \<and> (\<forall>e \<in> set (run_won s). e \<le> epoch (run_handler s)) \<and>
     (case run_phase s of Idle \<Rightarrow> True | Asking g higher \<Rightarrow> g \<le> election_generation (run_handler s))"

lemma epoch_store_with_epoch [simp]:
  "epoch_store (with_epoch e h) = None \<longleftrightarrow> epoch_store h = None"
  "(\<exists>f. epoch_store (with_epoch e h) = Some f) \<longleftrightarrow> (\<exists>f. epoch_store h = Some f)"
  by (simp_all add: with_epoch_def)

lemma election_ok_update:
  assumes "election_ok h" and "st = LEADER \<longrightarrow> b \<and> l = monitor_id h" and "st = CANDIDATE \<longrightarrow> \<not> b"
  shows "election_ok (h\<lparr>leader := l, leader_running := b, role := st\<rparr>)"
  using assms by (auto simp: election_ok_def i_am_leader_def)

lemma election_ok_generation [simp]:
  "election_ok (h\<lparr>election_generation := g\<rparr>) = election_ok h"
  "election_ok (h\<lparr>leader_semaphore := n\<rparr>) = election_ok h"
  "election_ok (h\<lparr>stop_event := b\<rparr>) = election_ok h"
  "election_ok (h\<lparr>election_lock := b\<rparr>) = election_ok h"
  by (simp_all add: election_ok_def i_am_leader_def)

lemma begin_ok: "election_ok h \<Longrightarrow> election_ok (snd (begin_election h))"
  by (auto simp: begin_election_eq Let_def election_ok_def i_am_leader_def)

lemma hear_answer_ok:
  assumes "election_ok h" and "\<And>m. response = Some m \<Longrightarrow> election_message_ok m"
  shows "election_ok (snd (hear_answer peer response h))" and "epoch h \<le> epoch (snd (hear_answer peer response h))"
    and "election_generation (snd (hear_answer peer response h)) = election_generation h"
    and "epoch_store (snd (hear_answer peer response h)) = None \<longleftrightarrow> epoch_store h = None"
  using assms max_epoch_bounds [OF assms(1)]
  by (auto simp: hear_answer_eq [OF assms] with_epoch_ok split: option.split)

lemma claim_ok:
  assumes "election_ok h"
  shows "election_ok (snd (claim_leadership g h))"
proof (cases "stop_event h \<or> g \<noteq> election_generation h \<or> leader_running h \<or> epoch h = MAX_EPOCH")
  case True
  then show ?thesis using assms by (auto simp: claim_leadership_eq)
next
  case False
  then have "election_ok (with_epoch (epoch h + 1) h)"
    using election_ok_bounds [OF assms] by (intro with_epoch_ok [OF assms]) auto
  from election_ok_update [OF this, of LEADER True "monitor_id h"] False show ?thesis
    by (simp add: claim_leadership_eq [OF assms])
qed

lemma handle_message_ok:
  assumes "election_ok h" and "election_message_ok m"
  shows "election_ok (snd (handle_message m h))" and "epoch h \<le> epoch (snd (handle_message m h))"
    and "election_generation h \<le> election_generation (snd (handle_message m h))"
    and "epoch_store (snd (handle_message m h)) = None \<longleftrightarrow> epoch_store h = None"
proof -
  have "0 \<le> em_epoch m" "em_epoch m \<le> MAX_EPOCH" using assms(2) by (simp_all add: election_message_ok_def)
  then have "election_ok (with_epoch (em_epoch m) h)" by (rule with_epoch_ok [OF assms(1)])
  from election_ok_update [OF this, of FOLLOWER True "em_sender m"]
  have follower: "election_ok ((with_epoch (em_epoch m) h)\<lparr>leader := em_sender m, leader_running := True, role := FOLLOWER\<rparr>)"
    by simp
  then have "election_ok ((with_epoch (em_epoch m) h)\<lparr>election_generation := election_generation h + 1, leader := em_sender m,
      leader_running := True, role := FOLLOWER, leader_semaphore := leader_semaphore h + 1\<rparr>)"
    by (simp add: election_ok_def i_am_leader_def)
  with assms max_epoch_bounds [OF assms] show "election_ok (snd (handle_message m h))"
    by (auto simp: handle_message_eq Let_def with_epoch_ok split: election_message_type.split)
  show "epoch h \<le> epoch (snd (handle_message m h))"
    and "election_generation h \<le> election_generation (snd (handle_message m h))"
    and "epoch_store (snd (handle_message m h)) = None \<longleftrightarrow> epoch_store h = None"
    by (auto simp: handle_message_eq [OF assms] Let_def ignores_coordinator_def split: election_message_type.split)
qed

lemma restart_ok:
  assumes "election_ok h" and "epoch_store h \<noteq> None"
  obtains h' where "new_election_handler (monitor_id h) (monitor_count h) 1 (epoch_store h) = Inr h'"
    and "election_ok h'" and "epoch h' = epoch h" and "epoch_store h' = epoch_store h"
  using assms by (auto simp: new_election_handler_def election_ok_def stored_def i_am_leader_def split: option.splits)

lemma sorted_wrt_snoc: "sorted_wrt (<) (xs @ [x :: int]) \<longleftrightarrow> sorted_wrt (<) xs \<and> (\<forall>y \<in> set xs. y < x)"
  by (simp add: sorted_wrt_append)

lemma event_preserves:
  assumes ok: "run_ok s" and ev: "event_ok ev"
  shows "run_ok (election_step ev s)"
proof (cases ev)
  case Begin
  then show ?thesis using ok begin_ok [of "run_handler s"]
    by (auto simp: run_ok_def begin_election_eq Let_def)
next
  case (Answer peer response)
  have msg: "\<And>m. response = Some m \<Longrightarrow> election_message_ok m" using ev Answer by auto
  have h: "election_ok (run_handler s)" using ok by (simp add: run_ok_def)
  obtain r h' where "hear_answer peer response (run_handler s) = (r, h')" by fastforce
  with hear_answer_ok [OF h msg, of response peer] ok Answer show ?thesis
    by (cases "run_phase s") (auto simp: run_ok_def split: sum.splits)
next
  case Decide
  have h: "election_ok (run_handler s)" using ok by (simp add: run_ok_def)
  show ?thesis
  proof (cases "run_phase s")
    case (Asking g higher)
    with Decide ok claim_ok [OF h, of g] show ?thesis
      by (cases higher) (auto simp: run_ok_def claim_leadership_eq [OF h] sorted_wrt_snoc split: if_splits)
  qed (use Decide ok in simp)
next
  case (Receive m)
  then have "election_message_ok m" "election_ok (run_handler s)" using ev ok by (auto simp: run_ok_def)
  from handle_message_ok [OF this(2,1)] ok Receive show ?thesis
    by (auto simp: run_ok_def split: phase.splits)
next
  case Stop
  then show ?thesis using ok by (auto simp: run_ok_def election_stop_def election_ok_def i_am_leader_def split: phase.splits)
next
  case Restart
  have "election_ok (run_handler s)" "epoch_store (run_handler s) \<noteq> None" using ok by (auto simp: run_ok_def)
  then obtain h' where "new_election_handler (monitor_id (run_handler s)) (monitor_count (run_handler s)) 1
      (epoch_store (run_handler s)) = Inr h'" "election_ok h'" "epoch h' = epoch (run_handler s)"
      "epoch_store h' = epoch_store (run_handler s)"
    by (rule restart_ok)
  with ok Restart show ?thesis by (auto simp: run_ok_def)
qed

lemma events_preserve: "run_ok s \<Longrightarrow> list_all event_ok evs \<Longrightarrow> run_ok (election_events evs s)"
  by (induction evs arbitrary: s) (auto simp: event_preserves)

definition fresh_run :: "election \<Rightarrow> election_run" where
  "fresh_run h = \<lparr>run_handler = h, run_phase = Idle, run_won = []\<rparr>"

lemma fresh_run_ok:
  assumes "new_election_handler mid count t (Some file) = Inr h"
  shows "run_ok (fresh_run h)"
proof -
  from assms obtain e where load: "epoch_load file = Inr e"
    by (auto simp: new_election_handler_def split: if_splits)
  then have "0 \<le> e \<and> e \<le> MAX_EPOCH"
    by (auto simp: epoch_load_def MAX_EPOCH_def split: option.splits sum.splits json.splits if_splits)
  with assms load show ?thesis
    by (auto simp: run_ok_def fresh_run_def new_election_handler_def election_ok_def stored_def i_am_leader_def split: if_splits)
qed

subsection \<open>Elections that were overtaken\<close>

lemma handle_coordinator_generation:
  assumes "election_ok h" and "election_message_ok m" and "em_type m = COORDINATOR" and "\<not> ignores_coordinator m h"
  shows "election_generation (snd (handle_message m h)) = election_generation h + 1"
  using assms by (simp add: handle_message_eq)

text \<open>An election that is behind the handler's generation cannot win, whatever follows.\<close>

definition overtaken :: "election_run \<Rightarrow> bool" where
  "overtaken s \<longleftrightarrow> (case run_phase s of Idle \<Rightarrow> True | Asking g higher \<Rightarrow> g < election_generation (run_handler s))"

lemma overtaken_step:
  assumes "run_ok s" and "event_ok ev" and "ev \<noteq> Begin" and "overtaken s"
  shows "overtaken (election_step ev s) \<and> run_won (election_step ev s) = run_won s"
proof -
  have h: "election_ok (run_handler s)" using assms(1) by (simp add: run_ok_def)
  show ?thesis
  proof (cases ev)
    case (Answer peer response)
    have msg: "\<And>m. response = Some m \<Longrightarrow> election_message_ok m" using assms(2) Answer by auto
    obtain r h' where "hear_answer peer response (run_handler s) = (r, h')" by fastforce
    with hear_answer_ok(3) [OF h msg, of response peer] assms Answer show ?thesis
      by (cases "run_phase s") (auto simp: overtaken_def split: sum.splits)
  next
    case Decide
    show ?thesis
    proof (cases "run_phase s")
      case (Asking g higher)
      with assms Decide h show ?thesis by (cases higher) (auto simp: overtaken_def claim_leadership_eq)
    qed (use Decide assms in \<open>simp add: overtaken_def\<close>)
  next
    case (Receive m)
    then have "election_generation (run_handler s) \<le> election_generation (snd (handle_message m (run_handler s)))"
      using handle_message_ok(3) [OF h] assms(2) by simp
    with Receive assms show ?thesis by (auto simp: overtaken_def split: phase.splits)
  next
    case Stop
    with assms show ?thesis by (auto simp: overtaken_def election_stop_def split: phase.splits)
  next
    case Restart
    with assms show ?thesis by (auto simp: overtaken_def split: sum.splits)
  qed (use assms in simp)
qed

lemma overtaken_run:
  assumes "run_ok s" and "list_all event_ok evs" and "Begin \<notin> set evs" and "overtaken s"
  shows "run_won (election_events evs s) = run_won s"
  using assms
proof (induction evs arbitrary: s)
  case (Cons ev evs)
  then have "overtaken (election_step ev s)" "run_won (election_step ev s) = run_won s"
    using overtaken_step [of s ev] by auto
  with Cons event_preserves [of s ev] show ?case by simp
qed simp

subsection \<open>Properties\<close>

text \<open>
  C29: a monitor never leads twice in one epoch. However answers, messages of other monitors, stops,
  crashes and restarts interleave with its elections, the epochs in which it becomes the leader are
  strictly increasing, none exceeds its current epoch, the epoch file always holds exactly the
  current epoch, and a monitor in the leader state knows itself as the running leader.
\<close>

theorem epochs_won_increase:
  assumes "new_election_handler mid count t (Some file) = Inr h" and "list_all event_ok evs"
    and "s = election_events evs (fresh_run h)"
  shows "sorted_wrt (<) (run_won s) \<and> (\<forall>e \<in> set (run_won s). e \<le> epoch (run_handler s)) \<and>
    (\<exists>f. epoch_store (run_handler s) = Some f \<and> epoch_load f = Inr (epoch (run_handler s))) \<and>
    (role (run_handler s) = LEADER \<longrightarrow> i_am_leader (run_handler s))"
proof -
  have "run_ok s" using events_preserve [OF fresh_run_ok [OF assms(1)] assms(2)] assms(3) by simp
  then show ?thesis by (auto simp: run_ok_def election_ok_def stored_def split: option.splits)
qed

text \<open>A handler of monitor 2 of 3 without an epoch file yet, and an announcement of monitor 3.\<close>

definition sample_handler :: election where
  "sample_handler = \<lparr>monitor_id = 2, monitor_count = 3, epoch_store = Some None, leader = 3, epoch = 0,
     role = FOLLOWER, election_generation = 0, leader_running = False, leader_semaphore = 0,
     stop_event = False, election_lock = False\<rparr>"

definition sample_coordinator :: election_message where
  "sample_coordinator = \<lparr>em_type = COORDINATOR, em_epoch = 4, em_sender = 3\<rparr>"

lemma sample_handler_new: "new_election_handler 2 3 5000 (Some None) = Inr sample_handler"
  by (simp add: new_election_handler_def sample_handler_def epoch_load_def)

lemma sample_coordinator_ok: "election_message_ok sample_coordinator"
  by (simp add: sample_coordinator_def election_message_ok_def MAX_EPOCH_def MAX_SENDER_ID_def)

lemmas election_eval = election_step.simps begin_election_def claim_leadership_def set_epoch_locked_def epoch_save_def
  transition_state_locked_def hear_answer_def handle_message_def ignores_coordinator_def accept_coordinator_def
  act_defs Let_def fresh_run_def sample_handler_def sample_coordinator_def MAX_EPOCH_def

theorem epochs_won_increase_witness:
  "let s = election_events [Begin, Answer 1 None, Decide, Restart, Begin, Decide] (fresh_run sample_handler) in
   run_won s = [1, 2] \<and> sorted_wrt (<) (run_won s) \<and> role (run_handler s) = LEADER \<and> i_am_leader (run_handler s)"
proof -
  let ?evs = "[Begin, Answer 1 None, Decide, Restart, Begin, Decide]"
  let ?s = "election_events ?evs (fresh_run sample_handler)"
  have after: "election_events [Begin, Answer 1 None, Decide] (fresh_run sample_handler) =
      \<lparr>run_handler = sample_handler\<lparr>epoch_store := Some (Some (epoch_text 1)), leader := 2, epoch := 1, role := LEADER,
         election_generation := 1, leader_running := True\<rparr>, run_phase = Idle, run_won = [1]\<rparr>"
    by (simp add: election_eval)
  have restart: "new_election_handler 2 3 1 (Some (Some (epoch_text 1))) =
      Inr (sample_handler\<lparr>epoch_store := Some (Some (epoch_text 1)), epoch := 1\<rparr>)"
    using epoch_roundtrip [of 1] by (simp add: new_election_handler_def sample_handler_def MAX_EPOCH_def)
  have "?s = election_events [Restart, Begin, Decide] (election_events [Begin, Answer 1 None, Decide] (fresh_run sample_handler))"
    by simp
  also have "\<dots> = election_events [Begin, Decide] \<lparr>run_handler = sample_handler\<lparr>epoch_store := Some (Some (epoch_text 1)),
      epoch := 1\<rparr>, run_phase = Idle, run_won = [1]\<rparr>"
    unfolding after using restart by (simp add: sample_handler_def)
  also have "run_won \<dots> = [1, 2] \<and> role (run_handler \<dots>) = LEADER" by (simp add: election_eval)
  finally have "run_won ?s = [1, 2]" "role (run_handler ?s) = LEADER" by auto
  moreover have "list_all event_ok ?evs" by simp
  from epochs_won_increase [OF sample_handler_new this refl]
  have "sorted_wrt (<) (run_won ?s) \<and> (role (run_handler ?s) = LEADER \<longrightarrow> i_am_leader (run_handler ?s))" by blast
  ultimately show ?thesis unfolding Let_def by blast
qed

text \<open>
  C30: an announced leader cancels the election in progress. When a handler accepts the announcement
  of a coordinator, it does not become the leader again before it begins a new election, whatever
  answers and messages follow and however far the election it was in had come.
\<close>

theorem coordinator_cancels_election:
  assumes "new_election_handler mid count t (Some file) = Inr h" and "list_all event_ok (evs @ Receive m # evs')"
    and "em_type m = COORDINATOR" and "\<not> ignores_coordinator m (run_handler (election_events evs (fresh_run h)))"
    and "Begin \<notin> set evs'"
  shows "run_won (election_events (evs @ Receive m # evs') (fresh_run h)) = run_won (election_events evs (fresh_run h))"
proof -
  let ?s = "election_events evs (fresh_run h)"
  have ok: "run_ok ?s" and m: "election_message_ok m"
    using events_preserve [OF fresh_run_ok [OF assms(1)], of evs] assms(2) by auto
  from m have "run_ok (election_step (Receive m) ?s)" by (intro event_preserves [OF ok]) simp
  moreover have "overtaken (election_step (Receive m) ?s)"
    using ok handle_coordinator_generation [OF _ m assms(3,4)] by (auto simp: run_ok_def overtaken_def split: phase.splits)
  ultimately have "run_won (election_events evs' (election_step (Receive m) ?s)) = run_won (election_step (Receive m) ?s)"
    using assms(2,5) by (intro overtaken_run) auto
  then show ?thesis by simp
qed

theorem coordinator_cancels_election_witness:
  "run_won (election_events ([Begin] @ Receive sample_coordinator # [Answer 1 None, Decide]) (fresh_run sample_handler)) = [] \<and>
   run_won (election_events [Begin, Answer 1 None, Decide] (fresh_run sample_handler)) = [1]"
proof -
  have "\<not> ignores_coordinator sample_coordinator (run_handler (election_events [Begin] (fresh_run sample_handler)))"
    and "run_won (election_events [Begin] (fresh_run sample_handler)) = []"
    and "run_won (election_events [Begin, Answer 1 None, Decide] (fresh_run sample_handler)) = [1]"
    by (simp_all add: election_eval)
  moreover have "em_type sample_coordinator = COORDINATOR" by (simp add: sample_coordinator_def)
  ultimately show ?thesis
    using coordinator_cancels_election [OF sample_handler_new, of "[Begin]" sample_coordinator "[Answer 1 None, Decide]"]
      sample_coordinator_ok by simp
qed

end
