(* ===== verification/ElectionNetwork.thy ===== *)
theory ElectionNetwork
  imports ElectionRuns
begin

text \<open>
  The monitors together: \<open>_send_tcp_message\<close> of one handler meets \<open>_handle_connection\<close> of another.
  A message to a monitor that is not running, and a question the peer closes without answering,
  raise \<open>OSError\<close> in the sender. With this sender \<open>start_election\<close> of the highest running monitor
  is shown to establish one leader that every running monitor follows.
\<close>

subsection \<open>Receiving exactly\<close>

lemma recv_exact_from_segments:
  assumes "[] \<notin> set segs"
  shows "recv_exact_from data n segs =
    (if n \<le> length data then Inr data
     else if n \<le> length (data @ concat segs) then Inr (take n (data @ concat segs)) else Inl OSError)"
  using assms
proof (induction data n segs rule: recv_exact_from.induct)
  case (1 data n segs)
  show ?case
  proof (cases segs)
    case Nil
    then show ?thesis by (simp add: recv_exact_from.simps [of data])
  next
    case (Cons seg rest)
    let ?k = "n - length data"
    let ?rest = "if length seg \<le> ?k then rest else drop ?k seg # rest"
    have seg: "seg \<noteq> []" "[] \<notin> set ?rest" using 1(2) Cons by auto
    have join: "take ?k seg @ concat ?rest = seg @ concat rest" by simp
    show ?thesis
    proof (cases "length data < n")
      case True
      then have IH: "recv_exact_from (data @ take ?k seg) n ?rest =
          (if n \<le> length (data @ take ?k seg) then Inr (data @ take ?k seg)
           else if n \<le> length ((data @ take ?k seg) @ concat ?rest) then Inr (take n ((data @ take ?k seg) @ concat ?rest))
           else Inl OSError)"
        using 1(1) [of "take ?k seg" ?rest] seg Cons by simp
      have "(data @ take ?k seg) @ concat ?rest = data @ concat segs"
        using join Cons by simp
      with IH True seg Cons show ?thesis
        by (subst recv_exact_from.simps) (auto simp: min_def take_append split: if_splits)
    qed (simp add: recv_exact_from.simps [of data])
  qed
qed

lemma recv_exact_segments:
  "[] \<notin> set segs \<Longrightarrow> recv_exact segs n = (if n \<le> length (concat segs) then Inr (take n (concat segs)) else Inl OSError)"
  by (auto simp: recv_exact_def recv_exact_from_segments)

subsection \<open>The network\<close>

record network =
  nodes :: "int \<Rightarrow> election"
  running :: "int set"

definition get_node :: "int \<Rightarrow> network \<Rightarrow> election" where
  "get_node k w = nodes w k"

definition put_node :: "int \<Rightarrow> election \<Rightarrow> network \<Rightarrow> network" where
  "put_node k h w = w\<lparr>nodes := (nodes w)(k := h)\<rparr>"

definition send_tcp_message :: "network sender" where
  "send_tcp_message peer_id m expect_response w =
     (if peer_id \<notin> running w then (Inl OSError, w)
      else
        (case serialize_election m of
           Inl e \<Rightarrow> (Inl e, w)
         | Inr data \<Rightarrow>
             (case handle_connection [data] (get_node peer_id w) of
                (r, h) \<Rightarrow>
                  (if \<not> expect_response then Inr None
                   else (case r of
                           Inr (Some answer, _) \<Rightarrow>
                             rbind (recv_exact [answer] 4) (\<lambda>d. rbind (deserialize_election d) (\<lambda>m. Inr (Some m)))
                         | _ \<Rightarrow> Inl OSError),
                   put_node peer_id h w))))"

definition network_election :: "int \<Rightarrow> (network, unit) act" where
  "network_election k = start_election (get_node k) (put_node k) send_tcp_message"

lemma node_simps [simp]:
  "get_node j (put_node k h w) = (if j = k then h else get_node j w)"
  "running (put_node k h w) = running w"
  by (simp_all add: get_node_def put_node_def)

lemma handle_connection_eq:
  assumes "election_ok h" and "election_message_ok m" and "serialize_election m = Inr data"
  shows "handle_connection [data] h =
    (case handle_message m h of
       (Inr (None, start), h') \<Rightarrow> (Inr (None, start), h')
     | (Inr (Some r, start), h') \<Rightarrow> (rbind (serialize_election r) (\<lambda>b. Inr (Some b, start)), h')
     | (Inl e, h') \<Rightarrow> (Inl e, h'))"
proof -
  obtain data' where data': "serialize_election m = Inr data'" "deserialize_election data' = Inr m"
    using election_message_roundtrip [OF assms(2)] by blast
  with assms(3) have "deserialize_election data = Inr m" by simp
  moreover from this have "length data = 4" by (simp add: deserialize_election_def MSG_SIZE_def split: if_splits)
  then have "recv_exact [data] 4 = Inr data" by (subst recv_exact_segments) auto
  ultimately show ?thesis
    by (auto simp: handle_connection_def act_defs split: prod.splits sum.splits option.splits)
      (auto simp: rbind_eq_Inl)
qed

text \<open>Asking a running monitor, and announcing to it.\<close>

lemma send_election:
  assumes peer: "peer \<in> running w" "election_ok (get_node peer w)" and m: "election_message_ok m" "em_type m = ELECTION"
  shows "send_tcp_message peer m True w =
    (let h = get_node peer w; e = max (epoch h) (em_epoch m) in
     (Inr (Some \<lparr>em_type = OK, em_epoch = e, em_sender = monitor_id h\<rparr>), put_node peer (with_epoch e h) w))"
proof -
  let ?h = "get_node peer w" let ?e = "max (epoch ?h) (em_epoch m)"
  let ?r = "\<lparr>em_type = OK, em_epoch = ?e, em_sender = monitor_id ?h\<rparr>"
  obtain data where data: "serialize_election m = Inr data" using election_message_roundtrip [OF m(1)] by blast
  have "election_message_ok ?r"
    using max_epoch_bounds [OF peer(2) m(1)] election_ok_bounds [OF peer(2)] by (simp add: election_message_ok_def)
  then obtain answer where answer: "serialize_election ?r = Inr answer" "deserialize_election answer = Inr ?r"
    using election_message_roundtrip by blast
  then have "length answer = 4" by (simp add: deserialize_election_def MSG_SIZE_def split: if_splits)
  then have "recv_exact [answer] 4 = Inr answer" by (subst recv_exact_segments) auto
  with data answer peer m show ?thesis
    by (simp add: send_tcp_message_def handle_connection_eq handle_message_eq Let_def)
qed

lemma send_coordinator_message:
  assumes peer: "peer \<in> running w" "election_ok (get_node peer w)" and m: "election_message_ok m" "em_type m = COORDINATOR"
    and newer: "epoch (get_node peer w) < em_epoch m"
  shows "announce send_tcp_message m peer w =
    (let h = get_node peer w in
     (Inr (), put_node peer ((with_epoch (em_epoch m) h)\<lparr>election_generation := election_generation h + 1,
        leader := em_sender m, leader_running := True, role := FOLLOWER, leader_semaphore := leader_semaphore h + 1\<rparr>) w))"
proof -
  obtain data where data: "serialize_election m = Inr data" using election_message_roundtrip [OF m(1)] by blast
  have "\<not> ignores_coordinator m (get_node peer w)" using newer by (simp add: ignores_coordinator_def)
  with data peer m show ?thesis
    by (simp add: announce_def send_tcp_message_def handle_connection_eq handle_message_eq Let_def)
qed

lemma send_dead: "peer \<notin> running w \<Longrightarrow> send_tcp_message peer m b w = (Inl OSError, w)"
  by (simp add: send_tcp_message_def)

subsection \<open>The election of the highest running monitor\<close>

text \<open>Every running monitor is in order, knows its number, and none is above \<open>k\<close>.\<close>

definition network_ok :: "int \<Rightarrow> network \<Rightarrow> bool" where
  "network_ok k w \<longleftrightarrow> k \<in> running w \<and>
     (\<forall>j \<in> running w. j \<le> k \<and> 1 \<le> j \<and> j \<le> monitor_count (get_node k w) \<and> monitor_id (get_node j w) = j \<and> election_ok (get_node j w))"

text \<open>A run of the asking loop changes epochs only, and raises them only.\<close>

definition no_epoch :: "election \<Rightarrow> election" where
  "no_epoch h = h\<lparr>epoch := 0, epoch_store := None\<rparr>"

definition only_epochs :: "network \<Rightarrow> network \<Rightarrow> bool" where
  "only_epochs w w' \<longleftrightarrow> running w' = running w \<and>
     (\<forall>j. no_epoch (get_node j w') = no_epoch (get_node j w) \<and> epoch (get_node j w) \<le> epoch (get_node j w'))"

definition epochs_below :: "int \<Rightarrow> network \<Rightarrow> bool" where
  "epochs_below B w \<longleftrightarrow> (\<forall>j \<in> running w. epoch (get_node j w) \<le> B)"

lemma no_epoch_with_epoch [simp]: "no_epoch (with_epoch e h) = no_epoch h"
  by (simp add: no_epoch_def with_epoch_def)

lemma no_epoch_fields:
  assumes "no_epoch h = no_epoch h'"
  shows "monitor_id h = monitor_id h'" "monitor_count h = monitor_count h'" "leader h = leader h'" "role h = role h'"
    "election_generation h = election_generation h'" "leader_running h = leader_running h'" "stop_event h = stop_event h'"
    "election_lock h = election_lock h'"
  using assms by (cases h; cases h'; simp add: no_epoch_def)+

lemma only_epochs_refl [simp]: "only_epochs w w"
  by (simp add: only_epochs_def)

lemma only_epochs_trans: "only_epochs w w' \<Longrightarrow> only_epochs w' w'' \<Longrightarrow> only_epochs w w''"
  by (auto simp: only_epochs_def intro: order_trans)

lemma only_epochs_put: "epoch (get_node k w) \<le> e \<Longrightarrow> only_epochs w (put_node k (with_epoch e (get_node k w)) w)"
  by (simp add: only_epochs_def)

lemma only_epochs_epoch: "only_epochs w w' \<Longrightarrow> epoch (get_node j w) \<le> epoch (get_node j w')"
  by (simp add: only_epochs_def)

lemma network_ok_put:
  "network_ok k w \<Longrightarrow> j \<in> running w \<Longrightarrow> 0 \<le> e \<Longrightarrow> e \<le> MAX_EPOCH \<Longrightarrow>
   network_ok k (put_node j (with_epoch e (get_node j w)) w)"
  by (auto simp: network_ok_def with_epoch_ok)

text \<open>One question to a running peer, with the handling of its answer.\<close>

lemma ask_one:
  assumes w: "network_ok k w" and m: "em_type m = ELECTION" "election_message_ok m" "em_epoch m \<le> epoch (get_node k w)"
    and p: "p \<in> running w" "p \<noteq> k" and below: "epochs_below B w"
  obtains w2 where "\<And>peers. ask_peers (get_node k) (put_node k) send_tcp_message k m (p # peers) False w =
      ask_peers (get_node k) (put_node k) send_tcp_message k m peers False w2"
    and "network_ok k w2" and "only_epochs w w2" and "epochs_below B w2"
    and "epoch (get_node p w2) \<le> epoch (get_node k w2)" and "\<And>j. j \<noteq> p \<Longrightarrow> j \<noteq> k \<Longrightarrow> get_node j w2 = get_node j w"
proof -
  let ?h = "get_node p w" let ?e = "max (epoch ?h) (em_epoch m)"
  let ?w1 = "put_node p (with_epoch ?e ?h) w"
  let ?e2 = "max (epoch (get_node k w)) ?e"
  let ?w2 = "put_node k (with_epoch ?e2 (get_node k ?w1)) ?w1"
  let ?r = "\<lparr>em_type = OK, em_epoch = ?e, em_sender = p\<rparr>"
  have ph: "election_ok ?h" "monitor_id ?h = p" "p \<le> k" using w p by (auto simp: network_ok_def)
  have k: "k \<in> running w" "monitor_id (get_node k w) = k" "election_ok (get_node k w)"
    using w by (auto simp: network_ok_def)
  have range: "0 \<le> ?e" "?e \<le> MAX_EPOCH" "0 \<le> ?e2" "?e2 \<le> MAX_EPOCH"
    using max_epoch_bounds [OF ph(1) m(2)] election_ok_bounds [OF k(3)] by auto
  have "election_message_ok ?r" using range election_ok_bounds [OF ph(1)] ph(2) by (simp add: election_message_ok_def)
  then have heard: "hear_answer p (Some ?r) (get_node k ?w1) = (Inr False, with_epoch ?e2 (get_node k ?w1))"
    using k p ph by (subst hear_answer_eq) auto
  have ok1: "network_ok k ?w1" using network_ok_put [OF w p(1)] range by blast
  show ?thesis
  proof (rule that [of ?w2])
    show "ask_peers (get_node k) (put_node k) send_tcp_message k m (p # peers) False w =
        ask_peers (get_node k) (put_node k) send_tcp_message k m peers False ?w2" for peers
      using p(2) send_election [OF p(1) ph(1) m(2,1)] heard ph(2) by (simp add: Let_def abind_def azoom_def)
    show "network_ok k ?w2" using network_ok_put [OF ok1, of k ?e2] range k by simp
    have "only_epochs w ?w1" using only_epochs_put [of p w ?e] by simp
    moreover have "only_epochs ?w1 ?w2" using only_epochs_put [of k ?w1 ?e2] p(2) by simp
    ultimately show "only_epochs w ?w2" by (rule only_epochs_trans)
    show "epochs_below B ?w2" using below p(1) k(1) m(3) by (auto simp: epochs_below_def)
    show "epoch (get_node p ?w2) \<le> epoch (get_node k ?w2)" using p(2) by simp
    show "get_node j ?w2 = get_node j w" if "j \<noteq> p" "j \<noteq> k" for j using that by simp
  qed
qed

lemma ask_peers_network:
  assumes "network_ok k w" and m: "em_type m = ELECTION" "election_message_ok m"
    and "em_epoch m \<le> epoch (get_node k w)" and "epochs_below B w"
  shows "\<exists>w'. ask_peers (get_node k) (put_node k) send_tcp_message k m peers False w = (Inr False, w') \<and>
    network_ok k w' \<and> only_epochs w w' \<and> epochs_below B w' \<and>
    (\<forall>j \<in> running w. j \<in> set peers \<longrightarrow> epoch (get_node j w') \<le> epoch (get_node k w')) \<and>
    (\<forall>j. j \<notin> set peers \<longrightarrow> j \<noteq> k \<longrightarrow> get_node j w' = get_node j w)"
  using assms(1,4,5)
proof (induction peers arbitrary: w)
  case (Cons p peers)
  consider "p = k \<or> p \<notin> running w" | "p \<noteq> k" "p \<in> running w" by blast
  then show ?case
  proof cases
    case 1
    then show ?thesis using Cons.IH [OF Cons.prems] by (auto simp: send_dead)
  next
    case 2
    then obtain w2 where step: "\<And>peers. ask_peers (get_node k) (put_node k) send_tcp_message k m (p # peers) False w =
        ask_peers (get_node k) (put_node k) send_tcp_message k m peers False w2"
      and w2: "network_ok k w2" "only_epochs w w2" "epochs_below B w2"
      and p: "epoch (get_node p w2) \<le> epoch (get_node k w2)" and frame: "\<And>j. j \<noteq> p \<Longrightarrow> j \<noteq> k \<Longrightarrow> get_node j w2 = get_node j w"
      using ask_one [OF Cons.prems(1) m Cons.prems(2) _ _ Cons.prems(3), of p] by metis
    have "em_epoch m \<le> epoch (get_node k w2)" using only_epochs_epoch [OF w2(2), of k] Cons.prems(2) by simp
    from Cons.IH [OF w2(1) this w2(3)] obtain w' where
      run: "ask_peers (get_node k) (put_node k) send_tcp_message k m peers False w2 = (Inr False, w')"
      and ok': "network_ok k w'" "only_epochs w2 w'" "epochs_below B w'"
      and le: "\<forall>j \<in> running w2. j \<in> set peers \<longrightarrow> epoch (get_node j w') \<le> epoch (get_node k w')"
      and frame': "\<forall>j. j \<notin> set peers \<longrightarrow> j \<noteq> k \<longrightarrow> get_node j w' = get_node j w2" by blast
    have same: "running w2 = running w" using w2(2) by (simp add: only_epochs_def)
    have "epoch (get_node p w') \<le> epoch (get_node k w')"
      using le frame' p same 2 only_epochs_epoch [OF ok'(2), of k] by (cases "p \<in> set peers") (auto intro: order_trans)
    with le same have "\<forall>j \<in> running w. j \<in> set (p # peers) \<longrightarrow> epoch (get_node j w') \<le> epoch (get_node k w')" by auto
    moreover have "only_epochs w w'" using only_epochs_trans [OF w2(2) ok'(2)] .
    ultimately show ?thesis using step run ok' frame frame' by auto
  qed
qed (simp add: areturn_def)

definition follows :: "int \<Rightarrow> int \<Rightarrow> election \<Rightarrow> bool" where
  "follows k e h \<longleftrightarrow> leader h = k \<and> leader_running h \<and> epoch h = e"

lemma announce_network:
  assumes m: "em_type m = COORDINATOR" "election_message_ok m" "em_sender m = k"
    and "distinct peers" and "\<And>j. j \<in> set peers \<Longrightarrow> j \<in> running w \<Longrightarrow> election_ok (get_node j w) \<and> epoch (get_node j w) < em_epoch m"
  shows "\<exists>w'. afor (announce send_tcp_message m) peers w = (Inr (), w') \<and> running w' = running w \<and>
    (\<forall>j \<in> running w. j \<in> set peers \<longrightarrow> follows k (em_epoch m) (get_node j w')) \<and>
    (\<forall>j. j \<notin> set peers \<longrightarrow> get_node j w' = get_node j w)"
  using assms(4,5)
proof (induction peers arbitrary: w)
  case (Cons p peers)
  have "\<exists>w1. announce send_tcp_message m p w = (Inr (), w1) \<and> running w1 = running w \<and>
      (p \<in> running w \<longrightarrow> follows k (em_epoch m) (get_node p w1)) \<and> (\<forall>j. j \<noteq> p \<longrightarrow> get_node j w1 = get_node j w)"
  proof (cases "p \<in> running w")
    case True
    then show ?thesis using Cons.prems send_coordinator_message [OF True _ m(2,1)] m(3)
      by (simp add: Let_def follows_def)
  qed (simp add: announce_def send_dead)
  then obtain w1 where w1: "announce send_tcp_message m p w = (Inr (), w1)" "running w1 = running w"
    "p \<in> running w \<longrightarrow> follows k (em_epoch m) (get_node p w1)" "\<forall>j. j \<noteq> p \<longrightarrow> get_node j w1 = get_node j w" by blast
  have "election_ok (get_node j w1) \<and> epoch (get_node j w1) < em_epoch m" if "j \<in> set peers" "j \<in> running w1" for j
    using that Cons.prems w1 by force
  from Cons.IH [OF _ this] Cons.prems(1) obtain w' where
    "afor (announce send_tcp_message m) peers w1 = (Inr (), w')" "running w' = running w1"
    "\<forall>j \<in> running w1. j \<in> set peers \<longrightarrow> follows k (em_epoch m) (get_node j w')"
    "\<forall>j. j \<notin> set peers \<longrightarrow> get_node j w' = get_node j w1"
    by auto
  with w1 Cons.prems(1) show ?case by (auto simp: abind_def)
qed (simp add: areturn_def)

text \<open>The thread's own steps around the questions.\<close>

lemma network_ok_own:
  assumes "network_ok k w" and "election_ok h" and "monitor_id h = k" and "monitor_count h = monitor_count (get_node k w)"
  shows "network_ok k (put_node k h w)"
  using assms by (auto simp: network_ok_def)

lemma asked_network:
  assumes ok: "network_ok k w" and free: "\<not> stop_event (get_node k w)" and below: "epochs_below B w"
    and start: "begin_election (get_node k w) = (Inr (g, e), h)"
  obtains w' m where "mk_election_message ELECTION e k = Inr m"
    and "ask_peers (get_node k) (put_node k) send_tcp_message k m [1..monitor_count (get_node k w)] False (put_node k h w) = (Inr False, w')"
    and "network_ok k w'" and "running w' = running w" and "epochs_below B w'"
    and "\<And>j. j \<in> running w \<Longrightarrow> epoch (get_node j w) \<le> epoch (get_node k w')"
    and "\<And>j. j \<in> running w \<Longrightarrow> epoch (get_node j w') \<le> epoch (get_node k w')"
    and "g = election_generation (get_node k w')" and "\<not> leader_running (get_node k w')" and "\<not> stop_event (get_node k w')"
proof -
  let ?w = "put_node k h w"
  have k: "k \<in> running w" "monitor_id (get_node k w) = k" "election_ok (get_node k w)" using ok by (auto simp: network_ok_def)
  have h: "election_ok h" "monitor_id h = k" "epoch h = epoch (get_node k w)" "e = epoch h" "g = election_generation h"
    "\<not> leader_running h" "\<not> stop_event h" "monitor_count h = monitor_count (get_node k w)"
    using start begin_ok [OF k(3)] k(2) free by (auto simp: begin_election_eq Let_def)
  let ?m = "\<lparr>em_type = ELECTION, em_epoch = e, em_sender = k\<rparr>"
  have mk: "mk_election_message ELECTION e k = Inr ?m" using mk_election_message_own [OF h(1)] h by simp
  have m: "election_message_ok ?m" using mk by (simp add: mk_election_message_Inr)
  have ok1: "network_ok k ?w" using network_ok_own [OF ok h(1)] h k by simp
  have below1: "epochs_below B ?w" using below h(3) k(1) by (auto simp: epochs_below_def)
  obtain w' where w': "ask_peers (get_node k) (put_node k) send_tcp_message k ?m [1..monitor_count (get_node k w)] False ?w = (Inr False, w')"
    "network_ok k w'" "only_epochs ?w w'" "epochs_below B w'"
    "\<forall>j \<in> running ?w. j \<in> set [1..monitor_count (get_node k w)] \<longrightarrow> epoch (get_node j w') \<le> epoch (get_node k w')"
    using ask_peers_network [OF ok1 _ m _ below1, of "[1..monitor_count (get_node k w)]"] h by auto
  have all: "j \<in> set [1..monitor_count (get_node k w)]" if "j \<in> running w" for j
    using ok that by (auto simp: network_ok_def)
  note same = no_epoch_fields [of "get_node k w'" "get_node k ?w"]
  show ?thesis
  proof (rule that [OF mk w'(1,2)])
    show "running w' = running w" using w'(3) by (simp add: only_epochs_def)
    show "epochs_below B w'" by (rule w'(4))
    show above: "epoch (get_node j w') \<le> epoch (get_node k w')" if "j \<in> running w" for j
      using w'(5) all [OF that] that by simp
    show "epoch (get_node j w) \<le> epoch (get_node k w')" if "j \<in> running w" for j
      using above [OF that] only_epochs_epoch [OF w'(3), of j] h(3) by (auto split: if_splits)
    show "g = election_generation (get_node k w')" "\<not> leader_running (get_node k w')" "\<not> stop_event (get_node k w')"
      using same w'(3) h by (auto simp: only_epochs_def)
  qed
qed

subsection \<open>Properties\<close>

text \<open>
  C28: one leader for everybody. When the highest running monitor holds an election, no other
  election runs meanwhile and no running monitor has exhausted its epochs, the election returns and
  leaves every running monitor following that monitor, in an epoch one above the highest epoch any
  of them knew; the winner knows itself as the leader.
\<close>

theorem election_establishes_leader:
  assumes "network_ok k w" and "\<not> stop_event (get_node k w)" and "\<not> election_lock (get_node k w)"
    and "highest = Max ((\<lambda>j. epoch (get_node j w)) ` running w)" and "highest < MAX_EPOCH"
  shows "\<exists>w'. network_election k w = (Inr (), w') \<and> running w' = running w \<and>
    i_am_leader (get_node k w') \<and> role (get_node k w') = LEADER \<and>
    (\<forall>j \<in> running w. follows k (highest + 1) (get_node j w'))"
proof -
  let ?lock = "set_lock True (get_node k) (put_node k) w"
  have k: "k \<in> running w" "monitor_id (get_node k w) = k" "election_ok (get_node k w)" using assms(1) by (auto simp: network_ok_def)
  have "running w \<subseteq> set [1..monitor_count (get_node k w)]" using assms(1) by (auto simp: network_ok_def)
  then have fin: "finite (running w)" using finite_subset by blast
  have lock: "get_node k ?lock = (get_node k w)\<lparr>election_lock := True\<rparr>" "running ?lock = running w"
    by (simp_all add: set_lock_def)
  have epochs: "epoch (get_node j ?lock) = epoch (get_node j w)" for j by (simp add: set_lock_def)
  have ok: "network_ok k ?lock" using network_ok_own [OF assms(1), of "(get_node k w)\<lparr>election_lock := True\<rparr>"] k
    by (simp add: set_lock_def)
  have below: "epochs_below highest ?lock" using fin assms(4) by (auto simp: epochs_below_def epochs lock)
  obtain g e h where start: "begin_election (get_node k ?lock) = (Inr (g, e), h)" by (simp add: begin_election_eq Let_def)
  have free: "\<not> stop_event (get_node k ?lock)" using assms(2) lock by simp
  obtain w1 m where asked: "mk_election_message ELECTION e k = Inr m"
    "ask_peers (get_node k) (put_node k) send_tcp_message k m [1..monitor_count (get_node k ?lock)] False (put_node k h ?lock) = (Inr False, w1)"
    and w1: "network_ok k w1" "running w1 = running ?lock" "epochs_below highest w1"
    and learned: "\<And>j. j \<in> running ?lock \<Longrightarrow> epoch (get_node j ?lock) \<le> epoch (get_node k w1)"
    and most: "\<And>j. j \<in> running ?lock \<Longrightarrow> epoch (get_node j w1) \<le> epoch (get_node k w1)"
    and own: "g = election_generation (get_node k w1)" "\<not> leader_running (get_node k w1)" "\<not> stop_event (get_node k w1)"
    using asked_network [OF ok free below start] by metis
  have ok1: "election_ok (get_node k w1)" "monitor_id (get_node k w1) = k" using w1(1) by (auto simp: network_ok_def)
  have "highest \<le> epoch (get_node k w1)"
    unfolding assms(4) using learned epochs lock fin k(1) by (subst Max_le_iff) auto
  moreover have "epoch (get_node k w1) \<le> highest" using w1(2,3) k(1) lock by (auto simp: epochs_below_def)
  ultimately have topeq: "epoch (get_node k w1) = highest" by simp
  let ?h2 = "(with_epoch (highest + 1) (get_node k w1))\<lparr>leader := k, leader_running := True, role := LEADER\<rparr>"
  let ?w2 = "put_node k ?h2 w1"
  have claim: "claim_leadership g (get_node k w1) = (Inr True, ?h2)"
    using own topeq assms(5) ok1 by (simp add: claim_leadership_eq)
  let ?m2 = "\<lparr>em_type = COORDINATOR, em_epoch = highest + 1, em_sender = k\<rparr>"
  have bounds: "0 \<le> highest" "highest + 1 \<le> MAX_EPOCH" "0 \<le> k" "k \<le> MAX_SENDER_ID"
    using election_ok_bounds [OF ok1(1)] ok1(2) topeq assms(5) by auto
  then have m2: "mk_election_message COORDINATOR (highest + 1) k = Inr ?m2" "election_message_ok ?m2"
    by (simp_all add: mk_election_message_Inr election_message_ok_def)
  have ready: "election_ok (get_node j ?w2) \<and> epoch (get_node j ?w2) < em_epoch ?m2" if "j \<in> set [1..k - 1]" "j \<in> running ?w2" for j
    using that w1(1,2) most [of j] topeq lock by (auto simp: network_ok_def)
  obtain w3 where w3: "afor (announce send_tcp_message ?m2) [1..k - 1] ?w2 = (Inr (), w3)" "running w3 = running ?w2"
    "\<forall>j \<in> running ?w2. j \<in> set [1..k - 1] \<longrightarrow> follows k (highest + 1) (get_node j w3)"
    "\<forall>j. j \<notin> set [1..k - 1] \<longrightarrow> get_node j w3 = get_node j ?w2"
    using announce_network [OF _ m2(2) _ _ ready, of k "[1..k - 1]"] by auto
  let ?w' = "set_lock False (get_node k) (put_node k) w3"
  have kw3: "get_node k w3 = ?h2" using w3(4) by simp
  have "network_election k w = (Inr (), ?w')"
    using assms(2,3) start asked claim m2(1) w3(1) k(2) ok1
    by (simp add: network_election_def start_election_def run_election_def become_leader_def send_coordinator_def
        abind_def areturn_def alift_def azoom_def Let_def lock)
  moreover have "follows k (highest + 1) (get_node j ?w')" if j: "j \<in> running w" for j
  proof (cases "j = k")
    case True
    then show ?thesis by (simp add: set_lock_def kw3 follows_def)
  next
    case False
    with j assms(1) have "j \<in> set [1..k - 1]" by (auto simp: network_ok_def)
    with w3 j False w1(2) lock show ?thesis by (auto simp: set_lock_def)
  qed
  moreover have "running ?w' = running w" using w3(2) w1(2) lock by (simp add: set_lock_def)
  moreover have "i_am_leader (get_node k ?w') \<and> role (get_node k ?w') = LEADER"
    by (simp add: set_lock_def kw3 i_am_leader_def ok1(2))
  ultimately show ?thesis by blast
qed

text \<open>Three monitors in different epochs, the third one down.\<close>

definition sample_network :: network where
  "sample_network = \<lparr>nodes = (\<lambda>j. sample_handler\<lparr>monitor_id := j, epoch_store := None, epoch := 5 * j\<rparr>), running = {1, 2}\<rparr>"

theorem election_establishes_leader_witness:
  "\<exists>w'. network_election 2 sample_network = (Inr (), w') \<and> i_am_leader (get_node 2 w') \<and>
     follows 2 11 (get_node 1 w') \<and> follows 2 11 (get_node 2 w')"
proof -
  have ok: "network_ok 2 sample_network"
    by (auto simp: network_ok_def sample_network_def get_node_def election_ok_def stored_def sample_handler_def MAX_EPOCH_def)
  have "(\<lambda>j. epoch (get_node j sample_network)) ` running sample_network = {5, 10}"
    by (auto simp: sample_network_def get_node_def)
  then have "10 = Max ((\<lambda>j. epoch (get_node j sample_network)) ` running sample_network)" by simp
  moreover have "\<not> stop_event (get_node 2 sample_network)" "\<not> election_lock (get_node 2 sample_network)"
    "(10 :: int) < MAX_EPOCH" "running sample_network = {1, 2}"
    by (simp_all add: sample_network_def get_node_def sample_handler_def MAX_EPOCH_def)
  ultimately show ?thesis using election_establishes_leader [OF ok, of 10] by auto
qed

end
