(* ===== verification/Monitor.thy ===== *)
theory Monitor
  imports ElectionHandler
begin

text \<open>
  \<open>src/src/monitor\<close>: the heartbeat receiver, the failure detector and the recovery of the leader
  monitor (\<open>heartbeat/heartbeat_receiver.py\<close>, \<open>monitor.py\<close>, \<open>recovery.py\<close>). Times are integers of an
  arbitrary unit; a method that reads the clock takes the reading as an argument. Starting a
  container is a call to Docker: what the model keeps of it is which container was asked for.
\<close>

subsection \<open>Heartbeats\<close>

text \<open>When each node was last heard of.\<close>

type_synonym heartbeat_receiver = "(pystr \<times> int) list"

definition last_seen :: "pystr \<Rightarrow> heartbeat_receiver \<Rightarrow> int option" where
  "last_seen node_id r = map_of r node_id"

definition record_heartbeat :: "int \<Rightarrow> bytes \<Rightarrow> heartbeat_receiver \<Rightarrow> heartbeat_receiver" where
  "record_heartbeat timestamp payload r =
     (case utf8_decode payload of
        Inl _ \<Rightarrow> r
      | Inr node_id \<Rightarrow> if node_id = [] then r else dset node_id timestamp r)"

subsection \<open>Recovery\<close>

definition lower_ascii :: "pystr \<Rightarrow> pystr" where
  "lower_ascii s = map (\<lambda>c. if 65 \<le> c \<and> c \<le> 90 then c + 32 else c) s"

definition DEFAULT_COMPOSE_PROJECT_NAME :: pystr where
  "DEFAULT_COMPOSE_PROJECT_NAME = lit ''distribuidos''"

text \<open>
  \<open>str.lower\<close> is compared with the literal \<open>true\<close>; besides the capital ASCII letters no character
  lowers to one of its letters.
\<close>

definition container_name :: "pystr \<Rightarrow> (pystr \<times> pystr) list \<Rightarrow> pystr" where
  "container_name node_id env =
     (if lower_ascii (dget env (lit ''PINNED_CONTAINER_NAMES'') []) = lit ''true'' then node_id
      else
        (let project_name = py_strip (dget env (lit ''COMPOSE_PROJECT_NAME'') DEFAULT_COMPOSE_PROJECT_NAME);
             project_name = (if project_name = [] then DEFAULT_COMPOSE_PROJECT_NAME else project_name)
         in project_name @ [45] @ node_id @ lit ''-1''))"

datatype start_outcome = DockerMissing | DockerFailed int | DockerStarted

text \<open>\<open>docker start\<close> as an outside command: it returns a code or cannot be run.\<close>

definition docker_start :: "(pystr \<Rightarrow> int res) \<Rightarrow> (pystr \<times> pystr) list \<Rightarrow> pystr \<Rightarrow> start_outcome res" where
  "docker_start run env node_id =
     (case run (container_name node_id env) of
        Inl e \<Rightarrow> if e = OSError then Inr DockerMissing else Inl e
      | Inr code \<Rightarrow> Inr (if code \<noteq> 0 then DockerFailed code else DockerStarted))"

subsection \<open>The monitor\<close>

record monitor =
  nodes_to_watch :: "pystr list"
  failure_timeout :: int
  coordinator_timeout :: int
  startup_grace_period :: int
  started_at :: int
  monitor_stopped :: bool
  last_recovery_by_node :: "(pystr \<times> int) list"
  receiver :: heartbeat_receiver

definition new_monitor :: "pystr list \<Rightarrow> int \<Rightarrow> int \<Rightarrow> int \<Rightarrow> int \<Rightarrow> int \<Rightarrow> heartbeat_receiver \<Rightarrow> monitor res" where
  "new_monitor watch check_interval max_missed timeout grace now r =
     (if check_interval \<le> 0 then Inl ValueError
      else if max_missed < 1 then Inl ValueError
      else if timeout \<le> 0 then Inl ValueError
      else if grace < 0 then Inl ValueError
      else Inr \<lparr>nodes_to_watch = map fst (py_dict (map (\<lambda>n. (n, ())) watch)),
                failure_timeout = max_missed * check_interval, coordinator_timeout = timeout,
                startup_grace_period = grace, started_at = now, monitor_stopped = False,
                last_recovery_by_node = [], receiver = r\<rparr>)"

definition is_failed :: "pystr \<Rightarrow> int \<Rightarrow> monitor \<Rightarrow> bool" where
  "is_failed node_id now m =
     (case last_seen node_id (receiver m) of
        None \<Rightarrow> now - started_at m \<ge> startup_grace_period m
      | Some t \<Rightarrow> now - t > failure_timeout m)"

definition monitor_node :: "int \<Rightarrow> pystr" where
  "monitor_node k = lit ''monitor_'' @ int_str k"

definition leader_is_alive :: "int \<Rightarrow> int \<Rightarrow> monitor \<Rightarrow> bool" where
  "leader_is_alive leader_id now m \<longleftrightarrow> \<not> is_failed (monitor_node leader_id) now m"

text \<open>One pass over the watched nodes; the recoveries it asks for, in order.\<close>

fun recover_nodes :: "int \<Rightarrow> pystr list \<Rightarrow> monitor \<Rightarrow> pystr list \<times> monitor" where
  "recover_nodes now [] m = ([], m)"
| "recover_nodes now (node_id # ns) m =
     (if \<not> is_failed node_id now m
      then recover_nodes now ns (m\<lparr>last_recovery_by_node := dpop node_id (last_recovery_by_node m)\<rparr>)
      else
        (case map_of (last_recovery_by_node m) node_id of
           Some t \<Rightarrow>
             if now - t \<le> failure_timeout m then recover_nodes now ns m
             else
               (case recover_nodes now ns (m\<lparr>last_recovery_by_node := dset node_id now (last_recovery_by_node m)\<rparr>) of
                  (out, m') \<Rightarrow> (node_id # out, m'))
         | None \<Rightarrow>
             (case recover_nodes now ns (m\<lparr>last_recovery_by_node := dset node_id now (last_recovery_by_node m)\<rparr>) of
                (out, m') \<Rightarrow> (node_id # out, m'))))"

definition recover_failed_nodes :: "int \<Rightarrow> monitor \<Rightarrow> pystr list \<times> monitor" where
  "recover_failed_nodes now m = recover_nodes now (nodes_to_watch m) m"

text \<open>
  One turn of the loop in \<open>run\<close>, in a world that holds the monitor and its election handler:
  recover as the leader, wait when no leader runs, start an election when the leader is silent.
\<close>

definition run_once ::
  "('w \<Rightarrow> monitor) \<Rightarrow> (monitor \<Rightarrow> 'w \<Rightarrow> 'w) \<Rightarrow> ('w \<Rightarrow> election) \<Rightarrow> (election \<Rightarrow> 'w \<Rightarrow> 'w) \<Rightarrow>
   'w sender \<Rightarrow> ('w \<Rightarrow> 'w) \<Rightarrow> int \<Rightarrow> ('w, pystr list) act" where
  "run_once getm putm get put send waiting now w =
     (if monitor_stopped (getm w) then (Inr [], w)
      else if i_am_leader (get w) then
        (case recover_failed_nodes now (getm w) of (out, m) \<Rightarrow> (Inr out, putm m w))
      else if \<not> leader_running (get w) then
        abind (wait_for_new_leader get put send waiting) (\<lambda>_. areturn []) w
      else if leader_is_alive (leader (get w)) now (getm w) then (Inr [], w)
      else abind (start_election get put send) (\<lambda>_. areturn []) w)"

definition monitor_stop :: "monitor \<Rightarrow> election \<Rightarrow> monitor \<times> election" where
  "monitor_stop m h = (if monitor_stopped m then (m, h) else (m\<lparr>monitor_stopped := True\<rparr>, election_stop h))"

subsection \<open>What a pass does to one node\<close>

abbreviation same_settings :: "monitor \<Rightarrow> monitor \<Rightarrow> bool" where
  "same_settings m m' \<equiv> \<exists>d. m' = m\<lparr>last_recovery_by_node := d\<rparr>"

definition cooling_down :: "pystr \<Rightarrow> int \<Rightarrow> monitor \<Rightarrow> bool" where
  "cooling_down n now m \<longleftrightarrow>
     (case map_of (last_recovery_by_node m) n of None \<Rightarrow> False | Some t \<Rightarrow> now - t \<le> failure_timeout m)"

definition due :: "pystr \<Rightarrow> int \<Rightarrow> monitor \<Rightarrow> bool" where
  "due n now m \<longleftrightarrow> is_failed n now m \<and> \<not> cooling_down n now m"

lemma settings_irrelevant [simp]:
  "is_failed n now (m\<lparr>last_recovery_by_node := d\<rparr>) = is_failed n now m"
  by (simp add: is_failed_def split: option.split)

lemma recover_nodes_Cons:
  "recover_nodes now (n # ns) m =
   (let d = last_recovery_by_node m;
        m1 = m\<lparr>last_recovery_by_node := (if \<not> is_failed n now m then dpop n d else if due n now m then dset n now d else d)\<rparr>
    in case recover_nodes now ns m1 of (out, m') \<Rightarrow> (if due n now m then n # out else out, m'))"
  by (cases m) (auto simp: due_def cooling_down_def Let_def split: option.split prod.split)

declare recover_nodes.simps(2) [simp del]

lemma recover_nodes_spec:
  "distinct ns \<Longrightarrow> recover_nodes now ns m = (out, m') \<Longrightarrow>
   out = filter (\<lambda>n. due n now m) ns \<and> same_settings m m' \<and>
   (\<forall>n. map_of (last_recovery_by_node m') n =
     (if n \<in> set ns \<and> \<not> is_failed n now m then None
      else if n \<in> set ns \<and> due n now m then Some now
      else map_of (last_recovery_by_node m) n))"
proof (induction ns arbitrary: m out m')
  case Nil
  then show ?case by (cases m) auto
next
  case (Cons n ns)
  let ?d = "last_recovery_by_node m"
  let ?m = "m\<lparr>last_recovery_by_node := (if \<not> is_failed n now m then dpop n ?d else if due n now m then dset n now ?d else ?d)\<rparr>"
  obtain out1 where rest: "recover_nodes now ns ?m = (out1, m')" and out: "out = (if due n now m then n # out1 else out1)"
    using Cons.prems(2) by (auto simp: recover_nodes_Cons Let_def split: prod.splits)
  have same: "due x now ?m = due x now m" if "x \<in> set ns" for x
    using that Cons.prems(1) by (auto simp: due_def cooling_down_def split: option.splits)
  have IH: "out1 = filter (\<lambda>x. due x now ?m) ns \<and> same_settings ?m m' \<and>
     (\<forall>x. map_of (last_recovery_by_node m') x =
       (if x \<in> set ns \<and> \<not> is_failed x now ?m then None
        else if x \<in> set ns \<and> due x now ?m then Some now
        else map_of (last_recovery_by_node ?m) x))"
    using Cons.IH [OF _ rest] Cons.prems(1) by simp
  have "out1 = filter (\<lambda>x. due x now m) ns" using IH same by (simp cong: filter_cong)
  moreover have "same_settings m m'" using IH by auto
  moreover have "map_of (last_recovery_by_node m') x =
       (if x \<in> set (n # ns) \<and> \<not> is_failed x now m then None
        else if x \<in> set (n # ns) \<and> due x now m then Some now
        else map_of (last_recovery_by_node m) x)" for x
    using IH same [of x] Cons.prems(1) by (cases "x = n") (auto simp: due_def)
  ultimately show ?case using out by auto
qed

subsection \<open>Runs of a leading monitor\<close>

datatype monitor_event = Heartbeat int bytes | Tick int

fun event_time :: "monitor_event \<Rightarrow> int" where
  "event_time (Heartbeat t payload) = t"
| "event_time (Tick t) = t"

fun monitor_step :: "monitor_event \<Rightarrow> monitor \<Rightarrow> (int \<times> pystr) list \<times> monitor" where
  "monitor_step (Heartbeat t payload) m = ([], m\<lparr>receiver := record_heartbeat t payload (receiver m)\<rparr>)"
| "monitor_step (Tick t) m = (case recover_failed_nodes t m of (out, m') \<Rightarrow> (map (Pair t) out, m'))"

fun monitor_run :: "monitor_event list \<Rightarrow> monitor \<Rightarrow> (int \<times> pystr) list \<times> monitor" where
  "monitor_run [] m = ([], m)"
| "monitor_run (ev # evs) m =
     (case monitor_step ev m of (out, m') \<Rightarrow> (case monitor_run evs m' of (out', m'') \<Rightarrow> (out @ out', m'')))"

definition recovery_times :: "pystr \<Rightarrow> (int \<times> pystr) list \<Rightarrow> int list" where
  "recovery_times n out = map fst (filter (\<lambda>r. snd r = n) out)"

lemma recovery_times_simps [simp]:
  "recovery_times n [] = []" "recovery_times n (xs @ ys) = recovery_times n xs @ recovery_times n ys"
  by (simp_all add: recovery_times_def)

lemma recovery_times_tick:
  "distinct ns \<Longrightarrow> recovery_times n (map (Pair t) ns) = (if n \<in> set ns then [t] else [])"
  by (induction ns) (auto simp: recovery_times_def)

lemma is_failed_mono: "is_failed n t m \<Longrightarrow> t \<le> t' \<Longrightarrow> is_failed n t' m"
  by (auto simp: is_failed_def split: option.splits)

text \<open>
  What the detector remembers of a node it recovered at time \<open>r\<close>: the time itself, or a heartbeat
  not older than it.
\<close>

definition heard_since :: "pystr \<Rightarrow> int \<Rightarrow> monitor \<Rightarrow> bool" where
  "heard_since n r m \<longleftrightarrow> (\<exists>s. last_seen n (receiver m) = Some s \<and> r \<le> s)"

definition remembers :: "pystr \<Rightarrow> int \<Rightarrow> monitor \<Rightarrow> bool" where
  "remembers n r m \<longleftrightarrow>
     (is_failed n r m \<or> heard_since n r m) \<and> (map_of (last_recovery_by_node m) n = Some r \<or> heard_since n r m)"

lemma remembers_due:
  assumes "remembers n r m" and "due n t m" and "r \<le> t"
  shows "t - r > failure_timeout m"
  using assms by (auto simp: remembers_def due_def cooling_down_def is_failed_def heard_since_def split: option.splits)

lemma remembers_heartbeat:
  assumes "remembers n r m" and "r \<le> t"
  shows "remembers n r (m\<lparr>receiver := record_heartbeat t payload (receiver m)\<rparr>)"
  using assms
  by (auto simp: remembers_def heard_since_def record_heartbeat_def last_seen_def is_failed_def split: sum.split option.splits)

definition times_ok :: "int \<Rightarrow> pystr \<Rightarrow> int list \<Rightarrow> int \<Rightarrow> monitor \<Rightarrow> bool" where
  "times_ok T n ts now m \<longleftrightarrow> distinct (nodes_to_watch m) \<and> failure_timeout m = T \<and> sorted_wrt (\<lambda>a b. b - a > T) ts \<and>
     (ts \<noteq> [] \<longrightarrow> last ts \<le> now \<and> remembers n (last ts) m \<and> (\<forall>t \<in> set ts. t \<le> last ts))"

lemma times_ok_heartbeat:
  assumes "times_ok T n ts now m" and "now \<le> t"
  shows "times_ok T n ts t (snd (monitor_step (Heartbeat t payload) m))"
  using assms remembers_heartbeat [of n "last ts" m t payload] by (auto simp: times_ok_def)

lemma times_ok_tick:
  assumes ok: "times_ok T n ts now m" and "now \<le> t" and step: "monitor_step (Tick t) m = (out, m')"
  shows "times_ok T n (ts @ recovery_times n out) t m'"
proof -
  obtain ns where rec: "recover_nodes t (nodes_to_watch m) m = (ns, m')" and out: "out = map (Pair t) ns"
    using step by (auto simp: recover_failed_nodes_def split: prod.splits)
  have watch: "distinct (nodes_to_watch m)" and T: "failure_timeout m = T" using ok by (auto simp: times_ok_def)
  note spec = recover_nodes_spec [OF watch rec]
  obtain d where m': "m' = m\<lparr>last_recovery_by_node := d\<rparr>" using spec by blast
  have d: "map_of d n = (if n \<in> set (nodes_to_watch m) \<and> \<not> is_failed n t m then None
      else if n \<in> set (nodes_to_watch m) \<and> due n t m then Some t else map_of (last_recovery_by_node m) n)"
    using spec m' by auto
  have ns: "n \<in> set ns \<longleftrightarrow> n \<in> set (nodes_to_watch m) \<and> due n t m" "distinct ns" using spec watch by auto
  have heard: "heard_since n r m' = heard_since n r m" for r by (simp add: heard_since_def m')
  show ?thesis
  proof (cases "n \<in> set ns")
    case True
    then have "remembers n t m'" using ns d by (auto simp: remembers_def m' due_def)
    moreover have "\<forall>x \<in> set ts. t - x > T"
      using ok True ns remembers_due [of n "last ts" m t] \<open>now \<le> t\<close> T by (fastforce simp: times_ok_def)
    moreover have "x \<le> t" if "x \<in> set ts" for x
      using ok that \<open>now \<le> t\<close> by (cases "ts = []") (auto simp: times_ok_def)
    ultimately show ?thesis
      using ok True out ns m' by (auto simp: times_ok_def recovery_times_tick sorted_wrt_append)
  next
    case False
    have "remembers n (last ts) m'" if "ts \<noteq> []"
    proof -
      have r: "remembers n (last ts) m" "last ts \<le> t" using ok that \<open>now \<le> t\<close> by (auto simp: times_ok_def)
      show ?thesis
      proof (cases "heard_since n (last ts) m")
        case True
        then show ?thesis by (simp add: remembers_def heard)
      next
        case not_heard: False
        with r have "is_failed n (last ts) m" "map_of (last_recovery_by_node m) n = Some (last ts)"
          by (auto simp: remembers_def)
        moreover from this(1) have "is_failed n t m" using r(2) is_failed_mono by blast
        ultimately show ?thesis using d False ns by (auto simp: remembers_def m')
      qed
    qed
    then show ?thesis using ok False out ns m' \<open>now \<le> t\<close> by (auto simp: times_ok_def recovery_times_tick)
  qed
qed

lemma monitor_run_times:
  assumes "times_ok T n ts now m" and "sorted (now # map event_time evs)" and "monitor_run evs m = (out, m')"
  shows "sorted_wrt (\<lambda>a b. b - a > T) (ts @ recovery_times n out)"
  using assms
proof (induction evs arbitrary: ts now m out)
  case Nil
  then show ?case by (simp add: times_ok_def)
next
  case (Cons ev evs)
  obtain out1 m1 where step: "monitor_step ev m = (out1, m1)" by fastforce
  obtain out2 where rest: "monitor_run evs m1 = (out2, m')" and out: "out = out1 @ out2"
    using Cons.prems(3) step by (auto split: prod.splits)
  have "times_ok T n (ts @ recovery_times n out1) (event_time ev) m1"
  proof (cases ev)
    case (Heartbeat t payload)
    with step Cons.prems times_ok_heartbeat [of T n ts now m t payload] show ?thesis by auto
  next
    case (Tick t)
    with step Cons.prems times_ok_tick [of T n ts now m t out1 m1] show ?thesis by auto
  qed
  from Cons.IH [OF this _ rest] Cons.prems(2) out show ?case by simp
qed

subsection \<open>Properties\<close>

text \<open>
  The leader restarts exactly the nodes it must. One pass of the leading monitor asks for each
  watched node that is silent for longer than the failure timeout (or was never heard of and the
  grace period is over) and was not restarted within the timeout, each once and in their order, and
  for no other; afterwards every failed watched node has a restart on record within the timeout.
\<close>

lemma leader_restarts_failed:
  assumes "distinct (nodes_to_watch m)" and "0 \<le> failure_timeout m" and "recover_failed_nodes now m = (out, m')"
  shows "out = filter (\<lambda>n. is_failed n now m \<and> \<not> cooling_down n now m) (nodes_to_watch m) \<and>
    (\<forall>n \<in> set (nodes_to_watch m). is_failed n now m \<longrightarrow>
       (\<exists>r. map_of (last_recovery_by_node m') n = Some r \<and> now - r \<le> failure_timeout m))"
  using recover_nodes_spec [OF assms(1), of now m out m'] assms
  by (auto simp: recover_failed_nodes_def due_def cooling_down_def split: option.splits)

text \<open>
  C31: restarts are rate limited. In any run of heartbeats and passes in the order of the clock, any
  two restarts of the same node are more than the failure timeout apart, even when the node came
  back and failed again in between.
\<close>

theorem restarts_rate_limited:
  assumes "new_monitor watch check_interval max_missed timeout grace now r = Inr m"
    and "sorted (now # map event_time evs)" and "monitor_run evs m = (out, m')"
  shows "sorted_wrt (\<lambda>a b. b - a > max_missed * check_interval) (recovery_times n out)"
proof -
  have dict: "dict_wf (py_dict kvs)" for kvs :: "(pystr \<times> unit) list"
    unfolding py_dict_def by (induction kvs rule: rev_induct) (auto split: prod.splits)
  then have "times_ok (max_missed * check_interval) n [] now m"
    using assms(1) dict by (auto simp: times_ok_def new_monitor_def dict_wf_def split: if_splits)
  from monitor_run_times [OF this assms(2,3)] show ?thesis by simp
qed

theorem restarts_rate_limited_witness:
  "\<exists>m. new_monitor [[98]] 3 3 10 5 0 [] = Inr m \<and>
     recovery_times [98] (fst (monitor_run [Tick 3, Tick 6, Tick 9, Heartbeat 10 [98], Tick 12, Tick 20] m)) = [6, 20] \<and>
     sorted_wrt (\<lambda>a b. b - a > 3 * 3) (recovery_times [98] (fst (monitor_run [Tick 3, Tick 6, Tick 9, Heartbeat 10 [98], Tick 12, Tick 20] m)))"
proof -
  let ?m = "\<lparr>nodes_to_watch = [[98]], failure_timeout = 9, coordinator_timeout = 10,
     startup_grace_period = 5, started_at = 0, monitor_stopped = False, last_recovery_by_node = [], receiver = []\<rparr>"
  let ?evs = "[Tick 3, Tick 6, Tick 9, Heartbeat 10 [98], Tick 12, Tick 20]"
  have new: "new_monitor [[98]] 3 3 10 5 0 [] = Inr ?m" by (simp add: new_monitor_def py_dict_def)
  have "fst (monitor_run ?evs ?m) = [(6, [98]), (20, [98])]"
    by (simp add: recover_failed_nodes_def recover_nodes.simps is_failed_def last_seen_def record_heartbeat_def)
  then have "recovery_times [98] (fst (monitor_run ?evs ?m)) = [6, 20]" by (simp add: recovery_times_def)
  moreover have "sorted_wrt (\<lambda>a b. b - a > 3 * 3) (recovery_times [98] (fst (monitor_run ?evs ?m)))"
    by (rule restarts_rate_limited [OF new _ surjective_pairing]) simp
  ultimately show ?thesis using new by blast
qed

end
