(* ===== verification/Double.thy ===== *)
theory Double
  imports Bytes Text
begin

text \<open>
  Python's \<open>float\<close>: an IEEE 754 binary64, kept as its 64 bits. The bits below the sign, read as a
  number, are its magnitude key; for numbers the order of the signed keys is the order of the
  values, and rounding to the nearest number, ties to even, is arithmetic on keys. Addition,
  division and reading a decimal literal are the exact result, rounded.
\<close>

unbundle bit_operations_syntax

type_synonym double = "64 word"

subsection \<open>Keys and values\<close>

definition d_sign :: "double \<Rightarrow> bool" where
  "d_sign x \<longleftrightarrow> bit x 63"

definition d_mag :: "double \<Rightarrow> nat" where
  "d_mag x = unat x mod 2 ^ 63"

definition inf_key :: nat where
  "inf_key = 2047 * 2 ^ 52"

definition d_make :: "bool \<Rightarrow> nat \<Rightarrow> double" where
  "d_make s k = word_of_nat ((if s then 2 ^ 63 else 0) + k)"

definition d_nan :: double where
  "d_nan = d_make False (inf_key + 2 ^ 51)"

definition is_nan :: "double \<Rightarrow> bool" where
  "is_nan x \<longleftrightarrow> d_mag x > inf_key"

definition is_inf :: "double \<Rightarrow> bool" where
  "is_inf x \<longleftrightarrow> d_mag x = inf_key"

definition d_key :: "double \<Rightarrow> int" where
  "d_key x = (if d_sign x then - int (d_mag x) else int (d_mag x))"

text \<open>The value of a magnitude key, in units of the smallest positive number, \<open>2 ^ - 1074\<close>.\<close>

definition key_units :: "nat \<Rightarrow> nat" where
  "key_units k = (if k < 2 ^ 52 then k else (2 ^ 52 + k mod 2 ^ 52) * 2 ^ (k div 2 ^ 52 - 1))"

definition d_units :: "double \<Rightarrow> int" where
  "d_units x = (if d_sign x then - int (key_units (d_mag x)) else int (key_units (d_mag x)))"

subsection \<open>Comparison\<close>

definition d_lt :: "double \<Rightarrow> double \<Rightarrow> bool" where
  "d_lt x y \<longleftrightarrow> \<not> is_nan x \<and> \<not> is_nan y \<and> d_key x < d_key y"

definition d_eq :: "double \<Rightarrow> double \<Rightarrow> bool" where
  "d_eq x y \<longleftrightarrow> \<not> is_nan x \<and> \<not> is_nan y \<and> d_key x = d_key y"

definition d_le :: "double \<Rightarrow> double \<Rightarrow> bool" where
  "d_le x y \<longleftrightarrow> \<not> is_nan x \<and> \<not> is_nan y \<and> d_key x \<le> d_key y"

subsection \<open>Rounding\<close>

text \<open>
  The key nearest to \<open>num / den\<close> units. The shift \<open>e\<close> leaves a quotient of 53 bits, or is 0 for
  subnormal results; a quotient rounded up to \<open>2 ^ 53\<close> carries into the exponent by itself.
\<close>

function find_shift :: "nat \<Rightarrow> nat \<Rightarrow> nat \<Rightarrow> nat" where
  "find_shift num den e =
     (if den = 0 \<or> num div (den * 2 ^ e) < 2 ^ 53 then e else find_shift num den (e + 1))"
  by pat_completeness auto
termination
proof (relation "measure (\<lambda>(num, den, e). num div den + 1 - e)")
  show "wf (measure (\<lambda>(num, den, e). num div den + 1 - e))" by simp
  fix num den e :: nat
  assume "\<not> (den = 0 \<or> num div (den * 2 ^ e) < 2 ^ 53)"
  then have "0 < den" "2 ^ 53 \<le> num div den div 2 ^ e" by (auto simp: div_mult2_eq)
  then have "1 \<le> num div den div 2 ^ e" using order_trans [of 1 "2 ^ 53 :: nat"] by simp
  then have "2 ^ e \<le> num div den" by (metis div_less not_less not_one_le_zero)
  then have "e < num div den" by (rule less_le_trans [OF less_exp])
  then show "((num, den, e + 1), (num, den, e)) \<in> measure (\<lambda>(num, den, e). num div den + 1 - e)" by simp
qed

declare find_shift.simps [simp del]

definition round_key :: "nat \<Rightarrow> nat \<Rightarrow> nat" where
  "round_key num den =
     (let e = find_shift num den 0;
          unit = den * 2 ^ e;
          q = num div unit;
          r = num mod unit;
          q' = (if 2 * r > unit \<or> 2 * r = unit \<and> odd q then q + 1 else q)
      in min (e * 2 ^ 52 + q') inf_key)"

definition d_round :: "bool \<Rightarrow> int \<Rightarrow> nat \<Rightarrow> double" where
  "d_round zero_sign num den =
     (if num = 0 then d_make zero_sign 0 else d_make (num < 0) (round_key (nat \<bar>num\<bar>) den))"

subsection \<open>Arithmetic\<close>

definition d_add :: "double \<Rightarrow> double \<Rightarrow> double" where
  "d_add x y =
     (if is_nan x \<or> is_nan y then d_nan
      else if is_inf x then (if is_inf y \<and> d_sign x \<noteq> d_sign y then d_nan else x)
      else if is_inf y then y
      else d_round (d_sign x \<and> d_sign y) (d_units x + d_units y) 1)"

definition d_of_int :: "int \<Rightarrow> double" where
  "d_of_int n = d_round False (n * 2 ^ 1074) 1"

text \<open>\<open>float / int\<close>: the integer is converted first.\<close>

definition d_div_int :: "double \<Rightarrow> int \<Rightarrow> double res" where
  "d_div_int x n =
     (let y = d_of_int n in
      if is_inf y then Inl OverflowError
      else if n = 0 then Inl ZeroDivisionError
      else if is_nan x then Inr d_nan
      else if is_inf x then Inr (d_make (d_sign x \<noteq> (n < 0)) inf_key)
      else Inr (d_round (d_sign x \<noteq> (n < 0)) (if n < 0 then - d_units x * 2 ^ 1074 else d_units x * 2 ^ 1074)
                   (key_units (d_mag y))))"

text \<open>\<open>float(text)\<close>: surrounding space, a sign, digits with single underscores between them, a point, an exponent.\<close>

fun digit_group :: "bool \<Rightarrow> pystr \<Rightarrow> pystr \<times> pystr" where
  "digit_group more [] = ([], [])"
| "digit_group more (c # cs) =
     (if is_digit c then (case digit_group True cs of (ds, r) \<Rightarrow> (c # ds, r))
      else if c = 95 \<and> more \<and> cs \<noteq> [] \<and> is_digit (hd cs) then digit_group False cs
      else ([], c # cs))"

definition digits_nat :: "pystr \<Rightarrow> nat" where
  "digits_nat ds = foldl (\<lambda>n c. n * 10 + (c - 48)) 0 ds"

definition lower_char :: "nat \<Rightarrow> nat" where
  "lower_char c = (if 65 \<le> c \<and> c \<le> 90 then c + 32 else c)"

definition read_sign :: "pystr \<Rightarrow> bool \<times> pystr" where
  "read_sign s = (case s of [] \<Rightarrow> (False, []) | c # cs \<Rightarrow> if c = 45 then (True, cs) else if c = 43 then (False, cs) else (False, s))"

definition read_exponent :: "pystr \<Rightarrow> int option" where
  "read_exponent s =
     (case s of
        [] \<Rightarrow> Some 0
      | c # cs \<Rightarrow>
          if lower_char c \<noteq> 101 then None
          else
            (case read_sign cs of (neg, t) \<Rightarrow>
             (case digit_group False t of (ds, r) \<Rightarrow>
              if ds = [] \<or> r \<noteq> [] then None
              else Some (if neg then - int (digits_nat ds) else int (digits_nat ds)))))"

definition decimal_double :: "bool \<Rightarrow> nat \<Rightarrow> int \<Rightarrow> double" where
  "decimal_double neg m e =
     (let n = int m * 2 ^ 1074 * (if e \<ge> 0 then 10 ^ nat e else 1);
          d = (if e < 0 then 10 ^ nat (- e) else 1)
      in d_round neg (if neg then - n else n) d)"

definition py_float :: "pystr \<Rightarrow> double res" where
  "py_float text =
     (case read_sign (py_strip (map to_ascii_decimal text)) of (neg, s) \<Rightarrow>
      let low = map lower_char s in
      if low = lit ''inf'' \<or> low = lit ''infinity'' then Inr (d_make neg inf_key)
      else if low = lit ''nan'' then Inr (if neg then d_make True (d_mag d_nan) else d_nan)
      else
        (case digit_group False s of (whole, r) \<Rightarrow>
         (case (if r \<noteq> [] \<and> hd r = 46 then digit_group False (tl r) else ([], r)) of (frac, t) \<Rightarrow>
          if whole = [] \<and> frac = [] then Inl ValueError
          else
            (case read_exponent t of
               None \<Rightarrow> Inl ValueError
             | Some e \<Rightarrow> Inr (decimal_double neg (digits_nat (whole @ frac)) (e - int (length frac)))))))"

subsection \<open>The order of keys is the order of values\<close>

lemma key_units_Suc:
  fixes B :: nat
  assumes "0 < B"
  defines "f \<equiv> \<lambda>k. if k < B then k else (B + k mod B) * 2 ^ (k div B - 1)"
  shows "f k < f (Suc k)"
proof -
  consider "Suc k < B" | "Suc k = B" | "B \<le> k" by linarith
  then show ?thesis
  proof cases
    case 3
    define q where "q = k div B - 1"
    have div: "k div B = Suc q" using 3 assms(1) by (simp add: q_def div_greater_zero_iff)
    show ?thesis
    proof (cases "Suc (k mod B) = B")
      case True
      then have "Suc k div B = Suc (Suc q)" "Suc k mod B = 0" using div by (simp_all add: div_Suc mod_Suc)
      moreover have "(B + k mod B) * 2 ^ q < (2 * B) * 2 ^ q" using True by (intro mult_strict_right_mono) simp_all
      ultimately show ?thesis using 3 div by (simp add: f_def)
    next
      case False
      then have "Suc k div B = Suc q" "Suc k mod B = Suc (k mod B)" using div by (simp_all add: div_Suc mod_Suc)
      with 3 div show ?thesis by (simp add: f_def)
    qed
  qed (use assms(1) in \<open>simp_all add: f_def\<close>)
qed

lemma key_units_less: "k < k' \<Longrightarrow> key_units k < key_units k'"
  unfolding key_units_def by (rule lift_Suc_mono_less, rule key_units_Suc) simp

lemma key_units_less_iff [simp]: "key_units k < key_units k' \<longleftrightarrow> k < k'"
  by (metis key_units_less less_asym linorder_neqE_nat)

lemma key_units_0 [simp]: "key_units 0 = 0"
  by (simp add: key_units_def)

lemma key_units_eq_0 [simp]: "key_units k = 0 \<longleftrightarrow> k = 0"
  using key_units_less_iff [of 0 k] by (cases k) auto

lemma d_key_less: "d_key x < d_key y \<longleftrightarrow> d_units x < d_units y"
proof -
  have neg: "- int m < int n \<longleftrightarrow> m \<noteq> 0 \<or> n \<noteq> 0" for m n :: nat by linarith
  show ?thesis by (auto simp: d_key_def d_units_def neg)
qed

text \<open>Comparing floats is comparing their values.\<close>

lemma d_lt_units: "\<not> is_nan x \<Longrightarrow> \<not> is_nan y \<Longrightarrow> d_lt x y \<longleftrightarrow> d_units x < d_units y"
  by (simp add: d_lt_def d_key_less)

lemma d_lt_linear:
  "\<not> is_nan x \<Longrightarrow> \<not> is_nan y \<Longrightarrow> d_lt x y \<or> d_eq x y \<or> d_lt y x"
  by (auto simp: d_lt_def d_eq_def)

end
