(* ===== verification/FixedCodec.thy ===== *)
theory FixedCodec
  imports Double
begin

text \<open>
  Records of fixed width (\<open>struct.pack\<close> with text, double and unsigned fields): the serializers of
  \<open>common/message_protocol/internal\<close> for transactions and for the partial and scatter-gather
  results. A codec of fixed width promises its width and its round trip; batches are proved once
  over that promise, in the locale \<open>fixed_codec\<close>, and every serializer is an instance.
\<close>

subsection \<open>Fields\<close>

text \<open>\<open>_encode_fixed\<close>, with the padding \<open>struct\<close> adds, and \<open>_decode_fixed\<close>.\<close>

definition encode_fixed :: "nat \<Rightarrow> pystr \<Rightarrow> bytes res" where
  "encode_fixed n s =
     rbind (utf8_encode s) (\<lambda>b.
     if length b > n then Inl ValueError else Inr (b @ replicate (n - length b) 0))"

definition rstrip_nul :: "pystr \<Rightarrow> pystr" where
  "rstrip_nul s = rev (dropWhile (\<lambda>c. c = 0) (rev s))"

definition decode_fixed :: "bytes \<Rightarrow> pystr res" where
  "decode_fixed b = rbind (utf8_decode b) (\<lambda>s. Inr (rstrip_nul s))"

definition pack_double :: "double \<Rightarrow> bytes" where
  "pack_double x = be_bytes 8 (unat x)"

definition unpack_double :: "bytes \<Rightarrow> double" where
  "unpack_double b = word_of_nat (be_nat b)"

definition unpack_uint :: "bytes \<Rightarrow> int" where
  "unpack_uint b = int (be_nat b)"

text \<open>The \<open>n\<close> bytes at an offset.\<close>

definition field :: "bytes \<Rightarrow> nat \<Rightarrow> nat \<Rightarrow> bytes" where
  "field data offset n = take n (drop offset data)"

text \<open>A text that a fixed field gives back: it does not end in a NUL character.\<close>

definition no_trailing_nul :: "pystr \<Rightarrow> bool" where
  "no_trailing_nul s \<longleftrightarrow> s = [] \<or> last s \<noteq> 0"

lemma utf8_encode_append:
  "utf8_encode s = Inr b \<Longrightarrow> utf8_encode t = Inr c \<Longrightarrow> utf8_encode (s @ t) = Inr (b @ c)"
  unfolding utf8_encode_def by (auto simp: rmap_append)

lemma utf8_encode_nuls: "utf8_encode (replicate k 0) = Inr (replicate k 0)"
proof -
  have "ascii (replicate k 0)" by (simp add: ascii_def)
  then show ?thesis by (simp add: utf8_encode_ascii map_replicate byte_of_def)
qed

lemma rstrip_nul_append: "no_trailing_nul s \<Longrightarrow> rstrip_nul (s @ replicate k 0) = s"
proof -
  assume "no_trailing_nul s"
  then have "dropWhile (\<lambda>c. c = 0) (rev s) = rev s"
    by (cases s rule: rev_cases) (auto simp: no_trailing_nul_def)
  moreover have "dropWhile (\<lambda>c. c = 0) (replicate k 0 @ rev s) = dropWhile (\<lambda>c. c = 0) (rev s)"
    by (induction k) auto
  ultimately show ?thesis by (simp add: rstrip_nul_def)
qed

lemma encode_fixed_length: "encode_fixed n s = Inr b \<Longrightarrow> length b = n"
  by (auto simp: encode_fixed_def split: if_splits)

lemma decode_encode_fixed [codec]:
  assumes "encode_fixed n s = Inr b" and "no_trailing_nul s"
  shows "decode_fixed b = Inr s"
proof -
  obtain e where e: "utf8_encode s = Inr e" "b = e @ replicate (n - length e) 0"
    using assms(1) by (auto simp: encode_fixed_def split: if_splits)
  then have "utf8_decode b = Inr (s @ replicate (n - length e) 0)"
    by (intro utf8_roundtrip) (simp add: utf8_encode_append utf8_encode_nuls)
  then show ?thesis using assms(2) by (simp add: decode_fixed_def rstrip_nul_append)
qed

lemma pack_double_length [simp]: "length (pack_double x) = 8"
  by (simp add: pack_double_def del: be_bytes.simps)

lemma double_roundtrip [codec, simp]: "unpack_double (pack_double x) = x"
proof -
  have "unat x < 256 ^ 8" using unsigned_less [of x] by simp
  then show ?thesis by (simp add: pack_double_def unpack_double_def be_nat_be_bytes del: be_bytes.simps)
qed

lemma uint_roundtrip [codec]: "pack_uint k n = Inr b \<Longrightarrow> unpack_uint b = n"
  by (auto simp: pack_uint_Inr unpack_uint_def be_nat_be_bytes nat_less_iff simp del: be_bytes.simps)

text \<open>Reading a field of a concatenation: skip what is before it, or take it when it is first.\<close>

lemma field_skip: "length a \<le> off \<Longrightarrow> field (a @ rest) off n = field rest (off - length a) n"
  by (simp add: field_def)

lemma field_here: "length a = n \<Longrightarrow> field (a @ rest) 0 n = a" "length a = n \<Longrightarrow> field a 0 n = a"
  by (simp_all add: field_def)

lemmas field_reads = field_skip field_here

subsection \<open>Codecs of fixed width\<close>

text \<open>A batch is the concatenation of its records; reading it cuts it into records again.\<close>

definition encode_batch :: "('a \<Rightarrow> bytes res) \<Rightarrow> 'a list \<Rightarrow> bytes res" where
  "encode_batch enc xs = rbind (rmap enc xs) (\<lambda>bs. Inr (concat bs))"

lemma encode_batch_total:
  assumes "list_all (\<lambda>x. \<exists>b. enc x = Inr b) xs"
  shows "\<exists>data. encode_batch enc xs = Inr data"
  using assms by (induction xs) (auto simp: encode_batch_def)

function slices :: "nat \<Rightarrow> bytes \<Rightarrow> bytes list" where
  "slices n data = (if n = 0 \<or> data = [] then [] else take n data # slices n (drop n data))"
  by pat_completeness auto
termination
  by (relation "measure (\<lambda>(n, data). length data)") auto

declare slices.simps [simp del]

definition decode_batch :: "nat \<Rightarrow> (bytes \<Rightarrow> 'a res) \<Rightarrow> bytes \<Rightarrow> 'a list res" where
  "decode_batch n dec data = rmap dec (slices n data)"

definition decode_whole_batch :: "nat \<Rightarrow> (bytes \<Rightarrow> 'a res) \<Rightarrow> bytes \<Rightarrow> 'a list res" where
  "decode_whole_batch n dec data =
     (if length data mod n \<noteq> 0 then Inl ValueError else decode_batch n dec data)"

lemma slices_concat: "0 < n \<Longrightarrow> (\<And>b. b \<in> set bs \<Longrightarrow> length b = n) \<Longrightarrow> slices n (concat bs) = bs"
proof (induction bs)
  case (Cons b bs)
  then have "b \<noteq> []" "length b = n" by auto
  with Cons show ?case by (subst slices.simps) auto
qed (simp add: slices.simps)

lemma length_concat_same: "(\<And>b. b \<in> set bs \<Longrightarrow> length b = n) \<Longrightarrow> length (concat bs) = n * length bs"
  by (induction bs) auto

locale fixed_codec =
  fixes width :: nat
    and enc :: "'a \<Rightarrow> bytes res"
    and dec :: "bytes \<Rightarrow> 'a res"
    and ok :: "'a \<Rightarrow> bool"
  assumes width_pos: "0 < width"
    and enc_width: "enc x = Inr b \<Longrightarrow> length b = width"
    and dec_enc: "enc x = Inr b \<Longrightarrow> ok x \<Longrightarrow> dec b = Inr x"
begin

lemma batch_parts:
  assumes "encode_batch enc xs = Inr data"
  obtains bs where "rmap enc xs = Inr bs" and "data = concat bs" and "\<And>b. b \<in> set bs \<Longrightarrow> length b = width"
proof -
  obtain bs where bs: "rmap enc xs = Inr bs" "data = concat bs" using assms by (auto simp: encode_batch_def)
  have "rmap enc ys = Inr cs \<Longrightarrow> b \<in> set cs \<Longrightarrow> length b = width" for ys cs b
    by (induction ys arbitrary: cs) (auto dest: enc_width)
  with bs show thesis using that by blast
qed

lemma batch_length:
  assumes "encode_batch enc xs = Inr data"
  shows "length data = width * length xs"
  using assms by (rule batch_parts) (auto simp: length_concat_same dest: rmap_Inr_length)

lemma batch_roundtrip:
  assumes "encode_batch enc xs = Inr data" and "list_all ok xs"
  shows "decode_batch width dec data = Inr xs"
  using assms(1)
proof (rule batch_parts)
  fix bs assume bs: "rmap enc xs = Inr bs" "data = concat bs" "\<And>b. b \<in> set bs \<Longrightarrow> length b = width"
  have "rmap dec bs = Inr xs"
    by (rule rmap_roundtrip [OF _ bs(1)]) (use assms(2) dec_enc in \<open>auto simp: list_all_iff\<close>)
  with bs width_pos show ?thesis by (simp add: decode_batch_def slices_concat)
qed

lemma whole_batch_roundtrip:
  "encode_batch enc xs = Inr data \<Longrightarrow> list_all ok xs \<Longrightarrow> decode_whole_batch width dec data = Inr xs"
  by (simp add: decode_whole_batch_def batch_length batch_roundtrip)

lemma enc_inject: "enc x = Inr b \<Longrightarrow> enc y = Inr b \<Longrightarrow> ok x \<Longrightarrow> ok y \<Longrightarrow> x = y"
  using dec_enc by (metis sum.inject(2))

end

lemma rmap_take: "rmap f xs = Inr ys \<Longrightarrow> rmap f (take k xs) = Inr (take k ys)"
  by (induction xs arbitrary: k ys) (auto simp: take_Cons split: nat.split)

lemma rmap_Inl_snoc: "rmap f xs = Inr ys \<Longrightarrow> f z = Inl e \<Longrightarrow> rmap f (take k xs @ [z]) = Inl e"
proof (induction xs arbitrary: k ys)
  case (Cons x xs)
  then show ?case by (cases k) auto
qed simp

lemma slices_cut:
  assumes "0 < n" and "\<And>b. b \<in> set bs \<Longrightarrow> length b = n"
  shows "\<exists>r. slices n (take k (concat bs)) = take (k div n) bs @ (if r = [] then [] else [r]) \<and>
    length r = min k (length (concat bs)) mod n"
  using assms(2)
proof (induction bs arbitrary: k)
  case Nil
  show ?case by (rule exI [of _ "[]"]) (simp add: slices.simps)
next
  case (Cons b bs)
  then have b: "length b = n" and bs: "\<And>c. c \<in> set bs \<Longrightarrow> length c = n" by auto
  show ?case
  proof (cases "k < n")
    case True
    have cut: "slices n (take k b) = (if take k b = [] then [] else [take k b])"
      using True assms(1) by (subst slices.simps) (auto simp: slices.simps b)
    show ?thesis
      by (rule exI [of _ "take k b"]) (use True b cut in \<open>auto simp: min_def\<close>)
  next
    case False
    from Cons.IH [OF bs, of "k - n"] obtain r where
      r: "slices n (take (k - n) (concat bs)) = take ((k - n) div n) bs @ (if r = [] then [] else [r])"
        "length r = min (k - n) (length (concat bs)) mod n" by auto
    have step: "slices n (take k (concat (b # bs))) = b # slices n (take (k - n) (concat bs))"
      using False b assms(1) by (subst slices.simps) auto
    have d: "k div n = Suc ((k - n) div n)" using False assms(1) by (simp add: le_div_geq)
    have l: "min k (length (concat (b # bs))) mod n = min (k - n) (length (concat bs)) mod n"
    proof -
      have "min k (length (concat (b # bs))) = n + min (k - n) (length (concat bs))" using False b by auto
      then show ?thesis by simp
    qed
    show ?thesis using r step d l by (intro exI [of _ r]) simp
  qed
qed

text \<open>A codec that also refuses every other width: a batch cut inside a record is an error.\<close>

locale strict_codec = fixed_codec +
  fixes err :: py_error
  assumes dec_strict: "length b \<noteq> width \<Longrightarrow> dec b = Inl err"
begin

lemma cut_batch_error:
  assumes "encode_batch enc xs = Inr data" and "list_all ok xs" and "k < length data" and "k mod width \<noteq> 0"
  shows "decode_batch width dec (take k data) = Inl err"
  using assms(1)
proof (rule batch_parts)
  fix bs assume bs: "rmap enc xs = Inr bs" "data = concat bs" "\<And>b. b \<in> set bs \<Longrightarrow> length b = width"
  from slices_cut [OF width_pos bs(3), of bs k] obtain r where
    r: "slices width (take k data) = take (k div width) bs @ (if r = [] then [] else [r])"
      "length r = k mod width" using assms(3) bs(2) by (auto simp: min_absorb1)
  have "r \<noteq> []" "length r \<noteq> width" using r(2) assms(4) width_pos by (auto dest: mod_less_divisor [of _ k])
  moreover have "rmap dec bs = Inr xs"
    by (rule rmap_roundtrip [OF _ bs(1)]) (use assms(2) dec_enc in \<open>auto simp: list_all_iff\<close>)
  ultimately show ?thesis using r(1) by (simp add: decode_batch_def rmap_Inl_snoc dec_strict)
qed

end

end
