(* ===== verification/Serializers.thy ===== *)
theory Serializers
  imports FixedCodec
begin

text \<open>
  The concrete records: \<open>transaction_serializer.py\<close>, \<open>partial_result_serializer.py\<close> and
  \<open>scatter_gather_serializer.py\<close> with the data classes of \<open>common/domain\<close>. Every serializer is an
  instance of \<^term>\<open>fixed_codec\<close>.
\<close>

subsection \<open>Transactions\<close>

record transaction =
  tx_date :: pystr
  tx_from_bank :: pystr
  tx_from_account :: pystr
  tx_to_bank :: pystr
  tx_to_account :: pystr
  tx_amount :: double
  tx_currency :: pystr
  tx_format :: pystr
  tx_row_number :: int

text \<open>The order of Python strings: by code point, a prefix first.\<close>

fun pystr_le :: "pystr \<Rightarrow> pystr \<Rightarrow> bool" where
  "pystr_le [] t = True"
| "pystr_le (c # s) [] = False"
| "pystr_le (c # s) (d # t) = (c < d \<or> c = d \<and> pystr_le s t)"

definition is_in_date_range :: "transaction \<Rightarrow> pystr \<Rightarrow> pystr \<Rightarrow> bool" where
  "is_in_date_range tx start_date end_date \<longleftrightarrow> pystr_le start_date (tx_date tx) \<and> pystr_le (tx_date tx) end_date"

definition hash_by_payment_format :: "transaction \<Rightarrow> int \<Rightarrow> int res" where
  "hash_by_payment_format tx num_buckets =
     (let h = foldl (\<lambda>h c. h * 31 + int c) 0 (tx_format tx) in
      if num_buckets = 0 then Inl ZeroDivisionError else Inr (h mod num_buckets))"

definition DATE_SIZE :: nat where "DATE_SIZE = 19"
definition BANK_SIZE :: nat where "BANK_SIZE = 16"
definition ACCOUNT_SIZE :: nat where "ACCOUNT_SIZE = 32"
definition CURRENCY_SIZE :: nat where "CURRENCY_SIZE = 32"
definition FORMAT_SIZE :: nat where "FORMAT_SIZE = 32"
definition TX_SIZE :: nat where "TX_SIZE = 195"

lemmas field_sizes = DATE_SIZE_def BANK_SIZE_def ACCOUNT_SIZE_def CURRENCY_SIZE_def FORMAT_SIZE_def

definition serialize_transaction :: "transaction \<Rightarrow> bytes res" where
  "serialize_transaction tx =
     rbind (encode_fixed DATE_SIZE (tx_date tx)) (\<lambda>date.
     rbind (encode_fixed BANK_SIZE (tx_from_bank tx)) (\<lambda>from_bank.
     rbind (encode_fixed ACCOUNT_SIZE (tx_from_account tx)) (\<lambda>from_account.
     rbind (encode_fixed BANK_SIZE (tx_to_bank tx)) (\<lambda>to_bank.
     rbind (encode_fixed ACCOUNT_SIZE (tx_to_account tx)) (\<lambda>to_account.
     rbind (encode_fixed CURRENCY_SIZE (tx_currency tx)) (\<lambda>currency.
     rbind (encode_fixed FORMAT_SIZE (tx_format tx)) (\<lambda>fmt.
     rbind (pack_uint 8 (tx_row_number tx)) (\<lambda>row.
     Inr (date @ from_bank @ from_account @ to_bank @ to_account @ pack_double (tx_amount tx) @ currency @ fmt @ row)))))))))"

definition deserialize_transaction :: "bytes \<Rightarrow> transaction res" where
  "deserialize_transaction data =
     (if length data \<noteq> TX_SIZE then Inl StructError
      else
        rbind (decode_fixed (field data 0 19)) (\<lambda>date.
        rbind (decode_fixed (field data 19 16)) (\<lambda>from_bank.
        rbind (decode_fixed (field data 35 32)) (\<lambda>from_account.
        rbind (decode_fixed (field data 67 16)) (\<lambda>to_bank.
        rbind (decode_fixed (field data 83 32)) (\<lambda>to_account.
        rbind (decode_fixed (field data 123 32)) (\<lambda>currency.
        rbind (decode_fixed (field data 155 32)) (\<lambda>fmt.
        Inr \<lparr>tx_date = date, tx_from_bank = from_bank, tx_from_account = from_account, tx_to_bank = to_bank,
             tx_to_account = to_account, tx_amount = unpack_double (field data 115 8), tx_currency = currency,
             tx_format = fmt, tx_row_number = unpack_uint (field data 187 8)\<rparr>))))))))"

definition serialize_transactions :: "transaction list \<Rightarrow> bytes res" where
  "serialize_transactions = encode_batch serialize_transaction"

definition deserialize_transactions :: "bytes \<Rightarrow> transaction list res" where
  "deserialize_transactions = decode_batch TX_SIZE deserialize_transaction"

definition transaction_ok :: "transaction \<Rightarrow> bool" where
  "transaction_ok tx \<longleftrightarrow> list_all no_trailing_nul
     [tx_date tx, tx_from_bank tx, tx_from_account tx, tx_to_bank tx, tx_to_account tx, tx_currency tx, tx_format tx]"

text \<open>The common argument: the lengths of the encoded fields place every field where it is read.\<close>

lemmas codec_lengths = encode_fixed_length pack_uint_length
lemmas codec_reads = field_reads decode_encode_fixed uint_roundtrip

interpretation tx_codec: fixed_codec TX_SIZE serialize_transaction deserialize_transaction transaction_ok
proof
  show "0 < TX_SIZE" by (simp add: TX_SIZE_def)
  show size: "length b = TX_SIZE" if "serialize_transaction tx = Inr b" for tx b
    using that by (auto simp: serialize_transaction_def TX_SIZE_def field_sizes dest!: codec_lengths)
  show "deserialize_transaction b = Inr tx" if enc: "serialize_transaction tx = Inr b" and ok: "transaction_ok tx" for tx b
  proof -
    from enc obtain b1 b2 b3 b4 b5 b6 b7 b8 where
      parts: "encode_fixed DATE_SIZE (tx_date tx) = Inr b1" "encode_fixed BANK_SIZE (tx_from_bank tx) = Inr b2"
        "encode_fixed ACCOUNT_SIZE (tx_from_account tx) = Inr b3" "encode_fixed BANK_SIZE (tx_to_bank tx) = Inr b4"
        "encode_fixed ACCOUNT_SIZE (tx_to_account tx) = Inr b5" "encode_fixed CURRENCY_SIZE (tx_currency tx) = Inr b6"
        "encode_fixed FORMAT_SIZE (tx_format tx) = Inr b7" "pack_uint 8 (tx_row_number tx) = Inr b8"
      and b: "b = b1 @ b2 @ b3 @ b4 @ b5 @ pack_double (tx_amount tx) @ b6 @ b7 @ b8"
      by (auto simp: serialize_transaction_def)
    have lens: "length b1 = 19" "length b2 = 16" "length b3 = 32" "length b4 = 16" "length b5 = 32" "length b6 = 32"
      "length b7 = 32" "length b8 = 8"
      using parts by (auto simp: field_sizes dest: codec_lengths)
    show ?thesis
      using size [OF enc] parts ok
      by (simp add: deserialize_transaction_def b lens field_reads transaction_ok_def decode_encode_fixed uint_roundtrip)
  qed
qed

subsection \<open>Partial and final results\<close>

definition BANK_NAME_SIZE :: nat where "BANK_NAME_SIZE = 64"

record q2_bank_max_result =
  q2r_bank_id :: pystr
  q2r_from_account :: pystr
  q2r_bank_name :: pystr
  q2r_amount :: double

definition Q2_RESULT_SIZE :: nat where "Q2_RESULT_SIZE = 120"

definition serialize_q2_result :: "q2_bank_max_result \<Rightarrow> bytes res" where
  "serialize_q2_result r =
     rbind (encode_fixed BANK_SIZE (q2r_bank_id r)) (\<lambda>b1.
     rbind (encode_fixed ACCOUNT_SIZE (q2r_from_account r)) (\<lambda>b2.
     rbind (encode_fixed BANK_NAME_SIZE (q2r_bank_name r)) (\<lambda>b3.
     Inr (b1 @ b2 @ b3 @ pack_double (q2r_amount r)))))"

definition deserialize_q2_result :: "bytes \<Rightarrow> q2_bank_max_result res" where
  "deserialize_q2_result data =
     (if length data \<noteq> Q2_RESULT_SIZE then Inl StructError
      else
        rbind (decode_fixed (field data 0 16)) (\<lambda>v1.
        rbind (decode_fixed (field data 16 32)) (\<lambda>v2.
        rbind (decode_fixed (field data 48 64)) (\<lambda>v3.
        Inr \<lparr>q2r_bank_id = v1, q2r_from_account = v2, q2r_bank_name = v3, q2r_amount = unpack_double (field data 112 8)\<rparr>))))"

definition q2_result_ok :: "q2_bank_max_result \<Rightarrow> bool" where
  "q2_result_ok r \<longleftrightarrow> no_trailing_nul (q2r_bank_id r) \<and> no_trailing_nul (q2r_from_account r) \<and> no_trailing_nul (q2r_bank_name r)"

interpretation q2_result_codec: fixed_codec Q2_RESULT_SIZE serialize_q2_result deserialize_q2_result q2_result_ok
proof
  show "0 < Q2_RESULT_SIZE" by (simp add: Q2_RESULT_SIZE_def)
  show size: "length b = Q2_RESULT_SIZE" if "serialize_q2_result r = Inr b" for r b
    using that by (auto simp: serialize_q2_result_def Q2_RESULT_SIZE_def field_sizes BANK_NAME_SIZE_def dest!: codec_lengths)
  show "deserialize_q2_result b = Inr r" if enc: "serialize_q2_result r = Inr b" and ok: "q2_result_ok r" for r b
  proof -
    from enc obtain b1 b2 b3 where parts: "encode_fixed BANK_SIZE (q2r_bank_id r) = Inr b1" "encode_fixed ACCOUNT_SIZE (q2r_from_account r) = Inr b2" "encode_fixed BANK_NAME_SIZE (q2r_bank_name r) = Inr b3"
      and b: "b = b1 @ b2 @ b3 @ pack_double (q2r_amount r)"
      by (auto simp: serialize_q2_result_def)
    have lens: "length b1 = 16" "length b2 = 32" "length b3 = 64"
      using parts by (auto simp: field_sizes BANK_NAME_SIZE_def dest: codec_lengths)
    show ?thesis
      using size [OF enc] parts ok
      by (simp add: deserialize_q2_result_def b lens field_reads q2_result_ok_def decode_encode_fixed uint_roundtrip)
  qed
qed

record q2_bank_max_partial =
  q2p_bank_id :: pystr
  q2p_from_account :: pystr
  q2p_amount :: double
  q2p_row_number :: int

definition Q2_PARTIAL_SIZE :: nat where "Q2_PARTIAL_SIZE = 64"

definition serialize_q2_partial :: "q2_bank_max_partial \<Rightarrow> bytes res" where
  "serialize_q2_partial r =
     rbind (encode_fixed BANK_SIZE (q2p_bank_id r)) (\<lambda>b1.
     rbind (encode_fixed ACCOUNT_SIZE (q2p_from_account r)) (\<lambda>b2.
     rbind (pack_uint 8 (q2p_row_number r)) (\<lambda>b4.
     Inr (b1 @ b2 @ pack_double (q2p_amount r) @ b4))))"

definition deserialize_q2_partial :: "bytes \<Rightarrow> q2_bank_max_partial res" where
  "deserialize_q2_partial data =
     (if length data \<noteq> Q2_PARTIAL_SIZE then Inl StructError
      else
        rbind (decode_fixed (field data 0 16)) (\<lambda>v1.
        rbind (decode_fixed (field data 16 32)) (\<lambda>v2.
        Inr \<lparr>q2p_bank_id = v1, q2p_from_account = v2, q2p_amount = unpack_double (field data 48 8), q2p_row_number = unpack_uint (field data 56 8)\<rparr>)))"

definition q2_partial_ok :: "q2_bank_max_partial \<Rightarrow> bool" where
  "q2_partial_ok r \<longleftrightarrow> no_trailing_nul (q2p_bank_id r) \<and> no_trailing_nul (q2p_from_account r)"

interpretation q2_partial_codec: fixed_codec Q2_PARTIAL_SIZE serialize_q2_partial deserialize_q2_partial q2_partial_ok
proof
  show "0 < Q2_PARTIAL_SIZE" by (simp add: Q2_PARTIAL_SIZE_def)
  show size: "length b = Q2_PARTIAL_SIZE" if "serialize_q2_partial r = Inr b" for r b
    using that by (auto simp: serialize_q2_partial_def Q2_PARTIAL_SIZE_def field_sizes dest!: codec_lengths)
  show "deserialize_q2_partial b = Inr r" if enc: "serialize_q2_partial r = Inr b" and ok: "q2_partial_ok r" for r b
  proof -
    from enc obtain b1 b2 b4 where parts: "encode_fixed BANK_SIZE (q2p_bank_id r) = Inr b1" "encode_fixed ACCOUNT_SIZE (q2p_from_account r) = Inr b2" "pack_uint 8 (q2p_row_number r) = Inr b4"
      and b: "b = b1 @ b2 @ pack_double (q2p_amount r) @ b4"
      by (auto simp: serialize_q2_partial_def)
    have lens: "length b1 = 16" "length b2 = 32" "length b4 = 8"
      using parts by (auto simp: field_sizes dest: codec_lengths)
    show ?thesis
      using size [OF enc] parts ok
      by (simp add: deserialize_q2_partial_def b lens field_reads q2_partial_ok_def decode_encode_fixed uint_roundtrip)
  qed
qed

record q3_payment_format_partial =
  q3p_payment_format :: pystr
  q3p_amount_sum :: double
  q3p_count :: int

definition Q3_PARTIAL_SIZE :: nat where "Q3_PARTIAL_SIZE = 48"

definition serialize_q3_partial :: "q3_payment_format_partial \<Rightarrow> bytes res" where
  "serialize_q3_partial r =
     rbind (encode_fixed FORMAT_SIZE (q3p_payment_format r)) (\<lambda>b1.
     rbind (pack_uint 8 (q3p_count r)) (\<lambda>b3.
     Inr (b1 @ pack_double (q3p_amount_sum r) @ b3)))"

definition deserialize_q3_partial :: "bytes \<Rightarrow> q3_payment_format_partial res" where
  "deserialize_q3_partial data =
     (if length data \<noteq> Q3_PARTIAL_SIZE then Inl StructError
      else
        rbind (decode_fixed (field data 0 32)) (\<lambda>v1.
        Inr \<lparr>q3p_payment_format = v1, q3p_amount_sum = unpack_double (field data 32 8), q3p_count = unpack_uint (field data 40 8)\<rparr>))"

definition q3_partial_ok :: "q3_payment_format_partial \<Rightarrow> bool" where
  "q3_partial_ok r \<longleftrightarrow> no_trailing_nul (q3p_payment_format r)"

interpretation q3_partial_codec: fixed_codec Q3_PARTIAL_SIZE serialize_q3_partial deserialize_q3_partial q3_partial_ok
proof
  show "0 < Q3_PARTIAL_SIZE" by (simp add: Q3_PARTIAL_SIZE_def)
  show size: "length b = Q3_PARTIAL_SIZE" if "serialize_q3_partial r = Inr b" for r b
    using that by (auto simp: serialize_q3_partial_def Q3_PARTIAL_SIZE_def field_sizes dest!: codec_lengths)
  show "deserialize_q3_partial b = Inr r" if enc: "serialize_q3_partial r = Inr b" and ok: "q3_partial_ok r" for r b
  proof -
    from enc obtain b1 b3 where parts: "encode_fixed FORMAT_SIZE (q3p_payment_format r) = Inr b1" "pack_uint 8 (q3p_count r) = Inr b3"
      and b: "b = b1 @ pack_double (q3p_amount_sum r) @ b3"
      by (auto simp: serialize_q3_partial_def)
    have lens: "length b1 = 32" "length b3 = 8"
      using parts by (auto simp: field_sizes dest: codec_lengths)
    show ?thesis
      using size [OF enc] parts ok
      by (simp add: deserialize_q3_partial_def b lens field_reads q3_partial_ok_def decode_encode_fixed uint_roundtrip)
  qed
qed

record q3_average_result =
  q3r_payment_format :: pystr
  q3r_average :: double

definition Q3_RESULT_SIZE :: nat where "Q3_RESULT_SIZE = 40"

definition serialize_q3_result :: "q3_average_result \<Rightarrow> bytes res" where
  "serialize_q3_result r =
     rbind (encode_fixed FORMAT_SIZE (q3r_payment_format r)) (\<lambda>b1.
     Inr (b1 @ pack_double (q3r_average r)))"

definition deserialize_q3_result :: "bytes \<Rightarrow> q3_average_result res" where
  "deserialize_q3_result data =
     (if length data \<noteq> Q3_RESULT_SIZE then Inl StructError
      else
        rbind (decode_fixed (field data 0 32)) (\<lambda>v1.
        Inr \<lparr>q3r_payment_format = v1, q3r_average = unpack_double (field data 32 8)\<rparr>))"

definition q3_result_ok :: "q3_average_result \<Rightarrow> bool" where
  "q3_result_ok r \<longleftrightarrow> no_trailing_nul (q3r_payment_format r)"

interpretation q3_result_codec: fixed_codec Q3_RESULT_SIZE serialize_q3_result deserialize_q3_result q3_result_ok
proof
  show "0 < Q3_RESULT_SIZE" by (simp add: Q3_RESULT_SIZE_def)
  show size: "length b = Q3_RESULT_SIZE" if "serialize_q3_result r = Inr b" for r b
    using that by (auto simp: serialize_q3_result_def Q3_RESULT_SIZE_def field_sizes dest!: codec_lengths)
  show "deserialize_q3_result b = Inr r" if enc: "serialize_q3_result r = Inr b" and ok: "q3_result_ok r" for r b
  proof -
    from enc obtain b1 where parts: "encode_fixed FORMAT_SIZE (q3r_payment_format r) = Inr b1"
      and b: "b = b1 @ pack_double (q3r_average r)"
      by (auto simp: serialize_q3_result_def)
    have lens: "length b1 = 32"
      using parts by (auto simp: field_sizes dest: codec_lengths)
    show ?thesis
      using size [OF enc] parts ok
      by (simp add: deserialize_q3_result_def b lens field_reads q3_result_ok_def decode_encode_fixed uint_roundtrip)
  qed
qed

subsection \<open>Scatter-gather records\<close>

record scatter_gather_relation =
  sgr_from_account :: pystr
  sgr_intermediate_account :: pystr
  sgr_to_account :: pystr

definition SG_RELATION_SIZE :: nat where "SG_RELATION_SIZE = 96"

definition serialize_relation :: "scatter_gather_relation \<Rightarrow> bytes res" where
  "serialize_relation r =
     rbind (encode_fixed ACCOUNT_SIZE (sgr_from_account r)) (\<lambda>b1.
     rbind (encode_fixed ACCOUNT_SIZE (sgr_intermediate_account r)) (\<lambda>b2.
     rbind (encode_fixed ACCOUNT_SIZE (sgr_to_account r)) (\<lambda>b3.
     Inr (b1 @ b2 @ b3))))"

definition deserialize_relation :: "bytes \<Rightarrow> scatter_gather_relation res" where
  "deserialize_relation data =
     (if length data \<noteq> SG_RELATION_SIZE then Inl ValueError
      else
        rbind (decode_fixed (field data 0 32)) (\<lambda>v1.
        rbind (decode_fixed (field data 32 32)) (\<lambda>v2.
        rbind (decode_fixed (field data 64 32)) (\<lambda>v3.
        Inr \<lparr>sgr_from_account = v1, sgr_intermediate_account = v2, sgr_to_account = v3\<rparr>))))"

definition relation_ok :: "scatter_gather_relation \<Rightarrow> bool" where
  "relation_ok r \<longleftrightarrow> no_trailing_nul (sgr_from_account r) \<and> no_trailing_nul (sgr_intermediate_account r) \<and> no_trailing_nul (sgr_to_account r)"

interpretation relation_codec: fixed_codec SG_RELATION_SIZE serialize_relation deserialize_relation relation_ok
proof
  show "0 < SG_RELATION_SIZE" by (simp add: SG_RELATION_SIZE_def)
  show size: "length b = SG_RELATION_SIZE" if "serialize_relation r = Inr b" for r b
    using that by (auto simp: serialize_relation_def SG_RELATION_SIZE_def field_sizes dest!: codec_lengths)
  show "deserialize_relation b = Inr r" if enc: "serialize_relation r = Inr b" and ok: "relation_ok r" for r b
  proof -
    from enc obtain b1 b2 b3 where parts: "encode_fixed ACCOUNT_SIZE (sgr_from_account r) = Inr b1" "encode_fixed ACCOUNT_SIZE (sgr_intermediate_account r) = Inr b2" "encode_fixed ACCOUNT_SIZE (sgr_to_account r) = Inr b3"
      and b: "b = b1 @ b2 @ b3"
      by (auto simp: serialize_relation_def)
    have lens: "length b1 = 32" "length b2 = 32" "length b3 = 32"
      using parts by (auto simp: field_sizes dest: codec_lengths)
    show ?thesis
      using size [OF enc] parts ok
      by (simp add: deserialize_relation_def b lens field_reads relation_ok_def decode_encode_fixed uint_roundtrip)
  qed
qed

record scatter_gather_result =
  sgs_from_account :: pystr
  sgs_to_account :: pystr

definition SG_RESULT_SIZE :: nat where "SG_RESULT_SIZE = 64"

definition serialize_sg_result :: "scatter_gather_result \<Rightarrow> bytes res" where
  "serialize_sg_result r =
     rbind (encode_fixed ACCOUNT_SIZE (sgs_from_account r)) (\<lambda>b1.
     rbind (encode_fixed ACCOUNT_SIZE (sgs_to_account r)) (\<lambda>b2.
     Inr (b1 @ b2)))"

definition deserialize_sg_result :: "bytes \<Rightarrow> scatter_gather_result res" where
  "deserialize_sg_result data =
     (if length data \<noteq> SG_RESULT_SIZE then Inl ValueError
      else
        rbind (decode_fixed (field data 0 32)) (\<lambda>v1.
        rbind (decode_fixed (field data 32 32)) (\<lambda>v2.
        Inr \<lparr>sgs_from_account = v1, sgs_to_account = v2\<rparr>)))"

definition sg_result_ok :: "scatter_gather_result \<Rightarrow> bool" where
  "sg_result_ok r \<longleftrightarrow> no_trailing_nul (sgs_from_account r) \<and> no_trailing_nul (sgs_to_account r)"

interpretation sg_result_codec: fixed_codec SG_RESULT_SIZE serialize_sg_result deserialize_sg_result sg_result_ok
proof
  show "0 < SG_RESULT_SIZE" by (simp add: SG_RESULT_SIZE_def)
  show size: "length b = SG_RESULT_SIZE" if "serialize_sg_result r = Inr b" for r b
    using that by (auto simp: serialize_sg_result_def SG_RESULT_SIZE_def field_sizes dest!: codec_lengths)
  show "deserialize_sg_result b = Inr r" if enc: "serialize_sg_result r = Inr b" and ok: "sg_result_ok r" for r b
  proof -
    from enc obtain b1 b2 where parts: "encode_fixed ACCOUNT_SIZE (sgs_from_account r) = Inr b1" "encode_fixed ACCOUNT_SIZE (sgs_to_account r) = Inr b2"
      and b: "b = b1 @ b2"
      by (auto simp: serialize_sg_result_def)
    have lens: "length b1 = 32" "length b2 = 32"
      using parts by (auto simp: field_sizes dest: codec_lengths)
    show ?thesis
      using size [OF enc] parts ok
      by (simp add: deserialize_sg_result_def b lens field_reads sg_result_ok_def decode_encode_fixed uint_roundtrip)
  qed
qed

record q4_account_id =
  q4_bank_id :: pystr
  q4_account :: pystr

definition Q4_ACCOUNT_SIZE :: nat where "Q4_ACCOUNT_SIZE = 48"

definition serialize_account_id :: "q4_account_id \<Rightarrow> bytes res" where
  "serialize_account_id r =
     rbind (encode_fixed BANK_SIZE (q4_bank_id r)) (\<lambda>b1.
     rbind (encode_fixed ACCOUNT_SIZE (q4_account r)) (\<lambda>b2.
     Inr (b1 @ b2)))"

definition deserialize_account_id :: "bytes \<Rightarrow> q4_account_id res" where
  "deserialize_account_id data =
     (if length data \<noteq> Q4_ACCOUNT_SIZE then Inl ValueError
      else
        rbind (decode_fixed (field data 0 16)) (\<lambda>v1.
        rbind (decode_fixed (field data 16 32)) (\<lambda>v2.
        Inr \<lparr>q4_bank_id = v1, q4_account = v2\<rparr>)))"

definition account_id_ok :: "q4_account_id \<Rightarrow> bool" where
  "account_id_ok r \<longleftrightarrow> no_trailing_nul (q4_bank_id r) \<and> no_trailing_nul (q4_account r)"

interpretation account_codec: fixed_codec Q4_ACCOUNT_SIZE serialize_account_id deserialize_account_id account_id_ok
proof
  show "0 < Q4_ACCOUNT_SIZE" by (simp add: Q4_ACCOUNT_SIZE_def)
  show size: "length b = Q4_ACCOUNT_SIZE" if "serialize_account_id r = Inr b" for r b
    using that by (auto simp: serialize_account_id_def Q4_ACCOUNT_SIZE_def field_sizes dest!: codec_lengths)
  show "deserialize_account_id b = Inr r" if enc: "serialize_account_id r = Inr b" and ok: "account_id_ok r" for r b
  proof -
    from enc obtain b1 b2 where parts: "encode_fixed BANK_SIZE (q4_bank_id r) = Inr b1" "encode_fixed ACCOUNT_SIZE (q4_account r) = Inr b2"
      and b: "b = b1 @ b2"
      by (auto simp: serialize_account_id_def)
    have lens: "length b1 = 16" "length b2 = 32"
      using parts by (auto simp: field_sizes dest: codec_lengths)
    show ?thesis
      using size [OF enc] parts ok
      by (simp add: deserialize_account_id_def b lens field_reads account_id_ok_def decode_encode_fixed uint_roundtrip)
  qed
qed

record q4_transaction_edge =
  q4e_source :: q4_account_id
  q4e_target :: q4_account_id

definition Q4_EDGE_SIZE :: nat where "Q4_EDGE_SIZE = 96"

definition serialize_edge :: "q4_transaction_edge \<Rightarrow> bytes res" where
  "serialize_edge r =
     rbind (serialize_account_id (q4e_source r)) (\<lambda>b1.
     rbind (serialize_account_id (q4e_target r)) (\<lambda>b2.
     Inr (b1 @ b2)))"

definition deserialize_edge :: "bytes \<Rightarrow> q4_transaction_edge res" where
  "deserialize_edge data =
     (if length data \<noteq> Q4_EDGE_SIZE then Inl ValueError
      else
        rbind (deserialize_account_id (field data 0 48)) (\<lambda>v1.
        rbind (deserialize_account_id (field data 48 48)) (\<lambda>v2.
        Inr \<lparr>q4e_source = v1, q4e_target = v2\<rparr>)))"

definition edge_ok :: "q4_transaction_edge \<Rightarrow> bool" where
  "edge_ok r \<longleftrightarrow> account_id_ok (q4e_source r) \<and> account_id_ok (q4e_target r)"

interpretation edge_codec: fixed_codec Q4_EDGE_SIZE serialize_edge deserialize_edge edge_ok
proof
  show "0 < Q4_EDGE_SIZE" by (simp add: Q4_EDGE_SIZE_def)
  show size: "length b = Q4_EDGE_SIZE" if "serialize_edge r = Inr b" for r b
    using that by (auto simp: serialize_edge_def Q4_EDGE_SIZE_def field_sizes Q4_ACCOUNT_SIZE_def dest!: codec_lengths account_codec.enc_width)
  show "deserialize_edge b = Inr r" if enc: "serialize_edge r = Inr b" and ok: "edge_ok r" for r b
  proof -
    from enc obtain b1 b2 where parts: "serialize_account_id (q4e_source r) = Inr b1" "serialize_account_id (q4e_target r) = Inr b2"
      and b: "b = b1 @ b2"
      by (auto simp: serialize_edge_def)
    have lens: "length b1 = 48" "length b2 = 48"
      using parts by (auto simp: field_sizes Q4_ACCOUNT_SIZE_def dest: codec_lengths account_codec.enc_width)
    show ?thesis
      using size [OF enc] parts ok
      by (simp add: deserialize_edge_def b lens field_reads edge_ok_def decode_encode_fixed uint_roundtrip account_codec.dec_enc)
  qed
qed

definition Q4_EDGE_INCOMING :: int where "Q4_EDGE_INCOMING = 1"
definition Q4_EDGE_OUTGOING :: int where "Q4_EDGE_OUTGOING = 2"
definition Q4_QUALIFY_THRESHOLD :: int where "Q4_QUALIFY_THRESHOLD = 6"

definition validate_q4_role :: "int \<Rightarrow> unit res" where
  "validate_q4_role r = (if r = Q4_EDGE_INCOMING \<or> r = Q4_EDGE_OUTGOING then Inr () else Inl ValueError)"

record q4_counted_edge =
  q4c_role :: int
  q4c_intermediate :: q4_account_id
  q4c_endpoint :: q4_account_id
  q4c_count :: int

definition Q4_COUNTED_SIZE :: nat where "Q4_COUNTED_SIZE = 105"

definition serialize_counted_edge :: "q4_counted_edge \<Rightarrow> bytes res" where
  "serialize_counted_edge r =
     rbind (validate_q4_role (q4c_role r)) (\<lambda>_.
     rbind (serialize_account_id (q4c_intermediate r)) (\<lambda>b2.
     rbind (serialize_account_id (q4c_endpoint r)) (\<lambda>b3.
     rbind (pack_uint 1 (q4c_role r)) (\<lambda>b1.
     rbind (pack_uint 8 (q4c_count r)) (\<lambda>b4.
     Inr (b1 @ b2 @ b3 @ b4))))))"

definition deserialize_counted_edge :: "bytes \<Rightarrow> q4_counted_edge res" where
  "deserialize_counted_edge data =
     (if length data \<noteq> Q4_COUNTED_SIZE then Inl ValueError
      else
        rbind (validate_q4_role (unpack_uint (field data 0 1))) (\<lambda>_.
        rbind (deserialize_account_id (field data 1 48)) (\<lambda>v2.
        rbind (deserialize_account_id (field data 49 48)) (\<lambda>v3.
        Inr \<lparr>q4c_role = unpack_uint (field data 0 1), q4c_intermediate = v2, q4c_endpoint = v3, q4c_count = unpack_uint (field data 97 8)\<rparr>))))"

definition counted_edge_ok :: "q4_counted_edge \<Rightarrow> bool" where
  "counted_edge_ok r \<longleftrightarrow> account_id_ok (q4c_intermediate r) \<and> account_id_ok (q4c_endpoint r)"

interpretation counted_codec: fixed_codec Q4_COUNTED_SIZE serialize_counted_edge deserialize_counted_edge counted_edge_ok
proof
  show "0 < Q4_COUNTED_SIZE" by (simp add: Q4_COUNTED_SIZE_def)
  show size: "length b = Q4_COUNTED_SIZE" if "serialize_counted_edge r = Inr b" for r b
    using that by (auto simp: serialize_counted_edge_def Q4_COUNTED_SIZE_def field_sizes Q4_ACCOUNT_SIZE_def dest!: codec_lengths account_codec.enc_width)
  show "deserialize_counted_edge b = Inr r" if enc: "serialize_counted_edge r = Inr b" and ok: "counted_edge_ok r" for r b
  proof -
    from enc obtain b1 b2 b3 b4 where parts: "pack_uint 1 (q4c_role r) = Inr b1" "serialize_account_id (q4c_intermediate r) = Inr b2" "serialize_account_id (q4c_endpoint r) = Inr b3" "pack_uint 8 (q4c_count r) = Inr b4"
      and b: "b = b1 @ b2 @ b3 @ b4" and valid: "validate_q4_role (q4c_role r) = Inr ()"
      by (auto simp: serialize_counted_edge_def)
    have lens: "length b1 = 1" "length b2 = 48" "length b3 = 48" "length b4 = 8"
      using parts by (auto simp: field_sizes Q4_ACCOUNT_SIZE_def dest: codec_lengths account_codec.enc_width)
    show ?thesis
      using size [OF enc] parts ok valid
      by (simp add: deserialize_counted_edge_def b lens field_reads counted_edge_ok_def decode_encode_fixed uint_roundtrip account_codec.dec_enc)
  qed
qed

record q4_block_join_edge =
  q4b_role :: int
  q4b_intermediate :: q4_account_id
  q4b_endpoint :: q4_account_id
  q4b_a_bucket :: int
  q4b_b_bucket :: int
  q4b_count :: int

definition Q4_BLOCK_SIZE :: nat where "Q4_BLOCK_SIZE = 113"

definition serialize_block_edge :: "q4_block_join_edge \<Rightarrow> bytes res" where
  "serialize_block_edge r =
     rbind (validate_q4_role (q4b_role r)) (\<lambda>_.
     rbind (serialize_account_id (q4b_intermediate r)) (\<lambda>b2.
     rbind (serialize_account_id (q4b_endpoint r)) (\<lambda>b3.
     rbind (pack_uint 1 (q4b_role r)) (\<lambda>b1.
     rbind (pack_uint 4 (q4b_a_bucket r)) (\<lambda>b4.
     rbind (pack_uint 4 (q4b_b_bucket r)) (\<lambda>b5.
     rbind (pack_uint 8 (q4b_count r)) (\<lambda>b6.
     Inr (b1 @ b2 @ b3 @ b4 @ b5 @ b6))))))))"

definition deserialize_block_edge :: "bytes \<Rightarrow> q4_block_join_edge res" where
  "deserialize_block_edge data =
     (if length data \<noteq> Q4_BLOCK_SIZE then Inl ValueError
      else
        rbind (validate_q4_role (unpack_uint (field data 0 1))) (\<lambda>_.
        rbind (deserialize_account_id (field data 1 48)) (\<lambda>v2.
        rbind (deserialize_account_id (field data 49 48)) (\<lambda>v3.
        Inr \<lparr>q4b_role = unpack_uint (field data 0 1), q4b_intermediate = v2, q4b_endpoint = v3, q4b_a_bucket = unpack_uint (field data 97 4), q4b_b_bucket = unpack_uint (field data 101 4), q4b_count = unpack_uint (field data 105 8)\<rparr>))))"

definition block_edge_ok :: "q4_block_join_edge \<Rightarrow> bool" where
  "block_edge_ok r \<longleftrightarrow> account_id_ok (q4b_intermediate r) \<and> account_id_ok (q4b_endpoint r)"

interpretation block_codec: fixed_codec Q4_BLOCK_SIZE serialize_block_edge deserialize_block_edge block_edge_ok
proof
  show "0 < Q4_BLOCK_SIZE" by (simp add: Q4_BLOCK_SIZE_def)
  show size: "length b = Q4_BLOCK_SIZE" if "serialize_block_edge r = Inr b" for r b
    using that by (auto simp: serialize_block_edge_def Q4_BLOCK_SIZE_def field_sizes Q4_ACCOUNT_SIZE_def dest!: codec_lengths account_codec.enc_width)
  show "deserialize_block_edge b = Inr r" if enc: "serialize_block_edge r = Inr b" and ok: "block_edge_ok r" for r b
  proof -
    from enc obtain b1 b2 b3 b4 b5 b6 where parts: "pack_uint 1 (q4b_role r) = Inr b1" "serialize_account_id (q4b_intermediate r) = Inr b2" "serialize_account_id (q4b_endpoint r) = Inr b3" "pack_uint 4 (q4b_a_bucket r) = Inr b4" "pack_uint 4 (q4b_b_bucket r) = Inr b5" "pack_uint 8 (q4b_count r) = Inr b6"
      and b: "b = b1 @ b2 @ b3 @ b4 @ b5 @ b6" and valid: "validate_q4_role (q4b_role r) = Inr ()"
      by (auto simp: serialize_block_edge_def)
    have lens: "length b1 = 1" "length b2 = 48" "length b3 = 48" "length b4 = 4" "length b5 = 4" "length b6 = 8"
      using parts by (auto simp: field_sizes Q4_ACCOUNT_SIZE_def dest: codec_lengths account_codec.enc_width)
    show ?thesis
      using size [OF enc] parts ok valid
      by (simp add: deserialize_block_edge_def b lens field_reads block_edge_ok_def decode_encode_fixed uint_roundtrip account_codec.dec_enc)
  qed
qed

record q4_pair_paths =
  q4p_source :: q4_account_id
  q4p_target :: q4_account_id
  q4p_path_count :: int

definition Q4_PAIR_SIZE :: nat where "Q4_PAIR_SIZE = 104"

definition serialize_pair_paths :: "q4_pair_paths \<Rightarrow> bytes res" where
  "serialize_pair_paths r =
     rbind (serialize_account_id (q4p_source r)) (\<lambda>b1.
     rbind (serialize_account_id (q4p_target r)) (\<lambda>b2.
     rbind (pack_uint 8 (min (q4p_path_count r) Q4_QUALIFY_THRESHOLD)) (\<lambda>b3.
     Inr (b1 @ b2 @ b3))))"

definition deserialize_pair_paths :: "bytes \<Rightarrow> q4_pair_paths res" where
  "deserialize_pair_paths data =
     (if length data \<noteq> Q4_PAIR_SIZE then Inl ValueError
      else
        rbind (deserialize_account_id (field data 0 48)) (\<lambda>v1.
        rbind (deserialize_account_id (field data 48 48)) (\<lambda>v2.
        Inr \<lparr>q4p_source = v1, q4p_target = v2, q4p_path_count = unpack_uint (field data 96 8)\<rparr>)))"

definition pair_paths_ok :: "q4_pair_paths \<Rightarrow> bool" where
  "pair_paths_ok r \<longleftrightarrow> account_id_ok (q4p_source r) \<and> account_id_ok (q4p_target r) \<and> q4p_path_count r \<le> Q4_QUALIFY_THRESHOLD"

interpretation pair_codec: fixed_codec Q4_PAIR_SIZE serialize_pair_paths deserialize_pair_paths pair_paths_ok
proof
  show "0 < Q4_PAIR_SIZE" by (simp add: Q4_PAIR_SIZE_def)
  show size: "length b = Q4_PAIR_SIZE" if "serialize_pair_paths r = Inr b" for r b
    using that by (auto simp: serialize_pair_paths_def Q4_PAIR_SIZE_def field_sizes Q4_ACCOUNT_SIZE_def dest!: codec_lengths account_codec.enc_width)
  show "deserialize_pair_paths b = Inr r" if enc: "serialize_pair_paths r = Inr b" and ok: "pair_paths_ok r" for r b
  proof -
    from enc obtain b1 b2 b3 where parts: "serialize_account_id (q4p_source r) = Inr b1" "serialize_account_id (q4p_target r) = Inr b2" "pack_uint 8 (min (q4p_path_count r) Q4_QUALIFY_THRESHOLD) = Inr b3"
      and b: "b = b1 @ b2 @ b3"
      by (auto simp: serialize_pair_paths_def)
    have lens: "length b1 = 48" "length b2 = 48" "length b3 = 8"
      using parts by (auto simp: field_sizes Q4_ACCOUNT_SIZE_def dest: codec_lengths account_codec.enc_width)
    show ?thesis
      using size [OF enc] parts ok
      by (simp add: deserialize_pair_paths_def b lens field_reads pair_paths_ok_def decode_encode_fixed uint_roundtrip account_codec.dec_enc min_def)
  qed
qed

subsection \<open>Batches of the scatter-gather records\<close>

text \<open>\<open>serialize_batch\<close> joins the records; \<open>_deserialize_batch\<close> refuses a length that is no multiple of the width.\<close>

definition serialize_relations :: "scatter_gather_relation list \<Rightarrow> bytes res" where
  "serialize_relations = encode_batch serialize_relation"

definition deserialize_relations :: "bytes \<Rightarrow> scatter_gather_relation list res" where
  "deserialize_relations = decode_whole_batch SG_RELATION_SIZE deserialize_relation"

definition serialize_account_ids :: "q4_account_id list \<Rightarrow> bytes res" where
  "serialize_account_ids = encode_batch serialize_account_id"

definition deserialize_account_ids :: "bytes \<Rightarrow> q4_account_id list res" where
  "deserialize_account_ids = decode_whole_batch Q4_ACCOUNT_SIZE deserialize_account_id"

definition serialize_edges :: "q4_transaction_edge list \<Rightarrow> bytes res" where
  "serialize_edges = encode_batch serialize_edge"

definition deserialize_edges :: "bytes \<Rightarrow> q4_transaction_edge list res" where
  "deserialize_edges = decode_whole_batch Q4_EDGE_SIZE deserialize_edge"

definition serialize_counted_edges :: "q4_counted_edge list \<Rightarrow> bytes res" where
  "serialize_counted_edges = encode_batch serialize_counted_edge"

definition deserialize_counted_edges :: "bytes \<Rightarrow> q4_counted_edge list res" where
  "deserialize_counted_edges = decode_whole_batch Q4_COUNTED_SIZE deserialize_counted_edge"

definition serialize_block_edges :: "q4_block_join_edge list \<Rightarrow> bytes res" where
  "serialize_block_edges = encode_batch serialize_block_edge"

definition deserialize_block_edges :: "bytes \<Rightarrow> q4_block_join_edge list res" where
  "deserialize_block_edges = decode_whole_batch Q4_BLOCK_SIZE deserialize_block_edge"

definition serialize_pair_paths_batch :: "q4_pair_paths list \<Rightarrow> bytes res" where
  "serialize_pair_paths_batch = encode_batch serialize_pair_paths"

definition deserialize_pair_paths_batch :: "bytes \<Rightarrow> q4_pair_paths list res" where
  "deserialize_pair_paths_batch = decode_whole_batch Q4_PAIR_SIZE deserialize_pair_paths"

datatype partial_serializer = Q2BankMaxPartialSerializer | Q3PaymentFormatPartialSerializer

definition partial_serializer_for :: "pystr \<Rightarrow> partial_serializer res" where
  "partial_serializer_for configuration =
     (if configuration = lit ''Q2'' then Inr Q2BankMaxPartialSerializer
      else if configuration = lit ''Q3'' then Inr Q3PaymentFormatPartialSerializer
      else Inl ValueError)"

subsection \<open>Properties\<close>

interpretation tx_strict: strict_codec TX_SIZE serialize_transaction deserialize_transaction transaction_ok StructError
  by unfold_locales (simp add: deserialize_transaction_def)

lemma encode_fixed_ascii:
  "ascii s \<Longrightarrow> length s \<le> n \<Longrightarrow> encode_fixed n s = Inr (map byte_of s @ replicate (n - length s) 0)"
  by (simp add: encode_fixed_def utf8_encode_ascii)

text \<open>
  C33: A batch of transactions whose texts fit their fields and do not end in NUL is 195 bytes per
  transaction, \<open>deserialize_batch\<close> gives the same transactions back, amounts bit for bit, and the
  batch cut anywhere inside a record raises instead of returning a shorter batch.
\<close>

theorem transaction_batch_roundtrip:
  assumes "serialize_transactions txs = Inr data" and "list_all transaction_ok txs"
  shows "length data = TX_SIZE * length txs \<and> deserialize_transactions data = Inr txs \<and>
    (\<forall>k. k < length data \<longrightarrow> k mod TX_SIZE \<noteq> 0 \<longrightarrow> deserialize_transactions (take k data) = Inl StructError)"
  using assms tx_codec.batch_length tx_codec.batch_roundtrip tx_strict.cut_batch_error
  by (simp add: serialize_transactions_def deserialize_transactions_def)

definition demo_tx :: transaction where
  "demo_tx = \<lparr>tx_date = lit ''2022/09/01 00:20'', tx_from_bank = lit ''10'', tx_from_account = lit ''8000EBD30'',
     tx_to_bank = lit ''10'', tx_to_account = lit ''8000EBD31'', tx_amount = 0x40ACD1D70A3D70A4,
     tx_currency = lit ''US Dollar'', tx_format = lit ''Wire'', tx_row_number = 7\<rparr>"

theorem transaction_batch_roundtrip_witness:
  "\<exists>data. serialize_transactions [demo_tx, demo_tx] = Inr data \<and> length data = 390 \<and>
     deserialize_transactions data = Inr [demo_tx, demo_tx] \<and>
     deserialize_transactions (take 200 data) = Inl StructError"
proof -
  have "\<exists>b. serialize_transaction demo_tx = Inr b"
    by (simp add: serialize_transaction_def demo_tx_def encode_fixed_ascii ascii_def lit_def field_sizes pack_uint_def)
  then obtain data where data: "serialize_transactions [demo_tx, demo_tx] = Inr data"
    by (auto simp: serialize_transactions_def encode_batch_def)
  have ok: "list_all transaction_ok [demo_tx, demo_tx]"
    by (simp add: transaction_ok_def demo_tx_def no_trailing_nul_def lit_def)
  show ?thesis using data transaction_batch_roundtrip [OF data ok] by (auto simp: TX_SIZE_def)
qed

text \<open>Path counts are capped when they are written; a reader sees the capped record.\<close>

definition cap_paths :: "q4_pair_paths \<Rightarrow> q4_pair_paths" where
  "cap_paths p = p\<lparr>q4p_path_count := min (q4p_path_count p) Q4_QUALIFY_THRESHOLD\<rparr>"

definition paths_of :: "q4_account_id \<times> q4_account_id \<Rightarrow> q4_pair_paths list \<Rightarrow> int" where
  "paths_of k ps = (\<Sum>p \<leftarrow> filter (\<lambda>p. (q4p_source p, q4p_target p) = k) ps. q4p_path_count p)"

lemma serialize_cap_paths: "serialize_pair_paths (cap_paths p) = serialize_pair_paths p"
  by (simp add: serialize_pair_paths_def cap_paths_def)

lemma serialized_paths_nonneg: "serialize_pair_paths p = Inr b \<Longrightarrow> 0 \<le> q4p_path_count p"
  by (auto simp: serialize_pair_paths_def pack_uint_def min_def Q4_QUALIFY_THRESHOLD_def split: if_splits)

lemma paths_of_nonneg: "\<forall>p \<in> set ps. 0 \<le> q4p_path_count p \<Longrightarrow> 0 \<le> paths_of k ps"
  by (induction ps) (auto simp: paths_of_def)

lemma capped_paths_qualify:
  assumes "\<forall>p \<in> set ps. 0 \<le> q4p_path_count p"
  shows "Q4_QUALIFY_THRESHOLD \<le> paths_of k (map cap_paths ps) \<longleftrightarrow> Q4_QUALIFY_THRESHOLD \<le> paths_of k ps"
proof -
  have T: "0 \<le> Q4_QUALIFY_THRESHOLD" by (simp add: Q4_QUALIFY_THRESHOLD_def)
  have "paths_of k (map cap_paths ps) = paths_of k ps \<or>
      Q4_QUALIFY_THRESHOLD \<le> paths_of k (map cap_paths ps) \<and> Q4_QUALIFY_THRESHOLD \<le> paths_of k ps"
    using assms
  proof (induction ps)
    case (Cons p ps)
    have pos: "0 \<le> paths_of k ps" "0 \<le> paths_of k (map cap_paths ps)"
      using Cons.prems T by (auto intro!: paths_of_nonneg simp: cap_paths_def)
    have "0 \<le> q4p_path_count p" using Cons.prems by simp
    with pos T show ?case using Cons by (auto simp: paths_of_def cap_paths_def min_def)
  qed (simp add: paths_of_def)
  then show ?thesis by auto
qed

text \<open>
  \<open>Q4PairPathsSerializer\<close> writes \<open>min(path_count, 6)\<close>. Reading a batch back gives the same pairs with
  the capped counts, and capping loses nothing that matters: for every pair, the counts read back
  reach the qualification threshold exactly when the counts written did.
\<close>

lemma capped_counts_still_qualify:
  assumes "serialize_pair_paths_batch ps = Inr data"
    and "\<And>p. p \<in> set ps \<Longrightarrow> account_id_ok (q4p_source p) \<and> account_id_ok (q4p_target p)"
  shows "deserialize_pair_paths_batch data = Inr (map cap_paths ps) \<and>
    (\<forall>k. Q4_QUALIFY_THRESHOLD \<le> paths_of k (map cap_paths ps) \<longleftrightarrow> Q4_QUALIFY_THRESHOLD \<le> paths_of k ps)"
proof
  have "rmap serialize_pair_paths (map cap_paths ps) = rmap serialize_pair_paths ps"
    by (induction ps) (simp_all add: serialize_cap_paths)
  then have "encode_batch serialize_pair_paths (map cap_paths ps) = Inr data"
    using assms(1) by (simp add: serialize_pair_paths_batch_def encode_batch_def)
  moreover have "list_all pair_paths_ok (map cap_paths ps)"
    using assms(2) by (auto simp: list_all_iff pair_paths_ok_def cap_paths_def)
  ultimately show "deserialize_pair_paths_batch data = Inr (map cap_paths ps)"
    by (simp add: deserialize_pair_paths_batch_def pair_codec.whole_batch_roundtrip)
  have "rmap serialize_pair_paths qs = Inr bs \<Longrightarrow> p \<in> set qs \<Longrightarrow> 0 \<le> q4p_path_count p" for qs bs p
    by (induction qs arbitrary: bs) (auto dest: serialized_paths_nonneg)
  then have "\<forall>p \<in> set ps. 0 \<le> q4p_path_count p"
    using assms(1) by (auto simp: serialize_pair_paths_batch_def encode_batch_def)
  then show "\<forall>k. Q4_QUALIFY_THRESHOLD \<le> paths_of k (map cap_paths ps) \<longleftrightarrow> Q4_QUALIFY_THRESHOLD \<le> paths_of k ps"
    by (simp add: capped_paths_qualify)
qed

end
