(* ===== verification/Processors.thy ===== *)
theory Processors
  imports Aggregator Serializers
begin

text \<open>
  The reduction processors of the aggregator and the joiner (\<open>workers/aggregator/processors.py\<close>,
  \<open>workers/joiner/processors.py\<close>): the maximum per bank of query 2, the average per payment format of
  query 3 and the counts of query 5. The Q2 maximum is an instance of the locale \<open>best_of\<close>, which
  proves once that keeping the better entry per key can be split over shards.
\<close>

subsection \<open>Bank ids\<close>

text \<open>\<open>common/bank_ids.py\<close>; \<open>int\<close> refuses the digits that are no decimals, such as superscripts.\<close>

definition notebook_bank_id :: "pystr \<Rightarrow> pystr res" where
  "notebook_bank_id text =
     (let value = py_strip text in
      if value = [] then Inr []
      else if py_isdigit value then rbind (py_int value) (\<lambda>n. Inr (int_str n))
      else Inr value)"

subsection \<open>Q2: the maximum per bank\<close>

type_synonym q2_max = "(pystr \<times> q2_bank_max_partial) list"

definition is_better_q2_partial :: "q2_bank_max_partial \<Rightarrow> q2_bank_max_partial option \<Rightarrow> bool" where
  "is_better_q2_partial candidate current =
     (case current of
        None \<Rightarrow> True
      | Some c \<Rightarrow>
          if \<not> d_eq (q2p_amount candidate) (q2p_amount c) then d_lt (q2p_amount c) (q2p_amount candidate)
          else if q2p_row_number candidate \<noteq> 0 \<and> q2p_row_number c \<noteq> 0
          then q2p_row_number candidate < q2p_row_number c
          else False)"

definition q2_decode :: "bytes \<Rightarrow> q2_bank_max_partial res" where
  "q2_decode payload =
     rbind (deserialize_q2_partial payload) (\<lambda>partial.
     rbind (notebook_bank_id (q2p_bank_id partial)) (\<lambda>bank_id.
     Inr (if bank_id \<noteq> q2p_bank_id partial then partial\<lparr>q2p_bank_id := bank_id\<rparr> else partial)))"

definition q2_accept :: "bytes \<Rightarrow> (q2_max, unit) act" where
  "q2_accept payload m =
     (case q2_decode payload of
        Inl e \<Rightarrow> (Inl e, m)
      | Inr partial \<Rightarrow>
          (Inr (), if is_better_q2_partial partial (map_of m (q2p_bank_id partial))
                   then dset (q2p_bank_id partial) partial m else m))"

definition q2_results :: "q2_max \<Rightarrow> bytes list res" where
  "q2_results m = rmap serialize_q2_partial (map snd m)"

definition q2_processor :: "q2_max processor_ops" where
  "q2_processor = \<lparr>new_processor = Inr [], accept = q2_accept, results = q2_results\<rparr>"

definition q2_joiner_processor :: "q2_max processor_ops" where
  "q2_joiner_processor = \<lparr>new_processor = Inr [], accept = q2_accept, results = q2_results\<rparr>"

subsection \<open>Q3: the average per payment format\<close>

record q3_averages =
  amount_sum_by_format :: "(pystr \<times> double) list"
  count_by_format :: "(pystr \<times> int) list"

definition q3_accept :: "bytes \<Rightarrow> (q3_averages, unit) act" where
  "q3_accept payload s =
     (case deserialize_q3_partial payload of
        Inl e \<Rightarrow> (Inl e, s)
      | Inr partial \<Rightarrow>
          (let pf = q3p_payment_format partial in
           (Inr (), s\<lparr>amount_sum_by_format :=
                dset pf (d_add (dget (amount_sum_by_format s) pf 0) (q3p_amount_sum partial)) (amount_sum_by_format s),
              count_by_format := dset pf (dget (count_by_format s) pf 0 + q3p_count partial) (count_by_format s)\<rparr>)))"

definition q3_average :: "double \<Rightarrow> int \<Rightarrow> double res" where
  "q3_average amount_sum count = (if count \<noteq> 0 then d_div_int amount_sum count else Inr 0)"

definition q3_results :: "q3_averages \<Rightarrow> bytes list res" where
  "q3_results s =
     rmap (\<lambda>(pf, amount_sum).
       (case map_of (count_by_format s) pf of
          None \<Rightarrow> Inl KeyError
        | Some count \<Rightarrow>
            rbind (q3_average amount_sum count) (\<lambda>average.
            serialize_q3_result \<lparr>q3r_payment_format = pf, q3r_average = average\<rparr>)))
       (amount_sum_by_format s)"

definition q3_processor :: "q3_averages processor_ops" where
  "q3_processor =
     \<lparr>new_processor = Inr \<lparr>amount_sum_by_format = [], count_by_format = []\<rparr>, accept = q3_accept, results = q3_results\<rparr>"

definition q3_joiner_processor :: "bytes list processor_ops" where
  "q3_joiner_processor =
     \<lparr>new_processor = Inr [], accept = (\<lambda>payload ps. (Inr (), ps @ [payload])), results = (\<lambda>ps. Inr ps)\<rparr>"

subsection \<open>Q5: counts\<close>

definition q5_joiner_processor :: "int processor_ops" where
  "q5_joiner_processor =
     \<lparr>new_processor = Inr 0,
      accept = (\<lambda>payload total. (case deserialize_count payload of Inl e \<Rightarrow> (Inl e, total) | Inr n \<Rightarrow> (Inr (), total + n))),
      results = (\<lambda>total. rbind (serialize_count total) (\<lambda>b. Inr [b]))\<rparr>"

subsection \<open>The factories\<close>

text \<open>The processor a worker holds is one of the three classes; its methods are those of its class.\<close>

datatype aggregator_processor = AggQ2 q2_max | AggQ3 q3_averages | AggQ5 int

datatype joiner_processor = JoQ2 q2_max | JoQ3 "bytes list" | JoQ5 int

definition wrap_processor :: "('p \<Rightarrow> 'q) \<Rightarrow> 'a res \<times> 'p \<Rightarrow> 'a res \<times> 'q" where
  "wrap_processor f rp = (fst rp, f (snd rp))"

definition rmap_res :: "('a \<Rightarrow> 'b) \<Rightarrow> 'a res \<Rightarrow> 'b res" where
  "rmap_res f r = rbind r (\<lambda>x. Inr (f x))"

definition create_aggregator_processor :: "pystr \<Rightarrow> aggregator_processor res" where
  "create_aggregator_processor configuration =
     (if configuration = lit ''Q2'' then rmap_res AggQ2 (new_processor q2_processor)
      else if configuration = lit ''Q3'' then rmap_res AggQ3 (new_processor q3_processor)
      else if configuration = lit ''Q5'' then rmap_res AggQ5 (new_processor q5_processor)
      else Inl ValueError)"

definition create_joiner_processor :: "pystr \<Rightarrow> joiner_processor res" where
  "create_joiner_processor configuration =
     (if configuration = lit ''Q2'' then rmap_res JoQ2 (new_processor q2_joiner_processor)
      else if configuration = lit ''Q3'' then rmap_res JoQ3 (new_processor q3_joiner_processor)
      else if configuration = lit ''Q5'' then rmap_res JoQ5 (new_processor q5_joiner_processor)
      else Inl ValueError)"

definition aggregator_processor_ops :: "pystr \<Rightarrow> aggregator_processor processor_ops" where
  "aggregator_processor_ops configuration =
     \<lparr>new_processor = create_aggregator_processor configuration,
      accept = (\<lambda>b p. case p of
          AggQ2 m \<Rightarrow> wrap_processor AggQ2 (accept q2_processor b m)
        | AggQ3 a \<Rightarrow> wrap_processor AggQ3 (accept q3_processor b a)
        | AggQ5 n \<Rightarrow> wrap_processor AggQ5 (accept q5_processor b n)),
      results = (\<lambda>p. case p of
          AggQ2 m \<Rightarrow> results q2_processor m | AggQ3 a \<Rightarrow> results q3_processor a | AggQ5 n \<Rightarrow> results q5_processor n)\<rparr>"

definition joiner_processor_ops :: "pystr \<Rightarrow> joiner_processor processor_ops" where
  "joiner_processor_ops configuration =
     \<lparr>new_processor = create_joiner_processor configuration,
      accept = (\<lambda>b p. case p of
          JoQ2 m \<Rightarrow> wrap_processor JoQ2 (accept q2_joiner_processor b m)
        | JoQ3 ps \<Rightarrow> wrap_processor JoQ3 (accept q3_joiner_processor b ps)
        | JoQ5 n \<Rightarrow> wrap_processor JoQ5 (accept q5_joiner_processor b n)),
      results = (\<lambda>p. case p of
          JoQ2 m \<Rightarrow> results q2_joiner_processor m | JoQ3 ps \<Rightarrow> results q3_joiner_processor ps
        | JoQ5 n \<Rightarrow> results q5_joiner_processor n)\<rparr>"

subsection \<open>Keeping the better entry per key\<close>

definition keep_best :: "('a \<Rightarrow> 'k) \<Rightarrow> ('a \<Rightarrow> 'a \<Rightarrow> bool) \<Rightarrow> 'a \<Rightarrow> ('k \<times> 'a) list \<Rightarrow> ('k \<times> 'a) list" where
  "keep_best key better x m =
     (case map_of m (key x) of
        None \<Rightarrow> dset (key x) x m
      | Some c \<Rightarrow> if better x c then dset (key x) x m else m)"

definition top_of :: "('a \<Rightarrow> 'k) \<Rightarrow> ('a \<Rightarrow> 'a \<Rightarrow> bool) \<Rightarrow> 'a set \<Rightarrow> 'k \<Rightarrow> 'a \<Rightarrow> bool" where
  "top_of key better X k p \<longleftrightarrow> p \<in> X \<and> key p = k \<and> (\<forall>q \<in> X. key q = k \<longrightarrow> \<not> better q p)"

definition holds_best :: "('a \<Rightarrow> 'k) \<Rightarrow> ('a \<Rightarrow> 'a \<Rightarrow> bool) \<Rightarrow> 'a set \<Rightarrow> ('k \<times> 'a) list \<Rightarrow> bool" where
  "holds_best key better X m \<longleftrightarrow> dict_wf m \<and>
     (\<forall>k. case map_of m k of None \<Rightarrow> \<forall>p \<in> X. key p \<noteq> k | Some p \<Rightarrow> top_of key better X k p)"

lemma holds_best_None: "holds_best key better X m \<Longrightarrow> map_of m k = None \<Longrightarrow> p \<in> X \<Longrightarrow> key p \<noteq> k"
  unfolding holds_best_def by (drule conjunct2, drule spec [of _ k]) simp

lemma holds_best_Some: "holds_best key better X m \<Longrightarrow> map_of m k = Some p \<Longrightarrow> top_of key better X k p"
  unfolding holds_best_def by (drule conjunct2, drule spec [of _ k]) simp

lemma holds_bestI:
  "dict_wf m \<Longrightarrow> (\<And>k p. map_of m k = None \<Longrightarrow> p \<in> X \<Longrightarrow> key p \<noteq> k) \<Longrightarrow>
   (\<And>k p. map_of m k = Some p \<Longrightarrow> top_of key better X k p) \<Longrightarrow> holds_best key better X m"
  by (auto simp: holds_best_def split: option.split)

locale best_of =
  fixes key :: "'a \<Rightarrow> 'k"
    and better :: "'a \<Rightarrow> 'a \<Rightarrow> bool"
    and ok :: "'a \<Rightarrow> bool"
  assumes irrefl: "ok x \<Longrightarrow> \<not> better x x"
    and trans: "ok x \<Longrightarrow> ok y \<Longrightarrow> ok z \<Longrightarrow> better x y \<Longrightarrow> better y z \<Longrightarrow> better x z"
    and neg_trans: "ok x \<Longrightarrow> ok y \<Longrightarrow> ok z \<Longrightarrow> \<not> better x y \<Longrightarrow> \<not> better y z \<Longrightarrow> \<not> better x z"
begin

lemma keep_best_holds:
  assumes holds: "holds_best key better X m" and ok: "ok x" "\<And>y. y \<in> X \<Longrightarrow> ok y"
  shows "holds_best key better (insert x X) (keep_best key better x m)"
proof (cases "map_of m (key x)")
  case None
  then have new: "keep_best key better x m = dset (key x) x m" by (simp add: keep_best_def)
  have fresh: "\<And>p. p \<in> X \<Longrightarrow> key p \<noteq> key x" using holds_best_None [OF holds None] .
  show ?thesis unfolding new
    using holds fresh irrefl [OF ok(1)]
    by (intro holds_bestI)
      (auto simp: holds_best_def top_of_def split: if_splits dest: holds_best_None [OF holds] holds_best_Some [OF holds])
next
  case (Some c)
  then have c: "top_of key better X (key x) c" by (rule holds_best_Some [OF holds])
  then have okc: "ok c" using ok by (simp add: top_of_def)
  show ?thesis
  proof (cases "better x c")
    case True
    then have new: "keep_best key better x m = dset (key x) x m" using Some by (simp add: keep_best_def)
    have "\<not> better q x" if "q \<in> X" "key q = key x" for q
      using that c True ok okc trans [of q x c] by (auto simp: top_of_def)
    then show ?thesis unfolding new
      using holds irrefl [OF ok(1)]
      by (intro holds_bestI)
        (auto simp: holds_best_def top_of_def split: if_splits dest: holds_best_None [OF holds] holds_best_Some [OF holds])
  next
    case False
    then have new: "keep_best key better x m = m" using Some by (simp add: keep_best_def)
    show ?thesis unfolding new
      using holds False Some
      by (intro holds_bestI)
        (auto simp: holds_best_def top_of_def dest: holds_best_None [OF holds] holds_best_Some [OF holds])
  qed
qed

lemma fold_keep_best:
  assumes "\<And>x. x \<in> set xs \<Longrightarrow> ok x"
  shows "holds_best key better (set xs) (fold (keep_best key better) xs [])"
  using assms
proof (induction xs rule: rev_induct)
  case (snoc x xs)
  then show ?case using keep_best_holds [of "set xs" "fold (keep_best key better) xs []" x] by simp
qed (simp add: holds_best_def)

text \<open>The best of the bests of the shards is the best of all.\<close>

lemma best_of_shards:
  assumes shards: "\<And>i. i \<in> I \<Longrightarrow> holds_best key better (X i) (ms i)"
    and joined: "holds_best key better (\<Union>i \<in> I. snd ` set (ms i)) m'"
    and ok: "\<And>i x. i \<in> I \<Longrightarrow> x \<in> X i \<Longrightarrow> ok x"
  shows "holds_best key better (\<Union>i \<in> I. X i) m'"
proof -
  let ?B = "\<Union>i \<in> I. snd ` set (ms i)"
  have entry: "\<exists>k. top_of key better (X i) k x" if "i \<in> I" "x \<in> snd ` set (ms i)" for i x
  proof -
    from that(2) obtain k where "(k, x) \<in> set (ms i)" by auto
    then have "map_of (ms i) k = Some x"
      using shards [OF that(1)] by (intro map_of_is_SomeI) (auto simp: holds_best_def dict_wf_def)
    then show ?thesis using holds_best_Some [OF shards [OF that(1)]] by blast
  qed
  have dominated: "\<exists>b \<in> ?B. key b = key x \<and> \<not> better x b \<and> ok b" if "i \<in> I" "x \<in> X i" for i x
  proof -
    have "map_of (ms i) (key x) \<noteq> None" using holds_best_None [OF shards [OF that(1)] _ that(2)] by auto
    then obtain b where b: "map_of (ms i) (key x) = Some b" by auto
    then have "top_of key better (X i) (key x) b" by (rule holds_best_Some [OF shards [OF that(1)]])
    moreover have "b \<in> ?B" using that(1) map_of_SomeD [OF b] by force
    ultimately show ?thesis using that ok by (intro bexI [of _ b]) (auto simp: top_of_def)
  qed
  show ?thesis
  proof (rule holds_bestI)
    show "dict_wf m'" using joined by (simp add: holds_best_def)
  next
    fix k p assume "map_of m' k = None" "p \<in> (\<Union>i \<in> I. X i)"
    then show "key p \<noteq> k" using dominated holds_best_None [OF joined] by (metis UN_E)
  next
    fix k p assume "map_of m' k = Some p"
    then have top: "top_of key better ?B k p" by (rule holds_best_Some [OF joined])
    then obtain i where i: "i \<in> I" "p \<in> X i" using entry by (auto simp: top_of_def)
    have "\<not> better q p" if q: "q \<in> X j" "j \<in> I" "key q = k" for q j
    proof -
      obtain b where "b \<in> ?B" "key b = k" "\<not> better q b" "ok b" using dominated [OF q(2,1)] q(3) by auto
      then show ?thesis using neg_trans [of q b p] top ok q i by (auto simp: top_of_def)
    qed
    then show "top_of key better (\<Union>i \<in> I. X i) k p" using top i by (auto simp: top_of_def)
  qed
qed

end

subsection \<open>The Q2 processors keep the best partial per bank\<close>

text \<open>Partials that can be compared: an amount that is a number, and a row number.\<close>

definition q2_comparable :: "q2_bank_max_partial \<Rightarrow> bool" where
  "q2_comparable p \<longleftrightarrow> \<not> is_nan (q2p_amount p) \<and> 0 < q2p_row_number p"

abbreviation q2_better :: "q2_bank_max_partial \<Rightarrow> q2_bank_max_partial \<Rightarrow> bool" where
  "q2_better p c \<equiv> is_better_q2_partial p (Some c)"

lemma q2_better_keys:
  "q2_comparable p \<Longrightarrow> q2_comparable c \<Longrightarrow> q2_better p c \<longleftrightarrow>
     d_key (q2p_amount c) < d_key (q2p_amount p) \<or>
     d_key (q2p_amount c) = d_key (q2p_amount p) \<and> q2p_row_number p < q2p_row_number c"
  by (auto simp: is_better_q2_partial_def q2_comparable_def d_eq_def d_lt_def)

interpretation q2_best: best_of q2p_bank_id q2_better q2_comparable
  by unfold_locales (auto simp: q2_better_keys)

lemma py_strip_Nil [simp]: "py_strip [] = []"
  by (simp add: py_strip_def)

lemma py_strip_ends:
  assumes "py_strip s \<noteq> []"
  shows "\<not> is_space (hd (py_strip s))" and "\<not> is_space (last (py_strip s))"
proof -
  let ?t = "dropWhile is_space s"
  let ?r = "dropWhile is_space (rev ?t)"
  have r: "?r \<noteq> []" using assms by (simp add: py_strip_def)
  then show "\<not> is_space (last (py_strip s))" using hd_dropWhile [OF r] by (simp add: py_strip_def last_rev)
  obtain u where u: "rev ?t = u @ ?r" by (metis takeWhile_dropWhile_id)
  then have t: "?t = rev ?r @ rev u" by (metis rev_append rev_rev_ident)
  then have "hd ?t = hd (rev ?r)" using r by (metis hd_append2 rev_is_Nil_conv)
  moreover have "?t \<noteq> []" using r by (metis dropWhile.simps(1) rev.simps(1))
  ultimately show "\<not> is_space (hd (py_strip s))" using hd_dropWhile [of is_space s] by (simp add: py_strip_def)
qed

lemma py_strip_idem [simp]: "py_strip (py_strip s) = py_strip s"
  by (cases "py_strip s = []") (simp_all add: py_strip_id py_strip_ends)

lemma py_strip_int_str [simp]: "py_strip (int_str n) = int_str n"
proof (rule py_strip_id)
  have space: "\<not> is_space c" if "c \<in> set (int_str n)" for c
    using int_str_chars [OF that] by (auto simp: is_digit_def is_space_def)
  show "int_str n \<noteq> []" by (simp add: int_str_def)
  then show "\<not> is_space (hd (int_str n))" "\<not> is_space (last (int_str n))" using space by simp_all
qed

lemma notebook_int_str [simp]: "notebook_bank_id (int_str n) = Inr (int_str n)"
  by (simp add: notebook_bank_id_def Let_def)

lemma notebook_bank_id_canonical: "notebook_bank_id s = Inr b \<Longrightarrow> notebook_bank_id b = Inr b"
  by (auto simp: notebook_bank_id_def Let_def split: if_splits)

lemma q2_decode_canonical: "q2_decode b = Inr p \<Longrightarrow> notebook_bank_id (q2p_bank_id p) = Inr (q2p_bank_id p)"
  by (auto simp: q2_decode_def split: if_splits dest: notebook_bank_id_canonical)

lemma q2_decode_serialized:
  "serialize_q2_partial p = Inr b \<Longrightarrow> q2_partial_ok p \<Longrightarrow> notebook_bank_id (q2p_bank_id p) = Inr (q2p_bank_id p) \<Longrightarrow>
   q2_decode b = Inr p"
  by (simp add: q2_decode_def q2_partial_codec.dec_enc)

lemma q2_accept_keeps: "q2_decode b = Inr p \<Longrightarrow> q2_accept b m = (Inr (), keep_best q2p_bank_id q2_better p m)"
  by (simp add: q2_accept_def keep_best_def is_better_q2_partial_def split: option.split)

lemma q2_accept_all:
  "rmap q2_decode bs = Inr ps \<Longrightarrow>
   accept_all q2_processor bs m = Inr (fold (keep_best q2p_bank_id q2_better) ps m)"
  by (induction bs arbitrary: ps m) (auto simp: q2_processor_def q2_accept_keeps)

subsection \<open>Properties\<close>

lemma rmap_set: "rmap f xs = Inr ys \<Longrightarrow> set ys = {y. \<exists>x \<in> set xs. f x = Inr y}"
  by (induction xs arbitrary: ys) auto

lemma rmap_total: "(\<And>x. x \<in> set xs \<Longrightarrow> \<exists>y. f x = Inr y) \<Longrightarrow> \<exists>ys. rmap f xs = Inr ys"
  by (induction xs) fastforce+

lemma rmap_defined: "rmap f xs = Inr ys \<Longrightarrow> x \<in> set xs \<Longrightarrow> \<exists>y. f x = Inr y"
  by (induction xs arbitrary: ys) auto

text \<open>What one aggregator shard sends on for the payloads it received, and the partials in payloads.\<close>

definition q2_shard :: "bytes list \<Rightarrow> bytes list res" where
  "q2_shard payloads = rbind (accept_all q2_processor payloads []) q2_results"

definition q2_decoded :: "bytes list \<Rightarrow> q2_bank_max_partial set" where
  "q2_decoded payloads = {p. \<exists>b \<in> set payloads. q2_decode b = Inr p}"

lemma q2_accept_best:
  assumes "\<And>b. b \<in> set bs \<Longrightarrow> \<exists>p. q2_decode b = Inr p \<and> q2_comparable p"
  obtains m where "accept_all q2_processor bs [] = Inr m" and "holds_best q2p_bank_id q2_better (q2_decoded bs) m"
proof -
  obtain ps where ps: "rmap q2_decode bs = Inr ps" using rmap_total assms by metis
  then have set: "set ps = q2_decoded bs" unfolding q2_decoded_def by (rule rmap_set)
  have "q2_comparable p" if "p \<in> set ps" for p using that assms by (fastforce simp: set q2_decoded_def)
  then show thesis using that q2_accept_all [OF ps, of "[]"] q2_best.fold_keep_best [of ps] set by metis
qed

lemma holds_best_entries: "holds_best key better X m \<Longrightarrow> snd ` set m \<subseteq> X"
proof
  fix x assume holds: "holds_best key better X m" and "x \<in> snd ` set m"
  then obtain k where "map_of m k = Some x" by (auto simp: holds_best_def dict_wf_def)
  then show "x \<in> X" using holds_best_Some [OF holds] by (simp add: top_of_def)
qed

text \<open>The partials read from a shard's results are the entries of its dictionary.\<close>

lemma q2_shard_results:
  assumes ok: "\<And>b. b \<in> set bs \<Longrightarrow> \<exists>p. q2_decode b = Inr p \<and> q2_comparable p \<and> q2_partial_ok p"
    and out: "q2_shard bs = Inr out"
  obtains m where "holds_best q2p_bank_id q2_better (q2_decoded bs) m" and "rmap q2_decode out = Inr (map snd m)"
proof -
  obtain m where m: "accept_all q2_processor bs [] = Inr m" "holds_best q2p_bank_id q2_better (q2_decoded bs) m"
    using q2_accept_best ok by metis
  have again: "q2_decode c = Inr p" if p: "p \<in> set (map snd m)" "serialize_q2_partial p = Inr c" for p c
  proof -
    have "p \<in> q2_decoded bs" using p(1) holds_best_entries [OF m(2)] by auto
    then obtain b where b: "b \<in> set bs" "q2_decode b = Inr p" by (auto simp: q2_decoded_def)
    then have "q2_partial_ok p" using ok [OF b(1)] by simp
    then show ?thesis by (rule q2_decode_serialized [OF p(2) _ q2_decode_canonical [OF b(2)]])
  qed
  have "rmap serialize_q2_partial (map snd m) = Inr out" using out m(1) by (simp add: q2_shard_def q2_results_def)
  then have "rmap q2_decode out = Inr (map snd m)" by (rule rmap_roundtrip [rotated]) (rule again)
  with m that show thesis by blast
qed

text \<open>
  C34: query 2 over any number of aggregator shards, for partials whose row numbers are positive and
  whose amounts are not NaN (a row number of 0, which the code treats as unknown, and a NaN do not
  compare transitively). However these partials are distributed over the shards and in whatever order
  they arrive, repeated or not, and in whatever order the joiner takes the shards' results, the joiner ends with exactly one partial for every bank that occurs, and no
  partial of that bank is better: its amount is the largest and, among equal amounts, its row number
  the smallest.
\<close>

theorem q2_sharded_maximum:
  assumes ok: "\<And>b. b \<in> set (concat shards) \<Longrightarrow> \<exists>p. q2_decode b = Inr p \<and> q2_comparable p \<and> q2_partial_ok p"
    and outs: "rmap q2_shard shards = Inr outss"
    and joined: "set joined = set (concat outss)"
  shows "\<exists>m. accept_all q2_joiner_processor joined [] = Inr m \<and>
    holds_best q2p_bank_id q2_better (q2_decoded (concat shards)) m"
proof -
  have "\<exists>m. holds_best q2p_bank_id q2_better (q2_decoded s) m \<and>
      (\<forall>out. q2_shard s = Inr out \<longrightarrow> rmap q2_decode out = Inr (map snd m))" if s: "s \<in> set shards" for s
  proof -
    obtain out where out: "q2_shard s = Inr out" using rmap_defined [OF outs s] by blast
    have "\<And>b. b \<in> set s \<Longrightarrow> \<exists>p. q2_decode b = Inr p \<and> q2_comparable p \<and> q2_partial_ok p" using ok s by auto
    from q2_shard_results [OF this out] show ?thesis using out by auto
  qed
  then obtain M where M: "\<And>s. s \<in> set shards \<Longrightarrow> holds_best q2p_bank_id q2_better (q2_decoded s) (M s)"
      "\<And>s out. s \<in> set shards \<Longrightarrow> q2_shard s = Inr out \<Longrightarrow> rmap q2_decode out = Inr (map snd (M s))"
    by metis
  have from_shard: "\<exists>s \<in> set shards. \<exists>out. q2_shard s = Inr out \<and> c \<in> set out" if "c \<in> set joined" for c
    using that rmap_set [OF outs] by (auto simp: joined)
  have entries: "q2_decoded joined = (\<Union>s \<in> set shards. snd ` set (M s))"
  proof -
    have "q2_decoded out = snd ` set (M s)" if "s \<in> set shards" "q2_shard s = Inr out" for s out
      using rmap_set [OF M(2) [OF that]] by (simp add: q2_decoded_def)
    moreover have "q2_decoded joined = (\<Union>s \<in> set shards. \<Union>out \<in> {out. q2_shard s = Inr out}. q2_decoded out)"
      using rmap_set [OF outs] by (auto simp: q2_decoded_def joined)
    ultimately show ?thesis using rmap_defined [OF outs] by (simp add: UNION_eq) blast
  qed
  have comparable: "q2_comparable p" if "s \<in> set shards" "p \<in> q2_decoded s" for s p
    using that ok by (fastforce simp: q2_decoded_def)
  have "\<exists>p. q2_decode c = Inr p \<and> q2_comparable p" if c: "c \<in> set joined" for c
  proof -
    obtain s out where s: "s \<in> set shards" "q2_shard s = Inr out" "c \<in> set out" using from_shard [OF c] by blast
    obtain p where p: "q2_decode c = Inr p" using rmap_defined [OF M(2) [OF s(1,2)] s(3)] by blast
    then have "p \<in> snd ` set (M s)" using rmap_set [OF M(2) [OF s(1,2)]] s(3) by auto
    then show ?thesis using p comparable [OF s(1)] holds_best_entries [OF M(1) [OF s(1)]] by blast
  qed
  then obtain m where m: "accept_all q2_processor joined [] = Inr m" "holds_best q2p_bank_id q2_better (q2_decoded joined) m"
    using q2_accept_best by metis
  have "holds_best q2p_bank_id q2_better (\<Union>s \<in> set shards. q2_decoded s) m"
    using q2_best.best_of_shards [of "set shards" q2_decoded M m] M(1) m(2) comparable entries by simp
  moreover have "(\<Union>s \<in> set shards. q2_decoded s) = q2_decoded (concat shards)" by (auto simp: q2_decoded_def)
  ultimately show ?thesis using m(1) by (simp add: q2_joiner_processor_def q2_processor_def)
qed

definition demo_partial :: "double \<Rightarrow> int \<Rightarrow> q2_bank_max_partial" where
  "demo_partial amount row =
     \<lparr>q2p_bank_id = lit ''12'', q2p_from_account = lit ''A'', q2p_amount = amount, q2p_row_number = row\<rparr>"

lemma demo_partial_serialized:
  assumes "0 \<le> n" and "n < 256 ^ 8"
  shows "\<exists>b. serialize_q2_partial (demo_partial x n) = Inr b \<and> q2_decode b = Inr (demo_partial x n)"
proof -
  have "lit ''12'' = int_str 12" by (simp add: lit_def int_str_def nat_str.simps)
  then have canonical: "notebook_bank_id (lit ''12'') = Inr (lit ''12'')" by simp
  obtain b where "serialize_q2_partial (demo_partial x n) = Inr b"
    using assms by (auto simp: serialize_q2_partial_def demo_partial_def encode_fixed_ascii ascii_def lit_def field_sizes pack_uint_def)
  moreover from this have "q2_decode b = Inr (demo_partial x n)"
    using canonical by (intro q2_decode_serialized) (auto simp: q2_partial_ok_def demo_partial_def no_trailing_nul_def lit_def)
  ultimately show ?thesis by blast
qed

lemma q2_shard_one:
  "serialize_q2_partial p = Inr b \<Longrightarrow> q2_decode b = Inr p \<Longrightarrow> q2_shard [b] = Inr [b]"
  using q2_accept_all [of "[b]" "[p]" "[]"] by (simp add: q2_shard_def q2_results_def keep_best_def)

theorem q2_sharded_maximum_witness:
  "\<exists>b1 b2 m. q2_shard [b1] = Inr [b1] \<and> q2_shard [b2] = Inr [b2] \<and>
     accept_all q2_joiner_processor [b2, b1] [] = Inr m \<and>
     map_of m (lit ''12'') = Some (demo_partial 0x4008000000000000 5)"
proof -
  let ?p = "demo_partial 0x4000000000000000 3" and ?q = "demo_partial 0x4008000000000000 5"
  obtain b1 b2 where b: "serialize_q2_partial ?p = Inr b1" "q2_decode b1 = Inr ?p"
      "serialize_q2_partial ?q = Inr b2" "q2_decode b2 = Inr ?q"
    using demo_partial_serialized [of 3] demo_partial_serialized [of 5] by fastforce
  note one = q2_shard_one [OF b(1,2)] q2_shard_one [OF b(3,4)]
  have comparable: "q2_comparable ?p" "q2_comparable ?q"
    by (simp_all add: q2_comparable_def demo_partial_def is_nan_def d_mag_def inf_key_def)
  have "q2_better ?q ?p" using comparable
    by (simp add: q2_better_keys) (simp add: demo_partial_def d_key_def d_sign_def d_mag_def)
  note fine = comparable this
  have ok: "q2_partial_ok ?p" "q2_partial_ok ?q"
    by (auto simp: q2_partial_ok_def demo_partial_def no_trailing_nul_def lit_def)
  have "\<exists>p. q2_decode b = Inr p \<and> q2_comparable p \<and> q2_partial_ok p" if "b \<in> set (concat [[b1], [b2]])" for b
    using that b fine ok by auto
  from q2_sharded_maximum [where shards = "[[b1], [b2]]" and outss = "[[b1], [b2]]" and joined = "[b2, b1]", OF this] obtain m where
    m: "accept_all q2_joiner_processor [b2, b1] [] = Inr m"
      "holds_best q2p_bank_id q2_better (q2_decoded (concat [[b1], [b2]])) m"
    using one by auto
  have dec: "q2_decoded (concat [[b1], [b2]]) = {?p, ?q}" using b by (auto simp: q2_decoded_def)
  have bank: "q2p_bank_id ?p = lit ''12''" "q2p_bank_id ?q = lit ''12''" by (simp_all add: demo_partial_def)
  obtain r where r: "map_of m (lit ''12'') = Some r"
    using holds_best_None [OF m(2), of "lit ''12''" ?q] bank dec by fastforce
  have "r = ?q" using holds_best_Some [OF m(2) r] dec bank fine(3) by (auto simp: top_of_def)
  with m(1) r one show ?thesis by blast
qed

subsection \<open>Q3 groups by payment format\<close>

definition first_seen :: "'a list \<Rightarrow> 'a list" where
  "first_seen xs = foldl (\<lambda>seen x. if x \<in> set seen then seen else seen @ [x]) [] xs"

definition q3_step :: "q3_payment_format_partial \<Rightarrow> q3_averages \<Rightarrow> q3_averages" where
  "q3_step p s =
     (let pf = q3p_payment_format p in
      s\<lparr>amount_sum_by_format := dset pf (d_add (dget (amount_sum_by_format s) pf 0) (q3p_amount_sum p)) (amount_sum_by_format s),
        count_by_format := dset pf (dget (count_by_format s) pf 0 + q3p_count p) (count_by_format s)\<rparr>)"

text \<open>The specification: the partials of one format, their sum in order of arrival and their count.\<close>

definition of_format :: "pystr \<Rightarrow> q3_payment_format_partial list \<Rightarrow> q3_payment_format_partial list" where
  "of_format pf ps = filter (\<lambda>p. q3p_payment_format p = pf) ps"

definition q3_sum :: "q3_payment_format_partial list \<Rightarrow> pystr \<Rightarrow> double" where
  "q3_sum ps pf = foldl d_add 0 (map q3p_amount_sum (of_format pf ps))"

definition q3_count :: "q3_payment_format_partial list \<Rightarrow> pystr \<Rightarrow> int" where
  "q3_count ps pf = (\<Sum>p \<leftarrow> of_format pf ps. q3p_count p)"

lemma first_seen_simps [simp]:
  "first_seen [] = []" "first_seen (xs @ [x]) = (if x \<in> set (first_seen xs) then first_seen xs else first_seen xs @ [x])"
  by (simp_all add: first_seen_def)

lemma first_seen_set [simp]: "set (first_seen xs) = set xs"
  by (induction xs rule: rev_induct) auto

lemma distinct_first_seen: "distinct (first_seen xs)"
  by (induction xs rule: rev_induct) auto

lemma dset_map:
  "distinct xs \<Longrightarrow> dset k v (map (\<lambda>x. (x, f x)) xs) =
     map (\<lambda>x. (x, (f(k := v)) x)) (if k \<in> set xs then xs else xs @ [k])"
  by (induction xs) auto

lemma dget_map: "dget (map (\<lambda>x. (x, f x)) xs) k v = (if k \<in> set xs then f k else v)"
  by (simp add: dget_def map_of_map_restrict)

lemma of_format_simps [simp]:
  "of_format pf [] = []" "of_format pf (ps @ [p]) = of_format pf ps @ (if q3p_payment_format p = pf then [p] else [])"
  by (simp_all add: of_format_def)

lemma q3_spec_snoc:
  "q3_sum (ps @ [p]) = (q3_sum ps)(q3p_payment_format p := d_add (q3_sum ps (q3p_payment_format p)) (q3p_amount_sum p))"
  "q3_count (ps @ [p]) = (q3_count ps)(q3p_payment_format p := q3_count ps (q3p_payment_format p) + q3p_count p)"
  by (auto simp: q3_sum_def q3_count_def fun_eq_iff)

lemma q3_absent: "pf \<notin> q3p_payment_format ` set ps \<Longrightarrow> q3_sum ps pf = 0 \<and> q3_count ps pf = 0"
proof -
  assume "pf \<notin> q3p_payment_format ` set ps"
  then have "of_format pf ps = []" by (auto simp: of_format_def filter_empty_conv)
  then show ?thesis by (simp add: q3_sum_def q3_count_def)
qed

definition q3_grouped :: "q3_payment_format_partial list \<Rightarrow> q3_averages" where
  "q3_grouped ps =
     \<lparr>amount_sum_by_format = map (\<lambda>pf. (pf, q3_sum ps pf)) (first_seen (map q3p_payment_format ps)),
      count_by_format = map (\<lambda>pf. (pf, q3_count ps pf)) (first_seen (map q3p_payment_format ps))\<rparr>"

lemma q3_step_grouped: "q3_step p (q3_grouped ps) = q3_grouped (ps @ [p])"
proof -
  let ?fs = "first_seen (map q3p_payment_format ps)" and ?k = "q3p_payment_format p"
  have "dget (map (\<lambda>pf. (pf, q3_sum ps pf)) ?fs) ?k 0 = q3_sum ps ?k"
    "dget (map (\<lambda>pf. (pf, q3_count ps pf)) ?fs) ?k 0 = q3_count ps ?k"
    using q3_absent [of ?k ps] by (auto simp: dget_map)
  then show ?thesis
    unfolding q3_step_def q3_grouped_def Let_def
    by (simp add: dset_map distinct_first_seen q3_spec_snoc)
qed

lemma q3_fold: "fold q3_step ps \<lparr>amount_sum_by_format = [], count_by_format = []\<rparr> = q3_grouped ps"
  by (induction ps rule: rev_induct) (simp_all add: q3_step_grouped, simp add: q3_grouped_def)

lemma q3_accept_all: "rmap deserialize_q3_partial bs = Inr ps \<Longrightarrow> accept_all q3_processor bs s = Inr (fold q3_step ps s)"
  by (induction bs arbitrary: ps s) (auto simp: q3_processor_def q3_accept_def q3_step_def Let_def)

text \<open>
  Query 3 at one aggregator. For payloads that decode, the processor accepts them all and its results are one
  average per payment format, in the order in which the formats first arrived; the average of a format is the
  sum of its amounts, added in order of arrival in binary64, divided by the exact sum of its counts,
  and 0 when that count is 0.
\<close>

theorem q3_averages_per_format:
  assumes "rmap deserialize_q3_partial bs = Inr ps"
  shows "\<exists>s. accept_all q3_processor bs \<lparr>amount_sum_by_format = [], count_by_format = []\<rparr> = Inr s \<and>
    q3_results s = rmap (\<lambda>pf. rbind (q3_average (q3_sum ps pf) (q3_count ps pf)) (\<lambda>average.
        serialize_q3_result \<lparr>q3r_payment_format = pf, q3r_average = average\<rparr>)) (first_seen (map q3p_payment_format ps))"
proof -
  have eq: "rmap f (map g xs) = rmap h xs" if "\<And>x. x \<in> set xs \<Longrightarrow> f (g x) = h x" for f :: "pystr \<times> double \<Rightarrow> bytes res" and g h xs
    using that by (induction xs) auto
  have "map_of (map (\<lambda>pf. (pf, q3_count ps pf)) (first_seen (map q3p_payment_format ps))) pf = Some (q3_count ps pf)"
    if "pf \<in> set (first_seen (map q3p_payment_format ps))" for pf
    using that by (simp add: map_of_map_restrict)
  then show ?thesis
    using q3_accept_all [OF assms] by (simp add: q3_fold q3_grouped_def q3_results_def eq del: first_seen_set)
qed

definition demo_q3 :: "double \<Rightarrow> int \<Rightarrow> q3_payment_format_partial" where
  "demo_q3 amount n = \<lparr>q3p_payment_format = lit ''Wire'', q3p_amount_sum = amount, q3p_count = n\<rparr>"

theorem q3_averages_per_format_witness:
  "\<exists>b1 b2 s. deserialize_q3_partial b1 = Inr (demo_q3 0x3FF0000000000000 2) \<and>
     deserialize_q3_partial b2 = Inr (demo_q3 0x4000000000000000 3) \<and>
     accept_all q3_processor [b1, b2] \<lparr>amount_sum_by_format = [], count_by_format = []\<rparr> = Inr s \<and>
     q3_results s = rbind (rbind (q3_average (d_add (d_add 0 0x3FF0000000000000) 0x4000000000000000) 5) (\<lambda>average.
       serialize_q3_result \<lparr>q3r_payment_format = lit ''Wire'', q3r_average = average\<rparr>)) (\<lambda>b. Inr [b])"
proof -
  have enc: "\<exists>b. deserialize_q3_partial b = Inr (demo_q3 x n)" if n: "0 \<le> n" "n < 256 ^ 8" for x n
  proof -
    obtain b where "serialize_q3_partial (demo_q3 x n) = Inr b"
      using n by (auto simp: serialize_q3_partial_def demo_q3_def encode_fixed_ascii ascii_def lit_def field_sizes pack_uint_def)
    then have "deserialize_q3_partial b = Inr (demo_q3 x n)"
      by (rule q3_partial_codec.dec_enc) (simp add: q3_partial_ok_def demo_q3_def no_trailing_nul_def lit_def)
    then show ?thesis by blast
  qed
  obtain b1 b2 where b: "deserialize_q3_partial b1 = Inr (demo_q3 0x3FF0000000000000 2)"
      "deserialize_q3_partial b2 = Inr (demo_q3 0x4000000000000000 3)"
    using enc [of 2] enc [of 3] by fastforce
  have fs: "first_seen [lit ''Wire'', lit ''Wire''] = [lit ''Wire'']" by (simp add: first_seen_def)
  have "rmap deserialize_q3_partial [b1, b2] = Inr [demo_q3 0x3FF0000000000000 2, demo_q3 0x4000000000000000 3]"
    using b by simp
  from q3_averages_per_format [OF this] obtain s where
    "accept_all q3_processor [b1, b2] \<lparr>amount_sum_by_format = [], count_by_format = []\<rparr> = Inr s"
    "q3_results s = rbind (rbind (q3_average (d_add (d_add 0 0x3FF0000000000000) 0x4000000000000000) 5) (\<lambda>average.
       serialize_q3_result \<lparr>q3r_payment_format = lit ''Wire'', q3r_average = average\<rparr>)) (\<lambda>b. Inr [b])"
    by (auto simp: demo_q3_def fs q3_sum_def q3_count_def of_format_def)
  with b show ?thesis by blast
qed

end
