(* ===== verification/Joiner.thy ===== *)
theory Joiner
  imports Processors
begin

text \<open>
  The joiner: its durable state (\<open>workers/joiner/joiner_state.py\<close>) and its message path
  (\<open>workers/joiner/joiners.py\<close>). It accumulates the data of every client until the last of the
  \<open>AGGREGATION_AMOUNT\<close> upstream EOFs, then emits the results followed by one EOF and closes the
  client. It remembers the closed clients in a bounded queue.
\<close>

subsection \<open>JoinerState\<close>

record 'p joiner =
  jo_processors :: "(int \<times> 'p) list"
  jo_data_counts :: "(int \<times> int) list"
  jo_eof_counts :: "(int \<times> int) list"
  jo_closed :: "int set"
  jo_closed_order :: "int list"

definition MAX_CLOSED_CLIENTS :: nat where "MAX_CLOSED_CLIENTS = 500"

definition new_joiner :: "'p joiner" where
  "new_joiner = \<lparr>jo_processors = [], jo_data_counts = [], jo_eof_counts = [], jo_closed = {}, jo_closed_order = []\<rparr>"

definition jo_data_change :: "int \<Rightarrow> bytes \<Rightarrow> json" where
  "jo_data_change client_id payload =
     JObj [(lit ''type'', JStr (lit ''data'')), (lit ''client_id'', JInt client_id),
           (lit ''payload_b64'', JStr (b64encode payload))]"

definition jo_eof_change :: "int \<Rightarrow> json" where
  "jo_eof_change client_id = JObj [(lit ''type'', JStr (lit ''eof'')), (lit ''client_id'', JInt client_id)]"

definition jo_close_change :: "int \<Rightarrow> json" where
  "jo_close_change client_id = JObj [(lit ''type'', JStr (lit ''close'')), (lit ''client_id'', JInt client_id)]"

definition jo_abort_change :: "int \<Rightarrow> json" where
  "jo_abort_change client_id = jo_close_change client_id"

definition jo_data_count :: "int \<Rightarrow> 'p joiner \<Rightarrow> int" where
  "jo_data_count client_id s = dget (jo_data_counts s) client_id 0"

definition jo_eof_count :: "int \<Rightarrow> 'p joiner \<Rightarrow> int" where
  "jo_eof_count client_id s = dget (jo_eof_counts s) client_id 0"

definition jo_results_for :: "'p processor_ops \<Rightarrow> int \<Rightarrow> 'p joiner \<Rightarrow> bytes list res" where
  "jo_results_for P client_id s =
     (case map_of (jo_processors s) client_id of None \<Rightarrow> Inr [] | Some p \<Rightarrow> results P p)"

definition jo_is_closed :: "int \<Rightarrow> 'p joiner \<Rightarrow> bool" where
  "jo_is_closed client_id s \<longleftrightarrow> client_id \<in> jo_closed s"

definition jo_apply_data :: "'p processor_ops \<Rightarrow> int \<Rightarrow> json \<Rightarrow> ('p joiner, unit) act" where
  "jo_apply_data P client_id change s =
     (if client_id \<in> jo_closed s then (Inr (), s)
      else (case rbind (jget_str change ''payload_b64'') b64decode of
              Inl e \<Rightarrow> (Inl e, s)
            | Inr payload \<Rightarrow>
                (case new_processor P of
                   Inl e \<Rightarrow> (Inl e, s)
                 | Inr fresh \<Rightarrow>
                     (let p = dget (jo_processors s) client_id fresh;
                          (r, p') = accept P payload p;
                          s' = s\<lparr>jo_processors := dset client_id p' (jo_processors s)\<rparr> in
                      (case r of
                         Inl e \<Rightarrow> (Inl e, s')
                       | Inr _ \<Rightarrow>
                           (Inr (), s'\<lparr>jo_data_counts :=
                              dset client_id (jo_data_count client_id s' + 1) (jo_data_counts s')\<rparr>))))))"

definition jo_apply_eof :: "int \<Rightarrow> 'p joiner \<Rightarrow> 'p joiner" where
  "jo_apply_eof client_id s =
     (if client_id \<in> jo_closed s then s
      else s\<lparr>jo_eof_counts := dset client_id (jo_eof_count client_id s + 1) (jo_eof_counts s)\<rparr>)"

text \<open>Closing remembers the client and forgets the oldest one past the limit; \<open>popleft\<close> of an empty queue raises.\<close>

definition jo_remember_closed :: "int \<Rightarrow> ('p joiner, unit) act" where
  "jo_remember_closed client_id s =
     (let s1 = s\<lparr>jo_closed := insert client_id (jo_closed s), jo_closed_order := jo_closed_order s @ [client_id]\<rparr> in
      if card (jo_closed s1) > MAX_CLOSED_CLIENTS
      then (case jo_closed_order s1 of
              [] \<Rightarrow> (Inl IndexError, s1)
            | oldest # rest \<Rightarrow> (Inr (), s1\<lparr>jo_closed_order := rest, jo_closed := jo_closed s1 - {oldest}\<rparr>))
      else (Inr (), s1))"

definition jo_apply_close :: "int \<Rightarrow> ('p joiner, unit) act" where
  "jo_apply_close client_id s =
     (let s1 = s\<lparr>jo_processors := dpop client_id (jo_processors s),
                 jo_data_counts := dpop client_id (jo_data_counts s),
                 jo_eof_counts := dpop client_id (jo_eof_counts s)\<rparr> in
      if client_id \<in> jo_closed s1 then (Inr (), s1) else jo_remember_closed client_id s1)"

definition jo_apply_change :: "'p processor_ops \<Rightarrow> json \<Rightarrow> ('p joiner, unit) act" where
  "jo_apply_change P change =
     abind (alift (jget_str change ''type'')) (\<lambda>kind.
     abind (alift (jget_int change ''client_id'')) (\<lambda>client_id.
     if kind = lit ''data'' then jo_apply_data P client_id change
     else if kind = lit ''eof'' then amodify (jo_apply_eof client_id)
     else if kind = lit ''close'' then jo_apply_close client_id
     else araise ValueError))"

record 'p joiner_dict =
  jod_processors :: "(int \<times> 'p) list"
  jod_data_counts :: "(int \<times> int) list"
  jod_eof_counts :: "(int \<times> int) list"
  jod_closed :: "int set"
  jod_closed_order :: "int list"

text \<open>The snapshot dictionary; \<open>None\<close> is the empty dictionary of a worker never snapshotted.\<close>

definition jo_snapshot :: "'p joiner \<Rightarrow> 'p joiner_dict option" where
  "jo_snapshot s =
     Some \<lparr>jod_processors = jo_processors s, jod_data_counts = jo_data_counts s, jod_eof_counts = jo_eof_counts s,
           jod_closed = jo_closed s, jod_closed_order = jo_closed_order s\<rparr>"

definition jo_restore :: "'p joiner_dict option \<Rightarrow> ('p joiner, unit) act" where
  "jo_restore data s =
     (case data of
        None \<Rightarrow> (Inr (), s\<lparr>jo_processors := [], jo_data_counts := [], jo_eof_counts := [], jo_closed := {}, jo_closed_order := []\<rparr>)
      | Some d \<Rightarrow>
          (Inr (), s\<lparr>jo_processors := jod_processors d, jo_data_counts := jod_data_counts d, jo_eof_counts := jod_eof_counts d,
             jo_closed := jod_closed d, jo_closed_order := jod_closed_order d\<rparr>))"

definition joiner_ops :: "'p processor_ops \<Rightarrow> ('p joiner, 'p joiner_dict option) worker_ops" where
  "joiner_ops P = \<lparr>apply_change = jo_apply_change P, worker_snapshot = jo_snapshot, worker_restore = jo_restore\<rparr>"

subsection \<open>JoinerWorker\<close>

record joiner_config =
  joc_id :: int
  joc_configuration :: pystr
  joc_output_queue :: pystr
  joc_amount :: int

definition jo_output_packet :: "joiner_config \<Rightarrow> message_type \<Rightarrow> int \<Rightarrow> int \<Rightarrow> bytes \<Rightarrow> bytes res" where
  "jo_output_packet cfg msg_type client_id seq payload =
     rbind (client_id_to_bytes client_id) (\<lambda>client_bytes.
     create_addressed_packet (message_type_value msg_type) client_bytes (joc_id cfg) seq payload)"

definition jo_result_outputs :: "joiner_config \<Rightarrow> int \<Rightarrow> bytes list \<Rightarrow> logical_output list res" where
  "jo_result_outputs cfg client_id payloads =
     rbind (rmap (\<lambda>(seq, payload).
        rbind (jo_output_packet cfg MT_DATA client_id (int seq) payload) (\<lambda>pkt.
        Inr (Out2 (joc_output_queue cfg) pkt))) (enumerate 0 payloads)) (\<lambda>outputs.
     rbind (serialize_control \<lparr>cm_sender_id = joc_id cfg, expected_total = int (length payloads), processed_count = 0\<rparr>) (\<lambda>control_payload.
     rbind (jo_output_packet cfg MT_EOF client_id (int (length payloads)) control_payload) (\<lambda>pkt.
     Inr (outputs @ [Out2 (joc_output_queue cfg) pkt]))))"

type_synonym 'p jo_fn = "bytes \<Rightarrow> ('p joiner, json \<times> logical_output list) act"

definition jo_bfn_data :: "int \<Rightarrow> 'p jo_fn" where
  "jo_bfn_data client_id payload = areturn (jo_data_change client_id payload, [])"

definition jo_bfn_eof :: "'p processor_ops \<Rightarrow> joiner_config \<Rightarrow> int \<Rightarrow> 'p jo_fn" where
  "jo_bfn_eof P cfg client_id payload =
     abind (aget (jo_is_closed client_id)) (\<lambda>is_closed.
     if is_closed then areturn (jo_eof_change client_id, [])
     else
       abind (aget (jo_eof_count client_id)) (\<lambda>count.
       if count + 1 = joc_amount cfg then
         abind (aget (jo_results_for P client_id)) (\<lambda>rs.
         abind (alift (rbind rs (jo_result_outputs cfg client_id))) (\<lambda>outputs.
         areturn (jo_close_change client_id, outputs)))
       else areturn (jo_eof_change client_id, [])))"

definition jo_bfn_abort :: "joiner_config \<Rightarrow> int \<Rightarrow> 'p jo_fn" where
  "jo_bfn_abort cfg client_id payload =
     (if joc_configuration cfg = lit ''Q5'' then areturn (jo_abort_change client_id, [])
      else
        abind (alift (jo_output_packet cfg MT_ABORT client_id 0 [])) (\<lambda>pkt.
        areturn (jo_abort_change client_id, [Out2 (joc_output_queue cfg) pkt])))"

type_synonym 'p joiner_runner = "('p joiner, 'p joiner_dict option) runner"

text \<open>
  \<open>_process_message\<close> within the callback: any exception is a requeueing nack. The send of the
  output queue, or of the publisher sharded by client, is the parameter \<open>send\<close>.
\<close>

definition jo_process_message ::
  "'p processor_ops \<Rightarrow> joiner_config \<Rightarrow> (outbox_entry \<Rightarrow> py_error option) \<Rightarrow> bytes \<Rightarrow>
   'p joiner_runner \<Rightarrow> delivery \<times> 'p joiner_runner" where
  "jo_process_message P cfg send message r =
     (case unpack_addressed_packet message of
        Inl _ \<Rightarrow> (Nacked True, r)
      | Inr (type_value, client_id, sender_id, seq, payload) \<Rightarrow>
          (case message_type_of type_value of
             Inl _ \<Rightarrow> (Nacked True, r)
           | Inr msg_type \<Rightarrow>
               (let msg_id = ag_data_msg_id sender_id client_id seq in
                if msg_type = MT_DATA then
                  attempt (run_direct (joiner_ops P) send msg_id client_id sender_id seq payload
                    (jo_bfn_data client_id) DATA) r
                else if msg_type = MT_EOF then
                  attempt (run_direct (joiner_ops P) send msg_id client_id sender_id seq payload
                    (jo_bfn_eof P cfg client_id) DATA) r
                else if msg_type = MT_ABORT then
                  attempt (run_direct (joiner_ops P) send (abort_msg_id sender_id client_id seq) client_id
                    sender_id seq [] (jo_bfn_abort cfg client_id) ABORT) r
                else (Nacked True, r))))"

subsection \<open>The joiner is a durable worker\<close>

interpretation jo_state: worker_state "joiner_ops P" new_joiner "\<lambda>_. True" for P :: "'p processor_ops"
  by unfold_locales (simp_all add: joiner_ops_def jo_snapshot_def jo_restore_def new_joiner_def)

fun jo_msg :: "pystr \<Rightarrow> input_key \<Rightarrow> bool" where
  "jo_msg m (c, s, q, k) \<longleftrightarrow> k = DATA \<and> m = ag_data_msg_id s c q \<or> k = ABORT \<and> m = abort_msg_id s c q"

lemma jo_msg_agg: "jo_msg m z \<Longrightarrow> agg_msg m z"
  by (cases z) auto

interpretation jo_ids: message_ids jo_msg
  by unfold_locales (blast intro: agg_ids.msg_key agg_ids.msg_id dest: jo_msg_agg)+

lemmas jo_change_defs = jo_data_change_def jo_eof_change_def jo_close_change_def jo_abort_change_def

lemma jo_change_ok [simp]:
  "state_change_ok (jo_data_change c p)" "state_change_ok (jo_eof_change c)" "state_change_ok (jo_close_change c)"
  "state_change_ok (jo_abort_change c)"
  by (simp_all add: state_change_ok_def jo_change_defs)

lemma jo_apply_simps:
  "jo_apply_change P (jo_data_change c p) = jo_apply_data P c (jo_data_change c p)"
  "jo_apply_change P (jo_eof_change c) = amodify (jo_apply_eof c)"
  "jo_apply_change P (jo_close_change c) = jo_apply_close c"
  "jo_apply_change P (jo_abort_change c) = jo_apply_close c"
  by (simp_all add: jo_apply_change_def jo_change_defs jget_simps fun_eq_iff act_defs)

lemma jo_payload: "rbind (jget_str (jo_data_change c b) ''payload_b64'') b64decode = Inr b"
  by (simp add: jo_data_change_def jget_simps b64_roundtrip)

subsection \<open>The window of closed clients\<close>

definition jo_ok :: "'p joiner \<Rightarrow> bool" where
  "jo_ok s \<longleftrightarrow> jo_closed s = set (jo_closed_order s) \<and> distinct (jo_closed_order s) \<and>
     length (jo_closed_order s) \<le> MAX_CLOSED_CLIENTS"

lemma jo_ok_new [simp]: "jo_ok new_joiner"
  by (simp add: jo_ok_def new_joiner_def)

lemma jo_close_closed:
  "c \<in> jo_closed s \<Longrightarrow> jo_apply_close c s =
     (Inr (), s\<lparr>jo_processors := dpop c (jo_processors s), jo_data_counts := dpop c (jo_data_counts s),
        jo_eof_counts := dpop c (jo_eof_counts s)\<rparr>)"
  by (simp add: jo_apply_close_def)

text \<open>Closing a new client: the queue keeps the latest clients, at most the limit.\<close>

lemma jo_close_open:
  assumes "jo_ok s" and "c \<notin> jo_closed s"
  defines "order \<equiv> drop (length (jo_closed_order s) + 1 - MAX_CLOSED_CLIENTS) (jo_closed_order s @ [c])"
  shows "jo_apply_close c s =
    (Inr (), s\<lparr>jo_processors := dpop c (jo_processors s), jo_data_counts := dpop c (jo_data_counts s),
        jo_eof_counts := dpop c (jo_eof_counts s), jo_closed := set order, jo_closed_order := order\<rparr>)"
    and "c \<in> set order" and "distinct order" and "length order \<le> MAX_CLOSED_CLIENTS" and "set order \<subseteq> insert c (jo_closed s)"
proof -
  have ok: "jo_closed s = set (jo_closed_order s)" "distinct (jo_closed_order s)"
    "length (jo_closed_order s) \<le> MAX_CLOSED_CLIENTS" using assms(1) by (auto simp: jo_ok_def)
  have card: "card (insert c (jo_closed s)) = Suc (length (jo_closed_order s))"
    using ok assms(2) distinct_card [OF ok(2)] by simp
  have pos: "0 < MAX_CLOSED_CLIENTS" by (simp add: MAX_CLOSED_CLIENTS_def)
  show "distinct order" unfolding order_def by (rule distinct_drop) (use ok assms(2) in simp)
  show "length order \<le> MAX_CLOSED_CLIENTS" by (simp add: order_def)
  show "set order \<subseteq> insert c (jo_closed s)" using ok(1) by (auto simp: order_def dest!: in_set_dropD)
  have "c = last order" "order \<noteq> []" using ok(3) pos by (auto simp: order_def last_drop)
  then show "c \<in> set order" using last_in_set by metis
  show "jo_apply_close c s =
    (Inr (), s\<lparr>jo_processors := dpop c (jo_processors s), jo_data_counts := dpop c (jo_data_counts s),
        jo_eof_counts := dpop c (jo_eof_counts s), jo_closed := set order, jo_closed_order := order\<rparr>)"
  proof (cases "Suc (length (jo_closed_order s)) > MAX_CLOSED_CLIENTS")
    case True
    then have len: "length (jo_closed_order s) = MAX_CLOSED_CLIENTS" using ok(3) by simp
    then obtain oldest rest where order: "jo_closed_order s = oldest # rest"
      using pos by (cases "jo_closed_order s") auto
    have "insert c (jo_closed s) - {oldest} = set (rest @ [c])" using ok assms(2) order by auto
    then show ?thesis using True assms(2) card len order by (simp add: jo_apply_close_def jo_remember_closed_def order_def)
  next
    case False
    then have "order = jo_closed_order s @ [c]" by (simp add: order_def)
    then show ?thesis using False assms(2) card ok(1) by (simp add: jo_apply_close_def jo_remember_closed_def)
  qed
qed

lemma jo_ok_close: "jo_ok s \<Longrightarrow> jo_apply_close c s = (r, s') \<Longrightarrow> r = Inr () \<and> jo_ok s' \<and> c \<in> jo_closed s'"
proof (cases "c \<in> jo_closed s")
  case False
  assume "jo_ok s" "jo_apply_close c s = (r, s')"
  with jo_close_open [OF \<open>jo_ok s\<close> False] show ?thesis by (auto simp: jo_ok_def)
qed (auto simp: jo_close_closed jo_ok_def)

lemma jo_ok_data: "jo_ok s \<Longrightarrow> jo_ok (snd (jo_apply_data P c ch s))"
  by (auto simp: jo_ok_def jo_apply_data_def Let_def split: sum.split prod.split)

lemma jo_ok_eof: "jo_ok s \<Longrightarrow> jo_ok (jo_apply_eof c s)"
  by (simp add: jo_ok_def jo_apply_eof_def)

lemma jo_ok_change: "jo_ok s \<Longrightarrow> jo_ok (snd (jo_apply_change P ch s))"
  using jo_ok_data [of s P] jo_ok_eof [of s] jo_ok_close [of s]
  by (auto simp: jo_apply_change_def act_defs split: sum.split) (metis prod.collapse)

subsection \<open>Runs\<close>

text \<open>
  What \<open>handle\<close> does to the worker's state for a new message: the business function, then its change.
  A run is a sequence of messages of any clients; its outputs carry the client.
\<close>

datatype jo_event = JData bytes | JEof | JAbort

definition jo_event_fn :: "'p processor_ops \<Rightarrow> joiner_config \<Rightarrow> int \<Rightarrow> jo_event \<Rightarrow> ('p joiner, json \<times> logical_output list) act" where
  "jo_event_fn P cfg c e =
     (case e of JData b \<Rightarrow> jo_bfn_data c b | JEof \<Rightarrow> jo_bfn_eof P cfg c [] | JAbort \<Rightarrow> jo_bfn_abort cfg c [])"

definition jo_step ::
  "'p processor_ops \<Rightarrow> joiner_config \<Rightarrow> int \<Rightarrow> jo_event \<Rightarrow> 'p joiner \<Rightarrow> (logical_output list \<times> 'p joiner) res" where
  "jo_step P cfg c e s =
     (case jo_event_fn P cfg c e s of
        (Inl x, _) \<Rightarrow> Inl x
      | (Inr (change, outs), s1) \<Rightarrow>
          (case jo_apply_change P change s1 of (Inl x, _) \<Rightarrow> Inl x | (Inr _, s2) \<Rightarrow> Inr (outs, s2)))"

definition jo_run ::
  "'p processor_ops \<Rightarrow> joiner_config \<Rightarrow> (int \<times> jo_event) list \<Rightarrow> 'p joiner \<Rightarrow> ((int \<times> logical_output) list \<times> 'p joiner) res" where
  "jo_run P cfg es s =
     foldl (\<lambda>r (c, e). rbind r (\<lambda>(os, s). rbind (jo_step P cfg c e s) (\<lambda>(os', s'). Inr (os @ map (Pair c) os', s'))))
       (Inr ([], s)) es"

definition jo_payloads :: "int \<Rightarrow> (int \<times> jo_event) list \<Rightarrow> bytes list" where
  "jo_payloads c es = concat (map (\<lambda>(d, e). case e of JData b \<Rightarrow> if d = c then [b] else [] | _ \<Rightarrow> []) es)"

definition jo_eofs :: "int \<Rightarrow> (int \<times> jo_event) list \<Rightarrow> int" where
  "jo_eofs c es = int (count_list es (c, JEof))"

lemma jo_run_simps:
  "jo_run P cfg [] s = Inr ([], s)"
  "jo_run P cfg (es @ [(c, e)]) s =
     rbind (jo_run P cfg es s) (\<lambda>(os, s). rbind (jo_step P cfg c e s) (\<lambda>(os', s'). Inr (os @ map (Pair c) os', s')))"
  by (simp_all add: jo_run_def)

lemma jo_events_snoc:
  "jo_payloads c (es @ [(d, e)]) = jo_payloads c es @ (case e of JData b \<Rightarrow> if d = c then [b] else [] | _ \<Rightarrow> [])"
  "jo_eofs c (es @ [(d, e)]) = jo_eofs c es + (if d = c \<and> e = JEof then 1 else 0)"
  by (auto simp: jo_payloads_def jo_eofs_def split: jo_event.split)

lemma accept_all_snoc:
  "accept_all P (bs @ [b]) p = Inr q \<longleftrightarrow> (\<exists>p'. accept_all P bs p = Inr p' \<and> accept P b p' = (Inr (), q))"
  by (induction bs arbitrary: p) (auto split: prod.splits sum.splits)

lemma jo_event_state: "snd (jo_event_fn P cfg c e s) = s"
  by (auto simp: jo_event_fn_def jo_bfn_data_def jo_bfn_eof_def jo_bfn_abort_def act_defs split: jo_event.split sum.splits if_splits)

lemma jo_stepE:
  assumes "jo_step P cfg c e s = Inr (outs, s')"
  obtains change where "jo_event_fn P cfg c e s = (Inr (change, outs), s)" and "jo_apply_change P change s = (Inr (), s')"
  using assms jo_event_state [of P cfg c e s] that unfolding jo_step_def
  by (auto split: prod.splits sum.splits)

lemma jo_ok_step: "jo_ok s \<Longrightarrow> jo_step P cfg c e s = Inr (outs, s') \<Longrightarrow> jo_ok s'"
  by (erule jo_stepE) (metis jo_ok_change snd_conv)

text \<open>What the joiner holds for one client.\<close>

definition jo_view :: "int \<Rightarrow> 'p joiner \<Rightarrow> 'p option \<times> int" where
  "jo_view c s = (map_of (jo_processors s) c, jo_eof_count c s)"

lemma jo_step_change:
  assumes "jo_event_fn P cfg c e s = (Inr (change, outs), s)"
  shows "(\<exists>b. e = JData b \<and> change = jo_data_change c b) \<or> change = jo_eof_change c \<or> change = jo_close_change c"
  using assms
  by (auto simp: jo_event_fn_def jo_bfn_data_def jo_bfn_eof_def jo_bfn_abort_def jo_abort_change_def act_defs
      split: jo_event.splits sum.splits if_splits)

lemma jo_step_other:
  assumes "jo_step P cfg d e s = Inr (outs, s')" and "d \<noteq> c" and "jo_ok s" and "c \<notin> jo_closed s"
  shows "jo_view c s' = jo_view c s \<and> c \<notin> jo_closed s'"
proof -
  obtain change where ev: "jo_event_fn P cfg d e s = (Inr (change, outs), s)"
    and ch: "jo_apply_change P change s = (Inr (), s')" using assms(1) by (rule jo_stepE)
  from jo_step_change [OF ev] consider b where "change = jo_data_change d b" | "change = jo_eof_change d" | "change = jo_close_change d"
    by blast
  then show ?thesis
  proof cases
    case 1
    with ch assms(2,4) show ?thesis
      by (auto simp: jo_apply_simps jo_apply_data_def Let_def jo_view_def jo_eof_count_def split: if_splits sum.splits prod.splits)
  next
    case 2
    with ch assms(2,4) show ?thesis
      by (auto simp: jo_apply_simps amodify_def jo_apply_eof_def jo_view_def jo_eof_count_def split: if_splits)
  next
    case 3
    then show ?thesis
      using ch assms(2,4) jo_close_closed [of d s] jo_close_open(1,5) [OF assms(3), of d]
      by (cases "d \<in> jo_closed s") (auto simp: jo_apply_simps jo_view_def jo_eof_count_def)
  qed
qed

lemma jo_step_data:
  assumes "jo_step P cfg c (JData b) s = Inr (outs, s')" and "c \<notin> jo_closed s" and "new_processor P = Inr fresh"
  shows "outs = [] \<and> c \<notin> jo_closed s' \<and> (\<exists>p'. accept P b (dget (jo_processors s) c fresh) = (Inr (), p') \<and>
    jo_view c s' = (Some p', jo_eof_count c s))"
  using assms
  by (auto simp: jo_step_def jo_event_fn_def jo_bfn_data_def areturn_def jo_apply_simps jo_apply_data_def jo_payload Let_def
      jo_view_def jo_eof_count_def split: sum.splits prod.splits)

lemma jo_step_eof:
  assumes "jo_step P cfg c JEof s = Inr (outs, s')" and "c \<notin> jo_closed s" and "jo_eof_count c s + 1 \<noteq> joc_amount cfg"
  shows "outs = [] \<and> c \<notin> jo_closed s' \<and> jo_view c s' = (map_of (jo_processors s) c, jo_eof_count c s + 1)"
  using assms
  by (auto simp: jo_step_def jo_event_fn_def jo_bfn_eof_def act_defs jo_is_closed_def jo_apply_simps jo_apply_eof_def
      jo_view_def jo_eof_count_def)

lemma jo_run_view:
  assumes "jo_run P cfg es new_joiner = Inr (os, s)" and "new_processor P = Inr fresh"
    and "(c, JAbort) \<notin> set es" and "jo_eofs c es < joc_amount cfg"
  shows "jo_ok s \<and> c \<notin> jo_closed s \<and> (\<forall>out. (c, out) \<notin> set os) \<and>
    (\<exists>p. accept_all P (jo_payloads c es) fresh = Inr p \<and>
      jo_view c s = (if jo_payloads c es = [] then None else Some p, jo_eofs c es))"
  using assms(1,3,4)
proof (induction es arbitrary: os s rule: rev_induct)
  case Nil
  then show ?case by (auto simp: jo_run_simps new_joiner_def jo_ok_def jo_payloads_def jo_eofs_def jo_view_def jo_eof_count_def)
next
  case (snoc x es)
  obtain d e where x: "x = (d, e)" by (cases x)
  obtain os0 s0 out where run: "jo_run P cfg es new_joiner = Inr (os0, s0)" and step: "jo_step P cfg d e s0 = Inr (out, s)"
    and os: "os = os0 @ map (Pair d) out" using snoc.prems(1) by (auto simp: x jo_run_simps)
  have "jo_eofs c es < joc_amount cfg" using snoc.prems(3) by (auto simp: x jo_events_snoc split: if_splits)
  with snoc.IH [OF run] snoc.prems(2) obtain p where
    IH: "jo_ok s0" "c \<notin> jo_closed s0" "\<And>out. (c, out) \<notin> set os0" "accept_all P (jo_payloads c es) fresh = Inr p"
      "jo_view c s0 = (if jo_payloads c es = [] then None else Some p, jo_eofs c es)" by auto
  have ok: "jo_ok s" using jo_ok_step [OF IH(1) step] .
  show ?case
  proof (cases "d = c")
    case False
    with jo_step_other [OF step False IH(1,2)] IH ok show ?thesis
      by (auto simp: x jo_events_snoc os split: jo_event.split)
  next
    case True
    then have "e \<noteq> JAbort" using snoc.prems(2) x by auto
    then consider b where "e = JData b" | "e = JEof" by (cases e) auto
    then show ?thesis
    proof cases
      case 1
      have "dget (jo_processors s0) c fresh = p" using IH(4,5) by (auto simp: jo_view_def dget_def split: if_splits)
      with jo_step_data [OF step [unfolded 1 True] IH(2) assms(2)] 1 True IH ok show ?thesis
        by (auto simp: x jo_events_snoc os accept_all_snoc jo_view_def)
    next
      case 2
      have "jo_eof_count c s0 + 1 \<noteq> joc_amount cfg" using IH(5) snoc.prems(3) 2 True by (simp add: x jo_events_snoc jo_view_def)
      with jo_step_eof [OF step [unfolded 2 True] IH(2)] 2 True IH ok show ?thesis
        by (auto simp: x jo_events_snoc os jo_view_def)
    qed
  qed
qed

lemma jo_step_closed: "e \<noteq> JAbort \<Longrightarrow> c \<in> jo_closed s \<Longrightarrow> jo_step P cfg c e s = Inr ([], s)"
  by (cases e) (simp_all add: jo_step_def jo_event_fn_def jo_bfn_data_def jo_bfn_eof_def act_defs jo_is_closed_def
      jo_apply_simps jo_apply_data_def jo_apply_eof_def)

subsection \<open>Properties\<close>

text \<open>The packet an output carries, read by the addressed packet decoder.\<close>

definition jo_sends :: "joiner_config \<Rightarrow> message_type \<Rightarrow> int \<Rightarrow> int \<Rightarrow> bytes \<Rightarrow> logical_output \<Rightarrow> bool" where
  "jo_sends cfg t c seq payload out \<longleftrightarrow> (\<exists>pkt. out = Out2 (joc_output_queue cfg) pkt \<and>
     unpack_addressed_packet pkt = Inr (message_type_value t, c, joc_id cfg, seq, payload))"

lemma jo_output_sends:
  "jo_output_packet cfg t c seq payload = Inr pkt \<Longrightarrow> jo_sends cfg t c seq payload (Out2 (joc_output_queue cfg) pkt)"
  by (auto simp: jo_output_packet_def jo_sends_def dest: addressed_packet_roundtrip)

lemma jo_result_outputs_sent:
  assumes "jo_result_outputs cfg c rs = Inr outs"
  shows "length outs = length rs + 1 \<and> (\<forall>i < length rs. jo_sends cfg MT_DATA c (int i) (rs ! i) (outs ! i)) \<and>
    (\<exists>eof. deserialize_control eof = Inr \<lparr>cm_sender_id = joc_id cfg, expected_total = int (length rs), processed_count = 0\<rparr> \<and>
      jo_sends cfg MT_EOF c (int (length rs)) eof (outs ! length rs))"
proof -
  let ?f = "\<lambda>(seq, payload). rbind (jo_output_packet cfg MT_DATA c (int seq) payload) (\<lambda>pkt. Inr (Out2 (joc_output_queue cfg) pkt))"
  obtain data eof pkt where data: "rmap ?f (enumerate 0 rs) = Inr data" and outs: "outs = data @ [Out2 (joc_output_queue cfg) pkt]"
    and eof: "serialize_control \<lparr>cm_sender_id = joc_id cfg, expected_total = int (length rs), processed_count = 0\<rparr> = Inr eof"
      "jo_output_packet cfg MT_EOF c (int (length rs)) eof = Inr pkt"
    using assms by (auto simp: jo_result_outputs_def)
  have len: "length data = length rs" using rmap_Inr_length [OF data] by simp
  have "jo_sends cfg MT_DATA c (int i) (rs ! i) (data ! i)" if "i < length rs" for i
    using rmap_nth [OF data, of i] that jo_output_sends [of cfg MT_DATA c "int i" "rs ! i"] by (auto simp: nth_enumerate_eq)
  with len outs control_roundtrip [OF eof(1)] jo_output_sends [OF eof(2)] show ?thesis by (auto simp: nth_append)
qed

text \<open>
  C35: the joiner as a whole. Take any sequence of messages of any clients that it processes, in which a
  client was not aborted and fewer than \<open>AGGREGATION_AMOUNT\<close> EOFs of it arrived; then nothing was emitted
  for that client. If moreover exactly one EOF is missing, the next EOF emits the results of the
  reduction over all its payloads in order of arrival (provided the reduction does not raise and every
  number fits its field): the packet with index i is a data packet to the output queue with sequence
  number i and the i-th result, the last one is an EOF whose sequence number and announced total are the
  number of results. It closes the client, and data or EOFs of that client arriving next change and emit
  nothing.
\<close>

theorem joiner_emits_at_last_eof:
  assumes run: "jo_run P cfg es new_joiner = Inr (os, s)" and fresh: "new_processor P = Inr fresh"
    and no_abort: "(c, JAbort) \<notin> set es" and missing: "jo_eofs c es < joc_amount cfg"
  shows "(\<forall>out. (c, out) \<notin> set os) \<and>
    (\<forall>rs outs. jo_eofs c es + 1 = joc_amount cfg \<longrightarrow>
       (if jo_payloads c es = [] then Inr [] else rbind (accept_all P (jo_payloads c es) fresh) (results P)) = Inr rs \<longrightarrow>
       jo_result_outputs cfg c rs = Inr outs \<longrightarrow>
       (\<exists>s'. jo_step P cfg c JEof s = Inr (outs, s') \<and> jo_is_closed c s' \<and>
         (\<forall>e. e \<noteq> JAbort \<longrightarrow> jo_step P cfg c e s' = Inr ([], s'))) \<and>
       length outs = length rs + 1 \<and> (\<forall>i < length rs. jo_sends cfg MT_DATA c (int i) (rs ! i) (outs ! i)) \<and>
       (\<exists>eof. deserialize_control eof = Inr \<lparr>cm_sender_id = joc_id cfg, expected_total = int (length rs), processed_count = 0\<rparr> \<and>
         jo_sends cfg MT_EOF c (int (length rs)) eof (outs ! length rs)))"
proof -
  obtain p where v: "jo_ok s" "c \<notin> jo_closed s" "\<forall>out. (c, out) \<notin> set os" "accept_all P (jo_payloads c es) fresh = Inr p"
      "jo_view c s = (if jo_payloads c es = [] then None else Some p, jo_eofs c es)"
    using jo_run_view [OF run fresh no_abort missing] by auto
  have "\<exists>s'. jo_step P cfg c JEof s = Inr (outs, s') \<and> jo_is_closed c s' \<and>
      (\<forall>e. e \<noteq> JAbort \<longrightarrow> jo_step P cfg c e s' = Inr ([], s'))"
    if one: "jo_eofs c es + 1 = joc_amount cfg" and
      rs: "(if jo_payloads c es = [] then Inr [] else rbind (accept_all P (jo_payloads c es) fresh) (results P)) = Inr rs" and
      outs: "jo_result_outputs cfg c rs = Inr outs" for rs outs
  proof -
    have "jo_results_for P c s = Inr rs"
      using v(4,5) rs by (auto simp: jo_results_for_def jo_view_def split: if_splits)
    then have ev: "jo_event_fn P cfg c JEof s = (Inr (jo_close_change c, outs), s)"
      using v(2,5) one outs by (auto simp: jo_event_fn_def jo_bfn_eof_def act_defs jo_is_closed_def jo_view_def)
    obtain r s' where cl: "jo_apply_close c s = (r, s')" by (cases "jo_apply_close c s")
    from jo_ok_close [OF v(1) cl] have closed: "r = Inr ()" "c \<in> jo_closed s'" by auto
    have "jo_step P cfg c JEof s = Inr (outs, s')" using ev cl closed by (simp add: jo_step_def jo_apply_simps)
    moreover have "jo_step P cfg c e s' = Inr ([], s')" if "e \<noteq> JAbort" for e
      using that closed(2) by (rule jo_step_closed)
    ultimately show ?thesis using closed(2) by (auto simp: jo_is_closed_def)
  qed
  with v(3) jo_result_outputs_sent show ?thesis by blast
qed

definition demo_joiner :: joiner_config where
  "demo_joiner = \<lparr>joc_id = 0, joc_configuration = lit ''Q3'', joc_output_queue = lit ''out'', joc_amount = 2\<rparr>"

text \<open>Two payloads of client 7 and one of client 8, then the second EOF of client 7.\<close>

theorem joiner_emits_at_last_eof_witness:
  "\<exists>os s s' outs. jo_run q3_joiner_processor demo_joiner [(7, JData [1]), (8, JData [9]), (7, JEof), (7, JData [2])] new_joiner = Inr (os, s) \<and>
     (\<forall>out. (7, out) \<notin> set os) \<and>
     jo_step q3_joiner_processor demo_joiner 7 JEof s = Inr (outs, s') \<and> jo_is_closed 7 s' \<and> length outs = 3 \<and>
     jo_sends demo_joiner MT_DATA 7 0 [1] (outs ! 0) \<and> jo_sends demo_joiner MT_DATA 7 1 [2] (outs ! 1)"
proof -
  let ?es = "[(7, JData [1]), (8, JData [9]), (7, JEof), (7, JData [2])] :: (int \<times> jo_event) list"
  have run: "\<exists>os s. jo_run q3_joiner_processor demo_joiner ?es new_joiner = Inr (os, s)"
    by (simp add: jo_run_def jo_step_def jo_event_fn_def jo_bfn_data_def jo_bfn_eof_def act_defs jo_apply_simps jo_apply_data_def
        jo_payload jo_apply_eof_def new_joiner_def jo_is_closed_def jo_eof_count_def demo_joiner_def q3_joiner_processor_def Let_def)
  then obtain os s where run: "jo_run q3_joiner_processor demo_joiner ?es new_joiner = Inr (os, s)" by blast
  have ps: "jo_payloads 7 ?es = [[1], [2]]" by (simp add: jo_payloads_def)
  have "case jo_result_outputs demo_joiner 7 [[1], [2]] of Inl _ \<Rightarrow> False | Inr outs \<Rightarrow> True" by code_simp
  then obtain outs where outs: "jo_result_outputs demo_joiner 7 [[1], [2]] = Inr outs" by (auto split: sum.splits)
  have amount: "jo_eofs 7 ?es < joc_amount demo_joiner" "jo_eofs 7 ?es + 1 = joc_amount demo_joiner"
    by (simp_all add: jo_eofs_def demo_joiner_def)
  note emits = joiner_emits_at_last_eof [OF run _ _ amount(1), of "[]"]
  have rs: "(if jo_payloads 7 ?es = [] then Inr [] else rbind (accept_all q3_joiner_processor (jo_payloads 7 ?es) []) (results q3_joiner_processor))
      = Inr [[1], [2]]"
    by (simp add: ps q3_joiner_processor_def)
  have fresh: "new_processor q3_joiner_processor = Inr []" "(7, JAbort) \<notin> set ?es" by (simp_all add: q3_joiner_processor_def)
  have quiet: "\<forall>out. (7, out) \<notin> set os" using conjunct1 [OF emits [OF fresh]] .
  note emitted = conjunct2 [OF emits [OF fresh], rule_format, OF amount(2) rs outs]
  obtain s' where s': "jo_step q3_joiner_processor demo_joiner 7 JEof s = Inr (outs, s')" "jo_is_closed 7 s'" using emitted by blast
  have "length outs = 3" "\<forall>i < 2. jo_sends demo_joiner MT_DATA 7 (int i) ([[1], [2]] ! i) (outs ! i)"
    using emitted by (simp_all add: numeral_2_eq_2)
  then have "length outs = 3" "jo_sends demo_joiner MT_DATA 7 0 [1] (outs ! 0)" "jo_sends demo_joiner MT_DATA 7 1 [2] (outs ! 1)"
    by (auto dest: spec [of _ 0] spec [of _ 1])
  with run quiet s' show ?thesis by blast
qed

text \<open>
  Memory of closed clients. After any sequence of changes, replayed or live, whether or not it ends in
  an exception, the joiner remembers at most 500 closed clients, each once, and exactly those are refused.
  Closing one more never raises: it is remembered and, at the limit, the client closed longest ago is
  forgotten.
\<close>

theorem joiner_closed_window:
  assumes "afor (jo_apply_change P) changes new_joiner = (r, s)"
  shows "jo_closed s = set (jo_closed_order s) \<and> distinct (jo_closed_order s) \<and> length (jo_closed_order s) \<le> 500 \<and>
    (\<forall>c. \<not> jo_is_closed c s \<longrightarrow> (\<exists>s'. jo_apply_change P (jo_close_change c) s = (Inr (), s') \<and>
      jo_closed_order s' = drop (length (jo_closed_order s) + 1 - 500) (jo_closed_order s @ [c])))"
proof -
  have "jo_ok t \<Longrightarrow> jo_ok (snd (afor (jo_apply_change P) chs t))" for chs t
  proof (induction chs arbitrary: t)
    case (Cons ch chs)
    then show ?case using jo_ok_change [of t P ch] by (auto simp: abind_def split: prod.splits sum.splits)
  qed (simp add: areturn_def)
  from this [of new_joiner changes] have ok: "jo_ok s" using assms by simp
  then have "\<exists>s'. jo_apply_change P (jo_close_change c) s = (Inr (), s') \<and>
      jo_closed_order s' = drop (length (jo_closed_order s) + 1 - 500) (jo_closed_order s @ [c])" if "\<not> jo_is_closed c s" for c
    using that jo_close_open(1) [OF ok, of c] by (simp add: jo_apply_simps jo_is_closed_def MAX_CLOSED_CLIENTS_def)
  with ok show ?thesis by (auto simp: jo_ok_def MAX_CLOSED_CLIENTS_def)
qed

theorem joiner_closed_window_witness:
  "\<exists>s :: bytes list joiner. afor (jo_apply_change q3_joiner_processor) [jo_close_change 1, jo_close_change 2] new_joiner = (Inr (), s) \<and>
     (\<exists>s'. jo_apply_change q3_joiner_processor (jo_close_change 3) s = (Inr (), s') \<and> jo_closed_order s' = [1, 2, 3])"
proof -
  let ?s = "new_joiner\<lparr>jo_closed := {1, 2}, jo_closed_order := [1, 2]\<rparr> :: bytes list joiner"
  have run: "afor (jo_apply_change q3_joiner_processor) [jo_close_change 1, jo_close_change 2] new_joiner = (Inr (), ?s)"
    by (simp add: jo_apply_simps jo_apply_close_def jo_remember_closed_def act_defs new_joiner_def MAX_CLOSED_CLIENTS_def insert_commute)
  from joiner_closed_window [OF run] have
    "\<exists>s'. jo_apply_change q3_joiner_processor (jo_close_change 3) ?s = (Inr (), s') \<and> jo_closed_order s' = [1, 2, 3]"
    by (auto simp: jo_is_closed_def)
  with run show ?thesis by blast
qed

text \<open>The business functions are replay consistent, so every lifetime of the joiner is durable.\<close>

lemma jo_result_outputs_ok: "jo_result_outputs cfg c rs = Inr outs \<Longrightarrow> list_all out_ok outs"
proof -
  have "rmap (\<lambda>(seq, payload). rbind (jo_output_packet cfg MT_DATA c (int seq) payload) (\<lambda>pkt.
      Inr (Out2 (joc_output_queue cfg) pkt))) xs = Inr os \<Longrightarrow> list_all out_ok os" for xs os
    by (induction xs arbitrary: os) (auto simp: out_ok_def)
  then show "jo_result_outputs cfg c rs = Inr outs \<Longrightarrow> list_all out_ok outs"
    by (auto simp: jo_result_outputs_def out_ok_def)
qed

lemma jo_business: "business_ok W (jo_bfn_data c) p s" "business_ok W (jo_bfn_eof P cfg c) p s'" "business_ok W (jo_bfn_abort cfg c) p s''"
proof -
  show "business_ok W (jo_bfn_data c) p s"
    by (rule business_pure) (auto simp: jo_bfn_data_def areturn_def)
  show "business_ok W (jo_bfn_eof P cfg c) p s'"
    by (rule business_pure)
      (auto simp: jo_bfn_eof_def act_defs split: sum.splits if_splits dest: jo_result_outputs_ok)
  show "business_ok W (jo_bfn_abort cfg c) p s''"
    by (rule business_pure) (auto simp: jo_bfn_abort_def act_defs out_ok_def split: sum.splits if_splits)
qed

definition jo_function :: "'p processor_ops \<Rightarrow> joiner_config \<Rightarrow> 'p jo_fn \<Rightarrow> bool" where
  "jo_function P cfg f \<longleftrightarrow> (\<exists>c. f \<in> {jo_bfn_data c, jo_bfn_eof P cfg c, jo_bfn_abort cfg c})"

interpretation jo_life: durable_life jo_msg "joiner_ops P" new_joiner "\<lambda>_. True" id "jo_function P cfg" "\<lambda>_ _. False"
  for P :: "'p processor_ops" and cfg
  by unfold_locales (auto simp: jo_function_def intro: business_upto_id jo_business)

text \<open>
  Durability of the joiner. In every state its handler can reach through its own messages and in which no
  record of the log segment is torn, a restart on its files gives back exactly the handler in memory; and
  a crash at any byte of the record that handling a message writes recovers the memory of before the
  message or of after it.
\<close>

theorem joiner_durable:
  assumes life: "lifetime (joiner_ops P) new_joiner (jo_function P cfg) (\<lambda>_ _. False) jo_msg node every es True h" and "edges_ok es"
  shows "restarts (joiner_ops P) new_joiner h (h_last_state h) (h_wal h) = Inr h \<and>
    (\<forall>m c s q k p f i h' ls w. jo_msg m (c, s, q, k) \<longrightarrow> jo_function P cfg f \<longrightarrow>
       handle (joiner_ops P) m c s q p f k h = (Inr i, h') \<longrightarrow> (ls, w) \<in> set (handle_disks m c s q p f k h) \<longrightarrow>
       (\<exists>hr. restarts (joiner_ops P) new_joiner h ls w = Inr hr \<and> (same_memory id hr h \<or> same_memory id hr h')))"
proof -
  note durable = jo_life.lifetime_durable [OF assms]
  have "restarts (joiner_ops P) new_joiner h (h_last_state h) (h_wal h) = Inr h"
    using jo_life.durable_restarts [OF durable] by auto
  then show ?thesis using jo_life.crash_handle [OF durable _ jo_life.fns_upto] by blast
qed

definition demo_joiner_handler :: "(bytes list joiner, bytes list joiner_dict option) handler" where
  "demo_joiner_handler = \<lparr>h_node_id = [106], snapshot_every = 1, output_edges = [], h_worker = new_joiner,
          h_last_state = new_last_state, h_wal = \<lparr>wal_current = Some [], wal_previous = None\<rparr>, h_inbox = new_inbox, h_outbox = [],
          h_sequencer = \<lparr>node_id = [106], edges = [], next_seq = [], next_addr_seq = []\<rparr>, applied_since_snapshot = 0\<rparr>"

lemma demo_joiner_start: "restart (joiner_ops q3_joiner_processor) [106] new_joiner 1 [] new_last_state
   \<lparr>wal_current = None, wal_previous = None\<rparr> = Inr demo_joiner_handler"
  by code_simp

theorem joiner_durable_witness:
  "lifetime (joiner_ops q3_joiner_processor) new_joiner (jo_function q3_joiner_processor demo_joiner) (\<lambda>_ _. False) jo_msg [106] 1 []
     True demo_joiner_handler \<and>
   restarts (joiner_ops q3_joiner_processor) new_joiner demo_joiner_handler (h_last_state demo_joiner_handler)
     (h_wal demo_joiner_handler) = Inr demo_joiner_handler"
proof -
  have life: "lifetime (joiner_ops q3_joiner_processor) new_joiner (jo_function q3_joiner_processor demo_joiner) (\<lambda>_ _. False) jo_msg
      [106] 1 [] True demo_joiner_handler"
    by (rule first_start [OF demo_joiner_start])
  with joiner_durable [OF life] show ?thesis by (simp add: edges_ok_def)
qed

end
