(* ===== verification/Wire.thy ===== *)
theory Wire
  imports Wal Text FixedCodec
begin

text \<open>
  The protocol between client and gateway (\<open>common/message_protocol/external\<close>): blocking sends and
  receives on a stream socket, file chunks and end-of-file messages. The receiving side of a
  socket is the list of the segments it will deliver; a closed peer is their end. A socket object
  may be missing (\<open>None\<close>).
\<close>

subsection \<open>socket_utils\<close>

definition ensure_socket :: "'a option \<Rightarrow> unit res" where
  "ensure_socket sock = (if sock = None then Inl RuntimeError else Inr ())"

text \<open>\<open>sendall\<close>: each \<open>send\<close> takes as many bytes as the schedule says; the schedule may end early.\<close>

definition sendall :: "nat list \<Rightarrow> bytes option \<Rightarrow> bytes \<Rightarrow> unit res option \<times> bytes option" where
  "sendall ns sock data =
     (case sock of
        None \<Rightarrow> (Some (Inl RuntimeError), None)
      | Some sent \<Rightarrow> (case write_all ns data sent of (r, sent') \<Rightarrow> (r, Some sent')))"

text \<open>\<open>recv(n)\<close> gives a non-empty part of what has arrived, or nothing when the peer has closed.\<close>

function recv_loop :: "nat \<Rightarrow> (bytes list, bytes) act" where
  "recv_loop n segs =
     (if n = 0 then (Inr [], segs)
      else
        (case segs of
           [] \<Rightarrow> (Inl OSError, [])
         | seg # rest \<Rightarrow>
             if seg = [] then (Inl OSError, rest)
             else
               (case recv_loop (n - min n (length seg)) (if length seg \<le> n then rest else drop n seg # rest) of
                  (Inl e, s) \<Rightarrow> (Inl e, s)
                | (Inr bs, s) \<Rightarrow> (Inr (take n seg @ bs), s))))"
  by pat_completeness auto
termination
  by (relation "measure (\<lambda>(n, segs). n)") auto

declare recv_loop.simps [simp del]

definition socket_recv_exact :: "nat \<Rightarrow> (bytes list option, bytes) act" where
  "socket_recv_exact n sock =
     (case sock of
        None \<Rightarrow> (Inl RuntimeError, None)
      | Some segs \<Rightarrow> (case recv_loop n segs of (r, segs') \<Rightarrow> (r, Some segs')))"

subsection \<open>types\<close>

definition FILE_TYPE_TRANSACTIONS :: int where "FILE_TYPE_TRANSACTIONS = 1"
definition FILE_TYPE_ACCOUNTS :: int where "FILE_TYPE_ACCOUNTS = 2"

definition FILE_TYPE_NAMES :: "(int \<times> pystr) list" where
  "FILE_TYPE_NAMES = [(FILE_TYPE_TRANSACTIONS, lit ''transactions''), (FILE_TYPE_ACCOUNTS, lit ''accounts'')]"

definition file_ingestor_routing_key :: "int \<Rightarrow> pystr" where
  "file_ingestor_routing_key shard_index = lit ''file_ingestor.'' @ int_str shard_index"

definition file_type_name :: "int \<Rightarrow> pystr" where
  "file_type_name file_type = dget FILE_TYPE_NAMES file_type (lit ''unknown('' @ int_str file_type @ lit '')'')"

definition validate_uint :: "int \<Rightarrow> int \<Rightarrow> int res" where
  "validate_uint value max_value =
     (if value < 0 then Inl ValueError else if value > max_value then Inl ValueError else Inr value)"

definition U8 :: int where "U8 = 2 ^ 8 - 1"
definition U32 :: int where "U32 = 2 ^ 32 - 1"
definition U64 :: int where "U64 = 2 ^ 64 - 1"

definition validate_file_type :: "int \<Rightarrow> int res" where
  "validate_file_type file_type =
     rbind (validate_uint file_type U8) (\<lambda>file_type.
     if file_type \<in> fst ` set FILE_TYPE_NAMES then Inr file_type else Inl ValueError)"

text \<open>\<open>n.to_bytes(k, "big")\<close>.\<close>

definition to_bytes :: "nat \<Rightarrow> int \<Rightarrow> bytes res" where
  "to_bytes k n = (if 0 \<le> n \<and> n < 256 ^ k then Inr (be_bytes k (nat n)) else Inl OverflowError)"

subsection \<open>FileChunk\<close>

record file_chunk_header =
  fh_rel_path :: pystr
  fh_client_id :: int
  fh_file_type :: int
  fh_offset :: int
  fh_payload_size :: int
  fh_path_size :: int

definition CHUNK_HEADER_SIZE :: nat where "CHUNK_HEADER_SIZE = 21"

definition path_size_for :: "pystr \<Rightarrow> int res" where
  "path_size_for rel_path = rbind (utf8_encode rel_path) (\<lambda>b. Inr (int (length b)))"

definition mk_chunk_header :: "pystr \<Rightarrow> int \<Rightarrow> int \<Rightarrow> int \<Rightarrow> int \<Rightarrow> file_chunk_header res" where
  "mk_chunk_header rel_path client_id file_type offset payload_size =
     rbind (validate_uint client_id U32) (\<lambda>client_id.
     rbind (validate_file_type file_type) (\<lambda>file_type.
     rbind (validate_uint offset U64) (\<lambda>offset.
     rbind (validate_uint payload_size U32) (\<lambda>payload_size.
     rbind (rbind (path_size_for rel_path) (\<lambda>n. validate_uint n U32)) (\<lambda>path_size.
     Inr \<lparr>fh_rel_path = rel_path, fh_client_id = client_id, fh_file_type = file_type, fh_offset = offset,
          fh_payload_size = payload_size, fh_path_size = path_size\<rparr>)))))"

definition header_size_for_path :: "pystr \<Rightarrow> int res" where
  "header_size_for_path rel_path = rbind (path_size_for rel_path) (\<lambda>n. Inr (int CHUNK_HEADER_SIZE + n))"

definition serialize_chunk_header :: "file_chunk_header \<Rightarrow> bytes res" where
  "serialize_chunk_header h =
     rbind (to_bytes 4 (fh_client_id h)) (\<lambda>client_id.
     rbind (to_bytes 1 (fh_file_type h)) (\<lambda>file_type.
     rbind (to_bytes 4 (fh_payload_size h)) (\<lambda>payload_size.
     rbind (to_bytes 4 (fh_path_size h)) (\<lambda>path_size.
     rbind (to_bytes 8 (fh_offset h)) (\<lambda>offset.
     rbind (utf8_encode (fh_rel_path h)) (\<lambda>rel_path.
     Inr (client_id @ file_type @ payload_size @ path_size @ offset @ rel_path)))))))"

definition deserialize_chunk_header :: "bytes \<Rightarrow> file_chunk_header res" where
  "deserialize_chunk_header data =
     (if length data < CHUNK_HEADER_SIZE then Inl ValueError
      else
        (let path_size = be_nat (field data 9 4); path_end = CHUNK_HEADER_SIZE + path_size in
         if length data < path_end then Inl ValueError
         else
           rbind (utf8_decode (field data CHUNK_HEADER_SIZE path_size)) (\<lambda>rel_path.
           mk_chunk_header rel_path (unpack_uint (field data 0 4)) (unpack_uint (field data 4 1))
             (unpack_uint (field data 13 8)) (unpack_uint (field data 5 4)))))"

definition recv_chunk_header :: "(bytes list option, file_chunk_header) act" where
  "recv_chunk_header =
     abind (socket_recv_exact CHUNK_HEADER_SIZE) (\<lambda>fixed.
     abind (socket_recv_exact (be_nat (field fixed 9 4))) (\<lambda>path_bytes.
     alift (deserialize_chunk_header (fixed @ path_bytes))))"

record file_chunk =
  fc_header :: file_chunk_header
  fc_data :: bytes

definition mk_file_chunk :: "pystr \<Rightarrow> int \<Rightarrow> int \<Rightarrow> int \<Rightarrow> bytes \<Rightarrow> file_chunk res" where
  "mk_file_chunk rel_path client_id file_type offset data =
     rbind (mk_chunk_header rel_path client_id file_type offset (int (length data))) (\<lambda>h.
     Inr \<lparr>fc_header = h, fc_data = data\<rparr>)"

definition chunk_serialized_size :: "file_chunk \<Rightarrow> int res" where
  "chunk_serialized_size c =
     rbind (header_size_for_path (fh_rel_path (fc_header c))) (\<lambda>n. Inr (n + fh_payload_size (fc_header c)))"

definition message_size :: "file_chunk \<Rightarrow> int \<Rightarrow> int res" where
  "message_size c message_type_size = rbind (chunk_serialized_size c) (\<lambda>n. Inr (message_type_size + n))"

definition serialize_file_chunk :: "file_chunk \<Rightarrow> bytes res" where
  "serialize_file_chunk c = rbind (serialize_chunk_header (fc_header c)) (\<lambda>h. Inr (h @ fc_data c))"

definition message_overhead_for :: "pystr \<Rightarrow> int \<Rightarrow> int res" where
  "message_overhead_for rel_path message_type_size =
     rbind (header_size_for_path rel_path) (\<lambda>n. Inr (message_type_size + n))"

definition max_payload_size_for_message :: "pystr \<Rightarrow> int \<Rightarrow> int \<Rightarrow> int res" where
  "max_payload_size_for_message rel_path max_message_size message_type_size =
     (if max_message_size \<le> 0 then Inl ValueError
      else if message_type_size \<le> 0 then Inl ValueError
      else
        rbind (message_overhead_for rel_path message_type_size) (\<lambda>overhead.
        if max_message_size - overhead \<le> 0 then Inl ValueError else Inr (max_message_size - overhead)))"

definition deserialize_file_chunk :: "bytes \<Rightarrow> file_chunk res" where
  "deserialize_file_chunk data =
     rbind (deserialize_chunk_header data) (\<lambda>h.
     let start = CHUNK_HEADER_SIZE + nat (fh_path_size h); data_end = start + nat (fh_payload_size h) in
     if length data < data_end then Inl ValueError
     else mk_file_chunk (fh_rel_path h) (fh_client_id h) (fh_file_type h) (fh_offset h)
            (field data start (nat (fh_payload_size h))))"

definition recv_file_chunk :: "(bytes list option, file_chunk) act" where
  "recv_file_chunk =
     abind recv_chunk_header (\<lambda>h.
     abind (socket_recv_exact (nat (fh_payload_size h))) (\<lambda>payload.
     alift (mk_file_chunk (fh_rel_path h) (fh_client_id h) (fh_file_type h) (fh_offset h) payload)))"

subsection \<open>FileEof\<close>

record file_eof =
  fe_rel_path :: pystr
  fe_client_id :: int
  fe_file_type :: int
  fe_path_size :: int

definition EOF_HEADER_SIZE :: nat where "EOF_HEADER_SIZE = 9"

definition mk_file_eof :: "pystr \<Rightarrow> int \<Rightarrow> int \<Rightarrow> file_eof res" where
  "mk_file_eof rel_path client_id file_type =
     rbind (validate_uint client_id U32) (\<lambda>client_id.
     rbind (validate_file_type file_type) (\<lambda>file_type.
     rbind (rbind (path_size_for rel_path) (\<lambda>n. validate_uint n U32)) (\<lambda>path_size.
     Inr \<lparr>fe_rel_path = rel_path, fe_client_id = client_id, fe_file_type = file_type, fe_path_size = path_size\<rparr>)))"

definition serialize_file_eof :: "file_eof \<Rightarrow> bytes res" where
  "serialize_file_eof m =
     rbind (to_bytes 4 (fe_client_id m)) (\<lambda>client_id.
     rbind (to_bytes 1 (fe_file_type m)) (\<lambda>file_type.
     rbind (to_bytes 4 (fe_path_size m)) (\<lambda>path_size.
     rbind (utf8_encode (fe_rel_path m)) (\<lambda>rel_path.
     Inr (client_id @ file_type @ path_size @ rel_path)))))"

definition deserialize_file_eof :: "bytes \<Rightarrow> file_eof res" where
  "deserialize_file_eof data =
     (if length data < EOF_HEADER_SIZE then Inl ValueError
      else
        (let path_size = be_nat (field data 5 4); path_end = EOF_HEADER_SIZE + path_size in
         if length data < path_end then Inl ValueError
         else if length data \<noteq> path_end then Inl ValueError
         else
           rbind (utf8_decode (field data EOF_HEADER_SIZE path_size)) (\<lambda>rel_path.
           mk_file_eof rel_path (unpack_uint (field data 0 4)) (unpack_uint (field data 4 1)))))"

subsection \<open>Receiving does not depend on the segmentation\<close>

lemma recv_loop_segments:
  assumes "[] \<notin> set segs" and "n \<le> length (concat segs)"
  shows "\<exists>segs'. recv_loop n segs = (Inr (take n (concat segs)), segs') \<and> concat segs' = drop n (concat segs) \<and> [] \<notin> set segs'"
  using assms
proof (induction n segs rule: recv_loop.induct)
  case (1 n segs)
  show ?case
  proof (cases "n = 0")
    case True
    with 1 show ?thesis by (simp add: recv_loop.simps [of 0])
  next
    case False
    with 1 obtain seg rest where segs: "segs = seg # rest" "seg \<noteq> []" by (cases segs) auto
    let ?s = "if length seg \<le> n then rest else drop n seg # rest"
    have wf: "[] \<notin> set ?s" using 1 segs by auto
    have len: "n - min n (length seg) \<le> length (concat ?s)" using 1 segs by auto
    from "1.IH" [OF False segs(1) segs(2) wf len] obtain s' where
      IH: "recv_loop (n - min n (length seg)) ?s = (Inr (take (n - min n (length seg)) (concat ?s)), s')"
        "concat s' = drop (n - min n (length seg)) (concat ?s)" "[] \<notin> set s'" by blast
    have "take n (concat segs) = take n seg @ take (n - min n (length seg)) (concat ?s)"
      "drop n (concat segs) = drop (n - min n (length seg)) (concat ?s)" using segs by auto
    with False segs IH show ?thesis by (simp add: recv_loop.simps [of n])
  qed
qed

lemma recv_loop_short:
  assumes "[] \<notin> set segs" and "length (concat segs) < n"
  shows "fst (recv_loop n segs) = Inl OSError"
  using assms
proof (induction n segs rule: recv_loop.induct)
  case (1 n segs)
  show ?case
  proof (cases segs)
    case (Cons seg rest)
    have part: "n \<noteq> 0" "seg \<noteq> []" "[] \<notin> set rest" "length seg \<le> n" "length (concat rest) < n - min n (length seg)"
      using 1 Cons by auto
    with "1.IH" [OF _ Cons] have "fst (recv_loop (n - min n (length seg)) rest) = Inl OSError" by simp
    with part show ?thesis
      by (auto simp: recv_loop.simps [of n] Cons split: prod.splits sum.splits)
  qed (use 1 in \<open>simp add: recv_loop.simps [of n]\<close>)
qed

lemma socket_recv_segments:
  assumes "[] \<notin> set segs" and "concat segs = b @ rest" and "length b = n"
  obtains segs' where "socket_recv_exact n (Some segs) = (Inr b, Some segs')" and "concat segs' = rest" and "[] \<notin> set segs'"
  using recv_loop_segments [of segs n] assms that by (auto simp: socket_recv_exact_def)

lemma to_bytes_Inr: "to_bytes k n = Inr b \<longleftrightarrow> 0 \<le> n \<and> n < 256 ^ k \<and> b = be_bytes k (nat n)"
  by (auto simp: to_bytes_def)

lemma to_bytes_roundtrip: "to_bytes k n = Inr b \<Longrightarrow> length b = k \<and> unpack_uint b = n \<and> be_nat b = nat n"
  by (auto simp: to_bytes_Inr unpack_uint_def be_nat_be_bytes nat_less_iff simp del: be_bytes.simps)

lemma validate_uint_Inr [simp]: "validate_uint v m = Inr w \<longleftrightarrow> 0 \<le> v \<and> v \<le> m \<and> w = v"
  by (auto simp: validate_uint_def)

lemma validate_file_type_Inr [simp]: "validate_file_type t = Inr u \<longleftrightarrow> t \<in> {1, 2} \<and> u = t"
  by (auto simp: validate_file_type_def FILE_TYPE_NAMES_def FILE_TYPE_TRANSACTIONS_def FILE_TYPE_ACCOUNTS_def U8_def)

lemma mk_chunk_header_Inr:
  "mk_chunk_header path c t off n = Inr h \<longleftrightarrow> (\<exists>b. utf8_encode path = Inr b \<and> 0 \<le> c \<and> c \<le> U32 \<and> t \<in> {1, 2} \<and> 0 \<le> off \<and> off \<le> U64 \<and>
     0 \<le> n \<and> n \<le> U32 \<and> int (length b) \<le> U32 \<and>
     h = \<lparr>fh_rel_path = path, fh_client_id = c, fh_file_type = t, fh_offset = off, fh_payload_size = n, fh_path_size = int (length b)\<rparr>)"
  by (auto simp: mk_chunk_header_def path_size_for_def)

text \<open>A header the constructor accepts can be written, and what is written is read back.\<close>

lemma chunk_header_serialized:
  assumes "mk_chunk_header path c t off n = Inr h"
  obtains fixed pb where "serialize_chunk_header h = Inr (fixed @ pb)" and "length fixed = CHUNK_HEADER_SIZE"
    and "be_nat (field fixed 9 4) = length pb" and "int (length pb) = fh_path_size h" and "utf8_encode path = Inr pb"
    and "\<And>rest. deserialize_chunk_header ((fixed @ pb) @ rest) = Inr h"
proof -
  from assms obtain pb where pb: "utf8_encode path = Inr pb" and bounds: "0 \<le> c" "c \<le> U32" "t \<in> {1, 2}" "0 \<le> off" "off \<le> U64"
      "0 \<le> n" "n \<le> U32" "int (length pb) \<le> U32"
    and h: "h = \<lparr>fh_rel_path = path, fh_client_id = c, fh_file_type = t, fh_offset = off, fh_payload_size = n, fh_path_size = int (length pb)\<rparr>"
    by (auto simp: mk_chunk_header_Inr)
  have "\<exists>b. to_bytes 4 c = Inr b" "\<exists>b. to_bytes 1 t = Inr b" "\<exists>b. to_bytes 4 n = Inr b" "\<exists>b. to_bytes 4 (int (length pb)) = Inr b"
    "\<exists>b. to_bytes 8 off = Inr b"
    using bounds by (auto simp: to_bytes_Inr U32_def U64_def simp del: be_bytes.simps)
  then obtain b1 b2 b3 b4 b5 where b: "to_bytes 4 c = Inr b1" "to_bytes 1 t = Inr b2" "to_bytes 4 n = Inr b3"
    "to_bytes 4 (int (length pb)) = Inr b4" "to_bytes 8 off = Inr b5" by blast
  note r = b [THEN to_bytes_roundtrip]
  let ?fixed = "b1 @ b2 @ b3 @ b4 @ b5"
  have fields: "field ((?fixed @ pb) @ rest) 0 4 = b1" "field ((?fixed @ pb) @ rest) 4 1 = b2" "field ((?fixed @ pb) @ rest) 5 4 = b3"
    "field ((?fixed @ pb) @ rest) 9 4 = b4" "field ((?fixed @ pb) @ rest) 13 8 = b5"
    "field ((?fixed @ pb) @ rest) 21 (length pb) = pb" for rest
    using r by (simp_all add: field_reads)
  show thesis
  proof
    show "serialize_chunk_header h = Inr (?fixed @ pb)" using b pb by (simp add: serialize_chunk_header_def h)
    show "length ?fixed = CHUNK_HEADER_SIZE" using r by (simp add: CHUNK_HEADER_SIZE_def)
    show "be_nat (field ?fixed 9 4) = length pb" using r by (simp add: field_reads)
    show "int (length pb) = fh_path_size h" by (simp add: h)
    show "utf8_encode path = Inr pb" by (rule pb)
    show "deserialize_chunk_header ((?fixed @ pb) @ rest) = Inr h" for rest
      using fields [of rest] r assms utf8_roundtrip [OF pb]
      by (simp add: deserialize_chunk_header_def CHUNK_HEADER_SIZE_def Let_def)
  qed
qed

lemma socket_recv_short:
  "[] \<notin> set segs \<Longrightarrow> length (concat segs) < n \<Longrightarrow> \<exists>sock. socket_recv_exact n (Some segs) = (Inl OSError, sock)"
  using recv_loop_short [of segs n] by (cases "recv_loop n segs") (simp add: socket_recv_exact_def)

lemma recv_header_segments:
  assumes h: "mk_chunk_header path c t off n = Inr h" and b: "serialize_chunk_header h = Inr b"
    and segs: "[] \<notin> set segs" "concat segs = b @ rest"
  obtains segs' where "recv_chunk_header (Some segs) = (Inr h, Some segs')" and "concat segs' = rest" and "[] \<notin> set segs'"
proof -
  obtain fixed pb where p: "serialize_chunk_header h = Inr (fixed @ pb)" "length fixed = CHUNK_HEADER_SIZE"
    "be_nat (field fixed 9 4) = length pb" "\<And>rest. deserialize_chunk_header ((fixed @ pb) @ rest) = Inr h"
    using chunk_header_serialized [OF h] by metis
  have "concat segs = fixed @ pb @ rest" using p(1) b segs(2) by simp
  from socket_recv_segments [OF segs(1) this p(2)] obtain s1 where
    s1: "socket_recv_exact CHUNK_HEADER_SIZE (Some segs) = (Inr fixed, Some s1)" "concat s1 = pb @ rest" "[] \<notin> set s1" .
  from socket_recv_segments [OF s1(3,2) refl] obtain s2 where
    s2: "socket_recv_exact (length pb) (Some s1) = (Inr pb, Some s2)" "concat s2 = rest" "[] \<notin> set s2" .
  have "recv_chunk_header (Some segs) = (Inr h, Some s2)"
    using s1(1) s2(1) p(3) p(4) [of "[]"] by (simp add: recv_chunk_header_def act_defs)
  then show thesis using s2 that by blast
qed

lemma recv_header_short:
  assumes h: "mk_chunk_header path c t off n = Inr h" and b: "serialize_chunk_header h = Inr b"
    and segs: "[] \<notin> set segs" "concat segs = take k b" "k < length b"
  shows "\<exists>sock. recv_chunk_header (Some segs) = (Inl OSError, sock)"
proof -
  obtain fixed pb where p: "serialize_chunk_header h = Inr (fixed @ pb)" "length fixed = CHUNK_HEADER_SIZE"
    "be_nat (field fixed 9 4) = length pb"
    using chunk_header_serialized [OF h] by metis
  have k: "concat segs = take k (fixed @ pb)" "k < length fixed + length pb" using p(1) b segs by auto
  show ?thesis
  proof (cases "k < length fixed")
    case True
    then have "length (concat segs) < CHUNK_HEADER_SIZE" using k p(2) by simp
    from socket_recv_short [OF segs(1) this] show ?thesis by (auto simp: recv_chunk_header_def act_defs)
  next
    case False
    then have "concat segs = fixed @ take (k - length fixed) pb" using k by simp
    from socket_recv_segments [OF segs(1) this p(2)] obtain s1 where
      s1: "socket_recv_exact CHUNK_HEADER_SIZE (Some segs) = (Inr fixed, Some s1)" "concat s1 = take (k - length fixed) pb" "[] \<notin> set s1" .
    have "length (concat s1) < length pb" using False k(2) by (simp add: s1(2))
    from socket_recv_short [OF s1(3) this] s1(1) p(3) show ?thesis by (auto simp: recv_chunk_header_def act_defs)
  qed
qed

subsection \<open>Properties\<close>

text \<open>
  C38: file chunks on a stream. A chunk its constructor accepts is serialized to exactly \<open>serialized_size()\<close>
  bytes; however the stream is cut into segments, \<open>FileChunk.recv\<close> returns an equal chunk and leaves exactly
  the bytes that follow it; if the peer closes anywhere inside the chunk it raises \<open>OSError\<close>; and
  \<open>deserialize\<close> gives the chunk back from any buffer that starts with it.
\<close>

theorem file_chunk_received:
  assumes "mk_file_chunk path client_id file_type off payload = Inr chunk"
  shows "\<exists>b. serialize_file_chunk chunk = Inr b \<and> chunk_serialized_size chunk = Inr (int (length b)) \<and>
    (\<forall>rest. deserialize_file_chunk (b @ rest) = Inr chunk) \<and>
    (\<forall>segs rest. [] \<notin> set segs \<longrightarrow> concat segs = b @ rest \<longrightarrow>
       (\<exists>segs'. recv_file_chunk (Some segs) = (Inr chunk, Some segs') \<and> concat segs' = rest)) \<and>
    (\<forall>segs k. [] \<notin> set segs \<longrightarrow> concat segs = take k b \<longrightarrow> k < length b \<longrightarrow>
       fst (recv_file_chunk (Some segs)) = Inl OSError)"
proof -
  obtain h where h: "mk_chunk_header path client_id file_type off (int (length payload)) = Inr h"
    and chunk: "chunk = \<lparr>fc_header = h, fc_data = payload\<rparr>" using assms by (auto simp: mk_file_chunk_def)
  obtain fixed pb where p: "serialize_chunk_header h = Inr (fixed @ pb)" "length fixed = CHUNK_HEADER_SIZE"
      "int (length pb) = fh_path_size h" "utf8_encode path = Inr pb" "\<And>rest. deserialize_chunk_header ((fixed @ pb) @ rest) = Inr h"
    using chunk_header_serialized [OF h] by metis
  have f: "fh_rel_path h = path" "fh_client_id h = client_id" "fh_file_type h = file_type" "fh_offset h = off"
    "fh_payload_size h = int (length payload)" using h by (auto simp: mk_chunk_header_Inr)
  let ?b = "(fixed @ pb) @ payload"
  have make: "mk_file_chunk (fh_rel_path h) (fh_client_id h) (fh_file_type h) (fh_offset h) payload = Inr chunk"
    using assms by (simp add: f)
  have "serialize_file_chunk chunk = Inr ?b" by (simp add: serialize_file_chunk_def chunk p(1))
  moreover have "chunk_serialized_size chunk = Inr (int (length ?b))"
    using p(2) by (simp add: chunk_serialized_size_def header_size_for_path_def path_size_for_def chunk f p(4))
  moreover have "deserialize_file_chunk (?b @ rest) = Inr chunk" for rest
  proof -
    have size: "nat (fh_path_size h) = length pb" "nat (fh_payload_size h) = length payload"
      using p(3) f(5) by (metis nat_int)+
    have "field (?b @ rest) (CHUNK_HEADER_SIZE + length pb) (length payload) = payload"
      using p(2) by (simp add: field_reads)
    then show ?thesis using p(5) [of "payload @ rest"] make p(2)
      by (simp add: deserialize_file_chunk_def Let_def size)
  qed
  moreover have "\<exists>segs'. recv_file_chunk (Some segs) = (Inr chunk, Some segs') \<and> concat segs' = rest"
    if "[] \<notin> set segs" "concat segs = ?b @ rest" for segs rest
  proof -
    have "concat segs = (fixed @ pb) @ payload @ rest" using that(2) by simp
    from recv_header_segments [OF h p(1) that(1) this] obtain s1 where
      s1: "recv_chunk_header (Some segs) = (Inr h, Some s1)" "concat s1 = payload @ rest" "[] \<notin> set s1" .
    from socket_recv_segments [OF s1(3,2) refl] obtain s2 where
      "socket_recv_exact (length payload) (Some s1) = (Inr payload, Some s2)" "concat s2 = rest" .
    with s1(1) make show ?thesis by (simp add: recv_file_chunk_def act_defs f(5))
  qed
  moreover have "fst (recv_file_chunk (Some segs)) = Inl OSError"
    if short: "[] \<notin> set segs" "concat segs = take k ?b" "k < length ?b" for segs k
  proof (cases "k < length (fixed @ pb)")
    case True
    then have "concat segs = take k (fixed @ pb)" using short(2) by simp
    from recv_header_short [OF h p(1) short(1) this True] show ?thesis by (auto simp: recv_file_chunk_def act_defs)
  next
    case False
    then have "concat segs = (fixed @ pb) @ take (k - length (fixed @ pb)) payload" using short(2) by simp
    from recv_header_segments [OF h p(1) short(1) this] obtain s1 where
      s1: "recv_chunk_header (Some segs) = (Inr h, Some s1)" "concat s1 = take (k - length (fixed @ pb)) payload" "[] \<notin> set s1" .
    have "length (concat s1) < length payload" using False short(3) by (simp add: s1(2))
    from socket_recv_short [OF s1(3) this] s1(1) show ?thesis by (auto simp: recv_file_chunk_def act_defs f(5))
  qed
  ultimately show ?thesis by blast
qed

theorem file_chunk_received_witness:
  "\<exists>chunk b segs'. mk_file_chunk (lit ''t.csv'') 3 1 0 [1, 2, 3] = Inr chunk \<and> serialize_file_chunk chunk = Inr b \<and> length b = 29 \<and>
     recv_file_chunk (Some [take 10 b, drop 10 b @ [77]]) = (Inr chunk, Some segs') \<and> concat segs' = [77] \<and>
     fst (recv_file_chunk (Some [take 28 b])) = Inl OSError"
proof -
  have enc: "utf8_encode (lit ''t.csv'') = Inr (map byte_of (lit ''t.csv''))" by (simp add: utf8_encode_ascii ascii_def lit_def)
  then obtain chunk where c: "mk_file_chunk (lit ''t.csv'') 3 1 0 [1, 2, 3] = Inr chunk"
    by (auto simp: mk_file_chunk_def mk_chunk_header_Inr U32_def U64_def lit_def)
  then have size: "chunk_serialized_size chunk = Inr 29"
    using enc by (auto simp: chunk_serialized_size_def header_size_for_path_def path_size_for_def mk_file_chunk_def mk_chunk_header_Inr
        CHUNK_HEADER_SIZE_def lit_def)
  from file_chunk_received [OF c] obtain b where b: "serialize_file_chunk chunk = Inr b" "chunk_serialized_size chunk = Inr (int (length b))"
    "\<forall>segs rest. [] \<notin> set segs \<longrightarrow> concat segs = b @ rest \<longrightarrow>
       (\<exists>segs'. recv_file_chunk (Some segs) = (Inr chunk, Some segs') \<and> concat segs' = rest)"
    "\<forall>segs k. [] \<notin> set segs \<longrightarrow> concat segs = take k b \<longrightarrow> k < length b \<longrightarrow> fst (recv_file_chunk (Some segs)) = Inl OSError" by blast
  have len: "length b = 29" using b(2) size by simp
  then have len_pos: "b \<noteq> []" by auto
  from b(3) [rule_format, of "[take 10 b, drop 10 b @ [77]]" "[77]"] len len_pos obtain segs' where
    "recv_file_chunk (Some [take 10 b, drop 10 b @ [77]]) = (Inr chunk, Some segs')" "concat segs' = [77]" by auto
  moreover have "fst (recv_file_chunk (Some [take 28 b])) = Inl OSError"
    using b(4) [rule_format, of "[take 28 b]" 28] len by fastforce
  ultimately show ?thesis using b(1) c len by blast
qed

text \<open>A payload of the computed maximum fills the message exactly; a smaller one stays below the limit.\<close>

lemma max_payload_fits:
  assumes "max_payload_size_for_message path limit mt = Inr n" and "mk_file_chunk path client_id file_type off payload = Inr chunk"
  shows "\<exists>m. message_size chunk mt = Inr m \<and> m - int (length payload) = limit - n \<and> (m \<le> limit \<longleftrightarrow> int (length payload) \<le> n)"
  using assms
  by (auto simp: max_payload_size_for_message_def message_overhead_for_def message_size_def chunk_serialized_size_def
      header_size_for_path_def path_size_for_def mk_file_chunk_def mk_chunk_header_Inr split: if_splits)

lemma file_eof_roundtrip:
  assumes "mk_file_eof path c t = Inr m" and "serialize_file_eof m = Inr b"
  shows "deserialize_file_eof b = Inr m"
proof -
  from assms(1) obtain pb where pb: "utf8_encode path = Inr pb"
    and m: "m = \<lparr>fe_rel_path = path, fe_client_id = c, fe_file_type = t, fe_path_size = int (length pb)\<rparr>"
    by (auto simp: mk_file_eof_def path_size_for_def)
  from assms(2) obtain b1 b2 b3 where b: "to_bytes 4 c = Inr b1" "to_bytes 1 t = Inr b2" "to_bytes 4 (int (length pb)) = Inr b3"
    "b = b1 @ b2 @ b3 @ pb" using pb by (auto simp: serialize_file_eof_def m)
  note r = b(1-3) [THEN to_bytes_roundtrip]
  show ?thesis using r assms(1) utf8_roundtrip [OF pb]
    by (simp add: deserialize_file_eof_def EOF_HEADER_SIZE_def Let_def b(4) field_reads)
qed

end
