(* ===== verification/LineBatches.thy ===== *)
theory LineBatches
  imports Wire LineSplitter Serializers
begin

text \<open>
  Batches of CSV lines on their way from the file splitter to the ingestor: the serializer of
  \<open>line_batch_serializer.py\<close>, the row parser of \<open>transaction_row_parser.py\<close>, which finds its columns by the
  header, and \<open>line_batch_parser.py\<close>, which turns a batch into transactions.
\<close>

subsection \<open>LineBatchSerializer\<close>

record line_batch =
  lb_file_type :: int
  lb_rel_path :: pystr
  lb_batch_id :: int
  lb_first_line_number :: int
  lb_header :: "pystr list"
  lb_lines :: "bytes list"

definition LB_FIXED_HEADER_SIZE :: nat where "LB_FIXED_HEADER_SIZE = 29"

definition encode_sized :: "pystr \<Rightarrow> bytes res" where
  "encode_sized value =
     rbind (utf8_encode value) (\<lambda>encoded.
     rbind (validate_uint (int (length encoded)) U32) (\<lambda>_. Inr encoded))"

definition sized_item :: "bytes \<Rightarrow> bytes res" where
  "sized_item item = rbind (to_bytes 4 (int (length item))) (\<lambda>n. Inr (n @ item))"

definition serialize_string_items :: "pystr list \<Rightarrow> bytes res" where
  "serialize_string_items items =
     rbind (rmap (\<lambda>item. rbind (encode_sized item) sized_item) items) (\<lambda>parts. Inr (concat parts))"

definition serialize_byte_items :: "bytes list \<Rightarrow> bytes res" where
  "serialize_byte_items items =
     rbind (rmap (\<lambda>item. rbind (validate_uint (int (length item)) U32) (\<lambda>_. sized_item item)) items) (\<lambda>parts. Inr (concat parts))"

definition serialize_line_batch :: "line_batch \<Rightarrow> bytes res" where
  "serialize_line_batch b =
     rbind (validate_uint (lb_file_type b) U8) (\<lambda>file_type.
     rbind (validate_uint (lb_batch_id b) U64) (\<lambda>batch_id.
     rbind (validate_uint (lb_first_line_number b) U64) (\<lambda>first_line_number.
     rbind (encode_sized (lb_rel_path b)) (\<lambda>path_bytes.
     rbind (to_bytes 1 file_type) (\<lambda>b1.
     rbind (to_bytes 8 batch_id) (\<lambda>b2.
     rbind (to_bytes 8 first_line_number) (\<lambda>b3.
     rbind (to_bytes 4 (int (length path_bytes))) (\<lambda>b4.
     rbind (rbind (validate_uint (int (length (lb_header b))) U32) (to_bytes 4)) (\<lambda>b5.
     rbind (rbind (validate_uint (int (length (lb_lines b))) U32) (to_bytes 4)) (\<lambda>b6.
     rbind (serialize_string_items (lb_header b)) (\<lambda>header.
     rbind (serialize_byte_items (lb_lines b)) (\<lambda>lines.
     Inr (b1 @ b2 @ b3 @ b4 @ b5 @ b6 @ path_bytes @ header @ lines)))))))))))))"

definition read_sized :: "nat \<Rightarrow> bytes reader" where
  "read_sized n data offset =
     (if offset + n > length data then Inl ValueError else Inr (take n (drop offset data), offset + n))"

fun read_byte_items :: "nat \<Rightarrow> bytes list reader" where
  "read_byte_items 0 data offset = Inr ([], offset)"
| "read_byte_items (Suc n) data offset =
     rbind (read_sized 4 data offset) (\<lambda>(size_bytes, offset).
     rbind (read_sized (be_nat size_bytes) data offset) (\<lambda>(item, offset).
     rbind (read_byte_items n data offset) (\<lambda>(items, offset). Inr (item # items, offset))))"

definition read_string_items :: "nat \<Rightarrow> pystr list reader" where
  "read_string_items n data offset =
     rbind (read_byte_items n data offset) (\<lambda>(raw_items, offset).
     rbind (rmap utf8_decode raw_items) (\<lambda>items. Inr (items, offset)))"

definition deserialize_line_batch :: "bytes \<Rightarrow> line_batch res" where
  "deserialize_line_batch data =
     (if length data < LB_FIXED_HEADER_SIZE then Inl ValueError
      else
        rbind (read_sized (be_nat (field data 17 4)) data LB_FIXED_HEADER_SIZE) (\<lambda>(rel_path_bytes, offset).
        rbind (read_string_items (be_nat (field data 21 4)) data offset) (\<lambda>(header, offset).
        rbind (read_byte_items (be_nat (field data 25 4)) data offset) (\<lambda>(lines, offset).
        if offset \<noteq> length data then Inl ValueError
        else
          rbind (utf8_decode rel_path_bytes) (\<lambda>rel_path.
          Inr \<lparr>lb_file_type = unpack_uint (field data 0 1), lb_rel_path = rel_path,
               lb_batch_id = unpack_uint (field data 1 8), lb_first_line_number = unpack_uint (field data 9 8),
               lb_header = header, lb_lines = lines\<rparr>)))))"

subsection \<open>TransactionRowParser\<close>

record transaction_columns =
  col_date :: nat
  col_from_bank :: nat
  col_from_account :: nat
  col_to_bank :: nat
  col_to_account :: nat
  col_amount :: nat
  col_currency :: nat
  col_format :: nat

definition column_index :: "pystr list \<Rightarrow> pystr \<Rightarrow> nat res" where
  "column_index header name =
     (case find (\<lambda>i. header ! i = name) [0..<length header] of None \<Rightarrow> Inl ValueError | Some i \<Rightarrow> Inr i)"

definition column_index_after :: "pystr list \<Rightarrow> pystr \<Rightarrow> nat \<Rightarrow> nat res" where
  "column_index_after header name start_index =
     (case find (\<lambda>i. header ! i = name) [start_index + 1..<length header] of None \<Rightarrow> Inl ValueError | Some i \<Rightarrow> Inr i)"

definition resolve_transaction_columns :: "pystr list \<Rightarrow> transaction_columns res" where
  "resolve_transaction_columns header =
     rbind (column_index header (lit ''From Bank'')) (\<lambda>from_bank_idx.
     rbind (column_index header (lit ''To Bank'')) (\<lambda>to_bank_idx.
     rbind (column_index header (lit ''Timestamp'')) (\<lambda>date.
     rbind (column_index_after header (lit ''Account'') from_bank_idx) (\<lambda>from_account.
     rbind (column_index_after header (lit ''Account'') to_bank_idx) (\<lambda>to_account.
     rbind (column_index header (lit ''Amount Paid'')) (\<lambda>amount.
     rbind (column_index header (lit ''Payment Currency'')) (\<lambda>currency.
     rbind (column_index header (lit ''Payment Format'')) (\<lambda>fmt.
     Inr \<lparr>col_date = date, col_from_bank = from_bank_idx, col_from_account = from_account, col_to_bank = to_bank_idx,
          col_to_account = to_account, col_amount = amount, col_currency = currency, col_format = fmt\<rparr>))))))))"

record row_parser =
  rp_header :: "pystr list"
  rp_columns :: transaction_columns

definition new_row_parser :: "pystr list \<Rightarrow> row_parser res" where
  "new_row_parser header =
     rbind (resolve_transaction_columns header) (\<lambda>columns. Inr \<lparr>rp_header = header, rp_columns = columns\<rparr>)"

definition required :: "pystr list \<Rightarrow> nat \<Rightarrow> pystr res" where
  "required cells i =
     (if i < length cells
      then (let value = py_strip (cells ! i) in if value = [] then Inl ValueError else Inr value)
      else Inl IndexError)"

definition parse_fields :: "row_parser \<Rightarrow> pystr list \<Rightarrow> int \<Rightarrow> transaction res" where
  "parse_fields parser cells row_number =
     (if length cells \<noteq> length (rp_header parser) then Inl ValueError
      else
        (let columns = rp_columns parser in
         rbind (required cells (col_date columns)) (\<lambda>date.
         rbind (required cells (col_from_bank columns)) (\<lambda>from_bank.
         rbind (required cells (col_from_account columns)) (\<lambda>from_account.
         rbind (required cells (col_to_bank columns)) (\<lambda>to_bank.
         rbind (required cells (col_to_account columns)) (\<lambda>to_account.
         rbind (rbind (required cells (col_amount columns)) py_float) (\<lambda>amount.
         rbind (required cells (col_currency columns)) (\<lambda>currency.
         rbind (required cells (col_format columns)) (\<lambda>fmt.
         Inr \<lparr>tx_date = date, tx_from_bank = from_bank, tx_from_account = from_account, tx_to_bank = to_bank,
              tx_to_account = to_account, tx_amount = amount, tx_currency = currency, tx_format = fmt,
              tx_row_number = row_number\<rparr>))))))))))"

definition parse_line :: "row_parser \<Rightarrow> bytes \<Rightarrow> int \<Rightarrow> transaction res" where
  "parse_line parser line row_number =
     (let clean_line = (if line \<noteq> [] \<and> last line = 13 then butlast line else line) in
      if clean_line = [] then Inl ValueError
      else rbind (parse_csv_line clean_line) (\<lambda>cells. parse_fields parser cells row_number))"

subsection \<open>LineBatchParser\<close>

text \<open>Every exception of a line is raised again as \<open>ValueError\<close>.\<close>

fun parse_lines :: "row_parser \<Rightarrow> int \<Rightarrow> bytes list \<Rightarrow> transaction list res" where
  "parse_lines parser line_number [] = Inr []"
| "parse_lines parser line_number (line # lines) =
     (case parse_line parser line line_number of
        Inl _ \<Rightarrow> Inl ValueError
      | Inr tx \<Rightarrow> rbind (parse_lines parser (line_number + 1) lines) (\<lambda>txs. Inr (tx # txs)))"

definition parse_line_batch :: "line_batch \<Rightarrow> transaction list res" where
  "parse_line_batch b =
     (if lb_file_type b = FILE_TYPE_ACCOUNTS then Inr []
      else if lb_file_type b \<noteq> FILE_TYPE_TRANSACTIONS then Inl ValueError
      else
        rbind (new_row_parser (lb_header b)) (\<lambda>parser.
        rbind (parse_lines parser (lb_first_line_number b) (lb_lines b)) (\<lambda>transactions.
        if length transactions \<noteq> length (lb_lines b) then Inl RuntimeError else Inr transactions)))"

subsection \<open>Batches are read back\<close>

lemma read_sized_exact: "read_sized n = (\<lambda>data offset. read_exact data offset n)"
  by (simp add: fun_eq_iff read_sized_def read_exact_def Let_def)

lemma sized_item_reads:
  assumes "sized_item item = Inr b"
  shows "\<exists>n. b = n @ item \<and> length n = 4 \<and> be_nat n = length item"
  using assms to_bytes_roundtrip [of 4 "int (length item)"] by (auto simp: sized_item_def)

lemma reads_byte_items:
  assumes "list_all2 (\<lambda>item b. \<exists>n. b = n @ item \<and> length n = 4 \<and> be_nat n = length item) items parts"
  shows "reads (read_byte_items (length items)) (concat parts) items"
  using assms
proof (induction items parts)
  case Nil
  show ?case by (simp add: reads_def)
next
  case (Cons item items b parts)
  then obtain n where b: "b = n @ item" "length n = 4" "be_nat n = length item" by auto
  have "reads (\<lambda>data offset. rbind (read_byte_items (length items) data offset) (\<lambda>(xs, offset). Inr (item # xs, offset)))
      (concat parts @ []) (item # items)"
    by (rule reads_seq [OF Cons.IH reads_return])
  then have rest: "reads (\<lambda>data offset. rbind (read_byte_items (length items) data offset) (\<lambda>(xs, offset). Inr (item # xs, offset)))
      (concat parts) (item # items)" by simp
  have "reads (\<lambda>data offset. rbind (read_exact data offset 4) (\<lambda>(size_bytes, offset).
     rbind (read_exact data offset (be_nat size_bytes)) (\<lambda>(item, offset).
     rbind (read_byte_items (length items) data offset) (\<lambda>(xs, offset). Inr (item # xs, offset)))))
     (n @ item @ concat parts) (item # items)"
    by (rule reads_seq, rule reads_exact, simp add: b, rule reads_seq, rule reads_exact, simp add: b, rule rest)
  then show ?case by (simp add: b(1) fun_eq_iff read_sized_exact reads_def)
qed

lemma byte_items_reads:
  "serialize_byte_items items = Inr b \<Longrightarrow> reads (read_byte_items (length items)) b items"
proof -
  assume "serialize_byte_items items = Inr b"
  then obtain parts where p: "rmap (\<lambda>item. rbind (validate_uint (int (length item)) U32) (\<lambda>_. sized_item item)) items = Inr parts"
    and b: "b = concat parts" by (auto simp: serialize_byte_items_def)
  have "rmap (\<lambda>item. rbind (validate_uint (int (length item)) U32) (\<lambda>_. sized_item item)) xs = Inr ps \<Longrightarrow>
      list_all2 (\<lambda>item b. \<exists>n. b = n @ item \<and> length n = 4 \<and> be_nat n = length item) xs ps" for xs ps
    by (induction xs arbitrary: ps) (auto dest: sized_item_reads)
  from reads_byte_items [OF this [OF p]] show ?thesis by (simp add: b)
qed

lemma string_items_reads:
  assumes "serialize_string_items items = Inr b"
  shows "reads (read_string_items (length items)) b items"
proof -
  obtain parts where p: "rmap (\<lambda>item. rbind (encode_sized item) sized_item) items = Inr parts" and b: "b = concat parts"
    using assms by (auto simp: serialize_string_items_def)
  have "rmap (\<lambda>item. rbind (encode_sized item) sized_item) xs = Inr ps \<Longrightarrow>
      \<exists>raws. list_all2 (\<lambda>item b. \<exists>n. b = n @ item \<and> length n = 4 \<and> be_nat n = length item) raws ps \<and>
        rmap utf8_decode raws = Inr xs \<and> length raws = length xs" for xs ps
  proof (induction xs arbitrary: ps)
    case (Cons x xs)
    then obtain e p ps' where e: "utf8_encode x = Inr e" "sized_item e = Inr p" "ps = p # ps'"
      "rmap (\<lambda>item. rbind (encode_sized item) sized_item) xs = Inr ps'" by (auto simp: encode_sized_def)
    from Cons.IH [OF e(4)] obtain raws where
      "list_all2 (\<lambda>item b. \<exists>n. b = n @ item \<and> length n = 4 \<and> be_nat n = length item) raws ps'"
      "rmap utf8_decode raws = Inr xs" "length raws = length xs" by blast
    then show ?case using sized_item_reads [OF e(2)] utf8_roundtrip [OF e(1)] e(3)
      by (intro exI [of _ "e # raws"]) simp
  qed simp
  from this [OF p] obtain raws where
    raws: "list_all2 (\<lambda>item b. \<exists>n. b = n @ item \<and> length n = 4 \<and> be_nat n = length item) raws parts"
      "rmap utf8_decode raws = Inr items" "length raws = length items" by blast
  have "reads (\<lambda>data offset. rbind (read_byte_items (length items) data offset) (\<lambda>(raw_items, offset).
     rbind (rmap utf8_decode raw_items) (\<lambda>items. Inr (items, offset)))) (concat parts @ []) items"
    by (rule reads_seq, rule reads_byte_items [OF raws(1), unfolded raws(3)], rule reads_lift [OF raws(2)], rule reads_return)
  then show ?thesis by (simp add: b read_string_items_def [abs_def])
qed

lemma readsD_at: "reads p enc x \<Longrightarrow> remaining data offset (enc @ rest) \<Longrightarrow> p data offset = Inr (x, offset + length enc)"
  unfolding reads_def by blast

lemma encode_sized_Inr: "encode_sized s = Inr b \<longleftrightarrow> utf8_encode s = Inr b \<and> int (length b) \<le> U32"
  by (auto simp: encode_sized_def)

lemma line_batch_roundtrip:
  assumes "serialize_line_batch b = Inr data"
  shows "deserialize_line_batch data = Inr b"
proof -
  from assms obtain pb b1 b2 b3 b4 b5 b6 hs ls where
    pb: "utf8_encode (lb_rel_path b) = Inr pb" and
    nums: "to_bytes 1 (lb_file_type b) = Inr b1" "to_bytes 8 (lb_batch_id b) = Inr b2" "to_bytes 8 (lb_first_line_number b) = Inr b3"
      "to_bytes 4 (int (length pb)) = Inr b4" "to_bytes 4 (int (length (lb_header b))) = Inr b5" "to_bytes 4 (int (length (lb_lines b))) = Inr b6"
    and items: "serialize_string_items (lb_header b) = Inr hs" "serialize_byte_items (lb_lines b) = Inr ls"
    and data: "data = b1 @ b2 @ b3 @ b4 @ b5 @ b6 @ pb @ hs @ ls"
    by (auto simp: serialize_line_batch_def encode_sized_Inr)
  note r = nums [THEN to_bytes_roundtrip]
  have fields: "field data 0 1 = b1" "field data 1 8 = b2" "field data 9 8 = b3" "field data 17 4 = b4" "field data 21 4 = b5" "field data 25 4 = b6"
    using r by (simp_all add: data field_reads)
  have rem: "remaining data 29 (pb @ hs @ ls)" using r by (simp add: remaining_def data)
  have path: "read_sized (length pb) data 29 = Inr (pb, 29 + length pb)"
    using readsD_at [OF reads_exact rem] by (simp add: read_sized_exact)
  note rem2 = remaining_step [OF rem]
  have header: "read_string_items (length (lb_header b)) data (29 + length pb) = Inr (lb_header b, 29 + length pb + length hs)"
    by (rule readsD_at [OF string_items_reads [OF items(1)] rem2])
  have rem3: "remaining data (29 + length pb + length hs) (ls @ [])" using remaining_step [OF rem2] by simp
  have lines: "read_byte_items (length (lb_lines b)) data (29 + length pb + length hs) = Inr (lb_lines b, 29 + length pb + length hs + length ls)"
    by (rule readsD_at [OF byte_items_reads [OF items(2)] rem3])
  have "length data = 29 + length pb + length hs + length ls" using r by (simp add: data)
  then show ?thesis
    using path header lines r fields utf8_roundtrip [OF pb]
    by (simp add: deserialize_line_batch_def LB_FIXED_HEADER_SIZE_def)
qed

subsection \<open>Properties\<close>

text \<open>The header of the transaction files, and the transaction a row of it stands for.\<close>

definition transactions_header :: "pystr list" where
  "transactions_header = [lit ''Timestamp'', lit ''From Bank'', lit ''Account'', lit ''To Bank'', lit ''Account'', lit ''Amount Received'',
     lit ''Receiving Currency'', lit ''Amount Paid'', lit ''Payment Currency'', lit ''Payment Format'', lit ''Is Laundering'']"

definition row_transaction :: "int \<Rightarrow> pystr list \<times> double \<Rightarrow> transaction" where
  "row_transaction n = (\<lambda>(row, amount).
     \<lparr>tx_date = py_strip (row ! 0), tx_from_bank = py_strip (row ! 1), tx_from_account = py_strip (row ! 2),
      tx_to_bank = py_strip (row ! 3), tx_to_account = py_strip (row ! 4), tx_amount = amount,
      tx_currency = py_strip (row ! 8), tx_format = py_strip (row ! 9), tx_row_number = n\<rparr>)"

definition row_ok :: "pystr list \<times> double \<Rightarrow> bool" where
  "row_ok = (\<lambda>(row, amount). length row = 11 \<and> (\<forall>i \<in> {0, 1, 2, 3, 4, 7, 8, 9}. py_strip (row ! i) \<noteq> []) \<and>
     py_float (py_strip (row ! 7)) = Inr amount)"

text \<open>A row written as CSV, its cells quoted or not, with or without a carriage return at its end.\<close>

definition row_line :: "pystr list \<Rightarrow> bytes \<Rightarrow> bool" where
  "row_line row line \<longleftrightarrow> (\<exists>cells raw. list_all2 csv_cell row cells \<and> utf8_encode (py_join [44] cells) = Inr raw \<and>
     raw \<noteq> [] \<and> last raw \<noteq> 13 \<and> (line = raw \<or> line = raw @ [13]))"

lemma transactions_columns:
  "new_row_parser transactions_header = Inr \<lparr>rp_header = transactions_header, rp_columns =
     \<lparr>col_date = 0, col_from_bank = 1, col_from_account = 2, col_to_bank = 3, col_to_account = 4, col_amount = 7, col_currency = 8, col_format = 9\<rparr>\<rparr>"
  by code_simp

lemma parse_row_line:
  assumes "new_row_parser transactions_header = Inr parser" and "row_ok r" and "row_line (fst r) line"
  shows "parse_line parser line n = Inr (row_transaction n r)"
proof -
  obtain row x where r: "r = (row, x)" by (cases r)
  obtain cells raw where c: "list_all2 csv_cell row cells" "utf8_encode (py_join [44] cells) = Inr raw" "raw \<noteq> []" "last raw \<noteq> 13"
    "line = raw \<or> line = raw @ [13]" using assms(3) by (auto simp: row_line_def r)
  have "py_join [44] cells \<noteq> []" using c(2,3) by (auto simp: utf8_encode_def)
  then have csv: "parse_csv_line raw = Inr row" using c(1,2) by (intro parse_csv_cells)
  have cells: "required row i = Inr (py_strip (row ! i))" if "i \<in> {0, 1, 2, 3, 4, 7, 8, 9}" for i
    using that assms(2) by (auto simp: required_def row_ok_def r)
  have parser: "parser = \<lparr>rp_header = transactions_header, rp_columns =
     \<lparr>col_date = 0, col_from_bank = 1, col_from_account = 2, col_to_bank = 3, col_to_account = 4, col_amount = 7, col_currency = 8, col_format = 9\<rparr>\<rparr>"
    using assms(1) by (simp add: transactions_columns)
  have len: "length row = length transactions_header" and amount: "py_float (py_strip (row ! 7)) = Inr x"
    using assms(2) by (simp_all add: row_ok_def r transactions_header_def)
  have "parse_fields parser row n = Inr (row_transaction n r)"
    by (simp add: parse_fields_def parser len amount row_transaction_def r cells)
  then show ?thesis using c(3-5) csv by (auto simp: parse_line_def Let_def)
qed

text \<open>
  C40: ingesting a batch of transaction lines. When the lines of a batch are rows of the transaction file written
  as CSV, with quoted fields and carriage returns or without, whose required fields are not blank and whose amount
  is a float literal, the batch serialized by the splitter and read by the ingestor is parsed into exactly
  one transaction per line, in order, with the stripped fields of the named columns and the line's number in the file.
\<close>

theorem line_batch_ingested:
  assumes "serialize_line_batch b = Inr data" and "lb_file_type b = FILE_TYPE_TRANSACTIONS" and "lb_header b = transactions_header"
    and rows: "list_all2 (\<lambda>r line. row_ok r \<and> row_line (fst r) line) rows (lb_lines b)"
  shows "rbind (deserialize_line_batch data) parse_line_batch =
    Inr (map (\<lambda>(i, r). row_transaction (lb_first_line_number b + int i) r) (enumerate 0 rows))"
proof -
  obtain parser where p: "new_row_parser transactions_header = Inr parser" using transactions_columns by blast
  have "parse_lines parser (n + int k) ls = Inr (map (\<lambda>(i, r). row_transaction (n + int i) r) (enumerate k rs))"
    if "list_all2 (\<lambda>r line. row_ok r \<and> row_line (fst r) line) rs ls" for rs ls n k
    using that
  proof (induction rs ls arbitrary: k)
    case (Cons r rs line ls)
    then show ?case using parse_row_line [OF p, of r line "n + int k"] Cons.IH [of "Suc k"] by (simp add: ac_simps)
  qed simp
  from this [OF rows, of _ 0] list_all2_lengthD [OF rows] show ?thesis
    using assms(2,3) p line_batch_roundtrip [OF assms(1)]
    by (simp add: parse_line_batch_def FILE_TYPE_TRANSACTIONS_def FILE_TYPE_ACCOUNTS_def)
qed

definition demo_row :: "pystr list" where
  "demo_row = [lit ''2022/09/01 00:20'', lit '' 010'', lit ''8000EBD30'', lit ''10'', lit ''8000EBD31'', lit ''3697.34'', lit ''US Dollar'',
     lit ''3697.34'', lit ''US Dollar'', lit ''Wire'', lit ''0'']"

definition demo_line :: bytes where
  "demo_line = map byte_of (lit ''2022/09/01 00:20, 010,8000EBD30,10,8000EBD31,3697.34,US Dollar,3697.34,US Dollar,Wire,0'' @ [13])"

definition demo_batch :: line_batch where
  "demo_batch = \<lparr>lb_file_type = 1, lb_rel_path = lit ''t.csv'', lb_batch_id = 0, lb_first_line_number = 2,
     lb_header = transactions_header, lb_lines = [demo_line]\<rparr>"

theorem line_batch_ingested_witness:
  "\<exists>data x. serialize_line_batch demo_batch = Inr data \<and> py_float (lit ''3697.34'') = Inr x \<and>
     rbind (deserialize_line_batch data) parse_line_batch = Inr [row_transaction 2 (demo_row, x)]"
proof -
  have "case serialize_line_batch demo_batch of Inl _ \<Rightarrow> False | Inr _ \<Rightarrow> True"
    by (simp add: serialize_line_batch_def demo_batch_def encode_sized_def utf8_encode_ascii ascii_def lit_def U8_def U32_def U64_def to_bytes_def
        serialize_string_items_def serialize_byte_items_def sized_item_def transactions_header_def demo_line_def validate_uint_def del: be_bytes.simps)
  then obtain data where data: "serialize_line_batch demo_batch = Inr data" by (auto split: sum.splits)
  have "\<exists>x. py_float (lit ''3697.34'') = Inr x"
    by (simp add: py_float_def lit_def to_ascii_decimal_def py_strip_def is_space_def read_sign_def lower_char_def is_digit_def read_exponent_def Let_def)
  then obtain x where x: "py_float (lit ''3697.34'') = Inr x" by blast
  have ok: "row_ok (demo_row, x)"
    using x by (simp add: row_ok_def demo_row_def py_strip_def lit_def is_space_def)
  have "row_line demo_row demo_line"
    unfolding row_line_def
  proof (intro exI conjI)
    show "list_all2 csv_cell demo_row demo_row"
      by (simp add: demo_row_def csv_cell_def csv_plain_def csv_field_limit_def lit_def)
    show "utf8_encode (py_join [44] demo_row) = Inr (butlast demo_line)"
      by (simp add: demo_row_def demo_line_def utf8_encode_ascii ascii_def lit_def)
    show "demo_line = butlast demo_line \<or> demo_line = butlast demo_line @ [13]" by (simp add: demo_line_def byte_of_def lit_def)
  qed (simp_all add: demo_line_def byte_of_def lit_def)
  with ok have "list_all2 (\<lambda>r line. row_ok r \<and> row_line (fst r) line) [(demo_row, x)] (lb_lines demo_batch)" by (simp add: demo_batch_def)
  from line_batch_ingested [OF data _ _ this] show ?thesis
    using data x by (auto simp: demo_batch_def FILE_TYPE_TRANSACTIONS_def)
qed

end
