(* ===== verification/SumWorker.thy ===== *)
theory SumWorker
  imports Joiner
begin

text \<open>
  The sum workers: reduction of transactions to partials (\<open>workers/sum/processors.py\<close>), the durable
  state (\<open>workers/sum/sum_state.py\<close>) and the data, control and response paths
  (\<open>workers/sum/sums.py\<close>) with the EOF coordinator in broadcast mode. The counters that number
  the packets to the aggregators live in the worker object, outside the durable state.
\<close>

subsection \<open>Sum processors\<close>

record 'p sum_processor_ops =
  new_sum_processor :: "'p res"
  process_tx :: "transaction \<Rightarrow> ('p, unit) act"
  partials :: "'p \<Rightarrow> (pystr \<times> bytes) list res"

definition q2_candidate :: "transaction \<Rightarrow> q2_bank_max_partial res" where
  "q2_candidate tx =
     rbind (notebook_bank_id (tx_from_bank tx)) (\<lambda>bank_id.
     Inr \<lparr>q2p_bank_id = bank_id, q2p_from_account = tx_from_account tx, q2p_amount = tx_amount tx,
          q2p_row_number = tx_row_number tx\<rparr>)"

definition is_better_q2_candidate :: "q2_bank_max_partial \<Rightarrow> q2_bank_max_partial option \<Rightarrow> bool" where
  "is_better_q2_candidate candidate current =
     (case current of
        None \<Rightarrow> True
      | Some c \<Rightarrow>
          if \<not> d_eq (q2p_amount candidate) (q2p_amount c) then d_lt (q2p_amount c) (q2p_amount candidate)
          else if q2p_row_number candidate \<noteq> 0 \<and> q2p_row_number c \<noteq> 0
          then q2p_row_number candidate < q2p_row_number c
          else False)"

definition q2_sum_process :: "transaction \<Rightarrow> (q2_max, unit) act" where
  "q2_sum_process tx m =
     (case q2_candidate tx of
        Inl e \<Rightarrow> (Inl e, m)
      | Inr candidate \<Rightarrow>
          (Inr (), if is_better_q2_candidate candidate (map_of m (q2p_bank_id candidate))
                   then dset (q2p_bank_id candidate) candidate m else m))"

definition q2_partial_tuple :: "q2_bank_max_partial \<Rightarrow> (pystr \<times> bytes) res" where
  "q2_partial_tuple p = rbind (serialize_q2_partial p) (\<lambda>b. Inr (q2p_bank_id p, b))"

definition q2_sum_partials :: "q2_max \<Rightarrow> (pystr \<times> bytes) list res" where
  "q2_sum_partials m = rmap q2_partial_tuple (map snd m)"

definition q2_partials_for_transaction :: "transaction \<Rightarrow> (pystr \<times> bytes) list res" where
  "q2_partials_for_transaction tx =
     rbind (rbind (q2_candidate tx) q2_partial_tuple) (\<lambda>t. Inr [t])"

definition q2_sum_processor :: "q2_max sum_processor_ops" where
  "q2_sum_processor = \<lparr>new_sum_processor = Inr [], process_tx = q2_sum_process, partials = q2_sum_partials\<rparr>"

record q3_sums =
  amount_sum_by_payment_format :: "(pystr \<times> double) list"
  count_by_payment_format :: "(pystr \<times> int) list"

definition q3_sum_process :: "transaction \<Rightarrow> (q3_sums, unit) act" where
  "q3_sum_process tx s =
     (let pf = tx_format tx in
      (Inr (), s\<lparr>amount_sum_by_payment_format :=
           dset pf (d_add (dget (amount_sum_by_payment_format s) pf 0) (tx_amount tx)) (amount_sum_by_payment_format s),
         count_by_payment_format := dset pf (dget (count_by_payment_format s) pf 0 + 1) (count_by_payment_format s)\<rparr>))"

definition q3_partial_tuple :: "pystr \<Rightarrow> double \<Rightarrow> int \<Rightarrow> (pystr \<times> bytes) res" where
  "q3_partial_tuple pf amount_sum n =
     rbind (serialize_q3_partial \<lparr>q3p_payment_format = pf, q3p_amount_sum = amount_sum, q3p_count = n\<rparr>) (\<lambda>b. Inr (pf, b))"

definition q3_sum_partials :: "q3_sums \<Rightarrow> (pystr \<times> bytes) list res" where
  "q3_sum_partials s =
     rmap (\<lambda>(pf, amount_sum).
       (case map_of (count_by_payment_format s) pf of
          None \<Rightarrow> Inl KeyError
        | Some n \<Rightarrow> q3_partial_tuple pf amount_sum n)) (amount_sum_by_payment_format s)"

definition q3_partials_for_transaction :: "transaction \<Rightarrow> (pystr \<times> bytes) list res" where
  "q3_partials_for_transaction tx = rbind (q3_partial_tuple (tx_format tx) (tx_amount tx) 1) (\<lambda>t. Inr [t])"

definition q3_sum_processor :: "q3_sums sum_processor_ops" where
  "q3_sum_processor =
     \<lparr>new_sum_processor = Inr \<lparr>amount_sum_by_payment_format = [], count_by_payment_format = []\<rparr>,
      process_tx = q3_sum_process, partials = q3_sum_partials\<rparr>"

datatype sum_processor = SumQ2 q2_max | SumQ3 q3_sums

definition create_sum_processor :: "pystr \<Rightarrow> sum_processor res" where
  "create_sum_processor configuration =
     (if configuration = lit ''Q2'' then rmap_res SumQ2 (new_sum_processor q2_sum_processor)
      else if configuration = lit ''Q3'' then rmap_res SumQ3 (new_sum_processor q3_sum_processor)
      else Inl ValueError)"

definition sum_processor_methods :: "pystr \<Rightarrow> sum_processor sum_processor_ops" where
  "sum_processor_methods configuration =
     \<lparr>new_sum_processor = create_sum_processor configuration,
      process_tx = (\<lambda>tx p. case p of
          SumQ2 m \<Rightarrow> wrap_processor SumQ2 (process_tx q2_sum_processor tx m)
        | SumQ3 s \<Rightarrow> wrap_processor SumQ3 (process_tx q3_sum_processor tx s)),
      partials = (\<lambda>p. case p of SumQ2 m \<Rightarrow> partials q2_sum_processor m | SumQ3 s \<Rightarrow> partials q3_sum_processor s)\<rparr>"

subsection \<open>SumState\<close>

record 'p sum_state =
  su_coordinator :: eof_coordinator
  su_processed :: "(int \<times> int) list"
  su_processors :: "(int \<times> 'p) list"
  su_closed :: "int set"

definition new_sum_state :: "eof_coordinator \<Rightarrow> 'p sum_state" where
  "new_sum_state ec = \<lparr>su_coordinator = ec, su_processed = [], su_processors = [], su_closed = {}\<rparr>"

definition su_data_change :: "int \<Rightarrow> bytes \<Rightarrow> json" where
  "su_data_change client_id payload =
     JObj [(lit ''type'', JStr (lit ''data'')), (lit ''client_id'', JInt client_id),
           (lit ''payload_b64'', JStr (b64encode payload))]"

definition su_close_change :: "int \<Rightarrow> json" where
  "su_close_change client_id = JObj [(lit ''type'', JStr (lit ''close'')), (lit ''client_id'', JInt client_id)]"

definition su_upstream_eof_change :: "int \<Rightarrow> int \<Rightarrow> int \<Rightarrow> int \<Rightarrow> json" where
  "su_upstream_eof_change client_id expected count forwarded =
     JObj [(lit ''type'', JStr (lit ''coordinator_upstream_eof'')), (lit ''client_id'', JInt client_id),
           (lit ''expected_total'', JInt expected), (lit ''count'', JInt count),
           (lit ''forwarded'', JInt forwarded)]"

definition su_msg_change :: "message_type \<Rightarrow> int \<Rightarrow> int \<Rightarrow> int \<Rightarrow> int \<Rightarrow> int \<Rightarrow> int \<Rightarrow> json" where
  "su_msg_change msg_type client_id sender_id expected processed count forwarded =
     JObj [(lit ''type'', JStr (lit ''coordinator_msg'')),
           (lit ''msg_type'', JInt (message_type_value msg_type)), (lit ''client_id'', JInt client_id),
           (lit ''sender_id'', JInt sender_id), (lit ''expected_total'', JInt expected),
           (lit ''processed_count'', JInt processed), (lit ''count'', JInt count),
           (lit ''forwarded'', JInt forwarded)]"

definition su_cleanup_change :: "int \<Rightarrow> json" where
  "su_cleanup_change client_id =
     JObj [(lit ''type'', JStr (lit ''coordinator_cleanup'')), (lit ''client_id'', JInt client_id)]"

definition su_compound_change :: "json list \<Rightarrow> json" where
  "su_compound_change changes = JObj [(lit ''type'', JStr (lit ''compound'')), (lit ''changes'', JList changes)]"

definition su_abort_change :: "int \<Rightarrow> json" where
  "su_abort_change client_id = su_compound_change [su_cleanup_change client_id, su_close_change client_id]"

definition su_is_closed :: "int \<Rightarrow> 'p sum_state \<Rightarrow> bool" where
  "su_is_closed client_id s \<longleftrightarrow> client_id \<in> su_closed s"

definition partials_for :: "'p sum_processor_ops \<Rightarrow> int \<Rightarrow> 'p sum_state \<Rightarrow> (pystr \<times> bytes) list res" where
  "partials_for P client_id s =
     (case map_of (su_processors s) client_id of None \<Rightarrow> Inr [] | Some p \<Rightarrow> partials P p)"

definition su_processed_count :: "int \<Rightarrow> 'p sum_state \<Rightarrow> int" where
  "su_processed_count client_id s = dget (su_processed s) client_id 0"

text \<open>A transaction that raises leaves the transactions of its batch before it in the processor.\<close>

definition su_apply_data :: "'p sum_processor_ops \<Rightarrow> int \<Rightarrow> json \<Rightarrow> ('p sum_state, unit) act" where
  "su_apply_data P client_id change s =
     (if client_id \<in> su_closed s then (Inr (), s)
      else (case rbind (rbind (jget_str change ''payload_b64'') b64decode) deserialize_transactions of
              Inl e \<Rightarrow> (Inl e, s)
            | Inr transactions \<Rightarrow>
                (case new_sum_processor P of
                   Inl e \<Rightarrow> (Inl e, s)
                 | Inr fresh \<Rightarrow>
                     (let (r, p') = afor (process_tx P) transactions (dget (su_processors s) client_id fresh);
                          s' = s\<lparr>su_processors := dset client_id p' (su_processors s)\<rparr> in
                      (case r of
                         Inl e \<Rightarrow> (Inl e, s')
                       | Inr _ \<Rightarrow>
                           (Inr (), s'\<lparr>su_processed :=
                              dset client_id (su_processed_count client_id s' + int (length transactions)) (su_processed s')\<rparr>))))))"

definition su_apply_close :: "int \<Rightarrow> 'p sum_state \<Rightarrow> 'p sum_state" where
  "su_apply_close client_id s =
     s\<lparr>su_closed := insert client_id (su_closed s), su_processors := dpop client_id (su_processors s),
       su_processed := dpop client_id (su_processed s)\<rparr>"

definition on_su_coordinator :: "(eof_coordinator, 'a) act \<Rightarrow> ('p sum_state, 'a) act" where
  "on_su_coordinator = azoom su_coordinator (\<lambda>c. su_coordinator_update (\<lambda>_. c))"

definition su_replay_upstream_eof :: "int \<Rightarrow> json \<Rightarrow> ('p sum_state, unit) act" where
  "su_replay_upstream_eof client_id change =
     abind (alift (jget_int change ''expected_total'')) (\<lambda>expected.
     abind (alift (jget_int change ''count'')) (\<lambda>count.
     abind (alift (jget_int change ''forwarded'')) (\<lambda>forwarded.
     abind (on_su_coordinator (on_upstream_eof client_id expected count forwarded)) (\<lambda>_. areturn ()))))"

definition su_replay_msg :: "int \<Rightarrow> json \<Rightarrow> ('p sum_state, unit) act" where
  "su_replay_msg client_id change =
     abind (alift (jget_int change ''sender_id'')) (\<lambda>sender.
     abind (alift (jget_int change ''expected_total'')) (\<lambda>expected.
     abind (alift (jget_int change ''processed_count'')) (\<lambda>processed.
     abind (alift (rbind (jget_int change ''msg_type'') message_type_of)) (\<lambda>msg_type.
     abind (alift (jget_int change ''count'')) (\<lambda>count.
     abind (alift (jget_int change ''forwarded'')) (\<lambda>forwarded.
     abind (on_su_coordinator (process_control_message msg_type client_id
              \<lparr>cm_sender_id = sender, expected_total = expected, processed_count = processed\<rparr>
              count forwarded)) (\<lambda>_. areturn ())))))))"

function su_apply_change :: "'p sum_processor_ops \<Rightarrow> json \<Rightarrow> ('p sum_state, unit) act" where
  "su_apply_change P change =
     (case jget_str change ''type'' of
        Inl e \<Rightarrow> araise e
      | Inr kind \<Rightarrow>
          if kind = lit ''compound'' then
            (case jget_list change ''changes'' of
               Inl e \<Rightarrow> araise e
             | Inr subs \<Rightarrow> afor (\<lambda>sub. su_apply_change P sub) subs)
          else
            (case jget_int change ''client_id'' of
               Inl e \<Rightarrow> araise e
             | Inr client_id \<Rightarrow>
                 if kind = lit ''data'' then su_apply_data P client_id change
                 else if kind = lit ''close'' then amodify (su_apply_close client_id)
                 else if kind = lit ''coordinator_upstream_eof'' then su_replay_upstream_eof client_id change
                 else if kind = lit ''coordinator_msg'' then su_replay_msg client_id change
                 else if kind = lit ''coordinator_cleanup''
                 then amodify (su_coordinator_update (cleanup_client client_id))
                 else araise ValueError))"
  by pat_completeness auto
termination
  by (relation "measure (\<lambda>(P, change). size change)") (auto dest: jget_list_size)

declare su_apply_change.simps [simp del]

record 'p sum_dict =
  sud_processed :: "(int \<times> int) list"
  sud_processors :: "(int \<times> 'p) list"
  sud_closed :: "int set"
  sud_eof_coordinator :: coordinator_dict

definition su_snapshot :: "'p sum_state \<Rightarrow> 'p sum_dict option" where
  "su_snapshot s =
     Some \<lparr>sud_processed = su_processed s, sud_processors = su_processors s, sud_closed = su_closed s,
           sud_eof_coordinator = coordinator_snapshot (su_coordinator s)\<rparr>"

definition su_restore :: "'p sum_dict option \<Rightarrow> ('p sum_state, unit) act" where
  "su_restore data s =
     (case data of
        None \<Rightarrow> (Inr (), s\<lparr>su_processed := [], su_processors := [], su_closed := {}\<rparr>)
      | Some d \<Rightarrow>
          (Inr (), s\<lparr>su_processed := sud_processed d, su_processors := sud_processors d, su_closed := sud_closed d,
             su_coordinator := coordinator_restore (sud_eof_coordinator d) (su_coordinator s)\<rparr>))"

definition sum_ops :: "'p sum_processor_ops \<Rightarrow> ('p sum_state, 'p sum_dict option) worker_ops" where
  "sum_ops P = \<lparr>apply_change = su_apply_change P, worker_snapshot = su_snapshot, worker_restore = su_restore\<rparr>"

subsection \<open>Packets to the aggregators\<close>

record sum_config =
  suc_id :: int
  suc_amount :: int
  suc_aggregation_amount :: int
  suc_aggregation_prefix :: pystr

type_synonym agg_seqs = "(int \<times> int) list"

definition next_agg_seq :: "int \<Rightarrow> (agg_seqs, int) act" where
  "next_agg_seq client_id seqs =
     (let seq = dget seqs client_id 0 in (Inr seq, dset client_id ((seq + 1) mod 2 ^ 32) seqs))"

definition su_packet :: "sum_config \<Rightarrow> message_type \<Rightarrow> int \<Rightarrow> int \<Rightarrow> bytes \<Rightarrow> bytes res" where
  "su_packet cfg msg_type client_id seq payload =
     rbind (client_id_to_bytes client_id) (\<lambda>client_bytes.
     create_addressed_packet (message_type_value msg_type) client_bytes (suc_id cfg) seq payload)"

definition su_eof_payload :: "sum_config \<Rightarrow> int \<Rightarrow> bytes res" where
  "su_eof_payload cfg expected =
     serialize_control \<lparr>cm_sender_id = suc_id cfg, expected_total = expected, processed_count = 0\<rparr>"

definition aggregation_index :: "sum_config \<Rightarrow> pystr \<Rightarrow> int res" where
  "aggregation_index cfg partition_key = shard_for_key (KStr partition_key) (suc_aggregation_amount cfg)"

definition agg_routing_key :: "sum_config \<Rightarrow> int \<Rightarrow> pystr" where
  "agg_routing_key cfg index = suc_aggregation_prefix cfg @ [95] @ int_str index"

fun partials_outputs :: "sum_config \<Rightarrow> int \<Rightarrow> (pystr \<times> bytes) list \<Rightarrow> (agg_seqs, logical_output list) act" where
  "partials_outputs cfg client_id [] = areturn []"
| "partials_outputs cfg client_id ((partition_key, payload) # ps) =
     abind (alift (aggregation_index cfg partition_key)) (\<lambda>index.
     abind (next_agg_seq client_id) (\<lambda>seq.
     abind (alift (su_packet cfg MT_DATA client_id seq payload)) (\<lambda>pkt.
     abind (partials_outputs cfg client_id ps) (\<lambda>outputs.
     areturn (Out2 (agg_routing_key cfg index) pkt # outputs)))))"

fun broadcast_outputs :: "sum_config \<Rightarrow> message_type \<Rightarrow> int \<Rightarrow> bytes \<Rightarrow> int list \<Rightarrow> (agg_seqs, logical_output list) act" where
  "broadcast_outputs cfg msg_type client_id payload [] = areturn []"
| "broadcast_outputs cfg msg_type client_id payload (index # indexes) =
     abind (next_agg_seq client_id) (\<lambda>seq.
     abind (alift (su_packet cfg msg_type client_id seq payload)) (\<lambda>pkt.
     abind (broadcast_outputs cfg msg_type client_id payload indexes) (\<lambda>outputs.
     areturn (Out2 (agg_routing_key cfg index) pkt # outputs))))"

definition eof_outputs :: "sum_config \<Rightarrow> int \<Rightarrow> int \<Rightarrow> (agg_seqs, logical_output list) act" where
  "eof_outputs cfg client_id total_forwarded =
     abind (alift (su_eof_payload cfg total_forwarded)) (\<lambda>payload.
     broadcast_outputs cfg MT_EOF client_id payload [0..suc_aggregation_amount cfg - 1])"

definition downstream_abort_outputs :: "sum_config \<Rightarrow> int \<Rightarrow> (agg_seqs, logical_output list) act" where
  "downstream_abort_outputs cfg client_id =
     broadcast_outputs cfg MT_ABORT client_id [] [0..suc_aggregation_amount cfg - 1]"

subsection \<open>The business functions\<close>

text \<open>They read and change the durable state and the packet counters.\<close>

type_synonym 'p su_fn = "bytes \<Rightarrow> ('p sum_state \<times> agg_seqs, json \<times> logical_output list) act"

definition on_state :: "('p sum_state, 'a) act \<Rightarrow> ('p sum_state \<times> agg_seqs, 'a) act" where
  "on_state = azoom fst (\<lambda>s w. (s, snd w))"

definition on_seqs :: "(agg_seqs, 'a) act \<Rightarrow> ('p sum_state \<times> agg_seqs, 'a) act" where
  "on_seqs = azoom snd (\<lambda>q w. (fst w, q))"

definition su_bfn_data :: "int \<Rightarrow> 'p su_fn" where
  "su_bfn_data client_id payload = areturn (su_data_change client_id payload, [])"

text \<open>The partials of a client and one EOF per aggregator announcing the total.\<close>

definition flush_outputs ::
  "'p sum_processor_ops \<Rightarrow> sum_config \<Rightarrow> int \<Rightarrow> int \<Rightarrow> ('p sum_state \<times> agg_seqs, logical_output list) act" where
  "flush_outputs P cfg client_id acks_forwarded =
     abind (on_state (aget (partials_for P client_id))) (\<lambda>r.
     abind (alift r) (\<lambda>ps.
     abind (on_seqs (partials_outputs cfg client_id ps)) (\<lambda>outputs.
     abind (on_seqs (eof_outputs cfg client_id (acks_forwarded + int (length ps)))) (\<lambda>eofs.
     areturn (outputs @ eofs)))))"

definition su_bfn_upstream_eof ::
  "'p sum_processor_ops \<Rightarrow> sum_config \<Rightarrow> int \<Rightarrow> int \<Rightarrow> int \<Rightarrow> 'p su_fn" where
  "su_bfn_upstream_eof P cfg client_id expected count payload =
     abind (on_state (on_su_coordinator (on_upstream_eof client_id expected count count))) (\<lambda>action.
     let eof_change = su_upstream_eof_change client_id expected count count in
     (case action of
        Some (BroadcastAction queues message _) \<Rightarrow> areturn (eof_change, map (\<lambda>q. Out2 q message) queues)
      | Some (FlushAction _ _ _) \<Rightarrow>
          abind (flush_outputs P cfg client_id 0) (\<lambda>outputs.
          areturn (su_compound_change [eof_change, su_close_change client_id], outputs))
      | _ \<Rightarrow> areturn (eof_change, [])))"

definition su_bfn_abort :: "sum_config \<Rightarrow> int \<Rightarrow> 'p su_fn" where
  "su_bfn_abort cfg client_id payload =
     abind (on_seqs (downstream_abort_outputs cfg client_id)) (\<lambda>outputs.
     areturn (su_abort_change client_id, outputs))"

definition su_bfn_eof_received :: "int \<Rightarrow> control_message \<Rightarrow> int \<Rightarrow> 'p su_fn" where
  "su_bfn_eof_received client_id ctrl count payload =
     abind (on_state (on_su_coordinator (process_control_message MT_EOF_RECEIVED client_id ctrl count count))) (\<lambda>action.
     let change = su_msg_change MT_EOF_RECEIVED client_id (cm_sender_id ctrl) (expected_total ctrl) (processed_count ctrl) count count in
     (case action of
        Some (SendAnswerAction queue_name message) \<Rightarrow> areturn (change, [Out2 queue_name message])
      | _ \<Rightarrow> areturn (change, [])))"

definition su_bfn_flush_order :: "'p sum_processor_ops \<Rightarrow> sum_config \<Rightarrow> int \<Rightarrow> int \<Rightarrow> 'p su_fn" where
  "su_bfn_flush_order P cfg client_id leader payload =
     abind (on_state (aget (partials_for P client_id))) (\<lambda>r.
     abind (alift r) (\<lambda>ps.
     abind (on_seqs (partials_outputs cfg client_id ps)) (\<lambda>outputs.
     abind (on_state (aget (\<lambda>s. build_flush_ack (su_coordinator s) client_id (int (length ps))))) (\<lambda>msg.
     abind (alift msg) (\<lambda>flush_ack_msg.
     abind (on_state (aget (\<lambda>s. response_queue_for (su_coordinator s) leader))) (\<lambda>dest.
     areturn (su_compound_change [su_cleanup_change client_id, su_close_change client_id],
              outputs @ [Out2 dest flush_ack_msg])))))))"

definition su_bfn_flush_ack ::
  "'p sum_processor_ops \<Rightarrow> sum_config \<Rightarrow> int \<Rightarrow> control_message \<Rightarrow> bool \<Rightarrow> int \<Rightarrow> 'p su_fn" where
  "su_bfn_flush_ack P cfg client_id ctrl already new_ack_count payload =
     (let ack_change = su_msg_change MT_FLUSH_ACK client_id (cm_sender_id ctrl) (expected_total ctrl) (processed_count ctrl) 0 0 in
      if new_ack_count \<ge> suc_amount cfg - 1 then
        abind (on_state (aget (\<lambda>s. accumulated_forwarded (su_coordinator s) client_id))) (\<lambda>acked.
        abind (flush_outputs P cfg client_id (acked + (if already then 0 else processed_count ctrl))) (\<lambda>outputs.
        areturn (su_compound_change [ack_change, su_close_change client_id], outputs)))
      else areturn (ack_change, []))"

subsection \<open>SumWorker\<close>

record 'p sum_worker =
  sw_runner :: "('p sum_state, 'p sum_dict option) runner"
  sw_seqs :: agg_seqs

abbreviation sw_state :: "'p sum_worker \<Rightarrow> 'p sum_state" where
  "sw_state w \<equiv> h_worker (r_handler (sw_runner w))"

text \<open>The handler sees the durable part; the counters change when the function runs, for a new message.\<close>

definition with_seqs :: "agg_seqs \<Rightarrow> 'p su_fn \<Rightarrow> bytes \<Rightarrow> ('p sum_state, json \<times> logical_output list) act" where
  "with_seqs seqs f payload s = (case f payload (s, seqs) of (r, w) \<Rightarrow> (r, fst w))"

definition run_sum ::
  "'p sum_processor_ops \<Rightarrow> (outbox_entry \<Rightarrow> py_error option) \<Rightarrow> pystr \<Rightarrow> int \<Rightarrow> int \<Rightarrow> int \<Rightarrow> bytes \<Rightarrow> 'p su_fn \<Rightarrow> msg_kind \<Rightarrow>
   'p sum_worker \<Rightarrow> delivery \<times> 'p sum_worker" where
  "run_sum P send m c s q p f k w =
     (let h = r_handler (sw_runner w);
          seqs' = (if classify (h_inbox h) c s q k = NEW then snd (snd (f p (h_worker h, sw_seqs w))) else sw_seqs w) in
      (case attempt (run_direct (sum_ops P) send m c s q p (with_seqs (sw_seqs w) f) k) (sw_runner w) of
         (d, r') \<Rightarrow> (d, \<lparr>sw_runner = r', sw_seqs = seqs'\<rparr>)))"

definition su_handle_data ::
  "'p sum_processor_ops \<Rightarrow> (outbox_entry \<Rightarrow> py_error option) \<Rightarrow> int \<Rightarrow> int \<Rightarrow> int \<Rightarrow> bytes \<Rightarrow> 'p sum_worker \<Rightarrow> delivery \<times> 'p sum_worker" where
  "su_handle_data P send client_id sender_id seq payload =
     run_sum P send (ag_data_msg_id sender_id client_id seq) client_id sender_id seq payload (su_bfn_data client_id) DATA"

definition su_handle_upstream_eof ::
  "'p sum_processor_ops \<Rightarrow> sum_config \<Rightarrow> (outbox_entry \<Rightarrow> py_error option) \<Rightarrow> int \<Rightarrow> int \<Rightarrow> int \<Rightarrow> bytes \<Rightarrow> 'p sum_worker \<Rightarrow> delivery \<times> 'p sum_worker" where
  "su_handle_upstream_eof P cfg send client_id sender_id seq payload w =
     (case deserialize_control payload of
        Inl _ \<Rightarrow> (Nacked True, w)
      | Inr ctrl \<Rightarrow>
          if su_is_closed client_id (sw_state w) then (Acked, w)
          else run_sum P send (ag_data_msg_id sender_id client_id seq) client_id sender_id seq payload
                 (su_bfn_upstream_eof P cfg client_id (expected_total ctrl) (su_processed_count client_id (sw_state w))) DATA w)"

definition su_handle_abort ::
  "'p sum_processor_ops \<Rightarrow> sum_config \<Rightarrow> (outbox_entry \<Rightarrow> py_error option) \<Rightarrow> int \<Rightarrow> int \<Rightarrow> int \<Rightarrow> 'p sum_worker \<Rightarrow> delivery \<times> 'p sum_worker" where
  "su_handle_abort P cfg send client_id sender_id seq w =
     (if su_is_closed client_id (sw_state w) then (Acked, w)
      else run_sum P send (abort_msg_id sender_id client_id seq) client_id sender_id seq [] (su_bfn_abort cfg client_id) ABORT w)"

definition su_process_message ::
  "'p sum_processor_ops \<Rightarrow> sum_config \<Rightarrow> (outbox_entry \<Rightarrow> py_error option) \<Rightarrow> bytes \<Rightarrow> 'p sum_worker \<Rightarrow> delivery \<times> 'p sum_worker" where
  "su_process_message P cfg send message w =
     (case unpack_addressed_packet message of
        Inl _ \<Rightarrow> (Nacked True, w)
      | Inr (msg_type, client_id, sender_id, seq, payload) \<Rightarrow>
          if msg_type = message_type_value MT_DATA then su_handle_data P send client_id sender_id seq payload w
          else if msg_type = message_type_value MT_EOF then su_handle_upstream_eof P cfg send client_id sender_id seq payload w
          else if msg_type = message_type_value MT_ABORT then su_handle_abort P cfg send client_id sender_id seq w
          else (Nacked True, w))"

definition su_eof_received_msg_id :: "int \<Rightarrow> int \<Rightarrow> pystr" where
  "su_eof_received_msg_id client_id sender_id = lit ''er:'' @ int_str client_id @ [58] @ int_str sender_id"

definition su_handle_eof_received ::
  "'p sum_processor_ops \<Rightarrow> (outbox_entry \<Rightarrow> py_error option) \<Rightarrow> bytes \<Rightarrow> int \<Rightarrow> control_message \<Rightarrow> 'p sum_worker \<Rightarrow> delivery \<times> 'p sum_worker" where
  "su_handle_eof_received P send message client_id ctrl w =
     run_sum P send (su_eof_received_msg_id client_id (cm_sender_id ctrl)) client_id (cm_sender_id ctrl) client_id message
       (su_bfn_eof_received client_id ctrl (su_processed_count client_id (sw_state w))) CTRL_EOF_RECEIVED w"

text \<open>Calls of the coordinator that bypass the handler; their messages are sent directly.\<close>

definition on_sw_coordinator :: "(eof_coordinator, 'a) act \<Rightarrow> ('p sum_worker, 'a) act" where
  "on_sw_coordinator m = azoom sw_runner (\<lambda>r w. w\<lparr>sw_runner := r\<rparr>) (on_handler (on_worker (on_su_coordinator m)))"

definition su_send :: "(outbox_entry \<Rightarrow> py_error option) \<Rightarrow> pystr list \<Rightarrow> bytes \<Rightarrow> ('p sum_worker, unit) act" where
  "su_send send queues message =
     azoom sw_runner (\<lambda>r w. w\<lparr>sw_runner := r\<rparr>) (publish_direct send (broadcast_entries queues message))"

definition sw_attempt :: "('p sum_worker, unit) act \<Rightarrow> 'p sum_worker \<Rightarrow> delivery \<times> 'p sum_worker" where
  "sw_attempt m w = (case m w of (Inl _, w') \<Rightarrow> (Nacked True, w') | (Inr _, w') \<Rightarrow> (Acked, w'))"

definition su_handle_processed_request ::
  "(outbox_entry \<Rightarrow> py_error option) \<Rightarrow> int \<Rightarrow> control_message \<Rightarrow> 'p sum_worker \<Rightarrow> delivery \<times> 'p sum_worker" where
  "su_handle_processed_request send client_id ctrl w =
     (let count = su_processed_count client_id (sw_state w) in
      sw_attempt
        (abind (on_sw_coordinator (process_control_message MT_PROCESSED_REQUEST client_id ctrl count count)) (\<lambda>action.
         (case action of Some (SendAnswerAction q message) \<Rightarrow> su_send send [q] message | _ \<Rightarrow> areturn ()))) w)"

definition su_handle_flush_order ::
  "'p sum_processor_ops \<Rightarrow> sum_config \<Rightarrow> (outbox_entry \<Rightarrow> py_error option) \<Rightarrow> int \<Rightarrow> control_message \<Rightarrow> 'p sum_worker \<Rightarrow> delivery \<times> 'p sum_worker" where
  "su_handle_flush_order P cfg send client_id ctrl w =
     (if expected_for (su_coordinator (sw_state w)) client_id \<noteq> None then (Acked, w)
      else if su_is_closed client_id (sw_state w) then (Acked, w)
      else run_sum P send (ag_flush_order_msg_id client_id (cm_sender_id ctrl)) client_id (cm_sender_id ctrl) client_id []
             (su_bfn_flush_order P cfg client_id (cm_sender_id ctrl)) CTRL_FLUSH_ORDER w)"

definition su_handle_control ::
  "'p sum_processor_ops \<Rightarrow> sum_config \<Rightarrow> (outbox_entry \<Rightarrow> py_error option) \<Rightarrow> bytes \<Rightarrow> 'p sum_worker \<Rightarrow> delivery \<times> 'p sum_worker" where
  "su_handle_control P cfg send message w =
     (case parse_message message of
        Inl _ \<Rightarrow> (Nacked False, w)
      | Inr (msg_type, client_id, ctrl) \<Rightarrow>
          if msg_type = message_type_value MT_EOF_RECEIVED then su_handle_eof_received P send message client_id ctrl w
          else if msg_type = message_type_value MT_PROCESSED_REQUEST then su_handle_processed_request send client_id ctrl w
          else if msg_type = message_type_value MT_FLUSH_ORDER then su_handle_flush_order P cfg send client_id ctrl w
          else (Acked, w))"

definition su_handle_processed_answer ::
  "(outbox_entry \<Rightarrow> py_error option) \<Rightarrow> int \<Rightarrow> control_message \<Rightarrow> 'p sum_worker \<Rightarrow> delivery \<times> 'p sum_worker" where
  "su_handle_processed_answer send client_id ctrl =
     sw_attempt
       (abind (on_sw_coordinator (process_control_message MT_PROCESSED_ANSWER client_id ctrl 0 0)) (\<lambda>action.
        (case action of Some (BroadcastAction queues message _) \<Rightarrow> su_send send queues message | _ \<Rightarrow> areturn ())))"

definition su_handle_flush_ack ::
  "'p sum_processor_ops \<Rightarrow> sum_config \<Rightarrow> (outbox_entry \<Rightarrow> py_error option) \<Rightarrow> bytes \<Rightarrow> int \<Rightarrow> control_message \<Rightarrow> 'p sum_worker \<Rightarrow> delivery \<times> 'p sum_worker" where
  "su_handle_flush_ack P cfg send message client_id ctrl w =
     (if su_is_closed client_id (sw_state w) then (Acked, w)
      else
        (let ec = su_coordinator (sw_state w);
             already = has_flush_ack ec client_id (cm_sender_id ctrl);
             new_ack_count = flush_ack_count ec client_id + (if already then 0 else 1) in
         run_sum P send (ag_flush_ack_msg_id client_id (cm_sender_id ctrl)) client_id (cm_sender_id ctrl) client_id message
           (su_bfn_flush_ack P cfg client_id ctrl already new_ack_count) CTRL_FLUSH_ACK w))"

definition su_handle_response ::
  "'p sum_processor_ops \<Rightarrow> sum_config \<Rightarrow> (outbox_entry \<Rightarrow> py_error option) \<Rightarrow> bytes \<Rightarrow> 'p sum_worker \<Rightarrow> delivery \<times> 'p sum_worker" where
  "su_handle_response P cfg send message w =
     (case parse_message message of
        Inl _ \<Rightarrow> (Nacked False, w)
      | Inr (msg_type, client_id, ctrl) \<Rightarrow>
          if msg_type = message_type_value MT_PROCESSED_ANSWER then su_handle_processed_answer send client_id ctrl w
          else if msg_type = message_type_value MT_FLUSH_ACK then su_handle_flush_ack P cfg send message client_id ctrl w
          else (Acked, w))"

subsection \<open>The sum worker is durable\<close>

definition su_frame :: "'p sum_state \<Rightarrow> int \<times> int \<times> pystr \<times> pystr \<times> ec_mode \<times> int \<times> bool" where
  "su_frame s = coordinator_config (su_coordinator s)"

lemma keeps_su_data [keeps_intros]: "keeps su_frame (su_apply_data P c ch)"
  by (auto simp: keeps_def su_apply_data_def su_frame_def Let_def split: sum.splits prod.splits)

lemma keeps_on_su_coordinator [keeps_intros]: "keeps coordinator_config m \<Longrightarrow> keeps su_frame (on_su_coordinator m)"
  by (auto simp: keeps_def on_su_coordinator_def azoom_def su_frame_def split: prod.splits) (metis snd_conv)

lemma keeps_su_apply_change [keeps_intros]: "keeps su_frame (su_apply_change P ch)"
proof (induction P ch rule: su_apply_change.induct)
  case (1 P ch)
  have "su_frame (su_apply_close c s) = su_frame s"
    "su_frame (su_coordinator_update (cleanup_client c) s) = su_frame s" for c s
    by (simp_all add: su_frame_def su_apply_close_def cleanup_frame)
  with 1 show ?case
    by (subst su_apply_change.simps)
      (auto simp: su_replay_upstream_eof_def su_replay_msg_def intro!: keeps_intros split: sum.splits)
qed

interpretation su: worker_state "sum_ops P" "new_sum_state ec" "\<lambda>s. su_frame s = coordinator_config ec"
  for P :: "'p sum_processor_ops" and ec
proof
  show "su_frame (new_sum_state ec) = coordinator_config ec" by (simp add: su_frame_def new_sum_state_def)
  show "su_frame s' = coordinator_config ec"
    if "su_frame s = coordinator_config ec" "apply_change (sum_ops P) ch s = (Inr (), s')" for s ch s'
    using that keepsD [OF keeps_su_apply_change, of P ch s] by (simp add: sum_ops_def)
  show "worker_restore (sum_ops P) (worker_snapshot (sum_ops P) s) (new_sum_state ec) = (Inr (), s)"
    if "su_frame s = coordinator_config ec" for s
    using that
    by (simp add: sum_ops_def su_snapshot_def su_restore_def new_sum_state_def su_frame_def coordinator_restore_snapshot)
qed

definition su_msg :: "pystr \<Rightarrow> input_key \<Rightarrow> bool" where
  "su_msg m z \<longleftrightarrow> agg_msg m z \<or> (\<exists>c s. z = (c, s, c, CTRL_EOF_RECEIVED) \<and> m = su_eof_received_msg_id c s)"

lemma su_eof_received_id_new: "\<not> agg_msg (su_eof_received_msg_id c s) z"
  by (cases z) (auto simp: agg_id_defs su_eof_received_msg_id_def lit_def)

lemma su_eof_received_id_inject: "su_eof_received_msg_id c s = su_eof_received_msg_id c s' \<longleftrightarrow> s = s'"
  by (simp add: su_eof_received_msg_id_def)

interpretation su_ids: message_ids su_msg
proof
  show "x = y" if "su_msg m (c, x)" "su_msg m (c, y)" for m c x y
    using that agg_ids.msg_key [of m c x y] unfolding su_msg_def
    by (metis Pair_inject su_eof_received_id_new su_eof_received_id_inject)
  show "m = m'" if "su_msg m z" "su_msg m' z" for m m' z
  proof -
    have "\<not> agg_msg n (c, s, c, CTRL_EOF_RECEIVED)" for n c s by simp
    then show ?thesis using that agg_ids.msg_id [of m z m'] unfolding su_msg_def by (metis Pair_inject)
  qed
qed

interpretation su_durable: durable_worker su_msg "sum_ops P" "new_sum_state ec" "\<lambda>s. su_frame s = coordinator_config ec"
  for P :: "'p sum_processor_ops" and ec
  by unfold_locales

lemmas su_change_defs = su_data_change_def su_close_change_def su_upstream_eof_change_def su_msg_change_def
  su_cleanup_change_def su_compound_change_def su_abort_change_def

lemma su_change_ok [simp]:
  "state_change_ok (su_data_change c p)" "state_change_ok (su_close_change c)" "state_change_ok (su_upstream_eof_change c e n f)"
  "state_change_ok (su_msg_change t c s e k n f)" "state_change_ok (su_cleanup_change c)" "state_change_ok (su_abort_change c)"
  by (simp_all add: state_change_ok_def su_change_defs)

lemma su_compound_ok: "list_all state_change_ok chs \<Longrightarrow> state_change_ok (su_compound_change chs)"
  by (induction chs) (auto simp: state_change_ok_def su_compound_change_def)

lemma su_apply_simps:
  "su_apply_change P (su_data_change c p) = su_apply_data P c (su_data_change c p)"
  "su_apply_change P (su_close_change c) = amodify (su_apply_close c)"
  "su_apply_change P (su_upstream_eof_change c e n f) =
     abind (on_su_coordinator (on_upstream_eof c e n f)) (\<lambda>_. areturn ())"
  "su_apply_change P (su_cleanup_change c) = amodify (su_coordinator_update (cleanup_client c))"
  "su_apply_change P (su_compound_change chs) = afor (su_apply_change P) chs"
  by (subst su_apply_change.simps,
      simp add: su_change_defs jget_simps su_replay_upstream_eof_def fun_eq_iff act_defs)+

lemma su_apply_msg:
  "su_apply_change P (su_msg_change t c s e p n f) =
     abind (on_su_coordinator (process_control_message t c
       \<lparr>cm_sender_id = s, expected_total = e, processed_count = p\<rparr> n f)) (\<lambda>_. areturn ())"
  by (subst su_apply_change.simps)
    (simp add: su_msg_change_def jget_simps su_replay_msg_def fun_eq_iff act_defs)

text \<open>The outputs of a flush are plain outputs; the functions that build them leave the durable state alone.\<close>

lemma partials_outputs_ok: "partials_outputs cfg c ps seqs = (Inr outs, seqs') \<Longrightarrow> list_all out_ok outs"
proof (induction ps arbitrary: seqs outs)
  case (Cons x ps)
  then show ?case by (cases x) (auto simp: abind_eq_Inr areturn_def out_ok_def)
qed (simp add: areturn_def)

lemma broadcast_outputs_ok: "broadcast_outputs cfg t c p is seqs = (Inr outs, seqs') \<Longrightarrow> list_all out_ok outs"
proof (induction "is" arbitrary: seqs outs)
  case (Cons x xs)
  then show ?case by (auto simp: abind_eq_Inr areturn_def out_ok_def)
qed (simp add: areturn_def)

lemma on_seqs_Inr: "on_seqs m w = (Inr x, w') \<longleftrightarrow> (\<exists>q. m (snd w) = (Inr x, q) \<and> w' = (fst w, q))"
  by (auto simp: on_seqs_def azoom_def split: prod.splits)

lemma on_state_aget: "on_state (aget g) w = (Inr x, w') \<longleftrightarrow> x = g (fst w) \<and> w' = w"
  by (cases w) (auto simp: on_state_def azoom_def aget_def)

lemma flush_outputs_Inr:
  assumes "flush_outputs P cfg c n w = (Inr outs, w')"
  shows "fst w' = fst w \<and> list_all out_ok outs"
  using assms
  by (auto simp: flush_outputs_def eof_outputs_def abind_eq_Inr on_seqs_Inr on_state_aget areturn_def alift_def
      dest: partials_outputs_ok broadcast_outputs_ok)

text \<open>A function that leaves the durable state alone when it returns is replay consistent.\<close>

lemma su_business_pure:
  assumes "\<And>ch outs w'. f p (s, seqs) = (Inr (ch, outs), w') \<Longrightarrow> fst w' = s \<and> state_change_ok ch \<and> list_all out_ok outs"
  shows "business_ok W (with_seqs seqs f) p s"
  using assms by (auto simp: business_ok_def with_seqs_def split: prod.splits sum.splits)

lemma su_business_simple:
  "business_ok W (with_seqs seqs (su_bfn_data c)) p s"
  "business_ok W (with_seqs seqs (su_bfn_abort cfg c)) p s"
  "business_ok W (with_seqs seqs (su_bfn_flush_order P cfg c leader)) p s"
  "business_ok W (with_seqs seqs (su_bfn_flush_ack P cfg c ctrl already n)) p s"
proof -
  show "business_ok W (with_seqs seqs (su_bfn_data c)) p s"
    by (rule su_business_pure) (auto simp: su_bfn_data_def areturn_def)
  show "business_ok W (with_seqs seqs (su_bfn_abort cfg c)) p s"
    by (rule su_business_pure)
      (auto simp: su_bfn_abort_def downstream_abort_outputs_def abind_eq_Inr on_seqs_Inr areturn_def dest: broadcast_outputs_ok)
  show "business_ok W (with_seqs seqs (su_bfn_flush_order P cfg c leader)) p s"
    by (rule su_business_pure)
      (auto simp: su_bfn_flush_order_def abind_eq_Inr on_seqs_Inr on_state_aget alift_def areturn_def out_ok_def su_compound_ok
        dest: partials_outputs_ok)
  show "business_ok W (with_seqs seqs (su_bfn_flush_ack P cfg c ctrl already n)) p s"
    by (rule su_business_pure)
      (auto simp: su_bfn_flush_ack_def Let_def abind_eq_Inr on_state_aget areturn_def su_compound_ok split: if_splits
        dest: flush_outputs_Inr)
qed

text \<open>
  The two functions that call the coordinator before the record is written: replaying the call on the state
  they leave changes nothing more.
\<close>

lemma eof_received_again:
  assumes "process_control_message MT_EOF_RECEIVED c ctrl n f ec = (Inr a, ec')"
  shows "process_control_message MT_EOF_RECEIVED c ctrl n f ec' = (Inr None, ec')"
  using assms by (auto simp: process_control_message_def on_eof_received_def Let_def split: if_splits)

lemma su_apply_eof_again:
  assumes "on_upstream_eof c e n f (su_coordinator s) = (Inr a, ec')"
  shows "su_apply_change P (su_upstream_eof_change c e n f) (s\<lparr>su_coordinator := ec'\<rparr>) =
    su_apply_change P (su_upstream_eof_change c e n f) s"
  using assms on_upstream_eof_again [OF assms] by (auto simp: su_apply_simps act_defs on_su_coordinator_def)

lemma su_business_coordinator:
  "business_ok (sum_ops P) (with_seqs seqs (su_bfn_upstream_eof P cfg c e n)) p s"
  "business_ok (sum_ops P) (with_seqs seqs (su_bfn_eof_received c ctrl n)) p s"
proof -
  show "business_ok (sum_ops P) (with_seqs seqs (su_bfn_eof_received c ctrl n)) p s"
  proof (cases "process_control_message MT_EOF_RECEIVED c ctrl n n (su_coordinator s)")
    case (Pair r ec')
    obtain a where a: "r = Inr a \<or> (\<exists>e. r = Inl e)" by (cases r) auto
    show ?thesis
    proof (cases r)
      case (Inl e)
      with Pair show ?thesis by (simp add: business_ok_def with_seqs_def su_bfn_eof_received_def act_defs on_state_def on_su_coordinator_def)
    next
      case (Inr a)
      from eof_received_again [OF Pair [unfolded Inr]] Pair Inr show ?thesis
        by (cases ctrl)
          (auto simp: business_ok_def with_seqs_def su_bfn_eof_received_def act_defs on_state_def on_su_coordinator_def Let_def out_ok_def
            sum_ops_def su_apply_msg split: option.splits coordinator_action.splits)
    qed
  qed
  show "business_ok (sum_ops P) (with_seqs seqs (su_bfn_upstream_eof P cfg c e n)) p s"
  proof (cases "on_upstream_eof c e n n (su_coordinator s)")
    case (Pair r ec')
    show ?thesis
    proof (cases r)
      case (Inl x)
      with Pair show ?thesis by (simp add: business_ok_def with_seqs_def su_bfn_upstream_eof_def act_defs on_state_def on_su_coordinator_def)
    next
      case (Inr a)
      let ?ch = "su_upstream_eof_change c e n n" and ?s = "s\<lparr>su_coordinator := ec'\<rparr>"
      have same: "su_apply_change P ?ch ?s = su_apply_change P ?ch s" using su_apply_eof_again Pair Inr by blast
      then have comp: "su_apply_change P (su_compound_change [?ch, su_close_change c]) ?s =
          su_apply_change P (su_compound_change [?ch, su_close_change c]) s"
        by (simp only: su_apply_simps(5) afor.simps abind_def)
      have call: "on_state (on_su_coordinator (on_upstream_eof c e n n)) (s, seqs) = (Inr a, (?s, seqs))"
        using Pair Inr by (simp add: on_state_def on_su_coordinator_def azoom_def)
      show ?thesis
        unfolding business_ok_def with_seqs_def su_bfn_upstream_eof_def
        using same comp call
        by (auto simp: abind_def areturn_def Let_def out_ok_def su_compound_ok sum_ops_def list_all_iff
            split: option.splits coordinator_action.splits prod.splits sum.splits dest!: flush_outputs_Inr)
    qed
  qed
qed

subsection \<open>Properties\<close>

text \<open>An output to an aggregator: where it goes and what its packet says.\<close>

definition agg_output :: "sum_config \<Rightarrow> message_type \<Rightarrow> int \<Rightarrow> int \<Rightarrow> int \<Rightarrow> bytes \<Rightarrow> logical_output \<Rightarrow> bool" where
  "agg_output cfg t c index seq payload out \<longleftrightarrow>
     (case out of
        Out2 dest pkt \<Rightarrow> dest = agg_routing_key cfg index \<and>
          unpack_addressed_packet pkt = Inr (message_type_value t, c, suc_id cfg, seq, payload)
      | _ \<Rightarrow> False)"

lemma su_packet_output:
  "su_packet cfg t c q payload = Inr pkt \<Longrightarrow> agg_output cfg t c i q payload (Out2 (agg_routing_key cfg i) pkt)"
  by (auto simp: su_packet_def agg_output_def rbind_eq_Inr dest: addressed_packet_roundtrip)

lemma next_agg_seq_Inr:
  assumes "next_agg_seq c seqs = (Inr q, seqs')" and "0 \<le> dget seqs c 0" and "dget seqs c 0 + 1 < 2 ^ 32"
  shows "q = dget seqs c 0 \<and> dget seqs' c 0 = dget seqs c 0 + 1"
  using assms by (auto simp: next_agg_seq_def Let_def)

lemma partials_outputs_numbered:
  assumes "partials_outputs cfg c ps seqs = (Inr outs, seqs')"
    and "0 \<le> dget seqs c 0" and "dget seqs c 0 + int (length ps) < 2 ^ 32"
  shows "dget seqs' c 0 = dget seqs c 0 + int (length ps) \<and> length outs = length ps \<and>
    (\<forall>i < length ps. \<exists>index. aggregation_index cfg (fst (ps ! i)) = Inr index \<and>
       agg_output cfg MT_DATA c index (dget seqs c 0 + int i) (snd (ps ! i)) (outs ! i))"
  using assms
proof (induction ps arbitrary: seqs outs)
  case (Cons x ps)
  obtain k payload where x: "x = (k, payload)" by (cases x)
  from Cons.prems(1) obtain index q pkt seqs1 outs1 where
    step: "aggregation_index cfg k = Inr index" "next_agg_seq c seqs = (Inr q, seqs1)" "su_packet cfg MT_DATA c q payload = Inr pkt"
      "partials_outputs cfg c ps seqs1 = (Inr outs1, seqs')" "outs = Out2 (agg_routing_key cfg index) pkt # outs1"
    by (auto simp: x abind_eq_Inr areturn_def alift_def)
  have q: "q = dget seqs c 0" "dget seqs1 c 0 = dget seqs c 0 + 1"
    using next_agg_seq_Inr [OF step(2)] Cons.prems by auto
  have "dget seqs1 c 0 + int (length ps) < 2 ^ 32" "0 \<le> dget seqs1 c 0" using Cons.prems q by auto
  from Cons.IH [OF step(4) this(2,1)] su_packet_output [OF step(3), of index] show ?case
    using step q x by (auto simp: nth_Cons' less_Suc_eq_0_disj add_ac)
qed (simp add: areturn_def)

lemma broadcast_outputs_numbered:
  assumes "broadcast_outputs cfg t c payload is seqs = (Inr outs, seqs')"
    and "0 \<le> dget seqs c 0" and "dget seqs c 0 + int (length is) < 2 ^ 32"
  shows "length outs = length is \<and>
    (\<forall>i < length is. agg_output cfg t c (is ! i) (dget seqs c 0 + int i) payload (outs ! i))"
  using assms
proof (induction "is" arbitrary: seqs outs)
  case (Cons x xs)
  from Cons.prems(1) obtain q pkt seqs1 outs1 where
    step: "next_agg_seq c seqs = (Inr q, seqs1)" "su_packet cfg t c q payload = Inr pkt"
      "broadcast_outputs cfg t c payload xs seqs1 = (Inr outs1, seqs')" "outs = Out2 (agg_routing_key cfg x) pkt # outs1"
    by (auto simp: abind_eq_Inr areturn_def alift_def)
  have q: "q = dget seqs c 0" "dget seqs1 c 0 = dget seqs c 0 + 1"
    using next_agg_seq_Inr [OF step(1)] Cons.prems by auto
  have "dget seqs1 c 0 + int (length xs) < 2 ^ 32" "0 \<le> dget seqs1 c 0" using Cons.prems q by auto
  from Cons.IH [OF step(3) this(2,1)] su_packet_output [OF step(2), of x] show ?case
    using step q by (auto simp: nth_Cons' less_Suc_eq_0_disj add_ac)
qed (simp add: areturn_def)

lemma flush_outputs_numbered:
  assumes "flush_outputs P cfg c acked (s, seqs) = (Inr outs, w)" and "partials_for P c s = Inr ps"
    and "0 \<le> dget seqs c 0" and "dget seqs c 0 + int (length ps) + int (nat (suc_aggregation_amount cfg)) < 2 ^ 32"
  shows "length outs = length ps + nat (suc_aggregation_amount cfg) \<and>
    (\<forall>i < length ps. \<exists>index. aggregation_index cfg (fst (ps ! i)) = Inr index \<and>
       agg_output cfg MT_DATA c index (dget seqs c 0 + int i) (snd (ps ! i)) (outs ! i)) \<and>
    (\<forall>j < nat (suc_aggregation_amount cfg). \<exists>eof. deserialize_control eof =
         Inr \<lparr>cm_sender_id = suc_id cfg, expected_total = acked + int (length ps), processed_count = 0\<rparr> \<and>
       agg_output cfg MT_EOF c (int j) (dget seqs c 0 + int (length ps + j)) eof (outs ! (length ps + j)))"
proof -
  from assms(1,2) obtain data seqs1 eof eofs seqs2 where
    run: "partials_outputs cfg c ps seqs = (Inr data, seqs1)" "su_eof_payload cfg (acked + int (length ps)) = Inr eof"
      "broadcast_outputs cfg MT_EOF c eof [0..suc_aggregation_amount cfg - 1] seqs1 = (Inr eofs, seqs2)" and outs: "outs = data @ eofs"
    by (auto simp: flush_outputs_def eof_outputs_def abind_eq_Inr on_seqs_Inr on_state_aget areturn_def alift_def)
  note D = partials_outputs_numbered [OF run(1) assms(3)]
  have "dget seqs c 0 + int (length ps) < 2 ^ 32" using assms(4) by linarith
  note D = D [OF this]
  then have "0 \<le> dget seqs1 c 0" "dget seqs1 c 0 + int (length [0..suc_aggregation_amount cfg - 1]) < 2 ^ 32"
    using assms(3,4) by auto
  note E = broadcast_outputs_numbered [OF run(3) this]
  have "deserialize_control eof = Inr \<lparr>cm_sender_id = suc_id cfg, expected_total = acked + int (length ps), processed_count = 0\<rparr>"
    using run(2) by (auto simp: su_eof_payload_def intro: control_roundtrip)
  with D E show ?thesis by (auto simp: outs nth_append add_ac)
qed

text \<open>
  C39: the last acknowledgement makes the leader of a client flush it completely, when the call returns and the
  sequence numbers of the client stay below \<open>2 ^ 32\<close>. Each partial goes, in one
  data packet, to the aggregator its key hashes to; then every aggregator gets one EOF that announces
  the partials acknowledged by the other replicas plus the leader's own; the packets of the client carry
  consecutive sequence numbers; and the logged change closes the client.
\<close>

theorem sum_leader_flush:
  assumes "su_bfn_flush_ack P cfg c ctrl already n payload (s, seqs) = (Inr (ch, outs), w)"
    and "suc_amount cfg - 1 \<le> n" and "partials_for P c s = Inr ps" and "0 \<le> dget seqs c 0"
    and "dget seqs c 0 + int (length ps) + int (nat (suc_aggregation_amount cfg)) < 2 ^ 32"
  shows "length outs = length ps + nat (suc_aggregation_amount cfg) \<and>
    (\<forall>i < length ps. \<exists>index. shard_for_key (KStr (fst (ps ! i))) (suc_aggregation_amount cfg) = Inr index \<and>
       agg_output cfg MT_DATA c index (dget seqs c 0 + int i) (snd (ps ! i)) (outs ! i)) \<and>
    (\<forall>j < nat (suc_aggregation_amount cfg). \<exists>eof. deserialize_control eof =
         Inr \<lparr>cm_sender_id = suc_id cfg, expected_total = accumulated_forwarded (su_coordinator s) c +
                (if already then 0 else processed_count ctrl) + int (length ps), processed_count = 0\<rparr> \<and>
       agg_output cfg MT_EOF c (int j) (dget seqs c 0 + int (length ps + j)) eof (outs ! (length ps + j))) \<and>
    (\<forall>s'. su_apply_change P ch s = (Inr (), s') \<longrightarrow> su_is_closed c s')"
proof -
  from assms(1,2) have flush: "flush_outputs P cfg c
      (accumulated_forwarded (su_coordinator s) c + (if already then 0 else processed_count ctrl)) (s, seqs) = (Inr outs, w)"
    and ch: "\<exists>a. ch = su_compound_change [a, su_close_change c]"
    by (auto simp: su_bfn_flush_ack_def Let_def abind_eq_Inr on_state_aget areturn_def)
  have "su_is_closed c s'" if "su_apply_change P ch s = (Inr (), s')" for s'
    using ch that by (auto simp: su_apply_simps abind_eq_Inr amodify_def areturn_def su_is_closed_def su_apply_close_def)
  with flush_outputs_numbered [OF flush assms(3-5)] show ?thesis
    unfolding aggregation_index_def by blast
qed

definition demo_sum :: sum_config where
  "demo_sum = \<lparr>suc_id = 1, suc_amount = 2, suc_aggregation_amount = 2, suc_aggregation_prefix = lit ''agg''\<rparr>"

definition demo_sum_state :: "q3_sums sum_state" where
  "demo_sum_state =
     \<lparr>su_coordinator =
        \<lparr>ec_id = 1, ec_total = 2, ec_control_prefix = lit ''c'', ec_response_prefix = lit ''r'', ec_mode = Broadcast,
         ec_leader_id = 0, ec_is_leader = False, pending_eof = [], seen_eof = {7}, leader_expected = [(7, 3)],
         leader_processed = [(7, 3)], leader_responders = [], flush_acks = [], forwarded_from_acks = []\<rparr>,
      su_processed = [(7, 1)],
      su_processors = [(7, \<lparr>amount_sum_by_payment_format = [(lit ''ACH'', 0)], count_by_payment_format = [(lit ''ACH'', 1)]\<rparr>)],
      su_closed = {}\<rparr>"

text \<open>
  The leader of client 7 holds one partial, the other of the two replicas acknowledges 2 partials: the run
  returns one data packet and two EOFs that announce 3 partials.
\<close>

theorem sum_leader_flush_witness:
  "\<exists>ch outs w. su_bfn_flush_ack q3_sum_processor demo_sum 7 \<lparr>cm_sender_id = 0, expected_total = 0, processed_count = 2\<rparr> False 1 []
       (demo_sum_state, []) = (Inr (ch, outs), w) \<and> length outs = 3 \<and>
     (\<exists>index payload. shard_for_key (KStr (lit ''ACH'')) 2 = Inr index \<and> agg_output demo_sum MT_DATA 7 index 0 payload (outs ! 0)) \<and>
     (\<forall>j < 2. \<exists>eof. deserialize_control eof = Inr \<lparr>cm_sender_id = 1, expected_total = 3, processed_count = 0\<rparr> \<and>
        agg_output demo_sum MT_EOF 7 (int j) (1 + int j) eof (outs ! (1 + j))) \<and>
     (\<exists>s'. su_apply_change q3_sum_processor ch demo_sum_state = (Inr (), s') \<and> su_is_closed 7 s')"
proof -
  let ?ctrl = "\<lparr>cm_sender_id = 0, expected_total = 0, processed_count = 2\<rparr> :: control_message"
  let ?run = "su_bfn_flush_ack q3_sum_processor demo_sum 7 ?ctrl False 1 [] (demo_sum_state, [])"
  have "case q3_partial_tuple (lit ''ACH'') 0 1 of Inl _ \<Rightarrow> False | Inr p \<Rightarrow> fst p = lit ''ACH''" by code_simp
  then obtain b where b: "q3_partial_tuple (lit ''ACH'') 0 1 = Inr (lit ''ACH'', b)" by (auto split: sum.splits)
  then have ps: "partials_for q3_sum_processor 7 demo_sum_state = Inr [(lit ''ACH'', b)]"
    by (simp add: partials_for_def demo_sum_state_def q3_sum_processor_def q3_sum_partials_def)
  have "key_bytes (KStr (lit ''ACH'')) = Inr [65, 67, 72]" by code_simp
  then obtain index where "shard_for_key (KStr (lit ''ACH'')) 2 = Inr index" using shard_for_key_total [of 2] by fastforce
  then have index: "aggregation_index demo_sum (lit ''ACH'') = Inr index" by (simp add: aggregation_index_def demo_sum_def)
  have packet: "\<exists>pkt. su_packet demo_sum t 7 q pl = Inr pkt" if "q \<in> {0, 1, 2}" for t q pl
    using that by (cases t) (auto simp: su_packet_def client_id_to_bytes_def create_addressed_packet_def pack_uint_def demo_sum_def)
  have "case su_eof_payload demo_sum 3 of Inl _ \<Rightarrow> False | Inr eof \<Rightarrow> True" by code_simp
  then obtain eof where "su_eof_payload demo_sum 3 = Inr eof" by (auto split: sum.splits)
  moreover obtain p0 where "su_packet demo_sum MT_DATA 7 0 b = Inr p0" using packet by blast
  moreover obtain p1 where "su_packet demo_sum MT_EOF 7 1 eof = Inr p1" using packet by blast
  moreover obtain p2 where "su_packet demo_sum MT_EOF 7 2 eof = Inr p2" using packet by blast
  moreover have acked: "accumulated_forwarded (su_coordinator demo_sum_state) 7 = 0"
    by (simp add: accumulated_forwarded_def demo_sum_state_def)
  moreover have cfg: "suc_amount demo_sum = 2" "suc_aggregation_amount demo_sum = 2" by (simp_all add: demo_sum_def)
  moreover have "[0..1] = [0, 1::int]" by code_simp
  ultimately obtain ch outs w where run: "?run = (Inr (ch, outs), w)"
    using ps index
    by (simp add: su_bfn_flush_ack_def flush_outputs_def eof_outputs_def abind_def areturn_def alift_def on_state_def on_seqs_def
        azoom_def aget_def next_agg_seq_def dget_def Let_def)
  note flushed = sum_leader_flush [OF run _ ps]
  have "length outs = 3" "\<forall>j < 2. \<exists>eof. deserialize_control eof =
      Inr \<lparr>cm_sender_id = 1, expected_total = 3, processed_count = 0\<rparr> \<and>
      agg_output demo_sum MT_EOF 7 (int j) (1 + int j) eof (outs ! (1 + j))"
    "\<exists>index. shard_for_key (KStr (lit ''ACH'')) 2 = Inr index \<and> agg_output demo_sum MT_DATA 7 index 0 b (outs ! 0)"
    "\<forall>s'. su_apply_change q3_sum_processor ch demo_sum_state = (Inr (), s') \<longrightarrow> su_is_closed 7 s'"
    using flushed by (simp_all add: demo_sum_def acked)
  moreover have "ch = su_compound_change [su_msg_change MT_FLUSH_ACK 7 0 0 2 0 0, su_close_change 7]"
    using run cfg by (auto simp: su_bfn_flush_ack_def Let_def abind_eq_Inr on_state_aget areturn_def)
  then have "\<exists>s'. su_apply_change q3_sum_processor ch demo_sum_state = (Inr (), s')"
    by (simp add: su_apply_simps su_apply_msg process_control_message_def on_flush_ack_def act_defs on_su_coordinator_def Let_def)
  ultimately show ?thesis using run by blast
qed

end
