(* ===== verification/FanIn.thy ===== *)
theory FanIn
  imports UpstreamEof Joiner Serializers
begin

text \<open>
  What the scatter-gather workers under \<open>workers/scatter_gather\<close> share: a state keyed by client that is
  changed only by logged changes of a few kinds, closed when the EOF of the last upstream shard arrives; the
  packets for a downstream exchange with an explicit shard; and the small helpers on dictionaries and
  lists they repeat (\<open>defaultdict(list)\<close>, counters in nested dictionaries, \<open>_chunks\<close>).
\<close>

subsection \<open>Changes and their dispatch\<close>

definition fi_data_change :: "int \<Rightarrow> bytes \<Rightarrow> json" where
  "fi_data_change client_id payload =
     JObj [(lit ''type'', JStr (lit ''data'')), (lit ''client_id'', JInt client_id),
           (lit ''payload_b64'', JStr (b64encode payload))]"

definition fi_eof_change :: "int \<Rightarrow> int \<Rightarrow> json" where
  "fi_eof_change client_id sender_id =
     JObj [(lit ''type'', JStr (lit ''eof'')), (lit ''client_id'', JInt client_id), (lit ''sender_id'', JInt sender_id)]"

definition fi_close_change :: "int \<Rightarrow> json" where
  "fi_close_change client_id = JObj [(lit ''type'', JStr (lit ''close'')), (lit ''client_id'', JInt client_id)]"

definition fi_compound_change :: "json list \<Rightarrow> json" where
  "fi_compound_change changes = JObj [(lit ''type'', JStr (lit ''compound'')), (lit ''changes'', JList changes)]"

text \<open>
  \<open>apply_change\<close>: a compound change applies its parts in order, any other is dispatched by its kind to an
  operation on its client. The operations are given as a table.
\<close>

type_synonym 's change_ops = "pystr \<Rightarrow> (int \<Rightarrow> json \<Rightarrow> ('s, unit) act) option"

function dispatch_change :: "'s change_ops \<Rightarrow> json \<Rightarrow> ('s, unit) act" where
  "dispatch_change ops change =
     (case jget_str change ''type'' of
        Inl e \<Rightarrow> araise e
      | Inr kind \<Rightarrow>
          if kind = lit ''compound'' then
            (case jget_list change ''changes'' of
               Inl e \<Rightarrow> araise e
             | Inr subs \<Rightarrow> afor (\<lambda>sub. dispatch_change ops sub) subs)
          else
            (case jget_int change ''client_id'' of
               Inl e \<Rightarrow> araise e
             | Inr client_id \<Rightarrow>
                 (case ops kind of None \<Rightarrow> araise ValueError | Some f \<Rightarrow> f client_id change)))"
  by pat_completeness auto
termination
  by (relation "measure (\<lambda>(ops, change). size change)") (auto dest: jget_list_size)

declare dispatch_change.simps [simp del]

lemma afor_invariant:
  assumes "\<And>x s. x \<in> set xs \<Longrightarrow> I s \<Longrightarrow> I (snd (f x s))" and "I s"
  shows "I (snd (afor f xs s))"
  using assms
proof (induction xs arbitrary: s)
  case (Cons x xs)
  from Cons.prems(1) [of x s] Cons.prems(2) have "I (snd (f x s))" by simp
  with Cons.IH Cons.prems(1) show ?case by (auto simp: abind_def split: prod.splits sum.splits)
qed (simp add: areturn_def)

text \<open>What every operation preserves, every change preserves.\<close>

lemma dispatch_invariant:
  assumes step: "\<And>kind f c ch s. ops kind = Some f \<Longrightarrow> I s \<Longrightarrow> I (snd (f c ch s))" and "I s"
  shows "I (snd (dispatch_change ops ch s))"
  using assms
proof (induction ops ch arbitrary: s rule: dispatch_change.induct)
  case (1 ops ch)
  show ?case
  proof (cases "jget_str ch ''type''")
    case (Inl e)
    with 1 show ?thesis by (simp add: dispatch_change.simps [of ops ch] araise_def)
  next
    case kind: (Inr kind)
    show ?thesis
    proof (cases "kind = lit ''compound''")
      case True
      show ?thesis
      proof (cases "jget_list ch ''changes''")
        case (Inl e)
        with 1 kind True show ?thesis by (simp add: dispatch_change.simps [of ops ch] araise_def)
      next
        case (Inr subs)
        have "I (snd (afor (dispatch_change ops) subs s))"
          by (rule afor_invariant) (use 1 kind True Inr in blast)+
        with kind True Inr show ?thesis by (simp add: dispatch_change.simps [of ops ch])
      qed
    next
      case False
      with 1(2,3) kind show ?thesis
        by (simp add: dispatch_change.simps [of ops ch] araise_def split: sum.splits option.splits)
    qed
  qed
qed

lemma fi_dispatch_simps:
  "dispatch_change ops (fi_compound_change chs) = afor (dispatch_change ops) chs"
  "ops (lit ''data'') = Some f \<Longrightarrow> dispatch_change ops (fi_data_change c p) = f c (fi_data_change c p)"
  "ops (lit ''eof'') = Some f \<Longrightarrow> dispatch_change ops (fi_eof_change c n) = f c (fi_eof_change c n)"
  "ops (lit ''close'') = Some f \<Longrightarrow> dispatch_change ops (fi_close_change c) = f c (fi_close_change c)"
  by (subst dispatch_change.simps,
      simp add: fi_compound_change_def fi_data_change_def fi_eof_change_def fi_close_change_def jget_simps)+

lemma fi_change_ok [simp]:
  "state_change_ok (fi_data_change c p)" "state_change_ok (fi_eof_change c n)" "state_change_ok (fi_close_change c)"
  "state_change_ok (fi_compound_change [fi_eof_change c n, fi_close_change c])"
  by (simp_all add: state_change_ok_def fi_data_change_def fi_eof_change_def fi_close_change_def fi_compound_change_def)

lemma fi_payload:
  "rbind (jget_str (fi_data_change c p) ''payload_b64'') b64decode = Inr p"
  by (simp add: fi_data_change_def jget_simps b64_roundtrip)

text \<open>
  The contract of such a state: an operation never reopens a client, \<open>close\<close> closes it, and a closed
  client ignores data.
\<close>

locale closing_state =
  fixes ops :: "'s change_ops" and closed :: "'s \<Rightarrow> int set"
  assumes op_keeps_closed: "ops kind = Some f \<Longrightarrow> closed s \<subseteq> closed (snd (f c ch s))"
    and close_closes: "\<exists>f. ops (lit ''close'') = Some f \<and> (\<forall>ch s. fst (f c ch s) = Inr () \<and> c \<in> closed (snd (f c ch s)))"
    and data_ignored: "\<exists>f. ops (lit ''data'') = Some f \<and> (\<forall>ch s. c \<in> closed s \<longrightarrow> f c ch s = (Inr (), s))"
begin

lemma stays_closed: "c \<in> closed s \<Longrightarrow> c \<in> closed (snd (dispatch_change ops ch s))"
  by (rule dispatch_invariant) (use op_keeps_closed in blast)+

lemma close_change_closes: "c \<in> closed (snd (dispatch_change ops (fi_close_change c) s))"
  using close_closes [of c] by (auto simp: fi_dispatch_simps)

lemma late_data_ignored: "c \<in> closed s \<Longrightarrow> dispatch_change ops (fi_data_change c p) s = (Inr (), s)"
  using data_ignored [of c] by (auto simp: fi_dispatch_simps)

lemma flush_closes:
  assumes "dispatch_change ops (fi_compound_change [ch, fi_close_change c]) s = (Inr (), s')"
  shows "c \<in> closed s'"
proof -
  from assms obtain s1 where "dispatch_change ops (fi_close_change c) s1 = (Inr (), s')"
    by (auto simp: fi_dispatch_simps abind_eq_Inr areturn_def)
  with close_change_closes [of c s1] show ?thesis by simp
qed

end

text \<open>The EOF counter keeps its expectation, and a snapshot gives the rest back.\<close>

lemma on_eof_expected [simp]: "uc_expected (snd (on_eof c n u)) = uc_expected u"
  by (simp add: on_eof_def Let_def)

lemma uc_close_expected [simp]: "uc_expected (uc_close c u) = uc_expected u"
  by (simp add: uc_close_def)

lemma uc_restore_snapshot: "uc_expected u = n \<Longrightarrow> uc_restore (uc_snapshot u) (new_eof_counter n) = u"
  by (cases u) (simp add: uc_restore_def uc_snapshot_def new_eof_counter_def)

subsection \<open>Packets with an explicit shard\<close>

definition fi_packet :: "message_type \<Rightarrow> int \<Rightarrow> bytes \<Rightarrow> bytes res" where
  "fi_packet msg_type client_id payload =
     rbind (client_id_to_bytes client_id) (\<lambda>client_bytes. create_packet (message_type_value msg_type) client_bytes payload)"

definition fi_control_payload :: "int \<Rightarrow> int \<Rightarrow> int \<Rightarrow> bytes res" where
  "fi_control_payload sender expected processed =
     serialize_control \<lparr>cm_sender_id = sender, expected_total = expected, processed_count = processed\<rparr>"

text \<open>One packet to each of the shards \<open>0 .. amount - 1\<close> of an edge; the payload may depend on the shard.\<close>

definition fi_broadcast :: "pystr \<Rightarrow> int \<Rightarrow> message_type \<Rightarrow> int \<Rightarrow> (int \<Rightarrow> bytes res) \<Rightarrow> logical_output list res" where
  "fi_broadcast edge amount msg_type client_id payload =
     rmap (\<lambda>shard. rbind (payload shard) (\<lambda>b. rbind (fi_packet msg_type client_id b) (\<lambda>pkt. Inr (Out3 edge pkt (Some shard)))))
       [0..amount - 1]"

text \<open>\<open>_chunks(items, size)\<close>: \<open>range\<close> raises on a step of 0 and is empty on a negative one.\<close>

function pieces :: "nat \<Rightarrow> 'a list \<Rightarrow> 'a list list" where
  "pieces n xs = (if n = 0 \<or> xs = [] then [] else take n xs # pieces n (drop n xs))"
  by pat_completeness auto
termination
  by (relation "measure (\<lambda>(n, xs). length xs)") auto

declare pieces.simps [simp del]

lemma concat_pieces: "0 < n \<Longrightarrow> concat (pieces n xs) = xs"
proof (induction n xs rule: pieces.induct)
  case (1 n xs)
  then show ?case by (subst pieces.simps) auto
qed

lemma pieces_length: "p \<in> set (pieces n xs) \<Longrightarrow> p \<noteq> [] \<and> length p \<le> n"
proof (induction n xs rule: pieces.induct)
  case (1 n xs)
  from 1(2) show ?case by (subst (asm) pieces.simps) (use 1(1) in \<open>auto split: if_splits\<close>)
qed

definition chunks :: "int \<Rightarrow> 'a list \<Rightarrow> 'a list list res" where
  "chunks n items = (if n = 0 then Inl ValueError else Inr (pieces (nat n) items))"

text \<open>The batches of one shard.\<close>

definition fi_batches :: "pystr \<Rightarrow> int \<Rightarrow> ('a list \<Rightarrow> bytes res) \<Rightarrow> int \<Rightarrow> int \<times> 'a list \<Rightarrow> logical_output list res" where
  "fi_batches edge len ser client_id = (\<lambda>(shard, items).
     rbind (chunks len items) (\<lambda>cs.
     rmap (\<lambda>chunk. rbind (ser chunk) (\<lambda>b. rbind (fi_packet MT_DATA client_id b) (\<lambda>pkt. Inr (Out3 edge pkt (Some shard))))) cs))"

lemma rmap_all:
  assumes "rmap f xs = Inr ys" and "\<And>x y. x \<in> set xs \<Longrightarrow> f x = Inr y \<Longrightarrow> P y"
  shows "list_all P ys"
  using assms
proof (induction xs arbitrary: ys)
  case (Cons x xs)
  from Cons.prems(1) obtain y zs where y: "f x = Inr y" "rmap f xs = Inr zs" "ys = y # zs" by auto
  have "P y" using Cons.prems(2) [of x y] y(1) by simp
  moreover have "list_all P zs" by (rule Cons.IH [OF y(2)]) (use Cons.prems(2) in auto)
  ultimately show ?case by (simp add: y(3))
qed simp

lemma list_all_concat: "list_all P (concat xss) \<longleftrightarrow> list_all (list_all P) xss"
  by (induction xss) auto

lemma fi_outputs_ok:
  "fi_broadcast edge n t c pl = Inr outs \<Longrightarrow> list_all out_ok outs"
  "0 \<le> sh \<Longrightarrow> fi_batches edge len ser c (sh, items) = Inr outs \<Longrightarrow> list_all out_ok outs"
proof -
  show "list_all out_ok outs" if "fi_broadcast edge n t c pl = Inr outs"
    using that unfolding fi_broadcast_def by (rule rmap_all) (auto simp: out_ok_def)
  show "list_all out_ok outs" if "0 \<le> sh" "fi_batches edge len ser c (sh, items) = Inr outs"
    using that by (auto simp: fi_batches_def out_ok_def elim!: rmap_all)
qed

subsection \<open>Dictionaries of lists and of counters\<close>

definition dappend :: "'k \<Rightarrow> 'v \<Rightarrow> ('k \<times> 'v list) list \<Rightarrow> ('k \<times> 'v list) list" where
  "dappend k v d = dset k (dget d k [] @ [v]) d"

text \<open>Appending key-value pairs to a \<open>defaultdict(list)\<close>.\<close>

definition group_by_key :: "('k \<times> 'v) list \<Rightarrow> ('k \<times> 'v list) list" where
  "group_by_key kvs = foldl (\<lambda>d (k, v). dappend k v d) [] kvs"

lemma group_by_key_snoc: "group_by_key (kvs @ [(k, v)]) = dappend k v (group_by_key kvs)"
  by (simp add: group_by_key_def)

lemma group_by_key_lookup: "dget (group_by_key kvs) k [] = map snd (filter (\<lambda>kv. fst kv = k) kvs)"
proof (induction kvs rule: rev_induct)
  case (snoc kv kvs)
  then show ?case by (cases kv) (auto simp: group_by_key_snoc dappend_def)
qed (simp add: group_by_key_def)

lemma group_by_key_keys: "fst ` set (group_by_key kvs) = fst ` set kvs"
proof (induction kvs rule: rev_induct)
  case (snoc kv kvs)
  then show ?case by (cases kv) (auto simp: group_by_key_snoc dappend_def dom_update)
qed (simp add: group_by_key_def)

lemma group_by_key_wf: "dict_wf (group_by_key kvs)"
proof (induction kvs rule: rev_induct)
  case (snoc kv kvs)
  then show ?case by (cases kv) (simp add: group_by_key_snoc dappend_def)
qed (simp add: group_by_key_def)

lemma fi_sorted_ok:
  assumes "rmap (fi_batches edge len ser c) (sort_key f (group_by_key kvs)) = Inr batches" and "list_all (\<lambda>kv. 0 \<le> fst kv) kvs"
  shows "list_all out_ok (concat batches)"
proof -
  have "0 \<le> k" if "(k, v) \<in> set (group_by_key kvs)" for k v
  proof -
    from that have "k \<in> fst ` set kvs" by (metis fst_conv group_by_key_keys image_eqI)
    with assms(2) show ?thesis by (auto simp: list_all_iff)
  qed
  with assms(1) show ?thesis by (fastforce simp: list_all_concat elim!: rmap_all dest: fi_outputs_ok(2) [rotated])
qed

lemma fi_grouped_ok:
  assumes "rmap (fi_batches edge len ser c) (group_by_key kvs) = Inr batches" and "list_all (\<lambda>kv. 0 \<le> fst kv) kvs"
  shows "list_all out_ok (concat batches)"
proof -
  have "sort_key (\<lambda>_. 0::int) (group_by_key kvs) = group_by_key kvs" by (simp add: sort_key_const)
  with fi_sorted_ok [of edge len ser c "\<lambda>_. 0::int" kvs] assms show ?thesis by simp
qed

text \<open>Counters that have been increased by one for every record appended per partition.\<close>

definition counts_match :: "(int \<times> 'a list) list \<Rightarrow> (int \<times> int) list \<Rightarrow> (int \<times> int) list \<Rightarrow> bool" where
  "counts_match by_partition before now \<longleftrightarrow>
     (\<forall>part. dget now part 0 = dget before part 0 + int (length (dget by_partition part [])))"

lemma counts_match_Nil: "counts_match [] now now"
  by (simp add: counts_match_def)

lemma counts_match_append:
  "counts_match d before now \<Longrightarrow> counts_match (dappend part x d) before (dset part (dget now part 0 + 1) now)"
  by (simp add: counts_match_def dappend_def)

text \<open>\<open>d.setdefault(k, {})[e] += n\<close>\<close>

type_synonym ('k, 'e) counters = "('k \<times> ('e \<times> int) list) list"

definition add_count :: "'k \<Rightarrow> 'e \<Rightarrow> int \<Rightarrow> ('k, 'e) counters \<Rightarrow> ('k, 'e) counters" where
  "add_count k e n d = (let counts = dget d k [] in dset k (dset e (dget counts e 0 + n) counts) d)"

definition count_of :: "('k, 'e) counters \<Rightarrow> 'k \<Rightarrow> 'e \<Rightarrow> int" where
  "count_of d k e = dget (dget d k []) e 0"

definition counters_wf :: "('k, 'e) counters \<Rightarrow> bool" where
  "counters_wf d \<longleftrightarrow> dict_wf d \<and> dict_all (\<lambda>counts. dict_wf counts \<and> counts \<noteq> []) d"

lemma count_of_Nil [simp]: "count_of [] k e = 0"
  by (simp add: count_of_def)

lemma counters_wf_Nil [simp]: "counters_wf []"
  by (simp add: counters_wf_def)

lemma count_of_add [simp]:
  "count_of (add_count k e n d) k' e' = count_of d k' e' + (if k' = k \<and> e' = e then n else 0)"
  by (simp add: add_count_def count_of_def Let_def)

lemma counters_wf_lookup: "counters_wf d \<Longrightarrow> dict_wf (dget d k [])"
  unfolding counters_wf_def by (cases "map_of d k") (auto simp: dget_def dict_all_def dest!: map_of_SomeD)

lemma update_not_Nil [simp]: "dset k v d \<noteq> []"
  by (cases d) auto

lemma counters_wf_add [simp]: "counters_wf d \<Longrightarrow> counters_wf (add_count k e n d)"
  using counters_wf_lookup [of d k] by (simp add: add_count_def counters_wf_def Let_def)

text \<open>An edge filed on the incoming or the outgoing side by its role.\<close>

definition file_edge :: "int \<Rightarrow> 'k \<Rightarrow> 'e \<Rightarrow> int \<Rightarrow> (('k, 'e) counters \<times> ('k, 'e) counters, unit) act" where
  "file_edge role k e n d =
     (if role = Q4_EDGE_INCOMING then (Inr (), (add_count k e n (fst d), snd d))
      else if role = Q4_EDGE_OUTGOING then (Inr (), (fst d, add_count k e n (snd d)))
      else (Inl ValueError, d))"

definition edge_sum :: "('a \<Rightarrow> int) \<Rightarrow> ('a \<Rightarrow> 'k) \<Rightarrow> ('a \<Rightarrow> 'e) \<Rightarrow> ('a \<Rightarrow> int) \<Rightarrow> 'a list \<Rightarrow> int \<Rightarrow> 'k \<Rightarrow> 'e \<Rightarrow> int" where
  "edge_sum role key endpoint n xs r k e = (\<Sum>x\<leftarrow>xs. if role x = r \<and> key x = k \<and> endpoint x = e then n x else 0)"

lemma edge_sum_simps [simp]:
  "edge_sum role key endpoint n [] r k e = 0"
  "edge_sum role key endpoint n (x # xs) r k e =
     (if role x = r \<and> key x = k \<and> endpoint x = e then n x else 0) + edge_sum role key endpoint n xs r k e"
  "edge_sum role key endpoint n (xs @ ys) r k e = edge_sum role key endpoint n xs r k e + edge_sum role key endpoint n ys r k e"
  by (simp_all add: edge_sum_def)

lemma roles_differ [simp]: "Q4_EDGE_INCOMING \<noteq> Q4_EDGE_OUTGOING" "Q4_EDGE_OUTGOING \<noteq> Q4_EDGE_INCOMING"
  by (simp_all add: Q4_EDGE_INCOMING_def Q4_EDGE_OUTGOING_def)

text \<open>Filing edges sums their counts, in whatever batches they come.\<close>

lemma file_edges_counts:
  assumes "afor (\<lambda>x. file_edge (role x) (key x) (endpoint x) (n x)) xs d = (Inr (), d')"
  shows "count_of (fst d') k e = count_of (fst d) k e + edge_sum role key endpoint n xs Q4_EDGE_INCOMING k e"
    and "count_of (snd d') k e = count_of (snd d) k e + edge_sum role key endpoint n xs Q4_EDGE_OUTGOING k e"
proof -
  have "count_of (fst d') k e = count_of (fst d) k e + edge_sum role key endpoint n xs Q4_EDGE_INCOMING k e \<and>
    count_of (snd d') k e = count_of (snd d) k e + edge_sum role key endpoint n xs Q4_EDGE_OUTGOING k e"
    using assms
  proof (induction xs arbitrary: d)
    case (Cons x xs)
    from Cons.prems obtain d1 where step: "file_edge (role x) (key x) (endpoint x) (n x) d = (Inr (), d1)"
      and rest: "afor (\<lambda>x. file_edge (role x) (key x) (endpoint x) (n x)) xs d1 = (Inr (), d')"
      by (auto simp: abind_eq_Inr)
    from Cons.IH [OF rest] step show ?case by (auto simp: file_edge_def split: if_splits)
  qed (simp add: areturn_def)
  then show "count_of (fst d') k e = count_of (fst d) k e + edge_sum role key endpoint n xs Q4_EDGE_INCOMING k e"
    and "count_of (snd d') k e = count_of (snd d) k e + edge_sum role key endpoint n xs Q4_EDGE_OUTGOING k e" by simp_all
qed

text \<open>Only keys of the filed edges get counters.\<close>

lemma file_edges_other:
  assumes "afor (\<lambda>x. file_edge (role x) (key x) (endpoint x) (n x)) xs d = (Inr (), d')" and "k \<notin> key ` set xs"
  shows "dget (fst d') k [] = dget (fst d) k []"
  using assms
proof (induction xs arbitrary: d)
  case (Cons x xs)
  from Cons.prems(1) obtain d1 where step: "file_edge (role x) (key x) (endpoint x) (n x) d = (Inr (), d1)"
    and rest: "afor (\<lambda>x. file_edge (role x) (key x) (endpoint x) (n x)) xs d1 = (Inr (), d')"
    by (auto simp: abind_eq_Inr)
  have "dget (fst d1) k [] = dget (fst d) k []"
    using step Cons.prems(2) by (auto simp: file_edge_def add_count_def Let_def split: if_splits)
  with Cons.IH [OF rest] Cons.prems(2) show ?case by simp
qed (simp add: areturn_def)

lemma file_edges_wf:
  "counters_wf (fst d) \<and> counters_wf (snd d) \<Longrightarrow>
   counters_wf (fst (snd (afor (\<lambda>x. file_edge (role x) (key x) (endpoint x) (n x)) xs d))) \<and>
   counters_wf (snd (snd (afor (\<lambda>x. file_edge (role x) (key x) (endpoint x) (n x)) xs d)))"
  by (rule afor_invariant [where I = "\<lambda>d. counters_wf (fst d) \<and> counters_wf (snd d)"]) (auto simp: file_edge_def)

text \<open>
  The order in which Python iterates a set is not specified: it is some order of the elements. A set is given
  as the list of its elements, without repetition.
\<close>

definition iterates :: "('a list \<Rightarrow> 'a list) \<Rightarrow> bool" where
  "iterates it \<longleftrightarrow> (\<forall>xs. distinct xs \<longrightarrow> distinct (it xs) \<and> set (it xs) = set xs)"

lemma iterates_id: "iterates (\<lambda>xs. xs)" and iterates_rev: "iterates rev"
  by (simp_all add: iterates_def)

subsection \<open>Handlers\<close>

text \<open>
  The workers ignore a message of a closed client unless the inbox says that it was applied and its outputs
  may still have to be sent.
\<close>

definition fi_skips :: "('s, 'w) runner \<Rightarrow> bool \<Rightarrow> int \<Rightarrow> int \<Rightarrow> int \<Rightarrow> msg_kind \<Rightarrow> bool" where
  "fi_skips r closed client_id sender_id seq kind \<longleftrightarrow>
     closed \<and> classify (h_inbox (r_handler r)) client_id sender_id seq kind \<noteq> APPLIED"

text \<open>\<open>_republish_pending\<close>: an entry that cannot be sent is logged and the next one is tried.\<close>

definition fi_republish_pending ::
  "pystr list \<Rightarrow> (outbox_entry \<Rightarrow> py_error option) \<Rightarrow> ('s, 'w) runner \<Rightarrow> ('s, 'w) runner" where
  "fi_republish_pending publishers send r =
     foldl (\<lambda>r entry. snd (publish_entry publishers send entry r)) r (outbox_to_republish (r_handler r))"

definition fi_start ::
  "('s, 'w) worker_ops \<Rightarrow> pystr list \<Rightarrow> (outbox_entry \<Rightarrow> py_error option) \<Rightarrow> (('s, 'w) runner, unit) act" where
  "fi_start W publishers send =
     abind (on_handler (recover W)) (\<lambda>_. amodify (fi_republish_pending publishers send))"

end
