(* ===== verification/Coordinated.thy ===== *)
theory Coordinated
  imports SumWorker FanIn
begin

text \<open>
  What the states of the filters share: a coordinator of the EOF protocol among their fields, changed by logged
  calls (\<open>coordinator_upstream_eof\<close>, \<open>coordinator_msg\<close>, \<open>coordinator_cleanup\<close>), and business functions that
  call the coordinator before the change is written.
\<close>

definition replay_upstream_eof ::
  "(coordinator_step \<Rightarrow> ('s, coordinator_action option) act) \<Rightarrow> int \<Rightarrow> json \<Rightarrow> ('s, unit) act" where
  "replay_upstream_eof on_co client_id change =
     abind (alift (jget_int change ''expected_total'')) (\<lambda>expected.
     abind (alift (jget_int change ''count'')) (\<lambda>count.
     abind (alift (jget_int change ''forwarded'')) (\<lambda>forwarded.
     abind (on_co (on_upstream_eof client_id expected count forwarded)) (\<lambda>_. areturn ()))))"

definition replay_msg ::
  "(coordinator_step \<Rightarrow> ('s, coordinator_action option) act) \<Rightarrow> int \<Rightarrow> json \<Rightarrow> ('s, unit) act" where
  "replay_msg on_co client_id change =
     abind (alift (jget_int change ''sender_id'')) (\<lambda>sender.
     abind (alift (jget_int change ''expected_total'')) (\<lambda>expected.
     abind (alift (jget_int change ''processed_count'')) (\<lambda>processed.
     abind (alift (rbind (jget_int change ''msg_type'') message_type_of)) (\<lambda>msg_type.
     abind (alift (jget_int change ''count'')) (\<lambda>count.
     abind (alift (jget_int change ''forwarded'')) (\<lambda>forwarded.
     abind (on_co (process_control_message msg_type client_id
              \<lparr>cm_sender_id = sender, expected_total = expected, processed_count = processed\<rparr>
              count forwarded)) (\<lambda>_. areturn ())))))))"

text \<open>A call whose effect on the coordinator is taken back: \<open>snapshot\<close>, call, \<open>restore\<close>.\<close>

definition tried :: "coordinator_step \<Rightarrow> coordinator_step" where
  "tried m ec =
     (case m ec of
        (Inl e, ec') \<Rightarrow> (Inl e, ec')
      | (Inr a, ec') \<Rightarrow> (Inr a, coordinator_restore (coordinator_snapshot ec) ec'))"

lemma tried_pure: "keeps coordinator_config m \<Longrightarrow> tried m ec = (Inr a, ec') \<Longrightarrow> ec' = ec \<and> fst (m ec) = Inr a"
  using keepsD [of coordinator_config m ec]
  by (auto simp: tried_def coordinator_restore_snapshot split: prod.splits sum.splits)

text \<open>
  The contract of such a state: where the coordinator is, and that the changes of its two logged calls replay
  them.
\<close>

locale coordinated_state =
  fixes ops :: "'s change_ops" and co :: "'s \<Rightarrow> eof_coordinator" and set_co :: "eof_coordinator \<Rightarrow> 's \<Rightarrow> 's"
  assumes co_set: "co (set_co ec s) = ec" and set_set: "set_co ec (set_co ec' s) = set_co ec s" and set_co: "set_co (co s) s = s"
    and ops_upstream: "ops (lit ''coordinator_upstream_eof'') = Some (replay_upstream_eof (azoom co set_co))"
    and ops_msg: "ops (lit ''coordinator_msg'') = Some (replay_msg (azoom co set_co))"
begin

lemma replayed_upstream_eof:
  "dispatch_change ops (su_upstream_eof_change c e n f) = abind (azoom co set_co (on_upstream_eof c e n f)) (\<lambda>_. areturn ())"
  by (subst dispatch_change.simps)
    (simp add: su_upstream_eof_change_def jget_simps ops_upstream replay_upstream_eof_def fun_eq_iff act_defs)

lemma replayed_msg:
  "dispatch_change ops (su_msg_change t c s e p n f) =
     abind (azoom co set_co (process_control_message t c
       \<lparr>cm_sender_id = s, expected_total = e, processed_count = p\<rparr> n f)) (\<lambda>_. areturn ())"
  by (subst dispatch_change.simps) (simp add: su_msg_change_def jget_simps ops_msg replay_msg_def fun_eq_iff act_defs)

text \<open>Replaying a call on the coordinator it leaves changes nothing more.\<close>

lemma upstream_again:
  assumes "on_upstream_eof c e n f (co s) = (Inr a, ec')"
  shows "dispatch_change ops (su_upstream_eof_change c e n f) (set_co ec' s) = dispatch_change ops (su_upstream_eof_change c e n f) s"
  using assms on_upstream_eof_again [OF assms] by (auto simp: replayed_upstream_eof act_defs co_set set_set)

lemma received_again:
  assumes "process_control_message MT_EOF_RECEIVED c ctrl n f (co s) = (Inr a, ec')"
  shows "dispatch_change ops (su_msg_change MT_EOF_RECEIVED c (cm_sender_id ctrl) (expected_total ctrl) (processed_count ctrl) n f)
      (set_co ec' s) =
    dispatch_change ops (su_msg_change MT_EOF_RECEIVED c (cm_sender_id ctrl) (expected_total ctrl) (processed_count ctrl) n f) s"
  using assms eof_received_again [OF assms] by (cases ctrl) (auto simp: replayed_msg act_defs co_set set_set)

end

lemma fi_compound_ok: "list_all state_change_ok chs \<Longrightarrow> state_change_ok (fi_compound_change chs)"
  by (induction chs) (auto simp: state_change_ok_def fi_compound_change_def)

end
