(* ===== verification/Q4Filter.thy ===== *)
theory Q4Filter
  imports Coordinated
begin

text \<open>
  \<open>workers/scatter_gather/q4_filter\<close>: the first stage of query 4. The transfers of a source account wait until the
  source has reached \<open>_QUALIFY_TARGETS\<close> different targets; then they are sent on, each as an incoming edge of
  its target and an outgoing edge of its source, to the sum shard of the intermediate account
  (\<open>q4_filter_state.py\<close>). The replicas agree on the end of a client's data with the EOF coordinator in
  flush-order mode (\<open>filters.py\<close>).
\<close>

subsection \<open>Q4FilterState\<close>

definition QUALIFY_TARGETS :: nat where "QUALIFY_TARGETS = 6"

record source_state =
  ss_targets :: "q4_account_id set"
  ss_qualified :: bool
  ss_pending :: "q4_transaction_edge list"

definition new_source_state :: source_state where
  "new_source_state = \<lparr>ss_targets = {}, ss_qualified = False, ss_pending = []\<rparr>"

type_synonym source_states = "(q4_account_id \<times> source_state) list"

record q4_filter_state =
  q4f_coordinator :: eof_coordinator
  q4f_sum_amount :: int
  q4f_states :: "(int \<times> source_states) list"
  q4f_forwarded :: "(int \<times> (int \<times> int) list) list"
  q4f_processed :: "(int \<times> int) list"
  q4f_closed :: "int set"

definition new_q4_filter_state :: "eof_coordinator \<Rightarrow> int \<Rightarrow> q4_filter_state" where
  "new_q4_filter_state ec sum_amount =
     \<lparr>q4f_coordinator = ec, q4f_sum_amount = sum_amount, q4f_states = [], q4f_forwarded = [], q4f_processed = [], q4f_closed = {}\<rparr>"

definition q4f_data_change :: "int \<Rightarrow> bytes \<Rightarrow> json" where
  "q4f_data_change = fi_data_change"

definition q4f_close_change :: "int \<Rightarrow> json" where
  "q4f_close_change = fi_close_change"

definition q4f_upstream_eof_change :: "int \<Rightarrow> int \<Rightarrow> int \<Rightarrow> int \<Rightarrow> json" where
  "q4f_upstream_eof_change = su_upstream_eof_change"

definition q4f_msg_change :: "message_type \<Rightarrow> int \<Rightarrow> int \<Rightarrow> int \<Rightarrow> int \<Rightarrow> int \<Rightarrow> int \<Rightarrow> json" where
  "q4f_msg_change = su_msg_change"

definition q4f_cleanup_change :: "int \<Rightarrow> json" where
  "q4f_cleanup_change = su_cleanup_change"

definition q4f_compound_change :: "json list \<Rightarrow> json" where
  "q4f_compound_change = fi_compound_change"

definition q4f_abort_change :: "int \<Rightarrow> json" where
  "q4f_abort_change client_id = q4f_compound_change [q4f_cleanup_change client_id, q4f_close_change client_id]"

definition source_states_for :: "int \<Rightarrow> q4_filter_state \<Rightarrow> source_states" where
  "source_states_for client_id s = dget (q4f_states s) client_id []"

definition q4f_forwarded_by_partition :: "int \<Rightarrow> q4_filter_state \<Rightarrow> (int \<times> int) list" where
  "q4f_forwarded_by_partition client_id s = dget (q4f_forwarded s) client_id []"

definition q4f_processed_count :: "int \<Rightarrow> q4_filter_state \<Rightarrow> int" where
  "q4f_processed_count client_id s = dget (q4f_processed s) client_id 0"

definition q4f_forwarded_total :: "int \<Rightarrow> q4_filter_state \<Rightarrow> int" where
  "q4f_forwarded_total client_id s = sum_list (map snd (q4f_forwarded_by_partition client_id s))"

definition q4f_is_closed :: "int \<Rightarrow> q4_filter_state \<Rightarrow> bool" where
  "q4f_is_closed client_id s \<longleftrightarrow> client_id \<in> q4f_closed s"

definition edge_from_tx :: "transaction \<Rightarrow> q4_transaction_edge res" where
  "edge_from_tx tx =
     rbind (notebook_bank_id (tx_from_bank tx)) (\<lambda>from_bank.
     rbind (notebook_bank_id (tx_to_bank tx)) (\<lambda>to_bank.
     Inr \<lparr>q4e_source = \<lparr>q4_bank_id = from_bank, q4_account = py_strip (tx_from_account tx)\<rparr>,
          q4e_target = \<lparr>q4_bank_id = to_bank, q4_account = py_strip (tx_to_account tx)\<rparr>\<rparr>))"

definition counted_for :: "q4_transaction_edge \<Rightarrow> q4_counted_edge list" where
  "counted_for edge =
     [\<lparr>q4c_role = Q4_EDGE_INCOMING, q4c_intermediate = q4e_target edge, q4c_endpoint = q4e_source edge, q4c_count = 1\<rparr>,
      \<lparr>q4c_role = Q4_EDGE_OUTGOING, q4c_intermediate = q4e_source edge, q4c_endpoint = q4e_target edge, q4c_count = 1\<rparr>]"

text \<open>\<open>_gate_emit\<close>: what is sent on, and the state of the source afterwards.\<close>

definition gate_emit :: "source_state \<Rightarrow> q4_transaction_edge \<Rightarrow> q4_counted_edge list \<times> source_state" where
  "gate_emit st edge =
     (if ss_qualified st then (counted_for edge, st)
      else
        (let pending = ss_pending st @ [edge];
             targets = (if card (ss_targets st) < QUALIFY_TARGETS then insert (q4e_target edge) (ss_targets st) else ss_targets st) in
         if card targets < QUALIFY_TARGETS then ([], st\<lparr>ss_pending := pending, ss_targets := targets\<rparr>)
         else (concat (map counted_for pending), \<lparr>ss_targets = {}, ss_qualified = True, ss_pending = []\<rparr>)))"

definition partition_of :: "int \<Rightarrow> q4_counted_edge \<Rightarrow> int res" where
  "partition_of sum_amount counted =
     partition_for_parts [q4_bank_id (q4c_intermediate counted), q4_account (q4c_intermediate counted)] sum_amount"

text \<open>
  The loop over the transactions of a batch, in \<open>_apply_data\<close> over the states of the client, in
  \<open>predict_data_outputs\<close> over a dictionary of copies that is filled from them.
\<close>

definition gate_tx ::
  "(q4_account_id \<Rightarrow> source_state) \<Rightarrow> (q4_counted_edge \<Rightarrow> ('d, unit) act) \<Rightarrow> transaction \<Rightarrow> (source_states \<times> 'd, unit) act" where
  "gate_tx fallback sink tx = (\<lambda>(states, d).
     (case edge_from_tx tx of
        Inl e \<Rightarrow> (Inl e, (states, d))
      | Inr edge \<Rightarrow>
          (let st = (case map_of states (q4e_source edge) of Some st \<Rightarrow> st | None \<Rightarrow> fallback (q4e_source edge));
               (emitted, st') = gate_emit st edge;
               (r, d') = afor sink emitted d in
           (r, (dset (q4e_source edge) st' states, d')))))"

definition append_counted :: "int \<Rightarrow> q4_counted_edge \<Rightarrow> ((int \<times> q4_counted_edge list) list, unit) act" where
  "append_counted sum_amount counted =
     abind (alift (partition_of sum_amount counted)) (\<lambda>part. amodify (dappend part counted))"

definition count_counted :: "int \<Rightarrow> q4_counted_edge \<Rightarrow> ((int \<times> int) list, unit) act" where
  "count_counted sum_amount counted =
     abind (alift (partition_of sum_amount counted)) (\<lambda>part.
     amodify (\<lambda>forwarded. dset part (dget forwarded part 0 + 1) forwarded))"

definition q4f_predict_data_outputs :: "int \<Rightarrow> bytes \<Rightarrow> q4_filter_state \<Rightarrow> (int \<times> q4_counted_edge list) list res" where
  "q4f_predict_data_outputs client_id payload s =
     (if client_id \<in> q4f_closed s then Inr []
      else
        rbind (deserialize_transactions payload) (\<lambda>transactions.
        let src_states = source_states_for client_id s in
        (case afor (gate_tx (\<lambda>source. dget src_states source new_source_state) (append_counted (q4f_sum_amount s))) transactions ([], []) of
           (Inl e, _) \<Rightarrow> Inl e
         | (Inr _, (_, by_partition)) \<Rightarrow> Inr by_partition)))"

definition q4f_apply_data :: "int \<Rightarrow> json \<Rightarrow> (q4_filter_state, unit) act" where
  "q4f_apply_data client_id change s =
     (if client_id \<in> q4f_closed s then (Inr (), s)
      else
        (case rbind (rbind (jget_str change ''payload_b64'') b64decode) deserialize_transactions of
           Inl e \<Rightarrow> (Inl e, s)
         | Inr transactions \<Rightarrow>
             (let (r, src_states, forwarded) = afor (gate_tx (\<lambda>_. new_source_state) (count_counted (q4f_sum_amount s))) transactions
                    (source_states_for client_id s, q4f_forwarded_by_partition client_id s);
                  s' = s\<lparr>q4f_states := dset client_id src_states (q4f_states s),
                         q4f_forwarded := dset client_id forwarded (q4f_forwarded s)\<rparr> in
              (case r of
                 Inl e \<Rightarrow> (Inl e, s')
               | Inr _ \<Rightarrow>
                   (Inr (), s'\<lparr>q4f_processed :=
                      dset client_id (q4f_processed_count client_id s' + int (length transactions)) (q4f_processed s')\<rparr>)))))"

definition q4f_apply_close :: "int \<Rightarrow> q4_filter_state \<Rightarrow> q4_filter_state" where
  "q4f_apply_close client_id s =
     s\<lparr>q4f_states := dpop client_id (q4f_states s), q4f_forwarded := dpop client_id (q4f_forwarded s),
       q4f_processed := dpop client_id (q4f_processed s), q4f_closed := insert client_id (q4f_closed s)\<rparr>"

abbreviation q4f_set_coordinator :: "eof_coordinator \<Rightarrow> q4_filter_state \<Rightarrow> q4_filter_state" where
  "q4f_set_coordinator ec \<equiv> q4f_coordinator_update (\<lambda>_. ec)"

definition on_q4f_coordinator :: "(eof_coordinator, 'a) act \<Rightarrow> (q4_filter_state, 'a) act" where
  "on_q4f_coordinator = azoom q4f_coordinator q4f_set_coordinator"

definition q4f_changes :: "q4_filter_state change_ops" where
  "q4f_changes kind =
     (if kind = lit ''data'' then Some q4f_apply_data
      else if kind = lit ''close'' then Some (\<lambda>client_id _. amodify (q4f_apply_close client_id))
      else if kind = lit ''coordinator_upstream_eof'' then Some (replay_upstream_eof on_q4f_coordinator)
      else if kind = lit ''coordinator_msg'' then Some (replay_msg on_q4f_coordinator)
      else if kind = lit ''coordinator_cleanup''
      then Some (\<lambda>client_id _. amodify (q4f_coordinator_update (cleanup_client client_id)))
      else None)"

definition q4f_apply_change :: "json \<Rightarrow> (q4_filter_state, unit) act" where
  "q4f_apply_change = dispatch_change q4f_changes"

record q4_filter_dict =
  q4fd_states :: "(int \<times> source_states) list"
  q4fd_forwarded :: "(int \<times> (int \<times> int) list) list"
  q4fd_processed :: "(int \<times> int) list"
  q4fd_eof_coordinator :: coordinator_dict
  q4fd_closed :: "int set"

definition q4f_snapshot :: "q4_filter_state \<Rightarrow> q4_filter_dict option" where
  "q4f_snapshot s =
     Some \<lparr>q4fd_states = q4f_states s, q4fd_forwarded = q4f_forwarded s, q4fd_processed = q4f_processed s,
           q4fd_eof_coordinator = coordinator_snapshot (q4f_coordinator s), q4fd_closed = q4f_closed s\<rparr>"

definition q4f_restore :: "q4_filter_dict option \<Rightarrow> (q4_filter_state, unit) act" where
  "q4f_restore data s =
     (case data of
        None \<Rightarrow> (Inr (), s\<lparr>q4f_states := [], q4f_forwarded := [], q4f_processed := [], q4f_closed := {}\<rparr>)
      | Some d \<Rightarrow>
          (Inr (), s\<lparr>q4f_states := q4fd_states d, q4f_forwarded := q4fd_forwarded d, q4f_processed := q4fd_processed d,
             q4f_coordinator := coordinator_restore (q4fd_eof_coordinator d) (q4f_coordinator s), q4f_closed := q4fd_closed d\<rparr>))"

definition q4_filter_ops :: "(q4_filter_state, q4_filter_dict option) worker_ops" where
  "q4_filter_ops = \<lparr>apply_change = q4f_apply_change, worker_snapshot = q4f_snapshot, worker_restore = q4f_restore\<rparr>"

subsection \<open>Q4FilterWorker\<close>

record q4_filter_config =
  q4fc_id :: int
  q4fc_amount :: int
  q4fc_sum_amount :: int
  q4fc_batch_max_edges :: int

definition Q4_SUM_EDGE :: pystr where "Q4_SUM_EDGE = lit ''q4_sum''"
definition Q4F_LEADER_ID :: int where "Q4F_LEADER_ID = 0"

definition q4f_data_outputs :: "q4_filter_config \<Rightarrow> int \<Rightarrow> bytes \<Rightarrow> q4_filter_state \<Rightarrow> logical_output list res" where
  "q4f_data_outputs cfg client_id payload s =
     rbind (q4f_predict_data_outputs client_id payload s) (\<lambda>by_partition.
     rbind (rmap (fi_batches Q4_SUM_EDGE (q4fc_batch_max_edges cfg) serialize_counted_edges client_id)
       (sort_key fst by_partition)) (\<lambda>batches. Inr (concat batches)))"

definition q4f_eof_outputs :: "q4_filter_config \<Rightarrow> int \<Rightarrow> q4_filter_state \<Rightarrow> logical_output list res" where
  "q4f_eof_outputs cfg client_id s =
     fi_broadcast Q4_SUM_EDGE (q4fc_sum_amount cfg) MT_EOF client_id
       (\<lambda>part. fi_control_payload (q4fc_id cfg) (dget (q4f_forwarded_by_partition client_id s) part 0) 0)"

type_synonym q4f_fn = "bytes \<Rightarrow> (q4_filter_state, json \<times> logical_output list) act"

definition q4f_bfn_data :: "q4_filter_config \<Rightarrow> int \<Rightarrow> q4f_fn" where
  "q4f_bfn_data cfg client_id payload =
     abind (aget (q4f_data_outputs cfg client_id payload)) (\<lambda>r.
     abind (alift r) (\<lambda>outputs. areturn (q4f_data_change client_id payload, outputs)))"

definition q4f_bfn_abort :: "q4_filter_config \<Rightarrow> int \<Rightarrow> q4f_fn" where
  "q4f_bfn_abort cfg client_id payload =
     abind (alift (fi_broadcast Q4_SUM_EDGE (q4fc_sum_amount cfg) MT_ABORT client_id (\<lambda>_. Inr []))) (\<lambda>outputs.
     areturn (q4f_abort_change client_id, outputs))"

definition q4f_bfn_upstream_eof :: "q4_filter_config \<Rightarrow> int \<Rightarrow> control_message \<Rightarrow> int \<Rightarrow> int \<Rightarrow> q4f_fn" where
  "q4f_bfn_upstream_eof cfg client_id ctrl count forwarded payload =
     abind (on_q4f_coordinator (tried (on_upstream_eof client_id (expected_total ctrl) count forwarded))) (\<lambda>action.
     let eof_change = q4f_upstream_eof_change client_id (expected_total ctrl) count forwarded in
     (case action of
        Some (SendAnswerAction queue_name message) \<Rightarrow> areturn (eof_change, [Out2 queue_name message])
      | Some (FlushAction _ _ _) \<Rightarrow>
          abind (aget (q4f_eof_outputs cfg client_id)) (\<lambda>r.
          abind (alift r) (\<lambda>outputs.
          areturn (q4f_compound_change [eof_change, q4f_close_change client_id], outputs)))
      | _ \<Rightarrow> areturn (eof_change, [])))"

definition q4f_bfn_flush_order :: "q4_filter_config \<Rightarrow> int \<Rightarrow> q4f_fn" where
  "q4f_bfn_flush_order cfg client_id payload =
     abind (aget (\<lambda>s. build_flush_ack (q4f_coordinator s) client_id 0)) (\<lambda>msg.
     abind (alift msg) (\<lambda>flush_ack_msg.
     abind (aget (q4f_eof_outputs cfg client_id)) (\<lambda>r.
     abind (alift r) (\<lambda>outputs.
     abind (aget (\<lambda>s. response_queue_for (q4f_coordinator s) Q4F_LEADER_ID)) (\<lambda>dest.
     areturn (q4f_compound_change [q4f_cleanup_change client_id, q4f_close_change client_id],
              outputs @ [Out2 dest flush_ack_msg]))))))"

definition q4f_bfn_answer :: "int \<Rightarrow> control_message \<Rightarrow> q4f_fn" where
  "q4f_bfn_answer client_id ctrl payload =
     abind (on_q4f_coordinator (tried (process_control_message MT_PROCESSED_ANSWER client_id ctrl 0 0))) (\<lambda>action.
     let answer_change = q4f_msg_change MT_PROCESSED_ANSWER client_id (cm_sender_id ctrl) (expected_total ctrl) (processed_count ctrl) 0 0 in
     (case action of
        Some (BroadcastAction queues message _) \<Rightarrow> areturn (answer_change, map (\<lambda>q. Out2 q message) queues)
      | _ \<Rightarrow> areturn (answer_change, [])))"

definition q4f_bfn_flush_ack :: "q4_filter_config \<Rightarrow> int \<Rightarrow> control_message \<Rightarrow> int \<Rightarrow> q4f_fn" where
  "q4f_bfn_flush_ack cfg client_id ctrl new_ack_count payload =
     (let ack_change = q4f_msg_change MT_FLUSH_ACK client_id (cm_sender_id ctrl) (expected_total ctrl) (processed_count ctrl) 0 0 in
      if new_ack_count \<ge> q4fc_amount cfg - 1 then
        abind (aget (q4f_eof_outputs cfg client_id)) (\<lambda>r.
        abind (alift r) (\<lambda>outputs.
        areturn (q4f_compound_change [ack_change, q4f_close_change client_id], outputs)))
      else areturn (ack_change, []))"

type_synonym q4f_runner = "(q4_filter_state, q4_filter_dict option) runner"

abbreviation q4f_state :: "q4f_runner \<Rightarrow> q4_filter_state" where
  "q4f_state r \<equiv> h_worker (r_handler r)"

definition q4f_handle_abort ::
  "q4_filter_config \<Rightarrow> (outbox_entry \<Rightarrow> py_error option) \<Rightarrow> int \<Rightarrow> int \<Rightarrow> int \<Rightarrow> q4f_runner \<Rightarrow> delivery \<times> q4f_runner" where
  "q4f_handle_abort cfg send client_id sender_id seq r =
     (if q4f_is_closed client_id (q4f_state r) then (Acked, r)
      else attempt (run_direct q4_filter_ops send (abort_msg_id sender_id client_id seq) client_id sender_id seq []
             (q4f_bfn_abort cfg client_id) ABORT) r)"

definition q4f_handle_upstream_eof ::
  "q4_filter_config \<Rightarrow> (outbox_entry \<Rightarrow> py_error option) \<Rightarrow> int \<Rightarrow> int \<Rightarrow> int \<Rightarrow> bytes \<Rightarrow> q4f_runner \<Rightarrow> delivery \<times> q4f_runner" where
  "q4f_handle_upstream_eof cfg send client_id sender_id seq payload r =
     (case deserialize_control payload of
        Inl _ \<Rightarrow> (Nacked True, r)
      | Inr ctrl \<Rightarrow>
          if fi_skips r (q4f_is_closed client_id (q4f_state r)) client_id sender_id seq DATA then (Acked, r)
          else attempt (run_direct q4_filter_ops send (ag_data_msg_id sender_id client_id seq) client_id sender_id seq payload
                 (q4f_bfn_upstream_eof cfg client_id ctrl (q4f_processed_count client_id (q4f_state r))
                    (q4f_forwarded_total client_id (q4f_state r))) DATA) r)"

definition q4f_process_data_message ::
  "q4_filter_config \<Rightarrow> (outbox_entry \<Rightarrow> py_error option) \<Rightarrow> bytes \<Rightarrow> q4f_runner \<Rightarrow> delivery \<times> q4f_runner" where
  "q4f_process_data_message cfg send raw r =
     (case unpack_addressed_packet raw of
        Inl _ \<Rightarrow> (Nacked True, r)
      | Inr (msg_type, client_id, sender_id, seq, payload) \<Rightarrow>
          if msg_type = message_type_value MT_DATA then
            attempt (run_direct q4_filter_ops send (ag_data_msg_id sender_id client_id seq) client_id sender_id seq payload
              (q4f_bfn_data cfg client_id) DATA) r
          else if msg_type = message_type_value MT_EOF then q4f_handle_upstream_eof cfg send client_id sender_id seq payload r
          else if msg_type = message_type_value MT_ABORT then q4f_handle_abort cfg send client_id sender_id seq r
          else (Nacked True, r))"

definition q4f_handle_flush_order ::
  "q4_filter_config \<Rightarrow> (outbox_entry \<Rightarrow> py_error option) \<Rightarrow> bytes \<Rightarrow> int \<Rightarrow> control_message \<Rightarrow> q4f_runner \<Rightarrow> delivery \<times> q4f_runner" where
  "q4f_handle_flush_order cfg send message client_id ctrl r =
     (if q4fc_id cfg = Q4F_LEADER_ID then (Acked, r)
      else if fi_skips r (q4f_is_closed client_id (q4f_state r)) client_id (cm_sender_id ctrl) client_id CTRL_FLUSH_ORDER then (Acked, r)
      else attempt (run_direct q4_filter_ops send (ag_flush_order_msg_id client_id (cm_sender_id ctrl)) client_id (cm_sender_id ctrl)
             client_id message (q4f_bfn_flush_order cfg client_id) CTRL_FLUSH_ORDER) r)"

text \<open>A request for the counts is answered directly; the coordinator does not log it.\<close>

definition q4f_handle_processed_request ::
  "(outbox_entry \<Rightarrow> py_error option) \<Rightarrow> int \<Rightarrow> control_message \<Rightarrow> q4f_runner \<Rightarrow> delivery \<times> q4f_runner" where
  "q4f_handle_processed_request send client_id ctrl r =
     attempt
       (abind (on_handler (on_worker (on_q4f_coordinator (process_control_message MT_PROCESSED_REQUEST client_id ctrl
          (q4f_processed_count client_id (q4f_state r)) (q4f_forwarded_total client_id (q4f_state r)))))) (\<lambda>action.
        (case action of
           Some (SendAnswerAction q message) \<Rightarrow> publish_direct send (broadcast_entries [q] message)
         | _ \<Rightarrow> areturn ()))) r"

definition q4f_handle_control ::
  "q4_filter_config \<Rightarrow> (outbox_entry \<Rightarrow> py_error option) \<Rightarrow> bytes \<Rightarrow> q4f_runner \<Rightarrow> delivery \<times> q4f_runner" where
  "q4f_handle_control cfg send message r =
     (case parse_message message of
        Inl _ \<Rightarrow> (Nacked True, r)
      | Inr (msg_type, client_id, ctrl) \<Rightarrow>
          if msg_type = message_type_value MT_FLUSH_ORDER then q4f_handle_flush_order cfg send message client_id ctrl r
          else if msg_type = message_type_value MT_PROCESSED_REQUEST then q4f_handle_processed_request send client_id ctrl r
          else (Acked, r))"

definition q4f_answer_msg_id :: "int \<Rightarrow> int \<Rightarrow> pystr" where
  "q4f_answer_msg_id client_id sender_id = lit ''pa:'' @ int_str client_id @ [58] @ int_str sender_id"

definition q4f_handle_processed_answer ::
  "(outbox_entry \<Rightarrow> py_error option) \<Rightarrow> bytes \<Rightarrow> int \<Rightarrow> control_message \<Rightarrow> q4f_runner \<Rightarrow> delivery \<times> q4f_runner" where
  "q4f_handle_processed_answer send message client_id ctrl =
     attempt (run_direct q4_filter_ops send (q4f_answer_msg_id client_id (cm_sender_id ctrl)) client_id (cm_sender_id ctrl) client_id
       message (q4f_bfn_answer client_id ctrl) CTRL_PROCESSED_ANSWER)"

definition q4f_handle_flush_ack ::
  "q4_filter_config \<Rightarrow> (outbox_entry \<Rightarrow> py_error option) \<Rightarrow> bytes \<Rightarrow> int \<Rightarrow> control_message \<Rightarrow> q4f_runner \<Rightarrow> delivery \<times> q4f_runner" where
  "q4f_handle_flush_ack cfg send message client_id ctrl r =
     (if fi_skips r (q4f_is_closed client_id (q4f_state r)) client_id (cm_sender_id ctrl) client_id CTRL_FLUSH_ACK then (Acked, r)
      else
        (let ec = q4f_coordinator (q4f_state r);
             already = has_flush_ack ec client_id (cm_sender_id ctrl);
             new_ack_count = flush_ack_count ec client_id + (if already then 0 else 1) in
         attempt (run_direct q4_filter_ops send (ag_flush_ack_msg_id client_id (cm_sender_id ctrl)) client_id (cm_sender_id ctrl)
           client_id message (q4f_bfn_flush_ack cfg client_id ctrl new_ack_count) CTRL_FLUSH_ACK) r))"

definition q4f_handle_response ::
  "q4_filter_config \<Rightarrow> (outbox_entry \<Rightarrow> py_error option) \<Rightarrow> bytes \<Rightarrow> q4f_runner \<Rightarrow> delivery \<times> q4f_runner" where
  "q4f_handle_response cfg send message r =
     (case parse_message message of
        Inl _ \<Rightarrow> (Nacked True, r)
      | Inr (msg_type, client_id, ctrl) \<Rightarrow>
          if msg_type = message_type_value MT_PROCESSED_ANSWER then q4f_handle_processed_answer send message client_id ctrl r
          else if msg_type = message_type_value MT_FLUSH_ACK then q4f_handle_flush_ack cfg send message client_id ctrl r
          else (Acked, r))"

definition q4f_republish_pending :: "(outbox_entry \<Rightarrow> py_error option) \<Rightarrow> q4f_runner \<Rightarrow> q4f_runner" where
  "q4f_republish_pending send r =
     foldl (\<lambda>r entry. snd (publish_direct send [entry] r)) r (outbox_to_republish (r_handler r))"

subsection \<open>The worker is durable\<close>

lemmas q4f_op_defs = q4f_apply_data_def q4f_apply_close_def replay_upstream_eof_def replay_msg_def on_q4f_coordinator_def

interpretation q4f: closing_state q4f_changes q4f_closed
proof
  show "q4f_closed s \<subseteq> q4f_closed (snd (f c ch s))" if "q4f_changes kind = Some f" for kind f s c ch
    using that
    by (auto simp: q4f_changes_def q4f_op_defs act_defs Let_def split: if_splits sum.splits prod.splits)
qed (auto simp: q4f_changes_def q4f_apply_data_def q4f_apply_close_def amodify_def)

interpretation q4f_co: coordinated_state q4f_changes q4f_coordinator q4f_set_coordinator
  by unfold_locales (simp_all add: q4f_changes_def on_q4f_coordinator_def)

definition q4f_frame :: "q4_filter_state \<Rightarrow> (int \<times> int \<times> pystr \<times> pystr \<times> ec_mode \<times> int \<times> bool) \<times> int" where
  "q4f_frame s = (coordinator_config (q4f_coordinator s), q4f_sum_amount s)"

lemma keeps_on_q4f [keeps_intros]: "keeps coordinator_config m \<Longrightarrow> keeps q4f_frame (on_q4f_coordinator m)"
  by (auto simp: keeps_def on_q4f_coordinator_def azoom_def q4f_frame_def split: prod.splits) (metis snd_conv)

lemma keeps_q4f_data [keeps_intros]: "keeps q4f_frame (q4f_apply_data c ch)"
  by (auto simp: keeps_def q4f_apply_data_def q4f_frame_def Let_def split: sum.splits prod.splits)

lemma keeps_q4f_ops: "q4f_changes kind = Some f \<Longrightarrow> keeps q4f_frame (f c ch)"
  by (auto simp: q4f_changes_def replay_upstream_eof_def replay_msg_def q4f_apply_close_def q4f_frame_def cleanup_frame
      intro!: keeps_intros split: if_splits)

interpretation q4f_worker: worker_state q4_filter_ops "new_q4_filter_state ec n" "\<lambda>s. q4f_frame s = (coordinator_config ec, n)" for ec n
proof
  show "q4f_frame s' = (coordinator_config ec, n)"
    if "q4f_frame s = (coordinator_config ec, n)" "apply_change q4_filter_ops ch s = (Inr (), s')" for s ch s'
  proof -
    have "q4f_frame (snd (dispatch_change q4f_changes ch s)) = (coordinator_config ec, n)"
      by (rule dispatch_invariant [where I = "\<lambda>s. q4f_frame s = (coordinator_config ec, n)"])
        (use that(1) keeps_q4f_ops in \<open>auto simp: keeps_def\<close>)
    with that(2) show ?thesis by (simp add: q4_filter_ops_def q4f_apply_change_def)
  qed
qed (auto simp: new_q4_filter_state_def q4_filter_ops_def q4f_snapshot_def q4f_restore_def q4f_frame_def coordinator_restore_snapshot)

definition q4f_msg :: "pystr \<Rightarrow> input_key \<Rightarrow> bool" where
  "q4f_msg m z \<longleftrightarrow> agg_msg m z \<or> (\<exists>c s. z = (c, s, c, CTRL_PROCESSED_ANSWER) \<and> m = q4f_answer_msg_id c s)"

lemma q4f_answer_id_new: "\<not> agg_msg (q4f_answer_msg_id c s) z"
  by (cases z) (auto simp: agg_id_defs q4f_answer_msg_id_def lit_def)

lemma q4f_answer_id_inject: "q4f_answer_msg_id c s = q4f_answer_msg_id c s' \<longleftrightarrow> s = s'"
  by (simp add: q4f_answer_msg_id_def)

interpretation q4f_ids: message_ids q4f_msg
proof
  show "x = y" if "q4f_msg m (c, x)" "q4f_msg m (c, y)" for m c x y
    using that agg_ids.msg_key [of m c x y] unfolding q4f_msg_def
    by (metis Pair_inject q4f_answer_id_new q4f_answer_id_inject)
  show "m = m'" if "q4f_msg m z" "q4f_msg m' z" for m m' z
  proof -
    have "\<not> agg_msg n (c, s, c, CTRL_PROCESSED_ANSWER)" for n c s by simp
    then show ?thesis using that agg_ids.msg_id [of m z m'] unfolding q4f_msg_def by (metis Pair_inject)
  qed
qed

interpretation q4f_durable: durable_worker q4f_msg q4_filter_ops "new_q4_filter_state ec n"
    "\<lambda>s. q4f_frame s = (coordinator_config ec, n)" for ec n
  by unfold_locales

subsection \<open>The business functions\<close>

lemma partition_of_nonneg: "partition_of n x = Inr part \<Longrightarrow> 0 \<le> part"
  by (auto simp: partition_of_def dest: partition_for_parts_range)

lemma append_counted_keys:
  assumes "fst ` set d \<subseteq> {0..}"
  shows "fst ` set (snd (afor (append_counted n) xs d)) \<subseteq> {0..}"
proof (rule afor_invariant [where I = "\<lambda>d. fst ` set d \<subseteq> {0..}"])
  show "fst ` set (snd (append_counted n x d)) \<subseteq> {0..}" if "fst ` set d \<subseteq> {0..}" for x d
  proof (cases "partition_of n x")
    case (Inr part)
    with that partition_of_nonneg have "fst ` set (dappend part x d) \<subseteq> {0..}" unfolding dappend_def by (subst dom_update) auto
    with Inr show ?thesis by (simp only: append_counted_def abind_def alift_def amodify_def prod.case sum.case snd_conv)
  qed (use that in \<open>simp add: append_counted_def abind_def alift_def\<close>)
qed (rule assms)

lemma gate_tx_sink:
  assumes "\<And>xs d. I d \<Longrightarrow> I (snd (afor sink xs d))" and "I (snd st)"
  shows "I (snd (snd (gate_tx fallback sink tx st)))"
  using assms by (cases st) (auto simp: gate_tx_def Let_def split: sum.splits prod.splits, metis snd_conv)

lemma q4f_predicted_keys:
  assumes "q4f_predict_data_outputs c p s = Inr by_partition"
  shows "fst ` set by_partition \<subseteq> {0..}"
proof (cases "c \<in> q4f_closed s")
  case False
  with assms obtain txs where res: "(case afor (gate_tx (\<lambda>source. dget (source_states_for c s) source new_source_state)
      (append_counted (q4f_sum_amount s))) txs ([], []) of (Inl e, _) \<Rightarrow> Inl e | (Inr _, (_, by_partition)) \<Rightarrow> Inr by_partition) = Inr by_partition"
    by (auto simp: q4f_predict_data_outputs_def Let_def)
  obtain r states d where "afor (gate_tx (\<lambda>source. dget (source_states_for c s) source new_source_state)
      (append_counted (q4f_sum_amount s))) txs ([], []) = (r, (states, d))" by (rule prod_cases3)
  with res have run: "afor (gate_tx (\<lambda>source. dget (source_states_for c s) source new_source_state)
      (append_counted (q4f_sum_amount s))) txs ([], []) = (Inr (), (states, by_partition))" by (cases r) simp_all
  have "fst ` set (snd (snd (afor (gate_tx (\<lambda>source. dget (source_states_for c s) source new_source_state)
      (append_counted (q4f_sum_amount s))) txs ([], [])))) \<subseteq> {0..}"
    by (rule afor_invariant [where I = "\<lambda>st. fst ` set (snd st) \<subseteq> {0..}"])
      (rule gate_tx_sink [where I = "\<lambda>d. fst ` set d \<subseteq> {0..}"], rule append_counted_keys, simp_all)
  with run show ?thesis by simp
qed (use assms in \<open>simp add: q4f_predict_data_outputs_def\<close>)

lemma sorted_batches_ok:
  assumes "rmap (fi_batches edge len ser c) (sort_key f d) = Inr batches" and "fst ` set d \<subseteq> {0..}"
  shows "list_all out_ok (concat batches)"
  using assms by (fastforce simp: list_all_concat elim!: rmap_all dest: fi_outputs_ok(2) [rotated])

lemma on_q4f_tried:
  assumes "keeps coordinator_config m" and "on_q4f_coordinator (tried m) s = (Inr a, s')"
  shows "s' = s"
  using tried_pure [OF assms(1), of "q4f_coordinator s"] assms(2)
  by (cases "tried m (q4f_coordinator s)") (auto simp: on_q4f_coordinator_def azoom_def)

lemmas q4f_change_defs = q4f_data_change_def q4f_close_change_def q4f_upstream_eof_change_def q4f_msg_change_def
  q4f_cleanup_change_def q4f_compound_change_def q4f_abort_change_def

lemma business_no_effect:
  assumes "\<And>ch outs s'. f p s = (Inr (ch, outs), s') \<Longrightarrow> s' = s \<and> state_change_ok ch \<and> list_all out_ok outs"
  shows "business_ok W f p s"
  using assms by (auto simp: business_ok_def split: prod.splits sum.splits)

lemma q4f_business:
  "business_ok W (q4f_bfn_data cfg c) p s"
  "business_ok W (q4f_bfn_abort cfg c) p s"
  "business_ok W (q4f_bfn_upstream_eof cfg c ctrl n f) p s"
  "business_ok W (q4f_bfn_flush_order cfg c) p s"
  "business_ok W (q4f_bfn_answer c ctrl) p s"
  "business_ok W (q4f_bfn_flush_ack cfg c ctrl n) p s"
proof -
  show "business_ok W (q4f_bfn_data cfg c) p s"
    by (rule business_no_effect)
      (auto simp: q4f_bfn_data_def q4f_data_outputs_def q4f_change_defs abind_eq_Inr aget_def alift_def areturn_def
        dest: sorted_batches_ok q4f_predicted_keys)
  show "business_ok W (q4f_bfn_abort cfg c) p s"
    by (rule business_no_effect)
      (auto simp: q4f_bfn_abort_def q4f_change_defs abind_eq_Inr alift_def areturn_def fi_compound_ok dest: fi_outputs_ok(1))
  show "business_ok W (q4f_bfn_upstream_eof cfg c ctrl n f) p s"
  proof (rule business_no_effect)
    fix ch outs s'
    assume *: "q4f_bfn_upstream_eof cfg c ctrl n f p s = (Inr (ch, outs), s')"
    then obtain a s1 where "on_q4f_coordinator (tried (on_upstream_eof c (expected_total ctrl) n f)) s = (Inr a, s1)"
      unfolding q4f_bfn_upstream_eof_def abind_eq_Inr by blast
    moreover from this have "s1 = s" by (rule on_q4f_tried [OF keeps_coordinator(1)])
    ultimately show "s' = s \<and> state_change_ok ch \<and> list_all out_ok outs"
      using * by (cases a)
        (auto simp: q4f_bfn_upstream_eof_def q4f_change_defs q4f_eof_outputs_def act_defs fi_compound_ok Let_def out_ok_def
          split: coordinator_action.splits sum.splits dest: fi_outputs_ok(1))
  qed
  show "business_ok W (q4f_bfn_flush_order cfg c) p s"
    by (rule business_no_effect)
      (auto simp: q4f_bfn_flush_order_def q4f_change_defs q4f_eof_outputs_def abind_eq_Inr alift_def areturn_def aget_def
        fi_compound_ok out_ok_def dest: fi_outputs_ok(1))
  show "business_ok W (q4f_bfn_answer c ctrl) p s"
  proof (rule business_no_effect)
    fix ch outs s'
    assume *: "q4f_bfn_answer c ctrl p s = (Inr (ch, outs), s')"
    then obtain a s1 where "on_q4f_coordinator (tried (process_control_message MT_PROCESSED_ANSWER c ctrl 0 0)) s = (Inr a, s1)"
      unfolding q4f_bfn_answer_def abind_eq_Inr by blast
    moreover from this have "s1 = s" by (rule on_q4f_tried [OF keeps_coordinator(2)])
    ultimately show "s' = s \<and> state_change_ok ch \<and> list_all out_ok outs"
      using * by (cases a)
        (auto simp: q4f_bfn_answer_def q4f_change_defs act_defs Let_def out_ok_def list_all_iff split: coordinator_action.splits)
  qed
  show "business_ok W (q4f_bfn_flush_ack cfg c ctrl n) p s"
    by (rule business_no_effect)
      (auto simp: q4f_bfn_flush_ack_def q4f_change_defs q4f_eof_outputs_def abind_eq_Inr alift_def areturn_def aget_def
        fi_compound_ok Let_def split: if_splits dest: fi_outputs_ok(1))
qed

subsection \<open>The gate\<close>

text \<open>What a source holds after the edges \<open>es\<close> of its own, and what has been sent for them.\<close>

definition gate_open :: "q4_transaction_edge list \<Rightarrow> bool" where
  "gate_open es \<longleftrightarrow> QUALIFY_TARGETS \<le> card (q4e_target ` set es)"

definition gate_state :: "q4_transaction_edge list \<Rightarrow> source_state" where
  "gate_state es =
     (if gate_open es then \<lparr>ss_targets = {}, ss_qualified = True, ss_pending = []\<rparr>
      else \<lparr>ss_targets = q4e_target ` set es, ss_qualified = False, ss_pending = es\<rparr>)"

definition gate_sent :: "q4_transaction_edge list \<Rightarrow> q4_counted_edge list" where
  "gate_sent es = (if gate_open es then concat (map counted_for es) else [])"

lemma gate_Nil: "gate_state [] = new_source_state" "gate_sent [] = []"
  by (simp_all add: gate_state_def gate_sent_def gate_open_def new_source_state_def QUALIFY_TARGETS_def)

lemma gate_open_snoc: "gate_open es \<Longrightarrow> gate_open (es @ [e])"
  unfolding gate_open_def by (erule order_trans) (auto intro: card_mono)

lemma gate_emit_step:
  "gate_emit (gate_state es) e = (emitted, st') \<Longrightarrow> st' = gate_state (es @ [e]) \<and> gate_sent (es @ [e]) = gate_sent es @ emitted"
  using gate_open_snoc [of es e]
  by (cases "gate_open es") (auto simp: gate_emit_def gate_state_def gate_sent_def gate_open_def Let_def insert_commute split: if_splits)

text \<open>Every record sent belongs to the source whose edge it comes from.\<close>

definition edge_owner :: "q4_counted_edge \<Rightarrow> q4_account_id" where
  "edge_owner x = (if q4c_role x = Q4_EDGE_INCOMING then q4c_endpoint x else q4c_intermediate x)"

lemma gate_sent_owner:
  assumes "\<forall>e \<in> set es. q4e_source e = src" and "x \<in> set (gate_sent es)"
  shows "edge_owner x = src"
  using assms by (auto simp: gate_sent_def counted_for_def edge_owner_def split: if_splits)

definition edges_from :: "q4_account_id \<Rightarrow> q4_transaction_edge list \<Rightarrow> q4_transaction_edge list" where
  "edges_from src es = filter (\<lambda>e. q4e_source e = src) es"

text \<open>The states of all sources after the edges \<open>es\<close>, and what has been sent for all of them.\<close>

definition gated :: "q4_transaction_edge list \<Rightarrow> (q4_account_id \<Rightarrow> source_state) \<Rightarrow> q4_counted_edge list \<Rightarrow> bool" where
  "gated es state_of sent \<longleftrightarrow>
     (\<forall>src. state_of src = gate_state (edges_from src es) \<and> filter (\<lambda>x. edge_owner x = src) sent = gate_sent (edges_from src es))"

lemma gated_Nil: "gated [] (\<lambda>_. new_source_state) []"
  by (simp add: gated_def edges_from_def gate_Nil)

lemma gated_step:
  assumes "gated es state_of sent" and "gate_emit (state_of (q4e_source e)) e = (emitted, st')"
  shows "gated (es @ [e]) (state_of(q4e_source e := st')) (sent @ emitted)"
proof -
  let ?s = "q4e_source e"
  have own: "state_of ?s = gate_state (edges_from ?s es)" using assms(1) by (simp add: gated_def)
  with gate_emit_step [of "edges_from ?s es" e emitted st'] assms(2)
  have st': "st' = gate_state (edges_from ?s es @ [e])" and snt: "gate_sent (edges_from ?s es @ [e]) = gate_sent (edges_from ?s es) @ emitted"
    by simp_all
  have owner: "edge_owner x = ?s" if "x \<in> set emitted" for x
  proof (rule gate_sent_owner)
    show "\<forall>e' \<in> set (edges_from ?s es @ [e]). q4e_source e' = ?s" by (simp add: edges_from_def)
    show "x \<in> set (gate_sent (edges_from ?s es @ [e]))" using that unfolding snt by simp
  qed
  show ?thesis
    unfolding gated_def
  proof (intro allI conjI)
    fix src
    show "(state_of(?s := st')) src = gate_state (edges_from src (es @ [e]))"
      using assms(1) st' by (auto simp: gated_def edges_from_def)
    have "filter (\<lambda>x. edge_owner x = src) emitted = (if src = ?s then emitted else [])"
      using owner by (auto simp: filter_empty_conv intro: filter_True)
    then show "filter (\<lambda>x. edge_owner x = src) (sent @ emitted) = gate_sent (edges_from src (es @ [e]))"
      using assms(1) snt by (simp add: gated_def edges_from_def)
  qed
qed

text \<open>
  The two loops over a batch do the same: started from the same states, the predicting loop appends to the
  partitions what the applying one counts.
\<close>

definition state_in :: "(q4_account_id \<Rightarrow> source_state) \<Rightarrow> source_states \<Rightarrow> q4_account_id \<Rightarrow> source_state" where
  "state_in fallback states src = (case map_of states src of Some st \<Rightarrow> st | None \<Rightarrow> fallback src)"

lemma state_in_update [simp]: "state_in fallback (dset src st states) = (state_in fallback states)(src := st)"
  by (simp add: state_in_def update_conv' fun_eq_iff)

text \<open>What has been appended to the partitions is what was sent, each record to its partition.\<close>

definition distributed :: "int \<Rightarrow> q4_counted_edge list \<Rightarrow> (int \<times> q4_counted_edge list) list \<Rightarrow> bool" where
  "distributed n sent d \<longleftrightarrow>
     (\<forall>part. dget d part [] = filter (\<lambda>x. partition_of n x = Inr part) sent) \<and> (\<forall>x \<in> set sent. \<exists>part. partition_of n x = Inr part)"

lemma append_counted_run:
  assumes "afor (append_counted n) xs d = (Inr (), d')" and "distributed n sent d"
  shows "distributed n (sent @ xs) d'"
  using assms
proof (induction xs arbitrary: d sent)
  case (Cons x xs)
  from Cons.prems(1) obtain part where part: "partition_of n x = Inr part" and
    rest: "afor (append_counted n) xs (dappend part x d) = (Inr (), d')"
    by (auto simp: append_counted_def [of n x] abind_eq_Inr alift_def amodify_def)
  have "distributed n (sent @ [x]) (dappend part x d)"
    using Cons.prems(2) part by (auto simp: distributed_def dappend_def)
  from Cons.IH [OF rest this] show ?case by simp
qed (simp add: areturn_def)

lemma gate_batch:
  assumes "afor (gate_tx fallback (append_counted n)) txs (states, d) = (Inr (), (states', d'))"
    and "gated es (state_in fallback states) sent0" and "distributed n sent d"
  shows "\<exists>edges sent'. rmap edge_from_tx txs = Inr edges \<and> gated (es @ edges) (state_in fallback states') (sent0 @ sent') \<and>
    distributed n (sent @ sent') d'"
  using assms
proof (induction txs arbitrary: states d es sent sent0)
  case Nil
  then show ?case by (auto simp: areturn_def intro!: exI [of _ "[]"])
next
  case (Cons tx txs)
  from Cons.prems(1) obtain states1 d1 where one: "gate_tx fallback (append_counted n) tx (states, d) = (Inr (), (states1, d1))" and
    rest: "afor (gate_tx fallback (append_counted n)) txs (states1, d1) = (Inr (), (states', d'))"
    by (auto simp: abind_eq_Inr)
  from one obtain e where e: "edge_from_tx tx = Inr e" by (auto simp: gate_tx_def split: sum.splits)
  obtain emitted st' where ge: "gate_emit (state_in fallback states (q4e_source e)) e = (emitted, st')" by (metis prod.exhaust)
  from one e ge have app: "afor (append_counted n) emitted d = (Inr (), d1)" and states1: "states1 = dset (q4e_source e) st' states"
    by (auto simp: gate_tx_def state_in_def Let_def split: prod.splits)
  from gated_step [OF Cons.prems(2) ge] have "gated (es @ [e]) (state_in fallback states1) (sent0 @ emitted)" by (simp add: states1)
  from Cons.IH [OF rest this append_counted_run [OF app Cons.prems(3)]] e show ?case by auto
qed

lemma counted_appended:
  assumes "afor (append_counted n) xs d = (Inr (), d')" and "counts_match d before now"
  shows "\<exists>now'. afor (count_counted n) xs now = (Inr (), now') \<and> counts_match d' before now'"
  using assms
proof (induction xs arbitrary: d now)
  case (Cons x xs)
  from Cons.prems(1) obtain part where part: "partition_of n x = Inr part" and
    rest: "afor (append_counted n) xs (dappend part x d) = (Inr (), d')"
    by (auto simp: append_counted_def [of n x] abind_eq_Inr alift_def amodify_def)
  from Cons.IH [OF rest counts_match_append [OF Cons.prems(2)]] part show ?case
    by (simp add: count_counted_def abind_def alift_def amodify_def)
qed (simp add: areturn_def)

lemma gate_same_walk:
  assumes "afor (gate_tx fallback (append_counted n)) txs (work, d) = (Inr (), (work', d'))"
    and "state_in fallback work = state_in (\<lambda>_. new_source_state) states" and "counts_match d before now"
  shows "\<exists>states' now'. afor (gate_tx (\<lambda>_. new_source_state) (count_counted n)) txs (states, now) = (Inr (), (states', now')) \<and>
    state_in fallback work' = state_in (\<lambda>_. new_source_state) states' \<and> counts_match d' before now'"
  using assms
proof (induction txs arbitrary: work d states now)
  case (Cons tx txs)
  from Cons.prems(1) obtain work1 d1 where one: "gate_tx fallback (append_counted n) tx (work, d) = (Inr (), (work1, d1))" and
    rest: "afor (gate_tx fallback (append_counted n)) txs (work1, d1) = (Inr (), (work', d'))"
    by (auto simp: abind_eq_Inr)
  from one obtain e where e: "edge_from_tx tx = Inr e" by (auto simp: gate_tx_def split: sum.splits)
  obtain emitted st' where ge: "gate_emit (state_in fallback work (q4e_source e)) e = (emitted, st')" by (metis prod.exhaust)
  from one e ge have app: "afor (append_counted n) emitted d = (Inr (), d1)" and work1: "work1 = dset (q4e_source e) st' work"
    by (auto simp: gate_tx_def state_in_def Let_def split: prod.splits)
  from counted_appended [OF app Cons.prems(3)] obtain now1 where
    cnt: "afor (count_counted n) emitted now = (Inr (), now1)" and m: "counts_match d1 before now1" by blast
  let ?states = "dset (q4e_source e) st' states"
  have "gate_tx (\<lambda>_. new_source_state) (count_counted n) tx (states, now) = (Inr (), (?states, now1))"
    using ge e cnt unfolding Cons.prems(2) by (simp add: gate_tx_def state_in_def Let_def)
  moreover have "state_in fallback work1 = state_in (\<lambda>_. new_source_state) ?states" by (simp add: work1 Cons.prems(2))
  from Cons.IH [OF rest this m] obtain states' now' where
    "afor (gate_tx (\<lambda>_. new_source_state) (count_counted n)) txs (?states, now1) = (Inr (), (states', now'))"
    "state_in fallback work' = state_in (\<lambda>_. new_source_state) states'" "counts_match d' before now'" by blast
  ultimately show ?case by (auto simp: abind_def)
qed (simp add: areturn_def)

subsection \<open>A filter fed with batches\<close>

definition q4f_step :: "int \<Rightarrow> bytes \<Rightarrow> (q4_filter_state, (int \<times> q4_counted_edge list) list) act" where
  "q4f_step c b =
     abind (aget (q4f_predict_data_outputs c b)) (\<lambda>r.
     abind (alift r) (\<lambda>by_partition.
     abind (q4f_apply_change (q4f_data_change c b)) (\<lambda>_. areturn by_partition)))"

primrec q4f_feed :: "int \<Rightarrow> bytes list \<Rightarrow> (q4_filter_state, (int \<times> q4_counted_edge list) list list) act" where
  "q4f_feed c [] = areturn []"
| "q4f_feed c (b # bs) = abind (q4f_step c b) (\<lambda>d. abind (q4f_feed c bs) (\<lambda>ds. areturn (d # ds)))"

abbreviation q4f_state_of :: "int \<Rightarrow> q4_filter_state \<Rightarrow> q4_account_id \<Rightarrow> source_state" where
  "q4f_state_of c s \<equiv> state_in (\<lambda>_. new_source_state) (source_states_for c s)"

lemma q4f_step_run:
  assumes "q4f_step c b s = (Inr d, s')" and "c \<notin> q4f_closed s" and "gated es (q4f_state_of c s) sent"
  shows "\<exists>txs edges new. deserialize_transactions b = Inr txs \<and> rmap edge_from_tx txs = Inr edges \<and>
    c \<notin> q4f_closed s' \<and> q4f_sum_amount s' = q4f_sum_amount s \<and> gated (es @ edges) (q4f_state_of c s') (sent @ new) \<and>
    distributed (q4f_sum_amount s) new d \<and> counts_match d (q4f_forwarded_by_partition c s) (q4f_forwarded_by_partition c s')"
proof -
  let ?n = "q4f_sum_amount s" and ?fb = "\<lambda>source. dget (source_states_for c s) source new_source_state"
  from assms(1) have pred: "q4f_predict_data_outputs c b s = Inr d" and
    app: "q4f_apply_change (q4f_data_change c b) s = (Inr (), s')"
    by (auto simp: q4f_step_def abind_eq_Inr aget_def alift_def areturn_def)
  from pred assms(2) obtain txs where txs: "deserialize_transactions b = Inr txs" and
    res: "(case afor (gate_tx ?fb (append_counted ?n)) txs ([], []) of
       (Inl e, _) \<Rightarrow> Inl e | (Inr _, (_, by_partition)) \<Rightarrow> Inr by_partition) = Inr d"
    by (auto simp: q4f_predict_data_outputs_def Let_def)
  obtain r work d0 where "afor (gate_tx ?fb (append_counted ?n)) txs ([], []) = (r, (work, d0))" by (rule prod_cases3)
  with res have run: "afor (gate_tx ?fb (append_counted ?n)) txs ([], []) = (Inr (), (work, d))" by (cases r) simp_all
  have start: "state_in ?fb [] = q4f_state_of c s" by (simp add: state_in_def dget_def fun_eq_iff)
  from gate_same_walk [OF run start counts_match_Nil, of "q4f_forwarded_by_partition c s"] obtain states' now' where
    walk: "afor (gate_tx (\<lambda>_. new_source_state) (count_counted ?n)) txs (source_states_for c s, q4f_forwarded_by_partition c s) =
      (Inr (), (states', now'))" and
    same: "state_in ?fb work = state_in (\<lambda>_. new_source_state) states'" and
    m: "counts_match d (q4f_forwarded_by_partition c s) now'" by blast
  have s': "c \<notin> q4f_closed s' \<and> q4f_sum_amount s' = ?n \<and> source_states_for c s' = states' \<and> q4f_forwarded_by_partition c s' = now'"
    using app assms(2) txs walk
    by (auto simp: q4f_apply_change_def q4f_data_change_def fi_dispatch_simps q4f_changes_def q4f_apply_data_def fi_payload
        source_states_for_def q4f_forwarded_by_partition_def Let_def)
  have "gated es (state_in ?fb []) sent" "distributed ?n [] []" using assms(3) by (simp_all add: start distributed_def)
  from gate_batch [OF run this] obtain edges new where
    "rmap edge_from_tx txs = Inr edges" "gated (es @ edges) (state_in ?fb work) (sent @ new)" "distributed ?n new d" by auto
  with s' txs same m show ?thesis by auto
qed

text \<open>
  After any number of batches of a client: the records sent so far are, for every source, those of the open gate, and each
  sum shard was sent its own.
\<close>

lemma q4f_feed_run:
  assumes "q4f_feed c bs s = (Inr ds, s')" and "c \<notin> q4f_closed s" and "gated es (q4f_state_of c s) sent"
  shows "\<exists>txss edges new. rmap deserialize_transactions bs = Inr txss \<and> rmap edge_from_tx (concat txss) = Inr edges \<and>
    gated (es @ edges) (q4f_state_of c s') (sent @ new) \<and>
    (\<forall>part. concat (map (\<lambda>d. dget d part []) ds) = filter (\<lambda>x. partition_of (q4f_sum_amount s) x = Inr part) new) \<and>
    (\<forall>x \<in> set new. \<exists>part. partition_of (q4f_sum_amount s) x = Inr part) \<and>
    (\<forall>part. dget (q4f_forwarded_by_partition c s') part 0 =
       dget (q4f_forwarded_by_partition c s) part 0 + int (length (concat (map (\<lambda>d. dget d part []) ds))))"
  using assms
proof (induction bs arbitrary: s es sent ds)
  case Nil
  then show ?case by (auto simp: areturn_def intro!: exI [of _ "[]"])
next
  case (Cons b bs)
  from Cons.prems(1) obtain d rest s1 where one: "q4f_step c b s = (Inr d, s1)" and
    run: "q4f_feed c bs s1 = (Inr rest, s')" and ds: "ds = d # rest" by (auto simp: abind_eq_Inr areturn_def)
  from q4f_step_run [OF one Cons.prems(2,3)] obtain txs edges new where
    b: "deserialize_transactions b = Inr txs" "rmap edge_from_tx txs = Inr edges" and
    s1: "c \<notin> q4f_closed s1" "q4f_sum_amount s1 = q4f_sum_amount s" "gated (es @ edges) (q4f_state_of c s1) (sent @ new)" and
    d: "distributed (q4f_sum_amount s) new d" "counts_match d (q4f_forwarded_by_partition c s) (q4f_forwarded_by_partition c s1)" by blast
  from Cons.IH [OF run s1(1,3)] obtain txss edges' new' where
    IH: "rmap deserialize_transactions bs = Inr txss" "rmap edge_from_tx (concat txss) = Inr edges'"
    "gated ((es @ edges) @ edges') (q4f_state_of c s') ((sent @ new) @ new')"
    "\<forall>part. concat (map (\<lambda>d. dget d part []) rest) = filter (\<lambda>x. partition_of (q4f_sum_amount s1) x = Inr part) new'"
    "\<forall>x \<in> set new'. \<exists>part. partition_of (q4f_sum_amount s1) x = Inr part"
    "\<forall>part. dget (q4f_forwarded_by_partition c s') part 0 =
       dget (q4f_forwarded_by_partition c s1) part 0 + int (length (concat (map (\<lambda>d. dget d part []) rest)))" by blast
  have "rmap edge_from_tx (concat (txs # txss)) = Inr (edges @ edges')" using b(2) IH(2) by (auto simp: rmap_append)
  with b(1) IH d show ?case
    by (intro exI [of _ "txs # txss"] exI [of _ "edges @ edges'"] exI [of _ "new @ new'"])
      (auto simp: ds distributed_def counts_match_def s1(2))
qed

subsection \<open>Direct sends\<close>

text \<open>Sending directly is sending through the publishers of the destinations at hand.\<close>

lemma publish_direct_as_publish:
  "set (map destination es) \<subseteq> set ps \<Longrightarrow> publish_direct send es r = publish ps send es r"
proof (induction es arbitrary: r)
  case (Cons e es)
  then show ?case by (simp add: publish_Cons publish_direct_def act_defs split: option.split)
qed (simp add: publish_direct_def areturn_def)

lemma run_direct_as_message: "\<exists>ps. run_direct W send m c s q p f k r = run_message W ps send m c s q p f k r"
proof (cases "handle W m c s q p f k (r_handler r)")
  case (Pair x h')
  show ?thesis
  proof (cases "\<exists>es. x = Inr (PublishThenCommit es (m, c, s, q, k))")
    case True
    then obtain es where x: "x = Inr (PublishThenCommit es (m, c, s, q, k))" ..
    have "publish_direct send es (r\<lparr>r_handler := h'\<rparr>) = publish (map destination es) send es (r\<lparr>r_handler := h'\<rparr>)"
      by (rule publish_direct_as_publish) simp
    with Pair x have "run_direct W send m c s q p f k r = run_message W (map destination es) send m c s q p f k r"
      by (simp add: run_direct_def run_message_def publish_commit_ack_def on_handler_def act_defs)
    then show ?thesis by blast
  next
    case False
    with Pair have "(\<exists>e. x = Inl e) \<or> x = Inr Ack"
      by (auto simp: handle_classified split: inbox_status.splits prod.splits sum.splits)
    with Pair have "run_direct W send m c s q p f k r = run_message W [] send m c s q p f k r"
      by (auto simp: run_direct_def run_message_def publish_commit_ack_def on_handler_def act_defs)
    then show ?thesis by blast
  qed
qed

lemma run_direct_acked:
  assumes "inbox_wf (h_inbox (r_handler r))" and "run_direct W send m c s q p f k r = (Inr u, r')"
  shows "classify (h_inbox (r_handler r')) c s q k = DONE"
  using run_direct_as_message [of W send m c s q p f k r] run_message_acked [OF assms(1)] assms(2) by metis

lemma run_direct_done:
  "classify (h_inbox (r_handler r)) c s q k = DONE \<Longrightarrow> run_direct W send m c s q p f k r = (Inr (), r)"
  using run_direct_as_message [of W send m c s q p f k r] run_message_done by metis

subsection \<open>What is done stays done\<close>

definition settles :: "('s, 'w) runner \<Rightarrow> ('s, 'w) runner \<Rightarrow> bool" where
  "settles r r' \<longleftrightarrow> (\<forall>x. key_status (h_inbox (r_handler r)) x = DONE \<longrightarrow> key_status (h_inbox (r_handler r')) x = DONE)"

lemma settles_refl: "h_inbox (r_handler r') = h_inbox (r_handler r) \<Longrightarrow> settles r r'"
  by (simp add: settles_def)

lemma settles_trans: "settles r r' \<Longrightarrow> settles r' r'' \<Longrightarrow> settles r r''"
  by (simp add: settles_def)

lemma apply_new_inbox_either:
  "apply_new W m c s q p f k h = (x, h') \<Longrightarrow> h_inbox h' = h_inbox h \<or> h_inbox h' = mark_applied c s q k (h_inbox h)"
  by (auto simp: apply_new_def handler_act_defs split: prod.splits sum.splits)

lemma settles_handle: "on_handler (handle W m c s q p f k) r = (x, r') \<Longrightarrow> settles r r'"
  by (auto simp: on_handler_def azoom_def handle_classified settles_def classify_mark_applied
      split: prod.splits inbox_status.splits sum.splits dest!: apply_new_inbox_either)

lemma settles_commit: "on_handler (commit_done W m c s q k) r = (x, r') \<Longrightarrow> settles r r'"
  by (auto simp: on_handler_def azoom_def commit_done_eq settles_def finish_input_def snapshotted_def Let_def classify_done_mono
      split: prod.splits sum.splits if_splits)

lemma settles_run_direct:
  assumes "run_direct W send m c s q p f k r = (x, r')"
  shows "settles r r'"
proof -
  obtain y r1 where h: "on_handler (handle W m c s q p f k) r = (y, r1)" by fastforce
  have "settles r1 r'"
  proof (cases "\<exists>es m c s q k. y = Inr (PublishThenCommit es (m, c, s, q, k))")
    case False
    then show ?thesis
      using assms h by (cases y rule: sum.exhaust)
        (auto simp: run_direct_def abind_def publish_commit_ack_def areturn_def intro: settles_refl split: instruction.splits)
  next
    case True
    then obtain es m c s q k where y: "y = Inr (PublishThenCommit es (m, c, s, q, k))" by blast
    obtain z r2 where p: "publish_direct send es r1 = (z, r2)" by fastforce
    have "settles r1 r2" using publish_direct_handler [OF p] by (simp add: settles_refl)
    moreover have "settles r2 r'"
      using assms h y p
      by (auto simp: run_direct_def abind_def publish_commit_ack_def areturn_def split: sum.splits prod.splits
          intro: settles_refl settles_commit)
    ultimately show ?thesis by (rule settles_trans)
  qed
  with settles_handle [OF h] show ?thesis by (rule settles_trans)
qed

lemma settles_attempt: "attempt (run_direct W send m c s q p f k) r = (d, r') \<Longrightarrow> settles r r'"
  by (auto simp: attempt_def split: prod.splits sum.splits intro: settles_run_direct)

lemma settles_request: "q4f_handle_processed_request send c ctrl r = (d, r') \<Longrightarrow> settles r r'"
  by (rule settles_refl)
    (auto simp: q4f_handle_processed_request_def attempt_def act_defs on_handler_def on_worker_def
      split: prod.splits sum.splits option.splits coordinator_action.splits dest!: publish_direct_handler)

text \<open>Any run of the worker's three consumers: data, control and response messages, whatever their outcome.\<close>

inductive q4f_runs :: "q4_filter_config \<Rightarrow> q4f_runner \<Rightarrow> q4f_runner \<Rightarrow> bool" for cfg where
  q4f_idle: "q4f_runs cfg r r"
| q4f_data: "q4f_runs cfg r r' \<Longrightarrow> q4f_process_data_message cfg send message r' = (d, r'') \<Longrightarrow> q4f_runs cfg r r''"
| q4f_control: "q4f_runs cfg r r' \<Longrightarrow> q4f_handle_control cfg send message r' = (d, r'') \<Longrightarrow> q4f_runs cfg r r''"
| q4f_response: "q4f_runs cfg r r' \<Longrightarrow> q4f_handle_response cfg send message r' = (d, r'') \<Longrightarrow> q4f_runs cfg r r''"

lemma settles_data: "q4f_process_data_message cfg send message r = (d, r') \<Longrightarrow> settles r r'"
  by (auto simp: q4f_process_data_message_def q4f_handle_upstream_eof_def q4f_handle_abort_def
      split: sum.splits if_splits intro: settles_attempt settles_refl)

lemma settles_control: "q4f_handle_control cfg send message r = (d, r') \<Longrightarrow> settles r r'"
  by (auto simp: q4f_handle_control_def q4f_handle_flush_order_def
      split: sum.splits if_splits intro: settles_attempt settles_refl settles_request)

lemma settles_response: "q4f_handle_response cfg send message r = (d, r') \<Longrightarrow> settles r r'"
  by (auto simp: q4f_handle_response_def q4f_handle_processed_answer_def q4f_handle_flush_ack_def Let_def
      split: sum.splits if_splits intro: settles_attempt settles_refl)

lemma q4f_runs_settles: "q4f_runs cfg r r' \<Longrightarrow> settles r r'"
  by (induction rule: q4f_runs.induct)
    (auto intro: settles_refl settles_trans settles_data settles_control settles_response)

subsection \<open>Properties\<close>

text \<open>
  C36: the gate of query 4. Whatever the batches in which a filter gets the transfers of a client, for every
  source account with at least six different targets among them both edges of each of its transfers have been
  sent on, in order, and for every other source none; each record has gone to the shard of its intermediate account,
  and the number announced to a shard in the EOF is the number of the records sent to it.
\<close>

theorem q4_filter_gate:
  assumes "q4f_feed c bs (new_q4_filter_state ec n) = (Inr ds, s)"
  shows "\<exists>txss edges sent. rmap deserialize_transactions bs = Inr txss \<and> rmap edge_from_tx (concat txss) = Inr edges \<and>
    (\<forall>src. filter (\<lambda>x. edge_owner x = src) sent =
       (if QUALIFY_TARGETS \<le> card (q4e_target ` set (edges_from src edges)) then concat (map counted_for (edges_from src edges)) else [])) \<and>
    (\<forall>part. concat (map (\<lambda>d. dget d part []) ds) = filter (\<lambda>x. partition_of n x = Inr part) sent \<and>
       dget (q4f_forwarded_by_partition c s) part 0 = int (length (filter (\<lambda>x. partition_of n x = Inr part) sent))) \<and>
    (\<forall>x \<in> set sent. \<exists>part. partition_of n x = Inr part)"
proof -
  let ?s = "new_q4_filter_state ec n"
  have start: "c \<notin> q4f_closed ?s" "gated [] (q4f_state_of c ?s) []" "q4f_sum_amount ?s = n" "q4f_forwarded_by_partition c ?s = []"
    using gated_Nil
    by (simp_all add: new_q4_filter_state_def source_states_for_def q4f_forwarded_by_partition_def state_in_def [abs_def])
  from q4f_feed_run [OF assms start(1,2), unfolded start(3,4)] obtain txss edges sent where
    "rmap deserialize_transactions bs = Inr txss" "rmap edge_from_tx (concat txss) = Inr edges" "gated edges (q4f_state_of c s) sent"
    "\<forall>part. concat (map (\<lambda>d. dget d part []) ds) = filter (\<lambda>x. partition_of n x = Inr part) sent"
    "\<forall>x \<in> set sent. \<exists>part. partition_of n x = Inr part"
    "\<forall>part. dget (q4f_forwarded_by_partition c s) part 0 = int (length (concat (map (\<lambda>d. dget d part []) ds)))" by auto
  then show ?thesis
    by (intro exI [of _ txss] exI [of _ edges] exI [of _ sent]) (simp add: gated_def gate_sent_def gate_open_def)
qed

text \<open>Nine transfers of one source to six targets: the sixth target opens the gate.\<close>

definition sg_id :: "nat \<Rightarrow> q4_account_id" where
  "sg_id a = \<lparr>q4_bank_id = [66], q4_account = [a]\<rparr>"

definition sg_tx :: "nat \<Rightarrow> transaction" where
  "sg_tx to = demo_tx\<lparr>tx_from_bank := [66], tx_from_account := [65], tx_to_bank := [66], tx_to_account := [to]\<rparr>"

definition sg_targets :: "nat list" where
  "sg_targets = [65, 65, 66, 66, 66, 67, 68, 69, 70]"

definition sg_edges :: "q4_transaction_edge list" where
  "sg_edges = map (\<lambda>a. \<lparr>q4e_source = sg_id 65, q4e_target = sg_id a\<rparr>) sg_targets"

lemma sg_id_eq [simp]: "sg_id a = sg_id b \<longleftrightarrow> a = b" by (simp add: sg_id_def)

lemma sg_bank: "notebook_bank_id [66] = Inr [66]"
  by (simp add: notebook_bank_id_def py_isdigit_def other_digits_def to_ascii_decimal_def is_digit_def py_strip_def is_space_def)

lemma sg_edge: "64 < a \<Longrightarrow> a < 128 \<Longrightarrow> edge_from_tx (sg_tx a) = Inr \<lparr>q4e_source = sg_id 65, q4e_target = sg_id a\<rparr>"
  by (simp add: edge_from_tx_def sg_tx_def sg_bank py_strip_def is_space_def sg_id_def)

lemma sg_edges_from: "rmap edge_from_tx (map sg_tx sg_targets) = Inr sg_edges"
  by (simp add: sg_targets_def sg_edges_def sg_edge)

lemma sg_partition: "a < 128 \<Longrightarrow> partition_of 1 \<lparr>q4c_role = r, q4c_intermediate = sg_id a, q4c_endpoint = e, q4c_count = n\<rparr> = Inr 0"
  unfolding partition_of_def by (rule partition_one) (simp add: sg_id_def)

lemmas sg_gate_simps = sg_targets_def gate_tx_def gate_emit_def new_source_state_def QUALIFY_TARGETS_def append_counted_def count_counted_def
  act_defs counted_for_def sg_partition dappend_def dget_def sg_edges_def sg_edge

lemma sg_gate:
  "afor (gate_tx (\<lambda>source. new_source_state) (append_counted 1)) (map sg_tx sg_targets) ([], []) =
   (Inr (), ([(sg_id 65, \<lparr>ss_targets = {}, ss_qualified = True, ss_pending = []\<rparr>)], [(0, concat (map counted_for sg_edges))]))"
  by (simp add: sg_gate_simps)

lemma sg_gate_counted:
  "fst (afor (gate_tx (\<lambda>_. new_source_state) (count_counted 1)) (map sg_tx sg_targets) ([], [])) = Inr ()"
  by (simp add: sg_gate_simps)

lemma sg_tx_bytes: "\<exists>b. deserialize_transactions b = Inr (map sg_tx sg_targets)"
proof -
  have "list_all (\<lambda>tx. \<exists>b. serialize_transaction tx = Inr b) (map sg_tx sg_targets)"
    by (simp add: serialize_transaction_def sg_tx_def sg_targets_def demo_tx_def encode_fixed_ascii ascii_def lit_def field_sizes pack_uint_def)
  from encode_batch_total [OF this] obtain b where "serialize_transactions (map sg_tx sg_targets) = Inr b"
    by (auto simp: serialize_transactions_def)
  moreover have "list_all transaction_ok (map sg_tx sg_targets)"
    by (simp add: transaction_ok_def sg_tx_def sg_targets_def demo_tx_def no_trailing_nul_def lit_def)
  ultimately show ?thesis using tx_codec.batch_roundtrip by (auto simp: serialize_transactions_def deserialize_transactions_def)
qed

lemma sg_filter:
  assumes "deserialize_transactions b = Inr (map sg_tx sg_targets)"
  shows "\<exists>s. q4f_feed 5 [b] (new_q4_filter_state ec 1) = (Inr [[(0, concat (map counted_for sg_edges))]], s)"
proof -
  have "q4f_predict_data_outputs 5 b (new_q4_filter_state ec 1) = Inr [(0, concat (map counted_for sg_edges))]"
    using assms sg_gate by (simp add: q4f_predict_data_outputs_def new_q4_filter_state_def source_states_for_def)
  moreover have "\<exists>s. q4f_apply_change (q4f_data_change 5 b) (new_q4_filter_state ec 1) = (Inr (), s)"
    using assms sg_gate_counted
    by (auto simp: q4f_apply_change_def q4f_data_change_def fi_dispatch_simps q4f_changes_def q4f_apply_data_def new_q4_filter_state_def source_states_for_def q4f_forwarded_by_partition_def fi_payload Let_def
        split: prod.splits)
  ultimately show ?thesis by (auto simp: q4f_step_def act_defs)
qed


theorem q4_filter_gate_witness:
  "\<exists>b s. q4f_feed 5 [b] (new_q4_filter_state demo_coordinator 1) = (Inr [[(0, concat (map counted_for sg_edges))]], s) \<and>
     dget (q4f_forwarded_by_partition 5 s) 0 0 = 18"
proof -
  obtain b where b: "deserialize_transactions b = Inr (map sg_tx sg_targets)" using sg_tx_bytes by blast
  from sg_filter [OF b] obtain s where
    s: "q4f_feed 5 [b] (new_q4_filter_state demo_coordinator 1) = (Inr [[(0, concat (map counted_for sg_edges))]], s)" by blast
  from q4_filter_gate [OF s] obtain sent where
    "concat (map (\<lambda>d. dget d (0::int) []) [[(0, concat (map counted_for sg_edges))]]) = filter (\<lambda>x. partition_of 1 x = Inr 0) sent"
    "dget (q4f_forwarded_by_partition 5 s) 0 0 = int (length (filter (\<lambda>x. partition_of 1 x = Inr 0) sent))" by blast
  then have "dget (q4f_forwarded_by_partition 5 s) 0 0 = int (length (concat (map counted_for sg_edges)))" by (simp add: dget_def)
  also have "\<dots> = 18" by (simp add: sg_edges_def sg_targets_def counted_for_def)
  finally show ?thesis using s by blast
qed

text \<open>
  C37: the leader of the query 4 filters never counts a second answer of a replica. Once an answer of a replica
  for a client has been acknowledged (from a well-formed inbox), the worker may go on with any data, control and response messages, of
  any clients and with any outcome: every further answer of that replica for that client, also one to a renewed
  request for the counts, is acknowledged without changing anything, so its count is never added. (Restarts of the
  process in between are not part of the statement.)
\<close>

theorem q4_filter_second_answer_lost:
  assumes "inbox_wf (h_inbox (r_handler r))" and "q4f_handle_processed_answer send m c ctrl r = (Acked, r')"
    and "q4f_runs cfg r' r''" and "cm_sender_id ctrl' = cm_sender_id ctrl"
  shows "q4f_handle_processed_answer send' m' c ctrl' r'' = (Acked, r'')"
proof -
  from assms(2) have "run_direct q4_filter_ops send (q4f_answer_msg_id c (cm_sender_id ctrl)) c (cm_sender_id ctrl) c m
      (q4f_bfn_answer c ctrl) CTRL_PROCESSED_ANSWER r = (Inr (), r')"
    by (auto simp: q4f_handle_processed_answer_def attempt_def split: prod.splits sum.splits)
  from run_direct_acked [OF assms(1) this] have "key_status (h_inbox (r_handler r')) (c, cm_sender_id ctrl, c, CTRL_PROCESSED_ANSWER) = DONE"
    by simp
  with q4f_runs_settles [OF assms(3)] have "key_status (h_inbox (r_handler r'')) (c, cm_sender_id ctrl, c, CTRL_PROCESSED_ANSWER) = DONE"
    unfolding settles_def by blast
  then show ?thesis by (simp add: q4f_handle_processed_answer_def attempt_def run_direct_done assms(4))
qed

text \<open>A leader of two replicas that waits for the counts of client 5, and the answer of replica 1.\<close>

definition sg_leader :: q4f_runner where
  "sg_leader = \<lparr>r_handler = \<lparr>h_node_id = lit ''n'', snapshot_every = 10, output_edges = [],
      h_worker = new_q4_filter_state (demo_coordinator\<lparr>leader_expected := [(5, 9)]\<rparr>) 1,
      h_last_state = new_last_state, h_wal = \<lparr>wal_current = Some [], wal_previous = None\<rparr>, h_inbox = new_inbox, h_outbox = [],
      h_sequencer = \<lparr>node_id = lit ''n'', edges = [], next_seq = [], next_addr_seq = []\<rparr>,
      applied_since_snapshot = 0\<rparr>, published = []\<rparr>"

definition sg_answer :: "int \<Rightarrow> control_message" where
  "sg_answer n = \<lparr>cm_sender_id = 1, expected_total = 9, processed_count = n\<rparr>"

lemma sg_answer_change_encodes:
  "\<exists>d. encode_record (applied_record (q4f_answer_msg_id 5 1) 5 1 5 CTRL_PROCESSED_ANSWER (su_msg_change MT_PROCESSED_ANSWER 5 1 9 3 0 0) []) = Inr d"
  by (rule encode_applied_ok)
    (simp_all add: q4f_answer_msg_id_def su_msg_change_def field_u32_def int_str_def nat_str.simps ascii_def lit_def dumps_str_def escape_char_def)

lemma sg_answer_done_encodes:
  "\<exists>d. encode_record (done_record (q4f_answer_msg_id 5 1) 5 1 5 CTRL_PROCESSED_ANSWER) = Inr d"
  by (rule encode_done_ok)
    (simp_all add: q4f_answer_msg_id_def field_u32_def int_str_def nat_str.simps ascii_def lit_def)

lemma sg_answer_acked: "\<exists>r'. q4f_handle_processed_answer (\<lambda>_. None) [] 5 (sg_answer 3) sg_leader = (Acked, r')"
proof -
  obtain d where d: "encode_record (applied_record (q4f_answer_msg_id 5 1) 5 1 5 CTRL_PROCESSED_ANSWER (su_msg_change MT_PROCESSED_ANSWER 5 1 9 3 0 0) []) = Inr d"
    using sg_answer_change_encodes by blast
  obtain e where e: "encode_record (done_record (q4f_answer_msg_id 5 1) 5 1 5 CTRL_PROCESSED_ANSWER) = Inr e"
    using sg_answer_done_encodes by blast
  have cl: "classify new_inbox 5 1 5 CTRL_PROCESSED_ANSWER = NEW" by (simp add: classify_def new_inbox_def)
  show ?thesis
    by (simp add: q4f_handle_processed_answer_def run_direct_def attempt_def on_handler_def handle_classified sg_leader_def sg_answer_def
        cl apply_new_def handler_act_defs q4f_bfn_answer_def on_q4f_coordinator_def azoom_def tried_def process_control_message_def on_processed_answer_def
        new_q4_filter_state_def demo_coordinator_def dget_def Let_def coordinator_restore_def coordinator_snapshot_def
        q4f_msg_change_def stamp_def observe_outputs_def q4_filter_ops_def q4f_apply_change_def q4f_co.replayed_msg
        wal_append_ok [OF d [unfolded applied_record_def]] commit_done_eq wal_append_ok [OF e] publish_commit_ack_def publish_direct_def
        entries_for_input_def outbox_add_def)
qed

text \<open>Replica 1 answers 3, a malformed control message arrives, and replica 1 answers 9.\<close>

theorem q4_filter_second_answer_lost_witness:
  "\<exists>r' d r''. q4f_handle_processed_answer (\<lambda>_. None) [] 5 (sg_answer 3) sg_leader = (Acked, r') \<and>
     q4f_handle_control \<lparr>q4fc_id = 0, q4fc_amount = 2, q4fc_sum_amount = 1, q4fc_batch_max_edges = 10\<rparr> (\<lambda>_. None) [] r' = (d, r'') \<and>
     q4f_handle_processed_answer (\<lambda>_. None) [] 5 (sg_answer 9) r'' = (Acked, r'')"
proof -
  let ?cfg = "\<lparr>q4fc_id = 0, q4fc_amount = 2, q4fc_sum_amount = 1, q4fc_batch_max_edges = 10\<rparr>"
  obtain r' where r': "q4f_handle_processed_answer (\<lambda>_. None) [] 5 (sg_answer 3) sg_leader = (Acked, r')" using sg_answer_acked by blast
  obtain d r'' where ctl: "q4f_handle_control ?cfg (\<lambda>_. None) [] r' = (d, r'')" by fastforce
  have "inbox_wf (h_inbox (r_handler sg_leader))" by (simp add: sg_leader_def)
  from q4_filter_second_answer_lost [OF this r' q4f_control [OF q4f_idle ctl], of "sg_answer 9" "\<lambda>_. None" "[]"] r' ctl show ?thesis
    by (auto simp: sg_answer_def)
qed

end
