(* ===== verification/Q4Sum.thy ===== *)
theory Q4Sum
  imports FanIn
begin

text \<open>
  \<open>workers/scatter_gather/q4_sum\<close>: the state (\<open>q4_sum_state.py\<close>) adds up, per client and intermediate account, the
  counted edges into and out of it; at the last EOF the worker (\<open>sums.py\<close>) cuts every intermediate with both sides
  into join blocks and sends each block to the joiner its key hashes to. Python iterates the set of
  intermediates in an order it does not specify: that order is the argument \<open>set_iter\<close>.
\<close>

subsection \<open>Q4SumState\<close>

type_synonym edge_counts = "(q4_account_id, q4_account_id) counters"

record q4_sum_state =
  q4s_eof_counter :: upstream_eof_counter
  q4s_incoming :: "(int \<times> edge_counts) list"
  q4s_outgoing :: "(int \<times> edge_counts) list"
  q4s_processed :: "(int \<times> int) list"
  q4s_closed :: "int set"

definition new_q4_sum_state :: "int \<Rightarrow> q4_sum_state" where
  "new_q4_sum_state filter_amount =
     \<lparr>q4s_eof_counter = new_eof_counter filter_amount, q4s_incoming = [], q4s_outgoing = [], q4s_processed = [], q4s_closed = {}\<rparr>"

definition q4s_data_change :: "int \<Rightarrow> bytes \<Rightarrow> json" where
  "q4s_data_change = fi_data_change"

definition q4s_eof_change :: "int \<Rightarrow> int \<Rightarrow> json" where
  "q4s_eof_change = fi_eof_change"

definition q4s_close_change :: "int \<Rightarrow> json" where
  "q4s_close_change = fi_close_change"

definition q4s_abort_change :: "int \<Rightarrow> json" where
  "q4s_abort_change client_id = q4s_close_change client_id"

definition q4s_compound_change :: "json list \<Rightarrow> json" where
  "q4s_compound_change = fi_compound_change"

definition q4s_incoming_for :: "int \<Rightarrow> q4_sum_state \<Rightarrow> edge_counts" where
  "q4s_incoming_for client_id s = dget (q4s_incoming s) client_id []"

definition q4s_outgoing_for :: "int \<Rightarrow> q4_sum_state \<Rightarrow> edge_counts" where
  "q4s_outgoing_for client_id s = dget (q4s_outgoing s) client_id []"

definition q4s_processed_count :: "int \<Rightarrow> q4_sum_state \<Rightarrow> int" where
  "q4s_processed_count client_id s = dget (q4s_processed s) client_id 0"

definition q4s_eof_count :: "int \<Rightarrow> q4_sum_state \<Rightarrow> int" where
  "q4s_eof_count client_id s = uc_count client_id (q4s_eof_counter s)"

definition q4s_eof_would_complete :: "int \<Rightarrow> int \<Rightarrow> q4_sum_state \<Rightarrow> bool" where
  "q4s_eof_would_complete client_id sender_id s = would_flush client_id sender_id (q4s_eof_counter s)"

definition q4s_is_closed :: "int \<Rightarrow> q4_sum_state \<Rightarrow> bool" where
  "q4s_is_closed client_id s \<longleftrightarrow> client_id \<in> q4s_closed s"

definition file_counted_edge :: "q4_counted_edge \<Rightarrow> (edge_counts \<times> edge_counts, unit) act" where
  "file_counted_edge e = file_edge (q4c_role e) (q4c_intermediate e) (q4c_endpoint e) (q4c_count e)"

definition q4s_apply_data :: "int \<Rightarrow> json \<Rightarrow> (q4_sum_state, unit) act" where
  "q4s_apply_data client_id change s =
     (if client_id \<in> q4s_closed s then (Inr (), s)
      else
        (case rbind (rbind (jget_str change ''payload_b64'') b64decode) deserialize_counted_edges of
           Inl e \<Rightarrow> (Inl e, s)
         | Inr es \<Rightarrow>
             (let (r, incoming, outgoing) = afor file_counted_edge es (q4s_incoming_for client_id s, q4s_outgoing_for client_id s);
                  s' = s\<lparr>q4s_incoming := dset client_id incoming (q4s_incoming s),
                         q4s_outgoing := dset client_id outgoing (q4s_outgoing s)\<rparr> in
              (case r of
                 Inl e \<Rightarrow> (Inl e, s')
               | Inr _ \<Rightarrow>
                   (Inr (), s'\<lparr>q4s_processed :=
                      dset client_id (q4s_processed_count client_id s' + int (length es)) (q4s_processed s')\<rparr>)))))"

definition q4s_apply_eof :: "int \<Rightarrow> json \<Rightarrow> (q4_sum_state, unit) act" where
  "q4s_apply_eof client_id change =
     abind (alift (jget_int change ''sender_id'')) (\<lambda>sender.
     amodify (q4s_eof_counter_update (\<lambda>u. snd (on_eof client_id sender u))))"

definition q4s_apply_close :: "int \<Rightarrow> q4_sum_state \<Rightarrow> q4_sum_state" where
  "q4s_apply_close client_id s =
     s\<lparr>q4s_incoming := dpop client_id (q4s_incoming s), q4s_outgoing := dpop client_id (q4s_outgoing s),
       q4s_processed := dpop client_id (q4s_processed s), q4s_eof_counter := uc_close client_id (q4s_eof_counter s),
       q4s_closed := insert client_id (q4s_closed s)\<rparr>"

definition q4s_changes :: "q4_sum_state change_ops" where
  "q4s_changes kind =
     (if kind = lit ''data'' then Some q4s_apply_data
      else if kind = lit ''eof'' then Some q4s_apply_eof
      else if kind = lit ''close'' then Some (\<lambda>client_id _. amodify (q4s_apply_close client_id))
      else None)"

definition q4s_apply_change :: "json \<Rightarrow> (q4_sum_state, unit) act" where
  "q4s_apply_change = dispatch_change q4s_changes"

text \<open>The copies a snapshot makes of the nested dictionaries are equal to them.\<close>

record q4_sum_dict =
  q4sd_incoming :: "(int \<times> edge_counts) list"
  q4sd_outgoing :: "(int \<times> edge_counts) list"
  q4sd_processed :: "(int \<times> int) list"
  q4sd_eof_counter :: eof_counter_snapshot
  q4sd_closed :: "int set"

definition q4s_snapshot :: "q4_sum_state \<Rightarrow> q4_sum_dict option" where
  "q4s_snapshot s =
     Some \<lparr>q4sd_incoming = q4s_incoming s, q4sd_outgoing = q4s_outgoing s, q4sd_processed = q4s_processed s,
           q4sd_eof_counter = uc_snapshot (q4s_eof_counter s), q4sd_closed = q4s_closed s\<rparr>"

definition q4s_restore :: "q4_sum_dict option \<Rightarrow> (q4_sum_state, unit) act" where
  "q4s_restore data s =
     (case data of
        None \<Rightarrow> (Inr (), s\<lparr>q4s_incoming := [], q4s_outgoing := [], q4s_processed := [], q4s_closed := {}\<rparr>)
      | Some d \<Rightarrow>
          (Inr (), s\<lparr>q4s_incoming := q4sd_incoming d, q4s_outgoing := q4sd_outgoing d, q4s_processed := q4sd_processed d,
             q4s_eof_counter := uc_restore (q4sd_eof_counter d) (q4s_eof_counter s), q4s_closed := q4sd_closed d\<rparr>))"

definition q4_sum_ops :: "(q4_sum_state, q4_sum_dict option) worker_ops" where
  "q4_sum_ops = \<lparr>apply_change = q4s_apply_change, worker_snapshot = q4s_snapshot, worker_restore = q4s_restore\<rparr>"

subsection \<open>Q4SumWorker\<close>

record q4_sum_config =
  q4sc_id :: int
  q4sc_joiner_amount :: int
  q4sc_batch_max_edges :: int

definition Q4_JOINER_EDGE :: pystr where "Q4_JOINER_EDGE = lit ''q4_joiner''"
definition Q4_SUM_HOT_PAIR_THRESHOLD :: int where "Q4_SUM_HOT_PAIR_THRESHOLD = 1000000"
definition Q4_SUM_HOT_A_BUCKETS :: int where "Q4_SUM_HOT_A_BUCKETS = 16"
definition Q4_SUM_HOT_B_BUCKETS :: int where "Q4_SUM_HOT_B_BUCKETS = 16"

definition account_parts :: "q4_account_id \<Rightarrow> pystr list" where
  "account_parts account = [q4_bank_id account, q4_account account]"

definition account_bucket :: "q4_account_id \<Rightarrow> int \<Rightarrow> int res" where
  "account_bucket account bucket_count = partition_for_parts (account_parts account) bucket_count"

definition block_partition :: "int \<Rightarrow> q4_account_id \<Rightarrow> int \<Rightarrow> int \<Rightarrow> int res" where
  "block_partition joiners m a_bucket b_bucket =
     partition_for_parts (account_parts m @ [int_str a_bucket, int_str b_bucket]) joiners"

definition block_plan :: "int \<Rightarrow> int \<Rightarrow> int \<times> int" where
  "block_plan incoming_size outgoing_size =
     (if incoming_size * outgoing_size \<le> Q4_SUM_HOT_PAIR_THRESHOLD then (1, 1)
      else (max 1 Q4_SUM_HOT_A_BUCKETS, max 1 Q4_SUM_HOT_B_BUCKETS))"

definition incoming_block_edges ::
  "int \<Rightarrow> q4_account_id \<Rightarrow> int \<Rightarrow> int \<Rightarrow> q4_account_id \<times> int \<Rightarrow> (int \<times> q4_block_join_edge) list res" where
  "incoming_block_edges joiners m a_buckets b_buckets = (\<lambda>(endpoint, n).
     rbind (account_bucket endpoint a_buckets) (\<lambda>a.
     rmap (\<lambda>b. rbind (block_partition joiners m a b) (\<lambda>part.
       Inr (part, \<lparr>q4b_role = Q4_EDGE_INCOMING, q4b_intermediate = m, q4b_endpoint = endpoint,
                   q4b_a_bucket = a, q4b_b_bucket = b, q4b_count = n\<rparr>))) [0..b_buckets - 1]))"

definition outgoing_block_edges ::
  "int \<Rightarrow> q4_account_id \<Rightarrow> int \<Rightarrow> int \<Rightarrow> q4_account_id \<times> int \<Rightarrow> (int \<times> q4_block_join_edge) list res" where
  "outgoing_block_edges joiners m a_buckets b_buckets = (\<lambda>(endpoint, n).
     rbind (account_bucket endpoint b_buckets) (\<lambda>b.
     rmap (\<lambda>a. rbind (block_partition joiners m a b) (\<lambda>part.
       Inr (part, \<lparr>q4b_role = Q4_EDGE_OUTGOING, q4b_intermediate = m, q4b_endpoint = endpoint,
                   q4b_a_bucket = a, q4b_b_bucket = b, q4b_count = n\<rparr>))) [0..a_buckets - 1]))"

definition plan_intermediate ::
  "int \<Rightarrow> edge_counts \<Rightarrow> edge_counts \<Rightarrow> q4_account_id \<Rightarrow> (int \<times> q4_block_join_edge) list res" where
  "plan_intermediate joiners incoming outgoing m =
     (let incoming_counts = dget incoming m []; outgoing_counts = dget outgoing m [] in
      if incoming_counts = [] \<or> outgoing_counts = [] then Inr []
      else
        (let (a_buckets, b_buckets) = block_plan (int (length incoming_counts)) (int (length outgoing_counts)) in
         rbind (rmap (incoming_block_edges joiners m a_buckets b_buckets) incoming_counts) (\<lambda>ins.
         rbind (rmap (outgoing_block_edges joiners m a_buckets b_buckets) outgoing_counts) (\<lambda>outs.
         Inr (concat ins @ concat outs)))))"

definition plan_blocks ::
  "(q4_account_id list \<Rightarrow> q4_account_id list) \<Rightarrow> int \<Rightarrow> edge_counts \<Rightarrow> edge_counts \<Rightarrow> (int \<times> q4_block_join_edge) list res" where
  "plan_blocks set_iter joiners incoming outgoing =
     rbind (rmap (plan_intermediate joiners incoming outgoing)
       (set_iter (filter (\<lambda>m. map_of outgoing m \<noteq> None) (map fst incoming)))) (\<lambda>plans. Inr (concat plans))"

definition q4s_flush_outputs ::
  "(q4_account_id list \<Rightarrow> q4_account_id list) \<Rightarrow> q4_sum_config \<Rightarrow> int \<Rightarrow> q4_sum_state \<Rightarrow> logical_output list res" where
  "q4s_flush_outputs set_iter cfg client_id s =
     rbind (plan_blocks set_iter (q4sc_joiner_amount cfg) (q4s_incoming_for client_id s) (q4s_outgoing_for client_id s)) (\<lambda>planned.
     let edges_by_partition = group_by_key planned in
     rbind (rmap (fi_batches Q4_JOINER_EDGE (q4sc_batch_max_edges cfg) serialize_block_edges client_id) edges_by_partition) (\<lambda>batches.
     rbind (fi_broadcast Q4_JOINER_EDGE (q4sc_joiner_amount cfg) MT_EOF client_id
       (\<lambda>part. fi_control_payload (q4sc_id cfg) (int (length (dget edges_by_partition part []))) 0)) (\<lambda>eofs.
     Inr (concat batches @ eofs))))"

type_synonym q4s_fn = "bytes \<Rightarrow> (q4_sum_state, json \<times> logical_output list) act"

definition q4s_abort_fn :: "q4_sum_config \<Rightarrow> int \<Rightarrow> (q4_sum_state, json \<times> logical_output list) act" where
  "q4s_abort_fn cfg client_id =
     abind (alift (fi_broadcast Q4_JOINER_EDGE (q4sc_joiner_amount cfg) MT_ABORT client_id (\<lambda>_. Inr []))) (\<lambda>outputs.
     areturn (q4s_abort_change client_id, outputs))"

definition q4s_data_process_payload :: "int \<Rightarrow> q4s_fn" where
  "q4s_data_process_payload client_id payload = areturn (q4s_data_change client_id payload, [])"

definition q4s_bfn_eof ::
  "(q4_account_id list \<Rightarrow> q4_account_id list) \<Rightarrow> q4_sum_config \<Rightarrow> int \<Rightarrow> int \<Rightarrow> bool \<Rightarrow> q4s_fn" where
  "q4s_bfn_eof set_iter cfg client_id upstream_id completes payload =
     (let eof_change = q4s_eof_change client_id upstream_id in
      if completes then
        abind (aget (q4s_flush_outputs set_iter cfg client_id)) (\<lambda>r.
        abind (alift r) (\<lambda>outputs.
        areturn (q4s_compound_change [eof_change, q4s_close_change client_id], outputs)))
      else areturn (eof_change, []))"

type_synonym q4s_runner = "(q4_sum_state, q4_sum_dict option) runner"

definition q4s_handle_eof ::
  "(q4_account_id list \<Rightarrow> q4_account_id list) \<Rightarrow> q4_sum_config \<Rightarrow> (outbox_entry \<Rightarrow> py_error option) \<Rightarrow> bytes \<Rightarrow>
   q4s_runner \<Rightarrow> delivery \<times> q4s_runner" where
  "q4s_handle_eof set_iter cfg send raw r =
     (case rbind (unpack_addressed_packet raw) (\<lambda>(t, client_id, sender_id, seq, payload).
             rbind (deserialize_control payload) (\<lambda>ctrl. Inr (client_id, sender_id, seq, payload, ctrl))) of
        Inl _ \<Rightarrow> (Nacked True, r)
      | Inr (client_id, sender_id, seq, payload, ctrl) \<Rightarrow>
          (let s = h_worker (r_handler r); upstream_id = cm_sender_id ctrl in
           if fi_skips r (q4s_is_closed client_id s) client_id sender_id seq DATA then (Acked, r)
           else attempt (run_message q4_sum_ops [Q4_JOINER_EDGE] send (data_msg_id sender_id seq) client_id sender_id seq payload
                  (q4s_bfn_eof set_iter cfg client_id upstream_id (q4s_eof_would_complete client_id upstream_id s)) DATA) r))"

definition q4s_on_message ::
  "(q4_account_id list \<Rightarrow> q4_account_id list) \<Rightarrow> q4_sum_config \<Rightarrow> (outbox_entry \<Rightarrow> py_error option) \<Rightarrow> bytes \<Rightarrow>
   q4s_runner \<Rightarrow> delivery \<times> q4s_runner" where
  "q4s_on_message set_iter cfg send raw r =
     (if raw = [] then (Nacked False, r)
      else
        (let msg_type = uint (hd raw) in
         if msg_type = message_type_value MT_DATA \<or> msg_type = message_type_value MT_ABORT
         then process q4_sum_ops [Q4_JOINER_EDGE] send q4s_data_process_payload (Some (q4s_abort_fn cfg)) raw r
         else if msg_type = message_type_value MT_EOF then q4s_handle_eof set_iter cfg send raw r
         else (Nacked False, r)))"

subsection \<open>The worker is durable\<close>

interpretation q4s: closing_state q4s_changes q4s_closed
proof
  show "q4s_closed s \<subseteq> q4s_closed (snd (f c ch s))" if "q4s_changes kind = Some f" for kind f s c ch
    using that
    by (auto simp: q4s_changes_def q4s_apply_data_def q4s_apply_eof_def q4s_apply_close_def act_defs Let_def
        split: if_splits sum.splits prod.splits)
qed (auto simp: q4s_changes_def q4s_apply_data_def q4s_apply_close_def amodify_def)

interpretation q4s_state: worker_state q4_sum_ops "new_q4_sum_state n" "\<lambda>s. uc_expected (q4s_eof_counter s) = n" for n
proof
  show "uc_expected (q4s_eof_counter s') = n"
    if "uc_expected (q4s_eof_counter s) = n" "apply_change q4_sum_ops ch s = (Inr (), s')" for s ch s'
  proof -
    have "uc_expected (q4s_eof_counter (snd (dispatch_change q4s_changes ch s))) = n"
      by (rule dispatch_invariant)
        (use that(1) in \<open>auto simp: q4s_changes_def q4s_apply_data_def q4s_apply_eof_def q4s_apply_close_def act_defs Let_def
          split: if_splits sum.splits prod.splits\<close>)
    with that(2) show ?thesis by (simp add: q4_sum_ops_def q4s_apply_change_def)
  qed
qed (simp_all add: new_q4_sum_state_def new_eof_counter_def q4_sum_ops_def q4s_snapshot_def q4s_restore_def
    uc_restore_snapshot [unfolded new_eof_counter_def])

interpretation q4s_durable: durable_worker runner_msg q4_sum_ops "new_q4_sum_state n" "\<lambda>s. uc_expected (q4s_eof_counter s) = n" for n
  by unfold_locales

lemma plan_partitions:
  assumes "plan_blocks it J inc out = Inr es"
  shows "list_all (\<lambda>x. 0 \<le> fst x) es"
proof -
  have "list_all (\<lambda>x. 0 \<le> fst x) xs" if "incoming_block_edges J m na nb en = Inr xs" for m na nb en xs
    using that by (auto simp: incoming_block_edges_def block_partition_def split: prod.splits
        elim!: rmap_all dest: partition_for_parts_range)
  moreover have "list_all (\<lambda>x. 0 \<le> fst x) xs" if "outgoing_block_edges J m na nb en = Inr xs" for m na nb en xs
    using that by (auto simp: outgoing_block_edges_def block_partition_def split: prod.splits
        elim!: rmap_all dest: partition_for_parts_range)
  ultimately have "list_all (\<lambda>x. 0 \<le> fst x) xs" if "plan_intermediate J inc out m = Inr xs" for m xs
    using that
    by (auto simp: plan_intermediate_def Let_def list_all_concat split: if_splits prod.splits elim!: rmap_all)
  with assms show ?thesis by (auto simp: plan_blocks_def list_all_concat elim!: rmap_all)
qed

lemma q4s_flush_outputs_ok: "q4s_flush_outputs it cfg c s = Inr outs \<Longrightarrow> list_all out_ok outs"
  by (auto simp: q4s_flush_outputs_def Let_def dest!: plan_partitions dest: fi_grouped_ok fi_outputs_ok(1))

lemma q4s_business:
  "business_ok W (q4s_data_process_payload c) p s"
  "business_ok W (q4s_bfn_eof it cfg c up completes) p s"
  "business_ok W (\<lambda>_. q4s_abort_fn cfg c) p s"
proof -
  show "business_ok W (q4s_data_process_payload c) p s"
    by (rule business_pure) (auto simp: q4s_data_process_payload_def q4s_data_change_def areturn_def)
  show "business_ok W (q4s_bfn_eof it cfg c up completes) p s"
    by (rule business_pure)
      (auto simp: q4s_bfn_eof_def Let_def q4s_eof_change_def q4s_close_change_def q4s_compound_change_def act_defs
        split: sum.splits if_splits dest: q4s_flush_outputs_ok)
  show "business_ok W (\<lambda>_. q4s_abort_fn cfg c) p s"
    by (rule business_pure)
      (auto simp: q4s_abort_fn_def q4s_abort_change_def q4s_close_change_def act_defs split: sum.splits dest: fi_outputs_ok(1))
qed

subsection \<open>What the plan sends\<close>

text \<open>The total count of the edges of a role that one joiner gets for a block and an endpoint.\<close>

definition block_key :: "q4_block_join_edge \<Rightarrow> q4_account_id \<times> int \<times> int" where
  "block_key e = (q4b_intermediate e, q4b_a_bucket e, q4b_b_bucket e)"

definition sent_to :: "int \<Rightarrow> (int \<times> 'a) list \<Rightarrow> 'a list" where
  "sent_to part xs = map snd (filter (\<lambda>x. fst x = part) xs)"

lemma sent_to_simps [simp]:
  "sent_to part [] = []" "sent_to part (x # xs) = (if fst x = part then [snd x] else []) @ sent_to part xs"
  "sent_to part (xs @ ys) = sent_to part xs @ sent_to part ys"
  by (simp_all add: sent_to_def)

abbreviation block_sum :: "q4_block_join_edge list \<Rightarrow> int \<Rightarrow> q4_account_id \<times> int \<times> int \<Rightarrow> q4_account_id \<Rightarrow> int" where
  "block_sum \<equiv> edge_sum q4b_role block_key q4b_endpoint q4b_count"

lemma incoming_block_sum:
  assumes "incoming_block_edges J m na nb (e, n) = Inr xs"
  shows "block_sum (sent_to part xs) Q4_EDGE_INCOMING (m', a, b) e' =
      (if m' = m \<and> e' = e \<and> account_bucket e na = Inr a \<and> 0 \<le> b \<and> b < nb \<and> block_partition J m a b = Inr part then n else 0)"
    and "block_sum (sent_to part xs) Q4_EDGE_OUTGOING k e' = 0"
proof -
  from assms obtain a0 where a0: "account_bucket e na = Inr a0" and
    xs: "rmap (\<lambda>b. rbind (block_partition J m a0 b) (\<lambda>part.
       Inr (part, \<lparr>q4b_role = Q4_EDGE_INCOMING, q4b_intermediate = m, q4b_endpoint = e,
                   q4b_a_bucket = a0, q4b_b_bucket = b, q4b_count = n\<rparr>))) [0..nb - 1] = Inr xs"
    by (auto simp: incoming_block_edges_def)
  have "block_sum (sent_to part xs) Q4_EDGE_INCOMING (m', a, b) e' =
      (if m' = m \<and> e' = e \<and> a = a0 \<and> b \<in> set bs \<and> block_partition J m a b = Inr part then n else 0) \<and>
    block_sum (sent_to part xs) Q4_EDGE_OUTGOING k e' = 0"
    if "rmap (\<lambda>b. rbind (block_partition J m a0 b) (\<lambda>part.
       Inr (part, \<lparr>q4b_role = Q4_EDGE_INCOMING, q4b_intermediate = m, q4b_endpoint = e,
                   q4b_a_bucket = a0, q4b_b_bucket = b, q4b_count = n\<rparr>))) bs = Inr xs" "distinct bs" for bs xs
    using that by (induction bs arbitrary: xs) (auto simp: block_key_def)
  from this [OF xs] show "block_sum (sent_to part xs) Q4_EDGE_INCOMING (m', a, b) e' =
      (if m' = m \<and> e' = e \<and> account_bucket e na = Inr a \<and> 0 \<le> b \<and> b < nb \<and> block_partition J m a b = Inr part then n else 0)"
    and "block_sum (sent_to part xs) Q4_EDGE_OUTGOING k e' = 0"
    by (auto simp: a0)
qed

lemma outgoing_block_sum:
  assumes "outgoing_block_edges J m na nb (e, n) = Inr xs"
  shows "block_sum (sent_to part xs) Q4_EDGE_OUTGOING (m', a, b) e' =
      (if m' = m \<and> e' = e \<and> account_bucket e nb = Inr b \<and> 0 \<le> a \<and> a < na \<and> block_partition J m a b = Inr part then n else 0)"
    and "block_sum (sent_to part xs) Q4_EDGE_INCOMING k e' = 0"
proof -
  from assms obtain b0 where b0: "account_bucket e nb = Inr b0" and
    xs: "rmap (\<lambda>a. rbind (block_partition J m a b0) (\<lambda>part.
       Inr (part, \<lparr>q4b_role = Q4_EDGE_OUTGOING, q4b_intermediate = m, q4b_endpoint = e,
                   q4b_a_bucket = a, q4b_b_bucket = b0, q4b_count = n\<rparr>))) [0..na - 1] = Inr xs"
    by (auto simp: outgoing_block_edges_def)
  have "block_sum (sent_to part xs) Q4_EDGE_OUTGOING (m', a, b) e' =
      (if m' = m \<and> e' = e \<and> b = b0 \<and> a \<in> set as \<and> block_partition J m a b = Inr part then n else 0) \<and>
    block_sum (sent_to part xs) Q4_EDGE_INCOMING k e' = 0"
    if "rmap (\<lambda>a. rbind (block_partition J m a b0) (\<lambda>part.
       Inr (part, \<lparr>q4b_role = Q4_EDGE_OUTGOING, q4b_intermediate = m, q4b_endpoint = e,
                   q4b_a_bucket = a, q4b_b_bucket = b0, q4b_count = n\<rparr>))) as = Inr xs" "distinct as" for as xs
    using that by (induction as arbitrary: xs) (auto simp: block_key_def)
  from this [OF xs] show "block_sum (sent_to part xs) Q4_EDGE_OUTGOING (m', a, b) e' =
      (if m' = m \<and> e' = e \<and> account_bucket e nb = Inr b \<and> 0 \<le> a \<and> a < na \<and> block_partition J m a b = Inr part then n else 0)"
    and "block_sum (sent_to part xs) Q4_EDGE_INCOMING k e' = 0"
    by (auto simp: b0)
qed

text \<open>The edges of a dictionary of endpoints: each key contributes its own count once.\<close>

lemma endpoint_dict_sum:
  assumes "rmap f counts = Inr xss" and "dict_wf counts"
    and "\<And>e n xs. f (e, n) = Inr xs \<Longrightarrow> block_sum (sent_to part xs) r k e' = (if e' = e \<and> C e then n else 0)"
  shows "block_sum (sent_to part (concat xss)) r k e' = (if C e' then dget counts e' 0 else 0)"
  using assms
proof (induction counts arbitrary: xss)
  case (Cons x counts)
  obtain e n where x: "x = (e, n)" by (cases x)
  from Cons.prems(1) obtain xs yss where xs: "f (e, n) = Inr xs" "rmap f counts = Inr yss" "xss = xs # yss"
    by (auto simp: x)
  have "map_of counts e = None" using Cons.prems(2) by (simp add: x)
  with Cons.IH [OF xs(2)] Cons.prems(2,3) xs show ?case by (auto simp: x dget_Cons dget_def)
qed simp

lemma endpoint_dict_none:
  assumes "rmap f counts = Inr xss" and "\<And>e n xs. f (e, n) = Inr xs \<Longrightarrow> block_sum (sent_to part xs) r k e' = 0"
  shows "block_sum (sent_to part (concat xss)) r k e' = 0"
  using assms
proof (induction counts arbitrary: xss)
  case (Cons x counts)
  obtain e n where x: "x = (e, n)" by (cases x)
  from Cons.prems(1) obtain xs yss where xs: "f (e, n) = Inr xs" "rmap f counts = Inr yss" "xss = xs # yss"
    by (auto simp: x)
  from Cons.IH [OF xs(2)] Cons.prems(2) xs show ?case by simp
qed simp

definition buckets_of :: "edge_counts \<Rightarrow> edge_counts \<Rightarrow> q4_account_id \<Rightarrow> int \<times> int" where
  "buckets_of incoming outgoing m = block_plan (int (length (dget incoming m []))) (int (length (dget outgoing m [])))"

definition joinable :: "edge_counts \<Rightarrow> edge_counts \<Rightarrow> q4_account_id \<Rightarrow> bool" where
  "joinable incoming outgoing m \<longleftrightarrow> dget incoming m [] \<noteq> [] \<and> dget outgoing m [] \<noteq> []"

definition in_block :: "int \<Rightarrow> edge_counts \<Rightarrow> edge_counts \<Rightarrow> int \<Rightarrow> q4_account_id \<Rightarrow> int \<Rightarrow> int \<Rightarrow> q4_account_id \<Rightarrow> bool" where
  "in_block J inc out part m a b e \<longleftrightarrow> joinable inc out m \<and> account_bucket e (fst (buckets_of inc out m)) = Inr a \<and> 0 \<le> b \<and>
     b < snd (buckets_of inc out m) \<and> block_partition J m a b = Inr part"

definition out_block :: "int \<Rightarrow> edge_counts \<Rightarrow> edge_counts \<Rightarrow> int \<Rightarrow> q4_account_id \<Rightarrow> int \<Rightarrow> int \<Rightarrow> q4_account_id \<Rightarrow> bool" where
  "out_block J inc out part m a b e \<longleftrightarrow> joinable inc out m \<and> account_bucket e (snd (buckets_of inc out m)) = Inr b \<and> 0 \<le> a \<and>
     a < fst (buckets_of inc out m) \<and> block_partition J m a b = Inr part"

lemma plan_intermediate_sum:
  assumes "plan_intermediate J inc out m = Inr es" and "counters_wf inc" and "counters_wf out"
  shows "block_sum (sent_to part es) Q4_EDGE_INCOMING (m', a, b) e =
      (if m' = m \<and> in_block J inc out part m a b e then count_of inc m e else 0)" (is ?In)
    and "block_sum (sent_to part es) Q4_EDGE_OUTGOING (m', a, b) e =
      (if m' = m \<and> out_block J inc out part m a b e then count_of out m e else 0)" (is ?Out)
proof -
  obtain na nb where nab: "buckets_of inc out m = (na, nb)" by (cases "buckets_of inc out m")
  show ?In ?Out
  proof (atomize (full), cases "joinable inc out m")
    case True
    with assms(1) obtain ins outs where
      ins: "rmap (incoming_block_edges J m na nb) (dget inc m []) = Inr ins" and
      outs: "rmap (outgoing_block_edges J m na nb) (dget out m []) = Inr outs" and es: "es = concat ins @ concat outs"
      using nab by (auto simp: plan_intermediate_def joinable_def buckets_of_def Let_def)
    note sums = endpoint_dict_sum [OF ins counters_wf_lookup [OF assms(2)]] endpoint_dict_sum [OF outs counters_wf_lookup [OF assms(3)]]
      endpoint_dict_none [OF ins] endpoint_dict_none [OF outs]
    have "block_sum (sent_to part (concat ins)) Q4_EDGE_INCOMING (m', a, b) e =
        (if m' = m \<and> account_bucket e na = Inr a \<and> 0 \<le> b \<and> b < nb \<and> block_partition J m a b = Inr part then count_of inc m e else 0)"
      unfolding count_of_def by (rule sums(1)) (auto simp: incoming_block_sum)
    moreover have "block_sum (sent_to part (concat outs)) Q4_EDGE_OUTGOING (m', a, b) e =
        (if m' = m \<and> account_bucket e nb = Inr b \<and> 0 \<le> a \<and> a < na \<and> block_partition J m a b = Inr part then count_of out m e else 0)"
      unfolding count_of_def by (rule sums(2)) (auto simp: outgoing_block_sum)
    moreover have "block_sum (sent_to part (concat ins)) Q4_EDGE_OUTGOING (m', a, b) e = 0"
      by (rule sums(3)) (rule incoming_block_sum)
    moreover have "block_sum (sent_to part (concat outs)) Q4_EDGE_INCOMING (m', a, b) e = 0"
      by (rule sums(4)) (rule outgoing_block_sum)
    ultimately show "?In \<and> ?Out" using True by (simp add: es nab in_block_def out_block_def)
  next
    case False
    with assms(1) have "es = []" by (auto simp: plan_intermediate_def joinable_def Let_def split: if_splits)
    with False show "?In \<and> ?Out" by (simp add: in_block_def out_block_def)
  qed
qed

lemma plans_sum:
  assumes "rmap (plan_intermediate J inc out) ms = Inr plans" and "counters_wf inc" and "counters_wf out" and "distinct ms"
    and "\<And>m. joinable inc out m \<Longrightarrow> m \<in> set ms"
  shows "block_sum (sent_to part (concat plans)) Q4_EDGE_INCOMING (m, a, b) e =
      (if in_block J inc out part m a b e then count_of inc m e else 0)"
    and "block_sum (sent_to part (concat plans)) Q4_EDGE_OUTGOING (m, a, b) e =
      (if out_block J inc out part m a b e then count_of out m e else 0)"
proof -
  have "block_sum (sent_to part (concat plans)) Q4_EDGE_INCOMING (m, a, b) e =
      (if m \<in> set ms \<and> in_block J inc out part m a b e then count_of inc m e else 0) \<and>
    block_sum (sent_to part (concat plans)) Q4_EDGE_OUTGOING (m, a, b) e =
      (if m \<in> set ms \<and> out_block J inc out part m a b e then count_of out m e else 0)"
    using assms(1,4)
  proof (induction ms arbitrary: plans)
    case (Cons m0 ms)
    from Cons.prems(1) obtain es rest where es: "plan_intermediate J inc out m0 = Inr es"
      and rest: "rmap (plan_intermediate J inc out) ms = Inr rest" and plans: "plans = es # rest" by auto
    note sums = Cons.IH [OF rest] plan_intermediate_sum [OF es assms(2,3), of part m a b e]
    show ?case
    proof (cases "m = m0")
      case True
      with Cons.prems(2) sums show ?thesis by (simp add: plans)
    next
      case False
      with Cons.prems(2) sums show ?thesis by (simp add: plans)
    qed
  qed simp
  moreover have "m \<in> set ms" if "joinable inc out m" using assms(5) that .
  ultimately show "block_sum (sent_to part (concat plans)) Q4_EDGE_INCOMING (m, a, b) e =
      (if in_block J inc out part m a b e then count_of inc m e else 0)"
    and "block_sum (sent_to part (concat plans)) Q4_EDGE_OUTGOING (m, a, b) e =
      (if out_block J inc out part m a b e then count_of out m e else 0)"
    by (auto simp: in_block_def out_block_def)
qed

lemma joinable_keys:
  assumes "joinable inc out m"
  shows "m \<in> set (filter (\<lambda>m. map_of out m \<noteq> None) (map fst inc))"
proof -
  have "map_of inc m \<noteq> None" "map_of out m \<noteq> None"
    using assms by (cases "map_of inc m", simp_all add: joinable_def dget_def, cases "map_of out m", simp_all)
  then show ?thesis by (auto simp: map_of_eq_None_iff)
qed

lemma plan_blocks_plans:
  assumes "plan_blocks it J inc out = Inr es" and "iterates it" and "dict_wf inc"
  obtains ms plans where "rmap (plan_intermediate J inc out) ms = Inr plans" "es = concat plans" "distinct ms"
    "\<And>m. joinable inc out m \<Longrightarrow> m \<in> set ms"
proof -
  let ?ks = "filter (\<lambda>m. map_of out m \<noteq> None) (map fst inc)"
  have "distinct ?ks" using assms(3) by (simp add: dict_wf_def)
  with assms(2) have "distinct (it ?ks)" "set (it ?ks) = set ?ks" by (simp_all add: iterates_def)
  with assms(1) joinable_keys [of inc out] show ?thesis by (auto simp: plan_blocks_def intro: that)
qed

text \<open>The block of two endpoints of a planned intermediate exists and has a joiner.\<close>

lemma planned_block:
  assumes "rmap (plan_intermediate J inc out) ms = Inr plans" and "m \<in> set ms" and "counters_wf inc" and "counters_wf out"
    and "count_of inc m e \<noteq> 0" and "count_of out m e' \<noteq> 0"
  obtains a b part where "joinable inc out m" "account_bucket e (fst (buckets_of inc out m)) = Inr a"
    "account_bucket e' (snd (buckets_of inc out m)) = Inr b" "block_partition J m a b = Inr part"
    "0 \<le> a" "a < fst (buckets_of inc out m)" "0 \<le> b" "b < snd (buckets_of inc out m)"
proof -
  obtain na nb where nab: "buckets_of inc out m = (na, nb)" by (cases "buckets_of inc out m")
  from assms(5,6) obtain n n' where n: "(e, n) \<in> set (dget inc m [])" "(e', n') \<in> set (dget out m [])"
    by (auto simp: count_of_def dget_def [of _ e] dget_def [of _ e'] dest!: map_of_SomeD split: option.splits)
  then have jo: "joinable inc out m" by (auto simp: joinable_def)
  from rmap_defined [OF assms(1,2)] obtain es where "plan_intermediate J inc out m = Inr es" by blast
  with jo obtain ins outs where
    ins: "rmap (incoming_block_edges J m na nb) (dget inc m []) = Inr ins" and
    outs: "rmap (outgoing_block_edges J m na nb) (dget out m []) = Inr outs"
    using nab by (auto simp: plan_intermediate_def joinable_def buckets_of_def Let_def)
  from rmap_defined [OF ins n(1)] obtain a xs where a: "account_bucket e na = Inr a" and
    row: "rmap (\<lambda>b. rbind (block_partition J m a b) (\<lambda>part.
       Inr (part, \<lparr>q4b_role = Q4_EDGE_INCOMING, q4b_intermediate = m, q4b_endpoint = e,
                   q4b_a_bucket = a, q4b_b_bucket = b, q4b_count = n\<rparr>))) [0..nb - 1] = Inr xs"
    by (auto simp: incoming_block_edges_def)
  from rmap_defined [OF outs n(2)] obtain b where b: "account_bucket e' nb = Inr b"
    by (auto simp: outgoing_block_edges_def)
  have range: "0 \<le> a" "a < na" "0 \<le> b" "b < nb"
    using a b by (auto simp: account_bucket_def dest: partition_for_parts_range)
  then have "b \<in> set [0..nb - 1]" by simp
  from rmap_defined [OF row this] obtain part where "block_partition J m a b = Inr part" by auto
  with that jo a b range nab show ?thesis by simp
qed

end
