(* ===== verification/Q4Joiner.thy ===== *)
theory Q4Joiner
  imports Q4Sum "HOL-Library.Multiset"
begin

text \<open>
  \<open>workers/scatter_gather/q4_joiner\<close>: the state (\<open>q4_joiner_state.py\<close>) files the half-edges of a block by side; at the
  last EOF the worker (\<open>joiner.py\<close>) multiplies the two sides of every block and sends each pair of endpoints,
  with its capped number of paths, to the aggregator the pair hashes to.
\<close>

subsection \<open>Q4JoinerState\<close>

type_synonym block = "q4_account_id \<times> int \<times> int"
type_synonym block_counts = "(block, q4_account_id) counters"

record q4_joiner_state =
  q4j_eof_counter :: upstream_eof_counter
  q4j_incoming :: "(int \<times> block_counts) list"
  q4j_outgoing :: "(int \<times> block_counts) list"
  q4j_processed :: "(int \<times> int) list"
  q4j_closed :: "int set"

definition new_q4_joiner_state :: "int \<Rightarrow> q4_joiner_state" where
  "new_q4_joiner_state sum_amount =
     \<lparr>q4j_eof_counter = new_eof_counter sum_amount, q4j_incoming = [], q4j_outgoing = [], q4j_processed = [], q4j_closed = {}\<rparr>"

definition q4j_data_change :: "int \<Rightarrow> bytes \<Rightarrow> json" where
  "q4j_data_change = fi_data_change"

definition q4j_eof_change :: "int \<Rightarrow> int \<Rightarrow> json" where
  "q4j_eof_change = fi_eof_change"

definition q4j_close_change :: "int \<Rightarrow> json" where
  "q4j_close_change = fi_close_change"

definition q4j_abort_change :: "int \<Rightarrow> json" where
  "q4j_abort_change client_id = q4j_close_change client_id"

definition q4j_compound_change :: "json list \<Rightarrow> json" where
  "q4j_compound_change = fi_compound_change"

definition q4j_incoming_for :: "int \<Rightarrow> q4_joiner_state \<Rightarrow> block_counts" where
  "q4j_incoming_for client_id s = dget (q4j_incoming s) client_id []"

definition q4j_outgoing_for :: "int \<Rightarrow> q4_joiner_state \<Rightarrow> block_counts" where
  "q4j_outgoing_for client_id s = dget (q4j_outgoing s) client_id []"

definition q4j_processed_count :: "int \<Rightarrow> q4_joiner_state \<Rightarrow> int" where
  "q4j_processed_count client_id s = dget (q4j_processed s) client_id 0"

definition q4j_eof_count :: "int \<Rightarrow> q4_joiner_state \<Rightarrow> int" where
  "q4j_eof_count client_id s = uc_count client_id (q4j_eof_counter s)"

definition q4j_eof_would_complete :: "int \<Rightarrow> int \<Rightarrow> q4_joiner_state \<Rightarrow> bool" where
  "q4j_eof_would_complete client_id sender_id s = would_flush client_id sender_id (q4j_eof_counter s)"

definition q4j_is_closed :: "int \<Rightarrow> q4_joiner_state \<Rightarrow> bool" where
  "q4j_is_closed client_id s \<longleftrightarrow> client_id \<in> q4j_closed s"

definition file_block_edge :: "q4_block_join_edge \<Rightarrow> (block_counts \<times> block_counts, unit) act" where
  "file_block_edge e = file_edge (q4b_role e) (block_key e) (q4b_endpoint e) (q4b_count e)"

definition q4j_apply_data :: "int \<Rightarrow> json \<Rightarrow> (q4_joiner_state, unit) act" where
  "q4j_apply_data client_id change s =
     (if client_id \<in> q4j_closed s then (Inr (), s)
      else
        (case rbind (rbind (jget_str change ''payload_b64'') b64decode) deserialize_block_edges of
           Inl e \<Rightarrow> (Inl e, s)
         | Inr es \<Rightarrow>
             (let (r, incoming, outgoing) = afor file_block_edge es (q4j_incoming_for client_id s, q4j_outgoing_for client_id s);
                  s' = s\<lparr>q4j_incoming := dset client_id incoming (q4j_incoming s),
                         q4j_outgoing := dset client_id outgoing (q4j_outgoing s)\<rparr> in
              (case r of
                 Inl e \<Rightarrow> (Inl e, s')
               | Inr _ \<Rightarrow>
                   (Inr (), s'\<lparr>q4j_processed :=
                      dset client_id (q4j_processed_count client_id s' + int (length es)) (q4j_processed s')\<rparr>)))))"

definition q4j_apply_eof :: "int \<Rightarrow> json \<Rightarrow> (q4_joiner_state, unit) act" where
  "q4j_apply_eof client_id change =
     abind (alift (jget_int change ''sender_id'')) (\<lambda>sender.
     amodify (q4j_eof_counter_update (\<lambda>u. snd (on_eof client_id sender u))))"

definition q4j_apply_close :: "int \<Rightarrow> q4_joiner_state \<Rightarrow> q4_joiner_state" where
  "q4j_apply_close client_id s =
     s\<lparr>q4j_incoming := dpop client_id (q4j_incoming s), q4j_outgoing := dpop client_id (q4j_outgoing s),
       q4j_processed := dpop client_id (q4j_processed s), q4j_eof_counter := uc_close client_id (q4j_eof_counter s),
       q4j_closed := insert client_id (q4j_closed s)\<rparr>"

definition q4j_changes :: "q4_joiner_state change_ops" where
  "q4j_changes kind =
     (if kind = lit ''data'' then Some q4j_apply_data
      else if kind = lit ''eof'' then Some q4j_apply_eof
      else if kind = lit ''close'' then Some (\<lambda>client_id _. amodify (q4j_apply_close client_id))
      else None)"

definition q4j_apply_change :: "json \<Rightarrow> (q4_joiner_state, unit) act" where
  "q4j_apply_change = dispatch_change q4j_changes"

record q4_joiner_dict =
  q4jd_incoming :: "(int \<times> block_counts) list"
  q4jd_outgoing :: "(int \<times> block_counts) list"
  q4jd_processed :: "(int \<times> int) list"
  q4jd_eof_counter :: eof_counter_snapshot
  q4jd_closed :: "int set"

definition q4j_snapshot :: "q4_joiner_state \<Rightarrow> q4_joiner_dict option" where
  "q4j_snapshot s =
     Some \<lparr>q4jd_incoming = q4j_incoming s, q4jd_outgoing = q4j_outgoing s, q4jd_processed = q4j_processed s,
           q4jd_eof_counter = uc_snapshot (q4j_eof_counter s), q4jd_closed = q4j_closed s\<rparr>"

definition q4j_restore :: "q4_joiner_dict option \<Rightarrow> (q4_joiner_state, unit) act" where
  "q4j_restore data s =
     (case data of
        None \<Rightarrow> (Inr (), s\<lparr>q4j_incoming := [], q4j_outgoing := [], q4j_processed := [], q4j_closed := {}\<rparr>)
      | Some d \<Rightarrow>
          (Inr (), s\<lparr>q4j_incoming := q4jd_incoming d, q4j_outgoing := q4jd_outgoing d, q4j_processed := q4jd_processed d,
             q4j_eof_counter := uc_restore (q4jd_eof_counter d) (q4j_eof_counter s), q4j_closed := q4jd_closed d\<rparr>))"

definition q4_joiner_ops :: "(q4_joiner_state, q4_joiner_dict option) worker_ops" where
  "q4_joiner_ops = \<lparr>apply_change = q4j_apply_change, worker_snapshot = q4j_snapshot, worker_restore = q4j_restore\<rparr>"

subsection \<open>Q4JoinerWorker\<close>

record q4_joiner_config =
  q4jc_id :: int
  q4jc_aggregator_amount :: int
  q4jc_batch_max_deltas :: int

definition Q4_AGGREGATOR_EDGE :: pystr where "Q4_AGGREGATOR_EDGE = lit ''q4_aggregator''"

definition pair_partition :: "int \<Rightarrow> q4_account_id \<Rightarrow> q4_account_id \<Rightarrow> int res" where
  "pair_partition aggregators source target = partition_for_parts (account_parts source @ account_parts target) aggregators"

text \<open>The pairs of one block, in the order of the two nested loops.\<close>

definition block_pairs :: "(q4_account_id \<times> int) list \<Rightarrow> (q4_account_id \<times> int) list \<Rightarrow> q4_pair_paths list" where
  "block_pairs incoming_counts outgoing_counts =
     concat (map (\<lambda>(source, incoming_count).
       concat (map (\<lambda>(target, outgoing_count).
         if source = target \<or> incoming_count * outgoing_count \<le> 0 then []
         else [\<lparr>q4p_source = source, q4p_target = target,
                q4p_path_count = min (incoming_count * outgoing_count) Q4_QUALIFY_THRESHOLD\<rparr>]) outgoing_counts)) incoming_counts)"

definition join_blocks :: "(block list \<Rightarrow> block list) \<Rightarrow> block_counts \<Rightarrow> block_counts \<Rightarrow> q4_pair_paths list" where
  "join_blocks set_iter incoming outgoing =
     concat (map (\<lambda>blk. block_pairs (dget incoming blk []) (dget outgoing blk []))
       (set_iter (filter (\<lambda>blk. map_of outgoing blk \<noteq> None) (map fst incoming))))"

definition q4j_flush_outputs ::
  "(block list \<Rightarrow> block list) \<Rightarrow> q4_joiner_config \<Rightarrow> int \<Rightarrow> q4_joiner_state \<Rightarrow> logical_output list res" where
  "q4j_flush_outputs set_iter cfg client_id s =
     rbind (rmap (\<lambda>p. rbind (pair_partition (q4jc_aggregator_amount cfg) (q4p_source p) (q4p_target p)) (\<lambda>part. Inr (part, p)))
       (join_blocks set_iter (q4j_incoming_for client_id s) (q4j_outgoing_for client_id s))) (\<lambda>located.
     let pairs_by_partition = group_by_key located in
     rbind (rmap (fi_batches Q4_AGGREGATOR_EDGE (q4jc_batch_max_deltas cfg) serialize_pair_paths_batch client_id)
       (sort_key fst pairs_by_partition)) (\<lambda>batches.
     rbind (fi_broadcast Q4_AGGREGATOR_EDGE (q4jc_aggregator_amount cfg) MT_EOF client_id
       (\<lambda>part. fi_control_payload (q4jc_id cfg) (int (length (dget pairs_by_partition part []))) 0)) (\<lambda>eofs.
     Inr (concat batches @ eofs))))"

type_synonym q4j_fn = "bytes \<Rightarrow> (q4_joiner_state, json \<times> logical_output list) act"

definition q4j_bfn_abort :: "q4_joiner_config \<Rightarrow> int \<Rightarrow> q4j_fn" where
  "q4j_bfn_abort cfg client_id payload =
     abind (alift (fi_broadcast Q4_AGGREGATOR_EDGE (q4jc_aggregator_amount cfg) MT_ABORT client_id (\<lambda>_. Inr []))) (\<lambda>outputs.
     areturn (q4j_abort_change client_id, outputs))"

definition q4j_bfn_data :: "int \<Rightarrow> q4j_fn" where
  "q4j_bfn_data client_id payload = areturn (q4j_data_change client_id payload, [])"

definition q4j_bfn_eof :: "(block list \<Rightarrow> block list) \<Rightarrow> q4_joiner_config \<Rightarrow> int \<Rightarrow> int \<Rightarrow> bool \<Rightarrow> q4j_fn" where
  "q4j_bfn_eof set_iter cfg client_id upstream_id completes payload =
     (let eof_change = q4j_eof_change client_id upstream_id in
      if completes then
        abind (aget (q4j_flush_outputs set_iter cfg client_id)) (\<lambda>r.
        abind (alift r) (\<lambda>outputs.
        areturn (q4j_compound_change [eof_change, q4j_close_change client_id], outputs)))
      else areturn (eof_change, []))"

type_synonym q4j_runner = "(q4_joiner_state, q4_joiner_dict option) runner"

definition q4j_handle_abort ::
  "q4_joiner_config \<Rightarrow> (outbox_entry \<Rightarrow> py_error option) \<Rightarrow> int \<Rightarrow> int \<Rightarrow> int \<Rightarrow> q4j_runner \<Rightarrow> delivery \<times> q4j_runner" where
  "q4j_handle_abort cfg send client_id sender_id seq r =
     (if q4j_is_closed client_id (h_worker (r_handler r)) then (Acked, r)
      else attempt (run_message q4_joiner_ops [Q4_AGGREGATOR_EDGE] send (abort_msg_id sender_id client_id seq) client_id sender_id
             seq [] (q4j_bfn_abort cfg client_id) ABORT) r)"

definition q4j_handle_data ::
  "(outbox_entry \<Rightarrow> py_error option) \<Rightarrow> int \<Rightarrow> int \<Rightarrow> int \<Rightarrow> bytes \<Rightarrow> q4j_runner \<Rightarrow> delivery \<times> q4j_runner" where
  "q4j_handle_data send client_id sender_id seq payload =
     attempt (run_message q4_joiner_ops [Q4_AGGREGATOR_EDGE] send (data_msg_id sender_id seq) client_id sender_id seq payload
       (q4j_bfn_data client_id) DATA)"

definition q4j_handle_eof ::
  "(block list \<Rightarrow> block list) \<Rightarrow> q4_joiner_config \<Rightarrow> (outbox_entry \<Rightarrow> py_error option) \<Rightarrow> int \<Rightarrow> int \<Rightarrow> int \<Rightarrow> bytes \<Rightarrow>
   q4j_runner \<Rightarrow> delivery \<times> q4j_runner" where
  "q4j_handle_eof set_iter cfg send client_id sender_id seq payload r =
     (case deserialize_control payload of
        Inl _ \<Rightarrow> (Nacked True, r)
      | Inr ctrl \<Rightarrow>
          (let s = h_worker (r_handler r); upstream_id = cm_sender_id ctrl in
           if fi_skips r (q4j_is_closed client_id s) client_id sender_id seq DATA then (Acked, r)
           else attempt (run_message q4_joiner_ops [Q4_AGGREGATOR_EDGE] send (data_msg_id sender_id seq) client_id sender_id seq payload
                  (q4j_bfn_eof set_iter cfg client_id upstream_id (q4j_eof_would_complete client_id upstream_id s)) DATA) r))"

definition q4j_on_message ::
  "(block list \<Rightarrow> block list) \<Rightarrow> q4_joiner_config \<Rightarrow> (outbox_entry \<Rightarrow> py_error option) \<Rightarrow> bytes \<Rightarrow>
   q4j_runner \<Rightarrow> delivery \<times> q4j_runner" where
  "q4j_on_message set_iter cfg send raw r =
     (case unpack_addressed_packet raw of
        Inl _ \<Rightarrow> (Nacked True, r)
      | Inr (msg_type, client_id, sender_id, seq, payload) \<Rightarrow>
          if msg_type = message_type_value MT_DATA then q4j_handle_data send client_id sender_id seq payload r
          else if msg_type = message_type_value MT_EOF then q4j_handle_eof set_iter cfg send client_id sender_id seq payload r
          else if msg_type = message_type_value MT_ABORT then q4j_handle_abort cfg send client_id sender_id seq r
          else (Nacked True, r))"

definition q4j_start :: "(outbox_entry \<Rightarrow> py_error option) \<Rightarrow> (q4j_runner, unit) act" where
  "q4j_start send = fi_start q4_joiner_ops [Q4_AGGREGATOR_EDGE] send"

subsection \<open>The worker is durable\<close>

interpretation q4j: closing_state q4j_changes q4j_closed
proof
  show "q4j_closed s \<subseteq> q4j_closed (snd (f c ch s))" if "q4j_changes kind = Some f" for kind f s c ch
    using that
    by (auto simp: q4j_changes_def q4j_apply_data_def q4j_apply_eof_def q4j_apply_close_def act_defs Let_def
        split: if_splits sum.splits prod.splits)
qed (auto simp: q4j_changes_def q4j_apply_data_def q4j_apply_close_def amodify_def)

interpretation q4j_state: worker_state q4_joiner_ops "new_q4_joiner_state n" "\<lambda>s. uc_expected (q4j_eof_counter s) = n" for n
proof
  show "uc_expected (q4j_eof_counter s') = n"
    if "uc_expected (q4j_eof_counter s) = n" "apply_change q4_joiner_ops ch s = (Inr (), s')" for s ch s'
  proof -
    have "uc_expected (q4j_eof_counter (snd (dispatch_change q4j_changes ch s))) = n"
      by (rule dispatch_invariant)
        (use that(1) in \<open>auto simp: q4j_changes_def q4j_apply_data_def q4j_apply_eof_def q4j_apply_close_def act_defs Let_def
          split: if_splits sum.splits prod.splits\<close>)
    with that(2) show ?thesis by (simp add: q4_joiner_ops_def q4j_apply_change_def)
  qed
qed (simp_all add: new_q4_joiner_state_def new_eof_counter_def q4_joiner_ops_def q4j_snapshot_def q4j_restore_def
    uc_restore_snapshot [unfolded new_eof_counter_def])

interpretation q4j_durable: durable_worker runner_msg q4_joiner_ops "new_q4_joiner_state n" "\<lambda>s. uc_expected (q4j_eof_counter s) = n" for n
  by unfold_locales

lemma located_partitions:
  assumes "rmap (\<lambda>p. rbind (pair_partition n (q4p_source p) (q4p_target p)) (\<lambda>part. Inr (part, p))) ps = Inr located"
  shows "list_all (\<lambda>x. 0 \<le> fst x) located" and "map snd located = ps"
proof -
  from assms show "list_all (\<lambda>x. 0 \<le> fst x) located"
    by (auto simp: pair_partition_def elim!: rmap_all dest: partition_for_parts_range)
  from assms show "map snd located = ps" by (induction ps arbitrary: located) auto
qed

lemma q4j_flush_outputs_ok: "q4j_flush_outputs it cfg c s = Inr outs \<Longrightarrow> list_all out_ok outs"
  by (auto simp: q4j_flush_outputs_def Let_def dest!: located_partitions(1) dest: fi_sorted_ok fi_outputs_ok(1))

lemma q4j_business:
  "business_ok W (q4j_bfn_data c) p s"
  "business_ok W (q4j_bfn_eof it cfg c up completes) p s"
  "business_ok W (q4j_bfn_abort cfg c) p s"
proof -
  show "business_ok W (q4j_bfn_data c) p s"
    by (rule business_pure) (auto simp: q4j_bfn_data_def q4j_data_change_def areturn_def)
  show "business_ok W (q4j_bfn_eof it cfg c up completes) p s"
    by (rule business_pure)
      (auto simp: q4j_bfn_eof_def Let_def q4j_eof_change_def q4j_close_change_def q4j_compound_change_def act_defs
        split: sum.splits if_splits dest: q4j_flush_outputs_ok)
  show "business_ok W (q4j_bfn_abort cfg c) p s"
    by (rule business_pure)
      (auto simp: q4j_bfn_abort_def q4j_abort_change_def q4j_close_change_def act_defs split: sum.splits dest: fi_outputs_ok(1))
qed

subsection \<open>What the joiners find\<close>

definition capped :: "int \<Rightarrow> int" where
  "capped n = (if n \<le> 0 then 0 else min n Q4_QUALIFY_THRESHOLD)"

lemma capped_0 [simp]: "capped 0 = 0"
  by (simp add: capped_def)

lemma paths_of_simps [simp]:
  "paths_of k [] = 0"
  "paths_of k (p # ps) = (if (q4p_source p, q4p_target p) = k then q4p_path_count p else 0) + paths_of k ps"
  "paths_of k (ps @ qs) = paths_of k ps + paths_of k qs"
  by (simp_all add: paths_of_def)

lemma paths_of_concat: "paths_of k (concat pss) = (\<Sum>ps\<leftarrow>pss. paths_of k ps)"
  by (induction pss) simp_all

lemma sum_over_dict:
  assumes "dict_wf d" and "\<And>e n. (e, n) \<in> set d \<Longrightarrow> f (e, n) = (if e = k then g n else 0)" and "g 0 = (0::int)"
  shows "(\<Sum>x\<leftarrow>d. f x) = g (dget d k 0)"
  using assms
proof (induction d)
  case (Cons x d)
  obtain e n where x: "x = (e, n)" by (cases x)
  from Cons.prems have IH: "(\<Sum>x\<leftarrow>d. f x) = g (dget d k 0)" and e: "map_of d e = None"
    by (auto simp: x intro!: Cons.IH)
  from Cons.prems(2) [of e n] have "f x = (if e = k then g n else 0)" by (simp add: x)
  with IH e Cons.prems(3) show ?case by (auto simp: x dget_Cons dget_def)
qed simp

lemma block_pairs_paths:
  assumes "A \<noteq> B" and "dict_wf ic" and "dict_wf oc"
  shows "paths_of (A, B) (block_pairs ic oc) = capped (dget ic A 0 * dget oc B 0)"
proof -
  have row: "(\<Sum>x\<leftarrow>oc. paths_of (A, B) (case x of (target, m) \<Rightarrow>
        if source = target \<or> n * m \<le> 0 then []
        else [\<lparr>q4p_source = source, q4p_target = target, q4p_path_count = min (n * m) Q4_QUALIFY_THRESHOLD\<rparr>])) =
      (if source = A then capped (n * dget oc B 0) else 0)" for source n
    by (rule trans, rule sum_over_dict [where k = B and g = "\<lambda>m. if source = A then capped (n * m) else 0"])
      (use assms in \<open>auto simp: capped_def\<close>)
  have "paths_of (A, B) (block_pairs ic oc) =
      (\<Sum>x\<leftarrow>ic. if fst x = A then capped (snd x * dget oc B 0) else 0)"
    by (simp add: block_pairs_def paths_of_concat o_def row [unfolded case_prod_beta] case_prod_beta)
  also have "\<dots> = capped (dget ic A 0 * dget oc B 0)"
    by (rule sum_over_dict [where g = "\<lambda>n. capped (n * dget oc B 0)"]) (use assms in auto)
  finally show ?thesis .
qed

lemma join_blocks_paths:
  assumes "iterates it" and "counters_wf inc" and "counters_wf out" and "A \<noteq> B" and "finite K"
    and "\<And>blk. count_of inc blk A * count_of out blk B \<noteq> 0 \<Longrightarrow> blk \<in> K"
  shows "paths_of (A, B) (join_blocks it inc out) = (\<Sum>blk\<in>K. capped (count_of inc blk A * count_of out blk B))"
proof -
  let ?ks = "filter (\<lambda>blk. map_of out blk \<noteq> None) (map fst inc)"
  have "distinct ?ks" using assms(2) by (simp add: counters_wf_def dict_wf_def)
  with assms(1) have it: "distinct (it ?ks)" "set (it ?ks) = set ?ks" by (simp_all add: iterates_def)
  have "paths_of (A, B) (join_blocks it inc out) = (\<Sum>blk\<leftarrow>it ?ks. capped (count_of inc blk A * count_of out blk B))"
    by (simp add: join_blocks_def paths_of_concat o_def block_pairs_paths [OF assms(4) counters_wf_lookup counters_wf_lookup]
        assms(2,3) count_of_def)
  also have "\<dots> = (\<Sum>blk\<in>set ?ks. capped (count_of inc blk A * count_of out blk B))"
    using it by (simp add: sum_list_distinct_conv_sum_set)
  also have "\<dots> = (\<Sum>blk\<in>set ?ks \<union> K. capped (count_of inc blk A * count_of out blk B))"
  proof (rule sum.mono_neutral_left)
    have zero: "count_of d blk e = 0" if "map_of d blk = None" for d :: block_counts and blk e
      using that by (simp add: count_of_def dget_def)
    show "\<forall>blk\<in>(set ?ks \<union> K) - set ?ks. capped (count_of inc blk A * count_of out blk B) = 0"
    proof
      fix blk
      assume "blk \<in> (set ?ks \<union> K) - set ?ks"
      then have "map_of inc blk = None \<or> map_of out blk = None" by (auto simp: map_of_eq_None_iff)
      with zero [of inc blk A] zero [of out blk B] show "capped (count_of inc blk A * count_of out blk B) = 0" by auto
    qed
  qed (use assms(5) in auto)
  also have "\<dots> = (\<Sum>blk\<in>K. capped (count_of inc blk A * count_of out blk B))"
  proof (rule sum.mono_neutral_right)
    show "\<forall>blk\<in>(set ?ks \<union> K) - K. capped (count_of inc blk A * count_of out blk B) = 0"
    proof
      fix blk
      assume "blk \<in> (set ?ks \<union> K) - K"
      with assms(6) [of blk] have "count_of inc blk A * count_of out blk B = 0" by blast
      then show "capped (count_of inc blk A * count_of out blk B) = 0" by (simp only: capped_0)
    qed
  qed (use assms(5) in auto)
  finally show ?thesis .
qed

lemma edge_sum_mset: "mset xs = mset ys \<Longrightarrow> edge_sum role key endpoint n xs = edge_sum role key endpoint n ys"
  by (intro ext) (simp add: edge_sum_def flip: sum_mset_sum_list)

text \<open>
  The sum shards \<open>i < n\<close> with their counters, what each plans, and what the joiners hold when every edge addressed
  to them has arrived, in any order.
\<close>

definition joined_counts ::
  "nat \<Rightarrow> (nat \<Rightarrow> q4_account_id list \<Rightarrow> q4_account_id list) \<Rightarrow> int \<Rightarrow> (nat \<Rightarrow> edge_counts) \<Rightarrow> (nat \<Rightarrow> edge_counts) \<Rightarrow>
   (int \<Rightarrow> block_counts \<times> block_counts) \<Rightarrow> bool" where
  "joined_counts n it J inc out d \<longleftrightarrow>
     (\<forall>i < n. iterates (it i) \<and> counters_wf (inc i) \<and> counters_wf (out i)) \<and>
     (\<forall>i < n. \<forall>j < n. \<forall>m. joinable (inc i) (out i) m \<and> joinable (inc j) (out j) m \<longrightarrow> i = j) \<and>
     (\<exists>es. (\<forall>i < n. plan_blocks (it i) J (inc i) (out i) = Inr (es i)) \<and>
        (\<forall>part. 0 \<le> part \<and> part < J \<longrightarrow> (\<exists>arrived. mset arrived = mset (sent_to part (concat (map es [0..<n]))) \<and>
           afor file_block_edge arrived ([], []) = (Inr (), d part))))"

lemma sent_to_concat: "sent_to part (concat xss) = concat (map (sent_to part) xss)"
  by (induction xss) simp_all

lemma block_sum_concat: "edge_sum role key endpoint n (concat xss) r k e = (\<Sum>xs\<leftarrow>xss. edge_sum role key endpoint n xs r k e)"
  by (induction xss) simp_all

lemma joined_block_counts:
  assumes joined: "joined_counts n it J inc out d" and part: "0 \<le> part" "part < J"
  shows "count_of (fst (d part)) (m, a, b) e =
      (\<Sum>i<n. if in_block J (inc i) (out i) part m a b e then count_of (inc i) m e else 0)"
    and "count_of (snd (d part)) (m, a, b) e =
      (\<Sum>i<n. if out_block J (inc i) (out i) part m a b e then count_of (out i) m e else 0)"
    and "counters_wf (fst (d part)) \<and> counters_wf (snd (d part))"
proof -
  from joined part obtain es arrived where plan: "\<And>i. i < n \<Longrightarrow> plan_blocks (it i) J (inc i) (out i) = Inr (es i)"
    and arrived: "mset arrived = mset (sent_to part (concat (map es [0..<n])))"
    and d: "afor file_block_edge arrived ([], []) = (Inr (), d part)"
    and wf: "\<And>i. i < n \<Longrightarrow> iterates (it i) \<and> counters_wf (inc i) \<and> counters_wf (out i)"
    unfolding joined_counts_def by blast
  have shard: "block_sum (sent_to part (es i)) Q4_EDGE_INCOMING (m, a, b) e =
        (if in_block J (inc i) (out i) part m a b e then count_of (inc i) m e else 0) \<and>
      block_sum (sent_to part (es i)) Q4_EDGE_OUTGOING (m, a, b) e =
        (if out_block J (inc i) (out i) part m a b e then count_of (out i) m e else 0)" if "i < n" for i
  proof (rule plan_blocks_plans [OF plan [OF that]])
    show "iterates (it i)" "dict_wf (inc i)" using wf [OF that] by (simp_all add: counters_wf_def)
  next
    fix ms plans
    assume p: "rmap (plan_intermediate J (inc i) (out i)) ms = Inr plans" "es i = concat plans" "distinct ms"
      "\<And>m. joinable (inc i) (out i) m \<Longrightarrow> m \<in> set ms"
    show ?thesis unfolding p(2) using plans_sum [OF p(1) _ _ p(3,4)] wf [OF that] by simp
  qed
  have total: "block_sum arrived r (m, a, b) e = (\<Sum>i<n. block_sum (sent_to part (es i)) r (m, a, b) e)" for r
    unfolding edge_sum_mset [OF arrived]
    by (simp add: sent_to_concat block_sum_concat o_def interv_sum_list_conv_sum_set_nat atLeast0LessThan)
  have D: "afor (\<lambda>x. file_edge (q4b_role x) (block_key x) (q4b_endpoint x) (q4b_count x)) arrived ([], []) = (Inr (), d part)"
    using d by (simp add: file_block_edge_def [abs_def])
  note counts = file_edges_counts [OF D]
  show "count_of (fst (d part)) (m, a, b) e =
      (\<Sum>i<n. if in_block J (inc i) (out i) part m a b e then count_of (inc i) m e else 0)"
    using counts(1) [of "(m, a, b)" e] shard by (simp add: total)
  show "count_of (snd (d part)) (m, a, b) e =
      (\<Sum>i<n. if out_block J (inc i) (out i) part m a b e then count_of (out i) m e else 0)"
    using counts(2) [of "(m, a, b)" e] shard by (simp add: total)
  show "counters_wf (fst (d part)) \<and> counters_wf (snd (d part))"
    using file_edges_wf [of "([], [])" q4b_role block_key q4b_endpoint q4b_count arrived] D by simp
qed

text \<open>An intermediate belongs to one shard, so a block holds the edges of that shard alone.\<close>

lemma joined_block_product:
  assumes joined: "joined_counts n it J inc out d" and part: "0 \<le> part" "part < J" and i: "i < n" "joinable (inc i) (out i) m"
  shows "count_of (fst (d part)) (m, a, b) A * count_of (snd (d part)) (m, a, b) B =
    (if in_block J (inc i) (out i) part m a b A \<and> out_block J (inc i) (out i) part m a b B
     then count_of (inc i) m A * count_of (out i) m B else 0)"
proof -
  have other: "\<not> joinable (inc j) (out j) m" if "j \<in> {..<n} - {i}" for j
    using joined i that unfolding joined_counts_def by blast
  have one: "(\<Sum>j<n. f j) = f i" if "\<And>j. j \<in> {..<n} - {i} \<Longrightarrow> f j = 0" for f :: "nat \<Rightarrow> int"
    using i(1) that by (subst sum.remove [of _ i]) auto
  have "count_of (fst (d part)) (m, a, b) A = (if in_block J (inc i) (out i) part m a b A then count_of (inc i) m A else 0)"
    unfolding joined_block_counts(1) [OF joined part] by (rule one) (use other in \<open>auto simp: in_block_def\<close>)
  moreover have "count_of (snd (d part)) (m, a, b) B = (if out_block J (inc i) (out i) part m a b B then count_of (out i) m B else 0)"
    unfolding joined_block_counts(2) [OF joined part] by (rule one) (use other in \<open>auto simp: out_block_def\<close>)
  ultimately show ?thesis by simp
qed

lemma joined_block_none:
  assumes joined: "joined_counts n it J inc out d" and part: "0 \<le> part" "part < J"
    and "count_of (fst (d part)) (m, a, b) A * count_of (snd (d part)) (m, a, b) B \<noteq> 0"
  obtains i where "i < n" "in_block J (inc i) (out i) part m a b A" "out_block J (inc i) (out i) part m a b B"
    "count_of (inc i) m A * count_of (out i) m B \<noteq> 0"
proof -
  from assms(4) have "(\<Sum>i<n. if in_block J (inc i) (out i) part m a b A then count_of (inc i) m A else 0) \<noteq> 0"
    unfolding joined_block_counts(1) [OF joined part] by simp
  then have "\<exists>i < n. in_block J (inc i) (out i) part m a b A"
    by (rule contrapos_np) (intro sum.neutral, auto)
  then obtain i where i: "i < n" "in_block J (inc i) (out i) part m a b A" by blast
  then have "joinable (inc i) (out i) m" by (simp add: in_block_def)
  from assms(4) [unfolded joined_block_product [OF joined part i(1) this]] i that show ?thesis by (auto split: if_splits)
qed

text \<open>Where the block of two endpoints is joined.\<close>

definition meeting_block :: "int \<Rightarrow> edge_counts \<Rightarrow> edge_counts \<Rightarrow> q4_account_id \<Rightarrow> q4_account_id \<Rightarrow> q4_account_id \<Rightarrow> int \<times> block" where
  "meeting_block J inc out A B m =
     (let a = projr (account_bucket A (fst (buckets_of inc out m))); b = projr (account_bucket B (snd (buckets_of inc out m))) in
      (projr (block_partition J m a b), (m, a, b)))"

lemma meets_there:
  "in_block J inc out part m a b A \<Longrightarrow> out_block J inc out part m a b B \<Longrightarrow> meeting_block J inc out A B m = (part, (m, a, b))"
  by (simp add: in_block_def out_block_def meeting_block_def)

lemma meeting_exists:
  assumes "plan_blocks it J inc out = Inr es" and "iterates it" and "counters_wf inc" and "counters_wf out"
    and "count_of inc m A * count_of out m B \<noteq> 0"
  obtains part a b where "meeting_block J inc out A B m = (part, (m, a, b))" "0 \<le> part" "part < J"
    "in_block J inc out part m a b A" "out_block J inc out part m a b B"
proof -
  have "dict_wf inc" using assms(3) by (simp add: counters_wf_def)
  from plan_blocks_plans [OF assms(1,2) this] obtain ms plans where
    plans: "rmap (plan_intermediate J inc out) ms = Inr plans" and ms: "\<And>m. joinable inc out m \<Longrightarrow> m \<in> set ms" by blast
  have nz: "count_of inc m A \<noteq> 0" "count_of out m B \<noteq> 0" using assms(5) by auto
  then have "joinable inc out m" by (auto simp: joinable_def count_of_def)
  from planned_block [OF plans ms [OF this] assms(3,4) nz] obtain a b part where
    "joinable inc out m" "account_bucket A (fst (buckets_of inc out m)) = Inr a"
    "account_bucket B (snd (buckets_of inc out m)) = Inr b" "block_partition J m a b = Inr part"
    "0 \<le> a" "a < fst (buckets_of inc out m)" "0 \<le> b" "b < snd (buckets_of inc out m)" .
  moreover from this(4) have "0 \<le> part" "part < J" by (auto simp: block_partition_def dest: partition_for_parts_range)
  ultimately show ?thesis using that [of part a b] by (auto simp: in_block_def out_block_def meeting_block_def)
qed

text \<open>A sum over a grid whose only non-zero cells are the images of the points of a set.\<close>

lemma sum_meeting:
  fixes h :: "int \<Rightarrow> int"
  assumes T: "finite T" and P: "finite P" and inj: "inj_on f T" and fT: "\<And>x. x \<in> T \<Longrightarrow> fst (f x) \<in> P \<and> g (f x) = w x"
    and only: "\<And>u v. u \<in> P \<Longrightarrow> g (u, v) \<noteq> 0 \<Longrightarrow> (u, v) \<in> f ` T" and h: "h 0 = 0"
  shows "(\<Sum>u\<in>P. \<Sum>v\<in>snd ` f ` T. h (g (u, v))) = (\<Sum>x\<in>T. h (w x))"
proof -
  have "(\<Sum>u\<in>P. \<Sum>v\<in>snd ` f ` T. h (g (u, v))) = (\<Sum>x\<in>P \<times> (snd ` f ` T). h (g x))"
    using T P by (simp add: sum.cartesian_product)
  also have "\<dots> = (\<Sum>x\<in>f ` T. h (g x))"
  proof (rule sum.mono_neutral_right)
    show "f ` T \<subseteq> P \<times> snd ` f ` T"
    proof
      fix y assume "y \<in> f ` T"
      then obtain x where "x \<in> T" "y = f x" by blast
      with fT [of x] show "y \<in> P \<times> snd ` f ` T" by (simp add: mem_Times_iff)
    qed
    show "\<forall>x\<in>P \<times> snd ` f ` T - f ` T. h (g x) = 0"
    proof
      fix x assume "x \<in> P \<times> snd ` f ` T - f ` T"
      with only [of "fst x" "snd x"] have "g x = 0" by (cases x) auto
      then show "h (g x) = 0" by (simp add: h)
    qed
  qed (use T P in simp)
  also have "\<dots> = (\<Sum>x\<in>T. h (w x))"
    using fT by (intro sum.reindex_cong [OF inj]) auto
  finally show ?thesis .
qed

lemma joined_paths:
  assumes joined: "joined_counts n it J inc out d" and jt: "\<And>part. iterates (jt part)" and AB: "A \<noteq> B"
  shows "(\<Sum>part\<in>{0..<J}. paths_of (A, B) (join_blocks (jt part) (fst (d part)) (snd (d part)))) =
    (\<Sum>i<n. \<Sum>m\<in>fst ` set (inc i). capped (count_of (inc i) m A * count_of (out i) m B))"
proof -
  define w where "w = (\<lambda>(i, m). count_of (inc i) m A * count_of (out i) m B)"
  define T where "T = {x \<in> Sigma {..<n} (\<lambda>i. fst ` set (inc i)). w x \<noteq> 0}"
  define f where "f = (\<lambda>(i, m). meeting_block J (inc i) (out i) A B m)"
  define g where "g = (\<lambda>(part, blk). count_of (fst (d part)) blk A * count_of (snd (d part)) blk B)"
  from joined obtain es where plan: "\<And>i. i < n \<Longrightarrow> plan_blocks (it i) J (inc i) (out i) = Inr (es i)"
    and wf: "\<And>i. i < n \<Longrightarrow> iterates (it i)" "\<And>i. i < n \<Longrightarrow> counters_wf (inc i)" "\<And>i. i < n \<Longrightarrow> counters_wf (out i)"
    and apart: "\<And>i j m. i < n \<Longrightarrow> j < n \<Longrightarrow> joinable (inc i) (out i) m \<Longrightarrow> joinable (inc j) (out j) m \<Longrightarrow> i = j"
    unfolding joined_counts_def by blast
  have T: "finite T" unfolding T_def by simp
  have f: "\<exists>part a b. f (i, m) = (part, (m, a, b)) \<and> 0 \<le> part \<and> part < J \<and> joinable (inc i) (out i) m \<and>
      g (part, (m, a, b)) = w (i, m)" if "(i, m) \<in> T" for i m
  proof -
    from that have im: "i < n" "count_of (inc i) m A * count_of (out i) m B \<noteq> 0" by (auto simp: T_def w_def)
    from meeting_exists [OF plan [OF im(1)] wf(1-3) [OF im(1)] im(2)] obtain part a b where
      meet: "meeting_block J (inc i) (out i) A B m = (part, (m, a, b))" "0 \<le> part" "part < J"
      "in_block J (inc i) (out i) part m a b A" "out_block J (inc i) (out i) part m a b B" .
    moreover have "joinable (inc i) (out i) m" using meet(4) by (simp add: in_block_def)
    moreover from joined_block_product [OF joined meet(2,3) im(1) this] meet(4,5) have "g (part, (m, a, b)) = w (i, m)"
      by (simp add: g_def w_def)
    ultimately show ?thesis by (auto simp: f_def)
  qed
  have inj: "inj_on f T"
  proof (rule inj_onI)
    fix x y
    assume xy: "x \<in> T" "y \<in> T" "f x = f y"
    obtain i m j m' where x: "x = (i, m)" "y = (j, m')" by (cases x, cases y)
    from f [of i m] f [of j m'] xy have "m = m'" "joinable (inc i) (out i) m" "joinable (inc j) (out j) m'" by (auto simp: x)
    moreover have "i < n" "j < n" using xy by (auto simp: x T_def)
    ultimately show "x = y" using apart x by blast
  qed
  have only: "(part, blk) \<in> f ` T" if "0 \<le> part" "part < J" "g (part, blk) \<noteq> 0" for part blk
  proof -
    obtain m a b where blk: "blk = (m, a, b)" by (cases blk)
    from that(3) have "count_of (fst (d part)) (m, a, b) A * count_of (snd (d part)) (m, a, b) B \<noteq> 0" by (simp add: g_def blk)
    from joined_block_none [OF joined that(1,2) this] obtain i where i: "i < n" "in_block J (inc i) (out i) part m a b A"
      "out_block J (inc i) (out i) part m a b B" "count_of (inc i) m A * count_of (out i) m B \<noteq> 0" .
    have "map_of (inc i) m \<noteq> None" using i(4) by (cases "map_of (inc i) m") (auto simp: count_of_def dget_def)
    then have "m \<in> fst ` set (inc i)" by (simp add: map_of_eq_None_iff)
    with i have "(i, m) \<in> T" by (simp add: T_def w_def)
    moreover have "f (i, m) = (part, blk)" using meets_there [OF i(2,3)] by (simp add: f_def blk)
    ultimately show ?thesis by force
  qed
  let ?K = "snd ` f ` T"
  have "(\<Sum>part\<in>{0..<J}. paths_of (A, B) (join_blocks (jt part) (fst (d part)) (snd (d part)))) =
      (\<Sum>part\<in>{0..<J}. \<Sum>blk\<in>?K. capped (g (part, blk)))"
  proof (rule sum.cong)
    fix part
    assume "part \<in> {0..<J}"
    then have part: "0 \<le> part" "part < J" by simp_all
    show "paths_of (A, B) (join_blocks (jt part) (fst (d part)) (snd (d part))) = (\<Sum>blk\<in>?K. capped (g (part, blk)))"
      unfolding g_def prod.case
    proof (rule join_blocks_paths [OF jt _ _ AB])
      show "blk \<in> ?K" if "count_of (fst (d part)) blk A * count_of (snd (d part)) blk B \<noteq> 0" for blk
      proof -
        have "(part, blk) \<in> f ` T" using only [OF part, of blk] that by (simp add: g_def)
        then have "snd (part, blk) \<in> ?K" by (rule imageI)
        then show ?thesis by simp
      qed
    qed (use joined_block_counts(3) [OF joined part] T in auto)
  qed simp
  also have "\<dots> = (\<Sum>x\<in>T. capped (w x))"
  proof (rule sum_meeting [where g = g and h = capped and w = w, OF T _ inj])
    show "fst (f x) \<in> {0..<J} \<and> g (f x) = w x" if "x \<in> T" for x
      using f [of "fst x" "snd x"] that by auto
  qed (use only in simp_all)
  also have "\<dots> = (\<Sum>x\<in>Sigma {..<n} (\<lambda>i. fst ` set (inc i)). capped (w x))"
    unfolding T_def by (rule sum.mono_neutral_left) (auto simp: capped_def)
  also have "\<dots> = (\<Sum>i<n. \<Sum>m\<in>fst ` set (inc i). capped (count_of (inc i) m A * count_of (out i) m B))"
    by (simp add: w_def sum.Sigma case_prod_beta)
  finally show ?thesis .
qed

end
