(* ===== verification/Q4Aggregator.thy ===== *)
theory Q4Aggregator
  imports Q4Joiner
begin

text \<open>
  \<open>workers/scatter_gather/q4_aggregator\<close>: the state (\<open>q4_aggregator_state.py\<close>) adds up the paths of each pair of
  accounts until the pair qualifies; the worker (\<open>aggregator.py\<close>) sends the two accounts of a qualifying pair to
  the dedupers they hash to, at once, and announces the totals per deduper at the last EOF.
\<close>

subsection \<open>Q4AggregatorState\<close>

type_synonym account_pair = "pystr \<times> pystr \<times> pystr \<times> pystr"

record q4_aggregator_state =
  q4a_eof_counter :: upstream_eof_counter
  q4a_deduper_amount :: int
  q4a_pair_counts :: "(int \<times> (account_pair \<times> int) list) list"
  q4a_qualified :: "(int \<times> account_pair set) list"
  q4a_forwarded :: "(int \<times> (int \<times> int) list) list"
  q4a_processed :: "(int \<times> int) list"
  q4a_closed :: "int set"

definition new_q4_aggregator_state :: "int \<Rightarrow> int \<Rightarrow> q4_aggregator_state" where
  "new_q4_aggregator_state joiner_amount deduper_amount =
     \<lparr>q4a_eof_counter = new_eof_counter joiner_amount, q4a_deduper_amount = deduper_amount, q4a_pair_counts = [],
      q4a_qualified = [], q4a_forwarded = [], q4a_processed = [], q4a_closed = {}\<rparr>"

definition q4a_data_change :: "int \<Rightarrow> bytes \<Rightarrow> json" where
  "q4a_data_change = fi_data_change"

definition q4a_eof_change :: "int \<Rightarrow> int \<Rightarrow> json" where
  "q4a_eof_change = fi_eof_change"

definition q4a_close_change :: "int \<Rightarrow> json" where
  "q4a_close_change = fi_close_change"

definition q4a_abort_change :: "int \<Rightarrow> json" where
  "q4a_abort_change client_id = q4a_close_change client_id"

definition q4a_compound_change :: "json list \<Rightarrow> json" where
  "q4a_compound_change = fi_compound_change"

definition pair_counts_for :: "int \<Rightarrow> q4_aggregator_state \<Rightarrow> (account_pair \<times> int) list" where
  "pair_counts_for client_id s = dget (q4a_pair_counts s) client_id []"

definition qualified_pairs_for :: "int \<Rightarrow> q4_aggregator_state \<Rightarrow> account_pair set" where
  "qualified_pairs_for client_id s = dget (q4a_qualified s) client_id {}"

definition q4a_processed_count :: "int \<Rightarrow> q4_aggregator_state \<Rightarrow> int" where
  "q4a_processed_count client_id s = dget (q4a_processed s) client_id 0"

definition q4a_eof_count :: "int \<Rightarrow> q4_aggregator_state \<Rightarrow> int" where
  "q4a_eof_count client_id s = uc_count client_id (q4a_eof_counter s)"

definition q4a_eof_would_complete :: "int \<Rightarrow> int \<Rightarrow> q4_aggregator_state \<Rightarrow> bool" where
  "q4a_eof_would_complete client_id sender_id s = would_flush client_id sender_id (q4a_eof_counter s)"

definition forwarded_by_partition :: "int \<Rightarrow> q4_aggregator_state \<Rightarrow> (int \<times> int) list" where
  "forwarded_by_partition client_id s = dget (q4a_forwarded s) client_id []"

definition forwarded_total :: "int \<Rightarrow> q4_aggregator_state \<Rightarrow> int" where
  "forwarded_total client_id s = (\<Sum>x\<leftarrow>forwarded_by_partition client_id s. snd x)"

definition q4a_is_closed :: "int \<Rightarrow> q4_aggregator_state \<Rightarrow> bool" where
  "q4a_is_closed client_id s \<longleftrightarrow> client_id \<in> q4a_closed s"

definition pair_key :: "q4_account_id \<Rightarrow> q4_account_id \<Rightarrow> account_pair" where
  "pair_key source target = (q4_bank_id source, q4_account source, q4_bank_id target, q4_account target)"

definition source_from_key :: "account_pair \<Rightarrow> q4_account_id" where
  "source_from_key = (\<lambda>(bank, acc, _, _). \<lparr>q4_bank_id = bank, q4_account = acc\<rparr>)"

definition target_from_key :: "account_pair \<Rightarrow> q4_account_id" where
  "target_from_key = (\<lambda>(_, _, bank, acc). \<lparr>q4_bank_id = bank, q4_account = acc\<rparr>)"

definition account_partition :: "int \<Rightarrow> q4_account_id \<Rightarrow> int res" where
  "account_partition dedupers account = partition_for_parts [q4_bank_id account, q4_account account] dedupers"

text \<open>\<open>_apply_batch\<close>, with the callback acting on an accumulator of its own.\<close>

type_synonym 'a batch_state = "(account_pair \<times> int) list \<times> account_pair set \<times> 'a"

definition apply_pair :: "(account_pair \<Rightarrow> ('a, unit) act) \<Rightarrow> q4_pair_paths \<Rightarrow> ('a batch_state, unit) act" where
  "apply_pair on_qualified p = (\<lambda>(counts, qualified, acc).
     if q4p_source p = q4p_target p then (Inr (), (counts, qualified, acc))
     else
       (let k = pair_key (q4p_source p) (q4p_target p) in
        if k \<in> qualified then (Inr (), (counts, qualified, acc))
        else
          (let total = min Q4_QUALIFY_THRESHOLD (dget counts k 0 + q4p_path_count p) in
           if total \<ge> Q4_QUALIFY_THRESHOLD
           then (case on_qualified k acc of (r, acc') \<Rightarrow> (r, (dpop k counts, insert k qualified, acc')))
           else (Inr (), (dset k total counts, qualified, acc)))))"

definition apply_batch :: "(account_pair \<Rightarrow> ('a, unit) act) \<Rightarrow> q4_pair_paths list \<Rightarrow> ('a batch_state, unit) act" where
  "apply_batch on_qualified batch = afor (apply_pair on_qualified) batch"

definition append_account :: "int \<Rightarrow> q4_account_id \<Rightarrow> ((int \<times> q4_account_id list) list, unit) act" where
  "append_account dedupers account =
     abind (alift (account_partition dedupers account)) (\<lambda>part. amodify (dappend part account))"

definition append_pair_accounts :: "int \<Rightarrow> account_pair \<Rightarrow> ((int \<times> q4_account_id list) list, unit) act" where
  "append_pair_accounts dedupers k = afor (append_account dedupers) [source_from_key k, target_from_key k]"

definition count_account :: "int \<Rightarrow> q4_account_id \<Rightarrow> ((int \<times> int) list, unit) act" where
  "count_account dedupers account =
     abind (alift (account_partition dedupers account)) (\<lambda>part.
     amodify (\<lambda>forwarded. dset part (dget forwarded part 0 + 1) forwarded))"

definition count_pair_accounts :: "int \<Rightarrow> account_pair \<Rightarrow> ((int \<times> int) list, unit) act" where
  "count_pair_accounts dedupers k = afor (count_account dedupers) [source_from_key k, target_from_key k]"

definition predict_data_outputs :: "int \<Rightarrow> bytes \<Rightarrow> q4_aggregator_state \<Rightarrow> (int \<times> q4_account_id list) list res" where
  "predict_data_outputs client_id payload s =
     (if client_id \<in> q4a_closed s then Inr []
      else
        rbind (deserialize_pair_paths_batch payload) (\<lambda>batch.
        (case apply_batch (append_pair_accounts (q4a_deduper_amount s)) batch
               (pair_counts_for client_id s, qualified_pairs_for client_id s, []) of
           (Inl e, _) \<Rightarrow> Inl e
         | (Inr _, (_, _, by_partition)) \<Rightarrow> Inr by_partition)))"

definition q4a_apply_data :: "int \<Rightarrow> json \<Rightarrow> (q4_aggregator_state, unit) act" where
  "q4a_apply_data client_id change s =
     (if client_id \<in> q4a_closed s then (Inr (), s)
      else
        (case rbind (rbind (jget_str change ''payload_b64'') b64decode) deserialize_pair_paths_batch of
           Inl e \<Rightarrow> (Inl e, s)
         | Inr batch \<Rightarrow>
             (let (r, counts, qualified, forwarded) = apply_batch (count_pair_accounts (q4a_deduper_amount s)) batch
                    (pair_counts_for client_id s, qualified_pairs_for client_id s, forwarded_by_partition client_id s);
                  s' = s\<lparr>q4a_pair_counts := dset client_id counts (q4a_pair_counts s),
                         q4a_qualified := dset client_id qualified (q4a_qualified s),
                         q4a_forwarded := dset client_id forwarded (q4a_forwarded s)\<rparr> in
              (case r of
                 Inl e \<Rightarrow> (Inl e, s')
               | Inr _ \<Rightarrow>
                   (Inr (), s'\<lparr>q4a_processed :=
                      dset client_id (q4a_processed_count client_id s' + int (length batch)) (q4a_processed s')\<rparr>)))))"

definition q4a_apply_eof :: "int \<Rightarrow> json \<Rightarrow> (q4_aggregator_state, unit) act" where
  "q4a_apply_eof client_id change =
     abind (alift (jget_int change ''sender_id'')) (\<lambda>sender.
     amodify (q4a_eof_counter_update (\<lambda>u. snd (on_eof client_id sender u))))"

definition q4a_apply_close :: "int \<Rightarrow> q4_aggregator_state \<Rightarrow> q4_aggregator_state" where
  "q4a_apply_close client_id s =
     s\<lparr>q4a_pair_counts := dpop client_id (q4a_pair_counts s), q4a_qualified := dpop client_id (q4a_qualified s),
       q4a_forwarded := dpop client_id (q4a_forwarded s), q4a_processed := dpop client_id (q4a_processed s),
       q4a_eof_counter := uc_close client_id (q4a_eof_counter s), q4a_closed := insert client_id (q4a_closed s)\<rparr>"

definition q4a_changes :: "q4_aggregator_state change_ops" where
  "q4a_changes kind =
     (if kind = lit ''data'' then Some q4a_apply_data
      else if kind = lit ''eof'' then Some q4a_apply_eof
      else if kind = lit ''close'' then Some (\<lambda>client_id _. amodify (q4a_apply_close client_id))
      else None)"

definition q4a_apply_change :: "json \<Rightarrow> (q4_aggregator_state, unit) act" where
  "q4a_apply_change = dispatch_change q4a_changes"

record q4_aggregator_dict =
  q4ad_pair_counts :: "(int \<times> (account_pair \<times> int) list) list"
  q4ad_qualified :: "(int \<times> account_pair set) list"
  q4ad_forwarded :: "(int \<times> (int \<times> int) list) list"
  q4ad_processed :: "(int \<times> int) list"
  q4ad_eof_counter :: eof_counter_snapshot
  q4ad_closed :: "int set"

definition q4a_snapshot :: "q4_aggregator_state \<Rightarrow> q4_aggregator_dict option" where
  "q4a_snapshot s =
     Some \<lparr>q4ad_pair_counts = q4a_pair_counts s, q4ad_qualified = q4a_qualified s, q4ad_forwarded = q4a_forwarded s,
           q4ad_processed = q4a_processed s, q4ad_eof_counter = uc_snapshot (q4a_eof_counter s), q4ad_closed = q4a_closed s\<rparr>"

definition q4a_restore :: "q4_aggregator_dict option \<Rightarrow> (q4_aggregator_state, unit) act" where
  "q4a_restore data s =
     (case data of
        None \<Rightarrow> (Inr (), s\<lparr>q4a_pair_counts := [], q4a_qualified := [], q4a_forwarded := [], q4a_processed := [], q4a_closed := {}\<rparr>)
      | Some d \<Rightarrow>
          (Inr (), s\<lparr>q4a_pair_counts := q4ad_pair_counts d, q4a_qualified := q4ad_qualified d, q4a_forwarded := q4ad_forwarded d,
             q4a_processed := q4ad_processed d, q4a_eof_counter := uc_restore (q4ad_eof_counter d) (q4a_eof_counter s),
             q4a_closed := q4ad_closed d\<rparr>))"

definition q4_aggregator_ops :: "(q4_aggregator_state, q4_aggregator_dict option) worker_ops" where
  "q4_aggregator_ops = \<lparr>apply_change = q4a_apply_change, worker_snapshot = q4a_snapshot, worker_restore = q4a_restore\<rparr>"

subsection \<open>Q4AggregatorWorker\<close>

record q4_aggregator_config =
  q4ac_id :: int
  q4ac_deduper_amount :: int
  q4ac_batch_max_accounts :: int

definition Q4_DEDUPER_EDGE :: pystr where "Q4_DEDUPER_EDGE = lit ''q4_deduper''"

definition q4a_data_outputs :: "q4_aggregator_config \<Rightarrow> int \<Rightarrow> bytes \<Rightarrow> q4_aggregator_state \<Rightarrow> logical_output list res" where
  "q4a_data_outputs cfg client_id payload s =
     rbind (predict_data_outputs client_id payload s) (\<lambda>by_partition.
     rbind (rmap (fi_batches Q4_DEDUPER_EDGE (q4ac_batch_max_accounts cfg) serialize_account_ids client_id)
       (sort_key fst by_partition)) (\<lambda>batches. Inr (concat batches)))"

definition q4a_eof_outputs :: "q4_aggregator_config \<Rightarrow> int \<Rightarrow> q4_aggregator_state \<Rightarrow> logical_output list res" where
  "q4a_eof_outputs cfg client_id s =
     fi_broadcast Q4_DEDUPER_EDGE (q4ac_deduper_amount cfg) MT_EOF client_id
       (\<lambda>part. fi_control_payload (q4ac_id cfg) (dget (forwarded_by_partition client_id s) part 0) 0)"

type_synonym q4a_fn = "bytes \<Rightarrow> (q4_aggregator_state, json \<times> logical_output list) act"

definition q4a_bfn_abort :: "q4_aggregator_config \<Rightarrow> int \<Rightarrow> q4a_fn" where
  "q4a_bfn_abort cfg client_id payload =
     abind (alift (fi_broadcast Q4_DEDUPER_EDGE (q4ac_deduper_amount cfg) MT_ABORT client_id (\<lambda>_. Inr []))) (\<lambda>outputs.
     areturn (q4a_abort_change client_id, outputs))"

definition q4a_bfn_data :: "q4_aggregator_config \<Rightarrow> int \<Rightarrow> q4a_fn" where
  "q4a_bfn_data cfg client_id payload =
     abind (aget (q4a_data_outputs cfg client_id payload)) (\<lambda>r.
     abind (alift r) (\<lambda>outputs. areturn (q4a_data_change client_id payload, outputs)))"

definition q4a_bfn_eof :: "q4_aggregator_config \<Rightarrow> int \<Rightarrow> int \<Rightarrow> bool \<Rightarrow> q4a_fn" where
  "q4a_bfn_eof cfg client_id upstream_id completes payload =
     (let eof_change = q4a_eof_change client_id upstream_id in
      if completes then
        abind (aget (q4a_eof_outputs cfg client_id)) (\<lambda>r.
        abind (alift r) (\<lambda>outputs.
        areturn (q4a_compound_change [eof_change, q4a_close_change client_id], outputs)))
      else areturn (eof_change, []))"

type_synonym q4a_runner = "(q4_aggregator_state, q4_aggregator_dict option) runner"

definition q4a_handle_abort ::
  "q4_aggregator_config \<Rightarrow> (outbox_entry \<Rightarrow> py_error option) \<Rightarrow> int \<Rightarrow> int \<Rightarrow> int \<Rightarrow> q4a_runner \<Rightarrow> delivery \<times> q4a_runner" where
  "q4a_handle_abort cfg send client_id sender_id seq r =
     (if q4a_is_closed client_id (h_worker (r_handler r)) then (Acked, r)
      else attempt (run_message q4_aggregator_ops [Q4_DEDUPER_EDGE] send (abort_msg_id sender_id client_id seq) client_id sender_id
             seq [] (q4a_bfn_abort cfg client_id) ABORT) r)"

definition q4a_handle_data ::
  "q4_aggregator_config \<Rightarrow> (outbox_entry \<Rightarrow> py_error option) \<Rightarrow> int \<Rightarrow> int \<Rightarrow> int \<Rightarrow> bytes \<Rightarrow> q4a_runner \<Rightarrow> delivery \<times> q4a_runner" where
  "q4a_handle_data cfg send client_id sender_id seq payload r =
     (if fi_skips r (q4a_is_closed client_id (h_worker (r_handler r))) client_id sender_id seq DATA then (Acked, r)
      else attempt (run_message q4_aggregator_ops [Q4_DEDUPER_EDGE] send (data_msg_id sender_id seq) client_id sender_id seq payload
             (q4a_bfn_data cfg client_id) DATA) r)"

definition q4a_handle_eof ::
  "q4_aggregator_config \<Rightarrow> (outbox_entry \<Rightarrow> py_error option) \<Rightarrow> int \<Rightarrow> int \<Rightarrow> int \<Rightarrow> bytes \<Rightarrow> q4a_runner \<Rightarrow> delivery \<times> q4a_runner" where
  "q4a_handle_eof cfg send client_id sender_id seq payload r =
     (case deserialize_control payload of
        Inl _ \<Rightarrow> (Nacked True, r)
      | Inr ctrl \<Rightarrow>
          (let s = h_worker (r_handler r); upstream_id = cm_sender_id ctrl in
           if fi_skips r (q4a_is_closed client_id s) client_id sender_id seq DATA then (Acked, r)
           else attempt (run_message q4_aggregator_ops [Q4_DEDUPER_EDGE] send (data_msg_id sender_id seq) client_id sender_id seq payload
                  (q4a_bfn_eof cfg client_id upstream_id (q4a_eof_would_complete client_id upstream_id s)) DATA) r))"

definition q4a_on_message ::
  "q4_aggregator_config \<Rightarrow> (outbox_entry \<Rightarrow> py_error option) \<Rightarrow> bytes \<Rightarrow> q4a_runner \<Rightarrow> delivery \<times> q4a_runner" where
  "q4a_on_message cfg send raw r =
     (case unpack_addressed_packet raw of
        Inl _ \<Rightarrow> (Nacked True, r)
      | Inr (msg_type, client_id, sender_id, seq, payload) \<Rightarrow>
          if msg_type = message_type_value MT_DATA then q4a_handle_data cfg send client_id sender_id seq payload r
          else if msg_type = message_type_value MT_EOF then q4a_handle_eof cfg send client_id sender_id seq payload r
          else if msg_type = message_type_value MT_ABORT then q4a_handle_abort cfg send client_id sender_id seq r
          else (Nacked True, r))"

definition q4a_start :: "(outbox_entry \<Rightarrow> py_error option) \<Rightarrow> (q4a_runner, unit) act" where
  "q4a_start send = fi_start q4_aggregator_ops [Q4_DEDUPER_EDGE] send"

subsection \<open>The worker is durable\<close>

interpretation q4a: closing_state q4a_changes q4a_closed
proof
  show "q4a_closed s \<subseteq> q4a_closed (snd (f c ch s))" if "q4a_changes kind = Some f" for kind f s c ch
    using that
    by (auto simp: q4a_changes_def q4a_apply_data_def q4a_apply_eof_def q4a_apply_close_def act_defs Let_def
        split: if_splits sum.splits prod.splits)
qed (auto simp: q4a_changes_def q4a_apply_data_def q4a_apply_close_def amodify_def)

definition q4a_frame :: "int \<Rightarrow> int \<Rightarrow> q4_aggregator_state \<Rightarrow> bool" where
  "q4a_frame n k s \<longleftrightarrow> uc_expected (q4a_eof_counter s) = n \<and> q4a_deduper_amount s = k"

interpretation q4a_state: worker_state q4_aggregator_ops "new_q4_aggregator_state n k" "q4a_frame n k" for n k
proof
  show "q4a_frame n k s'" if "q4a_frame n k s" "apply_change q4_aggregator_ops ch s = (Inr (), s')" for s ch s'
  proof -
    have "q4a_frame n k (snd (dispatch_change q4a_changes ch s))"
      by (rule dispatch_invariant)
        (use that(1) in \<open>auto simp: q4a_frame_def q4a_changes_def q4a_apply_data_def q4a_apply_eof_def q4a_apply_close_def
          act_defs Let_def split: if_splits sum.splits prod.splits\<close>)
    with that(2) show ?thesis by (simp add: q4_aggregator_ops_def q4a_apply_change_def)
  qed
qed (simp_all add: new_q4_aggregator_state_def new_eof_counter_def q4_aggregator_ops_def q4a_snapshot_def q4a_restore_def
    q4a_frame_def uc_restore_snapshot [unfolded new_eof_counter_def])

interpretation q4a_durable: durable_worker runner_msg q4_aggregator_ops "new_q4_aggregator_state n k" "q4a_frame n k" for n k
  by unfold_locales

lemma append_accounts_keys:
  assumes "fst ` set d \<subseteq> {0..}"
  shows "fst ` set (snd (append_pair_accounts n k d)) \<subseteq> {0..}"
  unfolding append_pair_accounts_def
proof (rule afor_invariant [where I = "\<lambda>d. fst ` set d \<subseteq> {0..}"])
  show "fst ` set (snd (append_account n x d)) \<subseteq> {0..}"
    if "fst ` set d \<subseteq> {0..}" for x d
  proof (cases "account_partition n x")
    case (Inr part)
    then have "0 \<le> part" by (auto simp: account_partition_def dest: partition_for_parts_range)
    with that have "fst ` set (dappend part x d) \<subseteq> {0..}" unfolding dappend_def by (subst dom_update) simp
    with Inr show ?thesis by (simp only: append_account_def abind_def alift_def amodify_def prod.case sum.case snd_conv)
  qed (use that in \<open>simp add: append_account_def abind_def alift_def\<close>)
qed (rule assms)

lemma predicted_keys:
  assumes "predict_data_outputs c p s = Inr by_partition"
  shows "fst ` set by_partition \<subseteq> {0..}"
proof (cases "c \<in> q4a_closed s")
  case False
  with assms obtain batch where "(case apply_batch (append_pair_accounts (q4a_deduper_amount s)) batch
      (pair_counts_for c s, qualified_pairs_for c s, []) of
        (Inl e, _) \<Rightarrow> Inl e | (Inr _, (_, _, by_partition)) \<Rightarrow> Inr by_partition) = Inr by_partition"
    by (auto simp: predict_data_outputs_def)
  then obtain counts quals where
    run: "apply_batch (append_pair_accounts (q4a_deduper_amount s)) batch (pair_counts_for c s, qualified_pairs_for c s, []) =
      (Inr (), (counts, quals, by_partition))"
    by (cases "apply_batch (append_pair_accounts (q4a_deduper_amount s)) batch (pair_counts_for c s, qualified_pairs_for c s, [])")
      (auto split: sum.splits prod.splits)
  have "fst ` set (snd (snd (snd (apply_batch (append_pair_accounts (q4a_deduper_amount s)) batch
      (pair_counts_for c s, qualified_pairs_for c s, []))))) \<subseteq> {0..}"
    unfolding apply_batch_def
  proof (rule afor_invariant [where I = "\<lambda>st. fst ` set (snd (snd st)) \<subseteq> {0..}"])
    show "fst ` set (snd (snd (snd (apply_pair (append_pair_accounts n) x st)))) \<subseteq> {0..}" if "fst ` set (snd (snd st)) \<subseteq> {0..}" for n x st
      using that append_accounts_keys [OF that, of n "pair_key (q4p_source x) (q4p_target x)"]
      by (cases st) (simp add: apply_pair_def Let_def case_prod_beta)
  qed simp
  with run show ?thesis by simp
qed (use assms in \<open>simp add: predict_data_outputs_def\<close>)

lemma fi_batches_ok:
  assumes "rmap (fi_batches edge len ser c) (sort_key f d) = Inr batches" and "fst ` set d \<subseteq> {0..}"
  shows "list_all out_ok (concat batches)"
  using assms by (fastforce simp: list_all_concat elim!: rmap_all dest: fi_outputs_ok(2) [rotated])

lemma q4a_business:
  "business_ok W (q4a_bfn_data cfg c) p s"
  "business_ok W (q4a_bfn_eof cfg c up completes) p s"
  "business_ok W (q4a_bfn_abort cfg c) p s"
proof -
  show "business_ok W (q4a_bfn_data cfg c) p s"
    by (rule business_pure)
      (auto simp: q4a_bfn_data_def q4a_data_change_def q4a_data_outputs_def act_defs split: sum.splits
        dest: fi_batches_ok predicted_keys)
  show "business_ok W (q4a_bfn_eof cfg c up completes) p s"
    by (rule business_pure)
      (auto simp: q4a_bfn_eof_def Let_def q4a_eof_change_def q4a_close_change_def q4a_compound_change_def q4a_eof_outputs_def act_defs
        split: sum.splits if_splits dest: fi_outputs_ok(1))
  show "business_ok W (q4a_bfn_abort cfg c) p s"
    by (rule business_pure)
      (auto simp: q4a_bfn_abort_def q4a_abort_change_def q4a_close_change_def act_defs split: sum.splits dest: fi_outputs_ok(1))
qed

subsection \<open>Which pairs qualify\<close>

lemma pair_key_inject [simp]: "pair_key A B = pair_key A' B' \<longleftrightarrow> A = A' \<and> B = B'"
  by (cases A; cases B; cases A'; cases B') (auto simp: pair_key_def)

text \<open>
  After the records \<open>ps\<close>: a pair of different accounts has qualified when its paths reach the threshold, and
  otherwise its counter holds its paths.
\<close>

definition tallied :: "q4_pair_paths list \<Rightarrow> (account_pair \<times> int) list \<Rightarrow> account_pair set \<Rightarrow> bool" where
  "tallied ps counts quals \<longleftrightarrow>
     (\<forall>A B. A \<noteq> B \<longrightarrow> (pair_key A B \<in> quals \<longleftrightarrow> Q4_QUALIFY_THRESHOLD \<le> paths_of (A, B) ps) \<and>
        (pair_key A B \<notin> quals \<longrightarrow> dget counts (pair_key A B) 0 = paths_of (A, B) ps)) \<and>
     (\<forall>A. pair_key A A \<notin> quals)"

lemma tallied_Nil: "tallied [] [] {}"
  by (simp add: tallied_def Q4_QUALIFY_THRESHOLD_def)

lemma tallied_step:
  assumes "tallied ps counts quals" and "0 \<le> q4p_path_count p" and "\<forall>p \<in> set ps. 0 \<le> q4p_path_count p"
    and "apply_pair on_q p (counts, quals, acc) = (Inr (), (counts', quals', acc'))"
  shows "tallied (ps @ [p]) counts' quals'"
proof -
  let ?A = "q4p_source p" and ?B = "q4p_target p"
  have nonneg: "0 \<le> paths_of k ps" for k using assms(3) by (rule paths_of_nonneg)
  show ?thesis
  proof (cases "?A = ?B")
    case True
    with assms show ?thesis by (auto simp: apply_pair_def tallied_def)
  next
    case AB: False
    show ?thesis
    proof (cases "pair_key ?A ?B \<in> quals")
      case True
      with AB assms have same: "counts' = counts" "quals' = quals" by (auto simp: apply_pair_def Let_def)
      show ?thesis using assms(1,2) AB True unfolding tallied_def same by auto
    next
      case False
      with AB assms(1) have c: "dget counts (pair_key ?A ?B) 0 = paths_of (?A, ?B) ps" by (simp add: tallied_def)
      show ?thesis
      proof (cases "Q4_QUALIFY_THRESHOLD \<le> paths_of (?A, ?B) ps + q4p_path_count p")
        case True
        with AB False c assms(4) have "counts' = dpop (pair_key ?A ?B) counts" "quals' = insert (pair_key ?A ?B) quals"
          by (auto simp: apply_pair_def Let_def split: prod.splits)
        with assms(1) AB True show ?thesis unfolding tallied_def by auto
      next
        case less: False
        with AB False c assms(4) have "counts' = dset (pair_key ?A ?B) (paths_of (?A, ?B) ps + q4p_path_count p) counts" "quals' = quals"
          by (auto simp: apply_pair_def Let_def min_def split: prod.splits if_splits)
        with assms(1) AB less False show ?thesis unfolding tallied_def by auto
      qed
    qed
  qed
qed

lemma tallied_batch:
  assumes "tallied ps counts quals" and "\<forall>p \<in> set (ps @ batch). 0 \<le> q4p_path_count p"
    and "apply_batch on_q batch (counts, quals, acc) = (Inr (), (counts', quals', acc'))"
  shows "tallied (ps @ batch) counts' quals'"
  using assms
proof (induction batch arbitrary: ps counts quals acc)
  case (Cons p batch)
  from Cons.prems(3) obtain counts1 quals1 acc1 where
    step: "apply_pair on_q p (counts, quals, acc) = (Inr (), (counts1, quals1, acc1))" and
    rest: "apply_batch on_q batch (counts1, quals1, acc1) = (Inr (), (counts', quals', acc'))"
    by (auto simp: apply_batch_def abind_eq_Inr)
  have "tallied (ps @ [p]) counts1 quals1" using tallied_step [OF Cons.prems(1) _ _ step] Cons.prems(2) by auto
  from Cons.IH [OF this _ rest] Cons.prems(2) show ?case by simp
qed (simp add: apply_batch_def areturn_def)

text \<open>
  The prediction and the application walk through a batch in the same way; what the one appends per
  partition, the other counts.
\<close>

lemma accounts_counted:
  assumes "append_pair_accounts n k d = (Inr (), d')" and "counts_match d before now"
  shows "\<exists>now'. count_pair_accounts n k now = (Inr (), now') \<and> counts_match d' before now'"
proof -
  have "\<exists>now'. afor (count_account n) xs now = (Inr (), now') \<and> counts_match d' before now'"
    if "afor (append_account n) xs d = (Inr (), d')" "counts_match d before now" for xs d now
    using that
  proof (induction xs arbitrary: d now)
    case (Cons x xs)
    from Cons.prems(1) obtain d1 where one: "append_account n x d = (Inr (), d1)" and rest: "afor (append_account n) xs d1 = (Inr (), d')"
      by (auto simp: abind_eq_Inr)
    from one obtain part where part: "account_partition n x = Inr part" and d1: "d1 = dappend part x d"
      by (auto simp: append_account_def abind_eq_Inr alift_def amodify_def)
    have "counts_match d1 before (dset part (dget now part 0 + 1) now)"
      unfolding d1 using Cons.prems(2) by (rule counts_match_append)
    from Cons.IH [OF rest this] part show ?case by (simp add: count_account_def abind_def alift_def amodify_def)
  qed (simp add: areturn_def)
  from this [OF assms(1) [unfolded append_pair_accounts_def] assms(2)] show ?thesis
    by (simp add: count_pair_accounts_def)
qed

lemma prediction_counted:
  assumes "apply_batch (append_pair_accounts n) batch (counts, quals, d) = (Inr (), (counts', quals', d'))"
    and "counts_match d before now"
  shows "\<exists>now'. apply_batch (count_pair_accounts n) batch (counts, quals, now) = (Inr (), (counts', quals', now')) \<and>
    counts_match d' before now'"
  using assms
proof (induction batch arbitrary: counts quals d now)
  case (Cons p batch)
  from Cons.prems(1) obtain counts1 quals1 d1 where
    step: "apply_pair (append_pair_accounts n) p (counts, quals, d) = (Inr (), (counts1, quals1, d1))" and
    rest: "apply_batch (append_pair_accounts n) batch (counts1, quals1, d1) = (Inr (), (counts', quals', d'))"
    by (auto simp: apply_batch_def abind_eq_Inr)
  have "\<exists>now1. apply_pair (count_pair_accounts n) p (counts, quals, now) = (Inr (), (counts1, quals1, now1)) \<and> counts_match d1 before now1"
    using step Cons.prems(2) accounts_counted [of n "pair_key (q4p_source p) (q4p_target p)" d _ before now]
    by (auto simp: apply_pair_def Let_def split: prod.splits if_splits)
  then obtain now1 where one: "apply_pair (count_pair_accounts n) p (counts, quals, now) = (Inr (), (counts1, quals1, now1))"
    and m: "counts_match d1 before now1" by blast
  from Cons.IH [OF rest m] one show ?case by (simp add: apply_batch_def abind_def)
qed (simp add: apply_batch_def areturn_def)

text \<open>The accounts predicted for a deduper are those of the pairs that newly qualify.\<close>

definition members :: "account_pair set \<Rightarrow> q4_account_id set" where
  "members ks = source_from_key ` ks \<union> target_from_key ` ks"

lemma appended_accounts:
  assumes "afor (append_account n) xs d = (Inr (), d')"
  shows "set (dget d' part []) = set (dget d part []) \<union> {x \<in> set xs. account_partition n x = Inr part}"
  using assms
proof (induction xs arbitrary: d)
  case (Cons x xs)
  from Cons.prems obtain d1 where one: "append_account n x d = (Inr (), d1)" and rest: "afor (append_account n) xs d1 = (Inr (), d')"
    by (auto simp: abind_eq_Inr)
  from one obtain part' where "account_partition n x = Inr part'" "d1 = dappend part' x d"
    by (auto simp: append_account_def abind_eq_Inr alift_def amodify_def)
  with Cons.IH [OF rest] show ?case by (auto simp: dappend_def)
qed (simp add: areturn_def)

lemma predicted_accounts:
  assumes "apply_batch (append_pair_accounts n) batch (counts, quals, d) = (Inr (), (counts', quals', d'))"
  shows "quals \<subseteq> quals' \<and> set (dget d' part []) =
    set (dget d part []) \<union> {x \<in> members (quals' - quals). account_partition n x = Inr part}"
  using assms
proof (induction batch arbitrary: counts quals d)
  case (Cons p batch)
  from Cons.prems(1) obtain counts1 quals1 d1 where
    step: "apply_pair (append_pair_accounts n) p (counts, quals, d) = (Inr (), (counts1, quals1, d1))" and
    rest: "apply_batch (append_pair_accounts n) batch (counts1, quals1, d1) = (Inr (), (counts', quals', d'))"
    by (auto simp: apply_batch_def abind_eq_Inr)
  let ?k = "pair_key (q4p_source p) (q4p_target p)"
  have "quals1 = quals \<and> d1 = d \<or> ?k \<notin> quals \<and> quals1 = insert ?k quals \<and> append_pair_accounts n ?k d = (Inr (), d1)"
    using step by (simp add: apply_pair_def Let_def split: prod.splits if_splits)
  then consider "quals1 = quals" "d1 = d" | "?k \<notin> quals" "quals1 = insert ?k quals" "append_pair_accounts n ?k d = (Inr (), d1)"
    by blast
  then show ?case
  proof cases
    case 1
    with Cons.IH [OF rest] show ?thesis by simp
  next
    case 2
    note new = appended_accounts [OF 2(3) [unfolded append_pair_accounts_def], of part]
    from Cons.IH [OF rest] have IH: "quals1 \<subseteq> quals'" "set (dget d' part []) =
      set (dget d1 part []) \<union> {x \<in> members (quals' - quals1). account_partition n x = Inr part}" by simp_all
    have "members (quals' - quals) = members (quals' - quals1) \<union> members {?k}"
      using IH(1) 2(1,2) by (auto simp: members_def)
    then show ?thesis using IH 2(1,2) new by (auto simp: members_def)
  qed
qed (simp add: apply_batch_def areturn_def members_def)

text \<open>A client's batches, one after the other, on the state of the worker.\<close>

definition q4a_take :: "int \<Rightarrow> bytes list \<Rightarrow> (q4_aggregator_state, unit) act" where
  "q4a_take c = afor (\<lambda>b. q4a_apply_change (q4a_data_change c b))"

lemma q4a_apply_data_change:
  "q4a_apply_change (q4a_data_change c b) = q4a_apply_data c (fi_data_change c b)"
  by (simp add: q4a_apply_change_def q4a_data_change_def fi_dispatch_simps q4a_changes_def)

lemma deserialized_paths_nonneg:
  assumes "deserialize_pair_paths_batch b = Inr ps" and "p \<in> set ps"
  shows "0 \<le> q4p_path_count p"
proof -
  from assms obtain data where "deserialize_pair_paths data = Inr p"
    by (auto simp: deserialize_pair_paths_batch_def decode_whole_batch_def decode_batch_def split: if_splits dest!: rmap_set)
  then show ?thesis by (auto simp: deserialize_pair_paths_def unpack_uint_def split: if_splits)
qed

lemma q4a_data_step:
  assumes "q4a_apply_change (q4a_data_change c b) s = (Inr (), s')" and "c \<notin> q4a_closed s" and "deserialize_pair_paths_batch b = Inr ps"
  shows "c \<notin> q4a_closed s' \<and> q4a_deduper_amount s' = q4a_deduper_amount s \<and>
    apply_batch (count_pair_accounts (q4a_deduper_amount s)) ps (pair_counts_for c s, qualified_pairs_for c s, forwarded_by_partition c s) =
      (Inr (), (pair_counts_for c s', qualified_pairs_for c s', forwarded_by_partition c s'))"
proof -
  obtain r counts quals fwd where run: "apply_batch (count_pair_accounts (q4a_deduper_amount s)) ps
      (pair_counts_for c s, qualified_pairs_for c s, forwarded_by_partition c s) = (r, counts, quals, fwd)"
    by (cases "apply_batch (count_pair_accounts (q4a_deduper_amount s)) ps
      (pair_counts_for c s, qualified_pairs_for c s, forwarded_by_partition c s)") auto
  with assms show ?thesis
    by (cases r) (simp_all add: q4a_apply_data_change q4a_apply_data_def fi_payload pair_counts_for_def qualified_pairs_for_def
        forwarded_by_partition_def Let_def, force)
qed

lemma q4a_take_tallied:
  assumes "q4a_take c bs s = (Inr (), s')" and "rmap deserialize_pair_paths_batch bs = Inr pss" and "c \<notin> q4a_closed s"
    and "tallied ps (pair_counts_for c s) (qualified_pairs_for c s)" and "\<forall>p \<in> set ps. 0 \<le> q4p_path_count p"
  shows "tallied (ps @ concat pss) (pair_counts_for c s') (qualified_pairs_for c s')"
  using assms
proof (induction bs arbitrary: s ps pss)
  case (Cons b bs)
  from Cons.prems(1) obtain s1 where one: "q4a_apply_change (q4a_data_change c b) s = (Inr (), s1)" and
    rest: "q4a_take c bs s1 = (Inr (), s')" by (auto simp: q4a_take_def abind_eq_Inr)
  from Cons.prems(2) obtain qs qss where qs: "deserialize_pair_paths_batch b = Inr qs" and
    qss: "rmap deserialize_pair_paths_batch bs = Inr qss" "pss = qs # qss" by auto
  note step = q4a_data_step [OF one Cons.prems(3) qs]
  have nonneg: "\<forall>p \<in> set (ps @ qs). 0 \<le> q4p_path_count p"
    using Cons.prems(5) deserialized_paths_nonneg [OF qs] by auto
  have "tallied (ps @ qs) (pair_counts_for c s1) (qualified_pairs_for c s1)"
    by (rule tallied_batch [OF Cons.prems(4) nonneg]) (use step in blast)
  from Cons.IH [OF rest qss(1) _ this nonneg] step show ?case by (simp add: qss(2))
qed (simp add: q4a_take_def areturn_def)

end
