(* ===== verification/Q4Deduper.thy ===== *)
theory Q4Deduper
  imports Q4Aggregator "HOL-Library.List_Lexorder" "HOL-Library.Product_Lexorder"
begin

text \<open>
  \<open>workers/scatter_gather/q4_deduper\<close>: each shard keeps the set of the accounts it gets; at the last EOF it sends them,
  sorted, to the gateway (\<open>deduper.py\<close>). With several shards, each reports its number of accounts to shard 0, which
  sends the gateway one EOF with the total when all have reported (\<open>q4_deduper_state.py\<close>).
\<close>

subsection \<open>Q4DeduperState\<close>

type_synonym account_key = "pystr \<times> pystr"

record q4_deduper_state =
  q4d_eof_counter :: upstream_eof_counter
  q4d_deduper_amount :: int
  q4d_accounts :: "(int \<times> account_key set) list"
  q4d_processed :: "(int \<times> int) list"
  q4d_closed :: "int set"
  leader_reports :: "(int \<times> int set) list"
  leader_totals :: "(int \<times> int) list"
  leader_closed :: "int set"

definition new_q4_deduper_state :: "int \<Rightarrow> int \<Rightarrow> q4_deduper_state" where
  "new_q4_deduper_state aggregator_amount deduper_amount =
     \<lparr>q4d_eof_counter = new_eof_counter aggregator_amount, q4d_deduper_amount = deduper_amount, q4d_accounts = [],
      q4d_processed = [], q4d_closed = {}, leader_reports = [], leader_totals = [], leader_closed = {}\<rparr>"

definition q4d_data_change :: "int \<Rightarrow> bytes \<Rightarrow> json" where
  "q4d_data_change = fi_data_change"

definition q4d_eof_change :: "int \<Rightarrow> int \<Rightarrow> json" where
  "q4d_eof_change = fi_eof_change"

definition q4d_close_change :: "int \<Rightarrow> json" where
  "q4d_close_change = fi_close_change"

definition q4d_abort_change :: "int \<Rightarrow> json" where
  "q4d_abort_change client_id = q4d_close_change client_id"

definition leader_report_change :: "int \<Rightarrow> int \<Rightarrow> int \<Rightarrow> json" where
  "leader_report_change client_id sender_id emitted_accounts =
     JObj [(lit ''type'', JStr (lit ''leader_report'')), (lit ''client_id'', JInt client_id),
           (lit ''sender_id'', JInt sender_id), (lit ''emitted_accounts'', JInt emitted_accounts)]"

definition leader_close_change :: "int \<Rightarrow> json" where
  "leader_close_change client_id = JObj [(lit ''type'', JStr (lit ''leader_close'')), (lit ''client_id'', JInt client_id)]"

definition q4d_compound_change :: "json list \<Rightarrow> json" where
  "q4d_compound_change = fi_compound_change"

definition accounts_for :: "int \<Rightarrow> q4_deduper_state \<Rightarrow> account_key set" where
  "accounts_for client_id s = dget (q4d_accounts s) client_id {}"

definition q4d_processed_count :: "int \<Rightarrow> q4_deduper_state \<Rightarrow> int" where
  "q4d_processed_count client_id s = dget (q4d_processed s) client_id 0"

definition q4d_eof_count :: "int \<Rightarrow> q4_deduper_state \<Rightarrow> int" where
  "q4d_eof_count client_id s = uc_count client_id (q4d_eof_counter s)"

definition q4d_eof_would_complete :: "int \<Rightarrow> int \<Rightarrow> q4_deduper_state \<Rightarrow> bool" where
  "q4d_eof_would_complete client_id sender_id s = would_flush client_id sender_id (q4d_eof_counter s)"

definition q4d_is_closed :: "int \<Rightarrow> q4_deduper_state \<Rightarrow> bool" where
  "q4d_is_closed client_id s \<longleftrightarrow> client_id \<in> q4d_closed s"

definition leader_report_count :: "int \<Rightarrow> q4_deduper_state \<Rightarrow> int" where
  "leader_report_count client_id s = int (card (dget (leader_reports s) client_id {}))"

definition leader_report_would_complete :: "int \<Rightarrow> int \<Rightarrow> q4_deduper_state \<Rightarrow> bool" where
  "leader_report_would_complete client_id sender_id s \<longleftrightarrow>
     client_id \<notin> leader_closed s \<and>
     (let reports = dget (leader_reports s) client_id {} in
      sender_id \<notin> reports \<and> int (card reports) + 1 \<ge> q4d_deduper_amount s)"

definition leader_total :: "int \<Rightarrow> q4_deduper_state \<Rightarrow> int" where
  "leader_total client_id s = dget (leader_totals s) client_id 0"

definition is_leader_closed :: "int \<Rightarrow> q4_deduper_state \<Rightarrow> bool" where
  "is_leader_closed client_id s \<longleftrightarrow> client_id \<in> leader_closed s"

definition q4d_apply_data :: "int \<Rightarrow> json \<Rightarrow> (q4_deduper_state, unit) act" where
  "q4d_apply_data client_id change s =
     (if client_id \<in> q4d_closed s then (Inr (), s)
      else
        (case rbind (rbind (jget_str change ''payload_b64'') b64decode) deserialize_account_ids of
           Inl e \<Rightarrow> (Inl e, s)
         | Inr accounts \<Rightarrow>
             (Inr (), s\<lparr>q4d_accounts := dset client_id
                  (accounts_for client_id s \<union> set (map (\<lambda>a. (q4_bank_id a, q4_account a)) accounts)) (q4d_accounts s),
                q4d_processed := dset client_id (q4d_processed_count client_id s + int (length accounts)) (q4d_processed s)\<rparr>)))"

definition q4d_apply_eof :: "int \<Rightarrow> json \<Rightarrow> (q4_deduper_state, unit) act" where
  "q4d_apply_eof client_id change =
     abind (alift (jget_int change ''sender_id'')) (\<lambda>sender.
     amodify (q4d_eof_counter_update (\<lambda>u. snd (on_eof client_id sender u))))"

definition q4d_apply_close :: "int \<Rightarrow> q4_deduper_state \<Rightarrow> q4_deduper_state" where
  "q4d_apply_close client_id s =
     s\<lparr>q4d_accounts := dpop client_id (q4d_accounts s), q4d_processed := dpop client_id (q4d_processed s),
       q4d_eof_counter := uc_close client_id (q4d_eof_counter s), q4d_closed := insert client_id (q4d_closed s)\<rparr>"

text \<open>The report is stored before its number of accounts is read from the change.\<close>

definition apply_leader_report :: "int \<Rightarrow> json \<Rightarrow> (q4_deduper_state, unit) act" where
  "apply_leader_report client_id change s =
     (if client_id \<in> leader_closed s then (Inr (), s)
      else
        (case jget_int change ''sender_id'' of
           Inl e \<Rightarrow> (Inl e, s)
         | Inr sender_id \<Rightarrow>
             (let reports = dget (leader_reports s) client_id {} in
              if sender_id \<in> reports then (Inr (), s\<lparr>leader_reports := dset client_id reports (leader_reports s)\<rparr>)
              else
                (let s' = s\<lparr>leader_reports := dset client_id (insert sender_id reports) (leader_reports s)\<rparr> in
                 (case jget_int change ''emitted_accounts'' of
                    Inl e \<Rightarrow> (Inl e, s')
                  | Inr n \<Rightarrow> (Inr (), s'\<lparr>leader_totals := dset client_id (leader_total client_id s' + n) (leader_totals s')\<rparr>))))))"

definition apply_leader_close :: "int \<Rightarrow> q4_deduper_state \<Rightarrow> q4_deduper_state" where
  "apply_leader_close client_id s =
     s\<lparr>leader_reports := dpop client_id (leader_reports s), leader_totals := dpop client_id (leader_totals s),
       leader_closed := insert client_id (leader_closed s)\<rparr>"

definition q4d_changes :: "q4_deduper_state change_ops" where
  "q4d_changes kind =
     (if kind = lit ''data'' then Some q4d_apply_data
      else if kind = lit ''eof'' then Some q4d_apply_eof
      else if kind = lit ''close'' then Some (\<lambda>client_id _. amodify (q4d_apply_close client_id))
      else if kind = lit ''leader_report'' then Some apply_leader_report
      else if kind = lit ''leader_close'' then Some (\<lambda>client_id _. amodify (apply_leader_close client_id))
      else None)"

definition q4d_apply_change :: "json \<Rightarrow> (q4_deduper_state, unit) act" where
  "q4d_apply_change = dispatch_change q4d_changes"

record q4_deduper_dict =
  q4dd_accounts :: "(int \<times> account_key set) list"
  q4dd_processed :: "(int \<times> int) list"
  q4dd_eof_counter :: eof_counter_snapshot
  q4dd_closed :: "int set"
  q4dd_leader_reports :: "(int \<times> int set) list"
  q4dd_leader_totals :: "(int \<times> int) list"
  q4dd_leader_closed :: "int set"

definition q4d_snapshot :: "q4_deduper_state \<Rightarrow> q4_deduper_dict option" where
  "q4d_snapshot s =
     Some \<lparr>q4dd_accounts = q4d_accounts s, q4dd_processed = q4d_processed s,
           q4dd_eof_counter = uc_snapshot (q4d_eof_counter s), q4dd_closed = q4d_closed s,
           q4dd_leader_reports = leader_reports s, q4dd_leader_totals = leader_totals s, q4dd_leader_closed = leader_closed s\<rparr>"

definition q4d_restore :: "q4_deduper_dict option \<Rightarrow> (q4_deduper_state, unit) act" where
  "q4d_restore data s =
     (case data of
        None \<Rightarrow> (Inr (), s\<lparr>q4d_accounts := [], q4d_processed := [], q4d_closed := {}, leader_reports := [], leader_totals := [],
                  leader_closed := {}\<rparr>)
      | Some d \<Rightarrow>
          (Inr (), s\<lparr>q4d_accounts := q4dd_accounts d, q4d_processed := q4dd_processed d,
             q4d_eof_counter := uc_restore (q4dd_eof_counter d) (q4d_eof_counter s), q4d_closed := q4dd_closed d,
             leader_reports := q4dd_leader_reports d, leader_totals := q4dd_leader_totals d, leader_closed := q4dd_leader_closed d\<rparr>))"

definition q4_deduper_ops :: "(q4_deduper_state, q4_deduper_dict option) worker_ops" where
  "q4_deduper_ops = \<lparr>apply_change = q4d_apply_change, worker_snapshot = q4d_snapshot, worker_restore = q4d_restore\<rparr>"

subsection \<open>Q4DeduperWorker\<close>

record q4_deduper_config =
  q4dc_id :: int
  q4dc_deduper_amount :: int
  q4dc_batch_max_accounts :: int

definition GATEWAY_Q4_DATA_EDGE :: pystr where "GATEWAY_Q4_DATA_EDGE = lit ''gateway_q4_data''"
definition GATEWAY_Q4_EOF_EDGE :: pystr where "GATEWAY_Q4_EOF_EDGE = lit ''gateway_q4_eof''"
definition Q4_DEDUPER_LEADER_EDGE :: pystr where "Q4_DEDUPER_LEADER_EDGE = lit ''q4_deduper_leader''"
definition LEADER_REPORT_KIND :: msg_kind where "LEADER_REPORT_KIND = CTRL_FLUSH_ACK"
definition GATEWAY_EOF_SEQ :: int where "GATEWAY_EOF_SEQ = 2 ^ 32 - 1"

text \<open>The destinations that have a publisher; a single shard has none for the leader.\<close>

definition q4d_publishers :: "q4_deduper_config \<Rightarrow> pystr list" where
  "q4d_publishers cfg =
     [GATEWAY_Q4_DATA_EDGE, GATEWAY_Q4_EOF_EDGE] @ (if q4dc_deduper_amount cfg > 1 then [Q4_DEDUPER_LEADER_EDGE] else [])"

definition gateway_packet :: "q4_deduper_config \<Rightarrow> message_type \<Rightarrow> int \<Rightarrow> int \<Rightarrow> bytes \<Rightarrow> bytes res" where
  "gateway_packet cfg msg_type client_id seq payload =
     rbind (client_id_to_bytes client_id) (\<lambda>client_bytes.
     create_addressed_packet (message_type_value msg_type) client_bytes (q4dc_id cfg) seq payload)"

definition unique_accounts :: "account_key set \<Rightarrow> q4_account_id list" where
  "unique_accounts ks = map (\<lambda>(bank, acc). \<lparr>q4_bank_id = bank, q4_account = acc\<rparr>) (sorted_list_of_set ks)"

definition gateway_data_outputs :: "q4_deduper_config \<Rightarrow> int \<Rightarrow> q4_deduper_state \<Rightarrow> logical_output list res" where
  "gateway_data_outputs cfg client_id s =
     rbind (chunks (q4dc_batch_max_accounts cfg) (unique_accounts (accounts_for client_id s))) (\<lambda>cs.
     rmap (\<lambda>(seq, chunk).
       rbind (serialize_account_ids chunk) (\<lambda>payload.
       rbind (gateway_packet cfg MT_DATA client_id (int seq) payload) (\<lambda>pkt.
       Inr (Out2 GATEWAY_Q4_DATA_EDGE pkt)))) (enumerate 0 cs))"

definition gateway_eof_output :: "q4_deduper_config \<Rightarrow> int \<Rightarrow> int \<Rightarrow> logical_output res" where
  "gateway_eof_output cfg client_id expected =
     rbind (fi_control_payload (q4dc_id cfg) expected 0) (\<lambda>payload.
     rbind (gateway_packet cfg MT_EOF client_id GATEWAY_EOF_SEQ payload) (\<lambda>pkt. Inr (Out2 GATEWAY_Q4_EOF_EDGE pkt)))"

definition leader_report_output :: "q4_deduper_config \<Rightarrow> int \<Rightarrow> int \<Rightarrow> logical_output res" where
  "leader_report_output cfg client_id emitted_accounts =
     (if \<not> q4dc_deduper_amount cfg > 1 then Inl RuntimeError
      else
        rbind (fi_control_payload (q4dc_id cfg) emitted_accounts 0) (\<lambda>payload.
        rbind (fi_packet MT_EOF_RECEIVED client_id payload) (\<lambda>pkt. Inr (Out2 Q4_DEDUPER_LEADER_EDGE pkt))))"

definition q4d_close_outputs :: "q4_deduper_config \<Rightarrow> int \<Rightarrow> q4_deduper_state \<Rightarrow> logical_output list res" where
  "q4d_close_outputs cfg client_id s =
     (let emitted_accounts = int (card (accounts_for client_id s)) in
      rbind (gateway_data_outputs cfg client_id s) (\<lambda>outputs.
      rbind (if q4dc_deduper_amount cfg = 1 then gateway_eof_output cfg client_id emitted_accounts
             else leader_report_output cfg client_id emitted_accounts) (\<lambda>final.
      Inr (outputs @ [final]))))"

type_synonym q4d_fn = "bytes \<Rightarrow> (q4_deduper_state, json \<times> logical_output list) act"

definition q4d_bfn_abort :: "int \<Rightarrow> q4d_fn" where
  "q4d_bfn_abort client_id payload = areturn (q4d_abort_change client_id, [])"

definition q4d_bfn_data :: "int \<Rightarrow> q4d_fn" where
  "q4d_bfn_data client_id payload = areturn (q4d_data_change client_id payload, [])"

definition q4d_bfn_eof :: "q4_deduper_config \<Rightarrow> int \<Rightarrow> int \<Rightarrow> bool \<Rightarrow> q4d_fn" where
  "q4d_bfn_eof cfg client_id upstream_id completes payload =
     (let eof_change = q4d_eof_change client_id upstream_id in
      if completes then
        abind (aget (q4d_close_outputs cfg client_id)) (\<lambda>r.
        abind (alift r) (\<lambda>outputs.
        areturn (q4d_compound_change [eof_change, q4d_close_change client_id], outputs)))
      else areturn (eof_change, []))"

definition q4d_bfn_leader_report :: "q4_deduper_config \<Rightarrow> int \<Rightarrow> control_message \<Rightarrow> bool \<Rightarrow> int \<Rightarrow> q4d_fn" where
  "q4d_bfn_leader_report cfg client_id control completes total_after payload =
     (let report_change = leader_report_change client_id (cm_sender_id control) (expected_total control) in
      if completes then
        abind (alift (gateway_eof_output cfg client_id total_after)) (\<lambda>out.
        areturn (q4d_compound_change [report_change, leader_close_change client_id], [out]))
      else areturn (report_change, []))"

type_synonym q4d_runner = "(q4_deduper_state, q4_deduper_dict option) runner"

definition q4d_handle_abort ::
  "q4_deduper_config \<Rightarrow> (outbox_entry \<Rightarrow> py_error option) \<Rightarrow> int \<Rightarrow> int \<Rightarrow> int \<Rightarrow> q4d_runner \<Rightarrow> delivery \<times> q4d_runner" where
  "q4d_handle_abort cfg send client_id sender_id seq r =
     (if q4d_is_closed client_id (h_worker (r_handler r)) then (Acked, r)
      else attempt (run_message q4_deduper_ops (q4d_publishers cfg) send (abort_msg_id sender_id client_id seq) client_id sender_id
             seq [] (q4d_bfn_abort client_id) ABORT) r)"

definition q4d_handle_data ::
  "q4_deduper_config \<Rightarrow> (outbox_entry \<Rightarrow> py_error option) \<Rightarrow> int \<Rightarrow> int \<Rightarrow> int \<Rightarrow> bytes \<Rightarrow> q4d_runner \<Rightarrow> delivery \<times> q4d_runner" where
  "q4d_handle_data cfg send client_id sender_id seq payload r =
     (if fi_skips r (q4d_is_closed client_id (h_worker (r_handler r))) client_id sender_id seq DATA then (Acked, r)
      else attempt (run_message q4_deduper_ops (q4d_publishers cfg) send (data_msg_id sender_id seq) client_id sender_id seq payload
             (q4d_bfn_data client_id) DATA) r)"

definition q4d_handle_eof ::
  "q4_deduper_config \<Rightarrow> (outbox_entry \<Rightarrow> py_error option) \<Rightarrow> int \<Rightarrow> int \<Rightarrow> int \<Rightarrow> bytes \<Rightarrow> q4d_runner \<Rightarrow> delivery \<times> q4d_runner" where
  "q4d_handle_eof cfg send client_id sender_id seq payload r =
     (case deserialize_control payload of
        Inl _ \<Rightarrow> (Nacked True, r)
      | Inr ctrl \<Rightarrow>
          (let s = h_worker (r_handler r); upstream_id = cm_sender_id ctrl in
           if fi_skips r (q4d_is_closed client_id s) client_id sender_id seq DATA then (Acked, r)
           else attempt (run_message q4_deduper_ops (q4d_publishers cfg) send (data_msg_id sender_id seq) client_id sender_id seq payload
                  (q4d_bfn_eof cfg client_id upstream_id (q4d_eof_would_complete client_id upstream_id s)) DATA) r))"

definition q4d_on_message ::
  "q4_deduper_config \<Rightarrow> (outbox_entry \<Rightarrow> py_error option) \<Rightarrow> bytes \<Rightarrow> q4d_runner \<Rightarrow> delivery \<times> q4d_runner" where
  "q4d_on_message cfg send raw r =
     (case unpack_addressed_packet raw of
        Inl _ \<Rightarrow> (Nacked True, r)
      | Inr (msg_type, client_id, sender_id, seq, payload) \<Rightarrow>
          if msg_type = message_type_value MT_DATA then q4d_handle_data cfg send client_id sender_id seq payload r
          else if msg_type = message_type_value MT_EOF then q4d_handle_eof cfg send client_id sender_id seq payload r
          else if msg_type = message_type_value MT_ABORT then q4d_handle_abort cfg send client_id sender_id seq r
          else (Nacked True, r))"

definition leader_msg_id :: "int \<Rightarrow> int \<Rightarrow> pystr" where
  "leader_msg_id sender_id client_id = lit ''leader:'' @ int_str sender_id @ [58] @ int_str client_id"

definition handle_leader_report ::
  "q4_deduper_config \<Rightarrow> (outbox_entry \<Rightarrow> py_error option) \<Rightarrow> int \<Rightarrow> control_message \<Rightarrow> bytes \<Rightarrow> q4d_runner \<Rightarrow> delivery \<times> q4d_runner" where
  "handle_leader_report cfg send client_id control raw r =
     (if q4dc_id cfg \<noteq> 0 then (Acked, r)
      else
        (let s = h_worker (r_handler r); sender_id = cm_sender_id control in
         if fi_skips r (is_leader_closed client_id s) client_id sender_id client_id LEADER_REPORT_KIND then (Acked, r)
         else attempt (run_message q4_deduper_ops (q4d_publishers cfg) send (leader_msg_id sender_id client_id) client_id sender_id
                client_id raw
                (q4d_bfn_leader_report cfg client_id control (leader_report_would_complete client_id sender_id s)
                   (leader_total client_id s + expected_total control)) LEADER_REPORT_KIND) r))"

definition on_leader_message ::
  "q4_deduper_config \<Rightarrow> (outbox_entry \<Rightarrow> py_error option) \<Rightarrow> bytes \<Rightarrow> q4d_runner \<Rightarrow> delivery \<times> q4d_runner" where
  "on_leader_message cfg send raw r =
     (case unpack_packet raw of
        Inl _ \<Rightarrow> (Nacked True, r)
      | Inr (msg_type, client_id, payload) \<Rightarrow>
          if msg_type \<noteq> message_type_value MT_EOF_RECEIVED then (Nacked True, r)
          else (case deserialize_control payload of
                  Inl _ \<Rightarrow> (Nacked True, r)
                | Inr control \<Rightarrow> handle_leader_report cfg send client_id control raw r))"

definition q4d_start :: "q4_deduper_config \<Rightarrow> (outbox_entry \<Rightarrow> py_error option) \<Rightarrow> (q4d_runner, unit) act" where
  "q4d_start cfg send = fi_start q4_deduper_ops (q4d_publishers cfg) send"

subsection \<open>The worker is durable\<close>

lemmas q4d_op_defs = q4d_apply_data_def q4d_apply_eof_def q4d_apply_close_def apply_leader_report_def apply_leader_close_def

interpretation q4d: closing_state q4d_changes q4d_closed
proof
  show "q4d_closed s \<subseteq> q4d_closed (snd (f c ch s))" if "q4d_changes kind = Some f" for kind f s c ch
    using that by (auto simp: q4d_changes_def q4d_op_defs act_defs Let_def split: if_splits sum.splits)
qed (auto simp: q4d_changes_def q4d_apply_data_def q4d_apply_close_def amodify_def)

definition q4d_frame :: "int \<Rightarrow> int \<Rightarrow> q4_deduper_state \<Rightarrow> bool" where
  "q4d_frame n k s \<longleftrightarrow> uc_expected (q4d_eof_counter s) = n \<and> q4d_deduper_amount s = k"

interpretation q4d_state: worker_state q4_deduper_ops "new_q4_deduper_state n k" "q4d_frame n k" for n k
proof
  show "q4d_frame n k s'" if "q4d_frame n k s" "apply_change q4_deduper_ops ch s = (Inr (), s')" for s ch s'
  proof -
    have "q4d_frame n k (snd (dispatch_change q4d_changes ch s))"
      by (rule dispatch_invariant)
        (use that(1) in \<open>auto simp: q4d_frame_def q4d_changes_def q4d_op_defs act_defs Let_def split: if_splits sum.splits\<close>)
    with that(2) show ?thesis by (simp add: q4_deduper_ops_def q4d_apply_change_def)
  qed
qed (simp_all add: new_q4_deduper_state_def new_eof_counter_def q4_deduper_ops_def q4d_snapshot_def q4d_restore_def
    q4d_frame_def uc_restore_snapshot [unfolded new_eof_counter_def])

definition q4d_msg :: "pystr \<Rightarrow> input_key \<Rightarrow> bool" where
  "q4d_msg m z \<longleftrightarrow> runner_msg m z \<or> (\<exists>c s. z = (c, s, c, LEADER_REPORT_KIND) \<and> m = leader_msg_id s c)"

lemma leader_id_new: "\<not> runner_msg (leader_msg_id s c) z"
proof -
  have "leader_msg_id s c \<noteq> data_msg_id s' q" for s' q
  proof (cases "int_str s'")
    case (Cons a list)
    then show ?thesis using int_str_hd [OF Cons]
      by (auto simp: data_msg_id_def leader_msg_id_def lit_def is_digit_def of_char_def)
  qed (auto simp: data_msg_id_def leader_msg_id_def lit_def)
  moreover have "leader_msg_id s c \<noteq> abort_msg_id s' c' q" for s' c' q
    by (simp add: leader_msg_id_def abort_msg_id_def lit_def)
  ultimately show ?thesis by (cases z) auto
qed

lemma leader_id_inject: "leader_msg_id s c = leader_msg_id s' c' \<longleftrightarrow> s = s' \<and> c = c'"
  by (auto simp: leader_msg_id_def split_at_colon)

interpretation q4d_ids: message_ids q4d_msg
proof
  show "x = y" if "q4d_msg m (c, x)" "q4d_msg m (c, y)" for m c x y
    using that runner_ids.msg_key [of m c x y] unfolding q4d_msg_def by (metis Pair_inject leader_id_new leader_id_inject)
  show "m = m'" if "q4d_msg m z" "q4d_msg m' z" for m m' z
  proof -
    have "\<not> runner_msg n (c, s, c, LEADER_REPORT_KIND)" for n c s by (simp add: LEADER_REPORT_KIND_def)
    then show ?thesis using that runner_ids.msg_id [of m z m'] unfolding q4d_msg_def by (metis Pair_inject)
  qed
qed

interpretation q4d_durable: durable_worker q4d_msg q4_deduper_ops "new_q4_deduper_state n k" "q4d_frame n k" for n k
  by unfold_locales

lemma leader_change_ok [simp]:
  "state_change_ok (leader_report_change c n m)"
  "state_change_ok (fi_compound_change [leader_report_change c n m, leader_close_change c])"
  by (simp_all add: state_change_ok_def leader_report_change_def leader_close_change_def fi_compound_change_def)

lemma gateway_outputs_ok:
  "gateway_eof_output cfg c n = Inr out \<Longrightarrow> out_ok out"
  "q4d_close_outputs cfg c s = Inr outs \<Longrightarrow> list_all out_ok outs"
proof -
  show eof: "out_ok out" if "gateway_eof_output cfg c n = Inr out" for n out
    using that by (auto simp: gateway_eof_output_def out_ok_def)
  have "list_all out_ok ds" if "gateway_data_outputs cfg c s = Inr ds" for ds
    using that by (auto simp: gateway_data_outputs_def out_ok_def elim!: rmap_all)
  moreover have "out_ok out" if "leader_report_output cfg c n = Inr out" for n out
    using that by (auto simp: leader_report_output_def out_ok_def split: if_splits)
  ultimately show "q4d_close_outputs cfg c s = Inr outs \<Longrightarrow> list_all out_ok outs"
    using eof by (auto simp: q4d_close_outputs_def Let_def split: if_splits)
qed

lemma q4d_business:
  "business_ok W (q4d_bfn_data c) p s"
  "business_ok W (q4d_bfn_eof cfg c up completes) p s"
  "business_ok W (q4d_bfn_abort c) p s"
  "business_ok W (q4d_bfn_leader_report cfg c ctrl completes n) p s"
proof -
  show "business_ok W (q4d_bfn_data c) p s"
    by (rule business_pure) (auto simp: q4d_bfn_data_def q4d_data_change_def act_defs)
  show "business_ok W (q4d_bfn_eof cfg c up completes) p s"
    by (rule business_pure)
      (auto simp: q4d_bfn_eof_def Let_def q4d_eof_change_def q4d_close_change_def q4d_compound_change_def act_defs
        split: sum.splits if_splits dest: gateway_outputs_ok(2))
  show "business_ok W (q4d_bfn_abort c) p s"
    by (rule business_pure) (auto simp: q4d_bfn_abort_def q4d_abort_change_def q4d_close_change_def act_defs)
  show "business_ok W (q4d_bfn_leader_report cfg c ctrl completes n) p s"
    by (rule business_pure)
      (auto simp: q4d_bfn_leader_report_def Let_def q4d_compound_change_def act_defs
        split: sum.splits if_splits dest: gateway_outputs_ok(1))
qed

subsection \<open>The accounts of a shard\<close>

definition account_key_of :: "q4_account_id \<Rightarrow> account_key" where
  "account_key_of a = (q4_bank_id a, q4_account a)"

lemma account_key_inject [simp]: "account_key_of a = account_key_of b \<longleftrightarrow> a = b"
  by (cases a; cases b) (simp add: account_key_of_def)

definition q4d_take :: "int \<Rightarrow> bytes list \<Rightarrow> (q4_deduper_state, unit) act" where
  "q4d_take c = afor (\<lambda>b. q4d_apply_change (q4d_data_change c b))"

lemma q4d_apply_data_change:
  "q4d_apply_change (q4d_data_change c b) = q4d_apply_data c (fi_data_change c b)"
  by (simp add: q4d_apply_change_def q4d_data_change_def fi_dispatch_simps q4d_changes_def)

lemma q4d_take_accounts:
  assumes "q4d_take c bs s = (Inr (), s')" and "rmap deserialize_account_ids bs = Inr ass" and "c \<notin> q4d_closed s"
  shows "accounts_for c s' = accounts_for c s \<union> account_key_of ` set (concat ass)"
  using assms
proof (induction bs arbitrary: s ass)
  case (Cons b bs)
  from Cons.prems(1) obtain s1 where one: "q4d_apply_change (q4d_data_change c b) s = (Inr (), s1)" and
    rest: "q4d_take c bs s1 = (Inr (), s')" by (auto simp: q4d_take_def abind_eq_Inr)
  from Cons.prems(2) obtain as ass' where as: "deserialize_account_ids b = Inr as" and
    ass': "rmap deserialize_account_ids bs = Inr ass'" "ass = as # ass'" by auto
  have s1: "accounts_for c s1 = accounts_for c s \<union> account_key_of ` set as" "c \<notin> q4d_closed s1"
    using one Cons.prems(3) as
    by (auto simp: q4d_apply_data_change q4d_apply_data_def fi_payload accounts_for_def account_key_of_def)
  from Cons.IH [OF rest ass'(1) s1(2)] show ?case by (auto simp: s1(1) ass'(2))
qed (simp add: q4d_take_def areturn_def)

text \<open>What a shard sends when it closes: its accounts in order, each once, in batches numbered from 0.\<close>

lemma unique_accounts_of:
  assumes "finite ks"
  shows "map account_key_of (unique_accounts ks) = sorted_list_of_set ks"
  by (simp add: unique_accounts_def account_key_of_def comp_def case_prod_beta)

lemma rstrip_nul_ok: "no_trailing_nul (rstrip_nul s)"
proof (cases "dropWhile (\<lambda>c. c = 0) (rev s) = []")
  case False
  from hd_dropWhile [OF this] show ?thesis by (simp add: no_trailing_nul_def rstrip_nul_def last_rev)
qed (simp add: no_trailing_nul_def rstrip_nul_def)

lemma decoded_account_ok: "deserialize_account_id b = Inr a \<Longrightarrow> account_id_ok a"
  by (auto simp: deserialize_account_id_def decode_fixed_def account_id_ok_def rstrip_nul_ok split: if_splits)

lemma decoded_accounts_ok: "deserialize_account_ids b = Inr as \<Longrightarrow> list_all account_id_ok as"
  by (auto simp: deserialize_account_ids_def decode_whole_batch_def decode_batch_def split: if_splits elim!: rmap_all dest: decoded_account_ok)

definition gateway_reads :: "q4_deduper_config \<Rightarrow> int \<Rightarrow> int \<Rightarrow> logical_output \<Rightarrow> q4_account_id list \<Rightarrow> bool" where
  "gateway_reads cfg c seq out as \<longleftrightarrow>
     (\<exists>pkt payload. out = Out2 GATEWAY_Q4_DATA_EDGE pkt \<and>
        unpack_addressed_packet pkt = Inr (message_type_value MT_DATA, c, q4dc_id cfg, seq, payload) \<and>
        deserialize_account_ids payload = Inr as)"

lemma gateway_data_read:
  assumes "gateway_data_outputs cfg c s = Inr ds" and "0 < q4dc_batch_max_accounts cfg"
    and "list_all account_id_ok (unique_accounts (accounts_for c s))"
  obtains batches where "length batches = length ds" "\<And>i. i < length ds \<Longrightarrow> gateway_reads cfg c (int i) (ds ! i) (batches ! i)"
    "concat batches = unique_accounts (accounts_for c s)"
proof -
  define cs where "cs = pieces (nat (q4dc_batch_max_accounts cfg)) (unique_accounts (accounts_for c s))"
  have all: "concat cs = unique_accounts (accounts_for c s)" using assms(2) by (simp add: cs_def concat_pieces)
  define send where "send = (\<lambda>(seq, chunk). rbind (serialize_account_ids chunk) (\<lambda>payload.
       rbind (gateway_packet cfg MT_DATA c (int seq) payload) (\<lambda>pkt. Inr (Out2 GATEWAY_Q4_DATA_EDGE pkt))))"
  have ds: "rmap send (enumerate 0 cs) = Inr ds"
    using assms(1,2) by (auto simp: gateway_data_outputs_def chunks_def cs_def send_def)
  have len: "length ds = length cs" using rmap_Inr_length [OF ds] by simp
  have "gateway_reads cfg c (int i) (ds ! i) (cs ! i)" if "i < length ds" for i
  proof -
    have "send (i, cs ! i) = Inr (ds ! i)" using rmap_nth [OF ds, of i] that len by (simp add: nth_enumerate_eq)
    then obtain payload pkt b where out: "serialize_account_ids (cs ! i) = Inr payload" "client_id_to_bytes c = Inr b"
      "create_addressed_packet (message_type_value MT_DATA) b (q4dc_id cfg) (int i) payload = Inr pkt"
      "ds ! i = Out2 GATEWAY_Q4_DATA_EDGE pkt"
      by (auto simp: send_def gateway_packet_def)
    have "set (cs ! i) \<subseteq> set (unique_accounts (accounts_for c s))" using that len by (force simp flip: all)
    with assms(3) have "list_all account_id_ok (cs ! i)" by (auto simp: list_all_iff)
    with out(1) have "deserialize_account_ids payload = Inr (cs ! i)"
      by (simp add: serialize_account_ids_def deserialize_account_ids_def account_codec.whole_batch_roundtrip)
    with out addressed_packet_roundtrip [OF out(3,2)] show ?thesis by (simp add: gateway_reads_def)
  qed
  with that [of cs] len all show ?thesis by simp
qed

subsection \<open>The leader\<close>

text \<open>A report taken by shard 0, without the bookkeeping of the inbox.\<close>

definition leader_step :: "q4_deduper_config \<Rightarrow> int \<Rightarrow> control_message \<Rightarrow> (q4_deduper_state, logical_output list) act" where
  "leader_step cfg c ctrl s =
     (if is_leader_closed c s then (Inr [], s)
      else abind (q4d_bfn_leader_report cfg c ctrl (leader_report_would_complete c (cm_sender_id ctrl) s)
                   (leader_total c s + expected_total ctrl) []) (\<lambda>(ch, outs).
           abind (q4d_apply_change ch) (\<lambda>_. areturn outs)) s)"

primrec leader_run :: "q4_deduper_config \<Rightarrow> int \<Rightarrow> control_message list \<Rightarrow> (q4_deduper_state, logical_output list) act" where
  "leader_run cfg c [] = areturn []"
| "leader_run cfg c (ctrl # ctrls) =
     abind (leader_step cfg c ctrl) (\<lambda>outs. abind (leader_run cfg c ctrls) (\<lambda>rest. areturn (outs @ rest)))"

definition shard_report :: "(int \<Rightarrow> int) \<Rightarrow> int \<Rightarrow> control_message" where
  "shard_report emitted j = \<lparr>cm_sender_id = j, expected_total = emitted j, processed_count = 0\<rparr>"

lemma leader_changes:
  "q4d_apply_change (leader_report_change c j n) s = apply_leader_report c (leader_report_change c j n) s"
  "q4d_apply_change (q4d_compound_change [leader_report_change c j n, leader_close_change c]) s =
     abind (apply_leader_report c (leader_report_change c j n)) (\<lambda>_. amodify (apply_leader_close c)) s"
proof -
  have one: "q4d_apply_change (leader_report_change c j n) = apply_leader_report c (leader_report_change c j n)"
    "q4d_apply_change (leader_close_change c) = amodify (apply_leader_close c)"
    by (simp_all add: q4d_apply_change_def dispatch_change.simps leader_report_change_def leader_close_change_def jget_simps
        q4d_changes_def)
  then show "q4d_apply_change (leader_report_change c j n) s = apply_leader_report c (leader_report_change c j n) s" by simp
  show "q4d_apply_change (q4d_compound_change [leader_report_change c j n, leader_close_change c]) s =
     abind (apply_leader_report c (leader_report_change c j n)) (\<lambda>_. amodify (apply_leader_close c)) s"
    using one by (simp add: q4d_apply_change_def q4d_compound_change_def fi_dispatch_simps abind_def amodify_def areturn_def split: prod.split sum.split)
qed

definition leader_knows :: "int \<Rightarrow> (int \<Rightarrow> int) \<Rightarrow> int set \<Rightarrow> q4_deduper_state \<Rightarrow> bool" where
  "leader_knows c emitted J s \<longleftrightarrow>
     c \<notin> leader_closed s \<and> dget (leader_reports s) c {} = J \<and> leader_total c s = (\<Sum>j\<in>J. emitted j)"

lemma leader_report_applied:
  "apply_leader_report c (leader_report_change c j n) s =
     (Inr (), if c \<in> leader_closed s then s
       else if j \<in> dget (leader_reports s) c {} then s\<lparr>leader_reports := dset c (dget (leader_reports s) c {}) (leader_reports s)\<rparr>
       else s\<lparr>leader_reports := dset c (insert j (dget (leader_reports s) c {})) (leader_reports s),
              leader_totals := dset c (leader_total c s + n) (leader_totals s)\<rparr>)"
  by (simp add: apply_leader_report_def leader_report_change_def jget_simps leader_total_def Let_def)

lemma leader_step_cases:
  assumes "leader_step cfg c (shard_report emitted j) s = (Inr outs, s')"
    and "leader_knows c emitted J s" and "finite J" and "int (card J) < q4d_deduper_amount s"
  shows "q4d_deduper_amount s' = q4d_deduper_amount s \<and>
    (if int (card (insert j J)) < q4d_deduper_amount s then leader_knows c emitted (insert j J) s' \<and> outs = []
     else c \<in> leader_closed s' \<and> (\<exists>eof. gateway_eof_output cfg c (\<Sum>j\<in>insert j J. emitted j) = Inr eof \<and> outs = [eof]))"
proof -
  let ?ch = "leader_report_change c j (emitted j)"
  have open_c: "c \<notin> leader_closed s" and J: "dget (leader_reports s) c {} = J" and total: "leader_total c s = (\<Sum>j\<in>J. emitted j)"
    using assms(2) by (simp_all add: leader_knows_def)
  have report: "apply_leader_report c ?ch s =
      (Inr (), if j \<in> J then s\<lparr>leader_reports := dset c J (leader_reports s)\<rparr>
       else s\<lparr>leader_reports := dset c (insert j J) (leader_reports s),
              leader_totals := dset c (leader_total c s + emitted j) (leader_totals s)\<rparr>)"
    using open_c by (simp add: leader_report_applied J)
  have completes: "leader_report_would_complete c j s \<longleftrightarrow> j \<notin> J \<and> q4d_deduper_amount s \<le> int (card J) + 1"
    using open_c by (auto simp: leader_report_would_complete_def J Let_def)
  show ?thesis
  proof (cases "leader_report_would_complete c j s")
    case True
    with completes have new: "j \<notin> J" "\<not> int (card (insert j J)) < q4d_deduper_amount s" using assms(3) by auto
    with assms(1) open_c True report show ?thesis
      by (auto simp: leader_step_def is_leader_closed_def shard_report_def q4d_bfn_leader_report_def leader_changes total act_defs
          apply_leader_close_def add.commute assms(3) split: sum.splits prod.splits)
  next
    case False
    with completes assms(3,4) have more: "int (card (insert j J)) < q4d_deduper_amount s" by (auto simp: card_insert_if)
    from assms(1) open_c False report have s': "outs = []" "s' = snd (apply_leader_report c ?ch s)"
      by (auto simp: leader_step_def is_leader_closed_def shard_report_def q4d_bfn_leader_report_def leader_changes act_defs)
    have "leader_knows c emitted (insert j J) s' \<and> q4d_deduper_amount s' = q4d_deduper_amount s"
      using open_c report J total assms(3) unfolding s'(2)
      by (cases "j \<in> J") (simp_all add: leader_knows_def leader_total_def insert_absorb add.commute)
    with more s'(1) show ?thesis by simp
  qed
qed

lemma leader_run_closed:
  "c \<in> leader_closed s \<Longrightarrow> leader_run cfg c ctrls s = (Inr [], s)"
  by (induction ctrls) (simp_all add: leader_step_def is_leader_closed_def act_defs)

lemma leader_run_total:
  assumes "leader_run cfg c (map (shard_report emitted) js) s = (Inr outs, s')"
    and "leader_knows c emitted J s" and "finite J" and "int (card J) < K"
    and "set js \<union> J \<subseteq> {0..<K}" and "q4d_deduper_amount s = K"
  shows "if set js \<union> J = {0..<K}
    then \<exists>eof. gateway_eof_output cfg c (\<Sum>j\<in>{0..<K}. emitted j) = Inr eof \<and> outs = [eof]
    else outs = []"
  using assms
proof (induction js arbitrary: J s outs)
  case Nil
  from Nil.prems(4) have "J \<noteq> {0..<K}" by (auto split: if_splits)
  with Nil show ?case by (simp add: areturn_def)
next
  case (Cons j js)
  from Cons.prems(1) obtain outs1 s1 rest where
    step: "leader_step cfg c (shard_report emitted j) s = (Inr outs1, s1)" and
    run: "leader_run cfg c (map (shard_report emitted) js) s1 = (Inr rest, s')" and outs: "outs = outs1 @ rest"
    by (auto simp: abind_eq_Inr areturn_def)
  note cs = leader_step_cases [OF step Cons.prems(2,3), unfolded Cons.prems(6), OF Cons.prems(4)]
  show ?case
  proof (cases "int (card (insert j J)) < K")
    case True
    with cs have "leader_knows c emitted (insert j J) s1" "outs1 = []" "q4d_deduper_amount s1 = K" by simp_all
    with Cons.IH [OF run this(1)] Cons.prems(3,5) True outs show ?thesis by auto
  next
    case False
    have sub: "insert j J \<subseteq> {0..<K}" using Cons.prems(5) by simp
    moreover have "card {0..<K} \<le> card (insert j J)" using False by simp
    ultimately have all: "insert j J = {0..<K}" by (intro card_seteq) simp_all
    with cs False obtain eof where "c \<in> leader_closed s1" "gateway_eof_output cfg c (\<Sum>j\<in>{0..<K}. emitted j) = Inr eof" "outs1 = [eof]"
      by auto
    moreover from this run have "rest = []" by (simp add: leader_run_closed)
    ultimately show ?thesis using all outs Cons.prems(5) by auto
  qed
qed

subsection \<open>Properties\<close>

text \<open>
  A shard of the deduper that has taken batches of accounts closes by sending the gateway every account it
  got exactly once, in order, in batches numbered from 0 that the gateway can read, and then the number of
  the accounts: in the EOF when it is the only shard, in a report to the leader otherwise.
\<close>

theorem deduper_sends_each_once:
  assumes "q4d_take c bs (new_q4_deduper_state n k) = (Inr (), s)" and "rmap deserialize_account_ids bs = Inr ass"
    and "q4d_close_outputs cfg c s = Inr outs" and "0 < q4dc_batch_max_accounts cfg"
  shows "\<exists>ds final batches. outs = ds @ [final] \<and> length batches = length ds \<and>
    (\<forall>i<length ds. gateway_reads cfg c (int i) (ds ! i) (batches ! i)) \<and>
    map account_key_of (concat batches) = sorted_list_of_set (account_key_of ` set (concat ass)) \<and>
    (if q4dc_deduper_amount cfg = 1 then gateway_eof_output cfg c (int (card (set (concat ass)))) = Inr final
     else leader_report_output cfg c (int (card (set (concat ass)))) = Inr final)"
proof -
  define A where "A = set (concat ass)"
  have acc: "accounts_for c s = account_key_of ` A"
    using q4d_take_accounts [OF assms(1,2)] unfolding A_def by (simp add: new_q4_deduper_state_def accounts_for_def)
  have card: "card (account_key_of ` A) = card A" by (rule card_image) (simp add: inj_on_def)
  have keys: "map account_key_of (unique_accounts (accounts_for c s)) = sorted_list_of_set (account_key_of ` A)"
    unfolding acc by (rule unique_accounts_of) (simp add: A_def)
  have "account_id_ok a" if "a \<in> A" for a
    using that rmap_all [OF assms(2), where P = "list_all account_id_ok"] decoded_accounts_ok by (force simp: list_all_iff A_def)
  moreover have "a \<in> A" if "a \<in> set (unique_accounts (accounts_for c s))" for a
  proof -
    from that have "account_key_of a \<in> set (map account_key_of (unique_accounts (accounts_for c s)))" by simp
    then show ?thesis unfolding keys by (auto simp: A_def)
  qed
  ultimately have ok: "list_all account_id_ok (unique_accounts (accounts_for c s))" by (auto simp: list_all_iff)
  from assms(3) obtain ds final where outs: "gateway_data_outputs cfg c s = Inr ds" "outs = ds @ [final]"
    "(if q4dc_deduper_amount cfg = 1 then gateway_eof_output cfg c (int (card A))
      else leader_report_output cfg c (int (card A))) = Inr final"
    by (auto simp: q4d_close_outputs_def acc card Let_def)
  from gateway_data_read [OF outs(1) assms(4) ok] obtain batches where "length batches = length ds"
    "\<And>i. i < length ds \<Longrightarrow> gateway_reads cfg c (int i) (ds ! i) (batches ! i)" "concat batches = unique_accounts (accounts_for c s)"
    by blast
  with outs keys show ?thesis unfolding A_def [symmetric] by (intro exI [of _ ds] exI [of _ final] exI [of _ batches]) (simp split: if_splits)
qed

definition demo_account :: q4_account_id where
  "demo_account = \<lparr>q4_bank_id = lit ''10'', q4_account = lit ''8000EBD30''\<rparr>"

definition demo_deduper :: q4_deduper_config where
  "demo_deduper = \<lparr>q4dc_id = 0, q4dc_deduper_amount = 1, q4dc_batch_max_accounts = 10\<rparr>"

lemma demo_account_bytes: "\<exists>b. serialize_account_ids [demo_account] = Inr b"
  by (simp add: serialize_account_ids_def encode_batch_def serialize_account_id_def demo_account_def encode_fixed_ascii ascii_def
      lit_def field_sizes)

lemma demo_packet: "0 \<le> q \<Longrightarrow> q < 2 ^ 32 \<Longrightarrow> \<exists>pkt. gateway_packet demo_deduper t 5 q payload = Inr pkt"
  by (cases t) (simp_all add: demo_deduper_def gateway_packet_def client_id_to_bytes_def create_addressed_packet_def pack_uint_def
      del: be_bytes.simps)

lemma demo_eof: "0 \<le> n \<Longrightarrow> n < 2 ^ 32 \<Longrightarrow> \<exists>eof. gateway_eof_output demo_deduper 5 n = Inr eof"
  using demo_packet [of GATEWAY_EOF_SEQ MT_EOF]
  by (auto simp: gateway_eof_output_def GATEWAY_EOF_SEQ_def demo_deduper_def [THEN arg_cong, of q4dc_id] fi_control_payload_def
      serialize_control_def pack_uint_def simp del: be_bytes.simps)

theorem deduper_sends_each_once_witness:
  "\<exists>b s ds final batches. q4d_take 5 [b, b] (new_q4_deduper_state 1 1) = (Inr (), s) \<and>
     q4d_close_outputs demo_deduper 5 s = Inr (ds @ [final]) \<and> length batches = length ds \<and>
     (\<forall>i<length ds. gateway_reads demo_deduper 5 (int i) (ds ! i) (batches ! i)) \<and>
     map account_key_of (concat batches) = [account_key_of demo_account] \<and> gateway_eof_output demo_deduper 5 1 = Inr final"
proof -
  obtain b where b: "serialize_account_ids [demo_account] = Inr b" using demo_account_bytes by blast
  have ok: "account_id_ok demo_account" by (simp add: account_id_ok_def demo_account_def no_trailing_nul_def lit_def)
  with b have d: "deserialize_account_ids b = Inr [demo_account]"
    by (simp add: serialize_account_ids_def deserialize_account_ids_def account_codec.whole_batch_roundtrip)
  obtain s where s: "q4d_take 5 [b, b] (new_q4_deduper_state 1 1) = (Inr (), s)"
    by (simp add: q4d_take_def q4d_apply_data_change q4d_apply_data_def fi_payload d act_defs new_q4_deduper_state_def)
  have acc: "accounts_for 5 s = {account_key_of demo_account}"
    using q4d_take_accounts [OF s] d by (simp add: new_q4_deduper_state_def accounts_for_def)
  have one: "unique_accounts (accounts_for 5 s) = [demo_account]"
    by (simp add: acc unique_accounts_def account_key_of_def)
  from demo_eof [of 1] obtain eof where eof: "gateway_eof_output demo_deduper 5 1 = Inr eof" by auto
  from demo_packet [of 0 MT_DATA b] obtain pkt where pkt: "gateway_packet demo_deduper MT_DATA 5 0 b = Inr pkt" by auto
  have data: "gateway_data_outputs demo_deduper 5 s = Inr [Out2 GATEWAY_Q4_DATA_EDGE pkt]"
    using b pkt by (simp add: gateway_data_outputs_def one demo_deduper_def [THEN arg_cong, of q4dc_batch_max_accounts] chunks_def pieces.simps)
  have outs: "q4d_close_outputs demo_deduper 5 s = Inr [Out2 GATEWAY_Q4_DATA_EDGE pkt, eof]"
    using eof by (simp add: q4d_close_outputs_def data acc demo_deduper_def [THEN arg_cong, of q4dc_deduper_amount])
  show ?thesis
    using s outs deduper_sends_each_once [OF s _ outs] d
    by (fastforce simp: demo_deduper_def [THEN arg_cong, of q4dc_batch_max_accounts] demo_deduper_def [THEN arg_cong, of q4dc_deduper_amount])
qed

text \<open>
  The leader of the dedupers sends the gateway one EOF with the total of the accounts of all shards, when the
  last shard has reported, and none before, in whatever order the reports come and however often they are
  repeated.
\<close>

theorem deduper_leader_total:
  assumes "leader_run cfg c (map (shard_report emitted) js) (new_q4_deduper_state n k) = (Inr outs, s)"
    and "0 < k" and "set js \<subseteq> {0..<k}"
  shows "if set js = {0..<k} then \<exists>eof. gateway_eof_output cfg c (\<Sum>j\<in>{0..<k}. emitted j) = Inr eof \<and> outs = [eof]
    else outs = []"
proof -
  have "q4d_deduper_amount (new_q4_deduper_state n k) = k" "leader_knows c emitted {} (new_q4_deduper_state n k)"
    by (simp_all add: new_q4_deduper_state_def leader_knows_def leader_total_def)
  from leader_run_total [OF assms(1) this(2) _ _ _ this(1)] assms(2,3) show ?thesis by simp
qed

theorem deduper_leader_total_witness:
  "\<exists>s eof. leader_run demo_deduper 5 (map (shard_report (\<lambda>j. j + 3)) [1, 1, 0]) (new_q4_deduper_state 1 2) = (Inr [eof], s) \<and>
     gateway_eof_output demo_deduper 5 7 = Inr eof"
proof -
  let ?run = "leader_run demo_deduper 5 (map (shard_report (\<lambda>j. j + 3)) [1, 1, 0]) (new_q4_deduper_state 1 2)"
  from demo_eof [of 7] obtain outs s where run: "?run = (Inr outs, s)"
    by (auto simp: leader_step_def is_leader_closed_def shard_report_def q4d_bfn_leader_report_def leader_changes leader_report_applied
        act_defs new_q4_deduper_state_def leader_report_would_complete_def leader_total_def Let_def apply_leader_close_def
        dget_def)
  have "{0..<2} = {0, 1::int}" by auto
  with deduper_leader_total [OF run] run show ?thesis by (auto simp: insert_commute)
qed

end
