(* ===== verification/Q4Pipeline.thy ===== *)
theory Q4Pipeline
  imports Q4Deduper
begin

text \<open>
  Query 4 from the sums to the gateway. The sum shards hold, per intermediate account, the incoming and
  outgoing transfers by their other end; a path from \<open>A\<close> to \<open>B\<close> is an incoming transfer from \<open>A\<close> and an
  outgoing one to \<open>B\<close> of the same intermediate account. The theorem at the end says that the dedupers hold exactly the
  accounts of the pairs with at least \<open>Q4_QUALIFY_THRESHOLD\<close> paths, whatever the numbers of shards and
  the order in which the records arrive.
\<close>

subsection \<open>An aggregator fed with batches\<close>

text \<open>What the worker does with a batch: the outputs are predicted from the state, then the change is applied.\<close>

definition q4a_step :: "int \<Rightarrow> bytes \<Rightarrow> (q4_aggregator_state, (int \<times> q4_account_id list) list) act" where
  "q4a_step c b =
     abind (aget (predict_data_outputs c b)) (\<lambda>r.
     abind (alift r) (\<lambda>by_partition.
     abind (q4a_apply_change (q4a_data_change c b)) (\<lambda>_. areturn by_partition)))"

primrec q4a_feed :: "int \<Rightarrow> bytes list \<Rightarrow> (q4_aggregator_state, (int \<times> q4_account_id list) list list) act" where
  "q4a_feed c [] = areturn []"
| "q4a_feed c (b # bs) = abind (q4a_step c b) (\<lambda>d. abind (q4a_feed c bs) (\<lambda>ds. areturn (d # ds)))"

text \<open>An account that was appended has a deduper.\<close>

lemma appended_partition:
  assumes "afor (append_account n) xs d = (Inr (), d')" and "x \<in> set xs"
  shows "\<exists>part. account_partition n x = Inr part"
  using assms
  by (induction xs arbitrary: d) (auto simp: append_account_def abind_eq_Inr alift_def)

lemma predicted_partition:
  assumes "apply_batch (append_pair_accounts n) batch (counts, quals, d) = (Inr (), (counts', quals', d'))"
    and "x \<in> members (quals' - quals)"
  shows "\<exists>part. account_partition n x = Inr part"
  using assms
proof (induction batch arbitrary: counts quals d)
  case (Cons p batch)
  from Cons.prems(1) obtain counts1 quals1 d1 where
    step: "apply_pair (append_pair_accounts n) p (counts, quals, d) = (Inr (), (counts1, quals1, d1))" and
    rest: "apply_batch (append_pair_accounts n) batch (counts1, quals1, d1) = (Inr (), (counts', quals', d'))"
    by (auto simp: apply_batch_def abind_eq_Inr)
  let ?k = "pair_key (q4p_source p) (q4p_target p)"
  have new: "quals1 = quals \<or> quals1 = insert ?k quals \<and> append_pair_accounts n ?k d = (Inr (), d1)"
    using step by (simp add: apply_pair_def Let_def split: prod.splits if_splits)
  show ?case
  proof (cases "x \<in> members (quals' - quals1)")
    case True
    with Cons.IH [OF rest] show ?thesis by blast
  next
    case False
    with new Cons.prems(2) have "x \<in> {source_from_key ?k, target_from_key ?k}" "append_pair_accounts n ?k d = (Inr (), d1)"
      by (auto simp: members_def)
    then show ?thesis using appended_partition [of n "[source_from_key ?k, target_from_key ?k]"]
      by (simp add: append_pair_accounts_def)
  qed
qed (simp add: apply_batch_def areturn_def members_def)

lemma q4a_step_run:
  assumes "q4a_step c b s = (Inr by_partition, s')" and "c \<notin> q4a_closed s" and "deserialize_pair_paths_batch b = Inr ps"
  shows "c \<notin> q4a_closed s' \<and> q4a_deduper_amount s' = q4a_deduper_amount s \<and>
    apply_batch (append_pair_accounts (q4a_deduper_amount s)) ps (pair_counts_for c s, qualified_pairs_for c s, []) =
      (Inr (), (pair_counts_for c s', qualified_pairs_for c s', by_partition)) \<and>
    counts_match by_partition (forwarded_by_partition c s) (forwarded_by_partition c s')"
proof -
  from assms(1) have pred: "predict_data_outputs c b s = Inr by_partition" and
    app: "q4a_apply_change (q4a_data_change c b) s = (Inr (), s')"
    by (auto simp: q4a_step_def abind_eq_Inr aget_def alift_def areturn_def)
  from pred assms(2,3) obtain counts quals where
    run: "apply_batch (append_pair_accounts (q4a_deduper_amount s)) ps (pair_counts_for c s, qualified_pairs_for c s, []) =
      (Inr (), (counts, quals, by_partition))"
    by (auto simp: predict_data_outputs_def split: prod.splits sum.splits)
  from prediction_counted [OF run counts_match_Nil [of "forwarded_by_partition c s"]] q4a_data_step [OF app assms(2,3)] run show ?thesis by auto
qed

text \<open>What a shard has sent to each deduper when it has taken its batches.\<close>

definition sent_accounts :: "(int \<times> q4_account_id list) list list \<Rightarrow> int \<Rightarrow> q4_account_id set" where
  "sent_accounts emitted part = (\<Union>d\<in>set emitted. set (dget d part []))"

lemma q4a_feed_run:
  assumes "q4a_feed c bs s = (Inr emitted, s')" and "c \<notin> q4a_closed s" and "rmap deserialize_pair_paths_batch bs = Inr pss"
    and "tallied ps (pair_counts_for c s) (qualified_pairs_for c s)" and "\<forall>p \<in> set ps. 0 \<le> q4p_path_count p"
  shows "tallied (ps @ concat pss) (pair_counts_for c s') (qualified_pairs_for c s') \<and>
    qualified_pairs_for c s \<subseteq> qualified_pairs_for c s' \<and>
    (\<forall>x \<in> members (qualified_pairs_for c s' - qualified_pairs_for c s). \<exists>part. account_partition (q4a_deduper_amount s) x = Inr part) \<and>
    (\<forall>part. sent_accounts emitted part =
       {x \<in> members (qualified_pairs_for c s' - qualified_pairs_for c s). account_partition (q4a_deduper_amount s) x = Inr part})"
  using assms
proof (induction bs arbitrary: s ps pss emitted)
  case Nil
  then show ?case by (auto simp: areturn_def sent_accounts_def members_def)
next
  case (Cons b bs)
  let ?K = "q4a_deduper_amount s"
  from Cons.prems(1) obtain d ds s1 where one: "q4a_step c b s = (Inr d, s1)" and
    rest: "q4a_feed c bs s1 = (Inr ds, s')" and emitted: "emitted = d # ds" by (auto simp: abind_eq_Inr areturn_def)
  from Cons.prems(3) obtain qs qss where qs: "deserialize_pair_paths_batch b = Inr qs" and
    qss: "rmap deserialize_pair_paths_batch bs = Inr qss" "pss = qs # qss" by auto
  from q4a_step_run [OF one Cons.prems(2) qs] have s1: "c \<notin> q4a_closed s1" "q4a_deduper_amount s1 = ?K" and
    run: "apply_batch (append_pair_accounts ?K) qs (pair_counts_for c s, qualified_pairs_for c s, []) =
      (Inr (), (pair_counts_for c s1, qualified_pairs_for c s1, d))" by simp_all
  have nonneg: "\<forall>p \<in> set (ps @ qs). 0 \<le> q4p_path_count p"
    using Cons.prems(5) deserialized_paths_nonneg [OF qs] by auto
  note step = tallied_batch [OF Cons.prems(4) nonneg run]
  note IH = Cons.IH [OF rest s1(1) qss(1) step nonneg, unfolded s1(2)]
  let ?q = "qualified_pairs_for c s" and ?q1 = "qualified_pairs_for c s1" and ?q' = "qualified_pairs_for c s'"
  have sub: "?q \<subseteq> ?q1" "?q1 \<subseteq> ?q'" using predicted_accounts [OF run] IH by auto
  then have split: "members (?q' - ?q) = members (?q1 - ?q) \<union> members (?q' - ?q1)" by (auto simp: members_def)
  have "sent_accounts emitted part = {x \<in> members (?q' - ?q). account_partition ?K x = Inr part}" for part
    using predicted_accounts [OF run, of part] IH unfolding split emitted sent_accounts_def by auto
  moreover have "\<exists>part. account_partition ?K x = Inr part" if "x \<in> members (?q' - ?q)" for x
    using that predicted_partition [OF run, of x] IH unfolding split by auto
  ultimately show ?case using IH sub by (simp add: qss(2))
qed

lemma q4a_feed_counted:
  assumes "q4a_feed c bs s = (Inr emitted, s')" and "c \<notin> q4a_closed s" and "rmap deserialize_pair_paths_batch bs = Inr pss"
  shows "dget (forwarded_by_partition c s') part 0 =
    dget (forwarded_by_partition c s) part 0 + (\<Sum>d\<leftarrow>emitted. int (length (dget d part [])))"
  using assms
proof (induction bs arbitrary: s pss emitted)
  case (Cons b bs)
  from Cons.prems(1) obtain d ds s1 where one: "q4a_step c b s = (Inr d, s1)" and
    rest: "q4a_feed c bs s1 = (Inr ds, s')" and emitted: "emitted = d # ds" by (auto simp: abind_eq_Inr areturn_def)
  from Cons.prems(3) obtain qs qss where qs: "deserialize_pair_paths_batch b = Inr qs" and
    qss: "rmap deserialize_pair_paths_batch bs = Inr qss" by auto
  from q4a_step_run [OF one Cons.prems(2) qs] Cons.IH [OF rest _ qss] show ?case by (simp add: counts_match_def emitted)
qed (simp add: areturn_def)

subsection \<open>The run of a client through the shards\<close>

definition q4_paths :: "nat \<Rightarrow> (nat \<Rightarrow> edge_counts) \<Rightarrow> (nat \<Rightarrow> edge_counts) \<Rightarrow> q4_account_id \<Rightarrow> q4_account_id \<Rightarrow> int" where
  "q4_paths n inc out A B = (\<Sum>i<n. \<Sum>m\<in>fst ` set (inc i). count_of (inc i) m A * count_of (out i) m B)"

definition q4_suspects :: "nat \<Rightarrow> (nat \<Rightarrow> edge_counts) \<Rightarrow> (nat \<Rightarrow> edge_counts) \<Rightarrow> q4_account_id set" where
  "q4_suspects n inc out =
     {x. \<exists>A B. A \<noteq> B \<and> Q4_QUALIFY_THRESHOLD \<le> q4_paths n inc out A B \<and> (x = A \<or> x = B)}"

text \<open>
  The joiners locate the aggregator of every pair; each aggregator gets, in some order and in some batches, the
  pairs located at it. Each deduper gets the accounts the aggregators send to it.
\<close>

definition locate_pair :: "int \<Rightarrow> q4_pair_paths \<Rightarrow> (int \<times> q4_pair_paths) res" where
  "locate_pair G p = rbind (pair_partition G (q4p_source p) (q4p_target p)) (\<lambda>part. Inr (part, p))"

definition aggregators_fed ::
  "int \<Rightarrow> int \<Rightarrow> int \<Rightarrow> int \<Rightarrow> q4_pair_paths list \<Rightarrow> (int \<Rightarrow> (int \<times> q4_account_id list) list list) \<Rightarrow> bool" where
  "aggregators_fed c J G K pairs emitted \<longleftrightarrow>
     (\<exists>located. rmap (locate_pair G) pairs = Inr located \<and>
        (\<forall>g\<in>{0..<G}. \<exists>bs pss s. rmap deserialize_pair_paths_batch bs = Inr pss \<and> mset (concat pss) = mset (sent_to g located) \<and>
           q4a_feed c bs (new_q4_aggregator_state J K) = (Inr (emitted g), s)))"

definition dedupers_fed ::
  "int \<Rightarrow> int \<Rightarrow> int \<Rightarrow> (int \<Rightarrow> (int \<times> q4_account_id list) list list) \<Rightarrow> (int \<Rightarrow> q4_deduper_state) \<Rightarrow> bool" where
  "dedupers_fed c G K emitted t \<longleftrightarrow>
     (\<forall>k\<in>{0..<K}. \<exists>bs ass. rmap deserialize_account_ids bs = Inr ass \<and>
        set (concat ass) = (\<Union>g\<in>{0..<G}. sent_accounts (emitted g) k) \<and>
        q4d_take c bs (new_q4_deduper_state G K) = (Inr (), t k))"

lemma locate_pairs:
  assumes "rmap (locate_pair G) pairs = Inr located"
  shows "paths_of (A, B) (sent_to g located) = (if pair_partition G A B = Inr g then paths_of (A, B) pairs else 0)"
  using assms
proof (induction pairs arbitrary: located)
  case (Cons p pairs)
  from Cons.prems obtain part rest where "pair_partition G (q4p_source p) (q4p_target p) = Inr part"
    "rmap (locate_pair G) pairs = Inr rest" "located = (part, p) # rest" by (auto simp: locate_pair_def [of G p])
  with Cons.IH show ?case by auto
qed simp

lemma paths_of_mset: "mset ps = mset qs \<Longrightarrow> paths_of k ps = paths_of k qs"
  by (simp add: paths_of_def flip: sum_mset_sum_list)

lemma capped_sum_qualifies:
  assumes "finite S" and "\<And>x. x \<in> S \<Longrightarrow> 0 \<le> f x"
  shows "Q4_QUALIFY_THRESHOLD \<le> (\<Sum>x\<in>S. capped (f x)) \<longleftrightarrow> Q4_QUALIFY_THRESHOLD \<le> (\<Sum>x\<in>S. f x)"
proof
  assume "Q4_QUALIFY_THRESHOLD \<le> (\<Sum>x\<in>S. capped (f x))"
  also have "\<dots> \<le> (\<Sum>x\<in>S. f x)" by (rule sum_mono) (use assms(2) in \<open>auto simp: capped_def\<close>)
  finally show "Q4_QUALIFY_THRESHOLD \<le> (\<Sum>x\<in>S. f x)" .
next
  assume *: "Q4_QUALIFY_THRESHOLD \<le> (\<Sum>x\<in>S. f x)"
  show "Q4_QUALIFY_THRESHOLD \<le> (\<Sum>x\<in>S. capped (f x))"
  proof (cases "\<exists>x\<in>S. Q4_QUALIFY_THRESHOLD \<le> f x")
    case True
    then obtain x where "x \<in> S" "Q4_QUALIFY_THRESHOLD \<le> capped (f x)" by (auto simp: capped_def Q4_QUALIFY_THRESHOLD_def)
    moreover have "0 \<le> capped y" for y by (simp add: capped_def Q4_QUALIFY_THRESHOLD_def)
    ultimately show ?thesis using member_le_sum [of x S "\<lambda>x. capped (f x)"] assms(1) by fastforce
  next
    case False
    then have "capped (f x) = f x" if "x \<in> S" for x using assms(2) [OF that] that by (auto simp: capped_def)
    with * show ?thesis by simp
  qed
qed

lemma members_iff: "x \<in> members quals \<longleftrightarrow> (\<exists>A B. pair_key A B \<in> quals \<and> (x = A \<or> x = B))"
proof -
  have key: "pair_key (source_from_key k) (target_from_key k) = k" for k
    by (cases k) (simp add: pair_key_def source_from_key_def target_from_key_def)
  have ends: "source_from_key (pair_key A B) = A" "target_from_key (pair_key A B) = B" for A B
    by (simp_all add: pair_key_def source_from_key_def target_from_key_def)
  have "x \<in> members quals \<longleftrightarrow> (\<exists>k\<in>quals. x = source_from_key k \<or> x = target_from_key k)" by (auto simp: members_def)
  also have "\<dots> \<longleftrightarrow> (\<exists>A B. pair_key A B \<in> quals \<and> (x = A \<or> x = B))" using key ends by metis
  finally show ?thesis .
qed

text \<open>What one aggregator sends: the accounts of its pairs with enough paths, each to its deduper.\<close>

lemma aggregator_sends:
  assumes "rmap (locate_pair G) pairs = Inr located" and "rmap deserialize_pair_paths_batch bs = Inr pss"
    and "mset (concat pss) = mset (sent_to g located)" and "q4a_feed c bs (new_q4_aggregator_state J K) = (Inr emitted, s)"
  defines "M \<equiv> {x. \<exists>A B. A \<noteq> B \<and> pair_partition G A B = Inr g \<and> Q4_QUALIFY_THRESHOLD \<le> paths_of (A, B) pairs \<and> (x = A \<or> x = B)}"
  shows "sent_accounts emitted k = {x \<in> M. account_partition K x = Inr k}"
    and "x \<in> M \<Longrightarrow> \<exists>k. account_partition K x = Inr k"
proof -
  let ?s = "new_q4_aggregator_state J K"
  have start: "c \<notin> q4a_closed ?s" "pair_counts_for c ?s = []" "qualified_pairs_for c ?s = {}" "q4a_deduper_amount ?s = K"
    by (simp_all add: new_q4_aggregator_state_def pair_counts_for_def qualified_pairs_for_def)
  have "tallied [] (pair_counts_for c ?s) (qualified_pairs_for c ?s)" by (simp add: start tallied_Nil)
  from q4a_feed_run [OF assms(4) start(1) assms(2) this]
  have tallied: "tallied (concat pss) (pair_counts_for c s) (qualified_pairs_for c s)"
    and total: "\<And>x. x \<in> members (qualified_pairs_for c s) \<Longrightarrow> \<exists>part. account_partition K x = Inr part"
    and sent: "\<And>part. sent_accounts emitted part = {x \<in> members (qualified_pairs_for c s). account_partition K x = Inr part}"
    by (simp_all add: start)
  have paths: "paths_of (A, B) (concat pss) = (if pair_partition G A B = Inr g then paths_of (A, B) pairs else 0)" for A B
    using paths_of_mset [OF assms(3)] locate_pairs [OF assms(1)] by simp
  have "pair_key A B \<in> qualified_pairs_for c s \<longleftrightarrow>
      A \<noteq> B \<and> pair_partition G A B = Inr g \<and> Q4_QUALIFY_THRESHOLD \<le> paths_of (A, B) pairs" for A B
    using tallied paths [of A B] by (cases "A = B") (auto simp: tallied_def Q4_QUALIFY_THRESHOLD_def)
  then have "members (qualified_pairs_for c s) = M" unfolding M_def by (intro set_eqI) (simp add: members_iff)
  with sent total show "sent_accounts emitted k = {x \<in> M. account_partition K x = Inr k}"
    and "x \<in> M \<Longrightarrow> \<exists>k. account_partition K x = Inr k" by simp_all
qed

text \<open>The pairs the joiners send have the paths of the sums, up to the cap.\<close>

definition joined_pairs :: "(int \<Rightarrow> block list \<Rightarrow> block list) \<Rightarrow> int \<Rightarrow> (int \<Rightarrow> block_counts \<times> block_counts) \<Rightarrow> q4_pair_paths list" where
  "joined_pairs jt J d = concat (map (\<lambda>part. join_blocks (jt part) (fst (d part)) (snd (d part))) [0..J - 1])"

lemma joined_pairs_qualify:
  assumes joined: "joined_counts n it J inc out d" and jt: "\<And>part. iterates (jt part)" and AB: "A \<noteq> B"
    and nonneg: "\<And>i m e. i < n \<Longrightarrow> 0 \<le> count_of (inc i) m e \<and> 0 \<le> count_of (out i) m e"
  shows "Q4_QUALIFY_THRESHOLD \<le> paths_of (A, B) (joined_pairs jt J d) \<longleftrightarrow> Q4_QUALIFY_THRESHOLD \<le> q4_paths n inc out A B"
proof -
  let ?w = "\<lambda>(i, m). count_of (inc i) m A * count_of (out i) m B"
  let ?S = "Sigma {..<n} (\<lambda>i. fst ` set (inc i))"
  have "paths_of (A, B) (joined_pairs jt J d) = (\<Sum>part\<in>{0..<J}. paths_of (A, B) (join_blocks (jt part) (fst (d part)) (snd (d part))))"
  proof -
    have "set [0..J - 1] = {0..<J}" by auto
    then show ?thesis by (simp add: joined_pairs_def paths_of_concat comp_def sum_list_distinct_conv_sum_set)
  qed
  also have "\<dots> = (\<Sum>x\<in>?S. capped (?w x))"
    unfolding joined_paths [OF joined jt AB] by (simp add: sum.Sigma case_prod_beta)
  finally have "Q4_QUALIFY_THRESHOLD \<le> paths_of (A, B) (joined_pairs jt J d) \<longleftrightarrow> Q4_QUALIFY_THRESHOLD \<le> (\<Sum>x\<in>?S. ?w x)"
    using capped_sum_qualifies [of ?S ?w] nonneg by auto
  then show ?thesis by (simp add: q4_paths_def sum.Sigma case_prod_beta)
qed

lemma account_partition_range: "account_partition K x = Inr k \<Longrightarrow> 0 \<le> k \<and> k < K"
  by (auto simp: account_partition_def dest: partition_for_parts_range)

lemma pairs_located:
  assumes "rmap (locate_pair G) pairs = Inr located" and "Q4_QUALIFY_THRESHOLD \<le> paths_of (A, B) pairs"
  shows "\<exists>g\<in>{0..<G}. pair_partition G A B = Inr g"
proof -
  have "\<exists>p\<in>set pairs. (q4p_source p, q4p_target p) = (A, B)"
  proof (rule ccontr)
    assume "\<not> (\<exists>p\<in>set pairs. (q4p_source p, q4p_target p) = (A, B))"
    then have "filter (\<lambda>p. (q4p_source p, q4p_target p) = (A, B)) pairs = []" by (simp add: filter_empty_conv)
    with assms(2) show False by (simp add: paths_of_def Q4_QUALIFY_THRESHOLD_def)
  qed
  then obtain p where p: "p \<in> set pairs" "q4p_source p = A" "q4p_target p = B" by auto
  from rmap_defined [OF assms(1) p(1)] p obtain g where "pair_partition G A B = Inr g" by (auto simp: locate_pair_def)
  moreover from this have "0 \<le> g \<and> g < G" by (auto simp: pair_partition_def dest: partition_for_parts_range)
  ultimately show ?thesis by auto
qed

lemma deduper_holds:
  assumes joined: "joined_counts n it J inc out d" and jt: "\<And>part. iterates (jt part)"
    and nonneg: "\<And>i m e. i < n \<Longrightarrow> 0 \<le> count_of (inc i) m e \<and> 0 \<le> count_of (out i) m e"
    and aggs: "aggregators_fed c J G K (joined_pairs jt J d) emitted" and dedups: "dedupers_fed c G K emitted t"
  shows "k \<in> {0..<K} \<Longrightarrow>
      accounts_for c (t k) = account_key_of ` {x \<in> q4_suspects n inc out. account_partition K x = Inr k} \<and> finite (accounts_for c (t k))"
    and "x \<in> q4_suspects n inc out \<Longrightarrow> \<exists>k\<in>{0..<K}. account_partition K x = Inr k"
proof -
  let ?T = Q4_QUALIFY_THRESHOLD and ?pairs = "joined_pairs jt J d"
  define M where "M g = {x. \<exists>A B. A \<noteq> B \<and> pair_partition G A B = Inr g \<and> ?T \<le> paths_of (A, B) ?pairs \<and> (x = A \<or> x = B)}" for g
  from aggs obtain located where located: "rmap (locate_pair G) ?pairs = Inr located" and
    feed: "\<forall>g\<in>{0..<G}. \<exists>bs pss s. rmap deserialize_pair_paths_batch bs = Inr pss \<and> mset (concat pss) = mset (sent_to g located) \<and>
           q4a_feed c bs (new_q4_aggregator_state J K) = (Inr (emitted g), s)"
    unfolding aggregators_fed_def by blast
  have sent: "sent_accounts (emitted g) k = {x \<in> M g. account_partition K x = Inr k}"
    and total: "x \<in> M g \<Longrightarrow> \<exists>k. account_partition K x = Inr k" if g: "g \<in> {0..<G}" for g k x
  proof -
    from bspec [OF feed g] obtain bs pss s where fed: "rmap deserialize_pair_paths_batch bs = Inr pss"
      "mset (concat pss) = mset (sent_to g located)" "q4a_feed c bs (new_q4_aggregator_state J K) = (Inr (emitted g), s)" by blast
    show "sent_accounts (emitted g) k = {x \<in> M g. account_partition K x = Inr k}"
      and "x \<in> M g \<Longrightarrow> \<exists>k. account_partition K x = Inr k"
      using aggregator_sends [OF located fed] unfolding M_def by simp_all
  qed
  have M: "(\<Union>g\<in>{0..<G}. M g) = q4_suspects n inc out"
  proof -
    have q: "?T \<le> paths_of (A, B) ?pairs \<longleftrightarrow> ?T \<le> q4_paths n inc out A B" if "A \<noteq> B" for A B
      by (rule joined_pairs_qualify [OF joined jt that nonneg])
    show ?thesis
    proof (rule set_eqI)
      fix x
      have "x \<in> (\<Union>g\<in>{0..<G}. M g) \<longleftrightarrow>
          (\<exists>A B. A \<noteq> B \<and> (\<exists>g\<in>{0..<G}. pair_partition G A B = Inr g) \<and> ?T \<le> paths_of (A, B) ?pairs \<and> (x = A \<or> x = B))"
        unfolding M_def by blast
      also have "\<dots> \<longleftrightarrow> x \<in> q4_suspects n inc out"
        unfolding q4_suspects_def mem_Collect_eq using q pairs_located [OF located] by (intro ex_cong1) auto
      finally show "x \<in> (\<Union>g\<in>{0..<G}. M g) \<longleftrightarrow> x \<in> q4_suspects n inc out" .
    qed
  qed
  show "accounts_for c (t k) = account_key_of ` {x \<in> q4_suspects n inc out. account_partition K x = Inr k} \<and> finite (accounts_for c (t k))"
    if k: "k \<in> {0..<K}"
  proof -
    from dedups k obtain bs ass where "rmap deserialize_account_ids bs = Inr ass"
      and ass: "set (concat ass) = (\<Union>g\<in>{0..<G}. sent_accounts (emitted g) k)"
      and "q4d_take c bs (new_q4_deduper_state G K) = (Inr (), t k)" unfolding dedupers_fed_def by blast
    with q4d_take_accounts [of c bs _ "t k" ass] have acc: "accounts_for c (t k) = account_key_of ` set (concat ass)"
      by (simp add: new_q4_deduper_state_def accounts_for_def)
    have "set (concat ass) = {x \<in> q4_suspects n inc out. account_partition K x = Inr k}"
      unfolding ass M [symmetric] using sent by auto
    with acc show ?thesis using finite_set [of "concat ass"] by simp
  qed
  show "\<exists>k\<in>{0..<K}. account_partition K x = Inr k" if "x \<in> q4_suspects n inc out"
    using that total account_partition_range unfolding M [symmetric] by fastforce
qed

text \<open>
  The dedupers together hold the accounts of the pairs with enough paths, and no two of them the same account.
\<close>

lemma dedupers_hold:
  assumes "joined_counts n it J inc out d" and "\<And>part. iterates (jt part)"
    and "\<And>i m e. i < n \<Longrightarrow> 0 \<le> count_of (inc i) m e \<and> 0 \<le> count_of (out i) m e"
    and "aggregators_fed c J G K (joined_pairs jt J d) emitted" and "dedupers_fed c G K emitted t"
  shows "(\<Union>k\<in>{0..<K}. accounts_for c (t k)) = account_key_of ` q4_suspects n inc out"
    and "(\<Sum>k\<in>{0..<K}. card (accounts_for c (t k))) = card (q4_suspects n inc out)"
proof -
  let ?S = "q4_suspects n inc out" and ?at = "\<lambda>k. {x \<in> q4_suspects n inc out. account_partition K x = Inr k}"
  note at = deduper_holds [OF assms(1) _ _ assms(4,5)]
  have holds: "accounts_for c (t k) = account_key_of ` ?at k" and fin: "finite (?at k)" if "k \<in> {0..<K}" for k
  proof -
    from at(1) [OF _ _ that] assms(2,3) have "accounts_for c (t k) = account_key_of ` ?at k \<and> finite (accounts_for c (t k))" by blast
    moreover have "inj_on account_key_of (?at k)" by (simp add: inj_on_def)
    ultimately show "accounts_for c (t k) = account_key_of ` ?at k" "finite (?at k)" by (auto dest: finite_imageD)
  qed
  have "\<exists>k\<in>{0..<K}. account_partition K x = Inr k" if "x \<in> ?S" for x using at(2) [OF _ _ that] assms(2,3) by simp
  then have cover: "?S = (\<Union>k\<in>{0..<K}. ?at k)" by auto
  show "(\<Union>k\<in>{0..<K}. accounts_for c (t k)) = account_key_of ` ?S"
  proof -
    have "(\<Union>k\<in>{0..<K}. accounts_for c (t k)) = (\<Union>k\<in>{0..<K}. account_key_of ` ?at k)" using holds by (rule SUP_cong [OF refl])
    then show ?thesis unfolding image_UN [symmetric] cover [symmetric] .
  qed
  have "(\<Sum>k\<in>{0..<K}. card (accounts_for c (t k))) = (\<Sum>k\<in>{0..<K}. card (?at k))"
    using holds by (intro sum.cong refl) (simp add: card_image inj_on_def)
  also have "\<dots> = card (\<Union>k\<in>{0..<K}. ?at k)"
    by (rule card_UN_disjoint [symmetric]) (use fin in auto)
  finally show "(\<Sum>k\<in>{0..<K}. card (accounts_for c (t k))) = card ?S" unfolding cover [symmetric] .
qed

end
