(* ===== verification/Q4Reference.thy ===== *)
theory Q4Reference
  imports Q4Deduper
begin

text \<open>
  \<open>compute_q4\<close> of \<open>scripts/reference_results.py\<close>: the expected answer of query 4, computed in one process by two passes
  over the file and a join in memory; and what it computes, as a function of the multigraph of the selected
  transfers. The rows are given as \<open>csv.reader\<close> returns their columns; the order in which the intermediates (a
  set) are visited is a parameter.
\<close>

subsection \<open>What is computed\<close>

definition targets_of :: "('a \<times> 'a) list \<Rightarrow> 'a \<Rightarrow> 'a set" where
  "targets_of es a = {t. (a, t) \<in> set es}"

definition kept_edges :: "('a \<times> 'a) list \<Rightarrow> ('a \<times> 'a) list" where
  "kept_edges es = filter (\<lambda>e. 5 < card (targets_of es (fst e))) es"

definition path_rows :: "('a \<times> 'a) list \<Rightarrow> 'a \<Rightarrow> 'a \<Rightarrow> int" where
  "path_rows es a b = (\<Sum>m\<in>fst ` set es. int (count_list (kept_edges es) (a, m)) * int (count_list (kept_edges es) (m, b)))"

definition scatter_gather :: "('a \<times> 'a) list \<Rightarrow> 'a set" where
  "scatter_gather es = {x. \<exists>a b. a \<noteq> b \<and> 5 < path_rows es a b \<and> (x = a \<or> x = b)}"

lemma finite_targets [simp]: "finite (targets_of es a)"
proof (rule finite_subset)
  show "targets_of es a \<subseteq> snd ` set es" by (force simp: targets_of_def)
qed simp

subsection \<open>compute_q4\<close>

record q4_row =
  r4_currency :: pystr
  r4_date :: pystr
  r4_from_bank :: pystr
  r4_from_account :: pystr
  r4_to_bank :: pystr
  r4_to_account :: pystr

definition Q4_NOTEBOOK_WINDOW :: "pystr \<times> pystr" where
  "Q4_NOTEBOOK_WINDOW = (lit ''2022/09/01'', lit ''2022/09/06'')"

definition Q4_SOURCE_MIN_DISTINCT_TARGETS :: nat where "Q4_SOURCE_MIN_DISTINCT_TARGETS = 5"
definition Q4_PAIR_MIN_PATH_ROWS :: int where "Q4_PAIR_MIN_PATH_ROWS = 5"
definition USD_CURRENCY :: pystr where "USD_CURRENCY = lit ''US Dollar''"

definition q4_selected :: "q4_row \<Rightarrow> bool" where
  "q4_selected row \<longleftrightarrow>
     py_strip (r4_currency row) = USD_CURRENCY \<and>
     (let timestamp = py_strip (r4_date row) in
      fst Q4_NOTEBOOK_WINDOW \<le> timestamp \<and> timestamp \<le> snd Q4_NOTEBOOK_WINDOW)"

record interner =
  account_ids :: "(account_key \<times> nat) list"
  account_names :: "account_key list"

definition intern :: "pystr \<Rightarrow> pystr \<Rightarrow> (interner, nat) act" where
  "intern bank account s =
     (case notebook_bank_id bank of
        Inl e \<Rightarrow> (Inl e, s)
      | Inr bank_id \<Rightarrow>
          (let key = (bank_id, py_strip account) in
           (case map_of (account_ids s) key of
              Some i \<Rightarrow> (Inr i, s)
            | None \<Rightarrow>
                (let i = length (account_ids s) in
                 (Inr i, \<lparr>account_ids = dset key i (account_ids s), account_names = account_names s @ [key]\<rparr>)))))"

type_synonym target_sets = "(nat \<times> nat set) list"

text \<open>The first pass: which sources have enough targets. The target of a source that has them is not looked at.\<close>

definition source_pass :: "q4_row \<Rightarrow> (interner \<times> nat set \<times> target_sets, unit) act" where
  "source_pass row = (\<lambda>(it, qualifying, targets_by_source).
     if \<not> q4_selected row then (Inr (), (it, qualifying, targets_by_source))
     else
       (case intern (r4_from_bank row) (r4_from_account row) it of
          (Inl e, it1) \<Rightarrow> (Inl e, (it1, qualifying, targets_by_source))
        | (Inr source, it1) \<Rightarrow>
            if source \<in> qualifying then (Inr (), (it1, qualifying, targets_by_source))
            else
              (case intern (r4_to_bank row) (r4_to_account row) it1 of
                 (Inl e, it2) \<Rightarrow> (Inl e, (it2, qualifying, targets_by_source))
               | (Inr target, it2) \<Rightarrow>
                   (let targets = insert target (dget targets_by_source source {}) in
                    if card targets > Q4_SOURCE_MIN_DISTINCT_TARGETS
                    then (Inr (), (it2, insert source qualifying, dpop source targets_by_source))
                    else (Inr (), (it2, qualifying, dset source targets targets_by_source))))))"

definition edge_pass :: "nat set \<Rightarrow> q4_row \<Rightarrow> (interner \<times> (nat, nat) counters \<times> (nat, nat) counters, unit) act" where
  "edge_pass qualifying row = (\<lambda>(it, incoming, outgoing).
     if \<not> q4_selected row then (Inr (), (it, incoming, outgoing))
     else
       (case intern (r4_from_bank row) (r4_from_account row) it of
          (Inl e, it1) \<Rightarrow> (Inl e, (it1, incoming, outgoing))
        | (Inr source, it1) \<Rightarrow>
            if source \<notin> qualifying then (Inr (), (it1, incoming, outgoing))
            else
              (case intern (r4_to_bank row) (r4_to_account row) it1 of
                 (Inl e, it2) \<Rightarrow> (Inl e, (it2, incoming, outgoing))
               | (Inr target, it2) \<Rightarrow>
                   (Inr (), (it2, add_count target source 1 incoming, add_count source target 1 outgoing)))))"

text \<open>The join: pair counters, qualifying pairs and qualifying accounts.\<close>

type_synonym join_state = "(nat \<times> int) list \<times> nat set \<times> nat set"

definition join_pair :: "nat \<Rightarrow> join_state \<Rightarrow> (nat \<times> nat) \<times> int \<Rightarrow> join_state" where
  "join_pair stride = (\<lambda>(pair_counts, pairs, accounts) ((a, b), rows).
     if a = b then (pair_counts, pairs, accounts)
     else
       (let k = a * stride + b in
        if k \<in> pairs then (pair_counts, pairs, accounts)
        else
          (let count = dget pair_counts k 0 + rows in
           if count > Q4_PAIR_MIN_PATH_ROWS then (dpop k pair_counts, insert k pairs, insert b (insert a accounts))
           else (dset k count pair_counts, pairs, accounts))))"

definition join_rows :: "(nat, nat) counters \<Rightarrow> (nat, nat) counters \<Rightarrow> nat \<Rightarrow> ((nat \<times> nat) \<times> int) list" where
  "join_rows incoming outgoing m =
     concat (map (\<lambda>(a, incoming_count). map (\<lambda>(b, outgoing_count). ((a, b), incoming_count * outgoing_count)) (dget outgoing m []))
       (dget incoming m []))"

definition compute_q4 :: "(nat list \<Rightarrow> nat list) \<Rightarrow> q4_row list \<Rightarrow> account_key list res" where
  "compute_q4 set_iter rows =
     (case afor source_pass rows (\<lparr>account_ids = [], account_names = []\<rparr>, {}, []) of
        (Inl e, _) \<Rightarrow> Inl e
      | (Inr _, (it1, qualifying, _)) \<Rightarrow>
          (case afor (edge_pass qualifying) rows (it1, [], []) of
             (Inl e, _) \<Rightarrow> Inl e
           | (Inr _, (it2, incoming, outgoing)) \<Rightarrow>
               (let stride = length (account_names it2) + 1;
                    (_, _, accounts) =
                      foldl (foldl (join_pair stride)) ([], {}, {})
                        (map (join_rows incoming outgoing)
                           (set_iter (filter (\<lambda>m. map_of outgoing m \<noteq> None) (map fst incoming)))) in
                Inr (map (\<lambda>i. account_names it2 ! i) (sorted_list_of_set accounts)))))"

subsection \<open>Interning\<close>

definition interned :: "account_key list \<Rightarrow> interner \<Rightarrow> bool" where
  "interned names it \<longleftrightarrow>
     distinct (account_names it) \<and> account_ids it = zip (account_names it) [0..<length (account_names it)] \<and> prefix (account_names it) names"

definition id_of :: "account_key list \<Rightarrow> account_key \<Rightarrow> nat" where
  "id_of names k = (case map_of (zip names [0..<length names]) k of Some i \<Rightarrow> i | None \<Rightarrow> 0)"

lemma map_of_enumerated: "distinct xs \<Longrightarrow> i < length xs \<Longrightarrow> map_of (zip xs [0..<length xs]) (xs ! i) = Some i"
  by (rule map_of_is_SomeI) (auto simp: set_zip)

lemma enumerated_keys: "fst ` set (zip xs [0..<length xs]) = set xs"
  by (simp flip: set_map)

lemma map_of_enumerated_None: "map_of (zip xs [0..<length xs]) k = None \<longleftrightarrow> k \<notin> set xs"
  by (simp add: map_of_eq_None_iff enumerated_keys)

lemma dset_new: "k \<notin> fst ` set d \<Longrightarrow> dset k v d = d @ [(k, v)]"
  by (induction d) auto

lemma id_of_nth: "distinct names \<Longrightarrow> i < length names \<Longrightarrow> id_of names (names ! i) = i"
  by (simp add: id_of_def map_of_enumerated)

lemma nth_id_of: "distinct names \<Longrightarrow> k \<in> set names \<Longrightarrow> id_of names k < length names \<and> names ! id_of names k = k"
  by (auto simp: in_set_conv_nth id_of_nth)

lemma id_of_inj: "distinct names \<Longrightarrow> inj_on (id_of names) (set names)"
  by (rule inj_onI) (metis nth_id_of)

definition row_key :: "(q4_row \<Rightarrow> pystr) \<Rightarrow> (q4_row \<Rightarrow> pystr) \<Rightarrow> q4_row \<Rightarrow> account_key" where
  "row_key bank account row = ((case notebook_bank_id (bank row) of Inr b \<Rightarrow> b | Inl _ \<Rightarrow> []), py_strip (account row))"

abbreviation row_source :: "q4_row \<Rightarrow> account_key" where "row_source \<equiv> row_key r4_from_bank r4_from_account"
abbreviation row_target :: "q4_row \<Rightarrow> account_key" where "row_target \<equiv> row_key r4_to_bank r4_to_account"

lemma intern_grows:
  assumes "intern bank account it = (Inr i, it')" and "distinct (account_names it)"
    and "account_ids it = zip (account_names it) [0..<length (account_names it)]"
  shows "distinct (account_names it') \<and> account_ids it' = zip (account_names it') [0..<length (account_names it')] \<and>
    prefix (account_names it) (account_names it') \<and>
    (\<exists>b. notebook_bank_id bank = Inr b \<and> i < length (account_names it') \<and> account_names it' ! i = (b, py_strip account))"
proof -
  from assms(1) obtain b where b: "notebook_bank_id bank = Inr b" by (auto simp: intern_def split: sum.splits)
  let ?k = "(b, py_strip account)"
  show ?thesis
  proof (cases "map_of (account_ids it) ?k")
    case None
    then have new: "?k \<notin> set (account_names it)" using assms(3) by (simp add: map_of_enumerated_None)
    then have "dset ?k (length (account_names it)) (zip (account_names it) [0..<length (account_names it)]) =
        zip (account_names it @ [?k]) [0..<Suc (length (account_names it))]"
      by (subst dset_new) (simp_all add: enumerated_keys)
    moreover have len: "length (account_ids it) = length (account_names it)" by (simp add: assms(3))
    moreover have "i = length (account_names it)" "account_names it' = account_names it @ [?k]"
      "account_ids it' = dset ?k (length (account_names it)) (account_ids it)"
      using assms(1) b None len by (auto simp: intern_def Let_def)
    ultimately show ?thesis using assms(2,3) b new by simp
  next
    case (Some j)
    then have "j < length (account_names it) \<and> account_names it ! j = ?k"
      using assms(3) by (auto dest!: map_of_SomeD simp: set_zip)
    with assms b Some show ?thesis by (auto simp: intern_def)
  qed
qed

lemma intern_interned:
  assumes "intern (bank row) (account row) it = (Inr i, it')" and "interned names it" and "prefix (account_names it') names" and "distinct names"
  shows "interned names it' \<and> i = id_of names (row_key bank account row) \<and> row_key bank account row \<in> set (account_names it')"
proof -
  from intern_grows [OF assms(1)] assms(2) have grows: "distinct (account_names it')"
    "account_ids it' = zip (account_names it') [0..<length (account_names it')]" "i < length (account_names it')"
    "account_names it' ! i = row_key bank account row"
    by (auto simp: interned_def row_key_def)
  with assms(3) have "i < length names" "names ! i = row_key bank account row" by (auto simp: prefix_def nth_append)
  with assms(4) id_of_nth [of names i] have "i = id_of names (row_key bank account row)" by simp
  with grows assms(3) show ?thesis by (auto simp: interned_def intro: nth_mem [of i "account_names it'", simplified grows(4)])
qed

lemmas intern_source = intern_interned [where bank = r4_from_bank and account = r4_from_account]
lemmas intern_target = intern_interned [where bank = r4_to_bank and account = r4_to_account]

text \<open>Both passes only append to the names.\<close>

lemma intern_prefix: "interned names it \<Longrightarrow> intern bank account it = (Inr i, it') \<Longrightarrow> prefix (account_names it) (account_names it')"
  using intern_grows [of bank account it i it'] by (simp add: interned_def)

definition row_edge :: "account_key list \<Rightarrow> q4_row \<Rightarrow> nat \<times> nat" where
  "row_edge names row = (id_of names (row_source row), id_of names (row_target row))"

subsection \<open>The first pass\<close>

definition sources_found :: "(nat \<times> nat) list \<Rightarrow> nat set \<Rightarrow> target_sets \<Rightarrow> bool" where
  "sources_found es qualifying targets_by_source \<longleftrightarrow>
     qualifying = {a. 5 < card (targets_of es a)} \<and> (\<forall>a. a \<notin> qualifying \<longrightarrow> dget targets_by_source a {} = targets_of es a)"

lemma targets_of_snoc: "targets_of (es @ [(a, b)]) x = (if x = a then insert b (targets_of es x) else targets_of es x)"
  by (auto simp: targets_of_def)

lemma sources_found_step:
  assumes "sources_found es q t"
  shows "a \<in> q \<Longrightarrow> sources_found (es @ [(a, b)]) q t"
    and "a \<notin> q \<Longrightarrow> 5 < card (insert b (dget t a {})) \<Longrightarrow> sources_found (es @ [(a, b)]) (insert a q) (dpop a t)"
    and "a \<notin> q \<Longrightarrow> \<not> 5 < card (insert b (dget t a {})) \<Longrightarrow> sources_found (es @ [(a, b)]) q (dset a (insert b (dget t a {})) t)"
proof -
  have q: "x \<in> q \<longleftrightarrow> 5 < card (targets_of es x)" for x using assms by (simp add: sources_found_def)
  have t: "dget t x {} = targets_of es x" if "x \<notin> q" for x using assms that by (simp add: sources_found_def)
  have mono: "card (targets_of es a) \<le> card (insert b (targets_of es a))" by (rule card_insert_le)
  show "sources_found (es @ [(a, b)]) q t" if "a \<in> q"
    using that q t mono unfolding sources_found_def targets_of_snoc by (auto intro: less_le_trans)
  show "sources_found (es @ [(a, b)]) (insert a q) (dpop a t)" if "a \<notin> q" "5 < card (insert b (dget t a {}))"
    using that q t unfolding sources_found_def targets_of_snoc by auto
  show "sources_found (es @ [(a, b)]) q (dset a (insert b (dget t a {})) t)" if "a \<notin> q" "\<not> 5 < card (insert b (dget t a {}))"
    using that q t unfolding sources_found_def targets_of_snoc by auto
qed

lemma source_pass_step:
  assumes "source_pass row (it, q, t) = (Inr (), (it', q', t'))" and "interned names it" and "prefix (account_names it') names"
    and "distinct names" and "sources_found es q t"
  shows "interned names it' \<and> prefix (account_names it) (account_names it') \<and> q \<subseteq> q' \<and>
    sources_found (es @ (if q4_selected row then [row_edge names row] else [])) q' t' \<and>
    (q4_selected row \<longrightarrow> id_of names (row_source row) \<notin> q' \<longrightarrow> row_target row \<in> set (account_names it'))"
proof (cases "q4_selected row")
  case False
  with assms show ?thesis by (simp add: source_pass_def)
next
  case True
  with assms(1) obtain i it1 where i: "intern (r4_from_bank row) (r4_from_account row) it = (Inr i, it1)"
    by (auto simp: source_pass_def split: prod.splits sum.splits)
  have p1: "prefix (account_names it) (account_names it1)" using assms(2) i by (rule intern_prefix)
  show ?thesis
  proof (cases "i \<in> q")
    case old: True
    with assms(1) True i have out: "it' = it1" "q' = q" "t' = t" by (auto simp: source_pass_def)
    have "interned names it1 \<and> i = id_of names (row_source row)" using intern_source [OF i assms(2) _ assms(4)] assms(3) out by simp
    with True old sources_found_step(1) [OF assms(5), of i "id_of names (row_target row)"] p1 show ?thesis
      by (simp add: out row_edge_def)
  next
    case new: False
    with assms(1) True i obtain j it2 where j: "intern (r4_to_bank row) (r4_to_account row) it1 = (Inr j, it2)"
      by (auto simp: source_pass_def split: prod.splits sum.splits)
    with assms(1) True i new have out: "it' = it2"
      "(q', t') = (if 5 < card (insert j (dget t i {})) then (insert i q, dpop i t) else (q, dset i (insert j (dget t i {})) t))"
      by (auto simp: source_pass_def Let_def Q4_SOURCE_MIN_DISTINCT_TARGETS_def split: if_splits)
    have wf1: "distinct (account_names it1)" "account_ids it1 = zip (account_names it1) [0..<length (account_names it1)]"
      using intern_grows [OF i] assms(2) by (auto simp: interned_def)
    have p2: "prefix (account_names it1) (account_names it2)" using intern_grows [OF j wf1] by blast
    have it1: "interned names it1 \<and> i = id_of names (row_source row)"
      using intern_source [OF i assms(2) _ assms(4)] p2 assms(3) out(1) prefix_order.trans by blast
    have it2: "interned names it2 \<and> j = id_of names (row_target row) \<and> row_target row \<in> set (account_names it2)"
      using intern_target [OF j _ _ assms(4)] it1 assms(3) out(1) by blast
    have "prefix (account_names it) (account_names it2)" using p1 p2 by (rule prefix_order.trans)
    with it1 it2 True out new sources_found_step(2,3) [OF assms(5) new, of j] show ?thesis
      by (auto simp: row_edge_def split: if_splits)
  qed
qed

text \<open>What both passes do to the names, whatever else they do.\<close>

definition interner_wf :: "interner \<Rightarrow> bool" where
  "interner_wf it \<longleftrightarrow> distinct (account_names it) \<and> account_ids it = zip (account_names it) [0..<length (account_names it)]"

lemma intern_wf:
  "intern bank account it = (Inr i, it') \<Longrightarrow> interner_wf it \<Longrightarrow> interner_wf it' \<and> prefix (account_names it) (account_names it')"
  using intern_grows [of bank account it i it'] by (auto simp: interner_wf_def)

definition appends_names :: "(interner \<times> 'b, unit) act \<Rightarrow> bool" where
  "appends_names m \<longleftrightarrow>
     (\<forall>st st'. m st = (Inr (), st') \<longrightarrow> interner_wf (fst st) \<longrightarrow> interner_wf (fst st') \<and> prefix (account_names (fst st)) (account_names (fst st')))"

lemma appends_names_passes: "appends_names (source_pass row)" "appends_names (edge_pass q row)"
  unfolding appends_names_def source_pass_def edge_pass_def
  by (auto simp: Let_def split: if_splits prod.splits sum.splits dest: intern_wf dest!: intern_wf intro: prefix_order.trans)

lemma appends_names_afor:
  assumes "\<And>x. appends_names (f x)" and "afor f xs st = (Inr (), st')" and "interner_wf (fst st)"
  shows "interner_wf (fst st') \<and> prefix (account_names (fst st)) (account_names (fst st'))"
  using assms(2,3)
proof (induction xs arbitrary: st)
  case (Cons x xs)
  from Cons.prems(1) obtain st1 where one: "f x st = (Inr (), st1)" and rest: "afor f xs st1 = (Inr (), st')"
    by (auto simp: abind_eq_Inr)
  from assms(1) one Cons.prems(2) have "interner_wf (fst st1)" "prefix (account_names (fst st)) (account_names (fst st1))"
    unfolding appends_names_def by blast+
  with Cons.IH [OF rest] show ?case using prefix_order.trans by blast
qed (simp add: areturn_def)

definition selected_edges :: "account_key list \<Rightarrow> q4_row list \<Rightarrow> (nat \<times> nat) list" where
  "selected_edges names rows = map (row_edge names) (filter q4_selected rows)"

lemma source_passes:
  assumes "afor source_pass rows (it, q, t) = (Inr (), (it', q', t'))" and "interner_wf it" and "prefix (account_names it') names"
    and "distinct names" and "sources_found es q t"
  shows "q \<subseteq> q' \<and> sources_found (es @ selected_edges names rows) q' t' \<and>
    (\<forall>row \<in> set rows. q4_selected row \<longrightarrow> id_of names (row_source row) \<notin> q' \<longrightarrow> row_target row \<in> set names)"
  using assms
proof (induction rows arbitrary: it q t es)
  case Nil
  then show ?case by (simp add: areturn_def selected_edges_def)
next
  case (Cons row rows)
  from Cons.prems(1) obtain it1 q1 t1 where one: "source_pass row (it, q, t) = (Inr (), (it1, q1, t1))" and
    rest: "afor source_pass rows (it1, q1, t1) = (Inr (), (it', q', t'))" by (auto simp: abind_eq_Inr)
  from appends_names_passes(1) one Cons.prems(2) have it1: "interner_wf it1" "prefix (account_names it) (account_names it1)"
    unfolding appends_names_def by fastforce+
  from appends_names_afor [OF appends_names_passes(1) rest] it1(1) have "prefix (account_names it1) (account_names it')" by simp
  then have p: "prefix (account_names it1) names" using Cons.prems(3) by (rule prefix_order.trans)
  with it1 Cons.prems(2) have "interned names it" by (auto simp: interned_def interner_wf_def intro: prefix_order.trans)
  from source_pass_step [OF one this p Cons.prems(4,5)] have step: "q \<subseteq> q1"
    "sources_found (es @ (if q4_selected row then [row_edge names row] else [])) q1 t1"
    "q4_selected row \<longrightarrow> id_of names (row_source row) \<notin> q1 \<longrightarrow> row_target row \<in> set (account_names it1)" by simp_all
  from Cons.IH [OF rest it1(1) Cons.prems(3,4) step(2)] step(1,3) p show ?case
    by (auto simp: selected_edges_def dest: set_mono_prefix split: if_splits)
qed

subsection \<open>The second pass\<close>

definition qualifying_edges :: "nat set \<Rightarrow> (nat \<times> nat) list \<Rightarrow> (nat \<times> nat) list" where
  "qualifying_edges q es = filter (\<lambda>e. fst e \<in> q) es"

definition counters_pos :: "('k, 'e) counters \<Rightarrow> bool" where
  "counters_pos d \<longleftrightarrow> (\<forall>k e n. (e, n) \<in> set (dget d k []) \<longrightarrow> 0 < n)"

lemma counters_pos_add:
  assumes "counters_wf d" and "counters_pos d"
  shows "counters_pos (add_count k e 1 d)"
proof -
  have wf: "dict_wf (dget d k [])" using assms(1) by (rule counters_wf_lookup)
  have val: "0 \<le> dget (dget d k []) e 0"
    using assms(2) unfolding counters_pos_def
    by (cases "map_of (dget d k []) e") (auto simp: dget_def [of "dget d k []"] dest!: map_of_SomeD intro: less_imp_le)
  have "0 < n" if "(x, n) \<in> set (dset e (dget (dget d k []) e 0 + 1) (dget d k []))" for x n
  proof (cases "x = e")
    case True
    have "dict_wf (dset e (dget (dget d k []) e 0 + 1) (dget d k []))" using wf by simp
    with that True val show ?thesis by (auto simp: dict_wf_def dest!: map_of_is_SomeI simp: update_conv')
  next
    case False
    have "dict_wf (dset e (dget (dget d k []) e 0 + 1) (dget d k []))" using wf by simp
    with that False have "map_of (dget d k []) x = Some n" by (auto simp: dict_wf_def dest!: map_of_is_SomeI simp: update_conv')
    with assms(2) show ?thesis unfolding counters_pos_def by (blast dest: map_of_SomeD)
  qed
  with assms(2) show ?thesis by (auto simp: counters_pos_def add_count_def Let_def)
qed

definition edges_counted :: "(nat \<times> nat) list \<Rightarrow> (nat, nat) counters \<Rightarrow> (nat, nat) counters \<Rightarrow> bool" where
  "edges_counted es inc out \<longleftrightarrow>
     counters_wf inc \<and> counters_wf out \<and> counters_pos inc \<and> counters_pos out \<and>
     (\<forall>m a. count_of inc m a = int (count_list es (a, m))) \<and> (\<forall>m b. count_of out m b = int (count_list es (m, b)))"

lemma edges_counted_snoc:
  "edges_counted es inc out \<Longrightarrow> edges_counted (es @ [(a, b)]) (add_count b a 1 inc) (add_count a b 1 out)"
  by (auto simp: edges_counted_def counters_pos_add)

lemma edge_pass_step:
  assumes "edge_pass q row (it, inc, out) = (Inr (), (it', inc', out'))" and "interned names it" and "prefix (account_names it') names"
    and "distinct names" and "edges_counted (qualifying_edges q es) inc out"
  shows "edges_counted (qualifying_edges q (es @ (if q4_selected row then [row_edge names row] else []))) inc' out' \<and>
    (q4_selected row \<longrightarrow> row_source row \<in> set names \<and> (id_of names (row_source row) \<in> q \<longrightarrow> row_target row \<in> set names))"
proof (cases "q4_selected row")
  case False
  with assms show ?thesis by (simp add: edge_pass_def)
next
  case True
  with assms(1) obtain i it1 where i: "intern (r4_from_bank row) (r4_from_account row) it = (Inr i, it1)"
    by (auto simp: edge_pass_def split: prod.splits sum.splits)
  have wf: "interner_wf it" using assms(2) by (simp add: interned_def interner_wf_def)
  show ?thesis
  proof (cases "i \<in> q")
    case skip: False
    with assms(1) True i have out: "it' = it1" "inc' = inc" "out' = out" by (auto simp: edge_pass_def)
    have "i = id_of names (row_source row) \<and> row_source row \<in> set names"
      using intern_source [OF i assms(2) _ assms(4)] assms(3) out by (auto dest: set_mono_prefix)
    with True skip assms(5) show ?thesis by (simp add: out row_edge_def qualifying_edges_def)
  next
    case use: True
    with assms(1) True i obtain j it2 where j: "intern (r4_to_bank row) (r4_to_account row) it1 = (Inr j, it2)"
      by (auto simp: edge_pass_def split: prod.splits sum.splits)
    with assms(1) True i use have out: "it' = it2" "inc' = add_count j i 1 inc" "out' = add_count i j 1 out"
      by (auto simp: edge_pass_def)
    have p: "prefix (account_names it1) names"
      using intern_wf [OF j] intern_wf [OF i wf] assms(3) out(1) prefix_order.trans by blast
    have i': "i = id_of names (row_source row) \<and> row_source row \<in> set names \<and> interned names it1"
      using intern_source [OF i assms(2) p assms(4)] p by (auto dest: set_mono_prefix)
    have j': "j = id_of names (row_target row) \<and> row_target row \<in> set names"
      using intern_target [OF j _ _ assms(4)] i' assms(3) out(1) by (auto dest: set_mono_prefix)
    show ?thesis
      using True use i' j' edges_counted_snoc [OF assms(5), of i j] by (simp add: out row_edge_def qualifying_edges_def)
  qed
qed

lemma edge_passes:
  assumes "afor (edge_pass q) rows (it, inc, out) = (Inr (), (it', inc', out'))" and "interner_wf it" and "prefix (account_names it') names"
    and "distinct names" and "edges_counted (qualifying_edges q es) inc out"
  shows "edges_counted (qualifying_edges q (es @ selected_edges names rows)) inc' out' \<and>
    (\<forall>row \<in> set rows. q4_selected row \<longrightarrow> row_source row \<in> set names \<and> (id_of names (row_source row) \<in> q \<longrightarrow> row_target row \<in> set names))"
  using assms
proof (induction rows arbitrary: it inc out es)
  case Nil
  then show ?case by (simp add: areturn_def selected_edges_def)
next
  case (Cons row rows)
  from Cons.prems(1) obtain it1 inc1 out1 where one: "edge_pass q row (it, inc, out) = (Inr (), (it1, inc1, out1))" and
    rest: "afor (edge_pass q) rows (it1, inc1, out1) = (Inr (), (it', inc', out'))" by (auto simp: abind_eq_Inr)
  from appends_names_passes(2) one Cons.prems(2) have it1: "interner_wf it1" "prefix (account_names it) (account_names it1)"
    unfolding appends_names_def by fastforce+
  from appends_names_afor [OF appends_names_passes(2) rest] it1(1) have "prefix (account_names it1) (account_names it')" by simp
  then have p: "prefix (account_names it1) names" using Cons.prems(3) by (rule prefix_order.trans)
  with it1 Cons.prems(2) have "interned names it" by (auto simp: interned_def interner_wf_def intro: prefix_order.trans)
  note step = edge_pass_step [OF one this p Cons.prems(4,5)]
  from Cons.IH [OF rest it1(1) Cons.prems(3,4) conjunct1 [OF step]] step show ?case
    by (auto simp: selected_edges_def split: if_splits)
qed

subsection \<open>The join\<close>

definition rows_of :: "((nat \<times> nat) \<times> int) list \<Rightarrow> nat \<times> nat \<Rightarrow> int" where
  "rows_of cs p = (\<Sum>c\<leftarrow>cs. if fst c = p then snd c else 0)"

lemma rows_of_simps [simp]:
  "rows_of [] p = 0" "rows_of (c # cs) p = (if fst c = p then snd c else 0) + rows_of cs p" "rows_of (cs @ ds) p = rows_of cs p + rows_of ds p"
  by (simp_all add: rows_of_def)

lemma rows_of_concat: "rows_of (concat css) p = (\<Sum>cs\<leftarrow>css. rows_of cs p)"
  by (induction css) simp_all

text \<open>A pair has been found when its rows are more than five; otherwise its counter holds them.\<close>

definition found :: "((nat \<times> nat) \<times> int) list \<Rightarrow> nat \<Rightarrow> nat \<Rightarrow> bool" where
  "found cs a b \<longleftrightarrow> a \<noteq> b \<and> 5 < rows_of cs (a, b)"

definition pairs_found :: "nat \<Rightarrow> ((nat \<times> nat) \<times> int) list \<Rightarrow> join_state \<Rightarrow> bool" where
  "pairs_found stride cs = (\<lambda>(pc, pairs, accs).
     (\<forall>a b. b < stride \<longrightarrow> (a * stride + b \<in> pairs \<longleftrightarrow> found cs a b)) \<and>
     (\<forall>a b. b < stride \<longrightarrow> a \<noteq> b \<longrightarrow> \<not> found cs a b \<longrightarrow> dget pc (a * stride + b) 0 = rows_of cs (a, b)) \<and>
     accs = {x. \<exists>a b. found cs a b \<and> (x = a \<or> x = b)})"

lemma stride_inject:
  assumes "b < stride" and "b' < (stride :: nat)"
  shows "a * stride + b = a' * stride + b' \<longleftrightarrow> a = a' \<and> b = b'"
proof
  assume *: "a * stride + b = a' * stride + b'"
  have "(a * stride + b) div stride = a" "(a * stride + b) mod stride = b"
    "(a' * stride + b') div stride = a'" "(a' * stride + b') mod stride = b'" using assms by simp_all
  with * show "a = a' \<and> b = b'" by metis
qed simp

lemma join_pair_step:
  assumes "pairs_found stride cs st" and "b < stride" and "0 \<le> n"
  shows "pairs_found stride (cs @ [((a, b), n)]) (join_pair stride st ((a, b), n))"
proof -
  obtain pc pairs accs where st: "st = (pc, pairs, accs)" by (cases st)
  let ?k = "a * stride + b" and ?cs = "cs @ [((a, b), n)]"
  have pairs: "a' * stride + b' \<in> pairs \<longleftrightarrow> found cs a' b'"
    and pc: "a' \<noteq> b' \<Longrightarrow> \<not> found cs a' b' \<Longrightarrow> dget pc (a' * stride + b') 0 = rows_of cs (a', b')" if "b' < stride" for a' b'
    using assms(1) that by (auto simp: pairs_found_def st)
  have accs: "accs = {x. \<exists>a b. found cs a b \<and> (x = a \<or> x = b)}" using assms(1) by (simp add: pairs_found_def st)
  have other: "rows_of ?cs (a', b') = rows_of cs (a', b')" if "(a', b') \<noteq> (a, b)" for a' b' using that by auto
  show ?thesis
  proof (cases "a = b \<or> ?k \<in> pairs")
    case True
    then have same: "found ?cs a' b' \<longleftrightarrow> found cs a' b'" for a' b'
      using pairs [OF assms(2), of a] assms(3) by (auto simp: found_def)
    have left: "rows_of ?cs (a', b') = rows_of cs (a', b')" if "a' \<noteq> b'" "\<not> found cs a' b'" for a' b'
      using that True pairs [OF assms(2), of a] by auto
    have "join_pair stride st ((a, b), n) = st" using True by (auto simp: join_pair_def st Let_def)
    with assms(1) left show ?thesis unfolding pairs_found_def st prod.case same by auto
  next
    case False
    then have new: "a \<noteq> b" "?k \<notin> pairs" "\<not> found cs a b" "dget pc ?k 0 = rows_of cs (a, b)"
      using pairs [OF assms(2), of a] pc [OF assms(2), of a] by auto
    show ?thesis
    proof (cases "5 < rows_of cs (a, b) + n")
      case True
      then have now: "found ?cs a' b' \<longleftrightarrow> found cs a' b' \<or> a' = a \<and> b' = b" for a' b' using new(1) by (auto simp: found_def)
      have run: "join_pair stride st ((a, b), n) = (dpop ?k pc, insert ?k pairs, insert b (insert a accs))"
        using new True by (simp add: join_pair_def st Let_def Q4_PAIR_MIN_PATH_ROWS_def)
      show ?thesis unfolding pairs_found_def run prod.case now
        using pairs pc accs new stride_inject [OF _ assms(2)] other by auto
    next
      case few: False
      then have now: "found ?cs a' b' \<longleftrightarrow> found cs a' b'" for a' b' using new(3) by (auto simp: found_def)
      have run: "join_pair stride st ((a, b), n) = (dset ?k (rows_of cs (a, b) + n) pc, pairs, accs)"
        using new few by (simp add: join_pair_def st Let_def Q4_PAIR_MIN_PATH_ROWS_def)
      show ?thesis unfolding pairs_found_def run prod.case now
        using pairs pc accs stride_inject [OF _ assms(2)] by auto
    qed
  qed
qed

lemma join_pairs:
  assumes "pairs_found stride cs st" and "\<forall>c \<in> set ds. 0 \<le> snd c" and "\<forall>c \<in> set ds. snd (fst c) < stride"
  shows "pairs_found stride (cs @ ds) (foldl (join_pair stride) st ds)"
  using assms
proof (induction ds arbitrary: cs st)
  case (Cons d ds)
  obtain a b n where d: "d = ((a, b), n)" by (cases d) auto
  have "pairs_found stride (cs @ [d]) (join_pair stride st d)"
    unfolding d by (rule join_pair_step) (use Cons.prems in \<open>auto simp: d\<close>)
  from Cons.IH [OF this] Cons.prems show ?case by simp
qed simp

lemma foldl_concat: "foldl (foldl f) st xss = foldl f st (concat xss)"
  by (induction xss arbitrary: st) simp_all

lemma join_rows_sum:
  assumes "counters_wf inc" and "counters_wf out"
  shows "rows_of (join_rows inc out m) (a, b) = count_of inc m a * count_of out m b"
proof -
  let ?ds = "dget out m []"
  have wf: "dict_wf ?ds" "dict_wf (dget inc m [])"
    by (rule counters_wf_lookup [OF assms(2)], rule counters_wf_lookup [OF assms(1)])
  have inner: "rows_of (map (\<lambda>(b', n'). ((a', b'), n * n')) ?ds) (a, b) = (if a' = a then n * dget ?ds b 0 else 0)" for a' n
    unfolding rows_of_def list.map_comp comp_def
    by (rule sum_over_dict [where k = b and g = "\<lambda>n'. if a' = a then n * n' else 0", OF wf(1)]) auto
  have "rows_of (join_rows inc out m) (a, b) =
      (\<Sum>x\<leftarrow>dget inc m []. rows_of (case x of (a', n) \<Rightarrow> map (\<lambda>(b', n'). ((a', b'), n * n')) ?ds) (a, b))"
    by (simp add: join_rows_def rows_of_concat comp_def)
  also have "\<dots> = dget (dget inc m []) a 0 * dget ?ds b 0"
    by (rule sum_over_dict [where k = a and g = "\<lambda>n. n * dget ?ds b 0", OF wf(2)]) (auto simp: inner)
  finally show ?thesis by (simp add: count_of_def)
qed

text \<open>All rows of the join, over the intermediates that have both sides.\<close>

lemma joined_rows_sum:
  assumes wf: "counters_wf inc" "counters_wf out" and "iterates set_iter"
    and M: "finite M" "\<And>m. count_of inc m a * count_of out m b \<noteq> 0 \<Longrightarrow> m \<in> M"
  shows "rows_of (concat (map (join_rows inc out) (set_iter (filter (\<lambda>m. map_of out m \<noteq> None) (map fst inc))))) (a, b) =
    (\<Sum>m\<in>M. count_of inc m a * count_of out m b)"
proof -
  let ?ks = "filter (\<lambda>m. map_of out m \<noteq> None) (map fst inc)"
  have "distinct ?ks" using wf(1) by (simp add: counters_wf_def dict_wf_def)
  with assms(3) have it: "distinct (set_iter ?ks)" "set (set_iter ?ks) = set ?ks" by (simp_all add: iterates_def)
  have "rows_of (concat (map (join_rows inc out) ms)) (a, b) = (\<Sum>m\<leftarrow>ms. count_of inc m a * count_of out m b)" for ms
    by (induction ms) (simp_all add: join_rows_sum [OF wf])
  then have "rows_of (concat (map (join_rows inc out) (set_iter ?ks))) (a, b) = (\<Sum>m\<in>set ?ks. count_of inc m a * count_of out m b)"
    unfolding it(2) [symmetric] by (simp only: sum_list_distinct_conv_sum_set [OF it(1)])
  also have "\<dots> = (\<Sum>m\<in>set ?ks \<union> M. count_of inc m a * count_of out m b)"
  proof (rule sum.mono_neutral_left)
    have "m \<in> set ?ks" if "count_of inc m a * count_of out m b \<noteq> 0" for m
    proof -
      from that have "map_of inc m \<noteq> None" "map_of out m \<noteq> None" by (auto simp: count_of_def dget_def split: option.splits)
      then show ?thesis by (auto simp: map_of_eq_None_iff)
    qed
    then show "\<forall>m \<in> set ?ks \<union> M - set ?ks. count_of inc m a * count_of out m b = 0" by blast
  qed (use M(1) in auto)
  also have "\<dots> = (\<Sum>m\<in>M. count_of inc m a * count_of out m b)"
    by (rule sum.mono_neutral_right) (use M in auto)
  finally show ?thesis .
qed

lemma qualifying_kept:
  assumes "q = {a. 5 < card (targets_of es a)}"
  shows "qualifying_edges q es = kept_edges es"
  by (simp add: assms qualifying_edges_def kept_edges_def)

text \<open>What is computed does not depend on the names of the accounts.\<close>

lemma count_list_inj:
  assumes "inj_on f (insert x (set xs))"
  shows "count_list (map f xs) (f x) = count_list xs x"
  using assms by (induction xs) (auto simp: inj_on_def)

definition vertices :: "('a \<times> 'a) list \<Rightarrow> 'a set" where
  "vertices es = fst ` set es \<union> snd ` set es"

lemma vertices_edge: "(a, b) \<in> set es \<Longrightarrow> a \<in> vertices es \<and> b \<in> vertices es"
  by (force simp: vertices_def)

lemma targets_of_map:
  assumes "inj_on f (vertices es)" and "a \<in> vertices es"
  shows "targets_of (map (map_prod f f) es) (f a) = f ` targets_of es a"
proof (rule set_eqI)
  fix t
  have "t \<in> targets_of (map (map_prod f f) es) (f a) \<longleftrightarrow> (\<exists>x y. (x, y) \<in> set es \<and> f x = f a \<and> f y = t)"
    by (force simp: targets_of_def)
  also have "\<dots> \<longleftrightarrow> (\<exists>y. (a, y) \<in> set es \<and> f y = t)"
    using assms vertices_edge inj_onD by metis
  also have "\<dots> \<longleftrightarrow> t \<in> f ` targets_of es a" by (auto simp: targets_of_def)
  finally show "t \<in> targets_of (map (map_prod f f) es) (f a) \<longleftrightarrow> t \<in> f ` targets_of es a" .
qed

lemma kept_edges_map:
  assumes inj: "inj_on f (vertices es)"
  shows "kept_edges (map (map_prod f f) es) = map (map_prod f f) (kept_edges es)"
proof -
  have "5 < card (targets_of (map (map_prod f f) es) (f (fst e))) \<longleftrightarrow> 5 < card (targets_of es (fst e))" if "e \<in> set es" for e
  proof -
    have "fst e \<in> vertices es" using that by (simp add: vertices_def)
    from targets_of_map [OF inj this] have "targets_of (map (map_prod f f) es) (f (fst e)) = f ` targets_of es (fst e)" .
    moreover have "inj_on f (targets_of es (fst e))"
      using inj by (rule inj_on_subset) (auto simp: targets_of_def dest: vertices_edge)
    ultimately show ?thesis by (simp add: card_image)
  qed
  then have "filter (\<lambda>e. 5 < card (targets_of (map (map_prod f f) es) (f (fst e)))) es = filter (\<lambda>e. 5 < card (targets_of es (fst e))) es"
    by (intro filter_cong) simp_all
  then show ?thesis by (simp add: kept_edges_def filter_map comp_def)
qed

lemma path_rows_map:
  assumes inj: "inj_on f (vertices es)" and V: "a \<in> vertices es" "b \<in> vertices es"
  shows "path_rows (map (map_prod f f) es) (f a) (f b) = path_rows es a b"
proof -
  have inj2: "inj_on (map_prod f f) (vertices es \<times> vertices es)" using inj by (rule map_prod_inj_on [OF _ inj])
  have count: "count_list (map (map_prod f f) (kept_edges es)) (f x, f y) = count_list (kept_edges es) (x, y)"
    if "x \<in> vertices es" "y \<in> vertices es" for x y
  proof -
    have "set (kept_edges es) \<subseteq> vertices es \<times> vertices es" by (auto simp: kept_edges_def dest: vertices_edge)
    with that have "inj_on (map_prod f f) (insert (x, y) (set (kept_edges es)))" by (intro inj_on_subset [OF inj2]) auto
    from count_list_inj [OF this] show ?thesis by simp
  qed
  have "fst ` set (map (map_prod f f) es) = f ` fst ` set es" by (simp add: image_image)
  moreover have "inj_on f (fst ` set es)" using inj by (rule inj_on_subset) (auto simp: vertices_def)
  ultimately show ?thesis
    unfolding path_rows_def kept_edges_map [OF inj]
    by (simp add: sum.reindex) (rule sum.cong, simp_all add: count [OF V(1)] count [OF _ V(2)] vertices_def)
qed

lemma path_rows_vertices:
  assumes "5 < path_rows es a b"
  shows "a \<in> vertices es" and "b \<in> vertices es"
proof -
  have "\<exists>m \<in> fst ` set es. int (count_list (kept_edges es) (a, m)) * int (count_list (kept_edges es) (m, b)) \<noteq> 0"
  proof (rule ccontr)
    assume "\<not> ?thesis"
    then have "path_rows es a b = 0" unfolding path_rows_def by (intro sum.neutral) blast
    with assms show False by simp
  qed
  then obtain m where "(a, m) \<in> set (kept_edges es)" "(m, b) \<in> set (kept_edges es)" by (auto simp: count_list_0_iff)
  then show "a \<in> vertices es" "b \<in> vertices es" by (auto simp: kept_edges_def dest: vertices_edge)
qed

lemma scatter_gather_map:
  assumes inj: "inj_on f (vertices es)"
  shows "scatter_gather (map (map_prod f f) es) = f ` scatter_gather es"
proof -
  let ?es = "map (map_prod f f) es"
  have up: "f a \<noteq> f b \<and> 5 < path_rows ?es (f a) (f b)" if "a \<noteq> b" "5 < path_rows es a b" for a b
  proof -
    note V = path_rows_vertices [OF that(2)]
    from inj_onD [OF inj _ V] that(1) have "f a \<noteq> f b" by blast
    with that(2) path_rows_map [OF inj V] show ?thesis by simp
  qed
  have down: "\<exists>a b. x = f a \<and> y = f b \<and> a \<noteq> b \<and> 5 < path_rows es a b" if xy: "x \<noteq> y" "5 < path_rows ?es x y" for x y
  proof -
    have "vertices ?es = f ` vertices es" by (simp add: vertices_def image_Un image_image)
    with path_rows_vertices [OF xy(2)] obtain a b where ab: "x = f a" "y = f b" "a \<in> vertices es" "b \<in> vertices es" by auto
    with xy path_rows_map [OF inj ab(3,4)] show ?thesis by (intro exI [of _ a] exI [of _ b]) auto
  qed
  show ?thesis
  proof (rule set_eqI, rule iffI)
    fix z
    assume "z \<in> scatter_gather ?es"
    then obtain x y where "x \<noteq> y" "5 < path_rows ?es x y" "z = x \<or> z = y" by (auto simp: scatter_gather_def)
    with down [of x y] show "z \<in> f ` scatter_gather es" by (auto simp: scatter_gather_def)
  next
    fix z
    assume "z \<in> f ` scatter_gather es"
    then obtain w a b where "z = f w" "a \<noteq> b" "5 < path_rows es a b" "w = a \<or> w = b" by (auto simp: scatter_gather_def)
    with up [of a b] show "z \<in> scatter_gather ?es" unfolding scatter_gather_def by blast
  qed
qed

subsection \<open>What the reference computes\<close>

definition reference_edges :: "q4_row list \<Rightarrow> (account_key \<times> account_key) list" where
  "reference_edges rows = map (\<lambda>row. (row_source row, row_target row)) (filter q4_selected rows)"

lemma compute_q4_phases:
  assumes "compute_q4 set_iter rows = Inr accounts"
  obtains it1 q t it2 inc out pc pairs accs where
    "afor source_pass rows (\<lparr>account_ids = [], account_names = []\<rparr>, {}, []) = (Inr (), (it1, q, t))"
    "afor (edge_pass q) rows (it1, [], []) = (Inr (), (it2, inc, out))"
    "foldl (join_pair (length (account_names it2) + 1)) ([], {}, {}) (concat (map (join_rows inc out)
       (set_iter (filter (\<lambda>m. map_of out m \<noteq> None) (map fst inc))))) = (pc, pairs, accs)"
    "accounts = map (\<lambda>i. account_names it2 ! i) (sorted_list_of_set accs)"
proof -
  obtain r it1 q t where one: "afor source_pass rows (\<lparr>account_ids = [], account_names = []\<rparr>, {}, []) = (r, (it1, q, t))"
    by (rule prod_cases4)
  with assms have r: "r = Inr ()" by (cases r) (auto simp: compute_q4_def)
  obtain r' it2 inc out where two: "afor (edge_pass q) rows (it1, [], []) = (r', (it2, inc, out))" by (rule prod_cases4)
  with assms one r have r': "r' = Inr ()" by (cases r') (auto simp: compute_q4_def)
  obtain pc pairs accs where three: "foldl (join_pair (length (account_names it2) + 1)) ([], {}, {}) (concat (map (join_rows inc out)
       (set_iter (filter (\<lambda>m. map_of out m \<noteq> None) (map fst inc))))) = (pc, pairs, accs)" by (rule prod_cases3)
  with assms one two r r' have "accounts = map (\<lambda>i. account_names it2 ! i) (sorted_list_of_set accs)"
    by (simp add: compute_q4_def foldl_concat)
  with that one two three r r' show ?thesis by blast
qed

lemma compute_q4_ids:
  assumes "compute_q4 set_iter rows = Inr accounts" and "iterates set_iter"
  obtains names accs where "distinct names" "vertices (reference_edges rows) \<subseteq> set names" "accs = scatter_gather (selected_edges names rows)"
    "accounts = map (\<lambda>i. names ! i) (sorted_list_of_set accs)"
proof -
  obtain it1 q t it2 inc out pc pairs accs where
    one: "afor source_pass rows (\<lparr>account_ids = [], account_names = []\<rparr>, {}, []) = (Inr (), (it1, q, t))" and
    two: "afor (edge_pass q) rows (it1, [], []) = (Inr (), (it2, inc, out))" and
    three: "foldl (join_pair (length (account_names it2) + 1)) ([], {}, {}) (concat (map (join_rows inc out)
       (set_iter (filter (\<lambda>m. map_of out m \<noteq> None) (map fst inc))))) = (pc, pairs, accs)" and
    accounts: "accounts = map (\<lambda>i. account_names it2 ! i) (sorted_list_of_set accs)"
    by (rule compute_q4_phases [OF assms(1)])
  let ?names = "account_names it2" and ?stride = "length (account_names it2) + 1"
  let ?es = "selected_edges ?names rows"
  from appends_names_afor [OF appends_names_passes(1) one] have it1: "interner_wf it1" by (simp add: interner_wf_def)
  from appends_names_afor [OF appends_names_passes(2) two] it1 have it2: "interner_wf it2" "prefix (account_names it1) ?names" by simp_all
  have names: "distinct ?names" using it2(1) by (simp add: interner_wf_def)
  have "sources_found [] {} []" by (simp add: sources_found_def targets_of_def)
  from source_passes [OF one _ it2(2) names this] have q: "sources_found ?es q t" and
    targets: "\<And>row. row \<in> set rows \<Longrightarrow> q4_selected row \<Longrightarrow> id_of ?names (row_source row) \<notin> q \<Longrightarrow> row_target row \<in> set ?names"
    by (simp_all add: interner_wf_def)
  have "edges_counted (qualifying_edges q []) [] []" by (simp add: edges_counted_def qualifying_edges_def counters_pos_def)
  from edge_passes [OF two it1 _ names this] have counted: "edges_counted (qualifying_edges q ?es) inc out" and
    seen: "\<And>row. row \<in> set rows \<Longrightarrow> q4_selected row \<Longrightarrow>
      row_source row \<in> set ?names \<and> (id_of ?names (row_source row) \<in> q \<longrightarrow> row_target row \<in> set ?names)"
    by simp_all
  have kept: "qualifying_edges q ?es = kept_edges ?es" using q qualifying_kept by (simp add: sources_found_def)
  have V: "vertices (reference_edges rows) \<subseteq> set ?names"
    using seen targets by (force simp: vertices_def reference_edges_def)
  let ?rows = "concat (map (join_rows inc out) (set_iter (filter (\<lambda>m. map_of out m \<noteq> None) (map fst inc))))"
  have wf: "counters_wf inc" "counters_wf out" and inc: "\<And>m a. count_of inc m a = int (count_list (kept_edges ?es) (a, m))" and
    out: "\<And>m b. count_of out m b = int (count_list (kept_edges ?es) (m, b))"
    using counted by (simp_all add: edges_counted_def kept)
  have pos: "counters_pos inc" "counters_pos out" using counted by (simp_all add: edges_counted_def)
  have rows: "rows_of ?rows (a, b) = path_rows ?es a b" for a b
    unfolding path_rows_def
  proof (subst joined_rows_sum [OF wf assms(2)])
    show "m \<in> fst ` set ?es" if "count_of inc m a * count_of out m b \<noteq> 0" for m
      using that by (force simp: inc out count_list_0_iff kept_edges_def)
  qed (simp_all add: inc out)
  have "pairs_found ?stride ([] @ ?rows) (foldl (join_pair ?stride) ([], {}, {}) ?rows)"
  proof (rule join_pairs)
    show "pairs_found ?stride [] ([], {}, {})" by (simp add: pairs_found_def found_def)
    show "\<forall>c \<in> set ?rows. 0 \<le> snd c" using pos by (auto simp: join_rows_def counters_pos_def intro!: mult_nonneg_nonneg less_imp_le)
    have "b < ?stride" if "(b, n) \<in> set (dget out m [])" for m b n
    proof -
      have "map_of (dget out m []) b = Some n" using that counters_wf_lookup [OF wf(2)] by (auto simp: dict_wf_def)
      with pos(2) that have "0 < count_of out m b" by (auto simp: counters_pos_def count_of_def dget_def [of "dget out m []"])
      then have "count_list (kept_edges ?es) (m, b) \<noteq> 0" by (simp add: out)
      then have "(m, b) \<in> set ?es" by (simp add: count_list_0_iff kept_edges_def)
      then obtain row where "row \<in> set rows" "q4_selected row" "b = id_of ?names (row_target row)"
        by (auto simp: selected_edges_def row_edge_def)
      with V nth_id_of [OF names, of "row_target row"] show ?thesis by (force simp: vertices_def reference_edges_def)
    qed
    then show "\<forall>c \<in> set ?rows. snd (fst c) < ?stride" by (auto simp: join_rows_def)
  qed
  then have "accs = {x. \<exists>a b. found ?rows a b \<and> (x = a \<or> x = b)}" unfolding three by (simp add: pairs_found_def)
  then have "accs = scatter_gather ?es" unfolding found_def rows scatter_gather_def conj_assoc .
  with that names V accounts show ?thesis by blast
qed

lemma compute_q4_result:
  assumes "compute_q4 set_iter rows = Inr accounts" and "iterates set_iter"
  shows "distinct accounts \<and> set accounts = scatter_gather (reference_edges rows)"
proof -
  from compute_q4_ids [OF assms] obtain names accs where names: "distinct names" "vertices (reference_edges rows) \<subseteq> set names" and
    accs: "accs = scatter_gather (selected_edges names rows)" and accounts: "accounts = map (\<lambda>i. names ! i) (sorted_list_of_set accs)" .
  have inj: "inj_on (id_of names) (vertices (reference_edges rows))" using id_of_inj [OF names(1)] names(2) by (rule inj_on_subset)
  have edges: "selected_edges names rows = map (map_prod (id_of names) (id_of names)) (reference_edges rows)"
    by (simp add: selected_edges_def reference_edges_def row_edge_def)
  have "scatter_gather (reference_edges rows) \<subseteq> vertices (reference_edges rows)"
    using path_rows_vertices by (fastforce simp: scatter_gather_def)
  then have S: "scatter_gather (reference_edges rows) \<subseteq> set names" "finite (scatter_gather (reference_edges rows))"
    using names(2) finite_subset [of _ "set names"] by auto
  have accs': "accs = id_of names ` scatter_gather (reference_edges rows)" unfolding accs edges by (rule scatter_gather_map [OF inj])
  with S(2) have "set accounts = (\<lambda>i. names ! i) ` id_of names ` scatter_gather (reference_edges rows)" by (simp add: accounts)
  also have "\<dots> = scatter_gather (reference_edges rows)"
    unfolding image_image using nth_id_of [OF names(1)] S(1) by force
  finally have "set accounts = scatter_gather (reference_edges rows)" .
  moreover have "inj_on (\<lambda>i. names ! i) accs"
    unfolding accs' using nth_id_of [OF names(1)] S(1) by (auto simp: inj_on_def subset_iff)
  then have "distinct accounts" using S(2) by (simp add: accounts distinct_map accs')
  ultimately show ?thesis by simp
qed

end
