(* ===== verification/Q4EndToEnd.thy ===== *)
theory Q4EndToEnd
  imports Q4Pipeline Q4Filter Q4Reference
begin

text \<open>
  Query 4 from the transactions at the filters to the accounts at the dedupers, composed of the stages
  \<open>q4_filter\<close>, \<open>q4_sum\<close>, \<open>q4_joiner\<close>, \<open>q4_aggregator\<close> and \<open>q4_deduper\<close>, each with its own number of
  shards; and its equivalence with \<open>compute_q4\<close>. Between two stages every record that a shard sends to another arrives once, in any
  order and in any batches.
\<close>

subsection \<open>Batches at the sums and at the joiners\<close>

lemma afor_append_Inr:
  "afor f (xs @ ys) s = (Inr (), s') \<longleftrightarrow> (\<exists>s1. afor f xs s = (Inr (), s1) \<and> afor f ys s1 = (Inr (), s'))"
  by (induction xs arbitrary: s) (auto simp: areturn_def abind_eq_Inr)

definition q4s_take :: "int \<Rightarrow> bytes list \<Rightarrow> (q4_sum_state, unit) act" where
  "q4s_take c = afor (\<lambda>b. q4s_apply_change (q4s_data_change c b))"

lemma q4s_take_files:
  assumes "q4s_take c bs s = (Inr (), s')" and "rmap deserialize_counted_edges bs = Inr ess" and "c \<notin> q4s_closed s"
  shows "afor file_counted_edge (concat ess) (q4s_incoming_for c s, q4s_outgoing_for c s) =
    (Inr (), (q4s_incoming_for c s', q4s_outgoing_for c s'))"
  using assms
proof (induction bs arbitrary: s ess)
  case (Cons b bs)
  from Cons.prems(1) obtain s1 where one: "q4s_apply_change (q4s_data_change c b) s = (Inr (), s1)" and
    rest: "q4s_take c bs s1 = (Inr (), s')" by (auto simp: q4s_take_def abind_eq_Inr)
  from Cons.prems(2) obtain es ess' where es: "deserialize_counted_edges b = Inr es" and
    ess': "rmap deserialize_counted_edges bs = Inr ess'" "ess = es # ess'" by auto
  obtain r inc out where run: "afor file_counted_edge es (q4s_incoming_for c s, q4s_outgoing_for c s) = (r, inc, out)"
    by (rule prod_cases3)
  have "afor file_counted_edge es (q4s_incoming_for c s, q4s_outgoing_for c s) = (Inr (), (q4s_incoming_for c s1, q4s_outgoing_for c s1))
      \<and> c \<notin> q4s_closed s1"
    using one Cons.prems(3) es run
    by (cases r) (auto simp: q4s_apply_change_def q4s_data_change_def fi_dispatch_simps q4s_changes_def q4s_apply_data_def fi_payload
        q4s_incoming_for_def q4s_outgoing_for_def Let_def)
  with Cons.IH [OF rest ess'(1)] show ?case by (auto simp: ess'(2) afor_append_Inr)
qed (simp add: q4s_take_def areturn_def)

definition q4j_take :: "int \<Rightarrow> bytes list \<Rightarrow> (q4_joiner_state, unit) act" where
  "q4j_take c = afor (\<lambda>b. q4j_apply_change (q4j_data_change c b))"

lemma q4j_take_files:
  assumes "q4j_take c bs s = (Inr (), s')" and "rmap deserialize_block_edges bs = Inr ess" and "c \<notin> q4j_closed s"
  shows "afor file_block_edge (concat ess) (q4j_incoming_for c s, q4j_outgoing_for c s) =
    (Inr (), (q4j_incoming_for c s', q4j_outgoing_for c s'))"
  using assms
proof (induction bs arbitrary: s ess)
  case (Cons b bs)
  from Cons.prems(1) obtain s1 where one: "q4j_apply_change (q4j_data_change c b) s = (Inr (), s1)" and
    rest: "q4j_take c bs s1 = (Inr (), s')" by (auto simp: q4j_take_def abind_eq_Inr)
  from Cons.prems(2) obtain es ess' where es: "deserialize_block_edges b = Inr es" and
    ess': "rmap deserialize_block_edges bs = Inr ess'" "ess = es # ess'" by auto
  obtain r inc out where run: "afor file_block_edge es (q4j_incoming_for c s, q4j_outgoing_for c s) = (r, inc, out)"
    by (rule prod_cases3)
  have "afor file_block_edge es (q4j_incoming_for c s, q4j_outgoing_for c s) = (Inr (), (q4j_incoming_for c s1, q4j_outgoing_for c s1))
      \<and> c \<notin> q4j_closed s1"
    using one Cons.prems(3) es run
    by (cases r) (auto simp: q4j_apply_change_def q4j_data_change_def fi_dispatch_simps q4j_changes_def q4j_apply_data_def fi_payload
        q4j_incoming_for_def q4j_outgoing_for_def Let_def)
  with Cons.IH [OF rest ess'(1)] show ?case by (auto simp: ess'(2) afor_append_Inr)
qed (simp add: q4j_take_def areturn_def)

subsection \<open>What a filter sends, counted\<close>

abbreviation counted_sum :: "q4_counted_edge list \<Rightarrow> int \<Rightarrow> q4_account_id \<Rightarrow> q4_account_id \<Rightarrow> int" where
  "counted_sum \<equiv> edge_sum q4c_role q4c_intermediate q4c_endpoint q4c_count"

definition edge_pair :: "q4_transaction_edge \<Rightarrow> q4_account_id \<times> q4_account_id" where
  "edge_pair e = (q4e_source e, q4e_target e)"

lemma edge_sum_filter:
  assumes "\<And>x. x \<in> set xs \<Longrightarrow> role x = r \<Longrightarrow> key x = k \<Longrightarrow> endpoint x = e \<Longrightarrow> P x"
  shows "edge_sum role key endpoint n (filter P xs) r k e = edge_sum role key endpoint n xs r k e"
  using assms by (induction xs) auto

lemma edge_sum_none:
  assumes "\<And>x. x \<in> set xs \<Longrightarrow> role x = r \<Longrightarrow> key x = k \<Longrightarrow> endpoint x = e \<Longrightarrow> False"
  shows "edge_sum role key endpoint n xs r k e = 0"
  using assms by (induction xs) auto

lemma counted_for_sums:
  "counted_sum (concat (map counted_for es)) Q4_EDGE_INCOMING m a = int (count_list (map edge_pair es) (a, m))"
  "counted_sum (concat (map counted_for es)) Q4_EDGE_OUTGOING m b = int (count_list (map edge_pair es) (m, b))"
  by (induction es) (auto simp: counted_for_def edge_pair_def)

lemma count_edges_from: "count_list (map edge_pair (edges_from a es)) (a, m) = count_list (map edge_pair es) (a, m)"
  by (induction es) (auto simp: edges_from_def edge_pair_def)

lemma gated_sums:
  assumes "gated es st sent"
  shows "counted_sum sent Q4_EDGE_INCOMING m a =
      (if gate_open (edges_from a es) then int (count_list (map edge_pair es) (a, m)) else 0)"
    and "counted_sum sent Q4_EDGE_OUTGOING m b =
      (if gate_open (edges_from m es) then int (count_list (map edge_pair es) (m, b)) else 0)"
proof -
  have own: "filter (\<lambda>x. edge_owner x = src) sent = gate_sent (edges_from src es)" for src using assms by (simp add: gated_def)
  have "counted_sum sent Q4_EDGE_INCOMING m a = counted_sum (filter (\<lambda>x. edge_owner x = a) sent) Q4_EDGE_INCOMING m a"
    by (rule edge_sum_filter [symmetric]) (simp add: edge_owner_def)
  then show "counted_sum sent Q4_EDGE_INCOMING m a =
      (if gate_open (edges_from a es) then int (count_list (map edge_pair es) (a, m)) else 0)"
    unfolding own gate_sent_def by (simp add: counted_for_sums count_edges_from)
  have "counted_sum sent Q4_EDGE_OUTGOING m b = counted_sum (filter (\<lambda>x. edge_owner x = m) sent) Q4_EDGE_OUTGOING m b"
    by (rule edge_sum_filter [symmetric]) (simp add: edge_owner_def)
  then show "counted_sum sent Q4_EDGE_OUTGOING m b =
      (if gate_open (edges_from m es) then int (count_list (map edge_pair es) (m, b)) else 0)"
    unfolding own gate_sent_def by (simp add: counted_for_sums count_edges_from)
qed

text \<open>All filters together: every source is at one of them, so that the gates open as for all transfers together.\<close>

definition all_edges :: "nat \<Rightarrow> (nat \<Rightarrow> q4_transaction_edge list) \<Rightarrow> (q4_account_id \<times> q4_account_id) list" where
  "all_edges F transfers = concat (map (\<lambda>f. map edge_pair (transfers f)) [0..<F])"

definition sources_apart :: "nat \<Rightarrow> (nat \<Rightarrow> q4_transaction_edge list) \<Rightarrow> bool" where
  "sources_apart F transfers \<longleftrightarrow>
     (\<forall>f < F. \<forall>g < F. \<forall>src. edges_from src (transfers f) \<noteq> [] \<and> edges_from src (transfers g) \<noteq> [] \<longrightarrow> f = g)"

lemma count_list_concat: "count_list (concat xss) x = (\<Sum>xs\<leftarrow>xss. count_list xs x)"
  by (induction xss) simp_all

lemma gate_open_all:
  assumes "sources_apart F transfers" and "f < F" and "edges_from a (transfers f) \<noteq> []"
  shows "gate_open (edges_from a (transfers f)) \<longleftrightarrow> 5 < card (targets_of (all_edges F transfers) a)"
proof -
  have "targets_of (all_edges F transfers) a = q4e_target ` set (edges_from a (transfers f))"
  proof (rule set_eqI)
    fix t
    have "t \<in> targets_of (all_edges F transfers) a \<longleftrightarrow> (\<exists>g<F. \<exists>e \<in> set (transfers g). q4e_source e = a \<and> q4e_target e = t)"
      by (fastforce simp: targets_of_def all_edges_def edge_pair_def)
    also have "\<dots> \<longleftrightarrow> (\<exists>e \<in> set (transfers f). q4e_source e = a \<and> q4e_target e = t)"
    proof
      assume "\<exists>g<F. \<exists>e \<in> set (transfers g). q4e_source e = a \<and> q4e_target e = t"
      then obtain g e where g: "g < F" "e \<in> set (transfers g)" "q4e_source e = a" "q4e_target e = t" by blast
      then have "edges_from a (transfers g) \<noteq> []" by (auto simp: edges_from_def filter_empty_conv)
      with assms g(1) have "g = f" unfolding sources_apart_def by blast
      with g show "\<exists>e \<in> set (transfers f). q4e_source e = a \<and> q4e_target e = t" by blast
    qed (use assms(2) in blast)
    also have "\<dots> \<longleftrightarrow> t \<in> q4e_target ` set (edges_from a (transfers f))" by (auto simp: edges_from_def)
    finally show "t \<in> targets_of (all_edges F transfers) a \<longleftrightarrow> t \<in> q4e_target ` set (edges_from a (transfers f))" .
  qed
  then show ?thesis by (auto simp: gate_open_def QUALIFY_TARGETS_def)
qed

lemma count_kept:
  "count_list (kept_edges es) (a, m) = (if 5 < card (targets_of es a) then count_list es (a, m) else 0)"
proof -
  have "count_list (filter P es) x = (if P x then count_list es x else 0)" for P :: "'a \<times> 'a \<Rightarrow> bool" and x es
    by (induction es) auto
  then show ?thesis by (simp add: kept_edges_def)
qed

lemma filters_sum:
  assumes apart: "sources_apart F transfers" and gated: "\<forall>f < F. \<exists>st. gated (transfers f) st (sent f)"
  shows "(\<Sum>f<F. counted_sum (sent f) Q4_EDGE_INCOMING m a) = int (count_list (kept_edges (all_edges F transfers)) (a, m))"
    and "(\<Sum>f<F. counted_sum (sent f) Q4_EDGE_OUTGOING m b) = int (count_list (kept_edges (all_edges F transfers)) (m, b))"
proof -
  have one: "(if gate_open (edges_from a (transfers f)) then int (count_list (map edge_pair (transfers f)) (a, m)) else 0) =
      (if 5 < card (targets_of (all_edges F transfers) a) then int (count_list (map edge_pair (transfers f)) (a, m)) else 0)" if "f < F" for f a m
  proof (cases "edges_from a (transfers f) = []")
    case True
    then have "count_list (map edge_pair (transfers f)) (a, m) = 0" using count_edges_from [of a "transfers f" m] by simp
    then show ?thesis by simp
  qed (simp add: gate_open_all [OF apart that])
  have total: "(\<Sum>f<F. if gate_open (edges_from a (transfers f)) then int (count_list (map edge_pair (transfers f)) (a, m)) else 0) =
      int (count_list (kept_edges (all_edges F transfers)) (a, m))" for a m
  proof -
    have "(\<Sum>f<F. int (count_list (map edge_pair (transfers f)) (a, m))) = int (count_list (all_edges F transfers) (a, m))"
      by (simp add: all_edges_def count_list_concat comp_def interv_sum_list_conv_sum_set_nat atLeast0LessThan)
    then show ?thesis using one by (simp add: count_kept)
  qed
  show "(\<Sum>f<F. counted_sum (sent f) Q4_EDGE_INCOMING m a) = int (count_list (kept_edges (all_edges F transfers)) (a, m))"
    unfolding total [symmetric] by (rule sum.cong) (use gated gated_sums in blast)+
  show "(\<Sum>f<F. counted_sum (sent f) Q4_EDGE_OUTGOING m b) = int (count_list (kept_edges (all_edges F transfers)) (m, b))"
    unfolding total [symmetric] by (rule sum.cong) (use gated gated_sums in blast)+
qed

subsection \<open>The stages\<close>

definition filters_fed ::
  "int \<Rightarrow> nat \<Rightarrow> nat \<Rightarrow> (nat \<Rightarrow> (int \<times> q4_counted_edge list) list list) \<Rightarrow> (nat \<Rightarrow> q4_transaction_edge list) \<Rightarrow> bool" where
  "filters_fed c n F ds transfers \<longleftrightarrow>
     (\<forall>f < F. \<exists>bs ec s txss. q4f_feed c bs (new_q4_filter_state ec (int n)) = (Inr (ds f), s) \<and>
        rmap deserialize_transactions bs = Inr txss \<and> rmap edge_from_tx (concat txss) = Inr (transfers f)) \<and>
     sources_apart F transfers"

definition sums_fed ::
  "int \<Rightarrow> nat \<Rightarrow> nat \<Rightarrow> (nat \<Rightarrow> (int \<times> q4_counted_edge list) list list) \<Rightarrow> (nat \<Rightarrow> edge_counts) \<Rightarrow> (nat \<Rightarrow> edge_counts) \<Rightarrow> bool" where
  "sums_fed c n F ds inc out \<longleftrightarrow>
     (\<forall>i < n. \<exists>bs ess s. rmap deserialize_counted_edges bs = Inr ess \<and>
        mset (concat ess) = mset (concat (map (\<lambda>f. concat (map (\<lambda>d. dget d (int i) []) (ds f))) [0..<F])) \<and>
        q4s_take c bs (new_q4_sum_state (int F)) = (Inr (), s) \<and> inc i = q4s_incoming_for c s \<and> out i = q4s_outgoing_for c s)"

definition joiners_fed ::
  "int \<Rightarrow> nat \<Rightarrow> (nat \<Rightarrow> q4_account_id list \<Rightarrow> q4_account_id list) \<Rightarrow> int \<Rightarrow> (nat \<Rightarrow> edge_counts) \<Rightarrow> (nat \<Rightarrow> edge_counts) \<Rightarrow>
   (int \<Rightarrow> block_counts \<times> block_counts) \<Rightarrow> bool" where
  "joiners_fed c n it J inc out d \<longleftrightarrow>
     (\<forall>i < n. iterates (it i)) \<and>
     (\<exists>es. (\<forall>i < n. plan_blocks (it i) J (inc i) (out i) = Inr (es i)) \<and>
        (\<forall>part. 0 \<le> part \<and> part < J \<longrightarrow> (\<exists>bs ess s. rmap deserialize_block_edges bs = Inr ess \<and>
           mset (concat ess) = mset (sent_to part (concat (map es [0..<n]))) \<and>
           q4j_take c bs (new_q4_joiner_state (int n)) = (Inr (), s) \<and> d part = (q4j_incoming_for c s, q4j_outgoing_for c s))))"

definition home :: "nat \<Rightarrow> q4_account_id \<Rightarrow> int res" where
  "home n m = partition_for_parts [q4_bank_id m, q4_account m] (int n)"

lemma partition_home: "partition_of (int n) x = home n (q4c_intermediate x)"
  by (simp add: partition_of_def home_def)

lemma filters_sent:
  assumes "filters_fed c n F ds transfers"
  obtains sent where "\<forall>f < F. \<exists>st. gated (transfers f) st (sent f)"
    "\<forall>f < F. \<forall>part. concat (map (\<lambda>d. dget d part []) (ds f)) = filter (\<lambda>x. home n (q4c_intermediate x) = Inr part) (sent f)"
    "\<forall>f < F. \<forall>x \<in> set (sent f). \<exists>part. home n (q4c_intermediate x) = Inr part"
proof -
  have "\<exists>sent. (\<exists>st. gated (transfers f) st sent) \<and>
      (\<forall>part. concat (map (\<lambda>d. dget d part []) (ds f)) = filter (\<lambda>x. home n (q4c_intermediate x) = Inr part) sent) \<and>
      (\<forall>x \<in> set sent. \<exists>part. home n (q4c_intermediate x) = Inr part)" if "f < F" for f
  proof -
    from assms that obtain bs ec s txss where feed: "q4f_feed c bs (new_q4_filter_state ec (int n)) = (Inr (ds f), s)"
      "rmap deserialize_transactions bs = Inr txss" "rmap edge_from_tx (concat txss) = Inr (transfers f)"
      unfolding filters_fed_def by blast
    let ?s = "new_q4_filter_state ec (int n)"
    have start: "c \<notin> q4f_closed ?s" "gated [] (q4f_state_of c ?s) []" "q4f_sum_amount ?s = int n"
      using gated_Nil by (simp_all add: new_q4_filter_state_def source_states_for_def state_in_def [abs_def])
    from q4f_feed_run [OF feed(1) start(1,2), unfolded start(3)] feed(2,3) show ?thesis by (auto simp: partition_home)
  qed
  then show ?thesis using that by metis
qed

lemma sums_counts:
  assumes filters: "filters_fed c n F ds transfers" and sums: "sums_fed c n F ds inc out" and i: "i < n"
  defines "kept \<equiv> kept_edges (all_edges F transfers)"
  shows "counters_wf (inc i)" and "counters_wf (out i)"
    and "count_of (inc i) m a = (if home n m = Inr (int i) then int (count_list kept (a, m)) else 0)"
    and "count_of (out i) m b = (if home n m = Inr (int i) then int (count_list kept (m, b)) else 0)"
proof -
  from filters_sent [OF filters] obtain sent where gated: "\<forall>f < F. \<exists>st. gated (transfers f) st (sent f)" and
    ds: "\<forall>f < F. \<forall>part. concat (map (\<lambda>d. dget d part []) (ds f)) = filter (\<lambda>x. home n (q4c_intermediate x) = Inr part) (sent f)" .
  have apart: "sources_apart F transfers" using filters by (simp add: filters_fed_def)
  from sums i obtain bs ess s where fed: "rmap deserialize_counted_edges bs = Inr ess"
    "mset (concat ess) = mset (concat (map (\<lambda>f. concat (map (\<lambda>d. dget d (int i) []) (ds f))) [0..<F]))"
    "q4s_take c bs (new_q4_sum_state (int F)) = (Inr (), s)" and s: "inc i = q4s_incoming_for c s" "out i = q4s_outgoing_for c s"
    unfolding sums_fed_def by blast
  have "afor file_counted_edge (concat ess) ([], []) = (Inr (), (inc i, out i))"
    using q4s_take_files [OF fed(3,1)] by (simp add: s new_q4_sum_state_def q4s_incoming_for_def q4s_outgoing_for_def)
  note run = this [unfolded file_counted_edge_def [abs_def]]
  show "counters_wf (inc i)" "counters_wf (out i)"
    using file_edges_wf [of "([], [])" q4c_role q4c_intermediate q4c_endpoint q4c_count "concat ess"] by (simp_all add: run)
  have arrived: "counted_sum (concat ess) r m e = (if home n m = Inr (int i) then (\<Sum>f<F. counted_sum (sent f) r m e) else 0)" for r m e
  proof -
    have "counted_sum (concat ess) r m e =
        counted_sum (concat (map (\<lambda>f. filter (\<lambda>x. home n (q4c_intermediate x) = Inr (int i)) (sent f)) [0..<F])) r m e"
    proof -
      have "map (\<lambda>f. concat (map (\<lambda>d. dget d (int i) []) (ds f))) [0..<F] =
          map (\<lambda>f. filter (\<lambda>x. home n (q4c_intermediate x) = Inr (int i)) (sent f)) [0..<F]"
        using ds by (intro map_cong refl) simp
      then show ?thesis using fed(2) by (metis edge_sum_mset)
    qed
    also have "\<dots> = (\<Sum>f<F. counted_sum (filter (\<lambda>x. home n (q4c_intermediate x) = Inr (int i)) (sent f)) r m e)"
      by (simp add: block_sum_concat comp_def interv_sum_list_conv_sum_set_nat atLeast0LessThan)
    also have "\<dots> = (if home n m = Inr (int i) then (\<Sum>f<F. counted_sum (sent f) r m e) else 0)"
    proof (cases "home n m = Inr (int i)")
      case True
      then have "counted_sum (filter (\<lambda>x. home n (q4c_intermediate x) = Inr (int i)) (sent f)) r m e = counted_sum (sent f) r m e" for f
        by (intro edge_sum_filter) simp
      with True show ?thesis by simp
    next
      case False
      then have "counted_sum (filter (\<lambda>x. home n (q4c_intermediate x) = Inr (int i)) (sent f)) r m e = 0" for f
        by (intro edge_sum_none) auto
      with False show ?thesis by simp
    qed
    finally show ?thesis .
  qed
  show "count_of (inc i) m a = (if home n m = Inr (int i) then int (count_list kept (a, m)) else 0)"
    using file_edges_counts(1) [OF run] by (simp add: arrived filters_sum(1) [OF apart gated] kept_def)
  show "count_of (out i) m b = (if home n m = Inr (int i) then int (count_list kept (m, b)) else 0)"
    using file_edges_counts(2) [OF run] by (simp add: arrived filters_sum(2) [OF apart gated] kept_def)
qed

text \<open>An intermediate account with kept transfers has a sum shard.\<close>

lemma kept_home:
  assumes filters: "filters_fed c n F ds transfers" and "count_list (kept_edges (all_edges F transfers)) (a, m) \<noteq> 0"
  shows "\<exists>i < n. home n m = Inr (int i)"
proof -
  from filters_sent [OF filters] obtain sent where gated: "\<forall>f < F. \<exists>st. gated (transfers f) st (sent f)" and
    home: "\<forall>f < F. \<forall>x \<in> set (sent f). \<exists>part. home n (q4c_intermediate x) = Inr part" .
  have apart: "sources_apart F transfers" using filters by (simp add: filters_fed_def)
  have "(\<Sum>f<F. counted_sum (sent f) Q4_EDGE_INCOMING m a) \<noteq> 0" using filters_sum(1) [OF apart gated] assms(2) by simp
  then obtain f where f: "f < F" "counted_sum (sent f) Q4_EDGE_INCOMING m a \<noteq> 0" by (meson lessThan_iff sum.neutral)
  then obtain x where "x \<in> set (sent f)" "q4c_intermediate x = m"
    using edge_sum_none [of "sent f" q4c_role Q4_EDGE_INCOMING q4c_intermediate m q4c_endpoint a q4c_count] by blast
  with home f(1) obtain part where part: "home n m = Inr part" by blast
  then have "0 \<le> part \<and> part < int n" unfolding home_def by (rule partition_for_parts_range)
  with part show ?thesis by (intro exI [of _ "nat part"]) auto
qed

lemma sums_home:
  assumes filters: "filters_fed c n F ds transfers" and sums: "sums_fed c n F ds inc out" and i: "i < n"
    and m: "joinable (inc i) (out i) m"
  shows "home n m = Inr (int i)"
proof -
  from filters_sent [OF filters] obtain sent where
    ds: "\<forall>f < F. \<forall>part. concat (map (\<lambda>d. dget d part []) (ds f)) = filter (\<lambda>x. home n (q4c_intermediate x) = Inr part) (sent f)" .
  from sums i obtain bs ess s where fed: "rmap deserialize_counted_edges bs = Inr ess"
    "mset (concat ess) = mset (concat (map (\<lambda>f. concat (map (\<lambda>d. dget d (int i) []) (ds f))) [0..<F]))"
    "q4s_take c bs (new_q4_sum_state (int F)) = (Inr (), s)" and s: "inc i = q4s_incoming_for c s" "out i = q4s_outgoing_for c s"
    unfolding sums_fed_def by blast
  have "afor file_counted_edge (concat ess) ([], []) = (Inr (), (inc i, out i))"
    using q4s_take_files [OF fed(3,1)] by (simp add: s new_q4_sum_state_def q4s_incoming_for_def q4s_outgoing_for_def)
  from file_edges_other [OF this [unfolded file_counted_edge_def [abs_def]], of m] m
  have "m \<in> q4c_intermediate ` set (concat ess)" by (auto simp: joinable_def)
  then obtain x where x: "x \<in> set (concat ess)" "q4c_intermediate x = m" by blast
  from x(1) have "x \<in> (\<Union>f\<in>{0..<F}. set (concat (map (\<lambda>d. dget d (int i) []) (ds f))))"
    unfolding mset_eq_setD [OF fed(2)] by simp
  then obtain f where "f \<in> {0..<F}" "x \<in> set (concat (map (\<lambda>d. dget d (int i) []) (ds f)))" by (rule UN_E)
  with ds x(2) show ?thesis by simp
qed

lemma stages_joined:
  assumes filters: "filters_fed c n F ds transfers" and sums: "sums_fed c n F ds inc out" and joiners: "joiners_fed c n it J inc out d"
  shows "joined_counts n it J inc out d"
  unfolding joined_counts_def
proof (intro conjI allI impI)
  from joiners show "iterates (it i)" if "i < n" for i using that by (simp add: joiners_fed_def)
  from sums_counts(1,2) [OF filters sums] show "counters_wf (inc i)" "counters_wf (out i)" if "i < n" for i using that by simp_all
  fix i j m
  assume ij: "i < n" "j < n" "joinable (inc i) (out i) m \<and> joinable (inc j) (out j) m"
  then have "home n m = Inr (int i)" "home n m = Inr (int j)" using sums_home [OF filters sums] by blast+
  then show "i = j" by simp
next
  from joiners obtain es where plans: "\<forall>i < n. plan_blocks (it i) J (inc i) (out i) = Inr (es i)" and
    fed: "\<forall>part. 0 \<le> part \<and> part < J \<longrightarrow> (\<exists>bs ess s. rmap deserialize_block_edges bs = Inr ess \<and>
           mset (concat ess) = mset (sent_to part (concat (map es [0..<n]))) \<and>
           q4j_take c bs (new_q4_joiner_state (int n)) = (Inr (), s) \<and> d part = (q4j_incoming_for c s, q4j_outgoing_for c s))"
    unfolding joiners_fed_def by blast
  have "\<exists>arrived. mset arrived = mset (sent_to part (concat (map es [0..<n]))) \<and>
      afor file_block_edge arrived ([], []) = (Inr (), d part)" if "0 \<le> part \<and> part < J" for part
  proof -
    from fed that obtain bs ess s where one: "rmap deserialize_block_edges bs = Inr ess"
      "mset (concat ess) = mset (sent_to part (concat (map es [0..<n])))"
      "q4j_take c bs (new_q4_joiner_state (int n)) = (Inr (), s)" "d part = (q4j_incoming_for c s, q4j_outgoing_for c s)" by blast
    from q4j_take_files [OF one(3,1)] have "afor file_block_edge (concat ess) ([], []) = (Inr (), d part)"
      by (simp add: one(4) new_q4_joiner_state_def q4j_incoming_for_def q4j_outgoing_for_def)
    with one(2) show ?thesis by blast
  qed
  with plans show "\<exists>es. (\<forall>i < n. plan_blocks (it i) J (inc i) (out i) = Inr (es i)) \<and>
      (\<forall>part. 0 \<le> part \<and> part < J \<longrightarrow> (\<exists>arrived. mset arrived = mset (sent_to part (concat (map es [0..<n]))) \<and>
         afor file_block_edge arrived ([], []) = (Inr (), d part)))" by blast
qed

text \<open>The paths that the sums hold are the paths of the kept transfers.\<close>

lemma stages_paths:
  assumes filters: "filters_fed c n F ds transfers" and sums: "sums_fed c n F ds inc out"
  shows "q4_paths n inc out A B = path_rows (all_edges F transfers) A B"
proof -
  let ?E = "all_edges F transfers"
  let ?k = "\<lambda>x. int (count_list (kept_edges ?E) x)"
  define M where "M = (\<Union>i\<in>{..<n}. fst ` set (inc i)) \<union> fst ` set ?E"
  have M: "finite M" by (simp add: M_def)
  note counts = sums_counts(3,4) [OF filters sums]
  have "q4_paths n inc out A B = (\<Sum>i<n. \<Sum>m\<in>M. count_of (inc i) m A * count_of (out i) m B)"
    unfolding q4_paths_def
  proof (rule sum.cong [OF refl], rule sum.mono_neutral_left, rule M, force simp: M_def, rule ballI)
    fix i m
    assume "m \<in> M - fst ` set (inc i)"
    then have "map_of (inc i) m = None" by (simp add: map_of_eq_None_iff)
    then show "count_of (inc i) m A * count_of (out i) m B = 0" by (simp add: count_of_def dget_def)
  qed
  also have "\<dots> = (\<Sum>m\<in>M. \<Sum>i<n. if home n m = Inr (int i) then ?k (A, m) * ?k (m, B) else 0)"
    by (subst sum.swap, intro sum.cong refl) (simp add: counts)
  also have "\<dots> = (\<Sum>m\<in>M. ?k (A, m) * ?k (m, B))"
  proof (rule sum.cong [OF refl])
    fix m
    show "(\<Sum>i<n. if home n m = Inr (int i) then ?k (A, m) * ?k (m, B) else 0) = ?k (A, m) * ?k (m, B)"
    proof (cases "?k (A, m) = 0")
      case False
      then obtain j where "j < n" "home n m = Inr (int j)" using kept_home [OF filters] by auto
      then show ?thesis by (simp add: eq_commute)
    qed (simp cong: if_cong)
  qed
  also have "\<dots> = path_rows ?E A B"
    unfolding path_rows_def
  proof (rule sum.mono_neutral_right)
    show "\<forall>m\<in>M - fst ` set ?E. ?k (A, m) * ?k (m, B) = 0"
    proof
      fix m assume "m \<in> M - fst ` set ?E"
      then have "(m, B) \<notin> set (kept_edges ?E)" by (force simp: kept_edges_def)
      then show "?k (A, m) * ?k (m, B) = 0" by (simp add: count_notin)
    qed
  qed (simp_all add: M, simp add: M_def)
  finally show ?thesis .
qed

lemma stages_suspects:
  assumes "filters_fed c n F ds transfers" and "sums_fed c n F ds inc out"
  shows "q4_suspects n inc out = scatter_gather (all_edges F transfers)"
proof -
  have "6 \<le> p \<longleftrightarrow> 5 < p" for p :: int by auto
  then show ?thesis unfolding q4_suspects_def scatter_gather_def stages_paths [OF assms] Q4_QUALIFY_THRESHOLD_def by simp
qed

text \<open>The order of the transfers does not matter to the scatter-gather pattern.\<close>

lemma scatter_gather_mset:
  assumes "mset es = mset es'"
  shows "scatter_gather es = scatter_gather es'"
proof -
  have targets: "targets_of es = targets_of es'" using mset_eq_setD [OF assms] by (simp add: targets_of_def [abs_def])
  then have "mset (kept_edges es) = mset (kept_edges es')" by (simp add: kept_edges_def assms)
  then have "count_list (kept_edges es) = count_list (kept_edges es')" by (metis count_mset ext)
  then show ?thesis by (simp add: scatter_gather_def path_rows_def mset_eq_setD [OF assms])
qed

subsection \<open>Equivalence with the reference\<close>

text \<open>A run of all stages: \<open>F\<close> filters, \<open>n\<close> sums, \<open>J\<close> joiners, \<open>G\<close> aggregators and \<open>K\<close> dedupers.\<close>

definition q4_run ::
  "int \<Rightarrow> nat \<Rightarrow> nat \<Rightarrow> int \<Rightarrow> int \<Rightarrow> int \<Rightarrow> (nat \<Rightarrow> q4_transaction_edge list) \<Rightarrow> (int \<Rightarrow> q4_deduper_state) \<Rightarrow> bool" where
  "q4_run c F n J G K transfers t \<longleftrightarrow>
     (\<exists>ds inc out it d jt emitted. filters_fed c n F ds transfers \<and> sums_fed c n F ds inc out \<and> joiners_fed c n it J inc out d \<and>
        (\<forall>part. iterates (jt part)) \<and> aggregators_fed c J G K (joined_pairs jt J d) emitted \<and> dedupers_fed c G K emitted t)"

text \<open>
  C1: Query 4 as the program distributes it gives the accounts of the single-process reference. When every filter
  has taken its transactions (all those of a source at one filter), every record a stage sends has arrived once at the
  shard it was sent to, in any order and in any batches, and the reference \<open>compute_q4\<close> runs on rows with the same transfers,
  then the dedupers hold exactly the accounts of the reference, and no account twice, whatever the numbers of
  filters, sums, joiners, aggregators and dedupers, and the orders in which the sets are iterated.\<close>

theorem q4_as_reference:
  assumes "q4_run c F n J G K transfers t" and "compute_q4 set_iter rows = Inr accounts" and "iterates set_iter"
    and "mset (reference_edges rows) = mset (map (map_prod account_key_of account_key_of) (all_edges F transfers))"
  shows "(\<Union>k\<in>{0..<K}. accounts_for c (t k)) = set accounts \<and>
    (\<Sum>k\<in>{0..<K}. card (accounts_for c (t k))) = length accounts"
proof -
  from assms(1) obtain ds inc out it d jt emitted where fed: "filters_fed c n F ds transfers" "sums_fed c n F ds inc out" and
    joiners: "joiners_fed c n it J inc out d" and jt: "\<And>part. iterates (jt part)" and
    rest: "aggregators_fed c J G K (joined_pairs jt J d) emitted" "dedupers_fed c G K emitted t"
    unfolding q4_run_def by blast
  have nonneg: "0 \<le> count_of (inc i) m e \<and> 0 \<le> count_of (out i) m e" if "i < n" for i m e
    using sums_counts(3,4) [OF fed that] by simp
  note held = dedupers_hold [OF stages_joined [OF fed joiners] jt nonneg rest, unfolded stages_suspects [OF fed]]
  have "scatter_gather (reference_edges rows) = account_key_of ` scatter_gather (all_edges F transfers)"
    using scatter_gather_mset [OF assms(4)] scatter_gather_map [of account_key_of "all_edges F transfers"] by (simp add: inj_on_def)
  with compute_q4_result [OF assms(2,3)] have accounts: "set accounts = account_key_of ` scatter_gather (all_edges F transfers)"
    and "length accounts = card (set accounts)" using distinct_card [of accounts] by simp_all
  moreover have "card (account_key_of ` scatter_gather (all_edges F transfers)) = card (scatter_gather (all_edges F transfers))"
    by (intro card_image) (simp add: inj_on_def)
  ultimately show ?thesis using held by simp
qed

subsection \<open>An example\<close>

text \<open>
  The nine transfers of one account to itself and five others, through one shard of every stage. Two transfers to itself and
  three to \<open>B\<close> make six paths.
\<close>

definition sg_counts :: "(q4_account_id \<times> int) list" where
  "sg_counts = [(sg_id 65, 2), (sg_id 66, 3), (sg_id 67, 1), (sg_id 68, 1), (sg_id 69, 1), (sg_id 70, 1)]"

definition sg_incoming :: edge_counts where
  "sg_incoming = map (\<lambda>(m, n). (m, [(sg_id 65, n)])) sg_counts"

definition sg_outgoing :: edge_counts where
  "sg_outgoing = [(sg_id 65, sg_counts)]"

lemma sg_sum: "afor file_counted_edge (concat (map counted_for sg_edges)) ([], []) = (Inr (), (sg_incoming, sg_outgoing))"
  by (simp add: sg_edges_def sg_targets_def counted_for_def file_counted_edge_def file_edge_def act_defs add_count_def Let_def dget_def
     sg_incoming_def sg_outgoing_def sg_counts_def)

text \<open>What the account \<open>a\<close> contributes to the blocks of an only joiner.\<close>

definition sg_block :: "int \<Rightarrow> q4_account_id \<times> int \<Rightarrow> q4_block_join_edge" where
  "sg_block r = (\<lambda>(e, n). \<lparr>q4b_role = r, q4b_intermediate = sg_id 65, q4b_endpoint = e, q4b_a_bucket = 0, q4b_b_bucket = 0, q4b_count = n\<rparr>)"

definition sg_blocks :: "q4_block_join_edge list" where
  "sg_blocks = sg_block Q4_EDGE_INCOMING (sg_id 65, 2) # map (sg_block Q4_EDGE_OUTGOING) sg_counts"

lemma sg_bucket: "a < 128 \<Longrightarrow> account_bucket (sg_id a) 1 = Inr 0"
  unfolding account_bucket_def by (rule partition_one) (simp add: account_parts_def sg_id_def)

lemma sg_block_partition: "a < 128 \<Longrightarrow> block_partition 1 (sg_id a) 0 0 = Inr 0"
  unfolding block_partition_def by (rule partition_one) (simp add: account_parts_def sg_id_def int_str_def)

lemma sg_plan: "plan_blocks (\<lambda>xs. xs) 1 sg_incoming sg_outgoing = Inr (map (Pair 0) sg_blocks)"
  by (simp add: plan_blocks_def sg_incoming_def sg_outgoing_def sg_counts_def plan_intermediate_def block_plan_def Q4_SUM_HOT_PAIR_THRESHOLD_def
    incoming_block_edges_def outgoing_block_edges_def sg_bucket sg_block_partition sg_blocks_def sg_block_def dget_def upto.simps)

definition sg_key :: "q4_account_id \<times> int \<times> int" where "sg_key = (sg_id 65, 0, 0)"

lemma sg_join: "afor file_block_edge sg_blocks ([], []) = (Inr (), ([(sg_key, [(sg_id 65, 2)])], [(sg_key, sg_counts)]))"
  by (simp add: sg_blocks_def sg_block_def sg_counts_def file_block_edge_def block_key_def sg_key_def file_edge_def act_defs add_count_def Let_def dget_def)

definition sg_pairs :: "q4_pair_paths list" where
  "sg_pairs = map (\<lambda>(b, n). \<lparr>q4p_source = sg_id 65, q4p_target = b, q4p_path_count = 2 * n\<rparr>) (tl sg_counts)"

lemma sg_joined: "join_blocks (\<lambda>xs. xs) [(sg_key, [(sg_id 65, 2)])] [(sg_key, sg_counts)] = sg_pairs"
  by (simp add: join_blocks_def block_pairs_def sg_pairs_def sg_counts_def dget_def Q4_QUALIFY_THRESHOLD_def)

lemma sg_pair_partition: "a < 128 \<Longrightarrow> b < 128 \<Longrightarrow> pair_partition 1 (sg_id a) (sg_id b) = Inr 0"
  unfolding pair_partition_def by (rule partition_one) (simp add: account_parts_def sg_id_def)

lemma sg_located: "rmap (locate_pair 1) sg_pairs = Inr (map (Pair 0) sg_pairs)"
  by (simp add: sg_pairs_def sg_counts_def locate_pair_def sg_pair_partition)

lemma sg_account_partition: "a < 128 \<Longrightarrow> account_partition 1 \<lparr>q4_bank_id = [66], q4_account = [a]\<rparr> = Inr 0"
  unfolding account_partition_def by (rule partition_one) (simp add: account_parts_def)

lemmas sg_batch_simps = apply_batch_def sg_pairs_def sg_counts_def apply_pair_def pair_key_def source_from_key_def target_from_key_def
  append_pair_accounts_def append_account_def count_pair_accounts_def count_account_def sg_account_partition act_defs dget_def dappend_def
  Q4_QUALIFY_THRESHOLD_def Let_def sg_id_def

lemma sg_accounts: "\<exists>counts quals. apply_batch (append_pair_accounts 1) sg_pairs ([], {}, []) = (Inr (), (counts, quals, [(0, [sg_id 65, sg_id 66])]))"
  by (simp add: sg_batch_simps)

lemma sg_accounts_counted: "fst (apply_batch (count_pair_accounts 1) sg_pairs ([], {}, [])) = Inr ()"
  by (simp add: sg_batch_simps)

text \<open>The records of the example can be sent.\<close>

lemma sg_id_bytes: "0 < a \<Longrightarrow> a < 128 \<Longrightarrow> \<exists>b. serialize_account_id (sg_id a) = Inr b"
  by (simp add: serialize_account_id_def sg_id_def encode_fixed_ascii ascii_def field_sizes)

lemma sg_id_ok: "0 < a \<Longrightarrow> account_id_ok (sg_id a)"
  by (simp add: account_id_ok_def sg_id_def no_trailing_nul_def)

lemma sg_counted_bytes: "\<exists>b. deserialize_counted_edges b = Inr (concat (map counted_for sg_edges))"
proof -
  obtain f where f: "\<And>a. 0 < a \<Longrightarrow> a < 128 \<Longrightarrow> serialize_account_id (sg_id a) = Inr (f a)" using sg_id_bytes by metis
  have "list_all (\<lambda>x. \<exists>b. serialize_counted_edge x = Inr b) (concat (map counted_for sg_edges))"
    by (simp add: sg_edges_def sg_targets_def counted_for_def serialize_counted_edge_def f validate_q4_role_def pack_uint_def
      Q4_EDGE_INCOMING_def Q4_EDGE_OUTGOING_def del: be_bytes.simps)
  from encode_batch_total [OF this] obtain b where "serialize_counted_edges (concat (map counted_for sg_edges)) = Inr b"
    by (auto simp: serialize_counted_edges_def)
  moreover have "list_all counted_edge_ok (concat (map counted_for sg_edges))"
    by (simp add: counted_edge_ok_def sg_edges_def sg_targets_def counted_for_def sg_id_ok)
  ultimately show ?thesis using counted_codec.whole_batch_roundtrip by (auto simp: serialize_counted_edges_def deserialize_counted_edges_def)
qed

lemma sg_block_bytes: "\<exists>b. deserialize_block_edges b = Inr sg_blocks"
proof -
  obtain f where f: "\<And>a. 0 < a \<Longrightarrow> a < 128 \<Longrightarrow> serialize_account_id (sg_id a) = Inr (f a)" using sg_id_bytes by metis
  have "list_all (\<lambda>x. \<exists>b. serialize_block_edge x = Inr b) sg_blocks"
    by (simp add: sg_blocks_def sg_block_def sg_counts_def serialize_block_edge_def f validate_q4_role_def pack_uint_def
      Q4_EDGE_INCOMING_def Q4_EDGE_OUTGOING_def del: be_bytes.simps)
  from encode_batch_total [OF this] obtain b where "serialize_block_edges sg_blocks = Inr b"
    by (auto simp: serialize_block_edges_def)
  moreover have "list_all block_edge_ok sg_blocks"
    by (simp add: block_edge_ok_def sg_blocks_def sg_block_def sg_counts_def sg_id_ok)
  ultimately show ?thesis using block_codec.whole_batch_roundtrip by (auto simp: serialize_block_edges_def deserialize_block_edges_def)
qed

lemma sg_pair_bytes: "\<exists>b. deserialize_pair_paths_batch b = Inr sg_pairs"
proof -
  obtain f where f: "\<And>a. 0 < a \<Longrightarrow> a < 128 \<Longrightarrow> serialize_account_id (sg_id a) = Inr (f a)" using sg_id_bytes by metis
  have "list_all (\<lambda>x. \<exists>b. serialize_pair_paths x = Inr b) sg_pairs"
    by (simp add: sg_pairs_def sg_counts_def serialize_pair_paths_def f pack_uint_def Q4_QUALIFY_THRESHOLD_def del: be_bytes.simps)
  from encode_batch_total [OF this] obtain b where "serialize_pair_paths_batch sg_pairs = Inr b"
    by (auto simp: serialize_pair_paths_batch_def)
  moreover have "list_all pair_paths_ok sg_pairs"
    by (simp add: pair_paths_ok_def sg_pairs_def sg_counts_def sg_id_ok Q4_QUALIFY_THRESHOLD_def)
  ultimately show ?thesis using pair_codec.whole_batch_roundtrip by (auto simp: serialize_pair_paths_batch_def deserialize_pair_paths_batch_def)
qed

lemma sg_account_bytes: "\<exists>b. deserialize_account_ids b = Inr [sg_id 65, sg_id 66]"
proof -
  from encode_batch_total [of serialize_account_id "[sg_id 65, sg_id 66]"] sg_id_bytes
  obtain b where "serialize_account_ids [sg_id 65, sg_id 66] = Inr b" by (auto simp: serialize_account_ids_def)
  then show ?thesis using account_codec.whole_batch_roundtrip [of "[sg_id 65, sg_id 66]" b]
    by (auto simp: serialize_account_ids_def deserialize_account_ids_def sg_id_ok)
qed

text \<open>The stages of the example, one worker each.\<close>

lemma sg_sum_fed:
  assumes "deserialize_counted_edges b = Inr (concat (map counted_for sg_edges))"
  shows "\<exists>s. q4s_take 5 [b] (new_q4_sum_state 1) = (Inr (), s) \<and> q4s_incoming_for 5 s = sg_incoming \<and> q4s_outgoing_for 5 s = sg_outgoing"
  using assms sg_sum
  by (simp add: q4s_take_def act_defs q4s_apply_change_def q4s_data_change_def fi_dispatch_simps q4s_changes_def q4s_apply_data_def fi_payload
        q4s_incoming_for_def q4s_outgoing_for_def Let_def new_q4_sum_state_def dget_def)

lemma sg_joiner_fed:
  assumes "deserialize_block_edges b = Inr sg_blocks"
  shows "\<exists>s. q4j_take 5 [b] (new_q4_joiner_state 1) = (Inr (), s) \<and> q4j_incoming_for 5 s = [(sg_key, [(sg_id 65, 2)])] \<and>
     q4j_outgoing_for 5 s = [(sg_key, sg_counts)]"
  using assms sg_join
  by (simp add: q4j_take_def act_defs q4j_apply_change_def q4j_data_change_def fi_dispatch_simps q4j_changes_def q4j_apply_data_def fi_payload
        q4j_incoming_for_def q4j_outgoing_for_def Let_def new_q4_joiner_state_def dget_def)

lemma sg_aggregator_fed:
  assumes "deserialize_pair_paths_batch b = Inr sg_pairs"
  shows "\<exists>s. q4a_feed 5 [b] (new_q4_aggregator_state 1 1) = (Inr [[(0, [sg_id 65, sg_id 66])]], s)"
proof -
  have "predict_data_outputs 5 b (new_q4_aggregator_state 1 1) = Inr [(0, [sg_id 65, sg_id 66])]"
    using assms sg_accounts by (auto simp: predict_data_outputs_def new_q4_aggregator_state_def pair_counts_for_def qualified_pairs_for_def)
  moreover have "\<exists>s. q4a_apply_change (q4a_data_change 5 b) (new_q4_aggregator_state 1 1) = (Inr (), s)"
    using assms sg_accounts_counted
    by (auto simp: q4a_apply_data_change q4a_apply_data_def fi_payload new_q4_aggregator_state_def pair_counts_for_def qualified_pairs_for_def
        forwarded_by_partition_def Let_def split: prod.splits)
  ultimately show ?thesis by (auto simp: q4a_step_def act_defs)
qed

lemma sg_deduper_fed:
  assumes "deserialize_account_ids b = Inr [sg_id 65, sg_id 66]"
  shows "\<exists>s. q4d_take 5 [b] (new_q4_deduper_state 1 1) = (Inr (), s)"
  using assms
  by (simp add: q4d_take_def q4d_apply_data_change q4d_apply_data_def fi_payload act_defs new_q4_deduper_state_def)


lemma sg_all_edges: "all_edges 1 (\<lambda>_. sg_edges) = map (\<lambda>a. (sg_id 65, sg_id a)) sg_targets"
  by (simp add: all_edges_def sg_edges_def edge_pair_def comp_def)

lemma sent_to_only: "sent_to part (map (Pair part) xs) = xs"
  by (simp add: sent_to_def comp_def)

lemma q4_runI:
  assumes "filters_fed c n F ds transfers" and "sums_fed c n F ds inc out" and "joiners_fed c n it J inc out d"
    and "\<And>part. iterates (jt part)" and "aggregators_fed c J G K (joined_pairs jt J d) emitted" and "dedupers_fed c G K emitted t"
  shows "q4_run c F n J G K transfers t"
  using assms unfolding q4_run_def by blast

lemma sg_run: "\<exists>t. q4_run 5 1 1 1 1 1 (\<lambda>_. sg_edges) t"
proof -
  obtain b0 b1 b2 b3 b4 where b: "deserialize_transactions b0 = Inr (map sg_tx sg_targets)"
    "deserialize_counted_edges b1 = Inr (concat (map counted_for sg_edges))" "deserialize_block_edges b2 = Inr sg_blocks"
    "deserialize_pair_paths_batch b3 = Inr sg_pairs" "deserialize_account_ids b4 = Inr [sg_id 65, sg_id 66]"
    using sg_tx_bytes sg_counted_bytes sg_block_bytes sg_pair_bytes sg_account_bytes by blast
  let ?d0 = "[[(0, concat (map counted_for sg_edges))]]" and ?d3 = "[[(0, [sg_id 65, sg_id 66])]]"
  let ?d2 = "([(sg_key, [(sg_id 65, 2)])], [(sg_key, sg_counts)])"
  obtain t where t: "q4d_take 5 [b4] (new_q4_deduper_state 1 1) = (Inr (), t)" using sg_deduper_fed [OF b(5)] by blast
  have f: "filters_fed 5 1 1 (\<lambda>_. ?d0) (\<lambda>_. sg_edges)"
    unfolding filters_fed_def sources_apart_def using sg_filter [OF b(1)] b(1) sg_edges_from
    by (auto intro!: exI [of _ "[b0]"])
  have s: "sums_fed 5 1 1 (\<lambda>_. ?d0) (\<lambda>_. sg_incoming) (\<lambda>_. sg_outgoing)"
    unfolding sums_fed_def using sg_sum_fed [OF b(2)] b(2) by (auto simp: dget_def intro!: exI [of _ "[b1]"])
  have j: "joiners_fed 5 1 (\<lambda>_ xs. xs) 1 (\<lambda>_. sg_incoming) (\<lambda>_. sg_outgoing) (\<lambda>_. ?d2)"
  proof -
    have "sent_to part (concat (map (\<lambda>_. map (Pair 0) sg_blocks) [0..<1])) = sg_blocks" if "0 \<le> part \<and> part < 1" for part :: int
    proof -
      from that have "part = 0" by simp
      then show ?thesis by (simp add: sent_to_only)
    qed
    then show ?thesis
      unfolding joiners_fed_def using sg_plan sg_joiner_fed [OF b(3)] b(3) iterates_id
      by (auto intro!: exI [of _ "\<lambda>_. map (Pair 0) sg_blocks"] exI [of _ "[b2]"])
  qed
  have a: "aggregators_fed 5 1 1 1 (joined_pairs (\<lambda>_ xs. xs) 1 (\<lambda>_. ?d2)) (\<lambda>_. ?d3)"
  proof -
    have "{0..<1} = {0::int}" by auto
    then show ?thesis unfolding aggregators_fed_def using sg_located sg_aggregator_fed [OF b(4)] b(4)
      by (auto simp: joined_pairs_def sg_joined sent_to_only intro!: exI [of _ "[b3]"])
  qed
  have d: "dedupers_fed 5 1 1 (\<lambda>_. ?d3) (\<lambda>_. t)"
    unfolding dedupers_fed_def using t b(5) by (auto simp: sent_accounts_def dget_def intro!: exI [of _ "[b4]"])
  from q4_runI [OF f s j iterates_id a d] have "q4_run 5 1 1 1 1 1 (\<lambda>_. sg_edges) (\<lambda>_. t)" .
  then show ?thesis by (rule exI [where x = "\<lambda>_. t"])
qed

definition sg_row :: "nat \<Rightarrow> q4_row" where
  "sg_row a = \<lparr>r4_currency = USD_CURRENCY, r4_date = lit ''2022/09/01 00:20'', r4_from_bank = [66], r4_from_account = [65],
     r4_to_bank = [66], r4_to_account = [a]\<rparr>"

lemma sg_row_fields: "r4_from_bank (sg_row a) = [66]" "r4_from_account (sg_row a) = [65]" "r4_to_bank (sg_row a) = [66]"
  "r4_to_account (sg_row a) = [a]"
  by (simp_all add: sg_row_def)

lemma sg_selected: "q4_selected (sg_row a)"
  by (simp add: q4_selected_def sg_row_def USD_CURRENCY_def lit_def Q4_NOTEBOOK_WINDOW_def py_strip_def is_space_def)

lemma sg_intern:
  "64 < a \<Longrightarrow> a < 128 \<Longrightarrow> intern [66] [a] s =
     (case map_of (account_ids s) ([66], [a]) of
        Some i \<Rightarrow> (Inr i, s)
      | None \<Rightarrow> (Inr (length (account_ids s)),
          \<lparr>account_ids = dset ([66], [a]) (length (account_ids s)) (account_ids s), account_names = account_names s @ [([66], [a])]\<rparr>))"
  by (cases "map_of (account_ids s) ([66], [a])") (simp_all add: intern_def sg_bank py_strip_def is_space_def Let_def)

lemma sg_reference: "compute_q4 (\<lambda>xs. xs) (map sg_row sg_targets) = Inr [([66], [65]), ([66], [66])]"
  by (simp add: compute_q4_def sg_targets_def source_pass_def edge_pass_def sg_selected sg_row_fields sg_intern act_defs dget_def
     Q4_SOURCE_MIN_DISTINCT_TARGETS_def add_count_def join_rows_def join_pair_def Q4_PAIR_MIN_PATH_ROWS_def)

lemma sg_reference_edges: "reference_edges (map sg_row sg_targets) = map (map_prod account_key_of account_key_of) (all_edges 1 (\<lambda>_. sg_edges))"
  unfolding sg_all_edges by (simp add: reference_edges_def sg_targets_def sg_selected row_key_def sg_row_fields account_key_of_def sg_id_def
     py_strip_def is_space_def sg_bank)

theorem q4_as_reference_witness:
  "\<exists>t. q4_run 5 1 1 1 1 1 (\<lambda>_. sg_edges) t \<and> compute_q4 (\<lambda>xs. xs) (map sg_row sg_targets) = Inr [([66], [65]), ([66], [66])] \<and>
     accounts_for 5 (t 0) = {([66], [65]), ([66], [66])}"
proof -
  obtain t where t: "q4_run 5 1 1 1 1 1 (\<lambda>_. sg_edges) t" using sg_run by blast
  have "{0..<1} = {0::int}" by auto
  with q4_as_reference [OF t sg_reference iterates_id] show ?thesis using t sg_reference by (auto simp: sg_reference_edges)
qed

end
