(* ===== verification/ShardedPublisher.thy ===== *)
theory ShardedPublisher
  imports Sequencer
begin

text \<open>
  \<open>common/middleware/sharded_publisher.py\<close>: a publisher that reaches the shards of a direct exchange by choosing the routing
  key of each message. The exchange itself belongs to the broker; a send is the exchange, the routing key and
  the message handed to it.
\<close>

subsection \<open>Shard keys\<close>

definition client_id_key :: "bytes \<Rightarrow> routing_key" where
  "client_id_key message = KInt (int (be_nat (take 16 (drop 1 message))))"

definition body_digest_key :: "bytes \<Rightarrow> routing_key" where
  "body_digest_key message = KBytes (drop PACKET_HEADER_SIZE message)"

definition addressed_body_digest_key :: "bytes \<Rightarrow> routing_key" where
  "addressed_body_digest_key message = KBytes (drop ADDRESSED_HEADER_SIZE message)"

subsection \<open>The publisher\<close>

record sharded_publisher =
  sp_exchange :: pystr
  sp_prefix :: pystr
  sp_shard_count :: int
  sp_key_fn :: "bytes \<Rightarrow> routing_key"

definition new_sharded_publisher :: "pystr \<Rightarrow> pystr \<Rightarrow> int \<Rightarrow> (bytes \<Rightarrow> routing_key) \<Rightarrow> sharded_publisher res" where
  "new_sharded_publisher exchange pre n key_fn =
     (if n < 1 then Inl ValueError
      else Inr \<lparr>sp_exchange = exchange, sp_prefix = pre, sp_shard_count = n, sp_key_fn = key_fn\<rparr>)"

type_synonym routed = "pystr \<times> pystr \<times> bytes"

definition sp_routing_key_for :: "sharded_publisher \<Rightarrow> bytes \<Rightarrow> pystr res" where
  "sp_routing_key_for p message =
     rbind (shard_for_key (sp_key_fn p message) (sp_shard_count p)) (\<lambda>sh. routing_key_for_shard (sp_prefix p) sh [95])"

definition sp_send :: "sharded_publisher \<Rightarrow> bytes \<Rightarrow> routed res" where
  "sp_send p message = rbind (sp_routing_key_for p message) (\<lambda>k. Inr (sp_exchange p, k, message))"

definition sp_send_to_shard :: "sharded_publisher \<Rightarrow> bytes \<Rightarrow> int \<Rightarrow> routed res" where
  "sp_send_to_shard p message sh =
     (if \<not> (0 \<le> sh \<and> sh < sp_shard_count p) then Inl ValueError
      else rbind (routing_key_for_shard (sp_prefix p) sh [95]) (\<lambda>k. Inr (sp_exchange p, k, message)))"

definition sp_send_to_all :: "sharded_publisher \<Rightarrow> bytes \<Rightarrow> routed list res" where
  "sp_send_to_all p message =
     rmap (\<lambda>sh. rbind (routing_key_for_shard (sp_prefix p) sh [95]) (\<lambda>k. Inr (sp_exchange p, k, message))) [0..sp_shard_count p - 1]"

definition new_by_client_publisher :: "pystr \<Rightarrow> pystr \<Rightarrow> int \<Rightarrow> sharded_publisher res" where
  "new_by_client_publisher exchange pre n = new_sharded_publisher exchange pre n client_id_key"

text \<open>Where the explicit shard of an outbox entry, or its absence, sends a message.\<close>

definition sp_publish :: "sharded_publisher \<Rightarrow> outbox_entry \<Rightarrow> routed res" where
  "sp_publish p entry = (case shard entry of None \<Rightarrow> sp_send p (body entry) | Some sh \<Rightarrow> sp_send_to_shard p (body entry) sh)"

subsection \<open>The shard of a message\<close>

lemma client_id_key_packet:
  assumes "client_id_to_bytes c = Inr cb"
  shows "create_packet t cb payload = Inr m \<Longrightarrow> client_id_key m = KInt c"
    and "create_addressed_packet t cb s q payload = Inr m \<Longrightarrow> client_id_key m = KInt c"
proof -
  have cb: "length cb = 16" "int (be_nat cb) = c" using client_id_bytes [OF assms] by simp_all
  show "client_id_key m = KInt c" if "create_packet t cb payload = Inr m"
    using that cb by (auto simp: create_packet_def client_id_key_def pack_16s_id dest!: unpack_uint)
  show "client_id_key m = KInt c" if "create_addressed_packet t cb s q payload = Inr m"
    using that cb by (auto simp: create_addressed_packet_def client_id_key_def pack_16s_id dest!: unpack_uint)
qed

lemma addressed_body_key:
  assumes "client_id_to_bytes c = Inr cb" and "create_addressed_packet t cb s q payload = Inr m"
  shows "addressed_body_digest_key m = KBytes payload"
  using addressed_packet_roundtrip [OF assms(2,1)]
  by (auto simp: unpack_addressed_packet_def addressed_body_digest_key_def Let_def)

lemma body_key:
  assumes "client_id_to_bytes c = Inr cb" and "create_packet t cb payload = Inr m"
  shows "body_digest_key m = KBytes payload"
  using packet_roundtrip [OF assms(2,1)]
  by (auto simp: unpack_packet_def body_digest_key_def Let_def)

text \<open>Every routing key a publisher can use is that of one of its shards.\<close>

definition shard_keys :: "sharded_publisher \<Rightarrow> pystr set" where
  "shard_keys p = (\<lambda>sh. sp_prefix p @ [95] @ int_str sh) ` {0..<sp_shard_count p}"

lemma sp_routing_key_in:
  assumes "sp_send p m = Inr (x, k, m')"
  shows "x = sp_exchange p \<and> k \<in> shard_keys p \<and> m' = m"
  using assms
  by (auto simp: sp_send_def sp_routing_key_for_def routing_key_for_shard_def shard_keys_def dest!: shard_for_key_range)

lemma sp_send_to_shard_in:
  assumes "sp_send_to_shard p m sh = Inr (x, k, m')"
  shows "x = sp_exchange p \<and> k \<in> shard_keys p \<and> m' = m"
  using assms by (auto simp: sp_send_to_shard_def routing_key_for_shard_def shard_keys_def split: if_splits)

subsection \<open>The shard of a number is the shard it is sent to\<close>

text \<open>An outbox entry of an edge whose shard was chosen by the sequencer from the payload.\<close>

definition by_payload :: "sender_sequencer \<Rightarrow> outbox_entry \<Rightarrow> bool" where
  "by_payload sq e \<longleftrightarrow> (\<forall>spec. map_of (edges sq) (destination e) = Some spec \<longrightarrow>
     (\<exists>sh. shard e = Some sh \<and> shard_for_key (addressed_body_digest_key (body e)) (shard_count spec) = Inr sh))"

lemma stamp_from_by_payload:
  assumes "stamp_from sq c iid index lp la outs = Inr es" and "list_all (\<lambda>out. snd (snd (normalize_output out)) = None) outs"
  shows "list_all (by_payload sq) es"
  using assms
proof (induction outs arbitrary: index lp la es)
  case (Cons out outs)
  obtain dest bdy where out: "normalize_output out = (dest, bdy, None)"
    using Cons.prems(2) by (cases "normalize_output out") auto
  show ?case
  proof (cases "map_of (edges sq) dest")
    case None
    with Cons.prems out obtain e es' where "es = e # es'" "destination e = dest" "list_all (by_payload sq) es'"
      by (auto simp: Let_def dest: Cons.IH)
    moreover from this None have "by_payload sq e" by (simp add: by_payload_def)
    ultimately show ?thesis by simp
  next
    case (Some spec)
    with Cons.prems out obtain t x pl sh cb b es' index' la' e where
      step: "shard_for_key (KBytes pl) (shard_count spec) = Inr sh" "client_id_to_bytes c = Inr cb"
        "create_addressed_packet t cb (edge_sender_id spec) x pl = Inr b"
        "stamp_from sq c iid index' lp la' outs = Inr es'" "es = e # es'" "destination e = dest" "body e = b" "shard e = Some sh"
      by (auto simp: Let_def)
    have "by_payload sq e" using step(1,6-8) Some addressed_body_key [OF step(2,3)] by (simp add: by_payload_def)
    moreover have "list_all (by_payload sq) es'" using Cons.IH [OF step(4)] Cons.prems(2) by simp
    ultimately show ?thesis by (simp add: step(5))
  qed
qed simp

text \<open>
  C7: the shard a packet is numbered for is the shard it is sent to. For outputs without an explicit shard, the
  sender sequencer takes the number of an addressed packet from the counter of the shard that the payload
  hashes to. A publisher of as many shards that routes by the addressed body chooses, for
  the packet on its own, the routing key that publishing the outbox entry to its recorded shard uses,
  so that a packet sent again reaches the shard that expects its number.
\<close>

theorem numbered_for_its_shard:
  assumes "stamp c iid outs sq = Inr es" and "list_all (\<lambda>out. snd (snd (normalize_output out)) = None) outs"
    and "e \<in> set es" and "map_of (edges sq) (destination e) = Some spec"
    and "new_sharded_publisher exchange pre (shard_count spec) addressed_body_digest_key = Inr p"
  shows "sp_send p (body e) = sp_publish p e \<and> (\<exists>routed. sp_publish p e = Inr routed)"
proof -
  have "by_payload sq e" using stamp_from_by_payload assms(1-3) by (auto simp: stamp_def list_all_iff)
  with assms(4) obtain sh where sh: "shard e = Some sh" "shard_for_key (addressed_body_digest_key (body e)) (shard_count spec) = Inr sh"
    by (auto simp: by_payload_def)
  moreover have "0 \<le> sh \<and> sh < shard_count spec" using sh(2) by (rule shard_for_key_range)
  ultimately show ?thesis using assms(5)
    by (auto simp: sp_send_def sp_publish_def sp_routing_key_for_def sp_send_to_shard_def new_sharded_publisher_def
        routing_key_for_shard_def split: if_splits)
qed

definition demo_edge_sequencer :: sender_sequencer where
  "demo_edge_sequencer = \<lparr>node_id = [110], edges = [([101], \<lparr>edge_sender_id = 3, shard_count = 1\<rparr>)], next_seq = [], next_addr_seq = []\<rparr>"

theorem numbered_for_its_shard_witness:
  "\<exists>m es e p. stamp 7 [105] [Out2 [101] m] demo_edge_sequencer = Inr es \<and> e \<in> set es \<and> sp_send p (body e) = sp_publish p e"
proof -
  obtain cb where cb: "client_id_to_bytes 7 = Inr cb" by (simp add: client_id_to_bytes_def)
  obtain m where m: "create_packet 1 cb [65] = Inr m" by (simp add: create_packet_def pack_uint_def)
  obtain b where b: "create_addressed_packet 1 cb 3 0 [65] = Inr b" by (simp add: create_addressed_packet_def pack_uint_def)
  have sh: "shard_for_key (KBytes [65]) 1 = Inr 0" by (simp add: shard_for_key_def stable_digest_shard_def validate_shard_count_def)
  let ?e = "\<lparr>output_id = addressed_output_id [110] 7 [101] 0 0 0, input_id = [105], destination = [101], body = b, shard = Some 0\<rparr>"
  let ?p = "\<lparr>sp_exchange = [120], sp_prefix = [112], sp_shard_count = 1, sp_key_fn = addressed_body_digest_key\<rparr>"
  have run: "stamp 7 [105] [Out2 [101] m] demo_edge_sequencer = Inr [?e]"
    using packet_roundtrip [OF m cb] b cb sh by (simp add: stamp_def demo_edge_sequencer_def Let_def)
  have "sp_send ?p (body ?e) = sp_publish ?p ?e \<and> (\<exists>routed. sp_publish ?p ?e = Inr routed)"
  proof (rule numbered_for_its_shard [OF run])
    show "map_of (edges demo_edge_sequencer) (destination ?e) = Some \<lparr>edge_sender_id = 3, shard_count = 1\<rparr>"
      by (simp add: demo_edge_sequencer_def)
  qed (simp_all add: new_sharded_publisher_def)
  with run show ?thesis by (intro exI [of _ m] exI [of _ "[?e]"] exI [of _ ?e] exI [of _ ?p]) simp
qed

end
