(* ===== verification/FilterState.thy ===== *)
theory FilterState
  imports Coordinated BatchBuffer
begin

text \<open>
  \<open>workers/filter/filter_state.py\<close>: the durable state of the filters of queries 1 and 5, of the currency filter and of the
  date filter. It counts what was processed and forwarded per client and logical output, keeps the output
  batches that are not full yet, and the EOF coordinator. \<open>apply_change\<close> is its only mutator; the
  business functions foretell the batches with \<open>plan_data\<close> and \<open>plan_drain\<close>.
\<close>

subsection \<open>State and changes\<close>

record filter_state =
  fs_coordinator :: eof_coordinator
  fs_processed :: "(int \<times> int) list"
  fs_forwarded :: "(int \<times> int) list"
  fs_forwarded_by_output :: "(int \<times> (pystr \<times> int) list) list"
  fs_closed :: "int set"
  fs_all_forwarded :: "(int \<times> (pystr \<times> int) list) list"
  fs_flushed_acks :: "(int \<times> int set) list"
  fs_buffer :: "(pystr \<times> int) batch_buffer"

definition new_filter_state :: "eof_coordinator \<Rightarrow> int \<Rightarrow> int \<Rightarrow> filter_state" where
  "new_filter_state ec batch_max_bytes batch_max_items =
     \<lparr>fs_coordinator = ec, fs_processed = [], fs_forwarded = [], fs_forwarded_by_output = [], fs_closed = {},
      fs_all_forwarded = [], fs_flushed_acks = [], fs_buffer = new_batch_buffer batch_max_bytes batch_max_items\<rparr>"

definition json_counts :: "(pystr \<times> int) list \<Rightarrow> (pystr \<times> json) list" where
  "json_counts counts = map (\<lambda>(output, n). (output, JInt n)) counts"

definition json_appends :: "(pystr \<times> bytes list) list \<Rightarrow> (pystr \<times> json) list" where
  "json_appends appends = map (\<lambda>(dest, payloads). (dest, JList (map (\<lambda>p. JStr (b64encode p)) payloads))) appends"

definition fs_data_change :: "int \<Rightarrow> int \<Rightarrow> (pystr \<times> bytes list) list \<Rightarrow> (pystr \<times> int) list \<Rightarrow> json" where
  "fs_data_change client_id n_processed appends_by_dest forwarded_by_output =
     JObj [(lit ''type'', JStr (lit ''data'')), (lit ''client_id'', JInt client_id),
           (lit ''processed_count'', JInt n_processed),
           (lit ''appends_by_dest'', JObj (json_appends appends_by_dest)),
           (lit ''forwarded_by_output'', JObj (json_counts forwarded_by_output))]"

definition fs_compound_change :: "json list \<Rightarrow> json" where
  "fs_compound_change = fi_compound_change"

text \<open>The counts of a FLUSH_ACK are taken over as they were read from its packet.\<close>

definition fs_flush_ack_change :: "int \<Rightarrow> int \<Rightarrow> (pystr \<times> json) list \<Rightarrow> json" where
  "fs_flush_ack_change client_id sender_id forwarded_by_output =
     JObj [(lit ''type'', JStr (lit ''flush_ack'')), (lit ''client_id'', JInt client_id), (lit ''sender_id'', JInt sender_id),
           (lit ''forwarded_by_output'', JObj forwarded_by_output)]"

definition fs_close_change :: "int \<Rightarrow> json" where
  "fs_close_change = fi_close_change"

definition fs_cleanup_change :: "int \<Rightarrow> bool \<Rightarrow> json" where
  "fs_cleanup_change client_id is_leader =
     JObj [(lit ''type'', JStr (lit ''coordinator_cleanup'')), (lit ''client_id'', JInt client_id),
           (lit ''is_leader'', JBool is_leader)]"

definition fs_abort_change :: "int \<Rightarrow> json" where
  "fs_abort_change client_id = fs_compound_change [fs_cleanup_change client_id False, fs_close_change client_id]"

definition fs_upstream_eof_change :: "int \<Rightarrow> int \<Rightarrow> int \<Rightarrow> int \<Rightarrow> json" where
  "fs_upstream_eof_change = su_upstream_eof_change"

definition fs_msg_change :: "message_type \<Rightarrow> int \<Rightarrow> int \<Rightarrow> int \<Rightarrow> int \<Rightarrow> int \<Rightarrow> int \<Rightarrow> json" where
  "fs_msg_change = su_msg_change"

subsection \<open>Readers and planners\<close>

definition fs_processed_count :: "int \<Rightarrow> filter_state \<Rightarrow> int" where
  "fs_processed_count client_id s = dget (fs_processed s) client_id 0"

definition fs_forwarded_by_output_of :: "int \<Rightarrow> filter_state \<Rightarrow> (pystr \<times> int) list" where
  "fs_forwarded_by_output_of client_id s = dget (fs_forwarded_by_output s) client_id []"

definition fs_forwarded_count :: "int \<Rightarrow> filter_state \<Rightarrow> int" where
  "fs_forwarded_count client_id s = dget (fs_forwarded s) client_id 0"

definition fs_all_forwarded_of :: "int \<Rightarrow> filter_state \<Rightarrow> (pystr \<times> int) list" where
  "fs_all_forwarded_of client_id s = dget (fs_all_forwarded s) client_id []"

definition fs_flushed_ack_count :: "int \<Rightarrow> filter_state \<Rightarrow> int" where
  "fs_flushed_ack_count client_id s = int (card (dget (fs_flushed_acks s) client_id {}))"

definition fs_is_closed :: "int \<Rightarrow> filter_state \<Rightarrow> bool" where
  "fs_is_closed client_id s \<longleftrightarrow> client_id \<in> fs_closed s"

definition fs_plan_data :: "int \<Rightarrow> (pystr \<times> bytes list) list \<Rightarrow> filter_state \<Rightarrow> (pystr \<times> bytes list) list" where
  "fs_plan_data client_id appends_by_dest s =
     map (\<lambda>(dest, payloads). (dest, plan_append (dest, client_id) payloads (fs_buffer s))) appends_by_dest"

definition fs_plan_drain :: "int \<Rightarrow> filter_state \<Rightarrow> (pystr \<times> bytes) list" where
  "fs_plan_drain client_id s =
     py_dict (map (\<lambda>(k, batch). (fst k, batch)) (plan_drain (\<lambda>k. snd k = client_id) (fs_buffer s)))"

subsection \<open>Applying a change\<close>

definition as_bool :: "json \<Rightarrow> bool res" where
  "as_bool v = (case v of JBool b \<Rightarrow> Inr b | _ \<Rightarrow> Inl TypeError)"

definition as_dict :: "json \<Rightarrow> (pystr \<times> json) list res" where
  "as_dict v = (case v of JObj d \<Rightarrow> Inr d | _ \<Rightarrow> Inl TypeError)"

definition jget_dict :: "json \<Rightarrow> string \<Rightarrow> (pystr \<times> json) list res" where
  "jget_dict v k = rbind (jget v k) as_dict"

definition decode_payloads :: "json \<Rightarrow> bytes list res" where
  "decode_payloads v = rbind (as_list v) (rmap (\<lambda>s. rbind (as_str s) b64decode))"

definition fs_append_dest :: "int \<Rightarrow> pystr \<times> json \<Rightarrow> (filter_state, unit) act" where
  "fs_append_dest client_id = (\<lambda>(dest, v).
     abind (alift (decode_payloads v)) (\<lambda>payloads.
     amodify (fs_buffer_update (apply_append (dest, client_id) payloads))))"

definition fs_count_forwarded :: "int \<Rightarrow> pystr \<times> json \<Rightarrow> (filter_state, unit) act" where
  "fs_count_forwarded client_id = (\<lambda>(output, v).
     abind (alift (as_int v)) (\<lambda>n.
     amodify (\<lambda>s. s\<lparr>fs_forwarded_by_output := add_count client_id output n (fs_forwarded_by_output s),
                   fs_forwarded := dset client_id (fs_forwarded_count client_id s + n) (fs_forwarded s)\<rparr>)))"

definition fs_apply_data :: "int \<Rightarrow> json \<Rightarrow> (filter_state, unit) act" where
  "fs_apply_data client_id change s =
     (if client_id \<in> fs_closed s then (Inr (), s)
      else
        abind (alift (jget_int change ''processed_count'')) (\<lambda>n.
        abind (amodify (\<lambda>s. s\<lparr>fs_processed := dset client_id (fs_processed_count client_id s + n) (fs_processed s)\<rparr>)) (\<lambda>_.
        abind (alift (jget_dict change ''appends_by_dest'')) (\<lambda>appends.
        abind (afor (fs_append_dest client_id) appends) (\<lambda>_.
        abind (amodify (\<lambda>s. s\<lparr>fs_forwarded_by_output :=
                 dset client_id (fs_forwarded_by_output_of client_id s) (fs_forwarded_by_output s)\<rparr>)) (\<lambda>_.
        abind (alift (jget_dict change ''forwarded_by_output'')) (\<lambda>forwarded.
        afor (fs_count_forwarded client_id) forwarded)))))) s)"

definition fs_count_acked :: "int \<Rightarrow> pystr \<times> json \<Rightarrow> (filter_state, unit) act" where
  "fs_count_acked client_id = (\<lambda>(output, v).
     abind (alift (as_int v)) (\<lambda>n.
     amodify (fs_all_forwarded_update (add_count client_id output n))))"

definition fs_apply_flush_ack :: "int \<Rightarrow> json \<Rightarrow> (filter_state, unit) act" where
  "fs_apply_flush_ack client_id change =
     abind (alift (jget_int change ''sender_id'')) (\<lambda>sender_id.
     abind (aget (\<lambda>s. dget (fs_flushed_acks s) client_id {})) (\<lambda>acks.
     abind (amodify (fs_flushed_acks_update (dset client_id (insert sender_id acks)))) (\<lambda>_.
     if sender_id \<in> acks then areturn ()
     else
       abind (amodify (\<lambda>s. s\<lparr>fs_all_forwarded := dset client_id (fs_all_forwarded_of client_id s) (fs_all_forwarded s)\<rparr>)) (\<lambda>_.
       abind (alift (jget_dict change ''forwarded_by_output'')) (\<lambda>forwarded.
       afor (fs_count_acked client_id) forwarded)))))"

definition fs_apply_close :: "int \<Rightarrow> filter_state \<Rightarrow> filter_state" where
  "fs_apply_close client_id s =
     s\<lparr>fs_processed := dpop client_id (fs_processed s), fs_forwarded := dpop client_id (fs_forwarded s),
       fs_forwarded_by_output := dpop client_id (fs_forwarded_by_output s),
       fs_all_forwarded := dpop client_id (fs_all_forwarded s), fs_flushed_acks := dpop client_id (fs_flushed_acks s),
       fs_buffer := bb_discard (\<lambda>k. snd k = client_id) (fs_buffer s), fs_closed := insert client_id (fs_closed s)\<rparr>"

abbreviation fs_set_coordinator :: "eof_coordinator \<Rightarrow> filter_state \<Rightarrow> filter_state" where
  "fs_set_coordinator ec \<equiv> fs_coordinator_update (\<lambda>_. ec)"

definition on_fs_coordinator :: "(eof_coordinator, 'a) act \<Rightarrow> (filter_state, 'a) act" where
  "on_fs_coordinator = azoom fs_coordinator fs_set_coordinator"

definition fs_apply_cleanup :: "int \<Rightarrow> json \<Rightarrow> (filter_state, unit) act" where
  "fs_apply_cleanup client_id change =
     abind (alift (rbind (jget change ''is_leader'') as_bool)) (\<lambda>is_leader.
     amodify (fs_coordinator_update (if is_leader then cleanup_leader_state client_id else cleanup_client client_id)))"

definition fs_changes :: "filter_state change_ops" where
  "fs_changes kind =
     (if kind = lit ''data'' then Some fs_apply_data
      else if kind = lit ''flush_ack'' then Some fs_apply_flush_ack
      else if kind = lit ''close'' then Some (\<lambda>client_id _. amodify (fs_apply_close client_id))
      else if kind = lit ''coordinator_upstream_eof'' then Some (replay_upstream_eof on_fs_coordinator)
      else if kind = lit ''coordinator_msg'' then Some (replay_msg on_fs_coordinator)
      else if kind = lit ''coordinator_cleanup'' then Some fs_apply_cleanup
      else None)"

definition fs_apply_change :: "json \<Rightarrow> (filter_state, unit) act" where
  "fs_apply_change = dispatch_change fs_changes"

subsection \<open>Snapshots\<close>

record filter_dict =
  fsd_processed :: "(int \<times> int) list"
  fsd_forwarded :: "(int \<times> int) list"
  fsd_forwarded_by_output :: "(int \<times> (pystr \<times> int) list) list"
  fsd_closed :: "int set"
  fsd_all_forwarded :: "(int \<times> (pystr \<times> int) list) list"
  fsd_flushed_acks :: "(int \<times> int set) list"
  fsd_buffer :: "(pystr \<times> int) buffer_snapshot"
  fsd_eof_coordinator :: coordinator_dict

definition fs_snapshot :: "filter_state \<Rightarrow> filter_dict option" where
  "fs_snapshot s =
     Some \<lparr>fsd_processed = fs_processed s, fsd_forwarded = fs_forwarded s,
           fsd_forwarded_by_output = fs_forwarded_by_output s, fsd_closed = fs_closed s,
           fsd_all_forwarded = fs_all_forwarded s, fsd_flushed_acks = fs_flushed_acks s,
           fsd_buffer = bb_snapshot (fs_buffer s), fsd_eof_coordinator = coordinator_snapshot (fs_coordinator s)\<rparr>"

text \<open>An empty snapshot leaves the buffer and the coordinator as they are.\<close>

definition fs_restore :: "filter_dict option \<Rightarrow> (filter_state, unit) act" where
  "fs_restore data s =
     (case data of
        None \<Rightarrow>
          (Inr (), s\<lparr>fs_processed := [], fs_forwarded := [], fs_forwarded_by_output := [], fs_closed := {},
             fs_all_forwarded := [], fs_flushed_acks := []\<rparr>)
      | Some d \<Rightarrow>
          (Inr (), s\<lparr>fs_processed := fsd_processed d, fs_forwarded := fsd_forwarded d,
             fs_forwarded_by_output := fsd_forwarded_by_output d, fs_closed := fsd_closed d,
             fs_all_forwarded := fsd_all_forwarded d, fs_flushed_acks := fsd_flushed_acks d,
             fs_buffer := bb_restore (fsd_buffer d) (fs_buffer s),
             fs_coordinator := coordinator_restore (fsd_eof_coordinator d) (fs_coordinator s)\<rparr>))"

definition filter_ops :: "(filter_state, filter_dict option) worker_ops" where
  "filter_ops = \<lparr>apply_change = fs_apply_change, worker_snapshot = fs_snapshot, worker_restore = fs_restore\<rparr>"

subsection \<open>The contracts of the state\<close>

lemma as_bool_dict_simps [simp]: "as_bool (JBool b) = Inr b" "as_dict (JObj d) = Inr d"
  by (simp_all add: as_bool_def as_dict_def)

lemma keeps_fs_steps [keeps_intros]:
  "(\<And>s f. g (fs_buffer_update f s) = g s) \<Longrightarrow> keeps g (fs_append_dest c x)"
  "(\<And>s a b. g (s\<lparr>fs_forwarded_by_output := a, fs_forwarded := b\<rparr>) = g s) \<Longrightarrow> keeps g (fs_count_forwarded c x)"
  "(\<And>s f. g (fs_all_forwarded_update f s) = g s) \<Longrightarrow> keeps g (fs_count_acked c x)"
  by (cases x, simp add: fs_append_dest_def fs_count_forwarded_def fs_count_acked_def keeps_intros)+

lemma keeps_unless [keeps_intros]: "keeps g m \<Longrightarrow> keeps g (\<lambda>s. if P s then (Inr (), s) else m s)"
  by (simp add: keeps_def)

lemma keeps_fs_closed:
  "keeps fs_closed (fs_apply_data c ch)" "keeps fs_closed (fs_apply_flush_ack c ch)" "keeps fs_closed (fs_apply_cleanup c ch)"
  "keeps fs_closed (on_fs_coordinator m)"
proof -
  show "keeps fs_closed (fs_apply_data c ch)"
    unfolding fs_apply_data_def [abs_def] by (intro keeps_intros) simp_all
  show "keeps fs_closed (on_fs_coordinator m)"
    by (auto simp: keeps_def on_fs_coordinator_def azoom_def split: prod.splits)
qed (auto simp: fs_apply_flush_ack_def fs_apply_cleanup_def intro!: keeps_intros)

interpretation fs: closing_state fs_changes fs_closed
proof
  show "fs_closed s \<subseteq> fs_closed (snd (f c ch s))" if "fs_changes kind = Some f" for kind f s c ch
  proof (cases "kind = lit ''close''")
    case True
    with that show ?thesis by (auto simp: fs_changes_def fs_apply_close_def amodify_def)
  next
    case False
    with that have "keeps fs_closed (f c ch)"
      by (auto simp: fs_changes_def replay_upstream_eof_def replay_msg_def split: if_splits intro!: keeps_intros keeps_fs_closed)
    then show ?thesis by (simp add: keeps_def)
  qed
qed (auto simp: fs_changes_def fs_apply_data_def fs_apply_close_def amodify_def)

interpretation fs_co: coordinated_state fs_changes fs_coordinator fs_set_coordinator
  by unfold_locales (simp_all add: fs_changes_def on_fs_coordinator_def)

definition fs_frame :: "filter_state \<Rightarrow> (int \<times> int \<times> pystr \<times> pystr \<times> ec_mode \<times> int \<times> bool) \<times> int \<times> int" where
  "fs_frame s = (coordinator_config (fs_coordinator s), max_bytes (fs_buffer s), max_items (fs_buffer s))"

lemma bb_discard_settings [simp]:
  "max_bytes (bb_discard p b) = max_bytes b" "max_items (bb_discard p b) = max_items b"
proof -
  have "max_bytes (foldl drop_key b ks) = max_bytes b \<and> max_items (foldl drop_key b ks) = max_items b" for ks
    by (induction ks arbitrary: b) simp_all
  then show "max_bytes (bb_discard p b) = max_bytes b" "max_items (bb_discard p b) = max_items b"
    by (simp_all add: bb_discard_def)
qed

lemma bb_restore_snapshot: "max_bytes b = mb \<Longrightarrow> max_items b = mi \<Longrightarrow> bb_restore (bb_snapshot b) (new_batch_buffer mb mi) = b"
  by (cases b) (simp add: bb_restore_def bb_snapshot_def new_batch_buffer_def)

lemma keeps_on_fs [keeps_intros]: "keeps coordinator_config m \<Longrightarrow> keeps fs_frame (on_fs_coordinator m)"
  by (auto simp: keeps_def on_fs_coordinator_def azoom_def fs_frame_def split: prod.splits) (metis snd_conv)

lemma keeps_fs_append [keeps_intros]: "keeps fs_frame (fs_append_dest c x)"
  by (cases x) (auto simp: fs_append_dest_def fs_frame_def intro!: keeps_intros)

lemma keeps_fs_data [keeps_intros]: "keeps fs_frame (fs_apply_data c ch)"
  unfolding fs_apply_data_def [abs_def] by (intro keeps_intros) (simp_all add: fs_frame_def)

lemma cleanup_leader_config: "coordinator_config (cleanup_leader_state c ec) = coordinator_config ec"
  by (simp add: cleanup_leader_state_def coordinator_config_def Let_def)

lemma keeps_fs_ops: "fs_changes kind = Some f \<Longrightarrow> keeps fs_frame (f c ch)"
  by (auto simp: fs_changes_def replay_upstream_eof_def replay_msg_def fs_apply_close_def fs_apply_flush_ack_def fs_apply_cleanup_def
      fs_frame_def cleanup_frame cleanup_leader_config intro!: keeps_intros split: if_splits)

interpretation fs_worker: worker_state filter_ops "new_filter_state ec mb mi" "\<lambda>s. fs_frame s = (coordinator_config ec, mb, mi)" for ec mb mi
proof
  show "fs_frame s' = (coordinator_config ec, mb, mi)"
    if "fs_frame s = (coordinator_config ec, mb, mi)" "apply_change filter_ops ch s = (Inr (), s')" for s ch s'
  proof -
    have "fs_frame (snd (dispatch_change fs_changes ch s)) = (coordinator_config ec, mb, mi)"
      by (rule dispatch_invariant [where I = "\<lambda>s. fs_frame s = (coordinator_config ec, mb, mi)"])
        (use that(1) keeps_fs_ops in \<open>auto simp: keeps_def\<close>)
    with that(2) show ?thesis by (simp add: filter_ops_def fs_apply_change_def)
  qed
  show "fs_frame (new_filter_state ec mb mi) = (coordinator_config ec, mb, mi)"
    by (simp add: fs_frame_def new_filter_state_def new_batch_buffer_def)
qed (auto simp: new_filter_state_def filter_ops_def fs_snapshot_def fs_restore_def fs_frame_def coordinator_restore_snapshot
    bb_restore_snapshot)

subsection \<open>The invariant of the state\<close>

text \<open>
  The batches are below their limits, the forwarded total of a client is the sum over its outputs, and of a closed client
  no counter of its own processing and no batch is kept. The acknowledgements that the leader collects are not covered:
  one that arrives after the close is recorded, so \<open>fs_all_forwarded\<close> and \<open>fs_flushed_acks\<close> may have entries of a
  closed client. What holds of them is \<open>fs_acks_wf\<close>.
\<close>

definition fs_wf :: "filter_state \<Rightarrow> bool" where
  "fs_wf s \<longleftrightarrow> buffer_ok (fs_buffer s) \<and> dict_all dict_wf (fs_forwarded_by_output s) \<and>
     (\<forall>c. fs_forwarded_count c s = sum_list (map snd (fs_forwarded_by_output_of c s))) \<and>
     (\<forall>c \<in> fs_closed s. map_of (fs_processed s) c = None \<and> map_of (fs_forwarded s) c = None \<and>
        map_of (fs_forwarded_by_output s) c = None \<and> (\<forall>dest. map_of (buffers (fs_buffer s)) (dest, c) = None))"

definition fs_acks_wf :: "filter_state \<Rightarrow> bool" where
  "fs_acks_wf s \<longleftrightarrow> (\<forall>c. map_of (fs_all_forwarded s) c \<noteq> None \<longrightarrow> dget (fs_flushed_acks s) c {} \<noteq> {})"

lemma sum_dset: "dict_wf d \<Longrightarrow> sum_list (map snd (dset k (dget d k 0 + n) d)) = sum_list (map snd d) + (n :: int)"
proof (induction d)
  case (Cons x d)
  then show ?case by (cases x) (auto simp: dget_Cons dget_def dset_absent)
qed simp

lemma map_of_buffers_append:
  "k \<noteq> key \<Longrightarrow> map_of (buffers (apply_append key ps b)) k = map_of (buffers b) k"
  by (simp add: apply_append_def split: prod.split)

lemma map_of_foldl_drop: "map_of (buffers (foldl drop_key b ks)) k = (if k \<in> set ks then None else map_of (buffers b) k)"
  "map_of (bytes_by_key (foldl drop_key b ks)) k = (if k \<in> set ks then None else map_of (bytes_by_key b) k)"
  by (induction ks arbitrary: b) simp_all

lemma bb_discard_lookup:
  "map_of (buffers (bb_discard p b)) k = (if p k then None else map_of (buffers b) k)"
  "(map_of (bytes_by_key b) k = None \<longleftrightarrow> map_of (buffers b) k = None) \<Longrightarrow>
   map_of (bytes_by_key (bb_discard p b)) k = (if p k then None else map_of (bytes_by_key b) k)"
proof -
  have "k \<in> fst ` set (buffers b) \<longleftrightarrow> map_of (buffers b) k \<noteq> None" by (simp add: map_of_eq_None_iff)
  then show "map_of (buffers (bb_discard p b)) k = (if p k then None else map_of (buffers b) k)"
    and "(map_of (bytes_by_key b) k = None \<longleftrightarrow> map_of (buffers b) k = None) \<Longrightarrow>
      map_of (bytes_by_key (bb_discard p b)) k = (if p k then None else map_of (bytes_by_key b) k)"
    by (auto simp: bb_discard_def map_of_foldl_drop)
qed

lemma bb_discard_ok:
  assumes "buffer_ok b"
  shows "buffer_ok (bb_discard p b)"
proof -
  have wf: "dict_wf (buffers (foldl drop_key b ks)) \<and> dict_wf (bytes_by_key (foldl drop_key b ks))"
    if "dict_wf (buffers b)" "dict_wf (bytes_by_key b)" for ks
    using that by (induction ks arbitrary: b) simp_all
  have "map_of (bytes_by_key b) k = None \<longleftrightarrow> map_of (buffers b) k = None" for k
    using assms by (simp add: buffer_ok_def)
  with assms wf show ?thesis
    unfolding buffer_ok_def bb_discard_lookup(1)
    by (simp add: bb_discard_lookup(2)) (simp add: bb_discard_def)
qed

lemma fs_wf_new: "fs_wf (new_filter_state ec mb mi)"
  by (simp add: fs_wf_def new_filter_state_def fs_forwarded_count_def fs_forwarded_by_output_of_def)

text \<open>Methods that preserve a predicate of their object, on every outcome.\<close>

definition preserves :: "('s \<Rightarrow> bool) \<Rightarrow> ('s, 'a) act \<Rightarrow> bool" where
  "preserves I m \<longleftrightarrow> (\<forall>s. I s \<longrightarrow> I (snd (m s)))"

lemma preserves_intros:
  "preserves I (areturn x)" "preserves I (alift r)" "preserves I (aget g)"
  "(\<And>s. I s \<Longrightarrow> I (f s)) \<Longrightarrow> preserves I (amodify f)"
  by (simp_all add: preserves_def act_defs)

lemma preserves_abind: "preserves I m \<Longrightarrow> (\<And>x. preserves I (f x)) \<Longrightarrow> preserves I (abind m f)"
  by (fastforce simp: preserves_def abind_def split: prod.splits sum.splits)

lemma preserves_afor: "(\<And>x. preserves I (f x)) \<Longrightarrow> preserves I (afor f xs)"
  by (induction xs) (auto intro: preserves_intros preserves_abind)

abbreviation fs_open :: "int \<Rightarrow> filter_state \<Rightarrow> bool" where
  "fs_open c s \<equiv> fs_wf s \<and> c \<notin> fs_closed s"

lemma fs_open_append: "preserves (fs_open c) (fs_append_dest c x)"
proof (cases x)
  case (Pair dest v)
  have "fs_open c (fs_buffer_update (apply_append (dest, c) ps) s)" if "fs_open c s" for ps s
  proof -
    have "\<forall>c' \<in> fs_closed s. c' \<noteq> c" using that by blast
    with that show ?thesis
      by (simp add: fs_wf_def apply_append_ok map_of_buffers_append fs_forwarded_count_def fs_forwarded_by_output_of_def)
  qed
  with Pair show ?thesis by (auto simp: fs_append_dest_def intro!: preserves_intros preserves_abind)
qed

lemma fs_open_count: "preserves (fs_open c) (fs_count_forwarded c x)"
proof (cases x)
  case (Pair out v)
  let ?f = "\<lambda>n s. s\<lparr>fs_forwarded_by_output := add_count c out n (fs_forwarded_by_output s),
                   fs_forwarded := dset c (fs_forwarded_count c s + n) (fs_forwarded s)\<rparr>"
  have "fs_open c (?f n s)" if "fs_open c s" for n s
  proof -
    have "\<forall>c' \<in> fs_closed s. c' \<noteq> c" using that by blast
    moreover have "dict_wf (dget (fs_forwarded_by_output s) c [])"
      by (rule dict_all_dget) (use that in \<open>simp_all add: fs_wf_def\<close>)
    ultimately show ?thesis using that
      by (simp add: fs_wf_def fs_forwarded_count_def fs_forwarded_by_output_of_def add_count_def Let_def sum_dset)
  qed
  with Pair show ?thesis by (auto simp: fs_count_forwarded_def intro!: preserves_intros preserves_abind)
qed

lemma fs_wf_data: "preserves fs_wf (fs_apply_data c ch)"
proof -
  have base: "fs_open c (s\<lparr>fs_processed := dset c n (fs_processed s)\<rparr>)"
    "fs_open c (s\<lparr>fs_forwarded_by_output := dset c (fs_forwarded_by_output_of c s) (fs_forwarded_by_output s)\<rparr>)"
    if "fs_open c s" for s n
  proof -
    have "\<forall>c' \<in> fs_closed s. c' \<noteq> c" using that by blast
    moreover have "dict_wf (dget (fs_forwarded_by_output s) c [])"
      by (rule dict_all_dget) (use that in \<open>simp_all add: fs_wf_def\<close>)
    ultimately show "fs_open c (s\<lparr>fs_processed := dset c n (fs_processed s)\<rparr>)"
      "fs_open c (s\<lparr>fs_forwarded_by_output := dset c (fs_forwarded_by_output_of c s) (fs_forwarded_by_output s)\<rparr>)"
      using that by (simp_all add: fs_wf_def fs_forwarded_count_def fs_forwarded_by_output_of_def)
  qed
  let ?m = "abind (alift (jget_int ch ''processed_count'')) (\<lambda>n.
        abind (amodify (\<lambda>s. s\<lparr>fs_processed := dset c (fs_processed_count c s + n) (fs_processed s)\<rparr>)) (\<lambda>_.
        abind (alift (jget_dict ch ''appends_by_dest'')) (\<lambda>appends.
        abind (afor (fs_append_dest c) appends) (\<lambda>_.
        abind (amodify (\<lambda>s. s\<lparr>fs_forwarded_by_output :=
                 dset c (fs_forwarded_by_output_of c s) (fs_forwarded_by_output s)\<rparr>)) (\<lambda>_.
        abind (alift (jget_dict ch ''forwarded_by_output'')) (\<lambda>forwarded.
        afor (fs_count_forwarded c) forwarded))))))"
  have "preserves (fs_open c) ?m"
    by (intro preserves_intros preserves_abind preserves_afor fs_open_append fs_open_count base)
  then show ?thesis by (simp add: preserves_def fs_apply_data_def)
qed

lemma fs_wf_close: "fs_wf s \<Longrightarrow> fs_wf (fs_apply_close c s)"
  by (simp add: fs_wf_def fs_apply_close_def bb_discard_ok bb_discard_lookup fs_forwarded_count_def fs_forwarded_by_output_of_def)

lemma fs_wf_ops:
  assumes "fs_changes kind = Some f"
  shows "preserves fs_wf (f c ch)"
proof -
  have other: "fs_wf (fs_coordinator_update g s) = fs_wf s" "fs_wf (s\<lparr>fs_all_forwarded := a\<rparr>) = fs_wf s"
    "fs_wf (fs_all_forwarded_update h s) = fs_wf s" "fs_wf (fs_flushed_acks_update k s) = fs_wf s" for g s a h k
    by (simp_all add: fs_wf_def fs_forwarded_count_def fs_forwarded_by_output_of_def)
  have "preserves fs_wf (on_fs_coordinator m)" for m :: "(eof_coordinator, 'x) act"
    by (auto simp: preserves_def on_fs_coordinator_def azoom_def other split: prod.splits)
  moreover have "preserves fs_wf (fs_count_acked c x)" for x
    by (cases x) (auto simp: fs_count_acked_def other intro!: preserves_intros preserves_abind)
  ultimately show ?thesis
    using assms fs_wf_data fs_wf_close
    by (auto simp: fs_changes_def replay_upstream_eof_def replay_msg_def fs_apply_flush_ack_def fs_apply_cleanup_def other
        intro!: preserves_intros preserves_abind preserves_afor split: if_splits)
qed

lemma fs_wf_change: "fs_wf s \<Longrightarrow> fs_wf (snd (fs_apply_change ch s))"
  unfolding fs_apply_change_def by (rule dispatch_invariant) (use fs_wf_ops in \<open>auto simp: preserves_def\<close>)

text \<open>Totals of acknowledgements are kept only for clients that somebody acknowledged.\<close>

lemma fs_acks_new: "fs_acks_wf (new_filter_state ec mb mi)"
  by (simp add: fs_acks_wf_def new_filter_state_def)

lemma fs_acks_frame [simp]:
  "fs_acks_wf (fs_coordinator_update g s) = fs_acks_wf s" "fs_acks_wf (fs_buffer_update b s) = fs_acks_wf s"
  "fs_acks_wf (fs_processed_update p s) = fs_acks_wf s" "fs_acks_wf (fs_forwarded_by_output_update o' s) = fs_acks_wf s"
  "fs_acks_wf (fs_forwarded_update f s) = fs_acks_wf s"
  by (simp_all add: fs_acks_wf_def)

lemma fs_acks_flush_ack: "preserves fs_acks_wf (fs_apply_flush_ack c ch)"
proof -
  let ?I = "\<lambda>s. fs_acks_wf s \<and> dget (fs_flushed_acks s) c {} \<noteq> {}"
  define rest where "rest sender acks = (if sender \<in> acks then areturn () else
      abind (amodify (\<lambda>s. s\<lparr>fs_all_forwarded := dset c (fs_all_forwarded_of c s) (fs_all_forwarded s)\<rparr>)) (\<lambda>_.
      abind (alift (jget_dict ch ''forwarded_by_output'')) (\<lambda>forwarded. afor (fs_count_acked c) forwarded)))"
    for sender :: int and acks
  have "preserves ?I (fs_count_acked c x)" for x
    by (cases x) (auto simp: fs_count_acked_def fs_acks_wf_def add_count_def Let_def intro!: preserves_intros preserves_abind split: if_splits)
  then have rest: "preserves ?I (rest sender acks)" for sender acks
    by (auto simp: rest_def fs_acks_wf_def intro!: preserves_intros preserves_abind preserves_afor split: if_splits)
  have start: "?I (fs_flushed_acks_update (dset c (insert sender acks)) s)" if "fs_acks_wf s" for s sender acks
    using that by (auto simp: fs_acks_wf_def)
  have "fs_acks_wf (snd (fs_apply_flush_ack c ch s))" if "fs_acks_wf s" for s
  proof (cases "jget_int ch ''sender_id''")
    case (Inr sender)
    let ?acks = "dget (fs_flushed_acks s) c {}"
    have "fs_apply_flush_ack c ch s = rest sender ?acks (fs_flushed_acks_update (dset c (insert sender ?acks)) s)"
      using Inr by (simp add: fs_apply_flush_ack_def rest_def abind_def alift_def aget_def amodify_def)
    with rest start [OF that] show ?thesis unfolding preserves_def by (metis (no_types, lifting))
  qed (use that in \<open>simp add: fs_apply_flush_ack_def abind_def alift_def\<close>)
  then show ?thesis by (simp add: preserves_def)
qed

lemma fs_acks_data: "preserves fs_acks_wf (fs_apply_data c ch)"
proof -
  have "preserves fs_acks_wf (fs_append_dest c x)" "preserves fs_acks_wf (fs_count_forwarded c x)" for x
    by (cases x, auto simp: fs_append_dest_def fs_count_forwarded_def intro!: preserves_intros preserves_abind)+
  then have "preserves fs_acks_wf (abind (alift (jget_int ch ''processed_count'')) (\<lambda>n.
        abind (amodify (\<lambda>s. s\<lparr>fs_processed := dset c (fs_processed_count c s + n) (fs_processed s)\<rparr>)) (\<lambda>_.
        abind (alift (jget_dict ch ''appends_by_dest'')) (\<lambda>appends.
        abind (afor (fs_append_dest c) appends) (\<lambda>_.
        abind (amodify (\<lambda>s. s\<lparr>fs_forwarded_by_output :=
                 dset c (fs_forwarded_by_output_of c s) (fs_forwarded_by_output s)\<rparr>)) (\<lambda>_.
        abind (alift (jget_dict ch ''forwarded_by_output'')) (\<lambda>forwarded.
        afor (fs_count_forwarded c) forwarded)))))))"
    by (auto intro!: preserves_intros preserves_abind preserves_afor)
  then show ?thesis by (simp add: preserves_def fs_apply_data_def)
qed

lemma fs_acks_ops:
  assumes "fs_changes kind = Some f"
  shows "preserves fs_acks_wf (f c ch)"
proof -
  have "preserves fs_acks_wf (on_fs_coordinator m)" for m :: "(eof_coordinator, 'x) act"
    by (auto simp: preserves_def on_fs_coordinator_def azoom_def split: prod.splits)
  moreover have "fs_acks_wf (fs_apply_close c s)" if "fs_acks_wf s" for s
    using that by (simp add: fs_acks_wf_def fs_apply_close_def)
  ultimately show ?thesis
    using assms fs_acks_data fs_acks_flush_ack
    by (auto simp: fs_changes_def replay_upstream_eof_def replay_msg_def fs_apply_cleanup_def
        intro!: preserves_intros preserves_abind split: if_splits)
qed

lemma fs_acks_change: "fs_acks_wf s \<Longrightarrow> fs_acks_wf (snd (fs_apply_change ch s))"
  unfolding fs_apply_change_def by (rule dispatch_invariant) (use fs_acks_ops in \<open>auto simp: preserves_def\<close>)

subsection \<open>What a data change does\<close>

definition appended :: "int \<Rightarrow> (pystr \<times> bytes list) list \<Rightarrow> (pystr \<times> int) batch_buffer \<Rightarrow> (pystr \<times> int) batch_buffer" where
  "appended c appends b = foldl (\<lambda>b (dest, ps). apply_append (dest, c) ps b) b appends"

lemma decode_payloads_b64: "decode_payloads (JList (map (\<lambda>p. JStr (b64encode p)) ps)) = Inr ps"
proof -
  have "rmap (\<lambda>s. rbind (as_str s) b64decode) (map (\<lambda>p. JStr (b64encode p)) ps) = Inr ps"
    by (induction ps) (simp_all add: b64_roundtrip)
  then show ?thesis by (simp add: decode_payloads_def)
qed

lemma appends_applied: "afor (fs_append_dest c) (json_appends app) s = (Inr (), s\<lparr>fs_buffer := appended c app (fs_buffer s)\<rparr>)"
proof (induction app arbitrary: s)
  case (Cons x app)
  then show ?case
    by (cases x) (simp add: json_appends_def appended_def fs_append_dest_def act_defs decode_payloads_b64)
qed (simp add: json_appends_def appended_def areturn_def)

lemma counts_applied:
  "\<exists>a b. afor (fs_count_forwarded c) (json_counts fwd) s = (Inr (), s\<lparr>fs_forwarded_by_output := a, fs_forwarded := b\<rparr>) \<and>
     (\<forall>c' out. dget (dget a c' []) out 0 =
        dget (fs_forwarded_by_output_of c' s) out 0 + (if c' = c then sum_list (of_key out fwd) else 0)) \<and>
     fst ` set (dget a c []) = fst ` set (fs_forwarded_by_output_of c s) \<union> fst ` set fwd"
proof (induction fwd arbitrary: s)
  case Nil
  show ?case
    by (intro exI [of _ "fs_forwarded_by_output s"] exI [of _ "fs_forwarded s"])
      (simp add: json_counts_def areturn_def fs_forwarded_by_output_of_def)
next
  case (Cons x fwd)
  obtain out n where x: "x = (out, n)" by (cases x)
  let ?s = "s\<lparr>fs_forwarded_by_output := add_count c out n (fs_forwarded_by_output s),
              fs_forwarded := dset c (fs_forwarded_count c s + n) (fs_forwarded s)\<rparr>"
  from Cons [of ?s] obtain a b where ab: "afor (fs_count_forwarded c) (json_counts fwd) ?s =
      (Inr (), ?s\<lparr>fs_forwarded_by_output := a, fs_forwarded := b\<rparr>)"
    "\<forall>c' o'. dget (dget a c' []) o' 0 = dget (fs_forwarded_by_output_of c' ?s) o' 0 + (if c' = c then sum_list (of_key o' fwd) else 0)"
    "fst ` set (dget a c []) = fst ` set (fs_forwarded_by_output_of c ?s) \<union> fst ` set fwd"
    by blast
  have "afor (fs_count_forwarded c) (json_counts (x # fwd)) s = (Inr (), s\<lparr>fs_forwarded_by_output := a, fs_forwarded := b\<rparr>)"
    using ab(1) by (simp add: x json_counts_def fs_count_forwarded_def act_defs)
  moreover have "dget (dget a c' []) o' 0 = dget (fs_forwarded_by_output_of c' s) o' 0 + (if c' = c then sum_list (of_key o' (x # fwd)) else 0)"
    for c' o'
    using ab(2) [rule_format, of c' o'] by (simp add: x fs_forwarded_by_output_of_def add_count_def Let_def)
  moreover have "fst ` set (dget a c []) = fst ` set (fs_forwarded_by_output_of c s) \<union> fst ` set (x # fwd)"
    using ab(3) by (simp add: x fs_forwarded_by_output_of_def add_count_def Let_def dom_update)
  ultimately show ?case by blast
qed

lemma data_change_fields:
  "jget_int (fs_data_change c n app fwd) ''processed_count'' = Inr n"
  "jget_dict (fs_data_change c n app fwd) ''appends_by_dest'' = Inr (json_appends app)"
  "jget_dict (fs_data_change c n app fwd) ''forwarded_by_output'' = Inr (json_counts fwd)"
  by (simp_all add: fs_data_change_def jget_simps jget_dict_def)

lemma fs_apply_data_dispatch: "fs_apply_change (fs_data_change c n app fwd) = fs_apply_data c (fs_data_change c n app fwd)"
  unfolding fs_apply_change_def
  by (subst dispatch_change.simps) (simp add: fs_data_change_def jget_simps fs_changes_def)

lemma data_applied:
  assumes "c \<notin> fs_closed s"
  shows "\<exists>s'. fs_apply_change (fs_data_change c n app fwd) s = (Inr (), s') \<and>
    fs_processed_count c s' = fs_processed_count c s + n \<and> fs_buffer s' = appended c app (fs_buffer s) \<and>
    (\<forall>out. dget (fs_forwarded_by_output_of c s') out 0 = dget (fs_forwarded_by_output_of c s) out 0 + sum_list (of_key out fwd)) \<and>
    fs_closed s' = fs_closed s \<and> fs_coordinator s' = fs_coordinator s \<and> fs_all_forwarded s' = fs_all_forwarded s \<and>
    fs_flushed_acks s' = fs_flushed_acks s \<and>
    fst ` set (fs_forwarded_by_output_of c s') = fst ` set (fs_forwarded_by_output_of c s) \<union> fst ` set fwd"
proof -
  let ?s1 = "s\<lparr>fs_processed := dset c (fs_processed_count c s + n) (fs_processed s)\<rparr>"
  let ?s2 = "?s1\<lparr>fs_buffer := appended c app (fs_buffer s)\<rparr>"
  let ?s3 = "?s2\<lparr>fs_forwarded_by_output := dset c (fs_forwarded_by_output_of c ?s2) (fs_forwarded_by_output ?s2)\<rparr>"
  obtain a b where ab: "afor (fs_count_forwarded c) (json_counts fwd) ?s3 = (Inr (), ?s3\<lparr>fs_forwarded_by_output := a, fs_forwarded := b\<rparr>)"
    "\<forall>c' out. dget (dget a c' []) out 0 =
        dget (fs_forwarded_by_output_of c' ?s3) out 0 + (if c' = c then sum_list (of_key out fwd) else 0)"
    "fst ` set (dget a c []) = fst ` set (fs_forwarded_by_output_of c ?s3) \<union> fst ` set fwd"
    using counts_applied [of c fwd ?s3] by blast
  have "fs_apply_change (fs_data_change c n app fwd) s = (Inr (), ?s3\<lparr>fs_forwarded_by_output := a, fs_forwarded := b\<rparr>)"
    using assms ab(1)
    by (simp add: fs_apply_data_dispatch fs_apply_data_def data_change_fields appends_applied act_defs)
  moreover have "dget (dget a c []) out 0 = dget (fs_forwarded_by_output_of c s) out 0 + sum_list (of_key out fwd)" for out
    using ab(2) [rule_format, of c out] by (simp add: fs_forwarded_by_output_of_def)
  moreover have "fst ` set (dget a c []) = fst ` set (fs_forwarded_by_output_of c s) \<union> fst ` set fwd"
    using ab(3) by (simp add: fs_forwarded_by_output_of_def)
  ultimately show ?thesis
    by (intro exI [of _ "?s3\<lparr>fs_forwarded_by_output := a, fs_forwarded := b\<rparr>"])
      (simp add: fs_processed_count_def fs_forwarded_by_output_of_def)
qed

lemma data_closed: "c \<in> fs_closed s \<Longrightarrow> fs_apply_change (fs_data_change c n app fwd) s = (Inr (), s)"
  by (simp add: fs_apply_data_dispatch fs_apply_data_def)

text \<open>The batches foretold for a destination, and what is kept for it afterwards, are what was kept and what was appended.\<close>

lemma kept_appended_other: "dest \<notin> fst ` set app \<Longrightarrow> kept (appended c app b) (dest, c) = kept b (dest, c)"
proof (induction app arbitrary: b)
  case (Cons x app)
  then show ?case by (cases x) (auto simp: appended_def kept_apply_append)
qed (simp add: appended_def)

lemma kept_appended_client: "c' \<noteq> c \<Longrightarrow> kept (appended c app b) (dest, c') = kept b (dest, c')"
proof (induction app arbitrary: b)
  case (Cons x app)
  then show ?case by (cases x) (auto simp: appended_def kept_apply_append)
qed (simp add: appended_def)

lemma plan_append_other: "k \<noteq> key \<Longrightarrow> plan_append k ps (apply_append key qs b) = plan_append k ps b"
proof -
  assume "k \<noteq> key"
  then have "dget (bytes_by_key (apply_append key qs b)) k 0 = dget (bytes_by_key b) k 0"
    by (simp add: apply_append_def split: prod.split)
  with \<open>k \<noteq> key\<close> show ?thesis by (simp add: plan_append_def simulate_key_def kept_apply_append)
qed

lemma appended_flow:
  assumes "dict_wf app"
  shows "concat (of_key dest (concat (map (\<lambda>(d, ps). map (Pair d) (plan_append (d, c) ps b)) app))) @ concat (kept (appended c app b) (dest, c)) =
    concat (kept b (dest, c)) @ concat (dget app dest [])"
  using assms
proof (induction app arbitrary: b)
  case (Cons x app)
  obtain d ps where x: "x = (d, ps)" by (cases x)
  let ?b = "apply_append (d, c) ps b"
  have new: "d \<notin> fst ` set app" using Cons.prems by (simp add: x map_of_eq_None_iff)
  have plans: "map (\<lambda>(d', ps'). map (Pair d') (plan_append (d', c) ps' ?b)) app = map (\<lambda>(d', ps'). map (Pair d') (plan_append (d', c) ps' b)) app"
  proof (rule map_cong [OF refl])
    fix y assume "y \<in> set app"
    with new have "fst y \<noteq> d" by auto
    then show "(\<lambda>(d', ps'). map (Pair d') (plan_append (d', c) ps' ?b)) y = (\<lambda>(d', ps'). map (Pair d') (plan_append (d', c) ps' b)) y"
      by (cases y) (simp add: plan_append_other)
  qed
  from Cons have IH: "concat (of_key dest (concat (map (\<lambda>(d, ps). map (Pair d) (plan_append (d, c) ps b)) app))) @
      concat (kept (appended c app ?b) (dest, c)) = concat (kept ?b (dest, c)) @ concat (dget app dest [])"
    by (simp add: x plans [symmetric])
  show ?case
  proof (cases "dest = d")
    case True
    have "of_key d (concat (map (\<lambda>(d', ps'). map (Pair d') (plan_append (d', c) ps' b)) app)) = []"
      using new by (induction app) (auto simp: of_key_append of_key_Pair)
    with True new plan_apply_flow [of "(d, c)" ps b] kept_appended_other [OF new, of c ?b] show ?thesis
      by (simp add: x of_key_append of_key_Pair appended_def dget_Cons)
  next
    case False
    with IH show ?thesis by (simp add: x of_key_append of_key_Pair appended_def dget_Cons kept_apply_append)
  qed
qed (simp add: appended_def)

lemma appended_ok: "buffer_ok b \<Longrightarrow> buffer_ok (appended c app b)"
  by (induction app arbitrary: b) (auto simp: appended_def apply_append_ok)

subsection \<open>What an acknowledgement does\<close>

lemma acked_applied:
  "\<exists>a. afor (fs_count_acked c) (json_counts counts) s = (Inr (), s\<lparr>fs_all_forwarded := a\<rparr>) \<and>
     (\<forall>out. dget (dget a c []) out 0 = dget (fs_all_forwarded_of c s) out 0 + sum_list (of_key out counts))"
proof (induction counts arbitrary: s)
  case Nil
  show ?case by (intro exI [of _ "fs_all_forwarded s"]) (simp add: json_counts_def areturn_def fs_all_forwarded_of_def)
next
  case (Cons x counts)
  obtain out n where x: "x = (out, n)" by (cases x)
  let ?s = "fs_all_forwarded_update (add_count c out n) s"
  from Cons [of ?s] obtain a where a: "afor (fs_count_acked c) (json_counts counts) ?s = (Inr (), ?s\<lparr>fs_all_forwarded := a\<rparr>)"
    "\<forall>o'. dget (dget a c []) o' 0 = dget (fs_all_forwarded_of c ?s) o' 0 + sum_list (of_key o' counts)" by blast
  have "afor (fs_count_acked c) (json_counts (x # counts)) s = (Inr (), s\<lparr>fs_all_forwarded := a\<rparr>)"
    using a(1) by (simp add: x json_counts_def fs_count_acked_def act_defs)
  moreover have "dget (dget a c []) o' 0 = dget (fs_all_forwarded_of c s) o' 0 + sum_list (of_key o' (x # counts))" for o'
    using a(2) [rule_format, of o'] by (simp add: x fs_all_forwarded_of_def add_count_def Let_def)
  ultimately show ?case by blast
qed

lemma flush_ack_applied:
  assumes "sender \<notin> dget (fs_flushed_acks s) c {}"
  shows "\<exists>a. fs_apply_change (fs_flush_ack_change c sender (json_counts counts)) s =
      (Inr (), s\<lparr>fs_flushed_acks := dset c (insert sender (dget (fs_flushed_acks s) c {})) (fs_flushed_acks s), fs_all_forwarded := a\<rparr>) \<and>
    (\<forall>out. dget (dget a c []) out 0 = dget (fs_all_forwarded_of c s) out 0 + sum_list (of_key out counts))"
proof -
  let ?s1 = "s\<lparr>fs_flushed_acks := dset c (insert sender (dget (fs_flushed_acks s) c {})) (fs_flushed_acks s)\<rparr>"
  let ?s2 = "?s1\<lparr>fs_all_forwarded := dset c (fs_all_forwarded_of c ?s1) (fs_all_forwarded ?s1)\<rparr>"
  obtain a where a: "afor (fs_count_acked c) (json_counts counts) ?s2 = (Inr (), ?s2\<lparr>fs_all_forwarded := a\<rparr>)"
    "\<forall>out. dget (dget a c []) out 0 = dget (fs_all_forwarded_of c ?s2) out 0 + sum_list (of_key out counts)"
    using acked_applied [of c counts ?s2] by blast
  have "fs_apply_change (fs_flush_ack_change c sender (json_counts counts)) = fs_apply_flush_ack c (fs_flush_ack_change c sender (json_counts counts))"
    unfolding fs_apply_change_def
    by (subst dispatch_change.simps) (simp add: fs_flush_ack_change_def jget_simps fs_changes_def)
  moreover have upd: "fs_flushed_acks_update (dset c x) s = s\<lparr>fs_flushed_acks := dset c x (fs_flushed_acks s)\<rparr>" for x
    by (cases s) simp
  ultimately have "fs_apply_change (fs_flush_ack_change c sender (json_counts counts)) s = (Inr (), ?s2\<lparr>fs_all_forwarded := a\<rparr>)"
    using a assms by (simp add: fs_apply_flush_ack_def fs_flush_ack_change_def jget_simps jget_dict_def act_defs upd)
  with a(2) show ?thesis by (intro exI [of _ a]) (simp add: fs_all_forwarded_of_def)
qed

text \<open>
  C6: whatever changes are applied to a fresh state, applicable or not, in whatever order: the forwarded total of each
  client is the sum over its outputs, every batch that is kept is non-empty and below both limits with its
  size counted, a closed client has no processed and no forwarded counter and no batch left, totals collected from flush
  acknowledgements exist only for clients that some replica acknowledged, and the settings are as at the start. (What the
  leader collects from acknowledgements is outside the clause on closed clients: one that arrives late is recorded.)
\<close>

theorem filter_state_invariant:
  "fs_wf (foldl (\<lambda>s ch. snd (fs_apply_change ch s)) (new_filter_state ec mb mi) chs) \<and>
   fs_acks_wf (foldl (\<lambda>s ch. snd (fs_apply_change ch s)) (new_filter_state ec mb mi) chs) \<and>
   fs_frame (foldl (\<lambda>s ch. snd (fs_apply_change ch s)) (new_filter_state ec mb mi) chs) = (coordinator_config ec, mb, mi)"
proof (induction chs rule: rev_induct)
  case Nil
  show ?case using fs_wf_new [of ec mb mi] fs_acks_new [of ec mb mi] fs_worker.good_init [of ec mb mi] by simp
next
  case (snoc ch chs)
  let ?s = "foldl (\<lambda>s ch. snd (fs_apply_change ch s)) (new_filter_state ec mb mi) chs"
  have "fs_frame (snd (dispatch_change fs_changes ch ?s)) = (coordinator_config ec, mb, mi)"
    by (rule dispatch_invariant [where I = "\<lambda>s. fs_frame s = (coordinator_config ec, mb, mi)"])
      (use snoc keeps_fs_ops in \<open>auto simp: keeps_def\<close>)
  with fs_wf_change [of ?s ch] fs_acks_change [of ?s ch] snoc show ?case by (simp add: fs_apply_change_def)
qed

end
