(* ===== verification/FilterConfig.thy ===== *)
theory FilterConfig
  imports ShardedPublisher FilterState
begin

text \<open>
  The settings of \<open>workers/filter/filters.py\<close>: what the module reads from the environment, the queues, exchanges and
  edges each configuration writes to, and the bindings it declares for them. The environment is a parameter.
\<close>

subsection \<open>The environment\<close>

type_synonym environ = "pystr \<Rightarrow> pystr option"

definition environ_get :: "environ \<Rightarrow> string \<Rightarrow> pystr res" where
  "environ_get env k = (case env (lit k) of None \<Rightarrow> Inl KeyError | Some v \<Rightarrow> Inr v)"

definition getenv :: "environ \<Rightarrow> string \<Rightarrow> pystr \<Rightarrow> pystr" where
  "getenv env k dflt = (case env (lit k) of None \<Rightarrow> dflt | Some v \<Rightarrow> v)"

definition environ_int :: "environ \<Rightarrow> string \<Rightarrow> int res" where
  "environ_int env k = rbind (environ_get env k) py_int"

definition getenv_int :: "environ \<Rightarrow> string \<Rightarrow> pystr \<Rightarrow> int res" where
  "getenv_int env k dflt = py_int (getenv env k dflt)"

definition env_flag :: "environ \<Rightarrow> string \<Rightarrow> bool" where
  "env_flag env k \<longleftrightarrow> getenv env k (lit ''1'') \<noteq> lit ''0''"

definition C_Q1 :: pystr where "C_Q1 = lit ''Q1''"
definition C_Q5 :: pystr where "C_Q5 = lit ''Q5''"
definition C_USD :: pystr where "C_USD = lit ''USD''"
definition C_DATE :: pystr where "C_DATE = lit ''DATE''"
definition Q4_FILTER_OUTPUT :: pystr where "Q4_FILTER_OUTPUT = lit ''q4_filter''"
definition SUM_Q2_OUTPUT :: pystr where "SUM_Q2_OUTPUT = lit ''sum_q2''"

text \<open>An exchange with one queue per shard. The name of an exchange may be unset.\<close>

record sharded_output =
  so_exchange :: "pystr option"
  so_prefix :: pystr
  so_amount :: int

definition truthy :: "pystr option \<Rightarrow> bool" where
  "truthy v \<longleftrightarrow> v \<noteq> None \<and> v \<noteq> Some []"

definition no_sharded_output :: sharded_output where
  "no_sharded_output = \<lparr>so_exchange = Some [], so_prefix = [], so_amount = 0\<rparr>"

definition environ_sharded :: "environ \<Rightarrow> bool \<Rightarrow> string \<Rightarrow> sharded_output res" where
  "environ_sharded env enabled name =
     (if enabled then
        rbind (environ_get env (name @ ''_EXCHANGE'')) (\<lambda>exchange.
        rbind (environ_get env (name @ ''_ROUTING_PREFIX'')) (\<lambda>pre.
        rbind (environ_int env (name @ ''_AMOUNT'')) (\<lambda>n.
        Inr \<lparr>so_exchange = Some exchange, so_prefix = pre, so_amount = n\<rparr>)))
      else Inr no_sharded_output)"

record filter_config =
  fc_id :: int
  fc_configuration :: pystr
  fc_input_queue :: pystr
  fc_input_exchange :: "pystr option"
  fc_input_prefix :: "pystr option"
  fc_gateway_queue :: pystr
  fc_date_queue :: pystr
  fc_q1_queue :: pystr
  fc_mapper_queue :: pystr
  fc_q5_usd_queue :: pystr
  fc_q3_candidates_queue :: pystr
  fc_sum_q3_queue :: pystr
  fc_q4 :: sharded_output
  fc_q3_candidates :: sharded_output
  fc_sum_q3 :: sharded_output
  fc_amount :: int
  fc_prefix :: pystr
  fc_enable_q1 :: bool
  fc_enable_q2 :: bool
  fc_enable_date :: bool
  fc_enable_q3 :: bool
  fc_enable_q4 :: bool
  fc_q1 :: sharded_output
  fc_q5_usd :: sharded_output
  fc_sum_q2 :: sharded_output
  fc_date :: sharded_output
  fc_batch_bytes :: int
  fc_batch_max_tx :: int
  fc_snapshot_interval :: int

definition load_filter_config :: "environ \<Rightarrow> filter_config res" where
  "load_filter_config env =
     rbind (environ_int env ''ID'') (\<lambda>id.
     rbind (environ_get env ''MOM_HOST'') (\<lambda>_.
     rbind (environ_get env ''CONFIGURATION'') (\<lambda>configuration.
     rbind (environ_get env ''INPUT_QUEUE'') (\<lambda>input_queue.
     rbind (environ_get env ''GATEWAY_QUEUE'') (\<lambda>gateway_queue.
     rbind (environ_get env ''FILTER_DATE_QUEUE'') (\<lambda>date_queue.
     rbind (environ_get env ''FILTER_Q1_QUEUE'') (\<lambda>q1_queue.
     rbind (environ_get env ''FILTER_Q3_QUEUE'') (\<lambda>q3_queue.
     rbind (environ_get env ''SCATTER_GATHER_MAPPER_QUEUE'') (\<lambda>mapper_queue.
     rbind (environ_get env ''FILTER_Q5_USD_QUEUE'') (\<lambda>q5_usd_queue.
     rbind (getenv_int env ''Q4_FILTER_AMOUNT'' (lit ''1'')) (\<lambda>q4_amount.
     rbind (getenv_int env ''Q3_BARRIER_AMOUNT'' (lit ''1'')) (\<lambda>q3_barrier_amount.
     rbind (environ_get env ''SUM_PREFIX'') (\<lambda>sum_prefix.
     rbind (getenv_int env ''SUM_Q3_AMOUNT'' (lit ''0'')) (\<lambda>sum_q3_amount.
     rbind (environ_int env ''FILTER_AMOUNT'') (\<lambda>amount.
     rbind (environ_get env ''FILTER_PREFIX'') (\<lambda>filter_prefix.
     rbind (environ_sharded env (configuration = C_USD \<and> env_flag env ''USD_ENABLE_Q1'') ''FILTER_Q1'') (\<lambda>q1.
     rbind (environ_sharded env (configuration = C_Q5) ''FILTER_Q5_USD'') (\<lambda>q5_usd.
     rbind (environ_sharded env (configuration = C_USD \<and> env_flag env ''USD_ENABLE_Q2'') ''SUM_Q2'') (\<lambda>sum_q2.
     rbind (environ_sharded env (configuration = C_USD \<and> env_flag env ''USD_ENABLE_DATE'') ''FILTER_DATE'') (\<lambda>date.
     rbind (getenv_int env ''FILTER_OUTPUT_BATCH_BYTES'' (lit ''1048576'')) (\<lambda>batch_bytes.
     rbind (getenv_int env ''FILTER_OUTPUT_BATCH_MAX_TX'' (lit ''5000'')) (\<lambda>batch_max_tx.
     rbind (getenv_int env ''SNAPSHOT_INTERVAL'' (lit ''1000'')) (\<lambda>snapshot_interval.
     Inr \<lparr>fc_id = id, fc_configuration = configuration, fc_input_queue = input_queue,
          fc_input_exchange = env (lit ''INPUT_EXCHANGE''), fc_input_prefix = env (lit ''INPUT_ROUTING_PREFIX''),
          fc_gateway_queue = gateway_queue, fc_date_queue = date_queue, fc_q1_queue = q1_queue,
          fc_mapper_queue = mapper_queue, fc_q5_usd_queue = q5_usd_queue,
          fc_q3_candidates_queue = getenv env ''Q3_CANDIDATES_QUEUE'' q3_queue,
          fc_sum_q3_queue = getenv env ''SUM_Q3_QUEUE'' sum_prefix,
          fc_q4 = \<lparr>so_exchange = env (lit ''Q4_FILTER_INPUT_EXCHANGE''),
                   so_prefix = getenv env ''Q4_FILTER_INPUT_ROUTING_PREFIX'' (lit ''q4_filter''), so_amount = q4_amount\<rparr>,
          fc_q3_candidates = \<lparr>so_exchange = env (lit ''Q3_CANDIDATES_EXCHANGE''),
                   so_prefix = getenv env ''Q3_CANDIDATES_ROUTING_PREFIX'' (lit ''q3_candidates''), so_amount = q3_barrier_amount\<rparr>,
          fc_sum_q3 = \<lparr>so_exchange = Some (getenv env ''SUM_Q3_EXCHANGE'' []),
                   so_prefix = getenv env ''SUM_Q3_ROUTING_PREFIX'' sum_prefix, so_amount = sum_q3_amount\<rparr>,
          fc_amount = amount, fc_prefix = filter_prefix @ lit ''_'' @ configuration,
          fc_enable_q1 = env_flag env ''USD_ENABLE_Q1'', fc_enable_q2 = env_flag env ''USD_ENABLE_Q2'',
          fc_enable_date = env_flag env ''USD_ENABLE_DATE'', fc_enable_q3 = env_flag env ''DATE_ENABLE_Q3'',
          fc_enable_q4 = env_flag env ''DATE_ENABLE_Q4'', fc_q1 = q1, fc_q5_usd = q5_usd, fc_sum_q2 = sum_q2, fc_date = date,
          fc_batch_bytes = batch_bytes, fc_batch_max_tx = batch_max_tx, fc_snapshot_interval = snapshot_interval\<rparr>)))))))))))))))))))))))"

subsection \<open>Edges and queues\<close>

definition q4_routing_key :: "filter_config \<Rightarrow> int \<Rightarrow> pystr res" where
  "q4_routing_key cfg part = queue_name_for_worker (so_prefix (fc_q4 cfg)) part [95]"

definition q4_sharded :: "filter_config \<Rightarrow> bool" where
  "q4_sharded cfg \<longleftrightarrow> truthy (so_exchange (fc_q4 cfg))"

definition q4_output_names :: "filter_config \<Rightarrow> pystr list res" where
  "q4_output_names cfg =
     (if \<not> q4_sharded cfg then Inr [fc_mapper_queue cfg]
      else rmap (q4_routing_key cfg) [0..so_amount (fc_q4 cfg) - 1])"

definition build_output_edges :: "filter_config \<Rightarrow> (pystr \<times> edge_spec) list res" where
  "build_output_edges cfg =
     (let edge = (\<lambda>n. \<lparr>edge_sender_id = fc_id cfg, shard_count = n\<rparr>);
          q5 = (if fc_configuration cfg = C_Q5 then [(fc_q5_usd_queue cfg, edge (so_amount (fc_q5_usd cfg)))] else []);
          usd = (if fc_configuration cfg = C_USD then
                   (if fc_enable_q1 cfg then [(fc_q1_queue cfg, edge (so_amount (fc_q1 cfg)))] else []) @
                   (if fc_enable_q2 cfg then [(SUM_Q2_OUTPUT, edge (so_amount (fc_sum_q2 cfg)))] else []) @
                   (if fc_enable_date cfg then [(fc_date_queue cfg, edge (so_amount (fc_date cfg)))] else [])
                 else []);
          q3 = (if fc_configuration cfg = C_DATE \<and> fc_enable_q3 cfg then
                  [(fc_sum_q3_queue cfg, edge (so_amount (fc_sum_q3 cfg))),
                   (fc_q3_candidates_queue cfg, edge (so_amount (fc_q3_candidates cfg)))] else []) in
      if fc_configuration cfg = C_DATE \<and> fc_enable_q4 cfg then
        rbind (q4_output_names cfg) (\<lambda>names. Inr (py_dict (q5 @ usd @ q3 @ map (\<lambda>name. (name, edge 1)) names)))
      else Inr (py_dict (q5 @ usd @ q3)))"

text \<open>\<open>_new_output_queues\<close>: the publishers by destination. An exchange without a name is the default exchange.\<close>

datatype publisher = ToQueue pystr | ToExchange pystr pystr | ToShards sharded_publisher

definition sharded_publisher_for :: "sharded_output \<Rightarrow> publisher res" where
  "sharded_publisher_for so =
     rbind (new_sharded_publisher (case so_exchange so of None \<Rightarrow> [] | Some x \<Rightarrow> x) (so_prefix so) (so_amount so) client_id_key)
       (\<lambda>p. Inr (ToShards p))"

fun named_publishers :: "(pystr \<times> sharded_output) list \<Rightarrow> (pystr \<times> publisher) list res" where
  "named_publishers [] = Inr []"
| "named_publishers ((name, so) # rest) =
     rbind (sharded_publisher_for so) (\<lambda>p. rbind (named_publishers rest) (\<lambda>ps. Inr ((name, p) # ps)))"

definition new_output_queues :: "filter_config \<Rightarrow> (pystr \<times> publisher) list res" where
  "new_output_queues cfg =
     (let q1 = (if fc_configuration cfg = C_Q1 then [(fc_gateway_queue cfg, ToQueue (fc_gateway_queue cfg))] else []);
          q5 = (if fc_configuration cfg = C_Q5 then [(fc_q5_usd_queue cfg, fc_q5_usd cfg)] else []);
          usd = (if fc_configuration cfg = C_USD then
                   (if fc_enable_q1 cfg then [(fc_q1_queue cfg, fc_q1 cfg)] else []) @
                   (if fc_enable_q2 cfg then [(SUM_Q2_OUTPUT, fc_sum_q2 cfg)] else []) @
                   (if fc_enable_date cfg then [(fc_date_queue cfg, fc_date cfg)] else [])
                 else []);
          q3 = (if fc_configuration cfg = C_DATE \<and> fc_enable_q3 cfg then
                  [(fc_sum_q3_queue cfg, fc_sum_q3 cfg), (fc_q3_candidates_queue cfg, fc_q3_candidates cfg)] else []) in
      rbind (named_publishers (q5 @ usd)) (\<lambda>sharded.
      rbind (if fc_configuration cfg = C_DATE \<and> fc_enable_q4 cfg then
               (if q4_sharded cfg then
                  rmap (\<lambda>part. rbind (q4_routing_key cfg part) (\<lambda>k. Inr (k, ToExchange (the (so_exchange (fc_q4 cfg))) k)))
                    [0..so_amount (fc_q4 cfg) - 1]
                else Inr [(fc_mapper_queue cfg, ToQueue (fc_mapper_queue cfg))])
             else Inr []) (\<lambda>q4.
      rbind (named_publishers q3) (\<lambda>q3_publishers.
      Inr (py_dict (q1 @ sharded @ q4 @ q3_publishers))))))"

text \<open>\<open>_ensure_output_bindings\<close>: for each exchange, the queues bound to it under their own names.\<close>

definition sharded_bindings :: "sharded_output \<Rightarrow> (pystr option \<times> pystr list) res" where
  "sharded_bindings so =
     rbind (rmap (\<lambda>i. queue_name_for_worker (so_prefix so) i [95]) [0..so_amount so - 1]) (\<lambda>names.
     Inr (so_exchange so, names))"

definition output_bindings :: "filter_config \<Rightarrow> (pystr option \<times> pystr list) list res" where
  "output_bindings cfg =
     (if fc_configuration cfg = C_Q5 then rmap sharded_bindings [fc_q5_usd cfg]
      else if fc_configuration cfg = C_USD then
        rmap sharded_bindings
          ((if fc_enable_q1 cfg then [fc_q1 cfg] else []) @ (if fc_enable_q2 cfg then [fc_sum_q2 cfg] else []) @
           (if fc_enable_date cfg then [fc_date cfg] else []))
      else
        rmap sharded_bindings
          ((if fc_configuration cfg = C_DATE \<and> fc_enable_q3 cfg then [fc_sum_q3 cfg, fc_q3_candidates cfg] else []) @
           (if fc_configuration cfg = C_DATE \<and> fc_enable_q4 cfg \<and> q4_sharded cfg then [fc_q4 cfg] else [])))"

definition filter_coordinator :: "filter_config \<Rightarrow> eof_coordinator res" where
  "filter_coordinator cfg =
     new_coordinator (fc_id cfg) (fc_amount cfg) (fc_prefix cfg @ lit ''_control'') (fc_prefix cfg @ lit ''_response'')
       (lit ''broadcast'') 0"

definition input_routing_key :: "filter_config \<Rightarrow> pystr res" where
  "input_routing_key cfg =
     queue_name_for_worker (case fc_input_prefix cfg of None \<Rightarrow> lit ''None'' | Some pre \<Rightarrow> pre) (fc_id cfg) [95]"

end
