(* ===== verification/FilterWorker.thy ===== *)
theory FilterWorker
  imports FilterConfig
begin

text \<open>
  \<open>workers/filter/filters.py\<close>: the worker that filters transactions by the rule of its configuration, routes those that pass to
  the outputs of the configuration and, at the end of a client, agrees with its replicas on the totals that the
  EOFs announce. The packets of an edge are numbered by the sequencer of the handler; two counters in the
  worker object number the packets of outputs that are no edge.
\<close>

subsection \<open>Filtering and routing\<close>

record filter_setup =
  fu_config :: filter_config
  fu_edges :: "(pystr \<times> edge_spec) list"
  fu_addressed :: "pystr set"

text \<open>The part of the constructor that decides how outputs are addressed.\<close>

definition new_filter_setup :: "filter_config \<Rightarrow> filter_setup res" where
  "new_filter_setup cfg =
     rbind (build_output_edges cfg) (\<lambda>es.
     rbind (if fc_configuration cfg = C_DATE \<and> fc_enable_q4 cfg then q4_output_names cfg else Inr []) (\<lambda>q4.
     Inr \<lparr>fu_config = cfg, fu_edges = es,
          fu_addressed =
            {SUM_Q2_OUTPUT, fc_sum_q3_queue cfg, fc_q5_usd_queue cfg, fc_q1_queue cfg, fc_date_queue cfg} \<union> set q4 \<union>
            (if fc_configuration cfg = C_DATE \<and> fc_enable_q3 cfg then {fc_q3_candidates_queue cfg} else {})\<rparr>))"

definition q4_output_for_transaction :: "filter_config \<Rightarrow> transaction \<Rightarrow> pystr res" where
  "q4_output_for_transaction cfg tx =
     (if \<not> q4_sharded cfg then Inr (fc_mapper_queue cfg)
      else
        rbind (notebook_bank_id (tx_from_bank tx)) (\<lambda>bank.
        rbind (partition_for_parts [bank, py_strip (tx_from_account tx)] (so_amount (fc_q4 cfg))) (q4_routing_key cfg)))"

text \<open>\<open>transaction < 50\<close> compares the amount with the number.\<close>

definition filter_transaction :: "pystr \<Rightarrow> transaction \<Rightarrow> (pystr \<times> pystr) option \<Rightarrow> bool res" where
  "filter_transaction configuration tx window =
     (if configuration = C_Q1 then Inr (d_lt (tx_amount tx) (d_of_int 50))
      else if configuration = C_Q5 then Inr (tx_format tx = lit ''Wire'' \<or> tx_format tx = lit ''ACH'')
      else if configuration = C_USD then Inr (tx_currency tx = lit ''US Dollar'')
      else if configuration = C_DATE then
        (case window of
           None \<Rightarrow> Inr True
         | Some (start_date, end_date) \<Rightarrow>
             (let tx_day = map (\<lambda>c. if c = 47 then 45 else c) (take 10 (tx_date tx)) in
              Inr (pystr_le start_date tx_day \<and> pystr_le tx_day end_date)))
      else Inl ValueError)"

definition filter_by_raw_timestamp :: "transaction \<Rightarrow> pystr \<Rightarrow> pystr \<Rightarrow> bool" where
  "filter_by_raw_timestamp tx start_timestamp end_timestamp \<longleftrightarrow>
     (let timestamp = py_strip (tx_date tx) in pystr_le start_timestamp timestamp \<and> pystr_le timestamp end_timestamp)"

definition in_averages_window :: "transaction \<Rightarrow> bool" where
  "in_averages_window tx \<longleftrightarrow> filter_by_raw_timestamp tx (lit ''2022/09/01'') (lit ''2022/09/06'')"

definition in_candidates_window :: "transaction \<Rightarrow> bool" where
  "in_candidates_window tx \<longleftrightarrow> filter_by_raw_timestamp tx (lit ''2022/09/06'') (lit ''2022/09/15'')"

text \<open>The destinations of a transaction, each with the output it is counted under.\<close>

definition route_transaction :: "filter_config \<Rightarrow> transaction \<Rightarrow> (pystr \<times> pystr) list res" where
  "route_transaction cfg tx =
     (let passes = filter_transaction (fc_configuration cfg) tx None in
      if fc_configuration cfg = C_Q1 then
        rbind passes (\<lambda>p. Inr (if p then [(fc_gateway_queue cfg, fc_gateway_queue cfg)] else []))
      else if fc_configuration cfg = C_Q5 then
        rbind passes (\<lambda>p. Inr (if p then [(fc_q5_usd_queue cfg, fc_q5_usd_queue cfg)] else []))
      else if fc_configuration cfg = C_USD then
        rbind passes (\<lambda>p. Inr (if p then
          (if fc_enable_q1 cfg then [(fc_q1_queue cfg, fc_q1_queue cfg)] else []) @
          (if fc_enable_q2 cfg then [(SUM_Q2_OUTPUT, SUM_Q2_OUTPUT)] else []) @
          (if fc_enable_date cfg then [(fc_date_queue cfg, fc_date_queue cfg)] else []) else []))
      else if fc_configuration cfg = C_DATE then
        (let averages = (if fc_enable_q3 cfg \<and> in_averages_window tx then [(fc_sum_q3_queue cfg, fc_sum_q3_queue cfg)] else []);
             candidates = (if fc_enable_q3 cfg \<and> in_candidates_window tx
                           then [(fc_q3_candidates_queue cfg, fc_q3_candidates_queue cfg)] else []) in
         if fc_enable_q4 cfg \<and> in_averages_window tx then
           rbind (q4_output_for_transaction cfg tx) (\<lambda>dest.
           Inr (averages @ candidates @ [(dest, if q4_sharded cfg then Q4_FILTER_OUTPUT else fc_mapper_queue cfg)]))
         else Inr (averages @ candidates))
      else Inr [])"

subsection \<open>Packets\<close>

record packet_seqs =
  ps_q4 :: "((int \<times> int) \<times> int) list"
  ps_sum :: "((pystr \<times> int) \<times> int) list"

definition is_q4_exchange_output :: "filter_config \<Rightarrow> pystr \<Rightarrow> bool res" where
  "is_q4_exchange_output cfg name =
     (if fc_configuration cfg = C_DATE \<and> fc_enable_q4 cfg \<and> q4_sharded cfg
      then rbind (q4_output_names cfg) (\<lambda>names. Inr (name \<in> set names)) else Inr False)"

fun q4_partition_from_output :: "filter_config \<Rightarrow> pystr \<Rightarrow> int list \<Rightarrow> int res" where
  "q4_partition_from_output cfg name [] = Inl ValueError"
| "q4_partition_from_output cfg name (part # parts) =
     rbind (q4_routing_key cfg part) (\<lambda>k. if name = k then Inr part else q4_partition_from_output cfg name parts)"

definition fw_addressed_packet :: "filter_config \<Rightarrow> message_type \<Rightarrow> int \<Rightarrow> int \<Rightarrow> bytes \<Rightarrow> bytes res" where
  "fw_addressed_packet cfg msg_type client_id seq payload =
     rbind (client_id_to_bytes client_id) (\<lambda>client_bytes.
     create_addressed_packet (message_type_value msg_type) client_bytes (fc_id cfg) seq payload)"

definition q4_addressed_packet :: "filter_config \<Rightarrow> message_type \<Rightarrow> int \<Rightarrow> int \<Rightarrow> bytes \<Rightarrow> (packet_seqs, bytes) act" where
  "q4_addressed_packet cfg msg_type client_id part payload =
     abind (aget (\<lambda>q. dget (ps_q4 q) (client_id, part) 0)) (\<lambda>seq.
     abind (amodify (ps_q4_update (dset (client_id, part) (seq + 1)))) (\<lambda>_.
     alift (fw_addressed_packet cfg msg_type client_id seq payload)))"

definition next_sum_seq :: "pystr \<Rightarrow> int \<Rightarrow> (packet_seqs, int) act" where
  "next_sum_seq output_name client_id =
     abind (aget (\<lambda>q. dget (ps_sum q) (output_name, client_id) 0)) (\<lambda>seq.
     abind (amodify (ps_sum_update (dset (output_name, client_id) ((seq + 1) mod 2 ^ 32)))) (\<lambda>_.
     areturn seq))"

definition output_shard :: "filter_setup \<Rightarrow> pystr \<Rightarrow> int \<Rightarrow> int option res" where
  "output_shard U output_name client_id =
     (case map_of (fu_edges U) output_name of
        None \<Rightarrow> Inr None
      | Some spec \<Rightarrow> rbind (shard_for_client_id client_id (shard_count spec)) (\<lambda>sh. Inr (Some sh)))"

definition fw_logical_output :: "filter_setup \<Rightarrow> pystr \<Rightarrow> int \<Rightarrow> bytes \<Rightarrow> logical_output res" where
  "fw_logical_output U output_name client_id packet =
     rbind (output_shard U output_name client_id) (\<lambda>sh.
     Inr (case sh of None \<Rightarrow> Out2 output_name packet | Some n \<Rightarrow> Out3 output_name packet (Some n)))"

definition output_packet :: "filter_setup \<Rightarrow> pystr \<Rightarrow> message_type \<Rightarrow> int \<Rightarrow> bytes \<Rightarrow> (packet_seqs, bytes) act" where
  "output_packet U output_name msg_type client_id payload =
     (if map_of (fu_edges U) output_name \<noteq> None then alift (fi_packet msg_type client_id payload)
      else
        abind (alift (is_q4_exchange_output (fu_config U) output_name)) (\<lambda>is_q4.
        if is_q4 then
          abind (alift (q4_partition_from_output (fu_config U) output_name [0..so_amount (fc_q4 (fu_config U)) - 1])) (\<lambda>part.
          q4_addressed_packet (fu_config U) msg_type client_id part payload)
        else if output_name \<in> fu_addressed U then
          abind (alift (client_id_to_bytes client_id)) (\<lambda>_.
          abind (next_sum_seq output_name client_id) (\<lambda>seq.
          alift (fw_addressed_packet (fu_config U) msg_type client_id seq payload)))
        else alift (fi_packet msg_type client_id payload)))"

definition fw_output :: "filter_setup \<Rightarrow> pystr \<Rightarrow> message_type \<Rightarrow> int \<Rightarrow> bytes \<Rightarrow> (packet_seqs, logical_output) act" where
  "fw_output U dest msg_type client_id payload =
     abind (output_packet U dest msg_type client_id payload) (\<lambda>packet. alift (fw_logical_output U dest client_id packet))"

text \<open>One output for each of a list of destinations and payloads, in order.\<close>

fun fw_outputs :: "filter_setup \<Rightarrow> message_type \<Rightarrow> int \<Rightarrow> (pystr \<times> bytes) list \<Rightarrow> (packet_seqs, logical_output list) act" where
  "fw_outputs U msg_type client_id [] = areturn []"
| "fw_outputs U msg_type client_id ((dest, payload) # rest) =
     abind (fw_output U dest msg_type client_id payload) (\<lambda>out.
     abind (fw_outputs U msg_type client_id rest) (\<lambda>outs. areturn (out # outs)))"

definition fw_eof_payload :: "filter_config \<Rightarrow> int \<Rightarrow> bytes res" where
  "fw_eof_payload cfg n = serialize_control \<lparr>cm_sender_id = fc_id cfg, expected_total = n, processed_count = 0\<rparr>"

text \<open>The destinations that get an EOF and the total each announces.\<close>

definition eof_targets :: "filter_config \<Rightarrow> (pystr \<times> int) list \<Rightarrow> (pystr \<times> int) list res" where
  "eof_targets cfg counts =
     (let target = (\<lambda>name. (name, dget counts name 0)) in
      if fc_configuration cfg = C_Q1 then Inr [target (fc_gateway_queue cfg)]
      else if fc_configuration cfg = C_Q5 then Inr [target (fc_q5_usd_queue cfg)]
      else if fc_configuration cfg = C_USD then
        Inr ((if fc_enable_q1 cfg then [target (fc_q1_queue cfg)] else []) @
             (if fc_enable_q2 cfg then [target SUM_Q2_OUTPUT] else []) @
             (if fc_enable_date cfg then [target (fc_date_queue cfg)] else []))
      else if fc_configuration cfg = C_DATE then
        rbind (if fc_enable_q4 cfg then q4_output_names cfg else Inr []) (\<lambda>names.
        Inr ((if fc_enable_q3 cfg then [target (fc_sum_q3_queue cfg), target (fc_q3_candidates_queue cfg)] else []) @
             map (\<lambda>name. (name, dget counts (if q4_sharded cfg then Q4_FILTER_OUTPUT else fc_mapper_queue cfg) 0)) names))
      else Inr [])"

fun fw_eofs :: "filter_setup \<Rightarrow> int \<Rightarrow> (pystr \<times> int) list \<Rightarrow> (packet_seqs, logical_output list) act" where
  "fw_eofs U client_id [] = areturn []"
| "fw_eofs U client_id ((dest, n) # rest) =
     abind (alift (fw_eof_payload (fu_config U) n)) (\<lambda>payload.
     abind (fw_output U dest MT_EOF client_id payload) (\<lambda>out.
     abind (fw_eofs U client_id rest) (\<lambda>outs. areturn (out # outs))))"

definition fw_eof_outputs :: "filter_setup \<Rightarrow> int \<Rightarrow> (pystr \<times> int) list \<Rightarrow> (packet_seqs, logical_output list) act" where
  "fw_eof_outputs U client_id counts = abind (alift (eof_targets (fu_config U) counts)) (fw_eofs U client_id)"

definition fw_abort_outputs :: "filter_setup \<Rightarrow> int \<Rightarrow> logical_output list res" where
  "fw_abort_outputs U client_id =
     rbind (fi_packet MT_ABORT client_id []) (\<lambda>packet.
     Inr (concat (map (\<lambda>(edge, spec). map (\<lambda>sh. Out3 edge packet (Some sh)) [0..shard_count spec - 1]) (fu_edges U))))"

subsection \<open>The business functions\<close>

text \<open>They read the durable state and change the packet counters; one calls the coordinator.\<close>

type_synonym fw_fn = "bytes \<Rightarrow> (filter_state \<times> packet_seqs, json \<times> logical_output list) act"

definition fw_on_state :: "(filter_state, 'a) act \<Rightarrow> (filter_state \<times> packet_seqs, 'a) act" where
  "fw_on_state = azoom fst (\<lambda>s w. (s, snd w))"

definition fw_on_seqs :: "(packet_seqs, 'a) act \<Rightarrow> (filter_state \<times> packet_seqs, 'a) act" where
  "fw_on_seqs = azoom snd (\<lambda>q w. (fst w, q))"

text \<open>The loop over a batch: what is appended per destination and forwarded per output.\<close>

definition route_one ::
  "(pystr \<times> bytes list) list \<times> (pystr \<times> int) list \<Rightarrow> bytes \<Rightarrow> pystr \<times> pystr \<Rightarrow> (pystr \<times> bytes list) list \<times> (pystr \<times> int) list" where
  "route_one acc serialized = (\<lambda>(dest, logical).
     (dappend dest serialized (fst acc), dset logical (dget (snd acc) logical 0 + 1) (snd acc)))"

fun route_batch ::
  "filter_config \<Rightarrow> transaction list \<Rightarrow> (pystr \<times> bytes list) list \<times> (pystr \<times> int) list \<Rightarrow>
   ((pystr \<times> bytes list) list \<times> (pystr \<times> int) list) res" where
  "route_batch cfg [] acc = Inr acc"
| "route_batch cfg (tx # txs) acc =
     rbind (route_transaction cfg tx) (\<lambda>routes.
     if routes = [] then route_batch cfg txs acc
     else
       rbind (serialize_transaction tx) (\<lambda>serialized.
       route_batch cfg txs (foldl (\<lambda>acc. route_one acc serialized) acc routes)))"

definition fw_drain_outputs :: "filter_setup \<Rightarrow> int \<Rightarrow> (filter_state \<times> packet_seqs, logical_output list) act" where
  "fw_drain_outputs U client_id =
     abind (fw_on_state (aget (fs_plan_drain client_id))) (\<lambda>drain. fw_on_seqs (fw_outputs U MT_DATA client_id drain))"

definition fw_bfn_data :: "filter_setup \<Rightarrow> int \<Rightarrow> fw_fn" where
  "fw_bfn_data U client_id payload =
     abind (fw_on_state (aget (fs_is_closed client_id))) (\<lambda>closed.
     if closed then areturn (fs_data_change client_id 0 [] [], [])
     else
       abind (alift (deserialize_transactions payload)) (\<lambda>txs.
       if txs = [] then areturn (fs_data_change client_id 0 [] [], [])
       else
         abind (alift (route_batch (fu_config U) txs ([], []))) (\<lambda>(appends, forwarded).
         abind (fw_on_state (aget (fs_plan_data client_id appends))) (\<lambda>flushed.
         abind (fw_on_seqs (fw_outputs U MT_DATA client_id (concat (map (\<lambda>(dest, batches). map (Pair dest) batches) flushed)))) (\<lambda>outputs.
         areturn (fs_data_change client_id (int (length txs)) appends forwarded, outputs))))))"

definition fw_bfn_abort :: "filter_setup \<Rightarrow> int \<Rightarrow> (filter_state, json \<times> logical_output list) act" where
  "fw_bfn_abort U client_id = abind (alift (fw_abort_outputs U client_id)) (\<lambda>outputs. areturn (fs_abort_change client_id, outputs))"

definition fw_bfn_upstream_eof :: "filter_setup \<Rightarrow> int \<Rightarrow> int \<Rightarrow> int \<Rightarrow> fw_fn" where
  "fw_bfn_upstream_eof U client_id expected count payload =
     (let cfg = fu_config U; eof_change = fs_upstream_eof_change client_id expected count count in
      if fc_amount cfg > 1 then
        abind (alift (rbind (client_id_to_bytes client_id) (\<lambda>_. fw_eof_payload cfg expected))) (\<lambda>eof_payload.
        abind (alift (fi_packet MT_EOF_RECEIVED client_id eof_payload)) (\<lambda>msg.
        abind (fw_on_state (aget (\<lambda>s. map (\<lambda>i. Out2 (control_queue_for (fs_coordinator s) i) msg) [0..fc_amount cfg - 1]))) (\<lambda>outputs.
        areturn (eof_change, outputs))))
      else
        abind (fw_drain_outputs U client_id) (\<lambda>drain.
        abind (fw_on_state (aget (fs_forwarded_by_output_of client_id))) (\<lambda>counts.
        abind (fw_on_seqs (fw_eof_outputs U client_id counts)) (\<lambda>eofs.
        areturn (fs_compound_change [eof_change, fs_close_change client_id], drain @ eofs)))))"

definition fw_bfn_eof_received :: "int \<Rightarrow> control_message \<Rightarrow> int \<Rightarrow> int \<Rightarrow> fw_fn" where
  "fw_bfn_eof_received client_id ctrl count fwd payload =
     abind (fw_on_state (on_fs_coordinator (process_control_message MT_EOF_RECEIVED client_id ctrl count fwd))) (\<lambda>action.
     let change = fs_msg_change MT_EOF_RECEIVED client_id (cm_sender_id ctrl) (expected_total ctrl) (processed_count ctrl) count fwd in
     (case action of
        Some (SendAnswerAction queue_name message) \<Rightarrow> areturn (change, [Out2 queue_name message])
      | _ \<Rightarrow> areturn (change, [])))"

text \<open>The acknowledgement of a flush carries the counts of the replica as JSON.\<close>

definition flush_ack_payload :: "filter_config \<Rightarrow> (pystr \<times> int) list \<Rightarrow> bytes res" where
  "flush_ack_payload cfg counts =
     utf8_encode (dumps (JObj [(lit ''sender_id'', JInt (fc_id cfg)), (lit ''forwarded_by_output'', JObj (json_counts counts))]))"

definition fw_bfn_flush_order :: "filter_setup \<Rightarrow> int \<Rightarrow> int \<Rightarrow> fw_fn" where
  "fw_bfn_flush_order U client_id leader_id payload =
     abind (fw_drain_outputs U client_id) (\<lambda>drain.
     abind (fw_on_state (aget (fs_forwarded_by_output_of client_id))) (\<lambda>counts.
     abind (alift (flush_ack_payload (fu_config U) counts)) (\<lambda>ack_payload.
     abind (alift (fi_packet MT_FLUSH_ACK client_id ack_payload)) (\<lambda>flush_ack.
     abind (fw_on_state (aget (\<lambda>s. response_queue_for (fs_coordinator s) leader_id))) (\<lambda>dest.
     areturn (fs_compound_change [fs_cleanup_change client_id False, fs_close_change client_id],
              drain @ [Out2 dest flush_ack]))))))"

text \<open>\<open>int(value)\<close> on a value read from JSON.\<close>

definition json_int :: "json \<Rightarrow> int res" where
  "json_int v =
     (case v of JInt i \<Rightarrow> Inr i | JBool b \<Rightarrow> Inr (if b then 1 else 0) | JStr s \<Rightarrow> py_int s | _ \<Rightarrow> Inl TypeError)"

fun add_json_counts :: "(pystr \<times> json) list \<Rightarrow> (pystr \<times> int) list \<Rightarrow> (pystr \<times> int) list res" where
  "add_json_counts [] totals = Inr totals"
| "add_json_counts ((out, v) # rest) totals =
     rbind (json_int v) (\<lambda>n. add_json_counts rest (dset out (dget totals out 0 + n) totals))"

definition add_counts :: "(pystr \<times> int) list \<Rightarrow> (pystr \<times> int) list \<Rightarrow> (pystr \<times> int) list" where
  "add_counts counts totals = foldl (\<lambda>totals (out, n). dset out (dget totals out 0 + n) totals) totals counts"

definition fw_bfn_flush_ack :: "filter_setup \<Rightarrow> int \<Rightarrow> int \<Rightarrow> (pystr \<times> json) list \<Rightarrow> int \<Rightarrow> fw_fn" where
  "fw_bfn_flush_ack U client_id sender_id counts new_ack_count payload =
     (let ack_change = fs_flush_ack_change client_id sender_id counts in
      if new_ack_count < fc_amount (fu_config U) - 1 then areturn (ack_change, [])
      else
        abind (fw_on_state (aget (fs_all_forwarded_of client_id))) (\<lambda>acked.
        abind (alift (add_json_counts counts acked)) (\<lambda>with_ack.
        abind (fw_on_state (aget (fs_forwarded_by_output_of client_id))) (\<lambda>own.
        abind (fw_drain_outputs U client_id) (\<lambda>drain.
        abind (fw_on_seqs (fw_eof_outputs U client_id (add_counts own with_ack))) (\<lambda>eofs.
        areturn (fs_compound_change [ack_change, fs_cleanup_change client_id True, fs_close_change client_id], drain @ eofs)))))))"

subsection \<open>FilterWorker\<close>

record filter_worker =
  fw_runner :: "(filter_state, filter_dict option) runner"
  fw_seqs :: packet_seqs

abbreviation fw_state :: "filter_worker \<Rightarrow> filter_state" where
  "fw_state w \<equiv> h_worker (r_handler (fw_runner w))"

text \<open>The destinations each thread has a publisher for.\<close>

definition control_queue_names :: "filter_config \<Rightarrow> filter_state \<Rightarrow> pystr list" where
  "control_queue_names cfg s = map (control_queue_for (fs_coordinator s)) [0..fc_amount cfg - 1]"

definition response_queue_names :: "filter_config \<Rightarrow> filter_state \<Rightarrow> pystr list" where
  "response_queue_names cfg s = map (response_queue_for (fs_coordinator s)) [0..fc_amount cfg - 1]"

definition data_publishers :: "filter_config \<Rightarrow> pystr list \<Rightarrow> filter_state \<Rightarrow> pystr list" where
  "data_publishers cfg outputs s = outputs @ control_queue_names cfg s @ response_queue_names cfg s"

definition control_publishers :: "filter_config \<Rightarrow> pystr list \<Rightarrow> filter_state \<Rightarrow> pystr list" where
  "control_publishers cfg outputs s = outputs @ response_queue_names cfg s"

definition response_publishers :: "filter_config \<Rightarrow> pystr list \<Rightarrow> filter_state \<Rightarrow> pystr list" where
  "response_publishers cfg outputs s = outputs @ control_queue_names cfg s"

text \<open>The handler sees the durable part; the counters change when the function runs, for a new message.\<close>

definition with_packet_seqs :: "packet_seqs \<Rightarrow> fw_fn \<Rightarrow> bytes \<Rightarrow> (filter_state, json \<times> logical_output list) act" where
  "with_packet_seqs seqs f payload s = (case f payload (s, seqs) of (r, w) \<Rightarrow> (r, fst w))"

definition run_filter ::
  "pystr list \<Rightarrow> (outbox_entry \<Rightarrow> py_error option) \<Rightarrow> pystr \<Rightarrow> int \<Rightarrow> int \<Rightarrow> int \<Rightarrow> bytes \<Rightarrow> fw_fn \<Rightarrow> msg_kind \<Rightarrow>
   filter_worker \<Rightarrow> delivery \<times> filter_worker" where
  "run_filter publishers send m c s q p f k w =
     (let h = r_handler (fw_runner w);
          seqs' = (if classify (h_inbox h) c s q k = NEW then snd (snd (f p (h_worker h, fw_seqs w))) else fw_seqs w) in
      (case attempt (run_message filter_ops publishers send m c s q p (with_packet_seqs (fw_seqs w) f) k) (fw_runner w) of
         (d, r') \<Rightarrow> (d, \<lparr>fw_runner = r', fw_seqs = seqs'\<rparr>)))"

text \<open>Data and aborts go through the runner.\<close>

definition fw_process ::
  "filter_setup \<Rightarrow> pystr list \<Rightarrow> (outbox_entry \<Rightarrow> py_error option) \<Rightarrow> bytes \<Rightarrow> filter_worker \<Rightarrow> delivery \<times> filter_worker" where
  "fw_process U outputs send message w =
     (let publishers = data_publishers (fu_config U) outputs (fw_state w) in
      (case process filter_ops publishers send (\<lambda>c. with_packet_seqs (fw_seqs w) (fw_bfn_data U c)) (Some (fw_bfn_abort U)) message
              (fw_runner w) of
         (d, r') \<Rightarrow>
           (d, \<lparr>fw_runner = r', fw_seqs =
              (case unpack_addressed_packet message of
                 Inl _ \<Rightarrow> fw_seqs w
               | Inr (t, c, s, q, p) \<Rightarrow>
                   if t \<noteq> message_type_value MT_ABORT \<and> classify (h_inbox (r_handler (fw_runner w))) c s q DATA = NEW
                   then snd (snd (fw_bfn_data U c p (fw_state w, fw_seqs w))) else fw_seqs w)\<rparr>)))"

definition fw_handle_upstream_eof ::
  "filter_setup \<Rightarrow> pystr list \<Rightarrow> (outbox_entry \<Rightarrow> py_error option) \<Rightarrow> bytes \<Rightarrow> filter_worker \<Rightarrow> delivery \<times> filter_worker" where
  "fw_handle_upstream_eof U outputs send message w =
     (case rbind (unpack_addressed_packet message) (\<lambda>(t, c, s, q, p). rbind (deserialize_control p) (\<lambda>ctrl. Inr (c, s, q, p, ctrl))) of
        Inl _ \<Rightarrow> (Nacked True, w)
      | Inr (client_id, sender_id, seq, payload, ctrl) \<Rightarrow>
          if fi_skips (fw_runner w) (fs_is_closed client_id (fw_state w)) client_id sender_id seq DATA then (Acked, w)
          else run_filter (data_publishers (fu_config U) outputs (fw_state w)) send (ag_data_msg_id sender_id client_id seq)
                 client_id sender_id seq payload
                 (fw_bfn_upstream_eof U client_id (expected_total ctrl) (fs_processed_count client_id (fw_state w))) DATA w)"

definition on_input_message ::
  "filter_setup \<Rightarrow> pystr list \<Rightarrow> (outbox_entry \<Rightarrow> py_error option) \<Rightarrow> bytes \<Rightarrow> filter_worker \<Rightarrow> delivery \<times> filter_worker" where
  "on_input_message U outputs send message w =
     (case message of
        [] \<Rightarrow> (Nacked False, w)
      | b # _ \<Rightarrow>
          (let msg_type = uint b in
           if msg_type = message_type_value MT_DATA then fw_process U outputs send message w
           else if msg_type = message_type_value MT_EOF then fw_handle_upstream_eof U outputs send message w
           else if msg_type = message_type_value MT_ABORT then fw_process U outputs send message w
           else (Nacked False, w)))"

definition forwarded_sum :: "int \<Rightarrow> filter_state \<Rightarrow> int" where
  "forwarded_sum client_id s = sum_list (map snd (fs_forwarded_by_output_of client_id s))"

definition fw_handle_eof_received ::
  "filter_setup \<Rightarrow> pystr list \<Rightarrow> (outbox_entry \<Rightarrow> py_error option) \<Rightarrow> bytes \<Rightarrow> int \<Rightarrow> control_message \<Rightarrow> filter_worker \<Rightarrow>
   delivery \<times> filter_worker" where
  "fw_handle_eof_received U outputs send message client_id ctrl w =
     run_filter (control_publishers (fu_config U) outputs (fw_state w)) send (su_eof_received_msg_id client_id (cm_sender_id ctrl))
       client_id (cm_sender_id ctrl) client_id message
       (fw_bfn_eof_received client_id ctrl (fs_processed_count client_id (fw_state w)) (forwarded_sum client_id (fw_state w)))
       CTRL_EOF_RECEIVED w"

definition fw_handle_flush_order ::
  "filter_setup \<Rightarrow> pystr list \<Rightarrow> (outbox_entry \<Rightarrow> py_error option) \<Rightarrow> bytes \<Rightarrow> int \<Rightarrow> control_message \<Rightarrow> filter_worker \<Rightarrow>
   delivery \<times> filter_worker" where
  "fw_handle_flush_order U outputs send message client_id ctrl w =
     (if fi_skips (fw_runner w) (fs_is_closed client_id (fw_state w)) client_id (cm_sender_id ctrl) client_id CTRL_FLUSH_ORDER then (Acked, w)
      else if expected_for (fs_coordinator (fw_state w)) client_id \<noteq> None then (Acked, w)
      else run_filter (control_publishers (fu_config U) outputs (fw_state w)) send (ag_flush_order_msg_id client_id (cm_sender_id ctrl))
             client_id (cm_sender_id ctrl) client_id message (fw_bfn_flush_order U client_id (cm_sender_id ctrl)) CTRL_FLUSH_ORDER w)"

text \<open>Calls of the coordinator that bypass the handler; their messages are sent directly.\<close>

definition on_fw_coordinator :: "(eof_coordinator, 'a) act \<Rightarrow> (filter_worker, 'a) act" where
  "on_fw_coordinator m = azoom fw_runner (\<lambda>r w. w\<lparr>fw_runner := r\<rparr>) (on_handler (on_worker (on_fs_coordinator m)))"

definition fw_send :: "pystr list \<Rightarrow> (outbox_entry \<Rightarrow> py_error option) \<Rightarrow> pystr list \<Rightarrow> bytes \<Rightarrow> (filter_worker, unit) act" where
  "fw_send senders send queues message =
     azoom fw_runner (\<lambda>r w. w\<lparr>fw_runner := r\<rparr>) (publish senders send (broadcast_entries queues message))"

definition fw_attempt :: "(filter_worker, unit) act \<Rightarrow> filter_worker \<Rightarrow> delivery \<times> filter_worker" where
  "fw_attempt m w = (case m w of (Inl _, w') \<Rightarrow> (Nacked True, w') | (Inr _, w') \<Rightarrow> (Acked, w'))"

definition fw_handle_processed_request ::
  "filter_setup \<Rightarrow> (outbox_entry \<Rightarrow> py_error option) \<Rightarrow> int \<Rightarrow> control_message \<Rightarrow> filter_worker \<Rightarrow> delivery \<times> filter_worker" where
  "fw_handle_processed_request U send client_id ctrl w =
     fw_attempt
       (abind (on_fw_coordinator (process_control_message MT_PROCESSED_REQUEST client_id ctrl
          (fs_processed_count client_id (fw_state w)) (forwarded_sum client_id (fw_state w)))) (\<lambda>action.
        (case action of
           Some (SendAnswerAction q message) \<Rightarrow> fw_send (response_queue_names (fu_config U) (fw_state w)) send [q] message
         | _ \<Rightarrow> areturn ()))) w"

definition fw_handle_control ::
  "filter_setup \<Rightarrow> pystr list \<Rightarrow> (outbox_entry \<Rightarrow> py_error option) \<Rightarrow> bytes \<Rightarrow> filter_worker \<Rightarrow> delivery \<times> filter_worker" where
  "fw_handle_control U outputs send message w =
     (case parse_message message of
        Inl _ \<Rightarrow> (Nacked False, w)
      | Inr (msg_type, client_id, ctrl) \<Rightarrow>
          if msg_type = message_type_value MT_FLUSH_ORDER then fw_handle_flush_order U outputs send message client_id ctrl w
          else if msg_type = message_type_value MT_EOF_RECEIVED then fw_handle_eof_received U outputs send message client_id ctrl w
          else if msg_type = message_type_value MT_PROCESSED_REQUEST then fw_handle_processed_request U send client_id ctrl w
          else (Acked, w))"

text \<open>
  A FLUSH_ACK whose JSON cannot be read raises outside the \<open>try\<close>. A sender or counts of a type no replica writes is a
  \<open>TypeError\<close> here.
\<close>

definition decode_flush_ack_payload :: "bytes \<Rightarrow> (int \<times> (pystr \<times> json) list) res" where
  "decode_flush_ack_payload payload =
     rbind (utf8_decode payload) (\<lambda>doc. rbind (loads doc) (\<lambda>data.
     rbind (as_dict data) (\<lambda>d.
     rbind (case map_of d (lit ''sender_id'') of None \<Rightarrow> Inl TypeError | Some v \<Rightarrow> as_int v) (\<lambda>sender.
     rbind (case map_of d (lit ''forwarded_by_output'') of None \<Rightarrow> Inr [] | Some v \<Rightarrow> as_dict v) (\<lambda>counts.
     Inr (sender, counts))))))"

definition fw_handle_flush_ack ::
  "filter_setup \<Rightarrow> pystr list \<Rightarrow> (outbox_entry \<Rightarrow> py_error option) \<Rightarrow> bytes \<Rightarrow> int \<Rightarrow> bytes \<Rightarrow> filter_worker \<Rightarrow> delivery \<times> filter_worker" where
  "fw_handle_flush_ack U outputs send message client_id payload w =
     (case decode_flush_ack_payload payload of
        Inl e \<Rightarrow> (Raised e, w)
      | Inr (sender_id, counts) \<Rightarrow>
          (let status = classify (h_inbox (r_handler (fw_runner w))) client_id sender_id client_id CTRL_FLUSH_ACK in
           if fs_is_closed client_id (fw_state w) \<and> status \<noteq> APPLIED then (Acked, w)
           else if status \<noteq> APPLIED \<and> expected_for (fs_coordinator (fw_state w)) client_id = None then (Acked, w)
           else run_filter (response_publishers (fu_config U) outputs (fw_state w)) send (ag_flush_ack_msg_id client_id sender_id)
                  client_id sender_id client_id message
                  (fw_bfn_flush_ack U client_id sender_id counts (fs_flushed_ack_count client_id (fw_state w) + 1)) CTRL_FLUSH_ACK w))"

definition fw_handle_response ::
  "filter_setup \<Rightarrow> pystr list \<Rightarrow> (outbox_entry \<Rightarrow> py_error option) \<Rightarrow> bytes \<Rightarrow> filter_worker \<Rightarrow> delivery \<times> filter_worker" where
  "fw_handle_response U outputs send message w =
     (case unpack_packet message of
        Inl _ \<Rightarrow> (Nacked False, w)
      | Inr (msg_type, client_id, payload) \<Rightarrow>
          if msg_type = message_type_value MT_FLUSH_ACK then fw_handle_flush_ack U outputs send message client_id payload w
          else
            fw_attempt
              (abind (alift (deserialize_control payload)) (\<lambda>ctrl.
               abind (case message_type_of msg_type of
                        Inl _ \<Rightarrow> areturn None
                      | Inr t \<Rightarrow> on_fw_coordinator (process_control_message t client_id ctrl 0 0)) (\<lambda>action.
               (case action of
                  Some (BroadcastAction queues broadcast _) \<Rightarrow>
                    fw_send (control_queue_names (fu_config U) (fw_state w)) send queues broadcast
                | _ \<Rightarrow> areturn ())))) w)"

definition fw_start ::
  "filter_setup \<Rightarrow> pystr list \<Rightarrow> (outbox_entry \<Rightarrow> py_error option) \<Rightarrow> (filter_worker, unit) act" where
  "fw_start U outputs send w =
     azoom fw_runner (\<lambda>r w. w\<lparr>fw_runner := r\<rparr>)
       (recover_and_republish filter_ops (data_publishers (fu_config U) outputs (fw_state w)) send) w"

end
