(* ===== verification/Sent.thy ===== *)
theory Sent
  imports FanIn
begin

text \<open>
  What the outputs of a worker say to who receives them: the data for a destination, joined over its packets in
  their order, and the totals that EOFs announce. Statements about the forwarding workers are made over these.
\<close>

definition data_sent :: "pystr \<Rightarrow> logical_output list \<Rightarrow> bytes" where
  "data_sent dest outs =
     concat (map (\<lambda>out. case normalize_output out of (d, pkt, _) \<Rightarrow>
       (case unpack_packet pkt of
          Inl _ \<Rightarrow> []
        | Inr (t, _, payload) \<Rightarrow> if d = dest \<and> t = message_type_value MT_DATA then payload else [])) outs)"

definition eofs_sent :: "logical_output list \<Rightarrow> (pystr \<times> int) list" where
  "eofs_sent outs =
     concat (map (\<lambda>out. case normalize_output out of (d, pkt, _) \<Rightarrow>
       (case unpack_packet pkt of
          Inl _ \<Rightarrow> []
        | Inr (t, _, payload) \<Rightarrow>
            if t = message_type_value MT_EOF
            then (case deserialize_control payload of Inl _ \<Rightarrow> [] | Inr ctrl \<Rightarrow> [(d, expected_total ctrl)]) else [])) outs)"

lemma sent_append [simp]:
  "data_sent dest [] = []" "data_sent dest (xs @ ys) = data_sent dest xs @ data_sent dest ys"
  "eofs_sent [] = []" "eofs_sent (xs @ ys) = eofs_sent xs @ eofs_sent ys"
  by (simp_all add: data_sent_def eofs_sent_def)

lemma sent_Cons:
  "data_sent dest (x # xs) = data_sent dest [x] @ data_sent dest xs" "eofs_sent (x # xs) = eofs_sent [x] @ eofs_sent xs"
  using sent_append(2) [of dest "[x]" xs] sent_append(4) [of "[x]" xs] by simp_all

lemma fi_packet_unpack: "fi_packet t c p = Inr pkt \<Longrightarrow> unpack_packet pkt = Inr (message_type_value t, c, p)"
  by (auto simp: fi_packet_def dest: packet_roundtrip)

text \<open>The same of a single packet that is not numbered by the worker.\<close>

lemma packet_says:
  assumes "fi_packet t c p = Inr pkt" and "normalize_output out = (d, pkt, sh)"
  shows "data_sent dest [out] = (if d = dest \<and> t = MT_DATA then p else [])"
    and "eofs_sent [out] = (if t = MT_EOF then (case deserialize_control p of Inl _ \<Rightarrow> [] | Inr ctrl \<Rightarrow> [(d, expected_total ctrl)]) else [])"
  using fi_packet_unpack [OF assms(1)] assms(2) by (cases t; simp add: data_sent_def eofs_sent_def)+

text \<open>A transaction for examples, and its record.\<close>

lemma demo_tx_serialized: "\<exists>b. serialize_transaction demo_tx = Inr b \<and> deserialize_transactions b = Inr [demo_tx] \<and> length b = 195"
proof -
  have "\<exists>b. serialize_transaction demo_tx = Inr b"
    by (simp add: serialize_transaction_def demo_tx_def encode_fixed_ascii ascii_def lit_def field_sizes pack_uint_def)
  then obtain b where b: "serialize_transaction demo_tx = Inr b" by blast
  then have "serialize_transactions [demo_tx] = Inr b" by (simp add: serialize_transactions_def encode_batch_def)
  moreover have "list_all transaction_ok [demo_tx]" by (simp add: transaction_ok_def demo_tx_def no_trailing_nul_def lit_def)
  ultimately have "deserialize_transactions b = Inr [demo_tx]" using tx_codec.batch_roundtrip
    by (auto simp: serialize_transactions_def deserialize_transactions_def)
  with b tx_codec.enc_width [OF b] show ?thesis by (simp add: TX_SIZE_def)
qed

end
