(* ===== verification/FilterRuns.thy ===== *)
theory FilterRuns
  imports FilterWorker Sent Q4EndToEnd
begin

text \<open>
  What the filter worker does to a client: its replay consistency, where its packets go, and that between the first batch
  and the EOFs every transaction that passes is sent, once, in order, and counted.
\<close>

subsection \<open>The worker is durable\<close>

text \<open>
  The runner names data by sender and number, the worker the upstream EOF by client too. Which of the numbers of a
  sender are EOFs is the upstream's choice, so the set \<open>E\<close> of their keys is a parameter.
\<close>

fun fw_msg :: "(int \<times> int \<times> int) set \<Rightarrow> pystr \<Rightarrow> input_key \<Rightarrow> bool" where
  "fw_msg E m (c, s, q, k) \<longleftrightarrow> (if k = DATA \<and> (c, s, q) \<notin> E then m = data_msg_id s q else su_msg m (c, s, q, k))"

lemma data_msg_id_new: "\<not> su_msg (data_msg_id s q) z"
proof -
  have "hd (data_msg_id s q) = 45 \<or> is_digit (hd (data_msg_id s q))"
  proof (cases "int_str s")
    case (Cons a list)
    then show ?thesis using int_str_hd [OF Cons] by (simp add: data_msg_id_def)
  qed (auto simp: int_str_def split: if_splits)
  then show ?thesis
    by (cases z) (auto simp: su_msg_def agg_id_defs su_eof_received_msg_id_def lit_def is_digit_def of_char_def)
qed

interpretation fw_ids: message_ids "fw_msg E" for E
proof
  show "x = y" if "fw_msg E m (c, x)" "fw_msg E m (c, y)" for m c x y
  proof -
    obtain s q k s' q' k' where xy: "x = (s, q, k)" "y = (s', q', k')" by (cases x, cases y)
    have "s = s' \<and> q = q'" if "data_msg_id s q = data_msg_id s' q'"
      using that by (auto simp: data_msg_id_def split_at_colon)
    with that data_msg_id_new su_ids.msg_key [of m c x y] show ?thesis
      unfolding xy by (auto split: if_splits)
  qed
  show "m = m'" if "fw_msg E m z" "fw_msg E m' z" for m m' z
    using that su_ids.msg_id [of m z m'] by (cases z) (auto split: if_splits)
qed

interpretation fw_durable: durable_worker "fw_msg E" filter_ops "new_filter_state ec mb mi"
    "\<lambda>s. fs_frame s = (coordinator_config ec, mb, mi)" for E ec mb mi
  by unfold_locales

text \<open>The names of a configuration are text that JSON can carry.\<close>

definition fc_text_ok :: "filter_config \<Rightarrow> bool" where
  "fc_text_ok cfg \<longleftrightarrow> list_all text_ok
     [fc_gateway_queue cfg, fc_date_queue cfg, fc_q1_queue cfg, fc_mapper_queue cfg, fc_q5_usd_queue cfg,
      fc_q3_candidates_queue cfg, fc_sum_q3_queue cfg, so_prefix (fc_q4 cfg)]"

lemma text_ok_append [simp]: "text_ok (s @ t) \<longleftrightarrow> text_ok s \<and> text_ok t"
  by (auto simp: text_ok_def)

lemma text_ok_Cons [simp]: "text_ok (c # s) \<longleftrightarrow> scalar c \<and> text_ok s"
  by (simp add: text_ok_def)

lemma text_ok_int_str [simp]: "text_ok (int_str i)"
  using ascii_int_str [of i] by (auto simp: text_ok_def ascii_def list_all_iff intro!: scalar_ascii)

lemma q4_routing_key_Inr: "q4_routing_key cfg part = Inr k \<Longrightarrow> k = so_prefix (fc_q4 cfg) @ [95] @ int_str part \<and> 0 \<le> part"
  by (auto simp: q4_routing_key_def queue_name_for_worker_def)

lemma route_text_ok:
  assumes "route_transaction cfg tx = Inr routes" and "fc_text_ok cfg"
  shows "\<forall>(dest, logical) \<in> set routes. text_ok dest \<and> text_ok logical"
proof -
  have "text_ok dest" if "q4_output_for_transaction cfg tx = Inr dest" for dest
    using that assms(2)
    by (auto simp: q4_output_for_transaction_def fc_text_ok_def scalar_def split: if_splits dest!: q4_routing_key_Inr)
  with assms show ?thesis
    by (auto simp: route_transaction_def fc_text_ok_def Let_def SUM_Q2_OUTPUT_def Q4_FILTER_OUTPUT_def split: if_splits)
qed

definition routed_ok :: "(pystr \<times> bytes list) list \<times> (pystr \<times> int) list \<Rightarrow> bool" where
  "routed_ok acc \<longleftrightarrow> dict_wf (fst acc) \<and> dict_wf (snd acc) \<and> (\<forall>x \<in> fst ` set (fst acc) \<union> fst ` set (snd acc). text_ok x)"

lemma routed_ok_one: "routed_ok acc \<Longrightarrow> text_ok dest \<Longrightarrow> text_ok logical \<Longrightarrow> routed_ok (route_one acc ser (dest, logical))"
  by (auto simp: routed_ok_def route_one_def dappend_def dom_update)

lemma route_batch_ok:
  assumes "route_batch cfg txs acc = Inr acc'" and "fc_text_ok cfg" and "routed_ok acc"
  shows "routed_ok acc'"
  using assms(1,3)
proof (induction txs arbitrary: acc)
  case (Cons tx txs)
  then obtain routes where routes: "route_transaction cfg tx = Inr routes" by auto
  have step: "routed_ok (foldl (\<lambda>acc. route_one acc ser) acc rs)" if "routed_ok acc" "\<forall>(dest, logical) \<in> set rs. text_ok dest \<and> text_ok logical" for ser rs acc
    using that
  proof (induction rs arbitrary: acc)
    case (Cons r rs)
    obtain dest logical where r: "r = (dest, logical)" by (cases r)
    have "routed_ok (route_one acc ser (dest, logical))" by (rule routed_ok_one) (use Cons.prems r in auto)
    from Cons.IH [OF this] Cons.prems(2) show ?case by (simp add: r)
  qed simp
  show ?case
  proof (cases "routes = []")
    case True
    with Cons routes show ?thesis by simp
  next
    case False
    with Cons.prems(1) routes obtain ser where ser: "route_batch cfg txs (foldl (\<lambda>acc. route_one acc ser) acc routes) = Inr acc'" by auto
    show ?thesis by (rule Cons.IH [OF ser step [OF Cons.prems(2) route_text_ok [OF routes assms(2)]]])
  qed
qed simp

lemma json_appends_ok: "dict_wf app \<Longrightarrow> (\<forall>x \<in> fst ` set app. text_ok x) \<Longrightarrow> json_ok (JObj (json_appends app))"
  by (auto simp: json_appends_def dict_wf_def comp_def case_prod_beta)

lemma json_counts_ok: "dict_wf d \<Longrightarrow> (\<forall>x \<in> fst ` set d. text_ok x) \<Longrightarrow> json_ok (JObj (json_counts d))"
  by (auto simp: json_counts_def dict_wf_def comp_def case_prod_beta)

lemma fs_change_ok:
  "routed_ok (app, fwd) \<Longrightarrow> state_change_ok (fs_data_change c n app fwd)"
  "state_change_ok (fs_cleanup_change c b)" "state_change_ok (fs_close_change c)" "state_change_ok (fs_upstream_eof_change c e n f)"
  "state_change_ok (fs_msg_change t c s e k n f)" "json_ok (JObj counts) \<Longrightarrow> state_change_ok (fs_flush_ack_change c s counts)"
  "list_all state_change_ok chs \<Longrightarrow> state_change_ok (fs_compound_change chs)"
proof -
  show "state_change_ok (fs_data_change c n app fwd)" if "routed_ok (app, fwd)"
    using that json_appends_ok [of app] json_counts_ok [of fwd]
    by (simp add: state_change_ok_def fs_data_change_def routed_ok_def del: json_ok.simps(3)) (simp add: routed_ok_def)
  show "state_change_ok (fs_compound_change chs)" if "list_all state_change_ok chs"
    unfolding fs_compound_change_def using that by (rule fi_compound_ok)
qed (simp_all add: fs_close_change_def fs_upstream_eof_change_def fs_msg_change_def,
     simp_all add: state_change_ok_def fs_cleanup_change_def fs_flush_ack_change_def)

lemma fw_on_seqs_Inr: "fw_on_seqs m w = (Inr x, w') \<longleftrightarrow> (\<exists>q. m (snd w) = (Inr x, q) \<and> w' = (fst w, q))"
  by (auto simp: fw_on_seqs_def azoom_def split: prod.splits)

lemma fw_on_state_aget: "fw_on_state (aget g) w = (Inr x, w') \<longleftrightarrow> x = g (fst w) \<and> w' = w"
  by (cases w) (auto simp: fw_on_state_def azoom_def aget_def)

lemmas fw_run_simps = abind_eq_Inr areturn_def alift_def fw_on_seqs_Inr fw_on_state_aget

lemma fw_logical_output_ok: "fw_logical_output U d c pkt = Inr out \<Longrightarrow> out_ok out"
  by (auto simp: fw_logical_output_def output_shard_def out_ok_def shard_for_client_id_def split: option.splits
      dest!: shard_for_key_range)

lemma fw_output_ok: "fw_output U d t c p q = (Inr out, q') \<Longrightarrow> out_ok out"
  by (auto simp: fw_output_def fw_run_simps dest: fw_logical_output_ok)

lemma fw_outputs_ok: "fw_outputs U t c dbs q = (Inr outs, q') \<Longrightarrow> list_all out_ok outs"
proof (induction dbs arbitrary: q outs)
  case (Cons x dbs)
  then show ?case by (cases x) (auto simp: fw_run_simps dest: fw_output_ok)
qed (simp add: areturn_def)

lemma fw_eofs_ok: "fw_eofs U c ts q = (Inr outs, q') \<Longrightarrow> list_all out_ok outs"
proof (induction ts arbitrary: q outs)
  case (Cons x ts)
  then show ?case by (cases x) (auto simp: fw_run_simps dest: fw_output_ok)
qed (simp add: areturn_def)

lemma fw_drain_Inr:
  "fw_drain_outputs U c w = (Inr outs, w') \<longleftrightarrow>
   (\<exists>q. fw_outputs U MT_DATA c (fs_plan_drain c (fst w)) (snd w) = (Inr outs, q) \<and> w' = (fst w, q))"
  by (auto simp: fw_drain_outputs_def fw_run_simps)

lemma fw_eof_outputs_Inr:
  "fw_eof_outputs U c counts q = (Inr outs, q') \<longleftrightarrow> (\<exists>ts. eof_targets (fu_config U) counts = Inr ts \<and> fw_eofs U c ts q = (Inr outs, q'))"
  by (auto simp: fw_eof_outputs_def fw_run_simps)

lemma fw_business_pure:
  assumes "\<And>ch outs w'. f p (s, seqs) = (Inr (ch, outs), w') \<Longrightarrow> fst w' = s \<and> state_change_ok ch \<and> list_all out_ok outs"
  shows "business_ok W (with_packet_seqs seqs f) p s"
  using assms by (auto simp: business_ok_def with_packet_seqs_def split: prod.splits sum.splits)

lemma routed_ok_Nil [simp]: "routed_ok ([], [])"
  by (simp add: routed_ok_def)

text \<open>Every function the handler runs is replay consistent, so the worker survives a crash at any point.\<close>

lemma fw_business:
  assumes "fc_text_ok (fu_config U)"
  shows "business_ok W (with_packet_seqs seqs (fw_bfn_data U c)) p s"
    and "business_ok W (\<lambda>_. fw_bfn_abort U c) p s"
    and "business_ok W (with_packet_seqs seqs (fw_bfn_upstream_eof U c e n)) p s"
    and "business_ok W (with_packet_seqs seqs (fw_bfn_flush_order U c leader)) p s"
    and "json_ok (JObj counts) \<Longrightarrow> business_ok W (with_packet_seqs seqs (fw_bfn_flush_ack U c sender counts n)) p s"
proof -
  show "business_ok W (with_packet_seqs seqs (fw_bfn_data U c)) p s"
    by (rule fw_business_pure)
      (auto simp: fw_bfn_data_def fw_run_simps fs_change_ok split: if_splits prod.splits
        dest: fw_outputs_ok route_batch_ok [OF _ assms routed_ok_Nil])
  show "business_ok W (\<lambda>_. fw_bfn_abort U c) p s"
    by (rule business_no_effect)
      (auto simp: fw_bfn_abort_def fw_abort_outputs_def fw_run_simps fs_abort_change_def fs_change_ok out_ok_def list_all_iff)
  show "business_ok W (with_packet_seqs seqs (fw_bfn_upstream_eof U c e n)) p s"
    by (rule fw_business_pure)
      (auto simp: fw_bfn_upstream_eof_def fw_run_simps fw_drain_Inr fw_eof_outputs_Inr fs_change_ok Let_def out_ok_def list_all_iff [of _ "map _ _"]
        split: if_splits dest: fw_outputs_ok fw_eofs_ok)
  show "business_ok W (with_packet_seqs seqs (fw_bfn_flush_order U c leader)) p s"
    by (rule fw_business_pure)
      (auto simp: fw_bfn_flush_order_def fw_run_simps fw_drain_Inr fs_change_ok out_ok_def dest: fw_outputs_ok)
  show "business_ok W (with_packet_seqs seqs (fw_bfn_flush_ack U c sender counts n)) p s" if "json_ok (JObj counts)"
    by (rule fw_business_pure)
      (use that in \<open>auto simp: fw_bfn_flush_ack_def fw_run_simps fw_drain_Inr fw_eof_outputs_Inr fs_change_ok Let_def split: if_splits
        dest: fw_outputs_ok fw_eofs_ok\<close>)
qed

lemma fw_business_received: "business_ok filter_ops (with_packet_seqs seqs (fw_bfn_eof_received c ctrl n f)) p s"
proof (cases "process_control_message MT_EOF_RECEIVED c ctrl n f (fs_coordinator s)")
  case (Pair r ec')
  show ?thesis
  proof (cases r)
    case (Inl e)
    with Pair show ?thesis
      by (simp add: business_ok_def with_packet_seqs_def fw_bfn_eof_received_def act_defs fw_on_state_def on_fs_coordinator_def)
  next
    case (Inr a)
    with Pair fs_co.received_again [of c ctrl n f s a ec'] show ?thesis
      by (auto simp: business_ok_def with_packet_seqs_def fw_bfn_eof_received_def act_defs fw_on_state_def on_fs_coordinator_def Let_def
          out_ok_def filter_ops_def fs_apply_change_def fs_change_ok(5) [unfolded fs_msg_change_def] fs_msg_change_def
          split: option.splits coordinator_action.splits)
  qed
qed

subsection \<open>Packets of an output\<close>

text \<open>An output whose packets carry no number of the worker's own.\<close>

definition plain_output :: "filter_setup \<Rightarrow> pystr \<Rightarrow> bool" where
  "plain_output U name \<longleftrightarrow> map_of (fu_edges U) name \<noteq> None \<or>
     name \<notin> fu_addressed U \<and> is_q4_exchange_output (fu_config U) name = Inr False"

lemma fw_output_plain:
  assumes "plain_output U d" and "fw_output U d t c p q = (Inr out, q')"
  shows "q' = q \<and> (\<exists>pkt sh. fi_packet t c p = Inr pkt \<and> normalize_output out = (d, pkt, sh))"
  using assms
  by (auto simp: fw_output_def output_packet_def plain_output_def fw_run_simps fw_logical_output_def split: if_splits option.splits)

lemma fw_output_says:
  assumes "plain_output U d" and "fw_output U d t c p q = (Inr out, q')"
  shows "data_sent dest [out] = (if d = dest \<and> t = MT_DATA then p else [])"
    and "eofs_sent [out] = (if t = MT_EOF then (case deserialize_control p of Inl _ \<Rightarrow> [] | Inr ctrl \<Rightarrow> [(d, expected_total ctrl)]) else [])"
proof -
  obtain pkt sh where pkt: "fi_packet t c p = Inr pkt" "normalize_output out = (d, pkt, sh)" using fw_output_plain [OF assms] by blast
  show "data_sent dest [out] = (if d = dest \<and> t = MT_DATA then p else [])" by (rule packet_says(1) [OF pkt])
  show "eofs_sent [out] = (if t = MT_EOF then (case deserialize_control p of Inl _ \<Rightarrow> [] | Inr ctrl \<Rightarrow> [(d, expected_total ctrl)]) else [])"
    by (rule packet_says(2) [OF pkt])
qed

lemma fw_outputs_say:
  assumes "fw_outputs U MT_DATA c dbs q = (Inr outs, q')" and "\<forall>d \<in> fst ` set dbs. plain_output U d"
  shows "data_sent dest outs = concat (of_key dest dbs) \<and> eofs_sent outs = []"
  using assms
proof (induction dbs arbitrary: q outs)
  case (Cons x dbs)
  obtain d b where x: "x = (d, b)" by (cases x)
  with Cons.prems(1) obtain out q1 outs1 where step: "fw_output U d MT_DATA c b q = (Inr out, q1)"
    "fw_outputs U MT_DATA c dbs q1 = (Inr outs1, q')" "outs = out # outs1"
    by (auto simp: fw_run_simps)
  have "plain_output U d" using Cons.prems(2) x by simp
  from fw_output_says [OF this step(1)] Cons.IH [OF step(2)] Cons.prems(2) show ?case
    by (simp add: step(3) sent_Cons(1) [of dest out outs1] sent_Cons(2) [of out outs1] x)
qed (simp add: areturn_def)

lemma fw_eofs_say:
  assumes "fw_eofs U c ts q = (Inr outs, q')" and "\<forall>d \<in> fst ` set ts. plain_output U d"
  shows "data_sent dest outs = [] \<and> eofs_sent outs = ts"
  using assms
proof (induction ts arbitrary: q outs)
  case (Cons x ts)
  obtain d n where x: "x = (d, n)" by (cases x)
  with Cons.prems(1) obtain p out q1 outs1 where step: "fw_eof_payload (fu_config U) n = Inr p" "fw_output U d MT_EOF c p q = (Inr out, q1)"
    "fw_eofs U c ts q1 = (Inr outs1, q')" "outs = out # outs1"
    by (auto simp: fw_run_simps)
  have "deserialize_control p = Inr \<lparr>cm_sender_id = fc_id (fu_config U), expected_total = n, processed_count = 0\<rparr>"
    using step(1) by (auto simp: fw_eof_payload_def intro: control_roundtrip)
  moreover have "plain_output U d" using Cons.prems(2) x by simp
  ultimately show ?case using fw_output_says [OF _ step(2)] Cons.IH [OF step(3)] Cons.prems(2)
    by (simp add: step(4) sent_Cons(1) [of dest out outs1] sent_Cons(2) [of out outs1] x)
qed (simp add: areturn_def)

text \<open>Every output of a configuration is an edge, but the gateway's queue.\<close>

lemma map_of_py_dict: "map_of (py_dict kvs) k = None \<longleftrightarrow> k \<notin> fst ` set kvs"
proof (induction kvs rule: rev_induct)
  case (snoc kv kvs)
  then show ?case by (cases kv) (auto simp: py_dict_def)
qed (simp add: py_dict_def)

definition separate_gateway :: "filter_setup \<Rightarrow> bool" where
  "separate_gateway U \<longleftrightarrow> (fc_configuration (fu_config U) = C_Q1 \<longrightarrow> fc_gateway_queue (fu_config U) \<notin> fu_addressed U)"

lemma configurations_differ [simp]:
  "C_Q1 \<noteq> C_Q5" "C_Q1 \<noteq> C_USD" "C_Q1 \<noteq> C_DATE" "C_Q5 \<noteq> C_USD" "C_Q5 \<noteq> C_DATE" "C_USD \<noteq> C_DATE"
  "C_Q5 \<noteq> C_Q1" "C_USD \<noteq> C_Q1" "C_DATE \<noteq> C_Q1" "C_USD \<noteq> C_Q5" "C_DATE \<noteq> C_Q5" "C_DATE \<noteq> C_USD"
  by (simp_all add: C_Q1_def C_Q5_def C_USD_def C_DATE_def)

lemma new_filter_setup_Inr:
  assumes "new_filter_setup cfg = Inr U"
  shows "fu_config U = cfg" and "build_output_edges cfg = Inr (fu_edges U)"
  using assms by (auto simp: new_filter_setup_def)

lemma q4_name_listed:
  assumes "q4_output_for_transaction cfg tx = Inr dest" and "q4_output_names cfg = Inr names"
  shows "dest \<in> set names"
proof (cases "q4_sharded cfg")
  case True
  with assms(1) obtain bank part where part: "partition_for_parts [bank, py_strip (tx_from_account tx)] (so_amount (fc_q4 cfg)) = Inr part"
    "q4_routing_key cfg part = Inr dest" by (auto simp: q4_output_for_transaction_def)
  have "part \<in> set [0..so_amount (fc_q4 cfg) - 1]" using partition_for_parts_range [OF part(1)] by simp
  moreover have "y \<in> set ys" if "rmap f xs = Inr ys" "x \<in> set xs" "f x = Inr y" for f :: "int \<Rightarrow> pystr res" and xs ys x y
    using that by (induction xs arbitrary: ys) auto
  ultimately show ?thesis using assms(2) part(2) True by (auto simp: q4_output_names_def)
qed (use assms in \<open>auto simp: q4_output_for_transaction_def q4_output_names_def\<close>)

lemma q4_names_total: "\<exists>names. q4_output_names cfg = Inr names"
proof -
  have "\<exists>ys. rmap (q4_routing_key cfg) xs = Inr ys" if "\<forall>x \<in> set xs. 0 \<le> x" for xs
    using that by (induction xs) (auto simp: q4_routing_key_def queue_name_for_worker_def)
  then show ?thesis by (auto simp: q4_output_names_def)
qed

lemma destinations_plain:
  assumes U: "new_filter_setup cfg = Inr U" and gw: "separate_gateway U"
  shows "route_transaction cfg tx = Inr routes \<Longrightarrow> d \<in> fst ` set routes \<Longrightarrow> plain_output U d"
    and "eof_targets cfg counts = Inr ts \<Longrightarrow> d \<in> fst ` set ts \<Longrightarrow> plain_output U d"
proof -
  note es = new_filter_setup_Inr [OF U]
  obtain names where names: "q4_output_names cfg = Inr names" using q4_names_total by blast
  have q5: "plain_output U (fc_q5_usd_queue cfg)" if "fc_configuration cfg = C_Q5"
    using that es(2) [symmetric] by (simp add: build_output_edges_def plain_output_def map_of_py_dict)
  have usd: "fc_enable_q1 cfg \<Longrightarrow> plain_output U (fc_q1_queue cfg)" "fc_enable_q2 cfg \<Longrightarrow> plain_output U SUM_Q2_OUTPUT"
    "fc_enable_date cfg \<Longrightarrow> plain_output U (fc_date_queue cfg)" if "fc_configuration cfg = C_USD"
    using that es(2) [symmetric] by (simp_all add: build_output_edges_def plain_output_def map_of_py_dict)
  have date: "fc_enable_q3 cfg \<Longrightarrow> plain_output U (fc_sum_q3_queue cfg)" "fc_enable_q3 cfg \<Longrightarrow> plain_output U (fc_q3_candidates_queue cfg)"
    "fc_enable_q4 cfg \<Longrightarrow> name \<in> set names \<Longrightarrow> plain_output U name" if "fc_configuration cfg = C_DATE" for name
    using that es(2) [symmetric] names
    by (cases "fc_enable_q3 cfg"; cases "fc_enable_q4 cfg";
        simp add: build_output_edges_def plain_output_def map_of_py_dict image_image Let_def)+
  have gateway: "plain_output U (fc_gateway_queue cfg)" if "fc_configuration cfg = C_Q1"
    using that gw es(1) by (simp add: plain_output_def separate_gateway_def is_q4_exchange_output_def)
  show "plain_output U d" if r: "route_transaction cfg tx = Inr routes" "d \<in> fst ` set routes"
  proof -
    consider "fc_configuration cfg = C_Q1" | "fc_configuration cfg = C_Q5" | "fc_configuration cfg = C_USD" | "fc_configuration cfg = C_DATE"
      using r by (auto simp: route_transaction_def Let_def split: if_splits)
    then show ?thesis
    proof cases
      case 1
      with r gateway show ?thesis by (auto simp: route_transaction_def Let_def split: if_splits)
    next
      case 2
      with r q5 show ?thesis by (auto simp: route_transaction_def Let_def split: if_splits)
    next
      case 3
      with r usd show ?thesis by (auto simp: route_transaction_def Let_def split: if_splits)
    next
      case 4
      with r date q4_name_listed [OF _ names] show ?thesis by (auto simp: route_transaction_def Let_def split: if_splits)
    qed
  qed
  show "plain_output U d" if t: "eof_targets cfg counts = Inr ts" "d \<in> fst ` set ts"
  proof -
    consider "fc_configuration cfg = C_Q1" | "fc_configuration cfg = C_Q5" | "fc_configuration cfg = C_USD" | "fc_configuration cfg = C_DATE"
      using t by (auto simp: eof_targets_def Let_def split: if_splits)
    then show ?thesis
    proof cases
      case 1
      with t gateway show ?thesis by (auto simp: eof_targets_def Let_def)
    next
      case 2
      with t q5 show ?thesis by (auto simp: eof_targets_def Let_def)
    next
      case 3
      with t usd show ?thesis by (auto simp: eof_targets_def Let_def split: if_splits)
    next
      case 4
      with t date names show ?thesis by (auto simp: eof_targets_def Let_def split: if_splits)
    qed
  qed
qed

subsection \<open>What a batch adds\<close>

text \<open>The routes of a transaction; what goes to a destination and what is counted under an output.\<close>

definition routes_of :: "filter_config \<Rightarrow> transaction \<Rightarrow> (pystr \<times> pystr) list" where
  "routes_of cfg tx = (case route_transaction cfg tx of Inl _ \<Rightarrow> [] | Inr routes \<Rightarrow> routes)"

definition goes_to :: "filter_config \<Rightarrow> pystr \<Rightarrow> transaction list \<Rightarrow> transaction list" where
  "goes_to cfg dest txs = concat (map (\<lambda>tx. map (\<lambda>_. tx) (filter (\<lambda>r. fst r = dest) (routes_of cfg tx))) txs)"

definition counted_as :: "filter_config \<Rightarrow> pystr \<Rightarrow> transaction list \<Rightarrow> int" where
  "counted_as cfg logical txs = int (length (filter (\<lambda>r. snd r = logical) (concat (map (routes_of cfg) txs))))"

lemma sent_counted_append:
  "goes_to cfg dest (xs @ ys) = goes_to cfg dest xs @ goes_to cfg dest ys"
  "counted_as cfg l (xs @ ys) = counted_as cfg l xs + counted_as cfg l ys"
  by (simp_all add: goes_to_def counted_as_def)

lemma serialize_transactions_append:
  "serialize_transactions xs = Inr a \<Longrightarrow> serialize_transactions ys = Inr b \<Longrightarrow> serialize_transactions (xs @ ys) = Inr (a @ b)"
proof -
  have "rmap f xs = Inr as \<Longrightarrow> rmap f ys = Inr bs \<Longrightarrow> rmap f (xs @ ys) = Inr (as @ bs)" for f :: "transaction \<Rightarrow> bytes res" and as bs
    by (induction xs arbitrary: as) auto
  then show "serialize_transactions xs = Inr a \<Longrightarrow> serialize_transactions ys = Inr b \<Longrightarrow> serialize_transactions (xs @ ys) = Inr (a @ b)"
    by (fastforce simp: serialize_transactions_def encode_batch_def)
qed

lemma route_one_all:
  "dget (fst (foldl (\<lambda>acc. route_one acc ser) acc rs)) dest [] = dget (fst acc) dest [] @ map (\<lambda>_. ser) (filter (\<lambda>r. fst r = dest) rs)"
  "dget (snd (foldl (\<lambda>acc. route_one acc ser) acc rs)) l 0 = dget (snd acc) l 0 + int (length (filter (\<lambda>r. snd r = l) rs))"
  "fst ` set (fst (foldl (\<lambda>acc. route_one acc ser) acc rs)) = fst ` set (fst acc) \<union> fst ` set rs"
  "dict_wf (fst acc) \<Longrightarrow> dict_wf (fst (foldl (\<lambda>acc. route_one acc ser) acc rs))"
  "dict_wf (snd acc) \<Longrightarrow> dict_wf (snd (foldl (\<lambda>acc. route_one acc ser) acc rs))"
  "fst ` set (snd (foldl (\<lambda>acc. route_one acc ser) acc rs)) = fst ` set (snd acc) \<union> snd ` set rs"
  by (induction rs arbitrary: acc, simp_all add: route_one_def dappend_def dom_update case_prod_beta)

lemma rmap_const: "f x = Inr y \<Longrightarrow> rmap f (map (\<lambda>_. x) zs) = Inr (map (\<lambda>_. y) zs)"
  by (induction zs) simp_all

lemma route_batch_adds:
  assumes "route_batch cfg txs acc = Inr acc'" and "dict_wf (fst acc)" and "dict_wf (snd acc)"
  shows "(\<forall>dest. \<exists>b. serialize_transactions (goes_to cfg dest txs) = Inr b \<and>
            concat (dget (fst acc') dest []) = concat (dget (fst acc) dest []) @ b) \<and>
    (\<forall>l. dget (snd acc') l 0 = dget (snd acc) l 0 + counted_as cfg l txs) \<and> dict_wf (fst acc') \<and> dict_wf (snd acc') \<and>
    (\<forall>d \<in> fst ` set (fst acc'). d \<in> fst ` set (fst acc) \<or> (\<exists>tx \<in> set txs. \<exists>routes. route_transaction cfg tx = Inr routes \<and> d \<in> fst ` set routes)) \<and>
    (\<forall>l \<in> fst ` set (snd acc'). l \<in> fst ` set (snd acc) \<or> (\<exists>tx \<in> set txs. \<exists>routes. route_transaction cfg tx = Inr routes \<and> l \<in> snd ` set routes))"
  using assms
proof (induction txs arbitrary: acc)
  case (Cons tx txs)
  from Cons.prems(1) obtain routes where routes: "route_transaction cfg tx = Inr routes" by auto
  have split: "goes_to cfg dest (tx # txs) = map (\<lambda>_. tx) (filter (\<lambda>r. fst r = dest) routes) @ goes_to cfg dest txs"
    "counted_as cfg l (tx # txs) = int (length (filter (\<lambda>r. snd r = l) routes)) + counted_as cfg l txs" for dest l
    using routes by (simp_all add: goes_to_def counted_as_def routes_of_def)
  show ?case
  proof (cases "routes = []")
    case True
    with Cons routes show ?thesis by (auto simp: split)
  next
    case False
    with Cons.prems(1) routes obtain ser where ser: "serialize_transaction tx = Inr ser"
      "route_batch cfg txs (foldl (\<lambda>acc. route_one acc ser) acc routes) = Inr acc'" by auto
    let ?acc = "foldl (\<lambda>acc. route_one acc ser) acc routes"
    note IH = Cons.IH [OF ser(2) route_one_all(4) [OF Cons.prems(2)] route_one_all(5) [OF Cons.prems(3)]]
    have 1: "\<exists>b. serialize_transactions (goes_to cfg dest (tx # txs)) = Inr b \<and>
        concat (dget (fst acc') dest []) = concat (dget (fst acc) dest []) @ b" for dest
    proof -
      from IH [THEN conjunct1, rule_format, of dest] obtain b where b: "serialize_transactions (goes_to cfg dest txs) = Inr b"
        "concat (dget (fst acc') dest []) = concat (dget (fst ?acc) dest []) @ b" by blast
      have "serialize_transactions (map (\<lambda>_. tx) (filter (\<lambda>r. fst r = dest) routes)) = Inr (concat (map (\<lambda>_. ser) (filter (\<lambda>r. fst r = dest) routes)))"
        by (simp add: serialize_transactions_def encode_batch_def rmap_const [of serialize_transaction, OF ser(1)])
      from serialize_transactions_append [OF this b(1)] b(2) show ?thesis by (simp add: split route_one_all(1))
    qed
    have 2: "dget (snd acc') l 0 = dget (snd acc) l 0 + counted_as cfg l (tx # txs)" for l
      using IH by (simp add: split route_one_all(2))
    have 3: "d \<in> fst ` set (fst acc) \<or> (\<exists>tx \<in> set (tx # txs). \<exists>routes. route_transaction cfg tx = Inr routes \<and> d \<in> fst ` set routes)"
      if "d \<in> fst ` set (fst acc')" for d
    proof -
      from IH that have "d \<in> fst ` set (fst ?acc) \<or> (\<exists>tx \<in> set txs. \<exists>routes. route_transaction cfg tx = Inr routes \<and> d \<in> fst ` set routes)" by blast
      with routes show ?thesis by (simp only: route_one_all(3)) auto
    qed
    have 4: "l \<in> fst ` set (snd acc) \<or> (\<exists>tx \<in> set (tx # txs). \<exists>routes. route_transaction cfg tx = Inr routes \<and> l \<in> snd ` set routes)"
      if "l \<in> fst ` set (snd acc')" for l
    proof -
      from IH that have "l \<in> fst ` set (snd ?acc) \<or> (\<exists>tx \<in> set txs. \<exists>routes. route_transaction cfg tx = Inr routes \<and> l \<in> snd ` set routes)" by blast
      with routes show ?thesis by (simp only: route_one_all(6)) auto
    qed
    have "dict_wf (fst acc')" "dict_wf (snd acc')" using IH by simp_all
    with 1 2 3 4 show ?thesis by (intro conjI allI ballI)
  qed
qed (simp add: goes_to_def counted_as_def serialize_transactions_def encode_batch_def)

subsection \<open>A client from its first batch to its EOFs\<close>

text \<open>The batches of a client, each as the handler runs it: the business function, then the change it returned.\<close>

fun fw_feed :: "filter_setup \<Rightarrow> int \<Rightarrow> bytes list \<Rightarrow> (filter_state \<times> packet_seqs, logical_output list) act" where
  "fw_feed U c [] = areturn []"
| "fw_feed U c (payload # payloads) =
     abind (fw_bfn_data U c payload) (\<lambda>(change, outs).
     abind (fw_on_state (fs_apply_change change)) (\<lambda>_.
     abind (fw_feed U c payloads) (\<lambda>rest. areturn (outs @ rest))))"

text \<open>The upstream EOF of a client.\<close>

definition fw_finish :: "filter_setup \<Rightarrow> int \<Rightarrow> int \<Rightarrow> (filter_state \<times> packet_seqs, logical_output list) act" where
  "fw_finish U c expected =
     abind (fw_on_state (aget (fs_processed_count c))) (\<lambda>count.
     abind (fw_bfn_upstream_eof U c expected count []) (\<lambda>(change, outs).
     abind (fw_on_state (fs_apply_change change)) (\<lambda>_. areturn outs)))"

definition fw_client :: "filter_setup \<Rightarrow> int \<Rightarrow> bytes list \<Rightarrow> int \<Rightarrow> (filter_state \<times> packet_seqs, logical_output list) act" where
  "fw_client U c payloads expected =
     abind (fw_feed U c payloads) (\<lambda>outs. abind (fw_finish U c expected) (\<lambda>rest. areturn (outs @ rest)))"

lemma fw_on_state_Inr: "fw_on_state m w = (Inr x, w') \<longleftrightarrow> (\<exists>s. m (fst w) = (Inr x, s) \<and> w' = (s, snd w))"
  by (auto simp: fw_on_state_def azoom_def split: prod.splits)

text \<open>What a client's transactions have added between two states, and what has been sent for them.\<close>

definition filtered ::
  "filter_config \<Rightarrow> int \<Rightarrow> transaction list \<Rightarrow> logical_output list \<Rightarrow> filter_state \<Rightarrow> filter_state \<Rightarrow> bool" where
  "filtered cfg c txs outs s s' \<longleftrightarrow>
     (\<forall>dest. \<exists>b. serialize_transactions (goes_to cfg dest txs) = Inr b \<and>
        data_sent dest outs @ concat (kept (fs_buffer s') (dest, c)) = concat (kept (fs_buffer s) (dest, c)) @ b) \<and>
     (\<forall>l. dget (fs_forwarded_by_output_of c s') l 0 = dget (fs_forwarded_by_output_of c s) l 0 + counted_as cfg l txs) \<and>
     fs_processed_count c s' = fs_processed_count c s + int (length txs) \<and> fs_closed s' = fs_closed s \<and>
     fs_all_forwarded s' = fs_all_forwarded s \<and> fs_flushed_acks s' = fs_flushed_acks s \<and> eofs_sent outs = [] \<and>
     (\<forall>dest. kept (fs_buffer s') (dest, c) \<noteq> [] \<longrightarrow>
        kept (fs_buffer s) (dest, c) \<noteq> [] \<or> (\<exists>tx \<in> set txs. dest \<in> fst ` set (routes_of cfg tx))) \<and>
     fst ` set (fs_forwarded_by_output_of c s') \<subseteq>
       fst ` set (fs_forwarded_by_output_of c s) \<union> (\<Union>tx \<in> set txs. snd ` set (routes_of cfg tx))"

lemma filtered_Nil: "filtered cfg c [] [] s s"
  by (simp add: filtered_def goes_to_def counted_as_def serialize_transactions_def encode_batch_def)

lemma filteredD:
  assumes "filtered cfg c txs outs s s'"
  shows "\<exists>b. serialize_transactions (goes_to cfg dest txs) = Inr b \<and>
        data_sent dest outs @ concat (kept (fs_buffer s') (dest, c)) = concat (kept (fs_buffer s) (dest, c)) @ b"
    and "kept (fs_buffer s') (dest, c) \<noteq> [] \<Longrightarrow>
        kept (fs_buffer s) (dest, c) \<noteq> [] \<or> (\<exists>tx \<in> set txs. dest \<in> fst ` set (routes_of cfg tx))"
    and "fst ` set (fs_forwarded_by_output_of c s') \<subseteq>
       fst ` set (fs_forwarded_by_output_of c s) \<union> (\<Union>tx \<in> set txs. snd ` set (routes_of cfg tx))"
    and "dget (fs_forwarded_by_output_of c s') l 0 = dget (fs_forwarded_by_output_of c s) l 0 + counted_as cfg l txs"
    and "fs_processed_count c s' = fs_processed_count c s + int (length txs)" "fs_closed s' = fs_closed s"
      "fs_all_forwarded s' = fs_all_forwarded s" "fs_flushed_acks s' = fs_flushed_acks s" "eofs_sent outs = []"
  using assms unfolding filtered_def by (elim conjE, fast, elim conjE, fast, simp_all)

lemma subset_Un_trans: "B \<subseteq> A \<union> X \<Longrightarrow> C \<subseteq> B \<union> Y \<Longrightarrow> C \<subseteq> A \<union> (X \<union> Y)"
  by blast

lemma filtered_trans:
  assumes "filtered cfg c txs outs s s1" and "filtered cfg c txs' outs' s1 s2"
  shows "filtered cfg c (txs @ txs') (outs @ outs') s s2"
proof -
  have "\<exists>b. serialize_transactions (goes_to cfg dest (txs @ txs')) = Inr b \<and>
      data_sent dest (outs @ outs') @ concat (kept (fs_buffer s2) (dest, c)) = concat (kept (fs_buffer s) (dest, c)) @ b" for dest
  proof -
    from filteredD(1) [OF assms(1), of dest] filteredD(1) [OF assms(2), of dest] obtain b b'
      where b: "serialize_transactions (goes_to cfg dest txs) = Inr b"
      "data_sent dest outs @ concat (kept (fs_buffer s1) (dest, c)) = concat (kept (fs_buffer s) (dest, c)) @ b"
      "serialize_transactions (goes_to cfg dest txs') = Inr b'"
      "data_sent dest outs' @ concat (kept (fs_buffer s2) (dest, c)) = concat (kept (fs_buffer s1) (dest, c)) @ b'"
      by blast
    have "(data_sent dest outs @ data_sent dest outs') @ concat (kept (fs_buffer s2) (dest, c)) = concat (kept (fs_buffer s) (dest, c)) @ b @ b'"
      using b(2,4) by (metis append_assoc)
    with serialize_transactions_append [OF b(1,3)] show ?thesis by (simp add: sent_counted_append)
  qed
  moreover have "kept (fs_buffer s) (dest, c) \<noteq> [] \<or> (\<exists>tx \<in> set (txs @ txs'). dest \<in> fst ` set (routes_of cfg tx))"
    if "kept (fs_buffer s2) (dest, c) \<noteq> []" for dest
  proof -
    from filteredD(2) [OF assms(2) that] consider "kept (fs_buffer s1) (dest, c) \<noteq> []" | "\<exists>tx \<in> set txs'. dest \<in> fst ` set (routes_of cfg tx)"
      by blast
    then show ?thesis by cases (use filteredD(2) [OF assms(1), of dest] in auto)
  qed
  moreover have "fst ` set (fs_forwarded_by_output_of c s2) \<subseteq>
      fst ` set (fs_forwarded_by_output_of c s) \<union> (\<Union>tx \<in> set (txs @ txs'). snd ` set (routes_of cfg tx))"
    unfolding set_append UN_Un by (rule subset_Un_trans [OF filteredD(3) [OF assms(1)] filteredD(3) [OF assms(2)]])
  ultimately show ?thesis using filteredD(4-9) [OF assms(1)] filteredD(4-9) [OF assms(2)]
    unfolding filtered_def by (simp add: sent_counted_append)
qed

lemma of_key_plans:
  "concat (map (\<lambda>(dest, batches). map (Pair dest) batches) (fs_plan_data c app s)) =
   concat (map (\<lambda>(d, ps). map (Pair d) (plan_append (d, c) ps (fs_buffer s))) app)"
  by (simp add: fs_plan_data_def comp_def case_prod_unfold)

lemma fw_bfn_data_adds:
  assumes U: "new_filter_setup cfg = Inr U" "separate_gateway U" and c: "c \<notin> fs_closed s"
    and run: "fw_bfn_data U c payload (s, q) = (Inr (change, outs), w)" and txs: "deserialize_transactions payload = Inr txs"
  shows "\<exists>s'. fst w = s \<and> fs_apply_change change s = (Inr (), s') \<and> filtered cfg c txs outs s s'"
proof (cases "txs = []")
  case True
  with c run txs have w: "change = fs_data_change c 0 [] []" "outs = []" "fst w = s" by (auto simp: fw_bfn_data_def fw_run_simps fs_is_closed_def)
  obtain s' where "fs_apply_change (fs_data_change c 0 [] []) s = (Inr (), s')" "fs_processed_count c s' = fs_processed_count c s + 0"
    "fs_buffer s' = appended c [] (fs_buffer s)" "\<forall>out. dget (fs_forwarded_by_output_of c s') out 0 = dget (fs_forwarded_by_output_of c s) out 0 + sum_list (of_key out [])"
    "fs_closed s' = fs_closed s" "fs_all_forwarded s' = fs_all_forwarded s" "fs_flushed_acks s' = fs_flushed_acks s"
    "fst ` set (fs_forwarded_by_output_of c s') = fst ` set (fs_forwarded_by_output_of c s) \<union> fst ` set ([] :: (pystr \<times> int) list)"
    using data_applied [OF c, of 0 "[]" "[]"] by blast
  then show ?thesis using True w filtered_Nil [of cfg c s] by (auto simp: filtered_def appended_def)
next
  case False
  note cfg = new_filter_setup_Inr(1) [OF U(1)]
  from False c run txs obtain app fwd q' where
    routed: "route_batch cfg txs ([], []) = Inr (app, fwd)" and
    out: "fw_outputs U MT_DATA c (concat (map (\<lambda>(d, ps). map (Pair d) (plan_append (d, c) ps (fs_buffer s))) app)) q = (Inr outs, q')" and
    change: "change = fs_data_change c (int (length txs)) app fwd" "fst w = s"
    by (auto simp: fw_bfn_data_def fw_run_simps fs_is_closed_def cfg of_key_plans [symmetric] split: prod.splits)
  note adds = route_batch_adds [OF routed, simplified]
  obtain s' where s': "fs_apply_change change s = (Inr (), s')" "fs_processed_count c s' = fs_processed_count c s + int (length txs)"
    "fs_buffer s' = appended c app (fs_buffer s)"
    "\<forall>out. dget (fs_forwarded_by_output_of c s') out 0 = dget (fs_forwarded_by_output_of c s) out 0 + sum_list (of_key out fwd)"
    "fs_closed s' = fs_closed s" "fs_all_forwarded s' = fs_all_forwarded s" "fs_flushed_acks s' = fs_flushed_acks s"
    "fst ` set (fs_forwarded_by_output_of c s') = fst ` set (fs_forwarded_by_output_of c s) \<union> fst ` set fwd"
    using data_applied [OF c, of "int (length txs)" app fwd] change(1) by blast
  have plain: "plain_output U d" if "d \<in> fst ` set (concat (map (\<lambda>(d, ps). map (Pair d) (plan_append (d, c) ps (fs_buffer s))) app))" for d
  proof -
    from that have "d \<in> fst ` set app" by force
    with adds destinations_plain(1) [OF U] show ?thesis by blast
  qed
  have sent: "data_sent dest outs = concat (of_key dest (concat (map (\<lambda>(d, ps). map (Pair d) (plan_append (d, c) ps (fs_buffer s))) app))) \<and> eofs_sent outs = []" for dest
    by (rule fw_outputs_say [OF out]) (use plain in blast)
  have flow: "\<exists>b. serialize_transactions (goes_to cfg dest txs) = Inr b \<and>
      data_sent dest outs @ concat (kept (fs_buffer s') (dest, c)) = concat (kept (fs_buffer s) (dest, c)) @ b" for dest
    using adds appended_flow [of app dest c "fs_buffer s"] sent [of dest] s'(3) by auto
  have counts: "sum_list (of_key l fwd) = counted_as cfg l txs" for l
  proof -
    have "dget fwd l 0 = counted_as cfg l txs" "dict_wf fwd" using adds by simp_all
    with of_key_dict [of fwd l] show ?thesis by (simp add: dget_def split: option.splits)
  qed
  have keys: "kept (fs_buffer s) (dest, c) \<noteq> [] \<or> (\<exists>tx \<in> set txs. dest \<in> fst ` set (routes_of cfg tx))"
    if "kept (fs_buffer s') (dest, c) \<noteq> []" for dest
  proof (cases "dest \<in> fst ` set app")
    case True
    with adds obtain tx routes where "tx \<in> set txs" "route_transaction cfg tx = Inr routes" "dest \<in> fst ` set routes" by blast
    moreover from this have "dest \<in> fst ` set (routes_of cfg tx)" by (simp add: routes_of_def)
    ultimately show ?thesis by blast
  next
    case False
    with that s'(3) show ?thesis by (simp add: kept_appended_other)
  qed
  have logicals: "fst ` set (fs_forwarded_by_output_of c s') \<subseteq>
      fst ` set (fs_forwarded_by_output_of c s) \<union> (\<Union>tx \<in> set txs. snd ` set (routes_of cfg tx))"
  proof -
    have "l \<in> (\<Union>tx \<in> set txs. snd ` set (routes_of cfg tx))" if "l \<in> fst ` set fwd" for l
    proof -
      from adds that obtain tx routes where "tx \<in> set txs" "route_transaction cfg tx = Inr routes" "l \<in> snd ` set routes" by blast
      moreover from this have "l \<in> snd ` set (routes_of cfg tx)" by (simp add: routes_of_def)
      ultimately show ?thesis by blast
    qed
    with s'(8) show ?thesis by blast
  qed
  have "filtered cfg c txs outs s s'"
    unfolding filtered_def by (intro conjI allI impI) (rule flow | rule keys, assumption | rule logicals | simp add: s'(1-7) counts sent)+
  with s'(1) change(2) show ?thesis by blast
qed

lemma fw_feed_adds:
  assumes "new_filter_setup cfg = Inr U" and "separate_gateway U" and "c \<notin> fs_closed s"
    and "fw_feed U c payloads (s, q) = (Inr outs, w)" and "rmap deserialize_transactions payloads = Inr txss"
  shows "filtered cfg c (concat txss) outs s (fst w)"
  using assms(3-5)
proof (induction payloads arbitrary: s q outs txss)
  case (Cons p ps)
  from Cons.prems(3) obtain txs txss' where txs: "deserialize_transactions p = Inr txs" "rmap deserialize_transactions ps = Inr txss'" "txss = txs # txss'"
    by auto
  from Cons.prems(2) obtain change outs1 w1 s2 outs2 where
    step: "fw_bfn_data U c p (s, q) = (Inr (change, outs1), w1)" "fs_apply_change change (fst w1) = (Inr (), s2)"
      "fw_feed U c ps (s2, snd w1) = (Inr outs2, w)" "outs = outs1 @ outs2"
    by (auto simp: abind_eq_Inr fw_on_state_Inr areturn_def split: prod.splits)
  from fw_bfn_data_adds [OF assms(1,2) Cons.prems(1) step(1) txs(1)] step(2) have one: "filtered cfg c txs outs1 s s2" by auto
  then have "c \<notin> fs_closed s2" using Cons.prems(1) by (simp add: filtered_def)
  from filtered_trans [OF one Cons.IH [OF this step(3) txs(2)]] show ?case by (simp add: step(4) txs(3))
qed (auto simp: areturn_def filtered_Nil)

lemma dict_wf_drain:
  assumes "dict_wf (buffers b)"
  shows "dict_wf (map (\<lambda>(k, batch). (fst k, batch)) (plan_drain (\<lambda>k. snd k = c) b))"
proof -
  let ?xs = "filter (\<lambda>x. snd (fst x) = c \<and> snd x \<noteq> []) (buffers b)"
  have "inj_on fst (fst ` set ?xs)" by (auto simp: inj_on_def)
  moreover have "distinct (map fst ?xs)" using assms by (simp add: dict_wf_def distinct_map_filter)
  ultimately have "distinct (map fst (map fst ?xs))" unfolding distinct_map by simp
  then show ?thesis by (simp add: dict_wf_def plan_drain_def comp_def case_prod_unfold)
qed

lemma of_key_fst: "\<forall>k \<in> fst ` set xs. snd k = c \<Longrightarrow> of_key d (map (\<lambda>(k, x). (fst k, x)) xs) = of_key (d, c) xs"
proof (induction xs)
  case (Cons y xs)
  obtain d' c' x where y: "y = ((d', c'), x)" by (metis surj_pair)
  with Cons.prems have "c' = c" by simp
  moreover have "of_key d (map (\<lambda>(k, x). (fst k, x)) xs) = of_key (d, c) xs" by (rule Cons.IH) (use Cons.prems in simp)
  ultimately show ?case by (simp add: y)
qed simp

lemma drained:
  assumes "buffer_ok (fs_buffer s)"
  shows "concat (of_key dest (fs_plan_drain c s)) = concat (kept (fs_buffer s) (dest, c))"
proof -
  have "of_key dest (fs_plan_drain c s) = of_key (dest, c) (plan_drain (\<lambda>k. snd k = c) (fs_buffer s))"
  proof -
    have "dict_wf (buffers (fs_buffer s))" using assms by (simp add: buffer_ok_def)
    from py_dict_id [OF dict_wf_drain [OF this, of c]]
    have "fs_plan_drain c s = map (\<lambda>(k, batch). (fst k, batch)) (plan_drain (\<lambda>k. snd k = c) (fs_buffer s))"
      by (simp add: fs_plan_drain_def)
    moreover have "\<forall>k \<in> fst ` set (plan_drain (\<lambda>k. snd k = c) (fs_buffer s)). snd k = c" by (auto simp: plan_drain_def)
    ultimately show ?thesis using of_key_fst by metis
  qed
  with of_key_drain [OF assms, of "(dest, c)" "\<lambda>k. snd k = c"] show ?thesis by simp
qed

lemma plain_drain:
  assumes U: "new_filter_setup cfg = Inr U" "separate_gateway U"
    and kept: "\<forall>dest. kept (fs_buffer s) (dest, c) \<noteq> [] \<longrightarrow> plain_output U dest"
    and "buffer_ok (fs_buffer s)"
  shows "\<forall>d \<in> fst ` set (fs_plan_drain c s). plain_output U d"
proof
  fix d assume d: "d \<in> fst ` set (fs_plan_drain c s)"
  have wf: "dict_wf (buffers (fs_buffer s))" using assms(4) by (simp add: buffer_ok_def)
  have "fs_plan_drain c s = map (\<lambda>(k, batch). (fst k, batch)) (plan_drain (\<lambda>k. snd k = c) (fs_buffer s))"
    unfolding fs_plan_drain_def by (rule py_dict_id [OF dict_wf_drain [OF wf]])
  with d obtain buf where buf: "((d, c), buf) \<in> set (buffers (fs_buffer s))" "buf \<noteq> []"
    by (auto simp: plan_drain_def)
  with wf have "map_of (buffers (fs_buffer s)) (d, c) = Some buf" by (simp add: dict_wf_def)
  with buf(2) kept show "plain_output U d" by (simp add: dget_def)
qed

lemma feed_wf:
  assumes "fs_wf s" and "fw_feed U c payloads (s, q) = (Inr outs, w)" 
  shows "fs_wf (fst w)"
  using assms
proof (induction payloads arbitrary: s q outs)
  case (Cons p ps)
  from Cons.prems(2) obtain change outs1 w1 s2 outs2 where
    step: "fw_bfn_data U c p (s, q) = (Inr (change, outs1), w1)" "fs_apply_change change (fst w1) = (Inr (), s2)"
      "fw_feed U c ps (s2, snd w1) = (Inr outs2, w)"
    by (auto simp: abind_eq_Inr fw_on_state_Inr areturn_def split: prod.splits)
  have "fst w1 = s" using step(1) by (auto simp: fw_bfn_data_def fw_run_simps split: if_splits prod.splits)
  with fs_wf_change [OF Cons.prems(1), of change] step(2) have "fs_wf s2" by simp
  from Cons.IH [OF this step(3)] show ?case .
qed (auto simp: areturn_def)

lemma route_plain:
  assumes U: "new_filter_setup cfg = Inr U" "separate_gateway U" and "d \<in> fst ` set (routes_of cfg tx)"
  shows "plain_output U d"
proof (cases "route_transaction cfg tx")
  case (Inr routes)
  with assms(3) have "d \<in> fst ` set routes" by (simp add: routes_of_def)
  with destinations_plain(1) [OF U Inr] show ?thesis .
qed (use assms(3) in \<open>simp add: routes_of_def\<close>)

lemma drain_says:
  assumes U: "new_filter_setup cfg = Inr U" "separate_gateway U" and wf: "fs_wf s"
    and keys: "\<forall>dest. kept (fs_buffer s) (dest, c) \<noteq> [] \<longrightarrow> (\<exists>tx \<in> set txs. dest \<in> fst ` set (routes_of cfg tx))"
    and out: "fw_outputs U MT_DATA c (fs_plan_drain c s) q = (Inr outs, q')"
  shows "data_sent dest outs = concat (kept (fs_buffer s) (dest, c)) \<and> eofs_sent outs = []"
proof -
  have ok: "buffer_ok (fs_buffer s)" using wf by (simp add: fs_wf_def)
  have "\<forall>dest. kept (fs_buffer s) (dest, c) \<noteq> [] \<longrightarrow> plain_output U dest" using keys route_plain [OF U] by blast
  from fw_outputs_say [OF out plain_drain [OF U this ok]] drained [OF ok, of dest c] show ?thesis by simp
qed

lemma fs_compound_close: "fs_apply_change (fs_compound_change (chs @ [fs_close_change c])) s = (Inr (), s') \<Longrightarrow> c \<in> fs_closed s'"
proof -
  assume "fs_apply_change (fs_compound_change (chs @ [fs_close_change c])) s = (Inr (), s')"
  then have "afor (dispatch_change fs_changes) (chs @ [fi_close_change c]) s = (Inr (), s')"
    by (simp add: fs_apply_change_def fs_compound_change_def fs_close_change_def fi_dispatch_simps(1))
  then have "\<exists>s1. dispatch_change fs_changes (fi_close_change c) s1 = (Inr (), s')"
    by (induction chs arbitrary: s) (auto simp: abind_eq_Inr areturn_def)
  with fs.close_change_closes [of c] show ?thesis by (metis snd_conv)
qed

lemma kept_new [simp]: "kept (fs_buffer (new_filter_state ec mb mi)) k = []" "fs_closed (new_filter_state ec mb mi) = {}"
  "fs_forwarded_by_output_of c (new_filter_state ec mb mi) = []" "fs_processed_count c (new_filter_state ec mb mi) = 0"
  by (simp_all add: new_filter_state_def new_batch_buffer_def fs_forwarded_by_output_of_def fs_processed_count_def)

text \<open>
  C5: a single replica of a filter forwards exactly what its rule selects. Started fresh and fed the batches of a client in
  any split, then its upstream EOF, it sends to every destination the records of the transactions routed
  there, each once and in their order, whatever the sizes of the output batches; the EOFs go to the outputs of
  the configuration, each with the number of transactions counted under it, partitions of query 4 under their
  common total; and the client is closed.
\<close>

theorem filter_forwards_all:
  assumes "new_filter_setup cfg = Inr U" and "separate_gateway U" and "fc_amount cfg \<le> 1"
    and "rmap deserialize_transactions payloads = Inr txss"
    and "fw_client U c payloads expected (new_filter_state ec mb mi, q) = (Inr outs, w)"
  shows "(\<forall>dest. serialize_transactions (goes_to cfg dest (concat txss)) = Inr (data_sent dest outs)) \<and>
    (\<exists>counts. (\<forall>l. dget counts l 0 = counted_as cfg l (concat txss)) \<and> eof_targets cfg counts = Inr (eofs_sent outs)) \<and>
    c \<in> fs_closed (fst w)"
proof -
  let ?s = "new_filter_state ec mb mi"
  note U = assms(1,2)
  note cfg = new_filter_setup_Inr(1) [OF U(1)]
  from assms(5) obtain outs1 w1 outs2 where run: "fw_feed U c payloads (?s, q) = (Inr outs1, w1)" "fw_finish U c expected w1 = (Inr outs2, w)"
    "outs = outs1 @ outs2"
    by (auto simp: fw_client_def abind_eq_Inr areturn_def)
  have fed: "filtered cfg c (concat txss) outs1 ?s (fst w1)" by (rule fw_feed_adds [OF U _ run(1) assms(4)]) simp
  have wf: "fs_wf (fst w1)" by (rule feed_wf [OF fs_wf_new run(1)])
  from run(2) assms(3) obtain drain q1 ts eofs q2 n where
    fin: "fw_outputs U MT_DATA c (fs_plan_drain c (fst w1)) (snd w1) = (Inr drain, q1)"
      "eof_targets cfg (fs_forwarded_by_output_of c (fst w1)) = Inr ts" "fw_eofs U c ts q1 = (Inr eofs, q2)" "outs2 = drain @ eofs" and
    close: "fs_apply_change (fs_compound_change ([fs_upstream_eof_change c expected n n] @ [fs_close_change c])) (fst w1) = (Inr (), fst w)"
    by (auto simp: fw_finish_def fw_bfn_upstream_eof_def Let_def fw_run_simps fw_drain_Inr fw_eof_outputs_Inr fw_on_state_Inr aget_def cfg split: prod.splits)
  have D: "data_sent dest drain = concat (kept (fs_buffer (fst w1)) (dest, c)) \<and> eofs_sent drain = []" for dest
    by (rule drain_says [OF U wf _ fin(1), where txs = "concat txss"]) (use fed in \<open>auto simp: filtered_def\<close>)
  have E: "data_sent dest eofs = [] \<and> eofs_sent eofs = ts" for dest
    by (rule fw_eofs_say [OF fin(3)]) (use destinations_plain(2) [OF U fin(2)] in blast)
  have "serialize_transactions (goes_to cfg dest (concat txss)) = Inr (data_sent dest outs)" for dest
    using fed D [of dest] E [of dest] by (auto simp: filtered_def run(3) fin(4))
  moreover have "eofs_sent outs = ts" using fed D E by (simp add: filtered_def run(3) fin(4))
  moreover have "dget (fs_forwarded_by_output_of c (fst w1)) l 0 = counted_as cfg l (concat txss)" for l
    using fed by (simp add: filtered_def)
  moreover have "c \<in> fs_closed (fst w)" using close by (rule fs_compound_close)
  ultimately show ?thesis using fin(2) by blast
qed

subsubsection \<open>An example\<close>

definition demo_q5 :: filter_config where
  "demo_q5 =
     \<lparr>fc_id = 1, fc_configuration = C_Q5, fc_input_queue = [105], fc_input_exchange = None, fc_input_prefix = None,
      fc_gateway_queue = [103], fc_date_queue = [100], fc_q1_queue = [49], fc_mapper_queue = [109], fc_q5_usd_queue = [117],
      fc_q3_candidates_queue = [51], fc_sum_q3_queue = [115], fc_q4 = no_sharded_output, fc_q3_candidates = no_sharded_output,
      fc_sum_q3 = no_sharded_output, fc_amount = 1, fc_prefix = [102], fc_enable_q1 = True, fc_enable_q2 = True, fc_enable_date = True,
      fc_enable_q3 = True, fc_enable_q4 = True, fc_q1 = no_sharded_output,
      fc_q5_usd = \<lparr>so_exchange = Some [120], so_prefix = [117], so_amount = 2\<rparr>, fc_sum_q2 = no_sharded_output,
      fc_date = no_sharded_output, fc_batch_bytes = 1000, fc_batch_max_tx = 10, fc_snapshot_interval = 5\<rparr>"

definition demo_q5_setup :: filter_setup where
  "demo_q5_setup =
     \<lparr>fu_config = demo_q5, fu_edges = [([117], \<lparr>edge_sender_id = 1, shard_count = 2\<rparr>)],
      fu_addressed = {SUM_Q2_OUTPUT, [115], [117], [49], [100]}\<rparr>"

lemma demo_q5_new: "new_filter_setup demo_q5 = Inr demo_q5_setup"
  by (simp add: new_filter_setup_def build_output_edges_def demo_q5_def demo_q5_setup_def py_dict_def Let_def)

lemma demo_q5_output: "\<exists>out. fw_output demo_q5_setup [117] t 7 p q = (Inr out, q)"
  by (cases t)
    (simp_all add: fw_output_def output_packet_def demo_q5_setup_def fi_packet_def client_id_to_bytes_def create_packet_def pack_uint_def
      fw_logical_output_def output_shard_def shard_for_client_id_def shard_for_key_def validate_shard_count_def act_defs)

lemma demo_q5_route: "route_transaction demo_q5 demo_tx = Inr [([117], [117])]"
  by (simp add: route_transaction_def demo_q5_def filter_transaction_def demo_tx_def)

lemma demo_q5_batch:
  assumes "serialize_transaction demo_tx = Inr b" and "deserialize_transactions b = Inr [demo_tx]" and "length b = 195"
  shows "fw_bfn_data demo_q5_setup 7 b (new_filter_state ec 1000 10, q) =
    (Inr (fs_data_change 7 1 [([117], [b])] [([117], 1)], []), (new_filter_state ec 1000 10, q))"
  using assms demo_q5_route
  by (simp add: fw_bfn_data_def act_defs fw_on_state_def fw_on_seqs_def fs_is_closed_def new_filter_state_def demo_q5_setup_def
      route_one_def dappend_def fs_plan_data_def plan_append_def simulate_key_def new_batch_buffer_def len_int_def)

text \<open>A coordinator of one replica lets the EOF change and the close through.\<close>

lemma single_close:
  assumes "ec_total (fs_coordinator s) \<le> 1"
  shows "fs_apply_change (fs_compound_change [fs_upstream_eof_change c e n f, fs_close_change c]) s = (Inr (), fs_apply_close c s)"
proof -
  have "fs_apply_change (fs_upstream_eof_change c e n f) s = (Inr (), s)"
    using assms
    by (simp add: fs_apply_change_def fs_upstream_eof_change_def fs_co.replayed_upstream_eof on_upstream_eof_def act_defs)
  moreover have "fs_apply_change (fs_close_change c) s = (Inr (), fs_apply_close c s)"
    by (simp add: fs_apply_change_def fs_close_change_def fi_dispatch_simps(4) fs_changes_def amodify_def)
  ultimately show ?thesis
    by (simp add: fs_apply_change_def fs_compound_change_def fi_dispatch_simps(1) abind_def areturn_def)
qed

theorem filter_forwards_all_witness:
  "\<exists>b ec outs w. fw_client demo_q5_setup 7 [b] 1 (new_filter_state ec 1000 10, \<lparr>ps_q4 = [], ps_sum = []\<rparr>) = (Inr outs, w) \<and>
     serialize_transactions [demo_tx] = Inr (data_sent [117] outs) \<and> eofs_sent outs = [([117], 1)] \<and> 7 \<in> fs_closed (fst w)"
proof -
  obtain b where b: "serialize_transaction demo_tx = Inr b" "deserialize_transactions b = Inr [demo_tx]" "length b = 195"
    using demo_tx_serialized by blast
  obtain ec where "filter_coordinator demo_q5 = Inr ec" by (simp add: filter_coordinator_def new_coordinator_def parse_mode_def)
  then have ec: "ec_total ec = 1" by (auto simp: filter_coordinator_def new_coordinator_def demo_q5_def)
  let ?s = "new_filter_state ec 1000 10" and ?q = "\<lparr>ps_q4 = [], ps_sum = []\<rparr> :: packet_seqs" and ?app = "[([117], [b])]"
  obtain s1 where s1: "fs_apply_change (fs_data_change 7 1 ?app [([117], 1)]) ?s = (Inr (), s1)"
    "fs_buffer s1 = appended 7 ?app (fs_buffer ?s)"
    "\<forall>out. dget (fs_forwarded_by_output_of 7 s1) out 0 = dget (fs_forwarded_by_output_of 7 ?s) out 0 + sum_list (of_key out [([117], 1)])"
    "fs_coordinator s1 = fs_coordinator ?s"
    using data_applied [of 7 ?s 1 ?app "[([117], 1)]"] by auto
  have feed: "fw_feed demo_q5_setup 7 [b] (?s, ?q) = (Inr [], (s1, ?q))"
    using demo_q5_batch [OF b, of ec ?q] s1(1) by (simp add: act_defs fw_on_state_def)
  have drain: "fs_plan_drain 7 s1 = [([117], b)]"
    using b(3)
    by (simp add: fs_plan_drain_def s1(2) appended_def apply_append_def simulate_key_def new_filter_state_def new_batch_buffer_def
        len_int_def plan_drain_def py_dict_def)
  have ts: "eof_targets demo_q5 (fs_forwarded_by_output_of 7 s1) = Inr [([117], 1)]"
    using s1(3) by (simp add: eof_targets_def demo_q5_def)
  obtain o1 o2 p where outs: "fw_output demo_q5_setup [117] MT_DATA 7 b ?q = (Inr o1, ?q)" "fw_eof_payload demo_q5 1 = Inr p"
    "fw_output demo_q5_setup [117] MT_EOF 7 p ?q = (Inr o2, ?q)"
  proof -
    obtain p where "fw_eof_payload demo_q5 1 = Inr p" by (simp add: fw_eof_payload_def serialize_control_def demo_q5_def pack_uint_def)
    with that demo_q5_output [of MT_DATA b ?q] demo_q5_output [of MT_EOF p ?q] show thesis by blast
  qed
  have cfg: "fu_config demo_q5_setup = demo_q5" "fc_amount demo_q5 = 1" by (simp_all add: demo_q5_setup_def demo_q5_def)
  have "fw_finish demo_q5_setup 7 1 (s1, ?q) = (Inr [o1, o2], (fs_apply_close 7 s1, ?q))"
    using single_close [of s1 7 1 "fs_processed_count 7 s1" "fs_processed_count 7 s1"] s1(4) ec drain ts outs
    by (simp add: fw_finish_def fw_bfn_upstream_eof_def fw_drain_outputs_def fw_eof_outputs_def act_defs fw_on_state_def fw_on_seqs_def
        cfg new_filter_state_def)
  with feed have run: "fw_client demo_q5_setup 7 [b] 1 (?s, ?q) = (Inr [o1, o2], (fs_apply_close 7 s1, ?q))"
    by (simp add: fw_client_def abind_def areturn_def)
  have gw: "separate_gateway demo_q5_setup" and one: "fc_amount demo_q5 \<le> 1"
    by (simp_all add: separate_gateway_def demo_q5_setup_def demo_q5_def)
  have "rmap deserialize_transactions [b] = Inr [[demo_tx]]" using b(2) by simp
  from filter_forwards_all [OF demo_q5_new gw one this run]
  have claim: "\<forall>dest. serialize_transactions (goes_to demo_q5 dest [demo_tx]) = Inr (data_sent dest [o1, o2])"
    "\<exists>counts. (\<forall>l. dget counts l 0 = counted_as demo_q5 l [demo_tx]) \<and> eof_targets demo_q5 counts = Inr (eofs_sent [o1, o2])"
    "7 \<in> fs_closed (fs_apply_close 7 s1)" by auto
  have "goes_to demo_q5 [117] [demo_tx] = [demo_tx]" "counted_as demo_q5 [117] [demo_tx] = 1"
    by (simp_all add: goes_to_def counted_as_def routes_of_def demo_q5_route)
  with claim have "serialize_transactions [demo_tx] = Inr (data_sent [117] [o1, o2])" "eofs_sent [o1, o2] = [([117], 1)]"
    by (metis, auto simp: eof_targets_def demo_q5_def)
  with run claim(3) show ?thesis by (intro exI [of _ b] exI [of _ ec] exI [of _ "[o1, o2]"] exI [of _ "(fs_apply_close 7 s1, ?q)"]) simp
qed

end
