(* ===== verification/Q3BarrierState.thy ===== *)
theory Q3BarrierState
  imports FanIn
begin

text \<open>
  \<open>workers/q3_barrier/q3_barrier_state.py\<close>: the state of the worker that holds the candidate transactions of a client until
  the averages are known. The candidates are kept in a file per client; the memory has only the length of
  the file, and so does a snapshot. The files outlive the process, so they are a component of the state that a
  restart takes over while the rest starts empty.

  A float in a logged change is written as the integer of its 64 bits. Python writes its \<open>repr\<close>, from which
  the reader gets the same float back; nothing else reads the log.
\<close>

subsection \<open>State\<close>

text \<open>The files of this node by the client in their name, and the open \<open>_DiskLog\<close>s with their \<open>byte_count\<close>.\<close>

record q3_barrier_state =
  q3b_averages :: "(int \<times> (pystr \<times> double) list) list"
  q3b_avg_eof :: "int set"
  q3b_candidates_eof :: "int set"
  q3b_expected_total :: "(int \<times> int) list"
  q3b_closed :: "int set"
  q3b_disk_logs :: "(int \<times> int) list"
  q3b_files :: "int \<Rightarrow> bytes option"

definition new_q3_barrier_state :: "(int \<Rightarrow> bytes option) \<Rightarrow> q3_barrier_state" where
  "new_q3_barrier_state files =
     \<lparr>q3b_averages = [], q3b_avg_eof = {}, q3b_candidates_eof = {}, q3b_expected_total = [], q3b_closed = {},
      q3b_disk_logs = [], q3b_files = files\<rparr>"

subsection \<open>Changes\<close>

definition json_float :: "double \<Rightarrow> json" where
  "json_float x = JInt (uint x)"

definition as_float :: "json \<Rightarrow> double res" where
  "as_float v = rbind (as_int v) (\<lambda>i. Inr (word_of_int i))"

definition q3b_avg_data_change :: "int \<Rightarrow> pystr \<Rightarrow> double \<Rightarrow> json" where
  "q3b_avg_data_change client_id payment_format average =
     JObj [(lit ''type'', JStr (lit ''avg_data'')), (lit ''client_id'', JInt client_id),
           (lit ''payment_format'', JStr payment_format), (lit ''average'', json_float average)]"

definition q3b_avg_eof_change :: "int \<Rightarrow> json" where
  "q3b_avg_eof_change client_id = JObj [(lit ''type'', JStr (lit ''avg_eof'')), (lit ''client_id'', JInt client_id)]"

definition q3b_candidate_data_change :: "int \<Rightarrow> bytes \<Rightarrow> json" where
  "q3b_candidate_data_change client_id payload =
     JObj [(lit ''type'', JStr (lit ''candidate_data'')), (lit ''client_id'', JInt client_id),
           (lit ''payload_b64'', JStr (b64encode payload))]"

definition q3b_candidate_eof_change :: "int \<Rightarrow> int \<Rightarrow> json" where
  "q3b_candidate_eof_change client_id expected =
     JObj [(lit ''type'', JStr (lit ''candidate_eof'')), (lit ''client_id'', JInt client_id),
           (lit ''expected_total'', JInt expected)]"

definition q3b_close_change :: "int \<Rightarrow> json" where
  "q3b_close_change = fi_close_change"

definition q3b_abort_change :: "int \<Rightarrow> json" where
  "q3b_abort_change = q3b_close_change"

definition q3b_compound_change :: "json list \<Rightarrow> json" where
  "q3b_compound_change = fi_compound_change"

subsection \<open>The log files\<close>

definition log_content :: "q3_barrier_state \<Rightarrow> int \<Rightarrow> bytes" where
  "log_content s client_id = (case q3b_files s client_id of None \<Rightarrow> [] | Some b \<Rightarrow> b)"

text \<open>\<open>_disk_log_for\<close>: a log that is not open is opened for appending, and created when there is no file.\<close>

definition q3b_disk_log_for :: "int \<Rightarrow> q3_barrier_state \<Rightarrow> q3_barrier_state" where
  "q3b_disk_log_for client_id s =
     (if map_of (q3b_disk_logs s) client_id \<noteq> None then s
      else s\<lparr>q3b_files := (q3b_files s)(client_id \<mapsto> log_content s client_id),
             q3b_disk_logs := dset client_id (int (length (log_content s client_id))) (q3b_disk_logs s)\<rparr>)"

definition frame :: "bytes \<Rightarrow> bytes" where
  "frame payload = be_bytes 4 (length payload) @ payload"

definition log_append :: "int \<Rightarrow> bytes \<Rightarrow> (q3_barrier_state, unit) act" where
  "log_append client_id payload s =
     (if 256 ^ 4 \<le> length payload then (Inl OverflowError, s)
      else (Inr (), s\<lparr>q3b_files := (q3b_files s)(client_id \<mapsto> log_content s client_id @ frame payload),
                     q3b_disk_logs := dset client_id (dget (q3b_disk_logs s) client_id 0 + 4 + int (length payload)) (q3b_disk_logs s)\<rparr>))"

text \<open>\<open>truncate\<close> fills a file that is shorter with zeros.\<close>

definition resized :: "nat \<Rightarrow> bytes \<Rightarrow> bytes" where
  "resized n b = take n b @ replicate (n - length b) 0"

definition log_truncate_to :: "int \<Rightarrow> int \<Rightarrow> q3_barrier_state \<Rightarrow> q3_barrier_state" where
  "log_truncate_to client_id byte_count s =
     s\<lparr>q3b_files := (q3b_files s)(client_id \<mapsto> resized (nat byte_count) (log_content s client_id)),
       q3b_disk_logs := dset client_id (int (nat byte_count)) (q3b_disk_logs s)\<rparr>"

function iter_raw_batches :: "bytes \<Rightarrow> bytes list" where
  "iter_raw_batches b =
     (if length b < 4 then []
      else (let n = be_nat (take 4 b) in take n (drop 4 b) # iter_raw_batches (drop (4 + n) b)))"
  by pat_completeness auto
termination
  by (relation "measure length") auto

declare iter_raw_batches.simps [simp del]

subsection \<open>Readers\<close>

definition q3b_averages_of :: "int \<Rightarrow> q3_barrier_state \<Rightarrow> (pystr \<times> double) list" where
  "q3b_averages_of client_id s = dget (q3b_averages s) client_id []"

definition q3b_disk_log :: "int \<Rightarrow> q3_barrier_state \<Rightarrow> bytes option" where
  "q3b_disk_log client_id s =
     (if map_of (q3b_disk_logs s) client_id = None then None else Some (log_content s client_id))"

definition q3b_has_avg_eof :: "int \<Rightarrow> q3_barrier_state \<Rightarrow> bool" where
  "q3b_has_avg_eof client_id s \<longleftrightarrow> client_id \<in> q3b_avg_eof s"

definition q3b_has_candidate_eof :: "int \<Rightarrow> q3_barrier_state \<Rightarrow> bool" where
  "q3b_has_candidate_eof client_id s \<longleftrightarrow> client_id \<in> q3b_candidates_eof s"

definition q3b_is_ready :: "int \<Rightarrow> q3_barrier_state \<Rightarrow> bool" where
  "q3b_is_ready client_id s \<longleftrightarrow> client_id \<in> q3b_avg_eof s \<and> client_id \<in> q3b_candidates_eof s"

definition q3b_is_closed :: "int \<Rightarrow> q3_barrier_state \<Rightarrow> bool" where
  "q3b_is_closed client_id s \<longleftrightarrow> client_id \<in> q3b_closed s"

subsection \<open>Applying a change\<close>

definition unless_closed :: "int \<Rightarrow> (q3_barrier_state, unit) act \<Rightarrow> (q3_barrier_state, unit) act" where
  "unless_closed client_id m s = (if client_id \<in> q3b_closed s then (Inr (), s) else m s)"

definition q3b_apply_avg_data :: "int \<Rightarrow> json \<Rightarrow> (q3_barrier_state, unit) act" where
  "q3b_apply_avg_data client_id change = unless_closed client_id (
     abind (amodify (\<lambda>s. s\<lparr>q3b_averages := dset client_id (q3b_averages_of client_id s) (q3b_averages s)\<rparr>)) (\<lambda>_.
     abind (alift (rbind (jget change ''average'') as_float)) (\<lambda>average.
     abind (alift (jget_str change ''payment_format'')) (\<lambda>payment_format.
     amodify (\<lambda>s. s\<lparr>q3b_averages := dset client_id (dset payment_format average (q3b_averages_of client_id s)) (q3b_averages s)\<rparr>)))))"

definition q3b_apply_avg_eof :: "int \<Rightarrow> (q3_barrier_state, unit) act" where
  "q3b_apply_avg_eof client_id = unless_closed client_id (amodify (q3b_avg_eof_update (insert client_id)))"

definition q3b_apply_candidate_data :: "int \<Rightarrow> json \<Rightarrow> (q3_barrier_state, unit) act" where
  "q3b_apply_candidate_data client_id change = unless_closed client_id (
     abind (alift (rbind (jget_str change ''payload_b64'') b64decode)) (\<lambda>payload.
     abind (amodify (q3b_disk_log_for client_id)) (\<lambda>_. log_append client_id payload)))"

definition q3b_apply_candidate_eof :: "int \<Rightarrow> json \<Rightarrow> (q3_barrier_state, unit) act" where
  "q3b_apply_candidate_eof client_id change = unless_closed client_id (
     abind (amodify (q3b_candidates_eof_update (insert client_id))) (\<lambda>_.
     abind (alift (jget_int change ''expected_total'')) (\<lambda>n.
     amodify (q3b_expected_total_update (dset client_id n)))))"

definition q3b_apply_close :: "int \<Rightarrow> q3_barrier_state \<Rightarrow> q3_barrier_state" where
  "q3b_apply_close client_id s =
     s\<lparr>q3b_files := (if map_of (q3b_disk_logs s) client_id = None then q3b_files s else (q3b_files s)(client_id := None)),
       q3b_disk_logs := dpop client_id (q3b_disk_logs s), q3b_averages := dpop client_id (q3b_averages s),
       q3b_avg_eof := q3b_avg_eof s - {client_id}, q3b_candidates_eof := q3b_candidates_eof s - {client_id},
       q3b_expected_total := dpop client_id (q3b_expected_total s), q3b_closed := insert client_id (q3b_closed s)\<rparr>"

definition q3b_changes :: "q3_barrier_state change_ops" where
  "q3b_changes kind =
     (if kind = lit ''avg_data'' then Some q3b_apply_avg_data
      else if kind = lit ''avg_eof'' then Some (\<lambda>client_id _. q3b_apply_avg_eof client_id)
      else if kind = lit ''candidate_data'' then Some q3b_apply_candidate_data
      else if kind = lit ''candidate_eof'' then Some q3b_apply_candidate_eof
      else if kind = lit ''close'' then Some (\<lambda>client_id _. amodify (q3b_apply_close client_id))
      else None)"

definition q3b_apply_change :: "json \<Rightarrow> (q3_barrier_state, unit) act" where
  "q3b_apply_change = dispatch_change q3b_changes"

subsection \<open>Snapshots\<close>

record q3_barrier_dict =
  q3d_averages :: "(int \<times> (pystr \<times> double) list) list"
  q3d_avg_eof :: "int set"
  q3d_candidates_eof :: "int set"
  q3d_expected_total :: "(int \<times> int) list"
  q3d_closed :: "int set"
  q3d_disk_log_bytes :: "(int \<times> int) list"

definition q3b_snapshot :: "q3_barrier_state \<Rightarrow> q3_barrier_dict option" where
  "q3b_snapshot s =
     Some \<lparr>q3d_averages = q3b_averages s, q3d_avg_eof = q3b_avg_eof s, q3d_candidates_eof = q3b_candidates_eof s,
           q3d_expected_total = q3b_expected_total s, q3d_closed = q3b_closed s, q3d_disk_log_bytes = q3b_disk_logs s\<rparr>"

definition reopen :: "int \<times> int \<Rightarrow> q3_barrier_state \<Rightarrow> q3_barrier_state" where
  "reopen = (\<lambda>(client_id, byte_count) s. log_truncate_to client_id byte_count (q3b_disk_log_for client_id s))"

definition q3b_restore :: "q3_barrier_dict option \<Rightarrow> (q3_barrier_state, unit) act" where
  "q3b_restore data s =
     (case data of
        None \<Rightarrow> (Inr (), new_q3_barrier_state (q3b_files s))
      | Some d \<Rightarrow>
          (Inr (), fold reopen (q3d_disk_log_bytes d)
             \<lparr>q3b_averages = q3d_averages d, q3b_avg_eof = q3d_avg_eof d, q3b_candidates_eof = q3d_candidates_eof d,
              q3b_expected_total = q3d_expected_total d, q3b_closed = q3d_closed d, q3b_disk_logs = [], q3b_files = q3b_files s\<rparr>))"

definition q3b_discard_disk_logs :: "q3_barrier_state \<Rightarrow> q3_barrier_state" where
  "q3b_discard_disk_logs s = s\<lparr>q3b_disk_logs := [], q3b_files := (\<lambda>_. None)\<rparr>"

definition q3_barrier_ops :: "(q3_barrier_state, q3_barrier_dict option) worker_ops" where
  "q3_barrier_ops = \<lparr>apply_change = q3b_apply_change, worker_snapshot = q3b_snapshot, worker_restore = q3b_restore\<rparr>"

subsection \<open>What a log holds\<close>

lemma length_frame [simp]: "length (frame p) = 4 + length p"
  by (simp add: frame_def)

lemma iter_frame:
  assumes "length p < 256 ^ 4"
  shows "iter_raw_batches (frame p @ rest) = p # iter_raw_batches rest"
  using assms by (subst iter_raw_batches.simps) (simp add: frame_def be_nat_be_bytes del: be_bytes.simps)

lemma iter_Nil [simp]: "iter_raw_batches [] = []"
  by (subst iter_raw_batches.simps) simp

lemma iter_frames: "list_all (\<lambda>p. length p < 256 ^ 4) ps \<Longrightarrow> iter_raw_batches (concat (map frame ps)) = ps"
  by (induction ps) (simp_all add: iter_frame)

lemma dset_again: "dset k w (dset k v d) = dset k w d"
  by (induction d) auto

text \<open>The open logs are the files there are, with their lengths; a closed client has none.\<close>

definition q3b_wf :: "q3_barrier_state \<Rightarrow> bool" where
  "q3b_wf s \<longleftrightarrow> dict_wf (q3b_disk_logs s) \<and> (\<forall>c \<in> q3b_closed s. map_of (q3b_disk_logs s) c = None) \<and>
     (\<forall>c. map_of (q3b_disk_logs s) c = map_option (\<lambda>b. int (length b)) (q3b_files s c))"

lemma q3b_changes_cases:
  assumes "q3b_changes kind = Some f"
  obtains "f = q3b_apply_avg_data" | "f = (\<lambda>c _. q3b_apply_avg_eof c)" | "f = q3b_apply_candidate_data"
    | "f = q3b_apply_candidate_eof" | "f = (\<lambda>c _. amodify (q3b_apply_close c))"
  using assms by (auto simp: q3b_changes_def split: if_splits)

lemmas q3b_op_defs = q3b_apply_avg_data_def q3b_apply_avg_eof_def q3b_apply_candidate_data_def q3b_apply_candidate_eof_def
  unless_closed_def act_defs

lemma candidate_op:
  "q3b_apply_candidate_data c ch s =
     (if c \<in> q3b_closed s then (Inr (), s)
      else (case rbind (jget_str ch ''payload_b64'') b64decode of
              Inl e \<Rightarrow> (Inl e, s)
            | Inr p \<Rightarrow> log_append c p (q3b_disk_log_for c s)))"
  by (cases "rbind (jget_str ch ''payload_b64'') b64decode")
    (auto simp: q3b_apply_candidate_data_def unless_closed_def act_defs)

lemma disk_log_for_opens:
  "map_of (q3b_disk_logs (q3b_disk_log_for c s)) c \<noteq> None" "q3b_closed (q3b_disk_log_for c s) = q3b_closed s"
  by (auto simp: q3b_disk_log_for_def)

lemma q3b_wf_append:
  assumes "q3b_wf s" and "map_of (q3b_disk_logs s) c \<noteq> None" and "c \<notin> q3b_closed s"
  shows "q3b_wf (snd (log_append c p s))"
proof -
  obtain b where "q3b_files s c = Some b" "map_of (q3b_disk_logs s) c = Some (int (length b))"
    using assms(1,2) by (auto simp: q3b_wf_def)
  with assms(1,3) show ?thesis by (auto simp: q3b_wf_def log_append_def log_content_def dget_def)
qed

lemma q3b_wf_ops:
  assumes "q3b_changes kind = Some f" and "q3b_wf s"
  shows "q3b_wf (snd (f c ch s))"
  using assms(1)
proof (cases rule: q3b_changes_cases)
  case 1
  with assms(2) show ?thesis
    by (auto simp: q3b_apply_avg_data_def unless_closed_def act_defs q3b_wf_def split: sum.splits)
next
  case 2
  with assms(2) show ?thesis by (auto simp: q3b_apply_avg_eof_def unless_closed_def act_defs q3b_wf_def)
next
  case 3
  have opened: "q3b_wf (q3b_disk_log_for c s)" if "c \<notin> q3b_closed s"
    using assms(2) that by (auto simp: q3b_wf_def q3b_disk_log_for_def)
  have "q3b_wf (snd (log_append c p (q3b_disk_log_for c s)))" if "c \<notin> q3b_closed s" for p
    by (rule q3b_wf_append [OF opened [OF that]]) (use that disk_log_for_opens in auto)
  with 3 assms(2) show ?thesis by (auto simp: candidate_op split: sum.splits)
next
  case 4
  with assms(2) show ?thesis
    by (auto simp: q3b_apply_candidate_eof_def unless_closed_def act_defs q3b_wf_def split: sum.splits)
next
  case 5
  with assms(2) show ?thesis by (auto simp: amodify_def q3b_apply_close_def q3b_wf_def)
qed

lemma q3b_wf_change: "q3b_wf s \<Longrightarrow> q3b_wf (snd (q3b_apply_change ch s))"
  unfolding q3b_apply_change_def by (rule dispatch_invariant) (use q3b_wf_ops in blast)+

text \<open>The state after a list of logged changes.\<close>

definition q3b_applied :: "json list \<Rightarrow> q3_barrier_state \<Rightarrow> q3_barrier_state" where
  "q3b_applied chs s = foldl (\<lambda>s ch. snd (q3b_apply_change ch s)) s chs"

lemma q3b_wf_applied: "q3b_wf s \<Longrightarrow> q3b_wf (q3b_applied chs s)"
  unfolding q3b_applied_def by (induction chs arbitrary: s) (simp_all add: q3b_wf_change)

lemma q3b_wf_new: "q3b_wf (new_q3_barrier_state (\<lambda>_. None))"
  by (simp add: q3b_wf_def new_q3_barrier_state_def)

subsection \<open>Recovery\<close>

text \<open>Two states that a change treats alike are still alike after it.\<close>

lemma dispatch_simulates:
  assumes step: "\<And>kind f c ch s r. ops kind = Some f \<Longrightarrow> R s r \<Longrightarrow> fst (f c ch r) = fst (f c ch s) \<and> R (snd (f c ch s)) (snd (f c ch r))"
    and "R s r"
  shows "fst (dispatch_change ops ch r) = fst (dispatch_change ops ch s) \<and> R (snd (dispatch_change ops ch s)) (snd (dispatch_change ops ch r))"
  using assms
proof (induction ops ch arbitrary: s r rule: dispatch_change.induct)
  case (1 ops ch)
  have loop: "fst (afor (dispatch_change ops) subs r) = fst (afor (dispatch_change ops) subs s) \<and>
      R (snd (afor (dispatch_change ops) subs s)) (snd (afor (dispatch_change ops) subs r))"
    if "\<And>sub s r. sub \<in> set subs \<Longrightarrow> R s r \<Longrightarrow> fst (dispatch_change ops sub r) = fst (dispatch_change ops sub s) \<and>
        R (snd (dispatch_change ops sub s)) (snd (dispatch_change ops sub r))" and "R s r" for subs s r
    using that
  proof (induction subs arbitrary: s r)
    case (Cons sub subs)
    from Cons.prems(1) [of sub s r] Cons.prems(2)
    have "fst (dispatch_change ops sub r) = fst (dispatch_change ops sub s)" "R (snd (dispatch_change ops sub s)) (snd (dispatch_change ops sub r))"
      by simp_all
    with Cons.IH Cons.prems(1) show ?case by (auto simp: abind_def split: prod.splits sum.splits)
  qed (simp add: areturn_def)
  show ?case
  proof (cases "jget_str ch ''type''")
    case (Inl e)
    with 1 show ?thesis by (simp add: dispatch_change.simps [of ops ch] araise_def)
  next
    case kind: (Inr kind)
    show ?thesis
    proof (cases "kind = lit ''compound''")
      case True
      show ?thesis
      proof (cases "jget_list ch ''changes''")
        case (Inl e)
        with 1 kind True show ?thesis by (simp add: dispatch_change.simps [of ops ch] araise_def)
      next
        case (Inr subs)
        have "fst (afor (dispatch_change ops) subs r) = fst (afor (dispatch_change ops) subs s) \<and>
            R (snd (afor (dispatch_change ops) subs s)) (snd (afor (dispatch_change ops) subs r))"
          by (rule loop) (use 1 kind True Inr in blast)+
        with kind True Inr show ?thesis by (simp add: dispatch_change.simps [of ops ch])
      qed
    next
      case False
      with 1(2,3) kind show ?thesis
        by (simp add: dispatch_change.simps [of ops ch] araise_def split: sum.splits option.splits)
    qed
  qed
qed

text \<open>A replay may run on other bytes in the files of \<open>D\<close>, as long as they are open.\<close>

definition same_but :: "int set \<Rightarrow> q3_barrier_state \<Rightarrow> q3_barrier_state \<Rightarrow> bool" where
  "same_but D s r \<longleftrightarrow> (\<exists>F. r = s\<lparr>q3b_files := F\<rparr> \<and>
     (\<forall>c. F c = q3b_files s c \<or> c \<in> D \<and> map_of (q3b_disk_logs s) c \<noteq> None))"

lemma same_but_append:
  assumes "same_but D s r" and "map_of (q3b_disk_logs s) c \<noteq> None"
  shows "fst (log_append c p r) = fst (log_append c p s) \<and> same_but D (snd (log_append c p s)) (snd (log_append c p r))"
proof (cases "256 ^ 4 \<le> length p")
  case True
  with assms(1) show ?thesis by (simp add: log_append_def)
next
  case False
  obtain F where F: "r = s\<lparr>q3b_files := F\<rparr>" "\<forall>c. F c = q3b_files s c \<or> c \<in> D \<and> map_of (q3b_disk_logs s) c \<noteq> None"
    using assms(1) by (auto simp: same_but_def)
  have "same_but D (snd (log_append c p s)) (snd (log_append c p r))"
    unfolding same_but_def
    by (rule exI [of _ "F(c \<mapsto> log_content r c @ frame p)"])
      (use False F F(2) [rule_format, of c] assms(2) in \<open>auto simp: log_append_def log_content_def\<close>)
  with False show ?thesis by (simp add: log_append_def)
qed

lemma same_but_ops:
  assumes "q3b_changes kind = Some f" and "same_but D s r"
  shows "fst (f c ch r) = fst (f c ch s) \<and> same_but D (snd (f c ch s)) (snd (f c ch r))"
proof -
  obtain F where F: "r = s\<lparr>q3b_files := F\<rparr>" "\<forall>c. F c = q3b_files s c \<or> c \<in> D \<and> map_of (q3b_disk_logs s) c \<noteq> None"
    using assms(2) by (auto simp: same_but_def)
  from assms(1) show ?thesis
  proof (cases rule: q3b_changes_cases)
    case 1
    show ?thesis unfolding 1 same_but_def F(1)
      by (intro conjI exI [of _ F], use F(2) in \<open>auto simp: q3b_apply_avg_data_def unless_closed_def act_defs q3b_averages_of_def split: sum.splits\<close>)
  next
    case 2
    show ?thesis unfolding 2 same_but_def F(1)
      by (intro conjI exI [of _ F], use F(2) in \<open>auto simp: q3b_apply_avg_eof_def unless_closed_def act_defs\<close>)
  next
    case 3
    have content: "log_content s c = log_content r c" if "map_of (q3b_disk_logs s) c = None"
      using F(1) F(2) [rule_format, of c] that by (simp add: log_content_def)
    have logs: "map_of (q3b_disk_logs r) = map_of (q3b_disk_logs s)" by (simp add: F(1))
    have "same_but D (q3b_disk_log_for c s) (q3b_disk_log_for c r)"
      using F content
      by (auto simp: same_but_def q3b_disk_log_for_def intro!: exI [of _ "if map_of (q3b_disk_logs s) c = None then F(c \<mapsto> log_content r c) else F"])
    from this disk_log_for_opens(1) [of c s] have "fst (log_append c p (q3b_disk_log_for c r)) = fst (log_append c p (q3b_disk_log_for c s)) \<and>
        same_but D (snd (log_append c p (q3b_disk_log_for c s))) (snd (log_append c p (q3b_disk_log_for c r)))" for p
      by (rule same_but_append)
    with 3 assms(2) show ?thesis by (auto simp: candidate_op F(1) split: sum.splits)
  next
    case 4
    show ?thesis unfolding 4 same_but_def F(1)
      by (intro conjI exI [of _ F], use F(2) in \<open>auto simp: q3b_apply_candidate_eof_def unless_closed_def act_defs split: sum.splits\<close>)
  next
    case 5
    show ?thesis unfolding 5 same_but_def F(1)
      by (intro conjI exI [of _ "if map_of (q3b_disk_logs s) c = None then F else F(c := None)"])
        (use F(2) in \<open>auto simp: amodify_def q3b_apply_close_def\<close>)
  qed
qed

lemma same_but_applied: "same_but D s r \<Longrightarrow> same_but D (q3b_applied chs s) (q3b_applied chs r)"
proof (induction chs arbitrary: s r)
  case (Cons ch chs)
  have "same_but D (snd (q3b_apply_change ch s)) (snd (q3b_apply_change ch r))"
    unfolding q3b_apply_change_def
    by (rule conjunct2 [OF dispatch_simulates [where R = "same_but D"]]) (use same_but_ops Cons.prems in blast)+
  from Cons.IH [OF this] show ?case by (simp add: q3b_applied_def)
qed (simp add: q3b_applied_def)

text \<open>A log that is open only grows until its client is closed.\<close>

definition grown_from :: "bytes \<Rightarrow> int \<Rightarrow> q3_barrier_state \<Rightarrow> bool" where
  "grown_from b c s \<longleftrightarrow> c \<in> q3b_closed s \<or> map_of (q3b_disk_logs s) c \<noteq> None \<and> (\<exists>y. q3b_files s c = Some (b @ y))"

lemma grown_ops:
  assumes "q3b_changes kind = Some f" and "grown_from b c s"
  shows "grown_from b c (snd (f c' ch s))"
  using assms(1)
proof (cases rule: q3b_changes_cases)
  case 1
  with assms(2) show ?thesis by (auto simp: q3b_apply_avg_data_def unless_closed_def act_defs grown_from_def split: sum.splits)
next
  case 2
  with assms(2) show ?thesis by (auto simp: q3b_apply_avg_eof_def unless_closed_def act_defs grown_from_def)
next
  case 3
  with assms(2) show ?thesis
    by (auto simp: candidate_op grown_from_def log_append_def q3b_disk_log_for_def log_content_def split: sum.splits)
next
  case 4
  with assms(2) show ?thesis by (auto simp: q3b_apply_candidate_eof_def unless_closed_def act_defs grown_from_def split: sum.splits)
next
  case 5
  with assms(2) show ?thesis by (auto simp: amodify_def q3b_apply_close_def grown_from_def)
qed

lemma grown_applied: "grown_from b c s \<Longrightarrow> grown_from b c (q3b_applied chs s)"
proof (induction chs arbitrary: s)
  case (Cons ch chs)
  have "grown_from b c (snd (q3b_apply_change ch s))"
    unfolding q3b_apply_change_def by (rule dispatch_invariant) (use grown_ops Cons.prems in blast)+
  from Cons.IH [OF this] show ?case by (simp add: q3b_applied_def)
qed (simp add: q3b_applied_def)

text \<open>What a snapshot reopens.\<close>

lemma reopened:
  assumes "dict_wf (logs @ ls)" and "\<forall>n \<in> snd ` set ls. 0 \<le> n"
  shows "fold reopen ls (s\<lparr>q3b_disk_logs := logs\<rparr>) =
    s\<lparr>q3b_disk_logs := logs @ ls,
      q3b_files := (\<lambda>c. case map_of ls c of None \<Rightarrow> q3b_files s c | Some n \<Rightarrow> Some (resized (nat n) (log_content s c)))\<rparr>"
  using assms
proof (induction ls arbitrary: logs s)
  case (Cons x ls)
  obtain c n where x: "x = (c, n)" by (cases x)
  have absent: "map_of logs c = None" "map_of ls c = None"
    using Cons.prems(1) by (auto simp: x dict_wf_def map_of_eq_None_iff image_iff)
  have "0 \<le> n" using Cons.prems(2) by (simp add: x)
  then have step: "reopen x (s\<lparr>q3b_disk_logs := logs\<rparr>) =
      (s\<lparr>q3b_files := (q3b_files s)(c \<mapsto> resized (nat n) (log_content s c))\<rparr>)\<lparr>q3b_disk_logs := logs @ [(c, n)]\<rparr>"
    using absent(1)
    by (simp add: x reopen_def q3b_disk_log_for_def log_truncate_to_def log_content_def dset_again)
      (simp add: dset_absent)
  have "dict_wf ((logs @ [(c, n)]) @ ls)" "\<forall>n \<in> snd ` set ls. 0 \<le> n" using Cons.prems by (simp_all add: x)
  from Cons.IH [OF this, of "s\<lparr>q3b_files := (q3b_files s)(c \<mapsto> resized (nat n) (log_content s c))\<rparr>"] show ?case
    using absent(2) by (simp add: step) (auto simp: x log_content_def fun_eq_iff split: option.splits)
qed (simp add: fun_eq_iff)

lemma resized_prefix: "resized (length b) (b @ y) = b"
  by (simp add: resized_def)

lemma restored:
  assumes "q3b_wf s" 
  shows "snd (q3b_restore (q3b_snapshot s) (new_q3_barrier_state files)) =
    s\<lparr>q3b_files := (\<lambda>c. case q3b_files s c of None \<Rightarrow> files c
        | Some b \<Rightarrow> Some (resized (length b) (case files c of None \<Rightarrow> [] | Some x \<Rightarrow> x)))\<rparr>"
proof -
  have wf: "dict_wf (q3b_disk_logs s)" "\<And>c. map_of (q3b_disk_logs s) c = map_option (\<lambda>b. int (length b)) (q3b_files s c)"
    using assms by (auto simp: q3b_wf_def)
  have "0 \<le> n" if "(c, n) \<in> set (q3b_disk_logs s)" for c n
  proof -
    have "map_of (q3b_disk_logs s) c = Some n" using wf(1) that by (simp add: dict_wf_def)
    with wf(2) [of c] show ?thesis by (cases "q3b_files s c") simp_all
  qed
  then have nonneg: "\<forall>n \<in> snd ` set (q3b_disk_logs s). 0 \<le> n" by auto
  have "snd (q3b_restore (q3b_snapshot s) (new_q3_barrier_state files)) =
      fold reopen (q3b_disk_logs s) ((s\<lparr>q3b_files := files\<rparr>)\<lparr>q3b_disk_logs := []\<rparr>)"
    by (cases s) (simp add: q3b_restore_def q3b_snapshot_def new_q3_barrier_state_def)
  also have "\<dots> = s\<lparr>q3b_files := (\<lambda>c. case q3b_files s c of None \<Rightarrow> files c
        | Some b \<Rightarrow> Some (resized (length b) (case files c of None \<Rightarrow> [] | Some x \<Rightarrow> x)))\<rparr>"
    using reopened [of "[]" "q3b_disk_logs s" "s\<lparr>q3b_files := files\<rparr>"] wf(1) nonneg
    by (simp add: wf(2) log_content_def comp_def cong: option.case_cong)
  finally show ?thesis .
qed

text \<open>
  C9: a barrier recovers what it had, if no log was opened since the last snapshot. Whatever changes were applied to a
  fresh state before the snapshot and after it: a restart that finds the files as they were left, restores the
  snapshot and replays the later changes has the same memory and leaves the same files, although logs of clients closed
  in between are gone when it starts.
\<close>

theorem q3_barrier_recovers:
  assumes "s0 = q3b_applied before (new_q3_barrier_state (\<lambda>_. None))" and "s1 = q3b_applied chs s0"
    and "\<forall>c. q3b_disk_log c s1 \<noteq> None \<longrightarrow> q3b_disk_log c s0 \<noteq> None"
  shows "q3b_applied chs (snd (q3b_restore (q3b_snapshot s0) (new_q3_barrier_state (q3b_files s1)))) = s1"
proof -
  have wf0: "q3b_wf s0" unfolding assms(1) by (rule q3b_wf_applied [OF q3b_wf_new])
  have wf1: "q3b_wf s1" unfolding assms(2) by (rule q3b_wf_applied [OF wf0])
  let ?r = "snd (q3b_restore (q3b_snapshot s0) (new_q3_barrier_state (q3b_files s1)))"
  define D where "D = {c. q3b_files s1 c = None}"
  have opened: "q3b_files s c \<noteq> None \<longleftrightarrow> map_of (q3b_disk_logs s) c \<noteq> None" if "q3b_wf s" for s c
    using that by (simp add: q3b_wf_def)
  have "(case q3b_files s0 c of None \<Rightarrow> q3b_files s1 c
        | Some b \<Rightarrow> Some (resized (length b) (case q3b_files s1 c of None \<Rightarrow> [] | Some x \<Rightarrow> x))) = q3b_files s0 c \<or>
      c \<in> D \<and> map_of (q3b_disk_logs s0) c \<noteq> None" for c
  proof (cases "q3b_files s0 c")
    case None
    with assms(3) [rule_format, of c] opened [OF wf0, of c] opened [OF wf1, of c] have "q3b_files s1 c = None"
      by (auto simp: q3b_disk_log_def split: if_splits)
    with None show ?thesis by simp
  next
    case (Some b)
    show ?thesis
    proof (cases "q3b_files s1 c")
      case None
      with Some opened [OF wf0, of c] show ?thesis by (simp add: D_def)
    next
      case (Some x)
      have "grown_from b c s0" using \<open>q3b_files s0 c = Some b\<close> opened [OF wf0, of c] by (auto simp: grown_from_def)
      then have "grown_from b c s1" unfolding assms(2) by (rule grown_applied)
      moreover have "c \<notin> q3b_closed s1" using Some wf1 opened [OF wf1, of c] by (auto simp: q3b_wf_def)
      ultimately obtain y where "x = b @ y" using Some by (auto simp: grown_from_def)
      with Some \<open>q3b_files s0 c = Some b\<close> show ?thesis by (simp add: resized_prefix)
    qed
  qed
  then have "same_but D s0 ?r" unfolding restored [OF wf0] same_but_def by blast
  from same_but_applied [OF this, of chs] obtain F where
    F: "q3b_applied chs ?r = s1\<lparr>q3b_files := F\<rparr>" "\<forall>c. F c = q3b_files s1 c \<or> c \<in> D \<and> map_of (q3b_disk_logs s1) c \<noteq> None"
    by (auto simp: same_but_def assms(2))
  have "F = q3b_files s1"
  proof
    show "F c = q3b_files s1 c" for c using F(2) [rule_format, of c] opened [OF wf1, of c] by (auto simp: D_def)
  qed
  with F(1) show ?thesis by simp
qed

text \<open>A candidate batch, applied.\<close>

lemma candidate_change:
  assumes "c \<notin> q3b_closed s" and "length p < 256 ^ 4"
  shows "q3b_apply_change (q3b_candidate_data_change c p) s = log_append c p (q3b_disk_log_for c s)"
proof -
  have "q3b_apply_change (q3b_candidate_data_change c p) s = q3b_apply_candidate_data c (q3b_candidate_data_change c p) s"
    unfolding q3b_apply_change_def
    by (subst dispatch_change.simps) (simp add: q3b_candidate_data_change_def jget_simps q3b_changes_def)
  with assms(1) show ?thesis by (simp add: candidate_op q3b_candidate_data_change_def jget_simps b64_roundtrip)
qed

lemma candidate_logged:
  assumes "c \<notin> q3b_closed s" and "length p < 256 ^ 4"
  shows "q3b_disk_log c (snd (q3b_apply_change (q3b_candidate_data_change c p) s)) = Some (log_content s c @ frame p)"
    and "q3b_closed (snd (q3b_apply_change (q3b_candidate_data_change c p) s)) = q3b_closed s"
    and "c' \<noteq> c \<Longrightarrow> q3b_disk_log c' (snd (q3b_apply_change (q3b_candidate_data_change c p) s)) = q3b_disk_log c' s"
    and "q3b_files (snd (q3b_apply_change (q3b_candidate_data_change c p) s)) = (q3b_files s)(c \<mapsto> log_content s c @ frame p)"
  using assms by (auto simp: candidate_change q3b_disk_log_def log_append_def q3b_disk_log_for_def log_content_def)

theorem q3_barrier_recovers_witness:
  "\<exists>s0 s1. s1 = q3b_applied [q3b_candidate_data_change 7 [2]] s0 \<and>
     q3b_disk_log 7 s0 = Some (frame [1]) \<and> q3b_disk_log 7 s1 = Some (frame [1] @ frame [2]) \<and>
     q3b_applied [q3b_candidate_data_change 7 [2]] (snd (q3b_restore (q3b_snapshot s0) (new_q3_barrier_state (q3b_files s1)))) = s1"
proof -
  let ?s = "new_q3_barrier_state (\<lambda>_. None)"
  define s0 where "s0 = q3b_applied [q3b_candidate_data_change 7 [1]] ?s"
  define s1 where "s1 = q3b_applied [q3b_candidate_data_change 7 [2]] s0"
  have new: "7 \<notin> q3b_closed ?s" "q3b_disk_log c ?s = None" "log_content ?s 7 = []" for c
    by (simp_all add: new_q3_barrier_state_def q3b_disk_log_def log_content_def)
  have s0: "q3b_disk_log 7 s0 = Some (frame [1])" "7 \<notin> q3b_closed s0" "log_content s0 7 = frame [1]" "c \<noteq> 7 \<Longrightarrow> q3b_disk_log c s0 = None" for c
    using candidate_logged [OF new(1), of "[1]"] new by (simp_all add: s0_def q3b_applied_def log_content_def)
  have s1: "q3b_disk_log 7 s1 = Some (frame [1] @ frame [2])" "c \<noteq> 7 \<Longrightarrow> q3b_disk_log c s1 = None" for c
    using candidate_logged [OF s0(2), of "[2]"] s0 by (simp_all add: s1_def q3b_applied_def)
  have "\<forall>c. q3b_disk_log c s1 \<noteq> None \<longrightarrow> q3b_disk_log c s0 \<noteq> None" using s0(1) s1(2) by (metis option.distinct(1))
  from q3_barrier_recovers [OF s0_def s1_def this] s0(1) s1(1) s1_def show ?thesis by blast
qed

text \<open>
  C10: a log opened after the last snapshot is read twice as long after a restart. The snapshot does not name
  the client, so its file is not truncated, and the replay appends its batches to those already there; the transactions
  of the client are emitted twice. For a client whose first candidate batch came after a snapshot of any reachable state.
\<close>

theorem q3_candidates_doubled:
  assumes "s0 = q3b_applied before (new_q3_barrier_state (\<lambda>_. None))" and "c \<notin> q3b_closed s0" and "q3b_disk_log c s0 = None"
    and "length p < 256 ^ 4" and "s1 = q3b_applied [q3b_candidate_data_change c p] s0"
    and "r = q3b_applied [q3b_candidate_data_change c p]
           (snd (q3b_restore (q3b_snapshot s0) (new_q3_barrier_state (q3b_files s1))))"
  shows "map_option iter_raw_batches (q3b_disk_log c s1) = Some [p] \<and> map_option iter_raw_batches (q3b_disk_log c r) = Some [p, p]"
proof -
  have wf0: "q3b_wf s0" unfolding assms(1) by (rule q3b_wf_applied [OF q3b_wf_new])
  then have empty: "log_content s0 c = []" "q3b_files s0 c = None"
    using assms(3) by (auto simp: q3b_wf_def q3b_disk_log_def log_content_def split: if_splits)
  note s1 = candidate_logged [OF assms(2,4)]
  let ?r = "snd (q3b_restore (q3b_snapshot s0) (new_q3_barrier_state (q3b_files s1)))"
  have "log_content ?r c = frame p" "c \<notin> q3b_closed ?r"
    using assms(2) s1(4) empty by (simp_all add: restored [OF wf0] log_content_def assms(5) q3b_applied_def)
  with candidate_logged(1) [OF this(2) assms(4)] s1(1) empty(1) show ?thesis
    using assms(4) iter_frame [of p "[]"] by (simp add: assms(5,6) q3b_applied_def iter_frame)
qed

theorem q3_candidates_doubled_witness:
  "\<exists>s0 s1 r. s1 = q3b_applied [q3b_candidate_data_change 7 [1]] s0 \<and>
     r = q3b_applied [q3b_candidate_data_change 7 [1]] (snd (q3b_restore (q3b_snapshot s0) (new_q3_barrier_state (q3b_files s1)))) \<and>
     map_option iter_raw_batches (q3b_disk_log 7 s1) = Some [[1]] \<and> map_option iter_raw_batches (q3b_disk_log 7 r) = Some [[1], [1]]"
proof -
  let ?s = "q3b_applied [] (new_q3_barrier_state (\<lambda>_. None))"
  have new: "7 \<notin> q3b_closed ?s" "q3b_disk_log 7 ?s = None" "length [1 :: byte] < 256 ^ 4"
    by (simp_all add: new_q3_barrier_state_def q3b_disk_log_def q3b_applied_def)
  from q3_candidates_doubled [OF refl new refl refl] show ?thesis by blast
qed

end
