(* ===== verification/FloatArith.thy ===== *)
theory FloatArith
  imports Double
begin

text \<open>
  Products and quotients of floats: the exact result, rounded to the nearest float, with the infinities, the NaN and the
  exception on division by zero.
\<close>

definition d_one :: double where
  "d_one = d_make False (1023 * 2 ^ 52)"

definition d_mul :: "double \<Rightarrow> double \<Rightarrow> double" where
  "d_mul x y =
     (let s = (d_sign x \<noteq> d_sign y) in
      if is_nan x \<or> is_nan y then d_nan
      else if is_inf x then (if d_mag y = 0 then d_nan else d_make s inf_key)
      else if is_inf y then (if d_mag x = 0 then d_nan else d_make s inf_key)
      else d_round s (d_units x * d_units y) (2 ^ 1074))"

text \<open>\<open>float / float\<close>.\<close>

definition d_div :: "double \<Rightarrow> double \<Rightarrow> double res" where
  "d_div x y =
     (let sign = (d_sign x \<noteq> d_sign y) in
      if d_mag y = 0 then Inl ZeroDivisionError
      else if is_nan x \<or> is_nan y \<or> is_inf x \<and> is_inf y then Inr d_nan
      else if is_inf x then Inr (d_make sign inf_key)
      else if is_inf y then Inr (d_make sign 0)
      else Inr (d_round sign ((if sign then - 1 else 1) * (int (key_units (d_mag x)) * 2 ^ 1074)) (key_units (d_mag y))))"

end
