(* ===== verification/Q3Barrier.thy ===== *)
theory Q3Barrier
  imports Q3BarrierState Sent FloatArith
begin

text \<open>
  \<open>workers/q3_barrier/q3_barrier.py\<close>: two streams per client, the averages per payment format and the candidate
  transactions, and the barrier behind which the candidates below a fraction of the average of their format are sent to the gateway.
\<close>

subsection \<open>Emission\<close>

record q3_barrier_config =
  bc_id :: int
  bc_output_queue :: pystr
  bc_divisor :: double
  bc_batch_bytes :: int
  bc_batch_max_tx :: int

definition below_threshold :: "q3_barrier_config \<Rightarrow> (pystr \<times> double) list \<Rightarrow> transaction \<Rightarrow> bool res" where
  "below_threshold cfg averages tx =
     (case map_of averages (tx_format tx) of
        None \<Rightarrow> Inr False
      | Some avg \<Rightarrow> rbind (d_div avg (bc_divisor cfg)) (\<lambda>threshold. Inr (\<not> d_le threshold (tx_amount tx))))"

record emission =
  em_outputs :: "logical_output list"
  em_batch :: "transaction list"
  em_batch_bytes :: int
  em_emitted :: int

definition batch_output :: "q3_barrier_config \<Rightarrow> int \<Rightarrow> transaction list \<Rightarrow> logical_output res" where
  "batch_output cfg client_id batch =
     rbind (serialize_transactions batch) (\<lambda>payload.
     rbind (fi_packet MT_DATA client_id payload) (\<lambda>packet. Inr (Out2 (bc_output_queue cfg) packet)))"

definition emit_one :: "q3_barrier_config \<Rightarrow> (pystr \<times> double) list \<Rightarrow> int \<Rightarrow> transaction \<Rightarrow> emission \<Rightarrow> emission res" where
  "emit_one cfg averages client_id tx em =
     rbind (below_threshold cfg averages tx) (\<lambda>below.
     if \<not> below then Inr em
     else
       (let batch = em_batch em @ [tx]; batch_bytes = em_batch_bytes em + int TX_SIZE in
        if int (length batch) \<ge> bc_batch_max_tx cfg \<or> batch_bytes \<ge> bc_batch_bytes cfg then
          rbind (batch_output cfg client_id batch) (\<lambda>out.
          Inr \<lparr>em_outputs = em_outputs em @ [out], em_batch = [], em_batch_bytes = 0, em_emitted = em_emitted em + 1\<rparr>)
        else Inr \<lparr>em_outputs = em_outputs em, em_batch = batch, em_batch_bytes = batch_bytes, em_emitted = em_emitted em + 1\<rparr>))"

fun emit_all :: "q3_barrier_config \<Rightarrow> (pystr \<times> double) list \<Rightarrow> int \<Rightarrow> transaction list \<Rightarrow> emission \<Rightarrow> emission res" where
  "emit_all cfg averages client_id [] em = Inr em"
| "emit_all cfg averages client_id (tx # txs) em =
     rbind (emit_one cfg averages client_id tx em) (emit_all cfg averages client_id txs)"

fun emit_log :: "q3_barrier_config \<Rightarrow> (pystr \<times> double) list \<Rightarrow> int \<Rightarrow> bytes list \<Rightarrow> emission \<Rightarrow> emission res" where
  "emit_log cfg averages client_id [] em = Inr em"
| "emit_log cfg averages client_id (raw # raws) em =
     rbind (deserialize_transactions raw) (\<lambda>txs.
     rbind (emit_all cfg averages client_id txs em) (emit_log cfg averages client_id raws))"

definition emit_outputs :: "q3_barrier_config \<Rightarrow> int \<Rightarrow> q3_barrier_state \<Rightarrow> logical_output list res" where
  "emit_outputs cfg client_id s =
     rbind (case q3b_disk_log client_id s of
              None \<Rightarrow> Inr ([], 0)
            | Some content \<Rightarrow>
                rbind (emit_log cfg (q3b_averages_of client_id s) client_id (iter_raw_batches content)
                   \<lparr>em_outputs = [], em_batch = [], em_batch_bytes = 0, em_emitted = 0\<rparr>) (\<lambda>em.
                if em_batch em = [] then Inr (em_outputs em, em_emitted em)
                else rbind (batch_output cfg client_id (em_batch em)) (\<lambda>out. Inr (em_outputs em @ [out], em_emitted em)))) (\<lambda>(outputs, emitted).
     rbind (serialize_control \<lparr>cm_sender_id = bc_id cfg, expected_total = emitted, processed_count = 0\<rparr>) (\<lambda>eof_payload.
     rbind (fi_packet MT_EOF client_id eof_payload) (\<lambda>packet. Inr (outputs @ [Out2 (bc_output_queue cfg) packet]))))"

subsection \<open>The business functions\<close>

type_synonym q3_fn = "bytes \<Rightarrow> (q3_barrier_state, json \<times> logical_output list) act"

definition bfn_average :: "int \<Rightarrow> q3_average_result \<Rightarrow> q3_fn" where
  "bfn_average client_id result payload =
     areturn (q3b_avg_data_change client_id (q3r_payment_format result) (q3r_average result), [])"

text \<open>The EOF of a stream: it closes the barrier when the other stream has ended before.\<close>

definition end_of_stream :: "q3_barrier_config \<Rightarrow> int \<Rightarrow> json \<Rightarrow> bool \<Rightarrow> q3_fn" where
  "end_of_stream cfg client_id eof_change ready payload =
     (if ready then
        abind (aget (emit_outputs cfg client_id)) (\<lambda>emitted.
        abind (alift emitted) (\<lambda>outputs.
        areturn (q3b_compound_change [eof_change, q3b_close_change client_id], outputs)))
      else areturn (eof_change, []))"

definition bfn_average_eof :: "q3_barrier_config \<Rightarrow> int \<Rightarrow> bool \<Rightarrow> q3_fn" where
  "bfn_average_eof cfg client_id ready = end_of_stream cfg client_id (q3b_avg_eof_change client_id) ready"

definition bfn_candidates :: "int \<Rightarrow> q3_fn" where
  "bfn_candidates client_id payload = areturn (q3b_candidate_data_change client_id payload, [])"

definition bfn_candidate_eof :: "q3_barrier_config \<Rightarrow> int \<Rightarrow> int \<Rightarrow> bool \<Rightarrow> q3_fn" where
  "bfn_candidate_eof cfg client_id expected ready = end_of_stream cfg client_id (q3b_candidate_eof_change client_id expected) ready"

definition q3b_bfn_abort :: "int \<Rightarrow> q3_fn" where
  "q3b_bfn_abort client_id payload = areturn (q3b_abort_change client_id, [])"

subsection \<open>The handlers\<close>

type_synonym q3_barrier = "(q3_barrier_state, q3_barrier_dict option) runner"

abbreviation q3b_state :: "q3_barrier \<Rightarrow> q3_barrier_state" where
  "q3b_state w \<equiv> h_worker (r_handler w)"

definition stream_msg_id :: "string \<Rightarrow> int \<Rightarrow> int \<Rightarrow> int \<Rightarrow> pystr" where
  "stream_msg_id stream sender_id client_id seq =
     lit stream @ [58] @ int_str sender_id @ [58] @ int_str client_id @ [58] @ int_str seq"

definition run_barrier ::
  "q3_barrier_config \<Rightarrow> (outbox_entry \<Rightarrow> py_error option) \<Rightarrow> pystr \<Rightarrow> int \<Rightarrow> int \<Rightarrow> int \<Rightarrow> bytes \<Rightarrow> q3_fn \<Rightarrow> msg_kind \<Rightarrow>
   q3_barrier \<Rightarrow> delivery \<times> q3_barrier" where
  "run_barrier cfg send m c s q p f k = attempt (run_message q3_barrier_ops [bc_output_queue cfg] send m c s q p f k)"

definition q3b_handle_abort ::
  "q3_barrier_config \<Rightarrow> (outbox_entry \<Rightarrow> py_error option) \<Rightarrow> int \<Rightarrow> int \<Rightarrow> int \<Rightarrow> q3_barrier \<Rightarrow> delivery \<times> q3_barrier" where
  "q3b_handle_abort cfg send c s q = run_barrier cfg send (abort_msg_id s c q) c s q [] (q3b_bfn_abort c) ABORT"

definition handle_average ::
  "q3_barrier_config \<Rightarrow> (outbox_entry \<Rightarrow> py_error option) \<Rightarrow> bytes \<Rightarrow> q3_barrier \<Rightarrow> delivery \<times> q3_barrier" where
  "handle_average cfg send message w =
     (case unpack_addressed_packet message of
        Inl _ \<Rightarrow> (Nacked True, w)
      | Inr (msg_type, client_id, sender_id, seq, payload) \<Rightarrow>
          (let run = (\<lambda>f. run_barrier cfg send (stream_msg_id ''avg'' sender_id client_id seq) client_id sender_id seq payload f Q3_AVERAGES w) in
           if q3b_is_closed client_id (q3b_state w) then (Acked, w)
           else if msg_type = message_type_value MT_DATA then
             (case deserialize_q3_result payload of Inl _ \<Rightarrow> (Nacked True, w) | Inr result \<Rightarrow> run (bfn_average client_id result))
           else if msg_type = message_type_value MT_EOF then
             run (bfn_average_eof cfg client_id (q3b_has_candidate_eof client_id (q3b_state w)))
           else if msg_type = message_type_value MT_ABORT then q3b_handle_abort cfg send client_id sender_id seq w
           else (Nacked True, w)))"

definition handle_candidate ::
  "q3_barrier_config \<Rightarrow> (outbox_entry \<Rightarrow> py_error option) \<Rightarrow> bytes \<Rightarrow> q3_barrier \<Rightarrow> delivery \<times> q3_barrier" where
  "handle_candidate cfg send message w =
     (case unpack_addressed_packet message of
        Inl _ \<Rightarrow> (Nacked True, w)
      | Inr (msg_type, client_id, sender_id, seq, payload) \<Rightarrow>
          (let run = (\<lambda>f. run_barrier cfg send (stream_msg_id ''cand'' sender_id client_id seq) client_id sender_id seq payload f Q3_CANDIDATES w) in
           if q3b_is_closed client_id (q3b_state w) then (Acked, w)
           else if msg_type = message_type_value MT_DATA then run (bfn_candidates client_id)
           else if msg_type = message_type_value MT_EOF then
             (case deserialize_control payload of
                Inl _ \<Rightarrow> (Nacked True, w)
              | Inr ctrl \<Rightarrow>
                  run (bfn_candidate_eof cfg client_id (expected_total ctrl) (q3b_has_avg_eof client_id (q3b_state w))))
           else if msg_type = message_type_value MT_ABORT then q3b_handle_abort cfg send client_id sender_id seq w
           else (Nacked True, w)))"

text \<open>\<open>start\<close>: without a snapshot the files of an earlier life are removed before the log is replayed.\<close>

definition q3b_start :: "q3_barrier_config \<Rightarrow> (outbox_entry \<Rightarrow> py_error option) \<Rightarrow> (q3_barrier, unit) act" where
  "q3b_start cfg send =
     abind (aget (\<lambda>w. load (h_last_state (r_handler w)))) (\<lambda>snap.
     abind (if snap = None then on_handler (on_worker (amodify q3b_discard_disk_logs)) else areturn ()) (\<lambda>_.
     recover_and_republish q3_barrier_ops [bc_output_queue cfg] send))"

subsection \<open>What is emitted\<close>

definition tx_bytes :: "transaction \<Rightarrow> bytes" where
  "tx_bytes tx = (case serialize_transaction tx of Inl _ \<Rightarrow> [] | Inr b \<Rightarrow> b)"

definition serializable :: "transaction \<Rightarrow> bool" where
  "serializable tx \<longleftrightarrow> (\<exists>b. serialize_transaction tx = Inr b)"

lemma serialize_all: "\<forall>tx \<in> set txs. serializable tx \<Longrightarrow> serialize_transactions txs = Inr (concat (map tx_bytes txs))"
proof -
  assume "\<forall>tx \<in> set txs. serializable tx"
  then have "rmap serialize_transaction txs = Inr (map tx_bytes txs)"
    by (intro rmap_cong_Inr) (auto simp: serializable_def tx_bytes_def)
  then show ?thesis by (simp add: serialize_transactions_def encode_batch_def)
qed

lemma fi_packet_total:
  assumes "0 \<le> c" and "c < 256 ^ 16"
  shows "\<exists>pkt. fi_packet t c p = Inr pkt"
  using assms by (cases t) (simp_all add: fi_packet_def client_id_to_bytes_def create_packet_def pack_uint_def)

lemma batch_output_says:
  assumes "0 \<le> c" and "c < 256 ^ 16" and "\<forall>tx \<in> set txs. serializable tx"
  shows "\<exists>out. batch_output cfg c txs = Inr out \<and> data_sent (bc_output_queue cfg) [out] = concat (map tx_bytes txs) \<and> eofs_sent [out] = []"
proof -
  obtain pkt where pkt: "fi_packet MT_DATA c (concat (map tx_bytes txs)) = Inr pkt" using fi_packet_total [OF assms(1,2)] by blast
  with packet_says [OF pkt, of "Out2 (bc_output_queue cfg) pkt" "bc_output_queue cfg" None] show ?thesis
    by (simp add: batch_output_def serialize_all [OF assms(3)])
qed

definition selected :: "q3_barrier_config \<Rightarrow> (pystr \<times> double) list \<Rightarrow> transaction list \<Rightarrow> transaction list" where
  "selected cfg averages txs =
     filter (\<lambda>tx. \<exists>avg threshold. map_of averages (tx_format tx) = Some avg \<and> d_div avg (bc_divisor cfg) = Inr threshold \<and>
       \<not> d_le threshold (tx_amount tx)) txs"

lemma below_total: "d_mag (bc_divisor cfg) \<noteq> 0 \<Longrightarrow> below_threshold cfg averages tx = Inr (selected cfg averages [tx] \<noteq> [])"
proof -
  assume "d_mag (bc_divisor cfg) \<noteq> 0"
  then have "\<exists>threshold. d_div avg (bc_divisor cfg) = Inr threshold" for avg by (auto simp: d_div_def Let_def)
  then show ?thesis by (cases "map_of averages (tx_format tx)") (fastforce simp: below_threshold_def selected_def)+
qed

lemma selected_one: "selected cfg averages [tx] = [] \<or> selected cfg averages [tx] = [tx]"
  by (simp add: selected_def)

lemma selected_Cons: "selected cfg averages (tx # txs) = selected cfg averages [tx] @ selected cfg averages txs"
  by (simp add: selected_def)

lemma selected_set: "set (selected cfg averages txs) \<subseteq> set txs"
  by (auto simp: selected_def)

text \<open>An emission under way: what is sent and what waits in the batch.\<close>

definition em_bytes :: "q3_barrier_config \<Rightarrow> emission \<Rightarrow> bytes" where
  "em_bytes cfg em = data_sent (bc_output_queue cfg) (em_outputs em) @ concat (map tx_bytes (em_batch em))"

definition em_adds :: "q3_barrier_config \<Rightarrow> transaction list \<Rightarrow> emission \<Rightarrow> emission \<Rightarrow> bool" where
  "em_adds cfg txs em em' \<longleftrightarrow> em_bytes cfg em' = em_bytes cfg em @ concat (map tx_bytes txs) \<and>
     eofs_sent (em_outputs em') = eofs_sent (em_outputs em) \<and> em_emitted em' = em_emitted em + int (length txs) \<and>
     set (em_batch em') \<subseteq> set (em_batch em) \<union> set txs"

lemma em_adds_trans: "em_adds cfg xs em em1 \<Longrightarrow> em_adds cfg ys em1 em2 \<Longrightarrow> em_adds cfg (xs @ ys) em em2"
  by (auto simp: em_adds_def)

lemma em_adds_refl: "em_adds cfg [] em em"
  by (simp add: em_adds_def)

lemma emit_one_adds:
  assumes "d_mag (bc_divisor cfg) \<noteq> 0" and c: "0 \<le> c" "c < 256 ^ 16" and "serializable tx" and "\<forall>tx \<in> set (em_batch em). serializable tx"
  shows "\<exists>em'. emit_one cfg averages c tx em = Inr em' \<and> em_adds cfg (selected cfg averages [tx]) em em'"
proof -
  note b = below_total [OF assms(1), of averages tx]
  have "\<forall>t \<in> set (em_batch em @ [tx]). serializable t" using assms(4,5) by simp
  from batch_output_says [OF c this, of cfg] obtain out where
    "batch_output cfg c (em_batch em @ [tx]) = Inr out" "data_sent (bc_output_queue cfg) [out] = concat (map tx_bytes (em_batch em @ [tx]))"
    "eofs_sent [out] = []"
    by blast
  with b selected_one [of cfg averages tx] show ?thesis by (auto simp: emit_one_def Let_def em_adds_def em_bytes_def)
qed

lemma emit_all_adds:
  assumes "d_mag (bc_divisor cfg) \<noteq> 0" and c: "0 \<le> c" "c < 256 ^ 16" and "\<forall>tx \<in> set txs \<union> set (em_batch em). serializable tx"
  shows "\<exists>em'. emit_all cfg averages c txs em = Inr em' \<and> em_adds cfg (selected cfg averages txs) em em'"
  using assms(4)
proof (induction txs arbitrary: em)
  case (Cons tx txs)
  have "serializable tx" "\<forall>t \<in> set (em_batch em). serializable t" using Cons.prems by simp_all
  from emit_one_adds [OF assms(1) c this] obtain em1 where
    em1: "emit_one cfg averages c tx em = Inr em1" "em_adds cfg (selected cfg averages [tx]) em em1" by blast
  have "\<forall>t \<in> set txs \<union> set (em_batch em1). serializable t"
    using Cons.prems em1(2) selected_set [of cfg averages "[tx]"] by (auto simp: em_adds_def)
  from Cons.IH [OF this] obtain em2 where "emit_all cfg averages c txs em1 = Inr em2" "em_adds cfg (selected cfg averages txs) em1 em2" by blast
  with em1 em_adds_trans [OF em1(2) this(2)] show ?case by (simp add: selected_Cons [of cfg averages tx txs])
qed (simp add: selected_def em_adds_refl)

lemma emit_log_adds:
  assumes "d_mag (bc_divisor cfg) \<noteq> 0" and c: "0 \<le> c" "c < 256 ^ 16" and "rmap deserialize_transactions raws = Inr txss"
    and "\<forall>tx \<in> set (concat txss) \<union> set (em_batch em). serializable tx"
  shows "\<exists>em'. emit_log cfg averages c raws em = Inr em' \<and> em_adds cfg (selected cfg averages (concat txss)) em em'"
  using assms(4,5)
proof (induction raws arbitrary: em txss)
  case (Cons raw raws)
  from Cons.prems(1) obtain txs txss' where txs: "deserialize_transactions raw = Inr txs" "rmap deserialize_transactions raws = Inr txss'" "txss = txs # txss'"
    by auto
  have "\<forall>tx \<in> set txs \<union> set (em_batch em). serializable tx" using Cons.prems(2) txs(3) by auto
  from emit_all_adds [OF assms(1) c this] obtain em1 where
    em1: "emit_all cfg averages c txs em = Inr em1" "em_adds cfg (selected cfg averages txs) em em1" by blast
  have "\<forall>t \<in> set (concat txss') \<union> set (em_batch em1). serializable t"
    using Cons.prems(2) em1(2) txs(3) selected_set [of cfg averages txs] by (auto simp: em_adds_def)
  from Cons.IH [OF txs(2) this] obtain em2 where
    "emit_log cfg averages c raws em1 = Inr em2" "em_adds cfg (selected cfg averages (concat txss')) em1 em2" by blast
  with em1 em_adds_trans [OF em1(2) this(2)] txs show ?case by (auto simp: selected_def)
qed (simp add: selected_def em_adds_refl)

text \<open>The emission of a client whose log holds the given batches.\<close>

lemma emit_outputs_say:
  assumes "d_mag (bc_divisor cfg) \<noteq> 0" and c: "0 \<le> c" "c < 256 ^ 16" and id: "0 \<le> bc_id cfg" "bc_id cfg < 256 ^ 4"
    and "rmap deserialize_transactions raws = Inr txss" and "\<forall>tx \<in> set (concat txss). serializable tx"
    and "int (length (concat txss)) < 256 ^ 4"
    and "q3b_disk_log c s = (if raws = [] then None else Some content)" and "iter_raw_batches content = raws"
  shows "\<exists>outs. emit_outputs cfg c s = Inr outs \<and>
    serialize_transactions (selected cfg (q3b_averages_of c s) (concat txss)) = Inr (data_sent (bc_output_queue cfg) outs) \<and>
    eofs_sent outs = [(bc_output_queue cfg, int (length (selected cfg (q3b_averages_of c s) (concat txss))))]"
proof -
  let ?sel = "selected cfg (q3b_averages_of c s) (concat txss)" and ?q = "bc_output_queue cfg"
  let ?new = "\<lparr>em_outputs = [], em_batch = [], em_batch_bytes = 0, em_emitted = 0\<rparr> :: emission"
  have sel: "\<forall>tx \<in> set ?sel. serializable tx" using assms(7) selected_set by blast
  have "\<exists>outs. (case q3b_disk_log c s of
              None \<Rightarrow> Inr ([], 0)
            | Some content \<Rightarrow>
                rbind (emit_log cfg (q3b_averages_of c s) c (iter_raw_batches content) ?new) (\<lambda>em.
                if em_batch em = [] then Inr (em_outputs em, em_emitted em)
                else rbind (batch_output cfg c (em_batch em)) (\<lambda>out. Inr (em_outputs em @ [out], em_emitted em)))) = Inr (outs, int (length ?sel)) \<and>
      data_sent ?q outs = concat (map tx_bytes ?sel) \<and> eofs_sent outs = []"
  proof (cases "raws = []")
    case True
    with assms(6,9) show ?thesis by (simp add: selected_def)
  next
    case False
    from emit_log_adds [OF assms(1) c assms(6), of ?new "q3b_averages_of c s"] assms(7) obtain em where
      em: "emit_log cfg (q3b_averages_of c s) c raws ?new = Inr em" "em_adds cfg ?sel ?new em"
      by auto
    have "\<forall>tx \<in> set (em_batch em). serializable tx" using em(2) sel by (auto simp: em_adds_def)
    from batch_output_says [OF c this, of cfg] em False assms(9,10) show ?thesis
      by (auto simp: em_adds_def em_bytes_def)
  qed
  then obtain outs where outs: "emit_outputs cfg c s =
      rbind (serialize_control \<lparr>cm_sender_id = bc_id cfg, expected_total = int (length ?sel), processed_count = 0\<rparr>) (\<lambda>eof_payload.
      rbind (fi_packet MT_EOF c eof_payload) (\<lambda>packet. Inr (outs @ [Out2 ?q packet])))"
    "data_sent ?q outs = concat (map tx_bytes ?sel)" "eofs_sent outs = []"
    by (auto simp: emit_outputs_def)
  have "length ?sel \<le> length (concat txss)" unfolding selected_def by (rule length_filter_le)
  with assms(8) have "int (length ?sel) < 256 ^ 4" by linarith
  then obtain p where p: "serialize_control \<lparr>cm_sender_id = bc_id cfg, expected_total = int (length ?sel), processed_count = 0\<rparr> = Inr p"
    using id by (simp add: serialize_control_def pack_uint_def)
  obtain pkt where pkt: "fi_packet MT_EOF c p = Inr pkt" using fi_packet_total [OF c] by blast
  from packet_says [OF pkt, of "Out2 ?q pkt" ?q None] control_roundtrip [OF p] outs p pkt serialize_all [OF sel] show ?thesis by simp
qed

subsection \<open>A client from its first message to the barrier\<close>

text \<open>The messages of the two streams, each as a handler runs it: the business function, then the change.\<close>

datatype q3_input = Average pystr double | AverageEof | Candidates bytes | CandidateEof int

definition q3_step :: "q3_barrier_config \<Rightarrow> int \<Rightarrow> q3_input \<Rightarrow> (q3_barrier_state, logical_output list) act" where
  "q3_step cfg c x s =
     (if q3b_is_closed c s then (Inr [], s)
      else
        abind
          (case x of
             Average f a \<Rightarrow> bfn_average c \<lparr>q3r_payment_format = f, q3r_average = a\<rparr> []
           | AverageEof \<Rightarrow> bfn_average_eof cfg c (q3b_has_candidate_eof c s) []
           | Candidates p \<Rightarrow> bfn_candidates c p
           | CandidateEof n \<Rightarrow> bfn_candidate_eof cfg c n (q3b_has_avg_eof c s) [])
          (\<lambda>(change, outs). abind (q3b_apply_change change) (\<lambda>_. areturn outs)) s)"

fun q3_run :: "q3_barrier_config \<Rightarrow> int \<Rightarrow> q3_input list \<Rightarrow> (q3_barrier_state, logical_output list) act" where
  "q3_run cfg c [] = areturn []"
| "q3_run cfg c (x # xs) = abind (q3_step cfg c x) (\<lambda>outs. abind (q3_run cfg c xs) (\<lambda>rest. areturn (outs @ rest)))"

definition of_averages :: "q3_input \<Rightarrow> bool" where
  "of_averages x \<longleftrightarrow> (case x of Average _ _ \<Rightarrow> True | AverageEof \<Rightarrow> True | _ \<Rightarrow> False)"

text \<open>What a client has when some of each stream has arrived.\<close>

definition arrived :: "int \<Rightarrow> (pystr \<times> double) list \<Rightarrow> bytes list \<Rightarrow> bool \<Rightarrow> bool \<Rightarrow> q3_barrier_state \<Rightarrow> bool" where
  "arrived c avs ps avg_end cand_end s \<longleftrightarrow> q3b_averages_of c s = py_dict avs \<and>
     q3b_disk_log c s = (if ps = [] then None else Some (concat (map frame ps))) \<and> log_content s c = concat (map frame ps) \<and>
     (c \<in> q3b_avg_eof s \<longleftrightarrow> avg_end) \<and> (c \<in> q3b_candidates_eof s \<longleftrightarrow> cand_end) \<and> c \<notin> q3b_closed s"

lemma log_frame [simp]:
  "q3b_disk_log c (q3b_averages_update f s) = q3b_disk_log c s" "q3b_disk_log c (q3b_avg_eof_update g s) = q3b_disk_log c s"
  "q3b_disk_log c (q3b_candidates_eof_update g s) = q3b_disk_log c s" "q3b_disk_log c (q3b_expected_total_update h s) = q3b_disk_log c s"
  "log_content (q3b_averages_update f s) c = log_content s c" "log_content (q3b_avg_eof_update g s) c = log_content s c"
  "log_content (q3b_candidates_eof_update g s) c = log_content s c" "log_content (q3b_expected_total_update h s) c = log_content s c"
  by (simp_all add: q3b_disk_log_def log_content_def)

lemma changes_applied:
  assumes "c \<notin> q3b_closed s"
  shows "q3b_apply_change (q3b_avg_data_change c f a) s =
      (Inr (), s\<lparr>q3b_averages := dset c (dset f a (q3b_averages_of c s)) (q3b_averages s)\<rparr>)"
    and "q3b_apply_change (q3b_avg_eof_change c) s = (Inr (), q3b_avg_eof_update (insert c) s)"
    and "q3b_apply_change (q3b_candidate_eof_change c n) s =
      (Inr (), q3b_expected_total_update (dset c n) (q3b_candidates_eof_update (insert c) s))"
  using assms
  by (simp_all add: q3b_apply_change_def dispatch_change.simps [of q3b_changes] q3b_avg_data_change_def q3b_avg_eof_change_def
      q3b_candidate_eof_change_def jget_simps q3b_changes_def q3b_op_defs json_float_def as_float_def q3b_averages_of_def dset_again)

lemma close_applied: "q3b_apply_change (q3b_close_change c) s = (Inr (), q3b_apply_close c s)"
  by (simp add: q3b_apply_change_def q3b_close_change_def fi_dispatch_simps(4) q3b_changes_def amodify_def)

lemma compound_applied:
  assumes "q3b_apply_change ch s = (Inr (), s')"
  shows "q3b_apply_change (q3b_compound_change [ch, q3b_close_change c]) s = (Inr (), q3b_apply_close c s')"
proof -
  have "q3b_apply_change (q3b_compound_change [ch, q3b_close_change c]) s =
      abind (q3b_apply_change ch) (\<lambda>_. abind (q3b_apply_change (q3b_close_change c)) (\<lambda>_. areturn ())) s"
    by (simp add: q3b_apply_change_def q3b_compound_change_def fi_dispatch_simps(1))
  with assms close_applied [of c s'] show ?thesis by (simp add: act_defs)
qed

lemma step_average:
  assumes "arrived c avs ps ae ce s"
  shows "\<exists>s'. q3_step cfg c (Average f a) s = (Inr [], s') \<and> arrived c (avs @ [(f, a)]) ps ae ce s'"
  using assms changes_applied(1) [of c s f a]
  by (auto simp: q3_step_def q3b_is_closed_def arrived_def bfn_average_def act_defs q3b_averages_of_def py_dict_def)

lemma step_candidates:
  assumes "arrived c avs ps ae ce s" and "length p < 256 ^ 4"
  shows "\<exists>s'. q3_step cfg c (Candidates p) s = (Inr [], s') \<and> arrived c avs (ps @ [p]) ae ce s'"
proof -
  have op: "c \<notin> q3b_closed s" using assms(1) by (simp add: arrived_def)
  obtain s' where s': "q3b_apply_change (q3b_candidate_data_change c p) s = (Inr (), s')"
    "q3b_averages s' = q3b_averages s" "q3b_avg_eof s' = q3b_avg_eof s" "q3b_candidates_eof s' = q3b_candidates_eof s"
    using candidate_change [OF op assms(2)] assms(2) by (auto simp: log_append_def q3b_disk_log_for_def)
  have "q3_step cfg c (Candidates p) s = (Inr [], s')"
    using op s'(1) by (simp add: q3_step_def q3b_is_closed_def bfn_candidates_def abind_def areturn_def)
  with assms(1) candidate_logged [OF op assms(2)] s' show ?thesis
    by (auto simp: arrived_def q3b_averages_of_def log_content_def)
qed

text \<open>The EOF of one stream, before and after that of the other.\<close>

lemma step_eof_first:
  assumes "arrived c avs ps False False s"
  shows "\<exists>s'. q3_step cfg c AverageEof s = (Inr [], s') \<and> arrived c avs ps True False s'"
    and "\<exists>s'. q3_step cfg c (CandidateEof n) s = (Inr [], s') \<and> arrived c avs ps False True s'"
  using assms changes_applied(2,3) [of c s]
  by (auto simp: q3_step_def q3b_is_closed_def arrived_def bfn_average_eof_def bfn_candidate_eof_def end_of_stream_def act_defs
      q3b_has_avg_eof_def q3b_has_candidate_eof_def q3b_averages_of_def)

lemma step_eof_last:
  assumes "emit_outputs cfg c s = Inr outs"
  shows "arrived c avs ps False True s \<Longrightarrow> \<exists>s'. q3_step cfg c AverageEof s = (Inr outs, s') \<and> c \<in> q3b_closed s'"
    and "arrived c avs ps True False s \<Longrightarrow> \<exists>s'. q3_step cfg c (CandidateEof n) s = (Inr outs, s') \<and> c \<in> q3b_closed s'"
  using assms compound_applied [OF changes_applied(2), of c s c] compound_applied [OF changes_applied(3), of c s n c]
  by (auto simp: q3_step_def q3b_is_closed_def arrived_def bfn_average_eof_def bfn_candidate_eof_def end_of_stream_def act_defs
      q3b_has_avg_eof_def q3b_has_candidate_eof_def q3b_apply_close_def)

lemma of_averages_simps [simp]:
  "of_averages (Average f a)" "of_averages AverageEof" "\<not> of_averages (Candidates p)" "\<not> of_averages (CandidateEof n)"
  by (simp_all add: of_averages_def)

lemma q3_run_Cons:
  "q3_step cfg c x s = (Inr outs, s1) \<Longrightarrow> q3_run cfg c xs s1 = (Inr rest, s2) \<Longrightarrow> q3_run cfg c (x # xs) s = (Inr (outs @ rest), s2)"
  by (simp add: abind_def areturn_def)

text \<open>The rest of the two streams, in any interleaving: \<open>None\<close> when a stream has ended.\<close>

fun averages_left :: "(pystr \<times> double) list option \<Rightarrow> q3_input list" where
  "averages_left None = []"
| "averages_left (Some avs) = map (\<lambda>(f, a). Average f a) avs @ [AverageEof]"

fun candidates_left :: "int \<Rightarrow> bytes list option \<Rightarrow> q3_input list" where
  "candidates_left n None = []"
| "candidates_left n (Some ps) = map Candidates ps @ [CandidateEof n]"

definition the_rest :: "'a list option \<Rightarrow> 'a list" where
  "the_rest xs = (case xs of None \<Rightarrow> [] | Some ys \<Rightarrow> ys)"

lemma the_rest_simps [simp]: "the_rest None = []" "the_rest (Some xs) = xs"
  by (simp_all add: the_rest_def)

text \<open>A run that emits nothing before its last message, which closes the client.\<close>

definition emits_last :: "q3_barrier_config \<Rightarrow> int \<Rightarrow> q3_input list \<Rightarrow> q3_barrier_state \<Rightarrow> logical_output list \<Rightarrow> bool" where
  "emits_last cfg c xs s outs \<longleftrightarrow> xs \<noteq> [] \<and>
     (\<exists>s1 s2. q3_run cfg c (butlast xs) s = (Inr [], s1) \<and> q3_step cfg c (last xs) s1 = (Inr outs, s2) \<and> c \<in> q3b_closed s2)"

lemma q3_run_silent: "q3_step cfg c x s = (Inr [], s1) \<Longrightarrow> emits_last cfg c xs s1 outs \<Longrightarrow> emits_last cfg c (x # xs) s outs"
  using q3_run_Cons [of cfg c x s "[]" s1 "butlast xs" "[]"] by (auto simp: emits_last_def)

lemma q3_run_last: "\<exists>s1. q3_step cfg c x s = (Inr outs, s1) \<and> c \<in> q3b_closed s1 \<Longrightarrow> emits_last cfg c [x] s outs"
  by (simp add: emits_last_def areturn_def)

lemma q3_run_append:
  "q3_run cfg c xs s = (Inr outs, s1) \<Longrightarrow> q3_run cfg c ys s1 = (Inr rest, s2) \<Longrightarrow> q3_run cfg c (xs @ ys) s = (Inr (outs @ rest), s2)"
proof (induction xs arbitrary: s outs)
  case (Cons x xs)
  then obtain o1 sx o2 where "q3_step cfg c x s = (Inr o1, sx)" "q3_run cfg c xs sx = (Inr o2, s1)" "outs = o1 @ o2"
    by (auto simp: abind_def areturn_def split: prod.splits sum.splits)
  with q3_run_Cons Cons.IH Cons.prems(2) show ?case by fastforce
qed (simp add: areturn_def)

lemma q3_run_snoc:
  assumes "q3_run cfg c xs s = (Inr [], s1)" and "q3_step cfg c x s1 = (Inr outs, s2)"
  shows "q3_run cfg c (xs @ [x]) s = (Inr outs, s2)"
  using q3_run_append [OF assms(1) q3_run_Cons [OF assms(2), of "[]" "[]" s2]] by (simp add: areturn_def)

lemma streams_ended:
  "filter of_averages xs = averages_left None \<Longrightarrow> filter (\<lambda>x. \<not> of_averages x) xs = candidates_left n None \<Longrightarrow> xs = []"
  by (cases xs) (auto split: if_splits)

lemma averages_left_Cons:
  "Average f a # xs = averages_left avs \<longleftrightarrow> (\<exists>avs'. avs = Some ((f, a) # avs') \<and> xs = averages_left (Some avs'))"
  "AverageEof # xs = averages_left avs \<longleftrightarrow> avs = Some [] \<and> xs = []"
proof (goal_cases)
  case 1
  show ?case by (cases avs) (auto simp: neq_Nil_conv Cons_eq_append_conv)
next
  case 2
  show ?case by (cases avs) (auto simp: Cons_eq_append_conv)
qed

lemma candidates_left_Cons:
  "Candidates p # xs = candidates_left n ps \<longleftrightarrow> (\<exists>ps'. ps = Some (p # ps') \<and> xs = candidates_left n (Some ps'))"
  "CandidateEof m # xs = candidates_left n ps \<longleftrightarrow> ps = Some [] \<and> m = n \<and> xs = []"
proof (goal_cases)
  case 1
  show ?case by (cases ps) (auto simp: Cons_eq_append_conv)
next
  case 2
  show ?case by (cases ps) (auto simp: Cons_eq_append_conv)
qed

lemma q3_run_streams:
  assumes "filter of_averages xs = averages_left avs" and "filter (\<lambda>x. \<not> of_averages x) xs = candidates_left n ps"
    and "avs \<noteq> None \<or> ps \<noteq> None" and "arrived c avs0 ps0 (avs = None) (ps = None) s"
    and "list_all (\<lambda>p. length p < 256 ^ 4) (the_rest ps)"
    and "\<forall>ae ce s. arrived c (avs0 @ the_rest avs) (ps0 @ the_rest ps) ae ce s \<longrightarrow> emit_outputs cfg c s = Inr outs"
  shows "emits_last cfg c xs s outs"
  using assms
proof (induction xs arbitrary: avs ps avs0 ps0 s)
  case Nil
  then show ?case by (cases avs; cases ps) auto
next
  case (Cons x xs)
  show ?case
  proof (cases x)
    case (Average f a)
    with Cons.prems(1) obtain avs' where avs: "avs = Some ((f, a) # avs')" "filter of_averages xs = averages_left (Some avs')"
      by (auto simp: averages_left_Cons)
    obtain s1 where s1: "q3_step cfg c x s = (Inr [], s1)" "arrived c (avs0 @ [(f, a)]) ps0 False (ps = None) s1"
      using step_average [OF Cons.prems(4), of cfg f a] Average avs(1) by auto
    have "emits_last cfg c xs s1 outs"
      by (rule Cons.IH [OF avs(2), of ps "avs0 @ [(f, a)]" ps0]) (use Cons.prems s1(2) Average avs(1) in simp_all)
    with s1(1) show ?thesis by (rule q3_run_silent)
  next
    case AverageEof
    with Cons.prems(1) have avs: "avs = Some []" "filter of_averages xs = averages_left None" by (auto simp: averages_left_Cons)
    show ?thesis
    proof (cases ps)
      case None
      have "emit_outputs cfg c s = Inr outs" using Cons.prems(4,6) avs(1) None by auto
      moreover have "xs = []" using streams_ended [OF avs(2), of n] Cons.prems(2) None AverageEof by simp
      ultimately show ?thesis using step_eof_last(1) Cons.prems(4) avs(1) None AverageEof by (auto intro: q3_run_last)
    next
      case (Some ps')
      obtain s1 where s1: "q3_step cfg c x s = (Inr [], s1)" "arrived c avs0 ps0 True False s1"
        using step_eof_first(1) [of c avs0 ps0 s cfg] Cons.prems(4) AverageEof avs(1) Some by auto
      have "emits_last cfg c xs s1 outs"
        by (rule Cons.IH [OF avs(2), of ps avs0 ps0]) (use Cons.prems s1(2) AverageEof avs(1) Some in simp_all)
      with s1(1) show ?thesis by (rule q3_run_silent)
    qed
  next
    case (Candidates p)
    with Cons.prems(2) obtain ps' where ps: "ps = Some (p # ps')" "filter (\<lambda>x. \<not> of_averages x) xs = candidates_left n (Some ps')"
      by (auto simp: candidates_left_Cons)
    obtain s1 where s1: "q3_step cfg c x s = (Inr [], s1)" "arrived c avs0 (ps0 @ [p]) (avs = None) False s1"
      using step_candidates [OF Cons.prems(4), of p cfg] Cons.prems(5) Candidates ps(1) by auto
    have "emits_last cfg c xs s1 outs"
      by (rule Cons.IH [OF _ ps(2), of avs avs0 "ps0 @ [p]"]) (use Cons.prems s1(2) Candidates ps(1) in simp_all)
    with s1(1) show ?thesis by (rule q3_run_silent)
  next
    case (CandidateEof m)
    with Cons.prems(2) have ps: "ps = Some []" "m = n" "filter (\<lambda>x. \<not> of_averages x) xs = candidates_left n None"
      by (auto simp: candidates_left_Cons)
    show ?thesis
    proof (cases avs)
      case None
      have "emit_outputs cfg c s = Inr outs" using Cons.prems(4,6) ps(1) None by auto
      moreover have "xs = []" using streams_ended [OF _ ps(3)] Cons.prems(1) None CandidateEof by simp
      ultimately show ?thesis using step_eof_last(2) Cons.prems(4) ps(1) None CandidateEof by (auto intro: q3_run_last)
    next
      case (Some avs')
      obtain s1 where s1: "q3_step cfg c x s = (Inr [], s1)" "arrived c avs0 ps0 False True s1"
        using step_eof_first(2) [of c avs0 ps0 s cfg] Cons.prems(4) CandidateEof ps(1) Some by auto
      have "emits_last cfg c xs s1 outs"
        by (rule Cons.IH [OF _ ps(3), of avs avs0 ps0]) (use Cons.prems s1(2) CandidateEof ps(1) Some in simp_all)
      with s1(1) show ?thesis by (rule q3_run_silent)
    qed
  qed
qed

lemma emit_outputs_cong:
  assumes "q3b_averages_of c s = q3b_averages_of c r" and "q3b_disk_log c s = q3b_disk_log c r"
  shows "emit_outputs cfg c s = emit_outputs cfg c r"
  unfolding emit_outputs_def assms ..

text \<open>
  C8: the barrier emits the candidates below the threshold, and only at the end of both streams. The averages and the
  candidate batches of a client may arrive in any interleaving, each stream in its own order and ended by its EOF
  (the divisor is not zero; ids, counts and batches fit their fields and the candidates are transactions that can be sent). Then
  the run returns, emits nothing at all for the messages before the last one, which is the second of the two EOFs, and
  what goes to the gateway for the last one is every candidate whose amount is not at least the average of its payment
  format over the divisor, formats without an average apart, in the order of arrival whatever the sizes of the
  batches; one EOF announces how many; and the client is closed.
\<close>

theorem q3_barrier_emits:
  assumes "d_mag (bc_divisor cfg) \<noteq> 0" and "0 \<le> c" and "c < 256 ^ 16" and "0 \<le> bc_id cfg" and "bc_id cfg < 256 ^ 4"
    and "filter of_averages xs = averages_left (Some avs)" and "filter (\<lambda>x. \<not> of_averages x) xs = candidates_left n (Some ps)"
    and "rmap deserialize_transactions ps = Inr txss" and "list_all (\<lambda>p. length p < 256 ^ 4) ps"
    and "\<forall>tx \<in> set (concat txss). serializable tx" and "int (length (concat txss)) < 256 ^ 4"
    and "arrived c [] [] False False s"
  shows "\<exists>outs s1 s'. q3_run cfg c xs s = (Inr outs, s') \<and>
    q3_run cfg c (butlast xs) s = (Inr [], s1) \<and> q3_step cfg c (last xs) s1 = (Inr outs, s') \<and>
    serialize_transactions (selected cfg (py_dict avs) (concat txss)) = Inr (data_sent (bc_output_queue cfg) outs) \<and>
    eofs_sent outs = [(bc_output_queue cfg, int (length (selected cfg (py_dict avs) (concat txss))))] \<and> c \<in> q3b_closed s'"
proof -
  let ?says = "\<lambda>outs. serialize_transactions (selected cfg (py_dict avs) (concat txss)) = Inr (data_sent (bc_output_queue cfg) outs) \<and>
    eofs_sent outs = [(bc_output_queue cfg, int (length (selected cfg (py_dict avs) (concat txss))))]"
  define s0 where "s0 = (new_q3_barrier_state (\<lambda>_. Some (concat (map frame ps))))
      \<lparr>q3b_averages := [(c, py_dict avs)], q3b_disk_logs := (if ps = [] then [] else [(c, 0)])\<rparr>"
  have s0: "q3b_averages_of c s0 = py_dict avs" "q3b_disk_log c s0 = (if ps = [] then None else Some (concat (map frame ps)))"
    by (simp_all add: s0_def q3b_averages_of_def dget_def q3b_disk_log_def log_content_def new_q3_barrier_state_def)
  obtain outs where outs: "emit_outputs cfg c s0 = Inr outs" "?says outs"
    using emit_outputs_say [OF assms(1-5,8,10,11) s0(2) iter_frames [OF assms(9)]] s0(1) by auto
  have "emit_outputs cfg c r = Inr outs" if "arrived c avs ps ae ce r" for ae ce r
    using outs(1) that s0 emit_outputs_cong [of c r s0 cfg] by (simp add: arrived_def)
  then have "\<forall>ae ce r. arrived c ([] @ the_rest (Some avs)) ([] @ the_rest (Some ps)) ae ce r \<longrightarrow> emit_outputs cfg c r = Inr outs" by simp
  from q3_run_streams [OF assms(6,7) _ _ _ this, of s] assms(9,12) obtain s1 s' where
    run: "xs \<noteq> []" "q3_run cfg c (butlast xs) s = (Inr [], s1)" "q3_step cfg c (last xs) s1 = (Inr outs, s')" "c \<in> q3b_closed s'"
    by (auto simp: emits_last_def)
  from q3_run_snoc [OF run(2,3)] run(1) have "q3_run cfg c xs s = (Inr outs, s')" by simp
  with run outs(2) show ?thesis by blast
qed

subsubsection \<open>An example\<close>

definition demo_barrier :: q3_barrier_config where
  "demo_barrier = \<lparr>bc_id = 1, bc_output_queue = [103], bc_divisor = 0x4059000000000000, bc_batch_bytes = 1000, bc_batch_max_tx = 10\<rparr>"

lemma demo_bits:
  "d_mag 0x7FF0000000000000 = 2047 * 2 ^ 52" "d_mag 0x4059000000000000 = 0x4059000000000000" "d_mag 0x40ACD1D70A3D70A4 = 0x40ACD1D70A3D70A4"
  "\<not> d_sign 0x7FF0000000000000" "\<not> d_sign 0x4059000000000000" "\<not> d_sign 0x40ACD1D70A3D70A4"
  "d_make False (2047 * 2 ^ 52) = 0x7FF0000000000000"
  by (simp_all add: d_mag_def d_sign_def d_make_def bit_numeral_rec)

lemma demo_threshold: "d_div 0x7FF0000000000000 0x4059000000000000 = Inr 0x7FF0000000000000"
  "\<not> d_le 0x7FF0000000000000 0x40ACD1D70A3D70A4" "d_mag 0x4059000000000000 \<noteq> 0"
  by (simp_all add: d_div_def d_le_def d_key_def is_nan_def is_inf_def inf_key_def demo_bits [simplified] Let_def)

lemma demo_selected: "selected demo_barrier (py_dict [(tx_format demo_tx, 0x7FF0000000000000)]) [demo_tx] = [demo_tx]"
  using demo_threshold by (simp add: selected_def py_dict_def demo_barrier_def demo_tx_def)

theorem q3_barrier_emits_witness:
  "\<exists>b outs s1 s'. q3_run demo_barrier 7 [Candidates b, CandidateEof 1, Average (tx_format demo_tx) 0x7FF0000000000000, AverageEof]
       (new_q3_barrier_state (\<lambda>_. None)) = (Inr outs, s') \<and>
     q3_run demo_barrier 7 [Candidates b, CandidateEof 1, Average (tx_format demo_tx) 0x7FF0000000000000]
       (new_q3_barrier_state (\<lambda>_. None)) = (Inr [], s1) \<and> q3_step demo_barrier 7 AverageEof s1 = (Inr outs, s') \<and>
     serialize_transactions [demo_tx] = Inr (data_sent [103] outs) \<and> eofs_sent outs = [([103], 1)] \<and> 7 \<in> q3b_closed s'"
proof -
  obtain b where b: "serialize_transaction demo_tx = Inr b" "deserialize_transactions b = Inr [demo_tx]" "length b = 195"
    using demo_tx_serialized by blast
  let ?xs = "[Candidates b, CandidateEof 1, Average (tx_format demo_tx) 0x7FF0000000000000, AverageEof]"
  have "\<exists>outs s1 s'. q3_run demo_barrier 7 ?xs (new_q3_barrier_state (\<lambda>_. None)) = (Inr outs, s') \<and>
    q3_run demo_barrier 7 (butlast ?xs) (new_q3_barrier_state (\<lambda>_. None)) = (Inr [], s1) \<and>
    q3_step demo_barrier 7 (last ?xs) s1 = (Inr outs, s') \<and>
    serialize_transactions (selected demo_barrier (py_dict [(tx_format demo_tx, 0x7FF0000000000000)]) (concat [[demo_tx]])) =
      Inr (data_sent (bc_output_queue demo_barrier) outs) \<and>
    eofs_sent outs = [(bc_output_queue demo_barrier,
      int (length (selected demo_barrier (py_dict [(tx_format demo_tx, 0x7FF0000000000000)]) (concat [[demo_tx]]))))] \<and> 7 \<in> q3b_closed s'"
  proof (rule q3_barrier_emits [where n = 1 and ps = "[b]"])
    show "d_mag (bc_divisor demo_barrier) \<noteq> 0" using demo_threshold(3) by (simp add: demo_barrier_def)
    show "arrived 7 [] [] False False (new_q3_barrier_state (\<lambda>_. None))"
      by (simp add: arrived_def new_q3_barrier_state_def q3b_averages_of_def py_dict_def q3b_disk_log_def log_content_def)
    show "rmap deserialize_transactions [b] = Inr [[demo_tx]]" using b(2) by simp
    show "\<forall>tx \<in> set (concat [[demo_tx]]). serializable tx" using b(1) by (simp add: serializable_def)
  qed (use b(3) in \<open>simp_all add: demo_barrier_def\<close>)
  then obtain outs s1 s' where "q3_run demo_barrier 7 ?xs (new_q3_barrier_state (\<lambda>_. None)) = (Inr outs, s')"
    "q3_run demo_barrier 7 (butlast ?xs) (new_q3_barrier_state (\<lambda>_. None)) = (Inr [], s1)"
    "q3_step demo_barrier 7 (last ?xs) s1 = (Inr outs, s')" "serialize_transactions [demo_tx] = Inr (data_sent [103] outs)"
    "eofs_sent outs = [([103], 1)]" "7 \<in> q3b_closed s'"
    by (auto simp: demo_selected) (auto simp: demo_barrier_def)
  then show ?thesis
    by (intro exI [of _ b] exI [of _ outs] exI [of _ s1] exI [of _ s']) (simp del: q3_run.simps)
qed

subsection \<open>A send that fails\<close>

lemma publish_fails:
  assumes "e \<in> set es" and "send e = Some err" and "publish ps send es r = (x, r')"
  shows "\<exists>err' pre. x = Inl err' \<and> strict_prefix pre es \<and> published r' = published r @ pre"
  using assms(1,3)
proof (induction es arbitrary: r)
  case (Cons e' es)
  show ?case
  proof (cases "destination e' \<in> set ps \<and> send e' = None")
    case True
    with Cons.prems(2) have run: "publish ps send es (r\<lparr>published := published r @ [e']\<rparr>) = (x, r')" by (simp add: publish_Cons)
    have "e \<in> set es" using Cons.prems(1) True assms(2) by auto
    from Cons.IH [OF this run] obtain err' pre where "x = Inl err'" "strict_prefix pre es" "published r' = published r @ e' # pre" by auto
    then show ?thesis by (intro exI [of _ err'] exI [of _ "e' # pre"]) simp
  next
    case False
    with Cons.prems(2) show ?thesis by (auto simp: publish_Cons split: if_splits option.splits)
  qed
qed simp

lemma barrier_closes:
  assumes "handle q3_barrier_ops m c sd q p (end_of_stream cfg c ch True) k h = (Inr (PublishThenCommit es x), h1)"
    and "classify (h_inbox h) c sd q k = NEW" and "q3b_apply_change ch (h_worker h) = (Inr (), s1)"
  shows "c \<in> q3b_closed (h_worker h1) \<and> x = (m, c, sd, q, k) \<and> es = entries_for_input c m (h_outbox h1)"
proof -
  from assms(1,2) have new: "apply_new q3_barrier_ops m c sd q p (end_of_stream cfg c ch True) k h = (Inr (), h1)"
    and x: "x = (m, c, sd, q, k)" "es = entries_for_input c m (h_outbox h1)"
    by (auto simp: handle_classified split: prod.splits sum.splits)
  from new show ?thesis
  proof (rule apply_newE)
    fix change outs s' es' pos w' sq' s''
    assume "end_of_stream cfg c ch True p (h_worker h) = (Inr (change, outs), s')" "apply_change q3_barrier_ops change s' = (Inr (), s'')"
      "h1 = h\<lparr>h_wal := w', h_sequencer := sq', h_worker := s'', h_inbox := mark_applied c sd q k (h_inbox h),
         h_outbox := outbox_add c m es' (h_outbox h), applied_since_snapshot := applied_since_snapshot h + 1\<rparr>"
    with compound_applied [OF assms(3), of c] x show ?thesis
      by (auto simp: end_of_stream_def act_defs q3_barrier_ops_def q3b_apply_close_def split: sum.splits)
  qed
qed

text \<open>
  C11: a failed send of the results is not repaired by the redelivery. When the EOF that ends the second stream has been applied
  and the broker refuses one of the results, the message goes back to the queue; but the client is closed by then, and the
  handler acknowledges a message of a closed client before it asks whether its outputs are still pending. Only a proper prefix
  of the results was sent, and no redelivery sends the rest, however the broker works: they stay in the outbox.
\<close>

theorem q3_failed_send_drops_results:
  assumes "unpack_addressed_packet message = Inr (message_type_value MT_EOF, c, sd, q, payload)" and "deserialize_control payload = Inr ctrl"
    and "\<not> q3b_is_closed c (q3b_state w)" and "q3b_has_avg_eof c (q3b_state w)"
    and "classify (h_inbox (r_handler w)) c sd q Q3_CANDIDATES = NEW"
    and "handle q3_barrier_ops (stream_msg_id ''cand'' sd c q) c sd q payload (bfn_candidate_eof cfg c (expected_total ctrl) True)
           Q3_CANDIDATES (r_handler w) = (Inr (PublishThenCommit es x), h1)"
    and "e \<in> set es" and "send e = Some err"
  shows "\<exists>w1 pre. handle_candidate cfg send message w = (Nacked True, w1) \<and> published w1 = published w @ pre \<and> strict_prefix pre es \<and>
    entries_for_input c (stream_msg_id ''cand'' sd c q) (h_outbox (r_handler w1)) = es \<and>
    (\<forall>send'. handle_candidate cfg send' message w1 = (Acked, w1))"
proof -
  let ?m = "stream_msg_id ''cand'' sd c q"
  have "q3b_apply_change (q3b_candidate_eof_change c (expected_total ctrl)) (q3b_state w) =
      (Inr (), q3b_expected_total_update (dset c (expected_total ctrl)) (q3b_candidates_eof_update (insert c) (q3b_state w)))"
    using assms(3) by (intro changes_applied(3)) (simp add: q3b_is_closed_def)
  from barrier_closes [OF assms(6) [unfolded bfn_candidate_eof_def] assms(5) this]
  have h1: "c \<in> q3b_closed (h_worker h1)" "x = (?m, c, sd, q, Q3_CANDIDATES)" "es = entries_for_input c ?m (h_outbox h1)" by simp_all
  obtain y w1 where pub: "publish [bc_output_queue cfg] send es (w\<lparr>r_handler := h1\<rparr>) = (y, w1)" by fastforce
  from publish_fails [OF assms(7,8) pub] obtain err' pre where
    failed: "y = Inl err'" "strict_prefix pre es" "published w1 = published w @ pre" by auto
  have "r_handler w1 = h1" using publish_frame [OF pub] by simp
  moreover have "handle_candidate cfg send message w = (Nacked True, w1)"
    using assms(1-4) run_message_publish [OF assms(6) [unfolded h1(2)] pub] failed(1)
    by (simp add: handle_candidate_def Let_def run_barrier_def attempt_def)
  moreover have "handle_candidate cfg send' message w1 = (Acked, w1)" for send'
    using assms(1) h1(1) \<open>r_handler w1 = h1\<close> by (simp add: handle_candidate_def Let_def q3b_is_closed_def)
  ultimately show ?thesis using failed(2,3) h1(3) by (intro exI [of _ w1] exI [of _ pre]) simp
qed

text \<open>A barrier that has the averages of client 7, and the EOF of its candidates.\<close>

definition demo_waiting :: q3_barrier where
  "demo_waiting = \<lparr>r_handler = \<lparr>h_node_id = [110], snapshot_every = 10, output_edges = [],
      h_worker = (new_q3_barrier_state (\<lambda>_. None))\<lparr>q3b_avg_eof := {7}\<rparr>,
      h_last_state = new_last_state, h_wal = \<lparr>wal_current = Some [], wal_previous = None\<rparr>, h_inbox = new_inbox, h_outbox = [],
      h_sequencer = \<lparr>node_id = [110], edges = [], next_seq = [], next_addr_seq = []\<rparr>,
      applied_since_snapshot = 0\<rparr>, published = []\<rparr>"

lemma encode_one_output:
  assumes "ascii m" "length m < 2 ^ 16" "field_u32 c" "field_u32 s" "field_u32 q" "length (dumps ch) < 2 ^ 30"
    and "serialize_entry e = Inr b" "length b < 2 ^ 30"
  shows "\<exists>d. encode_record (applied_record m c s q k ch [e]) = Inr d"
proof -
  have "\<exists>p. input_applied_payload \<lparr>ia_msg_id = m, ia_client_id = c, ia_sender_id = s, ia_seq = q, ia_state_change = ch,
      ia_outputs = [e], ia_kind = k\<rparr> = Inr p \<and> length p \<le> 2 ^ 31 + 2 ^ 16 + 50"
    using assms kind_value_range [of k]
    by (simp add: input_applied_payload_def utf8_encode_ascii ensure_u16_len_def ensure_u32_len_def MAX_UINT16_def
        MAX_UINT32_def field_u32_def pack_uint_def del: dumps.simps)
  then show ?thesis
    by (auto simp: encode_record_def applied_record_def frame_record_def ensure_u32_len_def MAX_UINT32_def)
qed

lemma demo_emits:
  "\<exists>p pkt. serialize_control \<lparr>cm_sender_id = 1, expected_total = 0, processed_count = 0\<rparr> = Inr p \<and> fi_packet MT_EOF 7 p = Inr pkt \<and>
     length pkt = 29"
  by (simp add: serialize_control_def pack_uint_def fi_packet_def client_id_to_bytes_def create_packet_def del: be_bytes.simps)

lemma demo_close_dumps: "length (dumps (q3b_compound_change [q3b_candidate_eof_change 7 0, q3b_close_change 7])) < 2 ^ 30"
  by (simp add: q3b_compound_change_def fi_compound_change_def q3b_candidate_eof_change_def q3b_close_change_def fi_close_change_def
      lit_def dumps_str_def escape_char_def int_str_def nat_str.simps)


lemma demo_barrier_handles:
  "\<exists>es h1. handle q3_barrier_ops (stream_msg_id ''cand'' 1 7 1) 7 1 1 payload (bfn_candidate_eof demo_barrier 7 0 True) Q3_CANDIDATES
     (r_handler demo_waiting) = (Inr (PublishThenCommit es (stream_msg_id ''cand'' 1 7 1, 7, 1, 1, Q3_CANDIDATES)), h1) \<and> es \<noteq> []"
proof -
  let ?m = "stream_msg_id ''cand'' 1 7 1" and ?ch = "q3b_compound_change [q3b_candidate_eof_change 7 0, q3b_close_change 7]"
  let ?s = "h_worker (r_handler demo_waiting)" and ?sq = "h_sequencer (r_handler demo_waiting)"
  obtain p pkt where pkt: "serialize_control \<lparr>cm_sender_id = 1, expected_total = 0, processed_count = 0\<rparr> = Inr p" "fi_packet MT_EOF 7 p = Inr pkt"
    "length pkt = 29" using demo_emits by blast
  let ?e = "\<lparr>output_id = plain_output_id [110] 7 0 0, input_id = ?m, destination = [103], body = pkt, shard = None\<rparr>"
  have emits: "emit_outputs demo_barrier 7 ?s = Inr [Out2 [103] pkt]"
    using pkt by (simp add: emit_outputs_def demo_waiting_def new_q3_barrier_state_def q3b_disk_log_def demo_barrier_def)
  have stamped: "stamp 7 ?m [Out2 [103] pkt] ?sq = Inr [?e]" by (simp add: stamp_def demo_waiting_def Let_def)
  have ascii: "ascii ?m" "length ?m = 10" by (simp_all add: stream_msg_id_def lit_def int_str_def nat_str.simps ascii_def)
  have "\<exists>b. serialize_entry ?e = Inr b \<and> length b < 2 ^ 30"
    using ascii pkt(3)
    by (simp add: serialize_entry_def plain_output_id_def int_str_def nat_str.simps utf8_encode_ascii ascii_def MAX_UINT16_def MAX_UINT32_def
        encode_shard_def pack_uint_def del: be_bytes.simps)
  then obtain b where b: "serialize_entry ?e = Inr b" "length b < 2 ^ 30" by blast
  obtain d where d: "encode_record (applied_record ?m 7 1 1 Q3_CANDIDATES ?ch [?e]) = Inr d"
    using encode_one_output [OF ascii(1) _ _ _ _ demo_close_dumps b, of 7 1 1 Q3_CANDIDATES] ascii(2) by (auto simp: field_u32_def)
  have "id_stream ?e = Some (PlainStream 7, 0)"
    by (simp add: id_stream_def parse_plain_id)
  then obtain sq' where sq': "observe_outputs [?e] ?sq = (Inr (), sq')"
    using observe_entry_counter [of ?e "PlainStream 7" 0 ?sq] by (auto simp: observe_outputs_def act_defs)
  have "q3b_apply_change (q3b_candidate_eof_change 7 0) ?s =
      (Inr (), q3b_expected_total_update (dset 7 0) (q3b_candidates_eof_update (insert 7) ?s))"
    by (rule changes_applied(3)) (simp add: demo_waiting_def new_q3_barrier_state_def)
  note applied = compound_applied [OF this, of 7]
  have "classify new_inbox 7 1 1 Q3_CANDIDATES = NEW" by (simp add: classify_def new_inbox_def)
  then have cl: "classify (h_inbox (r_handler demo_waiting)) 7 1 1 Q3_CANDIDATES = NEW" by (simp add: demo_waiting_def)
  have fn: "bfn_candidate_eof demo_barrier 7 0 True payload ?s = (Inr (?ch, [Out2 [103] pkt]), ?s)"
    using emits by (simp add: bfn_candidate_eof_def end_of_stream_def act_defs)
  show ?thesis
    using fn stamped sq' applied cl wal_append_ok [OF d]
    by (simp add: handle_classified apply_new_def handler_act_defs applied_record_def q3_barrier_ops_def)
qed

theorem q3_failed_send_drops_results_witness:
  "\<exists>message es w1. handle_candidate demo_barrier (\<lambda>_. Some OSError) message demo_waiting = (Nacked True, w1) \<and>
     entries_for_input 7 (stream_msg_id ''cand'' 1 7 1) (h_outbox (r_handler w1)) = es \<and> strict_prefix (published w1) es \<and>
     handle_candidate demo_barrier (\<lambda>_. None) message w1 = (Acked, w1)"
proof -
  obtain p where p: "serialize_control \<lparr>cm_sender_id = 1, expected_total = 0, processed_count = 0\<rparr> = Inr p" using demo_emits by blast
  obtain cb where cb: "client_id_to_bytes 7 = Inr cb" by (simp add: client_id_to_bytes_def)
  obtain message where m: "create_addressed_packet (message_type_value MT_EOF) cb 1 1 p = Inr message"
    by (simp add: create_addressed_packet_def pack_uint_def)
  note unpack = addressed_packet_roundtrip [OF m cb]
  obtain es h1 where h1: "handle q3_barrier_ops (stream_msg_id ''cand'' 1 7 1) 7 1 1 p (bfn_candidate_eof demo_barrier 7 0 True) Q3_CANDIDATES
     (r_handler demo_waiting) = (Inr (PublishThenCommit es (stream_msg_id ''cand'' 1 7 1, 7, 1, 1, Q3_CANDIDATES)), h1)" "es \<noteq> []"
    using demo_barrier_handles [of p] by blast
  then obtain e where e: "e \<in> set es" by (cases es) auto
  have new: "\<not> q3b_is_closed 7 (q3b_state demo_waiting)" "q3b_has_avg_eof 7 (q3b_state demo_waiting)"
    "classify (h_inbox (r_handler demo_waiting)) 7 1 1 Q3_CANDIDATES = NEW"
    by (simp_all add: demo_waiting_def new_q3_barrier_state_def q3b_is_closed_def q3b_has_avg_eof_def classify_def new_inbox_def)
  have "\<exists>w1 pre. handle_candidate demo_barrier (\<lambda>_. Some OSError) message demo_waiting = (Nacked True, w1) \<and>
      published w1 = published demo_waiting @ pre \<and> strict_prefix pre es \<and>
      entries_for_input 7 (stream_msg_id ''cand'' 1 7 1) (h_outbox (r_handler w1)) = es \<and>
      (\<forall>send'. handle_candidate demo_barrier send' message w1 = (Acked, w1))"
    using q3_failed_send_drops_results [OF unpack control_roundtrip [OF p] new _ e, where send = "\<lambda>_. Some OSError"] h1(1) by simp
  moreover have "published demo_waiting = []" by (simp add: demo_waiting_def)
  ultimately show ?thesis by auto
qed

end
