(* ===== verification/BankNameJoiner.thy ===== *)
theory BankNameJoiner
  imports FanIn LineBatches
begin

text \<open>
  \<open>workers/q2_bank_name_joiner\<close>: the last step of query 2. Two streams per client, the maximum per bank and the
  batches of the accounts file, from which the names of the banks are read. Each stream announces with its EOF how many
  messages it has; when both are complete, whatever the order, the join is sent and the client is closed.
\<close>

subsection \<open>State\<close>

record client_state =
  cs_bank_names :: "(pystr \<times> pystr list) list"
  cs_q2_results :: "(pystr \<times> q2_bank_max_partial) list"
  cs_q2_data_count :: int
  cs_q2_expected_total :: "int option"
  cs_accounts_batch_count :: int
  cs_accounts_expected_total :: "int option"

definition new_client_state :: client_state where
  "new_client_state = \<lparr>cs_bank_names = [], cs_q2_results = [], cs_q2_data_count = 0, cs_q2_expected_total = None,
     cs_accounts_batch_count = 0, cs_accounts_expected_total = None\<rparr>"

definition cs_ready :: "client_state \<Rightarrow> bool" where
  "cs_ready st =
     (case (cs_q2_expected_total st, cs_accounts_expected_total st) of
        (Some q2_total, Some accounts_total) \<Rightarrow>
          if cs_q2_data_count st < q2_total then False
          else if cs_accounts_batch_count st < accounts_total then False
          else True
      | _ \<Rightarrow> False)"

record bank_name_joiner =
  bn_states :: "(int \<times> client_state) list"
  bn_closed :: "int set"

definition new_bank_name_joiner :: bank_name_joiner where
  "new_bank_name_joiner = \<lparr>bn_states = [], bn_closed = {}\<rparr>"

subsection \<open>Changes\<close>

definition bn_q2_data_change :: "int \<Rightarrow> bytes \<Rightarrow> json" where
  "bn_q2_data_change client_id payload =
     JObj [(lit ''type'', JStr (lit ''q2_data'')), (lit ''client_id'', JInt client_id),
           (lit ''payload_b64'', JStr (b64encode payload))]"

definition bn_q2_eof_change :: "int \<Rightarrow> int \<Rightarrow> json" where
  "bn_q2_eof_change client_id expected =
     JObj [(lit ''type'', JStr (lit ''q2_eof'')), (lit ''client_id'', JInt client_id), (lit ''expected_total'', JInt expected)]"

definition bn_accounts_data_change :: "int \<Rightarrow> (pystr \<times> pystr) list \<Rightarrow> json" where
  "bn_accounts_data_change client_id mappings =
     JObj [(lit ''type'', JStr (lit ''accounts_data'')), (lit ''client_id'', JInt client_id),
           (lit ''mappings'', JList (map (\<lambda>(bank_id, bank_name). JList [JStr bank_id, JStr bank_name]) mappings))]"

definition bn_accounts_eof_change :: "int \<Rightarrow> int \<Rightarrow> json" where
  "bn_accounts_eof_change client_id expected =
     JObj [(lit ''type'', JStr (lit ''accounts_eof'')), (lit ''client_id'', JInt client_id), (lit ''expected_total'', JInt expected)]"

definition bn_close_change :: "int \<Rightarrow> json" where
  "bn_close_change client_id = JObj [(lit ''type'', JStr (lit ''close'')), (lit ''client_id'', JInt client_id)]"

definition bn_abort_change :: "int \<Rightarrow> json" where
  "bn_abort_change client_id = bn_close_change client_id"

definition bn_client_state :: "int \<Rightarrow> bank_name_joiner \<Rightarrow> client_state option" where
  "bn_client_state client_id s = map_of (bn_states s) client_id"

definition bn_is_closed :: "int \<Rightarrow> bank_name_joiner \<Rightarrow> bool" where
  "bn_is_closed client_id s \<longleftrightarrow> client_id \<in> bn_closed s"

subsection \<open>Applying a change\<close>

text \<open>The partial as it is kept: under the normalised bank id, without its row number when the id was not normal.\<close>

definition normalised_partial :: "bytes \<Rightarrow> q2_bank_max_partial res" where
  "normalised_partial payload =
     rbind (deserialize_q2_partial payload) (\<lambda>partial.
     rbind (notebook_bank_id (q2p_bank_id partial)) (\<lambda>bank_id.
     Inr (if bank_id \<noteq> q2p_bank_id partial
          then \<lparr>q2p_bank_id = bank_id, q2p_from_account = q2p_from_account partial, q2p_amount = q2p_amount partial,
                q2p_row_number = 0\<rparr>
          else partial)))"

definition add_q2_result :: "q2_bank_max_partial \<Rightarrow> client_state \<Rightarrow> client_state" where
  "add_q2_result partial st =
     st\<lparr>cs_q2_results := dset (q2p_bank_id partial) partial (cs_q2_results st), cs_q2_data_count := cs_q2_data_count st + 1\<rparr>"

definition add_bank_name :: "pystr \<times> pystr \<Rightarrow> client_state \<Rightarrow> client_state" where
  "add_bank_name = (\<lambda>(bank_id, bank_name) st.
     (let names = dget (cs_bank_names st) bank_id [] in
      st\<lparr>cs_bank_names := dset bank_id (if bank_name \<in> set names then names else names @ [bank_name]) (cs_bank_names st)\<rparr>))"

text \<open>\<open>for bank_id, bank_name in mappings\<close>: unpacking a list of another length is a \<open>ValueError\<close>.\<close>

definition as_mapping :: "json \<Rightarrow> (pystr \<times> pystr) res" where
  "as_mapping v =
     rbind (as_list v) (\<lambda>vs. case vs of
       [x, y] \<Rightarrow> rbind (as_str x) (\<lambda>bank_id. rbind (as_str y) (\<lambda>bank_name. Inr (bank_id, bank_name)))
     | _ \<Rightarrow> Inl ValueError)"

text \<open>\<open>_state_for\<close> and what is done to the state it returns.\<close>

definition bn_state_for :: "int \<Rightarrow> bank_name_joiner \<Rightarrow> bank_name_joiner" where
  "bn_state_for client_id s =
     (case map_of (bn_states s) client_id of
        None \<Rightarrow> s\<lparr>bn_states := dset client_id new_client_state (bn_states s)\<rparr>
      | Some _ \<Rightarrow> s)"

definition bn_update :: "int \<Rightarrow> (client_state \<Rightarrow> client_state) \<Rightarrow> bank_name_joiner \<Rightarrow> bank_name_joiner" where
  "bn_update client_id f s = s\<lparr>bn_states := dset client_id (f (dget (bn_states s) client_id new_client_state)) (bn_states s)\<rparr>"

definition bn_apply_q2_data :: "int \<Rightarrow> json \<Rightarrow> (bank_name_joiner, unit) act" where
  "bn_apply_q2_data client_id change s =
     (if client_id \<in> bn_closed s then (Inr (), s)
      else
        abind (alift (rbind (rbind (jget_str change ''payload_b64'') b64decode) normalised_partial)) (\<lambda>partial.
        abind (amodify (bn_state_for client_id)) (\<lambda>_. amodify (bn_update client_id (add_q2_result partial)))) s)"

definition bn_apply_q2_eof :: "int \<Rightarrow> json \<Rightarrow> (bank_name_joiner, unit) act" where
  "bn_apply_q2_eof client_id change s =
     (if client_id \<in> bn_closed s then (Inr (), s)
      else
        abind (alift (jget_int change ''expected_total'')) (\<lambda>n.
        abind (amodify (bn_state_for client_id)) (\<lambda>_.
        amodify (bn_update client_id (\<lambda>st. st\<lparr>cs_q2_expected_total := Some n\<rparr>)))) s)"

definition bn_apply_accounts_data :: "int \<Rightarrow> json \<Rightarrow> (bank_name_joiner, unit) act" where
  "bn_apply_accounts_data client_id change s =
     (if client_id \<in> bn_closed s then (Inr (), s)
      else
        abind (amodify (bn_state_for client_id)) (\<lambda>_.
        abind (alift (jget_list change ''mappings'')) (\<lambda>mappings.
        abind (afor (\<lambda>m. abind (alift (as_mapping m)) (\<lambda>mapping. amodify (bn_update client_id (add_bank_name mapping)))) mappings) (\<lambda>_.
        amodify (bn_update client_id (\<lambda>st. st\<lparr>cs_accounts_batch_count := cs_accounts_batch_count st + 1\<rparr>))))) s)"

definition bn_apply_accounts_eof :: "int \<Rightarrow> json \<Rightarrow> (bank_name_joiner, unit) act" where
  "bn_apply_accounts_eof client_id change s =
     (if client_id \<in> bn_closed s then (Inr (), s)
      else
        abind (alift (jget_int change ''expected_total'')) (\<lambda>n.
        abind (amodify (bn_state_for client_id)) (\<lambda>_.
        amodify (bn_update client_id (\<lambda>st. st\<lparr>cs_accounts_expected_total := Some n\<rparr>)))) s)"

definition bn_apply_close :: "int \<Rightarrow> bank_name_joiner \<Rightarrow> bank_name_joiner" where
  "bn_apply_close client_id s =
     s\<lparr>bn_states := dpop client_id (bn_states s), bn_closed := insert client_id (bn_closed s)\<rparr>"

definition bn_apply_change :: "json \<Rightarrow> (bank_name_joiner, unit) act" where
  "bn_apply_change change =
     abind (alift (jget_str change ''type'')) (\<lambda>kind.
     abind (alift (jget_int change ''client_id'')) (\<lambda>client_id.
     if kind = lit ''q2_data'' then bn_apply_q2_data client_id change
     else if kind = lit ''q2_eof'' then bn_apply_q2_eof client_id change
     else if kind = lit ''accounts_data'' then bn_apply_accounts_data client_id change
     else if kind = lit ''accounts_eof'' then bn_apply_accounts_eof client_id change
     else if kind = lit ''close'' then amodify (bn_apply_close client_id)
     else araise ValueError))"

record bank_name_joiner_dict =
  bnd_states :: "(int \<times> client_state) list"
  bnd_closed :: "int set"

definition bn_snapshot :: "bank_name_joiner \<Rightarrow> bank_name_joiner_dict option" where
  "bn_snapshot s = Some \<lparr>bnd_states = bn_states s, bnd_closed = bn_closed s\<rparr>"

definition bn_restore :: "bank_name_joiner_dict option \<Rightarrow> (bank_name_joiner, unit) act" where
  "bn_restore data s =
     (case data of
        None \<Rightarrow> (Inr (), s\<lparr>bn_states := [], bn_closed := {}\<rparr>)
      | Some d \<Rightarrow> (Inr (), s\<lparr>bn_states := bnd_states d, bn_closed := bnd_closed d\<rparr>))"

definition bank_name_joiner_ops :: "(bank_name_joiner, bank_name_joiner_dict option) worker_ops" where
  "bank_name_joiner_ops = \<lparr>apply_change = bn_apply_change, worker_snapshot = bn_snapshot, worker_restore = bn_restore\<rparr>"

interpretation bn_state: worker_state bank_name_joiner_ops new_bank_name_joiner "\<lambda>_. True"
  by unfold_locales (simp_all add: bank_name_joiner_ops_def bn_snapshot_def bn_restore_def new_bank_name_joiner_def)

subsection \<open>The worker\<close>

definition ACCOUNTS_SENDER_OFFSET :: int where "ACCOUNTS_SENDER_OFFSET = 1000000"

record bank_name_joiner_config =
  bnc_id :: int
  bnc_output_queue :: pystr

text \<open>\<open>_parse_accounts_batch\<close>: a line that is too short or has no bank id is passed over.\<close>

definition account_mapping :: "nat \<Rightarrow> nat \<Rightarrow> bytes \<Rightarrow> (pystr \<times> pystr) list res" where
  "account_mapping bank_id_idx bank_name_idx line =
     (let clean = (if line \<noteq> [] \<and> last line = 13 then butlast line else line) in
      if clean = [] then Inr []
      else
        rbind (parse_csv_line clean) (\<lambda>cells.
        if length cells \<le> max bank_id_idx bank_name_idx then Inr []
        else
          rbind (notebook_bank_id (cells ! bank_id_idx)) (\<lambda>bank_id.
          if bank_id = [] then Inr [] else Inr [(bank_id, py_strip (cells ! bank_name_idx))])))"

definition parse_accounts_batch :: "bytes \<Rightarrow> (pystr \<times> pystr) list res" where
  "parse_accounts_batch payload =
     rbind (deserialize_line_batch payload) (\<lambda>batch.
     if lb_file_type batch \<noteq> FILE_TYPE_ACCOUNTS then Inl ValueError
     else
       rbind (column_index (lb_header batch) (lit ''Bank ID'')) (\<lambda>bank_id_idx.
       rbind (column_index (lb_header batch) (lit ''Bank Name'')) (\<lambda>bank_name_idx.
       rbind (rmap (account_mapping bank_id_idx bank_name_idx) (lb_lines batch)) (\<lambda>mappings. Inr (concat mappings)))))"

text \<open>\<open>_prospective_state\<close>: the state of the client as it will be, on a copy.\<close>

definition prospective_state :: "int \<Rightarrow> json \<Rightarrow> bank_name_joiner \<Rightarrow> client_state res" where
  "prospective_state client_id change s =
     (let st = (case bn_client_state client_id s of None \<Rightarrow> new_client_state | Some current \<Rightarrow> current) in
      rbind (jget_str change ''type'') (\<lambda>kind.
      if kind = lit ''q2_data'' then
        rbind (rbind (rbind (jget_str change ''payload_b64'') b64decode) normalised_partial) (\<lambda>partial. Inr (add_q2_result partial st))
      else if kind = lit ''q2_eof'' then
        rbind (jget_int change ''expected_total'') (\<lambda>n. Inr (st\<lparr>cs_q2_expected_total := Some n\<rparr>))
      else if kind = lit ''accounts_data'' then
        rbind (rbind (jget_list change ''mappings'') (rmap as_mapping)) (\<lambda>mappings.
        Inr ((fold add_bank_name mappings st)\<lparr>cs_accounts_batch_count := cs_accounts_batch_count st + 1\<rparr>))
      else if kind = lit ''accounts_eof'' then
        rbind (jget_int change ''expected_total'') (\<lambda>n. Inr (st\<lparr>cs_accounts_expected_total := Some n\<rparr>))
      else Inl ValueError))"

definition bn_packet :: "bank_name_joiner_config \<Rightarrow> message_type \<Rightarrow> int \<Rightarrow> int \<Rightarrow> bytes \<Rightarrow> bytes res" where
  "bn_packet cfg msg_type client_id seq payload =
     rbind (client_id_to_bytes client_id) (\<lambda>client_bytes.
     create_addressed_packet (message_type_value msg_type) client_bytes (bnc_id cfg) seq payload)"

definition result_output :: "bank_name_joiner_config \<Rightarrow> int \<Rightarrow> int \<Rightarrow> q2_bank_max_partial \<Rightarrow> pystr \<Rightarrow> logical_output res" where
  "result_output cfg client_id emitted partial bank_name =
     rbind (serialize_q2_result \<lparr>q2r_bank_id = q2p_bank_id partial, q2r_from_account = q2p_from_account partial,
        q2r_bank_name = bank_name, q2r_amount = q2p_amount partial\<rparr>) (\<lambda>payload.
     rbind (bn_packet cfg MT_DATA client_id emitted payload) (\<lambda>pkt. Inr (Out2 (bnc_output_queue cfg) pkt)))"

text \<open>The inner and the outer loop of \<open>_build_result_outputs\<close>; \<open>emitted\<close> goes through both.\<close>

fun name_outputs ::
  "bank_name_joiner_config \<Rightarrow> int \<Rightarrow> q2_bank_max_partial \<Rightarrow> pystr list \<Rightarrow> int \<Rightarrow> (logical_output list \<times> int) res" where
  "name_outputs cfg client_id partial [] emitted = Inr ([], emitted)"
| "name_outputs cfg client_id partial (bank_name # bank_names) emitted =
     rbind (result_output cfg client_id emitted partial bank_name) (\<lambda>out.
     rbind (name_outputs cfg client_id partial bank_names (emitted + 1)) (\<lambda>(outs, emitted). Inr (out # outs, emitted)))"

fun bank_outputs ::
  "bank_name_joiner_config \<Rightarrow> int \<Rightarrow> (pystr \<times> pystr list) list \<Rightarrow> (pystr \<times> q2_bank_max_partial) list \<Rightarrow> int \<Rightarrow>
   (logical_output list \<times> int) res" where
  "bank_outputs cfg client_id names [] emitted = Inr ([], emitted)"
| "bank_outputs cfg client_id names ((bank_id, partial) # rest) emitted =
     rbind (name_outputs cfg client_id partial (dget names bank_id []) emitted) (\<lambda>(outs, emitted).
     rbind (bank_outputs cfg client_id names rest emitted) (\<lambda>(outs', emitted). Inr (outs @ outs', emitted)))"

definition build_join_outputs :: "bank_name_joiner_config \<Rightarrow> client_state \<Rightarrow> int \<Rightarrow> logical_output list res" where
  "build_join_outputs cfg st client_id =
     rbind (bank_outputs cfg client_id (cs_bank_names st) (cs_q2_results st) 0) (\<lambda>(outputs, emitted).
     rbind (serialize_control \<lparr>cm_sender_id = bnc_id cfg, expected_total = emitted, processed_count = 0\<rparr>) (\<lambda>control_payload.
     rbind (bn_packet cfg MT_EOF client_id emitted control_payload) (\<lambda>pkt.
     Inr (outputs @ [Out2 (bnc_output_queue cfg) pkt]))))"

text \<open>\<open>_change_outputs_for\<close>: a data message is not looked into before both totals are known.\<close>

definition change_outputs_for ::
  "bank_name_joiner_config \<Rightarrow> int \<Rightarrow> json \<Rightarrow> bank_name_joiner \<Rightarrow> (json \<times> logical_output list) res" where
  "change_outputs_for cfg client_id change s =
     rbind (jget_str change ''type'') (\<lambda>kind.
     if (kind = lit ''q2_data'' \<or> kind = lit ''accounts_data'') \<and>
        (case bn_client_state client_id s of
           None \<Rightarrow> True
         | Some current \<Rightarrow> cs_q2_expected_total current = None \<or> cs_accounts_expected_total current = None)
     then Inr (change, [])
     else
       rbind (prospective_state client_id change s) (\<lambda>prospective.
       if \<not> cs_ready prospective then Inr (change, [])
       else rbind (build_join_outputs cfg prospective client_id) (\<lambda>outputs. Inr (bn_close_change client_id, outputs))))"

type_synonym bn_fn = "bytes \<Rightarrow> (bank_name_joiner, json \<times> logical_output list) act"

definition bn_bfn :: "bank_name_joiner_config \<Rightarrow> int \<Rightarrow> (bytes \<Rightarrow> json) \<Rightarrow> bn_fn" where
  "bn_bfn cfg client_id change payload = abind (aget (change_outputs_for cfg client_id (change payload))) alift"

definition bn_bfn_abort :: "int \<Rightarrow> bn_fn" where
  "bn_bfn_abort client_id payload = areturn (bn_abort_change client_id, [])"

definition bn_msg_id :: "string \<Rightarrow> int \<Rightarrow> int \<Rightarrow> int \<Rightarrow> pystr" where
  "bn_msg_id stream sender_id client_id seq =
     lit stream @ [58] @ int_str sender_id @ [58] @ int_str client_id @ [58] @ int_str seq"

type_synonym bn_runner = "(bank_name_joiner, bank_name_joiner_dict option) runner"

definition on_q2_message ::
  "bank_name_joiner_config \<Rightarrow> (outbox_entry \<Rightarrow> py_error option) \<Rightarrow> bytes \<Rightarrow> bn_runner \<Rightarrow> delivery \<times> bn_runner" where
  "on_q2_message cfg send message r =
     (case unpack_addressed_packet message of
        Inl _ \<Rightarrow> (Nacked True, r)
      | Inr (type_value, client_id, sender_id, seq, payload) \<Rightarrow>
          (case message_type_of type_value of
             Inl _ \<Rightarrow> (Nacked True, r)
           | Inr msg_type \<Rightarrow>
               (let msg_id = bn_msg_id ''q2'' sender_id client_id seq in
                if msg_type = MT_DATA then
                  attempt (run_direct bank_name_joiner_ops send msg_id client_id sender_id seq payload
                    (bn_bfn cfg client_id (bn_q2_data_change client_id)) DATA) r
                else if msg_type = MT_EOF then
                  (case deserialize_control payload of
                     Inl _ \<Rightarrow> (Nacked True, r)
                   | Inr ctrl \<Rightarrow>
                       attempt (run_direct bank_name_joiner_ops send msg_id client_id sender_id seq payload
                         (bn_bfn cfg client_id (\<lambda>_. bn_q2_eof_change client_id (expected_total ctrl))) DATA) r)
                else if msg_type = MT_ABORT then
                  attempt (run_direct bank_name_joiner_ops send (abort_msg_id sender_id client_id seq) client_id
                    sender_id seq [] (bn_bfn_abort client_id) ABORT) r
                else (Nacked True, r))))"

definition on_accounts_message ::
  "bank_name_joiner_config \<Rightarrow> (outbox_entry \<Rightarrow> py_error option) \<Rightarrow> bytes \<Rightarrow> bn_runner \<Rightarrow> delivery \<times> bn_runner" where
  "on_accounts_message cfg send message r =
     (case unpack_addressed_packet message of
        Inl _ \<Rightarrow> (Nacked True, r)
      | Inr (type_value, client_id, sender_id, seq, payload) \<Rightarrow>
          (case message_type_of type_value of
             Inl _ \<Rightarrow> (Nacked True, r)
           | Inr msg_type \<Rightarrow>
               (let effective_sender_id = sender_id + ACCOUNTS_SENDER_OFFSET;
                    msg_id = bn_msg_id ''acc'' sender_id client_id seq in
                if msg_type = MT_DATA then
                  (case parse_accounts_batch payload of
                     Inl _ \<Rightarrow> (Nacked True, r)
                   | Inr mappings \<Rightarrow>
                       attempt (run_direct bank_name_joiner_ops send msg_id client_id effective_sender_id seq payload
                         (bn_bfn cfg client_id (\<lambda>_. bn_accounts_data_change client_id mappings)) DATA) r)
                else if msg_type = MT_EOF then
                  (case deserialize_control payload of
                     Inl _ \<Rightarrow> (Nacked True, r)
                   | Inr ctrl \<Rightarrow>
                       attempt (run_direct bank_name_joiner_ops send msg_id client_id effective_sender_id seq payload
                         (bn_bfn cfg client_id (\<lambda>_. bn_accounts_eof_change client_id (expected_total ctrl))) DATA) r)
                else if msg_type = MT_ABORT then
                  attempt (run_direct bank_name_joiner_ops send (abort_msg_id sender_id client_id seq) client_id
                    effective_sender_id seq [] (bn_bfn_abort client_id) ABORT) r
                else (Nacked True, r))))"

text \<open>\<open>_republish_pending\<close>: an entry that cannot be sent is logged and the next one is tried.\<close>

definition bn_republish_pending :: "(outbox_entry \<Rightarrow> py_error option) \<Rightarrow> bn_runner \<Rightarrow> bn_runner" where
  "bn_republish_pending send r = foldl (\<lambda>r entry. snd (publish_direct send [entry] r)) r (outbox_to_republish (r_handler r))"

definition bn_start :: "(outbox_entry \<Rightarrow> py_error option) \<Rightarrow> (bn_runner, unit) act" where
  "bn_start send = abind (on_handler (recover bank_name_joiner_ops)) (\<lambda>_. amodify (bn_republish_pending send))"

subsection \<open>What is sent\<close>

text \<open>What a receiver reads from the outputs: the destination and the fields of the addressed packet.\<close>

definition received :: "logical_output list \<Rightarrow> (pystr \<times> (int \<times> int \<times> int \<times> int \<times> bytes) res) list" where
  "received outs = map (\<lambda>out. case normalize_output out of (d, pkt, _) \<Rightarrow> (d, unpack_addressed_packet pkt)) outs"

lemma received_append [simp]: "received [] = []" "received (xs @ ys) = received xs @ received ys"
  by (simp_all add: received_def)

text \<open>The packets of a client numbered from \<open>n\<close>.\<close>

definition numbered_data :: "bank_name_joiner_config \<Rightarrow> int \<Rightarrow> nat \<Rightarrow> bytes list \<Rightarrow> (pystr \<times> (int \<times> int \<times> int \<times> int \<times> bytes) res) list" where
  "numbered_data cfg c n bs =
     map (\<lambda>(i, b). (bnc_output_queue cfg, Inr (message_type_value MT_DATA, c, bnc_id cfg, int i, b))) (enumerate n bs)"

lemma numbered_data_simps [simp]:
  "numbered_data cfg c n [] = []"
  "numbered_data cfg c n (b # bs) =
     (bnc_output_queue cfg, Inr (message_type_value MT_DATA, c, bnc_id cfg, int n, b)) # numbered_data cfg c (Suc n) bs"
  "numbered_data cfg c n (xs @ ys) = numbered_data cfg c n xs @ numbered_data cfg c (n + length xs) ys"
  by (simp_all add: numbered_data_def enumerate_append_eq)

definition addressable :: "bank_name_joiner_config \<Rightarrow> int \<Rightarrow> bool" where
  "addressable cfg c \<longleftrightarrow> 0 \<le> c \<and> c < 256 ^ 16 \<and> 0 \<le> bnc_id cfg \<and> bnc_id cfg < 256 ^ 4"

lemma bn_packet_sent:
  assumes "addressable cfg c" and "n < 256 ^ 4"
  shows "\<exists>pkt. bn_packet cfg t c (int n) p = Inr pkt \<and>
    received [Out2 (bnc_output_queue cfg) pkt] = [(bnc_output_queue cfg, Inr (message_type_value t, c, bnc_id cfg, int n, p))]"
proof -
  obtain cb where cb: "client_id_to_bytes c = Inr cb" using assms(1) by (simp add: client_id_to_bytes_def addressable_def)
  have "int n < 256 ^ 4" using assms(2) by simp
  then obtain pkt where pkt: "create_addressed_packet (message_type_value t) cb (bnc_id cfg) (int n) p = Inr pkt"
    using assms(1) by (cases t) (simp_all add: create_addressed_packet_def pack_uint_def addressable_def)
  with addressed_packet_roundtrip [OF pkt cb] cb show ?thesis by (simp add: bn_packet_def received_def)
qed

text \<open>The row for a bank and one of its names.\<close>

definition bank_row :: "q2_bank_max_partial \<Rightarrow> pystr \<Rightarrow> q2_bank_max_result" where
  "bank_row p name = \<lparr>q2r_bank_id = q2p_bank_id p, q2r_from_account = q2p_from_account p, q2r_bank_name = name, q2r_amount = q2p_amount p\<rparr>"

lemma name_outputs_sent:
  assumes "addressable cfg c" and "rmap serialize_q2_result (map (bank_row p) names) = Inr bs" and "n + length bs \<le> 256 ^ 4"
  shows "\<exists>outs. name_outputs cfg c p names (int n) = Inr (outs, int (n + length bs)) \<and> received outs = numbered_data cfg c n bs"
  using assms(2,3)
proof (induction names arbitrary: n bs)
  case (Cons name names)
  from Cons.prems(1) obtain b bs' where b: "serialize_q2_result (bank_row p name) = Inr b" "bs = b # bs'"
    "rmap serialize_q2_result (map (bank_row p) names) = Inr bs'" by auto
  have "n < 256 ^ 4" using Cons.prems(2) b(2) by simp
  from bn_packet_sent [OF assms(1) this, of MT_DATA b] obtain pkt where pkt: "bn_packet cfg MT_DATA c (int n) b = Inr pkt"
    "received [Out2 (bnc_output_queue cfg) pkt] = numbered_data cfg c n [b]" by auto
  obtain outs where "name_outputs cfg c p names (int (Suc n)) = Inr (outs, int (Suc n + length bs'))" "received outs = numbered_data cfg c (Suc n) bs'"
    using Cons.IH [OF b(3), of "Suc n"] Cons.prems(2) b(2) by auto
  with pkt b show ?case
    using received_append(2) [of "[Out2 (bnc_output_queue cfg) pkt]" outs]
    by (simp add: result_output_def bank_row_def algebra_simps)
qed simp

definition rows_between :: "(pystr \<times> pystr list) list \<Rightarrow> (pystr \<times> q2_bank_max_partial) list \<Rightarrow> q2_bank_max_result list" where
  "rows_between names maxima = concat (map (\<lambda>(bank_id, p). map (bank_row p) (dget names bank_id [])) maxima)"

lemma bank_outputs_sent:
  assumes "addressable cfg c" and "rmap serialize_q2_result (rows_between names maxima) = Inr bs" and "n + length bs \<le> 256 ^ 4"
  shows "\<exists>outs. bank_outputs cfg c names maxima (int n) = Inr (outs, int (n + length bs)) \<and> received outs = numbered_data cfg c n bs"
  using assms(2,3)
proof (induction maxima arbitrary: n bs)
  case (Cons x maxima)
  obtain bank_id p where x: "x = (bank_id, p)" by (cases x)
  from Cons.prems(1) obtain us vs where split: "rmap serialize_q2_result (map (bank_row p) (dget names bank_id [])) = Inr us"
    "rmap serialize_q2_result (rows_between names maxima) = Inr vs" "bs = us @ vs"
    by (auto simp: rows_between_def x rmap_append)
  obtain o1 where o1: "name_outputs cfg c p (dget names bank_id []) (int n) = Inr (o1, int (n + length us))"
    "received o1 = numbered_data cfg c n us"
    using name_outputs_sent [OF assms(1) split(1), of n] Cons.prems(2) split(3) by auto
  obtain o2 where "bank_outputs cfg c names maxima (int (n + length us)) = Inr (o2, int (n + length us + length vs))"
    "received o2 = numbered_data cfg c (n + length us) vs"
    using Cons.IH [OF split(2), of "n + length us"] Cons.prems(2) split(3) by auto
  with o1 split(3) show ?case by (simp add: x add.assoc)
qed (simp add: rows_between_def)

text \<open>The rows in order, then one EOF with their number.\<close>

definition join_sent :: "bank_name_joiner_config \<Rightarrow> int \<Rightarrow> q2_bank_max_result list \<Rightarrow> logical_output list \<Rightarrow> bool" where
  "join_sent cfg c rows outs \<longleftrightarrow>
     (\<exists>bs eof. rmap serialize_q2_result rows = Inr bs \<and>
        serialize_control \<lparr>cm_sender_id = bnc_id cfg, expected_total = int (length rows), processed_count = 0\<rparr> = Inr eof \<and>
        received outs = numbered_data cfg c 0 bs @
          [(bnc_output_queue cfg, Inr (message_type_value MT_EOF, c, bnc_id cfg, int (length rows), eof))])"

lemma build_outputs_sent:
  assumes "addressable cfg c" and "rmap serialize_q2_result (rows_between (cs_bank_names st) (cs_q2_results st)) = Inr bs"
    and "length bs < 256 ^ 4"
  shows "\<exists>outs. build_join_outputs cfg st c = Inr outs \<and> join_sent cfg c (rows_between (cs_bank_names st) (cs_q2_results st)) outs"
proof -
  let ?rows = "rows_between (cs_bank_names st) (cs_q2_results st)" and ?n = "length bs"
  have len: "length ?rows = ?n" using rmap_Inr_length [OF assms(2)] by simp
  obtain outs where outs: "bank_outputs cfg c (cs_bank_names st) (cs_q2_results st) 0 = Inr (outs, int ?n)"
    "received outs = numbered_data cfg c 0 bs"
    using bank_outputs_sent [OF assms(1,2), of 0] assms(3) by auto
  have "int ?n < 256 ^ 4" using assms(3) by simp
  then obtain eof where eof: "serialize_control \<lparr>cm_sender_id = bnc_id cfg, expected_total = int ?n, processed_count = 0\<rparr> = Inr eof"
    using assms(1) by (simp add: serialize_control_def pack_uint_def addressable_def)
  obtain pkt where "bn_packet cfg MT_EOF c (int ?n) eof = Inr pkt"
    "received [Out2 (bnc_output_queue cfg) pkt] = [(bnc_output_queue cfg, Inr (message_type_value MT_EOF, c, bnc_id cfg, int ?n, eof))]"
    using bn_packet_sent [OF assms(1,3), of MT_EOF eof] by blast
  with outs eof assms(2) len show ?thesis by (simp add: build_join_outputs_def join_sent_def)
qed

subsection \<open>The messages of a client\<close>

text \<open>A message of one of the streams, as a handler runs it when it is new: the business function, then the change.\<close>

datatype bn_input = Q2Data bytes | Q2Eof int | AccountsData bytes | AccountsEof int

fun input_change :: "int \<Rightarrow> bn_input \<Rightarrow> json res" where
  "input_change c (Q2Data p) = Inr (bn_q2_data_change c p)"
| "input_change c (Q2Eof n) = Inr (bn_q2_eof_change c n)"
| "input_change c (AccountsData p) = rbind (parse_accounts_batch p) (\<lambda>mappings. Inr (bn_accounts_data_change c mappings))"
| "input_change c (AccountsEof n) = Inr (bn_accounts_eof_change c n)"

definition bn_step :: "bank_name_joiner_config \<Rightarrow> int \<Rightarrow> bn_input \<Rightarrow> (bank_name_joiner, logical_output list) act" where
  "bn_step cfg c x =
     abind (alift (input_change c x)) (\<lambda>change.
     abind (bn_bfn cfg c (\<lambda>_. change) []) (\<lambda>(change, outs). abind (bn_apply_change change) (\<lambda>_. areturn outs)))"

fun bn_run :: "bank_name_joiner_config \<Rightarrow> int \<Rightarrow> bn_input list \<Rightarrow> (bank_name_joiner, logical_output list) act" where
  "bn_run cfg c [] = areturn []"
| "bn_run cfg c (x # xs) = abind (bn_step cfg c x) (\<lambda>outs. abind (bn_run cfg c xs) (\<lambda>rest. areturn (outs @ rest)))"

text \<open>What a message means to the state of its client.\<close>

datatype bn_item = Maximum q2_bank_max_partial | Q2Total int | Names "(pystr \<times> pystr) list" | AccountsTotal int

fun read_input :: "bn_input \<Rightarrow> bn_item res" where
  "read_input (Q2Data p) = rbind (normalised_partial p) (\<lambda>partial. Inr (Maximum partial))"
| "read_input (Q2Eof n) = Inr (Q2Total n)"
| "read_input (AccountsData p) = rbind (parse_accounts_batch p) (\<lambda>mappings. Inr (Names mappings))"
| "read_input (AccountsEof n) = Inr (AccountsTotal n)"

fun take_in :: "bn_item \<Rightarrow> client_state \<Rightarrow> client_state" where
  "take_in (Maximum p) st = add_q2_result p st"
| "take_in (Q2Total n) st = st\<lparr>cs_q2_expected_total := Some n\<rparr>"
| "take_in (Names ms) st = (fold add_bank_name ms st)\<lparr>cs_accounts_batch_count := cs_accounts_batch_count st + 1\<rparr>"
| "take_in (AccountsTotal n) st = st\<lparr>cs_accounts_expected_total := Some n\<rparr>"

lemma take_in_fun:
  "take_in (Maximum p) = add_q2_result p" "take_in (Q2Total n) = (\<lambda>st. st\<lparr>cs_q2_expected_total := Some n\<rparr>)"
  "take_in (Names ms) = (\<lambda>st. (fold add_bank_name ms st)\<lparr>cs_accounts_batch_count := cs_accounts_batch_count st + 1\<rparr>)"
  "take_in (AccountsTotal n) = (\<lambda>st. st\<lparr>cs_accounts_expected_total := Some n\<rparr>)"
  by (simp_all add: fun_eq_iff)

abbreviation of_client :: "int \<Rightarrow> bank_name_joiner \<Rightarrow> client_state" where
  "of_client c s \<equiv> dget (bn_states s) c new_client_state"

lemma as_mapping_pairs [simp]: "rmap as_mapping (map (\<lambda>(x, y). JList [JStr x, JStr y]) ms) = Inr ms"
  by (induction ms) (auto simp: as_mapping_def)

lemma bn_update_update: "bn_update c f (bn_update c g s) = bn_update c (\<lambda>st. f (g st)) s"
  by (simp add: bn_update_def)

lemma bn_update_state_for: "bn_update c f (bn_state_for c s) = bn_update c f s"
  by (simp add: bn_update_def bn_state_for_def dget_def split: option.split)

lemma add_names_loop:
  "afor (\<lambda>m. abind (alift (as_mapping m)) (\<lambda>mapping. amodify (bn_update c (add_bank_name mapping))))
     (map (\<lambda>(x, y). JList [JStr x, JStr y]) ms) (bn_update c f s) = (Inr (), bn_update c (\<lambda>st. fold add_bank_name ms (f st)) s)"
proof (induction ms arbitrary: f)
  case (Cons m ms)
  obtain x y where m: "m = (x, y)" by (cases m)
  show ?case using Cons.IH [of "\<lambda>st. add_bank_name m (f st)"]
    by (simp add: m as_mapping_def act_defs bn_update_update)
qed (simp add: areturn_def)

lemma bn_state_for_as_update: "bn_state_for c s = bn_update c (\<lambda>st. st) s"
  by (cases s) (simp add: bn_state_for_def bn_update_def dget_def dset_same split: option.split)

lemma add_bank_name_frame [simp]:
  "cs_accounts_batch_count (fold add_bank_name ms st) = cs_accounts_batch_count st"
  by (induction ms arbitrary: st) (auto simp: add_bank_name_def Let_def split: prod.splits)

lemmas bn_change_defs = bn_q2_data_change_def bn_q2_eof_change_def bn_accounts_data_change_def bn_accounts_eof_change_def
  bn_close_change_def bn_abort_change_def

lemma close_change_applied: "bn_apply_change (bn_close_change c) s = (Inr (), bn_apply_close c s)"
  by (simp add: bn_apply_change_def bn_change_defs jget_simps act_defs)

text \<open>The change of a message does to the state what the prospective state foresees.\<close>

lemma change_applied:
  assumes "input_change c x = Inr ch" and "read_input x = Inr it" and "c \<notin> bn_closed s"
  shows "bn_apply_change ch s = (Inr (), bn_update c (take_in it) s)" and "prospective_state c ch s = Inr (take_in it (of_client c s))"
proof -
  have current: "(case bn_client_state c s of None \<Rightarrow> new_client_state | Some st \<Rightarrow> st) = of_client c s"
    by (simp add: bn_client_state_def dget_def split: option.split)
  have "bn_apply_change ch s = (Inr (), bn_update c (take_in it) s) \<and> prospective_state c ch s = Inr (take_in it (of_client c s))"
  proof (cases x)
    case (Q2Data p)
    with assms show ?thesis
      by (auto simp: bn_apply_change_def bn_change_defs jget_simps act_defs bn_apply_q2_data_def b64_roundtrip
          bn_update_state_for prospective_state_def current take_in_fun)
  next
    case (Q2Eof n)
    with assms show ?thesis
      by (auto simp: bn_apply_change_def bn_change_defs jget_simps act_defs bn_apply_q2_eof_def bn_update_state_for
          prospective_state_def current take_in_fun)
  next
    case (AccountsData p)
    then obtain ms where ms: "ch = bn_accounts_data_change c ms" "it = Names ms" using assms(1,2) by auto
    have "bn_apply_change ch s = bn_apply_accounts_data c ch s"
      by (simp add: ms bn_apply_change_def bn_change_defs jget_simps act_defs)
    also have "\<dots> = (Inr (), bn_update c (take_in it) s)"
      using assms(3) add_names_loop [of c ms "\<lambda>st. st" s]
      by (simp add: ms bn_apply_accounts_data_def bn_change_defs jget_simps act_defs bn_state_for_as_update bn_update_update take_in_fun)
    finally show ?thesis by (simp add: ms bn_change_defs jget_simps prospective_state_def current Let_def)
  next
    case (AccountsEof n)
    with assms show ?thesis
      by (auto simp: bn_apply_change_def bn_change_defs jget_simps act_defs bn_apply_accounts_eof_def bn_update_state_for
          prospective_state_def current take_in_fun)
  qed
  then show "bn_apply_change ch s = (Inr (), bn_update c (take_in it) s)" "prospective_state c ch s = Inr (take_in it (of_client c s))"
    by simp_all
qed

lemma change_kind:
  assumes "input_change c x = Inr ch" and "read_input x = Inr it"
  shows "\<exists>kind. jget_str ch ''type'' = Inr kind \<and>
    (kind = lit ''q2_data'' \<or> kind = lit ''accounts_data'' \<longrightarrow> (\<exists>p. it = Maximum p) \<or> (\<exists>ms. it = Names ms))"
  using assms by (cases x) (auto simp: bn_change_defs jget_simps)

lemma add_names_totals [simp]:
  "cs_q2_expected_total (fold add_bank_name ms st) = cs_q2_expected_total st"
  "cs_accounts_expected_total (fold add_bank_name ms st) = cs_accounts_expected_total st"
  by (induction ms arbitrary: st) (auto simp: add_bank_name_def Let_def split: prod.splits)

text \<open>Skipping the look into a data message loses nothing: without both totals the client is not ready.\<close>

lemma skip_not_ready:
  assumes "(\<exists>p. it = Maximum p) \<or> (\<exists>ms. it = Names ms)"
    and "case bn_client_state c s of None \<Rightarrow> True | Some st \<Rightarrow> cs_q2_expected_total st = None \<or> cs_accounts_expected_total st = None"
  shows "\<not> cs_ready (take_in it (of_client c s))"
  using assms by (auto simp: bn_client_state_def dget_def new_client_state_def cs_ready_def add_q2_result_def split: option.splits)

lemma step_taken:
  assumes "read_input x = Inr it" and "c \<notin> bn_closed s"
  shows "\<not> cs_ready (take_in it (of_client c s)) \<Longrightarrow> bn_step cfg c x s = (Inr [], bn_update c (take_in it) s)"
    and "cs_ready (take_in it (of_client c s)) \<Longrightarrow> build_join_outputs cfg (take_in it (of_client c s)) c = Inr outs \<Longrightarrow>
      bn_step cfg c x s = (Inr outs, bn_apply_close c s)"
proof -
  obtain ch where ch: "input_change c x = Inr ch" using assms(1) by (cases x) auto
  note applied = change_applied [OF ch assms]
  obtain kind where kind: "jget_str ch ''type'' = Inr kind"
    "kind = lit ''q2_data'' \<or> kind = lit ''accounts_data'' \<longrightarrow> (\<exists>p. it = Maximum p) \<or> (\<exists>ms. it = Names ms)"
    using change_kind [OF ch assms(1)] by blast
  have outs: "change_outputs_for cfg c ch s =
      (if \<not> cs_ready (take_in it (of_client c s)) then Inr (ch, [])
       else rbind (build_join_outputs cfg (take_in it (of_client c s)) c) (\<lambda>outs. Inr (bn_close_change c, outs)))"
    using kind skip_not_ready [of it c s] applied(2) by (auto simp: change_outputs_for_def)
  show "bn_step cfg c x s = (Inr [], bn_update c (take_in it) s)" if "\<not> cs_ready (take_in it (of_client c s))"
    using that ch outs applied(1) by (simp add: bn_step_def bn_bfn_def act_defs)
  show "bn_step cfg c x s = (Inr outs, bn_apply_close c s)"
    if "cs_ready (take_in it (of_client c s))" "build_join_outputs cfg (take_in it (of_client c s)) c = Inr outs"
    using that ch outs close_change_applied by (simp add: bn_step_def bn_bfn_def act_defs)
qed

subsection \<open>The state after some messages\<close>

definition maxima_in :: "bn_item list \<Rightarrow> q2_bank_max_partial list" where
  "maxima_in its = concat (map (\<lambda>it. case it of Maximum p \<Rightarrow> [p] | _ \<Rightarrow> []) its)"

definition names_in :: "bn_item list \<Rightarrow> (pystr \<times> pystr) list list" where
  "names_in its = concat (map (\<lambda>it. case it of Names ms \<Rightarrow> [ms] | _ \<Rightarrow> []) its)"

definition q2_totals_in :: "bn_item list \<Rightarrow> int list" where
  "q2_totals_in its = concat (map (\<lambda>it. case it of Q2Total n \<Rightarrow> [n] | _ \<Rightarrow> []) its)"

definition accounts_totals_in :: "bn_item list \<Rightarrow> int list" where
  "accounts_totals_in its = concat (map (\<lambda>it. case it of AccountsTotal n \<Rightarrow> [n] | _ \<Rightarrow> []) its)"

lemmas in_defs = maxima_in_def names_in_def q2_totals_in_def accounts_totals_in_def

lemma in_append [simp]:
  "maxima_in (xs @ ys) = maxima_in xs @ maxima_in ys" "names_in (xs @ ys) = names_in xs @ names_in ys"
  "q2_totals_in (xs @ ys) = q2_totals_in xs @ q2_totals_in ys" "accounts_totals_in (xs @ ys) = accounts_totals_in xs @ accounts_totals_in ys"
  "maxima_in [] = []" "names_in [] = []" "q2_totals_in [] = []" "accounts_totals_in [] = []"
  by (simp_all add: in_defs)

lemma in_length: "length its = length (maxima_in its) + length (names_in its) + length (q2_totals_in its) + length (accounts_totals_in its)"
  by (induction its) (simp_all add: in_defs split: bn_item.split)

definition last_of :: "'a list \<Rightarrow> 'a option" where
  "last_of xs = (if xs = [] then None else Some (last xs))"

definition state_after :: "bn_item list \<Rightarrow> client_state" where
  "state_after its = fold take_in its new_client_state"

lemma state_after_snoc: "state_after (its @ [it]) = take_in it (state_after its)"
  by (simp add: state_after_def)

text \<open>The names that the accounts give a bank; \<open>first_seen\<close> keeps each where it was first met.\<close>

definition names_of :: "pystr \<Rightarrow> (pystr \<times> pystr) list \<Rightarrow> pystr list" where
  "names_of bank_id ms = map snd (filter (\<lambda>m. fst m = bank_id) ms)"

lemma names_added:
  assumes "\<forall>b. dget (cs_bank_names st) b [] = first_seen (names_of b ms0)"
  shows "dget (cs_bank_names (fold add_bank_name ms st)) b [] = first_seen (names_of b (ms0 @ ms))"
proof (induction ms arbitrary: b rule: rev_induct)
  case Nil
  with assms show ?case by simp
next
  case (snoc m ms)
  obtain x y where m: "m = (x, y)" by (cases m)
  have IH: "dget (cs_bank_names (fold add_bank_name ms st)) b [] = first_seen (names_of b (ms0 @ ms))" for b by (rule snoc)
  have "names_of b (ms0 @ ms @ [m]) = names_of b (ms0 @ ms) @ (if x = b then [y] else [])" by (simp add: names_of_def m)
  moreover have "cs_bank_names (add_bank_name m s) =
      dset x (if y \<in> set (dget (cs_bank_names s) x []) then dget (cs_bank_names s) x [] else dget (cs_bank_names s) x [] @ [y]) (cs_bank_names s)" for s
    by (simp add: m add_bank_name_def Let_def)
  ultimately show ?case by (simp add: IH)
qed

lemma add_names_results [simp]:
  "cs_q2_results (fold add_bank_name ms st) = cs_q2_results st" "cs_q2_data_count (fold add_bank_name ms st) = cs_q2_data_count st"
  by (induction ms arbitrary: st) (auto simp: add_bank_name_def Let_def split: prod.splits)

lemma state_after_is:
  "cs_q2_results (state_after its) = py_dict (map (\<lambda>p. (q2p_bank_id p, p)) (maxima_in its)) \<and>
   cs_q2_data_count (state_after its) = int (length (maxima_in its)) \<and>
   cs_accounts_batch_count (state_after its) = int (length (names_in its)) \<and>
   cs_q2_expected_total (state_after its) = last_of (q2_totals_in its) \<and>
   cs_accounts_expected_total (state_after its) = last_of (accounts_totals_in its) \<and>
   (\<forall>b. dget (cs_bank_names (state_after its)) b [] = first_seen (names_of b (concat (names_in its))))"
proof (induction its rule: rev_induct)
  case Nil
  show ?case by (simp add: state_after_def new_client_state_def py_dict_def last_of_def names_of_def)
next
  case (snoc it its)
  show ?case
  proof (cases it)
    case (Names ms)
    have "\<forall>b. dget (cs_bank_names (state_after its)) b [] = first_seen (names_of b (concat (names_in its)))" using snoc by blast
    from names_added [OF this, of ms] snoc show ?thesis by (simp add: Names state_after_snoc in_defs)
  qed (use snoc in \<open>auto simp: state_after_snoc in_defs add_q2_result_def py_dict_def last_of_def\<close>)
qed

lemma ready_after:
  "cs_ready (state_after its) \<longleftrightarrow> (\<exists>n m. last_of (q2_totals_in its) = Some n \<and> last_of (accounts_totals_in its) = Some m \<and>
     n \<le> int (length (maxima_in its)) \<and> m \<le> int (length (names_in its)))"
  using state_after_is [of its] by (auto simp: cs_ready_def split: option.splits)

text \<open>Streams that announce their own lengths: no proper part of them is ready.\<close>

definition complete :: "bn_item list \<Rightarrow> bool" where
  "complete its \<longleftrightarrow> q2_totals_in its = [int (length (maxima_in its))] \<and> accounts_totals_in its = [int (length (names_in its))]"

lemma ready_only_complete:
  assumes "complete (xs @ ys)" and "cs_ready (state_after xs)"
  shows "ys = []"
proof -
  from assms(2) have "q2_totals_in xs \<noteq> []" "accounts_totals_in xs \<noteq> []" by (auto simp: ready_after last_of_def split: if_splits)
  with assms(1) have totals: "q2_totals_in xs = [int (length (maxima_in (xs @ ys)))]" "q2_totals_in ys = []"
    "accounts_totals_in xs = [int (length (names_in (xs @ ys)))]" "accounts_totals_in ys = []"
    by (auto simp: complete_def append_eq_Cons_conv)
  with assms(2) have "length (maxima_in ys) = 0" "length (names_in ys) = 0" by (auto simp: ready_after last_of_def)
  with totals in_length [of ys] show ?thesis by simp
qed

lemma complete_ready: "complete its \<Longrightarrow> cs_ready (state_after its)"
  by (simp add: ready_after complete_def last_of_def)

subsection \<open>A client from its first message to the join\<close>

lemma of_client_update: "of_client c (bn_update c f s) = f (of_client c s)" "bn_closed (bn_update c f s) = bn_closed s"
  by (simp_all add: bn_update_def)

lemma run_silent:
  assumes "rmap read_input xs = Inr its" and "c \<notin> bn_closed s" and "of_client c s = state_after its0"
    and "\<And>pre suf. pre @ suf = its \<Longrightarrow> \<not> cs_ready (state_after (its0 @ pre))"
  shows "\<exists>s1. bn_run cfg c xs s = (Inr [], s1) \<and> c \<notin> bn_closed s1 \<and> of_client c s1 = state_after (its0 @ its)"
  using assms
proof (induction xs arbitrary: its its0 s)
  case Nil
  then show ?case by (simp add: areturn_def)
next
  case (Cons x xs)
  from Cons.prems(1) obtain it its' where it: "read_input x = Inr it" "rmap read_input xs = Inr its'" "its = it # its'" by auto
  have after: "take_in it (of_client c s) = state_after (its0 @ [it])" by (simp add: Cons.prems(3) state_after_snoc)
  have "\<not> cs_ready (take_in it (of_client c s))" using Cons.prems(4) [of "[it]" its'] it(3) after by simp
  from step_taken(1) [OF it(1) Cons.prems(2) this] have step: "bn_step cfg c x s = (Inr [], bn_update c (take_in it) s)" .
  have "\<exists>s1. bn_run cfg c xs (bn_update c (take_in it) s) = (Inr [], s1) \<and> c \<notin> bn_closed s1 \<and>
      of_client c s1 = state_after ((its0 @ [it]) @ its')"
  proof (rule Cons.IH [OF it(2)])
    show "\<not> cs_ready (state_after ((its0 @ [it]) @ pre))" if "pre @ suf = its'" for pre suf
      using Cons.prems(4) [of "it # pre" suf] that it(3) by simp
  qed (use Cons.prems(2) after of_client_update in simp_all)
  with step it(3) show ?case by (auto simp: abind_def areturn_def)
qed

lemma late_message:
  assumes "c \<in> bn_closed s" and "bn_client_state c s = None" and "input_change c x = Inr ch"
  shows "bn_step cfg c x s = (Inr [], s)"
  using assms
  by (cases x) (auto simp: bn_step_def bn_bfn_def change_outputs_for_def bn_change_defs jget_simps act_defs prospective_state_def
      cs_ready_def new_client_state_def bn_apply_change_def bn_apply_q2_data_def bn_apply_q2_eof_def bn_apply_accounts_data_def
      bn_apply_accounts_eof_def Let_def)

text \<open>The join: for every bank, in the order in which they came, its last maximum with every name the accounts give the bank.\<close>

definition joined_rows :: "q2_bank_max_partial list \<Rightarrow> (pystr \<times> pystr) list \<Rightarrow> q2_bank_max_result list" where
  "joined_rows ps ms =
     concat (map (\<lambda>(bank_id, p). map (bank_row p) (first_seen (names_of bank_id ms))) (py_dict (map (\<lambda>p. (q2p_bank_id p, p)) ps)))"

lemma rows_after:
  "rows_between (cs_bank_names (state_after its)) (cs_q2_results (state_after its)) = joined_rows (maxima_in its) (concat (names_in its))"
  using state_after_is [of its] by (simp add: rows_between_def joined_rows_def)

text \<open>
  C12: the bank names are joined exactly at the last message. The maxima, the account batches and the two EOFs of a client come
  in any order, also an EOF before the data it counts, and each EOF announces how many messages its stream has. Then
  nothing is sent before the last of them; with the last one every bank's maximum is sent once per name of the bank, numbered from
  0, followed by one EOF with their number; the client is closed and forgotten, and later messages of it change nothing.
\<close>

theorem bank_names_joined:
  assumes "addressable cfg c" and "bn_client_state c s = None" and "\<not> bn_is_closed c s"
    and "rmap read_input (xs @ [x]) = Inr its" and "complete its"
    and "rows = joined_rows (maxima_in its) (concat (names_in its))"
    and "\<forall>row \<in> set rows. \<exists>b. serialize_q2_result row = Inr b" and "length rows < 256 ^ 4"
  shows "\<exists>outs s1 s2. bn_run cfg c xs s = (Inr [], s1) \<and> bn_step cfg c x s1 = (Inr outs, s2) \<and> join_sent cfg c rows outs \<and>
    bn_is_closed c s2 \<and> bn_client_state c s2 = None \<and>
    (\<forall>y ch. input_change c y = Inr ch \<longrightarrow> bn_step cfg c y s2 = (Inr [], s2))"
proof -
  obtain pre it where its: "rmap read_input xs = Inr pre" "read_input x = Inr it" "its = pre @ [it]"
    using assms(4) by (auto simp: rmap_append)
  have new: "c \<notin> bn_closed s" "of_client c s = state_after []"
    using assms(2,3) by (simp_all add: bn_is_closed_def bn_client_state_def dget_def state_after_def)
  have "\<exists>s1. bn_run cfg c xs s = (Inr [], s1) \<and> c \<notin> bn_closed s1 \<and> of_client c s1 = state_after ([] @ pre)"
  proof (rule run_silent [OF its(1) new])
    show "\<not> cs_ready (state_after ([] @ p))" if "p @ q = pre" for p q
      using ready_only_complete [of p "q @ [it]"] assms(5) its(3) that by auto
  qed
  then obtain s1 where s1: "bn_run cfg c xs s = (Inr [], s1)" "c \<notin> bn_closed s1" "of_client c s1 = state_after pre" by auto
  have after: "take_in it (of_client c s1) = state_after its" by (simp add: s1(3) its(3) state_after_snoc)
  have ready: "cs_ready (take_in it (of_client c s1))" unfolding after by (rule complete_ready [OF assms(5)])
  obtain bs where bs: "rmap serialize_q2_result rows = Inr bs" using rmap_total [of rows serialize_q2_result] assms(7) by blast
  have rows: "rows_between (cs_bank_names (state_after its)) (cs_q2_results (state_after its)) = rows" by (simp add: rows_after assms(6))
  obtain outs where outs: "build_join_outputs cfg (state_after its) c = Inr outs" "join_sent cfg c rows outs"
    using build_outputs_sent [OF assms(1), of "state_after its" bs] bs rows rmap_Inr_length [OF bs] assms(8) by auto
  have "bn_step cfg c x s1 = (Inr outs, bn_apply_close c s1)"
    by (rule step_taken(2) [OF its(2) s1(2) ready]) (simp add: after outs(1))
  moreover have closed: "c \<in> bn_closed (bn_apply_close c s1)" "bn_client_state c (bn_apply_close c s1) = None"
    by (simp_all add: bn_apply_close_def bn_client_state_def)
  ultimately show ?thesis
    using s1(1) outs(2) late_message [OF closed]
    by (intro exI [of _ outs] exI [of _ s1] exI [of _ "bn_apply_close c s1"]) (simp add: bn_is_closed_def)
qed

text \<open>A step is what the engine does with a new message: the state it leaves is that of the step.\<close>

lemma handled_as_step:
  assumes "handle bank_name_joiner_ops m c sd q p (bn_bfn cfg c ch) k h = (Inr (PublishThenCommit es z), h1)"
    and "classify (h_inbox h) c sd q k = NEW" and "input_change c x = Inr (ch p)"
  shows "\<exists>outs. bn_step cfg c x (h_worker h) = (Inr outs, h_worker h1)"
proof -
  from assms(1,2) have "apply_new bank_name_joiner_ops m c sd q p (bn_bfn cfg c ch) k h = (Inr (), h1)"
    by (auto simp: handle_classified split: prod.splits sum.splits)
  then show ?thesis
  proof (rule apply_newE)
    fix change outs s' es' pos w' sq' s''
    assume "bn_bfn cfg c ch p (h_worker h) = (Inr (change, outs), s')" "apply_change bank_name_joiner_ops change s' = (Inr (), s'')"
      "h1 = h\<lparr>h_wal := w', h_sequencer := sq', h_worker := s'', h_inbox := mark_applied c sd q k (h_inbox h),
         h_outbox := outbox_add c m es' (h_outbox h), applied_since_snapshot := applied_since_snapshot h + 1\<rparr>"
    with assms(3) show ?thesis by (auto simp: bn_step_def bn_bfn_def bank_name_joiner_ops_def act_defs)
  qed
qed

subsection \<open>Account lines\<close>

text \<open>A row of the accounts file gives its bank, normalised, and the bank's name without surrounding space.\<close>

lemma account_line:
  assumes "row_line row line" and "i < length row" and "j < length row" and "notebook_bank_id (row ! i) = Inr bank" and "bank \<noteq> []"
  shows "account_mapping i j line = Inr [(bank, py_strip (row ! j))]"
proof -
  obtain cells raw where c: "list_all2 csv_cell row cells" "utf8_encode (py_join [44] cells) = Inr raw" "raw \<noteq> []" "last raw \<noteq> 13"
    "line = raw \<or> line = raw @ [13]" using assms(1) by (auto simp: row_line_def)
  have "py_join [44] cells \<noteq> []" using c(2,3) by (auto simp: utf8_encode_def)
  then have "parse_csv_line raw = Inr row" using c(1,2) by (intro parse_csv_cells)
  moreover have "(if line \<noteq> [] \<and> last line = 13 then butlast line else line) = raw" using c(3-5) by auto
  ultimately show ?thesis using c(3) assms(2-5) by (simp add: account_mapping_def Let_def)
qed

definition demo_accounts :: line_batch where
  "demo_accounts = \<lparr>lb_file_type = 2, lb_rel_path = lit ''a.csv'', lb_batch_id = 0, lb_first_line_number = 2,
     lb_header = [lit ''Bank Name'', lit ''Bank ID''], lb_lines = [map byte_of (lit ''B, 012'')]\<rparr>"

lemma demo_accounts_parsed: "\<exists>data. serialize_line_batch demo_accounts = Inr data \<and> parse_accounts_batch data = Inr [(lit ''12'', lit ''B'')]"
proof -
  have "case serialize_line_batch demo_accounts of Inl _ \<Rightarrow> False | Inr _ \<Rightarrow> True"
    by (simp add: serialize_line_batch_def demo_accounts_def encode_sized_def utf8_encode_ascii ascii_def lit_def U8_def U32_def U64_def to_bytes_def
        serialize_string_items_def serialize_byte_items_def sized_item_def validate_uint_def del: be_bytes.simps)
  then obtain data where data: "serialize_line_batch demo_accounts = Inr data" by (auto split: sum.splits)
  let ?row = "[lit ''B'', lit '' 012'']" and ?line = "map byte_of (lit ''B, 012'')"
  have line: "row_line ?row ?line"
    unfolding row_line_def
  proof (intro exI conjI)
    show "list_all2 csv_cell ?row ?row" by (simp add: csv_cell_def csv_plain_def csv_field_limit_def lit_def)
    show "utf8_encode (py_join [44] ?row) = Inr ?line" by (simp add: utf8_encode_ascii ascii_def lit_def)
    show "?line = ?line \<or> ?line = ?line @ [13]" by simp
  qed (simp_all add: byte_of_def lit_def)
  have "py_strip (lit '' 012'') = lit ''012''" by (simp add: py_strip_def lit_def is_space_def)
  moreover have "py_isdigit (lit ''012'')" by (simp add: py_isdigit_def lit_def to_ascii_decimal_def is_digit_def)
  moreover have "py_int (lit ''012'') = Inr 12"
    by (simp add: py_int_def py_strip_def lit_def is_space_def to_ascii_decimal_def parse_nat_def is_digit_def)
  moreover have "int_str 12 = lit ''12''" by (simp add: lit_def int_str_def nat_str.simps)
  ultimately have bank: "notebook_bank_id (lit '' 012'') = Inr (lit ''12'')" by (simp add: notebook_bank_id_def lit_def)
  have "account_mapping 1 0 ?line = Inr [(lit ''12'', py_strip (lit ''B''))]"
    using account_line [OF line, of 1 0 "lit ''12''"] bank by (simp add: lit_def)
  moreover have "py_strip (lit ''B'') = lit ''B''" by (simp add: py_strip_def lit_def is_space_def)
  moreover have "column_index (lb_header demo_accounts) (lit ''Bank ID'') = Inr 1" "column_index (lb_header demo_accounts) (lit ''Bank Name'') = Inr 0"
    by (simp_all add: column_index_def demo_accounts_def upt_rec)
  ultimately have "parse_accounts_batch data = Inr [(lit ''12'', lit ''B'')]"
    using line_batch_roundtrip [OF data] by (simp add: parse_accounts_batch_def demo_accounts_def FILE_TYPE_ACCOUNTS_def)
  with data show ?thesis by blast
qed

lemma demo_partial_read: "\<exists>b. serialize_q2_partial (demo_partial 0 1) = Inr b \<and> normalised_partial b = Inr (demo_partial 0 1)"
proof -
  have "lit ''12'' = int_str 12" by (simp add: lit_def int_str_def nat_str.simps)
  then have canonical: "notebook_bank_id (lit ''12'') = Inr (lit ''12'')" by simp
  obtain b where b: "serialize_q2_partial (demo_partial 0 1) = Inr b" using demo_partial_serialized [of 1 0] by auto
  then have "deserialize_q2_partial b = Inr (demo_partial 0 1)"
    by (rule q2_partial_codec.dec_enc) (simp add: q2_partial_ok_def demo_partial_def no_trailing_nul_def lit_def)
  with b canonical show ?thesis by (simp add: normalised_partial_def demo_partial_def)
qed

definition demo_name_joiner :: bank_name_joiner_config where
  "demo_name_joiner = \<lparr>bnc_id = 1, bnc_output_queue = [103]\<rparr>"

theorem bank_names_joined_witness:
  "\<exists>maximum accounts outs s1 s2.
     bn_run demo_name_joiner 7 [AccountsEof 1, Q2Data maximum, AccountsData accounts] new_bank_name_joiner = (Inr [], s1) \<and>
     bn_step demo_name_joiner 7 (Q2Eof 1) s1 = (Inr outs, s2) \<and>
     join_sent demo_name_joiner 7 [\<lparr>q2r_bank_id = lit ''12'', q2r_from_account = lit ''A'', q2r_bank_name = lit ''B'', q2r_amount = 0\<rparr>] outs \<and>
     bn_is_closed 7 s2"
proof -
  obtain b where b: "normalised_partial b = Inr (demo_partial 0 1)" using demo_partial_read by blast
  obtain d where d: "parse_accounts_batch d = Inr [(lit ''12'', lit ''B'')]" using demo_accounts_parsed by blast
  let ?its = "[AccountsTotal 1, Maximum (demo_partial 0 1), Names [(lit ''12'', lit ''B'')], Q2Total 1]"
  let ?row = "\<lparr>q2r_bank_id = lit ''12'', q2r_from_account = lit ''A'', q2r_bank_name = lit ''B'', q2r_amount = 0\<rparr>"
  have rows: "[?row] = joined_rows (maxima_in ?its) (concat (names_in ?its))"
    by (simp add: joined_rows_def in_defs py_dict_def names_of_def first_seen_def bank_row_def demo_partial_def)
  have "\<exists>b. serialize_q2_result ?row = Inr b"
    by (simp add: serialize_q2_result_def encode_fixed_ascii ascii_def lit_def field_sizes BANK_NAME_SIZE_def)
  then have ser: "\<forall>row \<in> set [?row]. \<exists>b. serialize_q2_result row = Inr b" by simp
  have read: "rmap read_input ([AccountsEof 1, Q2Data b, AccountsData d] @ [Q2Eof 1]) = Inr ?its" using b d by simp
  have new: "addressable demo_name_joiner 7" "bn_client_state 7 new_bank_name_joiner = None" "\<not> bn_is_closed 7 new_bank_name_joiner" "complete ?its"
    by (simp_all add: addressable_def demo_name_joiner_def bn_client_state_def bn_is_closed_def new_bank_name_joiner_def complete_def in_defs)
  have "length [?row] < 256 ^ 4" by simp
  from bank_names_joined [OF new(1-3) read new(4) rows ser this] show ?thesis by blast
qed

end
