(* ===== verification/FileSplitterState.thy ===== *)
theory FileSplitterState
  imports FanIn LineBatches
begin

text \<open>
  \<open>workers/file_splitter/file_splitter_state.py\<close>: the files of every client on their way from byte chunks to batches
  of lines. The first line of a file is its header; the others are collected until the packet would be too large.
  The outputs of a change are computed on a copy (\<open>simulate\<close>), and the same code on the state itself (\<open>apply_change\<close>).
\<close>

subsection \<open>State\<close>

record file_state =
  fl_splitter :: line_splitter
  fl_file_type :: "int option"
  fl_header :: "pystr list option"
  fl_batch_lines :: "bytes list"
  fl_batch_first_line_number :: int
  fl_batch_payload_bytes :: int
  fl_batch_id :: int
  fl_lines_seen :: int
  fl_data_lines_emitted :: int
  fl_batches_emitted :: int
  fl_chunks_received :: int
  fl_bytes_received :: int

type_synonym file_key = "int \<times> pystr"

record splitter_settings =
  sl_max_line_bytes :: int
  sl_max_batch_bytes :: int
  sl_splitter_id :: int
  sl_accounts_enabled :: bool

record file_splitter =
  sf_files :: "(file_key \<times> file_state) list"
  sf_accounts_batches :: "(int \<times> int) list"
  sf_chunks_received :: int
  sf_eofs_received :: int

definition new_file_splitter :: file_splitter where
  "new_file_splitter = \<lparr>sf_files = [], sf_accounts_batches = [], sf_chunks_received = 0, sf_eofs_received = 0\<rparr>"

definition new_file_state :: "splitter_settings \<Rightarrow> file_state res" where
  "new_file_state st =
     rbind (new_splitter (sl_max_line_bytes st)) (\<lambda>sp.
     Inr \<lparr>fl_splitter = sp, fl_file_type = None, fl_header = None, fl_batch_lines = [], fl_batch_first_line_number = 0,
          fl_batch_payload_bytes = 0, fl_batch_id = 0, fl_lines_seen = 0, fl_data_lines_emitted = 0, fl_batches_emitted = 0,
          fl_chunks_received = 0, fl_bytes_received = 0\<rparr>)"

definition LINE_BATCH_EDGE :: pystr where "LINE_BATCH_EDGE = lit ''line_batch''"
definition ACCOUNTS_EDGE :: pystr where "ACCOUNTS_EDGE = lit ''accounts''"

definition PACKET_FIXED :: int where "PACKET_FIXED = int (PACKET_HEADER_SIZE + LB_FIXED_HEADER_SIZE)"
definition ADDRESSED_PACKET_FIXED :: int where "ADDRESSED_PACKET_FIXED = int (ADDRESSED_HEADER_SIZE + LB_FIXED_HEADER_SIZE)"

type_synonym emitted_output = "pystr \<times> message_type \<times> bytes"

subsection \<open>Changes\<close>

definition sf_chunk_change :: "int \<Rightarrow> pystr \<Rightarrow> int \<Rightarrow> int \<Rightarrow> bytes \<Rightarrow> json" where
  "sf_chunk_change client_id rel_path file_type offset payload =
     JObj [(lit ''type'', JStr (lit ''chunk'')), (lit ''client_id'', JInt client_id), (lit ''rel_path'', JStr rel_path),
           (lit ''file_type'', JInt file_type), (lit ''offset'', JInt offset), (lit ''payload_b64'', JStr (b64encode payload))]"

definition sf_file_eof_change :: "int \<Rightarrow> pystr \<Rightarrow> json" where
  "sf_file_eof_change client_id rel_path =
     JObj [(lit ''type'', JStr (lit ''file_eof'')), (lit ''client_id'', JInt client_id), (lit ''rel_path'', JStr rel_path)]"

definition sf_client_eof_change :: "int \<Rightarrow> json" where
  "sf_client_eof_change client_id = JObj [(lit ''type'', JStr (lit ''client_eof'')), (lit ''client_id'', JInt client_id)]"

definition sf_abort_change :: "int \<Rightarrow> json" where
  "sf_abort_change client_id = JObj [(lit ''type'', JStr (lit ''abort'')), (lit ''client_id'', JInt client_id)]"

definition sf_file_keys_for_client :: "int \<Rightarrow> file_splitter \<Rightarrow> file_key list" where
  "sf_file_keys_for_client client_id s = filter (\<lambda>k. fst k = client_id) (map fst (sf_files s))"

definition sf_data_lines_emitted :: "file_key \<Rightarrow> file_splitter \<Rightarrow> int" where
  "sf_data_lines_emitted k s = (case map_of (sf_files s) k of None \<Rightarrow> 0 | Some f \<Rightarrow> fl_data_lines_emitted f)"

definition sf_accounts_batches_for_client :: "int \<Rightarrow> file_splitter \<Rightarrow> int" where
  "sf_accounts_batches_for_client client_id s = dget (sf_accounts_batches s) client_id 0"

definition sf_expected_offset :: "file_key \<Rightarrow> file_splitter \<Rightarrow> int" where
  "sf_expected_offset k s = (case map_of (sf_files s) k of None \<Rightarrow> 0 | Some f \<Rightarrow> expected_offset (fl_splitter f))"

definition sf_next_ordinal :: "file_key \<Rightarrow> file_splitter \<Rightarrow> int" where
  "sf_next_ordinal k s = (case map_of (sf_files s) k of None \<Rightarrow> 0 | Some f \<Rightarrow> fl_chunks_received f)"

subsection \<open>The common code\<close>

text \<open>
  What the \<open>_run\<close> helpers work on: a file state, the counts of account batches, and the list of outputs when they are
  collected.
\<close>

record splitting =
  sg_file :: file_state
  sg_counts :: "(int \<times> int) list"
  sg_out :: "emitted_output list option"

definition on_file :: "(file_state \<Rightarrow> file_state) \<Rightarrow> (splitting, unit) act" where
  "on_file f = amodify (sg_file_update f)"

definition emit_output :: "pystr \<Rightarrow> message_type \<Rightarrow> bytes res \<Rightarrow> (splitting, unit) act" where
  "emit_output edge t payload w =
     (case sg_out w of
        None \<Rightarrow> (Inr (), w)
      | Some out \<Rightarrow> (case payload of Inl e \<Rightarrow> (Inl e, w) | Inr b \<Rightarrow> (Inr (), w\<lparr>sg_out := Some (out @ [(edge, t, b)])\<rparr>)))"

definition is_accounts :: "file_state \<Rightarrow> bool" where
  "is_accounts f \<longleftrightarrow> fl_file_type f = Some FILE_TYPE_ACCOUNTS"

definition batch_payload :: "file_key \<Rightarrow> file_state \<Rightarrow> bytes res" where
  "batch_payload k f =
     (case (fl_file_type f, fl_header f) of
        (Some file_type, Some header) \<Rightarrow>
          serialize_line_batch \<lparr>lb_file_type = file_type, lb_rel_path = snd k, lb_batch_id = fl_batch_id f,
            lb_first_line_number = fl_batch_first_line_number f, lb_header = header, lb_lines = fl_batch_lines f\<rparr>
      | _ \<Rightarrow> Inl TypeError)"

definition packet_size :: "file_key \<Rightarrow> file_state \<Rightarrow> int \<Rightarrow> int res" where
  "packet_size k f extra =
     rbind (utf8_encode (snd k)) (\<lambda>path.
     rbind (rmap utf8_encode (case fl_header f of None \<Rightarrow> [] | Some header \<Rightarrow> header)) (\<lambda>cols.
     Inr ((if is_accounts f then ADDRESSED_PACKET_FIXED else PACKET_FIXED) + int (length path) +
          sum_list (map (\<lambda>col. 4 + int (length col)) cols) + fl_batch_payload_bytes f + extra)))"

definition run_flush :: "file_key \<Rightarrow> (splitting, unit) act" where
  "run_flush k =
     abind (aget sg_file) (\<lambda>f.
     if fl_batch_lines f = [] then areturn ()
     else
       abind (emit_output (if is_accounts f then ACCOUNTS_EDGE else LINE_BATCH_EDGE) MT_DATA (batch_payload k f)) (\<lambda>_.
       abind (if is_accounts f then amodify (\<lambda>w. w\<lparr>sg_counts := dset (fst k) (dget (sg_counts w) (fst k) 0 + 1) (sg_counts w)\<rparr>)
              else areturn ()) (\<lambda>_.
       on_file (\<lambda>f. f\<lparr>fl_data_lines_emitted := fl_data_lines_emitted f + int (length (fl_batch_lines f)),
         fl_batches_emitted := fl_batches_emitted f + 1, fl_batch_id := fl_batch_id f + 1, fl_batch_lines := [],
         fl_batch_first_line_number := 0, fl_batch_payload_bytes := 0\<rparr>))))"

definition run_accumulate :: "splitter_settings \<Rightarrow> file_key \<Rightarrow> bytes \<Rightarrow> (splitting, unit) act" where
  "run_accumulate st k line =
     (let line_size = 4 + int (length line) in
      abind (aget sg_file) (\<lambda>f.
      abind (if fl_batch_lines f = [] then areturn ()
             else
               abind (alift (packet_size k f line_size)) (\<lambda>n.
               if n > sl_max_batch_bytes st then run_flush k else areturn ())) (\<lambda>_.
      on_file (\<lambda>f.
        (let f1 = (if fl_batch_lines f = []
                   then f\<lparr>fl_batch_first_line_number := fl_lines_seen f, fl_batch_payload_bytes := 0\<rparr> else f) in
         f1\<lparr>fl_batch_lines := fl_batch_lines f1 @ [line], fl_batch_payload_bytes := fl_batch_payload_bytes f1 + line_size\<rparr>)))))"

definition run_line :: "splitter_settings \<Rightarrow> file_key \<Rightarrow> bytes \<Rightarrow> (splitting, unit) act" where
  "run_line st k line =
     abind (on_file (\<lambda>f. f\<lparr>fl_lines_seen := fl_lines_seen f + 1\<rparr>)) (\<lambda>_.
     abind (aget sg_file) (\<lambda>f.
     if is_accounts f \<and> \<not> sl_accounts_enabled st then areturn ()
     else if fl_header f = None then
       (let clean = (if line \<noteq> [] \<and> last line = 13 then butlast line else line) in
        abind (alift (parse_csv_line clean)) (\<lambda>header. on_file (\<lambda>f. f\<lparr>fl_header := Some header\<rparr>)))
     else run_accumulate st k line))"

definition on_splitter :: "(line_splitter, 'a) act \<Rightarrow> (splitting, 'a) act" where
  "on_splitter m w = (case m (fl_splitter (sg_file w)) of (r, sp) \<Rightarrow> (r, w\<lparr>sg_file := (sg_file w)\<lparr>fl_splitter := sp\<rparr>\<rparr>))"

definition run_chunk :: "splitter_settings \<Rightarrow> file_key \<Rightarrow> json \<Rightarrow> (splitting, unit) act" where
  "run_chunk st k change =
     abind (aget sg_file) (\<lambda>f.
     abind (if fl_file_type f = None
            then abind (alift (jget_int change ''file_type'')) (\<lambda>n. on_file (\<lambda>f. f\<lparr>fl_file_type := Some n\<rparr>))
            else areturn ()) (\<lambda>_.
     abind (alift (rbind (jget_str change ''payload_b64'') b64decode)) (\<lambda>payload.
     abind (alift (jget_int change ''offset'')) (\<lambda>offset.
     abind (on_splitter (push offset payload)) (\<lambda>lines.
     abind (afor (run_line st k) lines) (\<lambda>_.
     on_file (\<lambda>f. f\<lparr>fl_bytes_received := fl_bytes_received f + int (length payload),
       fl_chunks_received := fl_chunks_received f + 1\<rparr>)))))))"

definition sf_eof_payload :: "splitter_settings \<Rightarrow> int \<Rightarrow> bytes res" where
  "sf_eof_payload st expected =
     serialize_control \<lparr>cm_sender_id = sl_splitter_id st, expected_total = expected, processed_count = 0\<rparr>"

definition run_finish :: "splitter_settings \<Rightarrow> file_key \<Rightarrow> (splitting, unit) act" where
  "run_finish st k =
     abind (on_splitter finish) (\<lambda>lines.
     abind (afor (run_line st k) lines) (\<lambda>_.
     abind (run_flush k) (\<lambda>_.
     abind (aget (\<lambda>w. (sg_file w, sg_counts w))) (\<lambda>(f, counts).
     (let counted = (is_accounts f \<and> sl_accounts_enabled st) in
      abind (if fl_file_type f = Some FILE_TYPE_TRANSACTIONS
             then emit_output LINE_BATCH_EDGE MT_EOF (sf_eof_payload st (fl_data_lines_emitted f))
             else if counted then emit_output ACCOUNTS_EDGE MT_EOF (sf_eof_payload st (dget counts (fst k) 0))
             else areturn ()) (\<lambda>_.
      if counted then amodify (sg_counts_update (dpop (fst k))) else areturn ()))))))"

subsection \<open>Simulating and applying a change\<close>

definition change_key :: "json \<Rightarrow> file_key res" where
  "change_key change =
     rbind (jget_int change ''client_id'') (\<lambda>client_id. rbind (jget_str change ''rel_path'') (\<lambda>rel_path. Inr (client_id, rel_path)))"

text \<open>A helper run on a copy of the state.\<close>

definition collected :: "(splitting, unit) act \<Rightarrow> file_state \<Rightarrow> (int \<times> int) list \<Rightarrow> emitted_output list \<Rightarrow>
    ((int \<times> int) list \<times> emitted_output list) res" where
  "collected m f counts out =
     (case m \<lparr>sg_file = f, sg_counts = counts, sg_out = Some out\<rparr> of
        (Inl e, _) \<Rightarrow> Inl e
      | (Inr _, w) \<Rightarrow> Inr (sg_counts w, case sg_out w of None \<Rightarrow> [] | Some out \<Rightarrow> out))"

fun finish_copies :: "splitter_settings \<Rightarrow> (file_key \<times> file_state) list \<Rightarrow> (int \<times> int) list \<Rightarrow> emitted_output list \<Rightarrow> emitted_output list res" where
  "finish_copies st [] counts out = Inr out"
| "finish_copies st ((k, f) # files) counts out =
     rbind (collected (run_finish st k) f counts out) (\<lambda>(counts, out). finish_copies st files counts out)"

definition sf_simulate :: "splitter_settings \<Rightarrow> json \<Rightarrow> file_splitter \<Rightarrow> emitted_output list res" where
  "sf_simulate st change s =
     rbind (jget_str change ''type'') (\<lambda>kind.
     if kind = lit ''chunk'' then
       rbind (change_key change) (\<lambda>k.
       rbind (case map_of (sf_files s) k of None \<Rightarrow> new_file_state st | Some f \<Rightarrow> Inr f) (\<lambda>f.
       rbind (collected (run_chunk st k change) f (sf_accounts_batches s) []) (\<lambda>(_, out). Inr out)))
     else if kind = lit ''file_eof'' then
       rbind (change_key change) (\<lambda>k.
       (case map_of (sf_files s) k of
          None \<Rightarrow> Inr []
        | Some f \<Rightarrow> rbind (collected (run_finish st k) f (sf_accounts_batches s) []) (\<lambda>(_, out). Inr out)))
     else if kind = lit ''client_eof'' then
       rbind (jget_int change ''client_id'') (\<lambda>client_id.
       finish_copies st (filter (\<lambda>(k, _). fst k = client_id) (sf_files s)) (sf_accounts_batches s) [])
     else if kind = lit ''abort'' then Inr []
     else Inl ValueError)"

text \<open>A helper run on the file itself; what it did before an exception stays.\<close>

definition in_place :: "file_key \<Rightarrow> file_state \<Rightarrow> (splitting, unit) act \<Rightarrow> (file_splitter, unit) act" where
  "in_place k f m s =
     (case m \<lparr>sg_file = f, sg_counts = sf_accounts_batches s, sg_out = None\<rparr> of
        (r, w) \<Rightarrow> (r, s\<lparr>sf_files := dset k (sg_file w) (sf_files s), sf_accounts_batches := sg_counts w\<rparr>))"

definition finish_and_remove :: "splitter_settings \<Rightarrow> file_key \<Rightarrow> (file_splitter, unit) act" where
  "finish_and_remove st k s =
     (case map_of (sf_files s) k of
        None \<Rightarrow> (Inr (), s)
      | Some f \<Rightarrow> abind (in_place k f (run_finish st k)) (\<lambda>_. amodify (sf_files_update (dpop k))) s)"

definition sf_apply_chunk :: "splitter_settings \<Rightarrow> json \<Rightarrow> (file_splitter, unit) act" where
  "sf_apply_chunk st change =
     abind (alift (change_key change)) (\<lambda>k.
     abind (aget (\<lambda>s. case map_of (sf_files s) k of None \<Rightarrow> new_file_state st | Some f \<Rightarrow> Inr f)) (\<lambda>found.
     abind (alift found) (\<lambda>f.
     abind (in_place k f (run_chunk st k change)) (\<lambda>_.
     amodify (\<lambda>s. s\<lparr>sf_chunks_received := sf_chunks_received s + 1\<rparr>)))))"

definition sf_apply_abort :: "int \<Rightarrow> file_splitter \<Rightarrow> file_splitter" where
  "sf_apply_abort client_id s =
     s\<lparr>sf_files := filter (\<lambda>(k, _). fst k \<noteq> client_id) (sf_files s), sf_accounts_batches := dpop client_id (sf_accounts_batches s)\<rparr>"

definition sf_apply_change :: "splitter_settings \<Rightarrow> json \<Rightarrow> (file_splitter, unit) act" where
  "sf_apply_change st change =
     abind (alift (jget_str change ''type'')) (\<lambda>kind.
     if kind = lit ''chunk'' then sf_apply_chunk st change
     else if kind = lit ''file_eof'' then
       abind (alift (change_key change)) (\<lambda>k.
       abind (finish_and_remove st k) (\<lambda>_. amodify (\<lambda>s. s\<lparr>sf_eofs_received := sf_eofs_received s + 1\<rparr>)))
     else if kind = lit ''client_eof'' then
       abind (alift (jget_int change ''client_id'')) (\<lambda>client_id.
       abind (aget (sf_file_keys_for_client client_id)) (\<lambda>keys.
       abind (afor (finish_and_remove st) keys) (\<lambda>_. amodify (\<lambda>s. s\<lparr>sf_eofs_received := sf_eofs_received s + 1\<rparr>))))
     else if kind = lit ''abort'' then
       abind (alift (jget_int change ''client_id'')) (\<lambda>client_id. amodify (sf_apply_abort client_id))
     else araise ValueError)"

subsection \<open>Snapshots\<close>

record file_splitter_dict =
  sfd_files :: "(file_key \<times> file_state) list"
  sfd_accounts_batches :: "(int \<times> int) list"
  sfd_chunks_received :: int
  sfd_eofs_received :: int

definition sf_snapshot :: "file_splitter \<Rightarrow> file_splitter_dict option" where
  "sf_snapshot s =
     Some \<lparr>sfd_files = sf_files s, sfd_accounts_batches = sf_accounts_batches s, sfd_chunks_received = sf_chunks_received s,
           sfd_eofs_received = sf_eofs_received s\<rparr>"

text \<open>\<open>_filestate_from_dict\<close> makes a new \<open>LineSplitter\<close>, which checks its limit again.\<close>

definition filestate_from_dict :: "file_key \<times> file_state \<Rightarrow> (file_key \<times> file_state) res" where
  "filestate_from_dict = (\<lambda>(k, f). if max_line_bytes (fl_splitter f) \<le> 0 then Inl ValueError else Inr (k, f))"

definition sf_restore :: "file_splitter_dict option \<Rightarrow> (file_splitter, unit) act" where
  "sf_restore data s =
     (case data of
        None \<Rightarrow> (Inr (), s\<lparr>sf_files := [], sf_accounts_batches := [], sf_chunks_received := 0, sf_eofs_received := 0\<rparr>)
      | Some d \<Rightarrow>
          (case rmap filestate_from_dict (sfd_files d) of
             Inl e \<Rightarrow> (Inl e, s)
           | Inr files \<Rightarrow>
               (Inr (), s\<lparr>sf_files := files, sf_accounts_batches := sfd_accounts_batches d,
                  sf_chunks_received := sfd_chunks_received d, sf_eofs_received := sfd_eofs_received d\<rparr>)))"

definition file_splitter_ops :: "splitter_settings \<Rightarrow> (file_splitter, file_splitter_dict option) worker_ops" where
  "file_splitter_ops st = \<lparr>apply_change = sf_apply_change st, worker_snapshot = sf_snapshot, worker_restore = sf_restore\<rparr>"

subsection \<open>The copy and the state agree\<close>

text \<open>An action that does the same whether outputs are collected or not, when collecting them succeeds.\<close>

definition same_collected :: "(splitting, 'a) act \<Rightarrow> bool" where
  "same_collected m \<longleftrightarrow> (\<forall>w out x w'. m (w\<lparr>sg_out := Some out\<rparr>) = (Inr x, w') \<longrightarrow>
     m (w\<lparr>sg_out := None\<rparr>) = (Inr x, w'\<lparr>sg_out := None\<rparr>) \<and> (\<exists>out'. sg_out w' = Some out'))"

lemma same_collectedI:
  assumes "\<And>w out x w'. m (w\<lparr>sg_out := Some out\<rparr>) = (Inr x, w') \<Longrightarrow>
    m (w\<lparr>sg_out := None\<rparr>) = (Inr x, w'\<lparr>sg_out := None\<rparr>) \<and> (\<exists>out'. sg_out w' = Some out')"
  shows "same_collected m"
  using assms unfolding same_collected_def by blast

lemma same_collected_basic:
  "same_collected (areturn x)" "same_collected (alift r)" "same_collected (on_file g)" "same_collected (amodify (sg_counts_update h))"
  "same_collected (aget sg_file)" "same_collected (aget (\<lambda>w. (sg_file w, sg_counts w)))" "same_collected (on_splitter m)"
  "same_collected (emit_output edge t payload)" "same_collected (amodify (\<lambda>w. w\<lparr>sg_counts := u (sg_counts w)\<rparr>))"
  by (rule same_collectedI; auto simp: act_defs on_file_def on_splitter_def emit_output_def split: sum.splits prod.splits)+

lemma same_collected_abind:
  assumes "same_collected m" and "\<And>x. same_collected (g x)"
  shows "same_collected (abind m g)"
proof (rule same_collectedI)
  fix w out y w'
  assume "abind m g (w\<lparr>sg_out := Some out\<rparr>) = (Inr y, w')"
  then obtain x w1 where 1: "m (w\<lparr>sg_out := Some out\<rparr>) = (Inr x, w1)" "g x w1 = (Inr y, w')" by (auto simp: abind_eq_Inr)
  with assms(1) obtain out1 where m: "m (w\<lparr>sg_out := None\<rparr>) = (Inr x, w1\<lparr>sg_out := None\<rparr>)" "sg_out w1 = Some out1"
    unfolding same_collected_def by blast
  then have "w1 = w1\<lparr>sg_out := Some out1\<rparr>" by (cases w1) simp
  with 1(2) assms(2) [of x] have "g x (w1\<lparr>sg_out := None\<rparr>) = (Inr y, w'\<lparr>sg_out := None\<rparr>)" "\<exists>out'. sg_out w' = Some out'"
    unfolding same_collected_def by metis+
  with m(1) show "abind m g (w\<lparr>sg_out := None\<rparr>) = (Inr y, w'\<lparr>sg_out := None\<rparr>) \<and> (\<exists>out'. sg_out w' = Some out')"
    by (simp add: abind_def)
qed

lemma same_collected_if: "same_collected m \<Longrightarrow> same_collected n \<Longrightarrow> same_collected (if b then m else n)"
  by simp

lemma same_collected_afor: "(\<And>x. same_collected (g x)) \<Longrightarrow> same_collected (afor g xs)"
  by (induction xs) (simp_all add: same_collected_basic same_collected_abind)

lemmas same_collected_rules = same_collected_basic same_collected_abind same_collected_if same_collected_afor

lemma same_collected_flush: "same_collected (run_flush k)"
  unfolding run_flush_def by (intro same_collected_rules)

lemma same_collected_accumulate: "same_collected (run_accumulate st k line)"
  unfolding run_accumulate_def Let_def by (intro same_collected_rules same_collected_flush)

lemma same_collected_line: "same_collected (run_line st k line)"
  unfolding run_line_def Let_def by (intro same_collected_rules same_collected_accumulate)

lemma same_collected_chunk: "same_collected (run_chunk st k change)"
  unfolding run_chunk_def by (intro same_collected_rules same_collected_line)

lemma same_collected_finish: "same_collected (run_finish st k)"
  unfolding run_finish_def Let_def
  by (intro same_collected_abind, (intro same_collected_rules same_collected_line same_collected_flush)+)
    (auto intro!: same_collected_rules same_collected_line same_collected_flush split: prod.split)

lemma in_place_as_collected:
  assumes "same_collected m" and "m \<lparr>sg_file = f, sg_counts = sf_accounts_batches s, sg_out = Some out\<rparr> = (Inr (), w)"
  shows "in_place k f m s = (Inr (), s\<lparr>sf_files := dset k (sg_file w) (sf_files s), sf_accounts_batches := sg_counts w\<rparr>)"
proof -
  let ?w = "\<lparr>sg_file = f, sg_counts = sf_accounts_batches s, sg_out = None\<rparr>"
  have "m (?w\<lparr>sg_out := Some out\<rparr>) = (Inr (), w)" using assms(2) by simp
  with assms(1) have "m (?w\<lparr>sg_out := None\<rparr>) = (Inr (), w\<lparr>sg_out := None\<rparr>)" unfolding same_collected_def by blast
  then show ?thesis by (simp add: in_place_def)
qed

subsection \<open>A durable state\<close>

abbreviation sg_limit :: "splitting \<Rightarrow> int" where
  "sg_limit w \<equiv> max_line_bytes (fl_splitter (sg_file w))"

lemma keeps_on_file: "(\<And>f. fl_splitter (g f) = fl_splitter f) \<Longrightarrow> keeps (\<lambda>w. fl_splitter (sg_file w)) (on_file g)"
  by (simp add: keeps_def on_file_def amodify_def)

lemma keeps_emit: "keeps (\<lambda>w. fl_splitter (sg_file w)) (emit_output edge t payload)"
  by (simp add: keeps_def emit_output_def split: option.split sum.split)

lemma keeps_if: "keeps g m \<Longrightarrow> keeps g n \<Longrightarrow> keeps g (if b then m else n)"
  by simp

lemma run_line_splitter: "keeps (\<lambda>w. fl_splitter (sg_file w)) (run_line st k line)"
  and run_flush_splitter: "keeps (\<lambda>w. fl_splitter (sg_file w)) (run_flush k)"
  unfolding run_line_def run_accumulate_def run_flush_def Let_def
  by (intro keeps_intros keeps_if keeps_emit keeps_on_file; simp)+

lemma keeps_weaker: "keeps (\<lambda>w. fl_splitter (sg_file w)) m \<Longrightarrow> keeps sg_limit m"
  by (simp add: keeps_def)

lemma splitter_limits: "keeps sg_limit (on_splitter (push offset payload))" "keeps sg_limit (on_splitter finish)"
  by (simp_all add: keeps_def on_splitter_def push_def finish_def Let_def split: sum.split)

lemma run_limits: "keeps sg_limit (run_chunk st k change)" "keeps sg_limit (run_finish st k)"
proof -
  note rules = keeps_intros keeps_if splitter_limits keeps_weaker [OF run_line_splitter] keeps_weaker [OF run_flush_splitter]
    keeps_weaker [OF keeps_emit]
  show "keeps sg_limit (run_chunk st k change)"
    unfolding run_chunk_def by (intro rules keeps_weaker [OF keeps_on_file]) simp_all
  show "keeps sg_limit (run_finish st k)"
    unfolding run_finish_def Let_def by (intro rules) (auto intro!: rules split: prod.split)
qed

definition limits_ok :: "file_splitter \<Rightarrow> bool" where
  "limits_ok s \<longleftrightarrow> dict_all (\<lambda>f. 0 < max_line_bytes (fl_splitter f)) (sf_files s)"

lemma in_place_limits:
  assumes "keeps sg_limit m" and "limits_ok s" and "0 < max_line_bytes (fl_splitter f)" and "in_place k f m s = (r, s')"
  shows "limits_ok s'"
proof -
  let ?w = "\<lparr>sg_file = f, sg_counts = sf_accounts_batches s, sg_out = None\<rparr>"
  obtain w where w: "m ?w = (r, w)" "s' = s\<lparr>sf_files := dset k (sg_file w) (sf_files s), sf_accounts_batches := sg_counts w\<rparr>"
    using assms(4) by (auto simp: in_place_def split: prod.splits)
  have "sg_limit w = sg_limit ?w" by (rule keepsD [OF assms(1) w(1)])
  with assms(2,3) w(2) show ?thesis by (simp add: limits_ok_def)
qed

lemma finish_and_remove_limits: "limits_ok s \<Longrightarrow> limits_ok (snd (finish_and_remove st k s))"
proof (cases "map_of (sf_files s) k")
  case (Some f)
  assume ok: "limits_ok s"
  with Some have pos: "0 < max_line_bytes (fl_splitter f)" by (auto simp: limits_ok_def dest: dict_all_lookup)
  obtain r s1 where 1: "in_place k f (run_finish st k) s = (r, s1)" by fastforce
  from in_place_limits [OF run_limits(2) ok pos 1] Some 1 show ?thesis
    by (auto simp: finish_and_remove_def act_defs limits_ok_def split: sum.split)
qed (simp add: finish_and_remove_def)

lemma apply_chunk_limits: "limits_ok s \<Longrightarrow> limits_ok (snd (sf_apply_chunk st change s))"
proof -
  assume ok: "limits_ok s"
  have pos: "0 < max_line_bytes (fl_splitter f)"
    if "(case map_of (sf_files s) k of None \<Rightarrow> new_file_state st | Some f \<Rightarrow> Inr f) = Inr f" for k f
    using that ok by (auto simp: limits_ok_def new_file_state_def new_splitter_def dest: dict_all_lookup split: option.splits if_splits)
  have placed: "limits_ok s1" if "in_place k f (run_chunk st k change) s = (r, s1)"
    "(case map_of (sf_files s) k of None \<Rightarrow> new_file_state st | Some f \<Rightarrow> Inr f) = Inr f" for k f r s1
    by (rule in_place_limits [OF run_limits(1) ok pos [OF that(2)] that(1)])
  show ?thesis
    using ok placed by (auto simp: sf_apply_chunk_def act_defs limits_ok_def split: sum.splits prod.splits)
qed

lemma apply_change_limits:
  assumes "limits_ok s"
  shows "limits_ok (snd (sf_apply_change st change s))"
proof -
  have loop: "limits_ok (snd (afor (finish_and_remove st) keys s))" for keys
    by (rule afor_invariant) (use assms finish_and_remove_limits in auto)
  have counted: "limits_ok (s\<lparr>sf_eofs_received := n\<rparr>) = limits_ok s" for s n by (simp add: limits_ok_def)
  have abort: "limits_ok (sf_apply_abort c s)" for c using assms by (auto simp: limits_ok_def sf_apply_abort_def dict_all_def)
  show ?thesis
    using assms apply_chunk_limits [OF assms, of st change] finish_and_remove_limits [OF assms] loop abort
    by (auto simp: sf_apply_change_def act_defs counted split: sum.splits prod.splits) (metis snd_conv)+
qed

lemma restore_files: "dict_all (\<lambda>f. 0 < max_line_bytes (fl_splitter f)) d \<Longrightarrow> rmap filestate_from_dict d = Inr d"
  by (induction d) (auto simp: filestate_from_dict_def dict_all_def)

interpretation sf_state: worker_state "file_splitter_ops st" new_file_splitter limits_ok for st :: splitter_settings
proof
  show "limits_ok new_file_splitter" by (simp add: limits_ok_def new_file_splitter_def)
  show "limits_ok s'" if "limits_ok s" "apply_change (file_splitter_ops st) ch s = (Inr (), s')" for s ch s'
    using apply_change_limits [OF that(1), of st ch] that(2) by (simp add: file_splitter_ops_def)
  show "worker_restore (file_splitter_ops st) (worker_snapshot (file_splitter_ops st) s) new_file_splitter = (Inr (), s)" if "limits_ok s" for s
    using restore_files that by (cases s) (simp add: file_splitter_ops_def sf_restore_def sf_snapshot_def new_file_splitter_def limits_ok_def)
qed

end
