(* ===== verification/FileSplitterRuns.thy ===== *)
theory FileSplitterRuns
  imports FileSplitterState
begin

text \<open>
  What the splitter sends for a file, from its first chunk to its EOF: the data lines in order in batches that a receiver can
  read, each within the limit, and their number.
\<close>

subsection \<open>The size of a batch on the wire\<close>

text \<open>Strings and lines that \<open>LineBatchSerializer\<close> can write.\<close>

definition sendable :: "pystr \<Rightarrow> pystr list \<Rightarrow> bytes list \<Rightarrow> bool" where
  "sendable path h ls \<longleftrightarrow> (\<exists>b. encode_sized path = Inr b) \<and> (\<forall>col \<in> set h. \<exists>b. encode_sized col = Inr b) \<and>
     int (length h) \<le> U32 \<and> (\<forall>l \<in> set ls. int (length l) \<le> U32) \<and> int (length ls) \<le> U32"

definition encoded :: "pystr \<Rightarrow> bytes" where
  "encoded s = (case utf8_encode s of Inl _ \<Rightarrow> [] | Inr b \<Rightarrow> b)"

definition lines_size :: "bytes list \<Rightarrow> int" where
  "lines_size ls = sum_list (map (\<lambda>l. 4 + int (length l)) ls)"

lemma lines_size_simps [simp]: "lines_size [] = 0" "lines_size (xs @ ys) = lines_size xs + lines_size ys" "lines_size [l] = 4 + int (length l)"
  by (simp_all add: lines_size_def)

definition wire_size :: "pystr \<Rightarrow> pystr list \<Rightarrow> bytes list \<Rightarrow> int" where
  "wire_size path h ls = int LB_FIXED_HEADER_SIZE + int (length (encoded path)) + lines_size (map encoded h) + lines_size ls"

lemma encode_sized_encoded: "encode_sized s = Inr b \<Longrightarrow> utf8_encode s = Inr (encoded s) \<and> b = encoded s \<and> int (length (encoded s)) \<le> U32"
  by (auto simp: encode_sized_Inr encoded_def)

lemma to_bytes_total: "0 \<le> n \<Longrightarrow> n < 256 ^ k \<Longrightarrow> \<exists>b. to_bytes k n = Inr b \<and> length b = k"
  by (simp add: to_bytes_def)

lemma sized_item_total: "int (length b) \<le> U32 \<Longrightarrow> \<exists>x. sized_item b = Inr x \<and> int (length x) = 4 + int (length b)"
  using to_bytes_total [of "int (length b)" 4] by (auto simp: sized_item_def U32_def)

lemma string_items_total:
  assumes "\<forall>col \<in> set h. \<exists>b. encode_sized col = Inr b"
  shows "\<exists>x. serialize_string_items h = Inr x \<and> int (length x) = lines_size (map encoded h)"
  using assms
proof (induction h)
  case (Cons col h)
  then obtain xs where xs: "rmap (\<lambda>item. rbind (encode_sized item) sized_item) h = Inr xs" "int (length (concat xs)) = lines_size (map encoded h)"
    by (auto simp: serialize_string_items_def)
  obtain b where b: "encode_sized col = Inr b" using Cons.prems by auto
  with encode_sized_encoded [OF b] sized_item_total [of "encoded col"] obtain x where
    "sized_item b = Inr x" "int (length x) = 4 + int (length (encoded col))" by auto
  with xs b show ?case by (simp add: serialize_string_items_def lines_size_def)
qed (simp add: serialize_string_items_def)

lemma byte_items_total:
  assumes "\<forall>l \<in> set ls. int (length l) \<le> U32"
  shows "\<exists>x. serialize_byte_items ls = Inr x \<and> int (length x) = lines_size ls"
  using assms
proof (induction ls)
  case (Cons l ls)
  then obtain xs where xs: "rmap (\<lambda>item. rbind (validate_uint (int (length item)) U32) (\<lambda>_. sized_item item)) ls = Inr xs"
    "int (length (concat xs)) = lines_size ls" by (auto simp: serialize_byte_items_def)
  obtain x where "sized_item l = Inr x" "int (length x) = 4 + int (length l)" using Cons.prems sized_item_total by fastforce
  with xs Cons.prems show ?case by (simp add: serialize_byte_items_def validate_uint_def lines_size_def)
qed (simp add: serialize_byte_items_def)

lemma batch_written:
  assumes "sendable path h ls" and "set bs \<subseteq> set ls" and "length bs \<le> length ls" and "0 \<le> i" and "i \<le> U64" and "0 \<le> n" and "n \<le> U64"
    and "0 \<le> ft" and "ft \<le> U8"
  defines "b \<equiv> \<lparr>lb_file_type = ft, lb_rel_path = path, lb_batch_id = i, lb_first_line_number = n, lb_header = h, lb_lines = bs\<rparr>"
  shows "\<exists>p. serialize_line_batch b = Inr p \<and> deserialize_line_batch p = Inr b \<and> int (length p) = wire_size path h bs"
proof -
  obtain pb where pb: "encode_sized path = Inr pb" using assms(1) by (auto simp: sendable_def)
  note path = encode_sized_encoded [OF pb]
  have lens: "int (length h) \<le> U32" "int (length bs) \<le> U32" using assms(1,3) by (auto simp: sendable_def)
  obtain hs where hs: "serialize_string_items h = Inr hs" "int (length hs) = lines_size (map encoded h)"
    using string_items_total assms(1) unfolding sendable_def by blast
  obtain lns where lns: "serialize_byte_items bs = Inr lns" "int (length lns) = lines_size bs"
    using byte_items_total [of bs] assms(1,2) unfolding sendable_def by blast
  obtain b1 b2 b3 b4 b5 b6 where parts: "to_bytes 1 ft = Inr b1" "to_bytes 8 i = Inr b2" "to_bytes 8 n = Inr b3"
      "to_bytes 4 (int (length pb)) = Inr b4" "to_bytes 4 (int (length h)) = Inr b5" "to_bytes 4 (int (length bs)) = Inr b6"
    and sizes: "length b1 = 1" "length b2 = 8" "length b3 = 8" "length b4 = 4" "length b5 = 4" "length b6 = 4"
    using to_bytes_total [of ft 1] to_bytes_total [of i 8] to_bytes_total [of n 8] to_bytes_total [of "int (length pb)" 4]
      to_bytes_total [of "int (length h)" 4] to_bytes_total [of "int (length bs)" 4] assms(4-9) lens path
    by (auto simp: U8_def U32_def U64_def)
  let ?p = "b1 @ b2 @ b3 @ b4 @ b5 @ b6 @ pb @ hs @ lns"
  have "serialize_line_batch b = Inr ?p"
    using pb hs(1) lns(1) parts assms(4-9) lens by (simp add: serialize_line_batch_def b_def validate_uint_def)
  moreover have "int (length ?p) = wire_size path h bs"
    using sizes hs(2) lns(2) path by (simp add: wire_size_def LB_FIXED_HEADER_SIZE_def)
  ultimately show ?thesis using line_batch_roundtrip by blast
qed

subsection \<open>Batches of lines\<close>

definition edge_of :: "int \<Rightarrow> pystr" where
  "edge_of ft = (if ft = FILE_TYPE_ACCOUNTS then ACCOUNTS_EDGE else LINE_BATCH_EDGE)"

text \<open>
  The size of the packet that carries a payload: the sequencer stamps every output of the splitter as an addressed packet.
  What \<open>_packet_size\<close> counts is \<open>counted_header\<close> and the payload: the header of an addressed packet for accounts,
  but that of a plain packet, 8 bytes less than is sent, for transactions.
\<close>

definition packet_bytes :: "bytes \<Rightarrow> int" where
  "packet_bytes p = int ADDRESSED_HEADER_SIZE + int (length p)"

lemma addressed_packet_bytes:
  "create_addressed_packet t b s q p = Inr pkt \<Longrightarrow> int (length pkt) = packet_bytes p"
  by (auto simp: create_addressed_packet_def packet_bytes_def ADDRESSED_HEADER_SIZE_def pack_16s_def dest!: pack_uint_length)

definition counted_header :: "int \<Rightarrow> int" where
  "counted_header ft = int (if ft = FILE_TYPE_ACCOUNTS then ADDRESSED_HEADER_SIZE else PACKET_HEADER_SIZE)"

definition overshoot :: "int \<Rightarrow> int" where
  "overshoot ft = (if ft = FILE_TYPE_ACCOUNTS then 0 else 8)"

lemma counted_as_sent: "counted_header ft + int (length p) = packet_bytes p - overshoot ft"
  by (simp add: counted_header_def packet_bytes_def overshoot_def ADDRESSED_HEADER_SIZE_def PACKET_HEADER_SIZE_def)

fun line_batches :: "int \<Rightarrow> pystr \<Rightarrow> pystr list \<Rightarrow> int \<Rightarrow> int \<Rightarrow> bytes list list \<Rightarrow> line_batch list" where
  "line_batches ft path h i n [] = []"
| "line_batches ft path h i n (bs # bss) =
     \<lparr>lb_file_type = ft, lb_rel_path = path, lb_batch_id = i, lb_first_line_number = n, lb_header = h, lb_lines = bs\<rparr> #
     line_batches ft path h (i + 1) (n + int (length bs)) bss"

lemma line_batches_append:
  "line_batches ft path h i n (xs @ ys) =
     line_batches ft path h i n xs @ line_batches ft path h (i + int (length xs)) (n + int (length (concat xs))) ys"
  by (induction xs arbitrary: i n) (simp_all add: algebra_simps)

text \<open>
  An output is the batch, for the edge of its file type; its packet as sent is within the limit, for transactions within 8 bytes
  over it, or it has one line.
\<close>

definition says_batch :: "splitter_settings \<Rightarrow> int \<Rightarrow> emitted_output \<Rightarrow> line_batch \<Rightarrow> bool" where
  "says_batch st ft out b \<longleftrightarrow> (\<exists>p. out = (edge_of ft, MT_DATA, p) \<and> deserialize_line_batch p = Inr b \<and>
     (length (lb_lines b) = 1 \<or> packet_bytes p \<le> sl_max_batch_bytes st + overshoot ft))"

text \<open>
  The data lines read so far, in \<open>bss\<close> the batches of them that have been sent (the outputs \<open>pre\<close> by earlier changes).
  \<open>n0\<close> account batches of the client had been counted before the file.
\<close>

definition batched ::
  "splitter_settings \<Rightarrow> file_key \<Rightarrow> int \<Rightarrow> pystr list \<Rightarrow> int \<Rightarrow> emitted_output list \<Rightarrow> bytes list \<Rightarrow> bytes list list \<Rightarrow> splitting \<Rightarrow> bool" where
  "batched st k ft h n0 pre data bss w \<longleftrightarrow>
     fl_file_type (sg_file w) = Some ft \<and>
     concat bss @ fl_batch_lines (sg_file w) = data \<and> [] \<notin> set bss \<and>
     fl_batch_id (sg_file w) = int (length bss) \<and> fl_data_lines_emitted (sg_file w) = int (length (concat bss)) \<and>
     (fl_batch_lines (sg_file w) \<noteq> [] \<longrightarrow> fl_batch_first_line_number (sg_file w) = 2 + int (length (concat bss))) \<and>
     fl_batch_payload_bytes (sg_file w) = lines_size (fl_batch_lines (sg_file w)) \<and>
     (length (fl_batch_lines (sg_file w)) \<le> 1 \<or> counted_header ft + wire_size (snd k) h (fl_batch_lines (sg_file w)) \<le> sl_max_batch_bytes st) \<and>
     (\<exists>out. sg_out w = Some out \<and> list_all2 (says_batch st ft) (pre @ out) (line_batches ft (snd k) h 0 2 bss)) \<and>
     (ft = FILE_TYPE_ACCOUNTS \<longrightarrow> dget (sg_counts w) (fst k) 0 = n0 + int (length bss))"

text \<open>The parts of the state that sending leaves alone.\<close>

definition same_reader :: "splitting \<Rightarrow> splitting \<Rightarrow> bool" where
  "same_reader w w' \<longleftrightarrow> fl_lines_seen (sg_file w') = fl_lines_seen (sg_file w) \<and> fl_header (sg_file w') = fl_header (sg_file w)"

lemma on_file_apply: "on_file g w = (Inr (), w\<lparr>sg_file := g (sg_file w)\<rparr>)"
  by (cases w) (simp add: on_file_def amodify_def)

lemma length_le_concat: "[] \<notin> set xss \<Longrightarrow> length xss \<le> length (concat xss)"
proof (induction xss)
  case (Cons xs xss)
  then show ?case by (cases xs) auto
qed simp

lemma flush_sends:
  assumes "batched st k ft h n0 pre data bss w" and "fl_header (sg_file w) = Some h" and "fl_batch_lines (sg_file w) \<noteq> []"
    and "sendable (snd k) h ls" and "set data \<subseteq> set ls" and "length data \<le> length ls" and "0 \<le> ft" and "ft \<le> U8"
  shows "\<exists>w'. run_flush k w = (Inr (), w') \<and> batched st k ft h n0 pre data (bss @ [fl_batch_lines (sg_file w)]) w' \<and>
    fl_batch_lines (sg_file w') = [] \<and> same_reader w w'"
proof -
  let ?f = "sg_file w" and ?bl = "fl_batch_lines (sg_file w)"
  let ?b = "\<lparr>lb_file_type = ft, lb_rel_path = snd k, lb_batch_id = int (length bss), lb_first_line_number = 2 + int (length (concat bss)),
    lb_header = h, lb_lines = ?bl\<rparr>"
  have inv: "fl_file_type ?f = Some ft" "concat bss @ ?bl = data" "[] \<notin> set bss" "fl_batch_id ?f = int (length bss)"
    "fl_batch_first_line_number ?f = 2 + int (length (concat bss))"
    using assms(1,3) by (auto simp: batched_def)
  have "length bss \<le> length (concat bss)"
    using inv(3) by (rule length_le_concat)
  moreover have "length (concat bss) + length ?bl = length data" using inv(2) by (metis length_append)
  ultimately have "int (length bss) \<le> U64" "2 + int (length (concat bss)) \<le> U64" "length ?bl \<le> length ls"
    using assms(4,6) by (auto simp: sendable_def U32_def U64_def)
  moreover have "set ?bl \<subseteq> set ls" using inv(2) assms(5) by auto
  ultimately obtain p where p: "serialize_line_batch ?b = Inr p" "deserialize_line_batch p = Inr ?b" "int (length p) = wire_size (snd k) h ?bl"
    using batch_written [OF assms(4), of ?bl "int (length bss)" "2 + int (length (concat bss))" ft] assms(7,8) by auto
  have payload: "batch_payload k ?f = Inr p" using inv assms(2) p(1) by (simp add: batch_payload_def)
  have "says_batch st ft (edge_of ft, MT_DATA, p) ?b"
    using p(2,3) assms(1,3) counted_as_sent [of ft p] by (cases ?bl) (auto simp: says_batch_def batched_def)
  with assms(1,3) payload inv(1) show ?thesis
    by (auto simp: run_flush_def act_defs emit_output_def on_file_apply batched_def same_reader_def is_accounts_def edge_of_def
        line_batches_append list_all2_appendI simp flip: append_assoc)
qed

lemma packet_size_counted:
  assumes "sendable (snd k) h ls" and "fl_header f = Some h" and "fl_file_type f = Some ft" and "fl_batch_payload_bytes f = lines_size bl"
  shows "packet_size k f (4 + int (length line)) = Inr (counted_header ft + wire_size (snd k) h (bl @ [line]))"
proof -
  have path: "utf8_encode (snd k) = Inr (encoded (snd k))" using assms(1) encode_sized_encoded by (auto simp: sendable_def)
  have "rmap utf8_encode h = Inr (map encoded h)"
    by (rule rmap_cong_Inr) (use assms(1) encode_sized_encoded in \<open>auto simp: sendable_def\<close>)
  with path assms(2-4) show ?thesis
    by (simp add: packet_size_def is_accounts_def counted_header_def wire_size_def PACKET_FIXED_def ADDRESSED_PACKET_FIXED_def lines_size_def
        comp_def)
qed

text \<open>Adding a line to the batch, when there is none or it has been sent.\<close>

lemma first_of_batch:
  assumes "batched st k ft h n0 pre data bss w" and "fl_batch_lines (sg_file w) = []" and "fl_lines_seen (sg_file w) = 2 + int (length data)"
  shows "batched st k ft h n0 pre (data @ [line]) bss (w\<lparr>sg_file := (sg_file w)\<lparr>fl_batch_first_line_number := fl_lines_seen (sg_file w),
    fl_batch_lines := [line], fl_batch_payload_bytes := 4 + int (length line)\<rparr>\<rparr>)"
  using assms by (auto simp: batched_def)

lemma accumulate_keeps:
  assumes "batched st k ft h n0 pre data bss w" and "fl_header (sg_file w) = Some h" and "fl_lines_seen (sg_file w) = 2 + int (length data)"
    and "sendable (snd k) h ls" and "set data \<subseteq> set ls" and "length data \<le> length ls" and "0 \<le> ft" and "ft \<le> U8"
  shows "\<exists>w' bss'. run_accumulate st k line w = (Inr (), w') \<and> batched st k ft h n0 pre (data @ [line]) bss' w' \<and> same_reader w w'"
proof (cases "fl_batch_lines (sg_file w) = []")
  case True
  with first_of_batch [OF assms(1) True assms(3), of line] show ?thesis
    by (auto simp: run_accumulate_def act_defs on_file_apply same_reader_def Let_def)
next
  case False
  let ?bl = "fl_batch_lines (sg_file w)"
  have inv: "fl_file_type (sg_file w) = Some ft" "fl_batch_payload_bytes (sg_file w) = lines_size ?bl" using assms(1) by (auto simp: batched_def)
  note n = packet_size_counted [OF assms(4,2) inv, of line]
  show ?thesis
  proof (cases "sl_max_batch_bytes st < counted_header ft + wire_size (snd k) h (?bl @ [line])")
    case True
    obtain w1 where w1: "run_flush k w = (Inr (), w1)" "batched st k ft h n0 pre data (bss @ [?bl]) w1" "fl_batch_lines (sg_file w1) = []"
      "same_reader w w1"
      using flush_sends [OF assms(1,2) False assms(4-8)] by blast
    from first_of_batch [OF w1(2,3), of line] w1(4) assms(3) show ?thesis
      using False True n w1 by (auto simp: run_accumulate_def act_defs on_file_apply same_reader_def Let_def)
  next
    case fits: False
    with False n assms(1) show ?thesis
      by (auto simp: run_accumulate_def act_defs on_file_apply same_reader_def Let_def batched_def)
  qed
qed

subsection \<open>Lines\<close>

definition clean_line :: "bytes \<Rightarrow> bytes" where
  "clean_line line = (if line \<noteq> [] \<and> last line = 13 then butlast line else line)"

text \<open>What was read of a file: its lines \<open>ls\<close>, the first of which is the header.\<close>

definition reading ::
  "splitter_settings \<Rightarrow> file_key \<Rightarrow> int \<Rightarrow> pystr list \<Rightarrow> int \<Rightarrow> emitted_output list \<Rightarrow> bytes list \<Rightarrow> bytes list list \<Rightarrow> splitting \<Rightarrow> bool" where
  "reading st k ft h n0 pre ls bss w \<longleftrightarrow> batched st k ft h n0 pre (tl ls) bss w \<and> fl_lines_seen (sg_file w) = int (length ls) \<and>
     fl_header (sg_file w) = (if ls = [] then None else Some h)"

text \<open>A file that can be split: every line is sent, and its header is read.\<close>

definition splittable :: "splitter_settings \<Rightarrow> pystr \<Rightarrow> int \<Rightarrow> pystr list \<Rightarrow> bytes list \<Rightarrow> bool" where
  "splittable st path ft h ls \<longleftrightarrow> sendable path h ls \<and> (ft = FILE_TYPE_TRANSACTIONS \<or> ft = FILE_TYPE_ACCOUNTS \<and> sl_accounts_enabled st) \<and>
     ls \<noteq> [] \<and> parse_csv_line (clean_line (hd ls)) = Inr h"

lemma splittable_type: "splittable st path ft h ls \<Longrightarrow> 0 \<le> ft \<and> ft \<le> U8"
  by (auto simp: splittable_def FILE_TYPE_TRANSACTIONS_def FILE_TYPE_ACCOUNTS_def U8_def)

lemma line_read:
  assumes "splittable st (snd k) ft h all" and "prefix (ls @ [line]) all" and "reading st k ft h n0 pre ls bss w"
  shows "\<exists>w' bss'. run_line st k line w = (Inr (), w') \<and> reading st k ft h n0 pre (ls @ [line]) bss' w'"
proof -
  define w1 where "w1 = w\<lparr>sg_file := (sg_file w)\<lparr>fl_lines_seen := fl_lines_seen (sg_file w) + 1\<rparr>\<rparr>"
  have w1: "batched st k ft h n0 pre (tl ls) bss w1" "fl_lines_seen (sg_file w1) = 1 + int (length ls)"
    "fl_header (sg_file w1) = (if ls = [] then None else Some h)"
    using assms(3) by (auto simp: w1_def reading_def batched_def)
  have "\<not> (is_accounts (sg_file w1) \<and> \<not> sl_accounts_enabled st)"
    using assms(1) w1(1) by (auto simp: splittable_def batched_def is_accounts_def FILE_TYPE_TRANSACTIONS_def FILE_TYPE_ACCOUNTS_def)
  then have run: "run_line st k line w =
      (if ls = [] then abind (alift (parse_csv_line (clean_line line))) (\<lambda>header. on_file (\<lambda>f. f\<lparr>fl_header := Some header\<rparr>)) w1
       else run_accumulate st k line w1)"
    using w1(3) by (auto simp: run_line_def act_defs on_file_apply w1_def clean_line_def Let_def)
  show ?thesis
  proof (cases "ls = []")
    case True
    then have "line = hd all" using assms(2) by (cases all) auto
    then have "parse_csv_line (clean_line line) = Inr h" using assms(1) by (simp add: splittable_def)
    with True run w1 show ?thesis by (auto simp: act_defs on_file_apply reading_def batched_def)
  next
    case False
    have "set (tl ls) \<subseteq> set all" "length (tl ls) \<le> length all"
      using assms(2) False by (auto simp: prefix_def dest: list.set_sel(2))
    moreover have "fl_lines_seen (sg_file w1) = 2 + int (length (tl ls))" using w1(2) False by (cases ls) auto
    moreover have "sendable (snd k) h all" using assms(1) by (simp add: splittable_def)
    ultimately obtain w' bss' where w': "run_accumulate st k line w1 = (Inr (), w')" "batched st k ft h n0 pre (tl ls @ [line]) bss' w'"
      "same_reader w1 w'"
      using accumulate_keeps [OF w1(1), of all line] w1(3) False splittable_type [OF assms(1)] by auto
    with False run w1 show ?thesis by (auto simp: reading_def same_reader_def)
  qed
qed

lemma lines_read:
  assumes "splittable st (snd k) ft h all" and "prefix (ls @ new) all" and "reading st k ft h n0 pre ls bss w"
  shows "\<exists>w' bss'. afor (run_line st k) new w = (Inr (), w') \<and> reading st k ft h n0 pre (ls @ new) bss' w'"
  using assms(2,3)
proof (induction new arbitrary: ls bss w)
  case Nil
  then show ?case by (auto simp: areturn_def)
next
  case (Cons line new)
  have "prefix (ls @ [line]) all" using Cons.prems(1) by (auto simp: prefix_def)
  from line_read [OF assms(1) this Cons.prems(2)] obtain w1 bss1 where
    w1: "run_line st k line w = (Inr (), w1)" "reading st k ft h n0 pre (ls @ [line]) bss1 w1" by blast
  from Cons.IH [of "ls @ [line]" bss1 w1] Cons.prems(1) w1 show ?case by (auto simp: abind_def)
qed

subsection \<open>Chunks\<close>

lemma reading_frame:
  "reading st k ft h n0 pre ls bss (w\<lparr>sg_file := (sg_file w)\<lparr>fl_splitter := sp\<rparr>\<rparr>) = reading st k ft h n0 pre ls bss w"
  "reading st k ft h n0 pre ls bss (w\<lparr>sg_file := (sg_file w)\<lparr>fl_bytes_received := m, fl_chunks_received := n\<rparr>\<rparr>) =
     reading st k ft h n0 pre ls bss w"
  by (simp_all add: reading_def batched_def)

lemma reading_rebase:
  "sg_out w = Some out \<Longrightarrow> reading st k ft h n0 pre ls bss w \<Longrightarrow> reading st k ft h n0 (pre @ out) ls bss (w\<lparr>sg_out := Some []\<rparr>)"
  by (simp add: reading_def batched_def)

text \<open>A file between two chunks: the bytes \<open>got\<close> were pushed, the outputs \<open>pre\<close> were sent.\<close>

definition split_at ::
  "splitter_settings \<Rightarrow> file_key \<Rightarrow> int \<Rightarrow> pystr list \<Rightarrow> int \<Rightarrow> emitted_output list \<Rightarrow> bytes \<Rightarrow> file_state \<Rightarrow> (int \<times> int) list \<Rightarrow> bool" where
  "split_at st k ft h n0 pre got f counts \<longleftrightarrow>
     fl_splitter f = \<lparr>max_line_bytes = sl_max_line_bytes st, expected_offset = int (length got), pending_bytes = last (split_lines got)\<rparr> \<and>
     (fl_file_type f = None \<or> fl_file_type f = Some ft) \<and>
     (\<exists>bss. reading st k ft h n0 pre (butlast (split_lines got)) bss
        \<lparr>sg_file = f\<lparr>fl_file_type := Some ft\<rparr>, sg_counts = counts, sg_out = Some []\<rparr>)"

lemma split_at_new:
  assumes "new_file_state st = Inr f" and "ft = FILE_TYPE_ACCOUNTS \<longrightarrow> dget counts (fst k) 0 = n0"
  shows "split_at st k ft h n0 [] [] f counts"
  using assms by (auto simp: new_file_state_def new_splitter_def split_at_def reading_def batched_def split: if_splits intro!: exI [of _ "[]"])

lemma chunk_read:
  assumes "splittable st (snd k) ft h all" and "split_at st k ft h n0 pre got f counts"
    and "short_lines (sl_max_line_bytes st) (split_lines (got @ payload))" and "prefix (butlast (split_lines (got @ payload))) all"
  shows "\<exists>f' counts' out. run_chunk st k (sf_chunk_change (fst k) (snd k) ft (int (length got)) payload)
      \<lparr>sg_file = f, sg_counts = counts, sg_out = Some []\<rparr> = (Inr (), \<lparr>sg_file = f', sg_counts = counts', sg_out = Some out\<rparr>) \<and>
    split_at st k ft h n0 (pre @ out) (got @ payload) f' counts' \<and> fl_file_type f' = Some ft"
proof -
  let ?w1 = "\<lparr>sg_file = f\<lparr>fl_file_type := Some ft\<rparr>, sg_counts = counts, sg_out = Some []\<rparr>"
  let ?pending = "last (split_lines got)"
  let ?ls = "butlast (split_lines got)" and ?new = "butlast (split_lines (?pending @ payload))"
  obtain bss where sp: "fl_splitter f = \<lparr>max_line_bytes = sl_max_line_bytes st, expected_offset = int (length got), pending_bytes = ?pending\<rparr>"
    and type: "fl_file_type f = None \<or> fl_file_type f = Some ft" and read: "reading st k ft h n0 pre ?ls bss ?w1"
    using assms(2) by (auto simp: split_at_def)
  have all: "split_lines (got @ payload) = ?ls @ split_lines (?pending @ payload)" by (rule split_lines_append)
  then have split: "butlast (split_lines (got @ payload)) = ?ls @ ?new" "last (split_lines (got @ payload)) = last (split_lines (?pending @ payload))"
    by (simp_all add: butlast_append)
  define sp' where "sp' = \<lparr>max_line_bytes = sl_max_line_bytes st, expected_offset = int (length (got @ payload)),
    pending_bytes = last (split_lines (got @ payload))\<rparr>"
  have "short_lines (sl_max_line_bytes st) (split_lines (?pending @ payload))" using assms(3) all by simp
  then have push: "push (int (length got)) payload (fl_splitter f) = (Inr ?new, sp')"
    using push_eq [of "fl_splitter f" payload] sp split(2) by (simp add: sp'_def Let_def)
  define w2 where "w2 = ?w1\<lparr>sg_file := (sg_file ?w1)\<lparr>fl_splitter := sp'\<rparr>\<rparr>"
  have "reading st k ft h n0 pre ?ls bss w2" unfolding w2_def reading_frame by (rule read)
  from lines_read [OF assms(1) _ this, of ?new] assms(4) split(1) obtain w3 bss' where
    w3: "afor (run_line st k) ?new w2 = (Inr (), w3)" "reading st k ft h n0 pre (?ls @ ?new) bss' w3" by auto
  have "fl_splitter (sg_file w3) = fl_splitter (sg_file w2)"
    using keepsD [OF keeps_afor [OF run_line_splitter] w3(1)] by simp
  then have sp3: "fl_splitter (sg_file w3) = sp'" by (simp add: w2_def)
  obtain out where out: "sg_out w3 = Some out" "fl_file_type (sg_file w3) = Some ft" using w3(2) by (auto simp: reading_def batched_def)
  define f' where "f' = (sg_file w3)\<lparr>fl_bytes_received := fl_bytes_received (sg_file w3) + int (length payload),
    fl_chunks_received := fl_chunks_received (sg_file w3) + 1\<rparr>"
  have same: "f\<lparr>fl_file_type := Some ft, fl_splitter := sp'\<rparr> = f\<lparr>fl_splitter := sp'\<rparr>" if "fl_file_type f = Some ft"
    using that by (cases f) simp
  have final: "w3\<lparr>sg_file := f'\<rparr> = \<lparr>sg_file = f', sg_counts = sg_counts w3, sg_out = Some out\<rparr>" using out by (cases w3) simp
  have "run_chunk st k (sf_chunk_change (fst k) (snd k) ft (int (length got)) payload) \<lparr>sg_file = f, sg_counts = counts, sg_out = Some []\<rparr> =
      (Inr (), w3\<lparr>sg_file := f'\<rparr>)"
    using type
  proof
    assume "fl_file_type f = None"
    with push w3(1) show ?thesis
      by (simp add: run_chunk_def sf_chunk_change_def jget_simps b64_roundtrip act_defs on_file_apply on_splitter_def w2_def f'_def)
  next
    assume ft: "fl_file_type f = Some ft"
    have "w2 = \<lparr>sg_file = f\<lparr>fl_splitter := sp'\<rparr>, sg_counts = counts, sg_out = Some []\<rparr>" using same [OF ft] by (simp add: w2_def)
    with push w3(1) ft show ?thesis
      by (simp add: run_chunk_def sf_chunk_change_def jget_simps b64_roundtrip act_defs on_file_apply on_splitter_def f'_def)
  qed
  moreover have "reading st k ft h n0 (pre @ out) (?ls @ ?new) bss' \<lparr>sg_file = f'\<lparr>fl_file_type := Some ft\<rparr>, sg_counts = sg_counts w3, sg_out = Some []\<rparr>"
  proof -
    have "reading st k ft h n0 (pre @ out) (?ls @ ?new) bss' (w3\<lparr>sg_out := Some []\<rparr>)" by (rule reading_rebase [OF out(1) w3(2)])
    then show ?thesis by (simp add: f'_def reading_def batched_def)
  qed
  moreover have "fl_splitter f' = sp'" "fl_file_type f' = Some ft" using sp3 out(2) by (simp_all add: f'_def)
  ultimately show ?thesis unfolding final split_at_def split(1) by (auto simp: sp'_def)
qed

lemma finish_lines:
  assumes "fl_splitter f = \<lparr>max_line_bytes = n, expected_offset = m, pending_bytes = last (split_lines got)\<rparr>"
    and "short_lines n (split_lines got)"
  shows "\<exists>sp new. finish (fl_splitter f) = (Inr new, sp) \<and> butlast (split_lines got) @ new = file_lines got"
proof -
  have "int (length (last (split_lines got))) \<le> n" using assms(2) short_lines_split by blast
  moreover have "butlast (split_lines got) @ [last (split_lines got)] = split_lines got" by simp
  ultimately show ?thesis using assms(1) by (auto simp: finish_def validate_line_size_def file_lines_def Let_def)
qed

lemma flush_rest:
  assumes "splittable st (snd k) ft h all" and "reading st k ft h n0 pre all bss w"
  shows "\<exists>w' bss'. run_flush k w = (Inr (), w') \<and> batched st k ft h n0 pre (tl all) bss' w' \<and> concat bss' = tl all"
proof (cases "fl_batch_lines (sg_file w) = []")
  case True
  with assms(2) show ?thesis by (auto simp: run_flush_def act_defs reading_def batched_def)
next
  case False
  have "all \<noteq> []" "sendable (snd k) h all" using assms(1) by (auto simp: splittable_def)
  moreover have "set (tl all) \<subseteq> set all" "length (tl all) \<le> length all" using \<open>all \<noteq> []\<close> by (auto dest: list.set_sel(2))
  ultimately obtain w' where w': "run_flush k w = (Inr (), w')" "batched st k ft h n0 pre (tl all) (bss @ [fl_batch_lines (sg_file w)]) w'"
    "fl_batch_lines (sg_file w') = []"
    using flush_sends [of st k ft h n0 pre "tl all" bss w all] assms(2) False splittable_type [OF assms(1)] by (auto simp: reading_def)
  then have "concat (bss @ [fl_batch_lines (sg_file w)]) = tl all" by (simp add: batched_def)
  with w' show ?thesis by blast
qed

text \<open>What the EOF of a file announces: the data lines of a transactions file, the batches of an accounts file.\<close>

definition announced :: "int \<Rightarrow> int \<Rightarrow> bytes list list \<Rightarrow> int" where
  "announced ft n0 bss = (if ft = FILE_TYPE_TRANSACTIONS then int (length (concat bss)) else n0 + int (length bss))"

definition file_sent ::
  "splitter_settings \<Rightarrow> pystr \<Rightarrow> int \<Rightarrow> pystr list \<Rightarrow> int \<Rightarrow> bytes list \<Rightarrow> emitted_output list \<Rightarrow> bool" where
  "file_sent st path ft h n0 data outs \<longleftrightarrow>
     (\<exists>bss batches eof. outs = batches @ [(edge_of ft, MT_EOF, eof)] \<and> concat bss = data \<and> [] \<notin> set bss \<and>
        list_all2 (says_batch st ft) batches (line_batches ft path h 0 2 bss) \<and>
        deserialize_control eof = Inr \<lparr>cm_sender_id = sl_splitter_id st, expected_total = announced ft n0 bss, processed_count = 0\<rparr>)"

lemma finish_read:
  assumes "splittable st (snd k) ft h (file_lines got)" and "split_at st k ft h n0 pre got f counts" and "fl_file_type f = Some ft"
    and "short_lines (sl_max_line_bytes st) (split_lines got)" and "0 \<le> n0" and "n0 + int (length (file_lines got)) \<le> U32"
    and "0 \<le> sl_splitter_id st" and "sl_splitter_id st \<le> U32"
  shows "\<exists>w out. run_finish st k \<lparr>sg_file = f, sg_counts = counts, sg_out = Some []\<rparr> = (Inr (), w) \<and> sg_out w = Some out \<and>
    file_sent st (snd k) ft h n0 (tl (file_lines got)) (pre @ out)"
proof -
  let ?all = "file_lines got" and ?w = "\<lparr>sg_file = f, sg_counts = counts, sg_out = Some []\<rparr>"
  have "reading st k ft h n0 pre ls bss \<lparr>sg_file = f\<lparr>fl_file_type := Some ft\<rparr>, sg_counts = counts, sg_out = Some []\<rparr> =
      reading st k ft h n0 pre ls bss ?w" for ls bss
    using assms(3) by (simp add: reading_def batched_def)
  with assms(2) obtain bss where sp: "fl_splitter f = \<lparr>max_line_bytes = sl_max_line_bytes st, expected_offset = int (length got),
      pending_bytes = last (split_lines got)\<rparr>" and read: "reading st k ft h n0 pre (butlast (split_lines got)) bss ?w"
    by (auto simp: split_at_def)
  obtain sp' new where fin: "finish (fl_splitter f) = (Inr new, sp')" "butlast (split_lines got) @ new = ?all"
    using finish_lines [OF sp assms(4)] by blast
  define w1 where "w1 = ?w\<lparr>sg_file := (sg_file ?w)\<lparr>fl_splitter := sp'\<rparr>\<rparr>"
  have "reading st k ft h n0 pre (butlast (split_lines got)) bss w1" unfolding w1_def reading_frame by (rule read)
  from lines_read [OF assms(1) _ this, of new] fin(2) obtain w2 bss2 where
    w2: "afor (run_line st k) new w1 = (Inr (), w2)" "reading st k ft h n0 pre ?all bss2 w2" by auto
  from flush_rest [OF assms(1) w2(2)] obtain w3 bss3 where
    w3: "run_flush k w2 = (Inr (), w3)" "batched st k ft h n0 pre (tl ?all) bss3 w3" "concat bss3 = tl ?all" by blast
  obtain out where out: "sg_out w3 = Some out" "list_all2 (says_batch st ft) (pre @ out) (line_batches ft (snd k) h 0 2 bss3)"
    and inv: "fl_file_type (sg_file w3) = Some ft" "fl_data_lines_emitted (sg_file w3) = int (length (concat bss3))" "[] \<notin> set bss3"
      "ft = FILE_TYPE_ACCOUNTS \<longrightarrow> dget (sg_counts w3) (fst k) 0 = n0 + int (length bss3)"
    using w3(2) by (auto simp: batched_def)
  have "length bss3 \<le> length ?all" "length (concat bss3) \<le> length ?all" using length_le_concat [OF inv(3)] w3(3) by auto
  then have "0 \<le> announced ft n0 bss3" "announced ft n0 bss3 \<le> U32" using assms(5,6) by (auto simp: announced_def)
  then obtain eof where eof: "sf_eof_payload st (announced ft n0 bss3) = Inr eof"
    using assms(7,8) by (auto simp: sf_eof_payload_def serialize_control_def pack_uint_def U32_def)
  have type: "ft = FILE_TYPE_TRANSACTIONS \<or> ft = FILE_TYPE_ACCOUNTS \<and> sl_accounts_enabled st" using assms(1) by (simp add: splittable_def)
  have "\<exists>w. run_finish st k ?w = (Inr (), w) \<and> sg_out w = Some (out @ [(edge_of ft, MT_EOF, eof)])"
    using fin(1) w2(1) w3(1) out(1) inv eof type
    by (auto simp: run_finish_def act_defs on_splitter_def w1_def is_accounts_def emit_output_def announced_def edge_of_def
        FILE_TYPE_TRANSACTIONS_def FILE_TYPE_ACCOUNTS_def Let_def)
  moreover have "deserialize_control eof = Inr \<lparr>cm_sender_id = sl_splitter_id st, expected_total = announced ft n0 bss3, processed_count = 0\<rparr>"
    using eof unfolding sf_eof_payload_def by (rule control_roundtrip)
  ultimately show ?thesis using out(2) w3(3) inv(3) unfolding file_sent_def by fastforce
qed

subsection \<open>Files\<close>

text \<open>Changes as the worker runs them: the outputs are computed first, then the change is applied.\<close>

fun sf_run :: "splitter_settings \<Rightarrow> json list \<Rightarrow> file_splitter \<Rightarrow> (emitted_output list \<times> file_splitter) res" where
  "sf_run st [] s = Inr ([], s)"
| "sf_run st (ch # chs) s =
     rbind (sf_simulate st ch s) (\<lambda>out.
     (case sf_apply_change st ch s of
        (Inl e, _) \<Rightarrow> Inl e
      | (Inr _, s') \<Rightarrow> rbind (sf_run st chs s') (\<lambda>(rest, s''). Inr (out @ rest, s''))))"

fun chunk_changes :: "int \<Rightarrow> pystr \<Rightarrow> int \<Rightarrow> int \<Rightarrow> bytes list \<Rightarrow> json list" where
  "chunk_changes c path ft offset [] = []"
| "chunk_changes c path ft offset (p # ps) =
     sf_chunk_change c path ft offset p # chunk_changes c path ft (offset + int (length p)) ps"

lemma sf_run_append:
  "sf_run st xs s = Inr (outs, s1) \<Longrightarrow> sf_run st ys s1 = Inr (rest, s2) \<Longrightarrow> sf_run st (xs @ ys) s = Inr (outs @ rest, s2)"
proof (induction xs arbitrary: s outs)
  case (Cons ch xs)
  from Cons.prems(1) obtain out rest' s' where 1: "sf_simulate st ch s = Inr out" "sf_apply_change st ch s = (Inr (), s')"
    "sf_run st xs s' = Inr (rest', s1)" "outs = out @ rest'"
    by (cases "sf_apply_change st ch s"; cases "fst (sf_apply_change st ch s)") auto
  from Cons.IH [OF 1(3) Cons.prems(2)] 1 show ?case by simp
qed simp

lemma change_keys [simp]:
  "change_key (sf_chunk_change c path ft offset p) = Inr (c, path)" "change_key (sf_file_eof_change c path) = Inr (c, path)"
  by (simp_all add: change_key_def sf_chunk_change_def sf_file_eof_change_def jget_simps)

definition file_found :: "splitter_settings \<Rightarrow> file_key \<Rightarrow> file_splitter \<Rightarrow> file_state res" where
  "file_found st k s = (case map_of (sf_files s) k of None \<Rightarrow> new_file_state st | Some f \<Rightarrow> Inr f)"

lemma chunk_step:
  assumes "splittable st (snd k) ft h all" and "file_found st k s = Inr f" and "split_at st k ft h n0 pre got f (sf_accounts_batches s)"
    and "short_lines (sl_max_line_bytes st) (split_lines (got @ payload))" and "prefix (butlast (split_lines (got @ payload))) all"
  shows "\<exists>out s' f'. sf_simulate st (sf_chunk_change (fst k) (snd k) ft (int (length got)) payload) s = Inr out \<and>
    sf_apply_change st (sf_chunk_change (fst k) (snd k) ft (int (length got)) payload) s = (Inr (), s') \<and>
    map_of (sf_files s') k = Some f' \<and> fl_file_type f' = Some ft \<and> split_at st k ft h n0 (pre @ out) (got @ payload) f' (sf_accounts_batches s')"
proof -
  let ?ch = "sf_chunk_change (fst k) (snd k) ft (int (length got)) payload"
  obtain f' counts' out where run: "run_chunk st k ?ch \<lparr>sg_file = f, sg_counts = sf_accounts_batches s, sg_out = Some []\<rparr> =
      (Inr (), \<lparr>sg_file = f', sg_counts = counts', sg_out = Some out\<rparr>)"
    and after: "split_at st k ft h n0 (pre @ out) (got @ payload) f' counts'" "fl_file_type f' = Some ft"
    using chunk_read [OF assms(1,3-5)] by blast
  have kind: "jget_str ?ch ''type'' = Inr (lit ''chunk'')" "change_key ?ch = Inr k"
    by (simp_all add: sf_chunk_change_def jget_simps change_key_def)
  have "sf_simulate st ?ch s = Inr out"
    using kind assms(2) run by (simp add: sf_simulate_def collected_def file_found_def)
  moreover have "\<exists>s'. sf_apply_change st ?ch s = (Inr (), s') \<and> map_of (sf_files s') k = Some f' \<and> sf_accounts_batches s' = counts'"
    using kind assms(2) in_place_as_collected [OF same_collected_chunk run, of k]
    by (simp add: sf_apply_change_def sf_apply_chunk_def act_defs file_found_def)
  ultimately show ?thesis using after by auto
qed

lemma butlast_lines_prefix: "prefix (butlast (split_lines xs)) (file_lines (xs @ ys))"
proof -
  have "split_lines (xs @ ys) = butlast (split_lines xs) @ split_lines (last (split_lines xs) @ ys)" by (rule split_lines_append)
  then show ?thesis by (simp add: file_lines_def Let_def butlast_append)
qed

lemma chunks_run:
  assumes "splittable st (snd k) ft h (file_lines (got @ concat cks))"
    and "short_lines (sl_max_line_bytes st) (split_lines (got @ concat cks))"
    and "file_found st k s = Inr f" and "split_at st k ft h n0 pre got f (sf_accounts_batches s)"
  shows "\<exists>outs s' f'. sf_run st (chunk_changes (fst k) (snd k) ft (int (length got)) cks) s = Inr (outs, s') \<and> file_found st k s' = Inr f' \<and>
    split_at st k ft h n0 (pre @ outs) (got @ concat cks) f' (sf_accounts_batches s') \<and>
    (cks \<noteq> [] \<longrightarrow> map_of (sf_files s') k = Some f' \<and> fl_file_type f' = Some ft)"
  using assms
proof (induction cks arbitrary: got s f pre)
  case Nil
  then show ?case by auto
next
  case (Cons p cks)
  have short: "short_lines (sl_max_line_bytes st) (split_lines (got @ p))"
    using short_lines_prefix [of "sl_max_line_bytes st" "got @ p" "concat cks"] Cons.prems(2) by simp
  have pre: "prefix (butlast (split_lines (got @ p))) (file_lines (got @ concat (p # cks)))"
    using butlast_lines_prefix [of "got @ p" "concat cks"] by simp
  obtain out s1 f1 where step: "sf_simulate st (sf_chunk_change (fst k) (snd k) ft (int (length got)) p) s = Inr out"
    "sf_apply_change st (sf_chunk_change (fst k) (snd k) ft (int (length got)) p) s = (Inr (), s1)"
    and f1: "map_of (sf_files s1) k = Some f1" "fl_file_type f1 = Some ft" "split_at st k ft h n0 (pre @ out) (got @ p) f1 (sf_accounts_batches s1)"
    using chunk_step [OF Cons.prems(1,3,4) short pre] by blast
  have found: "file_found st k s1 = Inr f1" using f1(1) by (simp add: file_found_def)
  obtain outs s' f' where rest: "sf_run st (chunk_changes (fst k) (snd k) ft (int (length (got @ p))) cks) s1 = Inr (outs, s')"
    "file_found st k s' = Inr f'" "split_at st k ft h n0 ((pre @ out) @ outs) ((got @ p) @ concat cks) f' (sf_accounts_batches s')"
    "cks \<noteq> [] \<longrightarrow> map_of (sf_files s') k = Some f' \<and> fl_file_type f' = Some ft"
    using Cons.IH [OF _ _ found f1(3)] Cons.prems(1,2) by auto
  have "map_of (sf_files s') k = Some f' \<and> fl_file_type f' = Some ft"
  proof (cases "cks = []")
    case True
    with rest(1,2) found f1(1,2) show ?thesis by simp
  qed (use rest(4) in simp)
  with step rest show ?case by (intro exI [of _ "out @ outs"] exI [of _ s'] exI [of _ f']) simp
qed

text \<open>
  C13: a file becomes batches of its lines, however it was cut into chunks. For a transactions file, or an accounts file
  where these are wanted, with a header that parses, no line over the line limit and lengths and counts that fit their fields: the splitter takes the chunks in order and the EOF, and sends batches that a receiver reads as
  consecutive runs of the data lines, none empty, numbered from 0, with the header's columns and the number of their first line in the
  file, 2 for the first; together they are all the lines but the header, in order. The packet that
  carries a batch of more than one line, its addressed header included, is within the limit for an accounts file, and at most 8 bytes over
  it for a transactions file, whose header is counted 8 bytes short. One EOF follows, with the number of lines, or of the batches for accounts; and the file is forgotten.
\<close>

theorem file_split_into_batches:
  assumes "map_of (sf_files s) (c, path) = None" and "0 < sl_max_line_bytes st"
    and "short_lines (sl_max_line_bytes st) (split_lines (concat cks))" and "splittable st path ft h (file_lines (concat cks))"
    and "n0 = sf_accounts_batches_for_client c s" and "0 \<le> n0" and "n0 + int (length (file_lines (concat cks))) \<le> U32"
    and "0 \<le> sl_splitter_id st" and "sl_splitter_id st \<le> U32"
  shows "\<exists>outs s'. sf_run st (chunk_changes c path ft 0 cks @ [sf_file_eof_change c path]) s = Inr (outs, s') \<and>
    file_sent st path ft h n0 (tl (file_lines (concat cks))) outs \<and> map_of (sf_files s') (c, path) = None"
proof -
  let ?k = "(c, path)" and ?file = "concat cks"
  obtain f where f: "new_file_state st = Inr f" using assms(2) by (auto simp: new_file_state_def new_splitter_def)
  have "split_at st ?k ft h n0 [] [] f (sf_accounts_batches s)"
    using assms(5) by (intro split_at_new [OF f]) (simp add: sf_accounts_batches_for_client_def)
  with chunks_run [of st ?k ft h "[]" cks s f n0 "[]"] f assms(1,3,4) obtain outs s1 f1 where
    run: "sf_run st (chunk_changes c path ft 0 cks) s = Inr (outs, s1)"
    and f1: "split_at st ?k ft h n0 outs ?file f1 (sf_accounts_batches s1)" "cks \<noteq> [] \<longrightarrow> map_of (sf_files s1) ?k = Some f1 \<and> fl_file_type f1 = Some ft"
    by (auto simp: file_found_def)
  have "cks \<noteq> []" using assms(4) by (auto simp: splittable_def file_lines_def)
  with f1 have known: "map_of (sf_files s1) ?k = Some f1" "fl_file_type f1 = Some ft" by simp_all
  obtain w out where fin: "run_finish st ?k \<lparr>sg_file = f1, sg_counts = sf_accounts_batches s1, sg_out = Some []\<rparr> = (Inr (), w)" "sg_out w = Some out"
    and sent: "file_sent st path ft h n0 (tl (file_lines ?file)) (outs @ out)"
    using finish_read [OF _ f1(1) known(2) assms(3,6-9)] assms(4) by auto
  have kind: "jget_str (sf_file_eof_change c path) ''type'' = Inr (lit ''file_eof'')" by (simp add: sf_file_eof_change_def jget_simps)
  have "sf_simulate st (sf_file_eof_change c path) s1 = Inr out"
    using kind known(1) fin by (simp add: sf_simulate_def collected_def)
  moreover have "\<exists>s'. sf_apply_change st (sf_file_eof_change c path) s1 = (Inr (), s') \<and> map_of (sf_files s') ?k = None"
    using kind known(1) in_place_as_collected [OF same_collected_finish fin(1), of ?k]
    by (simp add: sf_apply_change_def finish_and_remove_def act_defs)
  ultimately obtain s' where "sf_run st [sf_file_eof_change c path] s1 = Inr (out, s')" "map_of (sf_files s') ?k = None" by auto
  with sf_run_append [OF run this(1)] sent show ?thesis by blast
qed

text \<open>A header \<open>a\<close> and the lines \<open>1\<close> and \<open>22\<close>, in two chunks cut within the first line of data.\<close>

definition demo_splitter :: splitter_settings where
  "demo_splitter = \<lparr>sl_max_line_bytes = 10, sl_max_batch_bytes = 58, sl_splitter_id = 1, sl_accounts_enabled = True\<rparr>"

lemma demo_file: "file_lines (concat [[97, 10, 49], [10, 50, 50, 10]]) = [[97], [49], [50, 50]]"
  by (simp add: file_lines_def Let_def)

lemma demo_splittable: "splittable demo_splitter [116] 1 [[97]] [[97], [49], [50, 50]]"
proof -
  have "utf8_encode (py_join [44] [[97]]) = Inr [97]" by (simp add: utf8_encode_ascii ascii_def byte_of_def)
  then have "parse_csv_line [97] = Inr [[97]]"
    by (intro parse_csv_cells [of _ "[[97]]"]) (simp_all add: csv_cell_def csv_plain_def csv_field_limit_def)
  then show ?thesis
    by (simp add: splittable_def sendable_def encode_sized_def utf8_encode_ascii ascii_def validate_uint_def U32_def clean_line_def
        FILE_TYPE_TRANSACTIONS_def)
qed

theorem file_split_into_batches_witness:
  "\<exists>outs s'. sf_run demo_splitter (chunk_changes 7 [116] 1 0 [[97, 10, 49], [10, 50, 50, 10]] @ [sf_file_eof_change 7 [116]]) new_file_splitter =
       Inr (outs, s') \<and>
     file_sent demo_splitter [116] 1 [[97]] 0 [[49], [50, 50]] outs \<and> map_of (sf_files s') (7, [116]) = None"
proof -
  have "map_of (sf_files new_file_splitter) (7, [116]) = None" "0 < sl_max_line_bytes demo_splitter"
    "short_lines (sl_max_line_bytes demo_splitter) (split_lines (concat [[97, 10, 49], [10, 50, 50, 10]]))"
    by (simp_all add: new_file_splitter_def demo_splitter_def short_lines_def)
  from file_split_into_batches [OF this, of 1 "[[97]]" 0, unfolded demo_file] demo_splittable show ?thesis
    by (simp add: sf_accounts_batches_for_client_def new_file_splitter_def demo_splitter_def U32_def)
qed

end
