(* ===== verification/FileSplitter.thy ===== *)
theory FileSplitter
  imports FileSplitterRuns
begin

text \<open>
  \<open>workers/file_splitter/file_splitter.py\<close>: the worker around the state. A chunk is recognised by its offset: the next one
  is new, the one just before it may have to be sent again, any other is done. The inbox knows a file by the CRC of its
  path and a chunk by its ordinal in the file.
\<close>

unbundle bit_operations_syntax

subsection \<open>The worker\<close>

text \<open>\<open>zlib.crc32\<close>: the reflected CRC-32 with inverted start and result.\<close>

definition crc_shift :: "32 word \<Rightarrow> 32 word" where
  "crc_shift r = (if bit r 0 then drop_bit 1 r XOR 0xEDB88320 else drop_bit 1 r)"

definition crc_byte :: "32 word \<Rightarrow> byte \<Rightarrow> 32 word" where
  "crc_byte r b = (crc_shift ^^ 8) (r XOR ucast b)"

definition crc32 :: "bytes \<Rightarrow> 32 word" where
  "crc32 data = NOT (foldl crc_byte (NOT 0) data)"

definition sender_id_for_path :: "pystr \<Rightarrow> int res" where
  "sender_id_for_path rel_path = rbind (utf8_encode rel_path) (\<lambda>b. Inr (uint (crc32 b)))"

definition CLIENT_EOF_SENDER :: int where "CLIENT_EOF_SENDER = 0xFFFFFFFF"
definition ABORT_SENDER :: int where "ABORT_SENDER = 0"

definition MSG_CHUNK :: int where "MSG_CHUNK = 1"
definition MSG_EOF :: int where "MSG_EOF = 2"
definition MSG_ABORT :: int where "MSG_ABORT = 3"

record file_splitter_config =
  sc_id :: int
  sc_output_routing_prefix :: pystr
  sc_output_shard_count :: int
  sc_max_line_bytes :: int
  sc_max_batch_bytes :: int
  sc_input_routing_key :: "pystr option"
  sc_accounts_output_queue :: "pystr option"

definition sc_settings :: "file_splitter_config \<Rightarrow> splitter_settings" where
  "sc_settings cfg =
     \<lparr>sl_max_line_bytes = sc_max_line_bytes cfg, sl_max_batch_bytes = sc_max_batch_bytes cfg, sl_splitter_id = sc_id cfg,
      sl_accounts_enabled = (sc_accounts_output_queue cfg \<noteq> None)\<rparr>"

definition sc_output_edges :: "file_splitter_config \<Rightarrow> (pystr \<times> edge_spec) list" where
  "sc_output_edges cfg =
     [(LINE_BATCH_EDGE, \<lparr>edge_sender_id = sc_id cfg, shard_count = sc_output_shard_count cfg\<rparr>)] @
     (if sc_accounts_output_queue cfg \<noteq> None then [(ACCOUNTS_EDGE, \<lparr>edge_sender_id = sc_id cfg, shard_count = 1\<rparr>)] else [])"

definition sc_publishers :: "file_splitter_config \<Rightarrow> pystr list" where
  "sc_publishers cfg = LINE_BATCH_EDGE # (if sc_accounts_output_queue cfg \<noteq> None then [ACCOUNTS_EDGE] else [])"

definition line_batch_bindings :: "file_splitter_config \<Rightarrow> (pystr \<times> pystr) list res" where
  "line_batch_bindings cfg =
     rbind (rmap (\<lambda>index. queue_name_for_worker (sc_output_routing_prefix cfg) index [95]) [0..sc_output_shard_count cfg - 1]) (\<lambda>names.
     Inr (py_dict (map (\<lambda>name. (name, name)) names)))"

definition sc_routing_key :: "file_splitter_config \<Rightarrow> pystr" where
  "sc_routing_key cfg =
     (case sc_input_routing_key cfg of
        Some key \<Rightarrow> if key = [] then file_ingestor_routing_key (sc_id cfg) else key
      | None \<Rightarrow> file_ingestor_routing_key (sc_id cfg))"

definition sc_business_fn :: "file_splitter_config \<Rightarrow> json \<Rightarrow> bytes \<Rightarrow> (file_splitter, json \<times> logical_output list) act" where
  "sc_business_fn cfg change payload =
     abind (alift (rbind (jget_int change ''client_id'') client_id_to_bytes)) (\<lambda>client_bytes.
     abind (alift (jget_str change ''type'')) (\<lambda>kind.
     if kind = lit ''abort'' then
       abind (alift (create_packet (message_type_value MT_ABORT) client_bytes [])) (\<lambda>abort_body.
       areturn (change, concat (map (\<lambda>edge. map (\<lambda>shard. Out3 edge abort_body (Some shard)) [0..sc_output_shard_count cfg - 1])
         (sc_publishers cfg))))
     else
       abind (aget (sf_simulate (sc_settings cfg) change)) (\<lambda>simulated.
       abind (alift (rbind simulated (rmap (\<lambda>(edge, msg_type, payload).
         rbind (create_packet (message_type_value msg_type) client_bytes payload) (\<lambda>body. Inr (Out2 edge body)))))) (\<lambda>logical.
       areturn (change, logical)))))"

type_synonym splitter_runner = "(file_splitter, file_splitter_dict option) runner"

definition sc_run ::
  "file_splitter_config \<Rightarrow> (outbox_entry \<Rightarrow> py_error option) \<Rightarrow> pystr \<Rightarrow> int \<Rightarrow> int \<Rightarrow> int \<Rightarrow> json \<Rightarrow> msg_kind \<Rightarrow>
   splitter_runner \<Rightarrow> delivery \<times> splitter_runner" where
  "sc_run cfg send msg_id client_id sender_id seq change kind =
     attempt (run_message (file_splitter_ops (sc_settings cfg)) (sc_publishers cfg) send msg_id client_id sender_id seq []
       (sc_business_fn cfg change) kind)"

definition chunk_msg_id :: "int \<Rightarrow> int \<Rightarrow> pystr" where
  "chunk_msg_id sender_id offset = lit ''d:'' @ int_str sender_id @ [58] @ int_str offset"

definition dispatch_chunk ::
  "file_splitter_config \<Rightarrow> (outbox_entry \<Rightarrow> py_error option) \<Rightarrow> file_chunk \<Rightarrow> splitter_runner \<Rightarrow> delivery \<times> splitter_runner" where
  "dispatch_chunk cfg send chunk r =
     (let client_id = fh_client_id (fc_header chunk); rel_path = fh_rel_path (fc_header chunk); k = (client_id, rel_path);
          offset = fh_offset (fc_header chunk); payload = fc_data chunk in
      (case sender_id_for_path rel_path of
         Inl _ \<Rightarrow> (Nacked True, r)
       | Inr sender_id \<Rightarrow>
           (let state = h_worker (r_handler r); expected = sf_expected_offset k state;
                run = (\<lambda>seq. sc_run cfg send (chunk_msg_id sender_id offset) client_id sender_id seq
                  (sf_chunk_change client_id rel_path (fh_file_type (fc_header chunk)) offset payload) DATA r) in
            if offset = expected then run (sf_next_ordinal k state)
            else if offset + int (length payload) = expected then run (sf_next_ordinal k state - 1)
            else (Acked, r))))"

definition dispatch_file_eof ::
  "file_splitter_config \<Rightarrow> (outbox_entry \<Rightarrow> py_error option) \<Rightarrow> file_eof \<Rightarrow> splitter_runner \<Rightarrow> delivery \<times> splitter_runner" where
  "dispatch_file_eof cfg send eof r =
     (case sender_id_for_path (fe_rel_path eof) of
        Inl _ \<Rightarrow> (Nacked True, r)
      | Inr sender_id \<Rightarrow>
          sc_run cfg send (lit ''e:'' @ int_str sender_id) (fe_client_id eof) sender_id 0
            (sf_file_eof_change (fe_client_id eof) (fe_rel_path eof)) CTRL_UPSTREAM_EOF r)"

definition dispatch_client_eof ::
  "file_splitter_config \<Rightarrow> (outbox_entry \<Rightarrow> py_error option) \<Rightarrow> int \<Rightarrow> splitter_runner \<Rightarrow> delivery \<times> splitter_runner" where
  "dispatch_client_eof cfg send client_id =
     sc_run cfg send (lit ''c:'' @ int_str client_id) client_id CLIENT_EOF_SENDER 0 (sf_client_eof_change client_id) CTRL_UPSTREAM_EOF"

definition dispatch_abort ::
  "file_splitter_config \<Rightarrow> (outbox_entry \<Rightarrow> py_error option) \<Rightarrow> int \<Rightarrow> splitter_runner \<Rightarrow> delivery \<times> splitter_runner" where
  "dispatch_abort cfg send client_id =
     sc_run cfg send (lit ''abort:'' @ int_str client_id) client_id ABORT_SENDER 0 (sf_abort_change client_id) ABORT"

text \<open>\<open>_deserialize_eof\<close>: four bytes are the EOF of a client.\<close>

definition splitter_eof :: "bytes \<Rightarrow> (int + file_eof) res" where
  "splitter_eof payload =
     (if length payload = 4 then Inr (Inl (int (be_nat payload)))
      else rbind (deserialize_file_eof payload) (\<lambda>eof. Inr (Inr eof)))"

definition splitter_on_message ::
  "file_splitter_config \<Rightarrow> (outbox_entry \<Rightarrow> py_error option) \<Rightarrow> bytes \<Rightarrow> splitter_runner \<Rightarrow> delivery \<times> splitter_runner" where
  "splitter_on_message cfg send message r =
     (case message of
        [] \<Rightarrow> (Nacked True, r)
      | b # payload \<Rightarrow>
          (let msg_type = uint b in
           if msg_type = MSG_CHUNK then
             (case deserialize_file_chunk payload of Inl _ \<Rightarrow> (Nacked True, r) | Inr chunk \<Rightarrow> dispatch_chunk cfg send chunk r)
           else if msg_type = MSG_EOF then
             (case splitter_eof payload of
                Inl _ \<Rightarrow> (Nacked True, r)
              | Inr (Inr eof) \<Rightarrow> dispatch_file_eof cfg send eof r
              | Inr (Inl client_id) \<Rightarrow> dispatch_client_eof cfg send client_id r)
           else if msg_type = MSG_ABORT then dispatch_abort cfg send (int (be_nat (take 4 payload))) r
           else (Nacked True, r)))"

definition splitter_start :: "file_splitter_config \<Rightarrow> (outbox_entry \<Rightarrow> py_error option) \<Rightarrow> (splitter_runner, unit) act" where
  "splitter_start cfg send = recover_and_republish (file_splitter_ops (sc_settings cfg)) (sc_publishers cfg) send"

text \<open>
  The packet of a batch as it is sent: the sequencer stamps an addressed one, 8 bytes longer than the plain packet that is
  counted for a transactions file.
\<close>

lemma batch_packet_sent:
  assumes "client_id_to_bytes c = Inr client_bytes" and "create_packet (message_type_value MT_DATA) client_bytes p = Inr pkt"
    and "edges sq = sc_output_edges cfg" and "stamp c m [Out2 dest pkt] sq = Inr [e]" and "dest \<in> set (sc_publishers cfg)"
  shows "int (length (body e)) = packet_bytes p"
proof -
  have "unpack_packet pkt = Inr (message_type_value MT_DATA, c, p)" by (rule packet_roundtrip [OF assms(2,1)])
  with assms(3-5) obtain cb q where "create_addressed_packet (message_type_value MT_DATA) cb (sc_id cfg) q p = Inr (body e)"
    by (auto simp: stamp_def sc_output_edges_def sc_publishers_def Let_def split: option.splits if_splits)
  then show ?thesis by (rule addressed_packet_bytes)
qed

subsection \<open>A chunk that is delivered again\<close>

lemma run_message_new:
  assumes "classify (h_inbox (r_handler r)) c s q k = NEW" and "run_message W ps send m c s q p f k r = (Inr u, r')"
  shows "\<exists>ch outs s1. f p (h_worker (r_handler r)) = (Inr (ch, outs), s1) \<and> apply_change W ch s1 = (Inr (), h_worker (r_handler r'))"
proof -
  obtain x h1 where new: "apply_new W m c s q p f k (r_handler r) = (x, h1)" by fastforce
  with assms obtain v where x: "x = Inr v"
    by (cases x) (auto simp: run_message_def on_handler_def act_defs handle_classified)
  let ?es = "entries_for_input c m (h_outbox h1)"
  have h: "handle W m c s q p f k (r_handler r) = (Inr (PublishThenCommit ?es (m, c, s, q, k)), h1)"
    using assms(1) new x by (simp add: handle_classified)
  obtain y r1 where pub: "publish ps send ?es (r\<lparr>r_handler := h1\<rparr>) = (y, r1)" by fastforce
  have "r_handler r1 = h1" using publish_frame [OF pub] by simp
  with run_message_publish [OF h pub] assms(2) have "h_worker (r_handler r') = h_worker h1"
    using commit_done_memory(1) by (cases y) (auto split: prod.splits sum.splits)
  moreover from new [unfolded x] obtain ch outs s1 s' where "f p (h_worker (r_handler r)) = (Inr (ch, outs), s1)"
    "apply_change W ch s1 = (Inr (), s')" "h_worker h1 = s'"
    by (elim apply_newE) simp
  ultimately show ?thesis by auto
qed

lemma run_line_chunks: "keeps (\<lambda>w. fl_chunks_received (sg_file w)) (run_line st k line)"
proof -
  have on_f: "keeps (\<lambda>w. fl_chunks_received (sg_file w)) (on_file g)" if "\<And>f. fl_chunks_received (g f) = fl_chunks_received f" for g
    using that by (simp add: keeps_def on_file_def amodify_def)
  have emit: "keeps (\<lambda>w. fl_chunks_received (sg_file w)) (emit_output edge t payload)" for edge t payload
    by (simp add: keeps_def emit_output_def split: option.split sum.split)
  show ?thesis
    unfolding run_line_def run_accumulate_def run_flush_def Let_def
    by (intro keeps_intros keeps_if emit on_f; simp)
qed

text \<open>A chunk that was taken starts where the file had come, and moves it on by its length.\<close>

lemma run_chunk_taken:
  assumes "run_chunk st k (sf_chunk_change c path ft offset p) w = (Inr (), w')"
  shows "offset = expected_offset (fl_splitter (sg_file w)) \<and> expected_offset (fl_splitter (sg_file w')) = offset + int (length p) \<and>
    fl_chunks_received (sg_file w') = fl_chunks_received (sg_file w) + 1"
proof -
  let ?ch = "sf_chunk_change c path ft offset p"
  have fields: "jget_int ?ch ''file_type'' = Inr ft" "rbind (jget_str ?ch ''payload_b64'') b64decode = Inr p" "jget_int ?ch ''offset'' = Inr offset"
    by (simp_all add: sf_chunk_change_def jget_simps b64_roundtrip)
  from assms obtain w1 w2 w3 lines where
    1: "(if fl_file_type (sg_file w) = None then abind (alift (Inr ft)) (\<lambda>n. on_file (\<lambda>f. f\<lparr>fl_file_type := Some n\<rparr>))
         else areturn ()) w = (Inr (), w1)"
    and 2: "on_splitter (push offset p) w1 = (Inr lines, w2)" and 3: "afor (run_line st k) lines w2 = (Inr (), w3)"
    and 4: "w' = w3\<lparr>sg_file := (sg_file w3)\<lparr>fl_bytes_received := fl_bytes_received (sg_file w3) + int (length p),
      fl_chunks_received := fl_chunks_received (sg_file w3) + 1\<rparr>\<rparr>"
    by (auto simp: run_chunk_def abind_eq_Inr aget_def alift_def on_file_apply fields split: if_splits)
  have w1: "fl_splitter (sg_file w1) = fl_splitter (sg_file w)" "fl_chunks_received (sg_file w1) = fl_chunks_received (sg_file w)"
    using 1 by (auto simp: act_defs on_file_apply split: if_splits)
  have w2: "offset = expected_offset (fl_splitter (sg_file w1))" "expected_offset (fl_splitter (sg_file w2)) = offset + int (length p)"
    "fl_chunks_received (sg_file w2) = fl_chunks_received (sg_file w1)"
    using 2 by (auto simp: on_splitter_def push_def Let_def split: if_splits sum.splits prod.splits)
  have "fl_splitter (sg_file w3) = fl_splitter (sg_file w2)" "fl_chunks_received (sg_file w3) = fl_chunks_received (sg_file w2)"
    using keepsD [OF keeps_afor [OF run_line_splitter] 3] keepsD [OF keeps_afor [OF run_line_chunks] 3] by simp_all
  with w1 w2 4 show ?thesis by simp
qed

lemma chunk_applied:
  assumes "sf_apply_change st (sf_chunk_change c path ft offset p) s = (Inr (), s')"
  shows "offset = sf_expected_offset (c, path) s \<and> sf_expected_offset (c, path) s' = offset + int (length p) \<and>
    sf_next_ordinal (c, path) s' = sf_next_ordinal (c, path) s + 1"
proof -
  let ?ch = "sf_chunk_change c path ft offset p" and ?k = "(c, path)"
  have "sf_apply_chunk st ?ch s = (Inr (), s')"
    using assms by (simp add: sf_apply_change_def sf_chunk_change_def jget_simps act_defs)
  then obtain f s1 where f: "(case map_of (sf_files s) ?k of None \<Rightarrow> new_file_state st | Some f \<Rightarrow> Inr f) = Inr f"
    and s1: "in_place ?k f (run_chunk st ?k ?ch) s = (Inr (), s1)" "s' = s1\<lparr>sf_chunks_received := sf_chunks_received s1 + 1\<rparr>"
    by (auto simp: sf_apply_chunk_def abind_eq_Inr aget_def alift_def amodify_def)
  from s1(1) obtain w where w: "run_chunk st ?k ?ch \<lparr>sg_file = f, sg_counts = sf_accounts_batches s, sg_out = None\<rparr> = (Inr (), w)"
    "map_of (sf_files s1) ?k = Some (sg_file w)"
    by (auto simp: in_place_def split: prod.splits)
  have "expected_offset (fl_splitter f) = sf_expected_offset ?k s" "fl_chunks_received f = sf_next_ordinal ?k s"
    using f by (auto simp: sf_expected_offset_def sf_next_ordinal_def new_file_state_def new_splitter_def split: option.splits if_splits)
  with run_chunk_taken [OF w(1)] w(2) s1(2) show ?thesis by (simp add: sf_expected_offset_def sf_next_ordinal_def)
qed

lemma sc_business_change:
  assumes "sc_business_fn cfg change p s = (Inr (ch, outs), s1)"
  shows "ch = change \<and> s1 = s"
  using assms by (auto simp: sc_business_fn_def abind_eq_Inr areturn_def alift_def aget_def split: if_splits)

lemma sc_run_again:
  assumes "inbox_wf (h_inbox (r_handler r))" and "sc_run cfg send m c sd q ch k r = (Acked, r1)"
  shows "sc_run cfg send' m c sd q ch k r1 = (Acked, r1)"
proof -
  from assms(2) obtain u where "run_message (file_splitter_ops (sc_settings cfg)) (sc_publishers cfg) send m c sd q [] (sc_business_fn cfg ch) k r = (Inr u, r1)"
    by (auto simp: sc_run_def attempt_def split: prod.splits sum.splits)
  from run_message_acked [OF assms(1) this] show ?thesis by (simp add: sc_run_def attempt_def run_message_done)
qed

lemma sc_run_chunk_state:
  assumes "sc_run cfg send m c sd q (sf_chunk_change c path ft offset p) k r = (Acked, r1)"
  defines "s \<equiv> h_worker (r_handler r)" and "s1 \<equiv> h_worker (r_handler r1)"
  shows "s1 = s \<or> offset = sf_expected_offset (c, path) s \<and> sf_expected_offset (c, path) s1 = offset + int (length p) \<and>
    sf_next_ordinal (c, path) s1 = sf_next_ordinal (c, path) s + 1"
proof -
  let ?W = "file_splitter_ops (sc_settings cfg)" and ?ch = "sf_chunk_change c path ft offset p"
  from assms(1) obtain u where run: "run_message ?W (sc_publishers cfg) send m c sd q [] (sc_business_fn cfg ?ch) k r = (Inr u, r1)"
    by (auto simp: sc_run_def attempt_def split: prod.splits sum.splits)
  show ?thesis
  proof (cases "classify (h_inbox (r_handler r)) c sd q k")
    case NEW
    from run_message_new [OF NEW run] obtain ch outs s2 where
      ch: "sc_business_fn cfg ?ch [] s = (Inr (ch, outs), s2)" "apply_change ?W ch s2 = (Inr (), s1)" by (auto simp: s_def s1_def)
    from sc_business_change [OF ch(1)] ch(2) have "sf_apply_change (sc_settings cfg) ?ch s = (Inr (), s1)"
      by (simp add: file_splitter_ops_def)
    from chunk_applied [OF this] show ?thesis by blast
  next
    case APPLIED
    from run_message_applied(1) [OF APPLIED run] show ?thesis by (simp add: s_def s1_def)
  next
    case DONE
    from run_message_done [OF this] run have "r1 = r" by simp
    then show ?thesis by (simp add: s_def s1_def)
  qed
qed

text \<open>
  C14: a chunk that has been acknowledged is not split a second time. Whatever the state of the worker, when a chunk that is not
  empty was handled and acknowledged, handling the same chunk again acknowledges it and changes nothing: no line is read, nothing
  is logged or sent.
\<close>

theorem redelivered_chunk_ignored:
  assumes "inbox_wf (h_inbox (r_handler r))" and "fc_data chunk \<noteq> []" and "dispatch_chunk cfg send chunk r = (Acked, r1)"
  shows "dispatch_chunk cfg send' chunk r1 = (Acked, r1)"
proof -
  define c path ft offset p where defs: "c = fh_client_id (fc_header chunk)" "path = fh_rel_path (fc_header chunk)"
    "ft = fh_file_type (fc_header chunk)" "offset = fh_offset (fc_header chunk)" "p = fc_data chunk"
  let ?s = "h_worker (r_handler r)" and ?s1 = "h_worker (r_handler r1)" and ?k = "(c, path)"
  obtain sd where sd: "sender_id_for_path path = Inr sd" using assms(3) by (cases "sender_id_for_path path") (auto simp: dispatch_chunk_def Let_def defs)
  let ?run = "\<lambda>send q r. sc_run cfg send (chunk_msg_id sd offset) c sd q (sf_chunk_change c path ft offset p) DATA r"
  have dispatch: "dispatch_chunk cfg send chunk r =
      (let s = h_worker (r_handler r) in
       if offset = sf_expected_offset ?k s then ?run send (sf_next_ordinal ?k s) r
       else if offset + int (length p) = sf_expected_offset ?k s then ?run send (sf_next_ordinal ?k s - 1) r else (Acked, r))" for send r
    using sd by (simp add: dispatch_chunk_def Let_def defs)
  have p: "int (length p) \<noteq> 0" using assms(2) by (simp add: defs)
  consider (here) "offset = sf_expected_offset ?k ?s" | (last) "offset \<noteq> sf_expected_offset ?k ?s" "offset + int (length p) = sf_expected_offset ?k ?s"
    | (other) "offset \<noteq> sf_expected_offset ?k ?s" "offset + int (length p) \<noteq> sf_expected_offset ?k ?s" by blast
  then show ?thesis
  proof cases
    case here
    then have run: "?run send (sf_next_ordinal ?k ?s) r = (Acked, r1)" using assms(3) dispatch by (simp add: Let_def)
    note again = sc_run_again [OF assms(1) run, of send']
    from sc_run_chunk_state [OF run] show ?thesis
    proof
      assume "?s1 = ?s"
      with here again dispatch [of send' r1] show ?thesis by (simp add: Let_def)
    next
      assume "offset = sf_expected_offset ?k ?s \<and> sf_expected_offset ?k ?s1 = offset + int (length p) \<and>
        sf_next_ordinal ?k ?s1 = sf_next_ordinal ?k ?s + 1"
      with again p dispatch [of send' r1] show ?thesis by (simp add: Let_def)
    qed
  next
    case last
    then have run: "?run send (sf_next_ordinal ?k ?s - 1) r = (Acked, r1)" using assms(3) dispatch by (simp add: Let_def)
    note again = sc_run_again [OF assms(1) run, of send']
    from sc_run_chunk_state [OF run] last(1) have "?s1 = ?s" by blast
    with last again dispatch [of send' r1] show ?thesis by (simp add: Let_def)
  next
    case other
    with assms(3) dispatch [of send r] have "r1 = r" by (simp add: Let_def)
    with other dispatch [of send' r1] show ?thesis by (simp add: Let_def)
  qed
qed

subsubsection \<open>An example\<close>

text \<open>A splitter that has seen nothing, and the first byte of a file \<open>t\<close>.\<close>

definition demo_sc :: file_splitter_config where
  "demo_sc = \<lparr>sc_id = 1, sc_output_routing_prefix = [113], sc_output_shard_count = 1, sc_max_line_bytes = 10, sc_max_batch_bytes = 100,
     sc_input_routing_key = None, sc_accounts_output_queue = None\<rparr>"

definition demo_chunk :: file_chunk where
  "demo_chunk = \<lparr>fc_header = \<lparr>fh_rel_path = [116], fh_client_id = 7, fh_file_type = 1, fh_offset = 0, fh_payload_size = 1, fh_path_size = 1\<rparr>,
     fc_data = [97]\<rparr>"

definition idle_splitter :: splitter_runner where
  "idle_splitter = \<lparr>r_handler = \<lparr>h_node_id = [110], snapshot_every = 10, output_edges = [], h_worker = new_file_splitter,
      h_last_state = new_last_state, h_wal = \<lparr>wal_current = Some [], wal_previous = None\<rparr>, h_inbox = new_inbox, h_outbox = [],
      h_sequencer = \<lparr>node_id = [110], edges = [], next_seq = [], next_addr_seq = []\<rparr>,
      applied_since_snapshot = 0\<rparr>, published = []\<rparr>"

lemma length_nat_str: "n < 10 ^ Suc k \<Longrightarrow> length (nat_str n) \<le> Suc k"
proof (induction k arbitrary: n)
  case 0
  then show ?case by (simp add: nat_str.simps [of n])
next
  case (Suc k)
  then have "n div 10 < 10 ^ Suc k" by (simp add: less_mult_imp_div_less)
  from Suc.IH [OF this] show ?case by (subst nat_str.simps) simp
qed

lemma demo_chunk_change:
  "\<exists>s'. sc_business_fn demo_sc (sf_chunk_change 7 [116] 1 0 [97]) [] new_file_splitter =
     (Inr (sf_chunk_change 7 [116] 1 0 [97], []), new_file_splitter) \<and>
   sf_apply_change (sc_settings demo_sc) (sf_chunk_change 7 [116] 1 0 [97]) new_file_splitter = (Inr (), s')"
proof -
  let ?ch = "sf_chunk_change 7 [116] 1 0 [97]" and ?st = "sc_settings demo_sc"
  obtain f where f: "new_file_state ?st = Inr f" by (simp add: new_file_state_def new_splitter_def sc_settings_def demo_sc_def)
  let ?w = "\<lambda>out. \<lparr>sg_file = f, sg_counts = [], sg_out = out\<rparr>"
  have kind: "jget_str ?ch ''type'' = Inr (lit ''chunk'')" "jget_int ?ch ''client_id'' = Inr 7"
    by (simp_all add: sf_chunk_change_def jget_simps)
  have sp: "fl_splitter f = \<lparr>max_line_bytes = 10, expected_offset = 0, pending_bytes = []\<rparr>" "fl_file_type f = None"
    using f by (auto simp: new_file_state_def new_splitter_def sc_settings_def demo_sc_def)
  have "\<exists>w'. run_chunk ?st (7, [116]) ?ch (?w out) = (Inr (), w') \<and> sg_out w' = out" for out
    using sp by (simp add: run_chunk_def sf_chunk_change_def jget_simps b64_roundtrip act_defs on_file_apply on_splitter_def push_def
        validate_line_size_def Let_def)
  then obtain w1 w2 where run: "run_chunk ?st (7, [116]) ?ch (?w (Some [])) = (Inr (), w1)" "sg_out w1 = Some []"
    "run_chunk ?st (7, [116]) ?ch (?w None) = (Inr (), w2)" by metis
  have "sf_simulate ?st ?ch new_file_splitter = Inr []"
    using kind run f by (simp add: sf_simulate_def new_file_splitter_def collected_def)
  moreover obtain cb where "client_id_to_bytes 7 = Inr cb" by (simp add: client_id_to_bytes_def)
  moreover have "\<exists>s'. sf_apply_change ?st ?ch new_file_splitter = (Inr (), s')"
    using kind(1) run(3) f by (simp add: sf_apply_change_def sf_apply_chunk_def act_defs new_file_splitter_def in_place_def)
  ultimately show ?thesis using kind by (auto simp: sc_business_fn_def act_defs)
qed

lemma demo_chunk_acked: "\<exists>r1. dispatch_chunk demo_sc (\<lambda>_. None) demo_chunk idle_splitter = (Acked, r1)"
proof -
  let ?ch = "sf_chunk_change 7 [116] 1 0 [97]"
  obtain sd where sd: "sender_id_for_path [116] = Inr sd" "0 \<le> sd" "sd < 2 ^ 32"
  proof -
    have "uint (crc32 [byte_of 116]) < 2 ^ 32" by (rule order_less_le_trans [OF uint_lt2p]) simp
    then show thesis using that [of "uint (crc32 [byte_of 116])"] by (simp add: sender_id_for_path_def utf8_encode_ascii ascii_def)
  qed
  let ?m = "chunk_msg_id sd 0"
  have "length (nat_str (nat sd)) \<le> Suc 9" by (rule length_nat_str) (use sd(2,3) in simp)
  then have m: "ascii ?m" "length ?m < 2 ^ 16"
    using sd(2) by (simp_all add: chunk_msg_id_def ascii_def lit_def int_str_def nat_str.simps [of 0])
      (use ascii_int_str [of sd] in \<open>simp add: ascii_def int_str_def\<close>)
  have "length (dumps ?ch) < 2 ^ 31"
    by (simp add: sf_chunk_change_def b64encode_def b64_char_def lit_def dumps_str_def escape_char_def int_str_def nat_str.simps)
  then obtain d where d: "encode_record (applied_record ?m 7 sd 0 DATA ?ch []) = Inr d"
    using encode_applied_ok [OF m, of 7 sd 0 ?ch DATA] sd by (auto simp: field_u32_def)
  obtain e where e: "encode_record (done_record ?m 7 sd 0 DATA) = Inr e"
    using encode_done_ok [OF m, of 7 sd 0 DATA] sd by (auto simp: field_u32_def)
  have cl: "classify new_inbox 7 sd 0 DATA = NEW" by (simp add: classify_def new_inbox_def)
  obtain s' where s': "sc_business_fn demo_sc ?ch [] new_file_splitter = (Inr (?ch, []), new_file_splitter)"
    "sf_apply_change (sc_settings demo_sc) ?ch new_file_splitter = (Inr (), s')"
    using demo_chunk_change by blast
  have "sf_expected_offset (7, [116]) new_file_splitter = 0" "sf_next_ordinal (7, [116]) new_file_splitter = 0"
    by (simp_all add: sf_expected_offset_def sf_next_ordinal_def new_file_splitter_def)
  with sd(1) s' show ?thesis
    by (simp add: dispatch_chunk_def demo_chunk_def Let_def sc_run_def attempt_def run_message_def on_handler_def handle_classified idle_splitter_def
        cl apply_new_def handler_act_defs stamp_def observe_outputs_def file_splitter_ops_def wal_append_ok [OF d [unfolded applied_record_def]]
        commit_done_eq wal_append_ok [OF e] entries_for_input_def outbox_add_def publish_def dget_Cons)
qed

theorem redelivered_chunk_ignored_witness:
  "\<exists>r1. dispatch_chunk demo_sc (\<lambda>_. None) demo_chunk idle_splitter = (Acked, r1) \<and>
     dispatch_chunk demo_sc (\<lambda>_. Some OSError) demo_chunk r1 = (Acked, r1)"
proof -
  obtain r1 where r1: "dispatch_chunk demo_sc (\<lambda>_. None) demo_chunk idle_splitter = (Acked, r1)" using demo_chunk_acked by blast
  have "inbox_wf (h_inbox (r_handler idle_splitter))" "fc_data demo_chunk \<noteq> []" by (simp_all add: idle_splitter_def demo_chunk_def)
  from redelivered_chunk_ignored [OF this r1, of "\<lambda>_. Some OSError"] r1 show ?thesis by blast
qed

end
