(* ===== verification/Rates.thy ===== *)
theory Rates
  imports FloatArith StateChange
begin

text \<open>
  Exchange rates: \<open>common/rates/rates_manager.py\<close>, the reference table \<open>common/rates/q5_reference_rates.py\<close> and the
  start and the replies of \<open>rates_service/main.py\<close>. What the HTTP service answers, what is read from the
  cache file and when a shutdown is requested are arguments; a rate is a value of a JSON document that was read.
\<close>

subsection \<open>RatesManager\<close>

datatype rate_value = RateNull | RateInt int | RateFloat double | RateText pystr

type_synonym day_rates = "(pystr \<times> rate_value) list"
type_synonym rates = "(pystr \<times> day_rates) list"

record rates_manager =
  rm_rates :: rates
  rm_overrides :: rates

definition new_rates_manager :: "rates option \<Rightarrow> rates_manager" where
  "new_rates_manager reference_overrides =
     \<lparr>rm_rates = [], rm_overrides = (case reference_overrides of None \<Rightarrow> [] | Some r \<Rightarrow> r)\<rparr>"

text \<open>\<open>float(value)\<close>.\<close>

definition rate_float :: "rate_value \<Rightarrow> double res" where
  "rate_float v =
     (case v of
        RateNull \<Rightarrow> Inl TypeError
      | RateInt n \<Rightarrow> (let d = d_of_int n in if is_inf d then Inl OverflowError else Inr d)
      | RateFloat d \<Rightarrow> Inr d
      | RateText s \<Rightarrow> py_float s)"

definition get_rate :: "rates_manager \<Rightarrow> pystr \<Rightarrow> pystr \<Rightarrow> double res" where
  "get_rate m date currency =
     (if currency = lit ''USD'' then Inr d_one
      else
        (case map_of (rm_rates m) date of
           None \<Rightarrow> Inl ValueError
         | Some day \<Rightarrow>
             if day = [] then Inl ValueError
             else
               (case map_of day currency of
                  None \<Rightarrow> Inl ValueError
                | Some v \<Rightarrow> if v = RateNull then Inl ValueError else rbind (rate_float v) (d_div d_one))))"

text \<open>\<open>dict.update\<close>, and \<open>setdefault(date, {}).update(day_rates)\<close> for every day of the overrides.\<close>

definition dict_update :: "('k \<times> 'v) list \<Rightarrow> ('k \<times> 'v) list \<Rightarrow> ('k \<times> 'v) list" where
  "dict_update d kvs = foldl (\<lambda>d (k, v). dset k v d) d kvs"

definition override_day :: "rates \<Rightarrow> pystr \<times> day_rates \<Rightarrow> rates" where
  "override_day r = (\<lambda>(date, day). dset date (dict_update (dget r date []) day) r)"

definition apply_reference_overrides :: "rates_manager \<Rightarrow> rates_manager" where
  "apply_reference_overrides m = m\<lparr>rm_rates := foldl override_day (rm_rates m) (rm_overrides m)\<rparr>"

definition MAX_RETRIES :: nat where
  "MAX_RETRIES = 3"

text \<open>Each attempt gets the rates of the answer, or an exception; the loop ends with the first answer.\<close>

fun fetch_attempts :: "(nat \<Rightarrow> rates res) \<Rightarrow> nat list \<Rightarrow> rates_manager \<Rightarrow> bool \<times> rates_manager" where
  "fetch_attempts answer [] m = (False, m)"
| "fetch_attempts answer (attempt # attempts) m =
     (case answer attempt of
        Inl _ \<Rightarrow> fetch_attempts answer attempts m
      | Inr r \<Rightarrow> (True, apply_reference_overrides (m\<lparr>rm_rates := r\<rparr>)))"

definition fetch_period :: "(nat \<Rightarrow> rates res) \<Rightarrow> nat \<Rightarrow> rates_manager \<Rightarrow> bool \<times> rates_manager" where
  "fetch_period answer max_retries = fetch_attempts answer [1..<max_retries + 1]"

text \<open>No file, a file that cannot be read, or the rates in it.\<close>

definition load_cache :: "rates res option \<Rightarrow> rates_manager \<Rightarrow> bool \<times> rates_manager" where
  "load_cache file m =
     (case file of
        None \<Rightarrow> (False, m)
      | Some (Inl _) \<Rightarrow> (False, m)
      | Some (Inr r) \<Rightarrow> (True, apply_reference_overrides (m\<lparr>rm_rates := r\<rparr>)))"

text \<open>\<open>load_from_payload\<close>: what \<open>json.loads\<close> makes of the reply, or its exception.\<close>

definition load_from_payload :: "rates res \<Rightarrow> (rates_manager, unit) act" where
  "load_from_payload reply =
     abind (alift reply) (\<lambda>r. amodify (rm_rates_update (\<lambda>_. r)))"

subsection \<open>The reference table\<close>

definition literal :: "nat \<Rightarrow> nat \<Rightarrow> rate_value" where
  "literal digits decimals = RateFloat (decimal_double False digits (- int decimals))"

definition Q5_REFERENCE_RATES :: rates where
  "Q5_REFERENCE_RATES =
     [(lit ''2022-09-01'',
       [(lit ''AUD'', literal 14644 4), (lit ''BRL'', literal 51805 4), (lit ''CAD'', literal 1314 3),
        (lit ''CHF'', literal 97999 5), (lit ''CNY'', literal 69 1), (lit ''EUR'', literal 10002 4),
        (lit ''GBP'', literal 86272 5), (lit ''ILS'', literal 33535 4), (lit ''INR'', literal 79543 3),
        (lit ''JPY'', literal 13934 2), (lit ''MXN'', literal 20189 3), (lit ''RUB'', literal 60367 3),
        (lit ''SAR'', literal 375 2), (lit ''USD'', literal 10 1), (lit ''BTC'', literal 197931 1)]),
     (lit ''2022-09-02'',
       [(lit ''AUD'', literal 14691 4), (lit ''BRL'', literal 52035 4), (lit ''CAD'', literal 13141 4),
        (lit ''CHF'', literal 98175 5), (lit ''CNY'', literal 69035 4), (lit ''EUR'', literal 10011 4),
        (lit ''GBP'', literal 86468 5), (lit ''ILS'', literal 33755 4), (lit ''INR'', literal 79719 3),
        (lit ''JPY'', literal 14011 2), (lit ''MXN'', literal 20085 3), (lit ''RUB'', literal 60427 3),
        (lit ''SAR'', literal 375 2), (lit ''USD'', literal 10 1), (lit ''BTC'', literal 1999990 1)]),
     (lit ''2022-09-03'',
       [(lit ''AUD'', literal 14691 4), (lit ''BRL'', literal 52056 4), (lit ''CAD'', literal 13138 4),
        (lit ''CHF'', literal 98207 5), (lit ''CNY'', literal 69046 4), (lit ''EUR'', literal 10013 4),
        (lit ''GBP'', literal 86478 5), (lit ''ILS'', literal 33791 4), (lit ''INR'', literal 7975 2),
        (lit ''JPY'', literal 14017 2), (lit ''MXN'', literal 20081 3), (lit ''RUB'', literal 60471 3),
        (lit ''SAR'', literal 375 2), (lit ''USD'', literal 10 1), (lit ''BTC'', literal 198314 1)]),
     (lit ''2022-09-04'',
       [(lit ''AUD'', literal 14695 4), (lit ''BRL'', literal 52082 4), (lit ''CAD'', literal 13139 4),
        (lit ''CHF'', literal 98219 5), (lit ''CNY'', literal 69047 4), (lit ''EUR'', literal 10013 4),
        (lit ''GBP'', literal 8649 4), (lit ''ILS'', literal 33815 4), (lit ''INR'', literal 79754 3),
        (lit ''JPY'', literal 14022 2), (lit ''MXN'', literal 20084 3), (lit ''RUB'', literal 60461 3),
        (lit ''SAR'', literal 375 2), (lit ''USD'', literal 10 1), (lit ''BTC'', literal 199527 1)]),
     (lit ''2022-09-05'',
       [(lit ''AUD'', literal 14722 4), (lit ''BRL'', literal 51786 4), (lit ''CAD'', literal 13142 4),
        (lit ''CHF'', literal 98273 5), (lit ''CNY'', literal 69216 4), (lit ''EUR'', literal 10068 4),
        (lit ''GBP'', literal 86813 5), (lit ''ILS'', literal 34006 4), (lit ''INR'', literal 79816 3),
        (lit ''JPY'', literal 14049 2), (lit ''MXN'', literal 20018 3), (lit ''RUB'', literal 60737 3),
        (lit ''SAR'', literal 375 2), (lit ''USD'', literal 10 1), (lit ''BTC'', literal 201261 1)])]"

subsection \<open>The rates service\<close>

definition service_overrides :: "pystr \<Rightarrow> rates option" where
  "service_overrides overlay = (if overlay = lit ''q5'' then Some Q5_REFERENCE_RATES else None)"

text \<open>\<open>stop_before\<close> and \<open>stop_after\<close>: a shutdown was requested by the time it is looked at.\<close>

definition bootstrap_rates ::
  "rates res option \<Rightarrow> (nat \<Rightarrow> rates res) \<Rightarrow> bool \<Rightarrow> bool \<Rightarrow> rates_manager \<Rightarrow> bool \<times> rates_manager" where
  "bootstrap_rates file answer stop_before stop_after m =
     (case load_cache file m of (loaded, m1) \<Rightarrow>
      if loaded then (True, m1)
      else if stop_before then (False, m1)
      else
        (case fetch_period answer MAX_RETRIES m1 of (fetched, m2) \<Rightarrow>
         if \<not> fetched then (False, m2) else if stop_after then (False, m2) else (True, m2)))"

text \<open>Every request is answered with all the rates.\<close>

definition rates_on_request :: "rates_manager \<Rightarrow> bytes \<Rightarrow> rates" where
  "rates_on_request m request = rm_rates m"

subsection \<open>Rates that are found\<close>

lemma map_of_dict_update:
  "dict_wf kvs \<Longrightarrow> map_of (dict_update d kvs) k = (case map_of kvs k of None \<Rightarrow> map_of d k | Some v \<Rightarrow> Some v)"
proof (induction kvs arbitrary: d)
  case (Cons kv kvs)
  then show ?case by (cases kv) (auto simp: dict_update_def split: option.splits)
qed (simp add: dict_update_def)

lemma override_day_pair: "override_day r (date, day) = dset date (dict_update (dget r date []) day) r"
  by (simp add: override_day_def)

lemma map_of_overrides:
  assumes "dict_wf ovs"
  shows "map_of (foldl override_day r ovs) date =
    (case map_of ovs date of None \<Rightarrow> map_of r date | Some day \<Rightarrow> Some (dict_update (dget r date []) day))"
  using assms
proof (induction ovs arbitrary: r)
  case (Cons ov ovs)
  obtain d day where ov: "ov = (d, day)" by (cases ov)
  from Cons.prems have d: "map_of ovs d = None" and wf: "dict_wf ovs" by (simp_all add: ov)
  have "map_of (foldl override_day r (ov # ovs)) date =
      (case map_of ovs date of None \<Rightarrow> map_of (override_day r ov) date
       | Some day' \<Rightarrow> Some (dict_update (dget (override_day r ov) date []) day'))"
    using Cons.IH [OF wf] by simp
  with d show ?case by (auto simp: ov override_day_pair split: option.splits)
qed simp

text \<open>The two ways a manager gets its rates.\<close>

lemma fetch_attempts_True:
  "fetch_attempts answer as m = (True, m') \<Longrightarrow> \<exists>r. m' = apply_reference_overrides (m\<lparr>rm_rates := r\<rparr>)"
  by (induction as) (auto split: sum.splits)

lemma bootstrap_overridden:
  assumes "bootstrap_rates file answer before after m = (True, m')"
  shows "\<exists>r. m' = apply_reference_overrides (m\<lparr>rm_rates := r\<rparr>)"
  using assms fetch_attempts_True [of answer "[1..<MAX_RETRIES + 1]" m]
  by (auto simp: bootstrap_rates_def load_cache_def fetch_period_def split: prod.splits if_splits option.splits sum.splits)

text \<open>A service that started gives the override of a rate where there is one, whatever it loaded.\<close>

lemma bootstrap_get_rate:
  assumes "bootstrap_rates file answer before after (new_rates_manager (Some ovs)) = (True, m)"
    and "dict_wf ovs" and "map_of ovs date = Some day" and "dict_wf day" and "map_of day cur = Some v" and "v \<noteq> RateNull"
    and "cur \<noteq> lit ''USD''"
  shows "get_rate m date cur = rbind (rate_float v) (d_div d_one)"
proof -
  from bootstrap_overridden [OF assms(1)] obtain r where r: "rm_rates m = foldl override_day r ovs"
    by (auto simp: apply_reference_overrides_def new_rates_manager_def)
  let ?day = "dict_update (dget r date []) day"
  have day: "map_of (rm_rates m) date = Some ?day" using map_of_overrides [OF assms(2)] assms(3) by (simp add: r)
  have cur: "map_of ?day cur = Some v" using map_of_dict_update [OF assms(4)] assms(5) by simp
  then have "?day \<noteq> []" by (metis map_of.simps(1) option.distinct(1))
  with day cur assms(6,7) show ?thesis by (simp add: get_rate_def)
qed

text \<open>Without the rates of a day the lookup raises.\<close>

lemma get_rate_ValueError:
  "currency \<noteq> lit ''USD'' \<Longrightarrow> map_of (rm_rates m) date = None \<Longrightarrow> get_rate m date currency = Inl ValueError"
  by (simp add: get_rate_def)

lemma reference_rates_wf: "dict_wf Q5_REFERENCE_RATES" "list_all (\<lambda>d. dict_wf (snd d)) Q5_REFERENCE_RATES"
  by (simp_all add: Q5_REFERENCE_RATES_def)

end
