(* ===== verification/Q5FilterState.thy ===== *)
theory Q5FilterState
  imports Coordinated
begin

text \<open>
  \<open>workers/filter_q5_usd/filter_q5_usd_state.py\<close>: the durable state of the currency filter of query 5. Per client it counts
  the transactions processed and forwarded and the packets numbered for the aggregators, and it holds the EOF
  coordinator. \<open>apply_change\<close> is its only mutator.
\<close>

subsection \<open>State and changes\<close>

record q5_filter_state =
  qf_coordinator :: eof_coordinator
  qf_processed :: "(int \<times> int) list"
  qf_forwarded :: "(int \<times> int) list"
  qf_agg_seq :: "(int \<times> int) list"
  qf_closed :: "int set"

definition new_q5_filter_state :: "eof_coordinator \<Rightarrow> q5_filter_state" where
  "new_q5_filter_state ec =
     \<lparr>qf_coordinator = ec, qf_processed = [], qf_forwarded = [], qf_agg_seq = [], qf_closed = {}\<rparr>"

definition qf_data_change :: "int \<Rightarrow> int \<Rightarrow> int \<Rightarrow> int \<Rightarrow> json" where
  "qf_data_change client_id n_processed n_forwarded seq_advance =
     JObj [(lit ''type'', JStr (lit ''data'')), (lit ''client_id'', JInt client_id),
           (lit ''processed_count'', JInt n_processed), (lit ''forwarded_count'', JInt n_forwarded),
           (lit ''seq_advance'', JInt seq_advance)]"

definition qf_close_change :: "int \<Rightarrow> json" where
  "qf_close_change = fi_close_change"

definition qf_upstream_eof_change :: "int \<Rightarrow> int \<Rightarrow> int \<Rightarrow> int \<Rightarrow> json" where
  "qf_upstream_eof_change = su_upstream_eof_change"

definition qf_msg_change :: "message_type \<Rightarrow> int \<Rightarrow> int \<Rightarrow> int \<Rightarrow> int \<Rightarrow> int \<Rightarrow> int \<Rightarrow> json" where
  "qf_msg_change = su_msg_change"

definition qf_cleanup_change :: "int \<Rightarrow> json" where
  "qf_cleanup_change = su_cleanup_change"

definition qf_compound_change :: "json list \<Rightarrow> json" where
  "qf_compound_change = fi_compound_change"

definition qf_abort_change :: "int \<Rightarrow> json" where
  "qf_abort_change client_id = qf_compound_change [qf_cleanup_change client_id, qf_close_change client_id]"

subsection \<open>Readers\<close>

definition qf_is_closed :: "int \<Rightarrow> q5_filter_state \<Rightarrow> bool" where
  "qf_is_closed client_id s \<longleftrightarrow> client_id \<in> qf_closed s"

definition qf_processed_count :: "int \<Rightarrow> q5_filter_state \<Rightarrow> int" where
  "qf_processed_count client_id s = dget (qf_processed s) client_id 0"

definition qf_forwarded_count :: "int \<Rightarrow> q5_filter_state \<Rightarrow> int" where
  "qf_forwarded_count client_id s = dget (qf_forwarded s) client_id 0"

definition qf_agg_seq_of :: "int \<Rightarrow> q5_filter_state \<Rightarrow> int" where
  "qf_agg_seq_of client_id s = dget (qf_agg_seq s) client_id 0"

subsection \<open>Applying a change\<close>

text \<open>\<open>change.get(key)\<close>, where a missing number counts as 0.\<close>

definition jget_int_or0 :: "json \<Rightarrow> string \<Rightarrow> int res" where
  "jget_int_or0 v k =
     (case v of
        JObj d \<Rightarrow> (case map_of d (lit k) of None \<Rightarrow> Inr 0 | Some x \<Rightarrow> as_int x)
      | _ \<Rightarrow> Inl TypeError)"

definition qf_apply_data :: "int \<Rightarrow> json \<Rightarrow> (q5_filter_state, unit) act" where
  "qf_apply_data client_id change s =
     (if client_id \<in> qf_closed s then (Inr (), s)
      else
        abind (alift (jget_int change ''processed_count'')) (\<lambda>n.
        abind (amodify (\<lambda>s. s\<lparr>qf_processed := dset client_id (qf_processed_count client_id s + n) (qf_processed s)\<rparr>)) (\<lambda>_.
        abind (alift (jget_int change ''forwarded_count'')) (\<lambda>f.
        abind (amodify (\<lambda>s. if f \<noteq> 0 then s\<lparr>qf_forwarded := dset client_id (qf_forwarded_count client_id s + f) (qf_forwarded s)\<rparr> else s)) (\<lambda>_.
        abind (alift (jget_int_or0 change ''seq_advance'')) (\<lambda>a.
        amodify (\<lambda>s. if a \<noteq> 0
                     then s\<lparr>qf_agg_seq := dset client_id ((qf_agg_seq_of client_id s + a) mod 2 ^ 32) (qf_agg_seq s)\<rparr> else s)))))) s)"

definition qf_apply_close :: "int \<Rightarrow> q5_filter_state \<Rightarrow> q5_filter_state" where
  "qf_apply_close client_id s =
     s\<lparr>qf_closed := insert client_id (qf_closed s), qf_processed := dpop client_id (qf_processed s),
       qf_forwarded := dpop client_id (qf_forwarded s), qf_agg_seq := dpop client_id (qf_agg_seq s)\<rparr>"

abbreviation qf_set_coordinator :: "eof_coordinator \<Rightarrow> q5_filter_state \<Rightarrow> q5_filter_state" where
  "qf_set_coordinator ec \<equiv> qf_coordinator_update (\<lambda>_. ec)"

definition on_qf_coordinator :: "(eof_coordinator, 'a) act \<Rightarrow> (q5_filter_state, 'a) act" where
  "on_qf_coordinator = azoom qf_coordinator qf_set_coordinator"

definition qf_changes :: "q5_filter_state change_ops" where
  "qf_changes kind =
     (if kind = lit ''data'' then Some qf_apply_data
      else if kind = lit ''close'' then Some (\<lambda>client_id _. amodify (qf_apply_close client_id))
      else if kind = lit ''coordinator_upstream_eof'' then Some (replay_upstream_eof on_qf_coordinator)
      else if kind = lit ''coordinator_msg'' then Some (replay_msg on_qf_coordinator)
      else if kind = lit ''coordinator_cleanup''
      then Some (\<lambda>client_id _. amodify (qf_coordinator_update (cleanup_client client_id)))
      else None)"

definition qf_apply_change :: "json \<Rightarrow> (q5_filter_state, unit) act" where
  "qf_apply_change = dispatch_change qf_changes"

subsection \<open>Snapshots\<close>

record q5_filter_dict =
  qfd_processed :: "(int \<times> int) list"
  qfd_forwarded :: "(int \<times> int) list"
  qfd_agg_seq :: "(int \<times> int) list"
  qfd_closed :: "int set"
  qfd_eof_coordinator :: coordinator_dict

definition qf_snapshot :: "q5_filter_state \<Rightarrow> q5_filter_dict option" where
  "qf_snapshot s =
     Some \<lparr>qfd_processed = qf_processed s, qfd_forwarded = qf_forwarded s, qfd_agg_seq = qf_agg_seq s,
           qfd_closed = qf_closed s, qfd_eof_coordinator = coordinator_snapshot (qf_coordinator s)\<rparr>"

definition qf_restore :: "q5_filter_dict option \<Rightarrow> (q5_filter_state, unit) act" where
  "qf_restore data s =
     (case data of
        None \<Rightarrow> (Inr (), s\<lparr>qf_processed := [], qf_forwarded := [], qf_agg_seq := [], qf_closed := {}\<rparr>)
      | Some d \<Rightarrow>
          (Inr (), s\<lparr>qf_processed := qfd_processed d, qf_forwarded := qfd_forwarded d, qf_agg_seq := qfd_agg_seq d,
             qf_closed := qfd_closed d,
             qf_coordinator := coordinator_restore (qfd_eof_coordinator d) (qf_coordinator s)\<rparr>))"

definition q5_filter_ops :: "(q5_filter_state, q5_filter_dict option) worker_ops" where
  "q5_filter_ops = \<lparr>apply_change = qf_apply_change, worker_snapshot = qf_snapshot, worker_restore = qf_restore\<rparr>"

subsection \<open>The contracts of the state\<close>

lemma keeps_qf_data:
  assumes "\<And>s x. g (qf_processed_update x s) = g s" and "\<And>s x. g (qf_forwarded_update x s) = g s"
    and "\<And>s x. g (qf_agg_seq_update x s) = g s"
  shows "keeps g (qf_apply_data c ch)"
  unfolding keeps_def qf_apply_data_def using assms by (simp add: act_defs split: sum.split)

lemma keeps_on_qf [keeps_intros]:
  "keeps qf_closed (on_qf_coordinator m)"
  by (auto simp: keeps_def on_qf_coordinator_def azoom_def split: prod.splits)

interpretation qf: closing_state qf_changes qf_closed
proof
  show "qf_closed s \<subseteq> qf_closed (snd (f c ch s))" if "qf_changes kind = Some f" for kind f s c ch
  proof (cases "kind = lit ''close''")
    case True
    with that show ?thesis by (auto simp: qf_changes_def qf_apply_close_def amodify_def)
  next
    case False
    with that have "keeps qf_closed (f c ch)"
      by (auto simp: qf_changes_def replay_upstream_eof_def replay_msg_def split: if_splits intro!: keeps_intros keeps_qf_data)
    then show ?thesis by (simp add: keeps_def)
  qed
qed (auto simp: qf_changes_def qf_apply_data_def qf_apply_close_def amodify_def)

interpretation qf_co: coordinated_state qf_changes qf_coordinator qf_set_coordinator
  by unfold_locales (simp_all add: qf_changes_def on_qf_coordinator_def)

definition qf_frame :: "q5_filter_state \<Rightarrow> int \<times> int \<times> pystr \<times> pystr \<times> ec_mode \<times> int \<times> bool" where
  "qf_frame s = coordinator_config (qf_coordinator s)"

lemma keeps_qf_frame [keeps_intros]: "keeps coordinator_config m \<Longrightarrow> keeps qf_frame (on_qf_coordinator m)"
  by (auto simp: keeps_def on_qf_coordinator_def azoom_def qf_frame_def split: prod.splits) (metis snd_conv)

lemma keeps_qf_ops: "qf_changes kind = Some f \<Longrightarrow> keeps qf_frame (f c ch)"
  by (auto simp: qf_changes_def replay_upstream_eof_def replay_msg_def qf_apply_close_def qf_frame_def cleanup_frame
      intro!: keeps_intros keeps_qf_data split: if_splits)

interpretation qf_worker: worker_state q5_filter_ops "new_q5_filter_state ec" "\<lambda>s. qf_frame s = coordinator_config ec" for ec
proof
  show "qf_frame s' = coordinator_config ec"
    if "qf_frame s = coordinator_config ec" "apply_change q5_filter_ops ch s = (Inr (), s')" for s ch s'
  proof -
    have "qf_frame (snd (dispatch_change qf_changes ch s)) = coordinator_config ec"
      by (rule dispatch_invariant [where I = "\<lambda>s. qf_frame s = coordinator_config ec"])
        (use that(1) keeps_qf_ops in \<open>auto simp: keeps_def\<close>)
    with that(2) show ?thesis by (simp add: q5_filter_ops_def qf_apply_change_def)
  qed
qed (auto simp: qf_frame_def new_q5_filter_state_def q5_filter_ops_def qf_snapshot_def qf_restore_def coordinator_restore_snapshot)

subsection \<open>Applying the changes that are written\<close>

lemmas qf_change_defs = qf_close_change_def qf_upstream_eof_change_def qf_msg_change_def qf_cleanup_change_def
  qf_compound_change_def qf_abort_change_def

lemma qf_change_ok [simp]:
  "state_change_ok (qf_data_change c n f a)" "state_change_ok (qf_close_change c)" "state_change_ok (qf_cleanup_change c)"
  "state_change_ok (qf_upstream_eof_change c e n f)" "state_change_ok (qf_msg_change t c s e k n f)" "state_change_ok (qf_abort_change c)"
  by (simp_all add: qf_change_defs fi_compound_ok) (simp add: state_change_ok_def qf_data_change_def)

lemma qf_compound_ok: "list_all state_change_ok chs \<Longrightarrow> state_change_ok (qf_compound_change chs)"
  by (simp add: qf_change_defs fi_compound_ok)

lemma qf_apply_simps:
  "qf_apply_change (qf_compound_change chs) = afor qf_apply_change chs"
  "qf_apply_change (qf_close_change c) = amodify (qf_apply_close c)"
  "qf_apply_change (qf_cleanup_change c) = amodify (qf_coordinator_update (cleanup_client c))"
  "qf_apply_change (qf_upstream_eof_change c e n f) = abind (on_qf_coordinator (on_upstream_eof c e n f)) (\<lambda>_. areturn ())"
  "qf_apply_change (qf_msg_change t c s e p n f) =
     abind (on_qf_coordinator (process_control_message t c
       \<lparr>cm_sender_id = s, expected_total = e, processed_count = p\<rparr> n f)) (\<lambda>_. areturn ())"
proof -
  show "qf_apply_change (qf_cleanup_change c) = amodify (qf_coordinator_update (cleanup_client c))"
    by (simp add: qf_apply_change_def qf_cleanup_change_def)
      (subst dispatch_change.simps, simp add: su_cleanup_change_def jget_simps qf_changes_def)
  show "qf_apply_change (qf_close_change c) = amodify (qf_apply_close c)"
    by (simp add: qf_apply_change_def qf_close_change_def fi_dispatch_simps qf_changes_def)
qed (simp_all add: qf_apply_change_def qf_change_defs fi_dispatch_simps qf_co.replayed_upstream_eof qf_co.replayed_msg on_qf_coordinator_def)

lemma qf_data_dispatch: "qf_apply_change (qf_data_change c n f a) = qf_apply_data c (qf_data_change c n f a)"
  unfolding qf_apply_change_def by (subst dispatch_change.simps) (simp add: qf_data_change_def jget_simps qf_changes_def)

text \<open>What a batch adds to the counts of an open client.\<close>

lemma qf_apply_data_change:
  assumes "c \<notin> qf_closed s" and "qf_apply_change (qf_data_change c n f a) s = (Inr u, s')"
  shows "qf_processed_count c s' = qf_processed_count c s + n" "qf_forwarded_count c s' = qf_forwarded_count c s + f"
    "qf_agg_seq_of c s' = (if a = 0 then qf_agg_seq_of c s else (qf_agg_seq_of c s + a) mod 2 ^ 32)"
    "qf_closed s' = qf_closed s" "qf_coordinator s' = qf_coordinator s"
proof -
  have s': "s' = snd (qf_apply_data c (qf_data_change c n f a) s)" using assms(2) by (simp add: qf_data_dispatch)
  then show "qf_processed_count c s' = qf_processed_count c s + n" "qf_forwarded_count c s' = qf_forwarded_count c s + f"
    "qf_agg_seq_of c s' = (if a = 0 then qf_agg_seq_of c s else (qf_agg_seq_of c s + a) mod 2 ^ 32)"
    "qf_closed s' = qf_closed s" "qf_coordinator s' = qf_coordinator s"
    using assms(1)
    by (simp_all add: qf_apply_data_def qf_data_change_def jget_simps jget_int_or0_def act_defs qf_processed_count_def
        qf_forwarded_count_def qf_agg_seq_of_def)
qed

lemma qf_apply_data_total: "\<exists>s'. qf_apply_change (qf_data_change c n f a) s = (Inr (), s')"
  unfolding qf_data_dispatch by (simp add: qf_apply_data_def qf_data_change_def jget_simps jget_int_or0_def act_defs)

end
