(* ===== verification/Q5Filter.thy ===== *)
theory Q5Filter
  imports Q5FilterState Rates Q4Filter
begin

text \<open>
  \<open>workers/filter_q5_usd/filter_q5_usd.py\<close>: the currency filter of query 5. It keeps the transactions of a period that are
  worth less than one US dollar, sends them to an aggregator, and takes part in the EOF agreement of its replicas
  in broadcast mode. The rates come from the rates service by a remote call, whose answer is an argument of
  the data path.
\<close>

subsection \<open>Configuration\<close>

definition CURRENCY_NAME_TO_ISO :: "(pystr \<times> pystr) list" where
  "CURRENCY_NAME_TO_ISO =
     [(lit ''US Dollar'', lit ''USD''), (lit ''Euro'', lit ''EUR''), (lit ''UK Pound'', lit ''GBP''), (lit ''Yen'', lit ''JPY''),
      (lit ''Swiss Franc'', lit ''CHF''), (lit ''Canadian Dollar'', lit ''CAD''), (lit ''Australian Dollar'', lit ''AUD''),
      (lit ''Mexican Peso'', lit ''MXN''), (lit ''Brazil Real'', lit ''BRL''), (lit ''Yuan'', lit ''CNY''), (lit ''Rupee'', lit ''INR''),
      (lit ''Ruble'', lit ''RUB''), (lit ''Saudi Riyal'', lit ''SAR''), (lit ''Shekel'', lit ''ILS''), (lit ''Swedish Krona'', lit ''SEK''),
      (lit ''New Zealand Dollar'', lit ''NZD''), (lit ''Singapore Dollar'', lit ''SGD''), (lit ''Hong Kong Dollar'', lit ''HKD''),
      (lit ''Norwegian Krone'', lit ''NOK''), (lit ''South Korean Won'', lit ''KRW''), (lit ''Turkish Lira'', lit ''TRY''),
      (lit ''South African Rand'', lit ''ZAR''), (lit ''Thai Baht'', lit ''THB''), (lit ''Polish Zloty'', lit ''PLN''),
      (lit ''Czech Koruna'', lit ''CZK''), (lit ''Philippine Peso'', lit ''PHP''), (lit ''Indonesian Rupiah'', lit ''IDR''),
      (lit ''Malaysian Ringgit'', lit ''MYR''), (lit ''Hungarian Forint'', lit ''HUF''), (lit ''Icelandic Krona'', lit ''ISK''),
      (lit ''Croatian Kuna'', lit ''HRK''), (lit ''Romanian Leu'', lit ''RON''), (lit ''Danish Krone'', lit ''DKK''),
      (lit ''Bulgarian Lev'', lit ''BGN''), (lit ''Bitcoin'', lit ''BTC'')]"

record q5_filter_config =
  qfc_id :: int
  qfc_input_routing_prefix :: pystr
  qfc_aggregation_amount :: int
  qfc_aggregation_prefix :: pystr
  qfc_start_date :: pystr
  qfc_end_date :: pystr
  qfc_amount :: int
  qfc_prefix :: pystr

definition qf_new_coordinator :: "q5_filter_config \<Rightarrow> eof_coordinator res" where
  "qf_new_coordinator cfg =
     new_coordinator (qfc_id cfg) (qfc_amount cfg) (qfc_prefix cfg @ lit ''_control'') (qfc_prefix cfg @ lit ''_response'')
       (lit ''broadcast'') 0"

definition qf_input_routing_key :: "q5_filter_config \<Rightarrow> pystr res" where
  "qf_input_routing_key cfg = queue_name_for_worker (qfc_input_routing_prefix cfg) (qfc_id cfg) [95]"

text \<open>The queues that the senders of a control thread are made for.\<close>

definition qf_response_queues :: "q5_filter_config \<Rightarrow> eof_coordinator \<Rightarrow> pystr list" where
  "qf_response_queues cfg ec = map (response_queue_for ec) [0..qfc_amount cfg - 1]"

subsection \<open>Which transactions pass\<close>

definition qf_day :: "pystr \<Rightarrow> pystr" where
  "qf_day date = map (\<lambda>c. if c = 47 then 45 else c) (take 10 date)"

definition in_q5_range :: "q5_filter_config \<Rightarrow> pystr \<Rightarrow> bool" where
  "in_q5_range cfg date \<longleftrightarrow> pystr_le (qfc_start_date cfg) (qf_day date) \<and> pystr_le (qf_day date) (qfc_end_date cfg)"

definition convert_to_usd :: "rates_manager \<Rightarrow> double \<Rightarrow> pystr \<Rightarrow> pystr \<Rightarrow> double res" where
  "convert_to_usd rm amount currency date =
     (if currency = lit ''US Dollar'' then Inr amount
      else
        (case map_of CURRENCY_NAME_TO_ISO currency of
           None \<Rightarrow> Inl ValueError
         | Some code \<Rightarrow> rbind (get_rate rm date code) (\<lambda>rate. Inr (d_mul amount rate))))"

text \<open>A transaction whose amount has no rate is skipped; any other exception leaves the loop.\<close>

definition qf_passes :: "q5_filter_config \<Rightarrow> rates_manager \<Rightarrow> transaction \<Rightarrow> bool res" where
  "qf_passes cfg rm tx =
     (if \<not> in_q5_range cfg (tx_date tx) then Inr False
      else
        (case convert_to_usd rm (tx_amount tx) (tx_currency tx) (qf_day (tx_date tx)) of
           Inl e \<Rightarrow> if e = ValueError then Inr False else Inl e
         | Inr usd \<Rightarrow> Inr (\<not> d_le d_one usd)))"

subsection \<open>Packets to the aggregators\<close>

definition qf_packet :: "q5_filter_config \<Rightarrow> message_type \<Rightarrow> int \<Rightarrow> int \<Rightarrow> bytes \<Rightarrow> bytes res" where
  "qf_packet cfg msg_type client_id seq payload =
     rbind (client_id_to_bytes client_id) (\<lambda>client_bytes.
     create_addressed_packet (message_type_value msg_type) client_bytes (qfc_id cfg) seq payload)"

definition qf_eof_payload :: "q5_filter_config \<Rightarrow> int \<Rightarrow> bytes res" where
  "qf_eof_payload cfg expected =
     serialize_control \<lparr>cm_sender_id = qfc_id cfg, expected_total = expected, processed_count = 0\<rparr>"

definition qf_agg_queue :: "q5_filter_config \<Rightarrow> int \<Rightarrow> pystr" where
  "qf_agg_queue cfg i = qfc_aggregation_prefix cfg @ [95] @ int_str i"

definition qf_shard :: "q5_filter_config \<Rightarrow> int \<Rightarrow> int res" where
  "qf_shard cfg client_id =
     (if qfc_aggregation_amount cfg = 0 then Inl ZeroDivisionError else Inr (client_id mod qfc_aggregation_amount cfg))"

fun qf_data_outputs :: "q5_filter_config \<Rightarrow> rates_manager \<Rightarrow> int \<Rightarrow> int \<Rightarrow> transaction list \<Rightarrow> logical_output list res" where
  "qf_data_outputs cfg rm client_id seq [] = Inr []"
| "qf_data_outputs cfg rm client_id seq (tx # txs) =
     rbind (qf_passes cfg rm tx) (\<lambda>passes.
     if \<not> passes then qf_data_outputs cfg rm client_id seq txs
     else
       rbind (qf_shard cfg client_id) (\<lambda>sh.
       rbind (serialize_transaction tx) (\<lambda>payload.
       rbind (qf_packet cfg MT_DATA client_id seq payload) (\<lambda>pkt.
       rbind (qf_data_outputs cfg rm client_id (seq + 1) txs) (\<lambda>outputs.
       Inr (Out2 (qf_agg_queue cfg sh) pkt # outputs))))))"

text \<open>One packet for each aggregator, numbered on from \<open>seq\<close>.\<close>

definition qf_broadcast :: "q5_filter_config \<Rightarrow> message_type \<Rightarrow> int \<Rightarrow> int \<Rightarrow> bytes \<Rightarrow> logical_output list res" where
  "qf_broadcast cfg msg_type client_id seq payload =
     rmap (\<lambda>i. rbind (qf_packet cfg msg_type client_id (seq + i) payload) (\<lambda>pkt. Inr (Out2 (qf_agg_queue cfg i) pkt)))
       [0..qfc_aggregation_amount cfg - 1]"

definition qf_eof_outputs :: "q5_filter_config \<Rightarrow> int \<Rightarrow> int \<Rightarrow> (q5_filter_state, logical_output list) act" where
  "qf_eof_outputs cfg client_id total_forwarded =
     abind (alift (qf_eof_payload cfg total_forwarded)) (\<lambda>payload.
     abind (aget (qf_agg_seq_of client_id)) (\<lambda>current_seq.
     alift (qf_broadcast cfg MT_EOF client_id current_seq payload)))"

definition qf_abort_outputs :: "q5_filter_config \<Rightarrow> int \<Rightarrow> (q5_filter_state, logical_output list) act" where
  "qf_abort_outputs cfg client_id =
     abind (aget (qf_agg_seq_of client_id)) (\<lambda>current_seq.
     alift (qf_broadcast cfg MT_ABORT client_id current_seq []))"

subsection \<open>The business functions\<close>

type_synonym q5_fn = "bytes \<Rightarrow> (q5_filter_state, json \<times> logical_output list) act"

definition qf_bfn_data :: "q5_filter_config \<Rightarrow> rates_manager \<Rightarrow> int \<Rightarrow> q5_fn" where
  "qf_bfn_data cfg rm client_id payload =
     abind (alift (deserialize_transactions payload)) (\<lambda>transactions.
     if transactions = [] then areturn (qf_data_change client_id 0 0 0, [])
     else
       abind (aget (qf_agg_seq_of client_id)) (\<lambda>current_seq.
       abind (alift (qf_data_outputs cfg rm client_id current_seq transactions)) (\<lambda>outputs.
       let forwarded = int (length outputs) in
       areturn (qf_data_change client_id (int (length transactions)) forwarded forwarded, outputs))))"

definition qf_bfn_abort :: "q5_filter_config \<Rightarrow> int \<Rightarrow> q5_fn" where
  "qf_bfn_abort cfg client_id payload =
     abind (qf_abort_outputs cfg client_id) (\<lambda>outputs. areturn (qf_abort_change client_id, outputs))"

text \<open>The change after the EOFs of a client: its packets are numbered, and it is closed.\<close>

definition qf_flushed :: "q5_filter_config \<Rightarrow> int \<Rightarrow> json \<Rightarrow> json" where
  "qf_flushed cfg client_id first =
     qf_compound_change [first, qf_data_change client_id 0 0 (qfc_aggregation_amount cfg), qf_close_change client_id]"

definition qf_bfn_upstream_eof :: "q5_filter_config \<Rightarrow> int \<Rightarrow> int \<Rightarrow> int \<Rightarrow> int \<Rightarrow> q5_fn" where
  "qf_bfn_upstream_eof cfg client_id expected count fwd payload =
     abind (on_qf_coordinator (on_upstream_eof client_id expected count fwd)) (\<lambda>action.
     let eof_change = qf_upstream_eof_change client_id expected count fwd in
     (case action of
        Some (BroadcastAction queues message _) \<Rightarrow> areturn (eof_change, map (\<lambda>q. Out2 q message) queues)
      | Some (FlushAction _ _ _) \<Rightarrow>
          abind (qf_eof_outputs cfg client_id fwd) (\<lambda>outputs. areturn (qf_flushed cfg client_id eof_change, outputs))
      | _ \<Rightarrow> areturn (eof_change, [])))"

definition qf_bfn_eof_received :: "int \<Rightarrow> control_message \<Rightarrow> int \<Rightarrow> int \<Rightarrow> q5_fn" where
  "qf_bfn_eof_received client_id ctrl count fwd payload =
     abind (on_qf_coordinator (process_control_message MT_EOF_RECEIVED client_id ctrl count fwd)) (\<lambda>action.
     let change = qf_msg_change MT_EOF_RECEIVED client_id (cm_sender_id ctrl) (expected_total ctrl) (processed_count ctrl) count fwd in
     (case action of
        Some (SendAnswerAction queue_name message) \<Rightarrow> areturn (change, [Out2 queue_name message])
      | _ \<Rightarrow> areturn (change, [])))"

definition qf_bfn_flush_order :: "q5_filter_config \<Rightarrow> int \<Rightarrow> control_message \<Rightarrow> int \<Rightarrow> q5_fn" where
  "qf_bfn_flush_order cfg client_id ctrl fwd payload =
     abind (on_qf_coordinator (process_control_message MT_FLUSH_ORDER client_id ctrl 0 0)) (\<lambda>action.
     if action = None then areturn (qf_data_change client_id 0 0 0, [])
     else
       abind (qf_eof_outputs cfg client_id fwd) (\<lambda>outputs.
       abind (aget (\<lambda>s. build_flush_ack (qf_coordinator s) client_id fwd)) (\<lambda>msg.
       abind (alift msg) (\<lambda>flush_ack_msg.
       abind (aget (\<lambda>s. response_queue_for (qf_coordinator s) (cm_sender_id ctrl))) (\<lambda>flush_ack_dest.
       areturn (qf_flushed cfg client_id (qf_cleanup_change client_id), outputs @ [Out2 flush_ack_dest flush_ack_msg]))))))"

definition qf_bfn_flush_ack :: "q5_filter_config \<Rightarrow> int \<Rightarrow> control_message \<Rightarrow> int \<Rightarrow> int \<Rightarrow> q5_fn" where
  "qf_bfn_flush_ack cfg client_id ctrl new_ack_count new_total_fwd payload =
     (let ack_change = qf_msg_change MT_FLUSH_ACK client_id (cm_sender_id ctrl) (expected_total ctrl) (processed_count ctrl) 0 0 in
      if new_ack_count \<ge> qfc_amount cfg - 1 then
        abind (qf_eof_outputs cfg client_id new_total_fwd) (\<lambda>outputs. areturn (qf_flushed cfg client_id ack_change, outputs))
      else areturn (ack_change, []))"

subsection \<open>FilterQ5UsdWorker\<close>

record q5_filter_worker =
  qw_runner :: "(q5_filter_state, q5_filter_dict option) runner"
  qw_rates :: rates_manager
  qw_rates_loaded :: bool

abbreviation qw_state :: "q5_filter_worker \<Rightarrow> q5_filter_state" where
  "qw_state w \<equiv> h_worker (r_handler (qw_runner w))"

definition on_qw_runner ::
  "((q5_filter_state, q5_filter_dict option) runner, 'a) act \<Rightarrow> (q5_filter_worker, 'a) act" where
  "on_qw_runner = azoom qw_runner (\<lambda>r w. w\<lparr>qw_runner := r\<rparr>)"

text \<open>The \<open>try\<close> of a callback: an acknowledgement at the end, or \<open>nack(requeue=True)\<close> on an exception.\<close>

definition qw_attempt :: "(q5_filter_worker, unit) act \<Rightarrow> q5_filter_worker \<Rightarrow> delivery \<times> q5_filter_worker" where
  "qw_attempt m w = (case m w of (Inl _, w') \<Rightarrow> (Nacked True, w') | (Inr _, w') \<Rightarrow> (Acked, w'))"

definition qw_run ::
  "(outbox_entry \<Rightarrow> py_error option) \<Rightarrow> pystr \<Rightarrow> int \<Rightarrow> int \<Rightarrow> int \<Rightarrow> bytes \<Rightarrow> q5_fn \<Rightarrow> msg_kind \<Rightarrow> (q5_filter_worker, unit) act" where
  "qw_run send msg_id client_id sender_id seq payload f kind =
     on_qw_runner (run_direct q5_filter_ops send msg_id client_id sender_id seq payload f kind)"

text \<open>The constructor's last steps: recovery, then the pending outputs once more.\<close>

definition qw_start :: "(outbox_entry \<Rightarrow> py_error option) \<Rightarrow> (q5_filter_worker, unit) act" where
  "qw_start send =
     on_qw_runner
       (abind (on_handler (recover q5_filter_ops)) (\<lambda>_.
        abind (aget (\<lambda>r. outbox_to_republish (r_handler r))) (publish_direct send)))"

definition load_rates :: "rates res \<Rightarrow> (q5_filter_worker, unit) act" where
  "load_rates reply w =
     (if qw_rates_loaded w then (Inr (), w)
      else
        (case load_from_payload reply (qw_rates w) of
           (Inl e, m) \<Rightarrow> (Inl e, w\<lparr>qw_rates := m\<rparr>)
         | (Inr _, m) \<Rightarrow> (Inr (), w\<lparr>qw_rates := m, qw_rates_loaded := True\<rparr>)))"

definition qw_handle_data ::
  "q5_filter_config \<Rightarrow> (outbox_entry \<Rightarrow> py_error option) \<Rightarrow> rates res \<Rightarrow> int \<Rightarrow> int \<Rightarrow> int \<Rightarrow> bytes \<Rightarrow>
   q5_filter_worker \<Rightarrow> delivery \<times> q5_filter_worker" where
  "qw_handle_data cfg send reply client_id sender_id seq payload w =
     (if qf_is_closed client_id (qw_state w) then (Acked, w)
      else
        qw_attempt
          (abind (load_rates reply) (\<lambda>_.
           abind (aget qw_rates) (\<lambda>rm.
           qw_run send (ag_data_msg_id sender_id client_id seq) client_id sender_id seq payload (qf_bfn_data cfg rm client_id) DATA))) w)"

definition qf_upstream_eof_msg_id :: "int \<Rightarrow> int \<Rightarrow> pystr" where
  "qf_upstream_eof_msg_id client_id sender_id = lit ''ue:'' @ int_str client_id @ [58] @ int_str sender_id"

definition qw_handle_upstream_eof ::
  "q5_filter_config \<Rightarrow> (outbox_entry \<Rightarrow> py_error option) \<Rightarrow> int \<Rightarrow> bytes \<Rightarrow> q5_filter_worker \<Rightarrow> delivery \<times> q5_filter_worker" where
  "qw_handle_upstream_eof cfg send client_id payload w =
     (case deserialize_control payload of
        Inl _ \<Rightarrow> (Nacked True, w)
      | Inr ctrl \<Rightarrow>
          if qf_is_closed client_id (qw_state w) then (Acked, w)
          else
            qw_attempt
              (qw_run send (qf_upstream_eof_msg_id client_id (cm_sender_id ctrl)) client_id (cm_sender_id ctrl) client_id payload
                (qf_bfn_upstream_eof cfg client_id (expected_total ctrl) (qf_processed_count client_id (qw_state w))
                   (qf_forwarded_count client_id (qw_state w))) CTRL_UPSTREAM_EOF) w)"

definition qw_handle_abort ::
  "q5_filter_config \<Rightarrow> (outbox_entry \<Rightarrow> py_error option) \<Rightarrow> int \<Rightarrow> int \<Rightarrow> int \<Rightarrow> q5_filter_worker \<Rightarrow> delivery \<times> q5_filter_worker" where
  "qw_handle_abort cfg send client_id sender_id seq w =
     (if qf_is_closed client_id (qw_state w) then (Acked, w)
      else
        qw_attempt (qw_run send (abort_msg_id sender_id client_id seq) client_id sender_id seq [] (qf_bfn_abort cfg client_id) ABORT) w)"

definition qw_process_data_message ::
  "q5_filter_config \<Rightarrow> (outbox_entry \<Rightarrow> py_error option) \<Rightarrow> rates res \<Rightarrow> bytes \<Rightarrow> q5_filter_worker \<Rightarrow> delivery \<times> q5_filter_worker" where
  "qw_process_data_message cfg send reply message w =
     (case unpack_addressed_packet message of
        Inl _ \<Rightarrow> (Nacked True, w)
      | Inr (msg_type, client_id, sender_id, seq, payload) \<Rightarrow>
          if msg_type = message_type_value MT_DATA then qw_handle_data cfg send reply client_id sender_id seq payload w
          else if msg_type = message_type_value MT_EOF then qw_handle_upstream_eof cfg send client_id payload w
          else if msg_type = message_type_value MT_ABORT then qw_handle_abort cfg send client_id sender_id seq w
          else (Nacked True, w))"

definition qf_ctrl_msg_id :: "message_type \<Rightarrow> int \<Rightarrow> int \<Rightarrow> pystr" where
  "qf_ctrl_msg_id msg_type client_id sender_id =
     lit ''ctrl:'' @ int_str (message_type_value msg_type) @ [58] @ int_str client_id @ [58] @ int_str sender_id"

text \<open>The calls of the coordinator that bypass the handler; their messages are sent directly.\<close>

definition qw_coordinator_call :: "message_type \<Rightarrow> int \<Rightarrow> control_message \<Rightarrow> int \<Rightarrow> int \<Rightarrow> (q5_filter_worker, coordinator_action option) act" where
  "qw_coordinator_call msg_type client_id ctrl count fwd =
     on_qw_runner (on_handler (on_worker (on_qf_coordinator (process_control_message msg_type client_id ctrl count fwd))))"

definition qw_send :: "(outbox_entry \<Rightarrow> py_error option) \<Rightarrow> pystr list \<Rightarrow> bytes \<Rightarrow> (q5_filter_worker, unit) act" where
  "qw_send send queues message = on_qw_runner (publish_direct send (broadcast_entries queues message))"

definition qw_processed_request ::
  "q5_filter_config \<Rightarrow> (outbox_entry \<Rightarrow> py_error option) \<Rightarrow> int \<Rightarrow> control_message \<Rightarrow> q5_filter_worker \<Rightarrow> delivery \<times> q5_filter_worker" where
  "qw_processed_request cfg send client_id ctrl w =
     qw_attempt
       (abind (qw_coordinator_call MT_PROCESSED_REQUEST client_id ctrl (qf_processed_count client_id (qw_state w))
                 (qf_forwarded_count client_id (qw_state w))) (\<lambda>action.
        (case action of
           Some (SendAnswerAction queue_name message) \<Rightarrow>
             if queue_name \<notin> set (qf_response_queues cfg (qf_coordinator (qw_state w))) then araise KeyError
             else qw_send send [queue_name] message
         | _ \<Rightarrow> areturn ()))) w"

definition qw_handle_control ::
  "q5_filter_config \<Rightarrow> (outbox_entry \<Rightarrow> py_error option) \<Rightarrow> bytes \<Rightarrow> q5_filter_worker \<Rightarrow> delivery \<times> q5_filter_worker" where
  "qw_handle_control cfg send message w =
     (case rbind (parse_message message) (\<lambda>(t, c, ctrl). rbind (message_type_of t) (\<lambda>msg_type. Inr (msg_type, c, ctrl))) of
        Inl _ \<Rightarrow> (Nacked False, w)
      | Inr (msg_type, client_id, ctrl) \<Rightarrow>
          let sender_id = cm_sender_id ctrl;
              count = qf_processed_count client_id (qw_state w);
              fwd = qf_forwarded_count client_id (qw_state w) in
          if qf_is_closed client_id (qw_state w) then (Acked, w)
          else if msg_type = MT_EOF_RECEIVED then
            qw_attempt (qw_run send (qf_ctrl_msg_id msg_type client_id sender_id) client_id sender_id client_id message
              (qf_bfn_eof_received client_id ctrl count fwd) CTRL_EOF_RECEIVED) w
          else if msg_type = MT_FLUSH_ORDER then
            qw_attempt (qw_run send (qf_ctrl_msg_id msg_type client_id sender_id) client_id sender_id client_id message
              (qf_bfn_flush_order cfg client_id ctrl fwd) CTRL_FLUSH_ORDER) w
          else if msg_type = MT_PROCESSED_REQUEST then qw_processed_request cfg send client_id ctrl w
          else (Acked, w))"

definition qw_processed_answer ::
  "(outbox_entry \<Rightarrow> py_error option) \<Rightarrow> int \<Rightarrow> control_message \<Rightarrow> q5_filter_worker \<Rightarrow> delivery \<times> q5_filter_worker" where
  "qw_processed_answer send client_id ctrl =
     qw_attempt
       (abind (qw_coordinator_call MT_PROCESSED_ANSWER client_id ctrl 0 0) (\<lambda>action.
        (case action of Some (BroadcastAction queues message _) \<Rightarrow> qw_send send queues message | _ \<Rightarrow> areturn ())))"

definition qf_flush_ack_msg_id :: "int \<Rightarrow> int \<Rightarrow> pystr" where
  "qf_flush_ack_msg_id client_id sender_id = lit ''fa:'' @ int_str client_id @ [58] @ int_str sender_id"

definition qw_flush_ack ::
  "q5_filter_config \<Rightarrow> (outbox_entry \<Rightarrow> py_error option) \<Rightarrow> bytes \<Rightarrow> int \<Rightarrow> control_message \<Rightarrow> q5_filter_worker \<Rightarrow> delivery \<times> q5_filter_worker" where
  "qw_flush_ack cfg send message client_id ctrl w =
     (if qf_is_closed client_id (qw_state w) then (Acked, w)
      else
        (let ec = qf_coordinator (qw_state w);
             already = has_flush_ack ec client_id (cm_sender_id ctrl);
             new_ack_count = flush_ack_count ec client_id + (if already then 0 else 1);
             new_total_fwd = accumulated_forwarded ec client_id + processed_count ctrl + qf_forwarded_count client_id (qw_state w) in
         qw_attempt (qw_run send (qf_flush_ack_msg_id client_id (cm_sender_id ctrl)) client_id (cm_sender_id ctrl) client_id message
           (qf_bfn_flush_ack cfg client_id ctrl new_ack_count new_total_fwd) CTRL_FLUSH_ACK) w))"

definition qw_handle_response ::
  "q5_filter_config \<Rightarrow> (outbox_entry \<Rightarrow> py_error option) \<Rightarrow> bytes \<Rightarrow> q5_filter_worker \<Rightarrow> delivery \<times> q5_filter_worker" where
  "qw_handle_response cfg send message w =
     (case rbind (parse_message message) (\<lambda>(t, c, ctrl). rbind (message_type_of t) (\<lambda>msg_type. Inr (msg_type, c, ctrl))) of
        Inl _ \<Rightarrow> (Nacked False, w)
      | Inr (msg_type, client_id, ctrl) \<Rightarrow>
          if msg_type = MT_PROCESSED_ANSWER then qw_processed_answer send client_id ctrl w
          else if msg_type = MT_FLUSH_ACK then qw_flush_ack cfg send message client_id ctrl w
          else (Acked, w))"

end
