(* ===== verification/Q5Runs.thy ===== *)
theory Q5Runs
  imports Q5Filter
begin

text \<open>
  What the currency filter of query 5 does: it is durable, it forwards exactly the transactions of the period worth less than a
  dollar, once and in order, numbered and counted; and what its replicas announce at the end of a client.
\<close>

subsection \<open>The worker is durable\<close>

fun qf_msg :: "pystr \<Rightarrow> input_key \<Rightarrow> bool" where
  "qf_msg m (c, s, q, k) \<longleftrightarrow>
     k = DATA \<and> m = ag_data_msg_id s c q \<or> k = ABORT \<and> m = abort_msg_id s c q \<or>
     k = CTRL_UPSTREAM_EOF \<and> q = c \<and> m = qf_upstream_eof_msg_id c s \<or>
     k = CTRL_EOF_RECEIVED \<and> q = c \<and> m = qf_ctrl_msg_id MT_EOF_RECEIVED c s \<or>
     k = CTRL_FLUSH_ORDER \<and> q = c \<and> m = qf_ctrl_msg_id MT_FLUSH_ORDER c s \<or>
     k = CTRL_FLUSH_ACK \<and> q = c \<and> m = qf_flush_ack_msg_id c s"

lemmas qf_id_defs = ag_data_msg_id_def abort_msg_id_def qf_upstream_eof_msg_id_def qf_ctrl_msg_id_def qf_flush_ack_msg_id_def

lemma qf_ids_disjoint:
  "ag_data_msg_id a b c \<noteq> abort_msg_id d e f" "ag_data_msg_id a b c \<noteq> qf_upstream_eof_msg_id d e"
  "ag_data_msg_id a b c \<noteq> qf_ctrl_msg_id t d e" "ag_data_msg_id a b c \<noteq> qf_flush_ack_msg_id d e"
  "abort_msg_id a b c \<noteq> qf_upstream_eof_msg_id d e" "abort_msg_id a b c \<noteq> qf_ctrl_msg_id t d e"
  "abort_msg_id a b c \<noteq> qf_flush_ack_msg_id d e" "qf_upstream_eof_msg_id a b \<noteq> qf_ctrl_msg_id t d e"
  "qf_upstream_eof_msg_id a b \<noteq> qf_flush_ack_msg_id d e" "qf_ctrl_msg_id t a b \<noteq> qf_flush_ack_msg_id d e"
  by (auto simp: qf_id_defs lit_def)

lemma qf_ctrl_id_inject: "qf_ctrl_msg_id t c s = qf_ctrl_msg_id t' c' s' \<longleftrightarrow> t = t' \<and> c = c' \<and> s = s'"
proof -
  have "t = t'" if "message_type_value t = message_type_value t'" using that by (metis message_type_of_value sum.inject(2))
  then show ?thesis by (auto simp: qf_ctrl_msg_id_def split_at_colon)
qed

interpretation qf_ids: message_ids qf_msg
proof
  show "x = y" if "qf_msg m (c, x)" "qf_msg m (c, y)" for m c x y
  proof -
    obtain s q k where x: "x = (s, q, k)" by (cases x)
    obtain s' q' k' where y: "y = (s', q', k')" by (cases y)
    have "k = k'" using that by (auto simp: x y qf_ids_disjoint qf_ids_disjoint [symmetric] qf_ctrl_id_inject)
    with that show ?thesis
      by (auto simp: x y qf_ctrl_id_inject) (auto simp: qf_id_defs split_at_colon)
  qed
  show "m = m'" if "qf_msg m z" "qf_msg m' z" for m m' z
    using that by (cases z) auto
qed

interpretation qf_durable: durable_worker qf_msg q5_filter_ops "new_q5_filter_state ec" "\<lambda>s. qf_frame s = coordinator_config ec" for ec
  by unfold_locales

lemma qf_data_outputs_ok: "qf_data_outputs cfg rm c q txs = Inr outs \<Longrightarrow> list_all out_ok outs"
  by (induction txs arbitrary: q outs) (auto simp: out_ok_def split: if_splits)

lemma qf_broadcast_ok: "qf_broadcast cfg t c q p = Inr outs \<Longrightarrow> list_all out_ok outs"
proof -
  have "rmap (\<lambda>i. rbind (qf_packet cfg t c (q + i) p) (\<lambda>pkt. Inr (Out2 (qf_agg_queue cfg i) pkt))) is = Inr outs \<Longrightarrow> list_all out_ok outs" for "is"
    by (induction "is" arbitrary: outs) (auto simp: out_ok_def)
  then show "qf_broadcast cfg t c q p = Inr outs \<Longrightarrow> list_all out_ok outs" by (simp add: qf_broadcast_def)
qed

lemma qf_eof_outputs_Inr:
  "qf_eof_outputs cfg c n s = (Inr outs, s') \<longleftrightarrow>
   s' = s \<and> (\<exists>p. qf_eof_payload cfg n = Inr p \<and> qf_broadcast cfg MT_EOF c (qf_agg_seq_of c s) p = Inr outs)"
  by (auto simp: qf_eof_outputs_def abind_eq_Inr alift_def aget_def)

lemma qf_flushed_ok: "state_change_ok ch \<Longrightarrow> state_change_ok (qf_flushed cfg c ch)"
  by (simp add: qf_flushed_def qf_compound_ok)

lemma flush_order_frame: "snd (process_control_message MT_FLUSH_ORDER c ctrl n f ec) = ec"
  by (simp add: process_control_message_def on_flush_order_def)

lemma on_qf_flush_order:
  "on_qf_coordinator (process_control_message MT_FLUSH_ORDER c ctrl n f) s =
   (fst (process_control_message MT_FLUSH_ORDER c ctrl n f (qf_coordinator s)), s)"
  using flush_order_frame [of c ctrl n f "qf_coordinator s"]
  by (auto simp: on_qf_coordinator_def azoom_def split: prod.splits)

text \<open>Every function the handler runs is replay consistent, so the worker survives a crash at any point.\<close>

lemma qf_business_simple:
  "business_ok W (qf_bfn_data cfg rm c) p s" "business_ok W (qf_bfn_abort cfg c) p s"
  "business_ok W (qf_bfn_flush_order cfg c ctrl f) p s" "business_ok W (qf_bfn_flush_ack cfg c ctrl n f) p s"
proof -
  show "business_ok W (qf_bfn_data cfg rm c) p s"
    by (rule business_no_effect)
      (auto simp: qf_bfn_data_def abind_eq_Inr alift_def aget_def areturn_def Let_def split: if_splits dest: qf_data_outputs_ok)
  show "business_ok W (qf_bfn_abort cfg c) p s"
    by (rule business_no_effect)
      (auto simp: qf_bfn_abort_def qf_abort_outputs_def abind_eq_Inr alift_def aget_def areturn_def dest: qf_broadcast_ok)
  show "business_ok W (qf_bfn_flush_order cfg c ctrl f) p s"
    by (rule business_no_effect)
      (auto simp: qf_bfn_flush_order_def abind_eq_Inr on_qf_flush_order alift_def aget_def areturn_def qf_eof_outputs_Inr qf_flushed_ok
        out_ok_def split: if_splits dest: qf_broadcast_ok)
  show "business_ok W (qf_bfn_flush_ack cfg c ctrl n f) p s"
    by (rule business_no_effect)
      (auto simp: qf_bfn_flush_ack_def Let_def abind_eq_Inr areturn_def qf_eof_outputs_Inr qf_flushed_ok split: if_splits
        dest: qf_broadcast_ok)
qed

lemma qf_business_received: "business_ok q5_filter_ops (qf_bfn_eof_received c ctrl n f) p s"
proof (cases "process_control_message MT_EOF_RECEIVED c ctrl n f (qf_coordinator s)")
  case (Pair r ec')
  show ?thesis
  proof (cases r)
    case (Inl e)
    with Pair show ?thesis by (simp add: business_ok_def qf_bfn_eof_received_def act_defs on_qf_coordinator_def)
  next
    case (Inr a)
    with Pair qf_co.received_again [of c ctrl n f s a ec'] show ?thesis
      by (auto simp: business_ok_def qf_bfn_eof_received_def act_defs on_qf_coordinator_def Let_def out_ok_def q5_filter_ops_def
          qf_apply_change_def qf_change_ok(5) [unfolded qf_msg_change_def] qf_msg_change_def
          split: option.splits coordinator_action.splits)
  qed
qed

lemma qf_business_upstream_eof: "business_ok q5_filter_ops (qf_bfn_upstream_eof cfg c e n f) p s"
proof (cases "on_upstream_eof c e n f (qf_coordinator s)")
  case (Pair r ec')
  show ?thesis
  proof (cases r)
    case (Inl x)
    with Pair show ?thesis by (simp add: business_ok_def qf_bfn_upstream_eof_def act_defs on_qf_coordinator_def)
  next
    case (Inr a)
    let ?ch = "qf_upstream_eof_change c e n f" and ?s = "qf_set_coordinator ec' s"
    have same: "qf_apply_change ?ch ?s = qf_apply_change ?ch s"
      using qf_co.upstream_again [of c e n f s a ec'] Pair Inr by (simp add: qf_apply_change_def qf_upstream_eof_change_def)
    then have comp: "qf_apply_change (qf_flushed cfg c ?ch) ?s = qf_apply_change (qf_flushed cfg c ?ch) s"
      unfolding qf_flushed_def by (simp only: qf_apply_simps(1) afor.simps abind_def)
    have call: "on_qf_coordinator (on_upstream_eof c e n f) s = (Inr a, ?s)"
      using Pair Inr by (simp add: on_qf_coordinator_def azoom_def)
    show ?thesis
      unfolding business_ok_def qf_bfn_upstream_eof_def using same comp call
      by (auto simp: abind_def areturn_def Let_def out_ok_def qf_flushed_ok q5_filter_ops_def list_all_iff [of _ "map _ _"]
          split: option.splits coordinator_action.splits prod.splits sum.splits
          dest!: qf_eof_outputs_Inr [THEN iffD1] dest: qf_broadcast_ok)
  qed
qed

subsection \<open>What a batch sends\<close>

text \<open>The transactions that count for query 5: in the period, with a rate, and not worth a dollar or more.\<close>

definition worth_less :: "q5_filter_config \<Rightarrow> rates_manager \<Rightarrow> transaction \<Rightarrow> bool" where
  "worth_less cfg rm tx \<longleftrightarrow> in_q5_range cfg (tx_date tx) \<and>
     (\<exists>usd. convert_to_usd rm (tx_amount tx) (tx_currency tx) (qf_day (tx_date tx)) = Inr usd \<and> \<not> d_le d_one usd)"

lemma qf_passes_iff: "qf_passes cfg rm tx = Inr b \<Longrightarrow> b \<longleftrightarrow> worth_less cfg rm tx"
  by (auto simp: qf_passes_def worth_less_def split: if_splits sum.splits)

text \<open>An output to an aggregator: its queue and what its packet says.\<close>

definition to_aggregator :: "q5_filter_config \<Rightarrow> message_type \<Rightarrow> int \<Rightarrow> int \<Rightarrow> int \<Rightarrow> bytes \<Rightarrow> logical_output \<Rightarrow> bool" where
  "to_aggregator cfg t c i seq payload out \<longleftrightarrow>
     (\<exists>pkt. out = Out2 (qf_agg_queue cfg i) pkt \<and>
        unpack_addressed_packet pkt = Inr (message_type_value t, c, qfc_id cfg, seq, payload))"

lemma qf_packet_output:
  "qf_packet cfg t c q payload = Inr pkt \<Longrightarrow> to_aggregator cfg t c i q payload (Out2 (qf_agg_queue cfg i) pkt)"
  by (auto simp: qf_packet_def to_aggregator_def dest: addressed_packet_roundtrip)

definition data_numbered :: "q5_filter_config \<Rightarrow> int \<Rightarrow> int \<Rightarrow> transaction list \<Rightarrow> logical_output list \<Rightarrow> bool" where
  "data_numbered cfg c q txs outs \<longleftrightarrow> length outs = length txs \<and>
     (\<forall>i < length txs. \<exists>payload. serialize_transaction (txs ! i) = Inr payload \<and>
        to_aggregator cfg MT_DATA c (c mod qfc_aggregation_amount cfg) (q + int i) payload (outs ! i))"

definition eofs_numbered :: "q5_filter_config \<Rightarrow> int \<Rightarrow> int \<Rightarrow> int \<Rightarrow> logical_output list \<Rightarrow> bool" where
  "eofs_numbered cfg c q n outs \<longleftrightarrow> length outs = nat (qfc_aggregation_amount cfg) \<and>
     (\<forall>j < length outs. \<exists>payload.
        deserialize_control payload = Inr \<lparr>cm_sender_id = qfc_id cfg, expected_total = n, processed_count = 0\<rparr> \<and>
        to_aggregator cfg MT_EOF c (int j) (q + int j) payload (outs ! j))"

lemma data_numbered_Nil [simp]: "data_numbered cfg c q [] outs \<longleftrightarrow> outs = []"
  by (simp add: data_numbered_def)

lemma data_numbered_Cons:
  "data_numbered cfg c q (tx # txs) outs \<longleftrightarrow>
   (\<exists>out outs' payload. outs = out # outs' \<and> serialize_transaction tx = Inr payload \<and>
      to_aggregator cfg MT_DATA c (c mod qfc_aggregation_amount cfg) q payload out \<and> data_numbered cfg c (q + 1) txs outs')"
  by (cases outs) (auto simp: data_numbered_def All_less_Suc2 add_ac)

lemma data_numbered_append:
  "data_numbered cfg c q txs outs \<Longrightarrow> data_numbered cfg c (q + int (length txs)) txs' outs' \<Longrightarrow>
   data_numbered cfg c q (txs @ txs') (outs @ outs')"
proof (induction txs arbitrary: q outs)
  case (Cons tx txs)
  from Cons.prems(1) obtain out os payload where "outs = out # os" "serialize_transaction tx = Inr payload"
    "to_aggregator cfg MT_DATA c (c mod qfc_aggregation_amount cfg) q payload out" "data_numbered cfg c (q + 1) txs os"
    by (auto simp: data_numbered_Cons)
  with Cons.IH [of "q + 1" os] Cons.prems(2) show ?case by (auto simp: data_numbered_Cons add_ac)
qed simp

lemma qf_data_outputs_numbered:
  "qf_data_outputs cfg rm c q txs = Inr outs \<Longrightarrow> data_numbered cfg c q (filter (worth_less cfg rm) txs) outs"
proof (induction txs arbitrary: q outs)
  case (Cons tx txs)
  from Cons.prems obtain b where b: "qf_passes cfg rm tx = Inr b" by auto
  note w = qf_passes_iff [OF b]
  show ?case
  proof (cases b)
    case True
    with Cons.prems b obtain sh payload pkt outs' where step: "qf_shard cfg c = Inr sh" "serialize_transaction tx = Inr payload"
      "qf_packet cfg MT_DATA c q payload = Inr pkt" "qf_data_outputs cfg rm c (q + 1) txs = Inr outs'"
      "outs = Out2 (qf_agg_queue cfg sh) pkt # outs'" by auto
    have "sh = c mod qfc_aggregation_amount cfg" using step(1) by (simp add: qf_shard_def split: if_splits)
    with True w step Cons.IH [OF step(4)] qf_packet_output [OF step(3), of sh] show ?thesis by (simp add: data_numbered_Cons)
  next
    case False
    with Cons b w show ?thesis by simp
  qed
qed simp

lemma qf_eofs_numbered:
  assumes "qf_eof_outputs cfg c n s = (Inr outs, s')"
  shows "s' = s \<and> eofs_numbered cfg c (qf_agg_seq_of c s) n outs"
proof -
  from assms obtain p where p: "qf_eof_payload cfg n = Inr p" "qf_broadcast cfg MT_EOF c (qf_agg_seq_of c s) p = Inr outs" and s: "s' = s"
    by (auto simp: qf_eof_outputs_Inr)
  let ?f = "\<lambda>i. rbind (qf_packet cfg MT_EOF c (qf_agg_seq_of c s + i) p) (\<lambda>pkt. Inr (Out2 (qf_agg_queue cfg i) pkt))"
  have map: "rmap ?f is = Inr ys \<Longrightarrow> length ys = length is \<and> (\<forall>j < length is. ?f (is ! j) = Inr (ys ! j))" for "is" ys
    by (induction "is" arbitrary: ys) (auto simp: nth_Cons' less_Suc_eq_0_disj)
  have len: "length outs = nat (qfc_aggregation_amount cfg)" and out: "\<And>j. j < length outs \<Longrightarrow> ?f (int j) = Inr (outs ! j)"
    using map [OF p(2) [unfolded qf_broadcast_def]] by (auto simp: nth_upto)
  have "deserialize_control p = Inr \<lparr>cm_sender_id = qfc_id cfg, expected_total = n, processed_count = 0\<rparr>"
    using p(1) by (auto simp: qf_eof_payload_def intro: control_roundtrip)
  moreover have "to_aggregator cfg MT_EOF c (int j) (qf_agg_seq_of c s + int j) p (outs ! j)" if "j < length outs" for j
  proof -
    from out [OF that] obtain pkt where pkt: "qf_packet cfg MT_EOF c (qf_agg_seq_of c s + int j) p = Inr pkt"
      "outs ! j = Out2 (qf_agg_queue cfg (int j)) pkt" by auto
    from qf_packet_output [OF pkt(1), of "int j"] show ?thesis by (simp add: pkt(2))
  qed
  ultimately show ?thesis using s len by (auto simp: eofs_numbered_def)
qed

subsection \<open>A client from its first batch to its EOFs\<close>

text \<open>The batches of a client, each as the handler runs it: the business function, then the change it returned.\<close>

fun qf_feed :: "q5_filter_config \<Rightarrow> rates_manager \<Rightarrow> int \<Rightarrow> bytes list \<Rightarrow> (q5_filter_state, logical_output list) act" where
  "qf_feed cfg rm c [] = areturn []"
| "qf_feed cfg rm c (payload # payloads) =
     abind (qf_bfn_data cfg rm c payload) (\<lambda>(change, outs).
     abind (qf_apply_change change) (\<lambda>_.
     abind (qf_feed cfg rm c payloads) (\<lambda>rest. areturn (outs @ rest))))"

definition qf_finish :: "q5_filter_config \<Rightarrow> int \<Rightarrow> int \<Rightarrow> (q5_filter_state, logical_output list) act" where
  "qf_finish cfg c expected s =
     abind (qf_bfn_upstream_eof cfg c expected (qf_processed_count c s) (qf_forwarded_count c s) []) (\<lambda>(change, outs).
     abind (qf_apply_change change) (\<lambda>_. areturn outs)) s"

text \<open>What a client's transactions have added between two states.\<close>

definition q5_counted :: "q5_filter_config \<Rightarrow> rates_manager \<Rightarrow> int \<Rightarrow> transaction list \<Rightarrow> q5_filter_state \<Rightarrow> q5_filter_state \<Rightarrow> bool" where
  "q5_counted cfg rm c txs s s' \<longleftrightarrow>
     qf_processed_count c s' = qf_processed_count c s + int (length txs) \<and>
     qf_forwarded_count c s' = qf_forwarded_count c s + int (length (filter (worth_less cfg rm) txs)) \<and>
     qf_agg_seq_of c s' = qf_agg_seq_of c s + int (length (filter (worth_less cfg rm) txs)) \<and>
     qf_closed s' = qf_closed s \<and> qf_coordinator s' = qf_coordinator s"

lemma qf_batch_counted:
  assumes run: "qf_bfn_data cfg rm c payload s = (Inr (ch, outs), s0)" "qf_apply_change ch s0 = (Inr u, s')"
    and txs: "deserialize_transactions payload = Inr txs" and opn: "c \<notin> qf_closed s"
    and "0 \<le> qf_agg_seq_of c s" and "qf_agg_seq_of c s + int (length (filter (worth_less cfg rm) txs)) < 2 ^ 32"
  shows "data_numbered cfg c (qf_agg_seq_of c s) (filter (worth_less cfg rm) txs) outs \<and> q5_counted cfg rm c txs s s'"
proof (cases "txs = []")
  case True
  with run(1) txs have "ch = qf_data_change c 0 0 0" "outs = []" "s0 = s"
    by (auto simp: qf_bfn_data_def abind_eq_Inr alift_def areturn_def)
  with run(2) qf_apply_data_change [OF opn, of 0 0 0 u s'] True show ?thesis by (simp add: q5_counted_def)
next
  case False
  with run(1) txs have out: "qf_data_outputs cfg rm c (qf_agg_seq_of c s) txs = Inr outs" "s0 = s"
    and ch: "ch = qf_data_change c (int (length txs)) (int (length outs)) (int (length outs))"
    by (auto simp: qf_bfn_data_def abind_eq_Inr alift_def aget_def areturn_def Let_def)
  note D = qf_data_outputs_numbered [OF out(1)]
  then have len: "length outs = length (filter (worth_less cfg rm) txs)" by (simp add: data_numbered_def)
  note A = qf_apply_data_change [OF opn run(2) [unfolded ch out(2)]]
  have "qf_agg_seq_of c s' = qf_agg_seq_of c s + int (length (filter (worth_less cfg rm) txs))"
    using A(3) assms(5,6) by (simp add: len mod_pos_pos_trivial)
  with A(1,2,4,5) D show ?thesis by (simp add: q5_counted_def len)
qed

lemma qf_feed_counted:
  assumes "qf_feed cfg rm c payloads s = (Inr outs, s')" and "rmap deserialize_transactions payloads = Inr batches"
    and "c \<notin> qf_closed s" and "0 \<le> qf_agg_seq_of c s"
    and "qf_agg_seq_of c s + int (length (filter (worth_less cfg rm) (concat batches))) < 2 ^ 32"
  shows "data_numbered cfg c (qf_agg_seq_of c s) (filter (worth_less cfg rm) (concat batches)) outs \<and>
    q5_counted cfg rm c (concat batches) s s'"
  using assms
proof (induction payloads arbitrary: s outs batches)
  case Nil
  then show ?case by (simp add: areturn_def q5_counted_def)
next
  case (Cons payload payloads)
  from Cons.prems(1) obtain ch o1 s0 s1 o2 where run: "qf_bfn_data cfg rm c payload s = (Inr (ch, o1), s0)"
    "qf_apply_change ch s0 = (Inr (), s1)" "qf_feed cfg rm c payloads s1 = (Inr o2, s')" "outs = o1 @ o2"
    by (auto simp: abind_eq_Inr areturn_def)
  from Cons.prems(2) obtain txs bs where b: "deserialize_transactions payload = Inr txs"
    "rmap deserialize_transactions payloads = Inr bs" "batches = txs # bs" by auto
  let ?small = "filter (worth_less cfg rm)"
  have B: "data_numbered cfg c (qf_agg_seq_of c s) (?small txs) o1" "q5_counted cfg rm c txs s s1"
    using qf_batch_counted [OF run(1,2) b(1) Cons.prems(3,4)] Cons.prems(5) b(3) by auto
  then have s1: "c \<notin> qf_closed s1" "qf_agg_seq_of c s1 = qf_agg_seq_of c s + int (length (?small txs))"
    using Cons.prems(3) by (auto simp: q5_counted_def)
  have "data_numbered cfg c (qf_agg_seq_of c s1) (?small (concat bs)) o2 \<and> q5_counted cfg rm c (concat bs) s1 s'"
    by (rule Cons.IH [OF run(3) b(2) s1(1)]) (use Cons.prems(4,5) s1(2) b(3) in auto)
  with B s1(2) run(4) b(3) data_numbered_append [OF B(1)] show ?case by (simp add: q5_counted_def)
qed

lemma qf_finish_single:
  assumes "qf_finish cfg c expected s = (Inr outs, s')" and "ec_total (qf_coordinator s) \<le> 1"
  shows "eofs_numbered cfg c (qf_agg_seq_of c s) (qf_forwarded_count c s) outs \<and> qf_is_closed c s'"
proof -
  have act: "on_qf_coordinator (on_upstream_eof c expected n f) s = (Inr (Some (FlushAction True f [])), s)" for n f
    using assms(2) by (simp add: on_qf_coordinator_def azoom_def on_upstream_eof_def)
  from assms(1) obtain ch where out: "qf_eof_outputs cfg c (qf_forwarded_count c s) s = (Inr outs, s)"
    "qf_apply_change (qf_flushed cfg c ch) s = (Inr (), s')"
    by (auto simp: qf_finish_def qf_bfn_upstream_eof_def abind_eq_Inr areturn_def act Let_def dest: qf_eofs_numbered)
  have "qf_is_closed c s'" using out(2)
    by (auto simp: qf_flushed_def qf_apply_simps abind_eq_Inr areturn_def amodify_def qf_is_closed_def qf_apply_close_def)
  with qf_eofs_numbered [OF out(1)] show ?thesis by simp
qed

text \<open>
  C15: a single currency filter sends to the aggregator of the client, in order and with consecutive numbers, each
  transaction of its batches that lies in the period and is worth less than a dollar at the rates it loaded, one without a
  rate being left out, and no other; it counts what it read and what it sent; at the EOF every aggregator is told the number
  sent, under the next numbers, and the client is closed.
\<close>

theorem q5_filter_forwards:
  assumes "qf_feed cfg rm c payloads s = (Inr data, s1)" and "rmap deserialize_transactions payloads = Inr batches"
    and "qf_finish cfg c expected s1 = (Inr eofs, s')"
    and "c \<notin> qf_closed s" and "qf_forwarded_count c s = 0" and "qf_processed_count c s = 0" and "0 \<le> qf_agg_seq_of c s"
    and "qf_agg_seq_of c s + int (length (filter (worth_less cfg rm) (concat batches))) < 2 ^ 32"
    and "ec_total (qf_coordinator s) \<le> 1"
  shows "data_numbered cfg c (qf_agg_seq_of c s) (filter (worth_less cfg rm) (concat batches)) data \<and>
    qf_processed_count c s1 = int (length (concat batches)) \<and> qf_forwarded_count c s1 = int (length data) \<and>
    eofs_numbered cfg c (qf_agg_seq_of c s + int (length data)) (int (length data)) eofs \<and> qf_is_closed c s'"
proof -
  have F: "data_numbered cfg c (qf_agg_seq_of c s) (filter (worth_less cfg rm) (concat batches)) data"
    "q5_counted cfg rm c (concat batches) s s1"
    using qf_feed_counted [OF assms(1,2,4,7,8)] by auto
  then have s1: "length data = length (filter (worth_less cfg rm) (concat batches))" "ec_total (qf_coordinator s1) \<le> 1"
    using assms(9) by (simp_all add: data_numbered_def q5_counted_def)
  from qf_finish_single [OF assms(3) s1(2)] F s1(1) assms(5,6) show ?thesis by (simp add: q5_counted_def)
qed

subsubsection \<open>A concrete filter\<close>

definition demo_q5_filter :: q5_filter_config where
  "demo_q5_filter = \<lparr>qfc_id = 0, qfc_input_routing_prefix = lit ''filter_q5_usd'', qfc_aggregation_amount = 2,
     qfc_aggregation_prefix = lit ''aggregation_q5'', qfc_start_date = lit ''2022-09-01'', qfc_end_date = lit ''2022-09-05'',
     qfc_amount = 1, qfc_prefix = lit ''filter_q5_usd''\<rparr>"

definition demo_q5_state :: q5_filter_state where
  "demo_q5_state = new_q5_filter_state
     \<lparr>ec_id = 0, ec_total = 1, ec_control_prefix = lit ''c'', ec_response_prefix = lit ''r'', ec_mode = Broadcast,
      ec_leader_id = 0, ec_is_leader = True, pending_eof = [], seen_eof = {}, leader_expected = [],
      leader_processed = [], leader_responders = [], flush_acks = [], forwarded_from_acks = []\<rparr>"

text \<open>Half a dollar.\<close>

definition demo_small_tx :: transaction where
  "demo_small_tx = demo_tx\<lparr>tx_amount := 0x3FE0000000000000\<rparr>"

abbreviation demo_rates :: rates_manager where
  "demo_rates \<equiv> new_rates_manager None"

lemma demo_passes:
  "qf_passes demo_q5_filter demo_rates demo_tx = Inr False" "qf_passes demo_q5_filter demo_rates demo_small_tx = Inr True"
proof -
  have date: "in_q5_range demo_q5_filter (tx_date demo_tx)"
    by (simp add: in_q5_range_def qf_day_def demo_q5_filter_def demo_tx_def lit_def)
  have more: "d_le d_one 0x40ACD1D70A3D70A4" and less: "\<not> d_le d_one 0x3FE0000000000000"
    by (simp_all add: d_le_def is_nan_def d_mag_def d_key_def d_sign_def inf_key_def d_one_def d_make_def)
  show "qf_passes demo_q5_filter demo_rates demo_tx = Inr False" "qf_passes demo_q5_filter demo_rates demo_small_tx = Inr True"
    using date more less by (simp_all add: qf_passes_def convert_to_usd_def demo_small_tx_def) (simp_all add: demo_tx_def)
qed

lemma demo_q5_payload:
  "\<exists>payload b. deserialize_transactions payload = Inr [demo_tx, demo_small_tx] \<and> serialize_transaction demo_small_tx = Inr b"
proof -
  have "\<exists>b. serialize_transaction demo_tx = Inr b" "\<exists>b. serialize_transaction demo_small_tx = Inr b"
    by (simp_all add: serialize_transaction_def demo_small_tx_def demo_tx_def encode_fixed_ascii ascii_def lit_def field_sizes pack_uint_def)
  then obtain a b where ab: "serialize_transaction demo_tx = Inr a" "serialize_transaction demo_small_tx = Inr b" by blast
  then have "serialize_transactions [demo_tx, demo_small_tx] = Inr (a @ b)" by (simp add: serialize_transactions_def encode_batch_def)
  moreover have "list_all transaction_ok [demo_tx, demo_small_tx]"
    by (simp add: transaction_ok_def demo_tx_def demo_small_tx_def no_trailing_nul_def lit_def)
  ultimately have "deserialize_transactions (a @ b) = Inr [demo_tx, demo_small_tx]" using tx_codec.batch_roundtrip
    by (auto simp: serialize_transactions_def deserialize_transactions_def)
  with ab show ?thesis by blast
qed

lemma demo_q5_packet: "\<exists>pkt. qf_packet demo_q5_filter t 7 q p = Inr pkt" if "q \<in> {0, 1, 2}"
  using that by (cases t) (auto simp: qf_packet_def client_id_to_bytes_def create_addressed_packet_def pack_uint_def demo_q5_filter_def)

theorem q5_filter_forwards_witness:
  "\<exists>payload data s1 eofs s'. qf_feed demo_q5_filter demo_rates 7 [payload] demo_q5_state = (Inr data, s1) \<and>
     qf_finish demo_q5_filter 7 2 s1 = (Inr eofs, s') \<and> qf_processed_count 7 s1 = 2 \<and> length data = 1 \<and>
     eofs_numbered demo_q5_filter 7 1 1 eofs \<and> qf_is_closed 7 s'"
proof -
  obtain payload b where pl: "deserialize_transactions payload = Inr [demo_tx, demo_small_tx]" "serialize_transaction demo_small_tx = Inr b"
    using demo_q5_payload by blast
  obtain pkt where pkt: "qf_packet demo_q5_filter MT_DATA 7 0 b = Inr pkt" using demo_q5_packet by blast
  have amount: "qfc_aggregation_amount demo_q5_filter = 2" by (simp add: demo_q5_filter_def)
  have start: "7 \<notin> qf_closed demo_q5_state" "qf_forwarded_count 7 demo_q5_state = 0" "qf_processed_count 7 demo_q5_state = 0"
    "qf_agg_seq_of 7 demo_q5_state = 0" "ec_total (qf_coordinator demo_q5_state) \<le> 1"
    by (simp_all add: demo_q5_state_def new_q5_filter_state_def qf_forwarded_count_def qf_processed_count_def qf_agg_seq_of_def)
  have outs: "qf_data_outputs demo_q5_filter demo_rates 7 0 [demo_tx, demo_small_tx] = Inr [Out2 (qf_agg_queue demo_q5_filter 1) pkt]"
    by (simp add: demo_passes qf_shard_def amount pl(2) pkt)
  obtain s1 where s1: "qf_apply_change (qf_data_change 7 2 1 1) demo_q5_state = (Inr (), s1)" using qf_apply_data_total by blast
  have feed: "qf_feed demo_q5_filter demo_rates 7 [payload] demo_q5_state = (Inr [Out2 (qf_agg_queue demo_q5_filter 1) pkt], s1)"
    using s1 by (simp add: qf_bfn_data_def abind_def alift_def aget_def areturn_def pl(1) start(4) outs Let_def del: qf_data_outputs.simps)
  note S = qf_apply_data_change [OF start(1) s1]
  then have s1': "qf_forwarded_count 7 s1 = 1" "qf_agg_seq_of 7 s1 = 1" "ec_total (qf_coordinator s1) \<le> 1"
    using start by simp_all
  have "case qf_eof_payload demo_q5_filter 1 of Inl _ \<Rightarrow> False | Inr eof \<Rightarrow> True" by code_simp
  then obtain eof where eof: "qf_eof_payload demo_q5_filter 1 = Inr eof" by (auto split: sum.splits)
  obtain p1 where p1: "qf_packet demo_q5_filter MT_EOF 7 1 eof = Inr p1" using demo_q5_packet by blast
  obtain p2 where p2: "qf_packet demo_q5_filter MT_EOF 7 2 eof = Inr p2" using demo_q5_packet by blast
  have two: "[0..1] = [0, 1::int]" by code_simp
  have "\<exists>eofs s'. qf_finish demo_q5_filter 7 2 s1 = (Inr eofs, s')"
  proof -
    have act: "on_upstream_eof 7 2 n f (qf_coordinator s1) = (Inr (Some (FlushAction True f [])), qf_coordinator s1)" for n f
      using s1'(3) by (simp add: on_upstream_eof_def)
    have "\<exists>eofs. qf_eof_outputs demo_q5_filter 7 1 s1 = (Inr eofs, s1)"
      using eof p1 p2 by (simp add: qf_eof_outputs_Inr qf_broadcast_def amount two s1'(2))
    then obtain eofs where eofs: "qf_eof_outputs demo_q5_filter 7 1 s1 = (Inr eofs, s1)" by blast
    obtain s2 where s2: "qf_apply_change (qf_data_change 7 0 0 2) s1 = (Inr (), s2)" using qf_apply_data_total by blast
    show ?thesis
      using eofs s2
      by (simp add: qf_finish_def qf_bfn_upstream_eof_def abind_def areturn_def on_qf_coordinator_def azoom_def act s1'(1) Let_def
          qf_flushed_def qf_apply_simps amodify_def amount)
  qed
  then obtain eofs s' where fin: "qf_finish demo_q5_filter 7 2 s1 = (Inr eofs, s')" by blast
  have small: "\<not> worth_less demo_q5_filter demo_rates demo_tx" "worth_less demo_q5_filter demo_rates demo_small_tx"
    using qf_passes_iff [OF demo_passes(1)] qf_passes_iff [OF demo_passes(2)] by simp_all
  from q5_filter_forwards [OF feed _ fin start(1-3) _ _ start(5), of "[[demo_tx, demo_small_tx]]"] feed fin show ?thesis
    by (intro exI conjI) (auto simp: pl(1) start(4) small)
qed

subsection \<open>The EOF of a follower\<close>

lemma quorum_orders_flush:
  assumes "round_holds ec c []" and "map_of (leader_expected ec) c = Some expected" and "dict_wf (d @ [a])"
    and "int (length d) + 1 = ec_total ec" and "expected \<le> sum_list (map snd (d @ [a]))"
  shows "last (fst (deliver_answers c (d @ [a]) ec)) =
    rbind (make_packet MT_FLUSH_ORDER c (ec_id ec) 0 0) (\<lambda>msg. Inr (Some (BroadcastAction (control_queues ec) msg 0)))"
proof -
  have wf: "dict_wf d" "map_of d (fst a) = None" using assms(3) by (auto simp: dict_wf_def map_of_eq_None_iff)
  have first: "foldl first_answer e d = e @ d" if "dict_wf (e @ d)" for e
    using that
  proof (induction d arbitrary: e)
    case (Cons x d)
    then have "map_of e (fst x) = None" by (auto simp: dict_wf_def map_of_eq_None_iff)
    with Cons.IH [of "e @ [x]"] Cons.prems show ?case by (simp add: first_answer_def)
  qed simp
  with wf(1) have all: "foldl first_answer [] d = d" by simp
  then obtain ec1 where ec1: "deliver_answers c d ec = (replicate (length d) (Inr None), ec1)" "round_holds ec1 c d"
    "leader_expected ec1 = leader_expected ec" "coordinator_config ec1 = coordinator_config ec"
    using deliver_few [OF assms(1), of d] assms(4) by auto
  have cfg: "ec_total ec1 = ec_total ec" "ec_id ec1 = ec_id ec" "control_queues ec1 = control_queues ec"
    using ec1(4) by (auto simp: coordinator_config_def control_queues_def control_queue_for_def)
  have app: "fst (deliver_answers c (as @ [a]) e) =
      fst (deliver_answers c as e) @ [fst (on_processed_answer c (answer a) (snd (deliver_answers c as e)))]" for as e
    by (induction as arbitrary: e) (simp_all add: Let_def case_prod_beta)
  from answer_quorum(1) [OF ec1(2) wf(2), of expected] assms(2,4,5) ec1(3) cfg show ?thesis
    by (simp add: app ec1(1))
qed

text \<open>
  C16: a replica of the currency filter that is told to flush a client announces to every aggregator, as the total to expect,
  only what it forwarded itself. An aggregator that leads the client and hears this EOF first takes that
  number as the total, ignores every EOF after it, the leader's with the true total too, and orders the flush as soon as
  the answers of a round reach it, however many transactions are still on their way.
\<close>

theorem follower_eof_understates:
  assumes "qf_bfn_flush_order cfg c ctrl (qf_forwarded_count c s) payload s = (Inr (ch, outs), s')"
    and "ec_mode (qf_coordinator s) = Broadcast" and "map_of (leader_expected (qf_coordinator s)) c = None"
    and "j < nat (qfc_aggregation_amount cfg)"
    and "ec_mode ec = FlushOrder" and "ec_is_leader ec" and "1 < ec_total ec" and "c \<notin> seen_eof ec" and "round_holds ec c []"
  shows "(\<exists>eof. deserialize_control eof =
        Inr \<lparr>cm_sender_id = qfc_id cfg, expected_total = qf_forwarded_count c s, processed_count = 0\<rparr> \<and>
      to_aggregator cfg MT_EOF c (int j) (qf_agg_seq_of c s + int j) eof (outs ! j)) \<and>
    (\<forall>later n' d a. let ec' = snd (on_upstream_eof c (qf_forwarded_count c s) n 0 ec) in
      on_upstream_eof c later n' 0 ec' = (Inr None, ec') \<and>
      (dict_wf (d @ [a]) \<and> int (length d) + 1 = ec_total ec \<and> qf_forwarded_count c s \<le> sum_list (map snd (d @ [a])) \<longrightarrow>
       last (fst (deliver_answers c (d @ [a]) ec')) =
         rbind (make_packet MT_FLUSH_ORDER c (ec_id ec) 0 0) (\<lambda>msg. Inr (Some (BroadcastAction (control_queues ec) msg 0)))))"
proof (rule conjI)
  have act: "fst (process_control_message MT_FLUSH_ORDER c ctrl 0 0 (qf_coordinator s)) \<noteq> Inr None"
    using assms(2,3) by (simp add: process_control_message_def on_flush_order_def is_leader_here_def)
  with assms(1) obtain eofs ack where out: "qf_eof_outputs cfg c (qf_forwarded_count c s) s = (Inr eofs, s)" "outs = eofs @ [ack]"
    by (auto simp: qf_bfn_flush_order_def abind_eq_Inr on_qf_flush_order areturn_def alift_def aget_def split: if_splits
        dest: qf_eofs_numbered)
  from qf_eofs_numbered [OF out(1)] assms(4) show "\<exists>eof. deserialize_control eof =
        Inr \<lparr>cm_sender_id = qfc_id cfg, expected_total = qf_forwarded_count c s, processed_count = 0\<rparr> \<and>
      to_aggregator cfg MT_EOF c (int j) (qf_agg_seq_of c s + int j) eof (outs ! j)"
    by (auto simp: eofs_numbered_def out(2) nth_append)
next
  let ?ec = "snd (on_upstream_eof c (qf_forwarded_count c s) n 0 ec)"
  have ec': "?ec = ec\<lparr>seen_eof := insert c (seen_eof ec), leader_expected := dset c (qf_forwarded_count c s) (leader_expected ec)\<rparr>"
    using assms(5-8) by (simp add: on_upstream_eof_def Let_def)
  have "round_holds ?ec c []" "map_of (leader_expected ?ec) c = Some (qf_forwarded_count c s)" "ec_total ?ec = ec_total ec"
    "ec_id ?ec = ec_id ec" "control_queues ?ec = control_queues ec"
    using assms(9) by (simp_all add: ec' round_holds_def control_queues_def control_queue_for_def)
  moreover have "on_upstream_eof c later n' 0 ?ec = (Inr None, ?ec)" for later n'
    unfolding ec' using assms(5,7) by (simp add: on_upstream_eof_def)
  ultimately show "\<forall>later n' d a. let ec' = ?ec in
      on_upstream_eof c later n' 0 ec' = (Inr None, ec') \<and>
      (dict_wf (d @ [a]) \<and> int (length d) + 1 = ec_total ec \<and> qf_forwarded_count c s \<le> sum_list (map snd (d @ [a])) \<longrightarrow>
       last (fst (deliver_answers c (d @ [a]) ec')) =
         rbind (make_packet MT_FLUSH_ORDER c (ec_id ec) 0 0) (\<lambda>msg. Inr (Some (BroadcastAction (control_queues ec) msg 0))))"
    using quorum_orders_flush [of ?ec c "qf_forwarded_count c s"] by (simp add: Let_def)
qed

definition demo_follower :: q5_filter_state where
  "demo_follower =
     \<lparr>qf_coordinator =
        \<lparr>ec_id = 0, ec_total = 2, ec_control_prefix = lit ''c'', ec_response_prefix = lit ''r'', ec_mode = Broadcast,
         ec_leader_id = 0, ec_is_leader = True, pending_eof = [(7, 3, 1)], seen_eof = {}, leader_expected = [],
         leader_processed = [], leader_responders = [], flush_acks = [], forwarded_from_acks = []\<rparr>,
      qf_processed = [(7, 2)], qf_forwarded = [(7, 1)], qf_agg_seq = [(7, 1)], qf_closed = {}\<rparr>"

definition demo_q5_two :: q5_filter_config where
  "demo_q5_two = demo_q5_filter\<lparr>qfc_amount := 2\<rparr>"

lemma demo_two_packet: "qf_packet demo_q5_two = qf_packet demo_q5_filter"
  by (simp add: fun_eq_iff qf_packet_def demo_q5_two_def)

text \<open>
  Two aggregators, a follower that forwarded one transaction and a leader that forwarded two: the flush is ordered when one
  of the three has been counted.
\<close>

theorem follower_eof_understates_witness:
  "\<exists>ch outs s' eof. qf_bfn_flush_order demo_q5_two 7 \<lparr>cm_sender_id = 1, expected_total = 0, processed_count = 0\<rparr> 1 [] demo_follower =
       (Inr (ch, outs), s') \<and>
     deserialize_control eof = Inr \<lparr>cm_sender_id = 0, expected_total = 1, processed_count = 0\<rparr> \<and>
     to_aggregator demo_q5_two MT_EOF 7 0 1 eof (outs ! 0) \<and>
     (let ec' = snd (on_upstream_eof 7 1 1 0 demo_coordinator) in
      on_upstream_eof 7 3 1 0 ec' = (Inr None, ec') \<and>
      last (fst (deliver_answers 7 [(0, 1), (1, 0)] ec')) =
        rbind (make_packet MT_FLUSH_ORDER 7 0 0 0) (\<lambda>msg. Inr (Some (BroadcastAction (control_queues demo_coordinator) msg 0))))"
proof -
  let ?ctrl = "\<lparr>cm_sender_id = 1, expected_total = 0, processed_count = 0\<rparr> :: control_message"
  have st: "qf_forwarded_count 7 demo_follower = 1" "qf_agg_seq_of 7 demo_follower = 1"
    by (simp_all add: qf_forwarded_count_def qf_agg_seq_of_def demo_follower_def dget_def)
  have amount: "qfc_aggregation_amount demo_q5_two = 2" by (simp add: demo_q5_two_def demo_q5_filter_def)
  have "case qf_eof_payload demo_q5_two 1 of Inl _ \<Rightarrow> False | Inr eof \<Rightarrow> True" by code_simp
  then obtain eof where eof: "qf_eof_payload demo_q5_two 1 = Inr eof" by (auto split: sum.splits)
  obtain p1 where p1: "qf_packet demo_q5_two MT_EOF 7 1 eof = Inr p1" using demo_q5_packet unfolding demo_two_packet by blast
  obtain p2 where p2: "qf_packet demo_q5_two MT_EOF 7 2 eof = Inr p2" using demo_q5_packet unfolding demo_two_packet by blast
  have two: "[0..1] = [0, 1::int]" by code_simp
  obtain ack where ack: "build_flush_ack (qf_coordinator demo_follower) 7 1 = Inr ack"
    using make_packet_ok [of 7 0 0 1 MT_FLUSH_ACK] by (auto simp: build_flush_ack_def demo_follower_def)
  have "\<exists>eofs. qf_eof_outputs demo_q5_two 7 1 demo_follower = (Inr eofs, demo_follower)"
    using eof p1 p2 by (simp add: qf_eof_outputs_Inr qf_broadcast_def amount two st(2))
  then obtain eofs where eofs: "qf_eof_outputs demo_q5_two 7 1 demo_follower = (Inr eofs, demo_follower)" by blast
  have lead: "map_of (leader_expected (qf_coordinator demo_follower)) 7 = None" "ec_mode (qf_coordinator demo_follower) = Broadcast"
    by (simp_all add: demo_follower_def)
  have "fst (process_control_message MT_FLUSH_ORDER 7 ?ctrl 0 0 (qf_coordinator demo_follower)) =
      Inr (Some (FlushAction False 0 (response_queue_for (qf_coordinator demo_follower) 1)))"
    using lead by (simp add: process_control_message_def on_flush_order_def is_leader_here_def)
  then obtain ch outs s' where run: "qf_bfn_flush_order demo_q5_two 7 ?ctrl (qf_forwarded_count 7 demo_follower) [] demo_follower =
      (Inr (ch, outs), s')"
    by (simp add: qf_bfn_flush_order_def on_qf_flush_order abind_def aget_def alift_def areturn_def st(1) eofs ack)
  have ec: "ec_mode demo_coordinator = FlushOrder" "ec_is_leader demo_coordinator" "1 < ec_total demo_coordinator"
    "7 \<notin> seen_eof demo_coordinator" "round_holds demo_coordinator 7 []" "ec_total demo_coordinator = 2" "ec_id demo_coordinator = 0"
    by (simp_all add: demo_coordinator_def round_holds_def)
  note F = follower_eof_understates [OF run lead(2,1) _ ec(1-5), of 0 1]
  have zero: "0 < nat (qfc_aggregation_amount demo_q5_two)" by (simp add: amount)
  note F1 = F [OF zero, THEN conjunct1] and F2 = F [OF zero, THEN conjunct2, rule_format, of 3 1 "[(0, 1)]" "(1, 0)"]
  have "qfc_id demo_q5_two = 0" by (simp add: demo_q5_two_def demo_q5_filter_def)
  with F1 F2 run show ?thesis by (auto simp: st ec Let_def)
qed

end
