(* ===== verification/Spec2Isabelle.thy ===== *)
theory Spec2Isabelle
  imports Prelude Bytes Text Json Outbox Inbox Wal Routing Protocol Sequencer Snapshot Handler Durability Runner Base64 StateChange EofCoordinator Aggregator
    BatchBuffer UpstreamEof LineSplitter Election ElectionHandler ElectionRuns ElectionNetwork Monitor Double FixedCodec Serializers Processors Joiner Wire LineBatches SumWorker
    FanIn Coordinated Q4Filter Q4Sum Q4Joiner Q4Aggregator Q4Deduper Q4Pipeline Q4Reference Q4EndToEnd
    ShardedPublisher FilterState FilterConfig FilterWorker Sent FilterRuns Q3BarrierState Q3Barrier BankNameJoiner
    FileSplitterState FileSplitterRuns FileSplitter FloatArith Rates Q5FilterState Q5Filter Q5Runs
begin

text \<open>
  A verification library for a distributed analysis of bank transactions (Python workers that talk through
  a message broker). A client streams CSV files to a gateway; workers split them into lines, parse, filter,
  sum, aggregate and join them, and the gateway returns the results. Every worker is replicated or sharded,
  survives crashes through a write-ahead log with snapshots, and is watched by monitors that elect a leader
  among themselves. File names below are relative to \<open>src/src\<close>.

  \<^bold>\<open>Conventions.\<close> A Python function that may raise returns \<^verbatim>\<open>py_error + 'a\<close> (\<open>res\<close>); a method that also
  changes its object is a state-passing action (\<open>act\<close>, theory \<open>Prelude\<close>), and an exception keeps the changes
  made before it. Dictionaries whose order or duplicates matter are association lists (\<open>dset\<close>, \<open>dget\<close>,
  \<open>dpop\<close>), strings are lists of code points, bytes are 8-bit words, Python integers are \<open>int\<close>, floats are
  binary64 words with rounding written out (\<open>Double\<close>). Everything a witness evaluates is executable.

  \<^bold>\<open>Shared layers.\<close>
  \<open>Prelude\<close> (results, actions, dictionaries, the collections \<open>codec\<close> and \<open>keeps_intros\<close>), \<open>Bytes\<close>
  (\<open>common/fault_tolerance/_encoding.py\<close>, \<open>struct\<close> and \<open>int.to_bytes\<close>), \<open>Text\<close> (UTF-8, \<open>str(int)\<close>,
  \<open>int(str)\<close>, \<open>strip\<close>, \<open>isdigit\<close> with the Unicode decimal digits), \<open>Json\<close> (the printer and parser the log uses),
  \<open>Base64\<close>, \<open>StateChange\<close> (access to the logged dictionaries), \<open>Double\<close> (comparison, addition, division by a
  count, \<open>float(str)\<close>) and \<open>FloatArith\<close> (product and quotient), \<open>FixedCodec\<close> (fixed-width fields and batches of records, locale \<open>strict_codec\<close>).

  \<^bold>\<open>Durable workers\<close> (\<open>common/fault_tolerance\<close>). \<open>Outbox\<close>, \<open>Inbox\<close>, \<open>Wal\<close>, \<open>Snapshot\<close>, \<open>Sequencer\<close> model the
  parts of the same names; \<open>Handler\<close> is \<open>PersistentStateHandler\<close>, \<open>Runner\<close> is \<open>WorkerRunner\<close>. A disk is a value: the
  log is the bytes of its segment, the snapshot files are present or not and readable or not, and an
  operation that writes several times has the list of disks between its writes. The inbox theorems say that
  the tracker accepts each number once, up to its cap on gaps; the log theorems that what was
  written to a segment of whole records is what is replayed, a torn tail being dropped, and that a torn record hides what is appended
  behind it; the snapshot theorem that a crash at any point of
  \<open>commit\<close> leaves the old or the new snapshot; the sequencer theorems that output ids are distinct and each
  stream has no gaps. \<open>Durability\<close> states the contract of a worker state as the locales \<open>worker_state\<close>,
  \<open>message_ids\<close>, \<open>durable_worker\<close> and \<open>durable_life\<close> and proves once that recovery from the disk gives the memory back, in any
  life of a handler (\<open>lifetime\<close>) and at every crash point of \<open>handle\<close> and \<open>commit_done\<close>, as long as the log segment holds no
  torn record and up to the part of the worker's state that it changes without logging (\<open>kept\<close>): for the aggregator, the
  answers of the replicas to the leader, which are lost in a crash. The aggregator and the joiner interpret \<open>durable_life\<close>, the sum
  worker, the filters and the scatter-gather workers \<open>worker_state\<close> and \<open>durable_worker\<close>.

  \<^bold>\<open>Messages.\<close> \<open>Routing\<close> (shards by SHA-256, compound keys), \<open>Protocol\<close> (packets, control messages),
  \<open>Serializers\<close> (transactions, partial results, scatter-gather records), \<open>Wire\<close> (client protocol: stream
  sockets, file chunks), \<open>LineBatches\<close> (batches of lines and the row parser). Their theorems are round trips
  and the bounds under which a value can be encoded.

  \<^bold>\<open>Workers.\<close> \<open>LineSplitter\<close> (lines of a file whatever the chunk boundaries; the \<open>csv\<close> reader as its state machine),
  \<open>BatchBuffer\<close> (output batches, planned and applied), \<open>UpstreamEof\<close> (counting EOFs), \<open>EofCoordinator\<close>
  (the protocol that decides when a client is complete, both modes), \<open>Aggregator\<close> and \<open>Processors\<close>
  (\<open>workers/aggregator\<close>, and the processors of \<open>workers/joiner\<close>), \<open>Joiner\<close> (\<open>workers/joiner\<close>), \<open>SumWorker\<close>
  (\<open>workers/sum\<close>). Handlers are modelled whole: unpacking, guards, the function given to the handler, publication,
  commit and the ack or nack they end with. Broker and threads appear as the order of the handlers' calls;
  sending is a parameter that may raise.

  \<^bold>\<open>File splitter\<close> (\<open>workers/file_splitter\<close>). \<open>FileSplitterState\<close> is the state: one code path for chunks and EOFs, run on a copy to
  learn the outputs and on the state to advance it, and the proof that both do the same. \<open>FileSplitterRuns\<close> follows a file from its first
  chunk to its EOF: its lines go out in order in readable batches within the limit. \<open>FileSplitter\<close> is the worker; a chunk
  that was acknowledged is ignored when it comes again.

  \<^bold>\<open>Filters\<close> (\<open>workers/filter\<close>, \<open>common/middleware/sharded_publisher.py\<close>). \<open>ShardedPublisher\<close> says which routing key a
  message gets, and that it is the shard the sequencer numbered it for. \<open>FilterState\<close> is the durable state of the filters of
  queries 1 and 5, of the currency and of the date filter, with its invariant; \<open>FilterConfig\<close> what each configuration reads from
  the environment and the queues, edges and bindings it makes of it; \<open>FilterWorker\<close> the rules, the packets and every handler;
  \<open>FilterRuns\<close> that the worker is durable and what it forwards of a client from the first batch to the EOFs.

  \<^bold>\<open>Query 5\<close> (\<open>workers/filter_q5_usd\<close>, \<open>common/rates\<close>, \<open>rates_service\<close>). \<open>Rates\<close> has the
  rates with their overrides and the reference table; the answers of the HTTP service, the cache file and the JSON text of the rates are
  arguments. \<open>Q5FilterState\<close> is the durable state of the currency filter, \<open>Q5Filter\<close> the worker with every handler, \<open>Q5Runs\<close> its
  durability, what it forwards of a client, and the EOF with which a replica that does not lead misleads the aggregators.

  \<^bold>\<open>Query 3 barrier\<close> (\<open>workers/q3_barrier\<close>). \<open>Q3BarrierState\<close> is the state with its log files, which outlive the process:
  recovery is exact for clients the snapshot names, and doubles the candidates of later ones. \<open>Q3Barrier\<close> is the
  worker: in any interleaving of the two streams it emits the candidates below the threshold, and a send that fails at the
  end is not repaired by the redelivery. \<open>Sent\<close> reads what the outputs of a worker say.

  \<^bold>\<open>Bank name joiner\<close> (\<open>workers/q2_bank_name_joiner\<close>). \<open>BankNameJoiner\<close> has its state, the parsing of account batches, the
  join and both handlers; whatever the order of the two streams and their EOFs, the join is sent with the last message and only then.

  \<^bold>\<open>Scatter-gather\<close> (\<open>workers/scatter_gather\<close>). \<open>Q4Filter\<close>, \<open>Q4Sum\<close>, \<open>Q4Joiner\<close>, \<open>Q4Aggregator\<close> and
  \<open>Q4Deduper\<close> model the state and the worker of the five stages; what they share is in \<open>FanIn\<close> (state changes, batches,
  counters, the locale \<open>closing_state\<close>) and \<open>Coordinated\<close> (states that hold an EOF coordinator, the locale
  \<open>coordinated_state\<close>). All five interpret the durability locales. \<open>Q4Pipeline\<close> composes the stages after the
  sums, \<open>Q4EndToEnd\<close> all of them, and \<open>Q4Reference\<close> models \<open>compute_q4\<close> of \<open>scripts/reference_results.py\<close>: whatever
  the numbers of shards and the order and batches in which records arrive, the dedupers hold the accounts of the reference. Between two
  stages the composition assumes what the other theories are about: every record sent arrives once. The order in which
  Python iterates a set is a parameter that permutes its elements (\<open>iterates\<close>).

  \<^bold>\<open>Monitors.\<close> \<open>Election\<close>, \<open>ElectionHandler\<close>, \<open>ElectionRuns\<close>, \<open>ElectionNetwork\<close> (\<open>monitor/election\<close>): messages, the
  epoch file, every method of the handler, runs with interleaved messages, and a network of handlers in
  which an election ends with one leader. \<open>Monitor\<close> (\<open>monitor/monitor.py\<close>): failure detection and restarts.

  \<^bold>\<open>Termination and fuel.\<close> All functions are total. The JSON parser takes the length of its input as fuel, and
  the round-trip theorem shows it enough for everything the printer writes; socket reads take the number of missing
  bytes, each read returning at least one; nested state changes recurse on their size.

  \<^bold>\<open>Not modelled.\<close> Broker connections, consumer threads, signal handlers, logging;
  time is a parameter. Python's limit of 4300 digits on \<open>int(str)\<close>; pickle (a snapshot file is a readable
  value or unreadable); joiner snapshots of an older version, without the key \<open>closed_order\<close>. Workers with no theory yet:
  file ingestor, gateway, client.
\<close>

end
